(* ===== verification/Prelude.thy ===== *)
theory Prelude
  imports Main "HOL-Library.Word" "HOL-Library.Monad_Syntax"
begin

text \<open>
  The prelude of the development: the machine integer types of the C sources
  (\<^verbatim>\<open>ccan/short_types\<close>), the collections of facts that the component theories extend, and
  the generic lemmas on words, lists and options they share.

  A C function that returns a \<^verbatim>\<open>bool\<close> and fills an out-parameter on success is a HOL function
  into \<open>option\<close>. Where the source can also stop the process (\<^verbatim>\<open>assert\<close>, \<^verbatim>\<open>abort\<close>,
  \<^verbatim>\<open>status_failed\<close>), the model's function returns an \<open>option\<close> whose \<open>None\<close> is that stop, and
  theorems about it prove that \<open>None\<close> is not the result.
\<close>

section \<open>Machine integers\<close>

type_synonym u8 = "8 word"
type_synonym u16 = "16 word"
type_synonym u32 = "32 word"
type_synonym u64 = "64 word"

type_synonym byte = "8 word"
type_synonym bytes = "8 word list"

section \<open>Collections of facts\<close>

named_theorems amount_defs \<open>definitions of the amount operations\<close>
named_theorems flag_simps \<open>evaluation of the HTLC flag tests\<close>
named_theorems chan_simps \<open>what the channel operations leave unchanged\<close>
named_theorems wire_simps \<open>what the wire decoders return on an encoding\<close>

section \<open>Words\<close>

lemma unat_u64_lt: "unat (x :: u64) < 18446744073709551616"
proof -
  have "unat x < 2 ^ LENGTH(64)" by (rule unsigned_less)
  then show ?thesis by simp
qed

lemma unat_u32_lt: "unat (x :: u32) < 4294967296"
proof -
  have "unat x < 2 ^ LENGTH(32)" by (rule unsigned_less)
  then show ?thesis by simp
qed

lemma unat_u64_le_max: "unat (x :: u64) \<le> 18446744073709551615"
  using unat_u64_lt [of x] by linarith

lemma unat_u32_le_max: "unat (x :: u32) \<le> 4294967295"
  using unat_u32_lt [of x] by linarith

lemma unat_u64_add:
  "unat (a + b :: u64) = (unat a + unat b) mod 18446744073709551616"
  by (simp add: unat_word_ariths)

lemma unat_u64_mult:
  "unat (a * b :: u64) = (unat a * unat b) mod 18446744073709551616"
  by (simp add: unat_word_ariths)

lemma unat_u64_add_exact:
  "unat a + unat b < 18446744073709551616 \<Longrightarrow> unat (a + b :: u64) = unat a + unat b"
  by (simp add: unat_u64_add)

lemma unat_u64_mult_exact:
  "unat a * unat b < 18446744073709551616 \<Longrightarrow> unat (a * b :: u64) = unat a * unat b"
  by (simp add: unat_u64_mult)

lemma unat_u64_sub_exact:
  "unat b \<le> unat a \<Longrightarrow> unat (a - b :: u64) = unat a - unat b"
  by (simp add: unat_sub word_le_nat_alt)

lemma unat_ucast_u32_u64 [simp]: "unat (ucast (x :: u32) :: u64) = unat x"
proof -
  have "unat x < 2 ^ 64"
    using unat_u32_lt [of x] by (rule less_trans) simp
  then show ?thesis
    by (simp add: unsigned_ucast_eq take_bit_nat_eq_self)
qed

lemma ucast_ucast_u32_u64 [simp]: "ucast (ucast (x :: u32) :: u64) = x"
  by (rule bit_word_eqI) (simp add: bit_simps)

lemma unat_of_nat_u64:
  "n < 18446744073709551616 \<Longrightarrow> unat (of_nat n :: u64) = n"
  by (simp add: unat_of_nat take_bit_nat_eq_self)

text \<open>A signed 64-bit value is read with \<^const>\<open>sint\<close>; below \<open>2 ^ 63\<close> both readings agree.\<close>

lemma sint_u64_nonneg_iff: "0 \<le> sint (x :: u64) \<longleftrightarrow> unat x < 9223372036854775808"
proof -
  have "0 \<le> sint x \<longleftrightarrow> \<not> bit x 63"
    using bit_last_iff [of x] by (simp add: not_less)
  also have "\<dots> \<longleftrightarrow> unat x < 2 ^ 63"
  proof -
    have "bit x 63 \<longleftrightarrow> odd (unat x div 2 ^ 63)"
      using bit_unsigned_iff [of x 63, where ?'a = nat] by (simp add: bit_iff_odd)
    moreover have "unat x div 2 ^ 63 < 2"
      using unat_u64_lt [of x] by (simp add: div_less_iff_less_mult)
    ultimately show ?thesis
      by (auto simp: div_eq_0_iff less_2_cases_iff)
  qed
  finally show ?thesis by simp
qed

lemma sint_u64_small:
  assumes "unat (x :: u64) < 9223372036854775808"
  shows "sint x = int (unat x)"
proof -
  have "uint x < 2 ^ 63" using assms by (simp flip: of_nat_less_iff [where ?'a = int])
  moreover have "0 \<le> uint x" by simp
  ultimately have "signed_take_bit 63 (uint x) = uint x"
    by (intro signed_take_bit_int_eq_self) linarith+
  then show ?thesis by (simp add: sint_uint)
qed

section \<open>Accumulation with an overflow test\<close>

text \<open>
  The loop \<^verbatim>\<open>for (...) if (!accumulate(&total, x)) return false;\<close> over any checked addition.
\<close>

fun accumulate_all :: "('a \<Rightarrow> 'b \<Rightarrow> 'a option) \<Rightarrow> 'a \<Rightarrow> 'b list \<Rightarrow> 'a option" where
  "accumulate_all add z [] = Some z"
| "accumulate_all add z (x # xs) =
     (case add z x of None \<Rightarrow> None | Some z' \<Rightarrow> accumulate_all add z' xs)"

section \<open>A loop whose body can stop\<close>

fun map_run :: "('a \<Rightarrow> 'b option) \<Rightarrow> 'a list \<Rightarrow> 'b list option" where
  "map_run f [] = Some []"
| "map_run f (x # xs) = do { y \<leftarrow> f x; ys \<leftarrow> map_run f xs; Some (y # ys) }"

lemma map_run_Some: "map_run f xs = Some ys \<longleftrightarrow> list_all2 (\<lambda>x y. f x = Some y) xs ys"
proof (induction xs arbitrary: ys)
  case (Cons x xs)
  then show ?case by (cases ys) (auto simp: bind_eq_Some_conv)
qed auto

lemma map_run_None: "map_run f xs = None \<longleftrightarrow> (\<exists>x \<in> set xs. f x = None)"
  by (induction xs) (auto simp: bind_eq_None_conv)

section \<open>A daemon that writes messages and can exit\<close>

text \<open>
  A call returns a value and the messages it wrote, in order; \<open>Inl\<close> is an exit of the process with a message to
  the peer or to lightningd, \<open>None\<close> a failed assertion. One call after another: the first exit or failed
  assertion is the last, what is written adds up.
\<close>

type_synonym ('e, 'o, 'a) process = "('e + 'a \<times> 'o list) option"

definition exits :: "'e \<Rightarrow> ('e, 'o, 'a) process" where "exits e = Some (Inl e)"

definition done_with :: "'a \<Rightarrow> 'o list \<Rightarrow> ('e, 'o, 'a) process" where "done_with x outs = Some (Inr (x, outs))"

definition and_then :: "('e, 'o, 'a) process \<Rightarrow> ('a \<Rightarrow> ('e, 'o, 'b) process) \<Rightarrow> ('e, 'o, 'b) process" where
  "and_then m f =
     (case m of
        None \<Rightarrow> None
      | Some (Inl e) \<Rightarrow> Some (Inl e)
      | Some (Inr (x, outs)) \<Rightarrow>
          (case f x of
             None \<Rightarrow> None
           | Some (Inl e) \<Rightarrow> Some (Inl e)
           | Some (Inr (y, outs')) \<Rightarrow> Some (Inr (y, outs @ outs'))))"

lemma process_result_simps [simp]: "done_with x outs = Some (Inr (y, b)) \<longleftrightarrow> x = y \<and> outs = b" "exits e \<noteq> Some (Inr r)"
  by (simp_all add: done_with_def exits_def)

lemma and_then_done [simp]: "and_then (done_with x []) f = f x"
  by (simp add: and_then_def done_with_def split: option.split sum.split)

lemma and_then_result:
  "and_then m f = Some (Inr (y, outs)) \<longleftrightarrow>
     (\<exists>x a b. m = Some (Inr (x, a)) \<and> f x = Some (Inr (y, b)) \<and> outs = a @ b)"
  by (auto simp: and_then_def split: option.splits sum.splits)

lemma process_exit_simps [simp]: "done_with x outs \<noteq> Some (Inl e)" "exits e = Some (Inl e') \<longleftrightarrow> e = e'"
  by (auto simp: done_with_def exits_def)

lemma and_then_exit:
  "and_then m f = Some (Inl e) \<longleftrightarrow> m = Some (Inl e) \<or> (\<exists>x a. m = Some (Inr (x, a)) \<and> f x = Some (Inl e))"
  by (auto simp: and_then_def split: option.splits sum.splits)

end
