(* ===== verification/Amounts.thy ===== *)
theory Amounts
  imports Prelude
begin

text \<open>
  Amounts in satoshi (on Sequentia, atoms of an asset) and millisatoshi: the operations of
  \<^verbatim>\<open>common/amount.c\<close> and \<^verbatim>\<open>common/overflows.h\<close> on 64-bit values, with the overflow tests, the
  fee computations and the exchange-rate conversions as the code has them. The two one-field
  structs are datatypes whose constructors are the macros of \<^verbatim>\<open>common/amount.h\<close>.

  An operation that returns \<^verbatim>\<open>false\<close> leaves its out-parameter alone: \<open>None\<close>. An operation that
  can also stop the process returns a \<open>run\<close>, whose \<open>None\<close> is a failed \<^verbatim>\<open>assert\<close>, \<^verbatim>\<open>abort\<close> or a
  division by zero. The operations on \<^verbatim>\<open>double\<close> are not modelled.
\<close>

section \<open>The operations\<close>

type_synonym 'a run = "'a option"

datatype amount_sat = AMOUNT_SAT (satoshis: u64)
datatype amount_msat = AMOUNT_MSAT (millisatoshis: u64)

record amount_asset =
  asset_value :: u64
  asset_tag :: bytes

subsection \<open>\<^verbatim>\<open>common/overflows.h\<close>\<close>

definition add_overflows_u64 :: "u64 \<Rightarrow> u64 \<Rightarrow> bool" where
  "add_overflows_u64 a b \<longleftrightarrow> a + b < a"

definition mul_overflows_u64 :: "u64 \<Rightarrow> u64 \<Rightarrow> bool" where
  "mul_overflows_u64 a b = (if a = 0 then False else (a * b) div a \<noteq> b)"

definition assign_overflow_u8 :: "u64 \<Rightarrow> u8 option" where
  "assign_overflow_u8 v = (let d = ucast v in if ucast d = v then Some d else None)"

definition assign_overflow_u16 :: "u64 \<Rightarrow> u16 option" where
  "assign_overflow_u16 v = (let d = ucast v in if ucast d = v then Some d else None)"

definition assign_overflow_u32 :: "u64 \<Rightarrow> u32 option" where
  "assign_overflow_u32 v = (let d = ucast v in if ucast d = v then Some d else None)"

subsection \<open>Conversions, sums and differences\<close>

abbreviation MSAT_PER_SAT :: u64 where "MSAT_PER_SAT \<equiv> 1000"
abbreviation SAT_PER_BTC :: u64 where "SAT_PER_BTC \<equiv> 100000000"
abbreviation MSAT_PER_BTC :: u64 where "MSAT_PER_BTC \<equiv> 100000000000"
abbreviation EXCHANGE_RATE_SCALE :: u64 where "EXCHANGE_RATE_SCALE \<equiv> 100000000"

definition amount_sat_to_msat :: "amount_sat \<Rightarrow> amount_msat option" where
  "amount_sat_to_msat sat =
     (if mul_overflows_u64 (satoshis sat) MSAT_PER_SAT then None
      else Some (AMOUNT_MSAT (satoshis sat * MSAT_PER_SAT)))"

definition amount_msat_to_sat :: "amount_msat \<Rightarrow> amount_sat option" where
  "amount_msat_to_sat msat =
     (if millisatoshis msat mod MSAT_PER_SAT \<noteq> 0 then None
      else Some (AMOUNT_SAT (millisatoshis msat div MSAT_PER_SAT)))"

definition amount_msat_to_sat_round_down :: "amount_msat \<Rightarrow> amount_sat" where
  "amount_msat_to_sat_round_down msat = AMOUNT_SAT (millisatoshis msat div MSAT_PER_SAT)"

definition amount_msat_to_sat_remainder :: "amount_msat \<Rightarrow> amount_msat" where
  "amount_msat_to_sat_remainder msat = AMOUNT_MSAT (millisatoshis msat mod MSAT_PER_SAT)"

definition amount_msat_add :: "amount_msat \<Rightarrow> amount_msat \<Rightarrow> amount_msat option" where
  "amount_msat_add a b =
     (if add_overflows_u64 (millisatoshis a) (millisatoshis b) then None
      else Some (AMOUNT_MSAT (millisatoshis a + millisatoshis b)))"

definition amount_msat_sub :: "amount_msat \<Rightarrow> amount_msat \<Rightarrow> amount_msat option" where
  "amount_msat_sub a b =
     (if millisatoshis a < millisatoshis b then None
      else Some (AMOUNT_MSAT (millisatoshis a - millisatoshis b)))"

definition amount_sat_add :: "amount_sat \<Rightarrow> amount_sat \<Rightarrow> amount_sat option" where
  "amount_sat_add a b =
     (if add_overflows_u64 (satoshis a) (satoshis b) then None
      else Some (AMOUNT_SAT (satoshis a + satoshis b)))"

definition amount_sat_sub :: "amount_sat \<Rightarrow> amount_sat \<Rightarrow> amount_sat option" where
  "amount_sat_sub a b =
     (if satoshis a < satoshis b then None
      else Some (AMOUNT_SAT (satoshis a - satoshis b)))"

text \<open>\<^verbatim>\<open>a += b\<close> and \<^verbatim>\<open>a -= b\<close>: the new \<^verbatim>\<open>*a\<close>, or \<open>None\<close> with \<^verbatim>\<open>*a\<close> left alone.\<close>

definition amount_msat_accumulate :: "amount_msat \<Rightarrow> amount_msat \<Rightarrow> amount_msat option" where
  "amount_msat_accumulate a b = amount_msat_add a b"

definition amount_msat_deduct :: "amount_msat \<Rightarrow> amount_msat \<Rightarrow> amount_msat option" where
  "amount_msat_deduct a b = amount_msat_sub a b"

definition amount_msat_sub_sat :: "amount_msat \<Rightarrow> amount_sat \<Rightarrow> amount_msat option" where
  "amount_msat_sub_sat a b =
     (case amount_sat_to_msat b of None \<Rightarrow> None | Some msatb \<Rightarrow> amount_msat_sub a msatb)"

definition amount_msat_deduct_sat :: "amount_msat \<Rightarrow> amount_sat \<Rightarrow> amount_msat option" where
  "amount_msat_deduct_sat a b = amount_msat_sub_sat a b"

definition amount_sat_sub_msat :: "amount_sat \<Rightarrow> amount_msat \<Rightarrow> amount_msat option" where
  "amount_sat_sub_msat a b =
     (case amount_sat_to_msat a of None \<Rightarrow> None | Some msata \<Rightarrow> amount_msat_sub msata b)"

definition amount_msat_add_sat :: "amount_msat \<Rightarrow> amount_sat \<Rightarrow> amount_msat option" where
  "amount_msat_add_sat a b =
     (case amount_sat_to_msat b of None \<Rightarrow> None | Some msatb \<Rightarrow> amount_msat_add a msatb)"

text \<open>An \<^verbatim>\<open>s64\<close> is a 64-bit word read with \<^const>\<open>sint\<close>.\<close>

definition amount_msat_add_sat_s64 :: "amount_msat \<Rightarrow> u64 \<Rightarrow> amount_msat option" where
  "amount_msat_add_sat_s64 a b =
     (if sint b < 0 then amount_msat_sub_sat a (AMOUNT_SAT (- b))
      else amount_msat_add_sat a (AMOUNT_SAT b))"

definition amount_sat_add_sat_s64 :: "amount_sat \<Rightarrow> u64 \<Rightarrow> amount_sat option" where
  "amount_sat_add_sat_s64 a b =
     (if sint b < 0 then amount_sat_sub a (AMOUNT_SAT (- b))
      else amount_sat_add a (AMOUNT_SAT b))"

definition amount_msat_can_add_sat_s64 :: "amount_msat \<Rightarrow> u64 \<Rightarrow> bool" where
  "amount_msat_can_add_sat_s64 a b \<longleftrightarrow> amount_msat_add_sat_s64 a b \<noteq> None"

subsection \<open>Comparisons\<close>

definition amount_sat_eq :: "amount_sat \<Rightarrow> amount_sat \<Rightarrow> bool" where
  "amount_sat_eq a b \<longleftrightarrow> satoshis a = satoshis b"

definition amount_sat_is_zero :: "amount_sat \<Rightarrow> bool" where
  "amount_sat_is_zero a \<longleftrightarrow> satoshis a = 0"

definition amount_msat_is_zero :: "amount_msat \<Rightarrow> bool" where
  "amount_msat_is_zero a \<longleftrightarrow> millisatoshis a = 0"

definition amount_msat_eq :: "amount_msat \<Rightarrow> amount_msat \<Rightarrow> bool" where
  "amount_msat_eq a b \<longleftrightarrow> millisatoshis a = millisatoshis b"

definition amount_sat_greater :: "amount_sat \<Rightarrow> amount_sat \<Rightarrow> bool" where
  "amount_sat_greater a b \<longleftrightarrow> satoshis a > satoshis b"

definition amount_msat_greater :: "amount_msat \<Rightarrow> amount_msat \<Rightarrow> bool" where
  "amount_msat_greater a b \<longleftrightarrow> millisatoshis a > millisatoshis b"

definition amount_sat_greater_eq :: "amount_sat \<Rightarrow> amount_sat \<Rightarrow> bool" where
  "amount_sat_greater_eq a b \<longleftrightarrow> satoshis a \<ge> satoshis b"

definition amount_msat_greater_eq :: "amount_msat \<Rightarrow> amount_msat \<Rightarrow> bool" where
  "amount_msat_greater_eq a b \<longleftrightarrow> millisatoshis a \<ge> millisatoshis b"

definition amount_sat_less :: "amount_sat \<Rightarrow> amount_sat \<Rightarrow> bool" where
  "amount_sat_less a b \<longleftrightarrow> satoshis a < satoshis b"

definition amount_msat_less :: "amount_msat \<Rightarrow> amount_msat \<Rightarrow> bool" where
  "amount_msat_less a b \<longleftrightarrow> millisatoshis a < millisatoshis b"

definition amount_sat_less_eq :: "amount_sat \<Rightarrow> amount_sat \<Rightarrow> bool" where
  "amount_sat_less_eq a b \<longleftrightarrow> satoshis a \<le> satoshis b"

definition amount_msat_less_eq :: "amount_msat \<Rightarrow> amount_msat \<Rightarrow> bool" where
  "amount_msat_less_eq a b \<longleftrightarrow> millisatoshis a \<le> millisatoshis b"

definition amount_msat_greater_sat :: "amount_msat \<Rightarrow> amount_sat \<Rightarrow> bool" where
  "amount_msat_greater_sat msat sat =
     (case amount_sat_to_msat sat of None \<Rightarrow> False
      | Some m \<Rightarrow> millisatoshis msat > millisatoshis m)"

definition amount_msat_greater_eq_sat :: "amount_msat \<Rightarrow> amount_sat \<Rightarrow> bool" where
  "amount_msat_greater_eq_sat msat sat =
     (case amount_sat_to_msat sat of None \<Rightarrow> False
      | Some m \<Rightarrow> millisatoshis msat \<ge> millisatoshis m)"

definition amount_msat_less_sat :: "amount_msat \<Rightarrow> amount_sat \<Rightarrow> bool" where
  "amount_msat_less_sat msat sat =
     (case amount_sat_to_msat sat of None \<Rightarrow> False
      | Some m \<Rightarrow> millisatoshis msat < millisatoshis m)"

definition amount_msat_less_eq_sat :: "amount_msat \<Rightarrow> amount_sat \<Rightarrow> bool" where
  "amount_msat_less_eq_sat msat sat =
     (case amount_sat_to_msat sat of None \<Rightarrow> False
      | Some m \<Rightarrow> millisatoshis msat \<le> millisatoshis m)"

definition amount_msat_eq_sat :: "amount_msat \<Rightarrow> amount_sat \<Rightarrow> bool" where
  "amount_msat_eq_sat msat sat =
     (case amount_sat_to_msat sat of None \<Rightarrow> False
      | Some m \<Rightarrow> millisatoshis msat = millisatoshis m)"

definition amount_msat_min :: "amount_msat \<Rightarrow> amount_msat \<Rightarrow> amount_msat" where
  "amount_msat_min a b = (if amount_msat_less a b then a else b)"

definition amount_msat_max :: "amount_msat \<Rightarrow> amount_msat \<Rightarrow> amount_msat" where
  "amount_msat_max a b = (if amount_msat_greater a b then a else b)"

definition amount_msat_to_u32 :: "amount_msat \<Rightarrow> u32 option" where
  "amount_msat_to_u32 msat =
     (if amount_msat_greater_eq msat (AMOUNT_MSAT 0x100000000) then None
      else Some (ucast (millisatoshis msat)))"

subsection \<open>Products and quotients\<close>

definition amount_msat_ratio_floor :: "amount_msat \<Rightarrow> amount_msat \<Rightarrow> u64 run" where
  "amount_msat_ratio_floor a b =
     (if millisatoshis b = 0 then None else Some (millisatoshis a div millisatoshis b))"

definition amount_msat_ratio_ceil :: "amount_msat \<Rightarrow> amount_msat \<Rightarrow> u64 run" where
  "amount_msat_ratio_ceil a b =
     (if millisatoshis b = 0 then None
      else Some ((millisatoshis a + millisatoshis b - 1) div millisatoshis b))"

definition amount_msat_div :: "amount_msat \<Rightarrow> u64 \<Rightarrow> amount_msat run" where
  "amount_msat_div msat d =
     (if d = 0 then None else Some (AMOUNT_MSAT (millisatoshis msat div d)))"

definition amount_msat_div_ceil :: "amount_msat \<Rightarrow> u64 \<Rightarrow> amount_msat run" where
  "amount_msat_div_ceil msat d =
     (if d = 0 then None
      else let res = millisatoshis msat div d
           in Some (AMOUNT_MSAT (res + (if d * res = millisatoshis msat then 0 else 1))))"

definition amount_sat_div :: "amount_sat \<Rightarrow> u64 \<Rightarrow> amount_sat run" where
  "amount_sat_div sat d = (if d = 0 then None else Some (AMOUNT_SAT (satoshis sat div d)))"

definition amount_sat_mul :: "amount_sat \<Rightarrow> u64 \<Rightarrow> amount_sat option" where
  "amount_sat_mul sat m =
     (if mul_overflows_u64 (satoshis sat) m then None else Some (AMOUNT_SAT (satoshis sat * m)))"

definition amount_msat_mul :: "amount_msat \<Rightarrow> u64 \<Rightarrow> amount_msat option" where
  "amount_msat_mul msat m =
     (if mul_overflows_u64 (millisatoshis msat) m then None
      else Some (AMOUNT_MSAT (millisatoshis msat * m)))"

text \<open>The outer \<open>None\<close> is the division by a zero \<^verbatim>\<open>div\<close>, the inner one the \<^verbatim>\<open>false\<close> return.\<close>

definition amount_msat_mul_div :: "amount_msat \<Rightarrow> u64 \<Rightarrow> u64 \<Rightarrow> amount_msat option run" where
  "amount_msat_mul_div msat m d =
     (if mul_overflows_u64 m d then Some None
      else if d = 0 then None
      else let x = millisatoshis msat
           in Some (Some (AMOUNT_MSAT (m * (x div d) + (m * (x mod d)) div d))))"

subsection \<open>Routing fees\<close>

definition amount_msat_fee :: "amount_msat \<Rightarrow> u32 \<Rightarrow> u32 \<Rightarrow> amount_msat option run" where
  "amount_msat_fee amt fee_base_msat fee_proportional_millionths =
     do { r \<leftarrow> amount_msat_mul_div amt (ucast fee_proportional_millionths) 1000000;
          Some (case r of None \<Rightarrow> None
                | Some fee_prop \<Rightarrow> amount_msat_add (AMOUNT_MSAT (ucast fee_base_msat)) fee_prop) }"

definition amount_msat_add_fee :: "amount_msat \<Rightarrow> u32 \<Rightarrow> u32 \<Rightarrow> amount_msat option run" where
  "amount_msat_add_fee amt fee_base_msat fee_proportional_millionths =
     do { r \<leftarrow> amount_msat_fee amt fee_base_msat fee_proportional_millionths;
          Some (case r of None \<Rightarrow> None | Some fee \<Rightarrow> amount_msat_add amt fee) }"

definition within_fee :: "amount_msat \<Rightarrow> amount_msat \<Rightarrow> u32 \<Rightarrow> u32 \<Rightarrow> bool run" where
  "within_fee inp out fee_base_msat fee_proportional_millionths =
     do { r \<leftarrow> amount_msat_add_fee out fee_base_msat fee_proportional_millionths;
          Some (case r of None \<Rightarrow> False | Some with_fee \<Rightarrow> amount_msat_less_eq with_fee inp) }"

text \<open>
  The divisor \<^verbatim>\<open>1000000 + fee_proportional_millionths\<close> is a sum of an \<^verbatim>\<open>int\<close> and a \<^verbatim>\<open>u32\<close>: it
  is taken in 32 bits before it is widened.
\<close>

definition amount_msat_sub_fee :: "amount_msat \<Rightarrow> u32 \<Rightarrow> u32 \<Rightarrow> amount_msat run" where
  "amount_msat_sub_fee inp fee_base_msat fee_proportional_millionths =
     (case amount_msat_sub inp (AMOUNT_MSAT (ucast fee_base_msat)) of
        None \<Rightarrow> Some (AMOUNT_MSAT 0)
      | Some out0 \<Rightarrow>
          do { r \<leftarrow> amount_msat_mul_div out0 1000000
                       (ucast (1000000 + fee_proportional_millionths :: u32));
               case r of
                 None \<Rightarrow> Some (AMOUNT_MSAT 0)
               | Some out \<Rightarrow>
                   do { ok \<leftarrow> within_fee inp out fee_base_msat fee_proportional_millionths;
                        if \<not> ok then None
                        else case amount_msat_add out (AMOUNT_MSAT 1) of
                               None \<Rightarrow> Some out
                             | Some out_plus_one \<Rightarrow>
                                 do { ok1 \<leftarrow> within_fee inp out_plus_one fee_base_msat
                                               fee_proportional_millionths;
                                      Some (if ok1 then out_plus_one else out) } } })"

section \<open>What the overflow tests decide\<close>

lemma add_overflows_u64_iff: "add_overflows_u64 a b \<longleftrightarrow> 2 ^ 64 \<le> unat a + unat b"
proof -
  have "a + b < a \<longleftrightarrow> \<not> unat a + unat b < 2 ^ 64"
    using unat_u64_lt [of a] unat_u64_lt [of b] unat_plus_if' [of a b]
    by (simp add: word_less_nat_alt split: if_splits)
  then show ?thesis by (simp add: add_overflows_u64_def not_less)
qed

lemma mul_overflows_u64_iff: "mul_overflows_u64 a b \<longleftrightarrow> 2 ^ 64 \<le> unat a * unat b"
proof (cases "a = 0")
  case True
  then show ?thesis by (simp add: mul_overflows_u64_def)
next
  case False
  then have a: "0 < unat a" by (simp add: unat_gt_0)
  show ?thesis
  proof (cases "unat a * unat b < 2 ^ 64")
    case True
    then have "unat ((a * b) div a) = unat b"
      using a by (simp add: unat_div unat_u64_mult_exact)
    then show ?thesis
      using True False by (simp add: mul_overflows_u64_def word_unat_eq_iff)
  next
    case ov: False
    have "unat (a * b) < unat a * unat b"
      using ov unat_u64_lt [of "a * b"] by simp
    then have "unat (a * b) div unat a < unat b"
      by (simp add: div_less_iff_less_mult a mult.commute)
    then show ?thesis
      using ov False by (auto simp: mul_overflows_u64_def unat_div word_unat_eq_iff)
  qed
qed

lemma assign_overflow_u32_iff:
  "assign_overflow_u32 v = Some d \<longleftrightarrow> unat v < 2 ^ 32 \<and> unat d = unat v"
proof -
  have c: "unat (ucast (ucast v :: u32) :: u64) = unat v mod 2 ^ 32"
    by simp (simp add: unsigned_ucast_eq take_bit_eq_mod)
  have d: "unat (ucast v :: u32) = unat v mod 2 ^ 32"
    by (simp add: unsigned_ucast_eq take_bit_eq_mod)
  have "ucast (ucast v :: u32) = v \<longleftrightarrow> unat v < 2 ^ 32"
    unfolding word_unat_eq_iff c by (simp add: mod_eq_self_iff_div_eq_0 div_eq_0_iff)
  then show ?thesis
    using d by (auto simp: assign_overflow_u32_def Let_def word_unat_eq_iff)
qed

lemma amount_sat_to_msat_eq:
  "amount_sat_to_msat s =
     (if unat (satoshis s) * 1000 < 2 ^ 64 then Some (AMOUNT_MSAT (satoshis s * 1000)) else None)"
  by (simp add: amount_sat_to_msat_def mul_overflows_u64_iff not_le [symmetric])

lemma amount_sat_to_msat_Some:
  "amount_sat_to_msat s = Some m \<Longrightarrow> unat (millisatoshis m) = unat (satoshis s) * 1000"
  by (auto simp: amount_sat_to_msat_eq unat_u64_mult split: if_splits)

section \<open>Checked arithmetic as an interface\<close>

text \<open>
  What the rest of the code relies on when it adds and subtracts amounts: addition fails exactly
  when the sum does not fit, subtraction exactly when the difference would be negative, and
  otherwise both are exact. Satoshi and millisatoshi amounts are the two providers.
\<close>

locale checked_amount =
  fixes val :: "'a \<Rightarrow> nat"
    and add :: "'a \<Rightarrow> 'a \<Rightarrow> 'a option"
    and sub :: "'a \<Rightarrow> 'a \<Rightarrow> 'a option"
    and bound :: nat
  assumes val_less: "val a < bound"
    and val_inj: "val a = val b \<Longrightarrow> a = b"
    and add_None: "add a b = None \<longleftrightarrow> bound \<le> val a + val b"
    and add_Some: "add a b = Some c \<Longrightarrow> val c = val a + val b"
    and sub_None: "sub a b = None \<longleftrightarrow> val a < val b"
    and sub_Some: "sub a b = Some c \<Longrightarrow> val c = val a - val b"
begin

lemma add_iff: "add a b = Some c \<longleftrightarrow> val c = val a + val b"
proof
  assume c: "val c = val a + val b"
  then have "add a b \<noteq> None"
    using add_None [of a b] val_less [of c] by simp
  then obtain d where d: "add a b = Some d" by blast
  then have "val d = val c" using add_Some [of a b d] c by simp
  then show "add a b = Some c" using d val_inj by blast
qed (rule add_Some)

lemma sub_iff: "sub a b = Some c \<longleftrightarrow> val a = val c + val b"
proof
  assume c: "val a = val c + val b"
  then have "sub a b \<noteq> None" using sub_None [of a b] by simp
  then obtain d where d: "sub a b = Some d" by blast
  then have "val d = val c" using sub_Some [of a b d] c by simp
  then show "sub a b = Some c" using d val_inj by blast
next
  assume "sub a b = Some c"
  then show "val a = val c + val b"
    using sub_Some [of a b c] sub_None [of a b] by auto
qed

lemma sub_undoes_add: "add a b = Some c \<Longrightarrow> sub c b = Some a"
  by (simp add: add_iff sub_iff)

lemma add_undoes_sub: "sub a b = Some c \<Longrightarrow> add c b = Some a"
  by (simp add: add_iff sub_iff)

lemma add_commute: "add a b = add b a"
proof (cases "add b a")
  case None
  then have "add a b = None" by (simp add: add_None add.commute)
  with None show ?thesis by simp
next
  case (Some c)
  then have "add a b = Some c" by (simp add: add_iff add.commute)
  with Some show ?thesis by simp
qed

lemma accumulate_all_iff:
  "accumulate_all add z xs = Some t \<longleftrightarrow> val t = val z + sum_list (map val xs)"
proof (induction xs arbitrary: z)
  case Nil
  show ?case by (auto dest: val_inj)
next
  case (Cons x xs)
  show ?case
  proof (cases "add z x")
    case None
    then have "bound \<le> val z + val x" by (simp add: add_None)
    then show ?thesis using None val_less [of t] by auto
  next
    case (Some y)
    then have "val y = val z + val x" by (rule add_Some)
    then show ?thesis using Some Cons.IH [of y] by (simp add: add.assoc)
  qed
qed

lemma accumulate_all_None:
  assumes "accumulate_all add z xs = None"
  shows "bound \<le> val z + sum_list (map val xs)"
  using assms
proof (induction xs arbitrary: z)
  case (Cons x xs)
  show ?case
  proof (cases "add z x")
    case None
    then show ?thesis by (simp add: add_None)
  next
    case (Some y)
    then show ?thesis using Cons.IH [of y] Cons.prems add_Some [OF Some] by (simp add: add.assoc)
  qed
qed simp

end

abbreviation msat :: "amount_msat \<Rightarrow> nat" where
  "msat a \<equiv> unat (millisatoshis a)"

abbreviation sat :: "amount_sat \<Rightarrow> nat" where
  "sat a \<equiv> unat (satoshis a)"

interpretation msat_arith: checked_amount msat amount_msat_add amount_msat_sub "2 ^ 64"
proof unfold_locales
  fix a b c
  show "msat a < 2 ^ 64" using unat_u64_lt by simp
  show "msat a = msat b \<Longrightarrow> a = b" by (simp add: word_unat_eq_iff amount_msat.expand)
  show "amount_msat_add a b = None \<longleftrightarrow> 2 ^ 64 \<le> msat a + msat b"
    by (simp add: amount_msat_add_def add_overflows_u64_iff)
  show "amount_msat_add a b = Some c \<Longrightarrow> msat c = msat a + msat b"
    by (auto simp: amount_msat_add_def add_overflows_u64_iff unat_u64_add split: if_splits)
  show "amount_msat_sub a b = None \<longleftrightarrow> msat a < msat b"
    by (simp add: amount_msat_sub_def word_less_nat_alt)
  show "amount_msat_sub a b = Some c \<Longrightarrow> msat c = msat a - msat b"
    by (auto simp: amount_msat_sub_def word_less_nat_alt unat_u64_sub_exact split: if_splits)
qed

interpretation sat_arith: checked_amount sat amount_sat_add amount_sat_sub "2 ^ 64"
proof unfold_locales
  fix a b c
  show "sat a < 2 ^ 64" using unat_u64_lt by simp
  show "sat a = sat b \<Longrightarrow> a = b" by (simp add: word_unat_eq_iff amount_sat.expand)
  show "amount_sat_add a b = None \<longleftrightarrow> 2 ^ 64 \<le> sat a + sat b"
    by (simp add: amount_sat_add_def add_overflows_u64_iff)
  show "amount_sat_add a b = Some c \<Longrightarrow> sat c = sat a + sat b"
    by (auto simp: amount_sat_add_def add_overflows_u64_iff unat_u64_add split: if_splits)
  show "amount_sat_sub a b = None \<longleftrightarrow> sat a < sat b"
    by (simp add: amount_sat_sub_def word_less_nat_alt)
  show "amount_sat_sub a b = Some c \<Longrightarrow> sat c = sat a - sat b"
    by (auto simp: amount_sat_sub_def word_less_nat_alt unat_u64_sub_exact split: if_splits)
qed

section \<open>Routing fees\<close>

lemma mul_div_decompose:
  fixes m x d :: nat
  assumes "0 < d"
  shows "m * (x div d) + (m * (x mod d)) div d = (m * x) div d"
proof -
  have "m * x = (m * (x div d)) * d + m * (x mod d)"
    by (metis add_mult_distrib2 div_mult_mod_eq mult.assoc)
  then show ?thesis
    using assms by (simp add: add.commute)
qed

lemma amount_msat_mul_div_spec:
  assumes "unat m * unat d < 2 ^ 64" and "d \<noteq> 0"
  shows "\<exists>r. amount_msat_mul_div x m d = Some (Some r)
           \<and> msat r = (unat m * msat x div unat d) mod 2 ^ 64"
proof -
  have d: "0 < unat d" using assms(2) by (simp add: unat_gt_0)
  have "unat m * (msat x mod unat d) \<le> unat m * unat d"
    using d by (simp add: less_imp_le)
  then have "unat m * (msat x mod unat d) < 2 ^ 64"
    using assms(1) by (rule le_less_trans)
  then have e: "unat (m * (millisatoshis x mod d)) = unat m * (msat x mod unat d)"
    by (simp add: unat_u64_mult unat_mod)
  have "unat (m * (millisatoshis x div d) + (m * (millisatoshis x mod d)) div d)
      = (unat m * (msat x div unat d) + unat m * (msat x mod unat d) div unat d) mod 2 ^ 64"
    by (simp add: unat_u64_add unat_u64_mult [of m "millisatoshis x div d"] unat_div e mod_simps)
  then show ?thesis
    using assms d by (simp add: amount_msat_mul_div_def mul_overflows_u64_iff Let_def mul_div_decompose)
qed

lemma amount_msat_mul_div_exact:
  assumes "unat m * unat d < 2 ^ 64" and "d \<noteq> 0" and "unat m * msat x div unat d < 2 ^ 64"
  shows "\<exists>r. amount_msat_mul_div x m d = Some (Some r) \<and> msat r = unat m * msat x div unat d"
  using amount_msat_mul_div_spec [OF assms(1,2), of x] assms(3) by auto


lemma amount_msat_fee_spec:
  assumes "unat fb + unat fp * msat a div 1000000 < 2 ^ 64"
  shows "\<exists>f. amount_msat_fee a fb fp = Some (Some f) \<and> msat f = unat fb + unat fp * msat a div 1000000"
proof -
  have "unat (ucast fp :: u64) * unat (1000000 :: u64) < 2 ^ 64"
    using unat_u32_lt [of fp] by simp
  then obtain r where r: "amount_msat_mul_div a (ucast fp) 1000000 = Some (Some r)"
      and v: "msat r = unat fp * msat a div 1000000"
    using amount_msat_mul_div_exact [of "ucast fp" 1000000 a] assms by auto
  obtain f where "amount_msat_add (AMOUNT_MSAT (ucast fb)) r = Some f"
    using msat_arith.add_None [of "AMOUNT_MSAT (ucast fb)" r] v assms by force
  moreover from this have "msat f = unat fb + unat fp * msat a div 1000000"
    using msat_arith.add_Some v by fastforce
  ultimately show ?thesis using r by (simp add: amount_msat_fee_def)
qed

lemma amount_msat_add_fee_spec:
  assumes "unat fb + unat fp * msat a div 1000000 < 2 ^ 64"
  shows "\<exists>r. amount_msat_add_fee a fb fp = Some r
           \<and> (\<forall>w. r = Some w \<longleftrightarrow> msat w = msat a + (unat fb + unat fp * msat a div 1000000))"
proof -
  obtain f where f: "amount_msat_fee a fb fp = Some (Some f)"
      and v: "msat f = unat fb + unat fp * msat a div 1000000"
    using amount_msat_fee_spec [OF assms] by blast
  show ?thesis
    using f v by (simp add: amount_msat_add_fee_def msat_arith.add_iff)
qed

lemma within_fee_iff:
  assumes "unat fb + unat fp * msat out div 1000000 < 2 ^ 64"
  shows "within_fee inp out fb fp =
           Some (msat out + unat fb + unat fp * msat out div 1000000 \<le> msat inp)"
proof -
  let ?t = "msat out + (unat fb + unat fp * msat out div 1000000)"
  obtain r where r: "amount_msat_add_fee out fb fp = Some r"
      and w: "\<And>w. r = Some w \<longleftrightarrow> msat w = ?t"
    using amount_msat_add_fee_spec [OF assms] by blast
  show ?thesis
  proof (cases r)
    case None
    have "\<not> ?t \<le> msat inp"
    proof
      assume "?t \<le> msat inp"
      then have "msat (AMOUNT_MSAT (of_nat ?t)) = ?t"
        using unat_u64_lt [of "millisatoshis inp"] by (simp add: unat_of_nat_u64 del: of_nat_add)
      with w None show False by blast
    qed
    then show ?thesis using r None by (simp add: within_fee_def)
  next
    case (Some v)
    then have "msat v = ?t" using w by blast
    then show ?thesis
      using r Some by (simp add: within_fee_def amount_msat_less_eq_def word_le_nat_alt add.assoc)
  qed
qed


text \<open>The integer facts behind the estimate of \<^verbatim>\<open>amount_msat_sub_fee\<close> and its single correction.\<close>

lemma scaled_out_fits:
  fixes M p X :: nat
  assumes "0 < M"
  shows "M * X div (M + p) + p * (M * X div (M + p)) div M \<le> X"
proof -
  let ?o = "M * X div (M + p)"
  have le: "?o * (M + p) \<le> M * X" by (simp add: div_times_less_eq_dividend)
  have "M * (?o + p * ?o div M) = M * ?o + M * (p * ?o div M)" by (simp add: algebra_simps)
  also have "\<dots> \<le> M * ?o + p * ?o" by simp
  also have "\<dots> \<le> M * X" using le by (simp add: algebra_simps)
  finally show ?thesis using assms by simp
qed

lemma scaled_out_off_by_one:
  fixes M p X out :: nat
  assumes "0 < M" and fits: "out + p * out div M \<le> X"
  shows "out \<le> M * X div (M + p) + 1"
proof (rule ccontr)
  let ?o = "M * X div (M + p)"
  assume "\<not> ?thesis"
  then have "?o + 2 \<le> out" by simp
  then have "(M + p) * (?o + 2) \<le> (M + p) * out" by (rule mult_le_mono2)
  moreover have "M * X < (M + p) * (?o + 1)"
    using assms(1) dividend_less_div_times [of "M + p" "M * X"]
    by (simp add: algebra_simps)
  ultimately have "M * X + M < (M + p) * out" by (simp add: algebra_simps)
  moreover have "p * out < M * (p * out div M + 1)"
    using assms(1) dividend_less_div_times [of M "p * out"] by (simp add: algebra_simps)
  moreover have "M * (out + p * out div M) \<le> M * X" using fits by (rule mult_le_mono2)
  ultimately show False by (simp add: algebra_simps)
qed

lemma fee_fits_mono:
  fixes M p :: nat
  assumes "o1 \<le> o2"
  shows "o1 + p * o1 div M \<le> o2 + p * o2 div M"
  using assms by (intro add_mono div_le_mono mult_le_mono2)

text \<open>The contract the header states: the largest output that leaves room for its own fee.\<close>

definition largest_output :: "nat \<Rightarrow> nat \<Rightarrow> nat \<Rightarrow> nat \<Rightarrow> bool" where
  "largest_output inp fb fp out \<longleftrightarrow>
     out + fb + fp * out div 1000000 \<le> inp
     \<and> (\<forall>x. x + fb + fp * x div 1000000 \<le> inp \<longrightarrow> x \<le> out)"

lemma largest_output_from_estimate:
  assumes "fb \<le> inp" and out: "out = 1000000 * (inp - fb) div (1000000 + fp)"
  shows "largest_output inp fb fp
           (if out + 1 + fb + fp * (out + 1) div 1000000 \<le> inp then out + 1 else out)"
proof -
  have fit: "out + fb + fp * out div 1000000 \<le> inp"
    using scaled_out_fits [of 1000000 "inp - fb" fp] assms by simp
  have off: "x \<le> out + 1" if "x + fb + fp * x div 1000000 \<le> inp" for x
    using scaled_out_off_by_one [of 1000000 x fp "inp - fb"] that out by simp
  show ?thesis
  proof (cases "out + 1 + fb + fp * (out + 1) div 1000000 \<le> inp")
    case True
    then show ?thesis using off by (auto simp: largest_output_def)
  next
    case False
    have "x \<le> out" if "x + fb + fp * x div 1000000 \<le> inp" for x
    proof (rule ccontr)
      assume "\<not> x \<le> out"
      then have "out + 1 + fp * (out + 1) div 1000000 \<le> x + fp * x div 1000000"
        by (intro fee_fits_mono) simp
      with that False show False by simp
    qed
    then show ?thesis using fit False by (simp add: largest_output_def)
  qed
qed


lemma amount_msat_sub_fee_estimate:
  fixes fb fp :: u32
  assumes fb: "unat fb \<le> msat inp" and fp: "unat fp < 2 ^ 32 - 1000000"
  shows "\<exists>out0 out. amount_msat_sub inp (AMOUNT_MSAT (ucast fb)) = Some out0
           \<and> amount_msat_mul_div out0 1000000 (ucast (1000000 + fp :: u32)) = Some (Some out)
           \<and> msat out = 1000000 * (msat inp - unat fb) div (1000000 + unat fp)"
proof -
  obtain out0 where o0: "amount_msat_sub inp (AMOUNT_MSAT (ucast fb)) = Some out0"
    using msat_arith.sub_None [of inp "AMOUNT_MSAT (ucast fb)"] fb
    by (cases "amount_msat_sub inp (AMOUNT_MSAT (ucast fb))") auto
  then have v0: "msat out0 = msat inp - unat fb" using msat_arith.sub_Some by fastforce
  have d: "unat (1000000 + fp :: u32) = 1000000 + unat fp"
    using fp by (subst unat_add_lem [THEN iffD1]) simp_all
  then have "1000000 + fp \<noteq> 0" by (metis add_is_0 unat_0 zero_neq_numeral)
  then have "ucast (1000000 + fp :: u32) \<noteq> (0 :: u64)"
    by (metis unat_0 unat_0_iff unat_ucast_u32_u64)
  moreover have "1000000 * (msat inp - unat fb) div (1000000 + unat fp) \<le> msat inp"
    using scaled_out_fits [of 1000000 "msat inp - unat fb" "unat fp"] by linarith
  moreover have "unat (1000000 :: u64) * unat (ucast (1000000 + fp :: u32) :: u64) < 2 ^ 64"
    using fp d by simp
  ultimately obtain out where
      "amount_msat_mul_div out0 1000000 (ucast (1000000 + fp :: u32)) = Some (Some out)"
      "msat out = 1000000 * (msat inp - unat fb) div (1000000 + unat fp)"
    using amount_msat_mul_div_exact [of 1000000 "ucast (1000000 + fp :: u32)" out0] d v0
      unat_u64_lt [of "millisatoshis inp"] by auto
  with o0 show ?thesis by blast
qed

text \<open>
  \<^verbatim>\<open>amount_msat_sub_fee\<close> returns, and its result is the largest amount that can be forwarded
  out of \<open>inp\<close> at the given fee: the result with its fee fits into the input, and no larger
  output does. The input is below \<open>2 ^ 63\<close> millisatoshi and the 32-bit sum
  \<^verbatim>\<open>1000000 + fee_proportional_millionths\<close> does not wrap.
\<close>
theorem amount_msat_sub_fee_largest:
  assumes fb: "unat fb \<le> msat inp" and fp: "unat fp < 2 ^ 32 - 1000000"
    and inp: "msat inp < 2 ^ 63"
  shows "\<exists>out. amount_msat_sub_fee inp fb fp = Some out
           \<and> largest_output (msat inp) (unat fb) (unat fp) (msat out)"
proof -
  define e where e: "e = 1000000 * (msat inp - unat fb) div (1000000 + unat fp)"
  obtain out0 out where o0: "amount_msat_sub inp (AMOUNT_MSAT (ucast fb)) = Some out0"
      and o: "amount_msat_mul_div out0 1000000 (ucast (1000000 + fp :: u32)) = Some (Some out)"
      and v: "msat out = e"
    using amount_msat_sub_fee_estimate [OF fb fp] e by blast
  have fit: "e + unat fp * e div 1000000 \<le> msat inp - unat fb"
    unfolding e by (rule scaled_out_fits) simp
  have small: "unat fp * (e + 1) div 1000000 \<le> unat fp * e div 1000000 + 4295"
  proof -
    have "unat fp * (e + 1) = unat fp * e + unat fp" by simp
    also have "\<dots> \<le> unat fp * e + 4294 * 1000000 + 967296" using unat_u32_lt [of fp] by linarith
    finally show ?thesis by linarith
  qed
  obtain out1 where o1: "amount_msat_add out (AMOUNT_MSAT 1) = Some out1"
    using msat_arith.add_None [of out "AMOUNT_MSAT 1"] v fit inp
    by (cases "amount_msat_add out (AMOUNT_MSAT 1)") auto
  have v1: "msat out1 = e + 1" using msat_arith.add_Some [OF o1] v by simp
  have "within_fee inp out fb fp = Some True"
    using within_fee_iff [of fb fp out inp] v fit fb inp by simp
  moreover have "within_fee inp out1 fb fp =
      Some (e + 1 + unat fb + unat fp * (e + 1) div 1000000 \<le> msat inp)"
    using within_fee_iff [of fb fp out1 inp] v1 fit small fb inp by simp
  ultimately have "amount_msat_sub_fee inp fb fp =
      Some (if e + 1 + unat fb + unat fp * (e + 1) div 1000000 \<le> msat inp then out1 else out)"
    using o0 o o1 by (simp add: amount_msat_sub_fee_def)
  then show ?thesis
    using largest_output_from_estimate [OF fb e] v v1 by (auto split: if_splits)
qed

theorem amount_msat_sub_fee_largest_witness:
  "\<exists>out. amount_msat_sub_fee (AMOUNT_MSAT 1000000) 1000 100 = Some out
         \<and> largest_output 1000000 1000 100 (msat out)"
  using amount_msat_sub_fee_largest [of 1000 "AMOUNT_MSAT 1000000" 100] by simp

text \<open>
  When the 32-bit sum \<^verbatim>\<open>1000000 + fee_proportional_millionths\<close> wraps to 0, the code divides
  by zero whatever the input is.
\<close>

theorem amount_msat_sub_fee_stops: "amount_msat_sub_fee inp 0 4293967296 = None"
  by (simp add: amount_msat_sub_fee_def amount_msat_sub_def amount_msat_mul_div_def
      mul_overflows_u64_def)

text \<open>
  \<^verbatim>\<open>amount_msat_fee\<close> is the BOLT 7 fee \<open>base + amount * millionths / 1000000\<close>, rounded down,
  whenever that fee fits into 64 bits.
\<close>

theorem amount_msat_fee_exact:
  assumes "unat fb + unat fp * msat a div 1000000 < 2 ^ 64"
  shows "\<exists>f. amount_msat_fee a fb fp = Some (Some f) \<and> msat f = unat fb + unat fp * msat a div 1000000"
  using assms by (rule amount_msat_fee_spec)

theorem amount_msat_fee_exact_witness:
  "\<exists>f. amount_msat_fee (AMOUNT_MSAT 5000000) 1000 10 = Some (Some f) \<and> msat f = 1050"
  using amount_msat_fee_exact [of 1000 10 "AMOUNT_MSAT 5000000"] by simp

text \<open>
  When it does not fit, the code does not report the overflow it promises to: at an amount of
  4294967298000000 millisatoshi and the largest proportional fee the result is a wrapped value.
\<close>

theorem amount_msat_fee_wraps:
  "amount_msat_fee (AMOUNT_MSAT 4294967298000000) 0 4294967295
     = Some (Some (AMOUNT_MSAT 4294967294))"
  by (simp add: amount_msat_fee_def amount_msat_add_def add_overflows_u64_def
      amount_msat_mul_div_def mul_overflows_u64_def)

text \<open>The definitions that evaluate an operation on concrete amounts.\<close>

lemmas amount_evals [amount_defs] =
  add_overflows_u64_def mul_overflows_u64_def amount_sat_to_msat_def amount_msat_to_sat_def
  amount_msat_to_sat_round_down_def amount_msat_to_sat_remainder_def amount_msat_add_def
  amount_msat_sub_def amount_sat_add_def amount_sat_sub_def amount_msat_accumulate_def
  amount_msat_deduct_def amount_msat_sub_sat_def amount_msat_deduct_sat_def
  amount_sat_sub_msat_def amount_msat_add_sat_def amount_sat_eq_def amount_sat_is_zero_def
  amount_msat_is_zero_def amount_msat_eq_def amount_sat_greater_def amount_msat_greater_def
  amount_sat_greater_eq_def amount_msat_greater_eq_def amount_sat_less_def amount_msat_less_def
  amount_sat_less_eq_def amount_msat_less_eq_def amount_msat_greater_sat_def
  amount_msat_greater_eq_sat_def amount_msat_less_sat_def amount_msat_less_eq_sat_def
  amount_msat_eq_sat_def

end
