(* ===== verification/Wire.thy ===== *)
theory Wire
  imports Amounts "HOL-Library.State_Monad"
begin

unbundle bit_operations_syntax

text \<open>
  The wire encoding: \<^verbatim>\<open>wire/towire.c\<close>, \<^verbatim>\<open>wire/fromwire.c\<close>, \<^verbatim>\<open>common/bigsize.c\<close> and
  \<^verbatim>\<open>bitcoin/varint.c\<close>. A \<^verbatim>\<open>towire\<close> function appends to the message that \<^verbatim>\<open>*pptr\<close> holds; its model
  gives the bytes that are appended. The state a \<^verbatim>\<open>fromwire\<close> function passes on is \<^verbatim>\<open>*cursor\<close> and
  \<^verbatim>\<open>*max\<close>: the bytes that are left, or \<open>None\<close> for the \<^verbatim>\<open>NULL\<close> cursor of a failure, with which \<^verbatim>\<open>*max\<close>
  is 0. A reader that fails still returns a value, as the code does.

  The contract of an encoding is the locale \<open>wire_codec\<close>: a reader returns what was written, leaves
  the bytes after it, and never recovers from a failure. The locale \<open>canonical_codec\<close> adds that
  what it accepts is what would be written. Signatures are read by libsecp256k1, and \<^verbatim>\<open>utf8_check\<close> is
  an argument.
\<close>

section \<open>Integers as bytes\<close>

definition be_bytes :: "nat \<Rightarrow> nat \<Rightarrow> bytes" where
  "be_bytes n v = map (\<lambda>i. of_nat (v div 256 ^ (n - Suc i))) [0 ..< n]"

definition be_val :: "bytes \<Rightarrow> nat" where
  "be_val bs = foldl (\<lambda>a b. a * 256 + unat b) 0 bs"

section \<open>\<^verbatim>\<open>wire/towire.c\<close>\<close>

definition towire :: "bytes \<Rightarrow> nat \<Rightarrow> bytes" where
  "towire data len = take len data"

definition towire_u8 :: "u8 \<Rightarrow> bytes" where
  "towire_u8 v = [v]"

definition towire_u16 :: "u16 \<Rightarrow> bytes" where
  "towire_u16 v = be_bytes 2 (unat v)"

definition towire_u32 :: "u32 \<Rightarrow> bytes" where
  "towire_u32 v = be_bytes 4 (unat v)"

definition towire_u64 :: "u64 \<Rightarrow> bytes" where
  "towire_u64 v = be_bytes 8 (unat v)"

text \<open>A signed integer is its bits; the casts change nothing.\<close>

definition towire_s8 :: "u8 \<Rightarrow> bytes" where "towire_s8 v = towire_u8 v"
definition towire_s16 :: "u16 \<Rightarrow> bytes" where "towire_s16 v = towire_u16 v"
definition towire_s32 :: "u32 \<Rightarrow> bytes" where "towire_s32 v = towire_u32 v"
definition towire_s64 :: "u64 \<Rightarrow> bytes" where "towire_s64 v = towire_u64 v"

definition towire_tlv_uint :: "u64 \<Rightarrow> bytes" where
  "towire_tlv_uint v = dropWhile (\<lambda>b. b = 0) (be_bytes 8 (unat v))"

definition towire_tu16 :: "u16 \<Rightarrow> bytes" where "towire_tu16 v = towire_tlv_uint (ucast v)"
definition towire_tu32 :: "u32 \<Rightarrow> bytes" where "towire_tu32 v = towire_tlv_uint (ucast v)"
definition towire_tu64 :: "u64 \<Rightarrow> bytes" where "towire_tu64 v = towire_tlv_uint v"

definition towire_bool :: "bool \<Rightarrow> bytes" where
  "towire_bool v = [if v then 1 else 0]"

definition towire_jsonrpc_errcode :: "u32 \<Rightarrow> bytes" where
  "towire_jsonrpc_errcode v = towire_u32 v"

definition towire_sha256 :: "bytes \<Rightarrow> bytes" where
  "towire_sha256 h = towire h 32"

definition towire_ripemd160 :: "bytes \<Rightarrow> bytes" where
  "towire_ripemd160 h = towire h 20"

definition towire_u8_array :: "bytes \<Rightarrow> nat \<Rightarrow> bytes" where
  "towire_u8_array arr num = towire arr num"

definition towire_utf8_array :: "(bytes \<Rightarrow> bool) \<Rightarrow> bytes \<Rightarrow> nat \<Rightarrow> bytes run" where
  "towire_utf8_array utf8_check arr num =
     (if utf8_check (take num arr) then Some (towire arr num) else None)"

definition towire_pad :: "nat \<Rightarrow> bytes" where
  "towire_pad num = replicate num 0"

text \<open>A C string is its characters up to the final 0.\<close>

definition towire_wirestring :: "bytes \<Rightarrow> bytes" where
  "towire_wirestring str = towire (str @ [0]) (length str + 1)"

section \<open>\<^verbatim>\<open>wire/fromwire.c\<close>\<close>

type_synonym cursor = "bytes option"
type_synonym 'a reader = "(cursor, 'a) state"

definition fromwire_fail :: "unit reader" where
  "fromwire_fail = State_Monad.set None"

text \<open>The bytes that are copied, zeroes if there are not enough.\<close>

definition fromwire :: "nat \<Rightarrow> bytes reader" where
  "fromwire n = State (\<lambda>cursor. case cursor of
     None \<Rightarrow> (replicate n 0, None)
   | Some p \<Rightarrow> if length p < n then (replicate n 0, None) else (take n p, Some (drop n p)))"

definition failed :: "bool reader" where
  "failed = do { c \<leftarrow> State_Monad.get; State_Monad.return (c = None) }"

definition fromwire_peektypen :: "bytes \<Rightarrow> u16 option" where
  "fromwire_peektypen p =
     (case run_state (fromwire 2) (Some p) of
        (_, None) \<Rightarrow> None
      | (be_type, Some _) \<Rightarrow> Some (of_nat (be_val be_type)))"

definition fromwire_peektype :: "bytes \<Rightarrow> u16 option" where
  "fromwire_peektype p = fromwire_peektypen p"

definition fromwire_u8 :: "u8 reader" where
  "fromwire_u8 = do { b \<leftarrow> fromwire 1; State_Monad.return (of_nat (be_val b)) }"

definition fromwire_u16 :: "u16 reader" where
  "fromwire_u16 = do { b \<leftarrow> fromwire 2; State_Monad.return (of_nat (be_val b)) }"

definition fromwire_u32 :: "u32 reader" where
  "fromwire_u32 = do { b \<leftarrow> fromwire 4; State_Monad.return (of_nat (be_val b)) }"

definition fromwire_u64 :: "u64 reader" where
  "fromwire_u64 = do { b \<leftarrow> fromwire 8; State_Monad.return (of_nat (be_val b)) }"

definition fromwire_s8 :: "u8 reader" where "fromwire_s8 = fromwire_u8"
definition fromwire_s16 :: "u16 reader" where "fromwire_s16 = fromwire_u16"
definition fromwire_s32 :: "u32 reader" where "fromwire_s32 = fromwire_u32"
definition fromwire_s64 :: "u64 reader" where "fromwire_s64 = fromwire_u64"

text \<open>
  Reads all that is left. \<^verbatim>\<open>maxlen\<close> is at most 8 in every call, so the assertion on it holds.
\<close>

definition fromwire_tlv_uint :: "nat \<Rightarrow> u64 reader" where
  "fromwire_tlv_uint maxlen =
     do { c \<leftarrow> State_Monad.get;
          let length = (case c of None \<Rightarrow> 0 | Some p \<Rightarrow> length p) in
          if length > maxlen then do { fromwire_fail; State_Monad.return 0 }
          else do { b \<leftarrow> fromwire length;
                    if length > 0 \<and> b ! 0 = 0 then do { fromwire_fail; State_Monad.return 0 }
                    else State_Monad.return (of_nat (be_val b)) } }"

definition fromwire_tu16 :: "u16 reader" where
  "fromwire_tu16 = do { v \<leftarrow> fromwire_tlv_uint 2; State_Monad.return (ucast v) }"

definition fromwire_tu32 :: "u32 reader" where
  "fromwire_tu32 = do { v \<leftarrow> fromwire_tlv_uint 4; State_Monad.return (ucast v) }"

definition fromwire_tu64 :: "u64 reader" where
  "fromwire_tu64 = fromwire_tlv_uint 8"

text \<open>A byte other than 0 and 1 fails, and reads as true.\<close>

definition fromwire_bool :: "bool reader" where
  "fromwire_bool =
     do { ret \<leftarrow> fromwire_u8;
          f \<leftarrow> failed;
          if f then State_Monad.return False
          else if ret \<noteq> 0 \<and> ret \<noteq> 1 then do { fromwire_fail; State_Monad.return True }
          else State_Monad.return (ret = 1) }"

definition fromwire_jsonrpc_errcode :: "u32 reader" where
  "fromwire_jsonrpc_errcode = fromwire_u32"

definition fromwire_sha256 :: "bytes reader" where "fromwire_sha256 = fromwire 32"
definition fromwire_ripemd160 :: "bytes reader" where "fromwire_ripemd160 = fromwire 20"

definition fromwire_u8_array :: "nat \<Rightarrow> bytes reader" where
  "fromwire_u8_array num = fromwire num"

definition fromwire_utf8_array :: "(bytes \<Rightarrow> bool) \<Rightarrow> nat \<Rightarrow> bytes reader" where
  "fromwire_utf8_array utf8_check num =
     do { arr \<leftarrow> fromwire num;
          if utf8_check arr then State_Monad.return arr
          else do { fromwire_fail; State_Monad.return arr } }"

text \<open>The inner \<open>None\<close> is \<^verbatim>\<open>NULL\<close>, which is also what an array of no bytes is.\<close>

definition fromwire_tal_arrn :: "nat \<Rightarrow> bytes option reader" where
  "fromwire_tal_arrn num =
     (if num = 0 then State_Monad.return None
      else do { arr \<leftarrow> fromwire_u8_array num;
                f \<leftarrow> failed;
                State_Monad.return (if f then None else Some arr) })"

definition fromwire_pad :: "nat \<Rightarrow> unit reader" where
  "fromwire_pad num = do { _ \<leftarrow> fromwire num; State_Monad.return () }"

text \<open>The loop over the characters: how many come before the 0, if no control character does.\<close>

fun wirestring_len :: "bytes \<Rightarrow> nat option" where
  "wirestring_len [] = None"
| "wirestring_len (c # cs) =
     (if c = 0 then Some 0 else if c < 0x20 then None else map_option Suc (wirestring_len cs))"

definition fromwire_wirestring :: "bytes option reader" where
  "fromwire_wirestring =
     do { c \<leftarrow> State_Monad.get;
          case wirestring_len (case c of None \<Rightarrow> [] | Some p \<Rightarrow> p) of
            None \<Rightarrow> do { fromwire_fail; State_Monad.return None }
          | Some i \<Rightarrow> do { str \<leftarrow> fromwire (i + 1); State_Monad.return (Some (take i str)) } }"

section \<open>\<^verbatim>\<open>common/bigsize.c\<close>\<close>

definition bigsize_len :: "u64 \<Rightarrow> nat" where
  "bigsize_len v = (if v < 0xfd then 1 else if v \<le> 0xffff then 3 else if v \<le> 0xffffffff then 5 else 9)"

definition bigsize_put :: "u64 \<Rightarrow> bytes" where
  "bigsize_put v =
     (if v < 0xfd then [ucast v]
      else if v \<le> 0xffff then [0xfd, ucast (drop_bit 8 v), ucast v]
      else if v \<le> 0xffffffff
      then [0xfe, ucast (drop_bit 24 v), ucast (drop_bit 16 v), ucast (drop_bit 8 v), ucast v]
      else [0xff, ucast (drop_bit 56 v), ucast (drop_bit 48 v), ucast (drop_bit 40 v), ucast (drop_bit 32 v),
            ucast (drop_bit 24 v), ucast (drop_bit 16 v), ucast (drop_bit 8 v), ucast v])"

text \<open>The length read, 0 on an error, and the value.\<close>

definition bigsize_get :: "bytes \<Rightarrow> (nat \<times> u64) option" where
  "bigsize_get p =
     (if length p < 1 then None
      else if p ! 0 = 0xfd then
        (if length p < 3 then None
         else let v = push_bit 8 (ucast (p ! 1)) + ucast (p ! 2) in
              if v < 0xfd then None else Some (3, v))
      else if p ! 0 = 0xfe then
        (if length p < 5 then None
         else let v = push_bit 24 (ucast (p ! 1)) + push_bit 16 (ucast (p ! 2))
                    + push_bit 8 (ucast (p ! 3)) + ucast (p ! 4) in
              if drop_bit 16 v = 0 then None else Some (5, v))
      else if p ! 0 = 0xff then
        (if length p < 9 then None
         else let v = push_bit 56 (ucast (p ! 1)) + push_bit 48 (ucast (p ! 2))
                    + push_bit 40 (ucast (p ! 3)) + push_bit 32 (ucast (p ! 4))
                    + push_bit 24 (ucast (p ! 5)) + push_bit 16 (ucast (p ! 6))
                    + push_bit 8 (ucast (p ! 7)) + ucast (p ! 8) in
              if drop_bit 32 v = 0 then None else Some (9, v))
      else Some (1, ucast (p ! 0)))"

definition fromwire_bigsize :: "u64 reader" where
  "fromwire_bigsize =
     do { c \<leftarrow> State_Monad.get;
          case bigsize_get (case c of None \<Rightarrow> [] | Some p \<Rightarrow> p) of
            None \<Rightarrow> do { fromwire_fail; State_Monad.return 0 }
          | Some (len, v) \<Rightarrow> do { _ \<leftarrow> fromwire len; State_Monad.return v } }"

definition towire_bigsize :: "u64 \<Rightarrow> bytes" where
  "towire_bigsize v = bigsize_put v"

section \<open>\<^verbatim>\<open>bitcoin/varint.c\<close>\<close>

definition varint_size :: "u64 \<Rightarrow> nat" where
  "varint_size v = (if v < 0xfd then 1 else if v \<le> 0xffff then 3 else if v \<le> 0xffffffff then 5 else 9)"

definition varint_put :: "u64 \<Rightarrow> bytes" where
  "varint_put v =
     (if v < 0xfd then [ucast v]
      else if v \<le> 0xffff then [0xfd, ucast v, ucast (drop_bit 8 v)]
      else if v \<le> 0xffffffff
      then [0xfe, ucast v, ucast (drop_bit 8 v), ucast (drop_bit 16 v), ucast (drop_bit 24 v)]
      else [0xff, ucast v, ucast (drop_bit 8 v), ucast (drop_bit 16 v), ucast (drop_bit 24 v),
            ucast (drop_bit 32 v), ucast (drop_bit 40 v), ucast (drop_bit 48 v), ucast (drop_bit 56 v)])"

definition varint_get :: "bytes \<Rightarrow> (nat \<times> u64) option" where
  "varint_get p =
     (if length p < 1 then None
      else if p ! 0 = 0xfd then
        (if length p < 3 then None else Some (3, push_bit 8 (ucast (p ! 2)) + ucast (p ! 1)))
      else if p ! 0 = 0xfe then
        (if length p < 5 then None
         else Some (5, push_bit 24 (ucast (p ! 4)) + push_bit 16 (ucast (p ! 3))
                     + push_bit 8 (ucast (p ! 2)) + ucast (p ! 1)))
      else if p ! 0 = 0xff then
        (if length p < 9 then None
         else Some (9, push_bit 56 (ucast (p ! 8)) + push_bit 48 (ucast (p ! 7))
                     + push_bit 40 (ucast (p ! 6)) + push_bit 32 (ucast (p ! 5))
                     + push_bit 24 (ucast (p ! 4)) + push_bit 16 (ucast (p ! 3))
                     + push_bit 8 (ucast (p ! 2)) + ucast (p ! 1)))
      else Some (1, ucast (p ! 0)))"

section \<open>Amounts on the wire\<close>

definition towire_amount_msat :: "amount_msat \<Rightarrow> bytes" where
  "towire_amount_msat a = towire_u64 (millisatoshis a)"

definition towire_amount_sat :: "amount_sat \<Rightarrow> bytes" where
  "towire_amount_sat a = towire_u64 (satoshis a)"

definition fromwire_amount_msat :: "amount_msat reader" where
  "fromwire_amount_msat = do { v \<leftarrow> fromwire_u64; State_Monad.return (AMOUNT_MSAT v) }"

definition fromwire_amount_sat :: "amount_sat reader" where
  "fromwire_amount_sat = do { v \<leftarrow> fromwire_u64; State_Monad.return (AMOUNT_SAT v) }"

section \<open>Bytes and integers\<close>

lemma be_bytes_simps [simp]:
  "be_bytes 0 v = []"
  "be_bytes (Suc n) v = of_nat (v div 256 ^ n) # be_bytes n v"
  by (simp_all add: be_bytes_def upt_conv_Cons map_Suc_upt [symmetric] del: upt_Suc)

lemma length_be_bytes [simp]: "length (be_bytes n v) = n"
  by (simp add: be_bytes_def)

lemma foldl_be: "foldl (\<lambda>a b. a * 256 + unat (b :: u8)) k bs = k * 256 ^ length bs + be_val bs"
  unfolding be_val_def
proof (induction bs arbitrary: k)
  case (Cons b bs)
  show ?case
    unfolding foldl.simps Cons [of "k * 256 + unat b"] Cons [of "0 * 256 + unat b"]
    by (simp add: algebra_simps)
qed simp

lemma be_val_simps [simp]:
  "be_val [] = 0"
  "be_val (b # bs) = unat b * 256 ^ length bs + be_val bs"
  using foldl_be [of "unat b" bs] by (simp_all add: be_val_def)

lemma unat_u8_lt: "unat (b :: u8) < 256"
  using unsigned_less [of b, where ?'a = nat] by simp

lemma be_val_less: "be_val bs < 256 ^ length bs"
proof (induction bs)
  case (Cons b bs)
  have "unat b * 256 ^ length bs + be_val bs < (unat b + 1) * 256 ^ length bs"
    using Cons by simp
  also have "\<dots> \<le> 256 * 256 ^ length bs"
    using unat_u8_lt [of b] by (intro mult_right_mono) simp_all
  finally show ?case by simp
qed simp

lemma unat_of_nat_u8: "unat (of_nat k :: u8) = k mod 256"
  by (simp add: unat_of_nat take_bit_eq_mod)

lemma be_val_be_bytes [simp]: "be_val (be_bytes n v) = v mod 256 ^ n"
  by (induction n) (simp_all add: unat_of_nat_u8 mod_mult2_eq mult.commute [of 256])

lemma be_bytes_add: "n \<le> m \<Longrightarrow> be_bytes n (k * 256 ^ m + v) = be_bytes n v"
proof (induction n)
  case (Suc n)
  have "k * 256 ^ m = (k * 256 ^ (m - Suc n) * 256) * 256 ^ n"
    using Suc.prems by (simp add: algebra_simps flip: power_add power_Suc)
  then have "(k * 256 ^ m + v) div 256 ^ n = k * 256 ^ (m - Suc n) * 256 + v div 256 ^ n"
    by (metis div_mult_self3 power_not_zero zero_neq_numeral)
  moreover have "y * 256 = 0" for y :: u8
  proof -
    have "(256 :: u8) = 0" by simp
    then show ?thesis by (simp only: mult_zero_right)
  qed
  ultimately have "(of_nat ((k * 256 ^ m + v) div 256 ^ n) :: u8) = of_nat (v div 256 ^ n)"
    by simp
  with Suc show ?case by simp
qed simp

lemma be_bytes_be_val: "be_bytes (length bs) (be_val bs) = bs"
proof (induction bs)
  case (Cons b bs)
  have "(unat b * 256 ^ length bs + be_val bs) div 256 ^ length bs = unat b"
    using be_val_less [of bs] by simp
  with Cons show ?case by (simp add: be_bytes_add)
qed simp


section \<open>The contract of an encoding\<close>

text \<open>Readers that never recover from a failure.\<close>

definition sticky :: "'a reader \<Rightarrow> bool" where
  "sticky r \<longleftrightarrow> snd (run_state r None) = None"

lemma sticky_return [simp, intro]: "sticky (State_Monad.return x)"
  by (simp add: sticky_def)

lemma sticky_bind [intro]: "sticky m \<Longrightarrow> (\<And>x. sticky (k x)) \<Longrightarrow> sticky (m \<bind> k)"
  by (simp add: sticky_def split_beta prod_eq_iff)

lemma sticky_None: "sticky r \<Longrightarrow> run_state r None = (x, c) \<Longrightarrow> c = None"
  by (simp add: sticky_def)

locale wire_codec =
  fixes put :: "'a \<Rightarrow> bytes" and read :: "'a reader" and ok :: "'a \<Rightarrow> bool"
  assumes reads_back: "ok x \<Longrightarrow> run_state read (Some (put x @ rest)) = (x, Some rest)"
    and stays_failed: "sticky read"
begin

lemma read_then: "ok x \<Longrightarrow> run_state (read \<bind> k) (Some (put x @ rest)) = run_state (k x) (Some rest)"
  by (simp add: reads_back)

lemma read_all: "ok x \<Longrightarrow> run_state read (Some (put x)) = (x, Some [])"
  using reads_back [of x "[]"] by simp

text \<open>No encoding is the start of another, so a value is told apart from what follows it.\<close>

lemma prefix_free:
  assumes "ok x" and "ok y" and "put x @ r = put y @ s"
  shows "x = y \<and> r = s"
proof -
  have "(x, Some r) = (y, Some s)"
    unfolding reads_back [OF assms(1), of r, symmetric] reads_back [OF assms(2), of s, symmetric] assms(3) ..
  then show ?thesis by simp
qed

lemma sticky_then: "(\<And>x. sticky (k x)) \<Longrightarrow> sticky (read \<bind> k)"
  by (rule sticky_bind [OF stays_failed])

end

locale canonical_codec = wire_codec put read ok
  for put :: "'a \<Rightarrow> bytes" and read :: "'a reader" and ok :: "'a \<Rightarrow> bool" +
  assumes accepts_written: "run_state read (Some p) = (x, Some rest) \<Longrightarrow> ok x \<and> p = put x @ rest"
begin

lemma accepts_iff: "run_state read (Some p) = (x, Some rest) \<longleftrightarrow> ok x \<and> p = put x @ rest"
  using accepts_written reads_back by blast

lemma accepts_then:
  assumes "run_state (read \<bind> k) (Some p) = (y, Some rest)" and "\<And>x. sticky (k x)"
  obtains x r where "ok x" and "p = put x @ r" and "run_state (k x) (Some r) = (y, Some rest)"
proof -
  obtain x c where r: "run_state read (Some p) = (x, c)" by force
  with assms(1) have k: "run_state (k x) c = (y, Some rest)" by simp
  with assms(2) obtain q where "c = Some q" by (cases c) (auto dest: sticky_None)
  with r k that accepts_written show thesis by blast
qed

end

section \<open>The primitives keep the contract\<close>

lemma run_fromwire:
  "run_state (fromwire n) None = (replicate n 0, None)"
  "run_state (fromwire n) (Some p)
     = (if length p < n then (replicate n 0, None) else (take n p, Some (drop n p)))"
  by (simp_all add: fromwire_def)

lemma sticky_fromwire [simp, intro]: "sticky (fromwire n)"
  by (simp add: sticky_def run_fromwire)

lemma run_fail [simp]: "run_state fromwire_fail c = ((), None)"
  by (simp add: fromwire_fail_def)

lemma run_failed [simp]: "run_state failed c = (c = None, c)"
  by (simp add: failed_def)

text \<open>An array of a length that both sides know.\<close>

interpretation fixed: canonical_codec "\<lambda>b. towire b n" "fromwire n" "\<lambda>b. length b = n" for n
proof
  show "run_state (fromwire n) (Some (towire x n @ rest)) = (x, Some rest)" if "length x = n" for x rest
    using that by (simp add: run_fromwire towire_def)
  show "length x = n \<and> p = towire x n @ rest" if "run_state (fromwire n) (Some p) = (x, Some rest)" for p x rest
    using that by (auto simp: run_fromwire towire_def min_def split: if_splits)
qed simp

text \<open>An integer of \<open>n\<close> bytes, most significant first.\<close>

lemma be_codec:
  assumes "LENGTH('a::len) = 8 * n"
  shows "canonical_codec (\<lambda>v. be_bytes n (unat v))
           (do { b \<leftarrow> fromwire n; State_Monad.return (of_nat (be_val b) :: 'a word) }) (\<lambda>_. True)"
proof
  let ?read = "do { b \<leftarrow> fromwire n; State_Monad.return (of_nat (be_val b) :: 'a word) }"
  have eq: "256 ^ n = (2 :: nat) ^ LENGTH('a)"
    using assms by (simp add: power_mult)
  show "run_state ?read (Some (be_bytes n (unat x) @ rest)) = (x, Some rest)" for x :: "'a word" and rest
    using unsigned_less [of x, where ?'a = nat] eq by (simp add: run_fromwire)
  show "sticky ?read" by auto
  from eq have "unat (of_nat (be_val b) :: 'a word) = be_val b" if "length b = n" for b
    using be_val_less [of b] that by (simp add: unat_of_nat take_bit_nat_eq_self)
  then show "True \<and> p = be_bytes n (unat x) @ rest" if "run_state ?read (Some p) = (x, Some rest)" for p x rest
    using that be_bytes_be_val [of "take n p"]
    by (auto simp: run_fromwire split: if_splits)
qed

interpretation u8: canonical_codec towire_u8 fromwire_u8 "\<lambda>_. True"
proof -
  have "towire_u8 = (\<lambda>v. be_bytes 1 (unat v))" by (simp add: towire_u8_def fun_eq_iff)
  then show "canonical_codec towire_u8 fromwire_u8 (\<lambda>_. True)"
    unfolding fromwire_u8_def using be_codec [where ?'a = 8 and n = 1] by simp
qed

interpretation u16: canonical_codec towire_u16 fromwire_u16 "\<lambda>_. True"
  unfolding towire_u16_def fromwire_u16_def by (rule be_codec) simp

interpretation u32: canonical_codec towire_u32 fromwire_u32 "\<lambda>_. True"
  unfolding towire_u32_def fromwire_u32_def by (rule be_codec) simp

interpretation u64: canonical_codec towire_u64 fromwire_u64 "\<lambda>_. True"
  unfolding towire_u64_def fromwire_u64_def by (rule be_codec) simp


text \<open>A byte that is 0 or 1.\<close>

lemma run_bool:
  "run_state fromwire_bool (Some p)
     = (case p of [] \<Rightarrow> (False, None)
        | b # q \<Rightarrow> if b \<noteq> 0 \<and> b \<noteq> 1 then (True, None) else (b = 1, Some q))"
  by (simp add: fromwire_bool_def fromwire_u8_def run_fromwire split: list.split)

interpretation bool: canonical_codec towire_bool fromwire_bool "\<lambda>_. True"
proof
  show "sticky fromwire_bool"
    by (simp add: sticky_def fromwire_bool_def fromwire_u8_def run_fromwire)
qed (auto simp: run_bool towire_bool_def split: list.splits if_splits)

interpretation sha: canonical_codec towire_sha256 fromwire_sha256 "\<lambda>h. length h = 32"
  unfolding towire_sha256_def fromwire_sha256_def by (rule fixed.canonical_codec_axioms)

interpretation ripemd: canonical_codec towire_ripemd160 fromwire_ripemd160 "\<lambda>h. length h = 20"
  unfolding towire_ripemd160_def fromwire_ripemd160_def by (rule fixed.canonical_codec_axioms)

interpretation arr: canonical_codec "\<lambda>b. towire_u8_array b n" "fromwire_u8_array n" "\<lambda>b. length b = n" for n
  unfolding towire_u8_array_def fromwire_u8_array_def by (rule fixed.canonical_codec_axioms)

interpretation errcode: canonical_codec towire_jsonrpc_errcode fromwire_jsonrpc_errcode "\<lambda>_. True"
  unfolding towire_jsonrpc_errcode_def fromwire_jsonrpc_errcode_def by (rule u32.canonical_codec_axioms)

text \<open>A value that is an encoded one in a wrapper.\<close>

lemma wrapped_codec:
  assumes "canonical_codec put read ok" and "\<And>x. unwrap (wrap x) = x" and "\<And>y. wrap (unwrap y) = y"
  shows "canonical_codec (\<lambda>y. put (unwrap y)) (do { x \<leftarrow> read; State_Monad.return (wrap x) }) (\<lambda>y. ok (unwrap y))"
proof -
  from assms(1) obtain w: "wire_codec put read ok" and c: "canonical_codec put read ok"
    by (simp add: canonical_codec_def)
  show ?thesis
  proof
    show "sticky (do { x \<leftarrow> read; State_Monad.return (wrap x) })"
      using wire_codec.stays_failed [OF w] by auto
    show "run_state (do { x \<leftarrow> read; State_Monad.return (wrap x) }) (Some (put (unwrap y) @ rest)) = (y, Some rest)"
      if "ok (unwrap y)" for y rest
      using wire_codec.reads_back [OF w that] assms(3) by simp
    show "ok (unwrap y) \<and> p = put (unwrap y) @ rest"
      if "run_state (do { x \<leftarrow> read; State_Monad.return (wrap x) }) (Some p) = (y, Some rest)" for p y rest
      using that assms(2) canonical_codec.accepts_written [OF c] by (auto split: prod.splits)
  qed
qed

interpretation amt_msat: canonical_codec towire_amount_msat fromwire_amount_msat "\<lambda>_. True"
  unfolding towire_amount_msat_def fromwire_amount_msat_def
  using wrapped_codec [OF u64.canonical_codec_axioms, of millisatoshis AMOUNT_MSAT] by simp

interpretation amt_sat: canonical_codec towire_amount_sat fromwire_amount_sat "\<lambda>_. True"
  unfolding towire_amount_sat_def fromwire_amount_sat_def
  using wrapped_codec [OF u64.canonical_codec_axioms, of satoshis AMOUNT_SAT] by simp


section \<open>Integers of variable length\<close>

lemma be_bytes_u64:
  "be_bytes (Suc n) (unat (v :: u64)) = ucast (drop_bit (8 * n) v) # be_bytes n (unat v)"
proof -
  have "unat v div 256 ^ n = unat (drop_bit (8 * n) v)"
    unfolding unat_drop_bit_eq by (simp add: drop_bit_eq_div power_mult)
  then show ?thesis by (simp only: be_bytes_simps of_nat_unat)
qed

lemma be_bytes_numeral:
  "be_bytes (numeral k) (unat (v :: u64))
     = ucast (drop_bit (8 * pred_numeral k) v) # be_bytes (pred_numeral k) (unat v)"
  unfolding numeral_eq_Suc [of k] by (rule be_bytes_u64)

lemma unat_ucast_u8_u64 [simp]: "unat (ucast (b :: u8) :: u64) = unat b"
  using unat_u8_lt [of b] by (simp add: unsigned_ucast_eq take_bit_nat_eq_self)

lemma ucast_ucast_u8_u64 [simp]: "ucast (ucast (b :: u8) :: u64) = b"
  by (rule bit_word_eqI) (simp add: bit_simps)

lemma unat_ucast_u64_u8: "unat (ucast (v :: u64) :: u8) = unat v mod 256"
  by (simp add: unsigned_ucast_eq take_bit_eq_mod)

lemma push_byte: "push_bit k (ucast (b :: u8)) = (of_nat (unat b * 2 ^ k) :: u64)"
  by (simp add: push_bit_eq_mult)

lemma bigsize_put_eq:
  "bigsize_put v =
     (if v < 0xfd then be_bytes 1 (unat v)
      else if v \<le> 0xffff then 0xfd # be_bytes 2 (unat v)
      else if v \<le> 0xffffffff then 0xfe # be_bytes 4 (unat v)
      else 0xff # be_bytes 8 (unat v))"
  by (simp add: bigsize_put_def be_bytes_numeral)

text \<open>The words that the readers of one size build from the bytes are the number the bytes denote.\<close>

lemma be_val_words:
  "push_bit 8 (ucast a) + ucast b = (of_nat (be_val [a, b]) :: u64)"
  "push_bit 24 (ucast a) + push_bit 16 (ucast b) + push_bit 8 (ucast c) + ucast d
     = (of_nat (be_val [a, b, c, d]) :: u64)"
  "push_bit 56 (ucast a) + push_bit 48 (ucast b) + push_bit 40 (ucast c) + push_bit 32 (ucast d)
     + push_bit 24 (ucast e) + push_bit 16 (ucast f) + push_bit 8 (ucast g) + ucast h
     = (of_nat (be_val [a, b, c, d, e, f, g, h]) :: u64)"
  by (simp_all add: push_byte)


lemma take_few:
  "2 \<le> length q \<Longrightarrow> [q ! 0, q ! 1] = take 2 q"
  "4 \<le> length q \<Longrightarrow> [q ! 0, q ! 1, q ! 2, q ! 3] = take 4 q"
  "8 \<le> length q \<Longrightarrow> [q ! 0, q ! 1, q ! 2, q ! 3, q ! 4, q ! 5, q ! 6, q ! 7] = take 8 q"
  by (auto simp: numeral_eq_Suc Suc_le_length_iff)

lemma bigsize_get_fd:
  "bigsize_get (0xfd # q) = (let v = of_nat (be_val (take 2 q)) in
     if length q < 2 \<or> v < 0xfd then None else Some (3, v))"
proof (cases "length q < 2")
  case False
  then have "bigsize_get (0xfd # q) = (let v = push_bit 8 (ucast (q ! 0)) + ucast (q ! 1) in
     if length q < 2 \<or> v < 0xfd then None else Some (3, v))"
    by (simp add: bigsize_get_def)
  with False show ?thesis by (simp only: be_val_words take_few not_less)
qed (simp add: bigsize_get_def)

lemma bigsize_get_fe:
  "bigsize_get (0xfe # q) = (let v = of_nat (be_val (take 4 q)) in
     if length q < 4 \<or> drop_bit 16 v = 0 then None else Some (5, v))"
proof (cases "length q < 4")
  case False
  then have "bigsize_get (0xfe # q)
     = (let v = push_bit 24 (ucast (q ! 0)) + push_bit 16 (ucast (q ! 1)) + push_bit 8 (ucast (q ! 2)) + ucast (q ! 3) in
        if length q < 4 \<or> drop_bit 16 v = 0 then None else Some (5, v))"
    by (simp add: bigsize_get_def)
  with False show ?thesis by (simp only: be_val_words take_few not_less)
qed (simp add: bigsize_get_def)

lemma bigsize_get_ff:
  "bigsize_get (0xff # q) = (let v = of_nat (be_val (take 8 q)) in
     if length q < 8 \<or> drop_bit 32 v = 0 then None else Some (9, v))"
proof (cases "length q < 8")
  case False
  then have "bigsize_get (0xff # q)
     = (let v = push_bit 56 (ucast (q ! 0)) + push_bit 48 (ucast (q ! 1)) + push_bit 40 (ucast (q ! 2))
              + push_bit 32 (ucast (q ! 3)) + push_bit 24 (ucast (q ! 4)) + push_bit 16 (ucast (q ! 5))
              + push_bit 8 (ucast (q ! 6)) + ucast (q ! 7) in
        if length q < 8 \<or> drop_bit 32 v = 0 then None else Some (9, v))"
    by (simp add: bigsize_get_def)
  with False show ?thesis by (simp only: be_val_words take_few not_less)
qed (simp add: bigsize_get_def)

lemma bigsize_get_small:
  "b \<noteq> 0xfd \<Longrightarrow> b \<noteq> 0xfe \<Longrightarrow> b \<noteq> 0xff \<Longrightarrow> bigsize_get (b # q) = Some (1, ucast b)"
  "bigsize_get [] = None"
  by (simp_all add: bigsize_get_def)

lemma drop_bit_u64_0: "drop_bit k (v :: u64) = 0 \<longleftrightarrow> unat v < 2 ^ k"
  unfolding word_unat_eq_iff unat_drop_bit_eq by (simp add: drop_bit_eq_div div_eq_0_iff)

text \<open>The reader returns what was written, and accepts only the shortest encoding.\<close>

lemma bigsize_get_put: "bigsize_get (bigsize_put v @ rest) = Some (bigsize_len v, v)"
proof -
  have small: "(of_nat (unat v) :: u8) \<noteq> 0xfd" "(of_nat (unat v) :: u8) \<noteq> 0xfe" "(of_nat (unat v) :: u8) \<noteq> 0xff"
    "ucast (of_nat (unat v) :: u8) = v" if "v < 0xfd"
    using that by (simp_all add: word_less_nat_alt word_unat_eq_iff unat_ucast_u64_u8)
  consider "v < 0xfd" | "0xfd \<le> v" "v \<le> 0xffff" | "0xffff < v" "v \<le> 0xffffffff" | "0xffffffff < v"
    by fastforce
  then show ?thesis
  proof cases
    case 1
    with small show ?thesis by (simp add: bigsize_put_eq bigsize_get_small bigsize_len_def)
  next
    case 2
    then show ?thesis
      by (simp add: bigsize_put_eq bigsize_len_def bigsize_get_fd word_le_nat_alt word_less_nat_alt)
  next
    case 3
    then show ?thesis
      by (simp add: bigsize_put_eq bigsize_len_def bigsize_get_fe drop_bit_u64_0 word_le_nat_alt word_less_nat_alt)
  next
    case 4
    with unat_u64_lt [of v] show ?thesis
      by (simp add: bigsize_put_eq bigsize_len_def bigsize_get_ff drop_bit_u64_0 word_le_nat_alt word_less_nat_alt)
  qed
qed


lemma unat_be_val: "length b \<le> 8 \<Longrightarrow> unat (of_nat (be_val b) :: u64) = be_val b"
  using be_val_less [of b] power_increasing [of "length b" 8 "256 :: nat"]
  by (intro unat_of_nat_u64) simp

lemma bigsize_get_Some:
  assumes "bigsize_get p = Some (n, v)"
  shows "n = bigsize_len v \<and> p = bigsize_put v @ drop n p"
proof -
  obtain b q where p: "p = b # q" using assms by (cases p) (auto simp: bigsize_get_small)
  have rd: "v = of_nat (be_val (take k q))" "unat v = be_val (take k q)" "unat v < 256 ^ k"
    "take k q = be_bytes k (unat v)"
    if "Suc k = n" "v = of_nat (be_val (take k q))" "k \<le> length q" "k \<le> 8" for k
    using that be_bytes_be_val [of "take k q"] be_val_less [of "take k q"] by (simp_all add: unat_be_val)
  have long: ?thesis if "Suc k = n" "v = of_nat (be_val (take k q))" "k \<le> length q" "k \<le> 8"
    "n = bigsize_len v" "bigsize_put v = b # be_bytes k (unat v)" for k
    using that rd(4) [OF that(1-4)] p append_take_drop_id [of k q] by (metis append_Cons drop_Suc_Cons)
  consider "b = 0xfd" | "b = 0xfe" | "b = 0xff" | "b \<noteq> 0xfd" "b \<noteq> 0xfe" "b \<noteq> 0xff" by blast
  then show ?thesis
  proof cases
    case 1
    with assms p have v: "v = of_nat (be_val (take 2 q))" "n = 3" "2 \<le> length q" "0xfd \<le> v"
      by (auto simp: bigsize_get_fd Let_def not_less split: if_splits)
    moreover have "unat v < 256 ^ 2" using v by (intro rd(3)) simp_all
    ultimately show ?thesis
      using 1 by (intro long [of 2]) (simp_all add: bigsize_put_eq bigsize_len_def word_less_nat_alt word_le_nat_alt)
  next
    case 2
    with assms p have v: "v = of_nat (be_val (take 4 q))" "n = 5" "4 \<le> length q" "drop_bit 16 v \<noteq> 0"
      by (auto simp: bigsize_get_fe Let_def not_less split: if_splits)
    moreover have "unat v < 256 ^ 4" using v by (intro rd(3)) simp_all
    ultimately show ?thesis
      using 2 by (intro long [of 4])
        (simp_all add: bigsize_put_eq bigsize_len_def drop_bit_u64_0 word_less_nat_alt word_le_nat_alt)
  next
    case 3
    with assms p have v: "v = of_nat (be_val (take 8 q))" "n = 9" "8 \<le> length q" "drop_bit 32 v \<noteq> 0"
      by (auto simp: bigsize_get_ff Let_def not_less split: if_splits)
    then show ?thesis
      using 3 by (intro long [of 8])
        (simp_all add: bigsize_put_eq bigsize_len_def drop_bit_u64_0 word_less_nat_alt word_le_nat_alt)
  next
    case 4
    then have "unat b < 253"
      using unat_u8_lt [of b] by (simp add: word_unat_eq_iff)
    with 4 assms p show ?thesis
      by (auto simp: bigsize_get_small bigsize_put_def bigsize_len_def word_less_nat_alt)
  qed
qed

interpretation bigsize: canonical_codec towire_bigsize fromwire_bigsize "\<lambda>_. True"
proof
  have len: "length (bigsize_put v) = bigsize_len v" for v
    by (simp add: bigsize_put_def bigsize_len_def)
  show "run_state fromwire_bigsize (Some (towire_bigsize x @ rest)) = (x, Some rest)" for x rest
    by (simp add: fromwire_bigsize_def towire_bigsize_def bigsize_get_put run_fromwire len)
  show "sticky fromwire_bigsize"
    by (simp add: sticky_def fromwire_bigsize_def bigsize_get_small)
  show "True \<and> p = towire_bigsize x @ rest" if "run_state fromwire_bigsize (Some p) = (x, Some rest)" for p x rest
    using that bigsize_get_Some [of p]
    by (auto simp: fromwire_bigsize_def towire_bigsize_def run_fromwire split: option.splits if_splits)
qed


subsection \<open>Truncated integers\<close>

lemma be_val_dropWhile [simp]: "be_val (dropWhile (\<lambda>b. b = 0) bs) = be_val bs"
  by (induction bs) simp_all

lemma hd_dropWhile_0: "dropWhile (\<lambda>b. b = 0) bs = c # cs \<Longrightarrow> c \<noteq> (0 :: u8)"
  by (induction bs) (auto split: if_splits)

lemma be_bytes_padded:
  "be_bytes (n + length bs) (be_val bs) = replicate n 0 @ bs"
proof -
  have "be_val (replicate n 0 @ bs) = be_val bs" by (induction n) simp_all
  then show ?thesis using be_bytes_be_val [of "replicate n 0 @ bs"] by simp
qed

lemma dropWhile_replicate_0 [simp]:
  "dropWhile (\<lambda>b. b = 0) (replicate n 0 @ bs) = dropWhile (\<lambda>b. b = 0) bs"
  by (induction n) simp_all

text \<open>
  A truncated integer is all that is left of its field, so it has a law of its own: the whole rest
  is read, with any leading zero refused, and is what would be written.
\<close>

lemma run_tlv_uint:
  "run_state (fromwire_tlv_uint m) (Some p)
     = (if length p > m then (0, None)
        else if p \<noteq> [] \<and> hd p = 0 then (0, None) else (of_nat (be_val p), Some []))"
  by (cases p) (auto simp: fromwire_tlv_uint_def run_fromwire Let_def)

lemma length_tlv_uint: "length (towire_tlv_uint v) \<le> n" if "unat v < 256 ^ n" "n \<le> 8"
proof -
  have "be_bytes ((8 - n) + n) (be_val (be_bytes n (unat v))) = replicate (8 - n) 0 @ be_bytes n (unat v)"
    using be_bytes_padded [of "8 - n" "be_bytes n (unat v)"] by simp
  with that have "towire_tlv_uint v = dropWhile (\<lambda>b. b = 0) (replicate (8 - n) 0 @ be_bytes n (unat v))"
    by (simp add: towire_tlv_uint_def)
  then have "towire_tlv_uint v = dropWhile (\<lambda>b. b = 0) (be_bytes n (unat v))"
    by simp
  then show ?thesis using length_dropWhile_le [of _ "be_bytes n (unat v)"] by simp
qed

lemma tlv_uint_reads_back:
  assumes "unat v < 256 ^ m" and "m \<le> 8"
  shows "run_state (fromwire_tlv_uint m) (Some (towire_tlv_uint v)) = (v, Some [])"
proof -
  have "be_val (towire_tlv_uint v) = unat v"
    using unat_u64_lt [of v] by (simp add: towire_tlv_uint_def)
  moreover have "towire_tlv_uint v = [] \<or> hd (towire_tlv_uint v) \<noteq> 0"
    using hd_dropWhile_0 [of "be_bytes 8 (unat v)"] unfolding towire_tlv_uint_def
    by (cases "dropWhile (\<lambda>b. b = 0) (be_bytes 8 (unat v))") auto
  ultimately show ?thesis
    using length_tlv_uint [OF assms] by (auto simp: run_tlv_uint)
qed

lemma tlv_uint_accepts:
  assumes "run_state (fromwire_tlv_uint m) (Some p) = (v, Some rest)" and "m \<le> 8"
  shows "p = towire_tlv_uint v \<and> rest = [] \<and> unat v < 256 ^ m"
proof -
  from assms have p: "length p \<le> m" "p = [] \<or> hd p \<noteq> 0" "v = of_nat (be_val p)" "rest = []"
    by (auto simp: run_tlv_uint split: if_splits)
  with assms(2) have u: "unat v = be_val p" by (simp add: unat_be_val)
  with p assms(2) have "be_bytes 8 (unat v) = replicate (8 - length p) 0 @ p"
    using be_bytes_padded [of "8 - length p" p] by simp
  with p have "p = towire_tlv_uint v"
    by (cases p) (simp_all add: towire_tlv_uint_def)
  moreover have "be_val p < 256 ^ m"
    using be_val_less [of p] by (rule less_le_trans) (rule power_increasing [OF p(1)], simp)
  ultimately show ?thesis using p u by simp
qed


text \<open>
  The integer of a TLV field is written without leading zeroes and read back; whatever the
  reader of a \<^verbatim>\<open>tu64\<close> accepts is exactly the bytes that would be written for the number it returns,
  so a field with a leading zero, or of more than 8 bytes, is refused.
\<close>

theorem tu64_minimal:
  "(run_state fromwire_tu64 (Some p) = (v, Some rest)) = (p = towire_tu64 v \<and> rest = [])
   \<and> (run_state fromwire_tu32 (Some (towire_tu32 w)) = (w, Some []))
   \<and> (run_state fromwire_tu16 (Some (towire_tu16 x)) = (x, Some []))"
proof (intro conjI)
  have "unat v < 256 ^ 8" for v :: u64 using unat_u64_lt [of v] by simp
  then show "(run_state fromwire_tu64 (Some p) = (v, Some rest)) = (p = towire_tu64 v \<and> rest = [])"
    using tlv_uint_accepts [of 8 p v rest] tlv_uint_reads_back [of v 8]
    by (auto simp: fromwire_tu64_def towire_tu64_def)
  have "unat w < 256 ^ 4" using unat_u32_lt [of w] by simp
  then show "run_state fromwire_tu32 (Some (towire_tu32 w)) = (w, Some [])"
    using tlv_uint_reads_back [of "ucast w" 4] by (simp add: fromwire_tu32_def towire_tu32_def)
  have u: "unat x < 256 ^ 2" using unsigned_less [of x, where ?'a = nat] by simp
  then have "unat (ucast x :: u64) = unat x" by (simp add: unsigned_ucast_eq take_bit_nat_eq_self)
  moreover have "ucast (ucast x :: u64) = x" by (rule bit_word_eqI) (simp add: bit_simps)
  ultimately show "run_state fromwire_tu16 (Some (towire_tu16 x)) = (x, Some [])"
    using tlv_uint_reads_back [of "ucast x" 2] u by (simp add: fromwire_tu16_def towire_tu16_def)
qed

subsection \<open>\<^verbatim>\<open>bitcoin/varint.c\<close>\<close>

lemma varint_put_eq:
  "varint_put v =
     (if v < 0xfd then [ucast v]
      else if v \<le> 0xffff then 0xfd # rev (be_bytes 2 (unat v))
      else if v \<le> 0xffffffff then 0xfe # rev (be_bytes 4 (unat v))
      else 0xff # rev (be_bytes 8 (unat v)))"
  by (simp add: varint_put_def be_bytes_numeral)

lemma varint_get_fd:
  "2 \<le> length q \<Longrightarrow> varint_get (0xfd # q) = Some (3, of_nat (be_val (rev (take 2 q))))"
  by (auto simp: varint_get_def push_byte numeral_eq_Suc Suc_le_length_iff)


lemma varint_get_fe:
  assumes "4 \<le> length q"
  shows "varint_get (0xfe # q) = Some (5, of_nat (be_val (rev (take 4 q))))"
proof -
  obtain a b c d r where "q = a # b # c # d # r"
    using assms by (auto simp: numeral_eq_Suc Suc_le_length_iff)
  then show ?thesis by (simp add: varint_get_def push_byte)
qed

lemma varint_get_ff:
  assumes "8 \<le> length q"
  shows "varint_get (0xff # q) = Some (9, of_nat (be_val (rev (take 8 q))))"
proof -
  obtain a b c d e f g h r where "q = a # b # c # d # e # f # g # h # r"
    using assms by (auto simp: numeral_eq_Suc Suc_le_length_iff)
  then show ?thesis by (simp add: varint_get_def push_byte)
qed

lemma varint_get_put: "varint_get (varint_put v @ rest) = Some (varint_size v, v)"
proof -
  have small: "(ucast v :: u8) \<noteq> 0xfd" "(ucast v :: u8) \<noteq> 0xfe" "(ucast v :: u8) \<noteq> 0xff"
    "ucast (ucast v :: u8) = v" if "v < 0xfd"
    using that by (simp_all add: word_less_nat_alt word_unat_eq_iff unat_ucast_u64_u8)
  consider "v < 0xfd" | "0xfd \<le> v" "v \<le> 0xffff" | "0xffff < v" "v \<le> 0xffffffff" | "0xffffffff < v"
    by fastforce
  then show ?thesis
  proof cases
    case 1
    with small show ?thesis by (simp add: varint_put_eq varint_get_def varint_size_def)
  next
    case 2
    then show ?thesis
      by (simp add: varint_put_eq varint_size_def varint_get_fd word_le_nat_alt word_less_nat_alt)
  next
    case 3
    then show ?thesis
      by (simp add: varint_put_eq varint_size_def varint_get_fe word_le_nat_alt word_less_nat_alt)
  next
    case 4
    with unat_u64_lt [of v] show ?thesis
      by (simp add: varint_put_eq varint_size_def varint_get_ff word_le_nat_alt word_less_nat_alt)
  qed
qed

text \<open>
  (C38) A BigSize is read back as the number that was written, whatever follows it, and every
  encoding that the reader accepts is the shortest one: two encodings of one number do not exist.
  Bitcoin's variable integer is read back too, but its reader also accepts longer encodings.
\<close>

theorem bigsize_shortest:
  "(run_state fromwire_bigsize (Some p) = (v, Some rest)) = (p = towire_bigsize v @ rest)
   \<and> length (towire_bigsize v) = bigsize_len v
   \<and> varint_get (varint_put v @ rest) = Some (varint_size v, v)
   \<and> varint_get [0xfd, 1, 0] = Some (3, 1) \<and> varint_put 1 = [1]"
  using bigsize.accepts_iff [of p v rest] varint_get_put [of v rest]
  by (simp add: towire_bigsize_def bigsize_put_def bigsize_len_def varint_get_def varint_put_def)

end
