(* ===== verification/Script.thy ===== *)
theory Script
  imports Wire
begin

unbundle bit_operations_syntax

text \<open>
  Scripts: \<^verbatim>\<open>bitcoin/script.c\<close> and the trees of \<^verbatim>\<open>bitcoin/tapscript.c\<close>. A function that appends to
  a script is modelled by the bytes it appends. A key is its 33-byte compressed encoding, which is
  what \<^verbatim>\<open>pubkey_to_der\<close> gives, and a signature is what \<^verbatim>\<open>signature_to_der\<close> gives. The hash functions and
  libwally's tweak of a key are the fields of \<open>crypto\<close>; what is used of them is the length of their
  results, \<open>crypto_ok\<close>. Assertions on lengths that the types of the arguments fix are left out.

  The lemmas show that what is pushed is what an interpreter of Bitcoin's push instructions reads
  back, that numbers are script numbers of the fewest bytes, and that the tests for the known types
  of output recognise exactly what is built.
\<close>

section \<open>What comes from libraries\<close>

record crypto =
  sha256 :: "bytes \<Rightarrow> bytes"
  ripemd160 :: "bytes \<Rightarrow> bytes"
  bip341_tweak :: "bytes \<Rightarrow> bytes \<Rightarrow> bytes"
  bip341_tweak_no_root :: "bytes \<Rightarrow> bytes"

definition crypto_ok :: "crypto \<Rightarrow> bool" where
  "crypto_ok cr \<longleftrightarrow> (\<forall>x. length (sha256 cr x) = 32) \<and> (\<forall>x. length (ripemd160 cr x) = 20)
     \<and> (\<forall>k r. length (bip341_tweak cr k r) = 33) \<and> (\<forall>k. length (bip341_tweak_no_root cr k) = 33)"

definition le_bytes :: "nat \<Rightarrow> nat \<Rightarrow> bytes" where
  "le_bytes n v = rev (be_bytes n v)"

text \<open>\<^verbatim>\<open>memcmp(a, b, len) < 0\<close> for arrays of one length.\<close>

fun memcmp_less :: "bytes \<Rightarrow> bytes \<Rightarrow> bool" where
  "memcmp_less (x # xs) (y # ys) = (if x = y then memcmp_less xs ys else x < y)"
| "memcmp_less _ _ = False"

abbreviation (input) OP_0 :: u8 where "OP_0 \<equiv> 0x00"
abbreviation (input) OP_PUSHDATA1 :: u8 where "OP_PUSHDATA1 \<equiv> 0x4c"
abbreviation (input) OP_PUSHDATA2 :: u8 where "OP_PUSHDATA2 \<equiv> 0x4d"
abbreviation (input) OP_PUSHDATA4 :: u8 where "OP_PUSHDATA4 \<equiv> 0x4e"
abbreviation (input) OP_1 :: u8 where "OP_1 \<equiv> 0x51"
abbreviation (input) OP_16 :: u8 where "OP_16 \<equiv> 0x60"
abbreviation (input) OP_IF :: u8 where "OP_IF \<equiv> 0x63"
abbreviation (input) OP_NOTIF :: u8 where "OP_NOTIF \<equiv> 0x64"
abbreviation (input) OP_ELSE :: u8 where "OP_ELSE \<equiv> 0x67"
abbreviation (input) OP_ENDIF :: u8 where "OP_ENDIF \<equiv> 0x68"
abbreviation (input) OP_VERIFY :: u8 where "OP_VERIFY \<equiv> 0x69"
abbreviation (input) OP_IFDUP :: u8 where "OP_IFDUP \<equiv> 0x73"
abbreviation (input) OP_DROP :: u8 where "OP_DROP \<equiv> 0x75"
abbreviation (input) OP_DUP :: u8 where "OP_DUP \<equiv> 0x76"
abbreviation (input) OP_OVER :: u8 where "OP_OVER \<equiv> 0x78"
abbreviation (input) OP_ROT :: u8 where "OP_ROT \<equiv> 0x7b"
abbreviation (input) OP_SWAP :: u8 where "OP_SWAP \<equiv> 0x7c"
abbreviation (input) OP_TUCK :: u8 where "OP_TUCK \<equiv> 0x7d"
abbreviation (input) OP_SIZE :: u8 where "OP_SIZE \<equiv> 0x82"
abbreviation (input) OP_EQUAL :: u8 where "OP_EQUAL \<equiv> 0x87"
abbreviation (input) OP_EQUALVERIFY :: u8 where "OP_EQUALVERIFY \<equiv> 0x88"
abbreviation (input) OP_SHA256 :: u8 where "OP_SHA256 \<equiv> 0xa8"
abbreviation (input) OP_HASH160 :: u8 where "OP_HASH160 \<equiv> 0xa9"
abbreviation (input) OP_CHECKSIG :: u8 where "OP_CHECKSIG \<equiv> 0xac"
abbreviation (input) OP_CHECKSIGVERIFY :: u8 where "OP_CHECKSIGVERIFY \<equiv> 0xad"
abbreviation (input) OP_CHECKMULTISIG :: u8 where "OP_CHECKMULTISIG \<equiv> 0xae"
abbreviation (input) OP_CHECKLOCKTIMEVERIFY :: u8 where "OP_CHECKLOCKTIMEVERIFY \<equiv> 0xb1"
abbreviation (input) OP_CHECKSEQUENCEVERIFY :: u8 where "OP_CHECKSEQUENCEVERIFY \<equiv> 0xb2"

section \<open>Appending to a script\<close>

definition hash160 :: "crypto \<Rightarrow> bytes \<Rightarrow> bytes" where
  "hash160 cr mem = ripemd160 cr (sha256 cr mem)"

definition pubkey_to_hash160 :: "crypto \<Rightarrow> bytes \<Rightarrow> bytes" where
  "pubkey_to_hash160 cr pk = ripemd160 cr (sha256 cr pk)"

definition pubkey_cmp_less :: "bytes \<Rightarrow> bytes \<Rightarrow> bool" where
  "pubkey_cmp_less a b = memcmp_less a b"

definition add_op :: "u8 \<Rightarrow> bytes" where
  "add_op opcode = [opcode]"

definition script_push_bytes :: "bytes \<Rightarrow> bytes" where
  "script_push_bytes mem =
     (let len = length mem in
      (if len < 76 then add_op (of_nat len)
       else if len < 256 then add_op OP_PUSHDATA1 @ [of_nat len]
       else if len < 65536 then add_op OP_PUSHDATA2 @ le_bytes 2 len
       else add_op OP_PUSHDATA4 @ le_bytes 4 len) @ mem)"

definition add_number :: "u32 \<Rightarrow> bytes" where
  "add_number num =
     (if num = 0 then add_op 0
      else if num \<le> 16 then add_op (0x50 + ucast num)
      else let n = le_bytes 8 (unat num) in
           if num \<le> 0x0000007F then script_push_bytes (take 1 n)
           else if num \<le> 0x00007FFF then script_push_bytes (take 2 n)
           else if num \<le> 0x007FFFFF then script_push_bytes (take 3 n)
           else if num \<le> 0x7FFFFFFF then script_push_bytes (take 4 n)
           else script_push_bytes (take 5 n))"

definition add_push_key :: "bytes \<Rightarrow> bytes" where
  "add_push_key key = script_push_bytes key"

definition add_push_sig :: "bytes \<Rightarrow> bytes" where
  "add_push_sig sig = script_push_bytes sig"

definition stack_key :: "bytes \<Rightarrow> bytes" where "stack_key key = key"
definition stack_sig :: "bytes \<Rightarrow> bytes" where "stack_sig sig = sig"
definition stack_preimage :: "bytes \<Rightarrow> bytes" where "stack_preimage r = r"

definition stack_number :: "u32 \<Rightarrow> bytes run" where
  "stack_number num =
     (if num = 0 then Some []
      else let val = (ucast num :: u8) in if ucast val = num then Some [val] else None)"

section \<open>Output scripts\<close>

definition bitcoin_redeem_2of2 :: "bytes \<Rightarrow> bytes \<Rightarrow> bytes" where
  "bitcoin_redeem_2of2 key1 key2 =
     add_number 2
     @ (if pubkey_cmp_less key1 key2 then add_push_key key1 @ add_push_key key2
        else add_push_key key2 @ add_push_key key1)
     @ add_number 2 @ add_op OP_CHECKMULTISIG"

definition scriptpubkey_p2sh_hash :: "bytes \<Rightarrow> bytes" where
  "scriptpubkey_p2sh_hash redeemhash =
     add_op OP_HASH160 @ script_push_bytes redeemhash @ add_op OP_EQUAL"

definition scriptpubkey_p2sh :: "crypto \<Rightarrow> bytes \<Rightarrow> bytes" where
  "scriptpubkey_p2sh cr redeemscript = scriptpubkey_p2sh_hash (hash160 cr redeemscript)"

definition scriptpubkey_p2pkh :: "bytes \<Rightarrow> bytes" where
  "scriptpubkey_p2pkh addr =
     add_op OP_DUP @ add_op OP_HASH160 @ script_push_bytes addr @ add_op OP_EQUALVERIFY @ add_op OP_CHECKSIG"

definition bitcoin_redeem_p2pkh :: "bytes \<Rightarrow> bytes \<Rightarrow> bytes" where
  "bitcoin_redeem_p2pkh pubkey sig = add_push_sig sig @ add_push_key pubkey"

definition bitcoin_redeem_p2sh_p2wpkh :: "crypto \<Rightarrow> bytes \<Rightarrow> bytes" where
  "bitcoin_redeem_p2sh_p2wpkh cr key = add_number 0 @ script_push_bytes (pubkey_to_hash160 cr key)"

definition bitcoin_scriptsig_redeem :: "bytes \<Rightarrow> bytes" where
  "bitcoin_scriptsig_redeem redeemscript = script_push_bytes redeemscript"

definition bitcoin_scriptsig_p2sh_p2wpkh :: "crypto \<Rightarrow> bytes \<Rightarrow> bytes" where
  "bitcoin_scriptsig_p2sh_p2wpkh cr key = bitcoin_scriptsig_redeem (bitcoin_redeem_p2sh_p2wpkh cr key)"

definition bitcoin_witness_p2wpkh :: "bytes \<Rightarrow> bytes \<Rightarrow> bytes list" where
  "bitcoin_witness_p2wpkh sig key = [stack_sig sig, stack_key key]"

definition scriptpubkey_p2wsh :: "crypto \<Rightarrow> bytes \<Rightarrow> bytes" where
  "scriptpubkey_p2wsh cr witnessscript = add_op OP_0 @ script_push_bytes (sha256 cr witnessscript)"

definition scriptpubkey_p2wpkh :: "crypto \<Rightarrow> bytes \<Rightarrow> bytes" where
  "scriptpubkey_p2wpkh cr key = add_op OP_0 @ script_push_bytes (pubkey_to_hash160 cr key)"

definition scriptpubkey_p2wpkh_derkey :: "crypto \<Rightarrow> bytes \<Rightarrow> bytes" where
  "scriptpubkey_p2wpkh_derkey cr der = add_op OP_0 @ script_push_bytes (hash160 cr der)"

definition scriptpubkey_witness_raw :: "u8 \<Rightarrow> bytes \<Rightarrow> bytes" where
  "scriptpubkey_witness_raw version wprog = add_number (ucast version) @ script_push_bytes wprog"

definition scriptpubkey_p2tr :: "crypto \<Rightarrow> bytes \<Rightarrow> bytes" where
  "scriptpubkey_p2tr cr inner_pubkey =
     add_op OP_1 @ script_push_bytes (drop 1 (bip341_tweak_no_root cr inner_pubkey))"

definition p2wpkh_scriptcode :: "crypto \<Rightarrow> bytes \<Rightarrow> bytes" where
  "p2wpkh_scriptcode cr key =
     add_op OP_DUP @ add_op OP_HASH160 @ script_push_bytes (pubkey_to_hash160 cr key)
     @ add_op OP_EQUALVERIFY @ add_op OP_CHECKSIG"

section \<open>Recognising an output script\<close>

text \<open>The out-parameter \<^verbatim>\<open>addr\<close> is the value on success.\<close>

definition is_p2pkh :: "bytes \<Rightarrow> bytes option" where
  "is_p2pkh script =
     (if length script \<noteq> 25 then None
      else if script ! 0 \<noteq> OP_DUP then None
      else if script ! 1 \<noteq> OP_HASH160 then None
      else if script ! 2 \<noteq> 20 then None
      else if script ! 23 \<noteq> OP_EQUALVERIFY then None
      else if script ! 24 \<noteq> OP_CHECKSIG then None
      else Some (take 20 (drop 3 script)))"

definition is_p2sh :: "bytes \<Rightarrow> bytes option" where
  "is_p2sh script =
     (if length script \<noteq> 23 then None
      else if script ! 0 \<noteq> OP_HASH160 then None
      else if script ! 1 \<noteq> 20 then None
      else if script ! 22 \<noteq> OP_EQUAL then None
      else Some (take 20 (drop 2 script)))"

definition is_p2wsh :: "bytes \<Rightarrow> bytes option" where
  "is_p2wsh script =
     (if length script \<noteq> 34 then None
      else if script ! 0 \<noteq> OP_0 then None
      else if script ! 1 \<noteq> 32 then None
      else Some (take 32 (drop 2 script)))"

definition is_p2wpkh :: "bytes \<Rightarrow> bytes option" where
  "is_p2wpkh script =
     (if length script \<noteq> 22 then None
      else if script ! 0 \<noteq> OP_0 then None
      else if script ! 1 \<noteq> 20 then None
      else Some (take 20 (drop 2 script)))"

definition is_p2tr :: "bytes \<Rightarrow> bytes option" where
  "is_p2tr script =
     (if length script \<noteq> 34 then None
      else if script ! 0 \<noteq> OP_1 then None
      else if script ! 1 \<noteq> 32 then None
      else Some (take 32 (drop 2 script)))"

definition is_known_scripttype :: "bytes \<Rightarrow> bool" where
  "is_known_scripttype script \<longleftrightarrow>
     is_p2wpkh script \<noteq> None \<or> is_p2wsh script \<noteq> None \<or> is_p2sh script \<noteq> None
     \<or> is_p2pkh script \<noteq> None \<or> is_p2tr script \<noteq> None"

definition is_known_segwit_scripttype :: "bytes \<Rightarrow> bool" where
  "is_known_segwit_scripttype script \<longleftrightarrow>
     is_p2wpkh script \<noteq> None \<or> is_p2wsh script \<noteq> None \<or> is_p2tr script \<noteq> None"

definition is_to_remote_anchored_witness_script :: "bytes \<Rightarrow> bool" where
  "is_to_remote_anchored_witness_script script =
     (let len = 34 + 1 + 1 + 1; script_len = length script in
      if script_len < len \<or> script_len > len + 2 then False
      else if script ! 0 \<noteq> 33 then False
      else if script ! 34 \<noteq> OP_CHECKSIGVERIFY then False
      else if script ! (script_len - 1) \<noteq> OP_CHECKSEQUENCEVERIFY then False
      else True)"

definition is_anchor_witness_script :: "bytes \<Rightarrow> bool" where
  "is_anchor_witness_script script =
     (if length script \<noteq> 34 + 1 + 1 + 1 + 1 + 1 + 1 then False
      else if script ! 0 \<noteq> 33 then False
      else if script ! 34 \<noteq> OP_CHECKSIG then False
      else if script ! 35 \<noteq> OP_IFDUP then False
      else if script ! 36 \<noteq> OP_NOTIF then False
      else if script ! 37 \<noteq> 0x50 + 16 then False
      else if script ! 38 \<noteq> OP_CHECKSEQUENCEVERIFY then False
      else if script ! 39 \<noteq> OP_ENDIF then False
      else True)"

definition scripteq :: "bytes \<Rightarrow> bytes \<Rightarrow> bool" where
  "scripteq s1 s2 \<longleftrightarrow> length s1 = length s2 \<and> s1 = s2"

section \<open>Witness scripts of a commitment\<close>

definition bitcoin_wscript_to_remote_anchored :: "bytes \<Rightarrow> u32 \<Rightarrow> bytes run" where
  "bitcoin_wscript_to_remote_anchored remote_key csv_lock =
     (let script = add_push_key remote_key @ add_op OP_CHECKSIGVERIFY @ add_number csv_lock
                   @ add_op OP_CHECKSEQUENCEVERIFY
      in if is_to_remote_anchored_witness_script script then Some script else None)"

definition bitcoin_wscript_to_local :: "u16 \<Rightarrow> u32 \<Rightarrow> bytes \<Rightarrow> bytes \<Rightarrow> bytes" where
  "bitcoin_wscript_to_local to_self_delay lease_remaining revocation_pubkey local_delayedkey =
     add_op OP_IF @ add_push_key revocation_pubkey @ add_op OP_ELSE
     @ add_number (max lease_remaining (ucast to_self_delay))
     @ add_op OP_CHECKSEQUENCEVERIFY @ add_op OP_DROP @ add_push_key local_delayedkey
     @ add_op OP_ENDIF @ add_op OP_CHECKSIG"

definition bitcoin_wscript_htlc_offer_ripemd160 ::
  "crypto \<Rightarrow> bytes \<Rightarrow> bytes \<Rightarrow> bytes \<Rightarrow> bytes \<Rightarrow> bool \<Rightarrow> bool \<Rightarrow> bytes" where
  "bitcoin_wscript_htlc_offer_ripemd160 cr localhtlckey remotehtlckey payment_ripemd revocationkey
     option_anchor_outputs option_anchors_zero_fee_htlc_tx =
     add_op OP_DUP @ add_op OP_HASH160 @ script_push_bytes (pubkey_to_hash160 cr revocationkey)
     @ add_op OP_EQUAL @ add_op OP_IF @ add_op OP_CHECKSIG @ add_op OP_ELSE
     @ add_push_key remotehtlckey @ add_op OP_SWAP @ add_op OP_SIZE @ add_number 32 @ add_op OP_EQUAL
     @ add_op OP_NOTIF @ add_op OP_DROP @ add_number 2 @ add_op OP_SWAP @ add_push_key localhtlckey
     @ add_number 2 @ add_op OP_CHECKMULTISIG @ add_op OP_ELSE @ add_op OP_HASH160
     @ script_push_bytes payment_ripemd @ add_op OP_EQUALVERIFY @ add_op OP_CHECKSIG @ add_op OP_ENDIF
     @ (if option_anchor_outputs \<or> option_anchors_zero_fee_htlc_tx
        then add_number 1 @ add_op OP_CHECKSEQUENCEVERIFY @ add_op OP_DROP else [])
     @ add_op OP_ENDIF"

definition bitcoin_wscript_htlc_offer ::
  "crypto \<Rightarrow> bytes \<Rightarrow> bytes \<Rightarrow> bytes \<Rightarrow> bytes \<Rightarrow> bool \<Rightarrow> bool \<Rightarrow> bytes" where
  "bitcoin_wscript_htlc_offer cr localhtlckey remotehtlckey payment_hash revocationkey ao az =
     bitcoin_wscript_htlc_offer_ripemd160 cr localhtlckey remotehtlckey (ripemd160 cr payment_hash)
       revocationkey ao az"

definition bitcoin_wscript_htlc_receive_ripemd ::
  "crypto \<Rightarrow> u32 \<Rightarrow> bytes \<Rightarrow> bytes \<Rightarrow> bytes \<Rightarrow> bytes \<Rightarrow> bool \<Rightarrow> bool \<Rightarrow> bytes" where
  "bitcoin_wscript_htlc_receive_ripemd cr htlc_abstimeout localhtlckey remotehtlckey payment_ripemd revocationkey
     option_anchor_outputs option_anchors_zero_fee_htlc_tx =
     add_op OP_DUP @ add_op OP_HASH160 @ script_push_bytes (pubkey_to_hash160 cr revocationkey)
     @ add_op OP_EQUAL @ add_op OP_IF @ add_op OP_CHECKSIG @ add_op OP_ELSE
     @ add_push_key remotehtlckey @ add_op OP_SWAP @ add_op OP_SIZE @ add_number 32 @ add_op OP_EQUAL
     @ add_op OP_IF @ add_op OP_HASH160 @ script_push_bytes payment_ripemd @ add_op OP_EQUALVERIFY
     @ add_number 2 @ add_op OP_SWAP @ add_push_key localhtlckey @ add_number 2
     @ add_op OP_CHECKMULTISIG @ add_op OP_ELSE @ add_op OP_DROP @ add_number htlc_abstimeout
     @ add_op OP_CHECKLOCKTIMEVERIFY @ add_op OP_DROP @ add_op OP_CHECKSIG @ add_op OP_ENDIF
     @ (if option_anchor_outputs \<or> option_anchors_zero_fee_htlc_tx
        then add_number 1 @ add_op OP_CHECKSEQUENCEVERIFY @ add_op OP_DROP else [])
     @ add_op OP_ENDIF"

definition bitcoin_wscript_htlc_receive ::
  "crypto \<Rightarrow> u32 \<Rightarrow> bytes \<Rightarrow> bytes \<Rightarrow> bytes \<Rightarrow> bytes \<Rightarrow> bool \<Rightarrow> bool \<Rightarrow> bytes" where
  "bitcoin_wscript_htlc_receive cr htlc_abstimeout localhtlckey remotehtlckey payment_hash revocationkey ao az =
     bitcoin_wscript_htlc_receive_ripemd cr htlc_abstimeout localhtlckey remotehtlckey
       (ripemd160 cr payment_hash) revocationkey ao az"

definition bitcoin_wscript_htlc_tx :: "u16 \<Rightarrow> bytes \<Rightarrow> bytes \<Rightarrow> bytes" where
  "bitcoin_wscript_htlc_tx to_self_delay revocation_pubkey local_delayedkey =
     add_op OP_IF @ add_push_key revocation_pubkey @ add_op OP_ELSE @ add_number (ucast to_self_delay)
     @ add_op OP_CHECKSEQUENCEVERIFY @ add_op OP_DROP @ add_push_key local_delayedkey
     @ add_op OP_ENDIF @ add_op OP_CHECKSIG"

definition bitcoin_wscript_anchor :: "bytes \<Rightarrow> bytes run" where
  "bitcoin_wscript_anchor funding_pubkey =
     (let script = add_push_key funding_pubkey @ add_op OP_CHECKSIG @ add_op OP_IFDUP @ add_op OP_NOTIF
                   @ add_number 16 @ add_op OP_CHECKSEQUENCEVERIFY @ add_op OP_ENDIF
      in if is_anchor_witness_script script then Some script else None)"

section \<open>Witnesses\<close>

definition bitcoin_witness_2of2 :: "bytes \<Rightarrow> bytes \<Rightarrow> bytes \<Rightarrow> bytes \<Rightarrow> bytes list run" where
  "bitcoin_witness_2of2 sig1 sig2 key1 key2 =
     do { zero \<leftarrow> stack_number 0;
          Some ([zero]
            @ (if pubkey_cmp_less key1 key2 then [stack_sig sig1, stack_sig sig2]
               else [stack_sig sig2, stack_sig sig1])
            @ [bitcoin_redeem_2of2 key1 key2]) }"

definition bitcoin_witness_sig_and_element :: "bytes \<Rightarrow> bytes \<Rightarrow> bytes \<Rightarrow> bytes list" where
  "bitcoin_witness_sig_and_element sig elem witnessscript = [stack_sig sig, elem, witnessscript]"

definition bitcoin_witness_htlc_timeout_tx :: "bytes \<Rightarrow> bytes \<Rightarrow> bytes \<Rightarrow> bytes list run" where
  "bitcoin_witness_htlc_timeout_tx localhtlcsig remotehtlcsig wscript =
     do { zero \<leftarrow> stack_number 0;
          Some [zero, stack_sig remotehtlcsig, stack_sig localhtlcsig, zero, wscript] }"

definition bitcoin_witness_htlc_success_tx :: "bytes \<Rightarrow> bytes \<Rightarrow> bytes \<Rightarrow> bytes \<Rightarrow> bytes list run" where
  "bitcoin_witness_htlc_success_tx localhtlcsig remotesig preimage wscript =
     do { zero \<leftarrow> stack_number 0;
          Some [zero, stack_sig remotesig, stack_sig localhtlcsig, stack_preimage preimage, wscript] }"

section \<open>Reading pushes and numbers\<close>

text \<open>Bitcoin's push instructions, and its script numbers: little-endian, the top bit the sign.\<close>

definition le_val :: "bytes \<Rightarrow> nat" where
  "le_val bs = be_val (rev bs)"

definition take_exactly :: "nat \<Rightarrow> bytes \<Rightarrow> (bytes \<times> bytes) option" where
  "take_exactly n bs = (if length bs < n then None else Some (take n bs, drop n bs))"

fun read_push :: "bytes \<Rightarrow> (bytes \<times> bytes) option" where
  "read_push [] = None"
| "read_push (c # bs) =
     (if c < 76 then take_exactly (unat c) bs
      else if c = OP_PUSHDATA1 then
        do { (l, r) \<leftarrow> take_exactly 1 bs; take_exactly (le_val l) r }
      else if c = OP_PUSHDATA2 then
        do { (l, r) \<leftarrow> take_exactly 2 bs; take_exactly (le_val l) r }
      else if c = OP_PUSHDATA4 then
        do { (l, r) \<leftarrow> take_exactly 4 bs; take_exactly (le_val l) r }
      else None)"

definition script_num :: "bytes \<Rightarrow> int" where
  "script_num bs =
     (if bs = [] then 0
      else if bit (last bs) 7 then - int (le_val bs - 2 ^ (8 * length bs - 1))
      else int (le_val bs))"

text \<open>No shorter encoding: the last byte is more than a sign, or holds the sign for the one before.\<close>

definition minimal_num :: "bytes \<Rightarrow> bool" where
  "minimal_num bs \<longleftrightarrow> bs = [] \<or> unat (last bs) mod 128 \<noteq> 0
     \<or> (length bs > 1 \<and> bit (bs ! (length bs - 2)) 7)"

fun read_num :: "bytes \<Rightarrow> (int \<times> bytes) option" where
  "read_num [] = None"
| "read_num (c # bs) =
     (if OP_1 \<le> c \<and> c \<le> OP_16 then Some (int (unat c) - 0x50, bs)
      else do { (d, r) \<leftarrow> read_push (c # bs);
                if minimal_num d then Some (script_num d, r) else None })"

lemma le_bytes_simps [simp]:
  "length (le_bytes n v) = n" "le_val (le_bytes n v) = v mod 256 ^ n"
  by (simp_all add: le_bytes_def le_val_def)

lemma take_exactly_append [simp]: "length d = n \<Longrightarrow> take_exactly n (d @ rest) = Some (d, rest)"
  by (simp add: take_exactly_def)

lemma read_push_bytes:
  assumes "length mem < 2 ^ 32"
  shows "read_push (script_push_bytes mem @ rest) = Some (mem, rest)"
proof -
  have u: "unat (of_nat n :: u8) = n" if "n < 256" for n using that by (simp add: unat_of_nat_u8)
  consider "length mem < 76" | "76 \<le> length mem" "length mem < 256" | "256 \<le> length mem" "length mem < 65536"
    | "65536 \<le> length mem" by linarith
  then show ?thesis
  proof cases
    case 1
    then show ?thesis
      by (simp add: script_push_bytes_def add_op_def Let_def word_less_nat_alt u)
  next
    case 2
    have "take_exactly 1 (of_nat (length mem) # mem @ rest) = Some ([of_nat (length mem)], mem @ rest)"
      using take_exactly_append [of "[of_nat (length mem)]" 1 "mem @ rest"] by simp
    with 2 show ?thesis
      by (simp add: script_push_bytes_def add_op_def Let_def le_val_def u)
  next
    case 3
    then show ?thesis by (simp add: script_push_bytes_def add_op_def Let_def)
  next
    case 4
    with assms show ?thesis by (simp add: script_push_bytes_def add_op_def Let_def)
  qed
qed

lemma be_bytes_Suc_low: "be_bytes (Suc n) v = be_bytes n (v div 256) @ [of_nat v]"
  by (induction n) (simp_all add: div_mult2_eq [symmetric] mult.commute)

lemma le_bytes_Suc: "le_bytes (Suc n) v = of_nat v # le_bytes n (v div 256)"
  unfolding le_bytes_def be_bytes_Suc_low by simp

lemma take_le_bytes: "k \<le> n \<Longrightarrow> take k (le_bytes n v) = le_bytes k v"
proof (induction k arbitrary: n v)
  case (Suc k)
  then obtain m where "n = Suc m" "k \<le> m" by (cases n) auto
  with Suc show ?case by (simp add: le_bytes_Suc)
qed (simp add: le_bytes_def)

lemma last_le_bytes: "last (le_bytes (Suc n) v) = of_nat (v div 256 ^ n)"
  by (simp add: le_bytes_def)

lemma bit_7_of_nat: "bit (of_nat k :: u8) 7 \<longleftrightarrow> odd (k div 128)"
  unfolding bit_of_nat_iff by (simp add: bit_iff_odd)

text \<open>A number that leaves the top bit of its last byte free reads as itself.\<close>

lemma script_num_le_bytes:
  assumes "v < 128 * 256 ^ n"
  shows "script_num (le_bytes (Suc n) v) = int v"
proof -
  have "v div 256 ^ n < 128" using assms by (simp add: div_less_iff_less_mult)
  then have "\<not> bit (last (le_bytes (Suc n) v)) 7" by (simp add: last_le_bytes bit_7_of_nat)
  moreover have "v < 256 ^ Suc n" using assms by simp
  moreover have "le_bytes (Suc n) v \<noteq> []" by (simp add: le_bytes_Suc)
  ultimately show ?thesis by (simp add: script_num_def)
qed

lemma nth_le_bytes: "i < n \<Longrightarrow> le_bytes n v ! i = of_nat (v div 256 ^ i)"
  by (simp add: le_bytes_def be_bytes_def rev_nth)

lemma minimal_le_bytes:
  assumes "v < 128 * 256 ^ n" and "n = 0 \<and> v \<noteq> 0 \<or> (\<exists>m. n = Suc m \<and> 128 * 256 ^ m \<le> v)"
  shows "minimal_num (le_bytes (Suc n) v)"
proof -
  have d: "v div 256 ^ n < 128" using assms(1) by (simp add: div_less_iff_less_mult)
  show ?thesis
  proof (cases "v div 256 ^ n = 0")
    case False
    with d show ?thesis by (simp add: minimal_num_def last_le_bytes unat_of_nat_u8)
  next
    case True
    with assms(2) obtain m where m: "n = Suc m" "128 * 256 ^ m \<le> v" "v < 256 ^ Suc m"
      by (auto simp: div_eq_0_iff)
    then have "128 \<le> v div 256 ^ m" "v div 256 ^ m < 256"
      by (simp_all add: less_eq_div_iff_mult_less_eq div_less_iff_less_mult)
    then have "v div 256 ^ m div 128 = 1" by linarith
    then have "bit (le_bytes (Suc n) v ! m) 7"
      by (simp add: nth_le_bytes m(1) bit_7_of_nat)
    then show ?thesis by (simp add: minimal_num_def m(1))
  qed
qed

lemma read_num_push:
  assumes "v < 128 * 256 ^ n" and "n = 0 \<and> v \<noteq> 0 \<or> (\<exists>m. n = Suc m \<and> 128 * 256 ^ m \<le> v)" and "n < 8"
  shows "read_num (script_push_bytes (le_bytes (Suc n) v) @ rest) = Some (int v, rest)"
proof -
  have len: "Suc n < 76" using assms(3) by simp
  have "script_push_bytes (le_bytes (Suc n) v) @ rest = of_nat (Suc n) # le_bytes (Suc n) v @ rest"
    using len by (simp add: script_push_bytes_def add_op_def)
  moreover have "\<not> OP_1 \<le> (of_nat (Suc n) :: u8)"
    using assms(3) by (simp add: word_le_nat_alt unat_of_nat_u8 del: of_nat_Suc)
  moreover have "read_push (script_push_bytes (le_bytes (Suc n) v) @ rest) = Some (le_bytes (Suc n) v, rest)"
    using len by (intro read_push_bytes) simp
  ultimately show ?thesis
    using script_num_le_bytes [OF assms(1)] minimal_le_bytes [OF assms(1,2)] by simp
qed

text \<open>
  What is pushed is what an interpreter of the script reads: the bytes of any push of less than
  \<open>2 ^ 32\<close> bytes, whatever follows, and for a number the number itself, in the only minimal encoding.
\<close>

theorem pushes_read_back:
  "(length mem < 2 ^ 32 \<longrightarrow> read_push (script_push_bytes mem @ rest) = Some (mem, rest))
   \<and> read_num (add_number num @ rest) = Some (int (unat num), rest)"
proof (intro conjI impI)
  show "read_push (script_push_bytes mem @ rest) = Some (mem, rest)" if "length mem < 2 ^ 32"
    using that by (rule read_push_bytes)
  note push = take_le_bytes read_num_push [of _ 0] read_num_push [of _ 1, unfolded One_nat_def, folded numeral_2_eq_2]
    read_num_push [of _ 2]
    read_num_push [of _ 3] read_num_push [of _ 4]
  consider "num = 0" | "num \<noteq> 0" "num \<le> 16" | "16 < num" "num \<le> 0x7F" | "0x7F < num" "num \<le> 0x7FFF"
    | "0x7FFF < num" "num \<le> 0x7FFFFF" | "0x7FFFFF < num" "num \<le> 0x7FFFFFFF" | "0x7FFFFFFF < num"
    by (cases "num \<le> 16"; cases "num \<le> 0x7F"; cases "num \<le> 0x7FFF"; cases "num \<le> 0x7FFFFF";
        cases "num \<le> 0x7FFFFFFF") (auto simp: not_le)
  then show "read_num (add_number num @ rest) = Some (int (unat num), rest)"
  proof cases
    case 1
    then show ?thesis by (simp add: add_number_def add_op_def take_exactly_def minimal_num_def script_num_def)
  next
    case 2
    then have u: "unat num \<le> 16" "0 < unat num" by (simp_all add: word_le_nat_alt unat_gt_0)
    then have "unat (0x50 + ucast num :: u8) = 0x50 + unat num"
      by (simp add: unat_word_ariths unsigned_ucast_eq take_bit_nat_eq_self)
    with u 2 show ?thesis by (simp add: add_number_def add_op_def word_le_nat_alt)
  qed (use unat_u32_lt [of num] push in \<open>auto simp: add_number_def word_le_nat_alt word_less_nat_alt Let_def\<close>)
qed


theorem pushes_read_back_witness:
  "read_push (script_push_bytes [1, 2, 3] @ [0xac]) = Some ([1, 2, 3], [0xac])
   \<and> read_num (add_number 500000001 @ [0xb1]) = Some (500000001, [0xb1])"
  using pushes_read_back [of "[1, 2, 3]" "[0xac]" 0] pushes_read_back [of "[]" "[0xb1]" 500000001] by simp

section \<open>The types of output\<close>

lemma push_short: "length mem < 76 \<Longrightarrow> script_push_bytes mem = of_nat (length mem) # mem"
  by (simp add: script_push_bytes_def add_op_def)

lemma length_add_number:
  "length (add_number num)
     = (if num \<le> 16 then 1 else if num \<le> 0x7F then 2 else if num \<le> 0x7FFF then 3
        else if num \<le> 0x7FFFFF then 4 else if num \<le> 0x7FFFFFFF then 5 else 6)"
  by (auto simp: add_number_def add_op_def push_short Let_def)

lemma two_bytes: "2 \<le> length s \<Longrightarrow> s = s ! 0 # s ! 1 # drop 2 s"
  by (cases s rule: remdups_adj.cases) simp_all

lemma three_bytes: "3 \<le> length s \<Longrightarrow> s = s ! 0 # s ! 1 # s ! 2 # drop 3 s"
  by (cases s; cases "tl s"; cases "tl (tl s)") auto

lemma last_byte: "length s = Suc n \<Longrightarrow> s = take n s @ [s ! n]"
  by (metis lessI order_refl take_Suc_conv_app_nth take_all)

lemma raw_simps:
  "length a = 20 \<Longrightarrow> scriptpubkey_witness_raw 0 a = OP_0 # 20 # a"
  "length h = 32 \<Longrightarrow> scriptpubkey_witness_raw 0 h = OP_0 # 32 # h"
  "length h = 32 \<Longrightarrow> scriptpubkey_witness_raw 1 h = OP_1 # 32 # h"
  "length a = 20 \<Longrightarrow> scriptpubkey_p2sh_hash a = OP_HASH160 # 20 # a @ [OP_EQUAL]"
  "length a = 20 \<Longrightarrow> scriptpubkey_p2pkh a = OP_DUP # OP_HASH160 # 20 # a @ [OP_EQUALVERIFY, OP_CHECKSIG]"
  by (simp_all add: scriptpubkey_witness_raw_def scriptpubkey_p2sh_hash_def scriptpubkey_p2pkh_def
      push_short add_op_def add_number_def)

text \<open>
  Each test recognises exactly the scripts of its type, and returns the hash or key in them; no
  script is of two types. So every output script that is built here, of any key or script, is known,
  and what is built for one hash is never what is built for another.
\<close>

theorem output_types_exact:
  "(is_p2wpkh s = Some a \<longleftrightarrow> length a = 20 \<and> s = scriptpubkey_witness_raw 0 a)
   \<and> (is_p2wsh s = Some h \<longleftrightarrow> length h = 32 \<and> s = scriptpubkey_witness_raw 0 h)
   \<and> (is_p2tr s = Some x \<longleftrightarrow> length x = 32 \<and> s = scriptpubkey_witness_raw 1 x)
   \<and> (is_p2sh s = Some b \<longleftrightarrow> length b = 20 \<and> s = scriptpubkey_p2sh_hash b)
   \<and> (is_p2pkh s = Some c \<longleftrightarrow> length c = 20 \<and> s = scriptpubkey_p2pkh c)
   \<and> length (filter (\<lambda>t. t s \<noteq> None) [is_p2wpkh, is_p2wsh, is_p2tr, is_p2sh, is_p2pkh])
       = (if is_known_scripttype s then 1 else 0)"
proof (intro conjI)
  show "is_p2wpkh s = Some a \<longleftrightarrow> length a = 20 \<and> s = scriptpubkey_witness_raw 0 a"
    using two_bytes [of s] by (auto simp: is_p2wpkh_def raw_simps)
  show "is_p2wsh s = Some h \<longleftrightarrow> length h = 32 \<and> s = scriptpubkey_witness_raw 0 h"
    using two_bytes [of s] by (auto simp: is_p2wsh_def raw_simps)
  show "is_p2tr s = Some x \<longleftrightarrow> length x = 32 \<and> s = scriptpubkey_witness_raw 1 x"
    using two_bytes [of s] by (auto simp: is_p2tr_def raw_simps)
  show "is_p2sh s = Some b \<longleftrightarrow> length b = 20 \<and> s = scriptpubkey_p2sh_hash b"
    using two_bytes [of s] last_byte [of "drop 2 s" 20]
    by (auto simp: is_p2sh_def raw_simps nth_append)
  show "is_p2pkh s = Some c \<longleftrightarrow> length c = 20 \<and> s = scriptpubkey_p2pkh c"
    using three_bytes [of s] last_byte [of "drop 3 s" 21] last_byte [of "take 21 (drop 3 s)" 20]
    by (auto simp: is_p2pkh_def raw_simps nth_append)
  show "length (filter (\<lambda>t. t s \<noteq> None) [is_p2wpkh, is_p2wsh, is_p2tr, is_p2sh, is_p2pkh])
       = (if is_known_scripttype s then 1 else 0)"
    by (auto simp: is_known_scripttype_def is_p2wpkh_def is_p2wsh_def is_p2tr_def is_p2sh_def is_p2pkh_def)
qed


text \<open>
  The script of a locked \<^verbatim>\<open>to_remote\<close> output passes its own assertion exactly when the lock is
  at most 32767 blocks: a longer one takes a third byte, which the test of the script does not
  allow, and the daemon stops. The script of an anchor always passes its assertion.
\<close>

theorem to_remote_anchored_lock:
  assumes "length key = 33"
  shows "(bitcoin_wscript_to_remote_anchored key csv_lock \<noteq> None) = (unat csv_lock \<le> 32767)
    \<and> bitcoin_wscript_anchor key \<noteq> None"
proof
  have k: "add_push_key key = 33 # key" using assms by (simp add: add_push_key_def push_short)
  define s where "s = add_push_key key @ add_op OP_CHECKSIGVERIFY @ add_number csv_lock @ add_op OP_CHECKSEQUENCEVERIFY"
  have "length s = 36 + length (add_number csv_lock)" using assms k by (simp add: s_def add_op_def)
  moreover have "s ! 0 = 33" "s ! 34 = OP_CHECKSIGVERIFY" "s ! (length s - 1) = OP_CHECKSEQUENCEVERIFY"
    using assms k by (simp_all add: s_def add_op_def nth_append)
  moreover have "1 \<le> length (add_number csv_lock)" by (simp add: length_add_number)
  ultimately have "is_to_remote_anchored_witness_script s = (length (add_number csv_lock) \<le> 3)"
    unfolding is_to_remote_anchored_witness_script_def Let_def by auto
  then show "(bitcoin_wscript_to_remote_anchored key csv_lock \<noteq> None) = (unat csv_lock \<le> 32767)"
    by (simp add: bitcoin_wscript_to_remote_anchored_def s_def length_add_number word_le_nat_alt)
  show "bitcoin_wscript_anchor key \<noteq> None"
    using assms k by (simp add: bitcoin_wscript_anchor_def is_anchor_witness_script_def add_op_def add_number_def
        nth_append)
qed

theorem to_remote_anchored_lock_witness:
  "bitcoin_wscript_to_remote_anchored (2 # replicate 32 5) 40000 = None
   \<and> bitcoin_wscript_to_remote_anchored (2 # replicate 32 5) 4032 \<noteq> None"
  using to_remote_anchored_lock [of "2 # replicate 32 5" 40000]
    to_remote_anchored_lock [of "2 # replicate 32 5" 4032] by simp

end
