(* ===== verification/Tapscript.thy ===== *)
theory Tapscript
  imports Script "HOL-Library.List_Lexorder"
begin

unbundle bit_operations_syntax

text \<open>
  Taproot outputs with a tree of two or three leaves: \<^verbatim>\<open>bitcoin/tapscript.c\<close>. SHA-256 and the tweak of
  a key come from \<open>crypto\<close>. Signature hashes and signatures are libwally's and libsecp256k1's and are
  not modelled.

  The theorem is what a spender relies on: the control block of each leaf carries the path from the
  leaf to the root that the output key commits to, with the parity of that key.
\<close>

section \<open>The operations\<close>

abbreviation (input) TAPSCRIPT_LEAF_VERSION_ELEMENTS :: u8 where "TAPSCRIPT_LEAF_VERSION_ELEMENTS \<equiv> 0xc4"
abbreviation (input) TAP_ANNEX_TAG :: u8 where "TAP_ANNEX_TAG \<equiv> 0x50"
abbreviation (input) SECP256K1_TAG_PUBKEY_ODD :: u8 where "SECP256K1_TAG_PUBKEY_ODD \<equiv> 0x03"
abbreviation (input) TAP_SIGHASH_DEFAULT :: u8 where "TAP_SIGHASH_DEFAULT \<equiv> 0x00"

definition str_bytes :: "string \<Rightarrow> bytes" where
  "str_bytes s = map of_char s"

definition tap_witness_items :: "bytes list option \<Rightarrow> nat" where
  "tap_witness_items wit =
     (case wit of None \<Rightarrow> 0
      | Some items \<Rightarrow>
          if length items \<ge> 2 \<and> length (items ! (length items - 1)) > 0
             \<and> items ! (length items - 1) ! 0 = TAP_ANNEX_TAG
          then length items - 1 else length items)"

definition pubkey_to_xonly :: "bytes \<Rightarrow> bytes" where
  "pubkey_to_xonly key = take 32 (drop 1 key)"

text \<open>What has gone into the hash so far.\<close>

definition tagged_init :: "crypto \<Rightarrow> string \<Rightarrow> bytes" where
  "tagged_init cr tag = (let taghash = sha256 cr (str_bytes tag) in taghash @ taghash)"

definition tap_leaf_hash_version :: "crypto \<Rightarrow> u8 \<Rightarrow> bytes \<Rightarrow> bytes" where
  "tap_leaf_hash_version cr version script =
     sha256 cr (tagged_init cr ''TapLeaf/elements'' @ [version] @ varint_put (of_nat (length script)) @ script)"

definition tap_leaf_hash :: "crypto \<Rightarrow> bytes \<Rightarrow> bytes" where
  "tap_leaf_hash cr script = tap_leaf_hash_version cr TAPSCRIPT_LEAF_VERSION_ELEMENTS script"

definition tap_branch_hash :: "crypto \<Rightarrow> bytes \<Rightarrow> bytes \<Rightarrow> bytes" where
  "tap_branch_hash cr a b =
     (let (a', b') = (if memcmp_less b a then (b, a) else (a, b))
      in sha256 cr (tagged_init cr ''TapBranch/elements'' @ a' @ b'))"

text \<open>\<^verbatim>\<open>nleaves\<close> is the length of the list of leaves.\<close>

record tap_tree2 =
  tt_leaf :: "bytes list"
  tt_leaf_hash :: "bytes list"
  tt_branch01 :: bytes
  tt_merkle_root :: bytes
  tt_internal_key :: bytes
  tt_output_der :: bytes

definition tap_tree2_finish :: "crypto \<Rightarrow> tap_tree2 \<Rightarrow> tap_tree2 run" where
  "tap_tree2_finish cr tree =
     (let leaves = tt_leaf tree in
      if length leaves \<noteq> 2 \<and> length leaves \<noteq> 3 then None
      else
        let h0 = tap_leaf_hash cr (leaves ! 0); h1 = tap_leaf_hash cr (leaves ! 1);
            b01 = tap_branch_hash cr h0 h1;
            (hs, root) = (if length leaves = 3
                          then let h2 = tap_leaf_hash cr (leaves ! 2) in ([h0, h1, h2], tap_branch_hash cr h2 b01)
                          else ([h0, h1], b01))
        in Some (tree\<lparr>tt_leaf_hash := hs, tt_branch01 := b01, tt_merkle_root := root,
                      tt_output_der := bip341_tweak cr (tt_internal_key tree) root\<rparr>))"

definition tap_tree2_program :: "tap_tree2 \<Rightarrow> bytes" where
  "tap_tree2_program tree = take 32 (drop 1 (tt_output_der tree))"

definition tap_tree2_scriptpubkey :: "tap_tree2 \<Rightarrow> bytes" where
  "tap_tree2_scriptpubkey tree = [0x51, 32] @ tap_tree2_program tree"

definition tap_tree2_control_block :: "tap_tree2 \<Rightarrow> nat \<Rightarrow> bytes run" where
  "tap_tree2_control_block tree leaf =
     (let nleaves = length (tt_leaf tree);
          depth = (if nleaves = 3 \<and> leaf \<noteq> 2 then 2 else 1 :: nat)
      in if \<not> leaf < nleaves then None
         else Some ([TAPSCRIPT_LEAF_VERSION_ELEMENTS
                       OR (if tt_output_der tree ! 0 = SECP256K1_TAG_PUBKEY_ODD then 1 else 0)]
                    @ pubkey_to_xonly (tt_internal_key tree)
                    @ (if leaf = 2 then tt_branch01 tree
                       else tt_leaf_hash tree ! (if leaf = 0 then 1 else 0)
                            @ (if depth = 2 then tt_leaf_hash tree ! 2 else []))))"

definition tap_tree2_witness :: "tap_tree2 \<Rightarrow> nat \<Rightarrow> bytes list \<Rightarrow> bytes list run" where
  "tap_tree2_witness tree leaf stack =
     (if leaf < length (tt_leaf tree)
      then do { cb \<leftarrow> tap_tree2_control_block tree leaf;
                Some (stack @ [tt_leaf tree ! leaf] @ [cb]) }
      else None)"

definition tap_sig_to_witness :: "bytes \<Rightarrow> u8 \<Rightarrow> bytes" where
  "tap_sig_to_witness sig sighash_type =
     (if sighash_type = TAP_SIGHASH_DEFAULT then sig else sig @ [sighash_type])"

section \<open>The path of a control block\<close>

lemma memcmp_less_asym: "memcmp_less a b \<Longrightarrow> \<not> memcmp_less b a"
  by (induction a b rule: memcmp_less.induct) (auto split: if_splits)

lemma memcmp_less_total: "length a = length b \<Longrightarrow> a = b \<or> memcmp_less a b \<or> memcmp_less b a"
  by (induction a b rule: list_induct2) auto

text \<open>With the lengths of two arrays, \<^verbatim>\<open>memcmp\<close> over the shorter one is the lexicographic order of lists.\<close>

lemma Nil_less_iff: "[] < (xs :: bytes) \<longleftrightarrow> xs \<noteq> []"
  by (cases xs) simp_all

lemma memcmp_lexicographic:
  "a < b \<longleftrightarrow> memcmp_less a b \<or> (\<not> memcmp_less b a \<and> length a < length b)"
  by (induction a b rule: memcmp_less.induct) (auto simp: Nil_less_iff)

lemma memcmp_equal: "\<not> memcmp_less a b \<Longrightarrow> \<not> memcmp_less b a \<Longrightarrow> length a = length b \<Longrightarrow> a = b"
  using memcmp_less_total by blast

lemma memcmp_less_prefix: "memcmp_less (take (min (length a) (length b)) a) (take (min (length a) (length b)) b) = memcmp_less a b"
  by (induction a b rule: memcmp_less.induct) simp_all

lemma tap_branch_hash_commute:
  assumes "length a = length b"
  shows "tap_branch_hash cr a b = tap_branch_hash cr b a"
  using memcmp_less_asym [of a b] memcmp_less_total [OF assms] by (auto simp: tap_branch_hash_def)

text \<open>The 32-byte pieces of a path, and the root that a leaf and a path lead to (BIP 341).\<close>

fun pieces :: "nat \<Rightarrow> bytes \<Rightarrow> bytes list" where
  "pieces 0 bs = []"
| "pieces (Suc n) bs = take 32 bs # pieces n (drop 32 bs)"

definition path_root :: "crypto \<Rightarrow> bytes \<Rightarrow> bytes \<Rightarrow> bytes" where
  "path_root cr script cb =
     foldl (tap_branch_hash cr) (tap_leaf_hash cr script) (pieces ((length cb - 33) div 32) (drop 33 cb))"

lemma length_leaf_hash: "crypto_ok cr \<Longrightarrow> length (tap_leaf_hash cr s) = 32"
  by (simp add: crypto_ok_def tap_leaf_hash_def tap_leaf_hash_version_def)

lemma length_branch_hash: "crypto_ok cr \<Longrightarrow> length (tap_branch_hash cr a b) = 32"
  by (simp add: crypto_ok_def tap_branch_hash_def split_beta)

lemma path_open:
  assumes "length k = 32" and "length p = 32" and "length q = 32"
  shows "path_root cr s (v # k @ p) = tap_branch_hash cr (tap_leaf_hash cr s) p"
    and "path_root cr s (v # k @ p @ q) = tap_branch_hash cr (tap_branch_hash cr (tap_leaf_hash cr s) p) q"
  using assms by (simp_all add: path_root_def numeral_2_eq_2)

text \<open>
  Every leaf of a finished tree can be spent: its control block is 33 bytes and a whole number
  of 32-byte hashes, starts with the leaf version and the parity of the output key, and the path in
  it leads from the leaf's hash to the root that the output key was tweaked with. The output script
  is recognised as a taproot output of that key.
\<close>

theorem tap_tree2_leaves_open:
  assumes "crypto_ok cr" and "length (tt_internal_key tree) = 33"
    and "tap_tree2_finish cr tree = Some t" and "i < length (tt_leaf t)"
  shows "\<exists>cb. tap_tree2_control_block t i = Some cb \<and> length cb \<ge> 65 \<and> (length cb - 33) mod 32 = 0
     \<and> cb ! 0 = 0xc4 OR (if tt_output_der t ! 0 = 0x03 then 1 else 0)
     \<and> take 32 (drop 1 cb) = drop 1 (tt_internal_key t)
     \<and> path_root cr (tt_leaf t ! i) cb = tt_merkle_root t
     \<and> tt_output_der t = bip341_tweak cr (tt_internal_key t) (tt_merkle_root t)
     \<and> is_p2tr (tap_tree2_scriptpubkey t) = Some (drop 1 (tt_output_der t))"
proof -
  obtain a b cs where l: "tt_leaf tree = a # b # cs" and cs: "cs = [] \<or> (\<exists>c. cs = [c])"
    using assms(3) by (cases "tt_leaf tree" rule: remdups_adj.cases)
      (auto simp: tap_tree2_finish_def Let_def length_Suc_conv split: if_splits)
  define h where "h s = tap_leaf_hash cr s" for s
  define b01 where "b01 = tap_branch_hash cr (h a) (h b)"
  have len: "length (h s) = 32" "length b01 = 32" for s
    using assms(1) by (simp_all add: h_def b01_def length_leaf_hash length_branch_hash)
  have swap: "tap_branch_hash cr (h b) (h a) = b01" "tap_branch_hash cr b01 (h s) = tap_branch_hash cr (h s) b01" for s
    using tap_branch_hash_commute len by (auto simp: b01_def)
  have k: "length (pubkey_to_xonly (tt_internal_key tree)) = 32"
    "pubkey_to_xonly (tt_internal_key tree) = drop 1 (tt_internal_key tree)"
    using assms(2) by (simp_all add: pubkey_to_xonly_def)
  have d: "length (bip341_tweak cr x y) = 33" for x y using assms(1) by (simp add: crypto_ok_def)
  have spk: "is_p2tr (tap_tree2_scriptpubkey u) = Some (drop 1 (tt_output_der u))" if "length (tt_output_der u) = 33" for u
    using that by (simp add: is_p2tr_def tap_tree2_scriptpubkey_def tap_tree2_program_def)
  from cs show ?thesis
  proof
    assume "cs = []"
    with assms(3) l have t: "t = tree\<lparr>tt_leaf_hash := [h a, h b], tt_branch01 := b01, tt_merkle_root := b01,
        tt_output_der := bip341_tweak cr (tt_internal_key tree) b01\<rparr>"
      by (simp add: tap_tree2_finish_def Let_def h_def b01_def)
    then have "i = 0 \<or> i = 1" using assms(4) l \<open>cs = []\<close> by (auto simp: less_Suc_eq)
    then show ?thesis
      using l \<open>cs = []\<close> len swap k d spk [of t]
      by (auto simp: t tap_tree2_control_block_def path_open simp flip: h_def b01_def)
  next
    assume "\<exists>c. cs = [c]"
    then obtain c where c: "cs = [c]" by blast
    define root where "root = tap_branch_hash cr (h c) b01"
    with assms(3) l c have t: "t = tree\<lparr>tt_leaf_hash := [h a, h b, h c], tt_branch01 := b01, tt_merkle_root := root,
        tt_output_der := bip341_tweak cr (tt_internal_key tree) root\<rparr>"
      by (simp add: tap_tree2_finish_def Let_def h_def b01_def)
    then have "i = 0 \<or> i = 1 \<or> i = 2" using assms(4) l c by (auto simp: less_Suc_eq)
    then show ?thesis
      using l c len swap k d spk [of t]
      by (auto simp: t tap_tree2_control_block_def path_open simp flip: h_def b01_def root_def)
  qed
qed


text \<open>Functions with the lengths of the real ones, for concrete inputs.\<close>

definition demo_crypto :: crypto where
  "demo_crypto = \<lparr>sha256 = \<lambda>x. take 32 (x @ replicate 32 0), ripemd160 = \<lambda>x. take 20 (x @ replicate 20 0),
     bip341_tweak = \<lambda>k r. take 33 (k @ replicate 33 0), bip341_tweak_no_root = \<lambda>k. take 33 (k @ replicate 33 0)\<rparr>"

lemma demo_crypto_ok: "crypto_ok demo_crypto"
  by (auto simp: crypto_ok_def demo_crypto_def min_def)

theorem tap_tree2_leaves_open_witness:
  "\<exists>t cb. tap_tree2_finish demo_crypto \<lparr>tt_leaf = [[0x51], [0x52]], tt_leaf_hash = [], tt_branch01 = [],
       tt_merkle_root = [], tt_internal_key = 2 # replicate 32 7, tt_output_der = []\<rparr> = Some t
     \<and> tap_tree2_control_block t 1 = Some cb \<and> path_root demo_crypto (tt_leaf t ! 1) cb = tt_merkle_root t"
proof -
  let ?tree = "\<lparr>tt_leaf = [[0x51], [0x52]], tt_leaf_hash = [], tt_branch01 = [], tt_merkle_root = [],
      tt_internal_key = 2 # replicate 32 7, tt_output_der = []\<rparr> :: tap_tree2"
  obtain t where t: "tap_tree2_finish demo_crypto ?tree = Some t" "length (tt_leaf t) = 2"
    by (simp add: tap_tree2_finish_def Let_def)
  with tap_tree2_leaves_open [OF demo_crypto_ok _ t(1), of 1] show ?thesis by auto
qed

end
