(* ===== verification/Chainparams.thy ===== *)
theory Chainparams
  imports Amounts
begin

text \<open>
  The networks a node can run on: \<^verbatim>\<open>struct chainparams\<close> and the table \<^verbatim>\<open>networks\<close> of
  \<^verbatim>\<open>bitcoin/chainparams.c\<close>, one definition per entry, with the lookups by network name, genesis
  block hash and Lightning prefix. A field an entry leaves out is zero, as in C. Strings are
  character lists; a \<^verbatim>\<open>NULL\<close> string or tag is \<open>None\<close>.
\<close>

section \<open>The table and its lookups\<close>

record chainparams =
  network_name :: string
  onchain_hrp :: string
  lightning_hrp :: string
  bip70_name :: string
  genesis_blockhash :: bytes
  rpc_port :: int
  ln_port :: int
  cli :: string
  cli_args :: "string option"
  cli_min_supported_version :: u64
  cp_dust_limit :: amount_sat
  max_funding :: amount_sat
  max_payment :: amount_msat
  max_supply :: amount_sat
  when_lightning_became_cool :: u32
  p2pkh_version :: u8
  p2sh_version :: u8
  testnet :: bool
  bip32_pubkey_version :: u32
  bip32_privkey_version :: u32
  is_elements :: bool
  fee_asset_tag :: "bytes option"
  has_anchor_header :: bool
  has_tapscript_introspection :: bool

definition liquid_fee_asset :: bytes where
  "liquid_fee_asset =
     [0x01, 0x6d, 0x52, 0x1c, 0x38, 0xec, 0x1e, 0xa1, 0x57, 0x34, 0xae,
      0x22, 0xb7, 0xc4, 0x60, 0x64, 0x41, 0x28, 0x29, 0xc0, 0xd0, 0x57,
      0x9f, 0x0a, 0x71, 0x3d, 0x1c, 0x04, 0xed, 0xe9, 0x79, 0x02, 0x6f]"

definition liquid_regtest_fee_asset :: bytes where
  "liquid_regtest_fee_asset =
     [0x01, 0x5c, 0xe7, 0xb9, 0x63, 0xd3, 0x7f, 0x8f, 0x2d, 0x51, 0xca,
      0xfb, 0xba, 0x92, 0x8a, 0xaa, 0x9e, 0x22, 0x0b, 0x8b, 0xbc, 0x66,
      0x05, 0x71, 0x49, 0x9c, 0x03, 0x62, 0x8a, 0x38, 0x51, 0xb8, 0xce]"

definition sequentia_testnet_fee_asset :: bytes where
  "sequentia_testnet_fee_asset =
     [0x01, 0x40, 0x3e, 0xae, 0x2f, 0x55, 0x87, 0x86, 0x4d, 0x10, 0xe2,
      0xb0, 0x38, 0x6c, 0x6e, 0xc3, 0x1c, 0x10, 0x19, 0x83, 0x4d, 0x43,
      0x1e, 0xd3, 0x1c, 0x93, 0xe1, 0x53, 0x09, 0xcf, 0xca, 0xec, 0xc8]"

definition sequentia_regtest_fee_asset :: bytes where
  "sequentia_regtest_fee_asset =
     [0x01, 0x7f, 0xe5, 0xe5, 0xff, 0xd3, 0xd3, 0xd2, 0xc1, 0x33, 0xe3,
      0x25, 0xd2, 0x5d, 0xfa, 0x16, 0xec, 0x25, 0x35, 0x4e, 0x6b, 0x75,
      0x8f, 0x8a, 0x3c, 0x26, 0x24, 0x7c, 0xe6, 0x7c, 0x17, 0x1b, 0x4d]"

definition net_bitcoin :: chainparams where
  "net_bitcoin =
     \<lparr>network_name = ''bitcoin'', onchain_hrp = ''bc'',
      lightning_hrp = ''bc'', bip70_name = ''main'',
      genesis_blockhash = [0x6f, 0xe2, 0x8c, 0x0a, 0xb6, 0xf1, 0xb3, 0x72, 0xc1, 0xa6, 0xa2,
        0x46, 0xae, 0x63, 0xf7, 0x4f, 0x93, 0x1e, 0x83, 0x65, 0xe1, 0x5a,
        0x08, 0x9c, 0x68, 0xd6, 0x19, 0x00, 0x00, 0x00, 0x00, 0x00],
      rpc_port = 8332, ln_port = 9735, cli = ''bitcoin-cli'', cli_args = None,
      cli_min_supported_version = 150000, cp_dust_limit = AMOUNT_SAT 546,
      max_funding = AMOUNT_SAT (push_bit 24 1 - 1), max_payment = AMOUNT_MSAT 0xFFFFFFFF,
      max_supply = AMOUNT_SAT 2100000000000000,
      when_lightning_became_cool = 504500, p2pkh_version = 0, p2sh_version = 5,
      testnet = False, bip32_pubkey_version = 0x0488B21E, bip32_privkey_version = 0x0488ADE4,
      is_elements = False, fee_asset_tag = None,
      has_anchor_header = False, has_tapscript_introspection = False\<rparr>"

definition net_regtest :: chainparams where
  "net_regtest =
     \<lparr>network_name = ''regtest'', onchain_hrp = ''bcrt'',
      lightning_hrp = ''bcrt'', bip70_name = ''regtest'',
      genesis_blockhash = [0x06, 0x22, 0x6e, 0x46, 0x11, 0x1a, 0x0b, 0x59, 0xca, 0xaf, 0x12,
        0x60, 0x43, 0xeb, 0x5b, 0xbf, 0x28, 0xc3, 0x4f, 0x3a, 0x5e, 0x33,
        0x2a, 0x1f, 0xc7, 0xb2, 0xb7, 0x3c, 0xf1, 0x88, 0x91, 0x0f],
      rpc_port = 18443, ln_port = 19846, cli = ''bitcoin-cli'', cli_args = Some ''-regtest'',
      cli_min_supported_version = 150000, cp_dust_limit = AMOUNT_SAT 546,
      max_funding = AMOUNT_SAT (push_bit 24 1 - 1), max_payment = AMOUNT_MSAT 0xFFFFFFFF,
      max_supply = AMOUNT_SAT 2100000000000000,
      when_lightning_became_cool = 1, p2pkh_version = 111, p2sh_version = 196,
      testnet = True, bip32_pubkey_version = 0x043587CF, bip32_privkey_version = 0x04358394,
      is_elements = False, fee_asset_tag = None,
      has_anchor_header = False, has_tapscript_introspection = False\<rparr>"

definition net_signet :: chainparams where
  "net_signet =
     \<lparr>network_name = ''signet'', onchain_hrp = ''tb'',
      lightning_hrp = ''tbs'', bip70_name = ''signet'',
      genesis_blockhash = [0xf6, 0x1e, 0xee, 0x3b, 0x63, 0xa3, 0x80, 0xa4, 0x77, 0xa0, 0x63,
        0xaf, 0x32, 0xb2, 0xbb, 0xc9, 0x7c, 0x9f, 0xf9, 0xf0, 0x1f, 0x2c,
        0x42, 0x25, 0xe9, 0x73, 0x98, 0x81, 0x08, 0x00, 0x00, 0x00],
      rpc_port = 38332, ln_port = 39735, cli = ''bitcoin-cli'', cli_args = Some ''-signet'',
      cli_min_supported_version = 150000, cp_dust_limit = AMOUNT_SAT 546,
      max_funding = AMOUNT_SAT (push_bit 24 1 - 1), max_payment = AMOUNT_MSAT 0xFFFFFFFF,
      max_supply = AMOUNT_SAT 2100000000000000,
      when_lightning_became_cool = 1, p2pkh_version = 111, p2sh_version = 196,
      testnet = True, bip32_pubkey_version = 0x043587CF, bip32_privkey_version = 0x04358394,
      is_elements = False, fee_asset_tag = None,
      has_anchor_header = False, has_tapscript_introspection = False\<rparr>"

definition net_testnet :: chainparams where
  "net_testnet =
     \<lparr>network_name = ''testnet'', onchain_hrp = ''tb'',
      lightning_hrp = ''tb'', bip70_name = ''test'',
      genesis_blockhash = [0x43, 0x49, 0x7f, 0xd7, 0xf8, 0x26, 0x95, 0x71, 0x08, 0xf4, 0xa3,
        0x0f, 0xd9, 0xce, 0xc3, 0xae, 0xba, 0x79, 0x97, 0x20, 0x84, 0xe9,
        0x0e, 0xad, 0x01, 0xea, 0x33, 0x09, 0x00, 0x00, 0x00, 0x00],
      rpc_port = 18332, ln_port = 19735, cli = ''bitcoin-cli'', cli_args = Some ''-testnet'',
      cli_min_supported_version = 150000, cp_dust_limit = AMOUNT_SAT 546,
      max_funding = AMOUNT_SAT (push_bit 24 1 - 1), max_payment = AMOUNT_MSAT 0xFFFFFFFF,
      max_supply = AMOUNT_SAT 2100000000000000,
      when_lightning_became_cool = 0, p2pkh_version = 111, p2sh_version = 196,
      testnet = True, bip32_pubkey_version = 0x043587CF, bip32_privkey_version = 0x04358394,
      is_elements = False, fee_asset_tag = None,
      has_anchor_header = False, has_tapscript_introspection = False\<rparr>"

definition net_testnet4 :: chainparams where
  "net_testnet4 =
     \<lparr>network_name = ''testnet4'', onchain_hrp = ''tb'',
      lightning_hrp = ''tb'', bip70_name = ''testnet4'',
      genesis_blockhash = [0x43, 0xf0, 0x8b, 0xda, 0xb0, 0x50, 0xe3, 0x5b, 0x56, 0x7c, 0x86,
        0x4b, 0x91, 0xf4, 0x7f, 0x50, 0xae, 0x72, 0x5a, 0xe2, 0xde, 0x53,
        0xbc, 0xfb, 0xba, 0xf2, 0x84, 0xda, 0x00, 0x00, 0x00, 0x00],
      rpc_port = 48332, ln_port = 49735, cli = ''bitcoin-cli'', cli_args = Some ''-testnet4'',
      cli_min_supported_version = 150000, cp_dust_limit = AMOUNT_SAT 546,
      max_funding = AMOUNT_SAT (push_bit 24 1 - 1), max_payment = AMOUNT_MSAT 0xFFFFFFFF,
      max_supply = AMOUNT_SAT 2100000000000000,
      when_lightning_became_cool = 0, p2pkh_version = 111, p2sh_version = 196,
      testnet = True, bip32_pubkey_version = 0x043587CF, bip32_privkey_version = 0x04358394,
      is_elements = False, fee_asset_tag = None,
      has_anchor_header = False, has_tapscript_introspection = False\<rparr>"

definition net_liquid_regtest :: chainparams where
  "net_liquid_regtest =
     \<lparr>network_name = ''liquid-regtest'', onchain_hrp = ''ert'',
      lightning_hrp = ''ert'', bip70_name = ''liquid-regtest'',
      genesis_blockhash = [0x9f, 0x87, 0xeb, 0x58, 0x0b, 0x9e, 0x5f, 0x11, 0xdc, 0x21, 0x1e,
        0x9f, 0xb6, 0x6a, 0xbb, 0x36, 0x99, 0x99, 0x90, 0x44, 0xf8, 0xfe,
        0x14, 0x68, 0x01, 0x16, 0x23, 0x93, 0x36, 0x42, 0x86, 0xc6],
      rpc_port = 19332, ln_port = 20735, cli = ''elements-cli'', cli_args = Some ''-chain=liquid-regtest'',
      cli_min_supported_version = 0, cp_dust_limit = AMOUNT_SAT 546,
      max_funding = AMOUNT_SAT (push_bit 24 1 - 1), max_payment = AMOUNT_MSAT 0xFFFFFFFF,
      max_supply = AMOUNT_SAT 2100000000000000,
      when_lightning_became_cool = 1, p2pkh_version = 91, p2sh_version = 75,
      testnet = True, bip32_pubkey_version = 0x043587CF, bip32_privkey_version = 0x04358394,
      is_elements = True, fee_asset_tag = Some liquid_regtest_fee_asset,
      has_anchor_header = False, has_tapscript_introspection = False\<rparr>"

definition net_liquid :: chainparams where
  "net_liquid =
     \<lparr>network_name = ''liquid'', onchain_hrp = ''ex'',
      lightning_hrp = ''ex'', bip70_name = ''liquidv1'',
      genesis_blockhash = [0x14, 0x66, 0x27, 0x58, 0x36, 0x22, 0x0d, 0xb2, 0x94, 0x4c, 0xa0,
        0x59, 0xa3, 0xa1, 0x0e, 0xf6, 0xfd, 0x2e, 0xa6, 0x84, 0xb0, 0x68,
        0x8d, 0x2c, 0x37, 0x92, 0x96, 0x88, 0x8a, 0x20, 0x60, 0x03],
      rpc_port = 7041, ln_port = 9735, cli = ''elements-cli'', cli_args = Some ''-chain=liquidv1'',
      cli_min_supported_version = 0, cp_dust_limit = AMOUNT_SAT 546,
      max_funding = AMOUNT_SAT (push_bit 24 1 - 1), max_payment = AMOUNT_MSAT 0xFFFFFFFF,
      max_supply = AMOUNT_SAT 2100000000000000,
      when_lightning_became_cool = 1, p2pkh_version = 57, p2sh_version = 39,
      testnet = False, bip32_pubkey_version = 0x0488B21E, bip32_privkey_version = 0x0488ADE4,
      is_elements = True, fee_asset_tag = Some liquid_fee_asset,
      has_anchor_header = False, has_tapscript_introspection = False\<rparr>"

definition net_sequentia_testnet :: chainparams where
  "net_sequentia_testnet =
     \<lparr>network_name = ''sequentia-testnet'', onchain_hrp = ''tb'',
      lightning_hrp = ''tsqt'', bip70_name = ''test'',
      genesis_blockhash = [0x2e, 0xa9, 0x4e, 0xfc, 0x86, 0x20, 0x34, 0x38, 0xf7, 0x03, 0x71,
        0x8e, 0xb7, 0xb4, 0x0b, 0x11, 0xe1, 0xd8, 0x05, 0xce, 0x31, 0xfd,
        0x00, 0x44, 0xd9, 0x2b, 0x7a, 0xc8, 0x54, 0x1d, 0xd1, 0xdd],
      rpc_port = 18776, ln_port = 19836, cli = ''sequentia-cli'', cli_args = Some ''-chain=test'',
      cli_min_supported_version = 0, cp_dust_limit = AMOUNT_SAT 546,
      max_funding = AMOUNT_SAT (push_bit 24 1 - 1), max_payment = AMOUNT_MSAT 0xFFFFFFFF,
      max_supply = AMOUNT_SAT 2100000000000000,
      when_lightning_became_cool = 1, p2pkh_version = 111, p2sh_version = 196,
      testnet = True, bip32_pubkey_version = 0x043587CF, bip32_privkey_version = 0x04358394,
      is_elements = True, fee_asset_tag = Some sequentia_testnet_fee_asset,
      has_anchor_header = True, has_tapscript_introspection = True\<rparr>"

definition net_sequentia_regtest :: chainparams where
  "net_sequentia_regtest =
     \<lparr>network_name = ''sequentia-regtest'', onchain_hrp = ''bcrt'',
      lightning_hrp = ''sqrt'', bip70_name = ''sequentia-regtest'',
      genesis_blockhash = [0x05, 0x25, 0x97, 0x79, 0xe4, 0xf2, 0x87, 0x66, 0x32, 0xee, 0xd2,
        0xa2, 0x4f, 0xae, 0xb1, 0xd8, 0x1c, 0x0a, 0xe9, 0xe6, 0x3a, 0x0e,
        0x53, 0x1a, 0x1e, 0x7e, 0x07, 0x14, 0xda, 0x1c, 0x47, 0x48],
      rpc_port = 18884, ln_port = 19946, cli = ''sequentia-cli'', cli_args = Some ''-chain=sequentia-regtest'',
      cli_min_supported_version = 0, cp_dust_limit = AMOUNT_SAT 546,
      max_funding = AMOUNT_SAT (push_bit 24 1 - 1), max_payment = AMOUNT_MSAT 0xFFFFFFFF,
      max_supply = AMOUNT_SAT 2100000000000000,
      when_lightning_became_cool = 1, p2pkh_version = 111, p2sh_version = 196,
      testnet = True, bip32_pubkey_version = 0x043587CF, bip32_privkey_version = 0x04358394,
      is_elements = True, fee_asset_tag = Some sequentia_regtest_fee_asset,
      has_anchor_header = True, has_tapscript_introspection = True\<rparr>"

definition net_sequentia :: chainparams where
  "net_sequentia =
     \<lparr>network_name = ''sequentia'', onchain_hrp = ''bc'',
      lightning_hrp = ''sqt'', bip70_name = ''sequentia'',
      genesis_blockhash = replicate 32 0,
      rpc_port = 7332, ln_port = 9836, cli = ''sequentia-cli'', cli_args = Some ''-chain=sequentia'',
      cli_min_supported_version = 0, cp_dust_limit = AMOUNT_SAT 546,
      max_funding = AMOUNT_SAT (push_bit 24 1 - 1), max_payment = AMOUNT_MSAT 0xFFFFFFFF,
      max_supply = AMOUNT_SAT 2100000000000000,
      when_lightning_became_cool = 1, p2pkh_version = 0, p2sh_version = 5,
      testnet = False, bip32_pubkey_version = 0x0488B21E, bip32_privkey_version = 0x0488ADE4,
      is_elements = True, fee_asset_tag = None,
      has_anchor_header = True, has_tapscript_introspection = True\<rparr>"

definition networks :: "chainparams list" where
  "networks =
     [net_bitcoin, net_regtest, net_signet, net_testnet, net_testnet4, net_liquid_regtest, net_liquid, net_sequentia_testnet, net_sequentia_regtest, net_sequentia]"

definition chainparams_for_network :: "string \<Rightarrow> chainparams option" where
  "chainparams_for_network name = find (\<lambda>n. name = network_name n) networks"

definition chainparams_by_chainhash :: "bytes \<Rightarrow> chainparams option" where
  "chainparams_by_chainhash chain_hash = find (\<lambda>n. chain_hash = genesis_blockhash n) networks"

definition chainparams_by_lightning_hrp :: "string \<Rightarrow> chainparams option" where
  "chainparams_by_lightning_hrp hrp = find (\<lambda>n. hrp = lightning_hrp n) networks"

definition chainparams_max_htlc_cltv :: "chainparams option \<Rightarrow> u32" where
  "chainparams_max_htlc_cltv params =
     (case params of None \<Rightarrow> 2016
      | Some p \<Rightarrow> if has_anchor_header p then 20160 else 2016)"

definition chainparams_get_network_names :: string where
  "chainparams_get_network_names =
     foldl (\<lambda>s n. s @ '', '' @ network_name n) (network_name (hd networks)) (tl networks)"

definition chainparams_get_ln_port :: "chainparams option \<Rightarrow> int run" where
  "chainparams_get_ln_port params = map_option ln_port params"

section \<open>The lookups find every network\<close>

lemmas net_defs =
  net_bitcoin_def net_regtest_def net_signet_def net_testnet_def net_testnet4_def
  net_liquid_regtest_def net_liquid_def net_sequentia_testnet_def net_sequentia_regtest_def
  net_sequentia_def

lemma find_distinct_key:
  assumes "distinct (map f xs)" and "x \<in> set xs"
  shows "find (\<lambda>y. f x = f y) xs = Some x"
  using assms
proof (induction xs)
  case (Cons y ys)
  show ?case
  proof (cases "x = y")
    case False
    with Cons.prems have "f x \<noteq> f y" by (auto simp: image_iff)
    with False Cons show ?thesis by auto
  qed simp
qed simp

lemma distinct_network_names: "distinct (map network_name networks)"
  by (simp add: networks_def net_defs)

lemma distinct_genesis_blockhashes: "distinct (map genesis_blockhash networks)"
proof -
  have "xs \<noteq> replicate 32 0" if "hd xs \<noteq> 0" for xs :: bytes
    using that by (metis hd_replicate zero_neq_numeral)
  then show ?thesis
    by (simp add: networks_def net_defs)
qed

text \<open>
  Every network of the table is found by its own name and by its own genesis block hash, so a
  peer's \<^verbatim>\<open>chain_hash\<close> selects the network whatever their Bitcoin names are.
\<close>

theorem network_lookups_find:
  assumes "n \<in> set networks"
  shows "chainparams_for_network (network_name n) = Some n
       \<and> chainparams_by_chainhash (genesis_blockhash n) = Some n"
  using find_distinct_key [OF distinct_network_names assms]
    find_distinct_key [OF distinct_genesis_blockhashes assms]
  by (simp add: chainparams_for_network_def chainparams_by_chainhash_def)

theorem network_lookups_find_witness:
  "chainparams_for_network (network_name net_sequentia_testnet) = Some net_sequentia_testnet
   \<and> chainparams_by_chainhash (genesis_blockhash net_sequentia_testnet)
       = Some net_sequentia_testnet"
  by (rule network_lookups_find) (simp add: networks_def)

end
