(* ===== verification/Fees.thy ===== *)
theory Fees
  imports Chainparams
begin

unbundle bit_operations_syntax

text \<open>
  Fees and feerates: the transaction fee of a weight, the conversions of a reference amount into
  an asset at an exchange rate, and the weights and HTLC fees that size a commitment transaction
  (\<^verbatim>\<open>common/amount.c\<close>, \<^verbatim>\<open>bitcoin/feerate.c\<close>, \<^verbatim>\<open>bitcoin/tx.h\<close>, \<^verbatim>\<open>common/htlc_tx.h\<close>,
  \<^verbatim>\<open>common/htlc_trim.c\<close>, \<^verbatim>\<open>common/initial_commit_tx.h\<close>). The global \<^verbatim>\<open>chainparams\<close> is an argument.
\<close>

section \<open>The operations\<close>

datatype side = LOCAL | REMOTE

text \<open>The C expression \<^verbatim>\<open>!side\<close>.\<close>

fun other :: "side \<Rightarrow> side" where
  "other LOCAL = REMOTE"
| "other REMOTE = LOCAL"

subsection \<open>Fees of a weight\<close>

definition amount_tx_fee_rounded_down :: "u32 \<Rightarrow> u64 \<Rightarrow> amount_sat run" where
  "amount_tx_fee_rounded_down fee_per_kw weight =
     (if mul_overflows_u64 (ucast fee_per_kw) weight then None
      else Some (AMOUNT_SAT ((ucast fee_per_kw * weight) div 1000)))"

definition amount_tx_fee :: "chainparams option \<Rightarrow> u32 \<Rightarrow> u64 \<Rightarrow> amount_sat run" where
  "amount_tx_fee cp fee_per_kw weight =
     (case cp of
        Some p \<Rightarrow>
          if has_anchor_header p then
            (if mul_overflows_u64 (ucast fee_per_kw) weight then None
             else let fee = (ucast fee_per_kw * weight + 999) div 1000
                  in if fee > 0 \<or> fee_per_kw = 0 \<or> weight = 0 then Some (AMOUNT_SAT fee) else None)
          else amount_tx_fee_rounded_down fee_per_kw weight
      | None \<Rightarrow> amount_tx_fee_rounded_down fee_per_kw weight)"

definition amount_feerate :: "amount_sat \<Rightarrow> u64 \<Rightarrow> u32 option run" where
  "amount_feerate fee weight =
     (if weight = 0 then None
      else Some (case amount_sat_mul fee 1000 of None \<Rightarrow> None
                 | Some f \<Rightarrow> assign_overflow_u32 (satoshis f div weight)))"

datatype feerate_style = FEERATE_PER_KSIPA | FEERATE_PER_KBYTE

fun feerate_from_style :: "u32 \<Rightarrow> feerate_style \<Rightarrow> u32" where
  "feerate_from_style feerate FEERATE_PER_KSIPA = feerate"
| "feerate_from_style feerate FEERATE_PER_KBYTE = (feerate + 3) div 4"

fun feerate_to_style :: "u32 \<Rightarrow> feerate_style \<Rightarrow> u32" where
  "feerate_to_style feerate_perkw FEERATE_PER_KSIPA = feerate_perkw"
| "feerate_to_style feerate_perkw FEERATE_PER_KBYTE =
     (if (ucast feerate_perkw :: u64) * 4 > 0xFFFFFFFF then 0xFFFFFFFF else feerate_perkw * 4)"

subsection \<open>Exchange rates\<close>

text \<open>
  The bit-at-a-time division of the portable version: \<open>n\<close> bits of \<open>lo\<close> are left to shift into the
  remainder \<open>r\<close>.
\<close>

fun u64_div_loop :: "nat \<Rightarrow> u64 \<Rightarrow> u64 \<Rightarrow> u64 \<Rightarrow> u64 \<Rightarrow> u64" where
  "u64_div_loop 0 lo d r q = q"
| "u64_div_loop (Suc i) lo d r q =
     (let carry = drop_bit 63 r \<noteq> 0;
          r' = push_bit 1 r OR (drop_bit i lo AND 1)
      in if carry \<or> r' \<ge> d then u64_div_loop i lo d (r' - d) (q OR push_bit i 1)
         else u64_div_loop i lo d r' q)"

definition u64_mul_add_div_portable :: "u64 \<Rightarrow> u64 \<Rightarrow> u64 \<Rightarrow> u64 \<Rightarrow> u64 run" where
  "u64_mul_add_div_portable a b add d =
     (let a_lo = a AND 0xFFFFFFFF; a_hi = drop_bit 32 a;
          b_lo = b AND 0xFFFFFFFF; b_hi = drop_bit 32 b;
          ll = a_lo * b_lo; lh = a_lo * b_hi; hl = a_hi * b_lo; hh = a_hi * b_hi;
          mid = drop_bit 32 ll + (lh AND 0xFFFFFFFF) + (hl AND 0xFFFFFFFF);
          lo = (ll AND 0xFFFFFFFF) OR push_bit 32 mid;
          hi = hh + drop_bit 32 lh + drop_bit 32 hl + drop_bit 32 mid
      in if d = 0 then None
         else let hi' = (if lo + add < lo then hi + 1 else hi);
                  lo' = lo + add
              in if hi' \<ge> d then Some 0xFFFFFFFFFFFFFFFF
                 else Some (u64_div_loop 64 lo' d hi' 0))"

text \<open>The version of a build with \<^verbatim>\<open>unsigned __int128\<close>.\<close>

definition u64_mul_add_div :: "u64 \<Rightarrow> u64 \<Rightarrow> u64 \<Rightarrow> u64 \<Rightarrow> u64 run" where
  "u64_mul_add_div a b add d =
     (if d = 0 then None
      else let v = (ucast a * ucast b + ucast add) div (ucast d :: 128 word)
           in if v > 0xFFFFFFFFFFFFFFFF then Some 0xFFFFFFFFFFFFFFFF else Some (ucast v))"

definition feerate_in_asset :: "u32 \<Rightarrow> u64 \<Rightarrow> u32 run" where
  "feerate_in_asset feerate_per_kw rate =
     (if rate = 0 \<or> rate = EXCHANGE_RATE_SCALE then Some feerate_per_kw
      else do { v \<leftarrow> u64_mul_add_div (ucast feerate_per_kw) EXCHANGE_RATE_SCALE (rate - 1) rate;
                Some (if v > 0xFFFFFFFF then 0xFFFFFFFF else ucast v) })"

definition u64_in_asset :: "u64 \<Rightarrow> u64 \<Rightarrow> u64 run" where
  "u64_in_asset ref rate =
     (if rate = 0 \<or> rate = EXCHANGE_RATE_SCALE then Some ref
      else u64_mul_add_div ref EXCHANGE_RATE_SCALE (rate - 1) rate)"

definition amount_sat_in_asset :: "amount_sat \<Rightarrow> u64 \<Rightarrow> amount_sat run" where
  "amount_sat_in_asset ref rate = map_option AMOUNT_SAT (u64_in_asset (satoshis ref) rate)"

definition amount_msat_in_asset :: "amount_msat \<Rightarrow> u64 \<Rightarrow> amount_msat run" where
  "amount_msat_in_asset ref rate = map_option AMOUNT_MSAT (u64_in_asset (millisatoshis ref) rate)"

subsection \<open>Asset amounts\<close>

definition amount_asset_is :: "chainparams \<Rightarrow> amount_asset \<Rightarrow> bytes \<Rightarrow> bool" where
  "amount_asset_is cp amount asset_id = (if \<not> is_elements cp then True else asset_tag amount = asset_id)"

text \<open>On an elements chain \<^verbatim>\<open>fee_asset_tag\<close> is dereferenced: a \<^verbatim>\<open>NULL\<close> tag stops the process.\<close>

definition amount_asset_is_main :: "chainparams \<Rightarrow> amount_asset \<Rightarrow> bool run" where
  "amount_asset_is_main cp amount =
     (if \<not> is_elements cp then Some True
      else map_option (amount_asset_is cp amount) (fee_asset_tag cp))"

definition amount_asset_to_sat :: "chainparams \<Rightarrow> amount_asset \<Rightarrow> amount_sat run" where
  "amount_asset_to_sat cp amount =
     do { main \<leftarrow> amount_asset_is_main cp amount;
          if main then Some (AMOUNT_SAT (asset_value amount)) else None }"

definition amount_sat_to_asset :: "amount_sat \<Rightarrow> bytes \<Rightarrow> amount_asset" where
  "amount_sat_to_asset amt asset = \<lparr>asset_value = satoshis amt, asset_tag = take 33 asset\<rparr>"

subsection \<open>Weights and HTLC fees\<close>

definition elements_tx_overhead :: "chainparams \<Rightarrow> u64 \<Rightarrow> u64 \<Rightarrow> u64" where
  "elements_tx_overhead cp incount outcount =
     (if \<not> is_elements cp then 0
      else 2 * 4 + (8 + 1) * 4 + (32 + 1 + 1 + 1) * 4 * (outcount + 1) + 6 * incount)"

definition commit_tx_base_weight :: "chainparams \<Rightarrow> u64 \<Rightarrow> bool \<Rightarrow> bool \<Rightarrow> u64" where
  "commit_tx_base_weight cp num_untrimmed_htlcs option_anchor_outputs option_anchors_zero_fee_htlc_tx =
     (let (weight, num_outputs) =
            (if option_anchor_outputs \<or> option_anchors_zero_fee_htlc_tx then (1124, 4) else (724, 2));
          weight = weight + 172 * num_untrimmed_htlcs;
          num_outputs = num_outputs + num_untrimmed_htlcs
      in weight + elements_tx_overhead cp 1 num_outputs)"

definition commit_tx_base_fee :: "chainparams \<Rightarrow> u32 \<Rightarrow> u64 \<Rightarrow> bool \<Rightarrow> bool \<Rightarrow> amount_sat run" where
  "commit_tx_base_fee cp feerate_per_kw num_untrimmed_htlcs
       option_anchor_outputs option_anchors_zero_fee_htlc_tx =
     amount_tx_fee (Some cp) feerate_per_kw
       (commit_tx_base_weight cp num_untrimmed_htlcs option_anchor_outputs
          option_anchors_zero_fee_htlc_tx)"

text \<open>
  The two arguments of \<^verbatim>\<open>amount_tx_fee\<close> are swapped in these calls: the weight is narrowed to the
  \<^verbatim>\<open>u32\<close> parameter and the feerate is widened to the \<^verbatim>\<open>size_t\<close> one.
\<close>

definition htlc_timeout_fee :: "chainparams \<Rightarrow> u32 \<Rightarrow> bool \<Rightarrow> bool \<Rightarrow> amount_sat run" where
  "htlc_timeout_fee cp feerate_per_kw option_anchor_outputs option_anchors_zero_fee_htlc_tx =
     (if option_anchors_zero_fee_htlc_tx then Some (AMOUNT_SAT 0)
      else let base = (if option_anchor_outputs then 666 else 663)
           in amount_tx_fee (Some cp) (ucast (base + elements_tx_overhead cp 1 1)) (ucast feerate_per_kw))"

definition htlc_success_fee :: "chainparams \<Rightarrow> u32 \<Rightarrow> bool \<Rightarrow> bool \<Rightarrow> amount_sat run" where
  "htlc_success_fee cp feerate_per_kw option_anchor_outputs option_anchors_zero_fee_htlc_tx =
     (if option_anchors_zero_fee_htlc_tx then Some (AMOUNT_SAT 0)
      else let base = (if option_anchor_outputs then 706 else 703)
           in amount_tx_fee (Some cp) (ucast (base + elements_tx_overhead cp 1 1)) (ucast feerate_per_kw))"

definition htlc_is_trimmed ::
  "chainparams \<Rightarrow> side \<Rightarrow> amount_msat \<Rightarrow> u32 \<Rightarrow> amount_sat \<Rightarrow> side \<Rightarrow> bool \<Rightarrow> bool \<Rightarrow> bool run" where
  "htlc_is_trimmed cp htlc_owner htlc_amount feerate_per_kw dust_limit side
       option_anchor_outputs option_anchors_zero_fee_htlc_tx =
     do { htlc_fee \<leftarrow>
            (if htlc_owner = side
             then htlc_timeout_fee cp feerate_per_kw option_anchor_outputs option_anchors_zero_fee_htlc_tx
             else htlc_success_fee cp feerate_per_kw option_anchor_outputs option_anchors_zero_fee_htlc_tx);
          Some (case amount_sat_add dust_limit htlc_fee of
                  None \<Rightarrow> True
                | Some htlc_min \<Rightarrow> amount_msat_less_sat htlc_amount htlc_min) }"

definition htlc_trim_feerate_ceiling :: "u32 \<Rightarrow> u32" where
  "htlc_trim_feerate_ceiling feerate_per_kw =
     (let a = feerate_per_kw + feerate_per_kw div 4; b = feerate_per_kw + 2530
      in if a > b then a else b)"

section \<open>Multiply, add and divide\<close>

lemma unat_mask32: "unat (x AND 0xFFFFFFFF :: u64) = unat x mod 4294967296"
proof -
  have "x AND 0xFFFFFFFF = take_bit 32 x"
    by (simp add: take_bit_eq_mask mask_eq_exp_minus_1)
  then show ?thesis by (simp add: unat_mod take_bit_eq_mod)
qed

lemma unat_high32: "unat (drop_bit 32 x :: u64) = unat x div 4294967296"
  by (simp add: drop_bit_eq_div unat_div)

lemma unat_low_or_high:
  fixes lo mid :: u64
  shows "unat ((lo AND 0xFFFFFFFF) OR push_bit 32 mid)
     = unat lo mod 4294967296 + 4294967296 * (unat mid mod 4294967296)"
proof -
  have disj: "(lo AND 0xFFFFFFFF) AND push_bit 32 mid = 0"
  proof -
    have "(lo AND 0xFFFFFFFF) = take_bit 32 lo"
      by (simp add: take_bit_eq_mask mask_eq_exp_minus_1)
    then show ?thesis
      by (auto intro!: bit_eqI simp: bit_simps)
  qed
  have "unat (push_bit 32 mid) = 4294967296 * (unat mid mod 4294967296)"
  proof -
    have "unat (push_bit 32 mid) = (unat mid * 4294967296) mod 18446744073709551616"
      by (simp add: push_bit_eq_mult unat_word_ariths)
    also have "(18446744073709551616::nat) = 4294967296 * 4294967296" by simp
    finally show ?thesis by (simp only: mult.commute [of "unat mid"] mult_mod_right)
  qed
  moreover have "(lo AND 0xFFFFFFFF) OR push_bit 32 mid = (lo AND 0xFFFFFFFF) + push_bit 32 mid"
    using disj by (rule disjunctive_add_eq_or [symmetric])
  moreover have "unat lo mod 4294967296 + 4294967296 * (unat mid mod 4294967296) < 18446744073709551616"
  proof -
    have "unat lo mod 4294967296 < 4294967296" "unat mid mod 4294967296 < 4294967296" by simp_all
    then show ?thesis by linarith
  qed
  ultimately show ?thesis
    by (simp add: unat_u64_add unat_mask32)
qed

lemma unat_or_low_bit:
  fixes r b :: u64
  assumes "b = 0 \<or> b = 1"
  shows "push_bit 1 r OR b = 2 * r + b"
proof -
  have "push_bit 1 r AND b = 0"
    using assms by (auto intro!: bit_eqI simp: bit_simps bit_1_iff bit_double_iff mult.commute [of r])
  then have "push_bit 1 r OR b = push_bit 1 r + b" by (rule disjunctive_add_eq_or [symmetric])
  then show ?thesis by (simp add: push_bit_eq_mult)
qed

lemma or_exp_add:
  fixes q :: u64
  assumes "2 ^ Suc i dvd unat q" and "i < 64"
  shows "unat (q OR push_bit i 1) = unat q + 2 ^ i"
proof -
  have nb: "\<not> bit q i"
  proof -
    obtain k where "unat q = 2 ^ Suc i * k" using assms(1) by blast
    then have "\<not> bit (unat q) i" by (simp add: bit_iff_odd)
    then show ?thesis by (simp add: bit_simps assms(2))
  qed
  have "q AND push_bit i 1 = 0"
    using nb by (auto intro!: bit_eqI simp: bit_simps)
  then have e: "q OR push_bit i 1 = q + push_bit i 1" by (rule disjunctive_add_eq_or [symmetric])
  have p: "unat (push_bit i 1 :: u64) = 2 ^ i"
  proof -
    have "(2::nat) ^ i < 2 ^ 64" using assms(2) by (rule power_strict_increasing) simp
    then show ?thesis
      using unsigned_push_bit_eq [of i "1 :: u64", where ?'a = nat] assms(2) by simp
  qed
  have "unat q + 2 ^ i < 2 ^ 64"
  proof -
    obtain k where k: "unat q = 2 ^ Suc i * k" using assms(1) by blast
    have s: "(2::nat) ^ 64 = 2 ^ Suc i * 2 ^ (63 - i)"
      using assms(2) by (simp flip: power_add)
    have "unat q < 2 ^ 64" using unat_u64_lt [of q] by simp
    then have "2 ^ Suc i * k < 2 ^ Suc i * (2 ^ (63 - i) :: nat)" by (simp only: k s)
    then have "k < 2 ^ (63 - i)" by (simp only: mult_less_cancel1)
    then have "k + 1 \<le> 2 ^ (63 - i)" by simp
    then have "2 ^ Suc i * (k + 1) \<le> 2 ^ Suc i * 2 ^ (63 - i)" by (rule mult_le_mono2)
    then have "unat q + 2 ^ Suc i \<le> 2 ^ 64" using k s by simp
    moreover have "(2::nat) ^ i < 2 ^ Suc i" by simp
    ultimately show ?thesis by linarith
  qed
  then show ?thesis using e p by (simp add: unat_u64_add)
qed

lemma div_step_arith:
  fixes V d i t :: nat
  assumes "d \<le> V" "0 < d"
  shows "(V * 2 ^ i + t) div d = 2 ^ i + ((V - d) * 2 ^ i + t) div d"
proof -
  have "V * 2 ^ i + t = ((V - d) * 2 ^ i + t) + d * 2 ^ i"
    using assms(1) mult_le_mono1 [OF assms(1), of "2 ^ i"] by (simp add: diff_mult_distrib trans_le_add1)
  also have "\<dots> div d = ((V - d) * 2 ^ i + t) div d + 2 ^ i"
    using div_mult_self2 [of d "(V - d) * 2 ^ i + t" "2 ^ i"] assms(2) by simp
  finally show ?thesis by simp
qed

lemma mod_Suc_exp: "(x::nat) mod 2 ^ Suc i = (x div 2 ^ i mod 2) * 2 ^ i + x mod 2 ^ i"
  by (simp add: mod_mult2_eq mult.commute [of 2] del: power_Suc add: power_Suc2)

lemma unat_sub_wrapped:
  fixes r d :: u64
  assumes "unat r = V mod 18446744073709551616" and "unat d \<le> V"
    and "V - unat d < 18446744073709551616"
  shows "unat (r - d) = V - unat d"
proof -
  have "r = of_nat V"
    using assms(1) by (simp add: word_unat_eq_iff unat_of_nat take_bit_eq_mod)
  then have "r - d = of_nat (V - unat d)"
    using assms(2) by (simp add: of_nat_diff)
  then show ?thesis using assms(3) by (simp add: unat_of_nat_u64)
qed

lemma u64_div_loop_spec:
  assumes "unat r < unat d" and "2 ^ n dvd unat q" and "n \<le> 64"
  shows "unat (u64_div_loop n lo d r q) = unat q + (unat r * 2 ^ n + unat lo mod 2 ^ n) div unat d"
  using assms
proof (induction n arbitrary: r q)
  case 0
  then show ?case by simp
next
  case (Suc i)
  define b where "b = drop_bit i lo AND 1"
  define V where "V = 2 * unat r + unat b"
  define r' where "r' = push_bit 1 r OR b"
  have b: "b = 0 \<or> b = 1" "unat b = unat lo div 2 ^ i mod 2"
  proof -
    have "unat (drop_bit i lo) = unat lo div 2 ^ i"
      by (subst unat_drop_bit_eq) (simp only: drop_bit_eq_div)
    then show "unat b = unat lo div 2 ^ i mod 2"
      by (simp add: b_def and_one_eq unat_mod)
    show "b = 0 \<or> b = 1" by (auto simp: b_def and_one_eq)
  qed
  have r': "unat r' = V mod 18446744073709551616"
    unfolding r'_def unat_or_low_bit [OF b(1)] V_def
    by (simp add: unat_u64_add unat_u64_mult mod_simps)
  have carry: "(drop_bit 63 r \<noteq> 0) = (18446744073709551616 \<le> V)"
  proof -
    have "unat (drop_bit 63 r) = unat r div 9223372036854775808"
      by (subst unat_drop_bit_eq) (simp add: drop_bit_eq_div)
    then have "(drop_bit 63 r \<noteq> 0) = (9223372036854775808 \<le> unat r)"
      by (simp only: word_unat_eq_iff unat_0) auto
    moreover have "unat b \<le> 1" using b(1) by auto
    ultimately show ?thesis unfolding V_def by linarith
  qed
  have V: "V < 2 * unat d" using Suc.prems(1) b(1) by (auto simp: V_def)
  have take: "(drop_bit 63 r \<noteq> 0 \<or> r' \<ge> d) = (unat d \<le> V)"
    unfolding carry word_le_nat_alt r'
    using V unat_u64_lt [of d] by (cases "18446744073709551616 \<le> V") auto
  have eq: "unat r * 2 ^ Suc i + unat lo mod 2 ^ Suc i = V * 2 ^ i + unat lo mod 2 ^ i"
    by (simp only: mod_Suc_exp V_def b(2)) (simp add: algebra_simps)
  have dq: "2 ^ i dvd unat q" using Suc.prems(2) by (rule dvd_trans [rotated]) simp
  show ?case
  proof (cases "unat d \<le> V")
    case True
    have "unat (r' - d) = V - unat d"
      by (rule unat_sub_wrapped [OF r' True]) (use V unat_u64_lt [of d] in linarith)
    moreover have "V - unat d < unat d" using V True by linarith
    moreover have "unat (q OR push_bit i 1) = unat q + 2 ^ i"
      using Suc.prems by (intro or_exp_add) auto
    ultimately show ?thesis
      using Suc.IH [of "r' - d" "q OR push_bit i 1"] Suc.prems dq True take eq 
        div_step_arith [OF True, of i "unat lo mod 2 ^ i"]
      by (simp add: r'_def b_def)
  next
    case False
    then have "unat r' = V" using r' unat_u64_lt [of d] by simp
    with False show ?thesis
      using Suc.IH [of r' q] Suc.prems dq take eq by (simp add: r'_def b_def)
  qed
qed

lemma regroup_products:
  fixes h w :: nat
  shows "h * (w * w) + (x1 * w + x0) * w + (y1 * w + y0) * w + (z1 * w + z0)
     = (h + x1 + y1) * (w * w) + (z1 + x0 + y0) * w + z0"
  by (simp add: algebra_simps)

lemma regroup_mid:
  fixes h w :: nat
  shows "h * (w * w) + (m1 * w + m0) * w + z = (h + m1) * (w * w) + (z + w * m0)"
  by (simp add: algebra_simps)

lemma partial_products:
  fixes a b :: nat and w :: nat
  defines "al \<equiv> a mod w" and "ah \<equiv> a div w" and "bl \<equiv> b mod w" and "bh \<equiv> b div w"
  defines "mid \<equiv> al * bl div w + al * bh mod w + ah * bl mod w"
  shows "(ah * bh + al * bh div w + ah * bl div w + mid div w) * (w * w)
           + (al * bl mod w + w * (mid mod w)) = a * b"
proof -
  have a: "a = ah * w + al" and b: "b = bh * w + bl" by (simp_all add: al_def ah_def bl_def bh_def)
  have m: "mid div w * w + mid mod w = al * bl div w + al * bh mod w + ah * bl mod w"
    by (simp add: mid_def)
  have "a * b = ah * bh * (w * w) + (al * bh) * w + (ah * bl) * w + al * bl"
    by (simp add: a b algebra_simps)
  also have "\<dots> = ah * bh * (w * w) + (al * bh div w * w + al * bh mod w) * w
      + (ah * bl div w * w + ah * bl mod w) * w + (al * bl div w * w + al * bl mod w)"
    by (simp only: div_mult_mod_eq)
  also have "\<dots> = (ah * bh + al * bh div w + ah * bl div w) * (w * w)
      + (al * bl div w + al * bh mod w + ah * bl mod w) * w + al * bl mod w"
    by (rule regroup_products)
  also have "\<dots> = (ah * bh + al * bh div w + ah * bl div w) * (w * w)
      + (mid div w * w + mid mod w) * w + al * bl mod w"
    by (simp only: m)
  also have "\<dots> = (ah * bh + al * bh div w + ah * bl div w + mid div w) * (w * w)
      + (al * bl mod w + w * (mid mod w))"
    by (rule regroup_mid)
  finally show ?thesis by (rule sym)
qed

text \<open>What both versions compute: the quotient, capped at the largest 64-bit value.\<close>

definition mul_add_div_capped :: "nat \<Rightarrow> nat \<Rightarrow> nat \<Rightarrow> nat \<Rightarrow> nat" where
  "mul_add_div_capped a b add d = min ((a * b + add) div d) (2 ^ 64 - 1)"

lemma product_bound:
  fixes x y c :: nat
  assumes "x \<le> N" "y \<le> N" "c \<le> N"
  shows "x * y + c \<le> N * N + N"
  using mult_le_mono [OF assms(1,2)] assms(3) by linarith

lemma unat_ucast_u64_u128 [simp]: "unat (ucast (x :: u64) :: 128 word) = unat x"
  using unat_u64_lt [of x] by (simp add: unsigned_ucast_eq take_bit_nat_eq_self)

lemma u64_mul_add_div_spec:
  assumes "d \<noteq> 0"
  shows "u64_mul_add_div a b add d
     = Some (of_nat (mul_add_div_capped (unat a) (unat b) (unat add) (unat d)))"
proof -
  define P where "P = unat a * unat b + unat add"
  define v where "v = (ucast a * ucast b + ucast add :: 128 word) div ucast d"
  have "P \<le> 18446744073709551615 * 18446744073709551615 + 18446744073709551615"
    unfolding P_def by (intro product_bound unat_u64_le_max)
  then have "unat (ucast a * ucast b + ucast add :: 128 word) = P"
    by (simp add: P_def unat_word_ariths mod_simps)
  then have v: "unat v = P div unat d" by (simp add: v_def unat_div)
  have "ucast v = (of_nat (P div unat d) :: u64)"
    by (simp add: v [symmetric])
  then show ?thesis
    using assms v unfolding u64_mul_add_div_def mul_add_div_capped_def v_def [symmetric] P_def [symmetric]
    by (auto simp: Let_def word_less_nat_alt min_def)
qed

lemma u64_product_halves:
  fixes a b :: u64
  defines "al \<equiv> a AND 0xFFFFFFFF" and "ah \<equiv> drop_bit 32 a"
    and "bl \<equiv> b AND 0xFFFFFFFF" and "bh \<equiv> drop_bit 32 b"
  defines "mid \<equiv> drop_bit 32 (al * bl) + ((al * bh) AND 0xFFFFFFFF) + ((ah * bl) AND 0xFFFFFFFF)"
  defines "lo \<equiv> ((al * bl) AND 0xFFFFFFFF) OR push_bit 32 mid"
    and "hi \<equiv> ah * bh + drop_bit 32 (al * bh) + drop_bit 32 (ah * bl) + drop_bit 32 mid"
  shows "unat hi * 18446744073709551616 + unat lo = unat a * unat b"
proof -
  let ?w = "4294967296 :: nat"
  define x1 x2 y1 y2 where "x1 = unat al" and "x2 = unat ah" and "y1 = unat bl" and "y2 = unat bh"
  define m where "m = x1 * y1 div ?w + x1 * y2 mod ?w + x2 * y1 mod ?w"
  have parts: "x1 = unat a mod ?w" "x2 = unat a div ?w" "y1 = unat b mod ?w" "y2 = unat b div ?w"
    by (simp_all add: x1_def x2_def y1_def y2_def al_def ah_def bl_def bh_def unat_mask32 unat_high32)
  then have small: "x1 \<le> 4294967295" "x2 \<le> 4294967295" "y1 \<le> 4294967295" "y2 \<le> 4294967295"
    using unat_u64_lt [of a] unat_u64_lt [of b] by simp_all
  have prods: "unat (x * y) = unat x * unat y"
    if "unat x \<le> 4294967295" "unat y \<le> 4294967295" for x y :: u64
    using mult_le_mono [OF that] by (simp add: unat_u64_mult)
  have p: "unat (al * bl) = x1 * y1" "unat (al * bh) = x1 * y2"
      "unat (ah * bl) = x2 * y1" "unat (ah * bh) = x2 * y2"
    using small by (simp_all add: prods x1_def x2_def y1_def y2_def)
  have "x1 * y1 div ?w < ?w"
    using p(1) unat_u64_lt [of "al * bl"] by (simp add: div_less_iff_less_mult)
  then have mid: "unat mid = m"
    unfolding mid_def by (simp add: unat_u64_add unat_mask32 unat_high32 p m_def)
  have lo: "unat lo = x1 * y1 mod ?w + ?w * (m mod ?w)"
    unfolding lo_def unat_low_or_high by (simp add: mid p)
  define H where "H = x2 * y2 + x1 * y2 div ?w + x2 * y1 div ?w + m div ?w"
  have prod: "H * (?w * ?w) + (x1 * y1 mod ?w + ?w * (m mod ?w)) = unat a * unat b"
    unfolding H_def m_def parts by (rule partial_products)
  have "H < 18446744073709551616"
  proof (rule ccontr)
    assume "\<not> H < 18446744073709551616"
    moreover have "unat a * unat b \<le> 18446744073709551615 * 18446744073709551615"
      by (intro mult_le_mono unat_u64_le_max)
    ultimately show False using prod by simp
  qed
  then have "unat hi = H"
    unfolding hi_def by (simp add: unat_u64_add unat_high32 p mid H_def mod_simps)
  then show ?thesis using prod lo by simp
qed

lemma div_capped:
  fixes hi lo d :: nat
  assumes "lo < 2 ^ 64" "0 < d"
  shows "hi \<ge> d \<Longrightarrow> min ((hi * 2 ^ 64 + lo) div d) (2 ^ 64 - 1) = 2 ^ 64 - 1"
    and "hi < d \<Longrightarrow> min ((hi * 2 ^ 64 + lo) div d) (2 ^ 64 - 1) = (hi * 2 ^ 64 + lo) div d"
proof -
  assume "hi \<ge> d"
  then have "2 ^ 64 * d \<le> hi * 2 ^ 64 + lo" by simp
  then have "2 ^ 64 \<le> (hi * 2 ^ 64 + lo) div d"
    using assms(2) by (simp add: less_eq_div_iff_mult_less_eq)
  then show "min ((hi * 2 ^ 64 + lo) div d) (2 ^ 64 - 1) = 2 ^ 64 - 1" by simp
next
  assume "hi < d"
  then have "hi * 2 ^ 64 + lo < 2 ^ 64 * d" using assms(1) by simp
  then have "(hi * 2 ^ 64 + lo) div d < 2 ^ 64"
    using assms(2) by (simp add: div_less_iff_less_mult)
  then show "min ((hi * 2 ^ 64 + lo) div d) (2 ^ 64 - 1) = (hi * 2 ^ 64 + lo) div d" by simp
qed

lemma carry_halves:
  fixes hi lo add :: u64
  assumes "unat hi * 18446744073709551616 + unat lo = P" and "P \<le> 18446744073709551615 * 18446744073709551615"
  shows "unat (if lo + add < lo then hi + 1 else hi) * 18446744073709551616 + unat (lo + add) = P + unat add"
proof -
  have "unat hi < 18446744073709551615" using assms by linarith
  then show ?thesis
    using assms(1) unat_u64_lt [of lo] unat_u64_lt [of add]
    by (auto simp: word_less_nat_alt unat_plus_if')
qed

lemma u64_mul_add_div_portable_spec:
  assumes d: "d \<noteq> 0"
  shows "u64_mul_add_div_portable a b add d
     = Some (of_nat (mul_add_div_capped (unat a) (unat b) (unat add) (unat d)))"
proof -
  define al ah bl bh where "al = a AND 0xFFFFFFFF" and "ah = drop_bit 32 a"
    and "bl = b AND 0xFFFFFFFF" and "bh = drop_bit 32 b"
  define mid where "mid = drop_bit 32 (al * bl) + ((al * bh) AND 0xFFFFFFFF) + ((ah * bl) AND 0xFFFFFFFF)"
  define lo hi where "lo = ((al * bl) AND 0xFFFFFFFF) OR push_bit 32 mid"
    and "hi = ah * bh + drop_bit 32 (al * bh) + drop_bit 32 (ah * bl) + drop_bit 32 mid"
  define hi' where "hi' = (if lo + add < lo then hi + 1 else hi)"
  have code: "u64_mul_add_div_portable a b add d =
      Some (if hi' \<ge> d then 0xFFFFFFFFFFFFFFFF else u64_div_loop 64 (lo + add) d hi' 0)"
    using d by (simp add: u64_mul_add_div_portable_def Let_def al_def ah_def bl_def bh_def
        mid_def lo_def hi_def hi'_def)
  have "unat hi * 18446744073709551616 + unat lo = unat a * unat b"
    unfolding lo_def hi_def mid_def al_def ah_def bl_def bh_def by (rule u64_product_halves)
  then have sum: "unat hi' * 18446744073709551616 + unat (lo + add) = unat a * unat b + unat add"
    unfolding hi'_def by (rule carry_halves) (intro mult_le_mono unat_u64_le_max)
  have d0: "0 < unat d" using d by (simp add: unat_gt_0)
  have cap: "mul_add_div_capped (unat a) (unat b) (unat add) (unat d) =
      (if unat d \<le> unat hi' then 2 ^ 64 - 1
       else (unat hi' * 2 ^ 64 + unat (lo + add)) div unat d)"
    using div_capped [OF _ d0, of "unat (lo + add)" "unat hi'"] sum unat_u64_lt [of "lo + add"]
    by (auto simp: mul_add_div_capped_def)
  show ?thesis
  proof (cases "hi' \<ge> d")
    case False
    then have "(unat hi' * 2 ^ 64 + unat (lo + add)) div unat d
        = unat (u64_div_loop 64 (lo + add) d hi' 0)"
      using u64_div_loop_spec [of hi' d 64 0 "lo + add"] unat_u64_lt [of "lo + add"]
      by (simp add: word_le_nat_alt)
    with False show ?thesis
      by (simp add: code cap word_le_nat_alt)
  qed (simp add: code cap word_le_nat_alt)
qed

text \<open>
  (C30) The portable multiply-add-divide (four 32-bit partial products and a bit-at-a-time division of
  the 128-bit sum) returns what the build with 128-bit integers returns, on every input: the quotient
  \<open>(a * b + add) div d\<close>, capped at the largest 64-bit value, and a stop on a zero divisor.
\<close>

theorem u64_mul_add_div_portable_correct:
  "u64_mul_add_div_portable a b add d = u64_mul_add_div a b add d
   \<and> u64_mul_add_div a b add d =
       (if d = 0 then None
        else Some (of_nat (mul_add_div_capped (unat a) (unat b) (unat add) (unat d))))"
  by (cases "d = 0")
    (simp_all add: u64_mul_add_div_spec u64_mul_add_div_portable_spec,
      simp_all add: u64_mul_add_div_portable_def u64_mul_add_div_def)

lemma u64_in_asset_Some:
  "\<exists>v. u64_in_asset ref rate = Some v \<and>
       unat v = (if rate = 0 then unat ref
                 else min ((unat ref * 100000000 + (unat rate - 1)) div unat rate) (2 ^ 64 - 1))"
proof (cases "rate = 0 \<or> rate = EXCHANGE_RATE_SCALE")
  case True
  have "(unat ref * 100000000 + (100000000 - 1)) div 100000000 = unat ref"
    by linarith
  with True show ?thesis using unat_u64_lt [of ref] by (auto simp: u64_in_asset_def)
next
  case False
  then have "0 < unat rate" by (simp add: unat_gt_0)
  then have "unat (rate - 1) = unat rate - 1" by (simp add: unat_u64_sub_exact)
  with False show ?thesis
    by (simp add: u64_in_asset_def u64_mul_add_div_spec mul_add_div_capped_def unat_of_nat_u64)
qed

section \<open>Fees and exchange rates\<close>

text \<open>Division rounded up, as a specification.\<close>

definition div_up :: "nat \<Rightarrow> nat \<Rightarrow> nat" where
  "div_up n d = (n + (d - 1)) div d"

lemma div_up_least:
  assumes "0 < d"
  shows "div_up n d \<le> m \<longleftrightarrow> n \<le> m * d"
proof -
  have "div_up n d \<le> m \<longleftrightarrow> n + (d - 1) < (m + 1) * d"
    using assms unfolding div_up_def by (metis Suc_eq_plus1 less_Suc_eq_le div_less_iff_less_mult)
  then show ?thesis using assms by auto
qed

lemma div_up_covers: "0 < d \<Longrightarrow> n \<le> div_up n d * d"
  using div_up_least [of d n "div_up n d"] by simp

lemma div_up_mono: "n \<le> m \<Longrightarrow> div_up n d \<le> div_up m d"
  by (simp add: div_up_def div_le_mono)

lemma div_up_pos: "0 < n \<Longrightarrow> 0 < d \<Longrightarrow> 0 < div_up n d"
  using div_up_least [of d n 0] by simp

lemma feerate_weight_fits:
  fixes f :: u32 and w :: u64
  assumes "unat w < 2 ^ 32"
  shows "unat f * unat w + 999 < 18446744073709551616"
proof -
  have "unat f * unat w \<le> 4294967295 * 4294967295"
    using assms unat_u32_le_max [of f] by (intro mult_le_mono) auto
  then show ?thesis by simp
qed

text \<open>What a transaction of a weight pays: rounded up on a Sequentia chain, else rounded down.\<close>

definition rounds_up :: "chainparams option \<Rightarrow> bool" where
  "rounds_up cp = (case cp of None \<Rightarrow> False | Some p \<Rightarrow> has_anchor_header p)"

definition tx_fee :: "chainparams option \<Rightarrow> nat \<Rightarrow> nat \<Rightarrow> nat" where
  "tx_fee cp f w =
     (if rounds_up cp then div_up (f * w) 1000 else f * w div 1000)"

lemma tx_fee_mono: "f \<le> f' \<Longrightarrow> w \<le> w' \<Longrightarrow> tx_fee cp f w \<le> tx_fee cp f' w'"
  by (simp add: tx_fee_def div_up_mono div_le_mono mult_le_mono)

lemma tx_fee_commute: "tx_fee cp f w = tx_fee cp w f"
  by (simp add: tx_fee_def mult.commute)

lemma amount_tx_fee_Some:
  assumes "unat w < 2 ^ 32"
  shows "\<exists>fee. amount_tx_fee cp f w = Some fee \<and> sat fee = tx_fee cp (unat f) (unat w)"
proof -
  note fits = feerate_weight_fits [OF assms, of f]
  have no: "\<not> mul_overflows_u64 (ucast f) w"
    using fits by (simp add: mul_overflows_u64_iff)
  have prod: "unat (ucast f * w :: u64) = unat f * unat w"
    using fits by (subst unat_u64_mult_exact) simp_all
  then have up: "unat ((ucast f * w + 999) div 1000 :: u64) = div_up (unat f * unat w) 1000"
    using fits by (simp add: unat_div unat_u64_add div_up_def)
  have "0 < (ucast f * w + 999) div 1000 \<or> f = 0 \<or> w = 0"
  proof (cases "f = 0 \<or> w = 0")
    case False
    then show ?thesis
      using up div_up_pos [of "unat f * unat w" 1000] by (simp add: word_less_nat_alt unat_gt_0)
  qed auto
  then show ?thesis
    using no prod up
    by (auto simp: amount_tx_fee_def amount_tx_fee_rounded_down_def tx_fee_def rounds_up_def Let_def unat_div
        split: option.splits)
qed

text \<open>
  \<^verbatim>\<open>amount_tx_fee\<close> returns for every feerate and every weight below \<open>2 ^ 32\<close>. On a Sequentia
  chain the fee is the least whole number of atoms that covers the feerate times the weight, so it
  is never 0 for a positive feerate and weight; on any other chain it is rounded down, and short of
  the feerate by less than one.
\<close>

theorem amount_tx_fee_rounding:
  assumes "unat w < 2 ^ 32"
  shows "\<exists>fee. amount_tx_fee cp f w = Some fee \<and>
     (if rounds_up cp
      then \<forall>m. sat fee \<le> m \<longleftrightarrow> unat f * unat w \<le> m * 1000
      else \<forall>m. m \<le> sat fee \<longleftrightarrow> m * 1000 \<le> unat f * unat w)"
  using amount_tx_fee_Some [OF assms, of cp f]
  by (auto simp: tx_fee_def div_up_least less_eq_div_iff_mult_less_eq)

theorem amount_tx_fee_rounding_witness:
  "\<exists>fee. amount_tx_fee (Some net_sequentia) 253 724 = Some fee \<and>
     (\<forall>m. sat fee \<le> m \<longleftrightarrow> 183172 \<le> m * 1000)"
  using amount_tx_fee_rounding [of 724 "Some net_sequentia" 253]
  by (simp add: rounds_up_def net_sequentia_def)

text \<open>The least number of atoms worth at least \<open>ref\<close> reference atoms at a rate.\<close>

definition worth_in_asset :: "nat \<Rightarrow> nat \<Rightarrow> nat" where
  "worth_in_asset ref rate = (if rate = 0 then ref else div_up (ref * 100000000) rate)"

lemma u64_in_asset_worth:
  "\<exists>v. u64_in_asset ref rate = Some v
       \<and> unat v = min (worth_in_asset (unat ref) (unat rate)) (2 ^ 64 - 1)"
  using u64_in_asset_Some [of ref rate] unat_u64_le_max [of ref]
  by (auto simp: worth_in_asset_def div_up_def unat_eq_zero split: if_splits)

text \<open>
  A feerate or an amount converted into an asset at a rate is the least number of atoms that is
  worth at least the reference value, or the largest value of its width when that does not fit; a
  zero rate leaves it alone. The conversion always returns, and a positive value never becomes 0.
\<close>

theorem feerate_in_asset_covers:
  "\<exists>v. feerate_in_asset f rate = Some v
       \<and> unat v = min (worth_in_asset (unat f) (unat rate)) (2 ^ 32 - 1)
       \<and> (v = 0 \<longleftrightarrow> f = 0)
       \<and> (\<forall>m. rate \<noteq> 0 \<longrightarrow>
             (worth_in_asset (unat f) (unat rate) \<le> m \<longleftrightarrow> unat f * 100000000 \<le> m * unat rate))"
proof -
  obtain v where v: "u64_in_asset (ucast f) rate = Some v"
      and val: "unat v = min (worth_in_asset (unat f) (unat rate)) (2 ^ 64 - 1)"
    using u64_in_asset_worth [of "ucast f" rate] by auto
  define r where "r = (if v > 0xFFFFFFFF then 0xFFFFFFFF else ucast v :: u32)"
  have code: "feerate_in_asset f rate = Some r"
  proof (cases "rate = 0 \<or> rate = EXCHANGE_RATE_SCALE")
    case True
    then have "v = ucast f" using v by (auto simp: u64_in_asset_def)
    then show ?thesis using True unat_u32_le_max [of f]
      by (auto simp: feerate_in_asset_def r_def word_less_nat_alt)
  next
    case False
    then show ?thesis using v by (simp add: feerate_in_asset_def u64_in_asset_def r_def)
  qed
  have rv: "unat r = min (worth_in_asset (unat f) (unat rate)) (2 ^ 32 - 1)"
  proof (cases "v > 0xFFFFFFFF")
    case False
    then have "unat (ucast v :: u32) = unat v"
      by (simp add: word_less_nat_alt unsigned_ucast_eq take_bit_nat_eq_self)
    with False val show ?thesis by (simp add: r_def word_less_nat_alt)
  qed (use val in \<open>simp add: r_def word_less_nat_alt\<close>)
  have "worth_in_asset (unat f) (unat rate) = 0 \<longleftrightarrow> f = 0"
    using div_up_least [of "unat rate" "unat f * 100000000" 0]
    by (cases "rate = 0") (simp_all add: worth_in_asset_def unat_eq_zero unat_gt_0)
  then have "r = 0 \<longleftrightarrow> f = 0"
    using rv by (simp add: word_unat_eq_iff [of r] min_def split: if_splits)
  then show ?thesis
    using code rv by (auto simp: worth_in_asset_def div_up_least unat_gt_0 unat_eq_zero)
qed

theorem feerate_in_asset_covers_witness:
  "\<exists>v. feerate_in_asset 253 350000000000 = Some v \<and> v \<noteq> 0
       \<and> (worth_in_asset 253 350000000000 \<le> 1 \<longleftrightarrow> 253 * 100000000 \<le> (350000000000 :: nat))"
  using feerate_in_asset_covers [of 253 350000000000] by fastforce

section \<open>Which HTLCs have an output\<close>

text \<open>
  The weight of the transaction that claims an HTLC from \<open>side\<close>'s commitment, and the smallest
  HTLC amount, in satoshi, that has an output there.
\<close>

definition htlc_tx_weight :: "chainparams \<Rightarrow> bool \<Rightarrow> bool \<Rightarrow> nat" where
  "htlc_tx_weight cp offered ao =
     (if offered then (if ao then 666 else 663) else (if ao then 706 else 703))
     + (if is_elements cp then 330 else 0)"

definition htlc_min_output :: "chainparams \<Rightarrow> bool \<Rightarrow> nat \<Rightarrow> nat \<Rightarrow> bool \<Rightarrow> bool \<Rightarrow> nat" where
  "htlc_min_output cp offered f dust ao az =
     dust + (if az then 0 else tx_fee (Some cp) f (htlc_tx_weight cp offered ao))"

lemma htlc_fee_Some:
  fixes f :: u32
  assumes b: "unat b + 330 < 2 ^ 32"
  shows "\<exists>fee. amount_tx_fee (Some cp) (ucast (b + elements_tx_overhead cp 1 1)) (ucast f) = Some fee
     \<and> sat fee = tx_fee (Some cp) (unat f) (unat b + (if is_elements cp then 330 else 0))"
proof -
  define t where "t = (ucast (b + elements_tx_overhead cp 1 1) :: u32)"
  have "unat (b + elements_tx_overhead cp 1 1) = unat b + (if is_elements cp then 330 else 0)"
    using b by (simp add: elements_tx_overhead_def unat_u64_add)
  then have "unat t = unat b + (if is_elements cp then 330 else 0)"
    using b by (auto simp: t_def unsigned_ucast_eq take_bit_nat_eq_self)
  then show ?thesis
    using amount_tx_fee_Some [of "ucast f" "Some cp" t] unat_u32_lt [of f]
    by (simp add: t_def [symmetric] tx_fee_commute [of _ "unat f"])
qed

lemma tx_fee_bound:
  assumes "f < 2 ^ 32" "w \<le> 1036"
  shows "tx_fee cp f w \<le> 4451289000"
proof -
  have "f * w \<le> 4294967295 * 1036" using assms by (intro mult_le_mono) auto
  then show ?thesis by (auto simp: tx_fee_def div_up_def)
qed

lemma htlc_claim_fee_Some:
  "\<exists>fee. (if offered then htlc_timeout_fee cp f ao az else htlc_success_fee cp f ao az) = Some fee
     \<and> sat fee = (if az then 0 else tx_fee (Some cp) (unat f) (htlc_tx_weight cp offered ao))"
  using htlc_fee_Some [of 663 cp f] htlc_fee_Some [of 666 cp f]
    htlc_fee_Some [of 703 cp f] htlc_fee_Some [of 706 cp f]
  by (cases az; cases offered; cases ao)
    (simp_all add: htlc_timeout_fee_def htlc_success_fee_def htlc_tx_weight_def)

lemma amount_msat_less_sat_iff:
  "sat s * 1000 < 2 ^ 64 \<Longrightarrow> amount_msat_less_sat m s \<longleftrightarrow> msat m < 1000 * sat s"
  by (simp add: amount_msat_less_sat_def amount_sat_to_msat_eq word_less_nat_alt
      unat_u64_mult_exact mult.commute)

lemma htlc_is_trimmed_spec:
  assumes "sat dust < 2 ^ 50"
  shows "htlc_is_trimmed cp owner amt f dust side ao az
     = Some (msat amt < 1000 * htlc_min_output cp (owner = side) (unat f) (sat dust) ao az)"
proof -
  define F where "F = (if az then 0 else tx_fee (Some cp) (unat f) (htlc_tx_weight cp (owner = side) ao))"
  obtain fee where fee:
      "(if owner = side then htlc_timeout_fee cp f ao az else htlc_success_fee cp f ao az) = Some fee"
      "sat fee = F"
    unfolding F_def using htlc_claim_fee_Some by blast
  have F: "F \<le> 4451289000"
    using unat_u32_lt [of f] by (simp add: F_def tx_fee_bound htlc_tx_weight_def)
  then obtain m where m: "amount_sat_add dust fee = Some m"
    using sat_arith.add_None [of dust fee] assms fee(2)
    by (cases "amount_sat_add dust fee") auto
  then have "sat m = sat dust + F" using sat_arith.add_Some fee(2) by auto
  then show ?thesis
    using fee(1) m F assms
    by (simp add: htlc_is_trimmed_def amount_msat_less_sat_iff htlc_min_output_def F_def [symmetric])
qed

lemma htlc_min_output_mono:
  "f \<le> f' \<Longrightarrow> htlc_min_output cp off f dust ao az \<le> htlc_min_output cp off f' dust ao az"
  by (simp add: htlc_min_output_def tx_fee_mono)

text \<open>
  \<^verbatim>\<open>htlc_is_trimmed\<close> always returns, and an HTLC has no output on a side's commitment exactly
  when its amount is below that side's dust limit plus the fee of the transaction that claims it
  (HTLC-timeout for the side's own HTLCs, HTLC-success for the other's). A trimmed HTLC stays
  trimmed when the feerate rises, so the HTLCs trimmed at the buffer feerate of
  \<^verbatim>\<open>htlc_trim_feerate_ceiling\<close> include those trimmed at the current one.
\<close>

theorem htlc_is_trimmed_correct:
  assumes "sat dust < 2 ^ 50"
  shows "htlc_is_trimmed cp owner amt f dust side ao az
       = Some (msat amt < 1000 * htlc_min_output cp (owner = side) (unat f) (sat dust) ao az)
     \<and> (htlc_is_trimmed cp owner amt f dust side ao az = Some True \<longrightarrow> unat f < 2 ^ 31 \<longrightarrow>
        htlc_is_trimmed cp owner amt (htlc_trim_feerate_ceiling f) dust side ao az = Some True)"
proof -
  have "unat f \<le> unat (htlc_trim_feerate_ceiling f)" if "unat f < 2 ^ 31"
  proof -
    have "unat (f + f div 4) = unat f + unat f div 4" "unat (f + 2530) = unat f + 2530"
      using that by (simp_all add: unat_word_ariths unat_div)
    then show ?thesis by (simp add: htlc_trim_feerate_ceiling_def Let_def)
  qed
  then show ?thesis
    using htlc_min_output_mono [of "unat f" "unat (htlc_trim_feerate_ceiling f)"]
    by (fastforce simp: htlc_is_trimmed_spec [OF assms] intro: less_le_trans)
qed

theorem htlc_is_trimmed_correct_witness:
  "htlc_is_trimmed net_sequentia LOCAL (AMOUNT_MSAT 900000) 253 (AMOUNT_SAT 546) REMOTE False False
     = Some False
   \<and> htlc_is_trimmed net_sequentia LOCAL (AMOUNT_MSAT 700000) 253 (AMOUNT_SAT 546) REMOTE False False
     = Some True
   \<and> htlc_is_trimmed net_sequentia LOCAL (AMOUNT_MSAT 700000) (htlc_trim_feerate_ceiling 253)
       (AMOUNT_SAT 546) REMOTE False False = Some True"
  using htlc_is_trimmed_correct [of "AMOUNT_SAT 546" net_sequentia LOCAL "AMOUNT_MSAT 900000" 253 REMOTE False False]
    htlc_is_trimmed_correct [of "AMOUNT_SAT 546" net_sequentia LOCAL "AMOUNT_MSAT 700000" 253 REMOTE False False]
  by (simp add: htlc_min_output_def htlc_tx_weight_def tx_fee_def rounds_up_def div_up_def net_sequentia_def)

end
