(* ===== verification/HtlcStates.thy ===== *)
theory HtlcStates
  imports Fees
begin

text \<open>
  The states of an HTLC and the flags of each: \<^verbatim>\<open>common/htlc_state.h\<close>, the flag macros of
  \<^verbatim>\<open>common/htlc.h\<close> and the table \<^verbatim>\<open>per_state_bits\<close> of \<^verbatim>\<open>common/htlc_state.c\<close>. An
  \<^verbatim>\<open>enum htlc_state\<close> is a datatype with a linear order, \<^verbatim>\<open>state + 1\<close> its successor;
  \<^verbatim>\<open>HTLC_STATE_INVALID\<close>, the size of the arrays indexed by a state, is not one of its values.

  The lemmas show what the table means: the order in which an HTLC enters and leaves the two
  commitment transactions, and that the table of one peer is the table of the other seen from the
  other side.
\<close>

section \<open>States and flags\<close>

datatype htlc_state =
  SENT_ADD_HTLC
  | SENT_ADD_COMMIT
  | RCVD_ADD_REVOCATION
  | RCVD_ADD_ACK_COMMIT
  | SENT_ADD_ACK_REVOCATION
  | RCVD_REMOVE_HTLC
  | RCVD_REMOVE_COMMIT
  | SENT_REMOVE_REVOCATION
  | SENT_REMOVE_ACK_COMMIT
  | RCVD_REMOVE_ACK_REVOCATION
  | RCVD_ADD_HTLC
  | RCVD_ADD_COMMIT
  | SENT_ADD_REVOCATION
  | SENT_ADD_ACK_COMMIT
  | RCVD_ADD_ACK_REVOCATION
  | SENT_REMOVE_HTLC
  | SENT_REMOVE_COMMIT
  | RCVD_REMOVE_REVOCATION
  | RCVD_REMOVE_ACK_COMMIT
  | SENT_REMOVE_ACK_REVOCATION

fun htlc_state_index :: "htlc_state \<Rightarrow> nat" where
  "htlc_state_index SENT_ADD_HTLC = 0"
| "htlc_state_index SENT_ADD_COMMIT = 1"
| "htlc_state_index RCVD_ADD_REVOCATION = 2"
| "htlc_state_index RCVD_ADD_ACK_COMMIT = 3"
| "htlc_state_index SENT_ADD_ACK_REVOCATION = 4"
| "htlc_state_index RCVD_REMOVE_HTLC = 5"
| "htlc_state_index RCVD_REMOVE_COMMIT = 6"
| "htlc_state_index SENT_REMOVE_REVOCATION = 7"
| "htlc_state_index SENT_REMOVE_ACK_COMMIT = 8"
| "htlc_state_index RCVD_REMOVE_ACK_REVOCATION = 9"
| "htlc_state_index RCVD_ADD_HTLC = 10"
| "htlc_state_index RCVD_ADD_COMMIT = 11"
| "htlc_state_index SENT_ADD_REVOCATION = 12"
| "htlc_state_index SENT_ADD_ACK_COMMIT = 13"
| "htlc_state_index RCVD_ADD_ACK_REVOCATION = 14"
| "htlc_state_index SENT_REMOVE_HTLC = 15"
| "htlc_state_index SENT_REMOVE_COMMIT = 16"
| "htlc_state_index RCVD_REMOVE_REVOCATION = 17"
| "htlc_state_index RCVD_REMOVE_ACK_COMMIT = 18"
| "htlc_state_index SENT_REMOVE_ACK_REVOCATION = 19"

definition all_htlc_states :: "htlc_state list" where
  "all_htlc_states =
     [SENT_ADD_HTLC, SENT_ADD_COMMIT, RCVD_ADD_REVOCATION,
      RCVD_ADD_ACK_COMMIT, SENT_ADD_ACK_REVOCATION, RCVD_REMOVE_HTLC,
      RCVD_REMOVE_COMMIT, SENT_REMOVE_REVOCATION, SENT_REMOVE_ACK_COMMIT,
      RCVD_REMOVE_ACK_REVOCATION, RCVD_ADD_HTLC, RCVD_ADD_COMMIT,
      SENT_ADD_REVOCATION, SENT_ADD_ACK_COMMIT, RCVD_ADD_ACK_REVOCATION,
      SENT_REMOVE_HTLC, SENT_REMOVE_COMMIT, RCVD_REMOVE_REVOCATION,
      RCVD_REMOVE_ACK_COMMIT, SENT_REMOVE_ACK_REVOCATION]"

text \<open>\<^verbatim>\<open>state + 1\<close>; the successor of the last state is \<^verbatim>\<open>HTLC_STATE_INVALID\<close>.\<close>

definition htlc_state_succ :: "htlc_state \<Rightarrow> htlc_state option" where
  "htlc_state_succ s =
     (if Suc (htlc_state_index s) < 20 then Some (all_htlc_states ! Suc (htlc_state_index s)) else None)"

instantiation htlc_state :: linorder
begin

definition less_eq_htlc_state :: "htlc_state \<Rightarrow> htlc_state \<Rightarrow> bool" where
  "less_eq_htlc_state a b \<longleftrightarrow> htlc_state_index a \<le> htlc_state_index b"

definition less_htlc_state :: "htlc_state \<Rightarrow> htlc_state \<Rightarrow> bool" where
  "less_htlc_state a b \<longleftrightarrow> htlc_state_index a < htlc_state_index b"

instance
proof
  fix a b :: htlc_state
  assume "a \<le> b" "b \<le> a"
  then have "htlc_state_index a = htlc_state_index b"
    by (simp add: less_eq_htlc_state_def)
  moreover have "all_htlc_states ! htlc_state_index s = s" for s
    by (cases s) (simp_all add: all_htlc_states_def)
  ultimately show "a = b" by metis
qed (auto simp: less_eq_htlc_state_def less_htlc_state_def)

end

type_synonym flags = u32

definition HTLC_ADDING :: flags where "HTLC_ADDING = 0x1000"
definition HTLC_REMOVING :: flags where "HTLC_REMOVING = 0x2000"
definition HTLC_F_PENDING :: flags where "HTLC_F_PENDING = 0x01"
definition HTLC_F_COMMITTED :: flags where "HTLC_F_COMMITTED = 0x02"
definition HTLC_F_REVOKED :: flags where "HTLC_F_REVOKED = 0x04"
definition HTLC_F_OWNER :: flags where "HTLC_F_OWNER = 0x08"
definition HTLC_F_WAS_COMMITTED :: flags where "HTLC_F_WAS_COMMITTED = 0x10"
definition HTLC_F_WILL_SEND :: flags where "HTLC_F_WILL_SEND = 0x20"

fun side_index :: "side \<Rightarrow> nat" where
  "side_index LOCAL = 0"
| "side_index REMOTE = 1"

definition HTLC_FLAG :: "side \<Rightarrow> flags \<Rightarrow> flags" where
  "HTLC_FLAG side flag = push_bit (side_index side * 6) flag"

abbreviation HTLC_REMOTE_F_PENDING :: flags where
  "HTLC_REMOTE_F_PENDING \<equiv> HTLC_FLAG REMOTE HTLC_F_PENDING"
abbreviation HTLC_REMOTE_F_COMMITTED :: flags where
  "HTLC_REMOTE_F_COMMITTED \<equiv> HTLC_FLAG REMOTE HTLC_F_COMMITTED"
abbreviation HTLC_REMOTE_F_REVOKED :: flags where
  "HTLC_REMOTE_F_REVOKED \<equiv> HTLC_FLAG REMOTE HTLC_F_REVOKED"
abbreviation HTLC_REMOTE_F_OWNER :: flags where
  "HTLC_REMOTE_F_OWNER \<equiv> HTLC_FLAG REMOTE HTLC_F_OWNER"
abbreviation HTLC_REMOTE_F_WAS_COMMITTED :: flags where
  "HTLC_REMOTE_F_WAS_COMMITTED \<equiv> HTLC_FLAG REMOTE HTLC_F_WAS_COMMITTED"
abbreviation HTLC_REMOTE_F_WILL_SEND :: flags where
  "HTLC_REMOTE_F_WILL_SEND \<equiv> HTLC_FLAG REMOTE HTLC_F_WILL_SEND"
abbreviation HTLC_LOCAL_F_PENDING :: flags where
  "HTLC_LOCAL_F_PENDING \<equiv> HTLC_FLAG LOCAL HTLC_F_PENDING"
abbreviation HTLC_LOCAL_F_COMMITTED :: flags where
  "HTLC_LOCAL_F_COMMITTED \<equiv> HTLC_FLAG LOCAL HTLC_F_COMMITTED"
abbreviation HTLC_LOCAL_F_REVOKED :: flags where
  "HTLC_LOCAL_F_REVOKED \<equiv> HTLC_FLAG LOCAL HTLC_F_REVOKED"
abbreviation HTLC_LOCAL_F_OWNER :: flags where
  "HTLC_LOCAL_F_OWNER \<equiv> HTLC_FLAG LOCAL HTLC_F_OWNER"
abbreviation HTLC_LOCAL_F_WAS_COMMITTED :: flags where
  "HTLC_LOCAL_F_WAS_COMMITTED \<equiv> HTLC_FLAG LOCAL HTLC_F_WAS_COMMITTED"
abbreviation HTLC_LOCAL_F_WILL_SEND :: flags where
  "HTLC_LOCAL_F_WILL_SEND \<equiv> HTLC_FLAG LOCAL HTLC_F_WILL_SEND"

fun per_state_bits :: "htlc_state \<Rightarrow> flags" where
  "per_state_bits SENT_ADD_HTLC =
     HTLC_ADDING + HTLC_LOCAL_F_OWNER + HTLC_REMOTE_F_PENDING +
     HTLC_REMOTE_F_WILL_SEND + HTLC_LOCAL_F_WILL_SEND"
| "per_state_bits SENT_ADD_COMMIT =
     HTLC_ADDING + HTLC_LOCAL_F_OWNER + HTLC_REMOTE_F_COMMITTED +
     HTLC_REMOTE_F_WAS_COMMITTED + HTLC_REMOTE_F_WILL_SEND +
     HTLC_LOCAL_F_WILL_SEND"
| "per_state_bits RCVD_ADD_REVOCATION =
     HTLC_ADDING + HTLC_LOCAL_F_OWNER + HTLC_REMOTE_F_COMMITTED +
     HTLC_REMOTE_F_REVOKED + HTLC_LOCAL_F_PENDING +
     HTLC_REMOTE_F_WAS_COMMITTED + HTLC_REMOTE_F_WILL_SEND +
     HTLC_LOCAL_F_WILL_SEND"
| "per_state_bits RCVD_ADD_ACK_COMMIT =
     HTLC_ADDING + HTLC_LOCAL_F_OWNER + HTLC_REMOTE_F_COMMITTED +
     HTLC_REMOTE_F_REVOKED + HTLC_LOCAL_F_COMMITTED +
     HTLC_LOCAL_F_WAS_COMMITTED + HTLC_REMOTE_F_WAS_COMMITTED +
     HTLC_LOCAL_F_WILL_SEND"
| "per_state_bits SENT_ADD_ACK_REVOCATION =
     HTLC_LOCAL_F_OWNER + HTLC_REMOTE_F_COMMITTED + HTLC_REMOTE_F_REVOKED +
     HTLC_LOCAL_F_COMMITTED + HTLC_LOCAL_F_REVOKED +
     HTLC_LOCAL_F_WAS_COMMITTED + HTLC_REMOTE_F_WAS_COMMITTED"
| "per_state_bits RCVD_REMOVE_HTLC =
     HTLC_REMOVING + HTLC_LOCAL_F_OWNER + HTLC_LOCAL_F_PENDING +
     HTLC_LOCAL_F_COMMITTED + HTLC_REMOTE_F_COMMITTED +
     HTLC_LOCAL_F_WAS_COMMITTED + HTLC_REMOTE_F_WAS_COMMITTED +
     HTLC_REMOTE_F_WILL_SEND + HTLC_LOCAL_F_WILL_SEND"
| "per_state_bits RCVD_REMOVE_COMMIT =
     HTLC_REMOVING + HTLC_LOCAL_F_OWNER + HTLC_REMOTE_F_COMMITTED +
     HTLC_LOCAL_F_WAS_COMMITTED + HTLC_REMOTE_F_WAS_COMMITTED +
     HTLC_REMOTE_F_WILL_SEND + HTLC_LOCAL_F_WILL_SEND"
| "per_state_bits SENT_REMOVE_REVOCATION =
     HTLC_REMOVING + HTLC_LOCAL_F_OWNER + HTLC_REMOTE_F_COMMITTED +
     HTLC_LOCAL_F_REVOKED + HTLC_REMOTE_F_PENDING +
     HTLC_LOCAL_F_WAS_COMMITTED + HTLC_REMOTE_F_WAS_COMMITTED +
     HTLC_REMOTE_F_WILL_SEND + HTLC_LOCAL_F_WILL_SEND"
| "per_state_bits SENT_REMOVE_ACK_COMMIT =
     HTLC_REMOVING + HTLC_LOCAL_F_OWNER + HTLC_LOCAL_F_REVOKED +
     HTLC_LOCAL_F_WAS_COMMITTED + HTLC_REMOTE_F_WAS_COMMITTED +
     HTLC_REMOTE_F_WILL_SEND"
| "per_state_bits RCVD_REMOVE_ACK_REVOCATION =
     HTLC_LOCAL_F_OWNER + HTLC_LOCAL_F_REVOKED + HTLC_REMOTE_F_REVOKED +
     HTLC_LOCAL_F_WAS_COMMITTED + HTLC_REMOTE_F_WAS_COMMITTED"
| "per_state_bits RCVD_ADD_HTLC =
     HTLC_ADDING + HTLC_REMOTE_F_OWNER + HTLC_LOCAL_F_PENDING +
     HTLC_REMOTE_F_WILL_SEND + HTLC_LOCAL_F_WILL_SEND"
| "per_state_bits RCVD_ADD_COMMIT =
     HTLC_ADDING + HTLC_REMOTE_F_OWNER + HTLC_LOCAL_F_COMMITTED +
     HTLC_LOCAL_F_WAS_COMMITTED + HTLC_REMOTE_F_WILL_SEND +
     HTLC_LOCAL_F_WILL_SEND"
| "per_state_bits SENT_ADD_REVOCATION =
     HTLC_ADDING + HTLC_REMOTE_F_OWNER + HTLC_LOCAL_F_COMMITTED +
     HTLC_LOCAL_F_REVOKED + HTLC_REMOTE_F_PENDING +
     HTLC_LOCAL_F_WAS_COMMITTED + HTLC_REMOTE_F_WILL_SEND +
     HTLC_LOCAL_F_WILL_SEND"
| "per_state_bits SENT_ADD_ACK_COMMIT =
     HTLC_ADDING + HTLC_REMOTE_F_OWNER + HTLC_LOCAL_F_COMMITTED +
     HTLC_LOCAL_F_REVOKED + HTLC_REMOTE_F_COMMITTED +
     HTLC_LOCAL_F_WAS_COMMITTED + HTLC_REMOTE_F_WAS_COMMITTED +
     HTLC_REMOTE_F_WILL_SEND"
| "per_state_bits RCVD_ADD_ACK_REVOCATION =
     HTLC_REMOTE_F_OWNER + HTLC_LOCAL_F_COMMITTED + HTLC_LOCAL_F_REVOKED +
     HTLC_REMOTE_F_COMMITTED + HTLC_REMOTE_F_REVOKED +
     HTLC_LOCAL_F_WAS_COMMITTED + HTLC_REMOTE_F_WAS_COMMITTED"
| "per_state_bits SENT_REMOVE_HTLC =
     HTLC_REMOVING + HTLC_REMOTE_F_OWNER + HTLC_REMOTE_F_PENDING +
     HTLC_LOCAL_F_COMMITTED + HTLC_REMOTE_F_COMMITTED +
     HTLC_LOCAL_F_WAS_COMMITTED + HTLC_REMOTE_F_WAS_COMMITTED +
     HTLC_REMOTE_F_WILL_SEND + HTLC_LOCAL_F_WILL_SEND"
| "per_state_bits SENT_REMOVE_COMMIT =
     HTLC_REMOVING + HTLC_REMOTE_F_OWNER + HTLC_LOCAL_F_COMMITTED +
     HTLC_LOCAL_F_WAS_COMMITTED + HTLC_REMOTE_F_WAS_COMMITTED +
     HTLC_REMOTE_F_WILL_SEND + HTLC_LOCAL_F_WILL_SEND"
| "per_state_bits RCVD_REMOVE_REVOCATION =
     HTLC_REMOVING + HTLC_REMOTE_F_OWNER + HTLC_LOCAL_F_COMMITTED +
     HTLC_REMOTE_F_REVOKED + HTLC_LOCAL_F_PENDING +
     HTLC_LOCAL_F_WAS_COMMITTED + HTLC_REMOTE_F_WAS_COMMITTED +
     HTLC_REMOTE_F_WILL_SEND + HTLC_LOCAL_F_WILL_SEND"
| "per_state_bits RCVD_REMOVE_ACK_COMMIT =
     HTLC_REMOVING + HTLC_REMOTE_F_OWNER + HTLC_REMOTE_F_REVOKED +
     HTLC_LOCAL_F_WAS_COMMITTED + HTLC_REMOTE_F_WAS_COMMITTED +
     HTLC_LOCAL_F_WILL_SEND"
| "per_state_bits SENT_REMOVE_ACK_REVOCATION =
     HTLC_REMOTE_F_OWNER + HTLC_REMOTE_F_REVOKED + HTLC_LOCAL_F_REVOKED +
     HTLC_LOCAL_F_WAS_COMMITTED + HTLC_REMOTE_F_WAS_COMMITTED"

text \<open>The two assertions of \<^verbatim>\<open>htlc_state_flags\<close> hold for every state (\<open>htlc_state_flags_nonzero\<close>).\<close>

definition htlc_state_flags :: "htlc_state \<Rightarrow> flags" where
  "htlc_state_flags state = per_state_bits state"

text \<open>So do those of \<^verbatim>\<open>htlc_state_owner\<close> (\<open>htlc_state_owner_flags\<close>).\<close>

definition htlc_state_owner :: "htlc_state \<Rightarrow> side" where
  "htlc_state_owner state = (if state < RCVD_ADD_HTLC then LOCAL else REMOTE)"

definition state_has :: "htlc_state \<Rightarrow> flags \<Rightarrow> bool" where
  "state_has s flag \<longleftrightarrow> and (htlc_state_flags s) flag \<noteq> 0"

definition side_to_str :: "side \<Rightarrow> string" where
  "side_to_str side = (case side of LOCAL \<Rightarrow> ''LOCAL'' | REMOTE \<Rightarrow> ''REMOTE'')"

lemmas flag_defs =
  HTLC_ADDING_def HTLC_REMOVING_def HTLC_F_PENDING_def HTLC_F_COMMITTED_def HTLC_F_REVOKED_def
  HTLC_F_OWNER_def HTLC_F_WAS_COMMITTED_def HTLC_F_WILL_SEND_def HTLC_FLAG_def

section \<open>Evaluation of the flags\<close>

lemma htlc_state_flags_nonzero: "htlc_state_flags s \<noteq> 0"
  by (cases s) (simp_all add: htlc_state_flags_def flag_defs)

lemma state_lt_iff: "a < b \<longleftrightarrow> htlc_state_index a < htlc_state_index b"
  by (simp add: less_htlc_state_def)

lemma state_le_iff: "a \<le> b \<longleftrightarrow> htlc_state_index a \<le> htlc_state_index b"
  by (simp add: less_eq_htlc_state_def)

lemma htlc_state_owner_flags:
  "and (htlc_state_flags s) (or HTLC_REMOTE_F_OWNER HTLC_LOCAL_F_OWNER)
     = HTLC_FLAG (htlc_state_owner s) HTLC_F_OWNER"
  by (cases s) (simp_all add: htlc_state_owner_def state_lt_iff htlc_state_flags_def flag_defs)

lemma has_local_pending [flag_simps]:
  "state_has s HTLC_LOCAL_F_PENDING \<longleftrightarrow> s \<in>
     {RCVD_ADD_REVOCATION, RCVD_REMOVE_HTLC, RCVD_ADD_HTLC,
      RCVD_REMOVE_REVOCATION}"
  by (cases s) (simp_all add: state_has_def htlc_state_flags_def flag_defs)

lemma has_remote_pending [flag_simps]:
  "state_has s HTLC_REMOTE_F_PENDING \<longleftrightarrow> s \<in>
     {SENT_ADD_HTLC, SENT_REMOVE_REVOCATION, SENT_ADD_REVOCATION,
      SENT_REMOVE_HTLC}"
  by (cases s) (simp_all add: state_has_def htlc_state_flags_def flag_defs)

lemma has_local_committed [flag_simps]:
  "state_has s HTLC_LOCAL_F_COMMITTED \<longleftrightarrow> s \<in>
     {RCVD_ADD_ACK_COMMIT, SENT_ADD_ACK_REVOCATION, RCVD_REMOVE_HTLC,
      RCVD_ADD_COMMIT, SENT_ADD_REVOCATION, SENT_ADD_ACK_COMMIT,
      RCVD_ADD_ACK_REVOCATION, SENT_REMOVE_HTLC, SENT_REMOVE_COMMIT,
      RCVD_REMOVE_REVOCATION}"
  by (cases s) (simp_all add: state_has_def htlc_state_flags_def flag_defs)

lemma has_remote_committed [flag_simps]:
  "state_has s HTLC_REMOTE_F_COMMITTED \<longleftrightarrow> s \<in>
     {SENT_ADD_COMMIT, RCVD_ADD_REVOCATION, RCVD_ADD_ACK_COMMIT,
      SENT_ADD_ACK_REVOCATION, RCVD_REMOVE_HTLC, RCVD_REMOVE_COMMIT,
      SENT_REMOVE_REVOCATION, SENT_ADD_ACK_COMMIT, RCVD_ADD_ACK_REVOCATION,
      SENT_REMOVE_HTLC}"
  by (cases s) (simp_all add: state_has_def htlc_state_flags_def flag_defs)

lemma has_local_revoked [flag_simps]:
  "state_has s HTLC_LOCAL_F_REVOKED \<longleftrightarrow> s \<in>
     {SENT_ADD_ACK_REVOCATION, SENT_REMOVE_REVOCATION, SENT_REMOVE_ACK_COMMIT,
      RCVD_REMOVE_ACK_REVOCATION, SENT_ADD_REVOCATION, SENT_ADD_ACK_COMMIT,
      RCVD_ADD_ACK_REVOCATION, SENT_REMOVE_ACK_REVOCATION}"
  by (cases s) (simp_all add: state_has_def htlc_state_flags_def flag_defs)

lemma has_remote_revoked [flag_simps]:
  "state_has s HTLC_REMOTE_F_REVOKED \<longleftrightarrow> s \<in>
     {RCVD_ADD_REVOCATION, RCVD_ADD_ACK_COMMIT, SENT_ADD_ACK_REVOCATION,
      RCVD_REMOVE_ACK_REVOCATION, RCVD_ADD_ACK_REVOCATION, RCVD_REMOVE_REVOCATION,
      RCVD_REMOVE_ACK_COMMIT, SENT_REMOVE_ACK_REVOCATION}"
  by (cases s) (simp_all add: state_has_def htlc_state_flags_def flag_defs)

lemma has_local_owner [flag_simps]:
  "state_has s HTLC_LOCAL_F_OWNER \<longleftrightarrow> s \<in>
     {SENT_ADD_HTLC, SENT_ADD_COMMIT, RCVD_ADD_REVOCATION,
      RCVD_ADD_ACK_COMMIT, SENT_ADD_ACK_REVOCATION, RCVD_REMOVE_HTLC,
      RCVD_REMOVE_COMMIT, SENT_REMOVE_REVOCATION, SENT_REMOVE_ACK_COMMIT,
      RCVD_REMOVE_ACK_REVOCATION}"
  by (cases s) (simp_all add: state_has_def htlc_state_flags_def flag_defs)

lemma has_remote_owner [flag_simps]:
  "state_has s HTLC_REMOTE_F_OWNER \<longleftrightarrow> s \<in>
     {RCVD_ADD_HTLC, RCVD_ADD_COMMIT, SENT_ADD_REVOCATION,
      SENT_ADD_ACK_COMMIT, RCVD_ADD_ACK_REVOCATION, SENT_REMOVE_HTLC,
      SENT_REMOVE_COMMIT, RCVD_REMOVE_REVOCATION, RCVD_REMOVE_ACK_COMMIT,
      SENT_REMOVE_ACK_REVOCATION}"
  by (cases s) (simp_all add: state_has_def htlc_state_flags_def flag_defs)

lemma has_local_was_committed [flag_simps]:
  "state_has s HTLC_LOCAL_F_WAS_COMMITTED \<longleftrightarrow> s \<in>
     {RCVD_ADD_ACK_COMMIT, SENT_ADD_ACK_REVOCATION, RCVD_REMOVE_HTLC,
      RCVD_REMOVE_COMMIT, SENT_REMOVE_REVOCATION, SENT_REMOVE_ACK_COMMIT,
      RCVD_REMOVE_ACK_REVOCATION, RCVD_ADD_COMMIT, SENT_ADD_REVOCATION,
      SENT_ADD_ACK_COMMIT, RCVD_ADD_ACK_REVOCATION, SENT_REMOVE_HTLC,
      SENT_REMOVE_COMMIT, RCVD_REMOVE_REVOCATION, RCVD_REMOVE_ACK_COMMIT,
      SENT_REMOVE_ACK_REVOCATION}"
  by (cases s) (simp_all add: state_has_def htlc_state_flags_def flag_defs)

lemma has_remote_was_committed [flag_simps]:
  "state_has s HTLC_REMOTE_F_WAS_COMMITTED \<longleftrightarrow> s \<in>
     {SENT_ADD_COMMIT, RCVD_ADD_REVOCATION, RCVD_ADD_ACK_COMMIT,
      SENT_ADD_ACK_REVOCATION, RCVD_REMOVE_HTLC, RCVD_REMOVE_COMMIT,
      SENT_REMOVE_REVOCATION, SENT_REMOVE_ACK_COMMIT, RCVD_REMOVE_ACK_REVOCATION,
      SENT_ADD_ACK_COMMIT, RCVD_ADD_ACK_REVOCATION, SENT_REMOVE_HTLC,
      SENT_REMOVE_COMMIT, RCVD_REMOVE_REVOCATION, RCVD_REMOVE_ACK_COMMIT,
      SENT_REMOVE_ACK_REVOCATION}"
  by (cases s) (simp_all add: state_has_def htlc_state_flags_def flag_defs)

lemma has_local_will_send [flag_simps]:
  "state_has s HTLC_LOCAL_F_WILL_SEND \<longleftrightarrow> s \<in>
     {SENT_ADD_HTLC, SENT_ADD_COMMIT, RCVD_ADD_REVOCATION,
      RCVD_ADD_ACK_COMMIT, RCVD_REMOVE_HTLC, RCVD_REMOVE_COMMIT,
      SENT_REMOVE_REVOCATION, RCVD_ADD_HTLC, RCVD_ADD_COMMIT,
      SENT_ADD_REVOCATION, SENT_REMOVE_HTLC, SENT_REMOVE_COMMIT,
      RCVD_REMOVE_REVOCATION, RCVD_REMOVE_ACK_COMMIT}"
  by (cases s) (simp_all add: state_has_def htlc_state_flags_def flag_defs)

lemma has_remote_will_send [flag_simps]:
  "state_has s HTLC_REMOTE_F_WILL_SEND \<longleftrightarrow> s \<in>
     {SENT_ADD_HTLC, SENT_ADD_COMMIT, RCVD_ADD_REVOCATION,
      RCVD_REMOVE_HTLC, RCVD_REMOVE_COMMIT, SENT_REMOVE_REVOCATION,
      SENT_REMOVE_ACK_COMMIT, RCVD_ADD_HTLC, RCVD_ADD_COMMIT,
      SENT_ADD_REVOCATION, SENT_ADD_ACK_COMMIT, SENT_REMOVE_HTLC,
      SENT_REMOVE_COMMIT, RCVD_REMOVE_REVOCATION}"
  by (cases s) (simp_all add: state_has_def htlc_state_flags_def flag_defs)

lemma has_adding [flag_simps]:
  "state_has s HTLC_ADDING \<longleftrightarrow> s \<in>
     {SENT_ADD_HTLC, SENT_ADD_COMMIT, RCVD_ADD_REVOCATION,
      RCVD_ADD_ACK_COMMIT, RCVD_ADD_HTLC, RCVD_ADD_COMMIT,
      SENT_ADD_REVOCATION, SENT_ADD_ACK_COMMIT}"
  by (cases s) (simp_all add: state_has_def htlc_state_flags_def flag_defs)

lemma has_removing [flag_simps]:
  "state_has s HTLC_REMOVING \<longleftrightarrow> s \<in>
     {RCVD_REMOVE_HTLC, RCVD_REMOVE_COMMIT, SENT_REMOVE_REVOCATION,
      SENT_REMOVE_ACK_COMMIT, SENT_REMOVE_HTLC, SENT_REMOVE_COMMIT,
      RCVD_REMOVE_REVOCATION, RCVD_REMOVE_ACK_COMMIT}"
  by (cases s) (simp_all add: state_has_def htlc_state_flags_def flag_defs)

lemma state_has_or [flag_simps]: "state_has s (or f g) \<longleftrightarrow> state_has s f \<or> state_has s g"
  by (simp add: state_has_def bit.conj_disj_distrib or_eq_0_iff)

lemma htlc_state_succ_simps [simp]:
    "htlc_state_succ SENT_ADD_HTLC = Some SENT_ADD_COMMIT"
    "htlc_state_succ SENT_ADD_COMMIT = Some RCVD_ADD_REVOCATION"
    "htlc_state_succ RCVD_ADD_REVOCATION = Some RCVD_ADD_ACK_COMMIT"
    "htlc_state_succ RCVD_ADD_ACK_COMMIT = Some SENT_ADD_ACK_REVOCATION"
    "htlc_state_succ SENT_ADD_ACK_REVOCATION = Some RCVD_REMOVE_HTLC"
    "htlc_state_succ RCVD_REMOVE_HTLC = Some RCVD_REMOVE_COMMIT"
    "htlc_state_succ RCVD_REMOVE_COMMIT = Some SENT_REMOVE_REVOCATION"
    "htlc_state_succ SENT_REMOVE_REVOCATION = Some SENT_REMOVE_ACK_COMMIT"
    "htlc_state_succ SENT_REMOVE_ACK_COMMIT = Some RCVD_REMOVE_ACK_REVOCATION"
    "htlc_state_succ RCVD_REMOVE_ACK_REVOCATION = Some RCVD_ADD_HTLC"
    "htlc_state_succ RCVD_ADD_HTLC = Some RCVD_ADD_COMMIT"
    "htlc_state_succ RCVD_ADD_COMMIT = Some SENT_ADD_REVOCATION"
    "htlc_state_succ SENT_ADD_REVOCATION = Some SENT_ADD_ACK_COMMIT"
    "htlc_state_succ SENT_ADD_ACK_COMMIT = Some RCVD_ADD_ACK_REVOCATION"
    "htlc_state_succ RCVD_ADD_ACK_REVOCATION = Some SENT_REMOVE_HTLC"
    "htlc_state_succ SENT_REMOVE_HTLC = Some SENT_REMOVE_COMMIT"
    "htlc_state_succ SENT_REMOVE_COMMIT = Some RCVD_REMOVE_REVOCATION"
    "htlc_state_succ RCVD_REMOVE_REVOCATION = Some RCVD_REMOVE_ACK_COMMIT"
    "htlc_state_succ RCVD_REMOVE_ACK_COMMIT = Some SENT_REMOVE_ACK_REVOCATION"
    "htlc_state_succ SENT_REMOVE_ACK_REVOCATION = None"
  by (simp_all add: htlc_state_succ_def all_htlc_states_def)

lemma all_htlc_states_UNIV [simp]: "set all_htlc_states = UNIV"
proof -
  have "s \<in> set all_htlc_states" for s
    by (cases s) (simp_all add: all_htlc_states_def)
  then show ?thesis by auto
qed

lemma other_other [simp]: "other (other x) = x"
  by (cases x) simp_all

lemma other_neq [simp]: "other x \<noteq> x" "x \<noteq> other x"
  by (cases x; simp)+

lemma neq_side_iff: "x \<noteq> y \<longleftrightarrow> x = other y"
  by (cases x; cases y) simp_all

section \<open>The life of an HTLC\<close>

text \<open>
  The same HTLC as the peer sees it: what one side sent the other received, so the peer's state is
  ten further in the table, or ten back.
\<close>

definition mirror_state :: "htlc_state \<Rightarrow> htlc_state" where
  "mirror_state s = all_htlc_states ! ((htlc_state_index s + 10) mod 20)"

lemma mirror_state_simps [simp]:
    "mirror_state SENT_ADD_HTLC = RCVD_ADD_HTLC"
    "mirror_state SENT_ADD_COMMIT = RCVD_ADD_COMMIT"
    "mirror_state RCVD_ADD_REVOCATION = SENT_ADD_REVOCATION"
    "mirror_state RCVD_ADD_ACK_COMMIT = SENT_ADD_ACK_COMMIT"
    "mirror_state SENT_ADD_ACK_REVOCATION = RCVD_ADD_ACK_REVOCATION"
    "mirror_state RCVD_REMOVE_HTLC = SENT_REMOVE_HTLC"
    "mirror_state RCVD_REMOVE_COMMIT = SENT_REMOVE_COMMIT"
    "mirror_state SENT_REMOVE_REVOCATION = RCVD_REMOVE_REVOCATION"
    "mirror_state SENT_REMOVE_ACK_COMMIT = RCVD_REMOVE_ACK_COMMIT"
    "mirror_state RCVD_REMOVE_ACK_REVOCATION = SENT_REMOVE_ACK_REVOCATION"
    "mirror_state RCVD_ADD_HTLC = SENT_ADD_HTLC"
    "mirror_state RCVD_ADD_COMMIT = SENT_ADD_COMMIT"
    "mirror_state SENT_ADD_REVOCATION = RCVD_ADD_REVOCATION"
    "mirror_state SENT_ADD_ACK_COMMIT = RCVD_ADD_ACK_COMMIT"
    "mirror_state RCVD_ADD_ACK_REVOCATION = SENT_ADD_ACK_REVOCATION"
    "mirror_state SENT_REMOVE_HTLC = RCVD_REMOVE_HTLC"
    "mirror_state SENT_REMOVE_COMMIT = RCVD_REMOVE_COMMIT"
    "mirror_state RCVD_REMOVE_REVOCATION = SENT_REMOVE_REVOCATION"
    "mirror_state RCVD_REMOVE_ACK_COMMIT = SENT_REMOVE_ACK_COMMIT"
    "mirror_state SENT_REMOVE_ACK_REVOCATION = RCVD_REMOVE_ACK_REVOCATION"
  by (simp_all add: mirror_state_def all_htlc_states_def)

lemma mirror_mirror [simp]: "mirror_state (mirror_state s) = s"
  by (cases s) simp_all

lemma mirror_owner [simp]: "htlc_state_owner (mirror_state s) = other (htlc_state_owner s)"
  by (cases s) (simp_all add: htlc_state_owner_def state_lt_iff)

text \<open>
  The table is symmetric: a flag of one side in a state is the same flag of the other side in
  the peer's state for the same HTLC, and whether the HTLC is being added or removed is the same
  for both. Two peers that move the same HTLC in step agree on whose commitment transactions it is
  in.
\<close>

theorem htlc_flags_mirror:
  "\<forall>f \<in> {HTLC_F_PENDING, HTLC_F_COMMITTED, HTLC_F_REVOKED, HTLC_F_OWNER,
         HTLC_F_WAS_COMMITTED, HTLC_F_WILL_SEND}.
     state_has (mirror_state s) (HTLC_FLAG side f) = state_has s (HTLC_FLAG (other side) f)"
  by (cases side; cases s) (simp_all add: flag_simps)

theorem htlc_flags_mirror_witness:
  "state_has (mirror_state SENT_ADD_COMMIT) (HTLC_FLAG LOCAL HTLC_F_COMMITTED)
     = state_has SENT_ADD_COMMIT (HTLC_FLAG REMOTE HTLC_F_COMMITTED)"
  using htlc_flags_mirror [of SENT_ADD_COMMIT LOCAL] by simp

text \<open>Position of a state in the life of its HTLC, from 0 (offered) to 9 (gone).\<close>

definition life_pos :: "htlc_state \<Rightarrow> nat" where
  "life_pos s = htlc_state_index s mod 10"

lemma ex_state_iff: "(\<exists>t. P t) \<longleftrightarrow> list_ex P all_htlc_states"
  by (simp add: list_ex_iff)

lemma state_owner_iff [flag_simps]: "htlc_state_owner s = LOCAL \<longleftrightarrow> htlc_state_index s < 10"
    "htlc_state_owner s = REMOTE \<longleftrightarrow> 10 \<le> htlc_state_index s"
  by (simp_all add: htlc_state_owner_def state_lt_iff)

lemma committed_positions:
  "state_has s (HTLC_FLAG (other (htlc_state_owner s)) HTLC_F_COMMITTED) \<longleftrightarrow> life_pos s \<in> {1..7}"
  "state_has s (HTLC_FLAG (htlc_state_owner s) HTLC_F_COMMITTED) \<longleftrightarrow> life_pos s \<in> {3..5}"
  by (cases s; simp add: htlc_state_owner_def state_lt_iff flag_simps life_pos_def)+

lemma committed_changes:
  assumes "htlc_state_succ s = Some t" "htlc_state_owner t = htlc_state_owner s"
  shows "(state_has t (HTLC_FLAG side HTLC_F_COMMITTED)
            \<noteq> state_has s (HTLC_FLAG side HTLC_F_COMMITTED))
         \<longleftrightarrow> state_has s (HTLC_FLAG side HTLC_F_PENDING)"
  using assms
  by (cases s; cases side) (auto simp add: htlc_state_owner_def state_lt_iff flag_simps)

lemma was_committed_iff:
  "state_has s (HTLC_FLAG side HTLC_F_WAS_COMMITTED) \<longleftrightarrow>
     (\<exists>t. t \<le> s \<and> htlc_state_owner t = htlc_state_owner s
        \<and> state_has t (HTLC_FLAG side HTLC_F_COMMITTED))"
  unfolding ex_state_iff
  by (cases side; cases s)
    (simp_all add: all_htlc_states_def flag_simps htlc_state_owner_def state_lt_iff state_le_iff)

text \<open>
  The life of an HTLC as the flags tell it. It is in the receiving side's commitment from the
  second state to the eighth and in the offering side's from the fourth to the sixth, so a side
  that could claim it on chain always has it in its commitment while the offerer can still lose
  it; a side's commitment changes exactly in the step that leaves a state where a change is
  pending for that side; and an HTLC that was ever committed stays marked so until it is gone.
\<close>

theorem htlc_life_cycle:
  fixes s :: htlc_state
  defines "own \<equiv> htlc_state_owner s"
  shows "(state_has s (HTLC_FLAG (other own) HTLC_F_COMMITTED) \<longleftrightarrow> life_pos s \<in> {1..7})
       \<and> (state_has s (HTLC_FLAG own HTLC_F_COMMITTED) \<longleftrightarrow> life_pos s \<in> {3..5})
       \<and> (\<forall>side t. htlc_state_succ s = Some t \<longrightarrow> htlc_state_owner t = own \<longrightarrow>
            ((state_has t (HTLC_FLAG side HTLC_F_COMMITTED)
                \<noteq> state_has s (HTLC_FLAG side HTLC_F_COMMITTED))
             \<longleftrightarrow> state_has s (HTLC_FLAG side HTLC_F_PENDING)))
       \<and> (\<forall>side. state_has s (HTLC_FLAG side HTLC_F_WAS_COMMITTED) \<longleftrightarrow>
            (\<exists>t. t \<le> s \<and> htlc_state_owner t = own \<and> state_has t (HTLC_FLAG side HTLC_F_COMMITTED)))"
  unfolding own_def
  by (intro conjI allI impI committed_positions committed_changes was_committed_iff)

theorem htlc_life_cycle_witness:
  "state_has RCVD_REMOVE_COMMIT HTLC_LOCAL_F_COMMITTED
     \<noteq> state_has RCVD_REMOVE_HTLC HTLC_LOCAL_F_COMMITTED"
  using htlc_life_cycle [of RCVD_REMOVE_HTLC] by (simp add: flag_simps)

end
