(* ===== verification/FeeStates.thy ===== *)
theory FeeStates
  imports HtlcStates
begin

text \<open>
  Feerate and blockheight updates in flight: \<^verbatim>\<open>common/fee_states.c\<close> and
  \<^verbatim>\<open>common/blockheight_states.c\<close>. Both keep one optional value per HTLC state and move it through
  the states of an HTLC being added; an array of pointers is a function from states to options.

  The contract the two share is the locale \<open>staged_update\<close>, with its consequences proved once, and
  interpreted for each of them. \<^verbatim>\<open>marginal_feerate\<close>, on \<^verbatim>\<open>double\<close>, is not modelled.
\<close>

section \<open>The operations\<close>

type_synonym slots = "htlc_state \<Rightarrow> u32 option"

record fee_states =
  feerate :: slots

record height_states =
  height :: slots

subsection \<open>\<^verbatim>\<open>common/fee_states.c\<close>\<close>

definition first_fee_state :: "side \<Rightarrow> htlc_state" where
  "first_fee_state opener = (if opener = LOCAL then SENT_ADD_HTLC else RCVD_ADD_HTLC)"

definition last_fee_state :: "side \<Rightarrow> htlc_state" where
  "last_fee_state opener =
     (if opener = LOCAL then SENT_ADD_ACK_REVOCATION else RCVD_ADD_ACK_REVOCATION)"

definition new_fee_states :: "side \<Rightarrow> u32 option \<Rightarrow> fee_states" where
  "new_fee_states opener feerate_per_kw =
     \<lparr>feerate = (\<lambda>_. None)(last_fee_state opener := feerate_per_kw)\<rparr>"

text \<open>\<^verbatim>\<open>dup_fee_states\<close> copies every slot: the copy of a value is the value.\<close>

definition dup_fee_states :: "fee_states \<Rightarrow> fee_states" where
  "dup_fee_states fs = \<lparr>feerate = feerate fs\<rparr>"

text \<open>The states the loops run over, from the first to the last one of the opener's updates.\<close>

definition fee_state_range :: "side \<Rightarrow> htlc_state list" where
  "fee_state_range opener =
     filter (\<lambda>i. first_fee_state opener \<le> i \<and> i \<le> last_fee_state opener) all_htlc_states"

fun first_committed :: "slots \<Rightarrow> side \<Rightarrow> htlc_state list \<Rightarrow> u32 run" where
  "first_committed sl side [] = None"
| "first_committed sl side (i # is) =
     (case sl i of
        None \<Rightarrow> first_committed sl side is
      | Some v \<Rightarrow> if state_has i (HTLC_FLAG side HTLC_F_COMMITTED) then Some v
                 else first_committed sl side is)"

definition get_feerate :: "fee_states \<Rightarrow> side \<Rightarrow> side \<Rightarrow> u32 run" where
  "get_feerate fs opener side = first_committed (feerate fs) side (fee_state_range opener)"

definition num_set :: "slots \<Rightarrow> bool \<Rightarrow> nat" where
  "num_set sl ignore_uncommitted =
     length (filter (\<lambda>i. \<not> (ignore_uncommitted \<and> (i = RCVD_ADD_HTLC \<or> i = SENT_ADD_HTLC))
                        \<and> sl i \<noteq> None) all_htlc_states)"

definition feerate_changes_done :: "fee_states \<Rightarrow> bool \<Rightarrow> bool" where
  "feerate_changes_done fs ignore_uncommitted \<longleftrightarrow> num_set (feerate fs) ignore_uncommitted = 1"

definition start_fee_update :: "fee_states \<Rightarrow> side \<Rightarrow> u32 \<Rightarrow> fee_states" where
  "start_fee_update fs opener feerate_per_kw =
     fs\<lparr>feerate := (feerate fs)(first_fee_state opener := Some feerate_per_kw)\<rparr>"

text \<open>The outer \<open>None\<close> is the failed assertion that \<open>hstate\<close> is an adding state.\<close>

definition inc_fee_state :: "fee_states \<Rightarrow> htlc_state \<Rightarrow> (bool \<times> fee_states) run" where
  "inc_fee_state fs hstate =
     (if \<not> state_has hstate HTLC_ADDING then None
      else if feerate fs hstate = None then Some (False, fs)
      else do { next \<leftarrow> htlc_state_succ hstate;
                Some (True, fs\<lparr>feerate := (feerate fs)(next := feerate fs hstate, hstate := None)\<rparr>) })"

definition fee_states_valid :: "fee_states \<Rightarrow> side \<Rightarrow> bool" where
  "fee_states_valid fs opener \<longleftrightarrow> feerate fs (last_fee_state opener) \<noteq> None"

subsection \<open>\<^verbatim>\<open>common/blockheight_states.c\<close>\<close>

definition new_height_states :: "side \<Rightarrow> u32 option \<Rightarrow> height_states" where
  "new_height_states opener blockheight =
     \<lparr>height = (\<lambda>_. None)(last_fee_state opener := blockheight)\<rparr>"

definition dup_height_states :: "height_states \<Rightarrow> height_states" where
  "dup_height_states hs = \<lparr>height = height hs\<rparr>"

definition get_blockheight :: "height_states \<Rightarrow> side \<Rightarrow> side \<Rightarrow> u32 run" where
  "get_blockheight hs opener side = first_committed (height hs) side (fee_state_range opener)"

definition start_height_update :: "height_states \<Rightarrow> side \<Rightarrow> u32 \<Rightarrow> height_states" where
  "start_height_update hs opener blockheight =
     hs\<lparr>height := (height hs)(first_fee_state opener := Some blockheight)\<rparr>"

definition blockheight_changes_done :: "height_states \<Rightarrow> bool \<Rightarrow> bool" where
  "blockheight_changes_done hs ignore_uncommitted \<longleftrightarrow> num_set (height hs) ignore_uncommitted = 1"

definition inc_height_state :: "height_states \<Rightarrow> htlc_state \<Rightarrow> (bool \<times> height_states) run" where
  "inc_height_state hs hstate =
     (if \<not> state_has hstate HTLC_ADDING then None
      else if height hs hstate = None then Some (False, hs)
      else do { next \<leftarrow> htlc_state_succ hstate;
                Some (True, hs\<lparr>height := (height hs)(next := height hs hstate, hstate := None)\<rparr>) })"

definition height_states_valid :: "height_states \<Rightarrow> side \<Rightarrow> bool" where
  "height_states_valid hs opener \<longleftrightarrow> height hs (last_fee_state opener) \<noteq> None"

section \<open>What the two share\<close>

lemma fee_state_range_simps [simp]:
  "fee_state_range LOCAL =
     [SENT_ADD_HTLC, SENT_ADD_COMMIT, RCVD_ADD_REVOCATION, RCVD_ADD_ACK_COMMIT, SENT_ADD_ACK_REVOCATION]"
  "fee_state_range REMOTE =
     [RCVD_ADD_HTLC, RCVD_ADD_COMMIT, SENT_ADD_REVOCATION, SENT_ADD_ACK_COMMIT, RCVD_ADD_ACK_REVOCATION]"
  by (simp_all add: fee_state_range_def all_htlc_states_def first_fee_state_def last_fee_state_def
      state_le_iff)

lemma fee_state_ends [simp]:
  "first_fee_state LOCAL = SENT_ADD_HTLC" "first_fee_state REMOTE = RCVD_ADD_HTLC"
  "last_fee_state LOCAL = SENT_ADD_ACK_REVOCATION" "last_fee_state REMOTE = RCVD_ADD_ACK_REVOCATION"
  by (simp_all add: first_fee_state_def last_fee_state_def)

lemma first_committed_last:
  assumes "sl (last_fee_state opener) \<noteq> None"
  shows "first_committed sl side (fee_state_range opener) \<noteq> None"
  using assms by (cases opener; cases side) (auto simp: flag_simps split: option.splits)

lemma first_committed_start:
  "first_committed (sl(first_fee_state opener := v)) side (fee_state_range opener)
     = first_committed sl side (fee_state_range opener)"
  by (cases opener; cases side; cases v) (auto simp: flag_simps split: option.splits)

text \<open>
  The contract: \<open>slot st\<close> is the array, \<open>start\<close> puts a value into the first state of the opener,
  \<open>inc\<close> moves the value of one adding state to the next, and \<open>get\<close> reads the first value committed
  to a side.
\<close>

locale staged_update =
  fixes slot :: "'st \<Rightarrow> slots"
    and start :: "'st \<Rightarrow> side \<Rightarrow> u32 \<Rightarrow> 'st"
    and inc :: "'st \<Rightarrow> htlc_state \<Rightarrow> (bool \<times> 'st) option"
    and get :: "'st \<Rightarrow> side \<Rightarrow> side \<Rightarrow> u32 option"
    and settled :: "'st \<Rightarrow> bool \<Rightarrow> bool"
  assumes slot_start: "slot (start st opener v) = (slot st)(first_fee_state opener := Some v)"
    and inc_stops: "inc st s = None \<longleftrightarrow> \<not> state_has s HTLC_ADDING"
    and inc_empty: "inc st s = Some (b, st') \<Longrightarrow> slot st s = None \<Longrightarrow> \<not> b \<and> st' = st"
    and inc_moves: "inc st s = Some (b, st') \<Longrightarrow> slot st s \<noteq> None \<Longrightarrow> htlc_state_succ s = Some t
         \<Longrightarrow> b \<and> slot st' = (slot st)(t := slot st s, s := None)"
    and get_first: "get st opener side = first_committed (slot st) side (fee_state_range opener)"
    and settled_one: "settled st ign \<longleftrightarrow> num_set (slot st) ign = 1"
begin

definition ready :: "'st \<Rightarrow> side \<Rightarrow> bool" where
  "ready st opener \<longleftrightarrow> slot st (last_fee_state opener) \<noteq> None"

definition quiet :: "'st \<Rightarrow> side \<Rightarrow> bool" where
  "quiet st opener \<longleftrightarrow> ready st opener \<and> (\<forall>s. s \<noteq> last_fee_state opener \<longrightarrow> slot st s = None)"

lemma get_returns: "ready st opener \<Longrightarrow> get st opener side \<noteq> None"
  by (simp add: ready_def get_first first_committed_last)

lemma ready_start: "ready st opener \<Longrightarrow> ready (start st o2 v) opener"
  by (cases opener; cases o2) (auto simp: ready_def slot_start)

lemma ready_inc:
  assumes "ready st opener" "inc st s = Some (b, st')"
  shows "ready st' opener"
proof (cases "slot st s")
  case None
  then show ?thesis using inc_empty [OF assms(2)] assms(1) by simp
next
  case (Some v)
  have "state_has s HTLC_ADDING" using assms(2) inc_stops [of st s] by fastforce
  then obtain t where t: "htlc_state_succ s = Some t" and "s \<noteq> last_fee_state opener"
    by (cases s; cases opener) (auto simp: flag_simps)
  then show ?thesis using inc_moves [OF assms(2) _ t] Some assms(1) by (auto simp: ready_def)
qed

lemma start_keeps_current: "get (start st opener v) opener side = get st opener side"
  by (simp add: get_first slot_start first_committed_start)

text \<open>A started update overrides one that no commitment has picked up yet.\<close>

lemma start_start: "slot (start (start st opener v) opener w) = slot (start st opener w)"
  by (simp add: slot_start)

lemma inc_exact:
  assumes "state_has s HTLC_ADDING" "htlc_state_succ s = Some t" "slot st s = Some v"
  shows "\<exists>st'. inc st s = Some (True, st') \<and> slot st' = (slot st)(t := Some v, s := None)"
proof -
  obtain b st' where i: "inc st s = Some (b, st')"
    using assms(1) inc_stops [of st s] by (cases "inc st s") auto
  then show ?thesis using inc_moves [OF i _ assms(2)] assms(3) by auto
qed

lemma dance:
  assumes q: "quiet st opener"
    and s: "fee_state_range opener = [s0, s1, s2, s3, s4]"
  shows "\<exists>st1 st2 st3 st4.
     inc (start st opener v) s0 = Some (True, st1) \<and> inc st1 s1 = Some (True, st2)
   \<and> inc st2 s2 = Some (True, st3) \<and> inc st3 s3 = Some (True, st4)
   \<and> get (start st opener v) opener opener = get st opener opener
   \<and> get (start st opener v) opener (other opener) = get st opener (other opener)
   \<and> get st1 opener opener = get st opener opener \<and> get st1 opener (other opener) = Some v
   \<and> get st2 opener opener = get st opener opener \<and> get st2 opener (other opener) = Some v
   \<and> get st3 opener opener = Some v \<and> get st3 opener (other opener) = Some v
   \<and> get st4 opener opener = Some v \<and> get st4 opener (other opener) = Some v
   \<and> quiet st4 opener \<and> settled st4 False"
proof -
  have st: "state_has s0 HTLC_ADDING" "state_has s1 HTLC_ADDING" "state_has s2 HTLC_ADDING"
      "state_has s3 HTLC_ADDING" "htlc_state_succ s0 = Some s1" "htlc_state_succ s1 = Some s2"
      "htlc_state_succ s2 = Some s3" "htlc_state_succ s3 = Some s4"
      "first_fee_state opener = s0" "last_fee_state opener = s4"
    using s by (cases opener; auto simp: flag_simps)+
  have dist: "distinct [s0, s1, s2, s3, s4]" using s by (cases opener) auto
  obtain old where sl: "slot st = (\<lambda>_. None)(s4 := Some old)"
    using q by (auto simp: quiet_def ready_def st fun_eq_iff)
  obtain st1 where i1: "inc (start st opener v) s0 = Some (True, st1)"
      and sl1: "slot st1 = (\<lambda>_. None)(s4 := Some old, s1 := Some v)"
    using inc_exact [OF st(1) st(5), of "start st opener v" v] dist
    by (auto simp: slot_start st sl fun_eq_iff)
  obtain st2 where i2: "inc st1 s1 = Some (True, st2)"
      and sl2: "slot st2 = (\<lambda>_. None)(s4 := Some old, s2 := Some v)"
    using inc_exact [OF st(2) st(6), of st1 v] dist sl1 by (auto simp: fun_eq_iff)
  obtain st3 where i3: "inc st2 s2 = Some (True, st3)"
      and sl3: "slot st3 = (\<lambda>_. None)(s4 := Some old, s3 := Some v)"
    using inc_exact [OF st(3) st(7), of st2 v] dist sl2 by (auto simp: fun_eq_iff)
  obtain st4 where i4: "inc st3 s3 = Some (True, st4)"
      and sl4: "slot st4 = (\<lambda>_. None)(s4 := Some v)"
    using inc_exact [OF st(4) st(8), of st3 v] dist sl3 by (auto simp: fun_eq_iff)
  have g: "get st opener side = Some old" for side
    using s by (cases opener; cases side) (auto simp: get_first sl flag_simps)
  have g1: "get st1 opener opener = Some old" "get st1 opener (other opener) = Some v"
    and g2: "get st2 opener opener = Some old" "get st2 opener (other opener) = Some v"
    using s by (cases opener; auto simp: get_first sl1 sl2 flag_simps)+
  have g3: "get st3 opener side = Some v" "get st4 opener side = Some v" for side
    using s by (cases opener; cases side; auto simp: get_first sl3 sl4 flag_simps)+
  have "quiet st4 opener" by (simp add: quiet_def ready_def sl4 st)
  moreover have "settled st4 False"
    using s by (cases opener) (auto simp: settled_one num_set_def sl4 all_htlc_states_def)
  ultimately show ?thesis
    using i1 i2 i3 i4 g g1 g2 g3 by (auto simp: start_keeps_current)
qed

end

interpretation fee_upd: staged_update feerate start_fee_update inc_fee_state get_feerate feerate_changes_done
proof
  fix st s b and st' :: fee_states
  show "inc_fee_state st s = None \<longleftrightarrow> \<not> state_has s HTLC_ADDING"
    by (cases s) (auto simp: inc_fee_state_def flag_simps)
qed (auto simp: start_fee_update_def inc_fee_state_def get_feerate_def feerate_changes_done_def
    split: if_splits)

interpretation height_upd: staged_update height start_height_update inc_height_state get_blockheight
  blockheight_changes_done
proof
  fix st s b and st' :: height_states
  show "inc_height_state st s = None \<longleftrightarrow> \<not> state_has s HTLC_ADDING"
    by (cases s) (auto simp: inc_height_state_def flag_simps)
qed (auto simp: start_height_update_def inc_height_state_def get_blockheight_def
    blockheight_changes_done_def split: if_splits)

text \<open>
  A feerate update started by the opener on a quiet channel reaches both commitments in the
  order of the protocol: starting it changes neither side's current feerate, the first commitment
  gives it to the peer, the acknowledging one to the opener, and after the last revocation it is
  the only feerate left. The same holds of the blockheight updates of a leased channel.
\<close>

theorem fee_update_reaches_both:
  assumes "fee_states_valid fs opener"
    and "\<forall>s. s \<noteq> last_fee_state opener \<longrightarrow> feerate fs s = None"
    and "fee_state_range opener = [s0, s1, s2, s3, s4]"
  shows "\<exists>f1 f2 f3 f4.
     inc_fee_state (start_fee_update fs opener v) s0 = Some (True, f1)
   \<and> inc_fee_state f1 s1 = Some (True, f2)
   \<and> inc_fee_state f2 s2 = Some (True, f3)
   \<and> inc_fee_state f3 s3 = Some (True, f4)
   \<and> get_feerate (start_fee_update fs opener v) opener (other opener) = get_feerate fs opener (other opener)
   \<and> get_feerate f1 opener (other opener) = Some v \<and> get_feerate f1 opener opener = get_feerate fs opener opener
   \<and> get_feerate f2 opener opener = get_feerate fs opener opener
   \<and> get_feerate f3 opener (other opener) = Some v \<and> get_feerate f3 opener opener = Some v
   \<and> get_feerate f4 opener (other opener) = Some v \<and> get_feerate f4 opener opener = Some v
   \<and> feerate_changes_done f4 False"
proof -
  have "fee_upd.quiet fs opener"
    using assms(1,2) by (simp add: fee_upd.quiet_def fee_upd.ready_def fee_states_valid_def)
  from fee_upd.dance [OF this assms(3), of v] show ?thesis by blast
qed

theorem fee_update_reaches_both_witness:
  "\<exists>f1 f2 f3 f4.
     inc_fee_state (start_fee_update (new_fee_states LOCAL (Some 253)) LOCAL 1000) SENT_ADD_HTLC
       = Some (True, f1)
   \<and> inc_fee_state f1 SENT_ADD_COMMIT = Some (True, f2)
   \<and> inc_fee_state f2 RCVD_ADD_REVOCATION = Some (True, f3)
   \<and> inc_fee_state f3 RCVD_ADD_ACK_COMMIT = Some (True, f4)
   \<and> get_feerate f4 LOCAL REMOTE = Some 1000 \<and> get_feerate f4 LOCAL LOCAL = Some 1000"
  using fee_update_reaches_both [of "new_fee_states LOCAL (Some 253)" LOCAL
      SENT_ADD_HTLC SENT_ADD_COMMIT RCVD_ADD_REVOCATION RCVD_ADD_ACK_COMMIT SENT_ADD_ACK_REVOCATION 1000]
  by (auto simp: new_fee_states_def fee_states_valid_def)

end
