(* ===== verification/Features.thy ===== *)
theory Features
  imports FeeStates
begin

text \<open>
  Feature bitfields and channel types: \<^verbatim>\<open>common/features.c\<close> and \<^verbatim>\<open>common/channel_type.c\<close>. A
  bitfield is a byte list, most significant byte first, as in the messages; a bit number is a
  natural number. Each operation is related to the set of bits a field has (\<open>fbits\<close>).
\<close>

section \<open>The operations\<close>

definition COMPULSORY_FEATURE :: "nat \<Rightarrow> nat" where
  "COMPULSORY_FEATURE x = and x 0xFFFFFFFE"

definition OPTIONAL_FEATURE :: "nat \<Rightarrow> nat" where
  "OPTIONAL_FEATURE x = or x 1"

abbreviation (input) OPT_DATA_LOSS_PROTECT :: nat where "OPT_DATA_LOSS_PROTECT \<equiv> 0"
abbreviation (input) OPT_UPFRONT_SHUTDOWN_SCRIPT :: nat where "OPT_UPFRONT_SHUTDOWN_SCRIPT \<equiv> 4"
abbreviation (input) OPT_GOSSIP_QUERIES :: nat where "OPT_GOSSIP_QUERIES \<equiv> 6"
abbreviation (input) OPT_VAR_ONION :: nat where "OPT_VAR_ONION \<equiv> 8"
abbreviation (input) OPT_GOSSIP_QUERIES_EX :: nat where "OPT_GOSSIP_QUERIES_EX \<equiv> 10"
abbreviation (input) OPT_STATIC_REMOTEKEY :: nat where "OPT_STATIC_REMOTEKEY \<equiv> 12"
abbreviation (input) OPT_PAYMENT_SECRET :: nat where "OPT_PAYMENT_SECRET \<equiv> 14"
abbreviation (input) OPT_BASIC_MPP :: nat where "OPT_BASIC_MPP \<equiv> 16"
abbreviation (input) OPT_LARGE_CHANNELS :: nat where "OPT_LARGE_CHANNELS \<equiv> 18"
abbreviation (input) OPT_ANCHORS_ZERO_FEE_HTLC_TX :: nat where "OPT_ANCHORS_ZERO_FEE_HTLC_TX \<equiv> 22"
abbreviation (input) OPT_ROUTE_BLINDING :: nat where "OPT_ROUTE_BLINDING \<equiv> 24"
abbreviation (input) OPT_SHUTDOWN_ANYSEGWIT :: nat where "OPT_SHUTDOWN_ANYSEGWIT \<equiv> 26"
abbreviation (input) OPT_DUAL_FUND :: nat where "OPT_DUAL_FUND \<equiv> 28"
abbreviation (input) OPT_QUIESCE :: nat where "OPT_QUIESCE \<equiv> 34"
abbreviation (input) OPT_ONION_MESSAGES :: nat where "OPT_ONION_MESSAGES \<equiv> 38"
abbreviation (input) OPT_PROVIDE_STORAGE :: nat where "OPT_PROVIDE_STORAGE \<equiv> 42"
abbreviation (input) OPT_CHANNEL_TYPE :: nat where "OPT_CHANNEL_TYPE \<equiv> 44"
abbreviation (input) OPT_SCID_ALIAS :: nat where "OPT_SCID_ALIAS \<equiv> 46"
abbreviation (input) OPT_PAYMENT_METADATA :: nat where "OPT_PAYMENT_METADATA \<equiv> 48"
abbreviation (input) OPT_ZEROCONF :: nat where "OPT_ZEROCONF \<equiv> 50"
abbreviation (input) OPT_SPLICE :: nat where "OPT_SPLICE \<equiv> 62"
abbreviation (input) OPT_ANCHOR_OUTPUTS_DEPRECATED :: nat where "OPT_ANCHOR_OUTPUTS_DEPRECATED \<equiv> 20"
abbreviation (input) OPT_SHUTDOWN_WRONG_FUNDING :: nat where "OPT_SHUTDOWN_WRONG_FUNDING \<equiv> 104"
abbreviation (input) OPT_SEQ_TAPROOT_COVENANT :: nat where "OPT_SEQ_TAPROOT_COVENANT \<equiv> 172"
abbreviation (input) OPT_SEQ_POINT_LOCKS :: nat where "OPT_SEQ_POINT_LOCKS \<equiv> 174"
abbreviation (input) OPT_SEQ_CREDIT :: nat where "OPT_SEQ_CREDIT \<equiv> 176"
abbreviation (input) OPT_SEQ_SYMMETRIC :: nat where "OPT_SEQ_SYMMETRIC \<equiv> 178"
abbreviation (input) OPT_SEQ_SYMMETRIC_CLOCK :: nat where "OPT_SEQ_SYMMETRIC_CLOCK \<equiv> 180"
abbreviation (input) OPT_SEQ_SYMMETRIC_FACTORY :: nat where "OPT_SEQ_SYMMETRIC_FACTORY \<equiv> 182"
abbreviation (input) OPT_SEQ_SYMMETRIC_LANES :: nat where "OPT_SEQ_SYMMETRIC_LANES \<equiv> 184"

datatype feature_place =
  INIT_FEATURE
  | GLOBAL_INIT_FEATURE
  | NODE_ANNOUNCE_FEATURE
  | CHANNEL_FEATURE
  | BOLT11_FEATURE
  | BOLT12_OFFER_FEATURE
  | BOLT12_INVREQ_FEATURE
  | BOLT12_INVOICE_FEATURE
  | CHANNEL_TYPE_FEATURE

definition feature_places :: "feature_place list" where
  "feature_places =
     [INIT_FEATURE, GLOBAL_INIT_FEATURE, NODE_ANNOUNCE_FEATURE,
      CHANNEL_FEATURE, BOLT11_FEATURE, BOLT12_OFFER_FEATURE,
      BOLT12_INVREQ_FEATURE, BOLT12_INVOICE_FEATURE, CHANNEL_TYPE_FEATURE]"

record feature_set =
  bits :: "feature_place \<Rightarrow> bytes"

datatype feature_copy_style =
  FEATURE_DONT_REPRESENT | FEATURE_REPRESENT | FEATURE_REPRESENT_AS_OPTIONAL

text \<open>An entry lists the places it names; the others are 0, \<open>FEATURE_DONT_REPRESENT\<close>.\<close>

definition feature_styles :: "(nat \<times> (feature_place \<times> feature_copy_style) list) list" where
  "feature_styles =
     [(OPT_DATA_LOSS_PROTECT, [(INIT_FEATURE, FEATURE_REPRESENT),
        (NODE_ANNOUNCE_FEATURE, FEATURE_REPRESENT)]),
      (OPT_UPFRONT_SHUTDOWN_SCRIPT, [(INIT_FEATURE, FEATURE_REPRESENT),
        (NODE_ANNOUNCE_FEATURE, FEATURE_REPRESENT)]),
      (OPT_GOSSIP_QUERIES, [(INIT_FEATURE, FEATURE_REPRESENT),
        (NODE_ANNOUNCE_FEATURE, FEATURE_REPRESENT)]),
      (OPT_GOSSIP_QUERIES_EX, [(INIT_FEATURE, FEATURE_REPRESENT),
        (NODE_ANNOUNCE_FEATURE, FEATURE_REPRESENT)]),
      (OPT_VAR_ONION, [(INIT_FEATURE, FEATURE_REPRESENT),
        (GLOBAL_INIT_FEATURE, FEATURE_REPRESENT), (NODE_ANNOUNCE_FEATURE, FEATURE_REPRESENT),
        (BOLT11_FEATURE, FEATURE_REPRESENT)]),
      (OPT_STATIC_REMOTEKEY, [(INIT_FEATURE, FEATURE_REPRESENT),
        (GLOBAL_INIT_FEATURE, FEATURE_REPRESENT), (NODE_ANNOUNCE_FEATURE, FEATURE_REPRESENT)]),
      (OPT_PAYMENT_SECRET, [(INIT_FEATURE, FEATURE_REPRESENT),
        (NODE_ANNOUNCE_FEATURE, FEATURE_REPRESENT), (BOLT11_FEATURE, FEATURE_REPRESENT)]),
      (OPT_BASIC_MPP, [(INIT_FEATURE, FEATURE_REPRESENT),
        (NODE_ANNOUNCE_FEATURE, FEATURE_REPRESENT), (BOLT11_FEATURE, FEATURE_REPRESENT),
        (BOLT12_INVOICE_FEATURE, FEATURE_REPRESENT)]),
      (OPT_LARGE_CHANNELS, [(INIT_FEATURE, FEATURE_REPRESENT),
        (NODE_ANNOUNCE_FEATURE, FEATURE_REPRESENT), (CHANNEL_FEATURE, FEATURE_DONT_REPRESENT)]),
      (OPT_ONION_MESSAGES, [(INIT_FEATURE, FEATURE_REPRESENT),
        (NODE_ANNOUNCE_FEATURE, FEATURE_REPRESENT), (BOLT11_FEATURE, FEATURE_DONT_REPRESENT),
        (CHANNEL_FEATURE, FEATURE_DONT_REPRESENT)]),
      (OPT_SHUTDOWN_WRONG_FUNDING, [(INIT_FEATURE, FEATURE_REPRESENT),
        (NODE_ANNOUNCE_FEATURE, FEATURE_REPRESENT), (CHANNEL_FEATURE, FEATURE_DONT_REPRESENT)]),
      (OPT_ANCHORS_ZERO_FEE_HTLC_TX, [(INIT_FEATURE, FEATURE_REPRESENT),
        (NODE_ANNOUNCE_FEATURE, FEATURE_REPRESENT), (CHANNEL_FEATURE, FEATURE_DONT_REPRESENT),
        (CHANNEL_TYPE_FEATURE, FEATURE_REPRESENT)]),
      (OPT_DUAL_FUND, [(INIT_FEATURE, FEATURE_REPRESENT),
        (NODE_ANNOUNCE_FEATURE, FEATURE_REPRESENT), (BOLT11_FEATURE, FEATURE_DONT_REPRESENT),
        (CHANNEL_FEATURE, FEATURE_DONT_REPRESENT)]),
      (OPT_SCID_ALIAS, [(INIT_FEATURE, FEATURE_REPRESENT),
        (NODE_ANNOUNCE_FEATURE, FEATURE_REPRESENT), (BOLT11_FEATURE, FEATURE_DONT_REPRESENT),
        (CHANNEL_FEATURE, FEATURE_DONT_REPRESENT), (CHANNEL_TYPE_FEATURE, FEATURE_REPRESENT)]),
      (OPT_ZEROCONF, [(INIT_FEATURE, FEATURE_REPRESENT),
        (NODE_ANNOUNCE_FEATURE, FEATURE_REPRESENT), (BOLT11_FEATURE, FEATURE_DONT_REPRESENT),
        (CHANNEL_FEATURE, FEATURE_DONT_REPRESENT), (CHANNEL_TYPE_FEATURE, FEATURE_REPRESENT)]),
      (OPT_ROUTE_BLINDING, [(INIT_FEATURE, FEATURE_REPRESENT),
        (NODE_ANNOUNCE_FEATURE, FEATURE_REPRESENT), (BOLT11_FEATURE, FEATURE_REPRESENT),
        (CHANNEL_FEATURE, FEATURE_DONT_REPRESENT)]),
      (OPT_SHUTDOWN_ANYSEGWIT, [(INIT_FEATURE, FEATURE_REPRESENT),
        (NODE_ANNOUNCE_FEATURE, FEATURE_REPRESENT), (CHANNEL_FEATURE, FEATURE_DONT_REPRESENT)]),
      (OPT_QUIESCE, [(INIT_FEATURE, FEATURE_REPRESENT),
        (NODE_ANNOUNCE_FEATURE, FEATURE_REPRESENT), (CHANNEL_FEATURE, FEATURE_DONT_REPRESENT)]),
      (OPT_PAYMENT_METADATA, [(INIT_FEATURE, FEATURE_DONT_REPRESENT),
        (NODE_ANNOUNCE_FEATURE, FEATURE_DONT_REPRESENT), (BOLT11_FEATURE, FEATURE_REPRESENT),
        (CHANNEL_FEATURE, FEATURE_DONT_REPRESENT)]),
      (OPT_CHANNEL_TYPE, [(INIT_FEATURE, FEATURE_REPRESENT),
        (NODE_ANNOUNCE_FEATURE, FEATURE_REPRESENT), (BOLT11_FEATURE, FEATURE_DONT_REPRESENT),
        (CHANNEL_FEATURE, FEATURE_DONT_REPRESENT)]),
      (OPT_PROVIDE_STORAGE, [(INIT_FEATURE, FEATURE_REPRESENT),
        (NODE_ANNOUNCE_FEATURE, FEATURE_REPRESENT)]),
      (OPT_SPLICE, [(INIT_FEATURE, FEATURE_REPRESENT),
        (NODE_ANNOUNCE_FEATURE, FEATURE_REPRESENT), (CHANNEL_FEATURE, FEATURE_DONT_REPRESENT)]),
      (OPT_SEQ_TAPROOT_COVENANT, [(INIT_FEATURE, FEATURE_REPRESENT),
        (NODE_ANNOUNCE_FEATURE, FEATURE_REPRESENT), (CHANNEL_FEATURE, FEATURE_DONT_REPRESENT),
        (CHANNEL_TYPE_FEATURE, FEATURE_REPRESENT)]),
      (OPT_SEQ_POINT_LOCKS, [(INIT_FEATURE, FEATURE_REPRESENT),
        (NODE_ANNOUNCE_FEATURE, FEATURE_REPRESENT), (BOLT11_FEATURE, FEATURE_REPRESENT),
        (CHANNEL_FEATURE, FEATURE_DONT_REPRESENT)]),
      (OPT_SEQ_CREDIT, [(INIT_FEATURE, FEATURE_REPRESENT),
        (NODE_ANNOUNCE_FEATURE, FEATURE_REPRESENT), (CHANNEL_FEATURE, FEATURE_DONT_REPRESENT),
        (CHANNEL_TYPE_FEATURE, FEATURE_REPRESENT)]),
      (OPT_SEQ_SYMMETRIC, [(INIT_FEATURE, FEATURE_REPRESENT),
        (NODE_ANNOUNCE_FEATURE, FEATURE_REPRESENT), (CHANNEL_FEATURE, FEATURE_DONT_REPRESENT),
        (CHANNEL_TYPE_FEATURE, FEATURE_REPRESENT)]),
      (OPT_SEQ_SYMMETRIC_CLOCK, [(INIT_FEATURE, FEATURE_REPRESENT),
        (NODE_ANNOUNCE_FEATURE, FEATURE_REPRESENT), (CHANNEL_FEATURE, FEATURE_DONT_REPRESENT),
        (CHANNEL_TYPE_FEATURE, FEATURE_REPRESENT)]),
      (OPT_SEQ_SYMMETRIC_FACTORY, [(INIT_FEATURE, FEATURE_REPRESENT),
        (NODE_ANNOUNCE_FEATURE, FEATURE_REPRESENT), (CHANNEL_FEATURE, FEATURE_DONT_REPRESENT),
        (CHANNEL_TYPE_FEATURE, FEATURE_REPRESENT)]),
      (OPT_SEQ_SYMMETRIC_LANES, [(INIT_FEATURE, FEATURE_REPRESENT),
        (NODE_ANNOUNCE_FEATURE, FEATURE_REPRESENT), (CHANNEL_FEATURE, FEATURE_DONT_REPRESENT),
        (CHANNEL_TYPE_FEATURE, FEATURE_REPRESENT)])]"

definition feature_deps :: "(nat \<times> nat) list" where
  "feature_deps = [(OPT_BASIC_MPP, OPT_PAYMENT_SECRET)]"

subsection \<open>Bits of a field\<close>

definition trim_features :: "bytes \<Rightarrow> bytes" where
  "trim_features features = dropWhile (\<lambda>b. b = 0) features"

definition clear_feature_bit :: "bytes \<Rightarrow> nat \<Rightarrow> bytes" where
  "clear_feature_bit features b =
     (let bytenum = b div 8; bitnum = b mod 8; len = length features
      in if bytenum \<ge> len then features
         else features[len - 1 - bytenum := and (features ! (len - 1 - bytenum)) (not (push_bit bitnum 1))])"

definition set_feature_bit :: "bytes \<Rightarrow> nat \<Rightarrow> bytes" where
  "set_feature_bit ptr b =
     (let newarr = (if b div 8 \<ge> length ptr
                    then replicate (b div 8 + 1 - length ptr) 0 @ ptr else ptr);
          len = length newarr
      in newarr[len - 1 - b div 8 := or (newarr ! (len - 1 - b div 8)) (push_bit (b mod 8) 1)])"

text \<open>\<open>None\<close> is the failed assertion; every caller has checked the index.\<close>

definition test_bit :: "bytes \<Rightarrow> nat \<Rightarrow> nat \<Rightarrow> bool run" where
  "test_bit features byte b =
     (if byte < length features
      then Some (and (features ! (length features - 1 - byte)) (push_bit (b mod 8) 1) \<noteq> 0)
      else None)"

definition feature_is_set :: "bytes \<Rightarrow> nat \<Rightarrow> bool" where
  "feature_is_set features b =
     (let bytenum = b div 8
      in if bytenum \<ge> length features then False else test_bit features bytenum (b mod 8) = Some True)"

definition feature_offered :: "bytes \<Rightarrow> nat \<Rightarrow> bool" where
  "feature_offered features f \<longleftrightarrow>
     feature_is_set features (COMPULSORY_FEATURE f) \<or> feature_is_set features (OPTIONAL_FEATURE f)"

definition feature_negotiated :: "feature_set \<Rightarrow> bytes \<Rightarrow> nat \<Rightarrow> bool" where
  "feature_negotiated our_features their_features f \<longleftrightarrow>
     feature_offered their_features f \<and> feature_offered (bits our_features INIT_FEATURE) f"

text \<open>The first dependency that is not met: the depender and what it needs.\<close>

definition feature_check_depends :: "bytes \<Rightarrow> (nat \<times> nat) option" where
  "feature_check_depends their_features =
     find (\<lambda>(depender, must_also_have).
        feature_offered their_features depender \<and> \<not> feature_offered their_features must_also_have)
       feature_deps"

text \<open>The first even bit that is set and not offered by us; \<open>None\<close> is \<^verbatim>\<open>-1\<close>.\<close>

definition all_supported_features :: "feature_set \<Rightarrow> bytes \<Rightarrow> feature_place \<Rightarrow> nat option" where
  "all_supported_features our_features bitmap p =
     find (\<lambda>bitnum. test_bit bitmap (bitnum div 8) (bitnum mod 8) = Some True
                    \<and> \<not> feature_offered (bits our_features p) bitnum)
       (map (\<lambda>k. 2 * k) [0 ..< length bitmap * 4])"

definition features_unsupported :: "feature_set \<Rightarrow> bytes \<Rightarrow> feature_place \<Rightarrow> nat option" where
  "features_unsupported our_features their_features p = all_supported_features our_features their_features p"

function featurebits_or :: "bytes \<Rightarrow> bytes \<Rightarrow> bytes" where
  "featurebits_or f1 f2 =
     (if length f1 < length f2 then featurebits_or f2 f1
      else take (length f1 - length f2) f1
           @ map2 (\<lambda>a b. or a b) (drop (length f1 - length f2) f1) f2)"
  by auto
termination by (relation "measure (\<lambda>(f1, f2). if length f1 < length f2 then 1 else 0)") auto

declare featurebits_or.simps [simp del]

text \<open>
  The source clears with the mask \<^verbatim>\<open>0 << (bit % 8)\<close>, which is 0.
\<close>

definition featurebits_unset :: "bytes \<Rightarrow> nat \<Rightarrow> bytes" where
  "featurebits_unset ptr b =
     (let len = length ptr
      in if b div 8 \<ge> len then ptr
         else trim_features
                (ptr[len - 1 - b div 8 := and (ptr ! (len - 1 - b div 8)) (push_bit (b mod 8) 0)]))"

definition featurebits_eq :: "bytes \<Rightarrow> bytes \<Rightarrow> bool" where
  "featurebits_eq f1 f2 \<longleftrightarrow>
     list_all (\<lambda>i. feature_is_set f1 i = feature_is_set f2 i) [0 ..< max (length f1) (length f2) * 8]"

subsection \<open>Feature sets\<close>

definition feature_copy_style :: "nat \<Rightarrow> feature_place \<Rightarrow> feature_copy_style run" where
  "feature_copy_style f p =
     (case find (\<lambda>(b, _). b = COMPULSORY_FEATURE f) feature_styles of
        None \<Rightarrow> None
      | Some (_, styles) \<Rightarrow>
          Some (case map_of styles p of None \<Rightarrow> FEATURE_DONT_REPRESENT | Some st \<Rightarrow> st))"

definition feature_set_for_feature :: "nat \<Rightarrow> feature_set run" where
  "feature_set_for_feature feature =
     (if feature_copy_style feature INIT_FEATURE = None then None
      else Some \<lparr>bits = (\<lambda>p. case feature_copy_style feature p of
                    Some FEATURE_REPRESENT \<Rightarrow> set_feature_bit [] feature
                  | Some FEATURE_REPRESENT_AS_OPTIONAL \<Rightarrow> set_feature_bit [] (OPTIONAL_FEATURE feature)
                  | _ \<Rightarrow> [])\<rparr>)"

text \<open>The bits of a field the loops go over.\<close>

definition bits_of_field :: "bytes \<Rightarrow> nat list" where
  "bits_of_field f = filter (feature_is_set f) [0 ..< length f * 8]"

definition feature_set_or :: "feature_set \<Rightarrow> feature_set \<Rightarrow> feature_set option" where
  "feature_set_or a b =
     (if list_ex (\<lambda>i. list_ex (feature_offered (bits a i)) (bits_of_field (bits b i))) feature_places
      then None
      else Some \<lparr>bits = (\<lambda>i. foldl set_feature_bit (bits a i) (bits_of_field (bits b i)))\<rparr>)"

definition feature_set_sub :: "feature_set \<Rightarrow> feature_set \<Rightarrow> feature_set option" where
  "feature_set_sub a b =
     (if list_ex (\<lambda>i. list_ex (\<lambda>j. \<not> feature_offered (bits a i) j) (bits_of_field (bits b i))) feature_places
      then None
      else Some \<lparr>bits = (\<lambda>i. trim_features (foldl clear_feature_bit (bits a i) (bits_of_field (bits b i))))\<rparr>)"

subsection \<open>Channel types\<close>

record channel_type =
  type_features :: bytes

definition new_channel_type :: channel_type where
  "new_channel_type = \<lparr>type_features = []\<rparr>"

text \<open>\<^verbatim>\<open>set_feature_bit(&type->features, COMPULSORY_FEATURE(f))\<close>.\<close>

definition type_set :: "nat \<Rightarrow> channel_type \<Rightarrow> channel_type" where
  "type_set f t = t\<lparr>type_features := set_feature_bit (type_features t) (COMPULSORY_FEATURE f)\<rparr>"

definition channel_type_none_obsolete :: channel_type where
  "channel_type_none_obsolete = new_channel_type"

definition channel_type_static_remotekey :: channel_type where
  "channel_type_static_remotekey = type_set OPT_STATIC_REMOTEKEY new_channel_type"

definition channel_type_anchor_outputs_obsolete :: channel_type where
  "channel_type_anchor_outputs_obsolete =
     type_set OPT_STATIC_REMOTEKEY (type_set OPT_ANCHOR_OUTPUTS_DEPRECATED new_channel_type)"

definition channel_type_set_zeroconf :: "channel_type \<Rightarrow> channel_type" where
  "channel_type_set_zeroconf t = type_set OPT_ZEROCONF t"

definition channel_type_set_scid_alias :: "channel_type \<Rightarrow> channel_type" where
  "channel_type_set_scid_alias t = type_set OPT_SCID_ALIAS t"

definition channel_type_anchors_zero_fee_htlc :: channel_type where
  "channel_type_anchors_zero_fee_htlc =
     type_set OPT_STATIC_REMOTEKEY (type_set OPT_ANCHORS_ZERO_FEE_HTLC_TX new_channel_type)"

definition channel_type_seq_taproot_covenant :: channel_type where
  "channel_type_seq_taproot_covenant =
     type_set OPT_STATIC_REMOTEKEY (type_set OPT_SEQ_TAPROOT_COVENANT new_channel_type)"

definition channel_type_seq_credit :: channel_type where
  "channel_type_seq_credit = type_set OPT_SEQ_CREDIT channel_type_seq_taproot_covenant"

definition channel_type_seq_symmetric :: channel_type where
  "channel_type_seq_symmetric =
     type_set OPT_STATIC_REMOTEKEY (type_set OPT_SEQ_SYMMETRIC new_channel_type)"

definition channel_type_seq_symmetric_factory :: channel_type where
  "channel_type_seq_symmetric_factory = type_set OPT_SEQ_SYMMETRIC_FACTORY channel_type_seq_symmetric"

definition channel_type_seq_symmetric_lanes :: channel_type where
  "channel_type_seq_symmetric_lanes = type_set OPT_SEQ_SYMMETRIC_LANES channel_type_seq_symmetric"

definition channel_type_seq_symmetric_clock :: channel_type where
  "channel_type_seq_symmetric_clock = type_set OPT_SEQ_SYMMETRIC_CLOCK channel_type_seq_symmetric"

definition channel_type_has :: "channel_type \<Rightarrow> nat \<Rightarrow> bool" where
  "channel_type_has type feature = feature_offered (type_features type) feature"

definition channel_type_has_anchors :: "channel_type \<Rightarrow> bool" where
  "channel_type_has_anchors type \<longleftrightarrow>
     feature_offered (type_features type) OPT_ANCHOR_OUTPUTS_DEPRECATED
     \<or> feature_offered (type_features type) OPT_ANCHORS_ZERO_FEE_HTLC_TX"

definition channel_type_eq :: "channel_type \<Rightarrow> channel_type \<Rightarrow> bool" where
  "channel_type_eq a b = featurebits_eq (type_features a) (type_features b)"

definition channel_type_dup :: "channel_type \<Rightarrow> channel_type" where
  "channel_type_dup t = \<lparr>type_features = type_features t\<rparr>"

definition channel_type_from :: "bytes \<Rightarrow> channel_type" where
  "channel_type_from features = \<lparr>type_features = features\<rparr>"

definition accept_feats :: "nat list" where
  "accept_feats =
     [OPT_ANCHORS_ZERO_FEE_HTLC_TX, OPT_STATIC_REMOTEKEY, OPT_SCID_ALIAS, OPT_ZEROCONF,
      OPT_SEQ_TAPROOT_COVENANT, OPT_SEQ_CREDIT, OPT_SEQ_SYMMETRIC, OPT_SEQ_SYMMETRIC_FACTORY,
      OPT_SEQ_SYMMETRIC_LANES, OPT_SEQ_SYMMETRIC_CLOCK]"

definition known_channel_types :: "channel_type list" where
  "known_channel_types =
     [channel_type_static_remotekey, channel_type_anchors_zero_fee_htlc,
      channel_type_seq_taproot_covenant, channel_type_seq_credit, channel_type_seq_symmetric,
      channel_type_seq_symmetric_factory, channel_type_seq_symmetric_lanes,
      channel_type_seq_symmetric_clock]"

definition channel_type_accept :: "bytes \<Rightarrow> feature_set \<Rightarrow> channel_type option" where
  "channel_type_accept t our_features =
     (if list_ex (\<lambda>f. if feature_offered t f
                     then \<not> feature_offered (bits our_features INIT_FEATURE) f
                     else feature_is_set (bits our_features INIT_FEATURE) (COMPULSORY_FEATURE f))
           accept_feats
      then None
      else let proposed = \<lparr>type_features = foldl featurebits_unset t [OPT_SCID_ALIAS, OPT_ZEROCONF]\<rparr>
           in if list_ex (channel_type_eq proposed) known_channel_types
              then Some \<lparr>type_features = t\<rparr> else None)"

section \<open>The set of bits of a field\<close>

definition fbits :: "bytes \<Rightarrow> nat set" where
  "fbits f = {b. feature_is_set f b}"

lemma feature_is_set_iff:
  "feature_is_set f b \<longleftrightarrow> b div 8 < length f \<and> bit (rev f ! (b div 8)) (b mod 8)"
  by (auto simp: feature_is_set_def test_bit_def Let_def rev_nth and_exp_eq_0_iff_not_bit
      push_bit_of_1)

lemma mem_fbits: "b \<in> fbits f \<longleftrightarrow> b div 8 < length f \<and> bit (rev f ! (b div 8)) (b mod 8)"
  by (simp add: fbits_def feature_is_set_iff)

lemma div_mod_8_eq: "(j :: nat) = b \<longleftrightarrow> j div 8 = b div 8 \<and> j mod 8 = b mod 8"
  by (metis div_mult_mod_eq)

lemma nth_byte_bit: "bit (x :: byte) n \<Longrightarrow> n < 8"
  using bit_imp_le_length [of x n] by simp

lemma fbits_set: "fbits (set_feature_bit f b) = insert b (fbits f)"
proof -
  define g where "g = (if b div 8 \<ge> length f then replicate (b div 8 + 1 - length f) 0 @ f else f)"
  have len: "b div 8 < length g" by (auto simp: g_def)
  have same: "fbits g = fbits f"
    by (auto simp: g_def mem_fbits nth_append split: if_splits)
  have "set_feature_bit f b = g[length g - 1 - b div 8 := or (g ! (length g - 1 - b div 8)) (push_bit (b mod 8) 1)]"
    by (simp add: set_feature_bit_def g_def Let_def)
  then have "rev (set_feature_bit f b) = (rev g)[b div 8 := or (rev g ! (b div 8)) (push_bit (b mod 8) 1)]"
    using len by (simp add: rev_update rev_nth)
  then have "x \<in> fbits (set_feature_bit f b) \<longleftrightarrow> x = b \<or> x \<in> fbits g" for x
    using len \<open>set_feature_bit f b = _\<close>
    by (auto simp: mem_fbits nth_list_update bit_or_iff bit_simps div_mod_8_eq [of x b])
  then show ?thesis using same by auto
qed

lemma rev_update_len: "k < length f \<Longrightarrow> rev (f[length f - 1 - k := y]) = (rev f)[k := y]"
  by (simp add: rev_update)

lemma fbits_clear: "fbits (clear_feature_bit f b) = fbits f - {b}"
proof (cases "b div 8 < length f")
  case True
  then have "rev (clear_feature_bit f b)
      = (rev f)[b div 8 := and (rev f ! (b div 8)) (not (push_bit (b mod 8) 1))]"
    by (simp add: clear_feature_bit_def Let_def rev_update rev_nth)
  moreover have "length (clear_feature_bit f b) = length f"
    by (simp add: clear_feature_bit_def Let_def)
  ultimately have "x \<in> fbits (clear_feature_bit f b) \<longleftrightarrow> x \<in> fbits f \<and> x \<noteq> b" for x
    using True
    by (auto simp: mem_fbits nth_list_update bit_and_iff bit_not_iff bit_simps div_mod_8_eq [of x b]
        dest: nth_byte_bit)
  then show ?thesis by auto
next
  case False
  then show ?thesis by (auto simp: clear_feature_bit_def Let_def mem_fbits)
qed

lemma fbits_Cons_0: "fbits (0 # f) = fbits f"
  by (auto simp: mem_fbits nth_append split: if_splits)

lemma fbits_trim: "fbits (trim_features f) = fbits f"
  unfolding trim_features_def by (induction f) (auto simp: fbits_Cons_0)

lemma fbits_unset:
  "fbits (featurebits_unset f b) =
     (if b div 8 < length f then fbits f - {b div 8 * 8 ..< b div 8 * 8 + 8} else fbits f)"
proof (cases "b div 8 < length f")
  case True
  define g where "g = f[length f - 1 - b div 8 := 0]"
  have "featurebits_unset f b = trim_features g"
    using True by (simp add: featurebits_unset_def Let_def g_def)
  moreover have "rev g = (rev f)[b div 8 := 0]" "length g = length f"
    using True by (simp_all add: g_def rev_update)
  then have "x \<in> fbits g \<longleftrightarrow> x \<in> fbits f \<and> x div 8 \<noteq> b div 8" for x
    using True by (auto simp: mem_fbits nth_list_update)
  moreover have "x div 8 = q \<longleftrightarrow> x \<in> {q * 8 ..< q * 8 + 8}" for x q :: nat
    by auto
  ultimately show ?thesis using True by (auto simp: fbits_trim)
next
  case False
  then show ?thesis by (simp add: featurebits_unset_def)
qed

lemma fbits_less: "b \<in> fbits f \<Longrightarrow> b < length f * 8"
  by (auto simp: mem_fbits)

lemma featurebits_eq_iff: "featurebits_eq f1 f2 \<longleftrightarrow> fbits f1 = fbits f2"
proof
  assume "featurebits_eq f1 f2"
  then have *: "i < max (length f1) (length f2) * 8 \<Longrightarrow> i \<in> fbits f1 \<longleftrightarrow> i \<in> fbits f2" for i
    by (auto simp: featurebits_eq_def list_all_iff fbits_def)
  show "fbits f1 = fbits f2"
    using fbits_less [of _ f1] fbits_less [of _ f2] * by fastforce
qed (simp add: featurebits_eq_def list_all_iff fbits_def set_eq_iff)

lemma featurebits_or_long:
  assumes "length f2 \<le> length f1"
  shows "fbits (featurebits_or f1 f2) = fbits f1 \<union> fbits f2"
proof -
  define n where "n = length f1 - length f2"
  have e: "featurebits_or f1 f2 = take n f1 @ map2 (\<lambda>a b. or a b) (drop n f1) f2"
    using assms by (subst featurebits_or.simps) (simp add: n_def)
  have len: "length (featurebits_or f1 f2) = length f1" using assms by (simp add: e n_def)
  have "rev (featurebits_or f1 f2) ! k =
      (if k < length f2 then or (rev f1 ! k) (rev f2 ! k) else rev f1 ! k)" if "k < length f1" for k
    using that assms len
    by (auto simp: rev_nth) (auto simp: e n_def nth_append)
  then show ?thesis using assms len by (fastforce simp: mem_fbits bit_or_iff split: if_splits)
qed

lemma fbits_or: "fbits (featurebits_or f1 f2) = fbits f1 \<union> fbits f2"
proof (cases "length f1 < length f2")
  case True
  then have "featurebits_or f1 f2 = featurebits_or f2 f1" by (subst featurebits_or.simps) simp
  then show ?thesis using True featurebits_or_long [of f1 f2] by auto
qed (use featurebits_or_long in simp)

section \<open>Properties\<close>

text \<open>A bitfield as a set of bits: the contract of the field operations.\<close>

locale bit_field =
  fixes member :: "'f \<Rightarrow> nat \<Rightarrow> bool" and ins :: "'f \<Rightarrow> nat \<Rightarrow> 'f" and del :: "'f \<Rightarrow> nat \<Rightarrow> 'f"
  assumes member_ins: "member (ins f b) x \<longleftrightarrow> x = b \<or> member f x"
    and member_del: "member (del f b) x \<longleftrightarrow> x \<noteq> b \<and> member f x"
begin

lemma member_foldl_ins: "member (foldl ins f bs) x \<longleftrightarrow> x \<in> set bs \<or> member f x"
  by (induction bs arbitrary: f) (auto simp: member_ins)

lemma member_foldl_del: "member (foldl del f bs) x \<longleftrightarrow> x \<notin> set bs \<and> member f x"
  by (induction bs arbitrary: f) (auto simp: member_del)

text \<open>Taking out what was put in leaves what was there, if nothing was put in twice.\<close>

lemma del_ins:
  assumes "\<forall>b \<in> set bs. \<not> member f b"
  shows "member (foldl del (foldl ins f bs) bs) x \<longleftrightarrow> member f x"
  using assms by (auto simp: member_foldl_del member_foldl_ins)

end

interpretation fbit: bit_field feature_is_set set_feature_bit clear_feature_bit
proof
  show "feature_is_set (set_feature_bit f b) x \<longleftrightarrow> x = b \<or> feature_is_set f x" for f b x
    using fbits_set [of f b] by (auto simp: fbits_def set_eq_iff)
  show "feature_is_set (clear_feature_bit f b) x \<longleftrightarrow> x \<noteq> b \<and> feature_is_set f x" for f b x
    using fbits_clear [of f b] by (auto simp: fbits_def set_eq_iff)
qed

lemma set_bits_of_field: "set (bits_of_field f) = fbits f"
  using fbits_less [of _ f] by (auto simp: bits_of_field_def fbits_def)

lemma feature_places_all: "p \<in> set feature_places"
  by (cases p) (simp_all add: feature_places_def)

lemma feature_offered_iff:
  "feature_offered f b \<longleftrightarrow> COMPULSORY_FEATURE b \<in> fbits f \<or> OPTIONAL_FEATURE b \<in> fbits f"
  by (simp add: feature_offered_def fbits_def)

lemma bit_in_its_pair:
  assumes "b < 2 ^ 32"
  shows "b = COMPULSORY_FEATURE b \<or> b = OPTIONAL_FEATURE b"
proof -
  have "and b 0xFFFFFFFE = 2 * (b div 2)"
  proof -
    have "and b 0xFFFFFFFE = 2 * (and (b div 2) 0x7FFFFFFF)"
      by (simp add: and_nat_rec [of b])
    moreover have "and (b div 2) 0x7FFFFFFF = take_bit 31 (b div 2)"
      by (simp add: take_bit_eq_mask mask_eq_exp_minus_1)
    moreover have "take_bit 31 (b div 2) = b div 2"
      using assms by (simp add: take_bit_nat_eq_self)
    ultimately show ?thesis by simp
  qed
  moreover have "or b 1 = 2 * (b div 2) + 1" 
    using or_one_eq [of b] by (cases "even b") (auto elim!: evenE oddE)
  ultimately show ?thesis
    unfolding COMPULSORY_FEATURE_def OPTIONAL_FEATURE_def by presburger
qed

text \<open>
  The feature set operations mean what their names say, in every place: a successful
  \<^verbatim>\<open>feature_set_or\<close> adds exactly the other set's bits, a successful \<^verbatim>\<open>feature_set_sub\<close> takes exactly
  them away, and the second undoes the first.
\<close>

theorem feature_set_or_sub:
  assumes or: "feature_set_or a b = Some c" and small: "\<forall>p. length (bits b p) < 2 ^ 28"
  shows "(\<forall>p. fbits (bits c p) = fbits (bits a p) \<union> fbits (bits b p))
       \<and> (\<exists>d. feature_set_sub c b = Some d \<and> (\<forall>p. fbits (bits d p) = fbits (bits a p)))"
proof -
  have free: "\<not> feature_offered (bits a p) j" if "j \<in> fbits (bits b p)" for p j
    using or that feature_places_all
    by (auto simp: feature_set_or_def list_ex_iff set_bits_of_field split: if_splits)
  have bits_c: "bits c p = foldl set_feature_bit (bits a p) (bits_of_field (bits b p))" for p
    using or by (auto simp: feature_set_or_def split: if_splits)
  have c: "fbits (bits c p) = fbits (bits a p) \<union> fbits (bits b p)" for p
    by (auto simp: fbits_def bits_c fbit.member_foldl_ins)
      (auto simp: set_bits_of_field fbits_def)
  have pair: "j = COMPULSORY_FEATURE j \<or> j = OPTIONAL_FEATURE j" if "j \<in> fbits (bits b p)" for p j
  proof (rule bit_in_its_pair)
    have "j < length (bits b p) * 8" using that by (rule fbits_less)
    also have "\<dots> < 2 ^ 28 * 8" using small by (intro mult_strict_right_mono) auto
    also have "2 ^ 28 * 8 \<le> (2 ^ 32 :: nat)" by simp
    finally show "j < 2 ^ 32" .
  qed
  have off: "feature_offered (bits c p) j" if "j \<in> fbits (bits b p)" for p j
    using pair [OF that] that by (metis UnCI c feature_offered_iff)
  have not_a: "j \<notin> fbits (bits a p)" if "j \<in> fbits (bits b p)" for p j
    using free [OF that] pair [OF that] by (metis feature_offered_iff)
  obtain d where d: "feature_set_sub c b = Some d"
      and bits_d: "bits d p = trim_features (foldl clear_feature_bit (bits c p) (bits_of_field (bits b p)))" for p
    using off by (auto simp: feature_set_sub_def list_ex_iff set_bits_of_field)
  have "fbits (bits d p) = fbits (bits c p) - fbits (bits b p)" for p
    unfolding bits_d fbits_trim
    by (auto simp: fbits_def fbit.member_foldl_del) (auto simp: set_bits_of_field fbits_def)
  then have "fbits (bits d p) = fbits (bits a p)" for p using c not_a by auto
  with c d show ?thesis by blast
qed

lemma fbits_Nil: "fbits [] = {}"
  by (simp add: mem_fbits set_eq_iff)

lemmas fbit_sets = fbits_Nil fbits_set fbits_or COMPULSORY_FEATURE_def OPTIONAL_FEATURE_def

definition sample_set :: "nat \<Rightarrow> feature_set" where
  "sample_set f = \<lparr>bits = (\<lambda>p. if p = INIT_FEATURE then set_feature_bit [] f else [])\<rparr>"

theorem feature_set_or_sub_witness:
  "\<exists>c d. feature_set_or (sample_set 12) (sample_set 23) = Some c
     \<and> feature_set_sub c (sample_set 23) = Some d
     \<and> fbits (bits d INIT_FEATURE) = fbits (bits (sample_set 12) INIT_FEATURE)"
proof -
  have "feature_set_or (sample_set 12) (sample_set 23) \<noteq> None"
    by (simp add: feature_set_or_def list_ex_iff set_bits_of_field sample_set_def feature_offered_iff
        fbit_sets)
  then obtain c where c: "feature_set_or (sample_set 12) (sample_set 23) = Some c" by auto
  have "\<forall>p. length (bits (sample_set 23) p) < 2 ^ 28"
    by (simp add: sample_set_def set_feature_bit_def)
  then show ?thesis using feature_set_or_sub [OF c] c by blast
qed

text \<open>
  \<^verbatim>\<open>featurebits_unset\<close> does not unset one bit: its mask is 0, so it clears the whole byte the bit
  is in, all eight bits.
\<close>

theorem featurebits_unset_clears_byte:
  "fbits (featurebits_unset f b) =
     (if b div 8 < length f then fbits f - {b div 8 * 8 ..< b div 8 * 8 + 8} else fbits f)"
  by (rule fbits_unset)

lemmas channel_type_defs =
  type_set_def new_channel_type_def channel_type_static_remotekey_def
  channel_type_anchors_zero_fee_htlc_def channel_type_seq_taproot_covenant_def
  channel_type_seq_credit_def channel_type_seq_symmetric_def channel_type_seq_symmetric_factory_def
  channel_type_seq_symmetric_lanes_def channel_type_seq_symmetric_clock_def

definition all_features :: feature_set where
  "all_features = \<lparr>bits = (\<lambda>_. foldl set_feature_bit [] (map OPTIONAL_FEATURE accept_feats))\<rparr>"

text \<open>
  (C39) As a consequence \<^verbatim>\<open>channel_type_accept\<close> accepts a channel type that is none of the known ones:
  \<open>option_static_remotekey\<close> with bit 42 set, which neither side offers, is accepted because the
  byte of bit 42 is cleared together with the \<open>option_scid_alias\<close> variant before the comparison.
\<close>

theorem channel_type_accept_unknown_bit:
  "let t = set_feature_bit (type_features channel_type_static_remotekey) 42
   in channel_type_accept t all_features = Some \<lparr>type_features = t\<rparr>
    \<and> \<not> feature_offered (bits all_features INIT_FEATURE) 42
    \<and> \<not> list_ex (channel_type_eq \<lparr>type_features = t\<rparr>) known_channel_types"
proof -
  define t where "t = set_feature_bit (type_features channel_type_static_remotekey) 42"
  have t: "fbits t = {12, 42}"
    by (auto simp add: t_def channel_type_defs fbit_sets)
  have len: "length t = 6"
    by (simp add: t_def channel_type_defs fbit_sets set_feature_bit_def Let_def)
  have our: "fbits (bits all_features INIT_FEATURE) = {13, 23, 47, 51, 173, 177, 179, 181, 183, 185}"
    by (simp add: all_features_def accept_feats_def fbit_sets) blast
  have is_set: "feature_is_set (bits all_features INIT_FEATURE) b
      \<longleftrightarrow> b \<in> {13, 23, 47, 51, 173, 177, 179, 181, 183, 185}" for b
    using our by (auto simp: fbits_def)
  have unset: "fbits (foldl featurebits_unset t [46, 50]) = {12}"
    by (auto simp: fbits_unset t len)
  have "channel_type_accept t all_features = Some \<lparr>type_features = t\<rparr>"
    using unset
    by (simp add: channel_type_accept_def accept_feats_def feature_offered_iff t our
        known_channel_types_def channel_type_eq_def featurebits_eq_iff channel_type_defs fbit_sets
        is_set)
  moreover have "\<not> feature_offered (bits all_features INIT_FEATURE) 42"
    by (simp add: feature_offered_iff our fbit_sets)
  moreover have "\<not> list_ex (channel_type_eq \<lparr>type_features = t\<rparr>) known_channel_types"
    by (simp add: known_channel_types_def channel_type_eq_def featurebits_eq_iff channel_type_defs
        fbit_sets t insert_eq_iff)
  ultimately show ?thesis by (simp add: t_def)
qed

lemma find_None_even_bits:
  "find P (map (\<lambda>k. 2 * k) [0 ..< n]) = None \<longleftrightarrow> (\<forall>k < n. \<not> P (2 * k))"
  by (auto simp: find_None_iff)

text \<open>
  \<^verbatim>\<open>features_unsupported\<close> reports nothing exactly when every even (compulsory) bit the peer sets is
  offered by us, as that bit or as the odd one beside it.
\<close>

theorem features_unsupported_iff:
  "features_unsupported ours theirs p = None \<longleftrightarrow>
     (\<forall>k. 2 * k \<in> fbits theirs \<longrightarrow> feature_offered (bits ours p) (2 * k))"
proof -
  have t: "test_bit theirs (2 * k div 8) (2 * k mod 8) = Some True \<longleftrightarrow> 2 * k \<in> fbits theirs"
    if "k < length theirs * 4" for k
    using that by (auto simp: fbits_def feature_is_set_def Let_def)
  have "k < length theirs * 4" if "2 * k \<in> fbits theirs" for k
    using fbits_less [OF that] by simp
  with t show ?thesis
    unfolding features_unsupported_def all_supported_features_def find_None_even_bits by blast
qed

theorem features_unsupported_iff_witness:
  "features_unsupported all_features (set_feature_bit [] 12) INIT_FEATURE = None
   \<and> feature_offered (bits all_features INIT_FEATURE) (2 * 6)"
proof -
  have "features_unsupported all_features (set_feature_bit [] 12) INIT_FEATURE = None"
    by (subst features_unsupported_iff) (auto simp: fbit_sets feature_offered_iff all_features_def accept_feats_def)
  moreover have "2 * 6 \<in> fbits (set_feature_bit [] 12)" by (simp add: fbits_set)
  ultimately show ?thesis
    using features_unsupported_iff [of all_features "set_feature_bit [] 12" INIT_FEATURE] by blast
qed

end
