(* ===== verification/InitialChannel.thy ===== *)
theory InitialChannel
  imports Features
begin

text \<open>
  A channel: the structs of \<^verbatim>\<open>common/initial_channel.h\<close>, \<^verbatim>\<open>common/channel_config.h\<close>,
  \<^verbatim>\<open>channeld/channeld_htlc.h\<close> and \<^verbatim>\<open>common/sym_lanes.h\<close> as records, and the operations of
  \<^verbatim>\<open>common/initial_channel.c\<close> on them. An array indexed by \<^verbatim>\<open>enum side\<close> is a function of the side, a
  \<^verbatim>\<open>NULL\<close> pointer is \<open>None\<close>, and keys, hashes and scripts are byte lists. The table of HTLCs is a
  list, in the order an iteration meets them; an absent table is an empty one.

  The constructor needs SHA-256, which is an argument. Building the first commitment transaction
  (\<^verbatim>\<open>initial_channel_tx\<close>) and the credit note of a channel need keys, scripts and libwally and are
  not modelled.
\<close>

section \<open>The structs\<close>

record channel_config =
  config_id :: u64
  dust_limit :: amount_sat
  max_htlc_value_in_flight :: amount_msat
  channel_reserve :: amount_sat
  htlc_minimum :: amount_msat
  to_self_delay :: u16
  max_accepted_htlcs :: u16
  max_dust_htlc_exposure_msat :: amount_msat

text \<open>\<^verbatim>\<open>struct failed_htlc\<close> of \<^verbatim>\<open>common/htlc_wire.h\<close>: why an HTLC was failed.\<close>

record failed_htlc =
  failed_id :: u64
  sha256_of_onion :: "bytes option"
  badonion :: u16
  onion :: "bytes option"

record htlc =
  h_state :: htlc_state
  h_id :: u64
  h_amount :: amount_msat
  h_expiry :: u32
  h_rhash :: bytes
  h_r :: "bytes option"
  h_lock_point :: "bytes option"
  h_lane :: u16
  h_failed :: "failed_htlc option"
  h_routing :: bytes
  h_path_key :: "bytes option"
  h_extra_tlvs :: "(u64 \<times> bytes) list option"
  h_fail_immediate :: bool

record bitcoin_outpoint =
  outpoint_txid :: bytes
  outpoint_n :: u32

record basepoints =
  revocation :: bytes
  payment :: bytes
  htlc_basepoint :: bytes
  delayed_payment :: bytes

text \<open>\<^verbatim>\<open>lowest_splice_amnt\<close> is an \<^verbatim>\<open>s64\<close>, kept as its 64 bits.\<close>

record channel_view =
  owed :: "side \<Rightarrow> amount_msat"
  lowest_splice_amnt :: "side \<Rightarrow> u64"

record sym_lane =
  lane_asset :: bytes
  lane_outnum :: u32
  lane_funding_sats :: amount_sat

text \<open>What each view owes each side in one lane: \<^verbatim>\<open>owed[view][side]\<close>.\<close>

type_synonym sym_lane_balance = "side \<Rightarrow> side \<Rightarrow> amount_msat"

record sym_swap =
  swap_id :: u64
  swap_state :: htlc_state
  give_lane :: u16
  take_lane :: u16
  swap_give :: amount_msat
  swap_take :: amount_msat

record channel =
  cid :: bytes
  funding :: bitcoin_outpoint
  funding_pubkey :: "side \<Rightarrow> bytes"
  funding_sats :: amount_sat
  channel_asset :: bytes
  minimum_depth :: u32
  opener :: side
  config :: "side \<Rightarrow> channel_config"
  channel_basepoints :: "side \<Rightarrow> basepoints"
  commitment_number_obscurer :: u64
  htlcs :: "htlc list"
  channel_fee_states :: fee_states
  blockheight_states :: "height_states option"
  view :: "side \<Rightarrow> channel_view"
  chan_type :: channel_type
  option_wumbo :: bool
  lease_expiry :: u32
  credit_floor :: amount_sat
  sym_lanes :: "sym_lane list option"
  sym_lane_bal :: "sym_lane_balance list"
  chan_swap :: "sym_swap option"
  chan_swap_req :: "sym_swap option"
  sym_issuer :: "bitcoin_outpoint option"

section \<open>HTLCs and locktimes\<close>

definition SECONDS_POINT :: u32 where "SECONDS_POINT = 500000000"

definition blocks_to_abs_locktime :: "u32 \<Rightarrow> u32 option" where
  "blocks_to_abs_locktime blocks = (if blocks \<ge> SECONDS_POINT then None else Some blocks)"

definition abs_locktime_to_blocks :: "u32 \<Rightarrow> u32 run" where
  "abs_locktime_to_blocks locktime = (if locktime \<ge> SECONDS_POINT then None else Some locktime)"

definition htlc_has :: "htlc \<Rightarrow> flags \<Rightarrow> bool" where
  "htlc_has h flag = state_has (h_state h) flag"

definition htlc_owner :: "htlc \<Rightarrow> side" where
  "htlc_owner h = htlc_state_owner (h_state h)"

definition htlc_get :: "htlc list \<Rightarrow> u64 \<Rightarrow> side \<Rightarrow> htlc option" where
  "htlc_get hs hid owner = find (\<lambda>h. h_id h = hid \<and> htlc_has h (HTLC_FLAG owner HTLC_F_OWNER)) hs"

definition htlc_is_dead :: "htlc \<Rightarrow> bool" where
  "htlc_is_dead h \<longleftrightarrow>
     h_state h = RCVD_REMOVE_ACK_REVOCATION \<or> h_state h = SENT_REMOVE_ACK_REVOCATION"

section \<open>\<^verbatim>\<open>common/initial_channel.c\<close>\<close>

text \<open>The lower 48 bits of the hash, as a big-endian number.\<close>

definition commit_number_obscurer :: "(bytes \<Rightarrow> bytes) \<Rightarrow> bytes \<Rightarrow> bytes \<Rightarrow> u64" where
  "commit_number_obscurer sha256 opener_payment_basepoint accepter_payment_basepoint =
     (let sha = sha256 (opener_payment_basepoint @ accepter_payment_basepoint)
      in foldl (\<lambda>v b. push_bit 8 v OR ucast b) 0 (drop (length sha - 6) sha))"

definition by_side :: "'a \<Rightarrow> 'a \<Rightarrow> side \<Rightarrow> 'a" where
  "by_side l r s = (case s of LOCAL \<Rightarrow> l | REMOTE \<Rightarrow> r)"

definition new_initial_channel ::
  "(bytes \<Rightarrow> bytes) \<Rightarrow> chainparams \<Rightarrow> bytes \<Rightarrow> bitcoin_outpoint \<Rightarrow> u32 \<Rightarrow> height_states option \<Rightarrow> u32
   \<Rightarrow> amount_sat \<Rightarrow> amount_msat \<Rightarrow> fee_states \<Rightarrow> channel_config \<Rightarrow> channel_config
   \<Rightarrow> basepoints \<Rightarrow> basepoints \<Rightarrow> bytes \<Rightarrow> bytes \<Rightarrow> channel_type \<Rightarrow> bool \<Rightarrow> side \<Rightarrow> channel option" where
  "new_initial_channel sha256 cp new_cid new_funding new_minimum_depth hts new_lease_expiry
       new_funding_sats local_msatoshi fs local remote local_basepoints remote_basepoints
       local_funding_pubkey remote_funding_pubkey type wumbo new_opener =
     (case amount_sat_sub_msat new_funding_sats local_msatoshi of
        None \<Rightarrow> None
      | Some remote_msatoshi \<Rightarrow>
          let bps = by_side local_basepoints remote_basepoints;
              v = \<lparr>owed = by_side local_msatoshi remote_msatoshi, lowest_splice_amnt = (\<lambda>_. 0)\<rparr>
          in Some
            \<lparr>cid = new_cid, funding = new_funding,
             funding_pubkey = by_side local_funding_pubkey remote_funding_pubkey,
             funding_sats = new_funding_sats,
             channel_asset = (if is_elements cp
                              then (case fee_asset_tag cp of Some tag \<Rightarrow> tag | None \<Rightarrow> replicate 33 0)
                              else replicate 33 0),
             minimum_depth = new_minimum_depth, opener = new_opener,
             config = by_side local remote, channel_basepoints = bps,
             commitment_number_obscurer =
               commit_number_obscurer sha256 (payment (bps new_opener)) (payment (bps (other new_opener))),
             htlcs = [], channel_fee_states = dup_fee_states fs,
             blockheight_states = map_option dup_height_states hts,
             view = (\<lambda>_. v), chan_type = type, option_wumbo = wumbo,
             lease_expiry = new_lease_expiry, credit_floor = AMOUNT_SAT 0,
             sym_lanes = None, sym_lane_bal = [], chan_swap = None, chan_swap_req = None,
             sym_issuer = None\<rparr>)"

text \<open>
  \<^verbatim>\<open>splice_amnt * 1000 + owed.millisatoshis\<close> adds an \<^verbatim>\<open>s64\<close> to a \<^verbatim>\<open>u64\<close>: the sum is unsigned, and
  the comparison with 0 never holds. The result is \<open>Inl\<close> with the message where the code returns
  one, with the channel as changed so far.
\<close>

definition channel_update_funding ::
  "channel \<Rightarrow> bitcoin_outpoint \<Rightarrow> amount_sat \<Rightarrow> u64 \<Rightarrow> (string + unit) \<times> channel" where
  "channel_update_funding ch new_funding new_funding_sats splice_amnt =
     (let funding_diff = satoshis new_funding_sats - satoshis (funding_sats ch);
          remote_splice_amnt = funding_diff - splice_amnt;
          c1 = ch\<lparr>funding := new_funding, funding_sats := new_funding_sats\<rparr>;
          bump = (\<lambda>side d v. v\<lparr>owed := (owed v)(side := AMOUNT_MSAT (millisatoshis (owed v side) + d * 1000))\<rparr>)
      in if splice_amnt * 1000 + millisatoshis (owed (view c1 LOCAL) LOCAL) < 0
         then (Inl ''Channel funding update would make local balance negative.'', c1)
         else let c2 = c1\<lparr>view := (\<lambda>s. bump LOCAL splice_amnt (view c1 s))\<rparr>
              in if remote_splice_amnt * 1000 + millisatoshis (owed (view c2 LOCAL) REMOTE) < 0
                 then (Inl ''Channel funding update would make remote balance negative.'', c2)
                 else (Inr (), c2\<lparr>view := (\<lambda>s. bump REMOTE remote_splice_amnt (view c2 s))\<rparr>))"

definition channel_feerate :: "channel \<Rightarrow> side \<Rightarrow> u32 run" where
  "channel_feerate ch side = get_feerate (channel_fee_states ch) (opener ch) side"

definition channel_blockheight :: "channel \<Rightarrow> side \<Rightarrow> u32 run" where
  "channel_blockheight ch side =
     do { hs \<leftarrow> blockheight_states ch; get_blockheight hs (opener ch) side }"

definition channel_reserve_of :: "channel \<Rightarrow> side \<Rightarrow> amount_sat run" where
  "channel_reserve_of ch side =
     (let reserve = channel_reserve (config ch (other side))
      in if side = opener ch then amount_sat_add reserve (credit_floor ch) else Some reserve)"

definition channel_has :: "channel \<Rightarrow> nat \<Rightarrow> bool" where
  "channel_has ch feature = channel_type_has (chan_type ch) feature"

definition channel_has_anchors :: "channel \<Rightarrow> bool" where
  "channel_has_anchors ch = channel_type_has_anchors (chan_type ch)"

definition channel_upgradable_type :: "channel \<Rightarrow> channel_type option" where
  "channel_upgradable_type ch =
     (if \<not> channel_has ch OPT_STATIC_REMOTEKEY then Some channel_type_static_remotekey else None)"

definition channel_desired_type :: "channel \<Rightarrow> channel_type" where
  "channel_desired_type ch =
     (if channel_has ch OPT_ANCHORS_ZERO_FEE_HTLC_TX then channel_type_anchors_zero_fee_htlc
      else if channel_has ch OPT_SEQ_SYMMETRIC_FACTORY then channel_type_seq_symmetric_factory
      else if channel_has ch OPT_SEQ_SYMMETRIC_LANES then channel_type_seq_symmetric_lanes
      else if channel_has ch OPT_SEQ_SYMMETRIC_CLOCK then channel_type_seq_symmetric_clock
      else if channel_has ch OPT_SEQ_SYMMETRIC then channel_type_seq_symmetric
      else if channel_has ch OPT_SEQ_CREDIT then channel_type_seq_credit
      else if channel_has ch OPT_SEQ_TAPROOT_COVENANT then channel_type_seq_taproot_covenant
      else if channel_has ch OPT_ANCHOR_OUTPUTS_DEPRECATED then channel_type_anchor_outputs_obsolete
      else channel_type_static_remotekey)"

section \<open>Opening and splicing\<close>

text \<open>What a view owes both sides, in millisatoshi.\<close>

definition owed_total :: "channel \<Rightarrow> side \<Rightarrow> nat" where
  "owed_total ch v = msat (owed (view ch v) LOCAL) + msat (owed (view ch v) REMOTE)"

lemma by_side_simps [simp]: "by_side l r LOCAL = l" "by_side l r REMOTE = r"
  by (simp_all add: by_side_def)

lemma all_sides_iff: "(\<forall>s. P s) \<longleftrightarrow> P LOCAL \<and> P REMOTE"
  using side.exhaust by metis

text \<open>
  A new channel exists exactly when the local share is within the funding, and then both views
  owe both sides the same amounts, which add up to the funding to the last millisatoshi, with no
  HTLCs and no lanes.
\<close>

theorem new_initial_channel_splits_funding:
  assumes "sat amt * 1000 < 2 ^ 64"
  shows "case new_initial_channel sha cp c f md hts le amt local_msat fs l r lb rb lk rk ty w op of
           None \<Rightarrow> msat local_msat > sat amt * 1000
         | Some ch \<Rightarrow> msat local_msat \<le> sat amt * 1000
             \<and> (\<forall>v. owed (view ch v) LOCAL = local_msat \<and> owed_total ch v = sat amt * 1000)
             \<and> htlcs ch = [] \<and> sym_lane_bal ch = []"
proof -
  obtain m where m: "amount_sat_to_msat amt = Some m" "msat m = sat amt * 1000"
    using assms by (auto simp: amount_sat_to_msat_eq unat_u64_mult)
  show ?thesis
    using m msat_arith.sub_Some [of m local_msat] msat_arith.sub_None [of m local_msat]
    by (auto simp: new_initial_channel_def amount_sat_sub_msat_def Let_def owed_total_def
        split: option.splits)
qed

text \<open>A concrete channel, of a million satoshi with 40 percent on the local side.\<close>

definition demo_config :: channel_config where
  "demo_config =
     \<lparr>config_id = 1, dust_limit = AMOUNT_SAT 546, max_htlc_value_in_flight = AMOUNT_MSAT 900000000,
      channel_reserve = AMOUNT_SAT 10000, htlc_minimum = AMOUNT_MSAT 0, to_self_delay = 144,
      max_accepted_htlcs = 30, max_dust_htlc_exposure_msat = AMOUNT_MSAT 50000000\<rparr>"

definition demo_keys :: basepoints where
  "demo_keys = \<lparr>revocation = [2], payment = [3], htlc_basepoint = [4], delayed_payment = [5]\<rparr>"

definition demo_outpoint :: bitcoin_outpoint where
  "demo_outpoint = \<lparr>outpoint_txid = replicate 32 1, outpoint_n = 0\<rparr>"

definition demo_open :: "amount_sat \<Rightarrow> amount_msat \<Rightarrow> channel option" where
  "demo_open amt loc =
     new_initial_channel (\<lambda>_. replicate 32 0) net_sequentia_testnet [7] demo_outpoint 1
       (Some (new_height_states LOCAL (Some 0))) 0 amt loc (new_fee_states LOCAL (Some 253))
       demo_config demo_config demo_keys demo_keys [8] [9] channel_type_static_remotekey False LOCAL"

lemmas demo_open_simps =
  demo_open_def new_initial_channel_def amount_sat_sub_msat_def amount_sat_to_msat_def
  mul_overflows_u64_def amount_msat_sub_def Let_def

theorem new_initial_channel_splits_funding_witness:
  "case demo_open (AMOUNT_SAT 1000000) (AMOUNT_MSAT 400000000) of
     None \<Rightarrow> False
   | Some ch \<Rightarrow> \<forall>v. owed_total ch v = 1000000000"
  unfolding demo_open_def
  using new_initial_channel_splits_funding [where amt = "AMOUNT_SAT 1000000"
      and sha = "\<lambda>_. replicate 32 0" and cp = net_sequentia_testnet and c = "[7]" and f = demo_outpoint
      and md = 1 and hts = "Some (new_height_states LOCAL (Some 0))" and le = 0
      and local_msat = "AMOUNT_MSAT 400000000" and fs = "new_fee_states LOCAL (Some 253)"
      and l = demo_config and r = demo_config and lb = demo_keys and rb = demo_keys and lk = "[8]"
      and rk = "[9]" and ty = channel_type_static_remotekey and w = False and op = LOCAL]
  by (auto split: option.splits)

lemma channel_update_funding_eq:
  "channel_update_funding ch f amt d =
     (Inr (), ch\<lparr>funding := f, funding_sats := amt,
        view := (\<lambda>s. (view ch s)\<lparr>owed := (owed (view ch s))
          (LOCAL := AMOUNT_MSAT (millisatoshis (owed (view ch s) LOCAL) + d * 1000),
           REMOTE := AMOUNT_MSAT (millisatoshis (owed (view ch s) REMOTE)
              + (satoshis amt - satoshis (funding_sats ch) - d) * 1000))\<rparr>)\<rparr>)"
  by (simp add: channel_update_funding_def Let_def)

text \<open>
  A splice moves the two balances of each view, as 64-bit sums, by exactly the change of the
  funding, whatever part of it is the local side's; it never reports an error.
\<close>

theorem channel_update_funding_total:
  assumes "channel_update_funding ch f amt d = (res, ch')"
  shows "res = Inr ()
     \<and> millisatoshis (owed (view ch' v) LOCAL) + millisatoshis (owed (view ch' v) REMOTE)
       = millisatoshis (owed (view ch v) LOCAL) + millisatoshis (owed (view ch v) REMOTE)
         + (satoshis amt - satoshis (funding_sats ch)) * 1000"
proof -
  have "a + d * 1000 + (b + (n - o' - d) * 1000) = a + b + (n - o') * (1000 :: u64)" for a b n o'
    by (simp add: algebra_simps)
  then show ?thesis
    using assms by (auto simp: channel_update_funding_eq)
qed

theorem channel_update_funding_total_witness:
  "\<exists>ch. demo_open (AMOUNT_SAT 1000000) (AMOUNT_MSAT 400000000) = Some ch
     \<and> fst (channel_update_funding ch demo_outpoint (AMOUNT_SAT 1500000) 500000) = Inr ()"
proof -
  obtain ch where "demo_open (AMOUNT_SAT 1000000) (AMOUNT_MSAT 400000000) = Some ch"
    by (simp add: demo_open_simps)
  moreover obtain r ch' where "channel_update_funding ch demo_outpoint (AMOUNT_SAT 1500000) 500000 = (r, ch')"
    by fastforce
  ultimately show ?thesis
    using channel_update_funding_total [of ch demo_outpoint "AMOUNT_SAT 1500000" 500000 r ch' LOCAL] by auto
qed

text \<open>
  The two checks for a negative balance never fire: they compare an unsigned sum with 0. A splice
  that takes out 500000 satoshi of a 400000 satoshi balance is not refused, and leaves that side
  with the wrapped balance \<open>2 ^ 64 - 100000000\<close> millisatoshi.
\<close>

theorem channel_update_funding_wraps:
  "\<exists>ch. demo_open (AMOUNT_SAT 1000000) (AMOUNT_MSAT 400000000) = Some ch
     \<and> (let (res, ch') = channel_update_funding ch demo_outpoint (AMOUNT_SAT 500000) (- 500000)
        in res = Inr () \<and> msat (owed (view ch' LOCAL) LOCAL) = 2 ^ 64 - 100000000)"
  by (simp add: demo_open_simps channel_update_funding_eq)

end
