(* ===== verification/Lanes.thy ===== *)
theory Lanes
  imports InitialChannel
begin

text \<open>
  Channels of several assets: the checks, lookups and the swap of \<^verbatim>\<open>common/sym_lanes.c\<close>. Lane 0 is
  the channel's own funding; lane \<open>i > 0\<close> is element \<open>i - 1\<close> of the channel's list of lanes. The
  error strings of \<^verbatim>\<open>sym_lanes_check\<close> are a datatype with what each message shows. Building the
  settlement and kickoff transactions needs scripts and libwally and is not modelled.
\<close>

section \<open>The operations\<close>

abbreviation (input) SYM_MAX_LANES :: nat where "SYM_MAX_LANES \<equiv> 8"

datatype lanes_err =
    LANES_COUNT nat
  | LANE_NOT_EXPLICIT nat
  | LANE_OWN_ASSET nat
  | LANES_SAME_ASSET nat nat
  | LANE_HOLDS nat amount_sat

text \<open>
  The loop over the lanes, \<open>i\<close> the index of the head of the list and \<open>seen\<close> the lanes before it.
\<close>

fun sym_lanes_check_loop ::
  "bytes \<Rightarrow> nat \<Rightarrow> sym_lane list \<Rightarrow> sym_lane list \<Rightarrow> lanes_err option" where
  "sym_lanes_check_loop asset i seen [] = None"
| "sym_lanes_check_loop asset i seen (l # ls) =
     (if lane_asset l ! 0 \<noteq> 0x01 then Some (LANE_NOT_EXPLICIT (i + 1))
      else if lane_asset l = asset then Some (LANE_OWN_ASSET (i + 1))
      else case find (\<lambda>j. lane_asset l = lane_asset (seen ! j)) [0 ..< length seen] of
             Some j \<Rightarrow> Some (LANES_SAME_ASSET (j + 1) (i + 1))
           | None \<Rightarrow>
               if amount_sat_eq (lane_funding_sats l) (AMOUNT_SAT 0)
                  \<or> satoshis (lane_funding_sats l) > 9223372036854775807 div 1000
               then Some (LANE_HOLDS (i + 1) (lane_funding_sats l))
               else sym_lanes_check_loop asset (i + 1) (seen @ [l]) ls)"

definition sym_lanes_check :: "sym_lane list \<Rightarrow> bytes \<Rightarrow> lanes_err option" where
  "sym_lanes_check lanes asset =
     (let n = length lanes
      in if n = 0 \<or> n > SYM_MAX_LANES then Some (LANES_COUNT n)
         else sym_lanes_check_loop asset 0 [] lanes)"

definition lanes_of :: "channel \<Rightarrow> sym_lane list" where
  "lanes_of ch = (case sym_lanes ch of None \<Rightarrow> [] | Some ls \<Rightarrow> ls)"

definition sym_num_lanes :: "channel \<Rightarrow> nat" where
  "sym_num_lanes ch = 1 + length (lanes_of ch)"

definition sym_lane_asset :: "channel \<Rightarrow> nat \<Rightarrow> bytes run" where
  "sym_lane_asset ch lane =
     (if lane = 0 then Some (channel_asset ch)
      else if lane \<le> length (lanes_of ch) then Some (lane_asset (lanes_of ch ! (lane - 1)))
      else None)"

text \<open>\<open>None\<close> is \<^verbatim>\<open>-1\<close>; the lanes the loop asks for exist.\<close>

definition sym_lane_of_asset :: "channel \<Rightarrow> bytes \<Rightarrow> nat option" where
  "sym_lane_of_asset ch asset = find (\<lambda>l. sym_lane_asset ch l = Some asset) [0 ..< sym_num_lanes ch]"

definition sym_lane_funding :: "channel \<Rightarrow> nat \<Rightarrow> (bitcoin_outpoint \<times> amount_sat) run" where
  "sym_lane_funding ch lane =
     (if lane = 0 then Some (funding ch, funding_sats ch)
      else if lane \<le> length (lanes_of ch)
      then let l = lanes_of ch ! (lane - 1)
           in Some ((funding ch)\<lparr>outpoint_n := lane_outnum l\<rparr>, lane_funding_sats l)
      else None)"

definition sym_lane_owed :: "channel \<Rightarrow> nat \<Rightarrow> side \<Rightarrow> side \<Rightarrow> amount_msat run" where
  "sym_lane_owed ch lane v side =
     (if lane = 0 then Some (owed (view ch v) side)
      else if lane \<le> length (sym_lane_bal ch) then Some ((sym_lane_bal ch ! (lane - 1)) v side)
      else None)"

definition sym_dust_limit :: "channel \<Rightarrow> amount_sat" where
  "sym_dust_limit ch =
     (if amount_sat_greater (dust_limit (config ch LOCAL)) (dust_limit (config ch REMOTE))
      then dust_limit (config ch LOCAL) else dust_limit (config ch REMOTE))"

definition owed_move ::
  "(side \<Rightarrow> amount_msat) \<Rightarrow> side \<Rightarrow> amount_msat \<Rightarrow> (side \<Rightarrow> amount_msat) option" where
  "owed_move ow from amount =
     do { f \<leftarrow> amount_msat_deduct (ow from) amount;
          t \<leftarrow> amount_msat_accumulate (ow (other from)) amount;
          Some (ow(from := f, other from := t)) }"

text \<open>The balances of one view, by lane: \<open>owed0\<close> for lane 0, and the other lanes'.\<close>

definition lane_bal ::
  "(side \<Rightarrow> amount_msat) \<Rightarrow> sym_lane_balance list \<Rightarrow> side \<Rightarrow> nat \<Rightarrow> side \<Rightarrow> amount_msat" where
  "lane_bal owed0 lanes v l = (if l = 0 then owed0 else (lanes ! (l - 1)) v)"

definition lane_put ::
  "side \<Rightarrow> nat \<Rightarrow> (side \<Rightarrow> amount_msat) \<Rightarrow> (side \<Rightarrow> amount_msat) \<times> sym_lane_balance list
   \<Rightarrow> (side \<Rightarrow> amount_msat) \<times> sym_lane_balance list" where
  "lane_put v l b = (\<lambda>(owed0, lanes).
     if l = 0 then (b, lanes) else (owed0, lanes[l - 1 := (lanes ! (l - 1))(v := b)]))"

definition sym_swap_apply ::
  "sym_swap \<Rightarrow> (side \<Rightarrow> amount_msat) \<Rightarrow> sym_lane_balance list \<Rightarrow> side
   \<Rightarrow> ((side \<Rightarrow> amount_msat) \<times> sym_lane_balance list) option" where
  "sym_swap_apply swap owed0 lanes v =
     (let owner = htlc_state_owner (swap_state swap); n = length lanes;
          gl = unat (give_lane swap); tl = unat (take_lane swap)
      in if gl = tl \<or> gl > n \<or> tl > n then None
         else do { give \<leftarrow> owed_move (lane_bal owed0 lanes v gl) owner (swap_give swap);
                   take \<leftarrow> owed_move (lane_bal owed0 lanes v tl) (other owner) (swap_take swap);
                   Some (lane_put v tl take (lane_put v gl give (owed0, lanes))) })"

section \<open>Sound lanes\<close>

definition lane_ok :: "sym_lane \<Rightarrow> bool" where
  "lane_ok l \<longleftrightarrow> lane_asset l ! 0 = 0x01 \<and> 0 < sat (lane_funding_sats l)
     \<and> sat (lane_funding_sats l) * 1000 < 2 ^ 63"

lemma lane_funds_ok:
  "\<not> (amount_sat_eq a (AMOUNT_SAT 0) \<or> satoshis a > 9223372036854775807 div 1000)
     \<longleftrightarrow> 0 < sat a \<and> sat a * 1000 < 2 ^ 63"
proof -
  have "satoshis a > 9223372036854775807 div 1000 \<longleftrightarrow> 9223372036854775 < sat a"
    by (simp add: word_less_nat_alt unat_div)
  then show ?thesis by (auto simp: amount_sat_eq_def unat_gt_0)
qed

lemma sym_lanes_check_loop_None:
  "sym_lanes_check_loop asset i seen ls = None \<longleftrightarrow>
     (\<forall>l \<in> set ls. lane_ok l) \<and> asset \<notin> lane_asset ` set ls
     \<and> distinct (map lane_asset ls) \<and> lane_asset ` set ls \<inter> lane_asset ` set seen = {}"
proof (induction ls arbitrary: i seen)
  case (Cons l ls)
  have seen: "find (\<lambda>j. lane_asset l = lane_asset (seen ! j)) [0 ..< length seen] = None
      \<longleftrightarrow> lane_asset l \<notin> lane_asset ` set seen"
    by (fastforce simp: find_None_iff in_set_conv_nth)
  show ?case
    using Cons.IH [of "i + 1" "seen @ [l]"] seen lane_funds_ok [of "lane_funding_sats l"]
    by (auto simp: lane_ok_def split: option.splits)
qed simp

text \<open>
  \<^verbatim>\<open>sym_lanes_check\<close> passes exactly the sound lists of lanes: between 1 and 8 of them, each with
  an explicit asset that is neither the channel's nor another lane's, each funded, and with its
  balance in millisatoshi within a signed 64-bit integer.
\<close>

theorem sym_lanes_check_sound:
  "sym_lanes_check lanes asset = None \<longleftrightarrow>
     length lanes \<in> {1..8} \<and> distinct (asset # map lane_asset lanes) \<and> list_all lane_ok lanes"
  by (auto simp: sym_lanes_check_def Let_def sym_lanes_check_loop_None list_all_iff Suc_le_eq)

lemma sym_lane_asset_nth:
  "l < sym_num_lanes ch \<Longrightarrow>
     sym_lane_asset ch l = Some ((channel_asset ch # map lane_asset (lanes_of ch)) ! l)"
  by (auto simp: sym_lane_asset_def sym_num_lanes_def nth_Cons')

lemma find_upt_unique:
  assumes "P k" "k < n" "\<And>j. j < n \<Longrightarrow> P j \<Longrightarrow> j = k"
  shows "find P [0 ..< n] = Some k"
proof (cases "find P [0 ..< n]")
  case None
  then have "\<not> P k" using assms(2) by (simp add: find_None_iff)
  then show ?thesis using assms(1) by blast
next
  case (Some j)
  then have "P j \<and> j < n" by (auto simp: find_Some_iff)
  then show ?thesis using Some assms(3) by blast
qed

text \<open>
  On a channel whose lanes pass the check, looking up a lane's asset finds that lane: the
  lookup by asset inverts the lookup by lane, and an asset of no lane is not found.
\<close>

theorem sym_lane_lookup_inverse:
  assumes "sym_lanes_check (lanes_of ch) (channel_asset ch) = None" and "l < sym_num_lanes ch"
  shows "\<exists>a. sym_lane_asset ch l = Some a \<and> sym_lane_of_asset ch a = Some l"
proof -
  let ?as = "channel_asset ch # map lane_asset (lanes_of ch)"
  have d: "distinct ?as" and n: "sym_num_lanes ch = length ?as"
    using assms(1) by (auto simp: sym_lanes_check_def sym_lanes_check_loop_None Let_def sym_num_lanes_def
        split: if_splits)
  have "j = l" if "j < sym_num_lanes ch" "sym_lane_asset ch j = Some (?as ! l)" for j
    using that assms(2) d n by (metis nth_eq_iff_index_eq option.inject sym_lane_asset_nth)
  then have "sym_lane_of_asset ch (?as ! l) = Some l"
    unfolding sym_lane_of_asset_def
    by (intro find_upt_unique) (use assms(2) sym_lane_asset_nth in auto)
  then show ?thesis using sym_lane_asset_nth [OF assms(2)] by blast
qed

definition demo_lane :: "u8 \<Rightarrow> sym_lane" where
  "demo_lane b = \<lparr>lane_asset = 1 # replicate 32 b, lane_outnum = 1, lane_funding_sats = AMOUNT_SAT 5000\<rparr>"

lemma demo_lanes_pass: "sym_lanes_check [demo_lane 2, demo_lane 3] (1 # replicate 32 7) = None"
  by (simp add: sym_lanes_check_def Let_def sym_lanes_check_loop_None demo_lane_def lane_ok_def amount_sat_eq_def)

theorem sym_lane_lookup_inverse_witness:
  "\<exists>ch. lanes_of ch = [demo_lane 2, demo_lane 3]
     \<and> sym_lane_asset ch 2 = Some (lane_asset (demo_lane 3))
     \<and> sym_lane_of_asset ch (lane_asset (demo_lane 3)) = Some 2"
proof -
  obtain c where "demo_open (AMOUNT_SAT 1000000) (AMOUNT_MSAT 400000000) = Some c"
    by (simp add: demo_open_simps)
  define ch where
    "ch = c\<lparr>channel_asset := 1 # replicate 32 7, sym_lanes := Some [demo_lane 2, demo_lane 3]\<rparr>"
  have l: "lanes_of ch = [demo_lane 2, demo_lane 3]" by (simp add: ch_def lanes_of_def)
  have "sym_lanes_check (lanes_of ch) (channel_asset ch) = None" "2 < sym_num_lanes ch"
    by (simp_all add: l demo_lanes_pass ch_def sym_num_lanes_def lanes_of_def)
  from sym_lane_lookup_inverse [OF this] l show ?thesis
    by (auto simp: sym_lane_asset_def intro!: exI [of _ ch])
qed

text \<open>What a swap leaves of one lane: \<open>give\<close> moved from one side to the other.\<close>

definition moved :: "(side \<Rightarrow> amount_msat) \<Rightarrow> side \<Rightarrow> nat \<Rightarrow> (side \<Rightarrow> amount_msat) \<Rightarrow> bool" where
  "moved before from n after \<longleftrightarrow>
     msat (before from) = msat (after from) + n \<and> msat (after (other from)) = msat (before (other from)) + n"

lemma owed_move_Some:
  "owed_move ow from a = Some ow' \<longleftrightarrow> moved ow from (msat a) ow'"
proof
  assume "owed_move ow from a = Some ow'"
  then show "moved ow from (msat a) ow'"
    by (auto simp: owed_move_def moved_def amount_msat_deduct_def amount_msat_accumulate_def
        msat_arith.add_iff msat_arith.sub_iff bind_eq_Some_conv)
next
  assume m: "moved ow from (msat a) ow'"
  have "ow(from := ow' from, other from := ow' (other from)) = ow'"
    by (cases "from") (auto simp: fun_eq_iff all_sides_iff)
  moreover have "amount_msat_deduct (ow from) a = Some (ow' from)"
      "amount_msat_accumulate (ow (other from)) a = Some (ow' (other from))"
    using m by (simp_all add: moved_def amount_msat_deduct_def amount_msat_accumulate_def
        msat_arith.add_iff msat_arith.sub_iff)
  ultimately show "owed_move ow from a = Some ow'" by (simp add: owed_move_def)
qed

definition movable :: "(side \<Rightarrow> amount_msat) \<Rightarrow> side \<Rightarrow> nat \<Rightarrow> bool" where
  "movable ow from n \<longleftrightarrow> n \<le> msat (ow from) \<and> msat (ow (other from)) + n < 2 ^ 64"

lemma owed_move_None: "owed_move ow from a = None \<longleftrightarrow> \<not> movable ow from (msat a)"
  by (auto simp: owed_move_def movable_def amount_msat_deduct_def amount_msat_accumulate_def
      bind_eq_None_conv msat_arith.add_None msat_arith.sub_None
      dest: msat_arith.sub_Some)

lemma lane_bal_put:
  assumes "l \<le> length (snd s)" "k \<le> length (snd s)"
  shows "lane_bal (fst (lane_put v l b s)) (snd (lane_put v l b s)) w k
     = (if k = l \<and> (l = 0 \<or> w = v) then b else lane_bal (fst s) (snd s) w k)"
  using assms by (cases s) (auto simp: lane_bal_def lane_put_def nth_list_update)

lemma length_lane_put [simp]: "length (snd (lane_put v l b s)) = length (snd s)"
  by (cases s) (auto simp: lane_put_def)

text \<open>
  (C31) A swap between two lanes is applied whole or not at all. When it succeeds its owner has paid
  \<open>give\<close> in one lane and been paid \<open>take\<close> in the other, each lane's total is what it was, and no
  other lane and no other view has changed. It fails exactly when the lanes are not two lanes of
  the channel or a leg cannot be moved, and then nothing changes.
\<close>

theorem sym_swap_apply_atomic:
  fixes swap :: sym_swap
  defines "own \<equiv> htlc_state_owner (swap_state swap)"
    and "gl \<equiv> unat (give_lane swap)" and "rl \<equiv> unat (take_lane swap)"
  shows "case sym_swap_apply swap owed0 lanes v of
     None \<Rightarrow> gl = rl \<or> gl > length lanes \<or> rl > length lanes
       \<or> \<not> movable (lane_bal owed0 lanes v gl) own (msat (swap_give swap))
       \<or> \<not> movable (lane_bal owed0 lanes v rl) (other own) (msat (swap_take swap))
   | Some (owed0', lanes') \<Rightarrow>
       gl \<noteq> rl \<and> length lanes' = length lanes
       \<and> moved (lane_bal owed0 lanes v gl) own (msat (swap_give swap)) (lane_bal owed0' lanes' v gl)
       \<and> moved (lane_bal owed0 lanes v rl) (other own) (msat (swap_take swap)) (lane_bal owed0' lanes' v rl)
       \<and> (\<forall>k w. k \<le> length lanes \<longrightarrow> (k \<noteq> gl \<and> k \<noteq> rl) \<or> (k \<noteq> 0 \<and> w \<noteq> v) \<longrightarrow>
            lane_bal owed0' lanes' w k = lane_bal owed0 lanes w k)"
proof (cases "gl = rl \<or> gl > length lanes \<or> rl > length lanes")
  case True
  then show ?thesis by (auto simp: sym_swap_apply_def Let_def gl_def rl_def)
next
  case False
  define G T where "G = owed_move (lane_bal owed0 lanes v gl) own (swap_give swap)"
    and "T = owed_move (lane_bal owed0 lanes v rl) (other own) (swap_take swap)"
  have code: "sym_swap_apply swap owed0 lanes v =
      do { give \<leftarrow> G; take \<leftarrow> T; Some (lane_put v rl take (lane_put v gl give (owed0, lanes))) }"
    using False by (simp add: sym_swap_apply_def Let_def G_def T_def own_def gl_def rl_def)
  show ?thesis
  proof (cases "G = None \<or> T = None")
    case True
    then have "sym_swap_apply swap owed0 lanes v = None" by (cases G) (auto simp: code)
    then show ?thesis using True by (auto simp: G_def T_def owed_move_None)
  next
    case ok: False
    then obtain g t where g: "G = Some g" and t: "T = Some t" by auto
    define s' where "s' = lane_put v rl t (lane_put v gl g (owed0, lanes))"
    have res: "sym_swap_apply swap owed0 lanes v = Some (fst s', snd s')"
      by (simp add: code g t s'_def)
    have "lane_bal (fst s') (snd s') w k =
        (if k = rl \<and> (rl = 0 \<or> w = v) then t else if k = gl \<and> (gl = 0 \<or> w = v) then g
         else lane_bal owed0 lanes w k)" if "k \<le> length lanes" for k w
      using that False by (auto simp: s'_def lane_bal_put)
    moreover have "length (snd s') = length lanes" by (simp add: s'_def)
    moreover have "moved (lane_bal owed0 lanes v gl) own (msat (swap_give swap)) g"
        "moved (lane_bal owed0 lanes v rl) (other own) (msat (swap_take swap)) t"
      using g t by (simp_all add: G_def T_def owed_move_Some)
    ultimately show ?thesis
      using False unfolding res by auto
  qed
qed

theorem sym_swap_apply_atomic_witness:
  "case sym_swap_apply
     \<lparr>swap_id = 1, swap_state = SENT_ADD_COMMIT, give_lane = 0, take_lane = 1,
      swap_give = AMOUNT_MSAT 10, swap_take = AMOUNT_MSAT 20\<rparr>
     (\<lambda>_. AMOUNT_MSAT 100) [\<lambda>_ _. AMOUNT_MSAT 50] REMOTE of
   None \<Rightarrow> False
   | Some (o', ls) \<Rightarrow> moved (\<lambda>_. AMOUNT_MSAT 100) LOCAL 10 o'
       \<and> moved (\<lambda>_. AMOUNT_MSAT 50) REMOTE 20 ((ls ! 0) REMOTE)"
  using sym_swap_apply_atomic [where swap =
     "\<lparr>swap_id = 1, swap_state = SENT_ADD_COMMIT, give_lane = 0, take_lane = 1,
      swap_give = AMOUNT_MSAT 10, swap_take = AMOUNT_MSAT 20\<rparr>"
     and ?owed0.0 = "\<lambda>_. AMOUNT_MSAT 100" and lanes = "[\<lambda>_ _. AMOUNT_MSAT 50]" and v = REMOTE]
  by (simp add: lane_bal_def movable_def htlc_state_owner_def state_lt_iff split: option.splits prod.splits)

end
