(* ===== verification/SymScripts.thy ===== *)
theory SymScripts
  imports Tapscript Lanes
begin

unbundle bit_operations_syntax

text \<open>
  The scripts of symmetric channels: \<^verbatim>\<open>common/sym_scripts.c\<close>. The leaves UPD, SETTLE, CLOCK, KICK and
  RETIRE and the leaves of an HTLC, the digest of a settlement, the tree of a state output and of the
  kickoff's output, the message that both sides sign, the witnesses and their parsing, and the check
  of a settle-clock channel's funding. A state number is an \<^verbatim>\<open>s64\<close>, kept as its 64 bits and read with
  \<^const>\<open>sint\<close> where it is compared. \<^verbatim>\<open>sym_marker_id\<close> is libwally's and is an argument, as are the fields
  of a struct that the code leaves as the stack held them.

  The lemmas show that a watcher who knows only a state's number and the hash beside its UPD leaf
  rebuilds the very output, that every control block opens the tree, that the two copies of the
  number encoder agree with \<^verbatim>\<open>bitcoin/script.c\<close>, that the witness of an update can be parsed, and what
  the check of a funding transaction guarantees.
\<close>

section \<open>The operations\<close>

abbreviation (input) SYM_OP_CAT :: u8 where "SYM_OP_CAT \<equiv> 0x7e"
abbreviation (input) SYM_OP_SHA256INITIALIZE :: u8 where "SYM_OP_SHA256INITIALIZE \<equiv> 0xc4"
abbreviation (input) SYM_OP_SHA256UPDATE :: u8 where "SYM_OP_SHA256UPDATE \<equiv> 0xc5"
abbreviation (input) SYM_OP_SHA256FINALIZE :: u8 where "SYM_OP_SHA256FINALIZE \<equiv> 0xc6"
abbreviation (input) SYM_OP_INSPECTINPUTASSET :: u8 where "SYM_OP_INSPECTINPUTASSET \<equiv> 0xc8"
abbreviation (input) SYM_OP_INSPECTINPUTVALUE :: u8 where "SYM_OP_INSPECTINPUTVALUE \<equiv> 0xc9"
abbreviation (input) SYM_OP_PUSHCURRENTINPUTINDEX :: u8 where "SYM_OP_PUSHCURRENTINPUTINDEX \<equiv> 0xcd"
abbreviation (input) SYM_OP_INSPECTOUTPUTASSET :: u8 where "SYM_OP_INSPECTOUTPUTASSET \<equiv> 0xce"
abbreviation (input) SYM_OP_INSPECTOUTPUTVALUE :: u8 where "SYM_OP_INSPECTOUTPUTVALUE \<equiv> 0xcf"
abbreviation (input) SYM_OP_INSPECTOUTPUTSCRIPTPUBKEY :: u8 where "SYM_OP_INSPECTOUTPUTSCRIPTPUBKEY \<equiv> 0xd1"
abbreviation (input) SYM_OP_GREATERTHAN64 :: u8 where "SYM_OP_GREATERTHAN64 \<equiv> 0xde"
abbreviation (input) SYM_OP_CHECKSIGFROMSTACKVERIFY :: u8 where "SYM_OP_CHECKSIGFROMSTACKVERIFY \<equiv> 0xc2"
abbreviation (input) SYM_OP_1SUB :: u8 where "SYM_OP_1SUB \<equiv> 0x8c"
abbreviation (input) SYM_OP_INSPECTINPUTSCRIPTPUBKEY :: u8 where "SYM_OP_INSPECTINPUTSCRIPTPUBKEY \<equiv> 0xca"
abbreviation (input) SYM_OP_INSPECTLOCKTIME :: u8 where "SYM_OP_INSPECTLOCKTIME \<equiv> 0xd3"
abbreviation (input) SIMPLICITY_LEAF_VERSION_ELEMENTS :: u8 where "SIMPLICITY_LEAF_VERSION_ELEMENTS \<equiv> 0xbe"
abbreviation (input) SYM_CLOCK_LOCKTIME_FLOOR :: u32 where "SYM_CLOCK_LOCKTIME_FLOOR \<equiv> 500000001"

definition nums_der :: bytes where
  "nums_der =
     [0x02, 0x50, 0x92, 0x9b, 0x74, 0xc1, 0xa0, 0x49, 0x54, 0xb7, 0x8b,
      0x4b, 0x60, 0x35, 0xe9, 0x7a, 0x5e, 0x07, 0x8a, 0x5a, 0x0f, 0x28,
      0xec, 0x96, 0xd5, 0x47, 0xbf, 0xee, 0x9a, 0xce, 0x80, 0x3a, 0xc0]"

subsection \<open>Appending to a leaf\<close>

definition op :: "u8 \<Rightarrow> bytes" where "op opcode = [opcode]"

definition push :: "bytes \<Rightarrow> bytes" where "push mem = script_push_bytes mem"

text \<open>The bytes that the loop \<^verbatim>\<open>while (num)\<close> puts in its buffer.\<close>

function num_digits :: "u32 \<Rightarrow> bytes" where
  "num_digits num = (if num = 0 then [] else ucast (num AND 0xff) # num_digits (drop_bit 8 num))"
  by pat_completeness auto
termination
proof (relation "measure unat")
  show "(drop_bit 8 num, num) \<in> measure unat" if "num \<noteq> 0" for num :: u32
  proof -
    have "unat (drop_bit 8 num) = unat num div 256"
      unfolding unat_drop_bit_eq by (simp add: drop_bit_eq_div)
    moreover have "0 < unat num" using that by (simp add: unat_gt_0)
    ultimately show ?thesis by simp
  qed
qed simp

definition push_num :: "u32 \<Rightarrow> bytes" where
  "push_num num =
     (if num = 0 then op OP_0
      else if num \<le> 16 then op (OP_1 + ucast num - 1)
      else let buf = num_digits num in
           push (if last buf AND 0x80 \<noteq> 0 then buf @ [0] else buf))"

definition push_xonly :: "bytes \<Rightarrow> bytes" where
  "push_xonly key = push (pubkey_to_xonly key)"

definition le8s :: "u64 \<Rightarrow> bytes" where
  "le8s v = le_bytes 8 (unat v)"

subsection \<open>The constants of a channel\<close>

record sym_clock =
  clock_marker :: bytes
  clock_funding_prog :: bytes
  clock_capacity :: amount_sat

record sym_channel =
  sc_tag :: bytes
  sc_opener_key :: bytes
  sc_accepter_key :: bytes
  sc_asset :: bytes
  sc_delay :: u16
  sc_has_clock :: bool
  sc_clock :: sym_clock

definition sym_channel_init ::
  "crypto \<Rightarrow> chainparams \<Rightarrow> bytes \<Rightarrow> bitcoin_outpoint \<Rightarrow> bytes \<Rightarrow> bytes \<Rightarrow> bytes option \<Rightarrow> u16 \<Rightarrow> sym_channel run" where
  "sym_channel_init cr cp genesis fund opener_upd_key accepter_upd_key asset_opt delay =
     (let tag = sha256 cr (str_bytes ''SeqLN symmetric update v1'' @ genesis @ outpoint_txid fund
                           @ le_bytes 4 (unat (outpoint_n fund)))
      in case (case asset_opt of None \<Rightarrow> fee_asset_tag cp | Some a \<Rightarrow> Some a) of
           None \<Rightarrow> None
         | Some a \<Rightarrow>
             if a ! 0 \<noteq> 0x01 then None
             else Some \<lparr>sc_tag = tag, sc_opener_key = opener_upd_key, sc_accepter_key = accepter_upd_key,
                        sc_asset = a, sc_delay = delay, sc_has_clock = False,
                        sc_clock = \<lparr>clock_marker = replicate 32 0, clock_funding_prog = replicate 32 0,
                                    clock_capacity = AMOUNT_SAT 0\<rparr>\<rparr>)"

definition sym_channel_set_clock :: "crypto \<Rightarrow> sym_channel \<Rightarrow> bytes \<Rightarrow> bytes \<Rightarrow> amount_sat \<Rightarrow> sym_channel" where
  "sym_channel_set_clock cr sc marker funding_wscript capacity =
     sc\<lparr>sc_has_clock := True,
        sc_clock := \<lparr>clock_marker = marker, clock_funding_prog = sha256 cr funding_wscript, clock_capacity = capacity\<rparr>\<rparr>"

definition sym_state_num :: "u64 \<Rightarrow> bool \<Rightarrow> u64 run" where
  "sym_state_num commitment_index is_opener =
     (if commitment_index < push_bit 61 1 then Some (commitment_index * 2 + (if is_opener then 0 else 1)) else None)"

subsection \<open>Leaves\<close>

definition sym_leaf_upd :: "sym_channel \<Rightarrow> u64 \<Rightarrow> bytes" where
  "sym_leaf_upd sc k =
     (if sc_has_clock sc
      then push_num SYM_CLOCK_LOCKTIME_FLOOR @ op OP_CHECKLOCKTIMEVERIFY @ op OP_DROP else [])
     @ op OP_OVER @ push (le8s k) @ op SYM_OP_GREATERTHAN64 @ op OP_VERIFY
     @ op SYM_OP_PUSHCURRENTINPUTINDEX @ op SYM_OP_INSPECTOUTPUTSCRIPTPUBKEY @ op OP_1 @ op OP_EQUALVERIFY
     @ op OP_ROT @ op OP_SWAP @ op SYM_OP_CAT @ op OP_SWAP @ op SYM_OP_CAT
     @ push (sc_tag sc) @ op OP_SWAP @ op SYM_OP_CAT @ op OP_SHA256
     @ op OP_TUCK @ push_xonly (sc_opener_key sc) @ op SYM_OP_CHECKSIGFROMSTACKVERIFY
     @ push_xonly (sc_accepter_key sc) @ op SYM_OP_CHECKSIGFROMSTACKVERIFY
     @ op SYM_OP_PUSHCURRENTINPUTINDEX @ op SYM_OP_INSPECTOUTPUTVALUE
     @ op SYM_OP_PUSHCURRENTINPUTINDEX @ op SYM_OP_INSPECTINPUTVALUE
     @ op OP_ROT @ op OP_EQUALVERIFY @ op OP_EQUALVERIFY
     @ op SYM_OP_PUSHCURRENTINPUTINDEX @ op SYM_OP_INSPECTOUTPUTASSET
     @ op SYM_OP_PUSHCURRENTINPUTINDEX @ op SYM_OP_INSPECTINPUTASSET
     @ op OP_ROT @ op OP_EQUALVERIFY @ op OP_EQUAL"

datatype sym_output_kind = SYM_OUT_BALANCE | SYM_OUT_HTLC

text \<open>The caller's handle of an HTLC is the HTLC.\<close>

record sym_output =
  out_kind :: sym_output_kind
  out_side :: side
  out_amount :: amount_sat
  out_spk :: bytes
  out_asset :: "bytes option"
  out_htlc :: "htlc option"
  out_cltv_expiry :: u32

text \<open>The version and the program.\<close>

definition witness_program :: "bytes \<Rightarrow> (u8 \<times> bytes) run" where
  "witness_program spk =
     (let len = length spk in
      if \<not> (len \<ge> 4 \<and> unat (spk ! 1) = len - 2) then None
      else if \<not> (spk ! 0 = OP_0 \<or> spk ! 0 \<ge> OP_1 \<and> spk ! 0 \<le> OP_16) then None
      else Some (if spk ! 0 = OP_0 then 0 else spk ! 0 - OP_1 + 1, drop 2 spk))"

text \<open>What one output adds to the hash.\<close>

definition settle_piece :: "crypto \<Rightarrow> sym_channel \<Rightarrow> sym_output \<Rightarrow> bytes run" where
  "settle_piece cr sc out =
     do { (version, prog) \<leftarrow> witness_program (out_spk out);
          Some (drop 1 (case out_asset out of Some a \<Rightarrow> a | None \<Rightarrow> sc_asset sc) @ [0x01]
                @ le_bytes 8 (sat (out_amount out)) @ [0x01]
                @ sha256 cr (prog @ (if version \<noteq> 0 then [version] else []))) }"

definition sym_settle_digest :: "crypto \<Rightarrow> sym_channel \<Rightarrow> sym_output list \<Rightarrow> bytes run" where
  "sym_settle_digest cr sc outs =
     do { ps \<leftarrow> map_run (settle_piece cr sc) outs; Some (sha256 cr (concat ps)) }"

definition settle_output_ops :: "nat \<Rightarrow> nat \<Rightarrow> nat \<Rightarrow> bytes" where
  "settle_output_ops m first j =
     (let i = of_nat (first + j) in
      push_num i @ op SYM_OP_INSPECTOUTPUTASSET @ op SYM_OP_CAT
      @ op (if j = 0 then SYM_OP_SHA256INITIALIZE else SYM_OP_SHA256UPDATE)
      @ push_num i @ op SYM_OP_INSPECTOUTPUTVALUE @ op SYM_OP_CAT @ op SYM_OP_SHA256UPDATE
      @ push_num i @ op SYM_OP_INSPECTOUTPUTSCRIPTPUBKEY @ op SYM_OP_CAT @ op OP_SHA256
      @ op (if j = m - 1 then SYM_OP_SHA256FINALIZE else SYM_OP_SHA256UPDATE))"

definition sym_leaf_settle :: "crypto \<Rightarrow> sym_channel \<Rightarrow> sym_output list \<Rightarrow> bytes run" where
  "sym_leaf_settle cr sc outs =
     (let m = length outs in
      if m < 1 then None
      else
        let pairs = [(SYM_OP_INSPECTOUTPUTSCRIPTPUBKEY, SYM_OP_INSPECTINPUTSCRIPTPUBKEY),
                     (SYM_OP_INSPECTOUTPUTASSET, SYM_OP_INSPECTINPUTASSET),
                     (SYM_OP_INSPECTOUTPUTVALUE, SYM_OP_INSPECTINPUTVALUE)];
            (start, first) =
              (if sc_has_clock sc
               then (concat (map (\<lambda>(a, b). op SYM_OP_PUSHCURRENTINPUTINDEX @ op a
                                  @ op SYM_OP_PUSHCURRENTINPUTINDEX @ op b
                                  @ op OP_ROT @ op OP_EQUALVERIFY @ op OP_EQUALVERIFY) pairs), 1)
               else (push_num (ucast (sc_delay sc)) @ op OP_CHECKSEQUENCEVERIFY @ op OP_DROP, 0))
        in do { digest \<leftarrow> sym_settle_digest cr sc outs;
                Some (start @ concat (map (settle_output_ops m first) [0 ..< m]) @ push digest @ op OP_EQUAL) })"

definition sym_leaf_htlc_success :: "bytes \<Rightarrow> bytes \<Rightarrow> bytes" where
  "sym_leaf_htlc_success payment_ripemd receiver_key =
     op OP_SIZE @ push_num 32 @ op OP_EQUALVERIFY @ op OP_HASH160 @ push payment_ripemd
     @ op OP_EQUALVERIFY @ push_xonly receiver_key @ op OP_CHECKSIG"

definition sym_leaf_htlc_timeout :: "bytes \<Rightarrow> u32 \<Rightarrow> bytes" where
  "sym_leaf_htlc_timeout offerer_key cltv_expiry =
     push_xonly offerer_key @ op OP_CHECKSIGVERIFY @ push_num cltv_expiry @ op OP_CHECKLOCKTIMEVERIFY"

definition nums_key :: bytes where "nums_key = nums_der"

text \<open>The leaves at \<^verbatim>\<open>SYM_HTLC_LEAF_SUCCESS\<close> and \<^verbatim>\<open>SYM_HTLC_LEAF_TIMEOUT\<close>, which are 0 and 1.\<close>

definition sym_htlc_tree :: "crypto \<Rightarrow> bytes \<Rightarrow> bytes \<Rightarrow> bytes \<Rightarrow> u32 \<Rightarrow> tap_tree2 \<Rightarrow> tap_tree2 run" where
  "sym_htlc_tree cr offerer_key receiver_key payment_ripemd cltv_expiry tree =
     tap_tree2_finish cr
       (tree\<lparr>tt_leaf := [sym_leaf_htlc_success payment_ripemd receiver_key,
                         sym_leaf_htlc_timeout offerer_key cltv_expiry],
             tt_internal_key := nums_key\<rparr>)"

definition tweak_nums :: "crypto \<Rightarrow> bytes \<Rightarrow> bytes" where
  "tweak_nums cr root = bip341_tweak cr nums_der root"

subsection \<open>The tree of a state\<close>

record sym_tree =
  st_n :: u64
  st_upd :: bytes
  st_settle :: "bytes option"
  st_upd_hash :: bytes
  st_rest :: bytes
  st_has_sim :: bool
  st_settle_hash :: bytes
  st_sim_hash :: bytes
  st_merkle_root :: bytes
  st_output_der :: bytes

definition sym_state_tree ::
  "crypto \<Rightarrow> sym_channel \<Rightarrow> u64 \<Rightarrow> sym_output list \<Rightarrow> bytes option \<Rightarrow> sym_tree \<Rightarrow> sym_tree run" where
  "sym_state_tree cr sc n outs sim_cmr tree =
     do { let upd = sym_leaf_upd sc n;
          settle \<leftarrow> sym_leaf_settle cr sc outs;
          let upd_hash = tap_leaf_hash cr upd;
          let settle_hash = tap_leaf_hash cr settle;
          let sim_hash = (case sim_cmr of
                            Some c \<Rightarrow> tap_leaf_hash_version cr SIMPLICITY_LEAF_VERSION_ELEMENTS (take 32 c)
                          | None \<Rightarrow> st_sim_hash tree);
          let rest = (if sim_cmr \<noteq> None then tap_branch_hash cr settle_hash sim_hash else settle_hash);
          let root = tap_branch_hash cr upd_hash rest;
          Some \<lparr>st_n = n, st_upd = upd, st_settle = Some settle, st_upd_hash = upd_hash, st_rest = rest,
                st_has_sim = (sim_cmr \<noteq> None), st_settle_hash = settle_hash, st_sim_hash = sim_hash,
                st_merkle_root = root, st_output_der = tweak_nums cr root\<rparr> }"

definition sym_kickoff_tree :: "crypto \<Rightarrow> sym_channel \<Rightarrow> sym_tree \<Rightarrow> sym_tree" where
  "sym_kickoff_tree cr sc tree =
     (let upd = sym_leaf_upd sc (- 1); upd_hash = tap_leaf_hash cr upd
      in \<lparr>st_n = - 1, st_upd = upd, st_settle = None, st_upd_hash = upd_hash, st_rest = replicate 32 0,
          st_has_sim = False, st_settle_hash = replicate 32 0, st_sim_hash = st_sim_hash tree,
          st_merkle_root = upd_hash, st_output_der = tweak_nums cr upd_hash\<rparr>)"

text \<open>The output script, and the control block for the leaf whose path is \<open>sibling\<close>.\<close>

definition nums_spk :: "crypto \<Rightarrow> bytes \<Rightarrow> bytes option \<Rightarrow> bytes \<times> bytes" where
  "nums_spk cr root sibling =
     (let der = tweak_nums cr root
      in ([OP_1, 32] @ take 32 (drop 1 der),
          [TAPSCRIPT_LEAF_VERSION_ELEMENTS OR (if der ! 0 = SECP256K1_TAG_PUBKEY_ODD then 1 else 0)]
          @ drop 1 nums_der @ (case sibling of None \<Rightarrow> [] | Some h \<Rightarrow> h)))"

subsection \<open>The settle clock\<close>

definition sym_leaf_clock :: "sym_channel \<Rightarrow> bytes run" where
  "sym_leaf_clock sc =
     (if \<not> sc_has_clock sc then None
      else Some (push_num (ucast (sc_delay sc)) @ op OP_CHECKSEQUENCEVERIFY @ op OP_DROP
                 @ op SYM_OP_INSPECTLOCKTIME @ push (replicate 4 0) @ op OP_EQUALVERIFY
                 @ op SYM_OP_PUSHCURRENTINPUTINDEX @ op SYM_OP_1SUB @ op SYM_OP_INSPECTINPUTASSET
                 @ op OP_1 @ op OP_EQUALVERIFY @ push (clock_marker (sc_clock sc)) @ op OP_EQUAL))"

definition sym_clock_spk :: "crypto \<Rightarrow> sym_channel \<Rightarrow> (bytes \<times> bytes) run" where
  "sym_clock_spk cr sc =
     do { leaf \<leftarrow> sym_leaf_clock sc; Some (nums_spk cr (tap_leaf_hash cr leaf) None) }"

definition explicit_is :: "bool \<Rightarrow> u8 \<Rightarrow> bytes \<Rightarrow> bytes" where
  "explicit_is before inspect v =
     op SYM_OP_PUSHCURRENTINPUTINDEX @ (if before then op SYM_OP_1SUB else []) @ op inspect
     @ op OP_1 @ op OP_EQUALVERIFY @ push v @ op OP_EQUALVERIFY"

definition sym_leaf_kick :: "crypto \<Rightarrow> sym_channel \<Rightarrow> bytes run" where
  "sym_leaf_kick cr sc =
     do { (clock, _) \<leftarrow> sym_clock_spk cr sc;
          let cap = le_bytes 8 (sat (clock_capacity (sc_clock sc)));
          let clock_prog = take 32 (drop 2 clock);
          if \<not> sc_has_clock sc then None
          else Some (op SYM_OP_PUSHCURRENTINPUTINDEX @ op SYM_OP_1SUB @ op SYM_OP_INSPECTINPUTSCRIPTPUBKEY
                     @ op OP_0 @ op OP_EQUALVERIFY @ push (clock_funding_prog (sc_clock sc)) @ op OP_EQUALVERIFY
                     @ explicit_is True SYM_OP_INSPECTINPUTVALUE cap
                     @ explicit_is True SYM_OP_INSPECTINPUTASSET (drop 1 (sc_asset sc))
                     @ explicit_is False SYM_OP_INSPECTOUTPUTASSET (drop 1 (sc_asset sc))
                     @ explicit_is False SYM_OP_INSPECTOUTPUTVALUE cap
                     @ op SYM_OP_PUSHCURRENTINPUTINDEX @ op SYM_OP_INSPECTOUTPUTSCRIPTPUBKEY
                     @ op OP_1 @ op OP_EQUALVERIFY @ push clock_prog @ op OP_EQUAL) }"

definition sym_leaf_retire :: "sym_channel \<Rightarrow> bytes" where
  "sym_leaf_retire sc =
     push_xonly (sc_opener_key sc) @ op OP_CHECKSIGVERIFY @ push_xonly (sc_accepter_key sc) @ op OP_CHECKSIG"

text \<open>The seed's output script, and the control blocks of KICK and of RETIRE.\<close>

definition sym_seed_spk :: "crypto \<Rightarrow> sym_channel \<Rightarrow> (bytes \<times> bytes \<times> bytes) run" where
  "sym_seed_spk cr sc =
     do { kick_leaf \<leftarrow> sym_leaf_kick cr sc;
          let kick = tap_leaf_hash cr kick_leaf;
          let retire = tap_leaf_hash cr (sym_leaf_retire sc);
          let root = tap_branch_hash cr kick retire;
          let (spk, kick_cb) = nums_spk cr root (Some retire);
          Some (spk, kick_cb, snd (nums_spk cr root (Some kick))) }"

definition explicit_value :: "bytes \<Rightarrow> u64 option" where
  "explicit_value v =
     (if length v \<noteq> 9 \<or> v ! 0 \<noteq> 0x01 then None
      else Some (foldl (\<lambda>out b. push_bit 8 out OR ucast b) 0 (drop 1 v)))"

definition all_zero :: "bytes \<Rightarrow> bool" where
  "all_zero p = list_all (\<lambda>b. b = 0) p"

definition sym_clock_seed ::
  "crypto \<Rightarrow> (bitcoin_outpoint \<Rightarrow> bytes) \<Rightarrow> sym_channel \<Rightarrow> bitcoin_outpoint \<Rightarrow> bytes \<Rightarrow> amount_sat \<Rightarrow> bytes run" where
  "sym_clock_seed cr sym_marker_id sc issuer funding_wscript capacity =
     map_option fst (sym_seed_spk cr (sym_channel_set_clock cr sc (sym_marker_id issuer) funding_wscript capacity))"

subsection \<open>The check of a funding transaction\<close>

text \<open>
  What the check reads of libwally's \<^verbatim>\<open>struct wally_tx\<close>: its inputs and outputs, with
  \<^verbatim>\<open>WALLY_TX_IS_ISSUANCE\<close> of an input's features as a truth value.
\<close>

record wally_tx_input =
  in_txhash :: bytes
  in_index :: u32
  in_is_issuance :: bool
  in_blinding_nonce :: bytes
  in_entropy :: bytes
  in_issuance_amount :: bytes
  in_inflation_keys :: bytes

record wally_tx_output =
  txo_script :: bytes
  txo_satoshi :: u64
  txo_asset :: bytes
  txo_value :: bytes

definition wally_tx_output_get_amount :: "chainparams \<Rightarrow> wally_tx_output \<Rightarrow> amount_asset run" where
  "wally_tx_output_get_amount cp output =
     (if is_elements cp then
        if length (txo_asset output) \<noteq> 33 then None
        else Some \<lparr>asset_value = (if txo_asset output ! 0 = 0x01 then of_nat (be_val (take 8 (drop 1 (txo_value output)))) else 0),
                   asset_tag = txo_asset output\<rparr>
      else Some \<lparr>asset_value = txo_satoshi output, asset_tag = replicate 33 0\<rparr>)"

datatype clock_err =
    CLOCK_NOT_FUNDING_TX
  | CLOCK_NO_OUTPUT
  | CLOCK_NOT_FUNDING_OUTPUT
  | CLOCK_NO_ISSUER
  | CLOCK_NO_ISSUANCE
  | CLOCK_REISSUANCE
  | CLOCK_BLINDED_AMOUNT
  | CLOCK_ATOMS u64
  | CLOCK_TOKEN
  | CLOCK_MARKER_NOT_SEED nat
  | CLOCK_SEEDS nat

text \<open>
  The loop over the outputs, \<open>i\<close> the index of the head: how many seeds and the last one's index,
  or the output that holds the marker and is not the seed.
\<close>

fun seed_loop :: "bytes \<Rightarrow> bytes \<Rightarrow> nat \<Rightarrow> wally_tx_output list \<Rightarrow> nat \<Rightarrow> u32 \<Rightarrow> clock_err + nat \<times> u32" where
  "seed_loop marker seed_spk i [] seeds outnum = Inr (seeds, outnum)"
| "seed_loop marker seed_spk i (out # outs) seeds outnum =
     (if length (txo_asset out) \<noteq> 33 \<or> txo_asset out ! 0 \<noteq> 0x01 \<or> drop 1 (txo_asset out) \<noteq> marker
      then seed_loop marker seed_spk (i + 1) outs seeds outnum
      else if explicit_value (txo_value out) \<noteq> Some 1 \<or> txo_script out \<noteq> seed_spk
      then Inl (CLOCK_MARKER_NOT_SEED i)
      else seed_loop marker seed_spk (i + 1) outs (seeds + 1) (of_nat i))"

text \<open>The last input that spends the issuer.\<close>

definition issuer_input :: "wally_tx_input list \<Rightarrow> bitcoin_outpoint \<Rightarrow> wally_tx_input option" where
  "issuer_input ins issuer =
     find (\<lambda>t. in_index t = outpoint_n issuer \<and> in_txhash t = outpoint_txid issuer) (rev ins)"

text \<open>\<open>Inl\<close> is the error string, \<open>Inr\<close> the index of the seed.\<close>

definition sym_clock_check_funding ::
  "chainparams \<Rightarrow> (bitcoin_outpoint \<Rightarrow> bytes) \<Rightarrow> bytes \<Rightarrow> wally_tx_input list \<Rightarrow> wally_tx_output list
   \<Rightarrow> bitcoin_outpoint \<Rightarrow> bytes \<Rightarrow> bytes \<Rightarrow> amount_sat \<Rightarrow> bitcoin_outpoint \<Rightarrow> bytes \<Rightarrow> u32
   \<Rightarrow> (clock_err + u32) run" where
  "sym_clock_check_funding cp sym_marker_id txid inputs outputs fund funding_spk asset capacity issuer seed_spk seed_outnum =
     (if txid \<noteq> outpoint_txid fund then Some (Inl CLOCK_NOT_FUNDING_TX)
      else if unat (outpoint_n fund) \<ge> length outputs then Some (Inl CLOCK_NO_OUTPUT)
      else
        let fo = outputs ! unat (outpoint_n fund) in
        do { a \<leftarrow> wally_tx_output_get_amount cp fo;
             if txo_script fo \<noteq> funding_spk \<or> \<not> amount_asset_is cp a asset \<or> asset_value a \<noteq> satoshis capacity
             then Some (Inl CLOCK_NOT_FUNDING_OUTPUT)
             else case issuer_input inputs issuer of
                    None \<Rightarrow> Some (Inl CLOCK_NO_ISSUER)
                  | Some inp \<Rightarrow>
                      if \<not> in_is_issuance inp then Some (Inl CLOCK_NO_ISSUANCE)
                      else if \<not> all_zero (in_blinding_nonce inp) \<or> \<not> all_zero (in_entropy inp)
                      then Some (Inl CLOCK_REISSUANCE)
                      else case explicit_value (in_issuance_amount inp) of
                             None \<Rightarrow> Some (Inl CLOCK_BLINDED_AMOUNT)
                           | Some v \<Rightarrow>
                               if v \<noteq> 1 then Some (Inl (CLOCK_ATOMS v))
                               else if length (in_inflation_keys inp) > 1
                                       \<or> length (in_inflation_keys inp) = 1 \<and> in_inflation_keys inp ! 0 \<noteq> 0
                               then Some (Inl CLOCK_TOKEN)
                               else case seed_loop (sym_marker_id issuer) seed_spk 0 outputs 0 seed_outnum of
                                      Inl e \<Rightarrow> Some (Inl e)
                                    | Inr (seeds, outnum) \<Rightarrow>
                                        if seeds \<noteq> 1 then Some (Inl (CLOCK_SEEDS seeds))
                                        else Some (Inr outnum) })"

subsection \<open>Outputs, control blocks and witnesses\<close>

definition sym_tree_program :: "sym_tree \<Rightarrow> bytes" where
  "sym_tree_program tree = take 32 (drop 1 (st_output_der tree))"

definition sym_tree_spk :: "sym_tree \<Rightarrow> bytes" where
  "sym_tree_spk tree = [OP_1, 32] @ sym_tree_program tree"

abbreviation (input) SYM_LEAF_UPD :: nat where "SYM_LEAF_UPD \<equiv> 0"
abbreviation (input) SYM_LEAF_SETTLE :: nat where "SYM_LEAF_SETTLE \<equiv> 1"
abbreviation (input) SYM_LEAF_SIM :: nat where "SYM_LEAF_SIM \<equiv> 2"

definition sym_tree_control_block :: "sym_tree \<Rightarrow> nat \<Rightarrow> bytes run" where
  "sym_tree_control_block tree leaf =
     (let parity = (if st_output_der tree ! 0 = SECP256K1_TAG_PUBKEY_ODD then 1 else 0);
          cb = [(if leaf = SYM_LEAF_SIM then SIMPLICITY_LEAF_VERSION_ELEMENTS else TAPSCRIPT_LEAF_VERSION_ELEMENTS)
                OR parity] @ drop 1 nums_der
      in if st_n tree = - 1 then (if leaf = SYM_LEAF_UPD then Some cb else None)
         else if leaf = SYM_LEAF_UPD then Some (cb @ st_rest tree)
         else if leaf = SYM_LEAF_SETTLE then
           Some (if st_has_sim tree then cb @ st_sim_hash tree @ st_upd_hash tree else cb @ st_upd_hash tree)
         else if leaf = SYM_LEAF_SIM then
           (if st_has_sim tree then Some (cb @ st_settle_hash tree @ st_upd_hash tree) else None)
         else None)"

text \<open>The output script, the UPD leaf and its control block; \<open>uninit\<close> is what the stack held.\<close>

definition sym_rebuild_state ::
  "crypto \<Rightarrow> sym_channel \<Rightarrow> u64 \<Rightarrow> bytes \<Rightarrow> sym_tree \<Rightarrow> (bytes \<times> bytes \<times> bytes) run" where
  "sym_rebuild_state cr sc k rest uninit =
     (let upd = sym_leaf_upd sc k; upd_hash = tap_leaf_hash cr upd; root = tap_branch_hash cr upd_hash rest;
          tree = uninit\<lparr>st_n := k, st_upd := upd, st_settle := None, st_has_sim := False, st_upd_hash := upd_hash,
                        st_rest := rest, st_merkle_root := root, st_output_der := tweak_nums cr root\<rparr>
      in do { cb \<leftarrow> sym_tree_control_block tree SYM_LEAF_UPD; Some (sym_tree_spk tree, st_upd tree, cb) })"

definition sym_upd_msg :: "crypto \<Rightarrow> sym_channel \<Rightarrow> sym_tree \<Rightarrow> bytes run" where
  "sym_upd_msg cr sc tree =
     (if sint (st_n tree) < 0 then None
      else Some (sha256 cr (sc_tag sc @ le8s (st_n tree) @ sym_tree_program tree @ st_rest tree)))"

definition sym_update_witness :: "bytes \<Rightarrow> bytes \<Rightarrow> sym_tree \<Rightarrow> bytes \<Rightarrow> bytes \<Rightarrow> bytes list" where
  "sym_update_witness sig_opener sig_accepter tree prev_leaf prev_cb =
     [sig_accepter, sig_opener, le8s (st_n tree), st_rest tree, prev_leaf, prev_cb]"

definition sym_settle_witness :: "sym_tree \<Rightarrow> bytes list run" where
  "sym_settle_witness tree =
     do { settle \<leftarrow> st_settle tree; cb \<leftarrow> sym_tree_control_block tree SYM_LEAF_SETTLE; Some [settle, cb] }"

definition sym_witness_len :: "bytes list \<Rightarrow> nat" where
  "sym_witness_len wit =
     (let n = length wit in
      if n \<ge> 2 \<and> length (wit ! (n - 1)) > 0 \<and> wit ! (n - 1) ! 0 = TAP_ANNEX_TAG then n - 1 else n)"

definition sym_parse_update_witness :: "bytes list \<Rightarrow> (u64 \<times> bytes) option" where
  "sym_parse_update_witness wit =
     (if sym_witness_len wit \<noteq> 6 \<or> length (wit ! 0) \<noteq> 64 \<or> length (wit ! 1) \<noteq> 64
         \<or> length (wit ! 2) \<noteq> 8 \<or> length (wit ! 3) \<noteq> 32 then None
      else Some (of_nat (be_val (rev (wit ! 2))), wit ! 3))"

definition sym_clock_marker_asset :: "sym_channel \<Rightarrow> bytes run" where
  "sym_clock_marker_asset sc = (if sc_has_clock sc then Some (0x01 # clock_marker (sc_clock sc)) else None)"

definition sym_seed_witness :: "crypto \<Rightarrow> sym_channel \<Rightarrow> bytes list run" where
  "sym_seed_witness cr sc =
     do { (_, kick_cb, _) \<leftarrow> sym_seed_spk cr sc; kick \<leftarrow> sym_leaf_kick cr sc; Some [kick, kick_cb] }"

definition sym_clock_witness :: "crypto \<Rightarrow> sym_channel \<Rightarrow> bytes list run" where
  "sym_clock_witness cr sc =
     do { (_, cb) \<leftarrow> sym_clock_spk cr sc; clock \<leftarrow> sym_leaf_clock sc; Some [clock, cb] }"

definition sym_kickoff_witness :: "bytes \<Rightarrow> bytes \<Rightarrow> bytes \<Rightarrow> bytes \<Rightarrow> bytes list run" where
  "sym_kickoff_witness sig_a key_a sig_b key_b = bitcoin_witness_2of2 sig_a sig_b key_a key_b"

section \<open>Numbers in a script\<close>

declare num_digits.simps [simp del]

lemma num_digits_le_bytes:
  "unat num < 256 ^ k \<Longrightarrow> (k = 0 \<or> 256 ^ (k - 1) \<le> unat num) \<Longrightarrow> num_digits num = le_bytes k (unat num)"
proof (induction k arbitrary: num)
  case 0
  then show ?case by (simp add: le_bytes_def num_digits.simps unat_eq_zero)
next
  case (Suc k)
  then have "256 ^ k \<le> unat num" by simp
  then have pos: "num \<noteq> 0" by (metis not_le unat_0 zero_less_numeral zero_less_power)
  have u: "unat (drop_bit 8 num) = unat num div 256"
    unfolding unat_drop_bit_eq by (simp add: drop_bit_eq_div)
  have "num AND 0xff = take_bit 8 num" by (simp add: take_bit_eq_mask mask_eq_exp_minus_1)
  moreover have "(ucast (take_bit 8 num) :: u8) = of_nat (unat num)"
    by (rule bit_word_eqI) (auto simp: bit_simps)
  ultimately have "(ucast (num AND 0xff) :: u8) = of_nat (unat num)" by (simp only:)
  moreover have "num_digits (drop_bit 8 num) = le_bytes k (unat num div 256)"
  proof -
    have "unat (drop_bit 8 num) < 256 ^ k" "k = 0 \<or> 256 ^ (k - 1) \<le> unat (drop_bit 8 num)"
      using Suc.prems unfolding u by (cases k; simp add: less_eq_div_iff_mult_less_eq div_less_iff_less_mult mult.commute)+
    from Suc.IH [OF this] show ?thesis unfolding u .
  qed
  ultimately show ?case
    using pos by (subst num_digits.simps) (simp only: le_bytes_Suc if_False)
qed

lemma and_0x80: "(b AND 0x80 \<noteq> 0) = bit (b :: u8) 7"
  using and_exp_eq_0_iff_not_bit [of b 7] by simp

lemma padded_digits:
  assumes "256 ^ m \<le> unat num" and "unat num < 256 ^ Suc m"
  shows "(let buf = num_digits num in if last buf AND 0x80 \<noteq> 0 then buf @ [0] else buf)
    = le_bytes (if unat num < 128 * 256 ^ m then Suc m else Suc (Suc m)) (unat num)"
proof -
  have d: "num_digits num = le_bytes (Suc m) (unat num)"
    using assms by (intro num_digits_le_bytes) simp_all
  have "unat num div 256 ^ m < 256" using assms by (simp add: div_less_iff_less_mult)
  moreover have top_bit: "k div 128 = 1" if "128 \<le> k" "k < 256" for k :: nat using that by simp
  ultimately have "odd (unat num div 256 ^ m div 128) \<longleftrightarrow> 128 \<le> unat num div 256 ^ m"
    by (cases "unat num div 256 ^ m < 128") (simp_all add: top_bit)
  also have "\<dots> \<longleftrightarrow> \<not> unat num < 128 * 256 ^ m" by (simp add: less_eq_div_iff_mult_less_eq not_less)
  finally have b: "last (num_digits num) AND 0x80 \<noteq> 0 \<longleftrightarrow> \<not> unat num < 128 * 256 ^ m"
    unfolding and_0x80 d last_le_bytes bit_7_of_nat .
  have "le_bytes (Suc (Suc m)) (unat num) = le_bytes (Suc m) (unat num) @ [0]"
    using assms(2) by (simp add: le_bytes_def)
  with b show ?thesis by (simp add: d Let_def)
qed

text \<open>
  The number encoder of the leaves, a loop over the bytes of the number with a byte added when
  the sign bit is taken, is the encoder of \<^verbatim>\<open>bitcoin/script.c\<close>, which chooses the length by ranges.
\<close>

theorem push_num_is_add_number: "push_num num = add_number num"
proof (cases "num \<le> 16")
  case True
  have "(0x51 + x - 1 :: u8) = 0x50 + x" for x by simp
  with True show ?thesis by (simp add: push_num_def add_number_def op_def add_op_def)
next
  case False
  let ?v = "unat num"
  from False have "num \<noteq> 0" by auto
  with False have p: "push_num num = script_push_bytes (let buf = num_digits num in if last buf AND 0x80 \<noteq> 0 then buf @ [0] else buf)"
    by (simp add: push_num_def push_def Let_def)
  have a: "add_number num = script_push_bytes (le_bytes (if num \<le> 0x7F then 1 else if num \<le> 0x7FFF then 2
      else if num \<le> 0x7FFFFF then 3 else if num \<le> 0x7FFFFFFF then 4 else 5) ?v)"
    using False \<open>num \<noteq> 0\<close> by (simp add: add_number_def Let_def take_le_bytes)
  have "?v < 4294967296" by (rule unat_u32_lt)
  then consider "256 ^ 0 \<le> ?v" "?v < 256 ^ Suc 0" | "256 ^ 1 \<le> ?v" "?v < 256 ^ Suc 1"
    | "256 ^ 2 \<le> ?v" "?v < 256 ^ Suc 2" | "256 ^ 3 \<le> ?v" "?v < 256 ^ Suc 3"
    using \<open>num \<noteq> 0\<close> by (simp add: unat_gt_0 [symmetric]) linarith
  then show ?thesis
  proof cases
    case 1
    then show ?thesis unfolding p a padded_digits [OF 1] by (simp add: word_le_nat_alt numeral_2_eq_2 [symmetric])
  next
    case 2
    then show ?thesis unfolding p a padded_digits [OF 2] by (simp add: word_le_nat_alt numeral_2_eq_2 [symmetric])
  next
    case 3
    then show ?thesis unfolding p a padded_digits [OF 3] by (simp add: word_le_nat_alt)
  next
    case 4
    then show ?thesis unfolding p a padded_digits [OF 4] by (simp add: word_le_nat_alt)
  qed
qed


section \<open>Opening a tree, and rebuilding it\<close>

text \<open>The path of a control block, for a leaf of any version.\<close>

definition version_root :: "crypto \<Rightarrow> bytes \<Rightarrow> bytes \<Rightarrow> bytes" where
  "version_root cr leaf_hash cb =
     foldl (tap_branch_hash cr) leaf_hash (pieces ((length cb - 33) div 32) (drop 33 cb))"

lemma version_open:
  assumes "length cb = 33"
  shows "version_root cr h cb = h"
    and "length p = 32 \<Longrightarrow> version_root cr h (cb @ p) = tap_branch_hash cr h p"
    and "length p = 32 \<Longrightarrow> length q = 32
      \<Longrightarrow> version_root cr h (cb @ p @ q) = tap_branch_hash cr (tap_branch_hash cr h p) q"
  using assms by (simp_all add: version_root_def numeral_2_eq_2)

lemma length_nums_der [simp]: "length nums_der = 33"
  by (simp add: nums_der_def)

lemma length_leaf_hash_version: "crypto_ok cr \<Longrightarrow> length (tap_leaf_hash_version cr v s) = 32"
  by (simp add: crypto_ok_def tap_leaf_hash_version_def)

text \<open>
  (C32) The tree of every state can be spent by each of its leaves: the control block of UPD, of
  SETTLE, and of the Simplicity leaf when there is one, carries the path from that leaf to the root
  that the output key commits to; and the output is a taproot output of that key.
\<close>

theorem sym_state_tree_opens:
  assumes "crypto_ok cr" and "n \<noteq> - 1" and "sym_state_tree cr sc n outs sim_cmr t0 = Some t"
  shows "\<exists>upd_cb settle_cb settle.
      sym_tree_control_block t 0 = Some upd_cb \<and> version_root cr (tap_leaf_hash cr (st_upd t)) upd_cb = st_merkle_root t
    \<and> st_settle t = Some settle \<and> sym_tree_control_block t 1 = Some settle_cb
    \<and> version_root cr (tap_leaf_hash cr settle) settle_cb = st_merkle_root t
    \<and> (case sim_cmr of None \<Rightarrow> sym_tree_control_block t 2 = None
        | Some c \<Rightarrow> \<exists>sim_cb. sym_tree_control_block t 2 = Some sim_cb
            \<and> version_root cr (tap_leaf_hash_version cr 0xbe (take 32 c)) sim_cb = st_merkle_root t)
    \<and> is_p2tr (sym_tree_spk t) = Some (drop 1 (bip341_tweak cr nums_der (st_merkle_root t)))"
proof -
  obtain settle where settle: "sym_leaf_settle cr sc outs = Some settle"
    using assms(3) by (auto simp: sym_state_tree_def Let_def bind_eq_Some_conv)
  define u s m where "u = tap_leaf_hash cr (sym_leaf_upd sc n)" and "s = tap_leaf_hash cr settle"
    and "m = tap_leaf_hash_version cr 0xbe (take 32 (the sim_cmr))"
  have len: "length u = 32" "length s = 32" "length m = 32" "length (tap_branch_hash cr a b) = 32" for a b
    using assms(1) by (simp_all add: u_def s_def m_def length_leaf_hash length_leaf_hash_version length_branch_hash)
  have com: "tap_branch_hash cr s u = tap_branch_hash cr u s" "tap_branch_hash cr m s = tap_branch_hash cr s m"
    "tap_branch_hash cr (tap_branch_hash cr s m) u = tap_branch_hash cr u (tap_branch_hash cr s m)"
    using len by (simp_all add: tap_branch_hash_commute)
  have d: "length (bip341_tweak cr x y) = 33" for x y using assms(1) by (simp add: crypto_ok_def)
  note cb = sym_tree_control_block_def version_open [where cb = "_ # drop (Suc 0) nums_der", simplified]
    sym_tree_spk_def sym_tree_program_def tweak_nums_def is_p2tr_def
  show ?thesis
  proof (cases sim_cmr)
    case None
    with assms(3) settle have "st_n t = n" "st_upd t = sym_leaf_upd sc n" "st_settle t = Some settle"
      "st_upd_hash t = u" "st_rest t = s" "\<not> st_has_sim t" "st_merkle_root t = tap_branch_hash cr u s"
      "st_output_der t = tweak_nums cr (st_merkle_root t)"
      by (auto simp: sym_state_tree_def Let_def u_def s_def)
    with None assms(2) len com d show ?thesis by (simp add: cb flip: u_def s_def)
  next
    case (Some c)
    with assms(3) settle have "st_n t = n" "st_upd t = sym_leaf_upd sc n" "st_settle t = Some settle"
      "st_upd_hash t = u" "st_settle_hash t = s" "st_sim_hash t = m" "st_rest t = tap_branch_hash cr s m"
      "st_has_sim t" "st_merkle_root t = tap_branch_hash cr u (tap_branch_hash cr s m)"
      "st_output_der t = tweak_nums cr (st_merkle_root t)"
      by (auto simp: sym_state_tree_def Let_def u_def s_def m_def)
    with Some assms(2) len com d show ?thesis by (simp add: cb m_def flip: u_def s_def)
  qed
qed


definition demo_sym_channel :: sym_channel where
  "demo_sym_channel = \<lparr>sc_tag = replicate 32 1, sc_opener_key = 2 # replicate 32 3, sc_accepter_key = 2 # replicate 32 4,
     sc_asset = 1 # replicate 32 9, sc_delay = 144, sc_has_clock = False,
     sc_clock = \<lparr>clock_marker = replicate 32 0, clock_funding_prog = replicate 32 0, clock_capacity = AMOUNT_SAT 0\<rparr>\<rparr>"

definition demo_sym_output :: sym_output where
  "demo_sym_output = \<lparr>out_kind = SYM_OUT_BALANCE, out_side = LOCAL, out_amount = AMOUNT_SAT 1000,
     out_spk = 0 # 20 # replicate 20 5, out_asset = None, out_htlc = None, out_cltv_expiry = 0\<rparr>"

definition demo_sym_tree :: sym_tree where
  "demo_sym_tree = \<lparr>st_n = 0, st_upd = [], st_settle = None, st_upd_hash = [], st_rest = [], st_has_sim = False,
     st_settle_hash = [], st_sim_hash = [], st_merkle_root = [], st_output_der = []\<rparr>"

lemma demo_state_tree: "\<exists>t. sym_state_tree demo_crypto demo_sym_channel 5 [demo_sym_output] None demo_sym_tree = Some t"
  by (simp add: sym_state_tree_def sym_leaf_settle_def sym_settle_digest_def settle_piece_def witness_program_def
      demo_sym_output_def demo_sym_channel_def Let_def)

theorem sym_state_tree_opens_witness:
  "\<exists>t upd_cb. sym_state_tree demo_crypto demo_sym_channel 5 [demo_sym_output] None demo_sym_tree = Some t
     \<and> sym_tree_control_block t 0 = Some upd_cb
     \<and> version_root demo_crypto (tap_leaf_hash demo_crypto (st_upd t)) upd_cb = st_merkle_root t"
proof -
  obtain t where t: "sym_state_tree demo_crypto demo_sym_channel 5 [demo_sym_output] None demo_sym_tree = Some t"
    using demo_state_tree by blast
  with sym_state_tree_opens [OF demo_crypto_ok _ t] show ?thesis by auto
qed

lemma length_le8s [simp]: "length (le8s v) = 8"
  by (simp add: le8s_def)

lemma le8s_reads: "of_nat (be_val (rev (le8s v))) = v"
  using unat_u64_lt [of v] by (simp add: le8s_def le_bytes_def)

text \<open>
  (C21) A watcher needs nothing but the chain. From the witness of the update that published a state,
  with an annex or without, it reads the state's number and the hash beside UPD, and from these two
  rebuilds exactly the output script that the update paid to, with the UPD leaf and the control block
  that spend it; whatever outputs the state settles to.
\<close>

theorem watcher_rebuilds_state:
  assumes "crypto_ok cr" and "n \<noteq> - 1" and "sym_state_tree cr sc n outs sim_cmr t0 = Some t"
    and "length sig_opener = 64" and "length sig_accepter = 64"
    and "prev_cb \<noteq> []" and "hd prev_cb \<noteq> 0x50" and "annex = [] \<or> annex = [0x50 # a]"
  shows "sym_parse_update_witness (sym_update_witness sig_opener sig_accepter t prev_leaf prev_cb @ annex)
           = Some (n, st_rest t)
    \<and> (\<exists>cb. sym_tree_control_block t 0 = Some cb
        \<and> sym_rebuild_state cr sc n (st_rest t) uninit = Some (sym_tree_spk t, st_upd t, cb))"
proof -
  obtain settle where settle: "sym_leaf_settle cr sc outs = Some settle"
    using assms(3) by (auto simp: sym_state_tree_def Let_def bind_eq_Some_conv)
  have t: "st_n t = n" "st_upd t = sym_leaf_upd sc n"
    "st_output_der t = tweak_nums cr (tap_branch_hash cr (tap_leaf_hash cr (sym_leaf_upd sc n)) (st_rest t))"
    using assms(3) settle by (auto simp: sym_state_tree_def Let_def)
  have "length (st_rest t) = 32"
    using assms(1,3) settle
    by (auto simp: sym_state_tree_def Let_def length_leaf_hash length_branch_hash)
  then have "sym_parse_update_witness (sym_update_witness sig_opener sig_accepter t prev_leaf prev_cb @ annex)
      = Some (n, st_rest t)"
    using assms(4-8) t(1) le8s_reads [of n]
    by (cases prev_cb) (auto simp: sym_parse_update_witness_def sym_update_witness_def sym_witness_len_def)
  moreover have "sym_rebuild_state cr sc n (st_rest t) uninit
      = Some (sym_tree_spk t, st_upd t, the (sym_tree_control_block t 0))"
    "sym_tree_control_block t 0 \<noteq> None"
    using assms(2) t
    by (simp_all add: sym_rebuild_state_def sym_tree_control_block_def sym_tree_spk_def sym_tree_program_def Let_def)
  ultimately show ?thesis by auto
qed

theorem watcher_rebuilds_state_witness:
  "\<exists>t cb. sym_state_tree demo_crypto demo_sym_channel 5 [demo_sym_output] None demo_sym_tree = Some t
     \<and> sym_parse_update_witness (sym_update_witness (replicate 64 1) (replicate 64 2) t [] [0xc4] @ [[0x50, 7]])
         = Some (5, st_rest t)
     \<and> sym_rebuild_state demo_crypto demo_sym_channel 5 (st_rest t) demo_sym_tree = Some (sym_tree_spk t, st_upd t, cb)"
proof -
  obtain t where t: "sym_state_tree demo_crypto demo_sym_channel 5 [demo_sym_output] None demo_sym_tree = Some t"
    using demo_state_tree by blast
  with watcher_rebuilds_state [OF demo_crypto_ok _ t, of "replicate 64 1" "replicate 64 2" "[0xc4]" "[[0x50, 7]]" "[7]"]
  show ?thesis by auto
qed

section \<open>State numbers\<close>

lemma sym_state_num_Some:
  "sym_state_num i p = Some n \<longleftrightarrow> unat i < 2 ^ 61 \<and> unat n = 2 * unat i + (if p then 0 else 1)"
proof -
  have u: "unat (push_bit 61 1 :: u64) = 2 ^ 61" by simp
  have "unat (i * 2 + (if p then 0 else 1)) = 2 * unat i + (if p then 0 else 1)" if "unat i < 2 ^ 61"
    using that by (simp add: unat_u64_add unat_u64_mult)
  then show ?thesis
    unfolding sym_state_num_def word_less_nat_alt u by (auto simp: word_unat_eq_iff)
qed

text \<open>
  (C34) State numbers order the states as the script compares them, signed: no two commitments of the
  channel share a number, a later commitment of either side has a larger one than any earlier
  commitment of either side, all of them are above the kickoff's \<open>-1\<close>, and the number exists for
  every commitment below \<open>2 ^ 61\<close>.
\<close>

theorem state_numbers_ordered:
  "(sym_state_num i p \<noteq> None) = (unat i < 2 ^ 61)
   \<and> (sym_state_num i p = Some n \<and> sym_state_num j q = Some m \<longrightarrow>
        sint (- 1 :: u64) < sint n \<and> (n = m) = (i = j \<and> p = q) \<and> (i < j \<longrightarrow> sint n < sint m))"
proof (intro conjI impI)
  show "(sym_state_num i p \<noteq> None) = (unat i < 2 ^ 61)"
    by (simp add: sym_state_num_def word_less_nat_alt)
  assume a: "sym_state_num i p = Some n \<and> sym_state_num j q = Some m"
  then have n: "unat i < 2 ^ 61" "unat n = 2 * unat i + (if p then 0 else 1)"
    and m: "unat j < 2 ^ 61" "unat m = 2 * unat j + (if q then 0 else 1)"
    by (simp_all add: sym_state_num_Some)
  have s: "sint n = int (unat n)" "sint m = int (unat m)"
    by (rule sint_u64_small, use n m in \<open>simp split: if_splits\<close>)+
  show "sint (- 1 :: u64) < sint n" using s(1) of_nat_0_le_iff [of "unat n", where ?'a = int] by (simp del: of_nat_unat)
  show "(n = m) = (i = j \<and> p = q)"
    using n m by (auto simp: word_unat_eq_iff split: if_splits) presburger+
  show "sint n < sint m" if "i < j"
  proof -
    have "unat n < unat m" using that n m by (auto simp: word_less_nat_alt split: if_splits)
    then show ?thesis unfolding s by (simp only: of_nat_less_iff)
  qed
qed


theorem state_numbers_ordered_witness:
  "sym_state_num 7 False = Some 15 \<and> sym_state_num 8 True = Some 16 \<and> sint (15 :: u64) < sint (16 :: u64)"
proof -
  have n: "sym_state_num 7 False = Some 15" "sym_state_num 8 True = Some 16"
    by (simp_all add: sym_state_num_def)
  with state_numbers_ordered [of 7 False 15 8 True 16] show ?thesis by auto
qed

section \<open>What SETTLE commits to\<close>

lemma concat_same_length:
  assumes "\<forall>p \<in> set ps. length p = n" and "\<forall>q \<in> set qs. length q = n" and "concat ps = concat qs" and "0 < n"
  shows "ps = qs"
  using assms
proof (induction ps arbitrary: qs)
  case Nil
  then show ?case by (cases qs) auto
next
  case (Cons p ps)
  have "qs \<noteq> []"
  proof
    assume "qs = []"
    with Cons.prems(3) have "p = []" by simp
    with Cons.prems(1,4) show False by simp
  qed
  then obtain q qs' where qs: "qs = q # qs'" by (cases qs) simp_all
  with Cons.prems have "p @ concat ps = q @ concat qs'" "length p = length q" by simp_all
  then have "p = q" "concat ps = concat qs'" by (simp_all add: append_eq_append_conv)
  moreover have "ps = qs'"
    by (rule Cons.IH) (use Cons.prems qs \<open>concat ps = concat qs'\<close> in simp_all)
  ultimately show ?case using qs by simp
qed

text \<open>The asset of an output, as the digest takes it.\<close>

definition settle_asset :: "sym_channel \<Rightarrow> sym_output \<Rightarrow> bytes" where
  "settle_asset sc out = (case out_asset out of Some a \<Rightarrow> a | None \<Rightarrow> sc_asset sc)"

lemma settle_piece_Some:
  "settle_piece cr sc out = Some p \<longleftrightarrow>
     (\<exists>version prog. witness_program (out_spk out) = Some (version, prog)
        \<and> p = drop 1 (settle_asset sc out) @ [0x01] @ le_bytes 8 (sat (out_amount out)) @ [0x01]
              @ sha256 cr (prog @ (if version \<noteq> 0 then [version] else [])))"
  by (auto simp: settle_piece_def settle_asset_def bind_eq_Some_conv)

lemma le_bytes_inj: "v < 256 ^ n \<Longrightarrow> w < 256 ^ n \<Longrightarrow> le_bytes n v = le_bytes n w \<Longrightarrow> v = w"
  by (metis le_bytes_simps(2) mod_less)

text \<open>
  What is hashed for a settlement fixes how many outputs it has, and the asset and amount of
  each, in order: two settlements of which the same bytes are hashed differ at most in the scripts
  of their outputs.
\<close>

theorem settle_digest_binds:
  assumes "crypto_ok cr" and "\<forall>out \<in> set outs \<union> set outs'. length (settle_asset sc out) = 33"
    and "map_run (settle_piece cr sc) outs = Some ps" and "map_run (settle_piece cr sc) outs' = Some qs"
    and "concat ps = concat qs"
  shows "map (\<lambda>out. (drop 1 (settle_asset sc out), out_amount out)) outs
       = map (\<lambda>out. (drop 1 (settle_asset sc out), out_amount out)) outs'"
proof -
  have len: "length (sha256 cr x) = 32" for x using assms(1) by (simp add: crypto_ok_def)
  have piece: "length p = 74" if "settle_piece cr sc out = Some p" "length (settle_asset sc out) = 33" for out p
    using that len by (auto simp: settle_piece_Some)
  have rel: "list_all2 (\<lambda>out p. settle_piece cr sc out = Some p) outs ps"
    "list_all2 (\<lambda>out p. settle_piece cr sc out = Some p) outs' qs"
    using assms(3,4) by (simp_all add: map_run_Some)
  then have "\<forall>p \<in> set ps. length p = 74" "\<forall>q \<in> set qs. length q = 74"
    using assms(2) piece by (auto simp: list_all2_conv_all_nth in_set_conv_nth) (metis UnI1 UnI2 nth_mem)+
  with assms(5) have eq: "ps = qs" by (intro concat_same_length [of ps 74 qs]) simp_all
  show ?thesis
  proof (rule nth_equalityI)
    show len': "length (map (\<lambda>out. (drop 1 (settle_asset sc out), out_amount out)) outs)
        = length (map (\<lambda>out. (drop 1 (settle_asset sc out), out_amount out)) outs')"
      using rel eq by (simp add: list_all2_lengthD)
    fix i assume "i < length (map (\<lambda>out. (drop 1 (settle_asset sc out), out_amount out)) outs)"
    then have i: "i < length outs" "i < length outs'" using len' by simp_all
    then have p: "settle_piece cr sc (outs ! i) = Some (ps ! i)" "settle_piece cr sc (outs' ! i) = Some (ps ! i)"
      using rel eq by (auto simp: list_all2_conv_all_nth)
    moreover have "length (settle_asset sc (outs ! i)) = 33" "length (settle_asset sc (outs' ! i)) = 33"
      using assms(2) i by simp_all
    ultimately have "drop 1 (settle_asset sc (outs ! i)) = drop 1 (settle_asset sc (outs' ! i))"
      "le_bytes 8 (sat (out_amount (outs ! i))) = le_bytes 8 (sat (out_amount (outs' ! i)))"
      unfolding settle_piece_Some by auto
    moreover from this(2) have "sat (out_amount (outs ! i)) = sat (out_amount (outs' ! i))"
      using unat_u64_lt by (intro le_bytes_inj [of _ 8]) simp_all
    then have "out_amount (outs ! i) = out_amount (outs' ! i)"
      by (simp add: amount_sat.expand word_unat_eq_iff)
    ultimately show "map (\<lambda>out. (drop 1 (settle_asset sc out), out_amount out)) outs ! i
        = map (\<lambda>out. (drop 1 (settle_asset sc out), out_amount out)) outs' ! i"
      using i by simp
  qed
qed


theorem settle_digest_binds_witness:
  "map_run (settle_piece demo_crypto demo_sym_channel) [demo_sym_output] \<noteq> None
   \<and> map (\<lambda>out. (drop 1 (settle_asset demo_sym_channel out), out_amount out)) [demo_sym_output]
       = [(replicate 32 9, AMOUNT_SAT 1000)]"
proof -
  obtain ps where ps: "map_run (settle_piece demo_crypto demo_sym_channel) [demo_sym_output] = Some ps"
    by (simp add: settle_piece_def witness_program_def demo_sym_output_def)
  moreover have "\<forall>out \<in> set [demo_sym_output] \<union> set [demo_sym_output]. length (settle_asset demo_sym_channel out) = 33"
    by (simp add: settle_asset_def demo_sym_output_def demo_sym_channel_def)
  ultimately show ?thesis
    using settle_digest_binds [OF demo_crypto_ok _ ps ps]
    by (simp add: settle_asset_def demo_sym_output_def demo_sym_channel_def)
qed

text \<open>
  (C33) But the script of an output is not fixed. The digest takes the program and then the version,
  which for version 0 is no byte at all, so a version 0 output whose program ends in a byte from 1 to
  16 has the same digest as an output of that version with the rest of the program. A settlement that
  pays a side's balance to the hash of its key, when the hash ends in such a byte, shares its SETTLE
  leaf, and so its whole tree and both signatures, with one that pays the same amount to a program of
  19 bytes, a script of no known type.
\<close>

theorem settle_digest_ambiguous:
  assumes "length prog = 19" and "1 \<le> v" and "v \<le> 16"
  shows "sym_state_tree cr sc n (pre @ out\<lparr>out_spk := scriptpubkey_witness_raw 0 (prog @ [v])\<rparr> # post) sim_cmr t0
       = sym_state_tree cr sc n (pre @ out\<lparr>out_spk := scriptpubkey_witness_raw v prog\<rparr> # post) sim_cmr t0
    \<and> is_p2wpkh (scriptpubkey_witness_raw 0 (prog @ [v])) = Some (prog @ [v])
    \<and> \<not> is_known_scripttype (scriptpubkey_witness_raw v prog)"
proof -
  have v: "0 < unat v" "unat v \<le> 16" using assms by (simp_all add: word_le_nat_alt)
  have spk0: "scriptpubkey_witness_raw 0 (prog @ [v]) = OP_0 # 20 # prog @ [v]"
    using assms(1) by (simp add: scriptpubkey_witness_raw_def push_short add_number_def add_op_def)
  have "(ucast (ucast v :: u32) :: u8) = v" by (rule bit_word_eqI) (simp add: bit_simps)
  moreover have u: "unat (ucast v :: u32) = unat v"
    using v by (simp add: unsigned_ucast_eq take_bit_nat_eq_self)
  ultimately have spkv: "scriptpubkey_witness_raw v prog = (0x50 + v) # 19 # prog"
    using assms(1) v
    by (simp add: scriptpubkey_witness_raw_def push_short add_number_def add_op_def word_le_nat_alt u)
      (metis u unat_0 less_numeral_extra(3))
  have u50: "unat (0x50 + v) = 0x50 + unat v" using v by (simp add: unat_word_ariths)
  have wp: "witness_program (OP_0 # 20 # prog @ [v]) = Some (0, prog @ [v])"
    "witness_program ((0x50 + v) # 19 # prog) = Some (v, prog)"
    using assms(1) v u50 by (simp_all add: witness_program_def word_le_nat_alt word_unat_eq_iff)
  have "v \<noteq> 0" using v by auto
  then have "settle_piece cr sc (out\<lparr>out_spk := OP_0 # 20 # prog @ [v]\<rparr>)
      = settle_piece cr sc (out\<lparr>out_spk := (0x50 + v) # 19 # prog\<rparr>)"
    by (simp add: settle_piece_def wp)
  then have "map_run (settle_piece cr sc) (pre @ out\<lparr>out_spk := OP_0 # 20 # prog @ [v]\<rparr> # post)
      = map_run (settle_piece cr sc) (pre @ out\<lparr>out_spk := (0x50 + v) # 19 # prog\<rparr> # post)"
    by (induction pre) simp_all
  then have "sym_leaf_settle cr sc (pre @ out\<lparr>out_spk := OP_0 # 20 # prog @ [v]\<rparr> # post)
      = sym_leaf_settle cr sc (pre @ out\<lparr>out_spk := (0x50 + v) # 19 # prog\<rparr> # post)"
    by (simp add: sym_leaf_settle_def sym_settle_digest_def)
  then have "sym_state_tree cr sc n (pre @ out\<lparr>out_spk := OP_0 # 20 # prog @ [v]\<rparr> # post) sim_cmr t0
      = sym_state_tree cr sc n (pre @ out\<lparr>out_spk := (0x50 + v) # 19 # prog\<rparr> # post) sim_cmr t0"
    by (simp add: sym_state_tree_def)
  moreover have "is_p2wpkh (OP_0 # 20 # prog @ [v]) = Some (prog @ [v])"
    using assms(1) by (simp add: is_p2wpkh_def)
  moreover have "\<not> is_known_scripttype ((0x50 + v) # 19 # prog)"
    using assms(1) by (simp add: is_known_scripttype_def is_p2wpkh_def is_p2wsh_def is_p2sh_def is_p2pkh_def is_p2tr_def)
  ultimately show ?thesis unfolding spk0 spkv by blast
qed

theorem settle_digest_ambiguous_witness:
  "sym_state_tree demo_crypto demo_sym_channel 5
       [demo_sym_output\<lparr>out_spk := scriptpubkey_witness_raw 0 (replicate 19 5 @ [2])\<rparr>] None demo_sym_tree
   = sym_state_tree demo_crypto demo_sym_channel 5
       [demo_sym_output\<lparr>out_spk := scriptpubkey_witness_raw 2 (replicate 19 5)\<rparr>] None demo_sym_tree"
  using settle_digest_ambiguous [of "replicate 19 5" 2 demo_crypto demo_sym_channel 5 "[]" demo_sym_output "[]"] by simp

section \<open>The check of a settle-clock funding\<close>

definition holds_marker :: "bytes \<Rightarrow> wally_tx_output \<Rightarrow> bool" where
  "holds_marker marker out \<longleftrightarrow>
     length (txo_asset out) = 33 \<and> txo_asset out ! 0 = 0x01 \<and> drop 1 (txo_asset out) = marker"

lemma seed_loop_Inr:
  assumes "seed_loop marker seed_spk i outs seeds outnum = Inr (c, k)"
  shows "(\<forall>out \<in> set outs. holds_marker marker out \<longrightarrow> explicit_value (txo_value out) = Some 1 \<and> txo_script out = seed_spk)
    \<and> c = seeds + length (filter (holds_marker marker) outs)
    \<and> (if filter (holds_marker marker) outs = [] then k = outnum
        else \<exists>j < length outs. holds_marker marker (outs ! j) \<and> k = of_nat (i + j))"
  using assms
proof (induction marker seed_spk i outs seeds outnum rule: seed_loop.induct)
  case (2 marker seed_spk i out outs seeds outnum)
  show ?case
  proof (cases "holds_marker marker out")
    case False
    then have "seed_loop marker seed_spk (i + 1) outs seeds outnum = Inr (c, k)"
      using 2(3) by (auto simp: holds_marker_def)
    with False 2(1) show ?thesis
      by (auto simp: holds_marker_def split: if_splits)
  next
    case True
    then have c1: "\<not> (length (txo_asset out) \<noteq> 33 \<or> txo_asset out ! 0 \<noteq> 0x01 \<or> drop 1 (txo_asset out) \<noteq> marker)"
      by (simp add: holds_marker_def)
    with 2(3) have c2: "\<not> (explicit_value (txo_value out) \<noteq> Some 1 \<or> txo_script out \<noteq> seed_spk)"
      and l: "seed_loop marker seed_spk (i + 1) outs (seeds + 1) (of_nat i) = Inr (c, k)"
      by (simp_all split: if_splits)
    note ih = 2(2) [OF c1 c2 l]
    show ?thesis
    proof (intro conjI)
      show "\<forall>x \<in> set (out # outs). holds_marker marker x \<longrightarrow> explicit_value (txo_value x) = Some 1 \<and> txo_script x = seed_spk"
        using ih c2 by simp
      show "c = seeds + length (filter (holds_marker marker) (out # outs))" using ih True by simp
      show "if filter (holds_marker marker) (out # outs) = [] then k = outnum
        else \<exists>j < length (out # outs). holds_marker marker ((out # outs) ! j) \<and> k = of_nat (i + j)"
      proof (cases "filter (holds_marker marker) outs = []")
        case False
        with ih obtain j where "j < length outs" "holds_marker marker (outs ! j)" "k = of_nat (i + 1 + j)" by auto
        then show ?thesis using True by (auto intro!: exI [of _ "Suc j"])
      qed (use ih True in \<open>auto intro!: exI [of _ 0]\<close>)
    qed
  qed
qed simp


lemma filter_single_nth:
  assumes "length (filter P xs) = 1" and "j < length xs" and "P (xs ! j)"
  shows "{i. i < length xs \<and> P (xs ! i)} = {j}"
proof -
  have "card {i. i < length xs \<and> P (xs ! i)} = 1" using assms(1) by (simp add: length_filter_conv_card)
  then obtain x where x: "{i. i < length xs \<and> P (xs ! i)} = {x}" by (rule card_1_singletonE)
  have "j \<in> {i. i < length xs \<and> P (xs ! i)}" using assms(2,3) by simp
  then have "j = x" unfolding x by simp
  with x show ?thesis by simp
qed

text \<open>
  (C35) A funding transaction that passes the check of a settle-clock channel is the one that was
  named, pays the capacity in the channel's asset to the funding script, spends the issuer with a new
  issuance of exactly one atom and no reissuance token, and pays the marker in exactly one output,
  the one that is returned, which holds one explicit atom and has the seed's script.
\<close>

theorem sym_clock_check_funding_sound:
  assumes "sym_clock_check_funding cp marker_id txid ins outs fund fspk asset capacity issuer seed k0 = Some (Inr k)"
    and "length outs < 2 ^ 32" and "is_elements cp" and "asset ! 0 = 0x01"
  shows "txid = outpoint_txid fund \<and> unat (outpoint_n fund) < length outs
    \<and> txo_script (outs ! unat (outpoint_n fund)) = fspk \<and> txo_asset (outs ! unat (outpoint_n fund)) = asset
    \<and> be_val (take 8 (drop 1 (txo_value (outs ! unat (outpoint_n fund))))) = sat capacity
    \<and> (\<exists>inp \<in> set ins. in_index inp = outpoint_n issuer \<and> in_txhash inp = outpoint_txid issuer \<and> in_is_issuance inp
        \<and> all_zero (in_blinding_nonce inp) \<and> all_zero (in_entropy inp)
        \<and> explicit_value (in_issuance_amount inp) = Some 1 \<and> in_inflation_keys inp \<in> {[], [0]})
    \<and> {i. i < length outs \<and> holds_marker (marker_id issuer) (outs ! i)} = {unat k}
    \<and> explicit_value (txo_value (outs ! unat k)) = Some 1 \<and> txo_script (outs ! unat k) = seed"
proof -
  obtain a inp where a: "wally_tx_output_get_amount cp (outs ! unat (outpoint_n fund)) = Some a"
    "txo_script (outs ! unat (outpoint_n fund)) = fspk" "amount_asset_is cp a asset" "asset_value a = satoshis capacity"
    and t: "txid = outpoint_txid fund" "unat (outpoint_n fund) < length outs"
    and i: "issuer_input ins issuer = Some inp" "in_is_issuance inp" "all_zero (in_blinding_nonce inp)"
    "all_zero (in_entropy inp)" "explicit_value (in_issuance_amount inp) = Some 1"
    "\<not> length (in_inflation_keys inp) > 1" "\<not> (length (in_inflation_keys inp) = 1 \<and> in_inflation_keys inp ! 0 \<noteq> 0)"
    and l: "seed_loop (marker_id issuer) seed 0 outs 0 k0 = Inr (1, k)"
    using assms(1)
    by (auto simp: sym_clock_check_funding_def Let_def bind_eq_Some_conv split: if_splits option.splits sum.splits)
  have asset: "txo_asset (outs ! unat (outpoint_n fund)) = asset"
    "be_val (take 8 (drop 1 (txo_value (outs ! unat (outpoint_n fund))))) = sat capacity"
    using a assms(3,4) unat_be_val [of "take 8 (drop 1 (txo_value (outs ! unat (outpoint_n fund))))"]
    by (auto simp: wally_tx_output_get_amount_def amount_asset_is_def split: if_splits)
  have inp: "in_index inp = outpoint_n issuer" "in_txhash inp = outpoint_txid issuer" "inp \<in> set ins"
    using i(1) by (auto simp: issuer_input_def find_Some_iff) (metis length_rev nth_mem set_rev)
  have keys: "in_inflation_keys inp \<in> {[], [0]}"
    using i(6,7) by (cases "in_inflation_keys inp" rule: remdups_adj.cases) auto
  obtain j where j: "j < length outs" "holds_marker (marker_id issuer) (outs ! j)" "k = of_nat j"
    and c: "length (filter (holds_marker (marker_id issuer)) outs) = 1"
    and all: "\<forall>out \<in> set outs. holds_marker (marker_id issuer) out \<longrightarrow> explicit_value (txo_value out) = Some 1 \<and> txo_script out = seed"
    using seed_loop_Inr [OF l] by (auto split: if_splits)
  have k: "unat k = j" using j assms(2) by (simp add: unat_of_nat take_bit_nat_eq_self)
  moreover have "explicit_value (txo_value (outs ! j)) = Some 1 \<and> txo_script (outs ! j) = seed"
    using all j by simp
  moreover have "\<exists>inp \<in> set ins. in_index inp = outpoint_n issuer \<and> in_txhash inp = outpoint_txid issuer \<and> in_is_issuance inp
        \<and> all_zero (in_blinding_nonce inp) \<and> all_zero (in_entropy inp)
        \<and> explicit_value (in_issuance_amount inp) = Some 1 \<and> in_inflation_keys inp \<in> {[], [0]}"
    using inp i keys by blast
  ultimately show ?thesis
    using t a(2) asset filter_single_nth [OF c j(1,2)] by simp
qed


text \<open>A funding of 1000 atoms at output 0, and the marker at output 1.\<close>

definition demo_clock_outs :: "wally_tx_output list" where
  "demo_clock_outs =
     [\<lparr>txo_script = [1], txo_satoshi = 0, txo_asset = 1 # replicate 32 9, txo_value = [1, 0, 0, 0, 0, 0, 0, 3, 0xe8]\<rparr>,
      \<lparr>txo_script = [2], txo_satoshi = 0, txo_asset = 1 # replicate 32 7, txo_value = [1, 0, 0, 0, 0, 0, 0, 0, 1]\<rparr>]"

definition demo_clock_in :: wally_tx_input where
  "demo_clock_in = \<lparr>in_txhash = [5], in_index = 3, in_is_issuance = True, in_blinding_nonce = [0, 0],
     in_entropy = [0, 0], in_issuance_amount = [1, 0, 0, 0, 0, 0, 0, 0, 1], in_inflation_keys = [0]\<rparr>"

theorem sym_clock_check_funding_sound_witness:
  "sym_clock_check_funding net_sequentia_testnet (\<lambda>_. replicate 32 7) [8] [demo_clock_in] demo_clock_outs
     \<lparr>outpoint_txid = [8], outpoint_n = 0\<rparr> [1] (1 # replicate 32 9) (AMOUNT_SAT 1000)
     \<lparr>outpoint_txid = [5], outpoint_n = 3\<rparr> [2] 0 = Some (Inr 1)
   \<and> {i. i < length demo_clock_outs \<and> holds_marker (replicate 32 7) (demo_clock_outs ! i)} = {1}"
proof -
  have e: "is_elements net_sequentia_testnet" by (simp add: net_sequentia_testnet_def)
  have c: "sym_clock_check_funding net_sequentia_testnet (\<lambda>_. replicate 32 7) [8] [demo_clock_in] demo_clock_outs
     \<lparr>outpoint_txid = [8], outpoint_n = 0\<rparr> [1] (1 # replicate 32 9) (AMOUNT_SAT 1000)
     \<lparr>outpoint_txid = [5], outpoint_n = 3\<rparr> [2] 0 = Some (Inr 1)"
  proof -
    have v: "explicit_value [1, 0, 0, 0, 0, 0, 0, 0, 1] = Some 1" by (simp add: explicit_value_def)
    have a: "wally_tx_output_get_amount net_sequentia_testnet (demo_clock_outs ! 0)
        = Some \<lparr>asset_value = 1000, asset_tag = 1 # replicate 32 9\<rparr>"
      using e by (simp add: wally_tx_output_get_amount_def demo_clock_outs_def)
    have l: "seed_loop (replicate 32 7) [2] 0 demo_clock_outs 0 0 = Inr (1, 1)"
      by (simp add: demo_clock_outs_def v)
    have i: "issuer_input [demo_clock_in] \<lparr>outpoint_txid = [5], outpoint_n = 3\<rparr> = Some demo_clock_in"
      by (simp add: issuer_input_def demo_clock_in_def)
    have os: "txo_script (demo_clock_outs ! 0) = [1]" "length demo_clock_outs = 2" by (simp_all add: demo_clock_outs_def)
    have p: "in_is_issuance demo_clock_in" "all_zero (in_blinding_nonce demo_clock_in)" "all_zero (in_entropy demo_clock_in)"
      "explicit_value (in_issuance_amount demo_clock_in) = Some 1" "in_inflation_keys demo_clock_in = [0]"
      by (simp_all add: demo_clock_in_def all_zero_def v)
    show ?thesis by (simp add: sym_clock_check_funding_def a l i os p amount_asset_is_def)
  qed
  from sym_clock_check_funding_sound [OF c _ e] c show ?thesis by (simp add: demo_clock_outs_def)
qed

end
