(* ===== verification/CommitTx.thy ===== *)
theory CommitTx
  imports Lanes
begin

text \<open>
  The commitment transaction: \<^verbatim>\<open>channeld/commit_tx.c\<close> and \<^verbatim>\<open>try_subtract_fee\<close> of
  \<^verbatim>\<open>common/initial_commit_tx.c\<close>. An output is what it pays for and its amount; the scripts, which
  depend on that and on the keys, the sorting of the outputs, the explicit fee output of an Elements chain
  (\<^verbatim>\<open>bitcoin_tx_finalize\<close>) and the serialization with its check are not modelled. \<^verbatim>\<open>commit_tx\<close> gives the
  outputs in the order the code adds them, up to its assertion that there is one.
\<close>

section \<open>The operations\<close>

definition trim :: "chainparams \<Rightarrow> htlc \<Rightarrow> u32 \<Rightarrow> amount_sat \<Rightarrow> bool \<Rightarrow> bool \<Rightarrow> side \<Rightarrow> bool run" where
  "trim cp h feerate_per_kw dust ao az side =
     htlc_is_trimmed cp (htlc_owner h) (h_amount h) feerate_per_kw dust side ao az"

fun commit_tx_num_untrimmed ::
  "chainparams \<Rightarrow> htlc list \<Rightarrow> u32 \<Rightarrow> amount_sat \<Rightarrow> bool \<Rightarrow> bool \<Rightarrow> side \<Rightarrow> u64 run" where
  "commit_tx_num_untrimmed cp [] feerate_per_kw dust ao az side = Some 0"
| "commit_tx_num_untrimmed cp (h # hs) feerate_per_kw dust ao az side =
     do { t \<leftarrow> trim cp h feerate_per_kw dust ao az side;
          n \<leftarrow> commit_tx_num_untrimmed cp hs feerate_per_kw dust ao az side;
          Some (if t then n else n + 1) }"

text \<open>The return value, \<^verbatim>\<open>false\<close> on an overflow, with \<^verbatim>\<open>*amt\<close> as it is left.\<close>

fun commit_tx_amount_trimmed ::
  "chainparams \<Rightarrow> htlc list \<Rightarrow> u32 \<Rightarrow> amount_sat \<Rightarrow> bool \<Rightarrow> bool \<Rightarrow> side \<Rightarrow> amount_msat
   \<Rightarrow> (bool \<times> amount_msat) run" where
  "commit_tx_amount_trimmed cp [] feerate_per_kw dust ao az side amt = Some (True, amt)"
| "commit_tx_amount_trimmed cp (h # hs) feerate_per_kw dust ao az side amt =
     do { t \<leftarrow> trim cp h feerate_per_kw dust ao az side;
          if t then case amount_msat_accumulate amt (h_amount h) of
                      None \<Rightarrow> Some (False, amt)
                    | Some amt' \<Rightarrow> commit_tx_amount_trimmed cp hs feerate_per_kw dust ao az side amt'
          else commit_tx_amount_trimmed cp hs feerate_per_kw dust ao az side amt }"

text \<open>The flag says whether the opener could pay; the two amounts are \<^verbatim>\<open>*self\<close> and \<^verbatim>\<open>*other\<close>.\<close>

definition try_subtract_fee ::
  "side \<Rightarrow> side \<Rightarrow> amount_sat \<Rightarrow> amount_msat \<Rightarrow> amount_msat \<Rightarrow> bool \<times> amount_msat \<times> amount_msat" where
  "try_subtract_fee op side base_fee self oth =
     (let opener_amount = (if op = side then self else oth);
          (ok, left) = (case amount_msat_deduct_sat opener_amount base_fee of
                          Some l \<Rightarrow> (True, l) | None \<Rightarrow> (False, AMOUNT_MSAT 0))
      in (ok, if op = side then left else self, if op = side then oth else left))"

text \<open>
  An output: an HTLC, the owner's balance with the lease's lock, the other side's balance with its
  lock (none without anchors), or one side's anchor.
\<close>

datatype commit_output =
    OFFERED_HTLC htlc
  | RECEIVED_HTLC htlc
  | TO_LOCAL u16 u32
  | TO_REMOTE "u32 option"
  | ANCHOR side

abbreviation (input) ANCHOR_SATS :: u64 where "ANCHOR_SATS \<equiv> 330"

text \<open>The HTLCs of one direction that are not trimmed, with \<^verbatim>\<open>abs_locktime_to_blocks\<close> of each.\<close>

fun untrimmed_outputs ::
  "chainparams \<Rightarrow> (htlc \<Rightarrow> commit_output) \<Rightarrow> side \<Rightarrow> htlc list \<Rightarrow> u32 \<Rightarrow> amount_sat \<Rightarrow> bool \<Rightarrow> bool \<Rightarrow> side
   \<Rightarrow> (commit_output \<times> amount_sat) list run" where
  "untrimmed_outputs cp mk owner [] feerate_per_kw dust ao az side = Some []"
| "untrimmed_outputs cp mk owner (h # hs) feerate_per_kw dust ao az side =
     (if htlc_owner h \<noteq> owner then untrimmed_outputs cp mk owner hs feerate_per_kw dust ao az side
      else do { t \<leftarrow> trim cp h feerate_per_kw dust ao az side;
                if t then untrimmed_outputs cp mk owner hs feerate_per_kw dust ao az side
                else do { _ \<leftarrow> abs_locktime_to_blocks (h_expiry h);
                          rest \<leftarrow> untrimmed_outputs cp mk owner hs feerate_per_kw dust ao az side;
                          Some ((mk h, amount_msat_to_sat_round_down (h_amount h)) # rest) } })"

definition commit_tx ::
  "chainparams \<Rightarrow> amount_sat \<Rightarrow> side \<Rightarrow> u16 \<Rightarrow> u32 \<Rightarrow> u32 \<Rightarrow> u32 \<Rightarrow> amount_sat \<Rightarrow> amount_msat \<Rightarrow> amount_msat
   \<Rightarrow> htlc list \<Rightarrow> bool \<Rightarrow> bool \<Rightarrow> side \<Rightarrow> (commit_output \<times> amount_sat) list run" where
  "commit_tx cp fund op delay lease blockheight feerate_per_kw dust self_pay other_pay hs ao az side =
     (let lessor = other op;
          csv_lock = (if lease > blockheight then lease - blockheight else 1)
      in do {
        total_pay \<leftarrow> amount_msat_add self_pay other_pay;
        (if amount_msat_greater_sat total_pay fund then None else Some ());
        untrimmed \<leftarrow> commit_tx_num_untrimmed cp hs feerate_per_kw dust ao az side;
        fee0 \<leftarrow> commit_tx_base_fee cp feerate_per_kw untrimmed ao az;
        base_fee \<leftarrow> (if ao \<or> az then amount_sat_add fee0 (AMOUNT_SAT 660) else Some fee0);
        let (_, self, oth) = try_subtract_fee op side base_fee self_pay other_pay in
        do {
          offered \<leftarrow> untrimmed_outputs cp OFFERED_HTLC side hs feerate_per_kw dust ao az side;
          received \<leftarrow> untrimmed_outputs cp RECEIVED_HTLC (other side) hs feerate_per_kw dust ao az side;
          let to_local = (if amount_msat_greater_eq_sat self dust
                 then [(TO_LOCAL delay (if side = lessor then csv_lock else 0),
                        amount_msat_to_sat_round_down self)]
                 else []);
              to_remote = (if amount_msat_greater_eq_sat oth dust
                 then [(TO_REMOTE (if ao \<or> az then Some (if other side = lessor then csv_lock else 1)
                                   else None),
                        amount_msat_to_sat_round_down oth)]
                 else []);
              anchors = (if ao \<or> az
                 then (if to_local \<noteq> [] \<or> untrimmed \<noteq> 0 then [(ANCHOR side, AMOUNT_SAT ANCHOR_SATS)] else [])
                      @ (if to_remote \<noteq> [] \<or> untrimmed \<noteq> 0
                         then [(ANCHOR (other side), AMOUNT_SAT ANCHOR_SATS)] else [])
                 else []);
              outputs = offered @ received @ to_local @ to_remote @ anchors
          in if outputs = [] then None else Some outputs } })"

section \<open>Untrimmed HTLCs\<close>

text \<open>The HTLCs that have an output on \<open>side\<close>'s commitment.\<close>

definition has_output :: "chainparams \<Rightarrow> u32 \<Rightarrow> amount_sat \<Rightarrow> bool \<Rightarrow> bool \<Rightarrow> side \<Rightarrow> htlc \<Rightarrow> bool" where
  "has_output cp f dust ao az side h \<longleftrightarrow>
     1000 * htlc_min_output cp (htlc_owner h = side) (unat f) (sat dust) ao az \<le> msat (h_amount h)"

lemma trim_spec:
  "sat dust < 2 ^ 50 \<Longrightarrow> trim cp h f dust ao az side = Some (\<not> has_output cp f dust ao az side h)"
  by (simp add: trim_def htlc_is_trimmed_spec has_output_def not_le)

lemma commit_tx_num_untrimmed_spec:
  assumes "sat dust < 2 ^ 50"
  shows "commit_tx_num_untrimmed cp hs f dust ao az side
     = Some (of_nat (length (filter (has_output cp f dust ao az side) hs)))"
  by (induction hs) (simp_all add: trim_spec [OF assms])

lemma untrimmed_outputs_spec:
  assumes "sat dust < 2 ^ 50" and "\<forall>h \<in> set hs. h_expiry h < SECONDS_POINT"
  shows "untrimmed_outputs cp mk own hs f dust ao az side
     = Some (map (\<lambda>h. (mk h, amount_msat_to_sat_round_down (h_amount h)))
         (filter (\<lambda>h. htlc_owner h = own \<and> has_output cp f dust ao az side h) hs))"
  using assms(2)
  by (induction hs) (auto simp: trim_spec [OF assms(1)] abs_locktime_to_blocks_def not_le)

text \<open>The total of the trimmed amounts, as a number.\<close>

lemma commit_tx_amount_trimmed_spec:
  assumes "sat dust < 2 ^ 50"
  shows "\<exists>ok a. commit_tx_amount_trimmed cp hs f dust ao az side amt = Some (ok, a)
     \<and> (ok \<longrightarrow> msat a = msat amt
          + (\<Sum>h \<leftarrow> filter (\<lambda>h. \<not> has_output cp f dust ao az side h) hs. msat (h_amount h)))
     \<and> (\<not> ok \<longleftrightarrow> 2 ^ 64 \<le> msat amt
          + (\<Sum>h \<leftarrow> filter (\<lambda>h. \<not> has_output cp f dust ao az side h) hs. msat (h_amount h)))"
proof (induction hs arbitrary: amt)
  case Nil
  then show ?case using unat_u64_lt [of "millisatoshis amt"] by (auto intro: exI [of _ True])
next
  case (Cons h hs)
  show ?case
  proof (cases "has_output cp f dust ao az side h")
    case True
    then show ?thesis using Cons.IH [of amt] by (simp add: trim_spec [OF assms])
  next
    case False
    show ?thesis
    proof (cases "amount_msat_accumulate amt (h_amount h)")
      case None
      then show ?thesis using False msat_arith.add_None [of amt "h_amount h"]
        by (auto simp: trim_spec [OF assms] amount_msat_accumulate_def intro!: exI [of _ False])
    next
      case (Some a)
      then have "msat a = msat amt + msat (h_amount h)"
        by (simp add: amount_msat_accumulate_def msat_arith.add_iff)
      then show ?thesis using Some False Cons.IH [of a]
        by (simp add: trim_spec [OF assms] add.assoc)
    qed
  qed
qed

section \<open>The outputs of a commitment\<close>

definition commit_weight :: "chainparams \<Rightarrow> nat \<Rightarrow> bool \<Rightarrow> nat" where
  "commit_weight cp n anchors =
     (if anchors then 1124 else 724) + 172 * n
     + (if is_elements cp then 50 + 140 * (n + (if anchors then 5 else 3)) else 0)"

lemma commit_tx_base_weight_spec:
  assumes "n < 2 ^ 20"
  shows "unat (commit_tx_base_weight cp (of_nat n) ao az) = commit_weight cp n (ao \<or> az)"
proof -
  have n: "unat (of_nat n :: u64) = n" using assms by (intro unat_of_nat_u64) simp
  have m: "172 * n < 18446744073709551616" "140 * n < 18446744073709551616" using assms by simp_all
  define w where "w = (of_nat n :: u64)"
  have "commit_tx_base_weight cp w ao az =
      (if ao \<or> az then 1124 else 724) + 172 * w
      + (if is_elements cp then 50 + 140 * (w + (if ao \<or> az then 5 else 3)) else 0)"
    by (simp add: commit_tx_base_weight_def elements_tx_overhead_def Let_def algebra_simps)
  also have "\<dots> = of_nat (commit_weight cp n (ao \<or> az))"
    by (simp add: w_def commit_weight_def)
  finally have "commit_tx_base_weight cp w ao az = of_nat (commit_weight cp n (ao \<or> az))" .
  moreover have "commit_weight cp n (ao \<or> az) < 18446744073709551616"
    using assms by (simp add: commit_weight_def)
  ultimately show ?thesis by (simp add: w_def unat_of_nat_u64)
qed

lemma commit_tx_base_fee_Some:
  assumes "n < 2 ^ 20"
  shows "\<exists>fee. commit_tx_base_fee cp f (of_nat n) ao az = Some fee
     \<and> sat fee = tx_fee (Some cp) (unat f) (commit_weight cp n (ao \<or> az))"
proof -
  have "unat (commit_tx_base_weight cp (of_nat n) ao az) < 2 ^ 32"
    using assms by (simp add: commit_tx_base_weight_spec commit_weight_def)
  then show ?thesis
    using amount_tx_fee_Some [of "commit_tx_base_weight cp (of_nat n) ao az" "Some cp" f] assms
    by (simp add: commit_tx_base_fee_def commit_tx_base_weight_spec)
qed

definition out_total :: "(commit_output \<times> amount_sat) list \<Rightarrow> nat" where
  "out_total outs = (\<Sum>(_, a) \<leftarrow> outs. sat a)"

lemma out_total_simps [simp]:
  "out_total [] = 0" "out_total ((k, a) # outs) = sat a + out_total outs"
  "out_total (xs @ ys) = out_total xs + out_total ys"
  by (simp_all add: out_total_def)

lemma sat_round_down: "sat (amount_msat_to_sat_round_down m) = msat m div 1000"
  by (simp add: amount_msat_to_sat_round_down_def unat_div)

lemma htlc_outputs_total:
  "1000 * (out_total (map (\<lambda>h. (mk h, amount_msat_to_sat_round_down (h_amount h)))
             (filter (\<lambda>h. htlc_owner h = s \<and> P h) hs))
         + out_total (map (\<lambda>h. (mk' h, amount_msat_to_sat_round_down (h_amount h)))
             (filter (\<lambda>h. htlc_owner h = other s \<and> P h) hs)))
     \<le> (\<Sum>h \<leftarrow> filter P hs. msat (h_amount h))"
proof (induction hs)
  case (Cons h hs)
  have "1000 * (msat (h_amount h) div 1000) \<le> msat (h_amount h)" by simp
  with Cons.IH show ?case
    using neq_side_iff [of "htlc_owner h" s] by (auto simp: sat_round_down simp del: times_div_less_eq_dividend)
qed simp

lemma sum_filter_le:
  fixes g :: "'a \<Rightarrow> nat"
  shows "(\<Sum>x \<leftarrow> filter P xs. g x) \<le> (\<Sum>x \<leftarrow> xs. g x)"
  by (induction xs) auto

lemma amount_msat_greater_eq_sat_iff:
  "sat s * 1000 < 2 ^ 64 \<Longrightarrow> amount_msat_greater_eq_sat m s \<longleftrightarrow> 1000 * sat s \<le> msat m"
  by (simp add: amount_msat_greater_eq_sat_def amount_sat_to_msat_eq word_le_nat_alt
      unat_u64_mult_exact mult.commute)

lemma amount_msat_greater_sat_iff:
  "sat s * 1000 < 2 ^ 64 \<Longrightarrow> amount_msat_greater_sat m s \<longleftrightarrow> 1000 * sat s < msat m"
  by (simp add: amount_msat_greater_sat_def amount_sat_to_msat_eq word_less_nat_alt
      unat_u64_mult_exact mult.commute)

lemma amount_msat_sub_sat_iff:
  "sat s * 1000 < 2 ^ 64 \<Longrightarrow> amount_msat_sub_sat m s = Some r \<longleftrightarrow> msat m = msat r + 1000 * sat s"
  by (simp add: amount_msat_sub_sat_def amount_sat_to_msat_eq msat_arith.sub_iff
      unat_u64_mult_exact mult.commute)

text \<open>The opener is left with what the fee leaves of his balance, or with nothing.\<close>

lemma try_subtract_fee_spec:
  assumes "sat fee * 1000 < 2 ^ 64"
  obtains ok self' oth' where "try_subtract_fee op side fee self oth = (ok, self', oth')"
    and "msat self' = (if op = side then msat self - 1000 * sat fee else msat self)"
    and "msat oth' = (if op = side then msat oth else msat oth - 1000 * sat fee)"
proof -
  have "\<exists>ok l. (case amount_msat_deduct_sat a fee of Some l \<Rightarrow> (True, l) | None \<Rightarrow> (False, AMOUNT_MSAT 0)) = (ok, l)
      \<and> msat l = msat a - 1000 * sat fee" for a
  proof (cases "1000 * sat fee \<le> msat a")
    case True
    define r where "r = AMOUNT_MSAT (millisatoshis a - of_nat (1000 * sat fee))"
    have "msat r + 1000 * sat fee = msat a"
      using assms True unfolding r_def by (simp add: unat_u64_sub_exact unat_of_nat_u64 mult.commute del: of_nat_mult)
    moreover from this have "amount_msat_deduct_sat a fee = Some r"
      using assms by (simp add: amount_msat_deduct_sat_def amount_msat_sub_sat_iff)
    ultimately show ?thesis by auto
  next
    case False
    then have "amount_msat_deduct_sat a fee = None"
      using assms amount_msat_sub_sat_iff [of fee a] by (cases "amount_msat_deduct_sat a fee") (auto simp: amount_msat_deduct_sat_def)
    with False show ?thesis by auto
  qed
  from this [of self] this [of oth] show thesis
    by (intro that [of "fst (try_subtract_fee op side fee self oth)" "fst (snd (try_subtract_fee op side fee self oth))"
          "snd (snd (try_subtract_fee op side fee self oth))"]) (auto simp: try_subtract_fee_def Let_def)
qed

text \<open>What the opener pays for \<open>side\<close>'s commitment: the fee of its weight, and both anchors.\<close>

definition commit_fee :: "chainparams \<Rightarrow> u32 \<Rightarrow> amount_sat \<Rightarrow> bool \<Rightarrow> bool \<Rightarrow> side \<Rightarrow> htlc list \<Rightarrow> nat" where
  "commit_fee cp f dust ao az side hs =
     tx_fee (Some cp) (unat f)
       (commit_weight cp (length (filter (has_output cp f dust ao az side) hs)) (ao \<or> az))"

definition anchor_cost :: "bool \<Rightarrow> bool \<Rightarrow> nat" where
  "anchor_cost ao az = (if ao \<or> az then 660 else 0)"

lemma commit_tx_fees:
  assumes dust: "sat dust < 2 ^ 50" and few: "length hs < 2 ^ 20"
  shows "\<exists>fee0 base. commit_tx_base_fee cp f
             (of_nat (length (filter (has_output cp f dust ao az side) hs))) ao az = Some fee0
     \<and> (if ao \<or> az then amount_sat_add fee0 (AMOUNT_SAT 660) else Some fee0) = Some base
     \<and> sat base = commit_fee cp f dust ao az side hs + anchor_cost ao az \<and> sat base * 1000 < 2 ^ 64"
proof -
  let ?n = "length (filter (has_output cp f dust ao az side) hs)"
  have n: "?n < 2 ^ 20" using few le_less_trans [OF length_filter_le] by blast
  obtain fee0 where fee0: "commit_tx_base_fee cp f (of_nat ?n) ao az = Some fee0"
      "sat fee0 = commit_fee cp f dust ao az side hs"
    using commit_tx_base_fee_Some [OF n, of cp f ao az] by (auto simp: commit_fee_def)
  define X where "X = unat f * commit_weight cp ?n (ao \<or> az)"
  have "X \<le> 4294967295 * 400000000"
    unfolding X_def using unat_u32_le_max [of f] n by (intro mult_le_mono) (auto simp: commit_weight_def)
  then have small: "sat fee0 \<le> 1717986918000001"
    by (auto simp: fee0(2) commit_fee_def tx_fee_def div_up_def X_def [symmetric])
  then obtain base where "amount_sat_add fee0 (AMOUNT_SAT 660) = Some base"
    using sat_arith.add_None [of fee0 "AMOUNT_SAT 660"]
    by (cases "amount_sat_add fee0 (AMOUNT_SAT 660)") auto
  then show ?thesis
    using fee0 small sat_arith.add_Some [of fee0 "AMOUNT_SAT 660" base]
    by (cases "ao \<or> az") (auto simp: anchor_cost_def)
qed

text \<open>The HTLC outputs of one direction, and the outputs of balances and anchors.\<close>

definition htlc_outs ::
  "(htlc \<Rightarrow> bool) \<Rightarrow> (htlc \<Rightarrow> commit_output) \<Rightarrow> side \<Rightarrow> htlc list \<Rightarrow> (commit_output \<times> amount_sat) list" where
  "htlc_outs P mk s hs = map (\<lambda>h. (mk h, amount_msat_to_sat_round_down (h_amount h)))
     (filter (\<lambda>h. htlc_owner h = s \<and> P h) hs)"

definition balance_outs ::
  "side \<Rightarrow> side \<Rightarrow> u16 \<Rightarrow> u32 \<Rightarrow> amount_sat \<Rightarrow> bool \<Rightarrow> bool \<Rightarrow> bool \<Rightarrow> amount_msat \<Rightarrow> amount_msat
   \<Rightarrow> (commit_output \<times> amount_sat) list" where
  "balance_outs op side delay lock dust anchors some_htlc lent self oth =
     (let l = amount_msat_greater_eq_sat self dust; r = amount_msat_greater_eq_sat oth dust
      in (if l then [(TO_LOCAL delay (if lent then lock else 0), amount_msat_to_sat_round_down self)] else [])
       @ (if r then [(TO_REMOTE (if anchors then Some (if \<not> lent then lock else 1) else None),
                      amount_msat_to_sat_round_down oth)] else [])
       @ (if anchors \<and> (l \<or> some_htlc) then [(ANCHOR side, AMOUNT_SAT ANCHOR_SATS)] else [])
       @ (if anchors \<and> (r \<or> some_htlc) then [(ANCHOR (other side), AMOUNT_SAT ANCHOR_SATS)] else []))"

lemma balance_outs_total:
  "1000 * out_total (balance_outs op side delay lock dust (ao \<or> az) some_htlc lent self oth)
     \<le> msat self + msat oth + 1000 * anchor_cost ao az"
proof -
  have "1000 * (msat x div 1000) \<le> msat x" for x by simp
  from this [of self] this [of oth] show ?thesis
    by (auto simp: balance_outs_def Let_def sat_round_down anchor_cost_def
        simp del: times_div_less_eq_dividend)
qed

lemma commit_tx_eval:
  fixes cp hs f dust ao az side
  defines "P \<equiv> has_output cp f dust ao az side"
  assumes dust: "sat dust < 2 ^ 50" and expiry: "\<forall>h \<in> set hs. h_expiry h < SECONDS_POINT"
    and pay: "amount_msat_add self oth = Some t" "\<not> amount_msat_greater_sat t fund"
    and fee: "commit_tx_base_fee cp f (of_nat (length (filter P hs))) ao az = Some fee0"
      "(if ao \<or> az then amount_sat_add fee0 (AMOUNT_SAT 660) else Some fee0) = Some base"
    and sub: "try_subtract_fee op side base self oth = (ok, self', oth')"
  shows "commit_tx cp fund op delay lease bh f dust self oth hs ao az side =
     (let outs = htlc_outs P OFFERED_HTLC side hs @ htlc_outs P RECEIVED_HTLC (other side) hs
       @ balance_outs op side delay (if lease > bh then lease - bh else 1) dust (ao \<or> az)
           ((of_nat (length (filter P hs)) :: u64) \<noteq> 0) (side = other op) self' oth'
      in if outs = [] then None else Some outs)"
proof -
  have h: "untrimmed_outputs cp mk s hs f dust ao az side = Some (htlc_outs P mk s hs)" for mk s
    unfolding htlc_outs_def P_def using dust expiry by (rule untrimmed_outputs_spec)
  have n: "commit_tx_num_untrimmed cp hs f dust ao az side = Some (of_nat (length (filter P hs)))"
    unfolding P_def using dust by (rule commit_tx_num_untrimmed_spec)
  have o: "other side = other op \<longleftrightarrow> side \<noteq> other op" by (cases side; cases op) auto
  show ?thesis
    using pay fee by (simp add: commit_tx_def n h sub balance_outs_def Let_def o)
qed

text \<open>The outputs, once the fee is known: which there are, and that something is left out exactly when nothing is above dust.\<close>

lemma balance_outs_members:
  assumes "sat dust < 2 ^ 50"
  shows "(\<exists>d l. (TO_LOCAL d l, a) \<in> set (balance_outs op side delay lock dust anchors some_htlc lent self oth))
       \<longleftrightarrow> 1000 * sat dust \<le> msat self \<and> sat a = msat self div 1000"
    and "(\<exists>l. (TO_REMOTE l, a) \<in> set (balance_outs op side delay lock dust anchors some_htlc lent self oth))
       \<longleftrightarrow> 1000 * sat dust \<le> msat oth \<and> sat a = msat oth div 1000"
    and "\<not> some_htlc \<Longrightarrow> balance_outs op side delay lock dust anchors some_htlc lent self oth = []
       \<longleftrightarrow> msat self < 1000 * sat dust \<and> msat oth < 1000 * sat dust"
proof -
  have eq: "sat a = msat m div 1000 \<longleftrightarrow> a = amount_msat_to_sat_round_down m" for m
    by (metis sat_round_down amount_sat.expand word_unat_eq_iff)
  have ge: "amount_msat_greater_eq_sat m dust \<longleftrightarrow> 1000 * sat dust \<le> msat m" for m
    using assms by (simp add: amount_msat_greater_eq_sat_iff)
  show "(\<exists>d l. (TO_LOCAL d l, a) \<in> set (balance_outs op side delay lock dust anchors some_htlc lent self oth))
       \<longleftrightarrow> 1000 * sat dust \<le> msat self \<and> sat a = msat self div 1000"
    and "(\<exists>l. (TO_REMOTE l, a) \<in> set (balance_outs op side delay lock dust anchors some_htlc lent self oth))
       \<longleftrightarrow> 1000 * sat dust \<le> msat oth \<and> sat a = msat oth div 1000"
    by (auto simp: balance_outs_def Let_def ge eq)
  show "balance_outs op side delay lock dust anchors some_htlc lent self oth = []
       \<longleftrightarrow> msat self < 1000 * sat dust \<and> msat oth < 1000 * sat dust" if "\<not> some_htlc"
    using that by (auto simp: balance_outs_def Let_def ge)
qed

text \<open>
  (C29) What a commitment transaction pays, for balances and HTLCs that the funding covers. The opener pays the
  fee of the weight and both anchors from his balance, and is left with nothing if it is less. A balance that is
  then not below the dust limit is paid out in whole satoshis, any other is left out; the HTLC outputs are exactly
  the HTLCs that are not trimmed. If that is no output at all \<^verbatim>\<open>commit_tx\<close> stops (\<^verbatim>\<open>assert(n > 0)\<close>), and in no
  other case. The outputs with the anchors pay no more than what the opener's payment leaves of the funding; so
  if the opener can afford all of it, outputs and fee fit in the funding. The list is the one before it is sorted and finalized.
\<close>

theorem commit_tx_pays_fee:
  fixes cp f dust ao az side hs self oth op
  defines "cost \<equiv> 1000 * (commit_fee cp f dust ao az side hs + anchor_cost ao az)"
  defines "self' \<equiv> (if op = side then msat self - cost else msat self)"
    and "oth' \<equiv> (if op = side then msat oth else msat oth - cost)"
    and "has \<equiv> has_output cp f dust ao az side"
  assumes dust: "sat dust < 2 ^ 50" and few: "length hs < 2 ^ 20"
    and expiry: "\<forall>h \<in> set hs. h_expiry h < SECONDS_POINT"
    and covered: "msat self + msat oth + (\<Sum>h \<leftarrow> hs. msat (h_amount h)) \<le> 1000 * sat fund"
    and fund: "1000 * sat fund < 2 ^ 64"
  shows "case commit_tx cp fund op delay lease bh f dust self oth hs ao az side of
     None \<Rightarrow> (\<forall>h \<in> set hs. \<not> has h) \<and> self' < 1000 * sat dust \<and> oth' < 1000 * sat dust
   | Some outs \<Rightarrow> ((\<exists>h \<in> set hs. has h) \<or> 1000 * sat dust \<le> self' \<or> 1000 * sat dust \<le> oth')
     \<and> (\<forall>a. (\<exists>d l. (TO_LOCAL d l, a) \<in> set outs) \<longleftrightarrow> 1000 * sat dust \<le> self' \<and> sat a = self' div 1000)
     \<and> (\<forall>a. (\<exists>l. (TO_REMOTE l, a) \<in> set outs) \<longleftrightarrow> 1000 * sat dust \<le> oth' \<and> sat a = oth' div 1000)
     \<and> {h. \<exists>a. (OFFERED_HTLC h, a) \<in> set outs} = {h \<in> set hs. htlc_owner h = side \<and> has h}
     \<and> {h. \<exists>a. (RECEIVED_HTLC h, a) \<in> set outs} = {h \<in> set hs. htlc_owner h = other side \<and> has h}
     \<and> 1000 * out_total outs + min cost (msat (if op = side then self else oth))
         \<le> 1000 * sat fund + 1000 * anchor_cost ao az
     \<and> (cost \<le> msat (if op = side then self else oth) \<longrightarrow> out_total outs + commit_fee cp f dust ao az side hs \<le> sat fund)"
proof -
  obtain fee0 base where fee: "commit_tx_base_fee cp f (of_nat (length (filter has hs))) ao az = Some fee0"
      "(if ao \<or> az then amount_sat_add fee0 (AMOUNT_SAT 660) else Some fee0) = Some base"
      and sbase: "1000 * sat base = cost" and fits: "sat base * 1000 < 2 ^ 64"
    using commit_tx_fees [OF dust few] unfolding has_def cost_def by metis
  obtain ok s1 o1 where sub: "try_subtract_fee op side base self oth = (ok, s1, o1)"
      and left: "msat s1 = self'" "msat o1 = oth'"
    by (rule try_subtract_fee_spec [OF fits, of op side self oth]) (simp_all add: sbase self'_def oth'_def)
  obtain t where pay: "amount_msat_add self oth = Some t" "\<not> amount_msat_greater_sat t fund"
    using covered fund msat_arith.add_None [of self oth] msat_arith.add_Some [of self oth]
    by (cases "amount_msat_add self oth") (auto simp: amount_msat_greater_sat_iff)
  define bs where "bs = balance_outs op side delay (if lease > bh then lease - bh else 1) dust (ao \<or> az)
      ((of_nat (length (filter has hs)) :: u64) \<noteq> 0) (side = other op) s1 o1"
  define os where "os = htlc_outs has OFFERED_HTLC side hs @ htlc_outs has RECEIVED_HTLC (other side) hs @ bs"
  have eval: "commit_tx cp fund op delay lease bh f dust self oth hs ao az side = (if os = [] then None else Some os)"
    using commit_tx_eval [OF dust expiry pay fee [unfolded has_def] sub, of delay lease bh] unfolding os_def bs_def has_def Let_def .
  have htlcs: "{h. \<exists>a. (OFFERED_HTLC h, a) \<in> set os} = {h \<in> set hs. htlc_owner h = side \<and> has h}"
      "{h. \<exists>a. (RECEIVED_HTLC h, a) \<in> set os} = {h \<in> set hs. htlc_owner h = other side \<and> has h}"
    and own: "(TO_LOCAL d l, a) \<in> set os \<longleftrightarrow> (TO_LOCAL d l, a) \<in> set bs" "(TO_REMOTE r, a) \<in> set os \<longleftrightarrow> (TO_REMOTE r, a) \<in> set bs" for d l r a
    by (auto simp: os_def htlc_outs_def bs_def balance_outs_def Let_def)
  have pays: "(\<exists>d l. (TO_LOCAL d l, a) \<in> set bs) \<longleftrightarrow> 1000 * sat dust \<le> self' \<and> sat a = self' div 1000"
      "(\<exists>l. (TO_REMOTE l, a) \<in> set bs) \<longleftrightarrow> 1000 * sat dust \<le> oth' \<and> sat a = oth' div 1000" for a
    unfolding bs_def left [symmetric] by (rule balance_outs_members [OF dust])+
  have none: "os = [] \<longleftrightarrow> (\<forall>h \<in> set hs. \<not> has h) \<and> self' < 1000 * sat dust \<and> oth' < 1000 * sat dust"
  proof (cases "\<exists>h \<in> set hs. has h")
    case True
    then have "os \<noteq> []" using neq_side_iff by (fastforce simp: os_def htlc_outs_def filter_empty_conv)
    with True show ?thesis by blast
  next
    case False
    then have "filter has hs = []" by (simp add: filter_empty_conv)
    then have "os = [] \<longleftrightarrow> bs = []" using False by (auto simp: os_def htlc_outs_def filter_empty_conv)
    also have "\<dots> \<longleftrightarrow> self' < 1000 * sat dust \<and> oth' < 1000 * sat dust"
      unfolding bs_def left [symmetric] by (rule balance_outs_members(3) [OF dust]) (simp add: \<open>filter has hs = []\<close>)
    finally show ?thesis using False by blast
  qed
  have "1000 * (out_total (htlc_outs has OFFERED_HTLC side hs) + out_total (htlc_outs has RECEIVED_HTLC (other side) hs))
      \<le> (\<Sum>h \<leftarrow> hs. msat (h_amount h))"
    unfolding htlc_outs_def using htlc_outputs_total [of OFFERED_HTLC side has hs RECEIVED_HTLC]
      sum_filter_le [of "\<lambda>h. msat (h_amount h)" has hs] by linarith
  moreover have "1000 * out_total bs \<le> self' + oth' + 1000 * anchor_cost ao az"
    unfolding bs_def left [symmetric] by (rule balance_outs_total)
  moreover have "self' + oth' + min cost (msat (if op = side then self else oth)) = msat self + msat oth"
    by (simp add: self'_def oth'_def min_def)
  ultimately have total: "1000 * out_total os + min cost (msat (if op = side then self else oth))
      \<le> 1000 * sat fund + 1000 * anchor_cost ao az"
    using covered by (simp add: os_def)
  have "out_total os + commit_fee cp f dust ao az side hs \<le> sat fund" if "cost \<le> msat (if op = side then self else oth)"
    using total that by (simp add: cost_def min_absorb1 del: if_split)
  then show ?thesis using none htlcs total by (auto simp: eval own pays not_less)
qed

definition demo_htlc :: "htlc_state \<Rightarrow> u64 \<Rightarrow> amount_msat \<Rightarrow> htlc" where
  "demo_htlc st hid amt =
     \<lparr>h_state = st, h_id = hid, h_amount = amt, h_expiry = 1000, h_rhash = [1], h_r = None,
      h_lock_point = None, h_lane = 0, h_failed = None, h_routing = [], h_path_key = None,
      h_extra_tlvs = None, h_fail_immediate = False\<rparr>"

lemmas demo_commit_simps =
  demo_htlc_def has_output_def htlc_owner_def htlc_state_owner_def state_lt_iff htlc_min_output_def
  htlc_tx_weight_def tx_fee_def rounds_up_def div_up_def commit_fee_def commit_weight_def
  anchor_cost_def SECONDS_POINT_def net_sequentia_testnet_def

text \<open>An opener who can pay, and one with 100 satoshis who cannot.\<close>

theorem commit_tx_pays_fee_witness:
  "(\<exists>outs. commit_tx net_sequentia_testnet (AMOUNT_SAT 1000000) LOCAL 144 0 0 253 (AMOUNT_SAT 546)
       (AMOUNT_MSAT 400000000) (AMOUNT_MSAT 500000000)
       [demo_htlc SENT_ADD_COMMIT 0 (AMOUNT_MSAT 100000000)] False True REMOTE = Some outs
     \<and> out_total outs + 554 \<le> 1000000)
   \<and> (\<exists>outs. commit_tx net_sequentia_testnet (AMOUNT_SAT 1000000) LOCAL 144 0 0 253 (AMOUNT_SAT 546)
       (AMOUNT_MSAT 400000000) (AMOUNT_MSAT 100000)
       [demo_htlc SENT_ADD_COMMIT 0 (AMOUNT_MSAT 100000000)] False True REMOTE = Some outs
     \<and> (\<forall>l a. (TO_REMOTE l, a) \<notin> set outs) \<and> out_total outs \<le> 1000560)"
proof -
  let ?hs = "[demo_htlc SENT_ADD_COMMIT 0 (AMOUNT_MSAT 100000000)]"
  let ?tx = "\<lambda>oth. commit_tx net_sequentia_testnet (AMOUNT_SAT 1000000) LOCAL 144 0 0 253 (AMOUNT_SAT 546)
       (AMOUNT_MSAT 400000000) (AMOUNT_MSAT oth) ?hs False True REMOTE"
  have fee: "commit_fee net_sequentia_testnet 253 (AMOUNT_SAT 546) False True REMOTE ?hs = 554" "anchor_cost False True = 660"
    by (simp_all add: demo_commit_simps)
  have ok: "\<forall>h \<in> set ?hs. h_expiry h < SECONDS_POINT" "msat (h_amount (hd ?hs)) = 100000000"
    by (simp_all add: demo_htlc_def SECONDS_POINT_def)
  note tx = commit_tx_pays_fee [where cp = net_sequentia_testnet and fund = "AMOUNT_SAT 1000000" and op = LOCAL and delay = 144
      and lease = 0 and bh = 0 and f = 253 and dust = "AMOUNT_SAT 546" and self = "AMOUNT_MSAT 400000000" and hs = ?hs
      and ao = False and az = True and side = REMOTE, unfolded fee]
  have "\<exists>outs. ?tx 500000000 = Some outs \<and> out_total outs + 554 \<le> 1000000"
    using tx [where oth = "AMOUNT_MSAT 500000000"] ok by (cases "?tx 500000000") auto
  moreover have "\<exists>outs. ?tx 100000 = Some outs \<and> (\<forall>l a. (TO_REMOTE l, a) \<notin> set outs) \<and> out_total outs \<le> 1000560"
    using tx [where oth = "AMOUNT_MSAT 100000"] ok by (cases "?tx 100000") auto
  ultimately show ?thesis by blast
qed

end
