(* ===== verification/FullChannel.thy ===== *)
theory FullChannel
  imports CommitTx
begin

text \<open>
  The channel state machine of \<^verbatim>\<open>channeld/full_channel.c\<close>: adding, fulfilling and failing HTLCs,
  feerate and blockheight updates, swaps between lanes, the four commitment events, and the replay
  of stored HTLCs after a restart. The transactions (\<^verbatim>\<open>channel_txs\<close>, \<^verbatim>\<open>add_htlcs\<close>) and the logging
  are not modelled.

  A \<^verbatim>\<open>struct balance\<close>, an \<^verbatim>\<open>s64\<close>, is its 64 bits, read with \<^const>\<open>sint\<close>; its sums wrap, as the
  machine's do. The balances of one view are a list by lane: the channel's own lane at index 0 (the
  code's \<^verbatim>\<open>owed\<close>) and then the others (\<^verbatim>\<open>lowed\<close>). A result of type \<open>run\<close> is \<open>None\<close> where the
  daemon would stop: an assertion, \<^verbatim>\<open>abort\<close>, \<^verbatim>\<open>status_failed\<close>, or an access out of bounds. SHA-256,
  the curve point of a scalar and the floating-point \<^verbatim>\<open>marginal_feerate\<close> are arguments.
\<close>

section \<open>Balances\<close>

type_synonym balance = u64

text \<open>One view's balances, by lane.\<close>

type_synonym lane_owed = "side \<Rightarrow> balance"

definition to_balance :: "amount_msat \<Rightarrow> balance run" where
  "to_balance m = (if 0 \<le> sint (millisatoshis m) then Some (millisatoshis m) else None)"

definition balance_add_htlc :: "balance \<Rightarrow> htlc \<Rightarrow> side \<Rightarrow> balance" where
  "balance_add_htlc b h side =
     (if htlc_owner h = side then b - millisatoshis (h_amount h) else b)"

definition balance_remove_htlc :: "balance \<Rightarrow> htlc \<Rightarrow> side \<Rightarrow> balance" where
  "balance_remove_htlc b h side =
     (let paid_to = (if h_r h \<noteq> None then other (htlc_owner h) else htlc_owner h)
      in if side = paid_to then b + millisatoshis (h_amount h) else b)"

definition balance_ok :: "balance \<Rightarrow> amount_msat option" where
  "balance_ok b = (if sint b < 0 then None else Some (AMOUNT_MSAT b))"

text \<open>Update of one side's balance in one lane; a lane that is not there is out of bounds.\<close>

definition lane_upd :: "nat \<Rightarrow> (lane_owed \<Rightarrow> lane_owed) \<Rightarrow> lane_owed list \<Rightarrow> lane_owed list run" where
  "lane_upd l f bals = (if l < length bals then Some (bals[l := f (bals ! l)]) else None)"

definition balance_swap :: "lane_owed list \<Rightarrow> sym_swap \<Rightarrow> lane_owed list run" where
  "balance_swap bals swap =
     (let owner = htlc_state_owner (swap_state swap);
          g = unat (give_lane swap); t = unat (take_lane swap);
          give = millisatoshis (swap_give swap); take = millisatoshis (swap_take swap)
      in do { b1 \<leftarrow> lane_upd g (\<lambda>b. b(owner := b owner - give)) bals;
              b2 \<leftarrow> lane_upd g (\<lambda>b. b(other owner := b (other owner) + give)) b1;
              b3 \<leftarrow> lane_upd t (\<lambda>b. b(other owner := b (other owner) - take)) b2;
              lane_upd t (\<lambda>b. b(owner := b owner + take)) b3 })"

definition swap_promised :: "channel \<Rightarrow> side \<Rightarrow> nat \<Rightarrow> side \<Rightarrow> amount_msat run" where
  "swap_promised ch v lane payer =
     (let step = (\<lambda>total s. case s of
            None \<Rightarrow> Some total
          | Some sw \<Rightarrow>
              if state_has (swap_state sw) (HTLC_FLAG v HTLC_F_COMMITTED) then Some total
              else let owner = htlc_state_owner (swap_state sw)
                   in if owner = payer \<and> unat (give_lane sw) = lane
                      then amount_msat_accumulate total (swap_give sw)
                      else if owner \<noteq> payer \<and> unat (take_lane sw) = lane
                      then amount_msat_accumulate total (swap_take sw)
                      else Some total)
      in do { t1 \<leftarrow> step (AMOUNT_MSAT 0) (chan_swap ch); step t1 (chan_swap_req ch) })"

section \<open>Gathering HTLCs\<close>

text \<open>
  The number of HTLCs of the other side that will stay, the HTLCs committed, pending removal and
  pending addition on \<open>side\<close>; lane \<open>None\<close>, the code's \<^verbatim>\<open>-1\<close>, is every lane.
\<close>

fun gather_lane_htlcs ::
  "htlc list \<Rightarrow> side \<Rightarrow> nat option \<Rightarrow> nat \<times> htlc list \<times> htlc list \<times> htlc list" where
  "gather_lane_htlcs [] side lane = (0, [], [], [])"
| "gather_lane_htlcs (h # hs) side lane =
     (let (n, committed, removal, addition) = gather_lane_htlcs hs side lane;
          theirs = (if htlc_owner h \<noteq> side then 1 else 0)
      in if lane \<noteq> None \<and> lane \<noteq> Some (unat (h_lane h)) then (n, committed, removal, addition)
         else if htlc_has h (HTLC_FLAG side HTLC_F_COMMITTED)
         then if htlc_has h (HTLC_FLAG side HTLC_F_PENDING)
              then (n, h # committed, h # removal, addition)
              else (n + theirs, h # committed, removal, addition)
         else if htlc_has h (HTLC_FLAG side HTLC_F_PENDING)
         then (n + theirs, committed, removal, h # addition)
         else (n, committed, removal, addition))"

definition gather_htlcs :: "htlc list \<Rightarrow> side \<Rightarrow> nat \<times> htlc list \<times> htlc list \<times> htlc list" where
  "gather_htlcs hs side = gather_lane_htlcs hs side (Some 0)"

definition channel_committed_htlcs :: "channel \<Rightarrow> side \<Rightarrow> htlc list" where
  "channel_committed_htlcs ch side = fst (snd (gather_lane_htlcs (htlcs ch) side None))"

definition sum_offered_msatoshis :: "htlc list \<Rightarrow> side \<Rightarrow> amount_msat option" where
  "sum_offered_msatoshis hs side =
     accumulate_all amount_msat_accumulate (AMOUNT_MSAT 0)
       (map h_amount (filter (\<lambda>h. htlc_owner h = side) hs))"

section \<open>Room for an HTLC\<close>

text \<open>The inner \<open>None\<close> is the \<^verbatim>\<open>false\<close> return, else \<^verbatim>\<open>*remainder\<close>.\<close>

definition get_room_above_reserve ::
  "channel \<Rightarrow> side \<Rightarrow> htlc list \<Rightarrow> htlc list \<Rightarrow> side \<Rightarrow> amount_msat option run" where
  "get_room_above_reserve ch v adding removing side =
     do { reserve \<leftarrow> channel_reserve_of ch side;
          let ow = owed (view ch v) side;
              splice = AMOUNT_SAT (- lowest_splice_amnt (view ch v) side) in
          if amount_msat_less_eq_sat ow splice then Some None
          else case amount_msat_sub_sat ow splice of
            None \<Rightarrow> Some None
          | Some ow1 \<Rightarrow>
              do { b0 \<leftarrow> to_balance ow1;
                   let b1 = foldl (\<lambda>b h. balance_remove_htlc b h side) b0 removing;
                       b2 = foldl (\<lambda>b h. balance_add_htlc b h side) b1 adding in
                   do { promised \<leftarrow> swap_promised ch v 0 side;
                        Some (case balance_ok (b2 - millisatoshis promised) of
                                None \<Rightarrow> None
                              | Some remainder \<Rightarrow> amount_msat_deduct_sat remainder reserve) } } }"

definition num_untrimmed_htlcs ::
  "chainparams \<Rightarrow> side \<Rightarrow> amount_sat \<Rightarrow> u32 \<Rightarrow> bool \<Rightarrow> bool \<Rightarrow> htlc list \<Rightarrow> htlc list \<Rightarrow> htlc list \<Rightarrow> u64 run" where
  "num_untrimmed_htlcs cp side dust f ao az committed adding removing =
     do { c \<leftarrow> commit_tx_num_untrimmed cp committed f dust ao az side;
          a \<leftarrow> commit_tx_num_untrimmed cp adding f dust ao az side;
          r \<leftarrow> commit_tx_num_untrimmed cp removing f dust ao az side;
          Some (c + a - r) }"

abbreviation opt_anchors :: "channel \<Rightarrow> bool" where
  "opt_anchors ch \<equiv> channel_has ch OPT_ANCHOR_OUTPUTS_DEPRECATED"

abbreviation opt_zero_fee :: "channel \<Rightarrow> bool" where
  "opt_zero_fee ch \<equiv> channel_has ch OPT_ANCHORS_ZERO_FEE_HTLC_TX"

definition fee_for_htlcs ::
  "chainparams \<Rightarrow> channel \<Rightarrow> htlc list \<Rightarrow> htlc list \<Rightarrow> htlc list \<Rightarrow> side \<Rightarrow> amount_sat run" where
  "fee_for_htlcs cp ch committed adding removing side =
     do { f \<leftarrow> channel_feerate ch side;
          untrimmed \<leftarrow> num_untrimmed_htlcs cp side (dust_limit (config ch side)) f
                        (opt_anchors ch) (opt_zero_fee ch) committed adding removing;
          commit_tx_base_fee cp f untrimmed (opt_anchors ch) (opt_zero_fee ch) }"

text \<open>
  The return value, and \<^verbatim>\<open>*trim_total\<close> as it is left; it starts at \<open>trim_total\<close>.
\<close>

definition htlc_dust ::
  "chainparams \<Rightarrow> channel \<Rightarrow> htlc list \<Rightarrow> htlc list \<Rightarrow> htlc list \<Rightarrow> side \<Rightarrow> u32 \<Rightarrow> amount_msat
   \<Rightarrow> (bool \<times> amount_msat) run" where
  "htlc_dust cp ch committed adding removing side f trim_total =
     (let dust = dust_limit (config ch side); ao = opt_anchors ch; az = opt_zero_fee ch
      in do { (ok1, t1) \<leftarrow> commit_tx_amount_trimmed cp committed f dust ao az side trim_total;
              if \<not> ok1 then Some (False, t1)
              else do { (ok2, t2) \<leftarrow> commit_tx_amount_trimmed cp adding f dust ao az side t1;
                        if \<not> ok2 then Some (False, t2)
                        else do { (ok3, trim_rmvd) \<leftarrow>
                                    commit_tx_amount_trimmed cp removing f dust ao az side (AMOUNT_MSAT 0);
                                  Some (if \<not> ok3 then (False, t2)
                                        else case amount_msat_deduct t2 trim_rmvd of
                                               None \<Rightarrow> (False, t2) | Some t3 \<Rightarrow> (True, t3)) } } })"

definition local_opener_has_fee_headroom ::
  "chainparams \<Rightarrow> (u32 \<Rightarrow> u32) \<Rightarrow> channel \<Rightarrow> amount_msat \<Rightarrow> htlc list \<Rightarrow> htlc list \<Rightarrow> htlc list \<Rightarrow> bool run" where
  "local_opener_has_fee_headroom cp marginal_feerate ch remainder committed adding removing =
     do { f \<leftarrow> channel_feerate ch LOCAL;
          (if opener ch = LOCAL then Some () else None);
          untrimmed \<leftarrow> num_untrimmed_htlcs cp LOCAL (dust_limit (config ch LOCAL)) f
                        (opt_anchors ch) (opt_zero_fee ch) committed adding removing;
          fee \<leftarrow> commit_tx_base_fee cp (marginal_feerate f) (untrimmed + 1)
                  (opt_anchors ch) (opt_zero_fee ch);
          Some (amount_msat_greater_eq_sat remainder fee) }"

definition lane_room ::
  "channel \<Rightarrow> side \<Rightarrow> nat \<Rightarrow> htlc list \<Rightarrow> htlc list \<Rightarrow> side \<Rightarrow> bool run" where
  "lane_room ch recipient lane adding removing sender =
     do { ow \<leftarrow> sym_lane_owed ch lane recipient sender;
          b0 \<leftarrow> to_balance ow;
          let b1 = foldl (\<lambda>b h. balance_remove_htlc b h sender) b0 removing;
              b2 = foldl (\<lambda>b h. balance_add_htlc b h sender) b1 adding in
          do { promised \<leftarrow> swap_promised ch recipient lane sender;
               Some (balance_ok (b2 - millisatoshis promised) \<noteq> None) } }"

section \<open>Adding an HTLC\<close>

datatype channel_add_err =
    CHANNEL_ERR_ADD_OK
  | CHANNEL_ERR_INVALID_EXPIRY
  | CHANNEL_ERR_DUPLICATE
  | CHANNEL_ERR_DUPLICATE_ID_DIFFERENT
  | CHANNEL_ERR_MAX_HTLC_VALUE_EXCEEDED
  | CHANNEL_ERR_CHANNEL_CAPACITY_EXCEEDED
  | CHANNEL_ERR_HTLC_BELOW_MINIMUM
  | CHANNEL_ERR_TOO_MANY_HTLCS
  | CHANNEL_ERR_DUST_FAILURE

datatype channel_remove_err =
    CHANNEL_ERR_REMOVE_OK
  | CHANNEL_ERR_NO_SUCH_ID
  | CHANNEL_ERR_ALREADY_FULFILLED
  | CHANNEL_ERR_BAD_PREIMAGE
  | CHANNEL_ERR_HTLC_UNCOMMITTED
  | CHANNEL_ERR_HTLC_NOT_IRREVOCABLE

text \<open>The HTLC \<^verbatim>\<open>add_htlc\<close> fills in before its checks.\<close>

definition new_htlc ::
  "htlc_state \<Rightarrow> u64 \<Rightarrow> amount_msat \<Rightarrow> u32 \<Rightarrow> bytes \<Rightarrow> bytes \<Rightarrow> bytes option \<Rightarrow> (u64 \<times> bytes) list option
   \<Rightarrow> u16 \<Rightarrow> htlc" where
  "new_htlc state hid amount expiry payment_hash routing path_key extra_tlvs lane =
     \<lparr>h_state = state, h_id = hid, h_amount = amount, h_expiry = expiry, h_rhash = payment_hash,
      h_r = None, h_lock_point = None, h_lane = lane, h_failed = None, h_routing = routing,
      h_path_key = path_key,
      h_extra_tlvs = (case extra_tlvs of Some (t # ts) \<Rightarrow> Some (t # ts) | _ \<Rightarrow> None),
      h_fail_immediate = False\<rparr>"

text \<open>The check against an HTLC of the same owner and id: \<open>None\<close> if there is none.\<close>

definition duplicate_err :: "htlc list \<Rightarrow> htlc \<Rightarrow> channel_add_err option" where
  "duplicate_err hs h =
     (case htlc_get hs (h_id h) (htlc_owner h) of
        None \<Rightarrow> None
      | Some old \<Rightarrow>
          if h_state old \<noteq> h_state h \<or> \<not> amount_msat_eq (h_amount old) (h_amount h)
             \<or> h_expiry old \<noteq> h_expiry h \<or> h_rhash old \<noteq> h_rhash h
          then Some CHANNEL_ERR_DUPLICATE_ID_DIFFERENT else Some CHANNEL_ERR_DUPLICATE)"

text \<open>The limits on the HTLC's own amount, in the recipient's configuration.\<close>

definition amount_limit_err :: "chainparams \<Rightarrow> channel \<Rightarrow> htlc \<Rightarrow> channel_add_err option" where
  "amount_limit_err cp ch h =
     (let sender = htlc_owner h; recipient = other sender
      in if amount_msat_is_zero (h_amount h) then Some CHANNEL_ERR_HTLC_BELOW_MINIMUM
         else if amount_msat_less (h_amount h) (htlc_minimum (config ch recipient))
         then Some CHANNEL_ERR_HTLC_BELOW_MINIMUM
         else if sender = LOCAL \<and> amount_msat_greater (h_amount h) (max_payment cp) \<and> \<not> option_wumbo ch
         then Some CHANNEL_ERR_MAX_HTLC_VALUE_EXCEEDED else None)"

text \<open>What the recipient's commitment would hold of the sender's HTLCs.\<close>

definition msat_in_htlcs ::
  "htlc list \<Rightarrow> htlc list \<Rightarrow> htlc list \<Rightarrow> side \<Rightarrow> amount_msat option" where
  "msat_in_htlcs committed adding removing sender =
     do { committed_msat \<leftarrow> sum_offered_msatoshis committed sender;
          removing_msat \<leftarrow> sum_offered_msatoshis removing sender;
          adding_msat \<leftarrow> sum_offered_msatoshis adding sender;
          s \<leftarrow> amount_msat_add committed_msat adding_msat;
          amount_msat_sub s removing_msat }"

text \<open>
  The checks of what the sender can afford, made when \<^verbatim>\<open>enforce_aggregate_limits\<close> is set: the error,
  if any, and \<^verbatim>\<open>*htlc_fee\<close> as it is left. The first part is about the sender itself.
\<close>

definition sender_affords ::
  "chainparams \<Rightarrow> (u32 \<Rightarrow> u32) \<Rightarrow> channel \<Rightarrow> side \<Rightarrow> htlc list \<Rightarrow> htlc list \<Rightarrow> htlc list \<Rightarrow> amount_sat
   \<Rightarrow> bool run" where
  "sender_affords cp mf ch sender committed adding removing fee =
     do { room \<leftarrow> get_room_above_reserve ch (other sender) adding removing sender;
          case room of None \<Rightarrow> Some False
          | Some remainder0 \<Rightarrow>
              case (if (opt_anchors ch \<or> opt_zero_fee ch) \<and> opener ch = sender
                    then amount_msat_deduct_sat remainder0 (AMOUNT_SAT 660) else Some remainder0) of
                None \<Rightarrow> Some False
              | Some remainder \<Rightarrow>
                  if opener ch = sender
                  then if amount_msat_less_sat remainder fee then Some False
                       else if sender = LOCAL
                       then local_opener_has_fee_headroom cp mf ch remainder committed adding removing
                       else Some True
                  else Some True }"

text \<open>The second part, for our own HTLCs, is about the opener, whose commitments both need fees.\<close>

definition opener_affords ::
  "chainparams \<Rightarrow> channel \<Rightarrow> side \<Rightarrow> htlc list \<Rightarrow> htlc list \<Rightarrow> htlc list \<Rightarrow> amount_sat
   \<Rightarrow> (bool \<times> amount_sat) run" where
  "opener_affords cp ch sender committed adding removing htlc_fee =
     do { room \<leftarrow> get_room_above_reserve ch (other sender) adding removing (opener ch);
          case room of None \<Rightarrow> Some (False, htlc_fee)
          | Some remainder0 \<Rightarrow>
              case (if (opt_anchors ch \<or> opt_zero_fee ch) \<and> opener ch \<noteq> sender
                    then amount_msat_deduct_sat remainder0 (AMOUNT_SAT 660) else Some remainder0) of
                None \<Rightarrow> Some (False, htlc_fee)
              | Some remainder \<Rightarrow>
                  do { fee1 \<leftarrow> fee_for_htlcs cp ch committed adding removing (opener ch);
                       let htlc_fee1 = (if amount_sat_greater fee1 htlc_fee then fee1 else htlc_fee) in
                       if amount_msat_less_sat remainder fee1 then Some (False, htlc_fee1)
                       else do { fee2 \<leftarrow> fee_for_htlcs cp ch committed adding removing (other (opener ch));
                                 let htlc_fee2 = (if amount_sat_greater fee2 htlc_fee1 then fee2 else htlc_fee1) in
                                 Some (\<not> amount_msat_less_sat remainder fee2, htlc_fee2) } } }"

definition affordable ::
  "chainparams \<Rightarrow> (u32 \<Rightarrow> u32) \<Rightarrow> channel \<Rightarrow> side \<Rightarrow> htlc list \<Rightarrow> htlc list \<Rightarrow> htlc list
   \<Rightarrow> (bool \<times> amount_sat option) run" where
  "affordable cp mf ch sender committed adding removing =
     do { fee \<leftarrow> fee_for_htlcs cp ch committed adding removing (other sender);
          ok \<leftarrow> sender_affords cp mf ch sender committed adding removing fee;
          if \<not> ok then Some (False, Some fee)
          else if sender = LOCAL
          then do { (ok2, f2) \<leftarrow> opener_affords cp ch sender committed adding removing fee;
                    Some (ok2, Some f2) }
          else Some (True, Some fee) }"

text \<open>
  The dust exposure on one side's commitment at its buffer feerate: \<open>None\<close> if it cannot be summed,
  else whether it is above our limit.
\<close>

definition dust_exceeded ::
  "chainparams \<Rightarrow> channel \<Rightarrow> htlc list \<Rightarrow> htlc list \<Rightarrow> htlc list \<Rightarrow> side \<Rightarrow> bool option run" where
  "dust_exceeded cp ch committed adding removing side =
     do { f \<leftarrow> channel_feerate ch side;
          (ok, dust) \<leftarrow> htlc_dust cp ch committed adding removing side
                          (htlc_trim_feerate_ceiling f) (AMOUNT_MSAT 0);
          Some (if \<not> ok then None
                else Some (amount_msat_greater dust (max_dust_htlc_exposure_msat (config ch LOCAL)))) }"

text \<open>
  The result of \<^verbatim>\<open>add_htlc\<close>: the error, the channel, the HTLC that was added and \<^verbatim>\<open>*htlc_fee\<close>, where
  the code sets them.
\<close>

type_synonym add_result = "channel_add_err \<times> channel \<times> htlc option \<times> amount_sat option"

definition add_done :: "channel \<Rightarrow> htlc \<Rightarrow> amount_sat option \<Rightarrow> add_result" where
  "add_done ch h fee = (CHANNEL_ERR_ADD_OK, ch\<lparr>htlcs := h # htlcs ch\<rparr>, Some h, fee)"

text \<open>The two dust checks; only the second of them sees the mark set by the first.\<close>

definition add_checking_dust ::
  "chainparams \<Rightarrow> channel \<Rightarrow> htlc \<Rightarrow> htlc list \<Rightarrow> htlc list \<Rightarrow> htlc list \<Rightarrow> bool \<Rightarrow> amount_sat option
   \<Rightarrow> add_result run" where
  "add_checking_dust cp ch h committed adding removing err_immediate_failures fee =
     (let sender = htlc_owner h; recipient = other sender
      in do { d1 \<leftarrow> dust_exceeded cp ch committed adding removing recipient;
              case d1 of None \<Rightarrow> Some (CHANNEL_ERR_CHANNEL_CAPACITY_EXCEEDED, ch, None, fee)
              | Some over1 \<Rightarrow>
                  if over1 \<and> err_immediate_failures then Some (CHANNEL_ERR_DUST_FAILURE, ch, None, fee)
                  else do { d2 \<leftarrow> dust_exceeded cp ch committed adding removing sender;
                            Some (case d2 of None \<Rightarrow> (CHANNEL_ERR_CHANNEL_CAPACITY_EXCEEDED, ch, None, fee)
                                  | Some over2 \<Rightarrow>
                                      if over2 \<and> err_immediate_failures
                                      then (CHANNEL_ERR_DUST_FAILURE, ch, None, fee)
                                      else add_done ch (h\<lparr>h_fail_immediate := over1 \<or> over2\<rparr>) fee) } })"

definition add_htlc ::
  "chainparams \<Rightarrow> (u32 \<Rightarrow> u32) \<Rightarrow> channel \<Rightarrow> htlc_state \<Rightarrow> u64 \<Rightarrow> amount_msat \<Rightarrow> u32 \<Rightarrow> bytes \<Rightarrow> bytes
   \<Rightarrow> bytes option \<Rightarrow> bool \<Rightarrow> (u64 \<times> bytes) list option \<Rightarrow> bool \<Rightarrow> u16 \<Rightarrow> add_result run" where
  "add_htlc cp mf ch state hid amount cltv_expiry payment_hash routing path_key
       enforce_aggregate_limits extra_tlvs err_immediate_failures lane =
     (let sender = htlc_state_owner state; recipient = other sender;
          fail = (\<lambda>e. Some (e, ch, None, None));
          h = new_htlc state hid amount cltv_expiry payment_hash routing path_key extra_tlvs lane
      in if unat lane \<ge> sym_num_lanes ch then fail CHANNEL_ERR_CHANNEL_CAPACITY_EXCEEDED
         else if blocks_to_abs_locktime cltv_expiry = None then fail CHANNEL_ERR_INVALID_EXPIRY
         else case duplicate_err (htlcs ch) h of Some e \<Rightarrow> fail e | None \<Rightarrow>
         case amount_limit_err cp ch h of Some e \<Rightarrow> fail e | None \<Rightarrow>
         let (htlc_count, _) = gather_lane_htlcs (htlcs ch) recipient None;
             (_, committed, removing, pending) = gather_lane_htlcs (htlcs ch) recipient (Some (unat lane));
             adding = pending @ [h]
         in if htlc_count + 1 > unat (max_accepted_htlcs (config ch recipient))
            then fail CHANNEL_ERR_TOO_MANY_HTLCS
            else if enforce_aggregate_limits \<and> sender = LOCAL
                    \<and> htlc_count + 1 > unat (max_accepted_htlcs (config ch LOCAL))
            then fail CHANNEL_ERR_TOO_MANY_HTLCS
            else if lane \<noteq> 0 then
              (if enforce_aggregate_limits
               then do { ok \<leftarrow> lane_room ch recipient (unat lane) adding removing sender;
                         if ok then Some (add_done ch h None) else fail CHANNEL_ERR_CHANNEL_CAPACITY_EXCEEDED }
               else Some (add_done ch h None))
            else case msat_in_htlcs committed adding removing sender of
              None \<Rightarrow> fail CHANNEL_ERR_MAX_HTLC_VALUE_EXCEEDED
            | Some in_flight \<Rightarrow>
                if \<not> enforce_aggregate_limits
                then add_checking_dust cp ch h committed adding removing err_immediate_failures None
                else if amount_msat_greater in_flight (max_htlc_value_in_flight (config ch recipient))
                then fail CHANNEL_ERR_MAX_HTLC_VALUE_EXCEEDED
                else do { (ok, fee) \<leftarrow> affordable cp mf ch sender committed adding removing;
                          if \<not> ok then Some (CHANNEL_ERR_CHANNEL_CAPACITY_EXCEEDED, ch, None, fee)
                          else add_checking_dust cp ch h committed adding removing err_immediate_failures fee })"

definition channel_add_htlc ::
  "chainparams \<Rightarrow> (u32 \<Rightarrow> u32) \<Rightarrow> channel \<Rightarrow> side \<Rightarrow> u64 \<Rightarrow> amount_msat \<Rightarrow> u32 \<Rightarrow> bytes \<Rightarrow> bytes
   \<Rightarrow> bytes option \<Rightarrow> (u64 \<times> bytes) list option \<Rightarrow> bool \<Rightarrow> add_result run" where
  "channel_add_htlc cp mf ch sender hid amount cltv_expiry payment_hash routing path_key extra_tlvs
       err_immediate_failures =
     add_htlc cp mf ch (if sender = LOCAL then SENT_ADD_HTLC else RCVD_ADD_HTLC) hid amount cltv_expiry
       payment_hash routing path_key True extra_tlvs err_immediate_failures 0"

definition channel_add_lane_htlc ::
  "chainparams \<Rightarrow> (u32 \<Rightarrow> u32) \<Rightarrow> channel \<Rightarrow> side \<Rightarrow> u64 \<Rightarrow> amount_msat \<Rightarrow> u32 \<Rightarrow> bytes \<Rightarrow> bytes
   \<Rightarrow> bytes option \<Rightarrow> (u64 \<times> bytes) list option \<Rightarrow> bool \<Rightarrow> u16 \<Rightarrow> add_result run" where
  "channel_add_lane_htlc cp mf ch sender hid amount cltv_expiry payment_hash routing path_key extra_tlvs
       err_immediate_failures lane =
     add_htlc cp mf ch (if sender = LOCAL then SENT_ADD_HTLC else RCVD_ADD_HTLC) hid amount cltv_expiry
       payment_hash routing path_key True extra_tlvs err_immediate_failures lane"

section \<open>Removing an HTLC\<close>

definition channel_get_htlc :: "channel \<Rightarrow> side \<Rightarrow> u64 \<Rightarrow> htlc option" where
  "channel_get_htlc ch sender hid = htlc_get (htlcs ch) hid sender"

text \<open>Writing to the HTLC \<^verbatim>\<open>htlc_get\<close> found: the first of the table with that id and owner.\<close>

fun htlc_put :: "u64 \<Rightarrow> side \<Rightarrow> htlc \<Rightarrow> htlc list \<Rightarrow> htlc list" where
  "htlc_put hid owner h' [] = []"
| "htlc_put hid owner h' (h # hs) =
     (if h_id h = hid \<and> htlc_has h (HTLC_FLAG owner HTLC_F_OWNER) then h' # hs
      else h # htlc_put hid owner h' hs)"

text \<open>\<^verbatim>\<open>point_of\<close> is \<^verbatim>\<open>point_lock_point_of\<close>, which multiplies on the curve.\<close>

definition point_lock_opens :: "(bytes \<Rightarrow> bytes option) \<Rightarrow> bytes \<Rightarrow> bytes \<Rightarrow> bool" where
  "point_lock_opens point_of lock s = (case point_of s of None \<Rightarrow> False | Some p \<Rightarrow> p = lock)"

definition channel_fulfill_htlc ::
  "(bytes \<Rightarrow> bytes) \<Rightarrow> (bytes \<Rightarrow> bytes option) \<Rightarrow> channel \<Rightarrow> side \<Rightarrow> u64 \<Rightarrow> bytes
   \<Rightarrow> channel_remove_err \<times> channel" where
  "channel_fulfill_htlc sha256 point_of ch owner hid preimage =
     (case channel_get_htlc ch owner hid of
        None \<Rightarrow> (CHANNEL_ERR_NO_SUCH_ID, ch)
      | Some h \<Rightarrow>
          if h_r h \<noteq> None then (CHANNEL_ERR_ALREADY_FULFILLED, ch)
          else if (case h_lock_point h of
                     Some lock \<Rightarrow> \<not> point_lock_opens point_of lock preimage
                   | None \<Rightarrow> sha256 preimage \<noteq> h_rhash h)
          then (CHANNEL_ERR_BAD_PREIMAGE, ch)
          else let h1 = h\<lparr>h_r := Some preimage\<rparr>;
                   put = (\<lambda>h'. ch\<lparr>htlcs := htlc_put hid owner h' (htlcs ch)\<rparr>)
               in if \<not> htlc_has h1 (HTLC_FLAG (other (htlc_owner h1)) HTLC_F_COMMITTED)
                  then (CHANNEL_ERR_HTLC_UNCOMMITTED, put h1)
                  else if h_state h1 = SENT_ADD_ACK_REVOCATION
                  then (CHANNEL_ERR_REMOVE_OK, put (h1\<lparr>h_state := RCVD_REMOVE_HTLC\<rparr>))
                  else if h_state h1 = RCVD_ADD_ACK_REVOCATION
                  then (CHANNEL_ERR_REMOVE_OK, put (h1\<lparr>h_state := SENT_REMOVE_HTLC\<rparr>))
                  else (CHANNEL_ERR_HTLC_NOT_IRREVOCABLE, put h1))"

definition channel_fail_htlc :: "channel \<Rightarrow> side \<Rightarrow> u64 \<Rightarrow> channel_remove_err \<times> channel" where
  "channel_fail_htlc ch owner hid =
     (case channel_get_htlc ch owner hid of
        None \<Rightarrow> (CHANNEL_ERR_NO_SUCH_ID, ch)
      | Some h \<Rightarrow>
          let put = (\<lambda>h'. ch\<lparr>htlcs := htlc_put hid owner h' (htlcs ch)\<rparr>)
          in if \<not> htlc_has h (HTLC_FLAG (other (htlc_owner h)) HTLC_F_COMMITTED)
             then (CHANNEL_ERR_HTLC_UNCOMMITTED, ch)
             else if h_state h = SENT_ADD_ACK_REVOCATION
             then (CHANNEL_ERR_REMOVE_OK, put (h\<lparr>h_state := RCVD_REMOVE_HTLC\<rparr>))
             else if h_state h = RCVD_ADD_ACK_REVOCATION
             then (CHANNEL_ERR_REMOVE_OK, put (h\<lparr>h_state := SENT_REMOVE_HTLC\<rparr>))
             else (CHANNEL_ERR_HTLC_NOT_IRREVOCABLE, ch))"

section \<open>Commitment events\<close>

text \<open>\<^verbatim>\<open>state + 1\<close>, with the assertions that its flags exist and that it has the same owner.\<close>

definition same_owner_succ :: "htlc_state \<Rightarrow> htlc_state run" where
  "same_owner_succ s =
     do { t \<leftarrow> htlc_state_succ s;
          let owners = HTLC_LOCAL_F_OWNER OR HTLC_REMOTE_F_OWNER in
          if htlc_state_flags s AND owners = htlc_state_flags t AND owners then Some t else None }"

definition htlc_incstate ::
  "htlc \<Rightarrow> side \<Rightarrow> lane_owed list \<Rightarrow> (htlc \<times> lane_owed list) run" where
  "htlc_incstate h sidechanged bals =
     do { t \<leftarrow> same_owner_succ (h_state h);
          let committed_f = HTLC_FLAG sidechanged HTLC_F_COMMITTED;
              h' = h\<lparr>h_state := t\<rparr>;
              pre = state_has (h_state h) committed_f; post = state_has t committed_f in
          do { bals' \<leftarrow> lane_upd (unat (h_lane h))
                 (if \<not> pre \<and> post then (\<lambda>b s. balance_add_htlc (b s) h' s)
                  else if pre \<and> \<not> post then (\<lambda>b s. balance_remove_htlc (b s) h' s)
                  else (\<lambda>b. b)) bals;
               Some (h', bals') } }"

text \<open>
  The loop over the table: the HTLCs that stay, those that changed (\<^verbatim>\<open>*htlcs\<close>), the balances, and the
  flags that changed.
\<close>

fun change_htlcs_loop ::
  "side \<Rightarrow> htlc_state list \<Rightarrow> htlc list \<Rightarrow> lane_owed list
   \<Rightarrow> (htlc list \<times> htlc list \<times> lane_owed list \<times> flags) run" where
  "change_htlcs_loop sidechanged states [] bals = Some ([], [], bals, 0)"
| "change_htlcs_loop sidechanged states (h # hs) bals =
     (if h_state h \<in> set states
      then do { (h', bals1) \<leftarrow> htlc_incstate h sidechanged bals;
                (rest, changed, bals2, cflags) \<leftarrow> change_htlcs_loop sidechanged states hs bals1;
                Some (if htlc_is_dead h' then rest else h' # rest, h' # changed, bals2,
                      (htlc_state_flags (h_state h) XOR htlc_state_flags (h_state h')) OR cflags) }
      else do { (rest, changed, bals2, cflags) \<leftarrow> change_htlcs_loop sidechanged states hs bals;
                Some (h # rest, changed, bals2, cflags) })"

definition change_swap ::
  "side \<Rightarrow> htlc_state list \<Rightarrow> sym_swap option \<Rightarrow> lane_owed list
   \<Rightarrow> (sym_swap option \<times> lane_owed list \<times> flags) run" where
  "change_swap sidechanged states swap bals =
     (case swap of
        None \<Rightarrow> Some (None, bals, 0)
      | Some s \<Rightarrow>
          if swap_state s \<notin> set states then Some (Some s, bals, 0)
          else do { t \<leftarrow> htlc_state_succ (swap_state s);
                    let committed_f = HTLC_FLAG sidechanged HTLC_F_COMMITTED;
                        s' = s\<lparr>swap_state := t\<rparr> in
                    do { bals' \<leftarrow> (if \<not> state_has (swap_state s) committed_f \<and> state_has t committed_f
                                   then balance_swap bals s' else Some bals);
                         Some (Some s', bals',
                               htlc_state_flags (swap_state s) XOR htlc_state_flags t) } })"

definition fee_incstate :: "fee_states \<Rightarrow> htlc_state \<Rightarrow> (bool \<times> fee_states) run" where
  "fee_incstate fs hstate =
     do { _ \<leftarrow> same_owner_succ hstate;
          if \<not> state_has hstate HTLC_ADDING then Some (False, fs) else inc_fee_state fs hstate }"

text \<open>A \<^verbatim>\<open>NULL\<close> \<^verbatim>\<open>blockheight_states\<close> is dereferenced in the adding states.\<close>

definition blockheight_incstate ::
  "height_states option \<Rightarrow> htlc_state \<Rightarrow> (bool \<times> height_states option) run" where
  "blockheight_incstate hs hstate =
     do { _ \<leftarrow> same_owner_succ hstate;
          if \<not> state_has hstate HTLC_ADDING then Some (False, hs)
          else do { h \<leftarrow> hs; (b, h') \<leftarrow> inc_height_state h hstate; Some (b, Some h') } }"

text \<open>The loop over the states for fees and blockheights, given in the order it visits them.\<close>

fun change_fees ::
  "htlc_state list \<Rightarrow> fee_states \<Rightarrow> height_states option \<Rightarrow> (fee_states \<times> height_states option \<times> flags) run" where
  "change_fees [] fs hts = Some (fs, hts, 0)"
| "change_fees (s # ss) fs hts =
     do { t \<leftarrow> same_owner_succ s;
          (b1, fs1) \<leftarrow> fee_incstate fs s;
          (b2, hts1) \<leftarrow> blockheight_incstate hts s;
          (fs2, hts2, cflags) \<leftarrow> change_fees ss fs1 hts1;
          Some (fs2, hts2,
            (if b1 \<or> b2 then htlc_state_flags s XOR htlc_state_flags t else 0) OR cflags) }"

text \<open>One view's balances, in and out of a channel.\<close>

definition view_amounts :: "channel \<Rightarrow> side \<Rightarrow> (side \<Rightarrow> amount_msat) list" where
  "view_amounts ch v = owed (view ch v) # map (\<lambda>b. b v) (sym_lane_bal ch)"

definition both_sides :: "(amount_msat \<Rightarrow> 'b option) \<Rightarrow> (side \<Rightarrow> amount_msat) \<Rightarrow> (side \<Rightarrow> 'b) option" where
  "both_sides f b = do { l \<leftarrow> f (b LOCAL); r \<leftarrow> f (b REMOTE); Some (by_side l r) }"

definition both_ok :: "lane_owed \<Rightarrow> (side \<Rightarrow> amount_msat) option" where
  "both_ok b = do { l \<leftarrow> balance_ok (b LOCAL); r \<leftarrow> balance_ok (b REMOTE); Some (by_side l r) }"

definition put_view_amounts :: "side \<Rightarrow> (side \<Rightarrow> amount_msat) list \<Rightarrow> channel \<Rightarrow> channel" where
  "put_view_amounts v amts ch =
     ch\<lparr>view := (view ch)(v := (view ch v)\<lparr>owed := hd amts\<rparr>),
        sym_lane_bal := map (\<lambda>(b, a). b(v := a)) (zip (sym_lane_bal ch) (List.tl amts))\<rparr>"

text \<open>The flags that changed, the channel, and the HTLCs that changed.\<close>

definition change_htlcs ::
  "channel \<Rightarrow> side \<Rightarrow> htlc_state list \<Rightarrow> (flags \<times> channel \<times> htlc list) run" where
  "change_htlcs ch sidechanged states =
     do { bals0 \<leftarrow> map_run (both_sides to_balance) (view_amounts ch sidechanged);
          (hs, changed, bals1, c1) \<leftarrow> change_htlcs_loop sidechanged states (htlcs ch) bals0;
          (swap, bals2, c2) \<leftarrow> change_swap sidechanged states (chan_swap ch) bals1;
          amts \<leftarrow> map_run both_ok bals2;
          (fs, hts, c3) \<leftarrow> change_fees (rev states) (channel_fee_states ch) (blockheight_states ch);
          Some (c1 OR c2 OR c3,
                (put_view_amounts sidechanged amts ch)
                  \<lparr>htlcs := hs, chan_swap := swap, channel_fee_states := fs, blockheight_states := hts\<rparr>,
                changed) }"

definition channel_sending_commit :: "channel \<Rightarrow> (bool \<times> channel \<times> htlc list) run" where
  "channel_sending_commit ch =
     do { (change, ch', hs) \<leftarrow> change_htlcs ch REMOTE
            [SENT_ADD_HTLC, SENT_REMOVE_REVOCATION, SENT_ADD_REVOCATION, SENT_REMOVE_HTLC];
          Some (change \<noteq> 0, ch', hs) }"

definition channel_rcvd_revoke_and_ack :: "channel \<Rightarrow> (bool \<times> channel \<times> htlc list) run" where
  "channel_rcvd_revoke_and_ack ch =
     do { (change, ch', hs) \<leftarrow> change_htlcs ch LOCAL
            [SENT_ADD_COMMIT, SENT_REMOVE_ACK_COMMIT, SENT_ADD_ACK_COMMIT, SENT_REMOVE_COMMIT];
          Some (change AND HTLC_LOCAL_F_PENDING \<noteq> 0, ch', hs) }"

definition channel_rcvd_commit :: "channel \<Rightarrow> (bool \<times> channel \<times> htlc list) run" where
  "channel_rcvd_commit ch =
     do { (change, ch', hs) \<leftarrow> change_htlcs ch LOCAL
            [RCVD_ADD_REVOCATION, RCVD_REMOVE_HTLC, RCVD_ADD_HTLC, RCVD_REMOVE_REVOCATION];
          Some (change \<noteq> 0, ch', hs) }"

definition channel_sending_revoke_and_ack :: "channel \<Rightarrow> (bool \<times> channel) run" where
  "channel_sending_revoke_and_ack ch =
     do { (change, ch', hs) \<leftarrow> change_htlcs ch REMOTE
            [RCVD_ADD_ACK_COMMIT, RCVD_REMOVE_COMMIT, RCVD_ADD_COMMIT, RCVD_REMOVE_ACK_COMMIT];
          Some (change AND HTLC_REMOTE_F_PENDING \<noteq> 0, ch') }"

section \<open>Feerates and blockheights\<close>

text \<open>The quotient is returned through a \<^verbatim>\<open>u32\<close>.\<close>

definition approx_max_feerate :: "chainparams \<Rightarrow> channel \<Rightarrow> u32 run" where
  "approx_max_feerate cp ch =
     (let (_, committed, removing, adding) = gather_htlcs (htlcs ch) (other (opener ch));
          num = of_nat (length committed) + of_nat (length adding) - of_nat (length removing);
          weight = commit_tx_base_weight cp num (opt_anchors ch) (opt_zero_fee ch)
      in do { b0 \<leftarrow> to_balance (owed (view ch (other (opener ch))) (opener ch));
              case balance_ok (foldl (\<lambda>b h. balance_add_htlc b h (opener ch)) b0 adding) of
                None \<Rightarrow> Some 0
              | Some avail0 \<Rightarrow>
                  do { avail \<leftarrow>
                         (case (if opt_anchors ch \<or> opt_zero_fee ch
                                then amount_msat_deduct_sat avail0 (AMOUNT_SAT 660) else Some avail0) of
                            None \<Rightarrow> Some (AMOUNT_MSAT 0)
                          | Some a \<Rightarrow>
                              do { reserve \<leftarrow> channel_reserve_of ch (opener ch);
                                   Some (case amount_msat_deduct_sat a reserve of
                                           None \<Rightarrow> AMOUNT_MSAT 0 | Some a' \<Rightarrow> a') });
                       if weight = 0 then None else Some (ucast (millisatoshis avail div weight)) } })"

definition htlc_calculate_dust :: "chainparams \<Rightarrow> channel \<Rightarrow> u32 \<Rightarrow> side \<Rightarrow> amount_msat run" where
  "htlc_calculate_dust cp ch feerate_per_kw side =
     (let (_, committed, removing, adding) = gather_htlcs (htlcs ch) side
      in map_option snd (htlc_dust cp ch committed adding removing side feerate_per_kw (AMOUNT_MSAT 0)))"

definition htlc_dust_ok :: "chainparams \<Rightarrow> channel \<Rightarrow> u32 \<Rightarrow> side \<Rightarrow> bool run" where
  "htlc_dust_ok cp ch feerate_per_kw side =
     do { total_dusted \<leftarrow> htlc_calculate_dust cp ch feerate_per_kw side;
          Some (amount_msat_greater_eq (max_dust_htlc_exposure_msat (config ch LOCAL)) total_dusted) }"

definition can_opener_afford_feerate :: "chainparams \<Rightarrow> channel \<Rightarrow> u32 \<Rightarrow> bool run" where
  "can_opener_afford_feerate cp ch feerate_per_kw =
     (let v = other (opener ch); dust = dust_limit (config ch v);
          ao = opt_anchors ch; az = opt_zero_fee ch;
          (_, committed, removing, adding) = gather_htlcs (htlcs ch) v
      in do { untrimmed \<leftarrow> num_untrimmed_htlcs cp v dust feerate_per_kw ao az committed adding removing;
              fee0 \<leftarrow> commit_tx_base_fee cp feerate_per_kw untrimmed ao az;
              fee \<leftarrow> (if ao \<or> az then amount_sat_add fee0 (AMOUNT_SAT 660) else Some fee0);
              reserve \<leftarrow> channel_reserve_of ch (opener ch);
              needed \<leftarrow> amount_sat_add fee reserve;
              b0 \<leftarrow> to_balance (owed (view ch v) (opener ch));
              let b1 = foldl (\<lambda>b h. balance_remove_htlc b h (opener ch)) b0 removing;
                  b2 = foldl (\<lambda>b h. balance_add_htlc b h (opener ch)) b1 adding in
              Some (case balance_ok b2 of None \<Rightarrow> False
                    | Some available \<Rightarrow> amount_msat_greater_eq_sat available needed) })"

definition channel_update_feerate :: "chainparams \<Rightarrow> channel \<Rightarrow> u32 \<Rightarrow> (bool \<times> channel) run" where
  "channel_update_feerate cp ch feerate_per_kw =
     do { ok \<leftarrow> can_opener_afford_feerate cp ch feerate_per_kw;
          if \<not> ok then Some (False, ch)
          else do {
            dusty \<leftarrow>
              (if opt_zero_fee ch then Some False
               else do { f \<leftarrow> channel_feerate ch REMOTE;
                         r \<leftarrow> (if feerate_per_kw > f then htlc_dust_ok cp ch feerate_per_kw REMOTE
                              else Some True);
                         if \<not> r then Some True
                         else do { l \<leftarrow> htlc_dust_ok cp ch feerate_per_kw LOCAL; Some (\<not> l) } });
            Some (if dusty then (False, ch)
                  else (True, ch\<lparr>channel_fee_states :=
                          start_fee_update (channel_fee_states ch) (opener ch) feerate_per_kw\<rparr>)) } }"

definition channel_update_blockheight :: "channel \<Rightarrow> u32 \<Rightarrow> channel run" where
  "channel_update_blockheight ch blockheight =
     do { hs \<leftarrow> blockheight_states ch;
          Some (ch\<lparr>blockheight_states := Some (start_height_update hs (opener ch) blockheight)\<rparr>) }"

section \<open>Queries\<close>

definition any_htlc_is_dead :: "channel \<Rightarrow> bool" where
  "any_htlc_is_dead ch = list_ex htlc_is_dead (htlcs ch)"

definition num_channel_htlcs :: "channel \<Rightarrow> nat run" where
  "num_channel_htlcs ch = (if any_htlc_is_dead ch then None else Some (length (htlcs ch)))"

definition pending_updates :: "channel \<Rightarrow> side \<Rightarrow> bool run" where
  "pending_updates ch side =
     do { fees \<leftarrow>
            (if side \<noteq> opener ch then Some False
             else if \<not> feerate_changes_done (channel_fee_states ch) False then Some True
             else do { hs \<leftarrow> blockheight_states ch; Some (\<not> blockheight_changes_done hs False) });
          Some (fees
            \<or> (case chan_swap ch of None \<Rightarrow> False
               | Some s \<Rightarrow> state_has (swap_state s) (HTLC_FLAG side HTLC_F_WILL_SEND))
            \<or> list_ex (\<lambda>h. state_has (h_state h) (HTLC_FLAG side HTLC_F_WILL_SEND)) (htlcs ch)) }"

section \<open>Restoring HTLCs\<close>

record existing_htlc =
  ex_id :: u64
  ex_state :: htlc_state
  ex_amount :: amount_msat
  ex_payment_hash :: bytes
  ex_cltv_expiry :: u32
  ex_onion_routing_packet :: bytes
  ex_path_key :: "bytes option"
  ex_payment_preimage :: "bytes option"
  ex_failed :: "failed_htlc option"
  ex_extra_tlvs :: "(u64 \<times> bytes) list option"
  ex_lock_point :: "bytes option"
  ex_lane :: u16

text \<open>One view of \<^verbatim>\<open>adjust_balance\<close>; \<open>None\<close> is the \<^verbatim>\<open>false\<close> return.\<close>

definition adjust_view :: "htlc \<Rightarrow> side \<Rightarrow> lane_owed \<Rightarrow> lane_owed option" where
  "adjust_view h v b =
     (if \<not> htlc_has h (HTLC_FLAG v HTLC_F_WAS_COMMITTED) then Some b
      else let b1 = (\<lambda>s. balance_add_htlc (b s) h s)
           in if htlc_has h (HTLC_FLAG v HTLC_F_COMMITTED) then Some b1
              else if h_failed h = None \<and> h_r h = None then None
              else Some (\<lambda>s. balance_remove_htlc (b1 s) h s))"

definition adjust_balance :: "(side \<Rightarrow> lane_owed) \<Rightarrow> htlc \<Rightarrow> (side \<Rightarrow> lane_owed) option" where
  "adjust_balance view_owed h =
     do { l \<leftarrow> adjust_view h LOCAL (view_owed LOCAL);
          r \<leftarrow> adjust_view h REMOTE (view_owed REMOTE);
          Some (by_side l r) }"

text \<open>
  The loop: the channel with the HTLCs added, and the balances of each lane by view. The inner
  \<open>None\<close> is the \<^verbatim>\<open>false\<close> return, after which the caller gives the channel up.
\<close>

fun force_htlcs_loop ::
  "chainparams \<Rightarrow> (u32 \<Rightarrow> u32) \<Rightarrow> existing_htlc list \<Rightarrow> channel \<Rightarrow> (side \<Rightarrow> lane_owed) list
   \<Rightarrow> (channel \<times> (side \<Rightarrow> lane_owed) list) option run" where
  "force_htlcs_loop cp mf [] ch bals = Some (Some (ch, bals))"
| "force_htlcs_loop cp mf (e # es) ch bals =
     do { (err, ch1, added, _) \<leftarrow>
            add_htlc cp mf ch (ex_state e) (ex_id e) (ex_amount e) (ex_cltv_expiry e)
              (ex_payment_hash e) (ex_onion_routing_packet e) (ex_path_key e) False (ex_extra_tlvs e)
              False (ex_lane e);
          case added of None \<Rightarrow> Some None
          | Some h0 \<Rightarrow>
              let h = h0\<lparr>h_lock_point := ex_lock_point e, h_r := ex_payment_preimage e,
                         h_failed := ex_failed e\<rparr>;
                  ch2 = ch1\<lparr>htlcs := htlc_put (h_id h) (htlc_owner h) h (htlcs ch1)\<rparr>;
                  l = unat (h_lane h)
              in if l \<ge> length bals then None
                 else case adjust_balance (bals ! l) h of
                        None \<Rightarrow> Some None
                      | Some b \<Rightarrow> force_htlcs_loop cp mf es ch2 (bals[l := b]) }"

text \<open>A swap in flight moves the balances of the views that have committed it.\<close>

definition force_swap :: "sym_swap option \<Rightarrow> side \<Rightarrow> lane_owed list \<Rightarrow> lane_owed list run" where
  "force_swap swap v bals =
     (case swap of
        None \<Rightarrow> Some bals
      | Some s \<Rightarrow> if state_has (swap_state s) (HTLC_FLAG v HTLC_F_COMMITTED) then balance_swap bals s
                  else Some bals)"

definition channel_force_htlcs ::
  "chainparams \<Rightarrow> (u32 \<Rightarrow> u32) \<Rightarrow> channel \<Rightarrow> existing_htlc list \<Rightarrow> channel option run" where
  "channel_force_htlcs cp mf ch es =
     do { lb \<leftarrow> map_run (both_sides to_balance) (view_amounts ch LOCAL);
          rb \<leftarrow> map_run (both_sides to_balance) (view_amounts ch REMOTE);
          res \<leftarrow> force_htlcs_loop cp mf es ch (map (\<lambda>(l, r). by_side l r) (zip lb rb));
          case res of None \<Rightarrow> Some None
          | Some (ch1, bals) \<Rightarrow>
              do { lbals \<leftarrow> force_swap (chan_swap ch1) LOCAL (map (\<lambda>b. b LOCAL) bals);
                   rbals \<leftarrow> force_swap (chan_swap ch1) REMOTE (map (\<lambda>b. b REMOTE) bals);
                   Some (case (map_run both_ok lbals, map_run both_ok rbals) of
                           (Some la, Some ra) \<Rightarrow> Some (put_view_amounts REMOTE ra (put_view_amounts LOCAL la ch1))
                         | _ \<Rightarrow> None) } }"

section \<open>Swaps\<close>

definition swap_affordable_in :: "channel \<Rightarrow> side \<Rightarrow> nat \<Rightarrow> amount_msat \<Rightarrow> side \<Rightarrow> bool run" where
  "swap_affordable_in ch payer lane amount v =
     (let (_, _, _, adding) = gather_lane_htlcs (htlcs ch) v (Some lane)
      in do { ow \<leftarrow> sym_lane_owed ch lane v payer;
              b0 \<leftarrow> to_balance ow;
              promised \<leftarrow> swap_promised ch v lane payer;
              case balance_ok (foldl (\<lambda>b h. balance_add_htlc b h payer) b0 adding
                               - millisatoshis promised - millisatoshis amount) of
                None \<Rightarrow> Some False
              | Some left \<Rightarrow>
                  if lane = 0
                  then do { reserve \<leftarrow> channel_reserve_of ch payer;
                            Some (amount_msat_deduct_sat left reserve \<noteq> None) }
                  else Some True })"

definition swap_affordable :: "channel \<Rightarrow> side \<Rightarrow> nat \<Rightarrow> amount_msat \<Rightarrow> bool run" where
  "swap_affordable ch payer lane amount =
     do { l \<leftarrow> swap_affordable_in ch payer lane amount LOCAL;
          if \<not> l then Some False else swap_affordable_in ch payer lane amount REMOTE }"

datatype swap_err =
    SWAP_ONE_ASSET
  | SWAP_IN_FLIGHT
  | SWAP_LANES u16 u16 nat
  | SWAP_EMPTY_LEG
  | SWAP_CANNOT_GIVE side amount_msat u16

definition channel_sym_swap_check :: "channel \<Rightarrow> sym_swap \<Rightarrow> swap_err option run" where
  "channel_sym_swap_check ch swap =
     (let owner = htlc_state_owner (swap_state swap); n = sym_num_lanes ch;
          g = unat (give_lane swap); t = unat (take_lane swap)
      in if sym_lanes ch = None then Some (Some SWAP_ONE_ASSET)
         else if chan_swap ch \<noteq> None then Some (Some SWAP_IN_FLIGHT)
         else if g = t \<or> g \<ge> n \<or> t \<ge> n then Some (Some (SWAP_LANES (give_lane swap) (take_lane swap) n))
         else if amount_msat_is_zero (swap_give swap) \<or> amount_msat_is_zero (swap_take swap)
         then Some (Some SWAP_EMPTY_LEG)
         else do { ok1 \<leftarrow> swap_affordable ch owner g (swap_give swap);
                   if \<not> ok1 then Some (Some (SWAP_CANNOT_GIVE owner (swap_give swap) (give_lane swap)))
                   else do { ok2 \<leftarrow> swap_affordable ch (other owner) t (swap_take swap);
                             Some (if \<not> ok2
                                   then Some (SWAP_CANNOT_GIVE (other owner) (swap_take swap) (take_lane swap))
                                   else None) } })"

definition channel_sym_swap_add :: "channel \<Rightarrow> sym_swap \<Rightarrow> channel run" where
  "channel_sym_swap_add ch swap =
     (if chan_swap ch = None \<and> (swap_state swap = SENT_ADD_HTLC \<or> swap_state swap = RCVD_ADD_HTLC)
      then Some (ch\<lparr>chan_swap := Some swap\<rparr>) else None)"

definition channel_sym_swap_done :: "channel \<Rightarrow> bool \<times> channel" where
  "channel_sym_swap_done ch =
     (case chan_swap ch of
        None \<Rightarrow> (False, ch)
      | Some s \<Rightarrow>
          if swap_state s \<noteq> SENT_ADD_ACK_REVOCATION \<and> swap_state s \<noteq> RCVD_ADD_ACK_REVOCATION
          then (False, ch) else (True, ch\<lparr>chan_swap := None\<rparr>))"

text \<open>\<^verbatim>\<open>new_full_channel\<close> gives the new channel its empty table of HTLCs.\<close>

definition new_full_channel :: "channel option \<Rightarrow> channel option" where
  "new_full_channel initial = map_option (\<lambda>ch. ch\<lparr>htlcs := []\<rparr>) initial"

end
