(* ===== verification/Sorts.thy ===== *)
theory Sorts
  imports Prelude "HOL-Library.Multiset"
begin

text \<open>
  \<^verbatim>\<open>asort\<close> of \<^verbatim>\<open>ccan/asort\<close>: a sort by a comparison, which returns a negative number, zero or a positive one. It is
  modelled as a stable sort; the callers have no two elements that compare as equal and differ in what
  is read of them.
\<close>

fun sort_insert :: "('a \<Rightarrow> 'a \<Rightarrow> int) \<Rightarrow> 'a \<Rightarrow> 'a list \<Rightarrow> 'a list" where
  "sort_insert cmp x [] = [x]"
| "sort_insert cmp x (y # ys) = (if cmp y x < 0 then y # sort_insert cmp x ys else x # y # ys)"

definition asort :: "('a \<Rightarrow> 'a \<Rightarrow> int) \<Rightarrow> 'a list \<Rightarrow> 'a list" where
  "asort cmp xs = foldr (sort_insert cmp) xs []"

lemma asort_simps [simp]: "asort cmp [] = []" "asort cmp (x # xs) = sort_insert cmp x (asort cmp xs)"
  by (simp_all add: asort_def)

lemma mset_sort_insert [simp]: "mset (sort_insert cmp x ys) = add_mset x (mset ys)"
  by (induction ys) simp_all

lemma mset_asort [simp]: "mset (asort cmp xs) = mset xs"
  by (induction xs) simp_all

lemma filter_asort: "mset (filter P (asort cmp xs)) = mset (filter P xs)"
  by (simp only: mset_filter mset_asort)

lemma set_asort [simp]: "set (asort cmp xs) = set xs"
  by (rule mset_eq_setD) simp

lemma set_sort_insert [simp]: "set (sort_insert cmp x ys) = insert x (set ys)"
  by (induction ys) auto

text \<open>A comparison that is negative exactly on smaller keys sorts by the key.\<close>

lemma asort_sorted:
  fixes key :: "'a \<Rightarrow> 'k :: linorder"
  assumes "\<And>a b. key a < key b \<Longrightarrow> cmp a b < 0" and "\<And>a b. key b < key a \<Longrightarrow> 0 \<le> cmp a b"
  shows "sorted (map key (asort cmp xs))"
proof (induction xs)
  case (Cons x xs)
  have "sorted (map key (sort_insert cmp x ys))" if "sorted (map key ys)" for ys
    using that
  proof (induction ys)
    case (Cons y ys)
    then show ?case using assms(1) [of x y] assms(2) [of x y] assms(1) [of y x] assms(2) [of y x]
      by (cases "key x" "key y" rule: linorder_cases) (auto intro: order.trans less_imp_le)
  qed simp
  with Cons.IH show ?case by simp
qed simp

text \<open>Two sorted lists of the same elements, told apart by their keys, are equal.\<close>

lemma sorted_keys_unique:
  assumes "mset xs = mset ys" and "inj_on key (set xs)" and "sorted (map key xs)" and "sorted (map key ys)"
  shows "xs = ys"
proof (rule map_inj_on)
  have "mset (map key xs) = mset (map key ys)" using assms(1) by (simp only: mset_map)
  with assms(3,4) show "map key xs = map key ys" by (metis properties_for_sort)
  show "inj_on key (set xs \<union> set ys)" using assms(2) mset_eq_setD [OF assms(1)] by simp
qed

end
