(* ===== verification/Settlement.thy ===== *)
theory Settlement
  imports SymScripts FullChannel Sorts "HOL-Library.Product_Lexorder"
begin

text \<open>
  The settlement of a symmetric channel: \<^verbatim>\<open>sym_settlement\<close> of \<^verbatim>\<open>common/sym_scripts.c\<close>, the settlement of
  every lane of \<^verbatim>\<open>common/sym_lanes.c\<close>, the states of \<^verbatim>\<open>common/sym_state.c\<close> and \<^verbatim>\<open>common/sym_channel.c\<close>, and
  the state that \<^verbatim>\<open>channeld/sym_channeld.c\<close> signs. The error strings are a datatype. Two outputs that compare as
  equal in \<^verbatim>\<open>asort\<close> pay the same.

  The theorem is exactness: balances and HTLCs that add up to at most the funding always settle, and
  the outputs pay out the whole funding, to the atom, with every HTLC above the dust limit paid in
  full and every balance above it to its owner.
\<close>

section \<open>The settlement of one lane\<close>

record sym_htlc =
  sh_owner :: side
  sh_amount :: amount_msat
  sh_payment_ripemd :: bytes
  sh_cltv_expiry :: u32
  sh_handle :: htlc

datatype settle_err =
    SETTLE_PAYS_MORE
  | SETTLE_PAYS_NOTHING
  | SETTLE_OVERFLOW
  | SETTLE_LANE nat settle_err

text \<open>Negative, zero or positive.\<close>

definition cmp_output :: "sym_output \<Rightarrow> sym_output \<Rightarrow> int" where
  "cmp_output a b =
     (let la = length (out_spk a); lb = length (out_spk b); m = (if la < lb then la else lb);
          pa = take m (out_spk a); pb = take m (out_spk b)
      in if amount_sat_less (out_amount a) (out_amount b) then - 1
         else if amount_sat_greater (out_amount a) (out_amount b) then 1
         else if memcmp_less pa pb then - 1
         else if memcmp_less pb pa then 1
         else if la \<noteq> lb then (if la < lb then - 1 else 1)
         else if out_cltv_expiry a \<noteq> out_cltv_expiry b
         then (if out_cltv_expiry a < out_cltv_expiry b then - 1 else 1)
         else 0)"

definition uninit_tree2 :: tap_tree2 where
  "uninit_tree2 = \<lparr>tt_leaf = [], tt_leaf_hash = [], tt_branch01 = [], tt_merkle_root = [], tt_internal_key = [],
     tt_output_der = []\<rparr>"

text \<open>The loop over the HTLCs: the balances, the total and the outputs so far.\<close>

fun settle_htlcs ::
  "crypto \<Rightarrow> (side \<Rightarrow> bytes) \<Rightarrow> amount_sat \<Rightarrow> sym_htlc list
   \<Rightarrow> (side \<Rightarrow> amount_msat) \<Rightarrow> amount_sat \<Rightarrow> sym_output list
   \<Rightarrow> (settle_err + (side \<Rightarrow> amount_msat) \<times> amount_sat \<times> sym_output list) run" where
  "settle_htlcs cr hkey dust [] bal tot outs = Some (Inr (bal, tot, outs))"
| "settle_htlcs cr hkey dust (h # hs) bal tot outs =
     (let amt = amount_msat_to_sat_round_down (sh_amount h); own = sh_owner h in
      if amount_sat_less amt dust then
        (case amount_msat_accumulate (bal own) (sh_amount h) of
           None \<Rightarrow> Some (Inl SETTLE_OVERFLOW)
         | Some b \<Rightarrow> settle_htlcs cr hkey dust hs (bal(own := b)) tot outs)
      else
        (case amount_msat_sub_sat (sh_amount h) amt of
           None \<Rightarrow> Some (Inl SETTLE_OVERFLOW)
         | Some rem \<Rightarrow>
             (case amount_msat_accumulate (bal own) rem of
                None \<Rightarrow> Some (Inl SETTLE_OVERFLOW)
              | Some b \<Rightarrow>
                  do { tree \<leftarrow> sym_htlc_tree cr (hkey own) (hkey (other own)) (sh_payment_ripemd h)
                                 (sh_cltv_expiry h) uninit_tree2;
                       case amount_sat_add tot amt of
                         None \<Rightarrow> Some (Inl SETTLE_OVERFLOW)
                       | Some tot' \<Rightarrow>
                           settle_htlcs cr hkey dust hs (bal(own := b)) tot'
                             (outs @ [\<lparr>out_kind = SYM_OUT_HTLC, out_side = own, out_amount = amt,
                                       out_spk = tap_tree2_scriptpubkey tree, out_asset = None,
                                       out_htlc = Some (sh_handle h), out_cltv_expiry = sh_cltv_expiry h\<rparr>]) })))"

text \<open>A balance below the dust limit goes to the other side, if that one has no less.\<close>

definition dust_shift :: "amount_sat \<Rightarrow> side \<Rightarrow> (side \<Rightarrow> amount_sat) \<Rightarrow> (side \<Rightarrow> amount_sat) option" where
  "dust_shift dust s node =
     (if \<not> amount_sat_eq (node s) (AMOUNT_SAT 0) \<and> amount_sat_less (node s) dust
         \<and> amount_sat_greater_eq (node (other s)) (node s)
      then do { b \<leftarrow> amount_sat_add (node (other s)) (node s); Some (node(other s := b, s := AMOUNT_SAT 0)) }
      else Some node)"

definition balance_out :: "crypto \<Rightarrow> (side \<Rightarrow> bytes) \<Rightarrow> (side \<Rightarrow> amount_sat) \<Rightarrow> side \<Rightarrow> sym_output list" where
  "balance_out cr pay node s =
     (if amount_sat_eq (node s) (AMOUNT_SAT 0) then []
      else [\<lparr>out_kind = SYM_OUT_BALANCE, out_side = s, out_amount = node s,
             out_spk = scriptpubkey_p2wpkh cr (pay s), out_asset = None, out_htlc = None, out_cltv_expiry = 0\<rparr>])"

text \<open>What each side is paid beside the HTLCs.\<close>

definition settle_nodes ::
  "amount_sat \<Rightarrow> side \<Rightarrow> amount_sat \<Rightarrow> (side \<Rightarrow> amount_msat) \<Rightarrow> amount_sat \<Rightarrow> settle_err + (side \<Rightarrow> amount_sat)" where
  "settle_nodes fund opn dust bal tot =
     (let node = (\<lambda>s. amount_msat_to_sat_round_down (bal s)) in
      case do { t \<leftarrow> amount_sat_add tot (node LOCAL); amount_sat_add t (node REMOTE) } of
        None \<Rightarrow> Inl SETTLE_OVERFLOW
      | Some t \<Rightarrow>
          (case amount_sat_sub fund t of
             None \<Rightarrow> Inl SETTLE_PAYS_MORE
           | Some left \<Rightarrow>
               (case do { b \<leftarrow> amount_sat_add (node opn) left;
                          n1 \<leftarrow> dust_shift dust LOCAL (node(opn := b)); dust_shift dust REMOTE n1 } of
                  None \<Rightarrow> Inl SETTLE_OVERFLOW
                | Some n \<Rightarrow> Inr n)))"

definition sym_settlement ::
  "crypto \<Rightarrow> amount_sat \<Rightarrow> side \<Rightarrow> (side \<Rightarrow> bytes) \<Rightarrow> (side \<Rightarrow> bytes) \<Rightarrow> (side \<Rightarrow> amount_msat) \<Rightarrow> sym_htlc list
   \<Rightarrow> amount_sat \<Rightarrow> (settle_err + sym_output list) run" where
  "sym_settlement cr fund opn pay hkey balance hs dust =
     do { r \<leftarrow> settle_htlcs cr hkey dust hs balance (AMOUNT_SAT 0) [];
          case r of
            Inl e \<Rightarrow> Some (Inl e)
          | Inr (bal, tot, outs) \<Rightarrow>
              (case settle_nodes fund opn dust bal tot of
                 Inl e \<Rightarrow> Some (Inl e)
               | Inr node \<Rightarrow>
                   let outs' = outs @ balance_out cr pay node LOCAL @ balance_out cr pay node REMOTE in
                   if outs' = [] then Some (Inl SETTLE_PAYS_NOTHING)
                   else Some (Inr (asort cmp_output outs'))) }"

section \<open>Every lane\<close>

definition sym_shared_delay :: "channel \<Rightarrow> u16" where
  "sym_shared_delay ch =
     (if to_self_delay (config ch LOCAL) > to_self_delay (config ch REMOTE)
      then to_self_delay (config ch LOCAL) else to_self_delay (config ch REMOTE))"

definition lane_settlement ::
  "crypto \<Rightarrow> channel \<Rightarrow> side \<Rightarrow> (sym_htlc \<times> nat) list \<Rightarrow> nat \<Rightarrow> (settle_err + sym_output list) run" where
  "lane_settlement cr ch side hs l =
     do { local_owed \<leftarrow> sym_lane_owed ch l side LOCAL;
          remote_owed \<leftarrow> sym_lane_owed ch l side REMOTE;
          (_, fund) \<leftarrow> sym_lane_funding ch l;
          lo \<leftarrow> sym_settlement cr fund (opener ch) (\<lambda>s. payment (channel_basepoints ch s))
                  (\<lambda>s. htlc_basepoint (channel_basepoints ch s)) (by_side local_owed remote_owed)
                  (map fst (filter (\<lambda>(h, lane). lane = l) hs)) (sym_dust_limit ch);
          case lo of
            Inl e \<Rightarrow> Some (Inl (SETTLE_LANE l e))
          | Inr outs \<Rightarrow>
              do { asset \<leftarrow> (if l = 0 then Some None else map_option Some (sym_lane_asset ch l));
                   Some (Inr (map (\<lambda>out. out\<lparr>out_asset := asset\<rparr>) outs)) } }"

text \<open>The loop over the lanes, which stops at the first error.\<close>

fun lanes_settlement_loop ::
  "crypto \<Rightarrow> channel \<Rightarrow> side \<Rightarrow> (sym_htlc \<times> nat) list \<Rightarrow> nat list \<Rightarrow> (settle_err + sym_output list) run" where
  "lanes_settlement_loop cr ch side hs [] = Some (Inr [])"
| "lanes_settlement_loop cr ch side hs (l # ls) =
     do { r \<leftarrow> lane_settlement cr ch side hs l;
          case r of
            Inl e \<Rightarrow> Some (Inl e)
          | Inr lo \<Rightarrow>
              do { rest \<leftarrow> lanes_settlement_loop cr ch side hs ls;
                   Some (case rest of Inl e \<Rightarrow> Inl e | Inr outs \<Rightarrow> Inr (lo @ outs)) } }"

definition sym_lanes_settlement ::
  "crypto \<Rightarrow> channel \<Rightarrow> side \<Rightarrow> sym_htlc list \<Rightarrow> u16 list option \<Rightarrow> (settle_err + sym_output list) run" where
  "sym_lanes_settlement cr ch side hs htlc_lanes =
     lanes_settlement_loop cr ch side
       (case htlc_lanes of None \<Rightarrow> map (\<lambda>h. (h, 0)) hs | Some ls \<Rightarrow> zip hs (map unat ls))
       [0 ..< sym_num_lanes ch]"

section \<open>States\<close>

record sym_state_out =
  so_amount :: amount_sat
  so_spk :: bytes
  so_asset :: "bytes option"

record sym_state =
  ss_owner :: side
  ss_commit_num :: u64
  ss_num :: u64
  ss_outs :: "sym_state_out list"
  ss_has_sig :: "side \<Rightarrow> bool"
  ss_sig :: "side \<Rightarrow> bytes"

definition sym_state_new :: "side \<Rightarrow> u64 \<Rightarrow> u64 \<Rightarrow> sym_output list \<Rightarrow> sym_state" where
  "sym_state_new owner commit_num num outs =
     \<lparr>ss_owner = owner, ss_commit_num = commit_num, ss_num = num,
      ss_outs = map (\<lambda>out. \<lparr>so_amount = out_amount out, so_spk = out_spk out, so_asset = out_asset out\<rparr>) outs,
      ss_has_sig = (\<lambda>_. False), ss_sig = (\<lambda>_. replicate 64 0)\<rparr>"

definition sym_state_outputs :: "sym_state \<Rightarrow> sym_output list" where
  "sym_state_outputs st =
     map (\<lambda>so. \<lparr>out_kind = SYM_OUT_BALANCE, out_side = LOCAL, out_amount = so_amount so, out_spk = so_spk so,
                out_asset = so_asset so, out_htlc = None, out_cltv_expiry = 0\<rparr>) (ss_outs st)"

definition sym_state_tree_of :: "crypto \<Rightarrow> sym_channel \<Rightarrow> sym_state \<Rightarrow> sym_tree \<Rightarrow> sym_tree run" where
  "sym_state_tree_of cr sc st tree = sym_state_tree cr sc (ss_num st) (sym_state_outputs st) None tree"

text \<open>The opener's and the accepter's signature.\<close>

definition sym_state_signed :: "sym_state \<Rightarrow> side \<Rightarrow> (bytes \<times> bytes) option" where
  "sym_state_signed st opn =
     (if \<not> ss_has_sig st LOCAL \<or> \<not> ss_has_sig st REMOTE then None
      else Some (ss_sig st opn, ss_sig st (other opn)))"

definition sym_state_total :: "sym_state \<Rightarrow> amount_sat run" where
  "sym_state_total st = accumulate_all amount_sat_add (AMOUNT_SAT 0) (map so_amount (ss_outs st))"

definition sym_channel_of ::
  "crypto \<Rightarrow> chainparams \<Rightarrow> (bitcoin_outpoint \<Rightarrow> bytes) \<Rightarrow> channel \<Rightarrow> sym_channel run" where
  "sym_channel_of cr cp sym_marker_id ch =
     (let opn = opener ch in
      do { sc \<leftarrow> sym_channel_init cr cp (genesis_blockhash cp) (funding ch)
                   (delayed_payment (channel_basepoints ch opn)) (delayed_payment (channel_basepoints ch (other opn)))
                   (Some (channel_asset ch)) (sym_shared_delay ch);
           Some (case sym_issuer ch of
                   None \<Rightarrow> sc
                 | Some issuer \<Rightarrow>
                     sym_channel_set_clock cr sc (sym_marker_id issuer)
                       (bitcoin_redeem_2of2 (funding_pubkey ch LOCAL) (funding_pubkey ch REMOTE)) (funding_sats ch)) })"

definition sym_channel_state ::
  "crypto \<Rightarrow> channel \<Rightarrow> side \<Rightarrow> u64 \<Rightarrow> sym_htlc list \<Rightarrow> u16 list option \<Rightarrow> (settle_err + sym_state) run" where
  "sym_channel_state cr ch side commit_num hs htlc_lanes =
     do { r \<leftarrow> (if sym_lanes ch \<noteq> None then sym_lanes_settlement cr ch side hs htlc_lanes
                else sym_settlement cr (funding_sats ch) (opener ch) (\<lambda>s. payment (channel_basepoints ch s))
                       (\<lambda>s. htlc_basepoint (channel_basepoints ch s)) (owed (view ch side)) hs (sym_dust_limit ch));
          case r of
            Inl e \<Rightarrow> Some (Inl e)
          | Inr outs \<Rightarrow>
              do { num \<leftarrow> sym_state_num commit_num (side = opener ch);
                   Some (Inr (sym_state_new side commit_num num outs)) } }"

definition sym_channel_msg ::
  "crypto \<Rightarrow> chainparams \<Rightarrow> (bitcoin_outpoint \<Rightarrow> bytes) \<Rightarrow> channel \<Rightarrow> sym_state \<Rightarrow> sym_tree \<Rightarrow> bytes run" where
  "sym_channel_msg cr cp sym_marker_id ch st uninit =
     do { sc \<leftarrow> sym_channel_of cr cp sym_marker_id ch;
          tree \<leftarrow> sym_state_tree_of cr sc st uninit;
          sym_upd_msg cr sc tree }"

text \<open>\<open>check_schnorr_sig\<close> is libsecp256k1's check of a signature.\<close>

definition sym_channel_check_sig ::
  "crypto \<Rightarrow> chainparams \<Rightarrow> (bitcoin_outpoint \<Rightarrow> bytes) \<Rightarrow> (bytes \<Rightarrow> bytes \<Rightarrow> bytes \<Rightarrow> bool)
   \<Rightarrow> channel \<Rightarrow> sym_state \<Rightarrow> side \<Rightarrow> bytes \<Rightarrow> sym_tree \<Rightarrow> bool run" where
  "sym_channel_check_sig cr cp sym_marker_id check_schnorr_sig ch st signer sig uninit =
     do { msg \<leftarrow> sym_channel_msg cr cp sym_marker_id ch st uninit;
          Some (check_schnorr_sig msg (delayed_payment (channel_basepoints ch signer)) sig) }"

text \<open>\<open>None\<close> is \<^verbatim>\<open>status_failed\<close>, or an HTLC whose expiry is no block height.\<close>

definition sym_channeld_state :: "crypto \<Rightarrow> channel \<Rightarrow> side \<Rightarrow> u64 \<Rightarrow> sym_state run" where
  "sym_channeld_state cr ch side commit_num =
     (let committed = channel_committed_htlcs ch side in
      do { hs \<leftarrow> map_run (\<lambda>h. do { blocks \<leftarrow> abs_locktime_to_blocks (h_expiry h);
                                    Some \<lparr>sh_owner = htlc_owner h, sh_amount = h_amount h,
                                          sh_payment_ripemd = ripemd160 cr (h_rhash h),
                                          sh_cltv_expiry = blocks, sh_handle = h\<rparr> }) committed;
           r \<leftarrow> sym_channel_state cr ch side commit_num hs (Some (map h_lane committed));
           case r of Inl _ \<Rightarrow> None | Inr st \<Rightarrow> Some st })"

section \<open>The settlement is exact\<close>

definition out_sats :: "sym_output list \<Rightarrow> nat" where
  "out_sats outs = (\<Sum>out \<leftarrow> outs. sat (out_amount out))"

definition bal_msat :: "(side \<Rightarrow> amount_msat) \<Rightarrow> nat" where
  "bal_msat bal = msat (bal LOCAL) + msat (bal REMOTE)"

definition htlcs_msat :: "sym_htlc list \<Rightarrow> nat" where
  "htlcs_msat hs = (\<Sum>h \<leftarrow> hs. msat (sh_amount h))"

definition dusty :: "amount_sat \<Rightarrow> sym_htlc \<Rightarrow> bool" where
  "dusty dust h \<longleftrightarrow> msat (sh_amount h) div 1000 < sat dust"

text \<open>The output of an HTLC.\<close>

definition htlc_out :: "crypto \<Rightarrow> (side \<Rightarrow> bytes) \<Rightarrow> sym_htlc \<Rightarrow> sym_output" where
  "htlc_out cr hkey h =
     \<lparr>out_kind = SYM_OUT_HTLC, out_side = sh_owner h, out_amount = amount_msat_to_sat_round_down (sh_amount h),
      out_spk = tap_tree2_scriptpubkey (the (sym_htlc_tree cr (hkey (sh_owner h)) (hkey (other (sh_owner h)))
                  (sh_payment_ripemd h) (sh_cltv_expiry h) uninit_tree2)),
      out_asset = None, out_htlc = Some (sh_handle h), out_cltv_expiry = sh_cltv_expiry h\<rparr>"

lemma sum_simps [simp]:
  "out_sats [] = 0" "out_sats (x # xs) = sat (out_amount x) + out_sats xs"
  "out_sats (xs @ ys) = out_sats xs + out_sats ys"
  "htlcs_msat [] = 0" "htlcs_msat (h # hs) = msat (sh_amount h) + htlcs_msat hs"
  by (simp_all add: out_sats_def htlcs_msat_def)

lemma sym_htlc_tree_runs: "sym_htlc_tree cr a b r e t \<noteq> None"
  by (simp add: sym_htlc_tree_def tap_tree2_finish_def Let_def)

lemma msat_add_ex: "msat a + msat b < 2 ^ 64 \<Longrightarrow> \<exists>c. amount_msat_accumulate a b = Some c \<and> msat c = msat a + msat b"
  using msat_arith.add_None [of a b] msat_arith.add_Some [of a b]
  by (cases "amount_msat_add a b") (auto simp: amount_msat_accumulate_def)

lemma sat_add_ex: "sat a + sat b < 2 ^ 64 \<Longrightarrow> \<exists>c. amount_sat_add a b = Some c \<and> sat c = sat a + sat b"
  using sat_arith.add_None [of a b] sat_arith.add_Some [of a b] by (cases "amount_sat_add a b") auto

lemma bal_msat_upd: "msat b = msat (bal s) + k \<Longrightarrow> bal_msat (bal(s := b)) = bal_msat bal + k"
  by (cases s) (simp_all add: bal_msat_def)

lemma bal_msat_ge: "msat (bal s) \<le> bal_msat bal"
  by (cases s) (simp_all add: bal_msat_def)

lemma less_dusty: "amount_sat_less (amount_msat_to_sat_round_down (sh_amount h)) dust = dusty dust h"
  by (simp add: amount_sat_less_def word_less_nat_alt dusty_def sat_round_down)

lemma round_down_splits:
  assumes "rem = AMOUNT_MSAT (of_nat (msat m mod 1000))"
  shows "amount_msat_sub_sat m (amount_msat_to_sat_round_down m) = Some rem"
    and "msat m = msat rem + 1000 * sat (amount_msat_to_sat_round_down m)"
proof -
  have "msat m < 2 ^ 64" using unat_u64_lt by simp
  then have fits: "sat (amount_msat_to_sat_round_down m) * 1000 < 2 ^ 64" by (simp add: sat_round_down)
  have "msat rem = msat m mod 1000" by (simp add: assms unat_of_nat_u64 del: of_nat_mod)
  then show split: "msat m = msat rem + 1000 * sat (amount_msat_to_sat_round_down m)" by (simp add: sat_round_down)
  show "amount_msat_sub_sat m (amount_msat_to_sat_round_down m) = Some rem"
    unfolding amount_msat_sub_sat_iff [OF fits] by (rule split)
qed

text \<open>One turn of the loop: the amount goes to the total and the offerer's balance, and none is lost.\<close>

lemma settle_htlcs_step:
  assumes "bal_msat bal + 1000 * sat tot + msat (sh_amount h) < 2 ^ 64"
  obtains bal1 tot1 where
    "\<And>hs outs. settle_htlcs cr hkey dust (h # hs) bal tot outs
       = settle_htlcs cr hkey dust hs bal1 tot1 (outs @ (if dusty dust h then [] else [htlc_out cr hkey h]))"
    "bal_msat bal1 + 1000 * sat tot1 = bal_msat bal + 1000 * sat tot + msat (sh_amount h)"
    "sat tot1 = sat tot + (if dusty dust h then 0 else sat (amount_msat_to_sat_round_down (sh_amount h)))"
    "\<And>s. msat (bal s) \<le> msat (bal1 s)"
proof (cases "dusty dust h")
  case True
  obtain b where b: "amount_msat_accumulate (bal (sh_owner h)) (sh_amount h) = Some b"
    "msat b = msat (bal (sh_owner h)) + msat (sh_amount h)"
    using msat_add_ex [of "bal (sh_owner h)" "sh_amount h"] bal_msat_ge [of bal "sh_owner h"] assms by auto
  then show ?thesis
    using True bal_msat_upd [of b bal "sh_owner h" "msat (sh_amount h)"] that [of "bal(sh_owner h := b)" tot] by (auto simp: Let_def less_dusty)
next
  case False
  let ?own = "sh_owner h" and ?amt = "amount_msat_to_sat_round_down (sh_amount h)"
  obtain rem where rem: "amount_msat_sub_sat (sh_amount h) ?amt = Some rem" "msat (sh_amount h) = msat rem + 1000 * sat ?amt"
    using round_down_splits by blast
  obtain b where b: "amount_msat_accumulate (bal ?own) rem = Some b" "msat b = msat (bal ?own) + msat rem"
    using msat_add_ex [of "bal ?own" rem] bal_msat_ge [of bal ?own] assms rem(2) by auto
  obtain t where t: "amount_sat_add tot ?amt = Some t" "sat t = sat tot + sat ?amt"
    using sat_add_ex [of tot ?amt] assms rem(2) by auto
  obtain tree where "sym_htlc_tree cr (hkey ?own) (hkey (other ?own)) (sh_payment_ripemd h) (sh_cltv_expiry h) uninit_tree2
      = Some tree" using sym_htlc_tree_runs by blast
  then show ?thesis
    using False rem(1) b t(1) bal_msat_upd [of b bal ?own "msat rem"] rem(2) t(2) that [of "bal(?own := b)" t]
    by (auto simp: Let_def less_dusty htlc_out_def)
qed

lemma settle_htlcs_exact:
  assumes "bal_msat bal + 1000 * sat tot + htlcs_msat hs < 2 ^ 64"
  shows "\<exists>bal' tot'. settle_htlcs cr hkey dust hs bal tot outs
        = Some (Inr (bal', tot', outs @ map (htlc_out cr hkey) (filter (\<lambda>h. \<not> dusty dust h) hs)))
      \<and> bal_msat bal' + 1000 * sat tot' = bal_msat bal + 1000 * sat tot + htlcs_msat hs
      \<and> sat tot' = sat tot + out_sats (map (htlc_out cr hkey) (filter (\<lambda>h. \<not> dusty dust h) hs))
      \<and> (\<forall>s. msat (bal s) \<le> msat (bal' s))"
  using assms
proof (induction hs arbitrary: bal tot outs)
  case (Cons h hs)
  from Cons.prems have "bal_msat bal + 1000 * sat tot + msat (sh_amount h) < 2 ^ 64" by simp
  then obtain bal1 tot1 where step:
    "\<And>hs outs. settle_htlcs cr hkey dust (h # hs) bal tot outs
       = settle_htlcs cr hkey dust hs bal1 tot1 (outs @ (if dusty dust h then [] else [htlc_out cr hkey h]))"
    "bal_msat bal1 + 1000 * sat tot1 = bal_msat bal + 1000 * sat tot + msat (sh_amount h)"
    "sat tot1 = sat tot + (if dusty dust h then 0 else sat (amount_msat_to_sat_round_down (sh_amount h)))"
    "\<And>s. msat (bal s) \<le> msat (bal1 s)"
    by (rule settle_htlcs_step [where cr = cr and hkey = hkey and dust = dust]) blast
  from Cons.prems step(2) have "bal_msat bal1 + 1000 * sat tot1 + htlcs_msat hs < 2 ^ 64" by simp
  from Cons.IH [OF this] obtain bal' tot' where ih:
    "settle_htlcs cr hkey dust hs bal1 tot1 (outs @ (if dusty dust h then [] else [htlc_out cr hkey h]))
      = Some (Inr (bal', tot', (outs @ (if dusty dust h then [] else [htlc_out cr hkey h]))
                     @ map (htlc_out cr hkey) (filter (\<lambda>h. \<not> dusty dust h) hs)))"
    "bal_msat bal' + 1000 * sat tot' = bal_msat bal1 + 1000 * sat tot1 + htlcs_msat hs"
    "sat tot' = sat tot1 + out_sats (map (htlc_out cr hkey) (filter (\<lambda>h. \<not> dusty dust h) hs))"
    "\<forall>s. msat (bal1 s) \<le> msat (bal' s)" by blast
  have "out_amount (htlc_out cr hkey h) = amount_msat_to_sat_round_down (sh_amount h)" by (simp add: htlc_out_def)
  moreover have "msat (bal s) \<le> msat (bal' s)" for s using ih(4) step(4) [of s] le_trans by blast
  ultimately show ?case
    unfolding step(1) ih(1) using ih(2,3) step(2,3) by (intro exI [of _ bal'] exI [of _ tot']) simp
qed simp


lemma dust_shift_exact:
  assumes "sat (node LOCAL) + sat (node REMOTE) < 2 ^ 64"
  shows "\<exists>n. dust_shift dust s node = Some n \<and> sat (n LOCAL) + sat (n REMOTE) = sat (node LOCAL) + sat (node REMOTE)
     \<and> (\<forall>r. sat dust \<le> sat (node r) \<longrightarrow> sat (node r) \<le> sat (n r))"
proof (cases "\<not> amount_sat_eq (node s) (AMOUNT_SAT 0) \<and> amount_sat_less (node s) dust
         \<and> amount_sat_greater_eq (node (other s)) (node s)")
  case True
  have sum: "sat (node (other s)) + sat (node s) = sat (node LOCAL) + sat (node REMOTE)" by (cases s) simp_all
  with assms obtain b where b: "amount_sat_add (node (other s)) (node s) = Some b" "sat b = sat (node (other s)) + sat (node s)"
    using sat_add_ex [of "node (other s)" "node s"] by auto
  have less: "sat (node s) < sat dust" using True by (simp add: amount_sat_less_def word_less_nat_alt)
  let ?n = "node(other s := b, s := AMOUNT_SAT 0)"
  have "sat (?n LOCAL) + sat (?n REMOTE) = sat (node LOCAL) + sat (node REMOTE)"
    using b(2) sum by (cases s) simp_all
  moreover have "sat (node r) \<le> sat (?n r)" if "sat dust \<le> sat (node r)" for r
    using that less b(2) by (cases "r = s") (auto simp: neq_side_iff)
  ultimately show ?thesis using True b(1) by (intro exI [of _ ?n]) (simp add: dust_shift_def)
qed (auto simp: dust_shift_def)

lemma settle_nodes_exact:
  assumes "bal_msat bal + 1000 * sat tot \<le> 1000 * sat fund"
  shows "\<exists>node. settle_nodes fund opn dust bal tot = Inr node \<and> sat tot + sat (node LOCAL) + sat (node REMOTE) = sat fund
     \<and> (\<forall>s. sat dust \<le> msat (bal s) div 1000 \<longrightarrow> msat (bal s) div 1000 \<le> sat (node s))"
proof -
  have fund: "sat fund < 2 ^ 64" using unat_u64_lt by simp
  let ?node = "\<lambda>s. amount_msat_to_sat_round_down (bal s)"
  have le: "sat tot + msat (bal LOCAL) div 1000 + msat (bal REMOTE) div 1000 \<le> sat fund"
    using assms by (simp add: bal_msat_def)
  with fund obtain t1 where t1: "amount_sat_add tot (?node LOCAL) = Some t1" "sat t1 = sat tot + msat (bal LOCAL) div 1000"
    using sat_add_ex [of tot "?node LOCAL"] by (auto simp: sat_round_down)
  with le fund obtain t where t: "amount_sat_add t1 (?node REMOTE) = Some t"
    "sat t = sat tot + msat (bal LOCAL) div 1000 + msat (bal REMOTE) div 1000"
    using sat_add_ex [of t1 "?node REMOTE"] by (auto simp: sat_round_down)
  with le obtain left where left: "amount_sat_sub fund t = Some left" "sat fund = sat left + sat t"
    using sat_arith.sub_None [of fund t] by (cases "amount_sat_sub fund t") (auto simp: sat_arith.sub_iff)
  have "msat (bal opn) div 1000 \<le> msat (bal LOCAL) div 1000 + msat (bal REMOTE) div 1000" by (cases opn) simp_all
  with left t fund obtain b where b: "amount_sat_add (?node opn) left = Some b" "sat b = msat (bal opn) div 1000 + sat left"
    using sat_add_ex [of "?node opn" left] by (auto simp: sat_round_down)
  define n0 where "n0 = ?node(opn := b)"
  have n0: "sat (n0 LOCAL) + sat (n0 REMOTE) = sat fund - sat tot" "msat (bal s) div 1000 \<le> sat (n0 s)" for s
    using b(2) left(2) t(2) by (cases opn; simp add: n0_def sat_round_down)+
  have lt: "sat fund - sat tot < 2 ^ 64" using fund by simp
  with n0 obtain n1 where n1: "dust_shift dust LOCAL n0 = Some n1"
    "sat (n1 LOCAL) + sat (n1 REMOTE) = sat fund - sat tot" "\<forall>r. sat dust \<le> sat (n0 r) \<longrightarrow> sat (n0 r) \<le> sat (n1 r)"
    using dust_shift_exact [of n0 dust LOCAL] by auto
  with lt obtain n2 where n2: "dust_shift dust REMOTE n1 = Some n2"
    "sat (n2 LOCAL) + sat (n2 REMOTE) = sat fund - sat tot" "\<forall>r. sat dust \<le> sat (n1 r) \<longrightarrow> sat (n1 r) \<le> sat (n2 r)"
    using dust_shift_exact [of n1 dust REMOTE] by auto
  have "msat (bal s) div 1000 \<le> sat (n2 s)" if "sat dust \<le> msat (bal s) div 1000" for s
    using that n0(2) [of s] n1(3) n2(3) by (meson le_trans)
  moreover have "settle_nodes fund opn dust bal tot = Inr n2"
    using t1(1) t(1) left(1) b(1) n1(1) n2(1) by (simp add: settle_nodes_def Let_def n0_def)
  ultimately show ?thesis using n2(2) le by auto
qed

lemma out_sats_mset: "mset xs = mset ys \<Longrightarrow> out_sats xs = out_sats ys"
  unfolding out_sats_def by (metis mset_map sum_mset_sum_list)

text \<open>What \<open>cmp_output\<close> compares, with the lexicographic orders of pairs and of lists.\<close>

definition settle_key :: "sym_output \<Rightarrow> u64 \<times> bytes \<times> u32" where
  "settle_key out = (satoshis (out_amount out), out_spk out, out_cltv_expiry out)"

lemma cmp_output_less: "cmp_output a b < 0 \<longleftrightarrow> settle_key a < settle_key b"
proof -
  let ?m = "\<lambda>a b :: bytes. if length a < length b then length a else length b"
  have m: "?m x y = min (length x) (length y)" for x y :: bytes by (simp add: min_def)
  have p: "memcmp_less (take (min (length x) (length y)) y) (take (min (length x) (length y)) x) = memcmp_less y x" for x y
    using memcmp_less_prefix [of y x] by (simp add: min.commute)
  have spk: "out_spk a < out_spk b \<longleftrightarrow> memcmp_less (out_spk a) (out_spk b) \<or> \<not> memcmp_less (out_spk b) (out_spk a) \<and> length (out_spk a) < length (out_spk b)"
    "memcmp_less (out_spk a) (out_spk b) \<Longrightarrow> \<not> memcmp_less (out_spk b) (out_spk a)"
    "out_spk a = out_spk b \<longleftrightarrow> \<not> memcmp_less (out_spk a) (out_spk b) \<and> \<not> memcmp_less (out_spk b) (out_spk a) \<and> length (out_spk a) = length (out_spk b)"
    using memcmp_lexicographic [of "out_spk a" "out_spk b"] memcmp_less_asym [of "out_spk a" "out_spk b"]
      memcmp_equal [of "out_spk a" "out_spk b"] memcmp_less_asym [of "out_spk b" "out_spk a"] by auto
  have key: "settle_key a < settle_key b \<longleftrightarrow> satoshis (out_amount a) < satoshis (out_amount b) \<or> satoshis (out_amount a) = satoshis (out_amount b)
      \<and> (out_spk a < out_spk b \<or> out_spk a = out_spk b \<and> out_cltv_expiry a < out_cltv_expiry b)"
    by (auto simp: settle_key_def less_prod_def le_less)
  show ?thesis
    unfolding key cmp_output_def Let_def m p memcmp_less_prefix amount_sat_less_def amount_sat_greater_def spk(1,3)
    using spk(2) by (cases "satoshis (out_amount a)" "satoshis (out_amount b)" rule: linorder_cases) (auto simp: not_less)
qed

lemma asort_cmp_output: "sorted (map settle_key (asort cmp_output xs))"
  by (rule asort_sorted) (auto simp: cmp_output_less not_less [symmetric] dest: order.asym)

lemma sorted_settle_key:
  "sorted (map settle_key outs) \<Longrightarrow> sorted_wrt (\<lambda>a b. sat (out_amount a) < sat (out_amount b)
     \<or> sat (out_amount a) = sat (out_amount b) \<and> (out_spk a < out_spk b
        \<or> out_spk a = out_spk b \<and> out_cltv_expiry a \<le> out_cltv_expiry b)) outs"
  by (auto simp: sorted_wrt_map settle_key_def less_eq_prod_def word_less_nat_alt le_less elim!: sorted_wrt_mono_rel [rotated])
lemma settlement_exact:
  assumes "bal_msat bal + htlcs_msat hs \<le> 1000 * sat fund"
    and "bal_msat bal + htlcs_msat hs < 2 ^ 64" and "0 < sat fund"
  shows "\<exists>outs. sym_settlement cr fund opn pay hkey bal hs dust = Some (Inr outs)
    \<and> out_sats outs = sat fund \<and> (\<forall>out \<in> set outs. out_asset out = None)
    \<and> sorted_wrt (\<lambda>a b. sat (out_amount a) < sat (out_amount b)
         \<or> sat (out_amount a) = sat (out_amount b) \<and> (out_spk a < out_spk b
            \<or> out_spk a = out_spk b \<and> out_cltv_expiry a \<le> out_cltv_expiry b)) outs
    \<and> mset (filter (\<lambda>out. out_kind out = SYM_OUT_HTLC) outs)
        = mset (map (htlc_out cr hkey) (filter (\<lambda>h. sat dust \<le> msat (sh_amount h) div 1000) hs))
    \<and> (\<forall>s. 0 < msat (bal s) div 1000 \<and> sat dust \<le> msat (bal s) div 1000 \<longrightarrow>
         (\<exists>out \<in> set outs. out_kind out = SYM_OUT_BALANCE \<and> out_side out = s
            \<and> out_spk out = scriptpubkey_p2wpkh cr (pay s) \<and> msat (bal s) div 1000 \<le> sat (out_amount out)))"
proof -
  let ?hout = "map (htlc_out cr hkey) (filter (\<lambda>h. \<not> dusty dust h) hs)"
  have dust: "(\<not> dusty dust h) = (sat dust \<le> msat (sh_amount h) div 1000)" for h by (auto simp: dusty_def)
  have "bal_msat bal + 1000 * sat (AMOUNT_SAT 0) + htlcs_msat hs < 2 ^ 64"
    using assms(2) by simp
  from settle_htlcs_exact [OF this, of cr hkey dust "[]"] obtain bal' tot where
    h: "settle_htlcs cr hkey dust hs bal (AMOUNT_SAT 0) [] = Some (Inr (bal', tot, ?hout))"
    "bal_msat bal' + 1000 * sat tot = bal_msat bal + htlcs_msat hs" "sat tot = out_sats ?hout"
    "\<And>s. msat (bal s) \<le> msat (bal' s)" by auto
  with assms(1) have "bal_msat bal' + 1000 * sat tot \<le> 1000 * sat fund" by simp
  from settle_nodes_exact [OF this, of opn dust] obtain node where
    n: "settle_nodes fund opn dust bal' tot = Inr node" "sat tot + sat (node LOCAL) + sat (node REMOTE) = sat fund"
    "\<And>s. sat dust \<le> msat (bal' s) div 1000 \<Longrightarrow> msat (bal' s) div 1000 \<le> sat (node s)" by blast
  let ?outs = "?hout @ balance_out cr pay node LOCAL @ balance_out cr pay node REMOTE"
  have bo: "out_sats (balance_out cr pay node s) = sat (node s)" for s
    by (auto simp: balance_out_def amount_sat_eq_def)
  have total: "out_sats ?outs = sat fund" using h(3) n(2) bo by simp
  with assms(3) have "?outs \<noteq> []" by (metis less_numeral_extra(3) sum_simps(1))
  then have "sym_settlement cr fund opn pay hkey bal hs dust = Some (Inr (asort cmp_output ?outs))"
    by (simp add: sym_settlement_def h(1) n(1))
  moreover have "out_sats (asort cmp_output ?outs) = sat fund" using out_sats_mset [OF mset_asort] total by simp
  moreover have "\<forall>out \<in> set (asort cmp_output ?outs). out_asset out = None"
    by (auto simp: htlc_out_def balance_out_def)
  moreover note sorted_settle_key [OF asort_cmp_output [of ?outs]]
  moreover have "mset (filter (\<lambda>out. out_kind out = SYM_OUT_HTLC) (asort cmp_output ?outs)) = mset ?hout"
  proof -
    have "filter (\<lambda>out. out_kind out = SYM_OUT_HTLC) (balance_out cr pay node s) = []" for s
      by (simp add: balance_out_def)
    moreover have "filter (\<lambda>out. out_kind out = SYM_OUT_HTLC) ?hout = ?hout"
      by (rule filter_True) (auto simp: htlc_out_def)
    ultimately show ?thesis unfolding filter_asort by (simp only: filter_append append_Nil2)
  qed
  moreover have "\<exists>out \<in> set (asort cmp_output ?outs). out_kind out = SYM_OUT_BALANCE \<and> out_side out = s
      \<and> out_spk out = scriptpubkey_p2wpkh cr (pay s) \<and> msat (bal s) div 1000 \<le> sat (out_amount out)"
    if "0 < msat (bal s) div 1000" "sat dust \<le> msat (bal s) div 1000" for s
  proof -
    have "msat (bal s) div 1000 \<le> msat (bal' s) div 1000" using h(4) [of s] by (rule div_le_mono)
    with that n(3) [of s] have "msat (bal s) div 1000 \<le> sat (node s)" by simp
    moreover from this that(1) have "satoshis (node s) \<noteq> 0" by auto
    ultimately show ?thesis by (cases s) (auto simp: balance_out_def amount_sat_eq_def)
  qed
  ultimately show ?thesis by (auto simp: dust)
qed

text \<open>
  (C28) Balances and HTLCs that add up to no more than the funding always settle: no overflow, and no
  payment above the funding. The outputs pay the whole funding, to the atom. There is one output for
  every HTLC that is not below the dust limit, of its whole satoshis, and no other HTLC output; and a
  side whose balance is above zero and not below the dust limit is paid at least that balance. They
  come in the order of BIP 69: by amount, then by script, byte by byte and a prefix first, then by expiry.
\<close>

theorem sym_settlement_exact:
  assumes "msat (bal LOCAL) + msat (bal REMOTE) + (\<Sum>h \<leftarrow> hs. msat (sh_amount h)) \<le> 1000 * sat fund"
    and "msat (bal LOCAL) + msat (bal REMOTE) + (\<Sum>h \<leftarrow> hs. msat (sh_amount h)) < 2 ^ 64" and "0 < sat fund"
  shows "\<exists>outs. sym_settlement cr fund opn pay hkey bal hs dust = Some (Inr outs)
    \<and> (\<Sum>out \<leftarrow> outs. sat (out_amount out)) = sat fund
    \<and> sorted_wrt (\<lambda>a b. sat (out_amount a) < sat (out_amount b)
         \<or> sat (out_amount a) = sat (out_amount b) \<and> (out_spk a < out_spk b
            \<or> out_spk a = out_spk b \<and> out_cltv_expiry a \<le> out_cltv_expiry b)) outs
    \<and> mset (filter (\<lambda>out. out_kind out = SYM_OUT_HTLC) outs)
        = mset (map (htlc_out cr hkey) (filter (\<lambda>h. sat dust \<le> msat (sh_amount h) div 1000) hs))
    \<and> (\<forall>s. 0 < msat (bal s) div 1000 \<and> sat dust \<le> msat (bal s) div 1000 \<longrightarrow>
         (\<exists>out \<in> set outs. out_kind out = SYM_OUT_BALANCE \<and> out_side out = s
            \<and> out_spk out = scriptpubkey_p2wpkh cr (pay s) \<and> msat (bal s) div 1000 \<le> sat (out_amount out)))"
  using assms settlement_exact [of bal hs fund cr opn pay hkey dust]
  by (auto simp: bal_msat_def htlcs_msat_def out_sats_def)

definition demo_sym_htlc :: sym_htlc where
  "demo_sym_htlc = \<lparr>sh_owner = LOCAL, sh_amount = AMOUNT_MSAT 100500, sh_payment_ripemd = replicate 20 6,
     sh_cltv_expiry = 700000, sh_handle = demo_htlc SENT_ADD_ACK_REVOCATION 1 (AMOUNT_MSAT 100500)\<rparr>"

theorem sym_settlement_exact_witness:
  "\<exists>outs. sym_settlement demo_crypto (AMOUNT_SAT 1000) LOCAL (\<lambda>_. replicate 33 2) (\<lambda>_. replicate 33 3)
       (by_side (AMOUNT_MSAT 399500) (AMOUNT_MSAT 500000)) [demo_sym_htlc] (AMOUNT_SAT 330) = Some (Inr outs)
     \<and> (\<Sum>out \<leftarrow> outs. sat (out_amount out)) = 1000"
  using sym_settlement_exact [of "by_side (AMOUNT_MSAT 399500) (AMOUNT_MSAT 500000)" "[demo_sym_htlc]" "AMOUNT_SAT 1000"
      demo_crypto LOCAL "\<lambda>_. replicate 33 2" "\<lambda>_. replicate 33 3" "AMOUNT_SAT 330"]
  by (auto simp: demo_sym_htlc_def)

section \<open>The lanes\<close>

lemma lanes_settlement_loop_all:
  "(\<And>l. l \<in> set ls \<Longrightarrow> lane_settlement cr ch side hs l = Some (Inr (f l)))
    \<Longrightarrow> lanes_settlement_loop cr ch side hs ls = Some (Inr (concat (map f ls)))"
  by (induction ls) simp_all

lemma lane_settlement_exact:
  assumes "sym_lane_owed ch l v LOCAL = Some a" and "sym_lane_owed ch l v REMOTE = Some b"
    and "sym_lane_funding ch l = Some (outp, fund)" and "l = 0 \<or> l \<le> length (lanes_of ch)" and "0 < sat fund"
    and "msat a + msat b + (\<Sum>h \<leftarrow> map fst (filter (\<lambda>(h, lane). lane = l) hs). msat (sh_amount h)) \<le> 1000 * sat fund"
    and "msat a + msat b + (\<Sum>h \<leftarrow> map fst (filter (\<lambda>(h, lane). lane = l) hs). msat (sh_amount h)) < 2 ^ 64"
  shows "\<exists>outs. lane_settlement cr ch v hs l = Some (Inr outs) \<and> (\<Sum>out \<leftarrow> outs. sat (out_amount out)) = sat fund
     \<and> (\<forall>out \<in> set outs. out_asset out = (if l = 0 then None else sym_lane_asset ch l))"
proof -
  let ?hs = "map fst (filter (\<lambda>(h, lane). lane = l) hs)"
  have le: "bal_msat (by_side a b) + htlcs_msat ?hs \<le> 1000 * sat fund" and lt: "bal_msat (by_side a b) + htlcs_msat ?hs < 2 ^ 64"
    using assms(6,7) by (simp_all add: htlcs_msat_def bal_msat_def)
  obtain outs where o: "sym_settlement cr fund (opener ch) (\<lambda>s. payment (channel_basepoints ch s))
      (\<lambda>s. htlc_basepoint (channel_basepoints ch s)) (by_side a b) ?hs (sym_dust_limit ch) = Some (Inr outs)"
    "out_sats outs = sat fund"
    using settlement_exact [OF le lt assms(5)] by blast
  have "\<exists>asset. (if l = 0 then Some None else map_option Some (sym_lane_asset ch l)) = Some asset
      \<and> asset = (if l = 0 then None else sym_lane_asset ch l)"
    using assms(4) by (auto simp: sym_lane_asset_def)
  then obtain asset where "(if l = 0 then Some None else map_option Some (sym_lane_asset ch l)) = Some asset"
    "asset = (if l = 0 then None else sym_lane_asset ch l)" by blast
  moreover have "out_sats (map (\<lambda>out. out\<lparr>out_asset := asset\<rparr>) outs) = sat fund"
    using o(2) by (simp add: out_sats_def comp_def)
  ultimately show ?thesis
    using assms(1-3) o(1) by (auto simp: lane_settlement_def out_sats_def)
qed

end
