(* ===== verification/Balances.thy ===== *)
theory Balances
  imports FullChannel
begin

text \<open>
  What the commitment events of \<^verbatim>\<open>channeld/full_channel.c\<close> do to the balances. The balances the code
  keeps by adding and removing one HTLC at a time are compared with a specification that reads them
  off: a base that both views share, plus what each HTLC contributes at its place in its life. From
  that the theory derives that the two views agree, that no money appears or vanishes, and that the
  daemon does not stop.
\<close>

section \<open>What an HTLC does to a balance\<close>

text \<open>
  An HTLC takes its amount from its owner's balance when it is committed, and gives it back, or
  pays the other side, when it is removed. In the receiving side's view that happens at the
  positions 1 and 8 of its life, in the owner's own view at 3 and 6. \<open>contrib a f c s h\<close> is what it
  does to the balance of \<open>s\<close> if the owner is charged from position \<open>a\<close>, refunded from \<open>f\<close> when the
  HTLC has no preimage, and the other side paid from \<open>c\<close> when it has one.
\<close>

definition hpos :: "htlc \<Rightarrow> nat" where
  "hpos h = life_pos (h_state h)"

definition hamt :: "htlc \<Rightarrow> int" where
  "hamt h = int (msat (h_amount h))"

definition contrib :: "nat \<Rightarrow> nat \<Rightarrow> nat \<Rightarrow> side \<Rightarrow> htlc \<Rightarrow> int" where
  "contrib a f c s h =
     (if htlc_owner h = s
      then (if h_r h = None \<and> f \<le> hpos h then hamt h else 0) - (if a \<le> hpos h then hamt h else 0)
      else if h_r h \<noteq> None \<and> c \<le> hpos h then hamt h else 0)"

definition adj :: "side \<Rightarrow> side \<Rightarrow> htlc \<Rightarrow> int" where
  "adj v s h = (if v = s then contrib 3 6 8 s h else contrib 1 8 6 s h)"

text \<open>What is left of an HTLC on the balance of \<open>s\<close> once it is gone, in both views.\<close>

definition settle :: "side \<Rightarrow> htlc \<Rightarrow> int" where
  "settle s h = contrib 0 0 0 s h"

definition lane_sum :: "(htlc \<Rightarrow> int) \<Rightarrow> nat \<Rightarrow> htlc list \<Rightarrow> int" where
  "lane_sum g l hs = (\<Sum>h \<leftarrow> hs. if unat (h_lane h) = l then g h else 0)"

lemma lane_sum_simps [simp]:
  "lane_sum g l [] = 0"
  "lane_sum g l (h # hs) = (if unat (h_lane h) = l then g h else 0) + lane_sum g l hs"
  by (simp_all add: lane_sum_def)

lemma hamt_nonneg [simp]: "0 \<le> hamt h" by (simp add: hamt_def)

lemma of_int_hamt: "(of_int (hamt h) :: u64) = millisatoshis (h_amount h)"
  by (simp add: hamt_def)

lemma htlc_update_simps [simp]:
  "h_amount (h\<lparr>h_state := t\<rparr>) = h_amount h" "hamt (h\<lparr>h_state := t\<rparr>) = hamt h"
  by (simp_all add: hamt_def)

lemma adj_dead: "htlc_is_dead h \<Longrightarrow> adj v s h = settle s h"
  by (auto simp: htlc_is_dead_def adj_def settle_def contrib_def hpos_def life_pos_def)

lemma adj_new: "hpos h = 0 \<Longrightarrow> adj v s h = 0"
  by (simp add: adj_def contrib_def)

text \<open>An HTLC only moves money between the sides: in a view, its amount is out while it is committed.\<close>

lemma adj_both_sides:
  "adj v LOCAL h + adj v REMOTE h = (if htlc_has h (HTLC_FLAG v HTLC_F_COMMITTED) then - hamt h else 0)"
proof -
  have "htlc_has h (HTLC_FLAG v HTLC_F_COMMITTED) \<longleftrightarrow>
      (if v = htlc_owner h then 3 \<le> hpos h \<and> hpos h \<le> 5 else 1 \<le> hpos h \<and> hpos h \<le> 7)"
    using committed_positions [of "h_state h"] neq_side_iff [of v "htlc_owner h"]
    by (auto simp: htlc_has_def htlc_owner_def hpos_def)
  then show ?thesis
    by (cases v; cases "htlc_owner h"; cases "h_r h") (auto simp: adj_def contrib_def)
qed

lemma settle_both_sides: "settle LOCAL h + settle REMOTE h = 0"
  by (cases "htlc_owner h"; cases "h_r h") (auto simp: settle_def contrib_def)

lemma same_owner_succ_iff:
  "same_owner_succ s = Some t \<longleftrightarrow> htlc_state_succ s = Some t \<and> htlc_state_owner t = htlc_state_owner s"
proof -
  have "htlc_state_flags x AND (HTLC_LOCAL_F_OWNER OR HTLC_REMOTE_F_OWNER)
      = HTLC_FLAG (htlc_state_owner x) HTLC_F_OWNER" for x
    using htlc_state_owner_flags [of x] by (simp add: or.commute)
  moreover have "HTLC_FLAG a HTLC_F_OWNER = HTLC_FLAG b HTLC_F_OWNER \<longleftrightarrow> a = b" for a b
    by (cases a; cases b) (simp_all add: flag_defs)
  ultimately show ?thesis
    by (auto simp: same_owner_succ_def bind_eq_Some_conv split: if_splits)
qed

lemma succ_pos:
  assumes "same_owner_succ s = Some t"
  shows "life_pos t = Suc (life_pos s)" "htlc_state_owner t = htlc_state_owner s"
  using assms by (cases s; auto simp: same_owner_succ_iff life_pos_def htlc_state_owner_def state_lt_iff)+

text \<open>The change of a balance by one step is the change of the contribution.\<close>

lemma adj_step:
  assumes t: "same_owner_succ (h_state h) = Some t"
  defines "h' \<equiv> h\<lparr>h_state := t\<rparr>"
  shows "adj v s h' - adj v s h =
     (if \<not> state_has (h_state h) (HTLC_FLAG v HTLC_F_COMMITTED) \<and> state_has t (HTLC_FLAG v HTLC_F_COMMITTED)
      then if htlc_owner h' = s then - hamt h else 0
      else if state_has (h_state h) (HTLC_FLAG v HTLC_F_COMMITTED) \<and> \<not> state_has t (HTLC_FLAG v HTLC_F_COMMITTED)
      then if s = (if h_r h' \<noteq> None then other (htlc_owner h') else htlc_owner h') then hamt h else 0
      else 0)"
proof -
  define p where "p = life_pos (h_state h)"
  define own where "own = htlc_state_owner (h_state h)"
  have c: "state_has (h_state h) (HTLC_FLAG v HTLC_F_COMMITTED) \<longleftrightarrow>
      (if v = own then 3 \<le> p \<and> p \<le> 5 else 1 \<le> p \<and> p \<le> 7)"
    using committed_positions [of "h_state h"] neq_side_iff [of v own] by (auto simp: p_def own_def)
  have c': "state_has t (HTLC_FLAG v HTLC_F_COMMITTED) \<longleftrightarrow>
      (if v = own then 3 \<le> Suc p \<and> Suc p \<le> 5 else 1 \<le> Suc p \<and> Suc p \<le> 7)"
    using committed_positions [of t] neq_side_iff [of v own] succ_pos [OF t]
    by (auto simp: p_def own_def)
  have h': "htlc_owner h' = own" "htlc_owner h = own" "hpos h' = Suc p" "hpos h = p" "h_r h' = h_r h"
      "hamt h' = hamt h"
    using succ_pos [OF t] by (simp_all add: h'_def htlc_owner_def hpos_def p_def own_def)
  show ?thesis
    unfolding c c' adj_def contrib_def h'
    by (cases v; cases s; cases own; cases "h_r h") (auto simp: not_le)
qed

section \<open>The loop over the HTLCs\<close>

text \<open>What an event makes of one HTLC.\<close>

definition advance :: "htlc_state list \<Rightarrow> htlc \<Rightarrow> htlc" where
  "advance S h =
     (if h_state h \<in> set S
      then case same_owner_succ (h_state h) of Some t \<Rightarrow> h\<lparr>h_state := t\<rparr> | None \<Rightarrow> h
      else h)"

lemma advance_keeps [simp]:
  "h_lane (advance S h) = h_lane h" "hamt (advance S h) = hamt h" "h_r (advance S h) = h_r h"
  "h_id (advance S h) = h_id h" "h_amount (advance S h) = h_amount h"
  by (simp_all add: advance_def split: option.splits)

lemma advance_owner [simp]: "htlc_owner (advance S h) = htlc_owner h"
  by (auto simp: advance_def htlc_owner_def succ_pos split: option.splits)

lemma advance_pos:
  "hpos (advance S h) =
     (if h_state h \<in> set S \<and> same_owner_succ (h_state h) \<noteq> None then Suc (hpos h) else hpos h)"
  by (auto simp: advance_def hpos_def succ_pos split: option.splits)

lemma lane_sum_append [simp]: "lane_sum g l (hs @ gs) = lane_sum g l hs + lane_sum g l gs"
  by (simp add: lane_sum_def)

lemma lane_sum_split: "lane_sum g l hs = lane_sum g l (filter P hs) + lane_sum g l (filter (\<lambda>h. \<not> P h) hs)"
  by (induction hs) auto

lemma lane_sum_cong: "(\<And>h. h \<in> set hs \<Longrightarrow> g h = f h) \<Longrightarrow> lane_sum g l hs = lane_sum f l hs"
  by (induction hs) auto

lemma lane_sum_mono: "(\<And>h. h \<in> set hs \<Longrightarrow> g h \<le> f h) \<Longrightarrow> lane_sum g l hs \<le> lane_sum f l hs"
  by (induction hs) (auto simp: add_mono)

lemma lane_sum_map_advance: "lane_sum g l (map (advance S) hs) = lane_sum (g \<circ> advance S) l hs"
  by (induction hs) auto

lemma lane_sum_plus: "lane_sum (\<lambda>h. g h + f h) l hs = lane_sum g l hs + lane_sum f l hs"
  by (induction hs) auto

lemma lane_sum_nonneg: "(\<And>h. h \<in> set hs \<Longrightarrow> 0 \<le> g h) \<Longrightarrow> 0 \<le> lane_sum g l hs"
  by (induction hs) auto

text \<open>One step moves one lane's balances by the change of the contribution.\<close>

lemma htlc_incstate_effect:
  assumes "same_owner_succ (h_state h) \<noteq> None" "h_state h \<in> set S" "unat (h_lane h) < length bals"
  obtains bals' where "htlc_incstate h v bals = Some (advance S h, bals')" "length bals' = length bals"
    "\<And>l s. l < length bals \<Longrightarrow> (bals' ! l) s = (bals ! l) s
        + (if unat (h_lane h) = l then of_int (adj v s (advance S h) - adj v s h) else 0)"
proof -
  obtain t where t: "same_owner_succ (h_state h) = Some t" using assms(1) by blast
  define h' where "h' = h\<lparr>h_state := t\<rparr>"
  define f where "f = (\<lambda>(b :: lane_owed) s.
      if \<not> state_has (h_state h) (HTLC_FLAG v HTLC_F_COMMITTED) \<and> state_has t (HTLC_FLAG v HTLC_F_COMMITTED)
      then balance_add_htlc (b s) h' s
      else if state_has (h_state h) (HTLC_FLAG v HTLC_F_COMMITTED) \<and> \<not> state_has t (HTLC_FLAG v HTLC_F_COMMITTED)
      then balance_remove_htlc (b s) h' s else b s)"
  have adv: "advance S h = h'" using assms(2) t by (simp add: advance_def h'_def)
  have "h_amount h' = h_amount h" "h_lane h' = h_lane h" by (simp_all add: h'_def)
  then have f: "f b s = b s + of_int (adj v s h' - adj v s h)" for b s
    using adj_step [OF t, of v s, folded h'_def]
    by (auto simp: f_def balance_add_htlc_def balance_remove_htlc_def of_int_hamt Let_def)
  have "htlc_incstate h v bals = Some (h', bals[unat (h_lane h) := f (bals ! unat (h_lane h))])"
    unfolding htlc_incstate_def t f_def using assms(3)
    by (simp add: lane_upd_def h'_def Let_def)
  then show ?thesis
    using that [of "bals[unat (h_lane h) := f (bals ! unat (h_lane h))]"] assms(3)
    by (auto simp: adv f nth_list_update)
qed

text \<open>The whole loop.\<close>

lemma change_htlcs_loop_effect:
  assumes "\<forall>st \<in> set S. same_owner_succ st \<noteq> None"
    and "\<forall>h \<in> set hs. \<not> htlc_is_dead h \<and> unat (h_lane h) < length bals"
  shows "\<exists>bals' fl. change_htlcs_loop v S hs bals =
       Some (filter (\<lambda>h. \<not> htlc_is_dead h) (map (advance S) hs),
             map (advance S) (filter (\<lambda>h. h_state h \<in> set S) hs), bals', fl)
     \<and> length bals' = length bals
     \<and> (\<forall>l s. l < length bals \<longrightarrow> (bals' ! l) s = (bals ! l) s
          + of_int (lane_sum (adj v s) l (map (advance S) hs) - lane_sum (adj v s) l hs))"
  using assms(2)
proof (induction hs arbitrary: bals)
  case (Cons h hs)
  show ?case
  proof (cases "h_state h \<in> set S")
    case True
    have l: "unat (h_lane h) < length bals" using Cons.prems by simp
    obtain b1 where b1: "htlc_incstate h v bals = Some (advance S h, b1)" "length b1 = length bals"
      and e1: "\<And>l s. l < length bals \<Longrightarrow> (b1 ! l) s = (bals ! l) s
        + (if unat (h_lane h) = l then of_int (adj v s (advance S h) - adj v s h) else 0)"
      using htlc_incstate_effect [of h S bals v] True assms(1) l by metis
    from Cons.IH [of b1] Cons.prems b1(2) obtain b2 fl where
      "change_htlcs_loop v S hs b1 = Some (filter (\<lambda>h. \<not> htlc_is_dead h) (map (advance S) hs),
             map (advance S) (filter (\<lambda>h. h_state h \<in> set S) hs), b2, fl)" "length b2 = length bals"
      "\<forall>l s. l < length bals \<longrightarrow> (b2 ! l) s = (b1 ! l) s
          + of_int (lane_sum (adj v s) l (map (advance S) hs) - lane_sum (adj v s) l hs)"
      by auto
    then show ?thesis using True b1(1) e1 by (auto simp: algebra_simps)
  next
    case False
    then have "advance S h = h" by (simp add: advance_def)
    moreover from Cons.IH [of bals] Cons.prems obtain b2 fl where
      "change_htlcs_loop v S hs bals = Some (filter (\<lambda>h. \<not> htlc_is_dead h) (map (advance S) hs),
             map (advance S) (filter (\<lambda>h. h_state h \<in> set S) hs), b2, fl)" "length b2 = length bals"
      "\<forall>l s. l < length bals \<longrightarrow> (b2 ! l) s = (bals ! l) s
          + of_int (lane_sum (adj v s) l (map (advance S) hs) - lane_sum (adj v s) l hs)"
      by auto
    ultimately show ?thesis using False Cons.prems by auto
  qed
qed simp

section \<open>One event\<close>

text \<open>A balance by view, lane and side, as its 64 bits, and the lanes there are.\<close>

definition bal :: "channel \<Rightarrow> side \<Rightarrow> nat \<Rightarrow> side \<Rightarrow> u64" where
  "bal ch v l s = millisatoshis ((view_amounts ch v ! l) s)"

definition nlanes :: "channel \<Rightarrow> nat" where
  "nlanes ch = 1 + length (sym_lane_bal ch)"

lemma length_view_amounts [simp]: "length (view_amounts ch v) = nlanes ch"
  by (simp add: view_amounts_def nlanes_def)

lemma both_to_balance_Some:
  "both_sides to_balance b = Some w \<longleftrightarrow> (\<forall>s. 0 \<le> sint (millisatoshis (b s)) \<and> w s = millisatoshis (b s))"
  by (auto simp: both_sides_def to_balance_def bind_eq_Some_conv all_sides_iff fun_eq_iff)

lemma both_ok_Some: "both_ok w = Some b \<longleftrightarrow> (\<forall>s. 0 \<le> sint (w s) \<and> b s = AMOUNT_MSAT (w s))"
  by (auto simp: both_ok_def balance_ok_def bind_eq_Some_conv all_sides_iff fun_eq_iff not_less)

lemma load_balances:
  "map_run (both_sides to_balance) (view_amounts ch v) = Some ws \<longleftrightarrow>
     length ws = nlanes ch \<and> (\<forall>l < nlanes ch. \<forall>s. 0 \<le> sint (bal ch v l s) \<and> (ws ! l) s = bal ch v l s)"
  by (auto simp: map_run_Some list_all2_conv_all_nth both_to_balance_Some bal_def)

lemma load_balances_ex:
  "(\<exists>ws. map_run (both_sides to_balance) (view_amounts ch v) = Some ws) \<longleftrightarrow>
     (\<forall>l < nlanes ch. \<forall>s. 0 \<le> sint (bal ch v l s))"
  unfolding load_balances
  by (auto intro: exI [of _ "map (\<lambda>l. bal ch v l) [0 ..< nlanes ch]"])

lemma store_balances:
  "map_run both_ok ws = Some amts \<longleftrightarrow>
     length amts = length ws \<and>
     (\<forall>l < length ws. \<forall>s. 0 \<le> sint ((ws ! l) s) \<and> (amts ! l) s = AMOUNT_MSAT ((ws ! l) s))"
  by (auto simp: map_run_Some list_all2_conv_all_nth both_ok_Some)

lemma store_balances_ex:
  "(\<exists>amts. map_run both_ok ws = Some amts) \<longleftrightarrow> (\<forall>l < length ws. \<forall>s. 0 \<le> sint ((ws ! l) s))"
  unfolding store_balances
  by (auto intro: exI [of _ "map (\<lambda>b s. AMOUNT_MSAT (b s)) ws"])

lemma view_amounts_put:
  assumes "length amts = nlanes ch"
  shows "view_amounts (put_view_amounts v amts ch) w = (if w = v then amts else view_amounts ch w)"
    "nlanes (put_view_amounts v amts ch) = nlanes ch"
proof -
  obtain a as where a: "amts = a # as" "length as = length (sym_lane_bal ch)"
    using assms by (cases amts) (auto simp: nlanes_def)
  have z: "map (\<lambda>b. b w) (map (\<lambda>(b, a). b(v := a)) (zip bs as)) = (if w = v then as else map (\<lambda>b. b w) bs)"
    if "length as = length bs" for as :: "(side \<Rightarrow> amount_msat) list" and bs
    using that by (induction as bs rule: list_induct2) auto
  then show "view_amounts (put_view_amounts v amts ch) w = (if w = v then amts else view_amounts ch w)"
    using a by (simp add: view_amounts_def put_view_amounts_def z [OF a(2)])
  show "nlanes (put_view_amounts v amts ch) = nlanes ch"
    using a by (simp add: nlanes_def put_view_amounts_def)
qed

lemma view_amounts_cong [simp]:
  "view_amounts (ch\<lparr>htlcs := hs\<rparr>) v = view_amounts ch v" "nlanes (ch\<lparr>htlcs := hs\<rparr>) = nlanes ch"
  "view_amounts (ch\<lparr>chan_swap := sw\<rparr>) v = view_amounts ch v" "nlanes (ch\<lparr>chan_swap := sw\<rparr>) = nlanes ch"
  "view_amounts (ch\<lparr>channel_fee_states := fs\<rparr>) v = view_amounts ch v"
  "nlanes (ch\<lparr>channel_fee_states := fs\<rparr>) = nlanes ch"
  "view_amounts (ch\<lparr>blockheight_states := b\<rparr>) v = view_amounts ch v"
  "nlanes (ch\<lparr>blockheight_states := b\<rparr>) = nlanes ch"
  by (simp_all add: view_amounts_def nlanes_def)

subsection \<open>Swaps\<close>

text \<open>What a swap adds to the balance of one side in one lane, once it is committed.\<close>

definition swap_move :: "sym_swap \<Rightarrow> nat \<Rightarrow> side \<Rightarrow> int" where
  "swap_move sw l s =
     (let owner = htlc_state_owner (swap_state sw);
          give = int (msat (swap_give sw)); take = int (msat (swap_take sw))
      in (if l = unat (give_lane sw) then if s = owner then - give else give else 0)
       + (if l = unat (take_lane sw) then if s = owner then take else - take else 0))"

definition swap_adj :: "side \<Rightarrow> nat \<Rightarrow> side \<Rightarrow> sym_swap option \<Rightarrow> int" where
  "swap_adj v l s swap =
     (case swap of None \<Rightarrow> 0
      | Some sw \<Rightarrow> if state_has (swap_state sw) (HTLC_FLAG v HTLC_F_COMMITTED) then swap_move sw l s else 0)"

text \<open>A swap in flight is being added, between lanes of the channel.\<close>

definition swap_wf :: "nat \<Rightarrow> sym_swap option \<Rightarrow> bool" where
  "swap_wf n swap = (case swap of None \<Rightarrow> True
     | Some sw \<Rightarrow> life_pos (swap_state sw) \<le> 4 \<and> unat (give_lane sw) < n \<and> unat (take_lane sw) < n)"

definition advance_swap :: "htlc_state list \<Rightarrow> sym_swap option \<Rightarrow> sym_swap option" where
  "advance_swap S swap = map_option (\<lambda>sw.
     if swap_state sw \<in> set S
     then case htlc_state_succ (swap_state sw) of Some t \<Rightarrow> sw\<lparr>swap_state := t\<rparr> | None \<Rightarrow> sw
     else sw) swap"

lemma balance_swap_effect:
  assumes "unat (give_lane sw) < length bals" "unat (take_lane sw) < length bals"
  obtains bals' where "balance_swap bals sw = Some bals'" "length bals' = length bals"
    "\<And>l s. l < length bals \<Longrightarrow> (bals' ! l) s = (bals ! l) s + of_int (swap_move sw l s)"
proof -
  define g t where "g = unat (give_lane sw)" and "t = unat (take_lane sw)"
  have r: "g < length bals" "t < length bals" using assms by (simp_all add: g_def t_def)
  obtain b' where b': "balance_swap bals sw = Some b'"
    using r by (simp add: balance_swap_def Let_def lane_upd_def g_def t_def)
  have "length b' = length bals"
    using b' r by (auto simp: balance_swap_def Let_def lane_upd_def bind_eq_Some_conv split: if_splits)
  moreover have "(b' ! l) s = (bals ! l) s + of_int (swap_move sw l s)" if "l < length bals" for l s
    using b' r that unfolding balance_swap_def lane_upd_def swap_move_def Let_def g_def [symmetric] t_def [symmetric]
    by (cases s; cases "htlc_state_owner (swap_state sw)")
      (auto simp: bind_eq_Some_conv nth_list_update algebra_simps split: if_splits)
  ultimately show ?thesis using that b' by blast
qed

lemma succ_ex: "same_owner_succ st = Some t \<Longrightarrow> htlc_state_succ st = Some t"
  by (simp add: same_owner_succ_iff)

lemma change_swap_effect:
  assumes S: "\<forall>st \<in> set S. same_owner_succ st \<noteq> None" and wf: "swap_wf (length bals) swap"
  shows "\<exists>bals' fl. change_swap v S swap bals = Some (advance_swap S swap, bals', fl)
     \<and> length bals' = length bals
     \<and> (\<forall>l s. l < length bals \<longrightarrow>
          (bals' ! l) s = (bals ! l) s + of_int (swap_adj v l s (advance_swap S swap) - swap_adj v l s swap))"
proof (cases swap)
  case (Some sw)
  show ?thesis
  proof (cases "swap_state sw \<in> set S")
    case True
    then obtain t where t: "same_owner_succ (swap_state sw) = Some t" using S by blast
    let ?sw = "sw\<lparr>swap_state := t\<rparr>" and ?c = "HTLC_FLAG v HTLC_F_COMMITTED"
    have adv: "advance_swap S swap = Some ?sw"
      using Some True succ_ex [OF t] by (simp add: advance_swap_def)
    have mv: "swap_move ?sw l s = swap_move sw l s" for l s
      using succ_pos(2) [OF t] by (simp add: swap_move_def)
    have stays: "state_has (swap_state sw) ?c \<Longrightarrow> state_has t ?c"
      using wf Some succ_pos [OF t] committed_positions [of "swap_state sw"] committed_positions [of t]
      by (cases "v = htlc_state_owner t") (auto simp: swap_wf_def neq_side_iff)
    obtain b' where b': "balance_swap bals ?sw = Some b'" "length b' = length bals"
      "\<And>l s. l < length bals \<Longrightarrow> (b' ! l) s = (bals ! l) s + of_int (swap_move ?sw l s)"
      using balance_swap_effect [of ?sw bals] wf Some by (auto simp: swap_wf_def)
    then show ?thesis
      unfolding adv unfolding Some change_swap_def
      using True succ_ex [OF t] mv stays
      by (auto simp: Let_def swap_adj_def)
  next
    case False
    then show ?thesis using Some by (simp add: change_swap_def advance_swap_def)
  qed
qed (simp add: change_swap_def advance_swap_def)

text \<open>The fee and blockheight loop runs on any channel that has blockheights.\<close>

lemma fee_incstate_runs: "same_owner_succ st \<noteq> None \<Longrightarrow> fee_incstate fs st \<noteq> None"
  using fee_upd.inc_stops [of fs st] by (auto simp: fee_incstate_def bind_eq_None_conv)

lemma blockheight_incstate_runs:
  "same_owner_succ st \<noteq> None \<Longrightarrow> \<exists>b hts'. blockheight_incstate (Some hts) st = Some (b, Some hts')"
  using height_upd.inc_stops [of hts st] by (fastforce simp: blockheight_incstate_def)

lemma change_fees_runs:
  assumes "\<forall>st \<in> set ss. same_owner_succ st \<noteq> None"
  shows "\<exists>fs' hts' fl. change_fees ss fs (Some hts) = Some (fs', Some hts', fl)"
  using assms
proof (induction ss arbitrary: fs hts)
  case (Cons st ss)
  obtain t where "same_owner_succ st = Some t" using Cons.prems by auto
  moreover obtain b1 fs1 where "fee_incstate fs st = Some (b1, fs1)"
    using fee_incstate_runs [of st fs] Cons.prems by auto
  moreover obtain b2 hts1 where "blockheight_incstate (Some hts) st = Some (b2, Some hts1)"
    using blockheight_incstate_runs [of st hts] Cons.prems by auto
  moreover obtain fs2 hts2 fl where "change_fees ss fs1 (Some hts1) = Some (fs2, Some hts2, fl)"
    using Cons by fastforce
  ultimately show ?case by simp
qed simp

subsection \<open>The event\<close>

definition chan_wf :: "channel \<Rightarrow> bool" where
  "chan_wf ch \<longleftrightarrow> (\<forall>h \<in> set (htlcs ch). \<not> htlc_is_dead h \<and> unat (h_lane h) < nlanes ch)
     \<and> swap_wf (nlanes ch) (chan_swap ch) \<and> blockheight_states ch \<noteq> None
     \<and> length (sym_lane_bal ch) = length (lanes_of ch)"

text \<open>What the event adds to a balance of the view it changes.\<close>

definition event_delta :: "channel \<Rightarrow> side \<Rightarrow> htlc_state list \<Rightarrow> nat \<Rightarrow> side \<Rightarrow> int" where
  "event_delta ch v S l s =
     lane_sum (adj v s) l (map (advance S) (htlcs ch)) - lane_sum (adj v s) l (htlcs ch)
     + (swap_adj v l s (advance_swap S (chan_swap ch)) - swap_adj v l s (chan_swap ch))"

lemma swap_wf_advance:
  assumes "\<forall>st \<in> set S. life_pos st \<le> 4 \<longrightarrow> life_pos st < 4" "\<forall>st \<in> set S. same_owner_succ st \<noteq> None"
  shows "swap_wf n swap \<Longrightarrow> swap_wf n (advance_swap S swap)"
  using assms succ_pos succ_ex
  by (fastforce simp: swap_wf_def advance_swap_def split: option.splits)

lemma put_view_amounts_kept:
  "sym_lanes (put_view_amounts v amts ch) = sym_lanes ch" "opener (put_view_amounts v amts ch) = opener ch"
  "config (put_view_amounts v amts ch) = config ch"
  "chan_swap_req (put_view_amounts v amts ch) = chan_swap_req ch"
  "credit_floor (put_view_amounts v amts ch) = credit_floor ch"
  "lowest_splice_amnt (view (put_view_amounts v amts ch) w) = lowest_splice_amnt (view ch w)"
  by (simp_all add: put_view_amounts_def)

lemma change_htlcs_effect:
  assumes S: "\<forall>st \<in> set S. same_owner_succ st \<noteq> None" and wf: "chan_wf ch"
  shows "(change_htlcs ch v S \<noteq> None \<longleftrightarrow>
      (\<forall>l < nlanes ch. \<forall>s. 0 \<le> sint (bal ch v l s) \<and> 0 \<le> sint (bal ch v l s + of_int (event_delta ch v S l s))))
    \<and> (\<forall>c ch' changed. change_htlcs ch v S = Some (c, ch', changed) \<longrightarrow>
         htlcs ch' = filter (\<lambda>h. \<not> htlc_is_dead h) (map (advance S) (htlcs ch))
       \<and> changed = map (advance S) (filter (\<lambda>h. h_state h \<in> set S) (htlcs ch))
       \<and> chan_swap ch' = advance_swap S (chan_swap ch)
       \<and> nlanes ch' = nlanes ch
       \<and> blockheight_states ch' \<noteq> None
       \<and> sym_lanes ch' = sym_lanes ch \<and> opener ch' = opener ch \<and> config ch' = config ch
       \<and> chan_swap_req ch' = chan_swap_req ch \<and> credit_floor ch' = credit_floor ch
       \<and> (\<forall>w. lowest_splice_amnt (view ch' w) = lowest_splice_amnt (view ch w))
       \<and> (\<forall>l < nlanes ch. \<forall>s w. bal ch' w l s =
            (if w = v then bal ch v l s + of_int (event_delta ch v S l s) else bal ch w l s)))"
proof -
  obtain fs hts fl where fees: "change_fees (rev S) (channel_fee_states ch) (blockheight_states ch) = Some (fs, Some hts, fl)"
    using change_fees_runs [of "rev S"] S wf by (fastforce simp: chan_wf_def)
  show ?thesis
  proof (cases "\<exists>ws. map_run (both_sides to_balance) (view_amounts ch v) = Some ws")
    case True
    then obtain ws where ws: "map_run (both_sides to_balance) (view_amounts ch v) = Some ws" by blast
    have wsl: "length ws = nlanes ch"
      and w: "\<And>l s. l < nlanes ch \<Longrightarrow> 0 \<le> sint (bal ch v l s) \<and> (ws ! l) s = bal ch v l s"
      using ws by (auto simp: load_balances)
    have wf': "\<forall>h \<in> set (htlcs ch). \<not> htlc_is_dead h \<and> unat (h_lane h) < length ws" "swap_wf (length ws) (chan_swap ch)"
      using wf wsl by (auto simp: chan_wf_def)
    from change_htlcs_loop_effect [OF S wf'(1), of v] obtain b1 f1 where
      l1: "change_htlcs_loop v S (htlcs ch) ws =
        Some (filter (\<lambda>h. \<not> htlc_is_dead h) (map (advance S) (htlcs ch)),
              map (advance S) (filter (\<lambda>h. h_state h \<in> set S) (htlcs ch)), b1, f1)"
      and b1: "length b1 = length ws" "\<And>l s. l < length ws \<Longrightarrow> (b1 ! l) s = (ws ! l) s
          + of_int (lane_sum (adj v s) l (map (advance S) (htlcs ch)) - lane_sum (adj v s) l (htlcs ch))"
      by auto
    from change_swap_effect [OF S, of b1 "chan_swap ch" v] wf'(2) b1(1) obtain b2 f2 where
      l2: "change_swap v S (chan_swap ch) b1 = Some (advance_swap S (chan_swap ch), b2, f2)"
      and b2: "length b2 = length ws" "\<And>l s. l < length ws \<Longrightarrow>
          (b2 ! l) s = (b1 ! l) s
            + of_int (swap_adj v l s (advance_swap S (chan_swap ch)) - swap_adj v l s (chan_swap ch))"
      by auto
    have b2': "(b2 ! l) s = bal ch v l s + of_int (event_delta ch v S l s)" if "l < nlanes ch" for l s
      using that wsl w [OF that, of s] by (simp add: b2(2) b1(2) event_delta_def)
    have run: "change_htlcs ch v S = do { amts \<leftarrow> map_run both_ok b2;
        Some (f1 OR f2 OR fl, (put_view_amounts v amts ch)
           \<lparr>htlcs := filter (\<lambda>h. \<not> htlc_is_dead h) (map (advance S) (htlcs ch)),
            chan_swap := advance_swap S (chan_swap ch), channel_fee_states := fs, blockheight_states := Some hts\<rparr>,
           map (advance S) (filter (\<lambda>h. h_state h \<in> set S) (htlcs ch))) }"
      by (simp add: change_htlcs_def ws l1 l2 fees)
    have ex: "change_htlcs ch v S \<noteq> None \<longleftrightarrow> (\<exists>amts. map_run both_ok b2 = Some amts)"
      by (auto simp: run bind_eq_None_conv)
    have "(l < nlanes ch \<longrightarrow>
          bal ch' x l s = (if x = v then bal ch v l s + of_int (event_delta ch v S l s) else bal ch x l s))
        \<and> nlanes ch' = nlanes ch"
      if a: "map_run both_ok b2 = Some amts" and ch':
        "ch' = (put_view_amounts v amts ch)
           \<lparr>htlcs := filter (\<lambda>h. \<not> htlc_is_dead h) (map (advance S) (htlcs ch)),
            chan_swap := advance_swap S (chan_swap ch), channel_fee_states := fs, blockheight_states := Some hts\<rparr>"
      for amts ch' x l s
    proof -
      have "length amts = nlanes ch" using a b2(1) wsl by (simp add: store_balances)
      then show ?thesis
        using a b2(1) wsl unfolding ch' bal_def [of _ x] bal_def [of ch v]
        by (simp add: view_amounts_put store_balances b2' bal_def)
    qed
    then show ?thesis
      unfolding ex store_balances_ex b2(1) wsl
      using b2' w run by (auto simp: bind_eq_Some_conv put_view_amounts_kept)
  next
    case False
    then have "change_htlcs ch v S = None" by (simp add: change_htlcs_def)
    with False show ?thesis by (auto simp: load_balances_ex)
  qed
qed

section \<open>The four commitment events\<close>

text \<open>
  Both views show the same base, each with the HTLCs and the swap as it has committed them: the
  balance without anything in flight, on which the two parties agree.
\<close>

definition agrees :: "(nat \<Rightarrow> side \<Rightarrow> int) \<Rightarrow> channel \<Rightarrow> bool" where
  "agrees base ch \<longleftrightarrow> (\<forall>w l t. l < nlanes ch \<longrightarrow>
     bal ch w l t = of_int (base l t + lane_sum (adj w t) l (htlcs ch) + swap_adj w l t (chan_swap ch)))"

text \<open>
  An event concerns the party \<open>s\<close> that sends the commitment, or has the commitment revoked that it
  sent before. It changes the balances of the view \<open>v\<close>, and moves the HTLCs that \<open>s\<close> owns from the
  positions \<open>P\<close> of their life, and those of the other side from the positions \<open>Q\<close>. In the other
  view no HTLC is committed or removed.
\<close>

locale chan_event =
  fixes s v :: side and P Q :: "nat set" and S :: "htlc_state list"
  assumes states: "st \<in> set S \<longleftrightarrow> (if htlc_state_owner st = s then life_pos st \<in> P else life_pos st \<in> Q)"
    and early: "p \<in> P \<union> Q \<Longrightarrow> p < 9 \<and> p \<noteq> 4"
    and one_view: "w \<noteq> v \<Longrightarrow> {2, 5} \<inter> (if w = s then P else Q) = {} \<and> {0, 7} \<inter> (if w = s then Q else P) = {}"
begin

text \<open>The position whose HTLCs are at least at \<open>a\<close> after the event.\<close>

definition prior :: "nat set \<Rightarrow> nat \<Rightarrow> nat" where
  "prior X a = (if 0 < a \<and> a - 1 \<in> X then a - 1 else a)"

lemma succ: "st \<in> set S \<Longrightarrow> same_owner_succ st \<noteq> None"
  using states [of st] early [of "life_pos st"]
  by (cases st) (auto simp: same_owner_succ_iff htlc_state_owner_def state_lt_iff life_pos_def split: if_splits)

lemma all_succ: "\<forall>st \<in> set S. same_owner_succ st \<noteq> None"
  using succ by blast

lemma swap_wf_event: "swap_wf n swap \<Longrightarrow> swap_wf n (advance_swap S swap)"
proof (rule swap_wf_advance)
  show "\<forall>st \<in> set S. life_pos st \<le> 4 \<longrightarrow> life_pos st < 4"
    using states early by (metis UnI1 UnI2 le_neq_implies_less)
qed (use succ in auto)

lemma hpos_event:
  "hpos (advance S h) =
     (if hpos h \<in> (if htlc_owner h = s then P else Q) then Suc (hpos h) else hpos h)"
  unfolding advance_pos using states [of "h_state h"] succ [of "h_state h"]
  by (auto simp: htlc_owner_def hpos_def)

lemma prior_le: "a \<le> (if p \<in> X then Suc p else p) \<longleftrightarrow> prior X a \<le> p"
  by (cases "a = Suc p") (auto simp: prior_def)

lemma contrib_event:
  "contrib a f c t (advance S h) =
     (if t = s then contrib (prior P a) (prior P f) (prior Q c) t h
      else contrib (prior Q a) (prior Q f) (prior P c) t h)"
  using prior_le [of a "hpos h"] prior_le [of f "hpos h"] prior_le [of c "hpos h"] neq_side_iff [of t s] neq_side_iff [of "htlc_owner h" s]
  unfolding contrib_def hpos_event by auto

text \<open>The HTLCs the event removes, and what they leave.\<close>

definition gone :: "channel \<Rightarrow> htlc list" where
  "gone ch = filter htlc_is_dead (map (advance S) (htlcs ch))"

definition rebase :: "channel \<Rightarrow> (nat \<Rightarrow> side \<Rightarrow> int) \<Rightarrow> nat \<Rightarrow> side \<Rightarrow> int" where
  "rebase ch base l t = base l t + lane_sum (settle t) l (gone ch)"

lemma contrib_dead:
  "htlc_is_dead h \<Longrightarrow> a \<le> 9 \<Longrightarrow> f \<le> 9 \<Longrightarrow> c \<le> 9 \<Longrightarrow> contrib a f c t h = settle t h"
  by (auto simp: htlc_is_dead_def settle_def contrib_def hpos_def life_pos_def)

lemma lane_sum_event:
  assumes "\<And>h. htlc_is_dead h \<Longrightarrow> g h = settle t h"
  shows "lane_sum (settle t) l (gone ch)
       + lane_sum g l (filter (\<lambda>h. \<not> htlc_is_dead h) (map (advance S) (htlcs ch)))
     = lane_sum (g \<circ> advance S) l (htlcs ch)"
proof -
  have "lane_sum (settle t) l (gone ch) = lane_sum g l (gone ch)"
    by (rule lane_sum_cong) (auto simp: gone_def assms)
  then show ?thesis
    using lane_sum_split [of g l "map (advance S) (htlcs ch)" htlc_is_dead]
    by (simp add: gone_def lane_sum_map_advance)
qed

text \<open>A swap is committed in its owner's view from position 3, in the other view from 1.\<close>

lemma swap_event:
  assumes "swap_wf n (Some sw)"
  shows "\<exists>sw'. advance_swap S (Some sw) = Some sw'
     \<and> htlc_state_owner (swap_state sw') = htlc_state_owner (swap_state sw)
     \<and> (\<forall>l t. swap_move sw' l t = swap_move sw l t)
     \<and> life_pos (swap_state sw') =
         (if life_pos (swap_state sw) \<in> (if htlc_state_owner (swap_state sw) = s then P else Q)
          then Suc (life_pos (swap_state sw)) else life_pos (swap_state sw))"
proof (cases "swap_state sw \<in> set S")
  case True
  then obtain t where t: "same_owner_succ (swap_state sw) = Some t" using succ by blast
  show ?thesis
    using True states [of "swap_state sw"] succ_ex [OF t] succ_pos [OF t]
    by (auto simp: advance_swap_def swap_move_def split: if_splits)
next
  case False
  then show ?thesis using states [of "swap_state sw"] by (auto simp: advance_swap_def split: if_splits)
qed

lemma swap_adj_pos:
  assumes "swap_wf n (Some sw)"
  shows "swap_adj w l t (Some sw) =
     (if (if w = htlc_state_owner (swap_state sw) then 3 else 1) \<le> life_pos (swap_state sw)
      then swap_move sw l t else 0)"
  using assms committed_positions [of "swap_state sw"] neq_side_iff [of w "htlc_state_owner (swap_state sw)"]
  by (auto simp: swap_adj_def swap_wf_def)

lemma swap_adj_event:
  assumes "swap_wf n swap" and "2 \<notin> (if w = s then P else Q)" "0 \<notin> (if w = s then Q else P)"
  shows "swap_adj w l t (advance_swap S swap) = swap_adj w l t swap"
proof (cases swap)
  case (Some sw)
  obtain sw' where sw': "advance_swap S swap = Some sw'"
    and eqs: "htlc_state_owner (swap_state sw') = htlc_state_owner (swap_state sw)"
      "swap_move sw' l t = swap_move sw l t"
      "life_pos (swap_state sw') =
         (if life_pos (swap_state sw) \<in> (if htlc_state_owner (swap_state sw) = s then P else Q)
          then Suc (life_pos (swap_state sw)) else life_pos (swap_state sw))"
    using swap_event assms(1) Some by blast
  have wf': "swap_wf n (Some sw')" using swap_wf_event [OF assms(1)] sw' by simp
  define own p where "own = htlc_state_owner (swap_state sw)" and "p = life_pos (swap_state sw)"
  show ?thesis
    using swap_adj_pos [OF wf', of w l t] swap_adj_pos [OF assms(1) [unfolded Some], of w l t] assms(2,3)
    unfolding Some [symmetric] sw' [symmetric] eqs own_def [symmetric] p_def [symmetric]
    by (cases "p = 0"; cases "p = 2"; cases w; cases s; cases own) auto
qed (simp add: advance_swap_def swap_adj_def)

lemma adj_other_view: "w \<noteq> v \<Longrightarrow> adj w t (advance S h) = adj w t h"
  using one_view [of w] by (cases w; cases t; cases s) (auto simp: adj_def contrib_event prior_def)

lemma swap_other_view:
  "swap_wf n swap \<Longrightarrow> w \<noteq> v \<Longrightarrow> swap_adj w l t (advance_swap S swap) = swap_adj w l t swap"
  using one_view [of w] by (intro swap_adj_event) auto

lemma agrees_event:
  assumes "change_htlcs ch v S = Some (c, ch', changed)" "chan_wf ch" "agrees base ch"
  shows "chan_wf ch' \<and> agrees (rebase ch base) ch'"
proof -
  have e: "htlcs ch' = filter (\<lambda>h. \<not> htlc_is_dead h) (map (advance S) (htlcs ch))"
    "chan_swap ch' = advance_swap S (chan_swap ch)" "nlanes ch' = nlanes ch"
    "blockheight_states ch' \<noteq> None" "sym_lanes ch' = sym_lanes ch"
    "\<And>l t w. l < nlanes ch \<Longrightarrow> bal ch' w l t =
        (if w = v then bal ch v l t + of_int (event_delta ch v S l t) else bal ch w l t)"
    using change_htlcs_effect [OF all_succ assms(2), of v] assms(1) by auto
  have wf: "swap_wf (nlanes ch) (chan_swap ch)" using assms(2) by (simp add: chan_wf_def)
  have sum: "lane_sum (settle t) l (gone ch) + lane_sum (adj w t) l (htlcs ch')
      = lane_sum (adj w t \<circ> advance S) l (htlcs ch)" for w t l
    unfolding e(1) by (rule lane_sum_event) (rule adj_dead)
  have keep: "lane_sum (adj w t \<circ> advance S) l (htlcs ch) = lane_sum (adj w t) l (htlcs ch)"
    if "w \<noteq> v" for w t l using adj_other_view [OF that] by (simp add: comp_def)
  have "bal ch' w l t = of_int (rebase ch base l t + lane_sum (adj w t) l (htlcs ch') + swap_adj w l t (chan_swap ch'))"
    if l: "l < nlanes ch" for w l t
  proof -
    have "bal ch w l t = of_int (base l t + lane_sum (adj w t) l (htlcs ch) + swap_adj w l t (chan_swap ch))"
      using assms(3) l by (simp add: agrees_def)
    then have "bal ch' w l t = of_int (base l t + lane_sum (adj w t \<circ> advance S) l (htlcs ch)
        + swap_adj w l t (chan_swap ch'))"
      using e(6) [OF l, of w t] keep [of w t l] swap_other_view [OF wf, of w l t] e(2)
      by (cases "w = v") (simp_all add: event_delta_def lane_sum_map_advance)
    then show ?thesis using sum [of t l w] by (simp add: rebase_def algebra_simps)
  qed
  moreover have "chan_wf ch'"
    using assms(2) swap_wf_event [OF wf] e(1-5) by (auto simp: chan_wf_def nlanes_def lanes_of_def)
  ultimately show ?thesis using e(3) by (simp add: agrees_def)
qed

end

locale commit_event = chan_event s "other s" "{0, 7}" "{2, 5}" S for s S

locale revoke_event = chan_event s s "{1, 8}" "{3, 6}" S for s S
begin

lemma adj_any_view: "adj w t (advance S h) = adj w t h"
  by (auto simp: adj_def contrib_event prior_def)

lemma swap_any_view: "swap_wf n swap \<Longrightarrow> swap_adj w l t (advance_swap S swap) = swap_adj w l t swap"
  by (erule swap_adj_event) simp_all

end

interpretation sending_commit: commit_event LOCAL
  "[SENT_ADD_HTLC, SENT_REMOVE_REVOCATION, SENT_ADD_REVOCATION, SENT_REMOVE_HTLC]"
proof
  fix st
  show "st \<in> set [SENT_ADD_HTLC, SENT_REMOVE_REVOCATION, SENT_ADD_REVOCATION, SENT_REMOVE_HTLC] \<longleftrightarrow>
      (if htlc_state_owner st = LOCAL then life_pos st \<in> {0, 7} else life_pos st \<in> {2, 5})"
    by (cases st) (simp_all add: flag_simps life_pos_def)
qed (auto simp: neq_side_iff)

interpretation rcvd_commit: commit_event REMOTE
  "[RCVD_ADD_REVOCATION, RCVD_REMOVE_HTLC, RCVD_ADD_HTLC, RCVD_REMOVE_REVOCATION]"
proof
  fix st
  show "st \<in> set [RCVD_ADD_REVOCATION, RCVD_REMOVE_HTLC, RCVD_ADD_HTLC, RCVD_REMOVE_REVOCATION] \<longleftrightarrow>
      (if htlc_state_owner st = REMOTE then life_pos st \<in> {0, 7} else life_pos st \<in> {2, 5})"
    by (cases st) (simp_all add: flag_simps life_pos_def)
qed (auto simp: neq_side_iff)

interpretation rcvd_revoke: revoke_event LOCAL
  "[SENT_ADD_COMMIT, SENT_REMOVE_ACK_COMMIT, SENT_ADD_ACK_COMMIT, SENT_REMOVE_COMMIT]"
proof
  fix st
  show "st \<in> set [SENT_ADD_COMMIT, SENT_REMOVE_ACK_COMMIT, SENT_ADD_ACK_COMMIT, SENT_REMOVE_COMMIT] \<longleftrightarrow>
      (if htlc_state_owner st = LOCAL then life_pos st \<in> {1, 8} else life_pos st \<in> {3, 6})"
    by (cases st) (simp_all add: flag_simps life_pos_def)
qed (auto simp: neq_side_iff)

interpretation sending_revoke: revoke_event REMOTE
  "[RCVD_ADD_ACK_COMMIT, RCVD_REMOVE_COMMIT, RCVD_ADD_COMMIT, RCVD_REMOVE_ACK_COMMIT]"
proof
  fix st
  show "st \<in> set [RCVD_ADD_ACK_COMMIT, RCVD_REMOVE_COMMIT, RCVD_ADD_COMMIT, RCVD_REMOVE_ACK_COMMIT] \<longleftrightarrow>
      (if htlc_state_owner st = REMOTE then life_pos st \<in> {1, 8} else life_pos st \<in> {3, 6})"
    by (cases st) (simp_all add: flag_simps life_pos_def)
qed (auto simp: neq_side_iff)

section \<open>Adding and removing HTLCs\<close>

text \<open>What a result of \<^verbatim>\<open>add_htlc\<close> may be, with \<open>Q\<close> what holds if the HTLC was added.\<close>

definition add_post :: "channel \<Rightarrow> htlc \<Rightarrow> bool \<Rightarrow> add_result run \<Rightarrow> bool" where
  "add_post ch h Q r \<longleftrightarrow> (\<forall>e ch' added fee. r = Some (e, ch', added, fee) \<longrightarrow>
     (e \<noteq> CHANNEL_ERR_ADD_OK \<and> ch' = ch \<and> added = None)
     \<or> (\<exists>b. e = CHANNEL_ERR_ADD_OK \<and> ch' = ch\<lparr>htlcs := h\<lparr>h_fail_immediate := b\<rparr> # htlcs ch\<rparr>
          \<and> added = Some (h\<lparr>h_fail_immediate := b\<rparr>) \<and> Q))"

lemma add_post_fail: "e \<noteq> CHANNEL_ERR_ADD_OK \<Longrightarrow> add_post ch h Q (Some (e, ch, None, fee))"
  by (simp add: add_post_def)

lemma add_post_mark: "Q \<Longrightarrow> add_post ch h Q (Some (add_done ch (h\<lparr>h_fail_immediate := b\<rparr>) fee))"
  unfolding add_post_def add_done_def by blast

lemma add_post_done:
  assumes "\<not> h_fail_immediate h" Q
  shows "add_post ch h Q (Some (add_done ch h fee))"
proof -
  have "h\<lparr>h_fail_immediate := False\<rparr> = h" using assms(1) by (cases h) simp
  then show ?thesis using add_post_mark [OF assms(2), of ch h False] by simp
qed

lemma add_post_if: "(b \<Longrightarrow> add_post ch h Q x) \<Longrightarrow> (\<not> b \<Longrightarrow> add_post ch h Q y) \<Longrightarrow> add_post ch h Q (if b then x else y)"
  by simp

lemma add_post_some_if:
  "(b \<Longrightarrow> add_post ch h Q (Some x)) \<Longrightarrow> (\<not> b \<Longrightarrow> add_post ch h Q (Some y))
    \<Longrightarrow> add_post ch h Q (Some (if b then x else y))"
  by simp

lemma add_post_case:
  "(m = None \<Longrightarrow> add_post ch h Q x) \<Longrightarrow> (\<And>y. m = Some y \<Longrightarrow> add_post ch h Q (f y))
    \<Longrightarrow> add_post ch h Q (case m of None \<Rightarrow> x | Some y \<Rightarrow> f y)"
  by (cases m) auto

lemma add_post_some_case:
  "(m = None \<Longrightarrow> add_post ch h Q (Some x)) \<Longrightarrow> (\<And>y. m = Some y \<Longrightarrow> add_post ch h Q (Some (f y)))
    \<Longrightarrow> add_post ch h Q (Some (case m of None \<Rightarrow> x | Some y \<Rightarrow> f y))"
  by (cases m) auto

lemma add_post_bind: "(\<And>y. m = Some y \<Longrightarrow> add_post ch h Q (f y)) \<Longrightarrow> add_post ch h Q (m \<bind> f)"
  by (cases m) (auto simp: add_post_def)

lemma add_post_prod: "(\<And>a b. p = (a, b) \<Longrightarrow> add_post ch h Q (f a b)) \<Longrightarrow> add_post ch h Q (case p of (a, b) \<Rightarrow> f a b)"
  by (cases p) auto

lemmas add_post_intros =
  add_post_fail add_post_done add_post_mark add_post_if add_post_some_if add_post_case add_post_some_case
  add_post_bind add_post_prod

lemma add_checking_dust_post:
  "Q \<Longrightarrow> add_post ch h Q (add_checking_dust cp ch h committed adding removing imm fee)"
  unfolding add_checking_dust_def Let_def by (intro add_post_intros) auto

lemma check_errs_not_ok [simp]:
  "duplicate_err hs h \<noteq> Some CHANNEL_ERR_ADD_OK" "amount_limit_err cp ch h \<noteq> Some CHANNEL_ERR_ADD_OK"
  by (auto simp: duplicate_err_def amount_limit_err_def Let_def split: option.splits)

lemma add_htlc_post:
  fixes state hid amount expiry hash routing pk tlvs lane
  defines "h \<equiv> new_htlc state hid amount expiry hash routing pk tlvs lane"
  shows "add_post ch h
     (unat lane < sym_num_lanes ch \<and> expiry < SECONDS_POINT \<and> duplicate_err (htlcs ch) h = None
      \<and> amount_limit_err cp ch h = None)
     (add_htlc cp mf ch state hid amount expiry hash routing pk enforce tlvs imm lane)"
proof -
  have fresh: "\<not> h_fail_immediate h" by (simp add: h_def new_htlc_def)
  show ?thesis
    unfolding add_htlc_def Let_def h_def [symmetric]
    by (intro add_post_intros add_checking_dust_post)
      (auto simp: fresh blocks_to_abs_locktime_def not_le split: if_splits)
qed

text \<open>Whatever \<^verbatim>\<open>add_htlc\<close> answers: either an error and the same channel, or the new HTLC in it.\<close>

lemma add_htlc_result:
  assumes run: "add_htlc cp mf ch state hid amount expiry hash routing pk enforce tlvs imm lane
     = Some (e, ch', added, fee)"
  defines "h \<equiv> new_htlc state hid amount expiry hash routing pk tlvs lane"
  shows "(e \<noteq> CHANNEL_ERR_ADD_OK \<and> ch' = ch \<and> added = None)
     \<or> (\<exists>b. e = CHANNEL_ERR_ADD_OK \<and> ch' = ch\<lparr>htlcs := h\<lparr>h_fail_immediate := b\<rparr> # htlcs ch\<rparr>
          \<and> added = Some (h\<lparr>h_fail_immediate := b\<rparr>) \<and> unat lane < sym_num_lanes ch
          \<and> expiry < SECONDS_POINT \<and> htlc_get (htlcs ch) hid (htlc_state_owner state) = None
          \<and> amount_limit_err cp ch h = None)"
proof -
  have dup: "duplicate_err (htlcs ch) h = None \<Longrightarrow> htlc_get (htlcs ch) hid (htlc_state_owner state) = None"
    by (auto simp: duplicate_err_def h_def new_htlc_def htlc_owner_def split: option.splits if_splits)
  note post = add_htlc_post [of ch state hid amount expiry hash routing pk tlvs lane cp mf enforce imm,
      folded h_def, unfolded add_post_def, rule_format, OF run]
  show ?thesis using post dup by (elim disjE exE) auto
qed

text \<open>Removing: the HTLC that was found, and the table with it replaced.\<close>

lemma htlc_get_Some:
  assumes "htlc_get hs hid owner = Some h"
  shows "h \<in> set hs" "h_id h = hid" "htlc_owner h = owner"
proof -
  have "h \<in> set hs \<and> h_id h = hid \<and> htlc_has h (HTLC_FLAG owner HTLC_F_OWNER)"
    using assms by (auto simp: htlc_get_def find_Some_iff in_set_conv_nth)
  moreover from this have "htlc_owner h = owner"
    by (cases owner; cases "h_state h") (auto simp: htlc_has_def htlc_owner_def flag_simps)
  ultimately show "h \<in> set hs" "h_id h = hid" "htlc_owner h = owner" by auto
qed

lemma htlc_put_set:
  "htlc_get hs hid owner \<noteq> None \<Longrightarrow> set (htlc_put hid owner h' hs) \<subseteq> insert h' (set hs)"
  by (induction hs) (auto simp: htlc_get_def split: if_splits)

lemma htlc_put_sum:
  assumes "htlc_get hs hid owner = Some h" "h_lane h' = h_lane h"
  shows "lane_sum g l (htlc_put hid owner h' hs)
     = lane_sum g l hs + (if unat (h_lane h) = l then g h' - g h else 0)"
  using assms by (induction hs) (auto simp: htlc_get_def split: if_splits)

definition irrevocable :: "htlc \<Rightarrow> bool" where
  "irrevocable h \<longleftrightarrow> hpos h = 4"

text \<open>The HTLC as a removal leaves it.\<close>

definition removing_htlc :: "bytes option \<Rightarrow> htlc \<Rightarrow> htlc" where
  "removing_htlc r h = h\<lparr>h_r := r,
     h_state := (if htlc_owner h = LOCAL then RCVD_REMOVE_HTLC else SENT_REMOVE_HTLC)\<rparr>"

lemma removing_htlc_simps [simp]:
  "h_lane (removing_htlc r h) = h_lane h" "hamt (removing_htlc r h) = hamt h"
  "htlc_owner (removing_htlc r h) = htlc_owner h" "h_r (removing_htlc r h) = r"
  "hpos (removing_htlc r h) = 5" "htlc_is_dead (removing_htlc r h) = False"
  by (simp_all add: removing_htlc_def hamt_def htlc_owner_def hpos_def life_pos_def htlc_state_owner_def
      state_lt_iff htlc_is_dead_def)

lemma irrevocable_iff:
  "irrevocable h \<longleftrightarrow> h_state h = (if htlc_owner h = LOCAL then SENT_ADD_ACK_REVOCATION else RCVD_ADD_ACK_REVOCATION)"
  by (cases "h_state h") (simp_all add: irrevocable_def hpos_def life_pos_def htlc_owner_def flag_simps)

lemma channel_fulfill_htlc_ok:
  assumes "channel_fulfill_htlc sha pt ch owner hid r = (CHANNEL_ERR_REMOVE_OK, ch')"
  obtains h where "htlc_get (htlcs ch) hid owner = Some h" "irrevocable h" "h_r h = None"
    "ch' = ch\<lparr>htlcs := htlc_put hid owner (removing_htlc (Some r) h) (htlcs ch)\<rparr>"
    "case h_lock_point h of None \<Rightarrow> sha r = h_rhash h | Some lock \<Rightarrow> pt r = Some lock"
proof -
  obtain h where h: "htlc_get (htlcs ch) hid owner = Some h"
    using assms by (auto simp: channel_fulfill_htlc_def channel_get_htlc_def split: option.splits)
  have "irrevocable h \<and> h_r h = None
     \<and> ch' = ch\<lparr>htlcs := htlc_put hid owner (removing_htlc (Some r) h) (htlcs ch)\<rparr>
     \<and> (case h_lock_point h of None \<Rightarrow> sha r = h_rhash h | Some lock \<Rightarrow> pt r = Some lock)"
    using assms h
    by (auto simp: channel_fulfill_htlc_def channel_get_htlc_def Let_def irrevocable_iff removing_htlc_def
        htlc_owner_def flag_simps point_lock_opens_def split: option.splits if_splits)
  with h show ?thesis using that by blast
qed

lemma channel_fail_htlc_ok:
  assumes "channel_fail_htlc ch owner hid = (CHANNEL_ERR_REMOVE_OK, ch')"
  obtains h where "htlc_get (htlcs ch) hid owner = Some h" "irrevocable h"
    "ch' = ch\<lparr>htlcs := htlc_put hid owner (removing_htlc (h_r h) h) (htlcs ch)\<rparr>"
proof -
  obtain h where h: "htlc_get (htlcs ch) hid owner = Some h"
    using assms by (auto simp: channel_fail_htlc_def channel_get_htlc_def split: option.splits)
  have "irrevocable h \<and> ch' = ch\<lparr>htlcs := htlc_put hid owner (removing_htlc (h_r h) h) (htlcs ch)\<rparr>"
    using assms h
    by (auto simp: channel_fail_htlc_def channel_get_htlc_def Let_def irrevocable_iff removing_htlc_def
        htlc_owner_def flag_simps split: option.splits if_splits)
  with h show ?thesis using that by blast
qed

text \<open>Neither an addition nor a removal changes a balance of either view.\<close>

lemma adj_removing: "irrevocable h \<Longrightarrow> adj v s (removing_htlc r h) = adj v s h"
  by (simp add: adj_def contrib_def irrevocable_def)

lemma agrees_put:
  fixes r :: "bytes option"
  assumes "agrees base ch" "chan_wf ch" "htlc_get (htlcs ch) hid owner = Some h" "irrevocable h"
  defines "ch' \<equiv> ch\<lparr>htlcs := htlc_put hid owner (removing_htlc r h) (htlcs ch)\<rparr>"
  shows "chan_wf ch' \<and> agrees base ch'"
proof -
  have "chan_wf ch'"
    using assms(2) htlc_get_Some [OF assms(3)] htlc_put_set [of "htlcs ch" hid owner "removing_htlc r h"] assms(3)
    by (fastforce simp: chan_wf_def ch'_def nlanes_def lanes_of_def)
  moreover have "agrees base ch'"
    using assms(1) by (simp add: agrees_def ch'_def bal_def htlc_put_sum [OF assms(3)] adj_removing assms(4))
  ultimately show ?thesis by blast
qed

lemma agrees_add:
  assumes "agrees base ch" "chan_wf ch" "hpos h = 0" "unat (h_lane h) < sym_num_lanes ch"
  shows "chan_wf (ch\<lparr>htlcs := h # htlcs ch\<rparr>) \<and> agrees base (ch\<lparr>htlcs := h # htlcs ch\<rparr>)"
proof -
  have "\<not> htlc_is_dead h" using assms(3) by (auto simp: htlc_is_dead_def hpos_def life_pos_def)
  then show ?thesis
    using assms by (auto simp: agrees_def chan_wf_def bal_def adj_new nlanes_def lanes_of_def sym_num_lanes_def)
qed

end
