(* ===== verification/ChannelRuns.thy ===== *)
theory ChannelRuns
  imports Balances
begin

text \<open>
  The channel as a state machine: the operations of \<^verbatim>\<open>channeld/full_channel.c\<close> as the steps of an
  inductive relation, and what holds of every channel that a fresh one reaches: the two views agree,
  and nothing is created or lost.
\<close>

section \<open>Steps\<close>

text \<open>
  One operation on a channel that succeeds. \<open>cp\<close>, \<open>mf\<close>, \<open>sha\<close> and \<open>pt\<close> are the network, the
  marginal feerate, SHA-256 and the curve point of a scalar; a swap is put in flight after its check.
\<close>

inductive chan_step ::
  "chainparams \<Rightarrow> (u32 \<Rightarrow> u32) \<Rightarrow> (bytes \<Rightarrow> bytes) \<Rightarrow> (bytes \<Rightarrow> bytes option) \<Rightarrow> channel \<Rightarrow> channel \<Rightarrow> bool"
  for cp mf sha pt
where
  add: "channel_add_lane_htlc cp mf ch sender hid amount expiry hash routing pk tlvs imm lane
          = Some (CHANNEL_ERR_ADD_OK, ch', h, fee) \<Longrightarrow> chan_step cp mf sha pt ch ch'"
| fulfill: "channel_fulfill_htlc sha pt ch owner hid r = (CHANNEL_ERR_REMOVE_OK, ch')
          \<Longrightarrow> chan_step cp mf sha pt ch ch'"
| fail: "channel_fail_htlc ch owner hid = (CHANNEL_ERR_REMOVE_OK, ch') \<Longrightarrow> chan_step cp mf sha pt ch ch'"
| sending_commit: "channel_sending_commit ch = Some (b, ch', hs) \<Longrightarrow> chan_step cp mf sha pt ch ch'"
| rcvd_revoke: "channel_rcvd_revoke_and_ack ch = Some (b, ch', hs) \<Longrightarrow> chan_step cp mf sha pt ch ch'"
| rcvd_commit: "channel_rcvd_commit ch = Some (b, ch', hs) \<Longrightarrow> chan_step cp mf sha pt ch ch'"
| sending_revoke: "channel_sending_revoke_and_ack ch = Some (b, ch') \<Longrightarrow> chan_step cp mf sha pt ch ch'"
| feerate: "channel_update_feerate cp ch rate = Some (True, ch') \<Longrightarrow> chan_step cp mf sha pt ch ch'"
| blockheight: "channel_update_blockheight ch blocks = Some ch' \<Longrightarrow> chan_step cp mf sha pt ch ch'"
| swap: "channel_sym_swap_check ch sw = Some None \<Longrightarrow> channel_sym_swap_add ch sw = Some ch'
          \<Longrightarrow> chan_step cp mf sha pt ch ch'"
| swap_done: "channel_sym_swap_done ch = (True, ch') \<Longrightarrow> chan_step cp mf sha pt ch ch'"

abbreviation reaches ::
  "chainparams \<Rightarrow> (u32 \<Rightarrow> u32) \<Rightarrow> (bytes \<Rightarrow> bytes) \<Rightarrow> (bytes \<Rightarrow> bytes option) \<Rightarrow> channel \<Rightarrow> channel \<Rightarrow> bool" where
  "reaches cp mf sha pt \<equiv> (chan_step cp mf sha pt)\<^sup>*\<^sup>*"

section \<open>The two views agree\<close>

text \<open>What the two views agree on: the base, and the total of each lane.\<close>

definition consistent :: "nat \<Rightarrow> (nat \<Rightarrow> int) \<Rightarrow> channel \<Rightarrow> bool" where
  "consistent n T ch \<longleftrightarrow> chan_wf ch \<and> nlanes ch = n \<and>
     (\<exists>base. agrees base ch \<and> (\<forall>l. base l LOCAL + base l REMOTE = T l))"

lemma settled_total: "lane_sum (settle LOCAL) l hs + lane_sum (settle REMOTE) l hs = 0"
  by (simp add: lane_sum_plus [symmetric] settle_both_sides) (simp add: lane_sum_def)

lemma swap_move_total: "swap_move sw l LOCAL + swap_move sw l REMOTE = 0"
  by (cases "htlc_state_owner (swap_state sw)") (simp_all add: swap_move_def Let_def)

lemma add_result_step:
  assumes "channel_add_lane_htlc cp mf ch sender hid amount expiry hash routing pk tlvs imm lane
      = Some (CHANNEL_ERR_ADD_OK, ch', added, fee)"
  obtains h where "ch' = ch\<lparr>htlcs := h # htlcs ch\<rparr>" "hpos h = 0" "htlc_owner h = sender" "h_lane h = lane"
    "h_amount h = amount" "h_r h = None" "h_id h = hid" "unat lane < sym_num_lanes ch"
proof -
  from add_htlc_result [OF assms [unfolded channel_add_lane_htlc_def]]
  show ?thesis
    by (cases sender) (auto simp: new_htlc_def hpos_def life_pos_def htlc_owner_def htlc_state_owner_def
        state_lt_iff intro!: that)
qed

lemma channel_update_feerate_result:
  assumes "channel_update_feerate cp ch rate = Some (b, ch')"
  shows "ch' = (if b then ch\<lparr>channel_fee_states := start_fee_update (channel_fee_states ch) (opener ch) rate\<rparr> else ch)"
  using assms unfolding channel_update_feerate_def by (auto simp: bind_eq_Some_conv split: if_splits)

lemma swap_check_lanes:
  "channel_sym_swap_check ch sw = Some None \<Longrightarrow>
     unat (give_lane sw) < sym_num_lanes ch \<and> unat (take_lane sw) < sym_num_lanes ch"
  by (auto simp: channel_sym_swap_check_def Let_def split: if_splits)

lemma life_pos_add [simp]: "life_pos SENT_ADD_HTLC = 0" "life_pos RCVD_ADD_HTLC = 0"
    "life_pos SENT_ADD_ACK_REVOCATION = 4" "life_pos RCVD_ADD_ACK_REVOCATION = 4"
  by (simp_all add: life_pos_def)

lemma lanes_of_cong [simp]:
  "lanes_of (ch\<lparr>htlcs := hs\<rparr>) = lanes_of ch" "lanes_of (ch\<lparr>chan_swap := sw\<rparr>) = lanes_of ch"
  by (simp_all add: lanes_of_def)

lemma consistent_put:
  "\<lbrakk>consistent n T ch; htlc_get (htlcs ch) hid owner = Some h; irrevocable h\<rbrakk>
    \<Longrightarrow> consistent n T (ch\<lparr>htlcs := htlc_put hid owner (removing_htlc r h) (htlcs ch)\<rparr>)"
  unfolding consistent_def using agrees_put by (metis view_amounts_cong(2))

context chan_event
begin

lemma consistent_event:
  assumes "change_htlcs ch v S = Some (c, ch', hs)" "consistent n T ch"
  shows "consistent n T ch'"
proof -
  obtain base where b: "agrees base ch" "\<forall>l. base l LOCAL + base l REMOTE = T l" and wf: "chan_wf ch"
    using assms(2) by (auto simp: consistent_def)
  have "rebase ch base l LOCAL + rebase ch base l REMOTE = T l" for l
    using settled_total [of l "gone ch"] b(2) by (simp add: rebase_def algebra_simps)
  moreover have "nlanes ch' = nlanes ch"
    using change_htlcs_effect [OF all_succ wf, of v] assms(1) by blast
  ultimately show ?thesis
    using agrees_event [OF assms(1) wf b(1)] assms(2) by (auto simp: consistent_def)
qed

end

lemma consistent_cong:
  assumes "consistent n T ch" "htlcs ch' = htlcs ch" "chan_swap ch' = chan_swap ch" "sym_lanes ch' = sym_lanes ch"
    "blockheight_states ch' \<noteq> None" "sym_lane_bal ch' = sym_lane_bal ch" "view ch' = view ch"
  shows "consistent n T ch'"
proof -
  have "bal ch' w l t = bal ch w l t" "nlanes ch' = nlanes ch" "lanes_of ch' = lanes_of ch" for w l t
    using assms by (simp_all add: bal_def view_amounts_def nlanes_def lanes_of_def)
  then show ?thesis using assms by (auto simp: consistent_def chan_wf_def agrees_def)
qed

lemma consistent_swap:
  assumes "consistent n T ch" "channel_sym_swap_check ch sw = Some None" "channel_sym_swap_add ch sw = Some ch'"
  shows "consistent n T ch'"
proof -
  have st: "swap_state sw = SENT_ADD_HTLC \<or> swap_state sw = RCVD_ADD_HTLC" "chan_swap ch = None"
    and ch': "ch' = ch\<lparr>chan_swap := Some sw\<rparr>"
    using assms(3) by (auto simp: channel_sym_swap_add_def split: if_splits)
  have adj: "swap_adj w l t (Some sw) = 0" for w l t
    using st(1) by (cases w) (auto simp: swap_adj_def flag_simps)
  show ?thesis
    using assms(1) st swap_check_lanes [OF assms(2)] unfolding ch'
    by (auto simp: consistent_def chan_wf_def agrees_def bal_def swap_wf_def adj nlanes_def lanes_of_def
        sym_num_lanes_def swap_adj_def [of _ _ _ None])
qed

lemma consistent_swap_done:
  assumes "consistent n T ch" "channel_sym_swap_done ch = (True, ch')"
  shows "consistent n T ch'"
proof -
  obtain sw where sw: "chan_swap ch = Some sw"
    and st: "swap_state sw = SENT_ADD_ACK_REVOCATION \<or> swap_state sw = RCVD_ADD_ACK_REVOCATION"
    and ch': "ch' = ch\<lparr>chan_swap := None\<rparr>"
    using assms(2) by (auto simp: channel_sym_swap_done_def split: option.splits if_splits)
  obtain base where b: "agrees base ch" "\<forall>l. base l LOCAL + base l REMOTE = T l" and wf: "chan_wf ch"
    using assms(1) by (auto simp: consistent_def)
  have adj: "swap_adj w l t (Some sw) = swap_move sw l t" for w l t
    using st by (cases w) (auto simp: swap_adj_def flag_simps)
  have "agrees (\<lambda>l t. base l t + swap_move sw l t) ch'"
    using b(1) by (simp add: agrees_def ch' bal_def sw adj swap_adj_def [of _ _ _ None] algebra_simps)
  moreover have "base l LOCAL + swap_move sw l LOCAL + (base l REMOTE + swap_move sw l REMOTE) = T l" for l
    using b(2) swap_move_total [of sw l] by (simp add: algebra_simps)
  moreover have "chan_wf ch'" using wf by (simp add: ch' chan_wf_def swap_wf_def)
  moreover have "nlanes ch' = n" using assms(1) by (simp add: consistent_def ch')
  ultimately show ?thesis unfolding consistent_def by blast
qed

lemma consistent_step:
  assumes "chan_step cp mf sha pt ch ch'" "consistent n T ch"
  shows "consistent n T ch'"
  using assms
proof (induction rule: chan_step.induct)
  case (add ch sender hid amount expiry hash routing pk tlvs imm lane ch' h fee)
  then obtain h where h: "ch' = ch\<lparr>htlcs := h # htlcs ch\<rparr>" "hpos h = 0" "unat (h_lane h) < sym_num_lanes ch"
    by (elim add_result_step) auto
  then show ?case
    using agrees_add [OF _ _ h(2,3)] add.prems unfolding h(1) by (auto simp: consistent_def)
next
  case (fulfill ch owner hid r ch')
  from channel_fulfill_htlc_ok [OF this(1)] obtain h where
    "htlc_get (htlcs ch) hid owner = Some h" "irrevocable h"
    "ch' = ch\<lparr>htlcs := htlc_put hid owner (removing_htlc (Some r) h) (htlcs ch)\<rparr>" by blast
  then show ?case using consistent_put fulfill.prems by blast
next
  case (fail ch owner hid ch')
  from channel_fail_htlc_ok [OF this(1)] obtain h where
    "htlc_get (htlcs ch) hid owner = Some h" "irrevocable h"
    "ch' = ch\<lparr>htlcs := htlc_put hid owner (removing_htlc (h_r h) h) (htlcs ch)\<rparr>" by blast
  then show ?case using consistent_put fail.prems by blast
next
  case (sending_commit ch b ch' hs)
  then show ?case
    by (auto simp: channel_sending_commit_def bind_eq_Some_conv intro: sending_commit.consistent_event)
next
  case (rcvd_revoke ch b ch' hs)
  then show ?case
    by (auto simp: channel_rcvd_revoke_and_ack_def bind_eq_Some_conv intro: rcvd_revoke.consistent_event)
next
  case (rcvd_commit ch b ch' hs)
  then show ?case
    by (auto simp: channel_rcvd_commit_def bind_eq_Some_conv intro: rcvd_commit.consistent_event)
next
  case (sending_revoke ch b ch')
  then show ?case
    by (auto simp: channel_sending_revoke_and_ack_def bind_eq_Some_conv intro: sending_revoke.consistent_event)
next
  case (feerate ch rate ch')
  have "blockheight_states ch \<noteq> None" using feerate(2) by (simp add: consistent_def chan_wf_def)
  with consistent_cong [OF feerate(2)] show ?case
    unfolding channel_update_feerate_result [OF feerate(1)] by simp
next
  case (blockheight ch blocks ch')
  then obtain hs where "ch' = ch\<lparr>blockheight_states := Some (start_height_update hs (opener ch) blocks)\<rparr>"
    by (auto simp: channel_update_blockheight_def bind_eq_Some_conv)
  with consistent_cong [OF blockheight(2)] show ?case by simp
next
  case (swap ch sw ch')
  then show ?case by (blast intro: consistent_swap)
next
  case (swap_done ch ch')
  then show ?case by (blast intro: consistent_swap_done)
qed


lemma consistent_reaches:
  "reaches cp mf sha pt ch0 ch \<Longrightarrow> consistent n T ch0 \<Longrightarrow> consistent n T ch"
  by (induction rule: rtranclp_induct) (auto intro: consistent_step)

text \<open>A channel with nothing in flight and one set of balances.\<close>

definition fresh :: "channel \<Rightarrow> bool" where
  "fresh ch \<longleftrightarrow> htlcs ch = [] \<and> chan_swap ch = None \<and> blockheight_states ch \<noteq> None
     \<and> length (sym_lane_bal ch) = length (lanes_of ch)
     \<and> (\<forall>l < nlanes ch. \<forall>t. bal ch LOCAL l t = bal ch REMOTE l t)"

lemma fresh_agrees: "fresh ch \<Longrightarrow> agrees (\<lambda>l t. uint (bal ch LOCAL l t)) ch"
  unfolding agrees_def fresh_def
proof (intro allI impI, goal_cases)
  case (1 w l t)
  then show ?case by (cases w) (simp_all add: swap_adj_def)
qed

lemma fresh_consistent:
  "fresh ch \<Longrightarrow> consistent (nlanes ch) (\<lambda>l. uint (bal ch LOCAL l LOCAL) + uint (bal ch LOCAL l REMOTE)) ch"
  using fresh_agrees [of ch] by (auto simp: consistent_def fresh_def chan_wf_def swap_wf_def)

text \<open>What the commitment of \<open>v\<close> holds in HTLCs of one lane.\<close>

definition committed_msat :: "channel \<Rightarrow> side \<Rightarrow> nat \<Rightarrow> u64" where
  "committed_msat ch v l =
     (\<Sum>h \<leftarrow> filter (\<lambda>h. unat (h_lane h) = l) (channel_committed_htlcs ch v). millisatoshis (h_amount h))"

lemma channel_committed_htlcs_eq:
  "channel_committed_htlcs ch v = filter (\<lambda>h. htlc_has h (HTLC_FLAG v HTLC_F_COMMITTED)) (htlcs ch)"
proof -
  have "fst (snd (gather_lane_htlcs hs v None)) = filter (\<lambda>h. htlc_has h (HTLC_FLAG v HTLC_F_COMMITTED)) hs" for hs
    by (induction hs) (auto simp: Let_def split: prod.splits)
  then show ?thesis by (simp add: channel_committed_htlcs_def)
qed

lemma adj_total:
  "of_int (lane_sum (adj v LOCAL) l (htlcs ch) + lane_sum (adj v REMOTE) l (htlcs ch)) = - committed_msat ch v l"
proof -
  have "(of_int (lane_sum (adj v LOCAL) l hs + lane_sum (adj v REMOTE) l hs) :: u64)
      = - (\<Sum>h \<leftarrow> filter (\<lambda>h. unat (h_lane h) = l) (filter (\<lambda>h. htlc_has h (HTLC_FLAG v HTLC_F_COMMITTED)) hs).
            millisatoshis (h_amount h))" for hs
  proof (induction hs)
    case (Cons h hs)
    have "(of_int (adj v LOCAL h + adj v REMOTE h) :: u64) =
        (if htlc_has h (HTLC_FLAG v HTLC_F_COMMITTED) then - millisatoshis (h_amount h) else 0)"
      by (simp add: adj_both_sides of_int_hamt)
    then show ?case using Cons by (auto simp: algebra_simps)
  qed simp
  then show ?thesis by (simp add: committed_msat_def channel_committed_htlcs_eq)
qed

lemma swap_adj_total: "swap_adj v l LOCAL swap + swap_adj v l REMOTE swap = 0"
  by (auto simp: swap_adj_def swap_move_total split: option.splits)

text \<open>
  (C5) Whatever HTLCs are added, fulfilled and failed, whatever swaps between lanes are made, and in
  whatever order the commitments and revocations go back and forth, in each of the two commitments
  and in each lane the two balances and the HTLCs it holds add up, as 64-bit numbers, to what the
  lane started with: nothing is created or lost. And whenever nothing is in flight, the two
  commitments show the same balances.
\<close>

theorem funds_conserved:
  assumes "fresh ch0" and "reaches cp mf sha pt ch0 ch" and "l < nlanes ch0"
  shows "bal ch v l LOCAL + bal ch v l REMOTE + committed_msat ch v l
       = bal ch0 v l LOCAL + bal ch0 v l REMOTE
     \<and> (htlcs ch = [] \<and> chan_swap ch = None \<longrightarrow> bal ch LOCAL l s = bal ch REMOTE l s)"
proof -
  define T where "T = (\<lambda>l. uint (bal ch0 LOCAL l LOCAL) + uint (bal ch0 LOCAL l REMOTE))"
  have c: "consistent (nlanes ch0) T ch"
    using consistent_reaches [OF assms(2) fresh_consistent [OF assms(1)]] by (simp add: T_def)
  then obtain base where b: "\<And>w t. bal ch w l t =
        of_int (base l t + lane_sum (adj w t) l (htlcs ch) + swap_adj w l t (chan_swap ch))"
    and T: "base l LOCAL + base l REMOTE = T l"
    using assms(3) by (auto simp: consistent_def agrees_def)
  have "bal ch v l LOCAL + bal ch v l REMOTE =
      of_int (base l LOCAL + base l REMOTE + (lane_sum (adj v LOCAL) l (htlcs ch) + lane_sum (adj v REMOTE) l (htlcs ch))
        + (swap_adj v l LOCAL (chan_swap ch) + swap_adj v l REMOTE (chan_swap ch)))"
    unfolding b by (simp add: algebra_simps)
  also have "\<dots> = of_int (T l) - committed_msat ch v l"
    unfolding T swap_adj_total using adj_total [of v l ch] by simp
  also have "of_int (T l) = bal ch0 v l LOCAL + bal ch0 v l REMOTE"
    using assms(1,3) by (cases v) (auto simp: T_def fresh_def)
  finally show ?thesis
    using b by (auto simp: swap_adj_def)
qed


subsection \<open>A concrete channel\<close>

definition demo_chan :: channel where
  "demo_chan = the (demo_open (AMOUNT_SAT 1000000) (AMOUNT_MSAT 400000000))"

lemma demo_chan_simps [simp]:
  "owed (view demo_chan v) LOCAL = AMOUNT_MSAT 400000000" "owed (view demo_chan v) REMOTE = AMOUNT_MSAT 600000000"
  "lowest_splice_amnt (view demo_chan v) s = 0" "htlcs demo_chan = []" "chan_swap demo_chan = None"
  "chan_swap_req demo_chan = None" "opener demo_chan = LOCAL" "config demo_chan s = demo_config"
  "sym_lanes demo_chan = None" "sym_lane_bal demo_chan = []" "credit_floor demo_chan = AMOUNT_SAT 0"
  "channel_fee_states demo_chan = new_fee_states LOCAL (Some 253)"
  "blockheight_states demo_chan = Some (new_height_states LOCAL (Some 0))"
  "chan_type demo_chan = channel_type_static_remotekey" "option_wumbo demo_chan = False"
  by (simp_all add: demo_chan_def demo_open_simps new_height_states_def dup_height_states_def
     new_fee_states_def dup_fee_states_def by_side_def split: side.splits)

lemma static_remotekey_has [simp]:
  "\<not> channel_type_has channel_type_static_remotekey 20" "\<not> channel_type_has channel_type_static_remotekey 22"
proof -
  have "\<not> feature_is_set [] x" for x by (simp add: feature_is_set_def)
  then show "\<not> channel_type_has channel_type_static_remotekey 20" "\<not> channel_type_has channel_type_static_remotekey 22"
    by (simp_all add: COMPULSORY_FEATURE_def OPTIONAL_FEATURE_def channel_type_has_def feature_offered_def
        channel_type_static_remotekey_def type_set_def new_channel_type_def fbit.member_ins)
qed

lemmas add_evals =
  channel_add_lane_htlc_def channel_add_htlc_def add_htlc_def blocks_to_abs_locktime_def
  SECONDS_POINT_def duplicate_err_def amount_limit_err_def htlc_get_def new_htlc_def msat_in_htlcs_def
  sum_offered_msatoshis_def affordable_def fee_for_htlcs_def sender_affords_def get_room_above_reserve_def
  channel_reserve_of_def to_balance_def balance_add_htlc_def balance_ok_def swap_promised_def
  opener_affords_def local_opener_has_fee_headroom_def num_untrimmed_htlcs_def channel_feerate_def get_feerate_def
  add_checking_dust_def dust_exceeded_def htlc_dust_def htlc_trim_feerate_ceiling_def add_done_def
  channel_has_def Let_def amount_defs htlc_owner_def htlc_state_owner_def state_lt_iff demo_config_def
  new_fee_states_def flag_simps trim_def htlc_is_trimmed_def htlc_timeout_fee_def htlc_success_fee_def
  commit_tx_base_fee_def commit_tx_base_weight_def amount_tx_fee_def elements_tx_overhead_def
  net_sequentia_testnet_def sym_num_lanes_def lanes_of_def

lemma demo_fresh: "fresh demo_chan" and demo_nlanes [simp]: "nlanes demo_chan = 1"
  by (auto simp: fresh_def nlanes_def lanes_of_def bal_def view_amounts_def all_sides_iff)

text \<open>The channel after we offer 20000 satoshi, and the HTLC.\<close>

definition demo_offer :: htlc where
  "demo_offer = new_htlc SENT_ADD_HTLC 0 (AMOUNT_MSAT 20000000) 500 [] [] None None 0"

lemma demo_offer_accepted:
  "channel_add_lane_htlc net_sequentia_testnet id demo_chan LOCAL 0 (AMOUNT_MSAT 20000000) 500 [] [] None None False 0
     = Some (CHANNEL_ERR_ADD_OK, demo_chan\<lparr>htlcs := [demo_offer]\<rparr>, Some demo_offer, Some (AMOUNT_SAT 382))"
  by (simp add: add_evals demo_offer_def)

lemma demo_offer_sent: "channel_sending_commit (demo_chan\<lparr>htlcs := [demo_offer]\<rparr>) \<noteq> None"
proof -
  let ?ch = "demo_chan\<lparr>htlcs := [demo_offer]\<rparr>" and ?S = "[SENT_ADD_HTLC, SENT_REMOVE_REVOCATION, SENT_ADD_REVOCATION, SENT_REMOVE_HTLC]"
  have wf: "chan_wf ?ch"
    by (simp add: chan_wf_def demo_offer_def new_htlc_def htlc_is_dead_def nlanes_def swap_wf_def lanes_of_def)
  have b: "bal ?ch REMOTE 0 LOCAL = 400000000" "bal ?ch REMOTE 0 REMOTE = 600000000"
    by (simp_all add: bal_def view_amounts_def)
  have adv: "advance ?S demo_offer = demo_offer\<lparr>h_state := SENT_ADD_COMMIT\<rparr>"
    by (simp add: advance_def demo_offer_def new_htlc_def same_owner_succ_def htlc_state_flags_def flag_defs)
  have d: "event_delta ?ch REMOTE ?S 0 LOCAL = - 20000000" "event_delta ?ch REMOTE ?S 0 REMOTE = 0"
    unfolding event_delta_def
    by (simp_all add: adv) (simp_all add: demo_offer_def new_htlc_def adj_def contrib_def htlc_owner_def
        htlc_state_owner_def state_lt_iff hpos_def life_pos_def hamt_def swap_adj_def advance_swap_def)
  have "change_htlcs ?ch REMOTE ?S \<noteq> None"
    using change_htlcs_effect [OF sending_commit.all_succ wf, of REMOTE] by (simp add: b d all_sides_iff)
  then show ?thesis by (auto simp: channel_sending_commit_def)
qed

theorem funds_conserved_witness:
  "\<exists>ch1 ch2 b hs. chan_step net_sequentia_testnet id (\<lambda>x. x) Some demo_chan ch1
     \<and> channel_sending_commit ch1 = Some (b, ch2, hs)
     \<and> bal ch2 REMOTE 0 LOCAL + bal ch2 REMOTE 0 REMOTE + committed_msat ch2 REMOTE 0 = 1000000000"
proof -
  let ?ch1 = "demo_chan\<lparr>htlcs := [demo_offer]\<rparr>"
  have s1: "chan_step net_sequentia_testnet id (\<lambda>x. x) Some demo_chan ?ch1"
    by (rule chan_step.add) (rule demo_offer_accepted)
  obtain b ch2 hs where e: "channel_sending_commit ?ch1 = Some (b, ch2, hs)" using demo_offer_sent by auto
  then have "reaches net_sequentia_testnet id (\<lambda>x. x) Some demo_chan ch2"
    using s1 by (meson chan_step.sending_commit r_into_rtranclp rtranclp.rtrancl_into_rtrancl)
  from funds_conserved [OF demo_fresh this, of 0 REMOTE LOCAL]
  have "bal ch2 REMOTE 0 LOCAL + bal ch2 REMOTE 0 REMOTE + committed_msat ch2 REMOTE 0 = 1000000000"
    by (simp add: bal_def [of demo_chan] view_amounts_def)
  with s1 e show ?thesis by blast
qed

text \<open>The same channel under the limit \<^verbatim>\<open>lightningd/opening_common.c\<close> sets, and the peer's offer.\<close>

definition demo_unlimited :: channel where
  "demo_unlimited = demo_chan\<lparr>config := (\<lambda>_. demo_config\<lparr>max_htlc_value_in_flight := AMOUNT_MSAT (- 1)\<rparr>)\<rparr>"

definition demo_huge :: htlc where
  "demo_huge = new_htlc RCVD_ADD_HTLC 0 (AMOUNT_MSAT 18446744073609551616) 500 [] [] None None 0"

lemma demo_huge_accepted:
  "channel_add_htlc net_sequentia_testnet id demo_unlimited REMOTE 0 (AMOUNT_MSAT 18446744073609551616)
       500 [] [] None None False
     = Some (CHANNEL_ERR_ADD_OK, demo_unlimited\<lparr>htlcs := [demo_huge]\<rparr>, Some demo_huge, Some (AMOUNT_SAT 382))"
  by (simp add: add_evals demo_huge_def demo_unlimited_def)

lemma demo_huge_committed:
  obtains b ch hs where "channel_rcvd_commit (demo_unlimited\<lparr>htlcs := [demo_huge]\<rparr>) = Some (b, ch, hs)"
    "bal ch LOCAL 0 LOCAL = 400000000" "bal ch LOCAL 0 REMOTE = 700000000"
proof -
  let ?ch = "demo_unlimited\<lparr>htlcs := [demo_huge]\<rparr>" and ?S = "[RCVD_ADD_REVOCATION, RCVD_REMOVE_HTLC, RCVD_ADD_HTLC, RCVD_REMOVE_REVOCATION]"
  have n: "nlanes demo_unlimited = 1" by (simp add: nlanes_def demo_unlimited_def)
  have wf: "chan_wf ?ch"
    by (simp add: chan_wf_def demo_huge_def new_htlc_def htlc_is_dead_def nlanes_def swap_wf_def lanes_of_def demo_unlimited_def)
  have b: "bal ?ch LOCAL 0 LOCAL = 400000000" "bal ?ch LOCAL 0 REMOTE = 600000000"
    by (simp_all add: bal_def view_amounts_def demo_unlimited_def)
  have adv: "advance ?S demo_huge = demo_huge\<lparr>h_state := RCVD_ADD_COMMIT\<rparr>"
    by (simp add: advance_def demo_huge_def new_htlc_def same_owner_succ_def htlc_state_flags_def flag_defs)
  have d: "event_delta ?ch LOCAL ?S 0 REMOTE = - 18446744073609551616" "event_delta ?ch LOCAL ?S 0 LOCAL = 0"
    unfolding event_delta_def
    by (simp_all add: adv) (simp_all add: demo_huge_def new_htlc_def adj_def contrib_def htlc_owner_def
        htlc_state_owner_def state_lt_iff hpos_def life_pos_def hamt_def swap_adj_def advance_swap_def demo_unlimited_def)
  note e = change_htlcs_effect [OF rcvd_commit.all_succ wf, of LOCAL]
  have "change_htlcs ?ch LOCAL ?S \<noteq> None"
    using e by (simp add: n b d all_sides_iff)
  then obtain c ch hs where r: "change_htlcs ?ch LOCAL ?S = Some (c, ch, hs)" by auto
  then have "bal ch LOCAL 0 LOCAL = 400000000" "bal ch LOCAL 0 REMOTE = 700000000"
    using e by (auto simp: n b d)
  with r that show ?thesis by (simp add: channel_rcvd_commit_def)
qed

text \<open>
  (C40) The balance of a lane is a signed 64-bit number, and the amount of an HTLC is subtracted from it
  modulo \<open>2 ^ 64\<close>. On a channel of 1000000 satoshi with no limit on the value in flight, which is what
  a node offers its peers, the peer's HTLC of \<open>2 ^ 64 - 100000000\<close> millisatoshi passes every check,
  the one that the peer can afford it included, and once its commitment is received the balance of
  the peer has grown from 600000 to 700000 satoshi.
\<close>

theorem add_htlc_accepts_wrapping_amount:
  "\<exists>ch1 h fee b ch2 hs.
     channel_add_htlc net_sequentia_testnet id demo_unlimited REMOTE 0
       (AMOUNT_MSAT 18446744073609551616) 500 [] [] None None False = Some (CHANNEL_ERR_ADD_OK, ch1, Some h, fee)
   \<and> channel_rcvd_commit ch1 = Some (b, ch2, hs)
   \<and> msat (h_amount h) = 2 ^ 64 - 100000000
   \<and> owed_total ch1 LOCAL = 1000000000
   \<and> msat (owed (view ch1 LOCAL) REMOTE) = 600000000
   \<and> msat (owed (view ch2 LOCAL) REMOTE) = 700000000
   \<and> owed_total ch2 LOCAL = 1100000000"
proof -
  obtain b ch hs where e: "channel_rcvd_commit (demo_unlimited\<lparr>htlcs := [demo_huge]\<rparr>) = Some (b, ch, hs)"
    "bal ch LOCAL 0 LOCAL = 400000000" "bal ch LOCAL 0 REMOTE = 700000000"
    by (rule demo_huge_committed)
  then have "millisatoshis (owed (view ch LOCAL) LOCAL) = 400000000"
      "millisatoshis (owed (view ch LOCAL) REMOTE) = 700000000"
    by (simp_all add: bal_def view_amounts_def)
  with e(1) demo_huge_accepted show ?thesis
    by (auto simp: owed_total_def demo_unlimited_def demo_huge_def new_htlc_def)
qed

end
