(* ===== verification/Solvency.thy ===== *)
theory Solvency
  imports ChannelRuns
begin

text \<open>
  That the daemon does not stop in a commitment event. \<^verbatim>\<open>change_htlcs\<close> stops it when a balance is
  negative; the checks of \<^verbatim>\<open>add_htlc\<close> and \<^verbatim>\<open>channel_sym_swap_check\<close> are there to prevent that. The
  theory shows that they do, for every interleaving of the two parties, as long as amounts stay
  below \<open>2 ^ 61\<close> millisatoshi.
\<close>

section \<open>Balances to come\<close>

text \<open>
  What a swap does to the balance of \<open>t\<close> in lane \<open>l\<close>: its owner pays from position \<open>p\<close> of its life and is
  paid from \<open>q\<close>, the other side pays from \<open>p'\<close> and is paid from \<open>q'\<close>.
\<close>

definition swap_part :: "nat \<Rightarrow> nat \<Rightarrow> nat \<Rightarrow> nat \<Rightarrow> nat \<Rightarrow> side \<Rightarrow> sym_swap \<Rightarrow> int" where
  "swap_part p q p' q' l t sw =
     (let pos = life_pos (swap_state sw); give = int (msat (swap_give sw)); take = int (msat (swap_take sw));
          g = unat (give_lane sw); r = unat (take_lane sw)
      in if t = htlc_state_owner (swap_state sw)
         then (if l = r \<and> q \<le> pos then take else 0) - (if l = g \<and> p \<le> pos then give else 0)
         else (if l = g \<and> q' \<le> pos then give else 0) - (if l = r \<and> p' \<le> pos then take else 0))"

definition swap_level :: "nat \<Rightarrow> nat \<Rightarrow> nat \<Rightarrow> nat \<Rightarrow> nat \<Rightarrow> side \<Rightarrow> sym_swap option \<Rightarrow> int" where
  "swap_level p q p' q' l t swap = (case swap of None \<Rightarrow> 0 | Some sw \<Rightarrow> swap_part p q p' q' l t sw)"

text \<open>
  A balance with every HTLC and swap counted from given positions on. With the positions of a view it
  is the balance in that view; with earlier positions for what \<open>t\<close> pays, it is a balance that a
  later commitment will show.
\<close>

definition level ::
  "nat \<Rightarrow> nat \<Rightarrow> nat \<Rightarrow> nat \<Rightarrow> nat \<Rightarrow> nat \<Rightarrow> nat \<Rightarrow> (nat \<Rightarrow> side \<Rightarrow> int) \<Rightarrow> channel \<Rightarrow> nat \<Rightarrow> side \<Rightarrow> int" where
  "level a f c p q p' q' base ch l t =
     base l t + lane_sum (contrib a f c t) l (htlcs ch) + swap_level p q p' q' l t (chan_swap ch)"

lemma contrib_mono:
  "a \<le> a' \<Longrightarrow> f' \<le> f \<Longrightarrow> c' \<le> c \<Longrightarrow> contrib a f c t h \<le> contrib a' f' c' t h"
  by (auto simp: contrib_def)

lemma swap_level_mono:
  assumes "p \<le> r" "q' \<le> q" "p' \<le> r'" "s' \<le> s"
  shows "swap_level p q p' s l t swap \<le> swap_level r q' r' s' l t swap"
proof (cases swap)
  case (Some sw)
  have m: "(if A \<and> y \<le> k then int g else 0) \<le> (if A \<and> x \<le> k then int g else 0)" if "x \<le> y"
    for A and g k x y :: nat using that by auto
  show ?thesis
    unfolding Some swap_level_def option.case swap_part_def Let_def
    by (cases "t = htlc_state_owner (swap_state sw)")
      (auto intro!: diff_mono m assms split del: if_split)
qed (simp add: swap_level_def)

lemma level_mono:
  assumes "a \<le> a'" "f' \<le> f" "c' \<le> c" "p \<le> r" "q' \<le> q" "p' \<le> r'" "s' \<le> s"
  shows "level a f c p q p' s base ch l t \<le> level a' f' c' r q' r' s' base ch l t"
  unfolding level_def
  using lane_sum_mono [of "htlcs ch" "contrib a f c t" "contrib a' f' c' t" l] contrib_mono [OF assms(1-3)]
    swap_level_mono [OF assms(4-7), of l t "chan_swap ch"] by (simp add: add_mono)

text \<open>The balance of \<open>t\<close> in a view.\<close>

lemma view_level:
  assumes "chan_wf ch"
  shows "base l t + lane_sum (adj w t) l (htlcs ch) + swap_adj w l t (chan_swap ch) =
     (if w = t then level 3 6 8 3 3 1 1 base ch l t else level 1 8 6 1 1 3 3 base ch l t)"
proof -
  have "swap_adj w l t (chan_swap ch) =
      (if w = t then swap_level 3 3 1 1 l t (chan_swap ch) else swap_level 1 1 3 3 l t (chan_swap ch))"
  proof (cases "chan_swap ch")
    case (Some sw)
    then have "swap_wf (nlanes ch) (Some sw)" using assms by (simp add: chan_wf_def)
    from sending_commit.swap_adj_pos [OF this, of w l t] show ?thesis
      using neq_side_iff [of w t] neq_side_iff [of t "htlc_state_owner (swap_state sw)"]
      by (auto simp: Some swap_level_def swap_part_def swap_move_def Let_def)
  qed (simp add: swap_adj_def swap_level_def)
  moreover have "adj w t = (if w = t then contrib 3 6 8 t else contrib 1 8 6 t)"
    by (auto simp: adj_def fun_eq_iff)
  ultimately show ?thesis by (simp add: level_def)
qed

context chan_event
begin

lemma swap_level_event:
  assumes "swap_wf n swap"
  shows "swap_level p q p' q' l t (advance_swap S swap) =
     (if t = s then swap_level (prior P p) (prior P q) (prior Q p') (prior Q q') l t swap
      else swap_level (prior Q p) (prior Q q) (prior P p') (prior P q') l t swap)"
proof (cases swap)
  case (Some sw)
  obtain sw' where sw': "advance_swap S (Some sw) = Some sw'"
    "htlc_state_owner (swap_state sw') = htlc_state_owner (swap_state sw)"
    "life_pos (swap_state sw') =
         (if life_pos (swap_state sw) \<in> (if htlc_state_owner (swap_state sw) = s then P else Q)
          then Suc (life_pos (swap_state sw)) else life_pos (swap_state sw))"
    "swap_give sw' = swap_give sw" "swap_take sw' = swap_take sw"
    "give_lane sw' = give_lane sw" "take_lane sw' = take_lane sw"
    using swap_event assms Some by (fastforce simp: advance_swap_def split: option.splits)
  show ?thesis
    unfolding Some sw'(1) swap_level_def option.case swap_part_def Let_def sw'(2-) prior_le
    using neq_side_iff [of t s] neq_side_iff [of "htlc_state_owner (swap_state sw)" s] by auto
qed (simp add: swap_level_def advance_swap_def)

lemma level_event:
  assumes "chan_wf ch" "htlcs ch' = filter (\<lambda>h. \<not> htlc_is_dead h) (map (advance S) (htlcs ch))"
    "chan_swap ch' = advance_swap S (chan_swap ch)" "a \<le> 9" "f \<le> 9" "c \<le> 9"
  shows "level a f c p q p' q' (rebase ch base) ch' l t =
     (if t = s then level (prior P a) (prior P f) (prior Q c) (prior P p) (prior P q) (prior Q p') (prior Q q') base ch l t
      else level (prior Q a) (prior Q f) (prior P c) (prior Q p) (prior Q q) (prior P p') (prior P q') base ch l t)"
proof -
  have "lane_sum (settle t) l (gone ch) + lane_sum (contrib a f c t) l (htlcs ch')
      = lane_sum (contrib a f c t \<circ> advance S) l (htlcs ch)"
    unfolding assms(2) by (rule lane_sum_event) (rule contrib_dead [OF _ assms(4-6)])
  moreover have "contrib a f c t \<circ> advance S =
      (if t = s then contrib (prior P a) (prior P f) (prior Q c) t
       else contrib (prior Q a) (prior Q f) (prior P c) t)"
    using contrib_event [of a f c t] by (auto simp: fun_eq_iff)
  moreover have "swap_wf (nlanes ch) (chan_swap ch)" using assms(1) by (simp add: chan_wf_def)
  ultimately show ?thesis
    using swap_level_event [of "nlanes ch" "chan_swap ch" p q p' q' l t]
    by (simp add: level_def rebase_def assms(3) split: if_splits)
qed

end

section \<open>Solvent channels\<close>

text \<open>
  Four balances of each side in each lane are not negative: the one the peer's commitment will show
  once everything pending is committed to it (the one \<^verbatim>\<open>add_htlc\<close> checks), the one it shows now, less
  what is promised to a swap of the peer; the one our commitment will show when the peer has revoked,
  and the one it shows now.
\<close>

definition covered :: "(nat \<Rightarrow> side \<Rightarrow> int) \<Rightarrow> channel \<Rightarrow> nat \<Rightarrow> side \<Rightarrow> bool" where
  "covered base ch l t \<longleftrightarrow>
     0 \<le> level 0 7 5 0 1 0 3 base ch l t \<and> 0 \<le> level 1 8 6 1 1 0 3 base ch l t
   \<and> 0 \<le> level 2 6 7 2 2 0 1 base ch l t \<and> 0 \<le> level 3 6 8 3 3 1 1 base ch l t"

abbreviation (input) max_total :: int where "max_total \<equiv> 2305843009213693952"

definition solvent :: "nat \<Rightarrow> (nat \<Rightarrow> int) \<Rightarrow> (nat \<Rightarrow> side \<Rightarrow> int) \<Rightarrow> channel \<Rightarrow> bool" where
  "solvent n T base ch \<longleftrightarrow> chan_wf ch \<and> nlanes ch = n \<and> agrees base ch
     \<and> (\<forall>l < n. base l LOCAL + base l REMOTE = T l \<and> T l < max_total \<and> (\<forall>t. covered base ch l t))"

lemma lane_sum_le_0: "(\<And>h. h \<in> set hs \<Longrightarrow> g h \<le> 0) \<Longrightarrow> lane_sum g l hs \<le> 0"
  by (induction hs) (auto simp: add_nonpos_nonpos)

text \<open>No side can have more than the lane holds, in any commitment to come.\<close>

lemma room_bound:
  "level 1 7 5 1 1 3 3 base ch l t + level 3 6 8 3 3 1 1 base ch l (other t) \<le> base l LOCAL + base l REMOTE"
proof -
  have "contrib 1 7 5 t h + contrib 3 6 8 (other t) h \<le> 0" for h
    using neq_side_iff [of "htlc_owner h" t] by (auto simp: contrib_def)
  then have "lane_sum (\<lambda>h. contrib 1 7 5 t h + contrib 3 6 8 (other t) h) l (htlcs ch) \<le> 0"
    by (intro lane_sum_le_0) simp
  then have "lane_sum (contrib 1 7 5 t) l (htlcs ch) + lane_sum (contrib 3 6 8 (other t)) l (htlcs ch) \<le> 0"
    by (simp add: lane_sum_plus)
  moreover have "swap_level 1 1 3 3 l t (chan_swap ch) + swap_level 3 3 1 1 l (other t) (chan_swap ch) = 0"
    using neq_side_iff [of t] by (cases "chan_swap ch") (auto simp: swap_level_def swap_part_def Let_def)
  moreover have "base l t + base l (other t) = base l LOCAL + base l REMOTE" by (cases t) simp_all
  ultimately show ?thesis by (simp add: level_def)
qed

lemma covered_bounds:
  assumes c: "\<And>t. covered base ch l t"
  shows "level 0 7 5 0 1 0 3 base ch l t \<le> base l LOCAL + base l REMOTE"
    "level 1 8 6 1 1 3 3 base ch l t \<le> base l LOCAL + base l REMOTE"
    "level 3 6 8 3 3 1 1 base ch l t \<le> base l LOCAL + base l REMOTE"
    "0 \<le> level 1 8 6 1 1 3 3 base ch l t"
proof -
  have V1: "0 \<le> level 1 8 6 1 1 3 3 base ch l t" for t
    using c [of t] level_mono [of 1 1 8 8 6 6 1 1 1 1 0 3 3 3 base ch l t] by (simp add: covered_def)
  have le: "level 1 8 6 1 1 3 3 base ch l t \<le> level 1 7 5 1 1 3 3 base ch l t"
      "level 0 7 5 0 1 0 3 base ch l t \<le> level 1 7 5 1 1 3 3 base ch l t" for t
    by (rule level_mono; simp)+
  show "0 \<le> level 1 8 6 1 1 3 3 base ch l t" by (rule V1)
  show "level 0 7 5 0 1 0 3 base ch l t \<le> base l LOCAL + base l REMOTE"
    "level 1 8 6 1 1 3 3 base ch l t \<le> base l LOCAL + base l REMOTE"
    using room_bound [of base ch l t] le [of t] c [of "other t"] by (simp_all add: covered_def)
  show "level 3 6 8 3 3 1 1 base ch l t \<le> base l LOCAL + base l REMOTE"
    using room_bound [of base ch l "other t"] le(1) [of "other t"] V1 [of "other t"] by simp
qed

text \<open>In a solvent channel the balances are the levels, as numbers.\<close>

lemma u64_of_int: "0 \<le> i \<Longrightarrow> i < max_total \<Longrightarrow> uint (of_int i :: u64) = i \<and> 0 \<le> sint (of_int i :: u64)"
proof -
  assume "0 \<le> i" "i < max_total"
  then have "uint (of_int i :: u64) = i" by (simp add: uint_word_of_int_eq take_bit_int_eq_self)
  moreover from this \<open>i < max_total\<close> have "unat (of_int i :: u64) < 9223372036854775808"
    by (simp add: unat_eq_nat_uint nat_less_iff)
  ultimately show ?thesis by (simp add: sint_u64_nonneg_iff)
qed

lemma solvent_balance:
  assumes "solvent n T base ch" "l < n"
  shows "uint (bal ch w l t) = (if w = t then level 3 6 8 3 3 1 1 base ch l t else level 1 8 6 1 1 3 3 base ch l t)"
    "0 \<le> sint (bal ch w l t)"
proof -
  have wf: "chan_wf ch" and c: "\<And>t. covered base ch l t" and T: "base l LOCAL + base l REMOTE < max_total"
    using assms by (auto simp: solvent_def)
  have "bal ch w l t = of_int (if w = t then level 3 6 8 3 3 1 1 base ch l t else level 1 8 6 1 1 3 3 base ch l t)"
    using assms unfolding solvent_def agrees_def view_level [OF wf, symmetric] by blast
  then show "uint (bal ch w l t) = (if w = t then level 3 6 8 3 3 1 1 base ch l t else level 1 8 6 1 1 3 3 base ch l t)"
    "0 \<le> sint (bal ch w l t)"
    using covered_bounds [OF c, of t] c [of t] T u64_of_int by (auto simp: covered_def)
qed

section \<open>Events\<close>

lemma level_ge:
  assumes "0 \<le> level a f c p q p' s base ch l t"
    and "a \<le> a'" "f' \<le> f" "c' \<le> c" "p \<le> r" "q' \<le> q" "p' \<le> r'" "s' \<le> s"
  shows "0 \<le> level a' f' c' r q' r' s' base ch l t"
  using order_trans [OF assms(1) level_mono [OF assms(2-8)]] .

text \<open>What the event makes of the HTLCs and the swap.\<close>

context chan_event
begin

definition moved_to :: "channel \<Rightarrow> channel \<Rightarrow> bool" where
  "moved_to ch ch' \<longleftrightarrow> htlcs ch' = filter (\<lambda>h. \<not> htlc_is_dead h) (map (advance S) (htlcs ch))
     \<and> chan_swap ch' = advance_swap S (chan_swap ch)"

lemma level_moved:
  assumes "chan_wf ch" "moved_to ch ch'" "a \<le> 9" "f \<le> 9" "c \<le> 9"
  shows "level a f c p q p' q' (rebase ch base) ch' l t =
     (if t = s then level (prior P a) (prior P f) (prior Q c) (prior P p) (prior P q) (prior Q p') (prior Q q') base ch l t
      else level (prior Q a) (prior Q f) (prior P c) (prior Q p) (prior Q q) (prior P p') (prior P q') base ch l t)"
  using level_event [OF assms(1) _ _ assms(3-5)] assms(2) by (simp add: moved_to_def)

end

context commit_event
begin

lemma covered_event:
  assumes wf: "chan_wf ch" and m: "moved_to ch ch'" and c: "covered base ch l t"
  shows "covered (rebase ch base) ch' l t"
proof (cases "t = s")
  case True
  have "0 \<le> level 0 7 5 0 0 0 2 base ch l t"
    by (rule level_ge [of 0 7 5 0 1 0 3]) (use c in \<open>simp_all add: covered_def\<close>)
  with True c show ?thesis by (simp add: covered_def level_moved [OF wf m] prior_def)
next
  case False
  have "0 \<le> level 2 5 7 2 2 0 0 base ch l t"
    by (rule level_ge [of 2 6 7 2 2 0 1]) (use c in \<open>simp_all add: covered_def\<close>)
  with False c show ?thesis by (simp add: covered_def level_moved [OF wf m] prior_def)
qed

end

context revoke_event
begin

lemma covered_event:
  assumes wf: "chan_wf ch" and m: "moved_to ch ch'" and c: "covered base ch l t"
  shows "covered (rebase ch base) ch' l t"
proof (cases "t = s")
  case True
  have "0 \<le> level 1 6 6 1 1 0 1 base ch l t"
    by (rule level_ge [of 1 8 6 1 1 0 3]) (use c in \<open>simp_all add: covered_def\<close>)
  with True c show ?thesis by (simp add: covered_def level_moved [OF wf m] prior_def)
next
  case False
  have "0 \<le> level 0 6 5 0 1 0 3 base ch l t"
    by (rule level_ge [of 0 7 5 0 1 0 3]) (use c in \<open>simp_all add: covered_def\<close>)
  with False c show ?thesis by (simp add: covered_def level_moved [OF wf m] prior_def)
qed

end

text \<open>
  A solvent event: its positions are such that what was covered is covered after it. Then it runs, and
  leaves a solvent channel.
\<close>

locale solvent_event = chan_event +
  assumes keeps_covered:
    "chan_wf ch \<Longrightarrow> moved_to ch ch' \<Longrightarrow> covered base ch l t \<Longrightarrow> covered (rebase ch base) ch' l t"
begin

lemma rebase_total:
  "rebase ch base l LOCAL + rebase ch base l REMOTE = base l LOCAL + base l REMOTE"
  using settled_total [of l "gone ch"] by (simp add: rebase_def)

lemma new_balance:
  assumes "solvent n T base ch" "l < n"
  shows "0 \<le> sint (bal ch v l t + of_int (event_delta ch v S l t))"
proof -
  let ?ch = "ch\<lparr>htlcs := filter (\<lambda>h. \<not> htlc_is_dead h) (map (advance S) (htlcs ch)),
      chan_swap := advance_swap S (chan_swap ch)\<rparr>"
  have wf: "chan_wf ch" and c: "\<And>t. covered base ch l t" and T: "base l LOCAL + base l REMOTE < max_total"
    and b: "bal ch v l t = of_int (base l t + lane_sum (adj v t) l (htlcs ch) + swap_adj v l t (chan_swap ch))"
    using assms unfolding solvent_def agrees_def by (blast, blast, metis, blast)
  have m: "moved_to ch ?ch" by (simp add: moved_to_def)
  have wf': "chan_wf ?ch"
    using wf swap_wf_event [of "nlanes ch" "chan_swap ch"] by (auto simp: chan_wf_def)
  have c': "covered (rebase ch base) ?ch l t" for t
    by (rule keeps_covered [OF wf m c])
  define V where "V = (if v = t then level 3 6 8 3 3 1 1 (rebase ch base) ?ch l t
      else level 1 8 6 1 1 3 3 (rebase ch base) ?ch l t)"
  have "bal ch v l t + of_int (event_delta ch v S l t) =
      of_int (base l t + lane_sum (adj v t \<circ> advance S) l (htlcs ch) + swap_adj v l t (chan_swap ?ch))"
    unfolding b event_delta_def by (simp add: lane_sum_map_advance)
  also have "base l t + lane_sum (adj v t \<circ> advance S) l (htlcs ch)
      = rebase ch base l t + lane_sum (adj v t) l (htlcs ?ch)"
    using lane_sum_event [of "adj v t" t l ch] adj_dead [of _ v t] by (simp add: rebase_def)
  also have "rebase ch base l t + lane_sum (adj v t) l (htlcs ?ch) + swap_adj v l t (chan_swap ?ch) = V"
    unfolding V_def by (rule view_level [OF wf'])
  finally show ?thesis
    using covered_bounds [OF c', of t] c' [of t] T rebase_total [of ch base l] u64_of_int [of V]
    by (auto simp: V_def covered_def split: if_splits)
qed

lemma runs_solvent:
  assumes "solvent n T base ch"
  shows "\<exists>c ch' changed. change_htlcs ch v S = Some (c, ch', changed) \<and> solvent n T (rebase ch base) ch'"
proof -
  have wf: "chan_wf ch" and n: "nlanes ch = n" using assms by (auto simp: solvent_def)
  note e = change_htlcs_effect [OF all_succ wf, of v]
  have "change_htlcs ch v S \<noteq> None"
    using e new_balance [OF assms] solvent_balance(2) [OF assms] n by blast
  then obtain c ch' changed where r: "change_htlcs ch v S = Some (c, ch', changed)" by auto
  with e have m: "moved_to ch ch'" "nlanes ch' = n" using n by (auto simp: moved_to_def)
  have "solvent n T (rebase ch base) ch'"
    using agrees_event [OF r wf, of base] assms m rebase_total keeps_covered [OF wf m(1)]
    unfolding solvent_def by auto
  with r show ?thesis by blast
qed

end

sublocale commit_event \<subseteq> solvent_event s "other s" "{0, 7}" "{2, 5}" S
  by unfold_locales (rule covered_event)

sublocale revoke_event \<subseteq> solvent_event s s "{1, 8}" "{3, 6}" S
  by unfold_locales (rule covered_event)

section \<open>What the checks compute\<close>

lemma pending_positions:
  "state_has s (HTLC_FLAG (other (htlc_state_owner s)) HTLC_F_PENDING) \<longleftrightarrow> life_pos s \<in> {0, 7}"
  "state_has s (HTLC_FLAG (htlc_state_owner s) HTLC_F_PENDING) \<longleftrightarrow> life_pos s \<in> {2, 5}"
  by (cases s; simp add: htlc_state_owner_def state_lt_iff flag_simps life_pos_def)+

lemma gather_lane_lists:
  assumes "gather_lane_htlcs hs side (Some l) = (n, c, r, a)"
  shows "r = filter (\<lambda>h. unat (h_lane h) = l \<and> htlc_has h (HTLC_FLAG side HTLC_F_COMMITTED)
                       \<and> htlc_has h (HTLC_FLAG side HTLC_F_PENDING)) hs"
    and "a = filter (\<lambda>h. unat (h_lane h) = l \<and> \<not> htlc_has h (HTLC_FLAG side HTLC_F_COMMITTED)
                       \<and> htlc_has h (HTLC_FLAG side HTLC_F_PENDING)) hs"
  using assms by (induction hs arbitrary: n c r a) (auto simp: Let_def split: prod.splits if_splits)

lemma foldl_word_sum:
  assumes "\<And>b h. h \<in> set hs \<Longrightarrow> step b h = b + of_int (g h)"
  shows "foldl step (b :: u64) hs = b + of_int (\<Sum>h \<leftarrow> hs. g h)"
  using assms by (induction hs arbitrary: b) (auto simp: add.assoc)

definition paid_out :: "side \<Rightarrow> htlc \<Rightarrow> int" where
  "paid_out t h = (if t = (if h_r h \<noteq> None then other (htlc_owner h) else htlc_owner h) then hamt h else 0)"

definition offered :: "side \<Rightarrow> htlc \<Rightarrow> int" where
  "offered t h = (if htlc_owner h = t then hamt h else 0)"

lemma foldl_balance_remove:
  "foldl (\<lambda>b h. balance_remove_htlc b h t) b hs = b + of_int (\<Sum>h \<leftarrow> hs. paid_out t h)"
  by (rule foldl_word_sum) (simp add: balance_remove_htlc_def paid_out_def Let_def of_int_hamt)

lemma foldl_balance_add:
  "foldl (\<lambda>b h. balance_add_htlc b h t) b hs = b + of_int (\<Sum>h \<leftarrow> hs. - offered t h)"
  by (rule foldl_word_sum) (simp add: balance_add_htlc_def offered_def of_int_hamt)

lemma sum_filter_lane:
  "(\<Sum>h \<leftarrow> filter (\<lambda>h. unat (h_lane h) = l \<and> R h) hs. g h) = lane_sum (\<lambda>h. if R h then g h else 0) l hs"
  by (induction hs) auto

lemma contrib_pending:
  defines "com \<equiv> \<lambda>v h. htlc_has h (HTLC_FLAG v HTLC_F_COMMITTED)"
    and "pen \<equiv> \<lambda>v h. htlc_has h (HTLC_FLAG v HTLC_F_PENDING)"
  shows "contrib 0 7 5 t h = contrib 1 8 6 t h
       + (if com (other t) h \<and> pen (other t) h then paid_out t h else 0)
       - (if \<not> com (other t) h \<and> pen (other t) h then offered t h else 0)"
    and "contrib 0 8 6 t h = contrib 1 8 6 t h - (if \<not> com (other t) h \<and> pen (other t) h then offered t h else 0)"
    and "contrib 2 6 8 t h = contrib 3 6 8 t h - (if \<not> com t h \<and> pen t h then offered t h else 0)"
proof -
  have c: "com v h \<longleftrightarrow> (if v = htlc_owner h then hpos h \<in> {3..5} else hpos h \<in> {1..7})" for v
    using committed_positions [of "h_state h"] neq_side_iff [of v "htlc_owner h"]
    by (auto simp: com_def htlc_has_def htlc_owner_def hpos_def)
  have p: "pen v h \<longleftrightarrow> (if v = htlc_owner h then hpos h \<in> {2, 5} else hpos h \<in> {0, 7})" for v
    using pending_positions [of "h_state h"] neq_side_iff [of v "htlc_owner h"]
    by (auto simp: pen_def htlc_has_def htlc_owner_def hpos_def)
  have o: "htlc_owner h = t \<or> htlc_owner h = other t" using neq_side_iff by blast
  have k: "hpos h \<noteq> 0 \<longleftrightarrow> 1 \<le> hpos h" "8 \<le> hpos h \<longleftrightarrow> 7 \<le> hpos h \<and> hpos h \<noteq> 7"
    "6 \<le> hpos h \<longleftrightarrow> 5 \<le> hpos h \<and> hpos h \<noteq> 5" "3 \<le> hpos h \<longleftrightarrow> 2 \<le> hpos h \<and> hpos h \<noteq> 2" by auto
  show "contrib 0 7 5 t h = contrib 1 8 6 t h
       + (if com (other t) h \<and> pen (other t) h then paid_out t h else 0)
       - (if \<not> com (other t) h \<and> pen (other t) h then offered t h else 0)"
    using o unfolding c p contrib_def paid_out_def offered_def by (auto simp: k(2,3))
  show "contrib 0 8 6 t h = contrib 1 8 6 t h - (if \<not> com (other t) h \<and> pen (other t) h then offered t h else 0)"
    using o unfolding c p contrib_def paid_out_def offered_def by auto
  show "contrib 2 6 8 t h = contrib 3 6 8 t h - (if \<not> com t h \<and> pen t h then offered t h else 0)"
    using o unfolding c p contrib_def paid_out_def offered_def by (auto simp: k(4))
qed

text \<open>What is promised to swaps: the one in flight, as the levels count it, and the one asked for.\<close>

definition swap_small :: "sym_swap option \<Rightarrow> bool" where
  "swap_small swap = (case swap of None \<Rightarrow> True
     | Some sw \<Rightarrow> msat (swap_give sw) < 2 ^ 61 \<and> msat (swap_take sw) < 2 ^ 61)"

lemma swap_promised_level:
  assumes "swap_promised ch v l t = Some p" "swap_wf n (chan_swap ch)" "swap_small (chan_swap_req ch)"
  obtains e where "0 \<le> e" "e < max_total"
    "int (msat p) = e + (if v = t then swap_level 3 3 1 1 l t (chan_swap ch) - swap_level 0 3 0 1 l t (chan_swap ch)
                         else swap_level 1 1 3 3 l t (chan_swap ch) - swap_level 0 1 0 3 l t (chan_swap ch))"
proof -
  define due where "due = (\<lambda>s :: sym_swap option. case s of None \<Rightarrow> (0 :: nat)
      | Some sw \<Rightarrow> if state_has (swap_state sw) (HTLC_FLAG v HTLC_F_COMMITTED) then 0
          else if htlc_state_owner (swap_state sw) = t \<and> unat (give_lane sw) = l then msat (swap_give sw)
          else if htlc_state_owner (swap_state sw) \<noteq> t \<and> unat (take_lane sw) = l then msat (swap_take sw) else 0)"
  define step where "step = (\<lambda>total (s :: sym_swap option). case s of None \<Rightarrow> Some total
      | Some sw \<Rightarrow>
          if state_has (swap_state sw) (HTLC_FLAG v HTLC_F_COMMITTED) then Some total
          else let owner = htlc_state_owner (swap_state sw)
               in if owner = t \<and> unat (give_lane sw) = l then amount_msat_accumulate total (swap_give sw)
                  else if owner \<noteq> t \<and> unat (take_lane sw) = l then amount_msat_accumulate total (swap_take sw)
                  else Some total)"
  have step: "msat y = msat x + due s" if "step x s = Some y" for x y s
  proof (cases s)
    case (Some sw)
    with that show ?thesis
      unfolding step_def due_def Some Let_def amount_msat_accumulate_def option.case
      by (auto simp: msat_arith.add_iff split: if_splits)
  qed (use that in \<open>simp add: step_def due_def\<close>)
  have "swap_promised ch v l t = do { t1 \<leftarrow> step (AMOUNT_MSAT 0) (chan_swap ch); step t1 (chan_swap_req ch) }"
    unfolding swap_promised_def step_def Let_def ..
  with assms(1) obtain t1 where "step (AMOUNT_MSAT 0) (chan_swap ch) = Some t1" "step t1 (chan_swap_req ch) = Some p"
    by (auto simp: bind_eq_Some_conv)
  then have "msat p = due (chan_swap ch) + due (chan_swap_req ch)"
    using step [of "AMOUNT_MSAT 0" "chan_swap ch" t1] step [of t1 "chan_swap_req ch" p] by simp
  moreover have "int (due (chan_swap_req ch)) < max_total"
    using assms(3) by (auto simp: due_def swap_small_def split: option.splits)
  moreover have "int (due (chan_swap ch)) =
      (if v = t then swap_level 3 3 1 1 l t (chan_swap ch) - swap_level 0 3 0 1 l t (chan_swap ch)
       else swap_level 1 1 3 3 l t (chan_swap ch) - swap_level 0 1 0 3 l t (chan_swap ch))"
  proof (cases "chan_swap ch")
    case (Some sw)
    have "state_has (swap_state sw) (HTLC_FLAG v HTLC_F_COMMITTED) \<longleftrightarrow>
        (if v = htlc_state_owner (swap_state sw) then 3 else 1) \<le> life_pos (swap_state sw)"
      using assms(2) committed_positions [of "swap_state sw"] neq_side_iff [of v "htlc_state_owner (swap_state sw)"]
      by (auto simp: Some swap_wf_def)
    then show ?thesis
      using neq_side_iff [of t "htlc_state_owner (swap_state sw)"] neq_side_iff [of v "htlc_state_owner (swap_state sw)"]
      by (auto simp: due_def Some swap_level_def swap_part_def Let_def)
  qed (simp add: due_def swap_level_def)
  ultimately show ?thesis
    using that [of "int (due (chan_swap_req ch))"] by simp
qed

lemma sint_of_int_nonneg:
  assumes "- 9223372036854775808 \<le> x" "0 \<le> sint (of_int x :: u64)"
  shows "0 \<le> x"
proof (rule ccontr)
  assume neg: "\<not> 0 \<le> x"
  have "uint (of_int x :: u64) = x mod 18446744073709551616"
    by (simp add: uint_word_of_int)
  also have "\<dots> = x + 18446744073709551616"
    using neg assms(1) mod_pos_pos_trivial [of "x + 18446744073709551616" 18446744073709551616]
    by (simp del: mod_pos_pos_trivial)
  finally have "9223372036854775808 \<le> uint (of_int x :: u64)" using assms(1) by linarith
  moreover have "unat (of_int x :: u64) < 9223372036854775808" using assms(2) sint_u64_nonneg_iff by blast
  moreover have "uint (of_int x :: u64) = int (unat (of_int x :: u64))" by (rule uint_nat)
  ultimately show False by linarith
qed

lemma lane_sum_diff: "lane_sum (\<lambda>h. g h - f h) l hs = lane_sum g l hs - lane_sum f l hs"
  by (induction hs) auto

lemma room_level:
  assumes sol: "solvent n T base ch" and l: "l < n" and g: "gather_lane_htlcs (htlcs ch) (other t) (Some l) = (k, c, r, a)"
    and p: "swap_promised ch (other t) l t = Some p" and req: "swap_small (chan_swap_req ch)"
  shows "\<exists>e. 0 \<le> e \<and> e < max_total \<and> (\<forall>x h. foldl (\<lambda>b h. balance_add_htlc b h t)
        (foldl (\<lambda>b h. balance_remove_htlc b h t) (bal ch (other t) l t + of_int x) r) (a @ [h]) - millisatoshis p
      = of_int (level 0 7 5 0 1 0 3 base ch l t + x - offered t h - e))"
proof -
  have wf: "chan_wf ch" "swap_wf (nlanes ch) (chan_swap ch)" using sol by (auto simp: solvent_def chan_wf_def)
  define pm where "pm = int (msat p)"
  obtain e where e: "0 \<le> e" "e < max_total" "pm = e
      + (swap_level 1 1 3 3 l t (chan_swap ch) - swap_level 0 1 0 3 l t (chan_swap ch))"
    using swap_promised_level [OF p wf(2) req] by (auto simp: pm_def)
  have pw: "millisatoshis p = of_int pm" by (simp add: pm_def)
  have b: "bal ch (other t) l t = of_int (level 1 8 6 1 1 3 3 base ch l t)"
    using solvent_balance(1) [OF sol l, of "other t" t]
    by (metis (no_types, lifting) other_neq(1) word_of_int_uint)
  define com pen where "com = (\<lambda>h. htlc_has h (HTLC_FLAG (other t) HTLC_F_COMMITTED))"
    and "pen = (\<lambda>h. htlc_has h (HTLC_FLAG (other t) HTLC_F_PENDING))"
  have "(\<Sum>h \<leftarrow> r. paid_out t h) + (\<Sum>h \<leftarrow> a. - offered t h)
      = lane_sum (\<lambda>h. (if com h \<and> pen h then paid_out t h else 0)
           + (if \<not> com h \<and> pen h then - offered t h else 0)) l (htlcs ch)"
    unfolding gather_lane_lists [OF g] sum_filter_lane lane_sum_plus com_def pen_def ..
  also have "\<dots> = lane_sum (\<lambda>h. contrib 0 7 5 t h - contrib 1 8 6 t h) l (htlcs ch)"
    by (rule lane_sum_cong) (simp add: contrib_pending(1) com_def pen_def)
  also have "\<dots> = lane_sum (contrib 0 7 5 t) l (htlcs ch) - lane_sum (contrib 1 8 6 t) l (htlcs ch)"
    by (rule lane_sum_diff)
  finally have sums: "(\<Sum>h \<leftarrow> r. paid_out t h) + (\<Sum>h \<leftarrow> a. - offered t h)
      = lane_sum (contrib 0 7 5 t) l (htlcs ch) - lane_sum (contrib 1 8 6 t) l (htlcs ch)" .
  have "foldl (\<lambda>b h. balance_add_htlc b h t)
        (foldl (\<lambda>b h. balance_remove_htlc b h t) (bal ch (other t) l t + of_int x) r) (a @ [h]) - millisatoshis p
      = of_int (level 1 8 6 1 1 3 3 base ch l t + x
         + ((\<Sum>h \<leftarrow> r. paid_out t h) + (\<Sum>h \<leftarrow> a. - offered t h)) - offered t h - pm)" for x h
    unfolding foldl_balance_remove foldl_balance_add b pw by (simp add: add.assoc)
  moreover have "level 1 8 6 1 1 3 3 base ch l t + x
         + ((\<Sum>h \<leftarrow> r. paid_out t h) + (\<Sum>h \<leftarrow> a. - offered t h)) - offered t h - pm
      = level 0 7 5 0 1 0 3 base ch l t + x - offered t h - e" for x h
    unfolding sums e(3) by (simp add: level_def)
  ultimately show ?thesis using e(1,2) by metis
qed

lemma room_enough:
  assumes sol: "solvent n T base ch" and l: "l < n" and x: "x \<le> 0" "- max_total \<le> x"
    and e: "0 \<le> e" "e < max_total" and h: "0 \<le> offered t h" "offered t h < max_total"
    and ok: "0 \<le> sint (of_int (level 0 7 5 0 1 0 3 base ch l t + x - offered t h - e) :: u64)"
  shows "offered t h \<le> level 0 7 5 0 1 0 3 base ch l t"
proof -
  have "0 \<le> level 0 7 5 0 1 0 3 base ch l t" using sol l by (simp add: solvent_def covered_def)
  then have "0 \<le> level 0 7 5 0 1 0 3 base ch l t + x - offered t h - e"
    by (intro sint_of_int_nonneg [OF _ ok]) (use x e h in linarith)
  then show ?thesis using x e by linarith
qed

lemma lane_room_level:
  assumes "lane_room ch (other t) l (a @ [h]) r t = Some True"
    and sol: "solvent n T base ch" and l: "l < n" and g: "gather_lane_htlcs (htlcs ch) (other t) (Some l) = (k, c, r, a)"
    and req: "swap_small (chan_swap_req ch)" and h: "offered t h < max_total"
  shows "offered t h \<le> level 0 7 5 0 1 0 3 base ch l t"
proof -
  have n: "nlanes ch = n" using sol by (simp add: solvent_def)
  have ow: "sym_lane_owed ch l (other t) t = Some ((view_amounts ch (other t) ! l) t)"
    using l n by (cases l) (auto simp: sym_lane_owed_def view_amounts_def nlanes_def)
  obtain p where p: "swap_promised ch (other t) l t = Some p"
    and ok: "balance_ok (foldl (\<lambda>b h. balance_add_htlc b h t)
        (foldl (\<lambda>b h. balance_remove_htlc b h t) (bal ch (other t) l t) r) (a @ [h]) - millisatoshis p) \<noteq> None"
    using assms(1) by (auto simp: lane_room_def ow to_balance_def bind_eq_Some_conv bal_def Let_def split: if_splits)
  obtain e where e: "0 \<le> e" "e < max_total" and w: "\<And>x h. foldl (\<lambda>b h. balance_add_htlc b h t)
        (foldl (\<lambda>b h. balance_remove_htlc b h t) (bal ch (other t) l t + of_int x) r) (a @ [h]) - millisatoshis p
      = of_int (level 0 7 5 0 1 0 3 base ch l t + x - offered t h - e)"
    using room_level [OF sol l g p req] by blast
  have "0 \<le> sint (of_int (level 0 7 5 0 1 0 3 base ch l t + 0 - offered t h - e) :: u64)"
    using ok w [of 0 h] by (simp add: balance_ok_def not_less split: if_splits)
  then show ?thesis by (intro room_enough [OF sol l, of 0 e]) (use e h in \<open>simp_all add: offered_def\<close>)
qed

lemma get_room_level:
  assumes "get_room_above_reserve ch (other t) (a @ [h]) r t = Some (Some rem)"
    and sol: "solvent n T base ch" and g: "gather_lane_htlcs (htlcs ch) (other t) (Some 0) = (k, c, r, a)"
    and req: "swap_small (chan_swap_req ch)" and h: "offered t h < max_total"
  shows "offered t h \<le> level 0 7 5 0 1 0 3 base ch 0 t"
proof -
  have l: "0 < n" using sol by (auto simp: solvent_def nlanes_def)
  define ow where "ow = owed (view ch (other t)) t"
  have ow: "millisatoshis ow = bal ch (other t) 0 t" by (simp add: ow_def bal_def view_amounts_def)
  define splice where "splice = AMOUNT_SAT (- lowest_splice_amnt (view ch (other t)) t)"
  have tb: "to_balance x = Some y \<Longrightarrow> y = millisatoshis x" for x y by (simp add: to_balance_def split: if_splits)
  define final where "final = (\<lambda>w p. foldl (\<lambda>b h. balance_add_htlc b h t)
        (foldl (\<lambda>b h. balance_remove_htlc b h t) w r) (a @ [h]) - millisatoshis p)"
  obtain ow1 p where sub: "amount_msat_sub_sat ow splice = Some ow1"
    and p: "swap_promised ch (other t) 0 t = Some p"
    and ok: "balance_ok (final (millisatoshis ow1) p) \<noteq> None"
    using assms(1)
    unfolding get_room_above_reserve_def Let_def ow_def [symmetric] splice_def [symmetric]
    by (auto simp: bind_eq_Some_conv final_def dest!: tb split: if_splits option.splits)
  obtain mm where "amount_msat_sub ow mm = Some ow1"
    using sub by (auto simp: amount_msat_sub_sat_def bind_eq_Some_conv split: option.splits)
  then have "msat ow = msat ow1 + msat mm" by (simp add: msat_arith.sub_iff)
  then obtain m where m: "msat ow = msat ow1 + m" by blast
  define x where "x = - int m"
  have mx: "int m < max_total"
  proof -
    have c: "\<And>t. covered base ch 0 t" and T: "base 0 LOCAL + base 0 REMOTE < max_total"
      using sol l by (auto simp: solvent_def)
    have "int (msat ow) = level 1 8 6 1 1 3 3 base ch 0 t"
      using solvent_balance(1) [OF sol l, of "other t" t] ow by simp
    then show ?thesis using covered_bounds(2) [OF c, of t] T m by linarith
  qed
  have ow1: "millisatoshis ow1 = bal ch (other t) 0 t + of_int x"
  proof -
    have "of_nat (msat ow) = (of_nat (msat ow1 + m) :: u64)" using m by simp
    then show ?thesis by (simp add: x_def ow [symmetric])
  qed
  obtain e where e: "0 \<le> e" "e < max_total" and w: "\<And>x h. foldl (\<lambda>b h. balance_add_htlc b h t)
        (foldl (\<lambda>b h. balance_remove_htlc b h t) (bal ch (other t) 0 t + of_int x) r) (a @ [h]) - millisatoshis p
      = of_int (level 0 7 5 0 1 0 3 base ch 0 t + x - offered t h - e)"
    using room_level [OF sol l g p req] by blast
  have "0 \<le> sint (of_int (level 0 7 5 0 1 0 3 base ch 0 t + x - offered t h - e) :: u64)"
    using ok unfolding final_def ow1 w by (simp add: balance_ok_def not_less split: if_splits)
  then show ?thesis by (intro room_enough [OF sol l, of x e]) (use e h mx in \<open>simp_all add: offered_def x_def\<close>)
qed

lemma affordable_room:
  assumes "affordable cp mf ch t committed adding removing = Some (True, fee)"
  shows "\<exists>rem. get_room_above_reserve ch (other t) adding removing t = Some (Some rem)"
proof -
  obtain fee where "sender_affords cp mf ch t committed adding removing fee = Some True"
    using assms by (auto simp: affordable_def bind_eq_Some_conv split: if_splits)
  then show ?thesis by (auto simp: sender_affords_def bind_eq_Some_conv split: option.splits)
qed

text \<open>An HTLC that was added could be afforded in the peer's commitment with everything pending.\<close>

lemma add_htlc_room:
  fixes state hid amount expiry hash routing pk tlvs lane
  defines "h \<equiv> new_htlc state hid amount expiry hash routing pk tlvs lane"
    and "t \<equiv> htlc_state_owner state"
  assumes sol: "solvent n T base ch" and small: "swap_small (chan_swap_req ch)" "offered t h < max_total"
  shows "add_post ch h (unat lane < n \<and> offered t h \<le> level 0 7 5 0 1 0 3 base ch (unat lane) t)
     (add_htlc cp mf ch state hid amount expiry hash routing pk True tlvs imm lane)"
proof -
  have fresh: "\<not> h_fail_immediate h" by (simp add: h_def new_htlc_def)
  have n: "sym_num_lanes ch = n" using sol by (auto simp: solvent_def chan_wf_def nlanes_def sym_num_lanes_def)
  have lane: "offered t h \<le> level 0 7 5 0 1 0 3 base ch (unat lane) t"
    if "lane_room ch (other t) (unat lane) (a @ [h]) r t = Some True" "unat lane < n"
      "gather_lane_htlcs (htlcs ch) (other t) (Some (unat lane)) = (k, c, r, a)" for a r k c
    using lane_room_level [OF that(1) sol that(2,3) small] .
  have zero: "offered t h \<le> level 0 7 5 0 1 0 3 base ch 0 t"
    if "affordable cp mf ch t c (a @ [h]) r = Some (True, fee)"
      "gather_lane_htlcs (htlcs ch) (other t) (Some 0) = (k, c, r, a)" for a r k c fee
    using affordable_room [OF that(1)] get_room_level [OF _ sol that(2) small] by blast
  show ?thesis
    unfolding add_htlc_def Let_def h_def [symmetric] t_def [symmetric] n
    by (intro add_post_intros add_checking_dust_post)
      (auto simp: fresh simp del: One_nat_def intro: lane zero)
qed

section \<open>Every step keeps a channel solvent\<close>

lemma level_add:
  assumes "hpos h = 0"
  shows "level a f c p q p' q' base (ch\<lparr>htlcs := h # htlcs ch\<rparr>) l t =
     level a f c p q p' q' base ch l t + (if unat (h_lane h) = l then contrib a f c t h else 0)"
  by (simp add: level_def)

lemma solvent_add:
  assumes sol: "solvent n T base ch" and h: "hpos h = 0" "htlc_owner h = t" "unat (h_lane h) < n"
    and room: "offered t h \<le> level 0 7 5 0 1 0 3 base ch (unat (h_lane h)) t"
  shows "solvent n T base (ch\<lparr>htlcs := h # htlcs ch\<rparr>)"
proof -
  have wf: "chan_wf ch" "agrees base ch" "sym_num_lanes ch = n"
    using sol by (auto simp: solvent_def chan_wf_def nlanes_def sym_num_lanes_def)
  have z: "contrib a f c s h = 0" if "0 < a" "0 < f" "0 < c" for a f c s
    using that h(1) by (simp add: contrib_def)
  have j: "contrib 0 7 5 s h = - offered s h" for s
    using h(1) by (simp add: contrib_def offered_def)
  have "covered base (ch\<lparr>htlcs := h # htlcs ch\<rparr>) l s" if "l < n" for l s
    using sol that room h(2) unfolding covered_def level_add [OF h(1)] solvent_def
    by (auto simp: z j offered_def)
  then show ?thesis
    using agrees_add [OF wf(2,1) h(1)] h(3) wf(3) sol by (simp add: solvent_def)
qed

lemma solvent_put:
  assumes sol: "solvent n T base ch" and g: "htlc_get (htlcs ch) hid owner = Some h" and irr: "irrevocable h"
  shows "solvent n T base (ch\<lparr>htlcs := htlc_put hid owner (removing_htlc r h) (htlcs ch)\<rparr>)"
proof -
  let ?ch = "ch\<lparr>htlcs := htlc_put hid owner (removing_htlc r h) (htlcs ch)\<rparr>"
  have le: "contrib a f c t h \<le> contrib a f c t (removing_htlc r h)" if "a \<noteq> 5" "5 < f" "4 < c" for a f c t
    using that irr by (auto simp: contrib_def irrevocable_def)
  have keep: "0 \<le> level a f c p q p' q' base ?ch l t"
    if "0 \<le> level a f c p q p' q' base ch l t" "a \<noteq> 5" "5 < f" "4 < c" for a f c p q p' q' l t
    using that(1) le [OF that(2-4), of t] by (simp add: level_def htlc_put_sum [OF g])
  have "covered base ch l t \<Longrightarrow> covered base ?ch l t" for l t
    unfolding covered_def by (intro conjI; rule keep) simp_all
  then show ?thesis
    using agrees_put [OF _ _ g irr, of base r] sol by (auto simp: solvent_def)
qed


subsection \<open>Swaps\<close>

lemma level_no_swap:
  "chan_swap ch = None \<Longrightarrow> level a f c p q p' q' base ch l t = level a f c 0 0 0 0 base ch l t"
  by (simp add: level_def swap_level_def)

text \<open>The view's balance with what is pending taken off but not what is pending to come back.\<close>

lemma pending_bound:
  assumes sol: "solvent n T base ch" and l: "l < n" and no: "chan_swap ch = None"
  shows "- max_total < level 0 8 6 0 0 0 0 base ch l t" "- max_total < level 2 6 8 0 0 0 0 base ch l t"
proof -
  have c: "covered base ch l s" for s using sol l by (simp add: solvent_def)
  have T: "base l t + base l (other t) < max_total" using sol l by (cases t) (auto simp: solvent_def add.commute)
  have o: "htlc_owner h = t \<or> htlc_owner h = other t" for h using neq_side_iff by blast
  have "contrib 0 7 5 t h + (contrib 1 8 6 t h + contrib 3 6 8 (other t) h) \<le> contrib 0 8 6 t h" for h
    using o [of h] by (auto simp: contrib_def)
  from lane_sum_mono [of "htlcs ch", OF this] have "lane_sum (contrib 0 7 5 t) l (htlcs ch)
      + (lane_sum (contrib 1 8 6 t) l (htlcs ch) + lane_sum (contrib 3 6 8 (other t)) l (htlcs ch))
      \<le> lane_sum (contrib 0 8 6 t) l (htlcs ch)" by (simp add: lane_sum_plus)
  then show "- max_total < level 0 8 6 0 0 0 0 base ch l t"
    using c [of t] c [of "other t"] T unfolding covered_def level_no_swap [OF no, of _ _ _ _ _ _ 3]
      level_no_swap [OF no, of _ _ _ _ _ _ 1] by (simp add: level_def swap_level_def no)
  have "contrib 2 6 7 t h + (contrib 3 6 8 t h + contrib 1 8 6 (other t) h) \<le> contrib 2 6 8 t h" for h
    using o [of h] by (auto simp: contrib_def)
  from lane_sum_mono [of "htlcs ch", OF this] have "lane_sum (contrib 2 6 7 t) l (htlcs ch)
      + (lane_sum (contrib 3 6 8 t) l (htlcs ch) + lane_sum (contrib 1 8 6 (other t)) l (htlcs ch))
      \<le> lane_sum (contrib 2 6 8 t) l (htlcs ch)" by (simp add: lane_sum_plus)
  then show "- max_total < level 2 6 8 0 0 0 0 base ch l t"
    using c [of t] c [of "other t"] T by (simp add: covered_def level_def swap_level_def no)
qed

lemma swap_affordable_level:
  assumes run: "swap_affordable_in ch t l amount v = Some True"
    and sol: "solvent n T base ch" and l: "l < n" and no: "chan_swap ch = None"
    and small: "swap_small (chan_swap_req ch)" "int (msat amount) < max_total"
  shows "int (msat amount) \<le> (if v = t then level 2 6 8 0 0 0 0 base ch l t else level 0 8 6 0 0 0 0 base ch l t)"
proof -
  have n: "nlanes ch = n" using sol by (simp add: solvent_def)
  define lev where "lev = (if v = t then level 2 6 8 0 0 0 0 base ch l t else level 0 8 6 0 0 0 0 base ch l t)"
  define now where "now = (if v = t then level 3 6 8 0 0 0 0 base ch l t else level 1 8 6 0 0 0 0 base ch l t)"
  have ow: "sym_lane_owed ch l v t = Some ((view_amounts ch v ! l) t)"
    using l n by (cases l) (auto simp: sym_lane_owed_def view_amounts_def nlanes_def)
  obtain k c r a where g: "gather_lane_htlcs (htlcs ch) v (Some l) = (k, c, r, a)" by (metis prod_cases4)
  have tb: "to_balance x = Some y \<Longrightarrow> y = millisatoshis x" for x y by (simp add: to_balance_def split: if_splits)
  define F where "F = (\<lambda>b p. foldl (\<lambda>b h. balance_add_htlc b h t) b a - millisatoshis p - millisatoshis amount)"
  define R where "R = (\<lambda>left. if l = 0 then do { reserve \<leftarrow> channel_reserve_of ch t;
      Some (amount_msat_deduct_sat left reserve \<noteq> None) } else Some True)"
  have X: "do { b0 \<leftarrow> to_balance ((view_amounts ch v ! l) t); p \<leftarrow> swap_promised ch v l t;
      case balance_ok (F b0 p) of None \<Rightarrow> Some False | Some left \<Rightarrow> R left } = Some True"
    using run unfolding swap_affordable_in_def g ow R_def F_def by simp
  then obtain b0 where "to_balance ((view_amounts ch v ! l) t) = Some b0"
    by (cases "to_balance ((view_amounts ch v ! l) t)") simp_all
  then have b0: "to_balance ((view_amounts ch v ! l) t) = Some (bal ch v l t)" using tb bal_def by metis
  obtain p where p: "swap_promised ch v l t = Some p"
    using X b0 by (cases "swap_promised ch v l t") simp_all
  have ok: "balance_ok (F (bal ch v l t) p) \<noteq> None"
    using X b0 p by (cases "balance_ok (F (bal ch v l t) p)") simp_all
  have wf: "swap_wf n (chan_swap ch)" by (simp add: no swap_wf_def)
  define pm am where "pm = int (msat p)" and "am = int (msat amount)"
  obtain e where e: "0 \<le> e" "e < max_total" "pm = e
      + (if v = t then swap_level 3 3 1 1 l t (chan_swap ch) - swap_level 0 3 0 1 l t (chan_swap ch)
         else swap_level 1 1 3 3 l t (chan_swap ch) - swap_level 0 1 0 3 l t (chan_swap ch))"
    unfolding pm_def by (rule swap_promised_level [OF p wf small(1)])
  then have pm: "0 \<le> pm" "pm < max_total" by (simp_all add: no swap_level_def)
  have w: "millisatoshis p = of_int pm" "millisatoshis amount = of_int am" by (simp_all add: pm_def am_def)
  have b: "bal ch v l t = of_int now"
    using solvent_balance(1) [OF sol l, of v t] level_no_swap [OF no, of 3 6 8 3 3 1 1 base l t]
      level_no_swap [OF no, of 1 8 6 1 1 3 3 base l t]
    by (metis (no_types, lifting) now_def word_of_int_uint)
  have sums: "(\<Sum>h \<leftarrow> a. - offered t h) = lev - now"
  proof -
    have "(\<Sum>h \<leftarrow> a. - offered t h) = lane_sum (\<lambda>h. if \<not> htlc_has h (HTLC_FLAG v HTLC_F_COMMITTED)
        \<and> htlc_has h (HTLC_FLAG v HTLC_F_PENDING) then - offered t h else 0) l (htlcs ch)"
      unfolding gather_lane_lists(2) [OF g] by (rule sum_filter_lane)
    also have "\<dots> = lane_sum (\<lambda>h. (if v = t then contrib 2 6 8 t h - contrib 3 6 8 t h
        else contrib 0 8 6 t h - contrib 1 8 6 t h)) l (htlcs ch)"
      using neq_side_iff [of v t] by (intro lane_sum_cong) (auto simp: contrib_pending(2,3))
    finally show ?thesis by (simp add: lev_def now_def level_def lane_sum_diff)
  qed
  have "F (bal ch v l t) p = of_int (lev - pm - am)"
    unfolding F_def foldl_balance_add b w sums by simp
  with ok have "0 \<le> sint (of_int (lev - pm - am) :: u64)" by (simp add: balance_ok_def not_less split: if_splits)
  moreover have "- max_total < lev" unfolding lev_def using pending_bound [OF sol l no, of t] by simp
  then have "- 9223372036854775808 \<le> lev - pm - am" using pm(2) small(2) unfolding am_def by linarith
  ultimately have "0 \<le> lev - pm - am" by (rule sint_of_int_nonneg [rotated])
  then show ?thesis using pm(1) unfolding lev_def am_def by linarith
qed

lemma swap_check_affordable:
  assumes "channel_sym_swap_check ch sw = Some None"
  defines "own \<equiv> htlc_state_owner (swap_state sw)"
  shows "chan_swap ch = None" "unat (give_lane sw) \<noteq> unat (take_lane sw)"
    "unat (give_lane sw) < sym_num_lanes ch" "unat (take_lane sw) < sym_num_lanes ch"
    "swap_affordable_in ch own (unat (give_lane sw)) (swap_give sw) v = Some True"
    "swap_affordable_in ch (other own) (unat (take_lane sw)) (swap_take sw) v = Some True"
proof -
  have aff: "swap_affordable ch p l a = Some True \<Longrightarrow> swap_affordable_in ch p l a v = Some True" for p l a v
    by (cases v) (auto simp: swap_affordable_def bind_eq_Some_conv split: if_splits)
  show "chan_swap ch = None" "unat (give_lane sw) \<noteq> unat (take_lane sw)"
    "unat (give_lane sw) < sym_num_lanes ch" "unat (take_lane sw) < sym_num_lanes ch"
    "swap_affordable_in ch own (unat (give_lane sw)) (swap_give sw) v = Some True"
    "swap_affordable_in ch (other own) (unat (take_lane sw)) (swap_take sw) v = Some True"
    using assms(1) unfolding channel_sym_swap_check_def Let_def own_def
    by (auto simp: bind_eq_Some_conv split: if_splits intro!: aff)
qed

lemma solvent_swap:
  assumes sol: "solvent n T base ch" and chk: "channel_sym_swap_check ch sw = Some None"
    and add: "channel_sym_swap_add ch sw = Some ch'"
    and small: "swap_small (chan_swap_req ch)" "swap_small (Some sw)"
  shows "solvent n T base ch'"
proof -
  note c = swap_check_affordable [OF chk]
  have pos: "life_pos (swap_state sw) = 0" and ch': "ch' = ch\<lparr>chan_swap := Some sw\<rparr>"
    using add by (auto simp: channel_sym_swap_add_def split: if_splits)
  define own where "own = htlc_state_owner (swap_state sw)"
  have n: "sym_num_lanes ch = n"
    using sol by (auto simp: solvent_def chan_wf_def nlanes_def sym_num_lanes_def)
  have "msat (swap_give sw) < 2305843009213693952" "msat (swap_take sw) < 2305843009213693952"
    using small(2) by (simp_all add: swap_small_def)
  then have s: "int (msat (swap_give sw)) < max_total" "int (msat (swap_take sw)) < max_total" by linarith+
  have give: "int (msat (swap_give sw)) \<le> level 0 8 6 0 0 0 0 base ch (unat (give_lane sw)) own"
    using swap_affordable_level [OF c(5) [of "other own", folded own_def] sol _ c(1) small(1) s(1)] c(3) n by simp
  have take: "int (msat (swap_take sw)) \<le> level 0 8 6 0 0 0 0 base ch (unat (take_lane sw)) (other own)"
      "int (msat (swap_take sw)) \<le> level 2 6 8 0 0 0 0 base ch (unat (take_lane sw)) (other own)"
    using swap_affordable_level [OF c(6) [of own, folded own_def] sol _ c(1) small(1) s(2)]
      swap_affordable_level [OF c(6) [of "other own", folded own_def] sol _ c(1) small(1) s(2)] c(4) n by simp_all
  have lev: "level a f k p q p' q' base ch' l t = level a f k 0 0 0 0 base ch l t + swap_part p q p' q' l t sw"
    for a f k p q p' q' l t
    by (simp add: level_def ch' swap_level_def c(1))
  have up: "level 0 8 6 0 0 0 0 base ch l t \<le> level 0 7 5 0 0 0 0 base ch l t"
      "level 0 8 6 0 0 0 0 base ch l t \<le> level 1 8 6 0 0 0 0 base ch l t"
      "level 2 6 8 0 0 0 0 base ch l t \<le> level 2 6 7 0 0 0 0 base ch l t" for l t
    by (rule level_mono; simp)+
  have "covered base ch' l t" if "l < n" for l t
  proof -
    have cov: "0 \<le> level 0 7 5 0 0 0 0 base ch l t" "0 \<le> level 1 8 6 0 0 0 0 base ch l t"
        "0 \<le> level 2 6 7 0 0 0 0 base ch l t" "0 \<le> level 3 6 8 0 0 0 0 base ch l t"
      using sol that by (simp_all add: solvent_def covered_def level_def swap_level_def c(1))
    show ?thesis
    proof (cases "t = own")
      case True
      then show ?thesis
        using cov give up(1) [of l t] unfolding covered_def lev swap_part_def Let_def own_def [symmetric] pos
        by (auto simp: swap_part_def)
    next
      case False
      then have "t = other own" by (simp add: neq_side_iff)
      then show ?thesis
        using cov take up [of l t] unfolding covered_def lev swap_part_def Let_def own_def [symmetric] pos
        by (auto simp: swap_part_def)
    qed
  qed
  moreover have "chan_wf ch'" "nlanes ch' = n"
    using sol c(3,4) n pos by (auto simp: ch' solvent_def chan_wf_def swap_wf_def nlanes_def sym_num_lanes_def)
  moreover have "agrees base ch'"
  proof -
    have "swap_adj w l t (Some sw) = 0" for w l t
      using pos committed_positions [of "swap_state sw"] neq_side_iff [of w "htlc_state_owner (swap_state sw)"]
      by (cases "w = htlc_state_owner (swap_state sw)") (auto simp: swap_adj_def)
    then show ?thesis using sol by (simp add: solvent_def agrees_def ch' bal_def c(1) swap_adj_def [of _ _ _ None])
  qed
  ultimately show ?thesis using sol by (simp add: solvent_def)
qed

lemma solvent_swap_done:
  assumes sol: "solvent n T base ch" and don: "channel_sym_swap_done ch = (True, ch')"
  shows "\<exists>base'. solvent n T base' ch'"
proof -
  obtain sw where sw: "chan_swap ch = Some sw"
    and st: "swap_state sw = SENT_ADD_ACK_REVOCATION \<or> swap_state sw = RCVD_ADD_ACK_REVOCATION"
    and ch': "ch' = ch\<lparr>chan_swap := None\<rparr>"
    using don by (auto simp: channel_sym_swap_done_def split: option.splits if_splits)
  define base' where "base' = (\<lambda>l t. base l t + swap_move sw l t)"
  have pos: "life_pos (swap_state sw) = 4" using st by auto
  have adj: "swap_adj w l t (Some sw) = swap_move sw l t" for w l t
    using st by (cases w) (auto simp: swap_adj_def flag_simps)
  have "swap_part p q p' q' l t sw = swap_move sw l t" if "p \<le> 4" "q \<le> 4" "p' \<le> 4" "q' \<le> 4" for p q p' q' l t
    using that by (auto simp: swap_part_def swap_move_def pos Let_def)
  then have "covered base ch l t \<Longrightarrow> covered base' ch' l t" for l t
    by (simp add: covered_def level_def ch' sw swap_level_def base'_def add.commute add.left_commute)
  moreover have "agrees base' ch'"
    using sol by (simp add: solvent_def agrees_def ch' bal_def sw adj swap_adj_def [of _ _ _ None] base'_def algebra_simps)
  moreover have "base' l LOCAL + base' l REMOTE = base l LOCAL + base l REMOTE" for l
    using swap_move_total [of sw l] by (simp add: base'_def)
  ultimately have "solvent n T base' ch'"
    using sol by (auto simp: solvent_def ch' chan_wf_def swap_wf_def)
  then show ?thesis by (rule exI [of _ base'])
qed

section \<open>Runs with small amounts\<close>

definition small :: "channel \<Rightarrow> bool" where
  "small ch \<longleftrightarrow> (\<forall>h \<in> set (htlcs ch). msat (h_amount h) < 2 ^ 61)
     \<and> swap_small (chan_swap ch) \<and> swap_small (chan_swap_req ch)"

definition small_step ::
  "chainparams \<Rightarrow> (u32 \<Rightarrow> u32) \<Rightarrow> (bytes \<Rightarrow> bytes) \<Rightarrow> (bytes \<Rightarrow> bytes option) \<Rightarrow> channel \<Rightarrow> channel \<Rightarrow> bool" where
  "small_step cp mf sha pt ch ch' \<longleftrightarrow> chan_step cp mf sha pt ch ch' \<and> small ch'"

lemma solvent_cong:
  assumes "solvent n T base ch" "htlcs ch' = htlcs ch" "chan_swap ch' = chan_swap ch" "sym_lanes ch' = sym_lanes ch"
    "blockheight_states ch' \<noteq> None" "sym_lane_bal ch' = sym_lane_bal ch" "view ch' = view ch"
  shows "solvent n T base ch'"
proof -
  have "bal ch' w l t = bal ch w l t" "nlanes ch' = nlanes ch" "lanes_of ch' = lanes_of ch"
      "covered base ch' l t = covered base ch l t" for w l t
    using assms by (simp_all add: bal_def view_amounts_def nlanes_def lanes_of_def covered_def level_def)
  then show ?thesis using assms by (auto simp: solvent_def chan_wf_def agrees_def)
qed

lemma solvent_add_step:
  assumes sol: "solvent n T base ch" and small: "small ch" "small ch'"
    and add: "channel_add_lane_htlc cp mf ch sender hid amount expiry hash routing pk tlvs imm lane
          = Some (CHANNEL_ERR_ADD_OK, ch', h, fee)"
  shows "solvent n T base ch'"
proof -
  define st where "st = (if sender = LOCAL then SENT_ADD_HTLC else RCVD_ADD_HTLC)"
  define h0 where "h0 = new_htlc st hid amount expiry hash routing pk tlvs lane"
  have own: "htlc_state_owner st = sender" "life_pos st = 0"
    by (cases sender; simp add: st_def htlc_state_owner_def state_lt_iff)+
  have run: "add_htlc cp mf ch st hid amount expiry hash routing pk True tlvs imm lane
      = Some (CHANNEL_ERR_ADD_OK, ch', h, fee)"
    using add by (simp add: channel_add_lane_htlc_def st_def)
  have h0: "hpos (h0\<lparr>h_fail_immediate := b\<rparr>) = 0" "htlc_owner (h0\<lparr>h_fail_immediate := b\<rparr>) = sender"
      "h_lane (h0\<lparr>h_fail_immediate := b\<rparr>) = lane"
      "offered sender (h0\<lparr>h_fail_immediate := b\<rparr>) = offered sender h0"
      "h_amount (h0\<lparr>h_fail_immediate := b\<rparr>) = amount" "offered sender h0 = int (msat amount)" for b
    using own by (simp_all add: h0_def new_htlc_def hpos_def htlc_owner_def offered_def hamt_def)
  obtain b where ch': "ch' = ch\<lparr>htlcs := h0\<lparr>h_fail_immediate := b\<rparr> # htlcs ch\<rparr>"
    using add_htlc_result [OF run, folded h0_def] by auto
  then have "msat amount < 2305843009213693952" using small(2) h0(5) by (simp add: small_def)
  then have amt: "offered sender h0 < max_total" unfolding h0(6) by linarith
  have "add_post ch h0 (unat lane < n \<and> offered sender h0 \<le> level 0 7 5 0 1 0 3 base ch (unat lane) sender)
      (add_htlc cp mf ch st hid amount expiry hash routing pk True tlvs imm lane)"
    using add_htlc_room [OF sol, of st hid amount expiry hash routing pk tlvs lane cp mf imm, folded h0_def]
      small(1) amt own by (simp add: small_def)
  then have "unat lane < n \<and> offered sender h0 \<le> level 0 7 5 0 1 0 3 base ch (unat lane) sender"
    unfolding add_post_def run by blast
  then show ?thesis
    unfolding ch' using h0 by (intro solvent_add [OF sol, where t = sender]) simp_all
qed

lemma solvent_step:
  assumes "chan_step cp mf sha pt ch ch'" "small ch" "small ch'" "solvent n T base ch"
  shows "\<exists>base'. solvent n T base' ch'"
  using assms
proof (induction rule: chan_step.induct)
  case (add ch sender hid amount expiry hash routing pk tlvs imm lane ch' h fee)
  then show ?case using solvent_add_step by blast
next
  case (fulfill ch owner hid r ch')
  from channel_fulfill_htlc_ok [OF this(1)] obtain h where
    "htlc_get (htlcs ch) hid owner = Some h" "irrevocable h"
    "ch' = ch\<lparr>htlcs := htlc_put hid owner (removing_htlc (Some r) h) (htlcs ch)\<rparr>" by blast
  then show ?case using solvent_put fulfill.prems(3) by blast
next
  case (fail ch owner hid ch')
  from channel_fail_htlc_ok [OF this(1)] obtain h where
    "htlc_get (htlcs ch) hid owner = Some h" "irrevocable h"
    "ch' = ch\<lparr>htlcs := htlc_put hid owner (removing_htlc (h_r h) h) (htlcs ch)\<rparr>" by blast
  then show ?case using solvent_put fail.prems(3) by blast
next
  case (sending_commit ch b ch' hs)
  then show ?case
    using sending_commit.runs_solvent [OF sending_commit(4)]
    by (auto simp: channel_sending_commit_def bind_eq_Some_conv)
next
  case (rcvd_revoke ch b ch' hs)
  then show ?case
    using rcvd_revoke.runs_solvent [OF rcvd_revoke(4)]
    by (auto simp: channel_rcvd_revoke_and_ack_def bind_eq_Some_conv)
next
  case (rcvd_commit ch b ch' hs)
  then show ?case
    using rcvd_commit.runs_solvent [OF rcvd_commit(4)]
    by (auto simp: channel_rcvd_commit_def bind_eq_Some_conv)
next
  case (sending_revoke ch b ch')
  then show ?case
    using sending_revoke.runs_solvent [OF sending_revoke(4)]
    by (auto simp: channel_sending_revoke_and_ack_def bind_eq_Some_conv)
next
  case (feerate ch rate ch')
  have "blockheight_states ch \<noteq> None" using feerate(4) by (simp add: solvent_def chan_wf_def)
  then have "solvent n T base ch'"
    unfolding channel_update_feerate_result [OF feerate(1)] by (intro solvent_cong [OF feerate(4)]) simp_all
  then show ?case by blast
next
  case (blockheight ch blocks ch')
  then obtain hs where ch': "ch' = ch\<lparr>blockheight_states := Some (start_height_update hs (opener ch) blocks)\<rparr>"
    by (auto simp: channel_update_blockheight_def bind_eq_Some_conv)
  have "solvent n T base ch'" unfolding ch' by (intro solvent_cong [OF blockheight(4)]) simp_all
  then show ?case by blast
next
  case (swap ch sw ch')
  have "ch' = ch\<lparr>chan_swap := Some sw\<rparr>" using swap(2) by (simp add: channel_sym_swap_add_def split: if_splits)
  then have "swap_small (Some sw)" "swap_small (chan_swap_req ch)" using swap.prems by (simp_all add: small_def)
  then show ?case using solvent_swap [OF swap(5,1,2)] by blast
next
  case (swap_done ch ch')
  then show ?case using solvent_swap_done by blast
qed


lemma solvent_reaches:
  assumes "(small_step cp mf sha pt)\<^sup>*\<^sup>* ch0 ch" "small ch0" "solvent n T base ch0"
  shows "small ch \<and> (\<exists>base'. solvent n T base' ch)"
  using assms(1)
proof (induction rule: rtranclp_induct)
  case base
  then show ?case using assms(2,3) by blast
next
  case (step ch ch')
  then show ?case using solvent_step unfolding small_step_def by blast
qed

lemma solvent_events:
  assumes "solvent n T base ch"
  shows "channel_sending_commit ch \<noteq> None" "channel_rcvd_revoke_and_ack ch \<noteq> None"
    "channel_rcvd_commit ch \<noteq> None" "channel_sending_revoke_and_ack ch \<noteq> None"
  using sending_commit.runs_solvent [OF assms] rcvd_revoke.runs_solvent [OF assms]
    rcvd_commit.runs_solvent [OF assms] sending_revoke.runs_solvent [OF assms]
  by (auto simp: channel_sending_commit_def channel_rcvd_revoke_and_ack_def channel_rcvd_commit_def
      channel_sending_revoke_and_ack_def)

text \<open>The value of the HTLCs in the commitment of \<open>v\<close>, lane by lane, as a number.\<close>

definition committed_total :: "channel \<Rightarrow> side \<Rightarrow> nat \<Rightarrow> nat" where
  "committed_total ch v l =
     (\<Sum>h \<leftarrow> filter (\<lambda>h. unat (h_lane h) = l) (channel_committed_htlcs ch v). msat (h_amount h))"

lemma adj_total_int:
  "lane_sum (adj v LOCAL) l (htlcs ch) + lane_sum (adj v REMOTE) l (htlcs ch) = - int (committed_total ch v l)"
proof -
  have "lane_sum (adj v LOCAL) l hs + lane_sum (adj v REMOTE) l hs
      = - int (\<Sum>h \<leftarrow> filter (\<lambda>h. unat (h_lane h) = l) (filter (\<lambda>h. htlc_has h (HTLC_FLAG v HTLC_F_COMMITTED)) hs).
            msat (h_amount h))" for hs
  proof (induction hs)
    case (Cons h hs)
    then show ?case using adj_both_sides [of v h] by (auto simp: hamt_def)
  qed simp
  then show ?thesis by (simp add: committed_total_def channel_committed_htlcs_eq)
qed

lemma solvent_total:
  assumes sol: "solvent n T base ch" and l: "l < n"
  shows "int (unat (bal ch v l LOCAL)) + int (unat (bal ch v l REMOTE)) + int (committed_total ch v l) = T l"
proof -
  have wf: "chan_wf ch" and T: "base l LOCAL + base l REMOTE = T l" using sol l by (auto simp: solvent_def)
  have b: "int (unat (bal ch v l t)) = base l t + lane_sum (adj v t) l (htlcs ch) + swap_adj v l t (chan_swap ch)" for t
    using solvent_balance(1) [OF sol l, of v t] view_level [OF wf, of base l t v] by simp
  show ?thesis
    unfolding b using T adj_total_int [of v l ch] swap_adj_total [of v l "chan_swap ch"] by linarith
qed

lemma fresh_solvent:
  assumes "fresh ch" "\<forall>l < nlanes ch. unat (bal ch LOCAL l LOCAL) + unat (bal ch LOCAL l REMOTE) < 2 ^ 61"
  shows "solvent (nlanes ch) (\<lambda>l. int (unat (bal ch LOCAL l LOCAL)) + int (unat (bal ch LOCAL l REMOTE)))
     (\<lambda>l t. uint (bal ch LOCAL l t)) ch"
proof -
  have lev: "level a f c p q p' q' base ch l t = base l t" for a f c p q p' q' base l t
    using assms(1) by (simp add: level_def swap_level_def fresh_def)
  have "int (unat x) + int (unat y) < max_total" if "unat x + unat y < 2 ^ 61" for x y :: u64
  proof -
    have "unat x + unat y < 2305843009213693952" using that by simp
    then show ?thesis by linarith
  qed
  then show ?thesis
    using fresh_agrees [OF assms(1)] assms
    by (auto simp: solvent_def covered_def lev fresh_def chan_wf_def swap_wf_def)
qed

text \<open>
  (C6) The daemon never stops in a commitment event. From a fresh channel whose lanes hold less than
  \<open>2 ^ 61\<close> millisatoshi each, after any sequence of operations in which no HTLC and no swap is of more
  than that, each of the four events goes through: no balance is ever negative, in any lane of either
  commitment, however the two parties' additions, removals, swaps, commitments and revocations
  interleave. And each commitment pays out, to the two sides and in HTLCs, exactly what its lane
  holds, with no wrap-around.
\<close>

theorem commitments_never_stop:
  assumes "fresh ch0" and "small ch0" and "(small_step cp mf sha pt)\<^sup>*\<^sup>* ch0 ch"
    and "\<forall>l < nlanes ch0. unat (bal ch0 LOCAL l LOCAL) + unat (bal ch0 LOCAL l REMOTE) < 2 ^ 61"
  shows "channel_sending_commit ch \<noteq> None \<and> channel_rcvd_revoke_and_ack ch \<noteq> None
       \<and> channel_rcvd_commit ch \<noteq> None \<and> channel_sending_revoke_and_ack ch \<noteq> None
       \<and> (\<forall>l < nlanes ch0. \<forall>v.
            unat (bal ch v l LOCAL) + unat (bal ch v l REMOTE) + committed_total ch v l
            = unat (bal ch0 LOCAL l LOCAL) + unat (bal ch0 LOCAL l REMOTE))"
proof -
  obtain base where sol: "solvent (nlanes ch0)
      (\<lambda>l. int (unat (bal ch0 LOCAL l LOCAL)) + int (unat (bal ch0 LOCAL l REMOTE))) base ch"
    using solvent_reaches [OF assms(3,2) fresh_solvent [OF assms(1,4)]] by blast
  have "unat (bal ch v l LOCAL) + unat (bal ch v l REMOTE) + committed_total ch v l
      = unat (bal ch0 LOCAL l LOCAL) + unat (bal ch0 LOCAL l REMOTE)" if "l < nlanes ch0" for v l
    using solvent_total [OF sol that, of v] by linarith
  then show ?thesis using solvent_events [OF sol] by blast
qed

theorem commitments_never_stop_witness:
  "\<exists>ch. chan_step net_sequentia_testnet id (\<lambda>x. x) Some demo_chan ch \<and> htlcs ch = [demo_offer]
     \<and> channel_sending_commit ch \<noteq> None \<and> channel_rcvd_commit ch \<noteq> None
     \<and> unat (bal ch LOCAL 0 LOCAL) + unat (bal ch LOCAL 0 REMOTE) + committed_total ch LOCAL 0 = 1000000000"
proof -
  let ?ch = "demo_chan\<lparr>htlcs := [demo_offer]\<rparr>"
  have s1: "chan_step net_sequentia_testnet id (\<lambda>x. x) Some demo_chan ?ch"
    by (rule chan_step.add) (rule demo_offer_accepted)
  have small: "small demo_chan" "small ?ch"
    by (simp_all add: small_def swap_small_def demo_offer_def new_htlc_def)
  have bal: "unat (bal demo_chan LOCAL 0 LOCAL) = 400000000" "unat (bal demo_chan LOCAL 0 REMOTE) = 600000000"
    by (simp_all add: bal_def view_amounts_def)
  have "(small_step net_sequentia_testnet id (\<lambda>x. x) Some)\<^sup>*\<^sup>* demo_chan ?ch"
    using s1 small by (simp add: small_step_def r_into_rtranclp)
  from commitments_never_stop [OF demo_fresh small(1) this] bal
  have "channel_sending_commit ?ch \<noteq> None \<and> channel_rcvd_commit ?ch \<noteq> None
     \<and> unat (bal ?ch LOCAL 0 LOCAL) + unat (bal ?ch LOCAL 0 REMOTE) + committed_total ?ch LOCAL 0 = 1000000000"
    by simp
  with s1 show ?thesis by (intro exI [of _ ?ch]) simp
qed

end
