(* ===== verification/SymRuns.thy ===== *)
theory SymRuns
  imports Settlement Solvency
begin

text \<open>
  The channel and its settlement together: in every channel that the operations reach, the state
  that \<^verbatim>\<open>channeld/sym_channeld.c\<close> would sign for either commitment can be built, and settles every lane to
  its funding exactly. What the settlement needs of the channel, that each lane's balances and HTLCs
  add up to its funding and that every expiry is a block height, is an invariant of the operations.
\<close>

section \<open>What the operations leave alone\<close>

definition blocks_ok :: "channel \<Rightarrow> bool" where
  "blocks_ok ch \<longleftrightarrow> (\<forall>h \<in> set (htlcs ch). h_expiry h < SECONDS_POINT)"

text \<open>What a settlement reads of a channel and no operation changes.\<close>

definition same_frame :: "channel \<Rightarrow> channel \<Rightarrow> bool" where
  "same_frame ch ch' \<longleftrightarrow> funding_sats ch' = funding_sats ch \<and> sym_lanes ch' = sym_lanes ch \<and> opener ch' = opener ch
     \<and> config ch' = config ch \<and> channel_basepoints ch' = channel_basepoints ch"

lemma advance_expiry [simp]: "h_expiry (advance S h) = h_expiry h"
  by (simp add: advance_def split: option.split)

lemma change_htlcs_frame:
  assumes "change_htlcs ch v S = Some (c, ch', hs)" and "\<forall>st \<in> set S. same_owner_succ st \<noteq> None" and "chan_wf ch"
  shows "same_frame ch ch' \<and> (blocks_ok ch \<longrightarrow> blocks_ok ch')"
proof -
  have "same_frame ch ch'"
    using assms(1) by (auto simp: same_frame_def change_htlcs_def put_view_amounts_def bind_eq_Some_conv split: prod.splits)
  moreover have "htlcs ch' = filter (\<lambda>h. \<not> htlc_is_dead h) (map (advance S) (htlcs ch))"
    using change_htlcs_effect [OF assms(2,3), of v] assms(1) by blast
  ultimately show ?thesis by (auto simp: blocks_ok_def)
qed


lemma same_frame_refl [simp]:
  "same_frame ch ch" "same_frame ch (ch\<lparr>htlcs := hs\<rparr>)" "same_frame ch (ch\<lparr>chan_swap := sw\<rparr>)"
  "same_frame ch (ch\<lparr>channel_fee_states := fs\<rparr>)" "same_frame ch (ch\<lparr>blockheight_states := bs\<rparr>)"
  by (simp_all add: same_frame_def)

lemma blocks_ok_simps [simp]:
  "blocks_ok (ch\<lparr>chan_swap := sw\<rparr>) = blocks_ok ch" "blocks_ok (ch\<lparr>channel_fee_states := fs\<rparr>) = blocks_ok ch"
  "blocks_ok (ch\<lparr>blockheight_states := bs\<rparr>) = blocks_ok ch"
  by (simp_all add: blocks_ok_def)

lemma blocks_ok_put:
  assumes "blocks_ok ch" and "htlc_get (htlcs ch) hid owner = Some h"
  shows "blocks_ok (ch\<lparr>htlcs := htlc_put hid owner (removing_htlc r h) (htlcs ch)\<rparr>)"
proof -
  have "h_expiry (removing_htlc r h) = h_expiry h" by (simp add: removing_htlc_def)
  moreover have "h \<in> set (htlcs ch)" using assms(2) by (auto simp: htlc_get_def find_Some_iff)
  ultimately show ?thesis
    using assms htlc_put_set [of "htlcs ch" hid owner "removing_htlc r h"] by (auto simp: blocks_ok_def)
qed

lemma step_frame:
  assumes "chan_step cp mf sha pt ch ch'" and "chan_wf ch"
  shows "same_frame ch ch' \<and> (blocks_ok ch \<longrightarrow> blocks_ok ch')"
  using assms
proof (cases rule: chan_step.cases)
  case (add sender hid amount expiry hash routing pk tlvs imm lane h fee)
  from add_htlc_result [OF add [unfolded channel_add_lane_htlc_def]] show ?thesis
    by (auto simp: blocks_ok_def new_htlc_def)
next
  case (fulfill owner hid r)
  then show ?thesis by (rule channel_fulfill_htlc_ok) (simp add: blocks_ok_put)
next
  case (fail owner hid)
  then show ?thesis by (rule channel_fail_htlc_ok) (simp add: blocks_ok_put)
next
  case (sending_commit b hs)
  then show ?thesis
    using change_htlcs_frame [OF _ sending_commit.all_succ assms(2)]
    by (auto simp: channel_sending_commit_def bind_eq_Some_conv)
next
  case (rcvd_revoke b hs)
  then show ?thesis
    using change_htlcs_frame [OF _ rcvd_revoke.all_succ assms(2)]
    by (auto simp: channel_rcvd_revoke_and_ack_def bind_eq_Some_conv)
next
  case (rcvd_commit b hs)
  then show ?thesis
    using change_htlcs_frame [OF _ rcvd_commit.all_succ assms(2)]
    by (auto simp: channel_rcvd_commit_def bind_eq_Some_conv)
next
  case (sending_revoke b)
  then show ?thesis
    using change_htlcs_frame [OF _ sending_revoke.all_succ assms(2)]
    by (auto simp: channel_sending_revoke_and_ack_def bind_eq_Some_conv)
next
  case (feerate rate)
  then show ?thesis using channel_update_feerate_result [OF feerate] by simp
next
  case (blockheight blocks)
  then show ?thesis by (auto simp: channel_update_blockheight_def bind_eq_Some_conv)
next
  case (swap sw)
  then show ?thesis by (auto simp: channel_sym_swap_add_def split: if_splits)
next
  case swap_done
  then show ?thesis by (auto simp: channel_sym_swap_done_def split: if_splits option.splits)
qed


lemma frame_reaches:
  assumes "(small_step cp mf sha pt)\<^sup>*\<^sup>* ch0 ch" and "small ch0" and "solvent n T base ch0" and "blocks_ok ch0"
  shows "same_frame ch0 ch \<and> blocks_ok ch"
  using assms(1)
proof (induction rule: rtranclp_induct)
  case base
  then show ?case using assms(4) by simp
next
  case (step ch ch')
  from solvent_reaches [OF step(1) assms(2,3)] have "chan_wf ch" by (auto simp: solvent_def)
  with step(2) have "same_frame ch ch' \<and> (blocks_ok ch \<longrightarrow> blocks_ok ch')" by (auto simp: small_step_def dest: step_frame)
  with step.IH show ?case by (auto simp: same_frame_def)
qed

section \<open>Every state settles\<close>

definition lane_fund :: "channel \<Rightarrow> nat \<Rightarrow> nat" where
  "lane_fund ch l = (if l = 0 then sat (funding_sats ch) else sat (lane_funding_sats (lanes_of ch ! (l - 1))))"

lemma lane_owed_bal: "l < nlanes ch \<Longrightarrow> \<exists>a. sym_lane_owed ch l v s = Some a \<and> msat a = unat (bal ch v l s)"
  by (cases l) (auto simp: sym_lane_owed_def bal_def view_amounts_def nlanes_def)

lemma lane_funding_ex:
  "l < sym_num_lanes ch \<Longrightarrow> \<exists>outp fund. sym_lane_funding ch l = Some (outp, fund) \<and> sat fund = lane_fund ch l"
  by (auto simp: sym_lane_funding_def sym_num_lanes_def lane_fund_def Let_def)


lemma state_num_exists: "unat n < 2 ^ 61 \<Longrightarrow> \<exists>num. sym_state_num n p = Some num"
  by (simp add: sym_state_num_def word_less_nat_alt)

text \<open>The HTLC of a settlement that an HTLC of the channel is.\<close>

definition sym_htlc_of :: "crypto \<Rightarrow> htlc \<Rightarrow> sym_htlc" where
  "sym_htlc_of cr h = \<lparr>sh_owner = htlc_owner h, sh_amount = h_amount h, sh_payment_ripemd = ripemd160 cr (h_rhash h),
     sh_cltv_expiry = h_expiry h, sh_handle = h\<rparr>"

lemma committed_subset: "set (channel_committed_htlcs ch v) \<subseteq> set (htlcs ch)"
  by (auto simp: channel_committed_htlcs_eq)

lemma sym_htlcs_run:
  assumes "blocks_ok ch"
  shows "map_run (\<lambda>h. do { blocks \<leftarrow> abs_locktime_to_blocks (h_expiry h);
                             Some \<lparr>sh_owner = htlc_owner h, sh_amount = h_amount h,
                                   sh_payment_ripemd = ripemd160 cr (h_rhash h),
                                   sh_cltv_expiry = blocks, sh_handle = h\<rparr> }) (channel_committed_htlcs ch v)
    = Some (map (sym_htlc_of cr) (channel_committed_htlcs ch v))"
proof -
  have "\<forall>h \<in> set (channel_committed_htlcs ch v). h_expiry h < SECONDS_POINT"
    using assms committed_subset by (auto simp: blocks_ok_def)
  then show ?thesis
    unfolding map_run_Some list_all2_map2
    by (simp add: list_all2_same abs_locktime_to_blocks_def sym_htlc_of_def not_le)
qed

lemma lane_sum_committed:
  "(\<Sum>h \<leftarrow> map fst (filter (\<lambda>(h, lane). lane = l) (map (\<lambda>h. (sym_htlc_of cr h, unat (h_lane h)))
        (channel_committed_htlcs ch v))). msat (sh_amount h)) = committed_total ch v l"
  by (simp add: committed_total_def filter_map comp_def sym_htlc_of_def)

lemma lanes_settle:
  assumes "chan_wf ch" and "\<forall>l < nlanes ch. unat (bal ch v l LOCAL) + unat (bal ch v l REMOTE) + committed_total ch v l
      = 1000 * lane_fund ch l \<and> 0 < lane_fund ch l \<and> 1000 * lane_fund ch l < 2 ^ 64"
    and "l < nlanes ch"
  shows "\<exists>outs. lane_settlement cr ch v (map (\<lambda>h. (sym_htlc_of cr h, unat (h_lane h))) (channel_committed_htlcs ch v)) l
      = Some (Inr outs) \<and> (\<Sum>out \<leftarrow> outs. sat (out_amount out)) = lane_fund ch l
      \<and> (\<forall>out \<in> set outs. out_asset out = (if l = 0 then None else sym_lane_asset ch l))"
proof -
  have n: "l < sym_num_lanes ch" "l = 0 \<or> l \<le> length (lanes_of ch)"
    using assms(1,3) by (auto simp: chan_wf_def sym_num_lanes_def nlanes_def)
  obtain a b where a: "sym_lane_owed ch l v LOCAL = Some a" "msat a = unat (bal ch v l LOCAL)"
    and b: "sym_lane_owed ch l v REMOTE = Some b" "msat b = unat (bal ch v l REMOTE)"
    using lane_owed_bal [OF assms(3)] by blast
  obtain outp fund where f: "sym_lane_funding ch l = Some (outp, fund)" "sat fund = lane_fund ch l"
    using lane_funding_ex [OF n(1)] by blast
  show ?thesis
    using lane_settlement_exact [OF a(1) b(1) f(1) n(2), where cr = cr and
        hs = "map (\<lambda>h. (sym_htlc_of cr h, unat (h_lane h))) (channel_committed_htlcs ch v)", unfolded lane_sum_committed a b f(2)]
      assms(2,3) by simp
qed

lemma one_lane_settles:
  assumes "chan_wf ch" and "sym_lanes ch = None" and "unat (bal ch v 0 LOCAL) + unat (bal ch v 0 REMOTE) + committed_total ch v 0
      = 1000 * lane_fund ch 0 \<and> 0 < lane_fund ch 0 \<and> 1000 * lane_fund ch 0 < 2 ^ 64"
  shows "\<exists>outs. sym_settlement cr (funding_sats ch) (opener ch) (\<lambda>s. payment (channel_basepoints ch s))
          (\<lambda>s. htlc_basepoint (channel_basepoints ch s)) (owed (view ch v))
          (map (sym_htlc_of cr) (channel_committed_htlcs ch v)) (sym_dust_limit ch) = Some (Inr outs)
      \<and> (\<Sum>out \<leftarrow> outs. sat (out_amount out)) = lane_fund ch 0 \<and> (\<forall>out \<in> set outs. out_asset out = None)"
proof -
  have "\<forall>h \<in> set (channel_committed_htlcs ch v). unat (h_lane h) = 0"
    using assms(1,2) committed_subset [of ch v] by (auto simp: chan_wf_def nlanes_def lanes_of_def)
  then have "filter (\<lambda>h. unat (h_lane h) = 0) (channel_committed_htlcs ch v) = channel_committed_htlcs ch v"
    by (intro filter_True)
  then have "htlcs_msat (map (sym_htlc_of cr) (channel_committed_htlcs ch v)) = committed_total ch v 0"
    by (simp add: committed_total_def htlcs_msat_def sym_htlc_of_def comp_def)
  moreover have "bal_msat (owed (view ch v)) = unat (bal ch v 0 LOCAL) + unat (bal ch v 0 REMOTE)"
    by (simp add: bal_msat_def bal_def view_amounts_def)
  ultimately have "bal_msat (owed (view ch v)) + htlcs_msat (map (sym_htlc_of cr) (channel_committed_htlcs ch v))
      = 1000 * sat (funding_sats ch)" "0 < sat (funding_sats ch)" "1000 * sat (funding_sats ch) < 2 ^ 64"
    using assms(3) by (simp_all add: lane_fund_def)
  then show ?thesis
    using settlement_exact [of "owed (view ch v)" "map (sym_htlc_of cr) (channel_committed_htlcs ch v)" "funding_sats ch" cr
        "opener ch" "\<lambda>s. payment (channel_basepoints ch s)" "\<lambda>s. htlc_basepoint (channel_basepoints ch s)" "sym_dust_limit ch"]
    by (auto simp: out_sats_def lane_fund_def)
qed

lemma channeld_state_settles:
  assumes wf: "chan_wf ch" and blocks: "blocks_ok ch" and n: "unat n < 2 ^ 61"
    and bals: "\<forall>l < nlanes ch. unat (bal ch v l LOCAL) + unat (bal ch v l REMOTE) + committed_total ch v l
      = 1000 * lane_fund ch l \<and> 0 < lane_fund ch l \<and> 1000 * lane_fund ch l < 2 ^ 64"
  shows "\<exists>st f. sym_channeld_state cr ch v n = Some st \<and> ss_outs st = concat (map f [0 ..< nlanes ch])
     \<and> (\<forall>l < nlanes ch. (\<Sum>so \<leftarrow> f l. sat (so_amount so)) = lane_fund ch l
          \<and> (\<forall>so \<in> set (f l). so_asset so = (if l = 0 then None else sym_lane_asset ch l)))"
proof -
  let ?so = "\<lambda>out. \<lparr>so_amount = out_amount out, so_spk = out_spk out, so_asset = out_asset out\<rparr>"
  obtain num where num: "sym_state_num n (v = opener ch) = Some num"
    using n state_num_exists by blast
  obtain outs where outs: "\<And>l. l < nlanes ch \<Longrightarrow>
      lane_settlement cr ch v (map (\<lambda>h. (sym_htlc_of cr h, unat (h_lane h))) (channel_committed_htlcs ch v)) l = Some (Inr (outs l))
      \<and> (\<Sum>out \<leftarrow> outs l. sat (out_amount out)) = lane_fund ch l
      \<and> (\<forall>out \<in> set (outs l). out_asset out = (if l = 0 then None else sym_lane_asset ch l))"
    using lanes_settle [OF wf bals] choice [where Q = "\<lambda>l os. l < nlanes ch \<longrightarrow>
      lane_settlement cr ch v (map (\<lambda>h. (sym_htlc_of cr h, unat (h_lane h))) (channel_committed_htlcs ch v)) l = Some (Inr os)
      \<and> (\<Sum>out \<leftarrow> os. sat (out_amount out)) = lane_fund ch l
      \<and> (\<forall>out \<in> set os. out_asset out = (if l = 0 then None else sym_lane_asset ch l))"] by blast
  have lanes: "sym_num_lanes ch = nlanes ch" using wf by (simp add: chan_wf_def sym_num_lanes_def nlanes_def)
  have zip: "zip (map (sym_htlc_of cr) (channel_committed_htlcs ch v)) (map unat (map h_lane (channel_committed_htlcs ch v)))
      = map (\<lambda>h. (sym_htlc_of cr h, unat (h_lane h))) (channel_committed_htlcs ch v)"
    by (simp add: zip_map1 zip_map2 zip_same_conv_map comp_def)
  show ?thesis
  proof (cases "sym_lanes ch")
    case None
    then have one: "nlanes ch = 1" using wf by (simp add: chan_wf_def nlanes_def lanes_of_def)
    with one_lane_settles [OF wf None, of v cr] bals obtain os where
      os: "sym_settlement cr (funding_sats ch) (opener ch) (\<lambda>s. payment (channel_basepoints ch s))
          (\<lambda>s. htlc_basepoint (channel_basepoints ch s)) (owed (view ch v))
          (map (sym_htlc_of cr) (channel_committed_htlcs ch v)) (sym_dust_limit ch) = Some (Inr os)"
      "(\<Sum>out \<leftarrow> os. sat (out_amount out)) = lane_fund ch 0" "\<forall>out \<in> set os. out_asset out = None" by auto
    show ?thesis
      using None os num one sym_htlcs_run [OF blocks, of cr v]
      by (intro exI [of _ "sym_state_new v n num os"] exI [of _ "\<lambda>l. map ?so os"])
        (auto simp: sym_channeld_state_def sym_channel_state_def sym_state_new_def comp_def)
  next
    case (Some ls)
    have "sym_lanes_settlement cr ch v (map (sym_htlc_of cr) (channel_committed_htlcs ch v))
        (Some (map h_lane (channel_committed_htlcs ch v))) = Some (Inr (concat (map outs [0 ..< nlanes ch])))"
      unfolding sym_lanes_settlement_def option.case zip lanes using outs by (intro lanes_settlement_loop_all) simp
    then show ?thesis
      using Some num outs sym_htlcs_run [OF blocks, of cr v]
      by (intro exI [of _ "sym_state_new v n num (concat (map outs [0 ..< nlanes ch]))"] exI [of _ "\<lambda>l. map ?so (outs l)"])
        (auto simp: sym_channeld_state_def sym_channel_state_def sym_state_new_def comp_def map_concat)
  qed
qed


text \<open>
  (C20) The daemon can always sign. From a fresh channel whose lanes are funded with what they owe,
  after any sequence of operations in which no HTLC and no swap is of \<open>2 ^ 61\<close> millisatoshi or more,
  the state of either side's commitment can be built: no overflow, no payment above the funding, no
  failed assertion. And it settles each lane, in the lane's asset, to exactly the lane's funding: what
  the channel state machine conserves in millisatoshi, the settlement pays out in whole atoms.
\<close>

theorem reachable_states_settle:
  assumes "fresh ch0" and "small ch0" and "(small_step cp mf sha pt)\<^sup>*\<^sup>* ch0 ch" and "unat n < 2 ^ 61"
    and "\<forall>l < nlanes ch0. unat (bal ch0 LOCAL l LOCAL) + unat (bal ch0 LOCAL l REMOTE) = 1000 * lane_fund ch0 l
           \<and> 0 < lane_fund ch0 l \<and> 1000 * lane_fund ch0 l < 2 ^ 61"
  shows "\<exists>st f. sym_channeld_state cr ch v n = Some st \<and> ss_outs st = concat (map f [0 ..< nlanes ch0])
     \<and> (\<forall>l < nlanes ch0. (\<Sum>so \<leftarrow> f l. sat (so_amount so)) = lane_fund ch0 l
          \<and> (\<forall>so \<in> set (f l). so_asset so = (if l = 0 then None else sym_lane_asset ch l)))"
proof -
  let ?T = "\<lambda>l. int (unat (bal ch0 LOCAL l LOCAL)) + int (unat (bal ch0 LOCAL l REMOTE))"
  have "\<forall>l < nlanes ch0. unat (bal ch0 LOCAL l LOCAL) + unat (bal ch0 LOCAL l REMOTE) < 2 ^ 61" using assms(5) by simp
  note sol0 = fresh_solvent [OF assms(1) this]
  have "blocks_ok ch0" using assms(1) by (simp add: fresh_def blocks_ok_def)
  with frame_reaches [OF assms(3,2) sol0] have frame: "same_frame ch0 ch" and blocks: "blocks_ok ch" by simp_all
  obtain base where sol: "solvent (nlanes ch0) ?T base ch" using solvent_reaches [OF assms(3,2) sol0] by blast
  then have wf: "chan_wf ch" and lanes: "nlanes ch = nlanes ch0" by (simp_all add: solvent_def)
  have fund: "lane_fund ch l = lane_fund ch0 l" for l
    using frame by (simp add: lane_fund_def same_frame_def lanes_of_def)
  have "unat (bal ch v l LOCAL) + unat (bal ch v l REMOTE) + committed_total ch v l = 1000 * lane_fund ch l
      \<and> 0 < lane_fund ch l \<and> 1000 * lane_fund ch l < 2 ^ 64" if "l < nlanes ch" for l
  proof -
    have "unat (bal ch0 LOCAL l LOCAL) + unat (bal ch0 LOCAL l REMOTE) = 1000 * lane_fund ch0 l"
      "0 < lane_fund ch0 l" "1000 * lane_fund ch0 l < 2 ^ 61" using assms(5) that lanes by auto
    moreover have "unat (bal ch v l LOCAL) + unat (bal ch v l REMOTE) + committed_total ch v l
        = unat (bal ch0 LOCAL l LOCAL) + unat (bal ch0 LOCAL l REMOTE)"
      using solvent_total [OF sol, of l v] that lanes by linarith
    ultimately show ?thesis unfolding fund by simp
  qed
  with channeld_state_settles [OF wf blocks assms(4), of v cr] show ?thesis
    unfolding lanes fund by blast
qed

theorem reachable_states_settle_witness:
  "\<exists>ch st. chan_step net_sequentia_testnet id (\<lambda>x. x) Some demo_chan ch \<and> htlcs ch = [demo_offer]
     \<and> sym_channeld_state demo_crypto ch REMOTE 5 = Some st \<and> (\<Sum>so \<leftarrow> ss_outs st. sat (so_amount so)) = 1000000"
proof -
  let ?ch = "demo_chan\<lparr>htlcs := [demo_offer]\<rparr>"
  have s1: "chan_step net_sequentia_testnet id (\<lambda>x. x) Some demo_chan ?ch"
    by (rule chan_step.add) (rule demo_offer_accepted)
  have small: "small demo_chan" "small ?ch"
    by (simp_all add: small_def swap_small_def demo_offer_def new_htlc_def)
  have bal: "unat (bal demo_chan LOCAL 0 LOCAL) = 400000000" "unat (bal demo_chan LOCAL 0 REMOTE) = 600000000"
    by (simp_all add: bal_def view_amounts_def)
  have fund: "lane_fund demo_chan 0 = 1000000"
    by (simp add: lane_fund_def lanes_of_def demo_chan_def demo_open_simps)
  have "(small_step net_sequentia_testnet id (\<lambda>x. x) Some)\<^sup>*\<^sup>* demo_chan ?ch"
    using s1 small by (simp add: small_step_def r_into_rtranclp)
  from reachable_states_settle [OF demo_fresh small(1) this, of 5 demo_crypto REMOTE] bal fund
  have "\<exists>st. sym_channeld_state demo_crypto ?ch REMOTE 5 = Some st \<and> (\<Sum>so \<leftarrow> ss_outs st. sat (so_amount so)) = 1000000"
    by auto
  with s1 show ?thesis by (intro exI [of _ ?ch]) simp
qed

end
