(* ===== verification/Duplex.thy ===== *)
theory Duplex
  imports HtlcStates
begin

text \<open>
  Two parties that keep a copy of one state each and send each other messages over two queues, one
  per direction. A message changes the copy of its sender when it is sent and the copy of its receiver
  when it arrives, in the same way; in between either copy may have changed by other messages. If
  the messages that cross each other commute, the copies agree once everything has arrived.

  Beside that, a message may carry a snapshot: what its sender then knows the receiver's part of the state
  to be, which a message of the receiver itself never changes, nor one of the sender without a snapshot. The
  locale shows that the receiver finds exactly the snapshot when the message arrives, and that the sender's copy still has the
  last snapshot that it sent, as long as that is on its way.
\<close>

record ('s, 'm) link =
  copy :: "side \<Rightarrow> 's"
  wire :: "side \<Rightarrow> 'm list"

definition link_send :: "(side \<Rightarrow> 'm \<Rightarrow> 's \<Rightarrow> 's) \<Rightarrow> side \<Rightarrow> 'm \<Rightarrow> ('s, 'm) link \<Rightarrow> ('s, 'm) link" where
  "link_send app p m l = l\<lparr>copy := (copy l)(p := app p m (copy l p)), wire := (wire l)(p := wire l p @ [m])\<rparr>"

definition link_recv :: "(side \<Rightarrow> 'm \<Rightarrow> 's \<Rightarrow> 's) \<Rightarrow> side \<Rightarrow> ('s, 'm) link \<Rightarrow> ('s, 'm) link" where
  "link_recv app p l =
     l\<lparr>copy := (copy l)(other p := app p (hd (wire l p)) (copy l (other p))), wire := (wire l)(p := tl (wire l p))\<rparr>"

text \<open>
  \<open>app p m s\<close> is what a message \<open>m\<close> of the party \<open>p\<close> makes of a state, \<open>compat p a b\<close> that a message
  \<open>a\<close> of \<open>p\<close> and one \<open>b\<close> of the other party may cross, \<open>part p s\<close> the part of \<open>p\<close>, \<open>fits p m s\<close> that
  \<open>p\<close> may send \<open>m\<close> in the state \<open>s\<close>.
\<close>

locale duplex =
  fixes app :: "side \<Rightarrow> 'm \<Rightarrow> 's \<Rightarrow> 's"
    and compat :: "side \<Rightarrow> 'm \<Rightarrow> 'm \<Rightarrow> bool"
    and fits :: "side \<Rightarrow> 'm \<Rightarrow> 's \<Rightarrow> bool"
    and part :: "side \<Rightarrow> 's \<Rightarrow> 'c"
    and snapshot :: "'m \<Rightarrow> 'c option"
  assumes commute: "compat p a b \<Longrightarrow> app p a (app (other p) b s) = app (other p) b (app p a s)"
    and fits_kept: "compat p a b \<Longrightarrow> fits (other p) b s \<Longrightarrow> fits (other p) b (app p a s)"
    and compat_sym: "compat p a b \<Longrightarrow> compat (other p) b a"
    and own_part: "fits p m s \<Longrightarrow> part p (app p m s) = part p s"
    and quiet_part: "fits p m s \<Longrightarrow> snapshot m = None \<Longrightarrow> part (other p) (app p m s) = part (other p) s"
begin

definition arrive :: "side \<Rightarrow> 'm list \<Rightarrow> 's \<Rightarrow> 's" where
  "arrive p ms s = fold (app p) ms s"

lemma arrive_simps [simp]:
  "arrive p [] s = s" "arrive p (m # ms) s = arrive p ms (app p m s)"
  "arrive p (ms @ ms') s = arrive p ms' (arrive p ms s)"
  by (simp_all add: arrive_def)

lemma arrive_commute:
  "\<forall>b \<in> set bs. compat p a b \<Longrightarrow> arrive (other p) bs (app p a s) = app p a (arrive (other p) bs s)"
  by (induction bs arbitrary: s) (simp_all add: commute [symmetric])

lemma fits_arrive:
  "\<forall>b \<in> set bs. compat p a b \<Longrightarrow> fits p a s \<Longrightarrow> fits p a (arrive (other p) bs s)"
proof (induction bs arbitrary: s)
  case (Cons b bs)
  then have "fits p a (app (other p) b s)"
    using fits_kept [of "other p" b a s] compat_sym [of p a b] by simp
  with Cons show ?case by simp
qed simp

text \<open>Every message of a list fits where it arrives.\<close>

fun all_fit :: "side \<Rightarrow> 'm list \<Rightarrow> 's \<Rightarrow> bool" where
  "all_fit p [] s = True"
| "all_fit p (m # ms) s = (fits p m s \<and> all_fit p ms (app p m s))"

lemma all_fit_append: "all_fit p (ms @ ms') s \<longleftrightarrow> all_fit p ms s \<and> all_fit p ms' (arrive p ms s)"
  by (induction ms arbitrary: s) simp_all

lemma all_fit_send:
  "\<forall>b \<in> set bs. compat p a b \<Longrightarrow> all_fit (other p) bs s \<Longrightarrow> all_fit (other p) bs (app p a s)"
proof (induction bs arbitrary: s)
  case (Cons b bs)
  then have "all_fit (other p) bs (app p a (app (other p) b s))" by simp
  with Cons show ?case by (simp add: fits_kept commute)
qed simp

lemma own_part_arrive: "all_fit p ms s \<Longrightarrow> part p (arrive p ms s) = part p s"
  by (induction ms arbitrary: s) (simp_all add: own_part)

lemma quiet_part_arrive:
  "all_fit p ms s \<Longrightarrow> \<forall>m \<in> set ms. snapshot m = None \<Longrightarrow> part (other p) (arrive p ms s) = part (other p) s"
  by (induction ms arbitrary: s) (simp_all add: quiet_part)

text \<open>Every snapshot of a list is what the receiver has when it arrives.\<close>

fun snapshots :: "side \<Rightarrow> 'm list \<Rightarrow> 's \<Rightarrow> bool" where
  "snapshots p [] s = True"
| "snapshots p (m # ms) s =
     ((case snapshot m of None \<Rightarrow> True | Some c \<Rightarrow> part (other p) (app p m s) = c) \<and> snapshots p ms (app p m s))"

lemma snapshots_append: "snapshots p (ms @ ms') s \<longleftrightarrow> snapshots p ms s \<and> snapshots p ms' (arrive p ms s)"
  by (induction ms arbitrary: s) simp_all

lemma snapshots_send:
  "\<forall>b \<in> set bs. compat p a b \<Longrightarrow> fits p a s \<Longrightarrow> snapshots (other p) bs s \<Longrightarrow> snapshots (other p) bs (app p a s)"
proof (induction bs arbitrary: s)
  case (Cons b bs)
  have fit: "fits p a (app (other p) b s)"
    using Cons.prems(1,2) fits_arrive [of "[b]" p a s] by simp
  moreover have "app (other p) b (app p a s) = app p a (app (other p) b s)" using Cons.prems(1) by (simp add: commute)
  ultimately show ?case using Cons by (auto simp: own_part split: option.splits)
qed simp

definition one_way :: "('s, 'm) link \<Rightarrow> side \<Rightarrow> bool" where
  "one_way l p \<longleftrightarrow> arrive (other p) (wire l (other p)) (copy l p) = arrive p (wire l p) (copy l (other p))
     \<and> all_fit p (wire l p) (copy l (other p)) \<and> snapshots p (wire l p) (copy l (other p))"

definition in_step :: "('s, 'm) link \<Rightarrow> bool" where
  "in_step l \<longleftrightarrow> (\<forall>p. one_way l p)"

lemma in_stepI: "one_way l p \<Longrightarrow> one_way l (other p) \<Longrightarrow> in_step l"
  unfolding in_step_def by (metis neq_side_iff)

lemma in_step_start: "copy l = (\<lambda>_. s) \<Longrightarrow> wire l = (\<lambda>_. []) \<Longrightarrow> in_step l"
  by (simp add: in_step_def one_way_def)

lemma in_step_send:
  assumes inv: "in_step l" and compat: "\<forall>b \<in> set (wire l (other p)). compat p a b" and fit: "fits p a (copy l p)"
    and snap: "\<And>c. snapshot a = Some c \<Longrightarrow> part (other p) (app p a (copy l p)) = c"
  shows "in_step (link_send app p a l)"
proof (rule in_stepI [of _ p])
  let ?q = "other p"
  let ?s = "copy l p" and ?t = "copy l ?q" and ?in = "wire l ?q" and ?out = "wire l p"
  have p: "arrive ?q ?in ?s = arrive p ?out ?t" "all_fit p ?out ?t" "snapshots p ?out ?t"
    and q: "all_fit ?q ?in ?s" "snapshots ?q ?in ?s"
    using inv in_step_def [of l] one_way_def [of l p] one_way_def [of l ?q] by simp_all
  have meet: "arrive ?q ?in (app p a ?s) = app p a (arrive p ?out ?t)"
    using arrive_commute [OF compat] p(1) by simp
  have fit_in: "all_fit ?q ?in (app p a ?s)" using all_fit_send [OF compat q(1)] .
  have "fits p a (arrive p ?out ?t)" using fits_arrive [OF compat fit] p(1) by simp
  moreover have "part ?q (app p a (arrive p ?out ?t)) = c" if "snapshot a = Some c" for c
    using own_part_arrive [OF fit_in] snap [OF that] unfolding meet by simp
  ultimately show "one_way (link_send app p a l) p"
    using p meet by (auto simp: one_way_def link_send_def all_fit_append snapshots_append split: option.splits)
  show "one_way (link_send app p a l) ?q"
    using snapshots_send [OF compat fit q(2)] fit_in meet by (simp add: one_way_def link_send_def)
qed

lemma in_step_recv:
  assumes inv: "in_step l" and head: "wire l p = m # ms"
  shows "in_step (link_recv app p l)"
    and "\<And>c. snapshot m = Some c \<Longrightarrow> part (other p) (copy (link_recv app p l) (other p)) = c"
    and "fits p m (copy l (other p))"
proof -
  let ?q = "other p"
  have p: "arrive ?q (wire l ?q) (copy l p) = arrive p (m # ms) (copy l ?q)" "all_fit p (m # ms) (copy l ?q)"
      "snapshots p (m # ms) (copy l ?q)"
    and q: "all_fit ?q (wire l ?q) (copy l p)" "snapshots ?q (wire l ?q) (copy l p)"
    using inv in_step_def [of l] one_way_def [of l p] one_way_def [of l ?q] head by simp_all
  show "fits p m (copy l ?q)" using p(2) by simp
  show "part ?q (copy (link_recv app p l) ?q) = c" if "snapshot m = Some c" for c
    using p(3) that head by (simp add: link_recv_def)
  have "one_way (link_recv app p l) p" "one_way (link_recv app p l) ?q"
    using p q head by (simp_all add: one_way_def link_recv_def)
  then show "in_step (link_recv app p l)" by (rule in_stepI)
qed

text \<open>While a snapshot is on its way, and no later one, the sender's copy has it.\<close>

lemma in_step_pending:
  assumes "in_step l" and "wire l p = us @ m # vs" and "snapshot m = Some c" and "\<forall>v \<in> set vs. snapshot v = None"
  shows "part (other p) (copy l p) = c"
proof -
  let ?q = "other p"
  have p: "arrive ?q (wire l ?q) (copy l p) = arrive p (us @ m # vs) (copy l ?q)" "all_fit p (us @ m # vs) (copy l ?q)"
      "snapshots p (us @ m # vs) (copy l ?q)" and q: "all_fit ?q (wire l ?q) (copy l p)"
    using assms(1,2) in_step_def [of l] one_way_def [of l p] one_way_def [of l ?q] by simp_all
  have "part ?q (app p m (arrive p us (copy l ?q))) = c" using p(3) assms(3) by (simp add: snapshots_append)
  then have "part ?q (arrive p (us @ m # vs) (copy l ?q)) = c"
    using p(2) assms(4) by (simp add: all_fit_append quiet_part_arrive)
  then show ?thesis using own_part_arrive [OF q] p(1) by simp
qed

text \<open>Once everything has arrived the two copies are one.\<close>

lemma in_step_quiet: "in_step l \<Longrightarrow> wire l = (\<lambda>_. []) \<Longrightarrow> copy l p = copy l (other p)"
  by (simp add: in_step_def one_way_def)

end

end
