(* ===== verification/Ledger.thy ===== *)
theory Ledger
  imports Duplex Balances
begin

text \<open>
  What the two parties of a channel agree on: every HTLC there ever was, with the position of its life
  that \<open>life_pos\<close> counts, and the feerates and blockheights on their way. The parties are named
  from outside, so both hold the same ledger. A message moves it; the commitment of a party
  is a function of it. The theory shows that messages that may cross commute, that no message of
  a party changes its own commitment, and that none but a commitment changes the other's: an instance of \<open>duplex\<close>.
\<close>

section \<open>The ledger\<close>

record entry =
  e_amount :: amount_msat
  e_expiry :: u32
  e_rhash :: bytes
  e_lock_point :: "bytes option"
  e_lane :: u16
  e_r :: "bytes option"
  e_pos :: nat

record ledger =
  led_htlcs :: "side \<times> u64 \<Rightarrow> entry option"
  led_fees :: "nat \<Rightarrow> u32 option"
  led_heights :: "nat \<Rightarrow> u32 option"

text \<open>What a commitment is made of: its HTLCs, what they do to each balance, and the rates.\<close>

record commitment =
  com_htlcs :: "side \<times> u64 \<Rightarrow> entry option"
  com_moved :: "nat \<Rightarrow> side \<Rightarrow> int"
  com_fee :: "u32 option"
  com_height :: "u32 option"

datatype update =
    Add u64 entry
  | Remove u64 "bytes option"
  | Fee u32
  | Height u32
  | Commit commitment
  | Revoke

definition bump :: "nat set \<Rightarrow> nat set \<Rightarrow> side \<Rightarrow> (side \<times> u64 \<Rightarrow> entry option) \<Rightarrow> side \<times> u64 \<Rightarrow> entry option" where
  "bump P Q p m k =
     map_option (\<lambda>e. if e_pos e \<in> (if fst k = p then P else Q) then e\<lparr>e_pos := Suc (e_pos e)\<rparr> else e) (m k)"

definition shift :: "nat \<Rightarrow> (nat \<Rightarrow> u32 option) \<Rightarrow> nat \<Rightarrow> u32 option" where
  "shift i f = (if f i = None then f else f(Suc i := f i, i := None))"

text \<open>\<open>opn\<close> is the opener, who alone changes feerates and blockheights.\<close>

fun ledger_app :: "side \<Rightarrow> side \<Rightarrow> update \<Rightarrow> ledger \<Rightarrow> ledger" where
  "ledger_app opn p (Add i e) L = L\<lparr>led_htlcs := (led_htlcs L)((p, i) := Some (e\<lparr>e_pos := 0, e_r := None\<rparr>))\<rparr>"
| "ledger_app opn p (Remove i r) L =
     L\<lparr>led_htlcs := (led_htlcs L)((other p, i) := map_option (\<lambda>e. e\<lparr>e_pos := 5, e_r := r\<rparr>) (led_htlcs L (other p, i)))\<rparr>"
| "ledger_app opn p (Fee v) L = (if p = opn then L\<lparr>led_fees := (led_fees L)(0 := Some v)\<rparr> else L)"
| "ledger_app opn p (Height v) L = (if p = opn then L\<lparr>led_heights := (led_heights L)(0 := Some v)\<rparr> else L)"
| "ledger_app opn p (Commit c) L =
     (let i = (if p = opn then 0 else 2) in
      L\<lparr>led_htlcs := bump {0, 7} {2, 5} p (led_htlcs L),
        led_fees := shift i (led_fees L), led_heights := shift i (led_heights L)\<rparr>)"
| "ledger_app opn p Revoke L =
     (let i = (if p = opn then 3 else 1) in
      L\<lparr>led_htlcs := bump {3, 6} {1, 8} p (led_htlcs L),
        led_fees := shift i (led_fees L), led_heights := shift i (led_heights L)\<rparr>)"

text \<open>The updates that may cross: \<open>a\<close> of one party and \<open>b\<close> of the other.\<close>

fun may_cross :: "update \<Rightarrow> update \<Rightarrow> bool" where
  "may_cross (Commit _) Revoke = False"
| "may_cross Revoke (Commit _) = False"
| "may_cross (Add i _) (Remove j _) = (i \<noteq> j)"
| "may_cross (Remove i _) (Add j _) = (i \<noteq> j)"
| "may_cross _ _ = True"

text \<open>What opens an HTLC: the secret of its lock point if it has one, else the preimage of its hash.\<close>

definition entry_opens :: "(bytes \<Rightarrow> bytes) \<Rightarrow> (bytes \<Rightarrow> bytes option) \<Rightarrow> entry \<Rightarrow> bytes \<Rightarrow> bool" where
  "entry_opens sha pt e r = (case e_lock_point e of None \<Rightarrow> sha r = e_rhash e | Some lock \<Rightarrow> pt r = Some lock)"

fun ledger_fits :: "(bytes \<Rightarrow> bytes) \<Rightarrow> (bytes \<Rightarrow> bytes option) \<Rightarrow> side \<Rightarrow> update \<Rightarrow> ledger \<Rightarrow> bool" where
  "ledger_fits sha pt p (Add i e) L = (led_htlcs L (p, i) = None)"
| "ledger_fits sha pt p (Remove i r) L =
     (case led_htlcs L (other p, i) of
        None \<Rightarrow> False
      | Some e \<Rightarrow> e_pos e = 4 \<and> (case r of None \<Rightarrow> True | Some s \<Rightarrow> entry_opens sha pt e s))"
| "ledger_fits sha pt p _ L = True"

text \<open>Whether an HTLC of \<open>own\<close> is in the commitment of \<open>v\<close>, and what it does to the balance of \<open>s\<close> there.\<close>

definition in_commitment :: "side \<Rightarrow> side \<Rightarrow> nat \<Rightarrow> bool" where
  "in_commitment v own pos = (if own = v then 3 \<le> pos \<and> pos \<le> 5 else 1 \<le> pos \<and> pos \<le> 7)"

definition entry_moves :: "side \<Rightarrow> side \<Rightarrow> side \<Rightarrow> entry \<Rightarrow> int" where
  "entry_moves v s own e =
     (let amt = int (msat (e_amount e)); (a, f, c) = (if v = s then (3, 6, 8) else (1, 8, 6)) in
      if own = s then (if e_r e = None \<and> f \<le> e_pos e then amt else 0) - (if a \<le> e_pos e then amt else 0)
      else if e_r e \<noteq> None \<and> c \<le> e_pos e then amt else 0)"

definition first_some :: "'a option list \<Rightarrow> 'a option" where
  "first_some xs = (case filter (\<lambda>x. x \<noteq> None) xs of [] \<Rightarrow> None | x # _ \<Rightarrow> x)"

definition moved_in :: "(side \<times> u64 \<Rightarrow> entry option) \<Rightarrow> side \<Rightarrow> nat \<Rightarrow> side \<Rightarrow> int" where
  "moved_in m v l s =
     (\<Sum>k \<in> dom m. if unat (e_lane (the (m k))) = l then entry_moves v s (fst k) (the (m k)) else 0)"

definition commitment_of :: "side \<Rightarrow> side \<Rightarrow> ledger \<Rightarrow> commitment" where
  "commitment_of opn v L =
     \<lparr>com_htlcs = (\<lambda>k. case led_htlcs L k of
                       Some e \<Rightarrow> if in_commitment v (fst k) (e_pos e) then Some (e\<lparr>e_pos := 0, e_r := None\<rparr>) else None
                     | None \<Rightarrow> None),
      com_moved = moved_in (led_htlcs L) v,
      com_fee = first_some (map (led_fees L) (if v = opn then [3, 4] else [1, 2, 3, 4])),
      com_height = first_some (map (led_heights L) (if v = opn then [3, 4] else [1, 2, 3, 4]))\<rparr>"

fun update_snapshot :: "update \<Rightarrow> commitment option" where
  "update_snapshot (Commit c) = Some c"
| "update_snapshot _ = None"

section \<open>Updates that cross commute\<close>

lemma bump_twice:
  assumes "\<And>n. n \<in> P \<Longrightarrow> n \<notin> Q \<and> Suc n \<notin> Q" "\<And>n. n \<in> Q \<Longrightarrow> n \<notin> P \<and> Suc n \<notin> P"
  shows "bump P Q p (bump P Q (other p) m) = bump P Q (other p) (bump P Q p m)"
proof
  fix k :: "side \<times> u64"
  show "bump P Q p (bump P Q (other p) m) k = bump P Q (other p) (bump P Q p m) k"
  proof (cases "m k")
    case (Some e)
    consider "fst k = p" | "fst k = other p" by (metis neq_side_iff)
    then show ?thesis using assms [of "e_pos e"] Some by cases (auto simp: bump_def)
  qed (simp add: bump_def)
qed

lemma bumps_cross:
  "bump {0, 7} {2, 5} p (bump {0, 7} {2, 5} (other p) m) = bump {0, 7} {2, 5} (other p) (bump {0, 7} {2, 5} p m)"
  "bump {3, 6} {Suc 0, 8} p (bump {3, 6} {Suc 0, 8} (other p) m)
     = bump {3, 6} {Suc 0, 8} (other p) (bump {3, 6} {Suc 0, 8} p m)"
  by (rule bump_twice, auto)+

lemma shift_twice: "j \<noteq> i \<Longrightarrow> j \<noteq> Suc i \<Longrightarrow> i \<noteq> Suc j \<Longrightarrow> shift i (shift j f) = shift j (shift i f)"
  by (auto simp: shift_def fun_upd_def)

lemma shift_first: "0 < i \<Longrightarrow> shift i (f(0 := v)) = (shift i f)(0 := v)"
  by (auto simp: shift_def fun_upd_def)

lemma bump_add: "0 \<notin> (if fst k = p then P else Q) \<Longrightarrow> e_pos e = 0 \<Longrightarrow> bump P Q p (m(k := Some e)) = (bump P Q p m)(k := Some e)"
  by (auto simp: bump_def fun_eq_iff)

lemma bump_remove:
  "5 \<notin> (if fst k = p then P else Q) \<Longrightarrow>
   bump P Q p (m(k := map_option (\<lambda>e. e\<lparr>e_pos := 5, e_r := r\<rparr>) (m k)))
   = (bump P Q p m)(k := map_option (\<lambda>e. e\<lparr>e_pos := 5, e_r := r\<rparr>) (bump P Q p m k))"
  by (cases "m k") (auto simp: bump_def fun_eq_iff)

lemma ledger_commute:
  assumes "may_cross a b"
  shows "ledger_app opn p a (ledger_app opn (other p) b L) = ledger_app opn (other p) b (ledger_app opn p a L)"
proof -
  note evals = bump_add bump_remove shift_first fun_upd_twist Let_def
  have "p = opn \<or> other p = opn" by (metis neq_side_iff)
  then show ?thesis
    using assms by (cases a; cases b) (auto simp: evals bumps_cross shift_twice)
qed

section \<open>A party's updates leave its own commitment alone\<close>

lemma bump_dom [simp]: "dom (bump P Q p m) = dom m"
  by (auto simp: bump_def)

lemma sides2: "(v = s \<and> own = s) \<or> (v = s \<and> own = other s) \<or> (v = other s \<and> own = s) \<or> (v = other s \<and> own = other s)"
  by (metis neq_side_iff)

lemma moved_in_bump:
  assumes "\<And>n. n \<in> (if v = p then P else Q) \<Longrightarrow> n \<notin> {2, 5}" "\<And>n. n \<in> (if v = p then Q else P) \<Longrightarrow> n \<notin> {0, 7}"
  shows "moved_in (bump P Q p m) v l s = moved_in m v l s"
  unfolding moved_in_def bump_dom
proof (rule sum.cong [OF refl])
  fix k assume "k \<in> dom m"
  then obtain e where e: "m k = Some e" by blast
  let ?e = "the (bump P Q p m k)"
  have bump: "?e = (if e_pos e \<in> (if fst k = p then P else Q) then e\<lparr>e_pos := Suc (e_pos e)\<rparr> else e)"
    using e by (simp add: bump_def)
  have "entry_moves v s (fst k) (e\<lparr>e_pos := Suc (e_pos e)\<rparr>) = entry_moves v s (fst k) e"
    if member: "e_pos e \<in> (if fst k = p then P else Q)"
  proof -
    have own: "e_pos e \<noteq> 2 \<and> e_pos e \<noteq> 5" if "fst k = v" using that assms(1) [of "e_pos e"] member by auto
    have them: "e_pos e \<noteq> 0 \<and> e_pos e \<noteq> 7" if "fst k \<noteq> v"
      using that assms(2) [of "e_pos e"] member sides2 [of v p "fst k"] by auto
    show ?thesis using own them sides2 [of v s "fst k"] by (elim disjE conjE) (simp_all add: entry_moves_def le_Suc_eq)
  qed
  then show "(if unat (e_lane ?e) = l then entry_moves v s (fst k) ?e else 0)
      = (if unat (e_lane (the (m k))) = l then entry_moves v s (fst k) (the (m k)) else 0)"
    unfolding bump using e by simp
qed

lemma first_some_simps [simp]:
  "first_some [] = None" "first_some (x # xs) = (if x = None then first_some xs else x)"
  by (simp_all add: first_some_def)

lemma shift_committed:
  "first_some (map (shift 0 f) [3, 4]) = first_some (map f [3, 4])"
  "first_some (map (shift 2 f) [1, 2, 3, 4]) = first_some (map f [1, 2, 3, 4])"
  "first_some (map (shift 3 f) [3, 4]) = first_some (map f [3, 4])"
  "first_some (map (shift (Suc 0) f) [1, 2, 3, 4]) = first_some (map f [1, 2, 3, 4])"
  by (auto simp: shift_def)

lemma in_commitment_bump:
  assumes "\<And>n. n \<in> (if v = p then P else Q) \<Longrightarrow> n \<notin> {2, 5}" "\<And>n. n \<in> (if v = p then Q else P) \<Longrightarrow> n \<notin> {0, 7}"
    and "n \<in> (if own = p then P else Q)"
  shows "in_commitment v own (Suc n) = in_commitment v own n"
proof -
  have "n \<noteq> 2 \<and> n \<noteq> 5" if "own = v" using that assms(1) [of n] assms(3) by auto
  moreover have "n \<noteq> 0 \<and> n \<noteq> 7" if "own \<noteq> v" using that assms(2) [of n] assms(3) sides2 [of v p own] by auto
  ultimately show ?thesis by (auto simp: in_commitment_def)
qed

lemma commitment_bump:
  assumes "\<And>n. n \<in> (if v = p then P else Q) \<Longrightarrow> n \<notin> {2, 5}" "\<And>n. n \<in> (if v = p then Q else P) \<Longrightarrow> n \<notin> {0, 7}"
    and "first_some (map (shift i (led_fees L)) (if v = opn then [3, 4] else [1, 2, 3, 4])) = com_fee (commitment_of opn v L)"
    and "first_some (map (shift i (led_heights L)) (if v = opn then [3, 4] else [1, 2, 3, 4])) = com_height (commitment_of opn v L)"
  shows "commitment_of opn v (L\<lparr>led_htlcs := bump P Q p (led_htlcs L), led_fees := shift i (led_fees L),
      led_heights := shift i (led_heights L)\<rparr>) = commitment_of opn v L"
proof -
  have "(case bump P Q p (led_htlcs L) k of
      Some e \<Rightarrow> if in_commitment v (fst k) (e_pos e) then Some (e\<lparr>e_pos := 0, e_r := None\<rparr>) else None | None \<Rightarrow> None)
    = (case led_htlcs L k of
      Some e \<Rightarrow> if in_commitment v (fst k) (e_pos e) then Some (e\<lparr>e_pos := 0, e_r := None\<rparr>) else None | None \<Rightarrow> None)" for k
  proof (cases "led_htlcs L k")
    case (Some e)
    have "in_commitment v (fst k) (Suc (e_pos e)) = in_commitment v (fst k) (e_pos e)" if "e_pos e \<in> (if fst k = p then P else Q)"
      by (rule in_commitment_bump [OF assms(1,2) that])
    with Some show ?thesis by (cases "e_pos e \<in> (if fst k = p then P else Q)") (simp_all add: bump_def)
  qed (simp add: bump_def)
  moreover have "moved_in (bump P Q p (led_htlcs L)) v = moved_in (led_htlcs L) v"
    using moved_in_bump [OF assms(1,2)] by (intro ext) blast
  ultimately show ?thesis using assms(3,4) by (simp add: commitment_of_def)
qed

lemma moved_in_put:
  assumes "(if unat (e_lane e) = l then entry_moves v s (fst k) e else 0)
     = (case m k of None \<Rightarrow> 0 | Some d \<Rightarrow> if unat (e_lane d) = l then entry_moves v s (fst k) d else 0)"
  shows "moved_in (m(k := Some e)) v l s = moved_in m v l s"
proof -
  let ?g = "\<lambda>m k. if unat (e_lane (the (m k))) = l then entry_moves v s (fst k) (the (m k)) else 0"
  have rest: "(\<Sum>j \<in> dom m - {k}. ?g (m(k := Some e)) j) = (\<Sum>j \<in> dom m - {k}. ?g m j)" by (rule sum.cong) simp_all
  show ?thesis
  proof (cases "finite (dom m)")
    case True
    then have "moved_in (m(k := Some e)) v l s = (if unat (e_lane e) = l then entry_moves v s (fst k) e else 0) + (\<Sum>j \<in> dom m - {k}. ?g m j)"
      unfolding moved_in_def rest [symmetric] by (simp add: sum.insert_remove)
    moreover have "moved_in m v l s = (case m k of None \<Rightarrow> 0 | Some d \<Rightarrow> if unat (e_lane d) = l then entry_moves v s (fst k) d else 0)
        + (\<Sum>j \<in> dom m - {k}. ?g m j)"
      using True sum.remove [of "dom m" k "?g m"] by (cases "m k") (auto simp: moved_in_def domIff)
    ultimately show ?thesis using assms by simp
  qed (simp add: moved_in_def)
qed

lemma own_commitment:
  assumes "ledger_fits sha pt p m L"
  shows "commitment_of opn p (ledger_app opn p m L) = commitment_of opn p L"
proof (cases m)
  case (Add i e)
  let ?e = "e\<lparr>e_pos := 0, e_r := None\<rparr>"
  have "moved_in ((led_htlcs L)((p, i) \<mapsto> ?e)) p l s = moved_in (led_htlcs L) p l s" for l s
    using assms Add by (intro moved_in_put) (simp add: entry_moves_def)
  then show ?thesis
    using assms Add by (auto simp: commitment_of_def in_commitment_def fun_eq_iff)
next
  case (Remove i r)
  then obtain e where e: "led_htlcs L (other p, i) = Some e" "e_pos e = 4" using assms by (auto split: option.splits)
  let ?e = "e\<lparr>e_pos := 5, e_r := r\<rparr>"
  have "moved_in ((led_htlcs L)((other p, i) \<mapsto> ?e)) p l s = moved_in (led_htlcs L) p l s" for l s
    using e by (intro moved_in_put) (simp add: entry_moves_def Let_def)
  then show ?thesis
    using e Remove by (auto simp: commitment_of_def in_commitment_def fun_eq_iff)
next
  case (Commit c)
  have "commitment_of opn p (L\<lparr>led_htlcs := bump {0, 7} {2, 5} p (led_htlcs L),
      led_fees := shift (if p = opn then 0 else 2) (led_fees L), led_heights := shift (if p = opn then 0 else 2) (led_heights L)\<rparr>)
    = commitment_of opn p L"
    using shift_committed by (intro commitment_bump) (auto simp: commitment_of_def)
  with Commit show ?thesis by (simp add: Let_def)
next
  case Revoke
  have "commitment_of opn p (L\<lparr>led_htlcs := bump {3, 6} {1, 8} p (led_htlcs L),
      led_fees := shift (if p = opn then 3 else 1) (led_fees L), led_heights := shift (if p = opn then 3 else 1) (led_heights L)\<rparr>)
    = commitment_of opn p L"
    using shift_committed by (intro commitment_bump) (auto simp: commitment_of_def)
  with Revoke show ?thesis by (simp add: Let_def)
qed (auto simp: commitment_of_def)

lemma shift_revoked:
  "first_some (map (shift 3 f) [1, 2, 3, 4]) = first_some (map f [1, 2, 3, 4])"
  "first_some (map (shift (Suc 0) f) [3, 4]) = first_some (map f [3, 4])"
  by (auto simp: shift_def)

text \<open>Only a commitment of a party changes the commitment of the other.\<close>

lemma other_commitment:
  assumes "ledger_fits sha pt p m L" and "update_snapshot m = None"
  shows "commitment_of opn (other p) (ledger_app opn p m L) = commitment_of opn (other p) L"
proof (cases m)
  case (Add i e)
  let ?e = "e\<lparr>e_pos := 0, e_r := None\<rparr>"
  have "moved_in ((led_htlcs L)((p, i) \<mapsto> ?e)) (other p) l s = moved_in (led_htlcs L) (other p) l s" for l s
    using assms Add by (intro moved_in_put) (simp add: entry_moves_def Let_def)
  then show ?thesis
    using assms Add by (auto simp: commitment_of_def in_commitment_def fun_eq_iff)
next
  case (Remove i r)
  then obtain e where e: "led_htlcs L (other p, i) = Some e" "e_pos e = 4" using assms by (auto split: option.splits)
  let ?e = "e\<lparr>e_pos := 5, e_r := r\<rparr>"
  have "moved_in ((led_htlcs L)((other p, i) \<mapsto> ?e)) (other p) l s = moved_in (led_htlcs L) (other p) l s" for l s
    using e by (intro moved_in_put) (simp add: entry_moves_def Let_def)
  then show ?thesis
    using e Remove by (auto simp: commitment_of_def in_commitment_def fun_eq_iff)
next
  case Revoke
  have "commitment_of opn (other p) (L\<lparr>led_htlcs := bump {3, 6} {1, 8} p (led_htlcs L),
      led_fees := shift (if p = opn then 3 else 1) (led_fees L), led_heights := shift (if p = opn then 3 else 1) (led_heights L)\<rparr>)
    = commitment_of opn (other p) L"
  proof (cases "p = opn")
    case True
    then have "other p \<noteq> opn" by (cases p) auto
    with True show ?thesis using shift_revoked(1) by (intro commitment_bump) (auto simp: commitment_of_def)
  next
    case False
    then have "other p = opn" by (cases p; cases opn) auto
    with False show ?thesis using shift_revoked(2) by (intro commitment_bump) (auto simp: commitment_of_def)
  qed
  with Revoke show ?thesis by (simp add: Let_def)
qed (use assms in \<open>auto simp: commitment_of_def\<close>)

interpretation parties:
  duplex "ledger_app opn" "\<lambda>_. may_cross" "ledger_fits sha pt" "commitment_of opn" update_snapshot for opn sha pt
proof
  show "ledger_app opn p a (ledger_app opn (other p) b L) = ledger_app opn (other p) b (ledger_app opn p a L)"
    if "may_cross a b" for p a b L using ledger_commute [OF that] .
  show "ledger_fits sha pt (other p) b (ledger_app opn p a L)"
    if "may_cross a b" "ledger_fits sha pt (other p) b L" for p a b L
    using that by (cases a; cases b) (auto simp: bump_def Let_def entry_opens_def split: option.splits)
  show "may_cross b a" if "may_cross a b" for a b using that by (cases a; cases b) auto
  show "commitment_of opn p (ledger_app opn p m L) = commitment_of opn p L" if "ledger_fits sha pt p m L" for p m L
    using own_commitment [OF that] .
  show "commitment_of opn (other p) (ledger_app opn p m L) = commitment_of opn (other p) L"
    if "ledger_fits sha pt p m L" "update_snapshot m = None" for p m L using other_commitment [OF that] .
qed

end
