(* ===== verification/Tracking.thy ===== *)
theory Tracking
  imports Ledger ChannelRuns
begin

text \<open>
  A channel of \<^verbatim>\<open>channeld/full_channel.c\<close> follows a ledger of \<open>Ledger\<close>: its HTLCs, balances, feerates
  and blockheights are those of the ledger, seen from one party. The theory shows that each operation
  on the channel moves the ledger by the update that the message stands for.
\<close>

section \<open>A channel and its ledger\<close>

text \<open>The side \<open>s\<close> of the party \<open>p\<close>'s channel, seen from outside; it is its own inverse.\<close>

definition abs_side :: "side \<Rightarrow> side \<Rightarrow> side" where
  "abs_side p s = (if s = LOCAL then p else other p)"

lemma abs_side_simps [simp]:
  "abs_side p LOCAL = p" "abs_side p REMOTE = other p" "abs_side p (other s) = other (abs_side p s)"
  "abs_side p s = abs_side p t \<longleftrightarrow> s = t" "abs_side (other p) s = other (abs_side p s)"
  by (cases p; cases s; simp add: abs_side_def; cases t; simp)+

definition entry_of :: "htlc \<Rightarrow> entry" where
  "entry_of h = \<lparr>e_amount = h_amount h, e_expiry = h_expiry h, e_rhash = h_rhash h, e_lock_point = h_lock_point h,
     e_lane = h_lane h, e_r = h_r h, e_pos = hpos h\<rparr>"

definition key_of :: "side \<Rightarrow> htlc \<Rightarrow> side \<times> u64" where
  "key_of p h = (abs_side p (htlc_owner h), h_id h)"

lemma entry_moves_of: "entry_moves (abs_side p v) (abs_side p s) (abs_side p (htlc_owner h)) (entry_of h) = adj v s h"
  by (simp add: entry_moves_def entry_of_def adj_def contrib_def hamt_def Let_def)

text \<open>The slots of the opener's updates, by position.\<close>

definition pos_slots :: "side \<Rightarrow> slots \<Rightarrow> nat \<Rightarrow> u32 option" where
  "pos_slots opn f i = (if i < 5 then f (fee_state_range opn ! i) else None)"

definition tracks :: "side \<Rightarrow> side \<Rightarrow> nat \<Rightarrow> (nat \<Rightarrow> side \<Rightarrow> int) \<Rightarrow> channel \<Rightarrow> ledger \<Rightarrow> bool" where
  "tracks p opn n init ch L \<longleftrightarrow>
     chan_wf ch \<and> nlanes ch = n \<and> chan_swap ch = None \<and> abs_side p (opener ch) = opn
   \<and> distinct (map (key_of p) (htlcs ch)) \<and> (\<forall>h \<in> set (htlcs ch). hpos h \<le> 4 \<longrightarrow> h_failed h = None)
   \<and> (\<forall>h \<in> set (htlcs ch). led_htlcs L (key_of p h) = Some (entry_of h))
   \<and> (\<forall>k e. led_htlcs L k = Some e \<longrightarrow> (e_pos e < 9 \<longrightarrow> k \<in> key_of p ` set (htlcs ch)) \<and> (e_pos e \<le> 4 \<longrightarrow> e_r e = None))
   \<and> finite (dom (led_htlcs L))
   \<and> (\<forall>v l s. l < n \<longrightarrow>
        bal ch v l s = of_int (init l (abs_side p s) + moved_in (led_htlcs L) (abs_side p v) l (abs_side p s)))
   \<and> led_fees L = pos_slots (opener ch) (feerate (channel_fee_states ch))
   \<and> (\<exists>hs. blockheight_states ch = Some hs \<and> led_heights L = pos_slots (opener ch) (height hs))"

lemma sum_over_keys: "distinct (map f xs) \<Longrightarrow> (\<Sum>k \<in> f ` set xs. g k) = (\<Sum>x \<leftarrow> xs. g (f x) :: int)"
  by (induction xs) simp_all

text \<open>What a change of positions does to the balances, summed over the live HTLCs.\<close>

lemma moved_in_event:
  assumes fin: "finite (dom m)" and dist: "distinct (map (key_of p) hs)"
    and live: "\<forall>h \<in> set hs. m (key_of p h) = Some (entry_of h)"
    and dead: "\<And>k e. m k = Some e \<Longrightarrow> k \<notin> key_of p ` set hs \<Longrightarrow> bump P Q q m k = m k"
    and adv: "\<forall>h \<in> set hs. bump P Q q m (key_of p h) = Some (entry_of (f h)) \<and> htlc_owner (f h) = htlc_owner h \<and> h_lane (f h) = h_lane h"
  shows "moved_in (bump P Q q m) (abs_side p v) l (abs_side p s)
     = moved_in m (abs_side p v) l (abs_side p s) + (lane_sum (adj v s) l (map f hs) - lane_sum (adj v s) l hs)"
proof -
  let ?g = "\<lambda>m k. if unat (e_lane (the (m k))) = l then entry_moves (abs_side p v) (abs_side p s) (fst k) (the (m k)) else 0"
  let ?K = "key_of p ` set hs"
  have sub: "?K \<subseteq> dom m" using live by auto
  have "moved_in (bump P Q q m) (abs_side p v) l (abs_side p s) - moved_in m (abs_side p v) l (abs_side p s)
      = (\<Sum>k \<in> dom m. ?g (bump P Q q m) k - ?g m k)"
    by (simp add: moved_in_def sum_subtractf)
  also have "\<dots> = (\<Sum>k \<in> ?K. ?g (bump P Q q m) k - ?g m k)"
    using sub fin dead by (intro sum.mono_neutral_right) auto
  also have "\<dots> = (\<Sum>h \<leftarrow> hs. ?g (bump P Q q m) (key_of p h) - ?g m (key_of p h))"
    by (rule sum_over_keys [OF dist])
  also have "\<dots> = (\<Sum>h \<leftarrow> hs. (if unat (h_lane h) = l then adj v s (f h) else 0) - (if unat (h_lane h) = l then adj v s h else 0))"
  proof (rule arg_cong [of _ _ sum_list], rule map_cong [OF refl])
    fix h assume h: "h \<in> set hs"
    show "?g (bump P Q q m) (key_of p h) - ?g m (key_of p h)
        = (if unat (h_lane h) = l then adj v s (f h) else 0) - (if unat (h_lane h) = l then adj v s h else 0)"
      using adv live h entry_moves_of [of p v s h] entry_moves_of [of p v s "f h"]
      by (simp add: key_of_def entry_of_def)
  qed
  also have "\<dots> = lane_sum (adj v s) l (map f hs) - lane_sum (adj v s) l hs"
  proof -
    have "(\<Sum>h \<leftarrow> hs. if unat (h_lane h) = l then adj v s (f h) else 0) = lane_sum (adj v s) l (map f hs)"
      using adv by (induction hs) (simp_all add: lane_sum_def)
    then show ?thesis by (simp add: sum_list_subtractf lane_sum_def)
  qed
  finally show ?thesis by simp
qed

section \<open>Commitments and revocations move the ledger\<close>

lemma advance_more [simp]:
  "h_failed (advance S h) = h_failed h" "h_rhash (advance S h) = h_rhash h" "h_lock_point (advance S h) = h_lock_point h" "h_expiry (advance S h) = h_expiry h"
  by (simp_all add: advance_def split: option.splits)

lemma key_of_advance [simp]: "key_of p (advance S h) = key_of p h"
  by (simp add: key_of_def)

lemma dead_pos: "htlc_is_dead h \<longleftrightarrow> hpos h = 9"
  by (cases "h_state h") (simp_all add: htlc_is_dead_def hpos_def life_pos_def)

lemma pos_le_9: "hpos h \<le> 9"
  by (cases "h_state h") (simp_all add: hpos_def life_pos_def)

context chan_event
begin

lemma bump_entry:
  "m (key_of p h) = Some (entry_of h) \<Longrightarrow> bump P Q (abs_side p s) m (key_of p h) = Some (entry_of (advance S h))"
  by (simp add: bump_def key_of_def entry_of_def hpos_event)

lemma tracks_event:
  assumes T: "tracks p opn n init ch L" and run: "change_htlcs ch v S = Some (c, ch', changed)"
  shows "\<exists>hs. blockheight_states ch' = Some hs
    \<and> tracks p opn n init ch' (L\<lparr>led_htlcs := bump P Q (abs_side p s) (led_htlcs L),
        led_fees := pos_slots (opener ch) (feerate (channel_fee_states ch')),
        led_heights := pos_slots (opener ch) (height hs)\<rparr>)"
proof -
  let ?m = "led_htlcs L" and ?hs = "htlcs ch"
  let ?b = "bump P Q (abs_side p s) ?m"
  note T' = T [unfolded tracks_def]
  have wf: "chan_wf ch" and n: "nlanes ch = n" and dist: "distinct (map (key_of p) ?hs)"
    and live: "\<forall>h \<in> set ?hs. ?m (key_of p h) = Some (entry_of h)"
    and all: "\<And>k e. ?m k = Some e \<Longrightarrow> (e_pos e < 9 \<longrightarrow> k \<in> key_of p ` set ?hs) \<and> (e_pos e \<le> 4 \<longrightarrow> e_r e = None)"
    and fin: "finite (dom ?m)"
    using T' by auto
  note eff = change_htlcs_effect [OF all_succ wf, of v]
  have ch': "htlcs ch' = filter (\<lambda>h. \<not> htlc_is_dead h) (map (advance S) ?hs)" "chan_swap ch' = advance_swap S (chan_swap ch)"
      "nlanes ch' = nlanes ch" "blockheight_states ch' \<noteq> None" "sym_lanes ch' = sym_lanes ch" "opener ch' = opener ch"
    and bal: "\<And>w l t. l < n \<Longrightarrow> bal ch' w l t = (if w = v then bal ch v l t + of_int (event_delta ch v S l t) else bal ch w l t)"
    using eff run n by auto
  obtain hts where hts: "blockheight_states ch' = Some hts" using ch'(4) by blast
  have adv: "\<forall>h \<in> set ?hs. ?b (key_of p h) = Some (entry_of (advance S h))" using live bump_entry by blast
  have dead: "?b k = ?m k" if "?m k = Some e" "k \<notin> key_of p ` set ?hs" for k e
  proof -
    have "\<not> e_pos e < 9" using all [OF that(1)] that(2) by blast
    then have "e_pos e \<notin> P \<union> Q" using early by blast
    then show ?thesis using that(1) by (simp add: bump_def)
  qed
  have moved: "moved_in ?b (abs_side p w) l (abs_side p t) = moved_in ?m (abs_side p w) l (abs_side p t)
      + (lane_sum (adj w t) l (map (advance S) ?hs) - lane_sum (adj w t) l ?hs)" for w l t
    using adv by (intro moved_in_event [OF fin dist live dead]) auto
  have "bal ch' w l t = of_int (init l (abs_side p t) + moved_in ?b (abs_side p w) l (abs_side p t))" if "l < n" for w l t
  proof -
    have old: "bal ch w l t = of_int (init l (abs_side p t) + moved_in ?m (abs_side p w) l (abs_side p t))"
      using T' that by blast
    have "lane_sum (adj w t) l (map (advance S) ?hs) = lane_sum (adj w t) l ?hs" if "w \<noteq> v"
      using adj_other_view [OF that] by (simp add: lane_sum_map_advance comp_def)
    moreover have "event_delta ch v S l t = lane_sum (adj v t) l (map (advance S) ?hs) - lane_sum (adj v t) l ?hs"
      using T' by (simp add: event_delta_def advance_swap_def swap_adj_def)
    ultimately show ?thesis unfolding moved bal [OF that] using old by (cases "w = v") simp_all
  qed
  moreover have "chan_wf ch'"
  proof -
    have "chan_swap ch' = None" using ch'(2) T' by (simp add: advance_swap_def)
    moreover have "length (sym_lane_bal ch') = length (lanes_of ch')"
      using wf ch'(3,5) by (simp add: chan_wf_def nlanes_def lanes_of_def)
    moreover have "\<forall>h \<in> set (htlcs ch'). \<not> htlc_is_dead h \<and> unat (h_lane h) < nlanes ch'"
      using wf ch'(1,3) by (auto simp: chan_wf_def)
    ultimately show ?thesis using ch'(4) by (simp add: chan_wf_def swap_wf_def)
  qed
  moreover have "distinct (map (key_of p) (htlcs ch'))"
    unfolding ch'(1) using dist by (auto simp: filter_map comp_def distinct_map_filter)
  moreover have "\<forall>h \<in> set (htlcs ch'). ?b (key_of p h) = Some (entry_of h)"
    unfolding ch'(1) using adv by auto
  moreover have "\<forall>h \<in> set (htlcs ch'). hpos h \<le> 4 \<longrightarrow> h_failed h = None"
  proof (intro ballI impI)
    fix g assume g: "g \<in> set (htlcs ch')" "hpos g \<le> 4"
    then obtain h where h: "h \<in> set ?hs" "g = advance S h" unfolding ch'(1) by auto
    then have "hpos h \<le> 4" using g(2) advance_pos [of S h] by (simp split: if_splits)
    then show "h_failed g = None" using h T' by simp
  qed
  moreover have "(e_pos e < 9 \<longrightarrow> k \<in> key_of p ` set (htlcs ch')) \<and> (e_pos e \<le> 4 \<longrightarrow> e_r e = None)" if b: "?b k = Some e" for k e
  proof (cases "k \<in> key_of p ` set ?hs")
    case True
    then obtain h where h: "h \<in> set ?hs" "k = key_of p h" by blast
    then have e: "e = entry_of (advance S h)" using adv b by simp
    have "h_r h = None" if "hpos (advance S h) \<le> 4"
      using that all [of k "entry_of h"] live h advance_pos [of S h] by (auto simp: entry_of_def split: if_splits)
    moreover have "k \<in> key_of p ` set (htlcs ch')" if "hpos (advance S h) < 9"
      unfolding ch'(1) using h that by (intro image_eqI [where x = "advance S h"]) (auto simp: dead_pos)
    ultimately show ?thesis by (simp add: e entry_of_def)
  next
    case False
    then have "?m k = Some e" using b dead [of k] by (cases "?m k") (auto simp: bump_def)
    then show ?thesis using all False by blast
  qed
  ultimately show ?thesis
    using hts T' fin ch' by (simp add: tracks_def advance_swap_def)
qed

end

subsection \<open>Feerates and blockheights\<close>

definition step_slots :: "htlc_state \<Rightarrow> slots \<Rightarrow> slots" where
  "step_slots st f =
     (if \<not> state_has st HTLC_ADDING \<or> f st = None then f else f(the (htlc_state_succ st) := f st, st := None))"

lemma change_fees_slots:
  "change_fees ss fs (Some hs) = Some (fs', hs', fl) \<Longrightarrow>
   feerate fs' = fold step_slots ss (feerate fs) \<and> (\<exists>h. hs' = Some h \<and> height h = fold step_slots ss (height hs))"
proof (induction ss arbitrary: fs hs fl)
  case (Cons st ss)
  from Cons.prems obtain b1 fs1 b2 h1 fl1 where
    f: "fee_incstate fs st = Some (b1, fs1)" and h: "blockheight_incstate (Some hs) st = Some (b2, h1)"
    and rest: "change_fees ss fs1 h1 = Some (fs', hs', fl1)"
    by (auto simp: bind_eq_Some_conv split: prod.splits)
  have "feerate fs1 = step_slots st (feerate fs)"
    using f by (auto simp: fee_incstate_def inc_fee_state_def step_slots_def bind_eq_Some_conv split: if_splits)
  moreover obtain k where k: "h1 = Some k"
    using h by (auto simp: blockheight_incstate_def bind_eq_Some_conv split: if_splits)
  moreover have "height k = step_slots st (height hs)"
    using h unfolding k
    by (auto simp: blockheight_incstate_def inc_height_state_def step_slots_def bind_eq_Some_conv split: if_splits)
  ultimately show ?case using Cons.IH [of fs1 k fl1] rest by simp
qed auto

lemma change_htlcs_fees:
  assumes "change_htlcs ch v S = Some (c, ch', changed)" and "blockheight_states ch = Some hs"
  shows "feerate (channel_fee_states ch') = fold step_slots (rev S) (feerate (channel_fee_states ch))
    \<and> (\<exists>h. blockheight_states ch' = Some h \<and> height h = fold step_slots (rev S) (height hs))"
proof -
  from assms obtain fs hts fl where run: "change_fees (rev S) (channel_fee_states ch) (Some hs) = Some (fs, hts, fl)"
      "channel_fee_states ch' = fs" "blockheight_states ch' = hts"
    by (auto simp: change_htlcs_def bind_eq_Some_conv put_view_amounts_def split: prod.splits)
  show ?thesis using change_fees_slots [OF run(1)] run(2,3) by simp
qed

lemma step_slots_simps:
  "step_slots SENT_ADD_HTLC f = (if f SENT_ADD_HTLC = None then f else f(SENT_ADD_COMMIT := f SENT_ADD_HTLC, SENT_ADD_HTLC := None))"
  "step_slots SENT_ADD_COMMIT f = (if f SENT_ADD_COMMIT = None then f else f(RCVD_ADD_REVOCATION := f SENT_ADD_COMMIT, SENT_ADD_COMMIT := None))"
  "step_slots RCVD_ADD_REVOCATION f = (if f RCVD_ADD_REVOCATION = None then f else f(RCVD_ADD_ACK_COMMIT := f RCVD_ADD_REVOCATION, RCVD_ADD_REVOCATION := None))"
  "step_slots RCVD_ADD_ACK_COMMIT f = (if f RCVD_ADD_ACK_COMMIT = None then f else f(SENT_ADD_ACK_REVOCATION := f RCVD_ADD_ACK_COMMIT, RCVD_ADD_ACK_COMMIT := None))"
  "step_slots RCVD_ADD_HTLC f = (if f RCVD_ADD_HTLC = None then f else f(RCVD_ADD_COMMIT := f RCVD_ADD_HTLC, RCVD_ADD_HTLC := None))"
  "step_slots RCVD_ADD_COMMIT f = (if f RCVD_ADD_COMMIT = None then f else f(SENT_ADD_REVOCATION := f RCVD_ADD_COMMIT, RCVD_ADD_COMMIT := None))"
  "step_slots SENT_ADD_REVOCATION f = (if f SENT_ADD_REVOCATION = None then f else f(SENT_ADD_ACK_COMMIT := f SENT_ADD_REVOCATION, SENT_ADD_REVOCATION := None))"
  "step_slots SENT_ADD_ACK_COMMIT f = (if f SENT_ADD_ACK_COMMIT = None then f else f(RCVD_ADD_ACK_REVOCATION := f SENT_ADD_ACK_COMMIT, SENT_ADD_ACK_COMMIT := None))"
  "step_slots SENT_REMOVE_HTLC f = f" "step_slots SENT_REMOVE_COMMIT f = f" "step_slots RCVD_REMOVE_REVOCATION f = f"
  "step_slots RCVD_REMOVE_ACK_COMMIT f = f" "step_slots RCVD_REMOVE_HTLC f = f" "step_slots RCVD_REMOVE_COMMIT f = f"
  "step_slots SENT_REMOVE_REVOCATION f = f" "step_slots SENT_REMOVE_ACK_COMMIT f = f"
  by (simp_all add: step_slots_def flag_simps)

lemma below_5: "(i::nat) < 5 \<longleftrightarrow> i = 0 \<or> i = 1 \<or> i = 2 \<or> i = 3 \<or> i = 4"
  by auto

lemma slots_sending_commit:
  "pos_slots opn (fold step_slots (rev [SENT_ADD_HTLC, SENT_REMOVE_REVOCATION, SENT_ADD_REVOCATION, SENT_REMOVE_HTLC]) f)
     = shift (if opn = LOCAL then 0 else 2) (pos_slots opn f)"
  by (cases opn) (auto simp: pos_slots_def shift_def step_slots_simps below_5 fun_eq_iff)

lemma slots_rcvd_commit:
  "pos_slots opn (fold step_slots (rev [RCVD_ADD_REVOCATION, RCVD_REMOVE_HTLC, RCVD_ADD_HTLC, RCVD_REMOVE_REVOCATION]) f)
     = shift (if opn = LOCAL then 2 else 0) (pos_slots opn f)"
  by (cases opn) (auto simp: pos_slots_def shift_def step_slots_simps below_5 fun_eq_iff)

lemma slots_rcvd_revoke:
  "pos_slots opn (fold step_slots (rev [SENT_ADD_COMMIT, SENT_REMOVE_ACK_COMMIT, SENT_ADD_ACK_COMMIT, SENT_REMOVE_COMMIT]) f)
     = shift (if opn = LOCAL then 1 else 3) (pos_slots opn f)"
  by (cases opn) (auto simp: pos_slots_def shift_def step_slots_simps below_5 fun_eq_iff)

lemma slots_sending_revoke:
  "pos_slots opn (fold step_slots (rev [RCVD_ADD_ACK_COMMIT, RCVD_REMOVE_COMMIT, RCVD_ADD_COMMIT, RCVD_REMOVE_ACK_COMMIT]) f)
     = shift (if opn = LOCAL then 3 else 1) (pos_slots opn f)"
  by (cases opn) (auto simp: pos_slots_def shift_def step_slots_simps below_5 fun_eq_iff)

subsection \<open>The four events\<close>

lemma bump_flip: "bump Q P (other p) m = bump P Q p m"
  by (auto simp: bump_def fun_eq_iff neq_side_iff)

lemma tracks_heights: "tracks p opn n init ch L \<Longrightarrow> \<exists>hs. blockheight_states ch = Some hs \<and> led_heights L = pos_slots (opener ch) (height hs)"
  by (simp add: tracks_def)

lemma tracks_cases:
  assumes "tracks p opn n init ch L"
  shows "(p = opn) = (opener ch = LOCAL)" "(other p = opn) = (opener ch = REMOTE)" "led_fees L = pos_slots (opener ch) (feerate (channel_fee_states ch))"
  using assms by (cases "opener ch"; auto simp: tracks_def)+

lemma tracks_by_event:
  assumes "chan_event s v P Q S" and "tracks p opn n init ch L" and "change_htlcs ch v S = Some (c, ch', changed)"
    and slots: "\<And>f. pos_slots (opener ch) (fold step_slots (rev S) f) = shift i (pos_slots (opener ch) f)"
  shows "tracks p opn n init ch' (L\<lparr>led_htlcs := bump P Q (abs_side p s) (led_htlcs L),
      led_fees := shift i (led_fees L), led_heights := shift i (led_heights L)\<rparr>)"
proof -
  obtain hs where hs: "blockheight_states ch = Some hs" "led_heights L = pos_slots (opener ch) (height hs)"
    using tracks_heights [OF assms(2)] by blast
  from change_htlcs_fees [OF assms(3) hs(1)] chan_event.tracks_event [OF assms(1-3)] show ?thesis
    by (auto simp: hs tracks_cases(3) [OF assms(2)] slots)
qed

lemma tracks_sending_commit:
  assumes "tracks p opn n init ch L" and "channel_sending_commit ch = Some (b, ch', hs)"
  shows "tracks p opn n init ch' (ledger_app opn p (Commit com) L)"
proof -
  obtain c where run: "change_htlcs ch REMOTE
      [SENT_ADD_HTLC, SENT_REMOVE_REVOCATION, SENT_ADD_REVOCATION, SENT_REMOVE_HTLC] = Some (c, ch', hs)"
    using assms(2) by (auto simp: channel_sending_commit_def bind_eq_Some_conv)
  from tracks_by_event [OF sending_commit.chan_event_axioms [unfolded other.simps] assms(1) run slots_sending_commit] show ?thesis
    by (simp add: tracks_cases [OF assms(1)] Let_def)
qed

lemma tracks_rcvd_commit:
  assumes "tracks p opn n init ch L" and "channel_rcvd_commit ch = Some (b, ch', hs)"
  shows "tracks p opn n init ch' (ledger_app opn (other p) (Commit com) L)"
proof -
  obtain c where run: "change_htlcs ch LOCAL
      [RCVD_ADD_REVOCATION, RCVD_REMOVE_HTLC, RCVD_ADD_HTLC, RCVD_REMOVE_REVOCATION] = Some (c, ch', hs)"
    using assms(2) by (auto simp: channel_rcvd_commit_def bind_eq_Some_conv)
  from tracks_by_event [OF rcvd_commit.chan_event_axioms [unfolded other.simps] assms(1) run slots_rcvd_commit] show ?thesis
    by (cases "opener ch") (simp_all add: tracks_cases [OF assms(1)] Let_def)
qed

lemma tracks_rcvd_revoke:
  assumes "tracks p opn n init ch L" and "channel_rcvd_revoke_and_ack ch = Some (b, ch', hs)"
  shows "tracks p opn n init ch' (ledger_app opn (other p) Revoke L)"
proof -
  obtain c where run: "change_htlcs ch LOCAL
      [SENT_ADD_COMMIT, SENT_REMOVE_ACK_COMMIT, SENT_ADD_ACK_COMMIT, SENT_REMOVE_COMMIT] = Some (c, ch', hs)"
    using assms(2) by (auto simp: channel_rcvd_revoke_and_ack_def bind_eq_Some_conv)
  from tracks_by_event [OF rcvd_revoke.chan_event_axioms [unfolded other.simps] assms(1) run slots_rcvd_revoke] show ?thesis
    by (cases "opener ch") (simp_all add: tracks_cases [OF assms(1)] Let_def bump_flip [of "{1, 8}", symmetric, simplified])
qed

lemma tracks_sending_revoke:
  assumes "tracks p opn n init ch L" and "channel_sending_revoke_and_ack ch = Some (b, ch')"
  shows "tracks p opn n init ch' (ledger_app opn p Revoke L)"
proof -
  obtain c hs where run: "change_htlcs ch REMOTE
      [RCVD_ADD_ACK_COMMIT, RCVD_REMOVE_COMMIT, RCVD_ADD_COMMIT, RCVD_REMOVE_ACK_COMMIT] = Some (c, ch', hs)"
    using assms(2) by (auto simp: channel_sending_revoke_and_ack_def bind_eq_Some_conv)
  from tracks_by_event [OF sending_revoke.chan_event_axioms [unfolded other.simps] assms(1) run slots_sending_revoke] show ?thesis
    by (simp add: tracks_cases [OF assms(1)] Let_def bump_flip)
qed

section \<open>The other updates\<close>

lemma bal_htlcs [simp]: "bal (ch\<lparr>htlcs := hs\<rparr>) v l s = bal ch v l s"
  by (simp add: bal_def)

lemma nlanes_htlcs [simp]: "nlanes (ch\<lparr>htlcs := hs\<rparr>) = nlanes ch"
  by (simp add: nlanes_def lanes_of_def)

lemma chan_wf_htlcs:
  "chan_wf ch \<Longrightarrow> \<forall>h \<in> set hs. \<not> htlc_is_dead h \<and> unat (h_lane h) < nlanes ch \<Longrightarrow> chan_wf (ch\<lparr>htlcs := hs\<rparr>)"
  by (auto simp: chan_wf_def nlanes_def lanes_of_def)

lemma tracks_add:
  assumes T: "tracks p opn n init ch L" and new: "hpos h = 0" "h_r h = None" "unat (h_lane h) < nlanes ch" "h_failed h = None"
    and fresh: "led_htlcs L (key_of p h) = None"
  shows "tracks p opn n init (ch\<lparr>htlcs := h # htlcs ch\<rparr>) (ledger_app opn (abs_side p (htlc_owner h)) (Add (h_id h) (entry_of h)) L)"
proof -
  let ?m = "led_htlcs L" and ?k = "key_of p h"
  have e: "(entry_of h)\<lparr>e_pos := 0, e_r := None\<rparr> = entry_of h" using new by (simp add: entry_of_def)
  have k: "(abs_side p (htlc_owner h), h_id h) = ?k" by (simp add: key_of_def)
  have moved: "moved_in (?m(?k \<mapsto> entry_of h)) v l s = moved_in ?m v l s" for v l s
    using fresh new by (intro moved_in_put) (simp add: entry_moves_def entry_of_def Let_def)
  have nk: "key_of p g \<noteq> ?k" if "g \<in> set (htlcs ch)" for g using T that fresh by (auto simp: tracks_def)
  have "distinct (map (key_of p) (h # htlcs ch))" using T nk by (force simp: tracks_def)
  moreover have "\<forall>g \<in> set (h # htlcs ch). (?m(?k \<mapsto> entry_of h)) (key_of p g) = Some (entry_of g)"
    using T nk by (auto simp: tracks_def)
  moreover have "chan_wf (ch\<lparr>htlcs := h # htlcs ch\<rparr>)"
    using T new by (intro chan_wf_htlcs) (auto simp: tracks_def chan_wf_def dead_pos)
  moreover have "e_r (entry_of h) = None" using new(2) by (simp add: entry_of_def)
  ultimately show ?thesis
    using T new(4) unfolding tracks_def ledger_app.simps e k by (auto simp: moved)
qed

lemma htlc_put_keys:
  assumes "htlc_get hs hid owner = Some h" "key_of p h' = key_of p h" "distinct (map (key_of p) hs)"
  shows "map (key_of p) (htlc_put hid owner h' hs) = map (key_of p) hs
    \<and> set (htlc_put hid owner h' hs) = insert h' {g \<in> set hs. key_of p g \<noteq> key_of p h}"
  using assms
proof (induction hs)
  case (Cons g gs)
  show ?case
  proof (cases "h_id g = hid \<and> htlc_has g (HTLC_FLAG owner HTLC_F_OWNER)")
    case True
    then have "h = g" using Cons.prems(1) by (simp add: htlc_get_def)
    with True Cons.prems show ?thesis by (auto simp: image_iff)
  next
    case False
    then have get: "htlc_get gs hid owner = Some h" using Cons.prems(1) by (auto simp: htlc_get_def)
    then have "h \<in> set gs" using htlc_get_Some by blast
    then have "key_of p g \<noteq> key_of p h" using Cons.prems(3) by auto
    then show ?thesis using Cons.IH [OF get Cons.prems(2)] Cons.prems(3) False by auto
  qed
qed (simp add: htlc_get_def)

lemma tracks_remove:
  assumes T: "tracks p opn n init ch L" and get: "htlc_get (htlcs ch) hid owner = Some h" and irr: "irrevocable h"
    and h': "entry_of h' = (entry_of h)\<lparr>e_pos := 5, e_r := r\<rparr>" "htlc_owner h' = owner" "h_id h' = hid"
  shows "tracks p opn n init (ch\<lparr>htlcs := htlc_put hid owner h' (htlcs ch)\<rparr>)
      (ledger_app opn (other (abs_side p owner)) (Remove hid r) L)"
    and "led_htlcs L (abs_side p owner, hid) = Some (entry_of h)" "e_pos (entry_of h) = 4"
proof -
  let ?m = "led_htlcs L" and ?k = "(abs_side p owner, hid)" and ?hs = "htlc_put hid owner h' (htlcs ch)"
  note h = htlc_get_Some [OF get]
  have k: "key_of p h = ?k" "key_of p h' = ?k" using h h' by (simp_all add: key_of_def)
  show m: "?m ?k = Some (entry_of h)" using T h(1) k(1) by (auto simp: tracks_def)
  show pos: "e_pos (entry_of h) = 4" using irr by (simp add: irrevocable_def entry_of_def)
  have moved: "moved_in (?m(?k \<mapsto> entry_of h')) v l s = moved_in ?m v l s" for v l s
    using m pos h'(1) by (intro moved_in_put) (simp add: entry_moves_def Let_def)
  have keys: "map (key_of p) ?hs = map (key_of p) (htlcs ch)" "set ?hs = insert h' {g \<in> set (htlcs ch). key_of p g \<noteq> ?k}"
    using htlc_put_keys [OF get, of p h'] T k by (simp_all add: tracks_def)
  have pos5: "e_pos (entry_of h') = 5" using h'(1) by simp
  have live: "hpos h' = 5" "h_lane h' = h_lane h" using h'(1) by (simp_all add: entry_of_def)
  have "\<forall>g \<in> set ?hs. (?m(?k \<mapsto> entry_of h')) (key_of p g) = Some (entry_of g)"
    using T keys(2) k(2) by (auto simp: tracks_def)
  moreover have "distinct (map (key_of p) ?hs)" using T keys(1) by (simp add: tracks_def)
  moreover have "chan_wf (ch\<lparr>htlcs := ?hs\<rparr>)"
    using T keys(2) live h(1) by (intro chan_wf_htlcs) (auto simp: tracks_def chan_wf_def dead_pos)
  moreover have "key_of p ` set ?hs = key_of p ` set (htlcs ch)" using keys(1) by (metis list.set_map)
  moreover have "?k \<in> key_of p ` set (htlcs ch)" using h(1) k(1) by (metis image_eqI)
  moreover have "ledger_app opn (other (abs_side p owner)) (Remove hid r) L = L\<lparr>led_htlcs := ?m(?k \<mapsto> entry_of h')\<rparr>"
    using m h'(1) by simp
  ultimately show "tracks p opn n init (ch\<lparr>htlcs := ?hs\<rparr>) (ledger_app opn (other (abs_side p owner)) (Remove hid r) L)"
    using T m pos5 k h(1) live keys(2) unfolding tracks_def by (auto simp: moved split: if_splits)
qed

lemma tracks_fee:
  assumes "tracks p opn n init ch L"
  shows "tracks p opn n init (ch\<lparr>channel_fee_states := start_fee_update (channel_fee_states ch) (opener ch) v\<rparr>)
    (ledger_app opn opn (Fee v) L)"
proof -
  have "pos_slots (opener ch) ((feerate (channel_fee_states ch))(first_fee_state (opener ch) := Some v))
      = (pos_slots (opener ch) (feerate (channel_fee_states ch)))(0 := Some v)"
    by (cases "opener ch") (auto simp: pos_slots_def below_5 fun_eq_iff)
  then show ?thesis
    using assms by (auto simp: tracks_def start_fee_update_def chan_wf_def nlanes_def lanes_of_def bal_def)
qed

lemma tracks_height:
  assumes "tracks p opn n init ch L" and "channel_update_blockheight ch v = Some ch'"
  shows "tracks p opn n init ch' (ledger_app opn opn (Height v) L)"
proof -
  obtain hs where hs: "blockheight_states ch = Some hs" "led_heights L = pos_slots (opener ch) (height hs)"
    using tracks_heights [OF assms(1)] by blast
  have "pos_slots (opener ch) ((height hs)(first_fee_state (opener ch) := Some v)) = (pos_slots (opener ch) (height hs))(0 := Some v)"
    by (cases "opener ch") (auto simp: pos_slots_def below_5 fun_eq_iff)
  then show ?thesis
    using assms hs by (auto simp: tracks_def channel_update_blockheight_def start_height_update_def chan_wf_def nlanes_def
        lanes_of_def bal_def)
qed

subsection \<open>An event that changes nothing\<close>

lemma flags_move: "same_owner_succ s = Some t \<Longrightarrow> htlc_state_flags s XOR htlc_state_flags t \<noteq> 0"
  by (cases s) (auto simp: same_owner_succ_iff htlc_state_flags_def flag_defs)

lemma change_loop_idle:
  assumes "change_htlcs_loop v S hs bals = Some (rest, changed, bals', 0)"
  shows "\<forall>h \<in> set hs. h_state h \<notin> set S"
  using assms
proof (induction hs arbitrary: bals rest changed bals')
  case (Cons h hs)
  show ?case
  proof (cases "h_state h \<in> set S")
    case True
    then obtain h' b1 c where r: "htlc_incstate h v bals = Some (h', b1)"
      "(htlc_state_flags (h_state h) XOR htlc_state_flags (h_state h')) OR c = 0"
      using Cons.prems by (auto simp: bind_eq_Some_conv)
    then have "same_owner_succ (h_state h) = Some (h_state h')"
      by (auto simp: htlc_incstate_def Let_def bind_eq_Some_conv)
    then show ?thesis using flags_move r(2) by (simp add: or_eq_0_iff)
  next
    case False
    then show ?thesis using Cons by (auto simp: bind_eq_Some_conv)
  qed
qed simp

lemma change_fees_idle: "change_fees ss fs hts = Some (fs', hts', 0) \<Longrightarrow> fs' = fs \<and> hts' = hts"
proof (induction ss arbitrary: fs hts)
  case (Cons s ss)
  then obtain t b1 fs1 b2 hts1 c where r: "same_owner_succ s = Some t" "fee_incstate fs s = Some (b1, fs1)"
    "blockheight_incstate hts s = Some (b2, hts1)" "change_fees ss fs1 hts1 = Some (fs', hts', c)"
    "(if b1 \<or> b2 then htlc_state_flags s XOR htlc_state_flags t else 0) OR c = 0"
    by (auto simp: bind_eq_Some_conv)
  then have "\<not> b1" "\<not> b2" "c = 0" using flags_move [OF r(1)] by (auto simp: or_eq_0_iff split: if_splits)
  then have "fs1 = fs" "hts1 = hts"
    using r(2,3) by (auto simp: fee_incstate_def blockheight_incstate_def inc_fee_state_def inc_height_state_def bind_eq_Some_conv split: if_splits)
  then show ?case using Cons.IH r(4) \<open>c = 0\<close> by simp
qed simp

lemma tracks_idle:
  assumes T: "tracks p opn n init ch L" and run: "change_htlcs ch v S = Some (0, ch', changed)"
    and succ: "\<forall>s \<in> set S. same_owner_succ s \<noteq> None"
  shows "tracks p opn n init ch' L"
proof -
  have wf: "chan_wf ch" and n: "nlanes ch = n" and sw: "chan_swap ch = None" using T by (auto simp: tracks_def)
  obtain rest bals bals' c1 c2 c3 amts fs hts sw2 b2 where r: "change_htlcs_loop v S (htlcs ch) bals = Some (rest, changed, bals', c1)"
    "change_fees (rev S) (channel_fee_states ch) (blockheight_states ch) = Some (fs, hts, c3)" "c1 OR c2 OR c3 = 0"
    "ch' = (put_view_amounts v amts ch)\<lparr>htlcs := rest, chan_swap := sw2, channel_fee_states := fs, blockheight_states := hts\<rparr>"
    using run by (auto simp: change_htlcs_def bind_eq_Some_conv)
  have idle: "h_state h \<notin> set S" if "h \<in> set (htlcs ch)" for h
    using change_loop_idle [of v S "htlcs ch" bals rest changed bals'] r(1,3) that by (auto simp: or_eq_0_iff)
  have fees: "fs = channel_fee_states ch" "hts = blockheight_states ch"
    using change_fees_idle [of "rev S"] r(2,3) by (auto simp: or_eq_0_iff)
  have adv: "map (advance S) (htlcs ch) = htlcs ch" using idle by (simp add: advance_def map_idI)
  note eff = change_htlcs_effect [OF succ wf, of v]
  have ch': "htlcs ch' = htlcs ch" "chan_swap ch' = None" "nlanes ch' = nlanes ch" "sym_lanes ch' = sym_lanes ch" "opener ch' = opener ch"
    and bal: "\<And>w l t. l < n \<Longrightarrow> bal ch' w l t = (if w = v then bal ch v l t + of_int (event_delta ch v S l t) else bal ch w l t)"
    using eff run n wf sw by (auto simp: adv advance_swap_def chan_wf_def)
  have "event_delta ch v S l t = 0" for l t by (simp add: event_delta_def adv sw advance_swap_def swap_adj_def)
  then have "bal ch' w l t = bal ch w l t" if "l < n" for w l t using bal [OF that] by simp
  moreover have "channel_fee_states ch' = channel_fee_states ch" "blockheight_states ch' = blockheight_states ch" using r(4) fees by simp_all
  moreover have "chan_wf ch'"
    using wf ch' calculation(3) by (auto simp: chan_wf_def swap_wf_def nlanes_def lanes_of_def)
  ultimately show ?thesis using T ch' by (simp add: tracks_def)
qed

lemma tracks_idle_commit:
  assumes "tracks p opn n init ch L" "channel_sending_commit ch = Some (False, ch', hs)"
  shows "tracks p opn n init ch' L"
proof -
  have "change_htlcs ch REMOTE [SENT_ADD_HTLC, SENT_REMOVE_REVOCATION, SENT_ADD_REVOCATION, SENT_REMOVE_HTLC] = Some (0, ch', hs)"
    using assms(2) by (auto simp: channel_sending_commit_def bind_eq_Some_conv)
  from tracks_idle [OF assms(1) this] show ?thesis using sending_commit.all_succ by blast
qed

end
