(* ===== verification/Channeld.thy ===== *)
theory Channeld
  imports Settlement
begin

text \<open>
  The channel daemon, \<^verbatim>\<open>channeld/channeld.c\<close>: the handlers that change a channel, on a message of the
  peer, on an order of lightningd, and on the commit timer. The state is the part of \<^verbatim>\<open>struct peer\<close> that
  they use. A handler returns the state and what it writes, to the peer and to lightningd, in order;
  \<open>Inl\<close> is a \<^verbatim>\<open>peer_failed_warn\<close>, \<^verbatim>\<open>peer_failed_err\<close> or \<^verbatim>\<open>status_failed\<close>, with which the process
  exits, and \<open>None\<close> a failed assertion.

  Messages are values, as the generated parsers return them. The channel has no splice in flight:
  a batch has one commitment. Signatures, revocation secrets and keys are of the signing daemon and
  of libsecp256k1, over the transactions that libwally builds: they are the fields of \<open>channeld_env\<close>.
  The penalty transactions of the watchtower, the splice dialogue and the reconnection are not
  modelled.
\<close>

section \<open>Messages\<close>

text \<open>
  The fields of \<^verbatim>\<open>update_add_htlc\<close> beyond the fixed ones. The message is kept as the sender fills it in, before it is
  encoded: \<open>add_fields\<close> is the list that he gives beside the other three. When a receiver has decoded a real message, the list
  \<^verbatim>\<open>tlvs->fields\<close> that it keeps with the HTLC also has the encoded path key, lane and lock point; nothing the daemon decides looks at that list.
\<close>

record add_tlvs =
  add_path_key :: "bytes option"
  add_lane :: "u16 option"
  add_point_lock :: "bytes option"
  add_fields :: "(u64 \<times> bytes) list option"

record seq_swap =
  seq_swap_id :: u64
  seq_give_lane :: u16
  seq_give :: amount_msat
  seq_take_lane :: u16
  seq_take :: amount_msat

datatype peer_msg =
    UPDATE_ADD_HTLC u64 amount_msat bytes u32 bytes add_tlvs
  | UPDATE_FULFILL_HTLC u64 bytes
  | UPDATE_FAIL_HTLC u64 "bytes option"
  | UPDATE_FAIL_MALFORMED_HTLC u64 bytes u16
  | UPDATE_FEE u32
  | UPDATE_BLOCKHEIGHT u32
  | COMMITMENT_SIGNED bytes "bytes list" "bytes option" "seq_swap option"
  | REVOKE_AND_ACK bytes bytes "bytes option"
  | SHUTDOWN bytes
  | STFU bool
  | SEQ_SWAP_REQUEST u64 u16 amount_msat u16 amount_msat u32

text \<open>\<^verbatim>\<open>common/htlc_wire.h\<close>: what lightningd is told of HTLCs.\<close>

record added_htlc =
  ad_id :: u64
  ad_amount :: amount_msat
  ad_payment_hash :: bytes
  ad_cltv_expiry :: u32
  ad_onion :: bytes
  ad_fail_immediate :: bool
  ad_path_key :: "bytes option"
  ad_extra_tlvs :: "(u64 \<times> bytes) list option"
  ad_lock_point :: "bytes option"
  ad_lane :: u16

record fulfilled_htlc =
  fulfilled_id :: u64
  payment_preimage :: bytes

record changed_htlc =
  newstate :: htlc_state
  changed_id :: u64

text \<open>Why a swap is not asked for, or not taken.\<close>

datatype swap_refusal =
    CHANNEL_NOT_READY
  | SWAP_OUTSTANDING
  | SWAP_CHECK swap_err
  | SIGNER_REFUSED

datatype master_msg =
    SENDING_COMMITSIG u64 "changed_htlc list" "sym_state option"
  | GOT_COMMITSIG u64 "added_htlc list" "fulfilled_htlc list" "failed_htlc option list" "changed_htlc list" "sym_state option"
  | GOT_REVOKE u64 bytes bytes "changed_htlc list" "sym_state option"
  | OFFER_HTLC_REPLY u64 "channel_add_err option"
  | GOT_SHUTDOWN bytes
  | QUIESCE_REPLY
  | SYM_SWAP_REPLY "swap_refusal option"

text \<open>The orders of lightningd.\<close>

datatype master_order =
    OFFER_HTLC amount_msat u32 bytes bytes "bytes option" "(u64 \<times> bytes) list option" "bytes option" u16
  | FEERATES u32 u32 u32 amount_msat
  | BLOCKHEIGHT u32
  | FULFILL_HTLC fulfilled_htlc
  | FAIL_HTLC failed_htlc
  | SEND_SHUTDOWN bytes
  | SYM_SWAP_REQUEST sym_swap u32
  | SYM_SWAP_ACCEPT sym_swap
  | SYM_SWAP_CANCEL u64

datatype peer_out = To_Peer peer_msg | To_Master master_msg

text \<open>Why the daemon exits.\<close>

datatype peer_err =
    POINT_LOCK_NOT_TAKEN
  | POINT_LOCK_HASH
  | LANE_OF_ONE_ASSET
  | BAD_ADD_HTLC channel_add_err
  | BAD_REMOVE_HTLC channel_remove_err
  | FEE_FROM_NON_OPENER
  | FEE_OUTSIDE_RANGE
  | FEE_UNAFFORDABLE
  | FEE_TOO_MUCH_DUST
  | HEIGHT_FROM_NON_OPENER
  | HEIGHT_OVERFLOW
  | HEIGHT_OLDER
  | HEIGHT_OUTSIDE_RANGE
  | SWAP_NOT_ASKED_FOR
  | SWAP_REFUSED swap_err
  | EMPTY_COMMIT_AGAIN
  | BAD_COMMIT_SIG
  | NUM_HTLC_SIGS nat nat
  | BAD_HTLC_SIG nat
  | NO_UPDATE_SIG
  | BAD_UPDATE_SIG
  | UNEXPECTED_REVOKE
  | BAD_PRIVKEY
  | WRONG_PRIVKEY
  | STFU_NOT_SUPPORTED
  | STFU_PENDING_UPDATES
  | STFU_NOT_INITIATED
  | SHUTDOWN_NOT_UPFRONT
  | NOT_READY
  | HTLC_NOT_REMOVED
  | ONLY_TX_ABORT
  | BEFORE_READY
  | BAD_DURING_STFU
  | UNKNOWN_MESSAGE
  | STATE_NOT_BUILT

section \<open>The daemon's state\<close>

record peer =
  peer_channel :: channel
  channel_ready :: "side \<Rightarrow> bool"
  next_index :: "side \<Rightarrow> u64"
  revocations_received :: u64
  htlc_id :: u64
  our_features :: feature_set
  their_features :: bytes
  feerate_min :: u32
  feerate_max :: u32
  desired_feerate :: u32
  our_blockheight :: u32
  next_local_per_commit :: bytes
  remote_per_commit :: bytes
  old_remote_per_commit :: bytes
  commit_timer :: bool
  send_shutdown :: bool
  shutdown_sent :: "side \<Rightarrow> bool"
  final_scriptpubkey :: bytes
  remote_upfront_shutdown_script :: bytes
  want_stfu :: bool
  stfu_initiator :: side
  stfu_sent :: "side \<Rightarrow> bool"
  stfu_wait_single_msg :: bool
  update_queue :: "master_order list"
  dev_disable_commit :: "u32 option"
  last_empty_commitment :: u64
  sym_kickoff_sig :: bytes
  sym_remote_pending :: "sym_state option"

text \<open>
  What the daemon asks of others. \<open>commit_sigs\<close> signs the peer's commitment of an index and a
  per-commitment point, and its HTLC transactions; \<open>check_commit_sig\<close>, \<open>num_htlc_txs\<close> and
  \<open>check_htlc_sig\<close> check ours. \<open>sym_sign\<close> is the signer's signature on a state,
  \<open>approve_sym_swap\<close> its consent to a swap. \<open>revoke_commitment\<close>
  gives the secret of an index and the point after the next, and \<open>pubkey_from_privkey\<close> the point of a
  secret.
\<close>

record channeld_env =
  env_crypto :: crypto
  env_chainparams :: chainparams
  marginal_feerate :: "u32 \<Rightarrow> u32"
  point_of :: "bytes \<Rightarrow> bytes option"
  commit_sigs :: "channel \<Rightarrow> u64 \<Rightarrow> bytes \<Rightarrow> bytes \<times> bytes list"
  check_commit_sig :: "channel \<Rightarrow> u64 \<Rightarrow> bytes \<Rightarrow> bytes \<Rightarrow> bool"
  num_htlc_txs :: "channel \<Rightarrow> u64 \<Rightarrow> bytes \<Rightarrow> nat"
  check_htlc_sig :: "channel \<Rightarrow> u64 \<Rightarrow> bytes \<Rightarrow> nat \<Rightarrow> bytes \<Rightarrow> bool"
  sym_sign :: "channel \<Rightarrow> sym_state \<Rightarrow> bytes"
  approve_sym_swap :: "bytes option \<Rightarrow> amount_msat \<Rightarrow> bytes option \<Rightarrow> amount_msat \<Rightarrow> bool"
  marker_id :: "bitcoin_outpoint \<Rightarrow> bytes"
  check_schnorr_sig :: "bytes \<Rightarrow> bytes \<Rightarrow> bytes \<Rightarrow> bool"
  revoke_commitment :: "u64 \<Rightarrow> bytes \<times> bytes"
  pubkey_from_privkey :: "bytes \<Rightarrow> bytes option"

type_synonym 'a act = "(peer_err, peer_out, 'a) process"

definition start_commit_timer :: "peer \<Rightarrow> peer" where
  "start_commit_timer p = p\<lparr>commit_timer := True\<rparr>"

section \<open>Quiescence and shutdown\<close>

definition is_stfu_active :: "peer \<Rightarrow> bool" where
  "is_stfu_active p \<longleftrightarrow> stfu_sent p LOCAL \<and> stfu_sent p REMOTE"

definition is_entering_stfu :: "peer \<Rightarrow> bool" where
  "is_entering_stfu p \<longleftrightarrow> want_stfu p \<or> stfu_sent p LOCAL \<or> stfu_sent p REMOTE"

definition end_stfu_mode :: "peer \<Rightarrow> peer" where
  "end_stfu_mode p = p\<lparr>want_stfu := False, stfu_sent := (\<lambda>_. False), stfu_wait_single_msg := False\<rparr>"

text \<open>The callback \<^verbatim>\<open>on_stfu_success\<close> starts a splice, which is not modelled: it is not set.\<close>

definition maybe_send_stfu :: "peer \<Rightarrow> peer act" where
  "maybe_send_stfu p =
     (if \<not> want_stfu p then done_with p []
      else case pending_updates (peer_channel p) LOCAL of
        None \<Rightarrow> None
      | Some True \<Rightarrow> done_with p []
      | Some False \<Rightarrow>
          let (p1, sent) = (if \<not> stfu_sent p LOCAL
                            then (p\<lparr>stfu_sent := (stfu_sent p)(LOCAL := True)\<rparr>, [To_Peer (STFU (stfu_initiator p = LOCAL))])
                            else (p, []))
          in if stfu_sent p1 LOCAL \<and> stfu_sent p1 REMOTE
             then done_with (p1\<lparr>want_stfu := False, stfu_wait_single_msg := True\<rparr>) (sent @ [To_Master QUIESCE_REPLY])
             else done_with p1 sent)"

definition handle_stfu :: "peer \<Rightarrow> bool \<Rightarrow> peer act" where
  "handle_stfu p remote_initiated =
     (if \<not> feature_negotiated (our_features p) (their_features p) OPT_QUIESCE then exits STFU_NOT_SUPPORTED
      else case pending_updates (peer_channel p) REMOTE of
        None \<Rightarrow> None
      | Some True \<Rightarrow> exits STFU_PENDING_UPDATES
      | Some False \<Rightarrow>
          if \<not> want_stfu p \<and> \<not> remote_initiated then exits STFU_NOT_INITIATED
          else let p1 = (if \<not> want_stfu p then p\<lparr>want_stfu := True, stfu_initiator := REMOTE\<rparr>
                         else if remote_initiated then p\<lparr>stfu_initiator := opener (peer_channel p)\<rparr> else p)
               in maybe_send_stfu (p1\<lparr>stfu_sent := (stfu_sent p1)(REMOTE := True)\<rparr>))"

definition shutdown_complete :: "peer \<Rightarrow> bool run" where
  "shutdown_complete p =
     (if \<not> shutdown_sent p LOCAL \<or> \<not> shutdown_sent p REMOTE then Some False
      else do { n \<leftarrow> num_channel_htlcs (peer_channel p);
                Some (n = 0 \<and> revocations_received p = next_index p REMOTE - 1) })"

definition maybe_send_shutdown :: "peer \<Rightarrow> peer act" where
  "maybe_send_shutdown p =
     (if \<not> send_shutdown p then done_with p []
      else done_with (p\<lparr>send_shutdown := False, shutdown_sent := (shutdown_sent p)(LOCAL := True)\<rparr>)
             [To_Peer (SHUTDOWN (final_scriptpubkey p))])"

text \<open>Without \<^verbatim>\<open>wrong_funding\<close>, which only a channel that was never used may have.\<close>

definition handle_peer_shutdown :: "peer \<Rightarrow> bytes \<Rightarrow> peer act" where
  "handle_peer_shutdown p scriptpubkey =
     (if remote_upfront_shutdown_script p \<noteq> [] \<and> scriptpubkey \<noteq> remote_upfront_shutdown_script p
      then exits SHUTDOWN_NOT_UPFRONT
      else let p1 = p\<lparr>shutdown_sent := (shutdown_sent p)(REMOTE := True)\<rparr>
           in done_with (if \<not> shutdown_sent p1 LOCAL then start_commit_timer (p1\<lparr>send_shutdown := True\<rparr>) else p1)
                [To_Master (GOT_SHUTDOWN scriptpubkey)])"

definition handle_shutdown_cmd :: "peer \<Rightarrow> bytes \<Rightarrow> peer act" where
  "handle_shutdown_cmd p local_shutdown_script =
     done_with (start_commit_timer (p\<lparr>final_scriptpubkey := local_shutdown_script, send_shutdown := True\<rparr>)) []"

section \<open>HTLCs\<close>

definition point_lock_payment_hash :: "bytes \<Rightarrow> bytes" where
  "point_lock_payment_hash lock = take 32 (drop 1 lock)"

text \<open>Writing the lock point into the HTLC that was just added.\<close>

definition set_lock_point :: "htlc option \<Rightarrow> bytes option \<Rightarrow> channel \<Rightarrow> channel" where
  "set_lock_point added lock ch =
     (case (added, lock) of
        (Some h, Some pt) \<Rightarrow>
          ch\<lparr>htlcs := htlc_put (h_id h) (htlc_owner h) (h\<lparr>h_lock_point := Some pt\<rparr>) (htlcs ch)\<rparr>
      | _ \<Rightarrow> ch)"

definition handle_peer_add_htlc ::
  "channeld_env \<Rightarrow> peer \<Rightarrow> u64 \<Rightarrow> amount_msat \<Rightarrow> bytes \<Rightarrow> u32 \<Rightarrow> bytes \<Rightarrow> add_tlvs \<Rightarrow> peer act" where
  "handle_peer_add_htlc env p hid amount payment_hash cltv_expiry packet tlvs =
     (let ch = peer_channel p in
      if add_point_lock tlvs \<noteq> None
         \<and> (\<not> channel_has ch OPT_SEQ_TAPROOT_COVENANT
            \<or> \<not> feature_offered (bits (our_features p) INIT_FEATURE) OPT_SEQ_POINT_LOCKS)
      then exits POINT_LOCK_NOT_TAKEN
      else if (case add_point_lock tlvs of None \<Rightarrow> False | Some pt \<Rightarrow> point_lock_payment_hash pt \<noteq> payment_hash)
      then exits POINT_LOCK_HASH
      else if (case add_lane tlvs of None \<Rightarrow> False | Some l \<Rightarrow> l \<noteq> 0) \<and> \<not> channel_has ch OPT_SEQ_SYMMETRIC_LANES
      then exits LANE_OF_ONE_ASSET
      else case channel_add_lane_htlc (env_chainparams env) (marginal_feerate env) ch REMOTE hid amount cltv_expiry
                  payment_hash packet (add_path_key tlvs) (add_fields tlvs) False
                  (case add_lane tlvs of None \<Rightarrow> 0 | Some l \<Rightarrow> l) of
        None \<Rightarrow> None
      | Some (e, ch', added, _) \<Rightarrow>
          if e \<noteq> CHANNEL_ERR_ADD_OK then exits (BAD_ADD_HTLC e)
          else done_with (p\<lparr>peer_channel := set_lock_point added (add_point_lock tlvs) ch'\<rparr>) [])"

text \<open>
  An order to offer an HTLC; \<open>extra_tlvs\<close> is the list as \<^verbatim>\<open>fromwire_tlv\<close> parsed it. An HTLC that the
  checks refuse is reported to lightningd with its reason.
\<close>

definition handle_offer_htlc ::
  "channeld_env \<Rightarrow> peer \<Rightarrow> amount_msat \<Rightarrow> u32 \<Rightarrow> bytes \<Rightarrow> bytes \<Rightarrow> bytes option \<Rightarrow> (u64 \<times> bytes) list option
   \<Rightarrow> bytes option \<Rightarrow> u16 \<Rightarrow> peer act" where
  "handle_offer_htlc env p amount cltv_expiry payment_hash packet path_key extra_tlvs lock_point lane =
     (let ch = peer_channel p;
          tlvs = \<lparr>add_path_key = path_key, add_lane = (if lane \<noteq> 0 then Some lane else None),
                  add_point_lock = lock_point, add_fields = extra_tlvs\<rparr>
      in if \<not> channel_ready p LOCAL \<or> \<not> channel_ready p REMOTE then exits NOT_READY
         else if lane \<noteq> 0 \<and> \<not> channel_has ch OPT_SEQ_SYMMETRIC_LANES then exits LANE_OF_ONE_ASSET
         else if lock_point \<noteq> None
                 \<and> (\<not> channel_has ch OPT_SEQ_TAPROOT_COVENANT
                    \<or> \<not> feature_negotiated (our_features p) (their_features p) OPT_SEQ_POINT_LOCKS)
         then exits POINT_LOCK_NOT_TAKEN
         else case channel_add_lane_htlc (env_chainparams env) (marginal_feerate env) ch LOCAL (htlc_id p) amount
                     cltv_expiry payment_hash packet path_key extra_tlvs True lane of
           None \<Rightarrow> None
         | Some (e, ch', added, _) \<Rightarrow>
             if e = CHANNEL_ERR_ADD_OK
             then done_with ((start_commit_timer p)\<lparr>peer_channel := set_lock_point added lock_point ch',
                                                    htlc_id := htlc_id p + 1\<rparr>)
                    [To_Peer (UPDATE_ADD_HTLC (htlc_id p) amount payment_hash cltv_expiry packet tlvs),
                     To_Master (OFFER_HTLC_REPLY (htlc_id p) None)]
             else if e = CHANNEL_ERR_DUPLICATE \<or> e = CHANNEL_ERR_DUPLICATE_ID_DIFFERENT
             then exits (BAD_ADD_HTLC e)
             else done_with (p\<lparr>peer_channel := ch'\<rparr>) [To_Master (OFFER_HTLC_REPLY 0 (Some e))])"

definition handle_peer_fulfill_htlc :: "channeld_env \<Rightarrow> peer \<Rightarrow> u64 \<Rightarrow> bytes \<Rightarrow> peer act" where
  "handle_peer_fulfill_htlc env p hid preimage =
     (case channel_fulfill_htlc (sha256 (env_crypto env)) (point_of env) (peer_channel p) LOCAL hid preimage of
        (e, ch') \<Rightarrow>
          if e = CHANNEL_ERR_REMOVE_OK then done_with (start_commit_timer (p\<lparr>peer_channel := ch'\<rparr>)) []
          else exits (BAD_REMOVE_HTLC e))"

text \<open>Failing an HTLC, with the reason written into it.\<close>

definition fail_htlc_with :: "channel \<Rightarrow> side \<Rightarrow> failed_htlc \<Rightarrow> channel_remove_err \<times> channel" where
  "fail_htlc_with ch owner f =
     (case channel_fail_htlc ch owner (failed_id f) of
        (e, ch') \<Rightarrow>
          (e, case channel_get_htlc ch' owner (failed_id f) of
                Some h \<Rightarrow> if e = CHANNEL_ERR_REMOVE_OK
                          then ch'\<lparr>htlcs := htlc_put (failed_id f) owner (h\<lparr>h_failed := Some f\<rparr>) (htlcs ch')\<rparr> else ch'
              | None \<Rightarrow> ch'))"

definition peer_fails_htlc :: "peer \<Rightarrow> failed_htlc \<Rightarrow> peer act" where
  "peer_fails_htlc p f =
     (case fail_htlc_with (peer_channel p) LOCAL f of
        (e, ch') \<Rightarrow>
          if e = CHANNEL_ERR_REMOVE_OK then done_with (start_commit_timer (p\<lparr>peer_channel := ch'\<rparr>)) []
          else exits (BAD_REMOVE_HTLC e))"

definition handle_peer_fail_htlc :: "peer \<Rightarrow> u64 \<Rightarrow> bytes option \<Rightarrow> peer act" where
  "handle_peer_fail_htlc p hid reason =
     peer_fails_htlc p \<lparr>failed_id = hid, sha256_of_onion = None, badonion = 0, onion = reason\<rparr>"

abbreviation (input) BADONION :: u16 where "BADONION \<equiv> 0x8000"

definition handle_peer_fail_malformed_htlc :: "peer \<Rightarrow> u64 \<Rightarrow> bytes \<Rightarrow> u16 \<Rightarrow> peer act" where
  "handle_peer_fail_malformed_htlc p hid sha failure_code =
     peer_fails_htlc p
       \<lparr>failed_id = hid, sha256_of_onion = Some sha, badonion = failure_code OR BADONION, onion = None\<rparr>"

definition send_fail_or_fulfill :: "htlc \<Rightarrow> (peer_err + peer_msg)" where
  "send_fail_or_fulfill h =
     (case h_failed h of
        Some f \<Rightarrow>
          Inr (case sha256_of_onion f of
                 Some sha \<Rightarrow> UPDATE_FAIL_MALFORMED_HTLC (h_id h) sha (badonion f)
               | None \<Rightarrow> UPDATE_FAIL_HTLC (h_id h) (onion f))
      | None \<Rightarrow> (case h_r h of Some r \<Rightarrow> Inr (UPDATE_FULFILL_HTLC (h_id h) r) | None \<Rightarrow> Inl HTLC_NOT_REMOVED))"

text \<open>After a removal of ours: the HTLC is the one just changed.\<close>

definition removed_htlc :: "peer \<Rightarrow> channel_remove_err \<times> channel \<Rightarrow> u64 \<Rightarrow> peer act" where
  "removed_htlc p removal hid =
     (case removal of
        (e, ch') \<Rightarrow>
          if e \<noteq> CHANNEL_ERR_REMOVE_OK then exits (BAD_REMOVE_HTLC e)
          else case channel_get_htlc ch' REMOTE hid of
            None \<Rightarrow> None
          | Some h \<Rightarrow>
              (case send_fail_or_fulfill h of
                 Inl err \<Rightarrow> exits err
               | Inr msg \<Rightarrow> done_with (start_commit_timer (p\<lparr>peer_channel := ch'\<rparr>)) [To_Peer msg]))"

definition handle_preimage :: "channeld_env \<Rightarrow> peer \<Rightarrow> fulfilled_htlc \<Rightarrow> peer act" where
  "handle_preimage env p f =
     removed_htlc p (channel_fulfill_htlc (sha256 (env_crypto env)) (point_of env) (peer_channel p) REMOTE
                       (fulfilled_id f) (payment_preimage f)) (fulfilled_id f)"

definition handle_fail :: "peer \<Rightarrow> failed_htlc \<Rightarrow> peer act" where
  "handle_fail p f = removed_htlc p (fail_htlc_with (peer_channel p) REMOTE f) (failed_id f)"

section \<open>Feerates and blockheights\<close>

definition feerate_same_or_better :: "channel \<Rightarrow> u32 \<Rightarrow> u32 \<Rightarrow> u32 \<Rightarrow> bool run" where
  "feerate_same_or_better ch rate rate_min rate_max =
     do { current \<leftarrow> channel_feerate ch LOCAL;
          Some (if rate < rate_min then rate \<ge> current else if rate > rate_max then rate \<le> current else True) }"

definition handle_peer_feechange :: "channeld_env \<Rightarrow> peer \<Rightarrow> u32 \<Rightarrow> peer act" where
  "handle_peer_feechange env p rate =
     (let ch = peer_channel p in
      if opener ch \<noteq> REMOTE then exits FEE_FROM_NON_OPENER
      else case feerate_same_or_better ch rate (feerate_min p) (feerate_max p) of
        None \<Rightarrow> None
      | Some False \<Rightarrow> exits FEE_OUTSIDE_RANGE
      | Some True \<Rightarrow>
          (case channel_update_feerate (env_chainparams env) ch rate of
             None \<Rightarrow> None
           | Some (ok, ch') \<Rightarrow>
               if \<not> ok then exits FEE_UNAFFORDABLE else done_with (p\<lparr>peer_channel := ch'\<rparr>) []))"

text \<open>A \<^verbatim>\<open>NULL\<close> \<^verbatim>\<open>blockheight_states\<close> is dereferenced.\<close>

definition handle_peer_blockheight_change :: "peer \<Rightarrow> u32 \<Rightarrow> peer act" where
  "handle_peer_blockheight_change p blockheight =
     (let ch = peer_channel p in
      if opener ch \<noteq> REMOTE then exits HEIGHT_FROM_NON_OPENER
      else case do { hs \<leftarrow> blockheight_states ch; get_blockheight hs (opener ch) LOCAL } of
        None \<Rightarrow> None
      | Some current \<Rightarrow>
          if blockheight + 1008 < blockheight then exits HEIGHT_OVERFLOW
          else if blockheight < current then exits HEIGHT_OLDER
          else if blockheight + 1008 < our_blockheight p then exits HEIGHT_OUTSIDE_RANGE
          else case channel_update_blockheight ch blockheight of
            None \<Rightarrow> None
          | Some ch' \<Rightarrow> done_with (p\<lparr>peer_channel := ch'\<rparr>) [])"

text \<open>The feerate to go to, if it is not the current one.\<close>

definition want_fee_update :: "channeld_env \<Rightarrow> peer \<Rightarrow> u32 option run" where
  "want_fee_update env p =
     (let ch = peer_channel p in
      if opener ch \<noteq> LOCAL \<or> is_entering_stfu p then Some None
      else do { current \<leftarrow> channel_feerate ch REMOTE;
                val \<leftarrow> (if desired_feerate p > current
                       then do { mx \<leftarrow> approx_max_feerate (env_chainparams env) ch;
                                 let v = (if desired_feerate p > mx then mx else desired_feerate p) in
                                 Some (if v < current then current else v) }
                       else Some (desired_feerate p));
                Some (if val \<noteq> current then Some val else None) })"

definition want_blockheight_update :: "peer \<Rightarrow> u32 option run" where
  "want_blockheight_update p =
     (let ch = peer_channel p in
      if opener ch \<noteq> LOCAL \<or> lease_expiry ch = 0 \<or> is_entering_stfu p then Some None
      else do { hs \<leftarrow> blockheight_states ch;
                last \<leftarrow> get_blockheight hs (opener ch) LOCAL;
                Some (if our_blockheight p \<le> last then None else Some (our_blockheight p)) })"

definition handle_feerates :: "peer \<Rightarrow> u32 \<Rightarrow> u32 \<Rightarrow> u32 \<Rightarrow> amount_msat \<Rightarrow> peer act" where
  "handle_feerates p rate rate_min rate_max max_dust =
     (let ch = peer_channel p;
          ch' = ch\<lparr>config := (config ch)(LOCAL := (config ch LOCAL)\<lparr>max_dust_htlc_exposure_msat := max_dust\<rparr>)\<rparr>;
          p1 = p\<lparr>feerate_min := rate_min, feerate_max := rate_max, peer_channel := ch'\<rparr>;
          p2 = p1\<lparr>desired_feerate := rate\<rparr>
      in done_with (if opener ch = LOCAL
                    then (if next_index p LOCAL \<noteq> 1 \<or> next_index p REMOTE \<noteq> 1 then start_commit_timer p2 else p2)
                    else p1) [])"

definition handle_blockheight :: "peer \<Rightarrow> u32 \<Rightarrow> peer act" where
  "handle_blockheight p blockheight =
     (let ch = peer_channel p; p1 = p\<lparr>our_blockheight := blockheight\<rparr> in
      if opener ch = LOCAL then done_with (start_commit_timer p1) []
      else case do { hs \<leftarrow> blockheight_states ch; get_blockheight hs (opener ch) REMOTE } of
        None \<Rightarrow> None
      | Some peer_height \<Rightarrow>
          if \<not> peer_height + 1008 > peer_height then None
          else if peer_height + 1008 < blockheight then exits HEIGHT_OUTSIDE_RANGE
          else done_with p1 [])"

section \<open>Swaps\<close>

text \<open>The swap of a \<^verbatim>\<open>commitment_signed\<close> must be the one that was asked for.\<close>

definition take_peer_swap :: "peer \<Rightarrow> seq_swap \<Rightarrow> peer act" where
  "take_peer_swap p s =
     (let ch = peer_channel p;
          swap = \<lparr>swap_id = seq_swap_id s, swap_state = RCVD_ADD_HTLC, give_lane = seq_give_lane s,
                  take_lane = seq_take_lane s, swap_give = seq_give s, swap_take = seq_take s\<rparr>
      in case chan_swap_req ch of
           None \<Rightarrow> exits SWAP_NOT_ASKED_FOR
         | Some req \<Rightarrow>
             if swap_id req \<noteq> swap_id swap \<or> give_lane req \<noteq> give_lane swap \<or> take_lane req \<noteq> take_lane swap
                \<or> \<not> amount_msat_eq (swap_give req) (swap_give swap) \<or> \<not> amount_msat_eq (swap_take req) (swap_take swap)
             then exits SWAP_NOT_ASKED_FOR
             else let ch1 = ch\<lparr>chan_swap_req := None\<rparr> in
                  (case channel_sym_swap_check ch1 swap of
                     None \<Rightarrow> None
                   | Some (Some err) \<Rightarrow> exits (SWAP_REFUSED err)
                   | Some None \<Rightarrow>
                       (case channel_sym_swap_add ch1 swap of
                          None \<Rightarrow> None
                        | Some ch2 \<Rightarrow> done_with (p\<lparr>peer_channel := ch2\<rparr>) [])))"

text \<open>The signer is asked only if it can answer; else \<open>approve_sym_swap\<close> is always true.\<close>

definition sym_swap_approved :: "channeld_env \<Rightarrow> channel \<Rightarrow> u16 \<Rightarrow> amount_msat \<Rightarrow> u16 \<Rightarrow> amount_msat \<Rightarrow> swap_refusal option" where
  "sym_swap_approved env ch give_l give_m take_l take_m =
     (if approve_sym_swap env (sym_lane_asset ch (unat give_l)) give_m (sym_lane_asset ch (unat take_l)) take_m
      then None else Some SIGNER_REFUSED)"

definition swap_refused :: "peer \<Rightarrow> sym_swap \<Rightarrow> swap_refusal option run" where
  "swap_refused p swap =
     (let ch = peer_channel p in
      if \<not> channel_ready p LOCAL \<or> \<not> channel_ready p REMOTE then Some (Some CHANNEL_NOT_READY)
      else if chan_swap_req ch \<noteq> None then Some (Some SWAP_OUTSTANDING)
      else map_option (map_option SWAP_CHECK) (channel_sym_swap_check ch swap))"

definition handle_sym_swap_request :: "channeld_env \<Rightarrow> peer \<Rightarrow> sym_swap \<Rightarrow> u32 \<Rightarrow> peer act" where
  "handle_sym_swap_request env p swap0 expiry =
     (let ch = peer_channel p; swap = swap0\<lparr>swap_state := RCVD_ADD_HTLC\<rparr> in
      case swap_refused p swap of
        None \<Rightarrow> None
      | Some err0 \<Rightarrow>
          let err = (if err0 = None
                     then sym_swap_approved env ch (take_lane swap) (swap_take swap) (give_lane swap) (swap_give swap)
                     else err0)
          in if err = None
             then done_with (p\<lparr>peer_channel := ch\<lparr>chan_swap_req := Some swap\<rparr>\<rparr>)
                    [To_Peer (SEQ_SWAP_REQUEST (swap_id swap) (take_lane swap) (swap_take swap)
                                (give_lane swap) (swap_give swap) expiry),
                     To_Master (SYM_SWAP_REPLY None)]
             else done_with p [To_Master (SYM_SWAP_REPLY err)])"

definition handle_sym_swap_accept :: "channeld_env \<Rightarrow> peer \<Rightarrow> sym_swap \<Rightarrow> peer act" where
  "handle_sym_swap_accept env p swap0 =
     (let ch = peer_channel p; swap = swap0\<lparr>swap_state := SENT_ADD_HTLC\<rparr> in
      case swap_refused p swap of
        None \<Rightarrow> None
      | Some err0 \<Rightarrow>
          let err = (if err0 = None
                     then sym_swap_approved env ch (give_lane swap) (swap_give swap) (take_lane swap) (swap_take swap)
                     else err0)
          in if err = None
             then (case channel_sym_swap_add ch swap of
                     None \<Rightarrow> None
                   | Some ch' \<Rightarrow> done_with (start_commit_timer (p\<lparr>peer_channel := ch'\<rparr>)) [To_Master (SYM_SWAP_REPLY None)])
             else done_with p [To_Master (SYM_SWAP_REPLY err)])"

definition handle_sym_swap_cancel :: "peer \<Rightarrow> u64 \<Rightarrow> peer act" where
  "handle_sym_swap_cancel p sid =
     (let ch = peer_channel p in
      done_with (case chan_swap_req ch of
                   Some req \<Rightarrow> if swap_id req = sid then p\<lparr>peer_channel := ch\<lparr>chan_swap_req := None\<rparr>\<rparr> else p
                 | None \<Rightarrow> p) [])"

section \<open>Sending a commitment\<close>

definition changed_htlc_arr :: "htlc list \<Rightarrow> changed_htlc list" where
  "changed_htlc_arr changed = map (\<lambda>h. \<lparr>newstate = h_state h, changed_id = h_id h\<rparr>) changed"

definition dec_disable_commit :: "peer \<Rightarrow> peer" where
  "dec_disable_commit p = p\<lparr>dev_disable_commit := map_option (\<lambda>n. n - 1) (dev_disable_commit p)\<rparr>"

text \<open>
  Our signature on the peer's commitment \<open>remote_index\<close>: the message. A symmetric channel sends the
  signature on its kickoff, and the update signature on the peer's new state beside it; a swap of
  ours rides in the commitment that first carries it.
\<close>

definition send_commit_part :: "channeld_env \<Rightarrow> peer \<Rightarrow> htlc list \<Rightarrow> u64 \<Rightarrow> (peer \<times> peer_msg) act" where
  "send_commit_part env p changed remote_index =
     (let ch = peer_channel p in
      if channel_has ch OPT_SEQ_SYMMETRIC then
        (case sym_channeld_state (env_crypto env) ch REMOTE remote_index of
           None \<Rightarrow> exits STATE_NOT_BUILT
         | Some st0 \<Rightarrow>
             let sig = sym_sign env ch st0;
                 st = st0\<lparr>ss_sig := (ss_sig st0)(LOCAL := sig), ss_has_sig := (ss_has_sig st0)(LOCAL := True)\<rparr>;
                 swap = (case chan_swap ch of
                           Some s \<Rightarrow> if swap_state s = SENT_ADD_COMMIT
                                     then Some \<lparr>seq_swap_id = swap_id s, seq_give_lane = give_lane s, seq_give = swap_give s,
                                                seq_take_lane = take_lane s, seq_take = swap_take s\<rparr>
                                     else None
                         | None \<Rightarrow> None)
             in done_with (dec_disable_commit (p\<lparr>sym_remote_pending := Some st\<rparr>),
                           COMMITMENT_SIGNED (sym_kickoff_sig p) [] (Some sig) swap)
                  [To_Master (SENDING_COMMITSIG remote_index (changed_htlc_arr changed) (Some st))])
      else let (commit_sig, htlc_sigs) = commit_sigs env ch remote_index (remote_per_commit p) in
           done_with (dec_disable_commit p, COMMITMENT_SIGNED commit_sig htlc_sigs None None)
             [To_Master (SENDING_COMMITSIG remote_index (changed_htlc_arr changed) None)])"

text \<open>The feerate update that goes out before a commitment.\<close>

definition send_fee_update :: "channeld_env \<Rightarrow> peer \<Rightarrow> peer act" where
  "send_fee_update env p =
     (let ch = peer_channel p; cp = env_chainparams env in
      case want_fee_update env p of
        None \<Rightarrow> None
      | Some None \<Rightarrow> done_with p []
      | Some (Some target) \<Rightarrow>
          if \<not> feerate_changes_done (channel_fee_states ch) False then done_with p []
          else case do { r \<leftarrow> htlc_dust_ok cp ch target REMOTE; if r then htlc_dust_ok cp ch target LOCAL else Some False } of
            None \<Rightarrow> None
          | Some dust_ok \<Rightarrow>
              if \<not> dust_ok \<and> has_anchor_header cp then done_with p []
              else if \<not> dust_ok then exits FEE_TOO_MUCH_DUST
              else case channel_update_feerate cp ch target of
                None \<Rightarrow> None
              | Some (ok, ch') \<Rightarrow>
                  if \<not> ok then exits FEE_UNAFFORDABLE
                  else done_with (p\<lparr>peer_channel := ch'\<rparr>) [To_Peer (UPDATE_FEE target)])"

definition send_blockheight_update :: "peer \<Rightarrow> peer act" where
  "send_blockheight_update p =
     (let ch = peer_channel p in
      case want_blockheight_update p of
        None \<Rightarrow> None
      | Some None \<Rightarrow> done_with p []
      | Some (Some blocks) \<Rightarrow>
          (case blockheight_states ch of
             None \<Rightarrow> None
           | Some hs \<Rightarrow>
               if \<not> blockheight_changes_done hs False then done_with p []
               else case channel_update_blockheight ch blocks of
                 None \<Rightarrow> None
               | Some ch' \<Rightarrow> done_with (p\<lparr>peer_channel := ch'\<rparr>) [To_Peer (UPDATE_BLOCKHEIGHT blocks)]))"

text \<open>The commitment itself, once nothing stands against it.\<close>

definition commit_now :: "channeld_env \<Rightarrow> peer \<Rightarrow> peer act" where
  "commit_now env p =
     (case channel_sending_commit (peer_channel p) of
        None \<Rightarrow> None
      | Some (some_change, ch', changed) \<Rightarrow>
          let p1 = p\<lparr>peer_channel := ch'\<rparr> in
          if \<not> some_change
          then and_then (maybe_send_shutdown p1) (\<lambda>p2. done_with (p2\<lparr>commit_timer := False\<rparr>) [])
          else and_then (send_commit_part env p1 changed (next_index p1 REMOTE)) (\<lambda>(p2, msg).
               and_then (done_with (p2\<lparr>next_index := (next_index p2)(REMOTE := next_index p2 REMOTE + 1)\<rparr>) [To_Peer msg]) (\<lambda>p3.
               and_then (maybe_send_shutdown p3) (\<lambda>p4. done_with (start_commit_timer p4) []))))"

definition send_commit :: "channeld_env \<Rightarrow> peer \<Rightarrow> peer act" where
  "send_commit env p =
     (let idle = done_with (p\<lparr>commit_timer := False\<rparr>) [] in
      if dev_disable_commit p = Some 0 then idle
      else if revocations_received p \<noteq> next_index p REMOTE - 1 then
        (if revocations_received p = next_index p REMOTE - 2 then idle else None)
      else case (if shutdown_sent p LOCAL then map_option (\<lambda>n. n = 0) (num_channel_htlcs (peer_channel p)) else Some False) of
        None \<Rightarrow> None
      | Some True \<Rightarrow> idle
      | Some False \<Rightarrow>
          and_then (send_fee_update env p) (\<lambda>p1. and_then (send_blockheight_update p1) (commit_now env)))"

definition send_commit_if_not_stfu :: "channeld_env \<Rightarrow> peer \<Rightarrow> peer act" where
  "send_commit_if_not_stfu env p =
     (if \<not> stfu_sent p LOCAL then send_commit env p else done_with (p\<lparr>commit_timer := True\<rparr>) [])"

section \<open>Receiving a commitment\<close>

text \<open>What lightningd is told of the HTLCs that a commitment changed.\<close>

fun marshall_htlc_info ::
  "htlc list \<Rightarrow> (added_htlc list \<times> fulfilled_htlc list \<times> failed_htlc option list \<times> changed_htlc list) run" where
  "marshall_htlc_info [] = Some ([], [], [], [])"
| "marshall_htlc_info (h # hs) =
     (if h_state h = RCVD_ADD_COMMIT then
        do { blocks \<leftarrow> abs_locktime_to_blocks (h_expiry h);
             (added, fulfilled, fails, changed) \<leftarrow> marshall_htlc_info hs;
             Some (\<lparr>ad_id = h_id h, ad_amount = h_amount h, ad_payment_hash = h_rhash h, ad_cltv_expiry = blocks,
                    ad_onion = h_routing h, ad_fail_immediate = h_fail_immediate h, ad_path_key = h_path_key h,
                    ad_extra_tlvs = h_extra_tlvs h, ad_lock_point = h_lock_point h, ad_lane = h_lane h\<rparr> # added,
                   fulfilled, fails, changed) }
      else if h_state h = RCVD_REMOVE_COMMIT then
        (case h_r h of
           Some r \<Rightarrow>
             if h_failed h \<noteq> None then None
             else do { (added, fulfilled, fails, changed) \<leftarrow> marshall_htlc_info hs;
                       Some (added, \<lparr>fulfilled_id = h_id h, payment_preimage = r\<rparr> # fulfilled, fails, changed) }
         | None \<Rightarrow>
             do { (added, fulfilled, fails, changed) \<leftarrow> marshall_htlc_info hs;
                  Some (added, fulfilled, h_failed h # fails, changed) })
      else if h_state h = RCVD_REMOVE_ACK_COMMIT \<or> h_state h = RCVD_ADD_ACK_COMMIT then
        do { (added, fulfilled, fails, changed) \<leftarrow> marshall_htlc_info hs;
             Some (added, fulfilled, fails, \<lparr>newstate = h_state h, changed_id = h_id h\<rparr> # changed) }
      else None)"

definition make_revocation_msg :: "channeld_env \<Rightarrow> u64 \<Rightarrow> bytes option \<Rightarrow> bytes \<times> peer_msg" where
  "make_revocation_msg env revoke_index sym_sig =
     (let (old_secret, point) = revoke_commitment env revoke_index in (point, REVOKE_AND_ACK old_secret point sym_sig))"

definition send_revocation :: "channeld_env \<Rightarrow> peer \<Rightarrow> htlc list \<Rightarrow> sym_state option \<Rightarrow> peer act" where
  "send_revocation env p changed_htlcs sym_local =
     (case marshall_htlc_info changed_htlcs of
        None \<Rightarrow> None
      | Some (added, fulfilled, fails, changed) \<Rightarrow>
          let p1 = p\<lparr>next_index := (next_index p)(LOCAL := next_index p LOCAL + 1)\<rparr> in
          (case channel_sending_revoke_and_ack (peer_channel p1) of
             None \<Rightarrow> None
           | Some (pending, ch') \<Rightarrow>
               let p2 = (if pending then start_commit_timer p1 else p1);
                   (_, ch'') = channel_sym_swap_done ch';
                   (point, msg) = make_revocation_msg env (next_index p2 LOCAL - 2)
                                    (map_option (\<lambda>st. ss_sig st LOCAL) sym_local)
               in done_with (p2\<lparr>peer_channel := ch'', next_local_per_commit := point\<rparr>)
                    [To_Master (GOT_COMMITSIG (next_index p2 LOCAL - 1) added fulfilled fails changed sym_local),
                     To_Peer msg]))"

text \<open>The state of a symmetric channel that the peer's update signature must be on, with both signatures.\<close>

definition take_update_sig ::
  "channeld_env \<Rightarrow> sym_tree \<Rightarrow> channel \<Rightarrow> u64 \<Rightarrow> bytes option \<Rightarrow> sym_state act" where
  "take_update_sig env uninit ch local_index sym_sig =
     (case sym_sig of
        None \<Rightarrow> exits NO_UPDATE_SIG
      | Some sig \<Rightarrow>
          (case sym_channeld_state (env_crypto env) ch LOCAL local_index of
             None \<Rightarrow> exits STATE_NOT_BUILT
           | Some st \<Rightarrow>
               (case sym_channel_check_sig (env_crypto env) (env_chainparams env) (marker_id env) (check_schnorr_sig env)
                       ch st REMOTE sig uninit of
                  None \<Rightarrow> None
                | Some False \<Rightarrow> exits BAD_UPDATE_SIG
                | Some True \<Rightarrow>
                    let st1 = st\<lparr>ss_sig := (ss_sig st)(REMOTE := sig), ss_has_sig := (ss_has_sig st)(REMOTE := True)\<rparr>
                    in done_with (st1\<lparr>ss_sig := (ss_sig st1)(LOCAL := sym_sign env ch st1),
                                      ss_has_sig := (ss_has_sig st1)(LOCAL := True)\<rparr>) [])))"

text \<open>The checks on the signatures over our new commitment.\<close>

definition commit_sigs_err :: "channeld_env \<Rightarrow> channel \<Rightarrow> u64 \<Rightarrow> bytes \<Rightarrow> bytes \<Rightarrow> bytes list \<Rightarrow> peer_err option" where
  "commit_sigs_err env ch local_index point commit_sig htlc_sigs =
     (let n = num_htlc_txs env ch local_index point in
      if \<not> channel_has ch OPT_SEQ_SYMMETRIC_FACTORY \<and> \<not> check_commit_sig env ch local_index point commit_sig
      then Some BAD_COMMIT_SIG
      else if length htlc_sigs \<noteq> n then Some (NUM_HTLC_SIGS n (length htlc_sigs))
      else case find (\<lambda>i. \<not> check_htlc_sig env ch local_index point i (htlc_sigs ! i)) [0 ..< length htlc_sigs] of
        Some i \<Rightarrow> Some (BAD_HTLC_SIG i)
      | None \<Rightarrow> None)"

text \<open>An empty commitment is let through once.\<close>

definition note_empty_commit :: "peer \<Rightarrow> peer act" where
  "note_empty_commit p =
     (if last_empty_commitment p = next_index p LOCAL - 1 then exits EMPTY_COMMIT_AGAIN
      else done_with (p\<lparr>last_empty_commitment := next_index p LOCAL\<rparr>) [])"

definition handle_peer_commit_sig ::
  "channeld_env \<Rightarrow> sym_tree \<Rightarrow> peer \<Rightarrow> bytes \<Rightarrow> bytes list \<Rightarrow> bytes option \<Rightarrow> seq_swap option \<Rightarrow> peer act" where
  "handle_peer_commit_sig env uninit p commit_sig htlc_sigs sym_sig swap =
     and_then (case swap of None \<Rightarrow> done_with p [] | Some s \<Rightarrow> take_peer_swap p s) (\<lambda>p1.
     case channel_rcvd_commit (peer_channel p1) of
       None \<Rightarrow> None
     | Some (some_change, ch', changed) \<Rightarrow>
         let p2 = p1\<lparr>peer_channel := ch'\<rparr> in
         and_then (if some_change then done_with p2 [] else note_empty_commit p2) (\<lambda>p3.
         let ch = peer_channel p3; local_index = next_index p3 LOCAL; point = next_local_per_commit p3 in
         if opener ch = REMOTE
            \<and> do { rate \<leftarrow> channel_feerate ch LOCAL; can_opener_afford_feerate (env_chainparams env) ch rate } \<noteq> Some True
         then None
         else case commit_sigs_err env ch local_index point commit_sig htlc_sigs of
           Some err \<Rightarrow> exits err
         | None \<Rightarrow>
             and_then (if channel_has ch OPT_SEQ_SYMMETRIC
                       then and_then (take_update_sig env uninit ch local_index sym_sig) (\<lambda>st. done_with (Some st) [])
                       else done_with None []) (\<lambda>sym_local.
             and_then (send_revocation env p3 changed sym_local) (\<lambda>p4.
             and_then (maybe_send_stfu p4) (\<lambda>p5.
             case want_fee_update env p5 of
               None \<Rightarrow> None
             | Some target \<Rightarrow> done_with (if target \<noteq> None then start_commit_timer p5 else p5) [])))))"

section \<open>Receiving a revocation\<close>

text \<open>The peer's state that we signed last, rebuilt and signed again after a restart.\<close>

definition remote_state :: "channeld_env \<Rightarrow> peer \<Rightarrow> sym_state act" where
  "remote_state env p =
     (let ch = peer_channel p; idx = next_index p REMOTE - 1;
          rebuilt = (case sym_channeld_state (env_crypto env) ch REMOTE idx of
                       None \<Rightarrow> exits STATE_NOT_BUILT
                     | Some st \<Rightarrow> done_with (st\<lparr>ss_sig := (ss_sig st)(LOCAL := sym_sign env ch st),
                                                ss_has_sig := (ss_has_sig st)(LOCAL := True)\<rparr>) [])
      in case sym_remote_pending p of
           None \<Rightarrow> rebuilt
         | Some st \<Rightarrow> if ss_commit_num st = idx then done_with st [] else rebuilt)"

definition take_revoke_sig :: "channeld_env \<Rightarrow> sym_tree \<Rightarrow> peer \<Rightarrow> bytes option \<Rightarrow> (peer \<times> sym_state option) act" where
  "take_revoke_sig env uninit p sym_sig =
     (if \<not> channel_has (peer_channel p) OPT_SEQ_SYMMETRIC then done_with (p, None) []
      else and_then (remote_state env p) (\<lambda>st.
           case sym_sig of
             None \<Rightarrow> exits NO_UPDATE_SIG
           | Some sig \<Rightarrow>
               (case sym_channel_check_sig (env_crypto env) (env_chainparams env) (marker_id env) (check_schnorr_sig env)
                       (peer_channel p) st REMOTE sig uninit of
                  None \<Rightarrow> None
                | Some False \<Rightarrow> exits BAD_UPDATE_SIG
                | Some True \<Rightarrow>
                    done_with (p\<lparr>sym_remote_pending := None\<rparr>,
                               Some (st\<lparr>ss_sig := (ss_sig st)(REMOTE := sig),
                                        ss_has_sig := (ss_has_sig st)(REMOTE := True)\<rparr>)) [])))"

definition handle_peer_revoke_and_ack ::
  "channeld_env \<Rightarrow> sym_tree \<Rightarrow> peer \<Rightarrow> bytes \<Rightarrow> bytes \<Rightarrow> bytes option \<Rightarrow> peer act" where
  "handle_peer_revoke_and_ack env uninit p old_commit_secret next_per_commit sym_sig =
     (if revocations_received p \<noteq> next_index p REMOTE - 2 then exits UNEXPECTED_REVOKE
      else case pubkey_from_privkey env old_commit_secret of
        None \<Rightarrow> exits BAD_PRIVKEY
      | Some per_commit_point \<Rightarrow>
          if per_commit_point \<noteq> old_remote_per_commit p then exits WRONG_PRIVKEY
          else and_then (take_revoke_sig env uninit p sym_sig) (\<lambda>(p1, sym_remote).
               case channel_rcvd_revoke_and_ack (peer_channel p1) of
                 None \<Rightarrow> None
               | Some (_, ch', changed) \<Rightarrow>
                   let p2 = p1\<lparr>revocations_received := revocations_received p1 + 1,
                               peer_channel := snd (channel_sym_swap_done ch'),
                               old_remote_per_commit := remote_per_commit p1, remote_per_commit := next_per_commit\<rparr>
                   in and_then (done_with p2 [To_Master (GOT_REVOKE (revocations_received p1) old_commit_secret
                                  next_per_commit (changed_htlc_arr changed) sym_remote)]) (\<lambda>p3.
                      and_then (maybe_send_stfu p3) (\<lambda>p4. done_with (start_commit_timer p4) []))))"

section \<open>The dispatch\<close>

text \<open>
  A message of the peer. None of the messages here is one that a quiescent channel takes, and only two
  may come before the channel is ready.
\<close>

definition peer_in :: "channeld_env \<Rightarrow> sym_tree \<Rightarrow> peer \<Rightarrow> peer_msg \<Rightarrow> peer act" where
  "peer_in env uninit p msg =
     (if is_stfu_active p \<and> \<not> stfu_wait_single_msg p then exits ONLY_TX_ABORT
      else if \<not> channel_ready p REMOTE \<and> (case msg of SHUTDOWN _ \<Rightarrow> False | UPDATE_FEE _ \<Rightarrow> False | _ \<Rightarrow> True)
      then exits BEFORE_READY
      else if stfu_wait_single_msg p then exits BAD_DURING_STFU
      else case msg of
        UPDATE_ADD_HTLC hid amount hash expiry packet tlvs \<Rightarrow> handle_peer_add_htlc env p hid amount hash expiry packet tlvs
      | UPDATE_FULFILL_HTLC hid preimage \<Rightarrow> handle_peer_fulfill_htlc env p hid preimage
      | UPDATE_FAIL_HTLC hid reason \<Rightarrow> handle_peer_fail_htlc p hid reason
      | UPDATE_FAIL_MALFORMED_HTLC hid sha code \<Rightarrow> handle_peer_fail_malformed_htlc p hid sha code
      | UPDATE_FEE rate \<Rightarrow> handle_peer_feechange env p rate
      | UPDATE_BLOCKHEIGHT blocks \<Rightarrow> handle_peer_blockheight_change p blocks
      | COMMITMENT_SIGNED sig htlc_sigs sym_sig swap \<Rightarrow> handle_peer_commit_sig env uninit p sig htlc_sigs sym_sig swap
      | REVOKE_AND_ACK secret point sym_sig \<Rightarrow> handle_peer_revoke_and_ack env uninit p secret point sym_sig
      | SHUTDOWN spk \<Rightarrow> handle_peer_shutdown p spk
      | STFU initiated \<Rightarrow> handle_stfu p initiated
      | SEQ_SWAP_REQUEST _ _ _ _ _ _ \<Rightarrow> exits UNKNOWN_MESSAGE)"

text \<open>An order of lightningd; one that would update the channel waits while it quiesces.\<close>

definition handle_master_request_later :: "peer \<Rightarrow> master_order \<Rightarrow> peer option" where
  "handle_master_request_later p order =
     (if is_entering_stfu p then Some (p\<lparr>update_queue := update_queue p @ [order]\<rparr>) else None)"

definition req_in :: "channeld_env \<Rightarrow> peer \<Rightarrow> master_order \<Rightarrow> peer act" where
  "req_in env p order =
     (case order of
        SEND_SHUTDOWN spk \<Rightarrow> handle_shutdown_cmd p spk
      | SYM_SWAP_CANCEL sid \<Rightarrow> handle_sym_swap_cancel p sid
      | _ \<Rightarrow>
          (case handle_master_request_later p order of
             Some p' \<Rightarrow> done_with p' []
           | None \<Rightarrow>
               (case order of
                  OFFER_HTLC amount expiry hash packet pk tlvs lock lane \<Rightarrow>
                    handle_offer_htlc env p amount expiry hash packet pk tlvs lock lane
                | FEERATES rate rate_min rate_max max_dust \<Rightarrow> handle_feerates p rate rate_min rate_max max_dust
                | BLOCKHEIGHT blocks \<Rightarrow> handle_blockheight p blocks
                | FULFILL_HTLC f \<Rightarrow> handle_preimage env p f
                | FAIL_HTLC f \<Rightarrow> handle_fail p f
                | SYM_SWAP_REQUEST swap expiry \<Rightarrow> handle_sym_swap_request env p swap expiry
                | SYM_SWAP_ACCEPT swap \<Rightarrow> handle_sym_swap_accept env p swap
                | SEND_SHUTDOWN spk \<Rightarrow> handle_shutdown_cmd p spk
                | SYM_SWAP_CANCEL sid \<Rightarrow> handle_sym_swap_cancel p sid)))"

end
