(* ===== verification/Exchange.thy ===== *)
theory Exchange
  imports Tracking Channeld
begin

text \<open>
  Two channels that follow two copies of one ledger, with the messages on their way between them. A
  commitment is what a channel shows of it; a message of the peer protocol stands for an update of the
  ledger. The theory carries the agreement of \<open>Duplex\<close> over to channels and messages.
\<close>

section \<open>What a commitment shows\<close>

text \<open>
  The commitment of the side \<open>v\<close> in the channel of the party \<open>p\<close>, with the parties named from
  outside: its HTLCs, the balances of each lane, the feerate and the blockheight.
\<close>

record seen =
  seen_htlcs :: "((side \<times> u64) \<times> entry) set"
  seen_bal :: "nat \<Rightarrow> side \<Rightarrow> balance"
  seen_fee :: "u32 option"
  seen_height :: "u32 option"

definition plain_entry :: "entry \<Rightarrow> entry" where
  "plain_entry e = e\<lparr>e_pos := 0, e_r := None\<rparr>"

definition seen_commitment :: "side \<Rightarrow> side \<Rightarrow> channel \<Rightarrow> seen" where
  "seen_commitment p v ch =
     \<lparr>seen_htlcs = (\<lambda>h. (key_of p h, plain_entry (entry_of h))) ` set (channel_committed_htlcs ch v),
      seen_bal = (\<lambda>l s. if l < nlanes ch then bal ch v l (abs_side p s) else 0),
      seen_fee = channel_feerate ch v,
      seen_height = channel_blockheight ch v\<rparr>"

definition seen_of :: "nat \<Rightarrow> (nat \<Rightarrow> side \<Rightarrow> int) \<Rightarrow> commitment \<Rightarrow> seen" where
  "seen_of n init c =
     \<lparr>seen_htlcs = {(k, e). com_htlcs c k = Some e},
      seen_bal = (\<lambda>l s. if l < n then of_int (init l s + com_moved c l s) else 0),
      seen_fee = com_fee c,
      seen_height = com_height c\<rparr>"

lemma abs_side_twice [simp]: "abs_side p (abs_side p s) = s"
  by (cases p; cases s) (simp_all add: abs_side_def)

lemma committed_in: "htlc_has h (HTLC_FLAG v HTLC_F_COMMITTED) \<longleftrightarrow> in_commitment (abs_side p v) (abs_side p (htlc_owner h)) (hpos h)"
proof -
  have "htlc_has h (HTLC_FLAG v HTLC_F_COMMITTED) \<longleftrightarrow>
      (if v = htlc_owner h then 3 \<le> hpos h \<and> hpos h \<le> 5 else 1 \<le> hpos h \<and> hpos h \<le> 7)"
    using committed_positions [of "h_state h"] neq_side_iff [of v "htlc_owner h"]
    by (auto simp: htlc_has_def htlc_owner_def hpos_def)
  then show ?thesis by (simp add: in_commitment_def eq_commute [of v])
qed

lemma first_committed_seen:
  "first_committed f v (fee_state_range opn)
     = first_some (map (pos_slots opn f) (if v = opn then [3, 4] else [1, 2, 3, 4]))"
  by (cases opn; cases v) (auto simp: pos_slots_def flag_simps split: option.splits)

lemma seen_tracks:
  assumes T: "tracks p opn n init ch L"
  shows "seen_commitment p v ch = seen_of n init (commitment_of opn (abs_side p v) L)"
proof -
  let ?c = "commitment_of opn (abs_side p v) L"
  note T' = T [unfolded tracks_def]
  have live: "led_htlcs L (key_of p h) = Some (entry_of h)" if "h \<in> set (htlcs ch)" for h using T' that by blast
  have "(k, e) \<in> (\<lambda>h. (key_of p h, plain_entry (entry_of h))) ` set (channel_committed_htlcs ch v) \<longleftrightarrow> com_htlcs ?c k = Some e" for k e
  proof
    assume "(k, e) \<in> (\<lambda>h. (key_of p h, plain_entry (entry_of h))) ` set (channel_committed_htlcs ch v)"
    then obtain h where "h \<in> set (htlcs ch)" "htlc_has h (HTLC_FLAG v HTLC_F_COMMITTED)" "k = key_of p h" "e = plain_entry (entry_of h)"
      by (auto simp: channel_committed_htlcs_eq)
    then show "com_htlcs ?c k = Some e"
      using live [of h] committed_in [of h v p] by (simp add: commitment_of_def plain_entry_def key_of_def entry_of_def)
  next
    assume "com_htlcs ?c k = Some e"
    then obtain d where d: "led_htlcs L k = Some d" "in_commitment (abs_side p v) (fst k) (e_pos d)" "e = plain_entry d"
      by (auto simp: commitment_of_def plain_entry_def split: option.splits if_splits)
    then have "e_pos d < 9" by (auto simp: in_commitment_def split: if_splits)
    then obtain h where h: "h \<in> set (htlcs ch)" "k = key_of p h" using T' d(1) by blast
    then have "d = entry_of h" using live [of h] d(1) by simp
    then show "(k, e) \<in> (\<lambda>h. (key_of p h, plain_entry (entry_of h))) ` set (channel_committed_htlcs ch v)"
      using h d(2,3) committed_in [of h v p]
      by (intro image_eqI [where x = h]) (simp_all add: channel_committed_htlcs_eq key_of_def entry_of_def)
  qed
  then have "(\<lambda>h. (key_of p h, plain_entry (entry_of h))) ` set (channel_committed_htlcs ch v) = {(k, e). com_htlcs ?c k = Some e}"
    by auto
  moreover have "(\<lambda>l s. if l < nlanes ch then bal ch v l (abs_side p s) else 0)
      = (\<lambda>l s. if l < n then of_int (init l s + com_moved ?c l s) else 0)"
    using T' by (auto simp: fun_eq_iff commitment_of_def)
  moreover have same: "(abs_side p v = opn) = (v = opener ch)" using T' by auto
  moreover have "channel_feerate ch v = com_fee ?c"
    using T' same by (auto simp: channel_feerate_def get_feerate_def first_committed_seen commitment_of_def)
  moreover have "channel_blockheight ch v = com_height ?c"
    using T' same by (auto simp: channel_blockheight_def get_blockheight_def first_committed_seen commitment_of_def)
  ultimately show ?thesis unfolding seen_commitment_def seen_of_def by simp
qed

text \<open>What an open channel never changes.\<close>

definition static :: "channel \<Rightarrow> channel" where
  "static ch = ch\<lparr>config := (\<lambda>s. (config ch s)\<lparr>max_dust_htlc_exposure_msat := AMOUNT_MSAT 0\<rparr>),
     htlcs := [], channel_fee_states := \<lparr>feerate = (\<lambda>_. None)\<rparr>, blockheight_states := None,
     view := (\<lambda>s. (view ch s)\<lparr>owed := (\<lambda>_. AMOUNT_MSAT 0)\<rparr>), sym_lane_bal := [], chan_swap := None, chan_swap_req := None\<rparr>"

lemma static_simps [simp]:
  "static (ch\<lparr>htlcs := hs\<rparr>) = static ch" "static (ch\<lparr>channel_fee_states := fs\<rparr>) = static ch"
  "static (ch\<lparr>blockheight_states := b\<rparr>) = static ch" "static (ch\<lparr>chan_swap := sw\<rparr>) = static ch"
  "static (ch\<lparr>chan_swap_req := rq\<rparr>) = static ch" "static (ch\<lparr>sym_lane_bal := bs\<rparr>) = static ch"
  by (simp_all add: static_def)

lemma static_put_view [simp]: "static (put_view_amounts v amts ch) = static ch"
  by (simp add: static_def put_view_amounts_def fun_eq_iff)

lemma static_change: "change_htlcs ch v S = Some (c, ch', hs) \<Longrightarrow> static ch' = static ch"
  by (auto simp: change_htlcs_def bind_eq_Some_conv split: prod.splits)

lemma static_events:
  "channel_sending_commit ch = Some (b, ch', hs) \<Longrightarrow> static ch' = static ch"
  "channel_rcvd_commit ch = Some (b, ch', hs) \<Longrightarrow> static ch' = static ch"
  "channel_rcvd_revoke_and_ack ch = Some (b, ch', hs) \<Longrightarrow> static ch' = static ch"
  "channel_sending_revoke_and_ack ch = Some (b, ch') \<Longrightarrow> static ch' = static ch"
  by (auto simp: channel_sending_commit_def channel_rcvd_commit_def channel_rcvd_revoke_and_ack_def
      channel_sending_revoke_and_ack_def bind_eq_Some_conv dest: static_change)

lemma static_channel_has: "channel_has (static ch) f = channel_has ch f"
  by (simp add: static_def channel_has_def)

section \<open>Two copies and two queues\<close>

text \<open>The update that a message stands for; the other messages do not touch the ledger.\<close>

definition added_entry :: "amount_msat \<Rightarrow> bytes \<Rightarrow> u32 \<Rightarrow> add_tlvs \<Rightarrow> entry" where
  "added_entry amount hash expiry tlvs =
     \<lparr>e_amount = amount, e_expiry = expiry, e_rhash = hash, e_lock_point = add_point_lock tlvs,
      e_lane = (case add_lane tlvs of None \<Rightarrow> 0 | Some l \<Rightarrow> l), e_r = None, e_pos = 0\<rparr>"

fun stands_for :: "peer_msg \<Rightarrow> update \<Rightarrow> bool" where
  "stands_for (UPDATE_ADD_HTLC i amount hash expiry packet tlvs) u \<longleftrightarrow> u = Add i (added_entry amount hash expiry tlvs)"
| "stands_for (UPDATE_FULFILL_HTLC i r) u \<longleftrightarrow> u = Remove i (Some r)"
| "stands_for (UPDATE_FAIL_HTLC i reason) u \<longleftrightarrow> u = Remove i None"
| "stands_for (UPDATE_FAIL_MALFORMED_HTLC i sha code) u \<longleftrightarrow> u = Remove i None"
| "stands_for (UPDATE_FEE v) u \<longleftrightarrow> u = Fee v"
| "stands_for (UPDATE_BLOCKHEIGHT v) u \<longleftrightarrow> u = Height v"
| "stands_for (COMMITMENT_SIGNED sig hsigs usig swap) u \<longleftrightarrow> (\<exists>c. u = Commit c)"
| "stands_for (REVOKE_AND_ACK secret point usig) u \<longleftrightarrow> u = Revoke"
| "stands_for _ u \<longleftrightarrow> False"

definition is_update :: "peer_msg \<Rightarrow> bool" where
  "is_update m \<longleftrightarrow> (\<exists>u. stands_for m u)"

lemma is_update_simps [simp]:
  "is_update (UPDATE_ADD_HTLC i amount hash expiry packet tlvs)" "is_update (UPDATE_FULFILL_HTLC i r)"
  "is_update (UPDATE_FAIL_HTLC i reason)" "is_update (UPDATE_FAIL_MALFORMED_HTLC i sha code)"
  "is_update (UPDATE_FEE v)" "is_update (UPDATE_BLOCKHEIGHT v)" "is_update (COMMITMENT_SIGNED sig hsigs usig swap)"
  "is_update (REVOKE_AND_ACK secret point usig)" "\<not> is_update (SHUTDOWN spk)" "\<not> is_update (STFU b)"
  "\<not> is_update (SEQ_SWAP_REQUEST a b2 c d e f)"
  by (simp_all add: is_update_def) blast+

text \<open>
  The counter \<open>next_id\<close> of the party \<open>p\<close> is past every HTLC it ever offered, and only the opener sends
  feerates and blockheights.
\<close>

definition ids_ok :: "side \<Rightarrow> (ledger, update) link \<Rightarrow> side \<Rightarrow> u64 \<Rightarrow> bool" where
  "ids_ok opn l p next_id \<longleftrightarrow>
     (\<forall>r i. led_htlcs (copy l r) (p, i) \<noteq> None \<longrightarrow> i < next_id)
   \<and> (\<forall>i e. Add i e \<in> set (wire l p) \<longrightarrow> i < next_id) \<and> (\<forall>i r. Remove i r \<in> set (wire l (other p)) \<longrightarrow> i < next_id)
   \<and> (\<forall>v. Fee v \<in> set (wire l p) \<or> Height v \<in> set (wire l p) \<longrightarrow> p = opn)"

definition ledger_ok ::
  "(bytes \<Rightarrow> bytes) \<Rightarrow> (bytes \<Rightarrow> bytes option) \<Rightarrow> (side \<Rightarrow> channel) \<Rightarrow> side \<Rightarrow> nat \<Rightarrow> (nat \<Rightarrow> side \<Rightarrow> int)
   \<Rightarrow> (side \<Rightarrow> channel) \<Rightarrow> (side \<Rightarrow> peer_msg list) \<Rightarrow> (side \<Rightarrow> u64) \<Rightarrow> (ledger, update) link \<Rightarrow> bool" where
  "ledger_ok sha pt st opn n init chs mails next_id l \<longleftrightarrow>
     (\<forall>p. tracks p opn n init (chs p) (copy l p) \<and> static (chs p) = st p)
   \<and> (\<forall>p. list_all2 stands_for (filter is_update (mails p)) (wire l p))
   \<and> parties.in_step opn sha pt l \<and> (\<forall>p. ids_ok opn l p (next_id p))"

lemma ledger_app_keys:
  "led_htlcs (ledger_app opn p u L) k \<noteq> None \<longleftrightarrow> led_htlcs L k \<noteq> None \<or> (\<exists>i e. u = Add i e \<and> k = (p, i))"
  by (cases u) (auto simp: bump_def Let_def)

lemma fits_add:
  "parties.all_fit opn sha pt p us L \<Longrightarrow> Add i e \<in> set us \<Longrightarrow> led_htlcs L (p, i) = None"
proof (induction us arbitrary: L)
  case (Cons u us)
  then show ?case using ledger_app_keys [of opn p u L "(p, i)"] by (cases "u = Add i e") auto
qed simp

lemma ids_ok_send:
  assumes ok: "\<forall>q. ids_ok opn l q (next_id q)" and fit: "ledger_fits sha pt p u (copy l p)"
    and nxt: "next_id p \<le> next_id' p" "next_id' (other p) = next_id (other p)"
    and add: "\<And>i e. u = Add i e \<Longrightarrow> i < next_id' p" and opn: "\<And>v. u = Fee v \<or> u = Height v \<Longrightarrow> p = opn"
  shows "ids_ok opn (link_send (ledger_app opn) p u l) q (next_id' q)"
proof -
  let ?l = "link_send (ledger_app opn) p u l"
  have le: "next_id q \<le> next_id' q" using nxt by (cases "q = p") (auto simp: neq_side_iff)
  have keys: "i < next_id' q" if "led_htlcs (copy ?l r) (q, i) \<noteq> None" for r i
  proof (cases "led_htlcs (copy l r) (q, i) = None")
    case True
    then have "\<exists>e. u = Add i e" "q = p" using that ledger_app_keys [of opn p u "copy l p" "(q, i)"]
      by (auto simp: link_send_def split: if_splits)
    then show ?thesis using add by blast
  next
    case False
    then have "i < next_id q" using ok by (auto simp: ids_ok_def)
    then show ?thesis using le by simp
  qed
  have "i < next_id' q" if "Remove i r \<in> set (wire ?l (other q))" for i r
  proof (cases "Remove i r \<in> set (wire l (other q))")
    case True
    then have "i < next_id q" using ok by (auto simp: ids_ok_def)
    then show ?thesis using le by simp
  next
    case False
    then have "u = Remove i r" "other q = p" using that by (auto simp: link_send_def split: if_splits)
    then have "led_htlcs (copy l p) (q, i) \<noteq> None" using fit by (auto split: option.splits)
    then have "i < next_id q" using ok by (auto simp: ids_ok_def)
    then show ?thesis using le by simp
  qed
  moreover have "i < next_id' q" if "Add i e \<in> set (wire ?l q)" for i e
  proof (cases "Add i e \<in> set (wire l q)")
    case True
    then have "i < next_id q" using ok unfolding ids_ok_def by blast
    then show ?thesis using le by simp
  next
    case False
    then show ?thesis using that add by (auto simp: link_send_def split: if_splits)
  qed
  moreover have "q = opn" if "Fee v \<in> set (wire ?l q) \<or> Height v \<in> set (wire ?l q)" for v
    using that opn [of v] ok by (auto simp: link_send_def ids_ok_def split: if_splits)
  ultimately show ?thesis using keys by (auto simp: ids_ok_def)
qed

lemma ids_ok_recv:
  assumes "\<forall>q. ids_ok opn l q (next_id q)" "wire l p = u # us"
  shows "ids_ok opn (link_recv (ledger_app opn) p l) q (next_id q)"
proof -
  have ok: "ids_ok opn l q (next_id q)" for q using assms(1) by blast
  have "i < next_id q" if "led_htlcs (copy (link_recv (ledger_app opn) p l) r) (q, i) \<noteq> None" for r i
  proof (cases "led_htlcs (copy l r) (q, i) = None")
    case True
    then have "\<exists>e. u = Add i e" "q = p" using that ledger_app_keys [of opn p u "copy l (other p)" "(q, i)"] assms(2)
      by (auto simp: link_recv_def split: if_splits)
    then show ?thesis using ok [of p] assms(2) by (auto simp: ids_ok_def)
  next
    case False
    then show ?thesis using ok [of q] by (auto simp: ids_ok_def)
  qed
  moreover have "set (wire (link_recv (ledger_app opn) p l) r) \<subseteq> set (wire l r)" for r
    using assms(2) by (auto simp: link_recv_def)
  ultimately show ?thesis using ok [of q] unfolding ids_ok_def by blast
qed

text \<open>What a party may send: it fits its own copy, and crosses nothing on its way to it that it must not.\<close>

definition may_send :: "(bytes \<Rightarrow> bytes) \<Rightarrow> (bytes \<Rightarrow> bytes option) \<Rightarrow> side \<Rightarrow> (ledger, update) link \<Rightarrow> side \<Rightarrow> u64 \<Rightarrow> update \<Rightarrow> bool" where
  "may_send sha pt opn l p next_id u \<longleftrightarrow>
     ledger_fits sha pt p u (copy l p) \<and> (\<forall>b \<in> set (wire l (other p)). may_cross u b)
   \<and> (\<forall>i e. u = Add i e \<longrightarrow> i < next_id) \<and> (\<forall>v. u = Fee v \<or> u = Height v \<longrightarrow> p = opn)
   \<and> (\<forall>c. u = Commit c \<longrightarrow> commitment_of opn (other p) (ledger_app opn p u (copy l p)) = c)"

lemma ledger_ok_send:
  assumes ok: "ledger_ok sha pt st opn n init chs mails next_id l"
    and may: "may_send sha pt opn l p (next_id' p) u" and m: "stands_for m u"
    and T: "tracks p opn n init (chs' p) (ledger_app opn p u (copy l p))" "static (chs' p) = st p"
    and upd: "chs' (other p) = chs (other p)" "next_id p \<le> next_id' p" "next_id' (other p) = next_id (other p)"
      "mails' p = mails p @ [m]" "mails' (other p) = mails (other p)"
  shows "ledger_ok sha pt st opn n init chs' mails' next_id' (link_send (ledger_app opn) p u l)"
proof -
  let ?l = "link_send (ledger_app opn) p u l"
  have "parties.in_step opn sha pt ?l"
    using ok may by (intro parties.in_step_send) (auto simp: ledger_ok_def may_send_def elim: update_snapshot.elims)
  moreover have "ids_ok opn ?l q (next_id' q)" for q
    using ok may upd by (intro ids_ok_send) (auto simp: ledger_ok_def may_send_def)
  moreover have "tracks q opn n init (chs' q) (copy ?l q) \<and> static (chs' q) = st q" for q
    using ok T upd(1) neq_side_iff [of q p] by (cases "q = p") (auto simp: ledger_ok_def link_send_def)
  moreover have "list_all2 stands_for (filter is_update (mails' q)) (wire ?l q)" for q
  proof -
    have "list_all2 stands_for (filter is_update (mails q)) (wire l q)" using ok by (simp add: ledger_ok_def)
    then show ?thesis using m upd(4,5) neq_side_iff [of q p]
      by (cases "q = p") (auto simp: link_send_def is_update_def list_all2_appendI)
  qed
  ultimately show ?thesis by (simp add: ledger_ok_def)
qed

lemma ledger_ok_skip:
  assumes "ledger_ok sha pt st opn n init chs mails next_id l" and "chs' = chs" "next_id' = next_id"
    and "\<And>q. filter is_update (mails' q) = filter is_update (mails q)"
  shows "ledger_ok sha pt st opn n init chs' mails' next_id' l"
  using assms by (simp add: ledger_ok_def)

lemma ledger_ok_head:
  assumes "ledger_ok sha pt st opn n init chs mails next_id l" "mails p = m # ms" "is_update m"
  obtains u us where "wire l p = u # us" "stands_for m u" "ledger_fits sha pt p u (copy l (other p))"
proof -
  have "list_all2 stands_for (m # filter is_update ms) (wire l p)"
    using assms unfolding ledger_ok_def by (metis filter.simps(2))
  then obtain u us where u: "wire l p = u # us" "stands_for m u" by (auto simp: list_all2_Cons1)
  moreover have "parties.in_step opn sha pt l" using assms(1) by (simp add: ledger_ok_def)
  then have "ledger_fits sha pt p u (copy l (other p))" using parties.in_step_recv(3) u(1) by blast
  ultimately show ?thesis using that by blast
qed

lemma ledger_ok_recv:
  assumes ok: "ledger_ok sha pt st opn n init chs mails next_id l"
    and wire: "wire l p = u # us" "mails p = m # ms" "is_update m"
    and T: "tracks (other p) opn n init (chs' (other p)) (ledger_app opn p u (copy l (other p)))"
      "static (chs' (other p)) = st (other p)"
    and upd: "chs' p = chs p" "mails' p = ms" "mails' (other p) = mails (other p)"
  shows "ledger_ok sha pt st opn n init chs' mails' next_id (link_recv (ledger_app opn) p l)"
proof -
  let ?l = "link_recv (ledger_app opn) p l"
  have "parties.in_step opn sha pt ?l" using ok wire(1) parties.in_step_recv(1) unfolding ledger_ok_def by blast
  moreover have "ids_ok opn ?l q (next_id q)" for q
    using ok wire(1) by (intro ids_ok_recv) (auto simp: ledger_ok_def)
  moreover have "tracks q opn n init (chs' q) (copy ?l q) \<and> static (chs' q) = st q" for q
    using ok T upd(1) wire(1) neq_side_iff [of q p] by (cases "q = p") (auto simp: ledger_ok_def link_recv_def)
  moreover have "list_all2 stands_for (filter is_update (mails' q)) (wire ?l q)" for q
  proof -
    have "list_all2 stands_for (filter is_update (mails q)) (wire l q)" using ok by (simp add: ledger_ok_def)
    then show ?thesis using wire upd(2,3) neq_side_iff [of q p] by (cases "q = p") (auto simp: link_recv_def)
  qed
  ultimately show ?thesis by (simp add: ledger_ok_def)
qed

lemma may_send_plain:
  assumes ok: "ledger_ok sha pt st opn n init chs mails next_id l"
  shows "may_send sha pt opn l opn k (Fee v)" "may_send sha pt opn l opn k (Height v)"
    and "ledger_fits sha pt p (Remove i r) (copy l p) \<Longrightarrow> may_send sha pt opn l p k (Remove i r)"
    and "ledger_fits sha pt p (Add i e) (copy l p) \<Longrightarrow> next_id p \<le> i \<Longrightarrow> i < k \<Longrightarrow> may_send sha pt opn l p k (Add i e)"
proof -
  have any: "may_cross (Fee v) b" "may_cross (Height v) b" for b by (cases b; simp)+
  show "may_send sha pt opn l opn k (Fee v)" "may_send sha pt opn l opn k (Height v)" by (simp_all add: may_send_def any)
  have ids: "ids_ok opn l p (next_id p)" using ok by (simp add: ledger_ok_def)
  have fit: "parties.all_fit opn sha pt (other p) (wire l (other p)) (copy l p)"
    using ok parties.in_step_def parties.one_way_def [of opn sha pt l "other p"] by (simp add: ledger_ok_def)
  show "may_send sha pt opn l p k (Remove i r)" if f: "ledger_fits sha pt p (Remove i r) (copy l p)"
  proof -
    have "may_cross (Remove i r) b" if b: "b \<in> set (wire l (other p))" for b
      using fits_add [OF fit, of i] b f by (cases b) (auto split: option.splits)
    then show ?thesis using f by (simp add: may_send_def)
  qed
  show "may_send sha pt opn l p k (Add i e)" if f: "ledger_fits sha pt p (Add i e) (copy l p)" and i: "next_id p \<le> i" "i < k"
  proof -
    have "may_cross (Add i e) b" if b: "b \<in> set (wire l (other p))" for b
      using ids b i(1) by (cases b) (auto simp: ids_ok_def)
    then show ?thesis using f i by (simp add: may_send_def)
  qed
qed

lemma may_send_commit:
  "Revoke \<notin> set (wire l (other p)) \<Longrightarrow>
     may_send sha pt opn l p k (Commit (commitment_of opn (other p) (ledger_app opn p (Commit c) (copy l p))))"
  "(\<And>c. Commit c \<notin> set (wire l (other p))) \<Longrightarrow> may_send sha pt opn l p k Revoke"
proof -
  let ?c = "commitment_of opn (other p) (ledger_app opn p (Commit c) (copy l p))"
  show "may_send sha pt opn l p k (Commit ?c)" if r: "Revoke \<notin> set (wire l (other p))"
  proof -
    have "may_cross (Commit d) b" if "b \<noteq> Revoke" for d b using that by (cases b) auto
    then have "\<forall>b \<in> set (wire l (other p)). may_cross (Commit ?c) b" using r by metis
    moreover have "ledger_app opn p (Commit ?c) (copy l p) = ledger_app opn p (Commit c) (copy l p)" by simp
    ultimately show ?thesis unfolding may_send_def by auto
  qed
  have "may_cross Revoke b" if "\<And>c. b \<noteq> Commit c" for b using that by (cases b) auto
  then have "\<forall>b \<in> set (wire l (other p)). may_cross Revoke b" if "\<And>c. Commit c \<notin> set (wire l (other p))" using that by metis
  then show "may_send sha pt opn l p k Revoke" if "\<And>c. Commit c \<notin> set (wire l (other p))"
    using that unfolding may_send_def by simp
qed

end
