(* ===== verification/Network.thy ===== *)
theory Network
  imports Exchange
begin

text \<open>
  Two channel daemons that talk to each other: the handlers of \<open>Channeld\<close> over two queues of
  messages, in every interleaving of orders, timers and deliveries. The invariant says that each channel
  follows its copy of the ledger, that the copies are in step, and whose turn it is to sign and to
  revoke; every handler keeps it.
\<close>

section \<open>The system\<close>

record net =
  daemon :: "side \<Rightarrow> peer"
  mail :: "side \<Rightarrow> peer_msg list"

fun to_peer :: "peer_out list \<Rightarrow> peer_msg list" where
  "to_peer [] = []"
| "to_peer (To_Peer m # outs) = m # to_peer outs"
| "to_peer (To_Master m # outs) = to_peer outs"

definition put_out :: "side \<Rightarrow> peer \<times> peer_out list \<Rightarrow> net \<Rightarrow> net" where
  "put_out p res N =
     N\<lparr>daemon := (daemon N)(p := fst res), mail := (mail N)(p := mail N p @ to_peer (snd res))\<rparr>"

fun is_swap_order :: "master_order \<Rightarrow> bool" where
  "is_swap_order (SYM_SWAP_REQUEST _ _) = True"
| "is_swap_order (SYM_SWAP_ACCEPT _) = True"
| "is_swap_order (SYM_SWAP_CANCEL _) = True"
| "is_swap_order _ = False"

text \<open>
  One handler runs to its end. A daemon that exits takes no step, and is not started again. Swaps between
  lanes are left out, and no daemon offers more than \<open>2\<^sup>6\<^sup>4 - 1\<close> HTLCs. The timer may run at any time.
\<close>

inductive net_step :: "(side \<Rightarrow> channeld_env) \<Rightarrow> sym_tree \<Rightarrow> net \<Rightarrow> net \<Rightarrow> bool" for env uninit where
  order: "req_in (env p) (daemon N p) ord = Some (Inr res) \<Longrightarrow> \<not> is_swap_order ord \<Longrightarrow> htlc_id (daemon N p) \<noteq> - 1
            \<Longrightarrow> net_step env uninit N (put_out p res N)"
| timer: "send_commit_if_not_stfu (env p) (daemon N p) = Some (Inr res) \<Longrightarrow> net_step env uninit N (put_out p res N)"
| deliver: "mail N p = m # ms \<Longrightarrow> peer_in (env (other p)) uninit (daemon N (other p)) m = Some (Inr res)
            \<Longrightarrow> net_step env uninit N (put_out (other p) res (N\<lparr>mail := (mail N)(p := ms)\<rparr>))"

abbreviation net_reaches :: "(side \<Rightarrow> channeld_env) \<Rightarrow> sym_tree \<Rightarrow> net \<Rightarrow> net \<Rightarrow> bool" where
  "net_reaches env uninit \<equiv> (net_step env uninit)\<^sup>*\<^sup>*"

lemma to_peer_append [simp]: "to_peer (a @ b) = to_peer a @ to_peer b"
  by (induction a rule: to_peer.induct) simp_all

lemma put_out_twice: "put_out p (y, outs') (put_out p (x, outs) N) = put_out p (y, outs @ outs') N"
  by (simp add: put_out_def)

section \<open>Whose turn it is\<close>

text \<open>
  What does not change while the two daemons talk: what they rely on, the hash and the curve they
  share, each party's per-commitment points, the fixed part of each channel, and the opener, the lanes and
  the balances they started with.
\<close>

record deal =
  deal_env :: "side \<Rightarrow> channeld_env"
  deal_sha :: "bytes \<Rightarrow> bytes"
  deal_point_of :: "bytes \<Rightarrow> bytes option"
  deal_points :: "side \<Rightarrow> u64 \<Rightarrow> bytes"
  deal_static :: "side \<Rightarrow> channel"
  deal_opener :: side
  deal_lanes :: nat
  deal_start :: "nat \<Rightarrow> side \<Rightarrow> int"

abbreviation follows :: "deal \<Rightarrow> side \<Rightarrow> channel \<Rightarrow> ledger \<Rightarrow> bool" where
  "follows D p ch L \<equiv> tracks p (deal_opener D) (deal_lanes D) (deal_start D) ch L \<and> static ch = deal_static D p"

abbreviation deal_app :: "deal \<Rightarrow> side \<Rightarrow> update \<Rightarrow> ledger \<Rightarrow> ledger" where
  "deal_app D \<equiv> ledger_app (deal_opener D)"

text \<open>
  The signatures in a message are those on the peer's commitment of a channel, for an index and a point:
  on the transaction and its HTLCs, or, of a symmetric channel, on the state of that index.
\<close>

definition signature_on :: "channeld_env \<Rightarrow> channel \<Rightarrow> u64 \<Rightarrow> bytes \<Rightarrow> peer_msg \<Rightarrow> bool" where
  "signature_on env ch idx point m \<longleftrightarrow>
     (case m of
        COMMITMENT_SIGNED sig hsigs usig swap \<Rightarrow>
          swap = None \<and>
          (if channel_has ch OPT_SEQ_SYMMETRIC
           then (\<exists>st. sym_channeld_state (env_crypto env) ch REMOTE idx = Some st \<and> usig = Some (sym_sign env ch st))
           else (sig, hsigs) = commit_sigs env ch idx point)
      | _ \<Rightarrow> False)"

text \<open>They are those on the commitment \<open>c\<close> of the ledger, on some channel that has it.\<close>

definition signed :: "deal \<Rightarrow> side \<Rightarrow> u64 \<Rightarrow> bytes \<Rightarrow> peer_msg \<Rightarrow> commitment \<Rightarrow> bool" where
  "signed D p idx point m c \<longleftrightarrow>
     (\<exists>ch. static ch = deal_static D p \<and> seen_commitment p REMOTE ch = seen_of (deal_lanes D) (deal_start D) c
        \<and> signature_on (deal_env D p) ch idx point m)"

fun is_commit :: "peer_msg \<Rightarrow> bool" where
  "is_commit (COMMITMENT_SIGNED _ _ _ _) = True" | "is_commit _ = False"

fun is_revoke :: "peer_msg \<Rightarrow> bool" where
  "is_revoke (REVOKE_AND_ACK _ _ _) = True" | "is_revoke _ = False"

text \<open>
  One direction: \<open>x\<close> signs, \<open>y\<close> revokes. \<open>cs\<close> are the signatures on their way to \<open>y\<close>, \<open>rs\<close> the
  revocations on their way back. There is at most one of either, and the indices and
  per-commitment points of the two daemons match.
\<close>

inductive turn ::
  "(u64 \<Rightarrow> bytes) \<Rightarrow> (u64 \<Rightarrow> bytes) \<Rightarrow> (u64 \<Rightarrow> bytes \<Rightarrow> peer_msg \<Rightarrow> bool) \<Rightarrow> peer \<Rightarrow> peer \<Rightarrow> peer_msg list \<Rightarrow> peer_msg list \<Rightarrow> bool"
  for points secrets ok where
  idle: "revocations_received x = next_index x REMOTE - 1 \<Longrightarrow> next_index x REMOTE = next_index y LOCAL
     \<Longrightarrow> remote_per_commit x = points (next_index x REMOTE) \<Longrightarrow> old_remote_per_commit x = points (next_index x REMOTE - 1)
     \<Longrightarrow> turn points secrets ok x y [] []"
| signed: "revocations_received x = next_index x REMOTE - 2 \<Longrightarrow> next_index x REMOTE = next_index y LOCAL + 1
     \<Longrightarrow> remote_per_commit x = points (next_index x REMOTE - 1) \<Longrightarrow> old_remote_per_commit x = points (next_index x REMOTE - 2)
     \<Longrightarrow> ok (next_index x REMOTE - 1) (remote_per_commit x) m
     \<Longrightarrow> turn points secrets ok x y [m] []"
| revoked: "revocations_received x = next_index x REMOTE - 2 \<Longrightarrow> next_index x REMOTE = next_index y LOCAL
     \<Longrightarrow> remote_per_commit x = points (next_index x REMOTE - 1) \<Longrightarrow> old_remote_per_commit x = points (next_index x REMOTE - 2)
     \<Longrightarrow> turn points secrets ok x y [] [REVOKE_AND_ACK (secrets (next_index x REMOTE - 2)) (points (next_index x REMOTE)) usig]"

definition same_turn :: "peer \<Rightarrow> peer \<Rightarrow> bool" where
  "same_turn x x' \<longleftrightarrow> next_index x' = next_index x \<and> revocations_received x' = revocations_received x
     \<and> next_local_per_commit x' = next_local_per_commit x
     \<and> remote_per_commit x' = remote_per_commit x \<and> old_remote_per_commit x' = old_remote_per_commit x"

lemma turn_cong:
  "same_turn x x' \<Longrightarrow> same_turn y y' \<Longrightarrow> turn points secrets ok x y cs rs \<Longrightarrow> turn points secrets ok x' y' cs rs"
  by (elim turn.cases) (simp_all add: turn.simps same_turn_def)

lemma turn_mono:
  "turn points secrets ok x y cs rs \<Longrightarrow> (\<And>idx point m. ok idx point m \<Longrightarrow> ok' idx point m) \<Longrightarrow> turn points secrets ok' x y cs rs"
  by (elim turn.cases) (simp_all add: turn.simps)

definition commits :: "(ledger, update) link \<Rightarrow> side \<Rightarrow> commitment set" where
  "commits l p = {c. Commit c \<in> set (wire l p)}"

definition turn_ok :: "deal \<Rightarrow> net \<Rightarrow> (ledger, update) link \<Rightarrow> side \<Rightarrow> bool" where
  "turn_ok D N l p \<longleftrightarrow>
     next_local_per_commit (daemon N p) = deal_points D p (next_index (daemon N p) LOCAL)
   \<and> turn (deal_points D (other p)) (\<lambda>i. fst (revoke_commitment (deal_env D (other p)) i))
       (\<lambda>idx point m. \<forall>c \<in> commits l p. signed D p idx point m c)
       (daemon N p) (daemon N (other p)) (filter is_commit (mail N p)) (filter is_revoke (mail N (other p)))"

definition net_ok :: "deal \<Rightarrow> net \<Rightarrow> (ledger, update) link \<Rightarrow> bool" where
  "net_ok D N l \<longleftrightarrow>
     ledger_ok (deal_sha D) (deal_point_of D) (deal_static D) (deal_opener D) (deal_lanes D) (deal_start D)
       (\<lambda>p. peer_channel (daemon N p)) (mail N) (\<lambda>p. htlc_id (daemon N p)) l
   \<and> (\<forall>p. turn_ok D N l p)"

text \<open>What the signers promise: both use the same hash and curve, and each revokes with the secrets of its points.\<close>

definition keyed :: "deal \<Rightarrow> bool" where
  "keyed D \<longleftrightarrow>
     (\<forall>p. sha256 (env_crypto (deal_env D p)) = deal_sha D \<and> point_of (deal_env D p) = deal_point_of D)
   \<and> (\<forall>p i. snd (revoke_commitment (deal_env D p) i) = deal_points D p (i + 2)
        \<and> pubkey_from_privkey (deal_env D (other p)) (fst (revoke_commitment (deal_env D p) i)) = Some (deal_points D p i))"

text \<open>A change that leaves the turns alone.\<close>

lemma turn_ok_local:
  assumes "turn_ok D N l q" and "\<And>r. same_turn (daemon N r) (daemon N' r)" "\<And>r. commits l' r \<subseteq> commits l r"
    and "\<And>r. filter is_commit (mail N' r) = filter is_commit (mail N r)" "\<And>r. filter is_revoke (mail N' r) = filter is_revoke (mail N r)"
  shows "turn_ok D N' l' q"
proof -
  let ?turn = "\<lambda>l. turn (deal_points D (other q)) (\<lambda>i. fst (revoke_commitment (deal_env D (other q)) i))
       (\<lambda>idx point m. \<forall>c \<in> commits l q. signed D q idx point m c)"
  have "?turn l' (daemon N q) (daemon N (other q)) (filter is_commit (mail N q)) (filter is_revoke (mail N (other q)))"
    using assms(1,3) unfolding turn_ok_def by (blast intro: turn_mono)
  then have "?turn l' (daemon N' q) (daemon N' (other q)) (filter is_commit (mail N' q)) (filter is_revoke (mail N' (other q)))"
    unfolding assms(4,5) by (rule turn_cong [OF assms(2) assms(2)])
  then show ?thesis using assms(1,2) by (simp add: turn_ok_def same_turn_def)
qed

lemma same_turn_refl [simp]: "same_turn x x"
  by (simp add: same_turn_def)

lemma put_out_simps [simp]:
  "daemon (put_out p res N) = (daemon N)(p := fst res)" "mail (put_out p res N) = (mail N)(p := mail N p @ to_peer (snd res))"
  by (simp_all add: put_out_def)

lemma update_kinds:
  "is_commit m \<Longrightarrow> is_update m" "is_revoke m \<Longrightarrow> is_update m"
  by (cases m; simp)+

lemma no_updates:
  assumes "\<forall>m \<in> set ms. \<not> is_update m"
  shows "filter is_update ms = []" "filter is_commit ms = []" "filter is_revoke ms = []"
  using assms update_kinds by (auto simp: filter_empty_conv)

lemma net_ok_quiet:
  assumes ok: "net_ok D N l" and x: "same_turn (daemon N p) x" "htlc_id x = htlc_id (daemon N p)"
    and ch: "\<And>L. follows D p (peer_channel (daemon N p)) L \<Longrightarrow> follows D p (peer_channel x) L"
    and outs: "\<forall>m \<in> set (to_peer outs). \<not> is_update m"
  shows "net_ok D (put_out p (x, outs) N) l"
proof -
  let ?N = "put_out p (x, outs) N"
  have "follows D q (peer_channel (daemon ?N q)) (copy l q)" for q
    using ok ch by (auto simp: net_ok_def ledger_ok_def)
  moreover have "(\<lambda>q. htlc_id (daemon ?N q)) = (\<lambda>q. htlc_id (daemon N q))" using x(2) by auto
  moreover have "filter is_update (mail ?N q) = filter is_update (mail N q)" for q using no_updates [OF outs] by simp
  ultimately have "ledger_ok (deal_sha D) (deal_point_of D) (deal_static D) (deal_opener D) (deal_lanes D) (deal_start D)
      (\<lambda>p. peer_channel (daemon ?N p)) (mail ?N) (\<lambda>p. htlc_id (daemon ?N p)) l"
    using ok unfolding net_ok_def ledger_ok_def by metis
  moreover have "turn_ok D ?N l q" for q
    using ok x(1) no_updates [OF outs] by - (rule turn_ok_local [of D N l], auto simp: net_ok_def)
  ultimately show ?thesis by (simp add: net_ok_def)
qed

lemma commits_send: "(\<And>c. u \<noteq> Commit c) \<Longrightarrow> commits (link_send app p u l) q = commits l q"
  by (auto simp: commits_def link_send_def)

lemma commits_recv: "wire l p = u # us \<Longrightarrow> commits (link_recv app p l) q \<subseteq> commits l q"
  by (auto simp: commits_def link_recv_def)

lemma net_ok_send:
  assumes ok: "net_ok D N l" and may: "may_send (deal_sha D) (deal_point_of D) (deal_opener D) l p (htlc_id x) u"
    and m: "stands_for m u" "\<And>c. u \<noteq> Commit c" "u \<noteq> Revoke" "to_peer outs = [m]"
    and x: "same_turn (daemon N p) x" "htlc_id (daemon N p) \<le> htlc_id x" "follows D p (peer_channel x) (deal_app D p u (copy l p))"
  shows "net_ok D (put_out p (x, outs) N) (link_send (deal_app D) p u l)"
proof -
  have kinds: "\<not> is_commit m" "\<not> is_revoke m" using m(1-3) by (cases m; auto)+
  have "turn_ok D (put_out p (x, outs) N) (link_send (deal_app D) p u l) q" for q
    using ok x(1) m(4) kinds by - (rule turn_ok_local [of D N l], auto simp: net_ok_def commits_send m(2))
  moreover have "ledger_ok (deal_sha D) (deal_point_of D) (deal_static D) (deal_opener D) (deal_lanes D) (deal_start D)
      (\<lambda>q. peer_channel (daemon (put_out p (x, outs) N) q)) (mail (put_out p (x, outs) N))
      (\<lambda>q. htlc_id (daemon (put_out p (x, outs) N) q)) (link_send (deal_app D) p u l)"
    using ok x m may unfolding net_ok_def by - (rule ledger_ok_send [of _ _ _ _ _ _ "\<lambda>q. peer_channel (daemon N q)" "mail N"], auto)
  ultimately show ?thesis by (simp add: net_ok_def)
qed

lemma net_ok_recv:
  assumes ok: "net_ok D N l" and head: "mail N p = m # ms" "wire l p = u # us" "stands_for m u" "\<not> is_commit m" "\<not> is_revoke m"
    and outs: "to_peer outs = []"
    and x: "same_turn (daemon N (other p)) x" "htlc_id x = htlc_id (daemon N (other p))"
      "follows D (other p) (peer_channel x) (deal_app D p u (copy l (other p)))"
  shows "net_ok D (put_out (other p) (x, outs) (N\<lparr>mail := (mail N)(p := ms)\<rparr>)) (link_recv (deal_app D) p l)"
proof -
  let ?N = "put_out (other p) (x, outs) (N\<lparr>mail := (mail N)(p := ms)\<rparr>)"
  have "turn_ok D ?N (link_recv (deal_app D) p l) q" for q
    using ok x(1) outs head commits_recv [OF head(2)] by - (rule turn_ok_local [of D N l], auto simp: net_ok_def)
  moreover have "(\<lambda>q. htlc_id (daemon ?N q)) = (\<lambda>q. htlc_id (daemon N q))" using x(2) by auto
  then have "ledger_ok (deal_sha D) (deal_point_of D) (deal_static D) (deal_opener D) (deal_lanes D) (deal_start D)
      (\<lambda>q. peer_channel (daemon ?N q)) (mail ?N) (\<lambda>q. htlc_id (daemon ?N q)) (link_recv (deal_app D) p l)"
    using ok x head outs is_update_def unfolding net_ok_def
    by (simp only:) (rule ledger_ok_recv [of _ _ _ _ _ _ "\<lambda>q. peer_channel (daemon N q)" "mail N" _ _ p u us m ms], auto)
  ultimately show ?thesis by (simp add: net_ok_def)
qed

section \<open>Handlers that send and take no update\<close>

text \<open>\<open>keeps I p N a\<close>: if the handler \<open>a\<close> of \<open>p\<close> returns, the system it leaves has \<open>I\<close>.\<close>

definition keeps :: "(net \<Rightarrow> bool) \<Rightarrow> side \<Rightarrow> net \<Rightarrow> peer act \<Rightarrow> bool" where
  "keeps I p N a \<longleftrightarrow> (\<forall>x outs. a = Some (Inr (x, outs)) \<longrightarrow> I (put_out p (x, outs) N))"

lemma keeps_and_then:
  assumes "keeps I p N m" "\<And>N'. I N' \<Longrightarrow> keeps J p N' (f (daemon N' p))"
  shows "keeps J p N (and_then m f)"
  unfolding keeps_def
proof (intro allI impI)
  fix y outs assume "and_then m f = Some (Inr (y, outs))"
  then obtain x a b where r: "m = Some (Inr (x, a))" "f x = Some (Inr (y, b))" "outs = a @ b"
    by (auto simp: and_then_result)
  have "I (put_out p (x, a) N)" using assms(1) r(1) by (simp add: keeps_def)
  from assms(2) [OF this] have "keeps J p (put_out p (x, a) N) (f x)" by simp
  then show "J (put_out p (y, outs) N)" using r(2,3) by (simp add: keeps_def put_out_twice)
qed

lemma keeps_case_option:
  "(x = None \<Longrightarrow> keeps I p N a) \<Longrightarrow> (\<And>y. x = Some y \<Longrightarrow> keeps I p N (f y)) \<Longrightarrow> keeps I p N (case x of None \<Rightarrow> a | Some y \<Rightarrow> f y)"
  by (cases x) auto

lemma keeps_stuck [simp]: "keeps I p N None" "keeps I p N (exits e)"
  by (simp_all add: keeps_def)

definition good :: "deal \<Rightarrow> net \<Rightarrow> bool" where
  "good D N \<longleftrightarrow> (\<exists>l. net_ok D N l)"

text \<open>A handler that only touches what the agreement does not depend on.\<close>

definition quiet :: "peer \<Rightarrow> peer act \<Rightarrow> bool" where
  "quiet x a \<longleftrightarrow> (\<forall>y outs. a = Some (Inr (y, outs)) \<longrightarrow>
     same_turn x y \<and> htlc_id y = htlc_id x \<and> peer_channel y = peer_channel x \<and> (\<forall>m \<in> set (to_peer outs). \<not> is_update m))"

lemma good_quiet: "good D N \<Longrightarrow> quiet (daemon N p) a \<Longrightarrow> keeps (good D) p N a"
  unfolding good_def keeps_def quiet_def using net_ok_quiet by metis

lemma quiet_done: "same_turn x y \<Longrightarrow> htlc_id y = htlc_id x \<Longrightarrow> peer_channel y = peer_channel x
    \<Longrightarrow> \<forall>m \<in> set (to_peer outs). \<not> is_update m \<Longrightarrow> quiet x (done_with y outs)"
  by (simp add: quiet_def)

lemma quiet_maybe_send_stfu: "quiet x (maybe_send_stfu x)"
  by (auto simp: quiet_def maybe_send_stfu_def same_turn_def Let_def split: option.splits bool.splits if_splits)

lemma quiet_from:
  "same_turn x y \<Longrightarrow> htlc_id y = htlc_id x \<Longrightarrow> peer_channel y = peer_channel x \<Longrightarrow> quiet y a \<Longrightarrow> quiet x a"
  unfolding quiet_def same_turn_def by metis

lemma quiet_stuck [simp]: "quiet x None" "quiet x (exits e)"
  by (simp_all add: quiet_def)

lemma quiet_handle_stfu: "quiet x (handle_stfu x b)"
  unfolding handle_stfu_def Let_def
  by (simp split: option.split bool.split)
    (intro allI impI conjI; (rule quiet_from [OF _ _ _ quiet_maybe_send_stfu])?; simp add: same_turn_def)

lemma quiet_shutdowns:
  "quiet x (maybe_send_shutdown x)" "quiet x (handle_peer_shutdown x spk)" "quiet x (handle_shutdown_cmd x spk)"
  by (auto simp: quiet_def maybe_send_shutdown_def handle_peer_shutdown_def handle_shutdown_cmd_def same_turn_def
      start_commit_timer_def Let_def split: if_splits)

lemma quiet_handle_blockheight: "quiet x (handle_blockheight x b)"
  by (auto simp: quiet_def handle_blockheight_def same_turn_def start_commit_timer_def Let_def split: if_splits option.splits)

lemma tracks_config: "tracks p opn n init (ch\<lparr>config := cf\<rparr>) L = tracks p opn n init ch L"
  by (simp add: tracks_def chan_wf_def nlanes_def lanes_of_def bal_def view_amounts_def)

lemma good_feerates:
  assumes "good D N"
  shows "keeps (good D) p N (handle_feerates (daemon N p) rate rmin rmax dust)"
  unfolding keeps_def
proof (intro allI impI)
  fix y outs assume run: "handle_feerates (daemon N p) rate rmin rmax dust = Some (Inr (y, outs))"
  obtain l where ok: "net_ok D N l" using assms by (auto simp: good_def)
  have "static (peer_channel y) = static (peer_channel (daemon N p))" "outs = []"
    and "same_turn (daemon N p) y" "htlc_id y = htlc_id (daemon N p)"
    and "\<exists>cf. peer_channel y = (peer_channel (daemon N p))\<lparr>config := cf\<rparr>"
    using run by (auto simp: handle_feerates_def Let_def same_turn_def start_commit_timer_def static_def fun_eq_iff split: if_splits)
  then have "net_ok D (put_out p (y, outs) N) l" using tracks_config by (intro net_ok_quiet [OF ok]) auto
  then show "good D (put_out p (y, outs) N)" by (auto simp: good_def)
qed

section \<open>Offering HTLCs\<close>

lemma htlc_put_get:
  assumes "h_id h' = hid" "htlc_owner h' = owner" "htlc_get hs hid owner \<noteq> None"
  shows "htlc_get (htlc_put hid owner h' hs) hid owner = Some h'" "htlc_put hid owner g (htlc_put hid owner h' hs) = htlc_put hid owner g hs"
proof -
  have flag: "htlc_has h' (HTLC_FLAG owner HTLC_F_OWNER)"
    using assms(2) by (cases owner; cases "h_state h'") (auto simp: htlc_has_def htlc_owner_def flag_simps)
  show "htlc_get (htlc_put hid owner h' hs) hid owner = Some h'" "htlc_put hid owner g (htlc_put hid owner h' hs) = htlc_put hid owner g hs"
    using assms flag by (induction hs) (auto simp: htlc_get_def)
qed

lemma nlanes_sym: "chan_wf ch \<Longrightarrow> nlanes ch = sym_num_lanes ch"
  by (simp add: chan_wf_def nlanes_def lanes_of_def sym_num_lanes_def)

lemma next_id_up: "(i :: u64) \<noteq> - 1 \<Longrightarrow> i < i + 1"
  using inc_less_eq_self_iff_eq [of i] by (simp add: not_le [symmetric])

lemma add_with_lock:
  assumes "channel_add_lane_htlc cp mf ch sender hid amount expiry hash routing pk tlvs imm lane
      = Some (CHANNEL_ERR_ADD_OK, ch', added, fee)"
  obtains h where "set_lock_point added lock ch' = ch\<lparr>htlcs := h # htlcs ch\<rparr>" "htlc_owner h = sender" "h_id h = hid"
    "entry_of h = \<lparr>e_amount = amount, e_expiry = expiry, e_rhash = hash, e_lock_point = lock, e_lane = lane, e_r = None, e_pos = 0\<rparr>"
    "h_failed h = None" "unat lane < sym_num_lanes ch"
proof -
  define st where "st = (if sender = LOCAL then SENT_ADD_HTLC else RCVD_ADD_HTLC)"
  define g where "g = new_htlc st hid amount expiry hash routing pk tlvs lane"
  have st: "htlc_state_owner st = sender" "life_pos st = 0" "state_has st (HTLC_FLAG sender HTLC_F_OWNER)"
    by (cases sender; simp add: st_def flag_simps htlc_state_owner_def state_lt_iff)+
  from add_htlc_result [OF assms [unfolded channel_add_lane_htlc_def, folded st_def], folded g_def]
  obtain b where b: "ch' = ch\<lparr>htlcs := g\<lparr>h_fail_immediate := b\<rparr> # htlcs ch\<rparr>" "added = Some (g\<lparr>h_fail_immediate := b\<rparr>)"
    "unat lane < sym_num_lanes ch" by auto
  let ?h = "g\<lparr>h_fail_immediate := b, h_lock_point := lock\<rparr>"
  have "g\<lparr>h_fail_immediate := b\<rparr> = g\<lparr>h_fail_immediate := b, h_lock_point := None\<rparr>" by (simp add: g_def new_htlc_def)
  then have "set_lock_point added lock ch' = ch\<lparr>htlcs := ?h # htlcs ch\<rparr>"
    using st by (cases lock) (simp_all add: set_lock_point_def b g_def new_htlc_def htlc_owner_def htlc_has_def)
  then show ?thesis
    using that [of ?h] b(3) st by (simp add: g_def new_htlc_def htlc_owner_def entry_of_def hpos_def)
qed

lemma follows_add:
  assumes "follows D p ch L" "channel_add_lane_htlc cp mf ch sender hid amount expiry hash routing pk tlvs imm lane
      = Some (CHANNEL_ERR_ADD_OK, ch', added, fee)" "led_htlcs L (abs_side p sender, hid) = None"
  shows "follows D p (set_lock_point added lock ch') (deal_app D (abs_side p sender) (Add hid
     \<lparr>e_amount = amount, e_expiry = expiry, e_rhash = hash, e_lock_point = lock, e_lane = lane, e_r = None, e_pos = 0\<rparr>) L)"
proof -
  obtain h where h: "set_lock_point added lock ch' = ch\<lparr>htlcs := h # htlcs ch\<rparr>" "htlc_owner h = sender" "h_id h = hid"
    "entry_of h = \<lparr>e_amount = amount, e_expiry = expiry, e_rhash = hash, e_lock_point = lock, e_lane = lane, e_r = None, e_pos = 0\<rparr>"
    "h_failed h = None" "unat lane < sym_num_lanes ch"
    by (rule add_with_lock [OF assms(2)])
  have "hpos h = 0" "h_r h = None" "h_lane h = lane" using h(4) by (simp_all add: entry_of_def)
  moreover have "nlanes ch = sym_num_lanes ch" using assms(1) nlanes_sym unfolding tracks_def by blast
  ultimately show ?thesis using tracks_add [of p _ _ _ ch L h] assms(1,3) h by (simp add: key_of_def)
qed

lemma copy_fresh: "net_ok D N l \<Longrightarrow> led_htlcs (copy l r) (p, htlc_id (daemon N p)) = None"
proof (rule ccontr)
  assume "net_ok D N l" "led_htlcs (copy l r) (p, htlc_id (daemon N p)) \<noteq> None"
  then have "htlc_id (daemon N p) < htlc_id (daemon N p)" unfolding net_ok_def ledger_ok_def ids_ok_def by blast
  then show False by simp
qed

lemma good_offer:
  assumes "good D N" "htlc_id (daemon N p) \<noteq> - 1"
  shows "keeps (good D) p N (handle_offer_htlc env (daemon N p) amount expiry hash packet pk tlvs lock lane)"
  unfolding keeps_def
proof (intro allI impI)
  let ?x = "daemon N p"
  let ?ch = "peer_channel ?x"
  let ?tlvs = "\<lparr>add_path_key = pk, add_lane = (if lane \<noteq> 0 then Some lane else None), add_point_lock = lock, add_fields = tlvs\<rparr>"
  fix y outs assume run: "handle_offer_htlc env ?x amount expiry hash packet pk tlvs lock lane = Some (Inr (y, outs))"
  obtain l where ok: "net_ok D N l" using assms by (auto simp: good_def)
  obtain e ch' added fee where r: "channel_add_lane_htlc (env_chainparams env) (marginal_feerate env) ?ch LOCAL (htlc_id ?x) amount
      expiry hash packet pk tlvs True lane = Some (e, ch', added, fee)"
    using run by (auto simp: handle_offer_htlc_def Let_def split: if_splits option.splits)
  show "good D (put_out p (y, outs) N)"
  proof (cases "e = CHANNEL_ERR_ADD_OK")
    case False
    then have "ch' = ?ch" using add_htlc_result [OF r [unfolded channel_add_lane_htlc_def]] by auto
    then have y: "y = ?x\<lparr>peer_channel := ?ch\<rparr>" "to_peer outs = []"
      using run r False by (auto simp: handle_offer_htlc_def Let_def split: if_splits)
    have "net_ok D (put_out p (y, outs) N) l" using y by (intro net_ok_quiet [OF ok]) (auto simp: same_turn_def)
    then show ?thesis by (auto simp: good_def)
  next
    case True
    let ?m = "UPDATE_ADD_HTLC (htlc_id ?x) amount hash expiry packet ?tlvs"
    let ?e = "\<lparr>e_amount = amount, e_expiry = expiry, e_rhash = hash, e_lock_point = lock, e_lane = lane, e_r = None, e_pos = 0\<rparr>"
    have y: "y = (start_commit_timer ?x)\<lparr>peer_channel := set_lock_point added lock ch', htlc_id := htlc_id ?x + 1\<rparr>" "to_peer outs = [?m]"
      using run r True by (auto simp: handle_offer_htlc_def Let_def split: if_splits)
    have up: "htlc_id ?x < htlc_id ?x + 1" using assms(2) by (rule next_id_up)
    have "follows D p ?ch (copy l p)" using ok by (simp add: net_ok_def ledger_ok_def)
    from follows_add [OF this r [unfolded True], of lock] have "follows D p (peer_channel y) (deal_app D p (Add (htlc_id ?x) ?e) (copy l p))"
      using copy_fresh [OF ok] y by simp
    moreover have "may_send (deal_sha D) (deal_point_of D) (deal_opener D) l p (htlc_id y) (Add (htlc_id ?x) ?e)"
      using ok copy_fresh [OF ok] up y(1) unfolding net_ok_def by (intro may_send_plain(4)) auto
    moreover have "stands_for ?m (Add (htlc_id ?x) ?e)" by (simp add: added_entry_def)
    moreover have "same_turn ?x y" "htlc_id ?x \<le> htlc_id y" using y(1) up by (simp_all add: same_turn_def start_commit_timer_def)
    ultimately have "net_ok D (put_out p (y, outs) N) (link_send (deal_app D) p (Add (htlc_id ?x) ?e) l)"
      using y(2) by (intro net_ok_send [OF ok, where m = ?m]) blast+
    then show ?thesis by (auto simp: good_def)
  qed
qed

text \<open>Taking an HTLC of the peer.\<close>

lemma recv_ready:
  assumes "net_ok D N l" "mail N p = m # ms" "is_update m"
  obtains u us where "wire l p = u # us" "stands_for m u" "ledger_fits (deal_sha D) (deal_point_of D) p u (copy l (other p))"
    "follows D (other p) (peer_channel (daemon N (other p))) (copy l (other p))"
  using assms unfolding net_ok_def by (metis ledger_ok_head ledger_ok_def)

lemma good_add:
  assumes "good D N" "mail N p = UPDATE_ADD_HTLC hid amount hash expiry packet tlvs # ms"
    and run: "handle_peer_add_htlc env (daemon N (other p)) hid amount hash expiry packet tlvs = Some (Inr (y, outs))"
  shows "good D (put_out (other p) (y, outs) (N\<lparr>mail := (mail N)(p := ms)\<rparr>))"
proof -
  let ?x = "daemon N (other p)"
  obtain l where ok: "net_ok D N l" using assms by (auto simp: good_def)
  obtain u us where u: "wire l p = u # us" "u = Add hid (added_entry amount hash expiry tlvs)"
    "ledger_fits (deal_sha D) (deal_point_of D) p u (copy l (other p))" "follows D (other p) (peer_channel ?x) (copy l (other p))"
    by (rule recv_ready [OF ok assms(2)]) auto
  obtain ch' added fee where r: "channel_add_lane_htlc (env_chainparams env) (marginal_feerate env) (peer_channel ?x) REMOTE hid amount
      expiry hash packet (add_path_key tlvs) (add_fields tlvs) False (case add_lane tlvs of None \<Rightarrow> 0 | Some l \<Rightarrow> l)
        = Some (CHANNEL_ERR_ADD_OK, ch', added, fee)"
    and y: "y = ?x\<lparr>peer_channel := set_lock_point added (add_point_lock tlvs) ch'\<rparr>" "outs = []"
    using run by (auto simp: handle_peer_add_htlc_def Let_def split: if_splits option.splits)
  have "follows D (other p) (peer_channel y) (deal_app D p u (copy l (other p)))"
    using follows_add [OF u(4) r, of "add_point_lock tlvs"] u(2,3) y by (simp add: added_entry_def)
  then have "net_ok D (put_out (other p) (y, outs) (N\<lparr>mail := (mail N)(p := ms)\<rparr>)) (link_recv (deal_app D) p l)"
    using y u(2) by (intro net_ok_recv [OF ok assms(2) u(1)]) (auto simp: same_turn_def)
  then show ?thesis by (auto simp: good_def)
qed

section \<open>Removing HTLCs\<close>

lemma fulfilled:
  assumes F: "follows D p ch L" and run: "channel_fulfill_htlc sha pt ch owner hid r = (CHANNEL_ERR_REMOVE_OK, ch')"
  shows "follows D p ch' (deal_app D (other (abs_side p owner)) (Remove hid (Some r)) L)"
    and "ledger_fits sha pt (other (abs_side p owner)) (Remove hid (Some r)) L"
    and "\<exists>h. channel_get_htlc ch' owner hid = Some h \<and> h_failed h = None \<and> h_r h = Some r \<and> h_id h = hid"
proof -
  obtain h where h: "htlc_get (htlcs ch) hid owner = Some h" "irrevocable h" "h_r h = None"
    "ch' = ch\<lparr>htlcs := htlc_put hid owner (removing_htlc (Some r) h) (htlcs ch)\<rparr>"
    "case h_lock_point h of None \<Rightarrow> sha r = h_rhash h | Some lock \<Rightarrow> pt r = Some lock"
    by (rule channel_fulfill_htlc_ok [OF run])
  let ?h = "removing_htlc (Some r) h"
  have h': "entry_of ?h = (entry_of h)\<lparr>e_pos := 5, e_r := Some r\<rparr>" "htlc_owner ?h = owner" "h_id ?h = hid"
    using htlc_get_Some [OF h(1)] removing_htlc_simps [of "Some r" h] by (simp_all add: entry_of_def) (simp_all add: removing_htlc_def)
  note T = tracks_remove [OF conjunct1 [OF F] h(1,2) h']
  show "follows D p ch' (deal_app D (other (abs_side p owner)) (Remove hid (Some r)) L)" using T(1) F h(4) by simp
  show "ledger_fits sha pt (other (abs_side p owner)) (Remove hid (Some r)) L"
    using T(2,3) h(5) by (simp add: entry_opens_def entry_of_def split: option.splits)
  have "h_failed h = None" using F h(2) htlc_get_Some(1) [OF h(1)] by (auto simp: tracks_def irrevocable_def)
  then show "\<exists>h. channel_get_htlc ch' owner hid = Some h \<and> h_failed h = None \<and> h_r h = Some r \<and> h_id h = hid"
    using htlc_put_get(1) [OF h'(3,2)] h(1,4) h'(3) by (simp add: channel_get_htlc_def) (simp add: removing_htlc_def)
qed

lemma failed_with:
  assumes F: "follows D p ch L" and run: "fail_htlc_with ch owner f = (CHANNEL_ERR_REMOVE_OK, ch')"
  shows "follows D p ch' (deal_app D (other (abs_side p owner)) (Remove (failed_id f) None) L)"
    and "ledger_fits sha pt (other (abs_side p owner)) (Remove (failed_id f) None) L"
    and "\<exists>h. channel_get_htlc ch' owner (failed_id f) = Some h \<and> h_failed h = Some f \<and> h_id h = failed_id f"
proof -
  let ?i = "failed_id f"
  obtain ch1 where ch1: "channel_fail_htlc ch owner ?i = (CHANNEL_ERR_REMOVE_OK, ch1)"
    using run by (auto simp: fail_htlc_with_def split: prod.splits option.splits)
  obtain h where h: "htlc_get (htlcs ch) ?i owner = Some h" "irrevocable h"
    "ch1 = ch\<lparr>htlcs := htlc_put ?i owner (removing_htlc (h_r h) h) (htlcs ch)\<rparr>"
    by (rule channel_fail_htlc_ok [OF ch1])
  have "led_htlcs L (key_of p h) = Some (entry_of h)" using F htlc_get_Some(1) [OF h(1)] by (auto simp: tracks_def)
  moreover have "e_pos e \<le> 4 \<longrightarrow> e_r e = None" if "led_htlcs L k = Some e" for k e using F that unfolding tracks_def by blast
  ultimately have r: "h_r h = None" using h(2) by (fastforce simp: entry_of_def irrevocable_def)
  let ?h = "(removing_htlc None h)\<lparr>h_failed := Some f\<rparr>"
  have removing: "htlc_owner (removing_htlc None h) = owner" "h_id (removing_htlc None h) = ?i"
    using htlc_get_Some [OF h(1)] by (simp, simp add: removing_htlc_def)
  then have h': "htlc_owner ?h = owner" "h_id ?h = ?i" by (simp_all add: htlc_owner_def)
  have e: "entry_of ?h = (entry_of h)\<lparr>e_pos := 5, e_r := None\<rparr>"
    using removing_htlc_simps [of None h] by (simp add: entry_of_def hpos_def) (simp add: removing_htlc_def)
  have ch': "ch' = ch\<lparr>htlcs := htlc_put ?i owner ?h (htlcs ch)\<rparr>"
    using run ch1 h removing by (simp add: fail_htlc_with_def channel_get_htlc_def r htlc_put_get)
  note T = tracks_remove [OF conjunct1 [OF F] h(1,2) e h']
  show "follows D p ch' (deal_app D (other (abs_side p owner)) (Remove ?i None) L)" using T(1) F ch' by simp
  show "ledger_fits sha pt (other (abs_side p owner)) (Remove ?i None) L" using T(2,3) by simp
  show "\<exists>h. channel_get_htlc ch' owner ?i = Some h \<and> h_failed h = Some f \<and> h_id h = ?i"
    using htlc_put_get(1) [OF h'(2,1)] h(1) ch' h'(2) by (simp add: channel_get_htlc_def)
qed

lemma good_removed:
  assumes ok: "net_ok D N l" and F: "follows D p ch' (deal_app D p (Remove hid r) (copy l p))"
    and fit: "ledger_fits (deal_sha D) (deal_point_of D) p (Remove hid r) (copy l p)"
    and h: "channel_get_htlc ch' REMOTE hid = Some h" "send_fail_or_fulfill h = Inr msg" "stands_for msg (Remove hid r)"
  shows "keeps (good D) p N (removed_htlc (daemon N p) (CHANNEL_ERR_REMOVE_OK, ch') hid)"
  unfolding keeps_def
proof (intro allI impI)
  fix y outs assume run: "removed_htlc (daemon N p) (CHANNEL_ERR_REMOVE_OK, ch') hid = Some (Inr (y, outs))"
  have y: "y = start_commit_timer ((daemon N p)\<lparr>peer_channel := ch'\<rparr>)" "to_peer outs = [msg]"
    using run h by (auto simp: removed_htlc_def)
  have "may_send (deal_sha D) (deal_point_of D) (deal_opener D) l p (htlc_id y) (Remove hid r)"
    using ok fit unfolding net_ok_def by (intro may_send_plain(3)) auto
  moreover have "follows D p (peer_channel y) (deal_app D p (Remove hid r) (copy l p))" using F y by (simp add: start_commit_timer_def)
  moreover have "same_turn (daemon N p) y" "htlc_id (daemon N p) \<le> htlc_id y" using y(1) by (simp_all add: same_turn_def start_commit_timer_def)
  ultimately have "net_ok D (put_out p (y, outs) N) (link_send (deal_app D) p (Remove hid r) l)"
    using y(2) h(3) by (intro net_ok_send [OF ok, where m = msg]) blast+
  then show "good D (put_out p (y, outs) N)" by (auto simp: good_def)
qed

lemma net_ok_follows: "net_ok D N l \<Longrightarrow> follows D p (peer_channel (daemon N p)) (copy l p)"
  by (simp add: net_ok_def ledger_ok_def)

lemma good_preimage:
  assumes "good D N" "keyed D"
  shows "keeps (good D) p N (handle_preimage (deal_env D p) (daemon N p) f)"
proof -
  obtain l where ok: "net_ok D N l" using assms by (auto simp: good_def)
  have env: "sha256 (env_crypto (deal_env D p)) = deal_sha D" "point_of (deal_env D p) = deal_point_of D" using assms(2) by (auto simp: keyed_def)
  obtain e ch' where r: "channel_fulfill_htlc (deal_sha D) (deal_point_of D) (peer_channel (daemon N p)) REMOTE (fulfilled_id f)
      (payment_preimage f) = (e, ch')" by fastforce
  show ?thesis
  proof (cases "e = CHANNEL_ERR_REMOVE_OK")
    case True
    note R = fulfilled [OF net_ok_follows [OF ok] r [unfolded True]]
    obtain h where "channel_get_htlc ch' REMOTE (fulfilled_id f) = Some h" "h_failed h = None" "h_r h = Some (payment_preimage f)"
      "h_id h = fulfilled_id f" using R(3) by blast
    with good_removed [OF ok, where ch' = ch' and r = "Some (payment_preimage f)"] R(1,2) show ?thesis
      by (simp add: handle_preimage_def env r True send_fail_or_fulfill_def)
  qed (simp add: handle_preimage_def env r removed_htlc_def)
qed

lemma good_fail:
  assumes "good D N"
  shows "keeps (good D) p N (handle_fail (daemon N p) f)"
proof -
  obtain l where ok: "net_ok D N l" using assms by (auto simp: good_def)
  obtain e ch' where r: "fail_htlc_with (peer_channel (daemon N p)) REMOTE f = (e, ch')" by fastforce
  show ?thesis
  proof (cases "e = CHANNEL_ERR_REMOVE_OK")
    case True
    note R = failed_with [OF net_ok_follows [OF ok] r [unfolded True]]
    obtain h where "channel_get_htlc ch' REMOTE (failed_id f) = Some h" "h_failed h = Some f" "h_id h = failed_id f" using R(3) by blast
    with good_removed [OF ok, where ch' = ch' and r = None] R(1,2) show ?thesis
      by (cases "sha256_of_onion f") (simp_all add: handle_fail_def r True send_fail_or_fulfill_def)
  qed (simp add: handle_fail_def r removed_htlc_def)
qed

text \<open>What the peer removes.\<close>

lemma good_recv:
  assumes "net_ok D N l" "mail N p = m # ms" "wire l p = u # us" "stands_for m u" "\<not> is_commit m" "\<not> is_revoke m"
    and "follows D (other p) (peer_channel y) (deal_app D p u (copy l (other p)))" "same_turn (daemon N (other p)) y"
      "htlc_id y = htlc_id (daemon N (other p))" "outs = []"
  shows "good D (put_out (other p) (y, outs) (N\<lparr>mail := (mail N)(p := ms)\<rparr>))"
  unfolding good_def using net_ok_recv [OF assms(1-6) _ assms(8,9,7), of outs] assms(10) by auto

lemma good_peer_fulfill:
  assumes "good D N" "mail N p = UPDATE_FULFILL_HTLC hid r # ms"
    and run: "handle_peer_fulfill_htlc env (daemon N (other p)) hid r = Some (Inr (y, outs))"
  shows "good D (put_out (other p) (y, outs) (N\<lparr>mail := (mail N)(p := ms)\<rparr>))"
proof -
  obtain l where ok: "net_ok D N l" using assms by (auto simp: good_def)
  obtain u us where u: "wire l p = u # us" "u = Remove hid (Some r)" by (rule recv_ready [OF ok assms(2)]) auto
  obtain ch' where ch': "channel_fulfill_htlc (sha256 (env_crypto env)) (point_of env) (peer_channel (daemon N (other p))) LOCAL hid r
      = (CHANNEL_ERR_REMOVE_OK, ch')" and y: "y = start_commit_timer ((daemon N (other p))\<lparr>peer_channel := ch'\<rparr>)" "outs = []"
    using run by (auto simp: handle_peer_fulfill_htlc_def split: prod.splits if_splits)
  show ?thesis
    using fulfilled(1) [OF net_ok_follows [OF ok] ch'] u y
    by (intro good_recv [OF ok assms(2) u(1)]) (auto simp: same_turn_def start_commit_timer_def)
qed

lemma good_peer_fails:
  assumes "good D N" "mail N p = m # ms" "stands_for m = (\<lambda>u. u = Remove (failed_id f) None)"
    and run: "peer_fails_htlc (daemon N (other p)) f = Some (Inr (y, outs))"
  shows "good D (put_out (other p) (y, outs) (N\<lparr>mail := (mail N)(p := ms)\<rparr>))"
proof -
  obtain l where ok: "net_ok D N l" using assms by (auto simp: good_def)
  have m: "is_update m" "\<not> is_commit m" "\<not> is_revoke m" using assms(3) by (cases m; auto simp: is_update_def fun_eq_iff)+
  obtain u us where u: "wire l p = u # us" "u = Remove (failed_id f) None" by (rule recv_ready [OF ok assms(2) m(1)]) (auto simp: assms(3))
  obtain ch' where ch': "fail_htlc_with (peer_channel (daemon N (other p))) LOCAL f = (CHANNEL_ERR_REMOVE_OK, ch')"
    and y: "y = start_commit_timer ((daemon N (other p))\<lparr>peer_channel := ch'\<rparr>)" "outs = []"
    using run by (auto simp: peer_fails_htlc_def split: prod.splits if_splits)
  show ?thesis
    using failed_with(1) [OF net_ok_follows [OF ok] ch'] u y m assms(3)
    by (intro good_recv [OF ok assms(2) u(1)]) (auto simp: same_turn_def start_commit_timer_def)
qed

section \<open>Feerates and blockheights\<close>

lemma opener_is:
  "follows D p ch L \<Longrightarrow> opener ch = LOCAL \<longleftrightarrow> p = deal_opener D"
  "follows D p ch L \<Longrightarrow> opener ch = REMOTE \<longleftrightarrow> other p = deal_opener D"
  by (cases "opener ch"; auto simp: tracks_def)+

lemma follows_fee:
  assumes "follows D p ch L" "channel_update_feerate cp ch rate = Some (True, ch')"
  shows "follows D p ch' (deal_app D (deal_opener D) (Fee rate) L)"
  using assms channel_update_feerate_result [OF assms(2)] tracks_fee by auto

lemma follows_height:
  assumes "follows D p ch L" "channel_update_blockheight ch v = Some ch'"
  shows "follows D p ch' (deal_app D (deal_opener D) (Height v) L)"
  using assms tracks_height by (fastforce simp: channel_update_blockheight_def bind_eq_Some_conv)

lemma good_peer_fee:
  assumes "good D N" "mail N p = UPDATE_FEE rate # ms"
    and run: "handle_peer_feechange env (daemon N (other p)) rate = Some (Inr (y, outs))"
  shows "good D (put_out (other p) (y, outs) (N\<lparr>mail := (mail N)(p := ms)\<rparr>))"
proof -
  obtain l where ok: "net_ok D N l" using assms by (auto simp: good_def)
  obtain u us where u: "wire l p = u # us" "u = Fee rate" by (rule recv_ready [OF ok assms(2)]) auto
  obtain ch' where ch': "channel_update_feerate (env_chainparams env) (peer_channel (daemon N (other p))) rate = Some (True, ch')"
    and y: "y = (daemon N (other p))\<lparr>peer_channel := ch'\<rparr>" "outs = []" and opn: "opener (peer_channel (daemon N (other p))) = REMOTE"
    using run by (auto simp: handle_peer_feechange_def Let_def split: if_splits option.splits bool.splits)
  have "deal_opener D = p" using opener_is(2) [OF net_ok_follows [OF ok]] opn by simp
  then show ?thesis
    using follows_fee [OF net_ok_follows [OF ok] ch'] u y by (intro good_recv [OF ok assms(2) u(1)]) (auto simp: same_turn_def)
qed

lemma good_peer_height:
  assumes "good D N" "mail N p = UPDATE_BLOCKHEIGHT b # ms"
    and run: "handle_peer_blockheight_change (daemon N (other p)) b = Some (Inr (y, outs))"
  shows "good D (put_out (other p) (y, outs) (N\<lparr>mail := (mail N)(p := ms)\<rparr>))"
proof -
  obtain l where ok: "net_ok D N l" using assms by (auto simp: good_def)
  obtain u us where u: "wire l p = u # us" "u = Height b" by (rule recv_ready [OF ok assms(2)]) auto
  obtain ch' where ch': "channel_update_blockheight (peer_channel (daemon N (other p))) b = Some ch'"
    and y: "y = (daemon N (other p))\<lparr>peer_channel := ch'\<rparr>" "outs = []" and opn: "opener (peer_channel (daemon N (other p))) = REMOTE"
    using run by (auto simp: handle_peer_blockheight_change_def Let_def split: if_splits option.splits)
  have "deal_opener D = p" using opener_is(2) [OF net_ok_follows [OF ok]] opn by simp
  then show ?thesis
    using follows_height [OF net_ok_follows [OF ok] ch'] u y by (intro good_recv [OF ok assms(2) u(1)]) (auto simp: same_turn_def)
qed

text \<open>The system is good, and \<open>p\<close> stands where \<open>x\<close> stood.\<close>

definition good_at :: "deal \<Rightarrow> side \<Rightarrow> peer \<Rightarrow> net \<Rightarrow> bool" where
  "good_at D p x N \<longleftrightarrow> good D N \<and> same_turn x (daemon N p)"

lemma same_turn_trans: "same_turn x y \<Longrightarrow> same_turn y z \<Longrightarrow> same_turn x z"
  by (simp add: same_turn_def)

lemma good_at_opener:
  assumes good: "good_at D p x N" and opn: "opener (peer_channel (daemon N p)) = LOCAL"
    and y: "y = (daemon N p)\<lparr>peer_channel := ch'\<rparr>" "to_peer outs = [m]" "stands_for m u" "u = Fee v \<or> u = Height v"
    and F: "\<And>L. follows D p (peer_channel (daemon N p)) L \<Longrightarrow> follows D p ch' (deal_app D (deal_opener D) u L)"
  shows "good_at D p x (put_out p (y, outs) N)"
proof -
  obtain l where ok: "net_ok D N l" using good by (auto simp: good_at_def good_def)
  have p: "p = deal_opener D" using opener_is(1) [OF net_ok_follows [OF ok]] opn by simp
  have "may_send (deal_sha D) (deal_point_of D) (deal_opener D) l p k u" for k
    using y(4) may_send_plain(1,2) [OF conjunct1 [OF ok [unfolded net_ok_def]]] p by auto
  moreover have "follows D p (peer_channel y) (deal_app D p u (copy l p))" using F [OF net_ok_follows [OF ok]] p y(1) by simp
  moreover have "\<And>c. u \<noteq> Commit c" "u \<noteq> Revoke" using y(4) by auto
  moreover have "same_turn (daemon N p) y" "htlc_id (daemon N p) \<le> htlc_id y" using y(1) by (simp_all add: same_turn_def)
  ultimately have "net_ok D (put_out p (y, outs) N) (link_send (deal_app D) p u l)"
    using y by (intro net_ok_send [OF ok, where m = m]) blast+
  then show ?thesis using good y(1) by (auto simp: good_at_def good_def same_turn_def)
qed

lemma good_at_refl: "good_at D p x N \<Longrightarrow> keeps (good_at D p x) p N (done_with (daemon N p) [])"
  by (simp add: keeps_def put_out_def)

lemma send_fee_update_result:
  assumes "send_fee_update env x = Some (Inr (y, outs))"
  shows "(y = x \<and> outs = []) \<or>
    (\<exists>v ch'. opener (peer_channel x) = LOCAL \<and> channel_update_feerate (env_chainparams env) (peer_channel x) v = Some (True, ch')
       \<and> y = x\<lparr>peer_channel := ch'\<rparr> \<and> outs = [To_Peer (UPDATE_FEE v)])"
proof -
  obtain t where t: "want_fee_update env x = Some t" using assms by (auto simp: send_fee_update_def Let_def split: option.splits)
  show ?thesis
  proof (cases t)
    case None
    with t assms show ?thesis by (simp add: send_fee_update_def Let_def)
  next
    case (Some v)
    then have "opener (peer_channel x) = LOCAL" using t by (simp add: want_fee_update_def Let_def split: if_splits)
    then show ?thesis using t Some assms by (simp add: send_fee_update_def Let_def split: option.splits if_splits prod.splits) blast+
  qed
qed

lemma send_blockheight_update_result:
  assumes "send_blockheight_update x = Some (Inr (y, outs))"
  shows "(y = x \<and> outs = []) \<or>
    (\<exists>b ch'. opener (peer_channel x) = LOCAL \<and> channel_update_blockheight (peer_channel x) b = Some ch'
       \<and> y = x\<lparr>peer_channel := ch'\<rparr> \<and> outs = [To_Peer (UPDATE_BLOCKHEIGHT b)])"
proof -
  obtain t where t: "want_blockheight_update x = Some t"
    using assms by (auto simp: send_blockheight_update_def Let_def split: option.splits)
  show ?thesis
  proof (cases t)
    case None
    with t assms show ?thesis by (simp add: send_blockheight_update_def Let_def)
  next
    case (Some v)
    then have "opener (peer_channel x) = LOCAL" using t by (simp add: want_blockheight_update_def Let_def split: if_splits)
    then show ?thesis using t Some assms by (simp add: send_blockheight_update_def Let_def split: option.splits if_splits) blast+
  qed
qed

lemma good_send_fee:
  assumes "good_at D p x N"
  shows "keeps (good_at D p x) p N (send_fee_update env (daemon N p))"
  unfolding keeps_def
proof (intro allI impI)
  fix y outs assume run: "send_fee_update env (daemon N p) = Some (Inr (y, outs))"
  show "good_at D p x (put_out p (y, outs) N)"
    using send_fee_update_result [OF run]
  proof (elim disjE exE conjE)
    assume "y = daemon N p" "outs = []"
    then show ?thesis using good_at_refl [OF assms] by (simp add: keeps_def)
  next
    fix v ch' assume s: "opener (peer_channel (daemon N p)) = LOCAL" "channel_update_feerate (env_chainparams env) (peer_channel (daemon N p)) v = Some (True, ch')"
      "y = (daemon N p)\<lparr>peer_channel := ch'\<rparr>" "outs = [To_Peer (UPDATE_FEE v)]"
    show ?thesis
      by (rule good_at_opener [OF assms s(1,3) _ _ _ follows_fee [OF _ s(2)], where m = "UPDATE_FEE v"]) (simp_all add: s(4))
  qed
qed

lemma good_send_height:
  assumes "good_at D p x N"
  shows "keeps (good_at D p x) p N (send_blockheight_update (daemon N p))"
  unfolding keeps_def
proof (intro allI impI)
  fix y outs assume run: "send_blockheight_update (daemon N p) = Some (Inr (y, outs))"
  show "good_at D p x (put_out p (y, outs) N)"
    using send_blockheight_update_result [OF run]
  proof (elim disjE exE conjE)
    assume "y = daemon N p" "outs = []"
    then show ?thesis using good_at_refl [OF assms] by (simp add: keeps_def)
  next
    fix v ch' assume s: "opener (peer_channel (daemon N p)) = LOCAL" "channel_update_blockheight (peer_channel (daemon N p)) v = Some ch'"
      "y = (daemon N p)\<lparr>peer_channel := ch'\<rparr>" "outs = [To_Peer (UPDATE_BLOCKHEIGHT v)]"
    show ?thesis
      by (rule good_at_opener [OF assms s(1,3) _ _ _ follows_height [OF _ s(2)], where m = "UPDATE_BLOCKHEIGHT v"]) (simp_all add: s(4))
  qed
qed

section \<open>Commitments and revocations\<close>

text \<open>The messages on their way and the updates on their way say the same.\<close>

lemma mail_kinds:
  assumes "list_all2 stands_for (filter is_update ms) us"
  shows "filter is_commit ms = [] \<Longrightarrow> Commit c \<notin> set us" "filter is_revoke ms = [] \<Longrightarrow> Revoke \<notin> set us"
proof -
  have "\<exists>m \<in> set ms. stands_for m u" if "u \<in> set us" for u
    using that assms by (metis filter_is_subset in_mono list_all2_conv_all_nth in_set_conv_nth nth_mem)
  moreover have "is_commit m" if "stands_for m (Commit c)" for m using that by (cases m) auto
  moreover have "is_revoke m" if "stands_for m Revoke" for m using that by (cases m) auto
  ultimately show "filter is_commit ms = [] \<Longrightarrow> Commit c \<notin> set us" "filter is_revoke ms = [] \<Longrightarrow> Revoke \<notin> set us"
    by (metis filter_empty_conv)+
qed

lemma net_ok_mail: "net_ok D N l \<Longrightarrow> list_all2 stands_for (filter is_update (mail N p)) (wire l p)"
  by (simp add: net_ok_def ledger_ok_def)

lemma net_ok_commits: "net_ok D N l \<Longrightarrow> filter is_commit (mail N p) = [] \<Longrightarrow> commits l p = {}"
  using mail_kinds(1) [OF net_ok_mail] by (auto simp: commits_def)

text \<open>What a signer and a revoker must keep for the other direction.\<close>

lemma turn_keep:
  assumes "turn points secrets ok x y cs rs"
    and "next_index x' REMOTE = next_index x REMOTE" "revocations_received x' = revocations_received x"
      "remote_per_commit x' = remote_per_commit x" "old_remote_per_commit x' = old_remote_per_commit x"
      "next_index y' LOCAL = next_index y LOCAL"
  shows "turn points secrets ok x' y' cs rs"
  using assms by (elim turn.cases) (simp_all add: turn.simps)

lemma turn_not_waiting:
  "turn points secrets ok x y cs rs \<Longrightarrow> revocations_received x = next_index x REMOTE - 1 \<Longrightarrow>
     cs = [] \<and> rs = [] \<and> next_index x REMOTE = next_index y LOCAL \<and> remote_per_commit x = points (next_index x REMOTE)
     \<and> old_remote_per_commit x = points (next_index x REMOTE - 1)"
  by (elim turn.cases) auto

lemma net_ok_commit:
  assumes ok: "net_ok D N l" and turn: "revocations_received (daemon N p) = next_index (daemon N p) REMOTE - 1"
    and ch: "channel_sending_commit (peer_channel (daemon N p)) = Some (b, ch', hs)"
    and c: "c = commitment_of (deal_opener D) (other p) (deal_app D p (Commit c) (copy l p))"
    and y: "peer_channel y = ch'" "htlc_id y = htlc_id (daemon N p)"
      "next_index y = (next_index (daemon N p))(REMOTE := next_index (daemon N p) REMOTE + 1)"
      "revocations_received y = revocations_received (daemon N p)" "remote_per_commit y = remote_per_commit (daemon N p)"
      "old_remote_per_commit y = old_remote_per_commit (daemon N p)" "next_local_per_commit y = next_local_per_commit (daemon N p)"
    and m: "to_peer outs = [m]" "is_commit m" "signed D p (next_index (daemon N p) REMOTE) (remote_per_commit (daemon N p)) m c"
  shows "net_ok D (put_out p (y, outs) N) (link_send (deal_app D) p (Commit c) l)"
proof -
  let ?N = "put_out p (y, outs) N" and ?l = "link_send (deal_app D) p (Commit c) l"
  have stands: "stands_for m (Commit c)" and kinds: "\<not> is_revoke m" using m(2) by (cases m; simp)+
  have turns: "turn_ok D N l q" for q using ok by (simp add: net_ok_def)
  note idle = turn_not_waiting [OF conjunct2 [OF turns [of p, unfolded turn_ok_def]] turn]
  have none: "commits l p = {}" "Revoke \<notin> set (wire l (other p))"
    using net_ok_commits [OF ok] mail_kinds(2) [OF net_ok_mail [OF ok]] idle by blast+
  have "follows D p ch' (deal_app D p (Commit c) (copy l p))"
    using tracks_sending_commit [OF _ ch] static_events(1) [OF ch] net_ok_follows [OF ok] by (simp del: ledger_app.simps)
  moreover have "may_send (deal_sha D) (deal_point_of D) (deal_opener D) l p (htlc_id y) (Commit c)"
    using may_send_commit(1) [OF none(2)] c by metis
  ultimately have ledger: "ledger_ok (deal_sha D) (deal_point_of D) (deal_static D) (deal_opener D) (deal_lanes D) (deal_start D)
      (\<lambda>q. peer_channel (daemon ?N q)) (mail ?N) (\<lambda>q. htlc_id (daemon ?N q)) ?l"
    using ok y(1,2) m(1) stands unfolding net_ok_def
    by - (rule ledger_ok_send [of _ _ _ _ _ _ "\<lambda>q. peer_channel (daemon N q)" "mail N"], auto simp del: ledger_app.simps)
  have "commits ?l p = {c}" using none(1) by (auto simp: commits_def link_send_def)
  then have sig: "\<forall>d \<in> commits ?l p. signed D p (next_index y REMOTE - 1) (remote_per_commit y) m d" using m(3) y(3,5) by simp
  have "turn (deal_points D (other p)) (\<lambda>i. fst (revoke_commitment (deal_env D (other p)) i))
      (\<lambda>idx point m. \<forall>d \<in> commits ?l p. signed D p idx point m d) y (daemon N (other p)) [m] []"
    using idle turn by (intro turn.signed sig) (simp_all add: y(3-6))
  moreover have "filter is_commit (mail ?N p) = [m]" "filter is_revoke (mail ?N (other p)) = []" using idle m(1,2) by simp_all
  moreover have "next_local_per_commit y = deal_points D p (next_index y LOCAL)" using turns [of p] y(3,7) by (simp add: turn_ok_def)
  ultimately have this_way: "turn_ok D ?N ?l p" by (simp add: turn_ok_def)
  have "commits ?l (other p) = commits l (other p)" by (simp add: commits_def link_send_def)
  then have "turn_ok D ?N ?l (other p)"
    using turns [of "other p"] y kinds m(1) unfolding turn_ok_def by (auto intro: turn_keep)
  then have "turn_ok D ?N ?l q" for q using this_way by (cases "q = p") (auto simp: neq_side_iff)
  then show ?thesis using ledger by (simp add: net_ok_def)
qed

lemma quiet_and_then:
  assumes "quiet x m" "\<And>y. quiet y (f y)"
  shows "quiet x (and_then m f)"
  unfolding quiet_def
proof (intro allI impI)
  fix z outs assume "and_then m f = Some (Inr (z, outs))"
  then obtain y a b where r: "m = Some (Inr (y, a))" "f y = Some (Inr (z, b))" "outs = a @ b" by (auto simp: and_then_result)
  from assms(1) r(1) have "same_turn x y \<and> htlc_id y = htlc_id x \<and> peer_channel y = peer_channel x \<and> (\<forall>m \<in> set (to_peer a). \<not> is_update m)"
    by (simp add: quiet_def)
  moreover from assms(2) [of y] r(2) have "same_turn y z \<and> htlc_id z = htlc_id y \<and> peer_channel z = peer_channel y \<and> (\<forall>m \<in> set (to_peer b). \<not> is_update m)"
    by (simp add: quiet_def)
  ultimately show "same_turn x z \<and> htlc_id z = htlc_id x \<and> peer_channel z = peer_channel x \<and> (\<forall>m \<in> set (to_peer outs). \<not> is_update m)"
    using r(3) same_turn_trans by auto
qed

lemma quiet_timer: "quiet x (done_with (x\<lparr>commit_timer := b\<rparr>) [])" "quiet x (done_with (start_commit_timer x) [])"
  by (auto simp: quiet_def same_turn_def start_commit_timer_def)

text \<open>The message that \<^verbatim>\<open>send_commit_part\<close> makes carries the signatures on the peer's commitment.\<close>

lemma send_commit_part_signature:
  assumes run: "send_commit_part env x changed idx = Some (Inr ((y, m), outs))" and swap: "chan_swap (peer_channel x) = None"
  shows "is_commit m \<and> to_peer outs = [] \<and> same_turn x y \<and> htlc_id y = htlc_id x \<and> peer_channel y = peer_channel x
     \<and> signature_on env (peer_channel x) idx (remote_per_commit x) m"
proof (cases "channel_has (peer_channel x) OPT_SEQ_SYMMETRIC")
  case True
  then obtain st where st: "sym_channeld_state (env_crypto env) (peer_channel x) REMOTE idx = Some st"
    using run by (auto simp: send_commit_part_def Let_def split: option.splits)
  then have "\<exists>st. y = dec_disable_commit (x\<lparr>sym_remote_pending := Some st\<rparr>)" "to_peer outs = []"
    "\<exists>s. m = COMMITMENT_SIGNED s [] (Some (sym_sign env (peer_channel x) st)) None"
    using run True swap by (auto simp: send_commit_part_def Let_def)
  then show ?thesis using True st by (auto simp: signature_on_def same_turn_def dec_disable_commit_def)
next
  case False
  then have "y = dec_disable_commit x" "to_peer outs = []"
    "m = COMMITMENT_SIGNED (fst (commit_sigs env (peer_channel x) idx (remote_per_commit x)))
       (snd (commit_sigs env (peer_channel x) idx (remote_per_commit x))) None None"
    using run by (auto simp: send_commit_part_def Let_def split: prod.splits)
  then show ?thesis using False by (auto simp: signature_on_def same_turn_def dec_disable_commit_def)
qed

lemma send_commit_part_signed:
  assumes run: "send_commit_part (deal_env D p) x changed idx = Some (Inr ((y, m), outs))"
    and F: "follows D p (peer_channel x) L"
  shows "is_commit m \<and> to_peer outs = [] \<and> same_turn x y \<and> htlc_id y = htlc_id x \<and> peer_channel y = peer_channel x
     \<and> signed D p idx (remote_per_commit x) m (commitment_of (deal_opener D) (other p) L)"
proof -
  have "seen_commitment p REMOTE (peer_channel x)
      = seen_of (deal_lanes D) (deal_start D) (commitment_of (deal_opener D) (other p) L)"
    using seen_tracks [OF conjunct1 [OF F], of REMOTE] by simp
  moreover have "chan_swap (peer_channel x) = None" using F by (simp add: tracks_def)
  ultimately show ?thesis using send_commit_part_signature [OF run] F by (auto simp: signed_def)
qed

lemma good_commit_now:
  assumes good: "good D N" and turn: "revocations_received (daemon N p) = next_index (daemon N p) REMOTE - 1"
  shows "keeps (good D) p N (commit_now (deal_env D p) (daemon N p))"
proof (cases "channel_sending_commit (peer_channel (daemon N p))")
  case None
  then show ?thesis by (simp add: commit_now_def)
next
  case (Some r)
  obtain change ch' hs where ch: "channel_sending_commit (peer_channel (daemon N p)) = Some (change, ch', hs)"
    using Some by (cases r) auto
  obtain l where ok: "net_ok D N l" using good by (auto simp: good_def)
  let ?x = "(daemon N p)\<lparr>peer_channel := ch'\<rparr>"
  have static: "static ch' = static (peer_channel (daemon N p))" using static_events(1) [OF ch] .
  show ?thesis
  proof (cases change)
    case False
    have idle: "follows D p (peer_channel (daemon N p)) L \<Longrightarrow> follows D p ch' L" for L
      using tracks_idle_commit ch False static by auto
    have q: "quiet ?x (and_then (maybe_send_shutdown ?x) (\<lambda>p2. done_with (p2\<lparr>commit_timer := False\<rparr>) []))"
      by (intro quiet_and_then quiet_shutdowns quiet_timer)
    have "net_ok D (put_out p (y, outs) N) l"
      if "and_then (maybe_send_shutdown ?x) (\<lambda>p2. done_with (p2\<lparr>commit_timer := False\<rparr>) []) = Some (Inr (y, outs))" for y outs
      using q that idle by (intro net_ok_quiet [OF ok]) (auto simp: quiet_def same_turn_def)
    then show ?thesis using ch False by (auto simp: commit_now_def keeps_def good_def)
  next
    case True
    define c where "c = commitment_of (deal_opener D) (other p) (deal_app D p (Commit (commitment_of (deal_opener D) p (copy l p))) (copy l p))"
    have c: "c = commitment_of (deal_opener D) (other p) (deal_app D p (Commit c) (copy l p))" by (simp add: c_def)
    have F: "follows D p ch' (deal_app D p (Commit c) (copy l p))"
      using tracks_sending_commit [OF _ ch] static net_ok_follows [OF ok] by (simp del: ledger_app.simps)
    let ?send = "and_then (send_commit_part (deal_env D p) ?x hs (next_index ?x REMOTE)) (\<lambda>(p2, msg).
       done_with (p2\<lparr>next_index := (next_index p2)(REMOTE := next_index p2 REMOTE + 1)\<rparr>) [To_Peer msg])"
    have sent: "keeps (good D) p N ?send"
      unfolding keeps_def
    proof (intro allI impI)
      fix y outs assume "?send = Some (Inr (y, outs))"
      then obtain p2 m a where r: "send_commit_part (deal_env D p) ?x hs (next_index ?x REMOTE) = Some (Inr ((p2, m), a))"
        "y = p2\<lparr>next_index := (next_index p2)(REMOTE := next_index p2 REMOTE + 1)\<rparr>" "outs = a @ [To_Peer m]"
        by (auto simp: and_then_result)
      have s: "is_commit m" "to_peer a = []" "same_turn ?x p2" "htlc_id p2 = htlc_id ?x" "peer_channel p2 = ch'"
        "signed D p (next_index ?x REMOTE) (remote_per_commit ?x) m c"
        using send_commit_part_signed [OF r(1), of "deal_app D p (Commit c) (copy l p)"] F c by (simp_all del: ledger_app.simps)
      have "net_ok D (put_out p (y, outs) N) (link_send (deal_app D) p (Commit c) l)"
        using s r(2,3) by (intro net_ok_commit [OF ok turn ch c, where m = m]) (simp_all add: same_turn_def)
      then show "good D (put_out p (y, outs) N)" by (auto simp: good_def)
    qed
    have "keeps (good D) p N (and_then ?send (\<lambda>p3. and_then (maybe_send_shutdown p3) (\<lambda>p4. done_with (start_commit_timer p4) [])))"
      using sent by (rule keeps_and_then) (intro good_quiet quiet_and_then quiet_shutdowns quiet_timer)
    moreover have "commit_now (deal_env D p) (daemon N p) =
        and_then ?send (\<lambda>p3. and_then (maybe_send_shutdown p3) (\<lambda>p4. done_with (start_commit_timer p4) []))"
      using ch True by (auto simp: commit_now_def Let_def and_then_def done_with_def split: option.splits sum.splits)
    ultimately show ?thesis by simp
  qed
qed

lemma good_send_commit:
  assumes "good D N"
  shows "keeps (good D) p N (send_commit (deal_env D p) (daemon N p))"
proof -
  let ?x = "daemon N p"
  have idle: "keeps (good D) p N (done_with (?x\<lparr>commit_timer := False\<rparr>) [])"
    using assms by (intro good_quiet quiet_timer)
  have run: "keeps (good D) p N (and_then (send_fee_update (deal_env D p) ?x) (\<lambda>p1. and_then (send_blockheight_update p1) (commit_now (deal_env D p))))"
    if turn: "revocations_received ?x = next_index ?x REMOTE - 1"
  proof (rule keeps_and_then [where I = "good_at D p ?x"])
    show "keeps (good_at D p ?x) p N (send_fee_update (deal_env D p) ?x)"
      using assms by (intro good_send_fee) (simp add: good_at_def)
    show "keeps (good D) p N' (and_then (send_blockheight_update (daemon N' p)) (commit_now (deal_env D p)))" if g: "good_at D p ?x N'" for N'
    proof (rule keeps_and_then [where I = "good_at D p ?x"])
      show "keeps (good_at D p ?x) p N' (send_blockheight_update (daemon N' p))" using g by (rule good_send_height)
      show "keeps (good D) p N2 (commit_now (deal_env D p) (daemon N2 p))" if "good_at D p ?x N2" for N2
        using that turn by (intro good_commit_now) (auto simp: good_at_def same_turn_def)
    qed
  qed
  show ?thesis
    using idle run unfolding send_commit_def Let_def by (simp split: option.split bool.split)
qed

lemma good_timer:
  assumes "good D N"
  shows "keeps (good D) p N (send_commit_if_not_stfu (deal_env D p) (daemon N p))"
proof (cases "stfu_sent (daemon N p) LOCAL")
  case True
  then show ?thesis using assms good_quiet quiet_timer(1) by (simp add: send_commit_if_not_stfu_def)
qed (simp add: send_commit_if_not_stfu_def good_send_commit assms)

text \<open>The state in between: \<open>q\<close> has taken a commitment and owes the revocation.\<close>

definition owes :: "deal \<Rightarrow> side \<Rightarrow> net \<Rightarrow> (ledger, update) link \<Rightarrow> bool" where
  "owes D q N l \<longleftrightarrow>
     ledger_ok (deal_sha D) (deal_point_of D) (deal_static D) (deal_opener D) (deal_lanes D) (deal_start D)
       (\<lambda>p. peer_channel (daemon N p)) (mail N) (\<lambda>p. htlc_id (daemon N p)) l
   \<and> turn_ok D N l q
   \<and> (let x = daemon N (other q); i = next_index x REMOTE in
      next_local_per_commit x = deal_points D (other q) (next_index x LOCAL)
      \<and> revocations_received x = i - 2 \<and> i = next_index (daemon N q) LOCAL + 1
      \<and> remote_per_commit x = deal_points D q (i - 1) \<and> old_remote_per_commit x = deal_points D q (i - 2))
   \<and> filter is_commit (mail N (other q)) = [] \<and> filter is_revoke (mail N q) = []"

lemma turn_signed_cases:
  assumes "turn points secrets ok x y (m # ms) rs"
  shows "ms = [] \<and> rs = [] \<and> revocations_received x = next_index x REMOTE - 2 \<and> next_index x REMOTE = next_index y LOCAL + 1
    \<and> remote_per_commit x = points (next_index x REMOTE - 1) \<and> old_remote_per_commit x = points (next_index x REMOTE - 2)
    \<and> ok (next_index x REMOTE - 1) (remote_per_commit x) m"
  using assms by (cases rule: turn.cases) auto

lemma take_commit:
  assumes ok: "net_ok D N l" and head: "mail N p = m # ms" "is_commit m"
    and ch: "channel_rcvd_commit (peer_channel (daemon N (other p))) = Some (b, ch', hs)"
    and y: "same_turn (daemon N (other p)) y" "htlc_id y = htlc_id (daemon N (other p))" "peer_channel y = ch'" "to_peer outs = []"
  shows "owes D (other p) (put_out (other p) (y, outs) (N\<lparr>mail := (mail N)(p := ms)\<rparr>)) (link_recv (deal_app D) p l)"
    and "\<exists>c. signed D p (next_index y LOCAL) (next_local_per_commit y) m c
       \<and> seen_commitment (other p) LOCAL ch' = seen_of (deal_lanes D) (deal_start D) c"
proof -
  let ?N = "put_out (other p) (y, outs) (N\<lparr>mail := (mail N)(p := ms)\<rparr>)" and ?l = "link_recv (deal_app D) p l" and ?q = "other p"
  have m: "is_update m" "\<not> is_revoke m" using head(2) by (cases m; simp)+
  obtain u us where u: "wire l p = u # us" "stands_for m u" by (rule recv_ready [OF ok head(1) m(1)])
  then obtain c where c: "u = Commit c" using head(2) by (cases m) auto
  have "tracks ?q (deal_opener D) (deal_lanes D) (deal_start D) ch' (ledger_app (deal_opener D) (other ?q) (Commit c) (copy l ?q))"
    using net_ok_follows [OF ok, of ?q] by (intro tracks_rcvd_commit [OF _ ch]) simp
  then have F: "follows D ?q ch' (deal_app D p u (copy l ?q))"
    using net_ok_follows [OF ok, of ?q] static_events(2) [OF ch] by (simp add: c del: ledger_app.simps)
  have ids: "(\<lambda>q. htlc_id (daemon ?N q)) = (\<lambda>q. htlc_id (daemon N q))" using y(2) by auto
  have ledger: "ledger_ok (deal_sha D) (deal_point_of D) (deal_static D) (deal_opener D) (deal_lanes D) (deal_start D)
      (\<lambda>q. peer_channel (daemon ?N q)) (mail ?N) (\<lambda>q. htlc_id (daemon ?N q)) ?l"
    using ok F y(3,4) head(1) u(1) m(1) unfolding ids net_ok_def
    by - (rule ledger_ok_recv [of _ _ _ _ _ _ "\<lambda>q. peer_channel (daemon N q)" "mail N" _ _ p u us m ms], auto simp del: ledger_app.simps)
  have turns: "turn_ok D N l q" for q using ok by (simp add: net_ok_def)
  have cs: "filter is_commit (mail N p) = m # filter is_commit ms" using head by simp
  note sig = turn_signed_cases [OF conjunct2 [OF turns [of p, unfolded turn_ok_def cs]]]
  have "commits ?l ?q = commits l ?q" using u(1) by (simp add: commits_def link_recv_def)
  then have "turn_ok D ?N ?l ?q"
    using turns [of ?q] y(1,4) m(2) head(1) unfolding turn_ok_def same_turn_def by (auto intro: turn_keep)
  then show "owes D ?q ?N ?l"
    using ledger sig turns [of p] y(1,4) unfolding owes_def turn_ok_def same_turn_def Let_def by simp
  have "c \<in> commits l p" using u(1) c by (auto simp: commits_def)
  then have "signed D p (next_index (daemon N p) REMOTE - 1) (remote_per_commit (daemon N p)) m c" using sig by blast
  then have "signed D p (next_index y LOCAL) (next_local_per_commit y) m c"
    using sig turns [of ?q] y(1) by (simp add: turn_ok_def same_turn_def)
  moreover have "commitment_of (deal_opener D) ?q (deal_app D p u (copy l ?q)) = c"
  proof -
    have "parties.in_step (deal_opener D) (deal_sha D) (deal_point_of D) l" using ok by (simp add: net_ok_def ledger_ok_def)
    from parties.in_step_recv(2) [OF this u(1), of c] show ?thesis using u(1) by (simp add: c link_recv_def del: ledger_app.simps)
  qed
  then have "seen_commitment ?q LOCAL ch' = seen_of (deal_lanes D) (deal_start D) c"
    using seen_tracks [OF conjunct1 [OF F], of LOCAL] by (simp del: ledger_app.simps)
  ultimately show "\<exists>c. signed D p (next_index y LOCAL) (next_local_per_commit y) m c
       \<and> seen_commitment ?q LOCAL ch' = seen_of (deal_lanes D) (deal_start D) c" by blast
qed

lemma swap_done_none: "chan_swap ch = None \<Longrightarrow> channel_sym_swap_done ch = (False, ch)"
  by (simp add: channel_sym_swap_done_def)

lemma send_revocation_result:
  assumes "send_revocation env x changed sl = Some (Inr (y, outs))" "channel_sending_revoke_and_ack (peer_channel x) = Some (pending, ch')"
  defines "i \<equiv> next_index x LOCAL"
  shows "peer_channel y = snd (channel_sym_swap_done ch') \<and> htlc_id y = htlc_id x \<and> next_index y = (next_index x)(LOCAL := i + 1)
    \<and> revocations_received y = revocations_received x \<and> remote_per_commit y = remote_per_commit x
    \<and> old_remote_per_commit y = old_remote_per_commit x \<and> next_local_per_commit y = snd (revoke_commitment env (i - 1))
    \<and> (\<exists>us. to_peer outs = [REVOKE_AND_ACK (fst (revoke_commitment env (i - 1))) (snd (revoke_commitment env (i - 1))) us])"
proof -
  have i: "i + 1 - 2 = i - 1" by simp
  obtain ad ff fl cg where "marshall_htlc_info changed = Some (ad, ff, fl, cg)"
    using assms(1) by (cases "marshall_htlc_info changed") (auto simp: send_revocation_def)
  then show ?thesis
    using assms(1,2) unfolding i_def
    by (cases pending; cases "channel_sym_swap_done ch'"; cases "revoke_commitment env (next_index x LOCAL - 1)")
      (auto simp: send_revocation_def Let_def make_revocation_msg_def start_commit_timer_def)
qed

lemma good_revocation:
  assumes owes: "owes D q N l" and keyed: "keyed D"
  shows "keeps (good D) q N (send_revocation (deal_env D q) (daemon N q) changed sl)"
  unfolding keeps_def
proof (intro allI impI)
  let ?x = "daemon N q" and ?p = "other q"
  let ?i = "next_index ?x LOCAL"
  fix y outs assume run: "send_revocation (deal_env D q) ?x changed sl = Some (Inr (y, outs))"
  obtain pending ch' where ch: "channel_sending_revoke_and_ack (peer_channel ?x) = Some (pending, ch')"
    using run by (auto simp: send_revocation_def Let_def split: option.splits prod.splits)
  have F0: "follows D q (peer_channel ?x) (copy l q)" using owes by (simp add: owes_def ledger_ok_def)
  then have F: "follows D q ch' (deal_app D q Revoke (copy l q))"
    using tracks_sending_revoke [OF _ ch] static_events(4) [OF ch] by (simp del: ledger_app.simps)
  then have sw: "channel_sym_swap_done ch' = (False, ch')" by (intro swap_done_none) (simp add: tracks_def)
  obtain us where outs: "to_peer outs = [REVOKE_AND_ACK (fst (revoke_commitment (deal_env D q) (?i - 1))) (deal_points D q (?i + 1)) us]"
    and y: "peer_channel y = ch'" "htlc_id y = htlc_id ?x" "next_index y = (next_index ?x)(LOCAL := ?i + 1)"
      "revocations_received y = revocations_received ?x" "remote_per_commit y = remote_per_commit ?x"
      "old_remote_per_commit y = old_remote_per_commit ?x" "next_local_per_commit y = deal_points D q (?i + 1)"
    using send_revocation_result [OF run ch] sw keyed by (auto simp: keyed_def add.commute)
  let ?m = "REVOKE_AND_ACK (fst (revoke_commitment (deal_env D q) (?i - 1))) (deal_points D q (?i + 1)) us"
  let ?N = "put_out q (y, outs) N" and ?l = "link_send (deal_app D) q Revoke l"
  have mails: "list_all2 stands_for (filter is_update (mail N ?p)) (wire l ?p)" using owes by (simp add: owes_def ledger_ok_def)
  have "may_send (deal_sha D) (deal_point_of D) (deal_opener D) l q (htlc_id y) Revoke"
    using mail_kinds(1) [OF mails] owes by (intro may_send_commit(2)) (simp add: owes_def)
  then have ledger: "ledger_ok (deal_sha D) (deal_point_of D) (deal_static D) (deal_opener D) (deal_lanes D) (deal_start D)
      (\<lambda>r. peer_channel (daemon ?N r)) (mail ?N) (\<lambda>r. htlc_id (daemon ?N r)) ?l"
    using owes y(1,2) outs F unfolding owes_def
    by - (rule ledger_ok_send [of _ _ _ _ _ _ "\<lambda>r. peer_channel (daemon N r)" "mail N" "\<lambda>r. htlc_id (daemon N r)" l q _ Revoke ?m], auto simp del: ledger_app.simps)
  have com: "commits ?l r = commits l r" for r by (rule commits_send) simp
  have "turn_ok D N l q" using owes by (simp add: owes_def)
  then have one: "turn_ok D ?N ?l q"
    using y outs unfolding turn_ok_def com by (auto intro: turn_keep)
  have "turn (deal_points D q) (\<lambda>i. fst (revoke_commitment (deal_env D q) i)) (\<lambda>idx point m. \<forall>c \<in> commits l ?p. signed D ?p idx point m c)
     (daemon N ?p) y [] [REVOKE_AND_ACK (fst (revoke_commitment (deal_env D q) (next_index (daemon N ?p) REMOTE - 2))) (deal_points D q (next_index (daemon N ?p) REMOTE)) us]"
    using owes y(3) by (intro turn.revoked) (simp_all add: owes_def Let_def)
  then have "turn_ok D ?N ?l ?p"
    using owes outs unfolding turn_ok_def com by (simp add: owes_def Let_def)
  then have "turn_ok D ?N ?l r" for r using one by (cases "r = q") (auto simp: neq_side_iff)
  then have "net_ok D ?N ?l" using ledger by (simp add: net_ok_def)
  then show "good D ?N" by (auto simp: good_def)
qed

lemma keeps_value:
  assumes "\<And>x a. m = Some (Inr (x, a)) \<Longrightarrow> to_peer a = []" "\<And>x. keeps J p N (f x)"
  shows "keeps J p N (and_then m f)"
  unfolding keeps_def
proof (intro allI impI)
  fix y outs assume "and_then m f = Some (Inr (y, outs))"
  then obtain x a b where r: "m = Some (Inr (x, a))" "f x = Some (Inr (y, b))" "outs = a @ b" by (auto simp: and_then_result)
  then have "put_out p (y, outs) N = put_out p (y, b) N" using assms(1) by (simp add: put_out_def)
  then show "J (put_out p (y, outs) N)" using assms(2) [of x] r(2) by (simp add: keeps_def)
qed

lemma update_sig_silent:
  assumes "(if c then and_then (take_update_sig env uninit ch i sig) (\<lambda>st. done_with (Some st) []) else done_with None []) = Some (Inr (s, a))"
  shows "to_peer a = []"
proof (cases c)
  case True
  then obtain st b where "take_update_sig env uninit ch i sig = Some (Inr (st, b))" "a = b"
    using assms by (auto simp: and_then_result)
  then show ?thesis
    by (auto simp: take_update_sig_def exits_def done_with_def Let_def split: option.splits bool.splits)
qed (use assms in simp)

lemma quiet_want_fee:
  "quiet x (case want_fee_update env x of None \<Rightarrow> None | Some target \<Rightarrow> done_with (if target \<noteq> None then start_commit_timer x else x) [])"
  by (auto simp: quiet_def same_turn_def start_commit_timer_def split: option.splits if_splits)

lemma keeps_if: "(c \<Longrightarrow> keeps I p N a) \<Longrightarrow> (\<not> c \<Longrightarrow> keeps I p N b) \<Longrightarrow> keeps I p N (if c then a else b)"
  by simp

lemma commit_head_signed:
  assumes ok: "net_ok D N l" and head: "mail N p = m # ms" "is_commit m"
  shows "\<exists>idx point c. signed D p idx point m c"
proof -
  have "is_update m" using head(2) update_kinds by blast
  then obtain u us where u: "wire l p = u # us" "stands_for m u" by (rule recv_ready [OF ok head(1)])
  then obtain c where "c \<in> commits l p" using head(2) by (cases m) (auto simp: commits_def)
  moreover have turn: "turn_ok D N l p" and cs: "filter is_commit (mail N p) = m # filter is_commit ms"
    using ok head by (simp_all add: net_ok_def)
  note turn_signed_cases [OF conjunct2 [OF turn [unfolded turn_ok_def cs]]]
  ultimately show ?thesis by blast
qed

lemma good_commit_sig:
  assumes good: "good D N" and keyed: "keyed D" and head: "mail N p = COMMITMENT_SIGNED sig hsigs usig swap # ms"
  shows "keeps (good D) (other p) (N\<lparr>mail := (mail N)(p := ms)\<rparr>)
     (handle_peer_commit_sig (deal_env D (other p)) uninit (daemon N (other p)) sig hsigs usig swap)"
proof (cases "channel_rcvd_commit (peer_channel (daemon N (other p)))")
  let ?q = "other p" and ?m = "COMMITMENT_SIGNED sig hsigs usig swap" and ?N = "N\<lparr>mail := (mail N)(p := ms)\<rparr>"
  let ?x = "daemon N ?q"
  obtain l where ok: "net_ok D N l" using good by (auto simp: good_def)
  case (Some r)
  obtain b ch' hs where ch: "channel_rcvd_commit (peer_channel ?x) = Some (b, ch', hs)" using Some by (cases r) auto
  have m: "is_commit ?m" by simp
  have swap: "swap = None" using commit_head_signed [OF ok head] by (auto simp: signed_def signature_on_def)
  let ?x2 = "?x\<lparr>peer_channel := ch'\<rparr>"
  let ?I = "\<lambda>N. owes D ?q N (link_recv (deal_app D) p l)"
  let ?rest = "\<lambda>p3. let ch = peer_channel p3; local_index = next_index p3 LOCAL; point = next_local_per_commit p3 in
         if opener ch = REMOTE
            \<and> do { rate \<leftarrow> channel_feerate ch LOCAL; can_opener_afford_feerate (env_chainparams (deal_env D ?q)) ch rate } \<noteq> Some True
         then None
         else case commit_sigs_err (deal_env D ?q) ch local_index point sig hsigs of
           Some err \<Rightarrow> exits err
         | None \<Rightarrow>
             and_then (if channel_has ch OPT_SEQ_SYMMETRIC
                       then and_then (take_update_sig (deal_env D ?q) uninit ch local_index usig) (\<lambda>st. done_with (Some st) [])
                       else done_with None []) (\<lambda>sym_local.
             and_then (send_revocation (deal_env D ?q) p3 hs sym_local) (\<lambda>p4.
             and_then (maybe_send_stfu p4) (\<lambda>p5.
             case want_fee_update (deal_env D ?q) p5 of
               None \<Rightarrow> None
             | Some target \<Rightarrow> done_with (if target \<noteq> None then start_commit_timer p5 else p5) [])))"
  have "keeps ?I ?q ?N (if b then done_with ?x2 [] else note_empty_commit ?x2)"
    using take_commit(1) [OF ok head m ch] unfolding keeps_def note_empty_commit_def
    by (auto simp: same_turn_def split: if_splits)
  moreover have "keeps (good D) ?q N' (?rest (daemon N' ?q))" if I: "?I N'" for N'
  proof -
    have "keeps (good D) ?q N' (and_then (send_revocation (deal_env D ?q) (daemon N' ?q) hs sl) (\<lambda>p4. and_then (maybe_send_stfu p4) (\<lambda>p5.
        case want_fee_update (deal_env D ?q) p5 of None \<Rightarrow> None
        | Some target \<Rightarrow> done_with (if target \<noteq> None then start_commit_timer p5 else p5) [])))" for sl
      using good_revocation [OF I keyed]
      by (rule keeps_and_then) (intro good_quiet quiet_and_then quiet_maybe_send_stfu quiet_want_fee)
    from keeps_value [OF update_sig_silent this] show ?thesis
      unfolding Let_def by (intro keeps_if keeps_case_option keeps_stuck)
  qed
  ultimately have "keeps (good D) ?q ?N (and_then (if b then done_with ?x2 [] else note_empty_commit ?x2) ?rest)"
    by (rule keeps_and_then)
  moreover have "handle_peer_commit_sig (deal_env D ?q) uninit ?x sig hsigs usig swap
      = and_then (if b then done_with ?x2 [] else note_empty_commit ?x2) ?rest"
    by (simp add: handle_peer_commit_sig_def swap ch Let_def)
  ultimately show ?thesis by simp
next
  case None
  obtain l where ok: "net_ok D N l" using good by (auto simp: good_def)
  have "swap = None" using commit_head_signed [OF ok head] by (auto simp: signed_def signature_on_def)
  then show ?thesis by (simp add: handle_peer_commit_sig_def None)
qed

lemma turn_revoked_cases:
  assumes "turn points secrets ok x y cs (m # ms)"
  shows "cs = [] \<and> ms = [] \<and> revocations_received x = next_index x REMOTE - 2 \<and> next_index x REMOTE = next_index y LOCAL
    \<and> remote_per_commit x = points (next_index x REMOTE - 1) \<and> old_remote_per_commit x = points (next_index x REMOTE - 2)
    \<and> (\<exists>us. m = REVOKE_AND_ACK (secrets (next_index x REMOTE - 2)) (points (next_index x REMOTE)) us)"
  using assms by (cases rule: turn.cases) auto

lemma take_revoke:
  assumes ok: "net_ok D N l" and head: "mail N p = REVOKE_AND_ACK secret point us # ms"
    and ch: "channel_rcvd_revoke_and_ack (peer_channel (daemon N (other p))) = Some (b, ch', hs)"
    and y: "peer_channel y = snd (channel_sym_swap_done ch')" "htlc_id y = htlc_id (daemon N (other p))"
      "next_index y = next_index (daemon N (other p))" "revocations_received y = revocations_received (daemon N (other p)) + 1"
      "remote_per_commit y = point" "old_remote_per_commit y = remote_per_commit (daemon N (other p))"
      "next_local_per_commit y = next_local_per_commit (daemon N (other p))" "to_peer outs = []"
  shows "net_ok D (put_out (other p) (y, outs) (N\<lparr>mail := (mail N)(p := ms)\<rparr>)) (link_recv (deal_app D) p l)"
proof -
  let ?N = "put_out (other p) (y, outs) (N\<lparr>mail := (mail N)(p := ms)\<rparr>)" and ?l = "link_recv (deal_app D) p l" and ?q = "other p"
  let ?m = "REVOKE_AND_ACK secret point us"
  obtain u us' where u: "wire l p = u # us'" "u = Revoke" by (rule recv_ready [OF ok head]) auto
  have "tracks ?q (deal_opener D) (deal_lanes D) (deal_start D) ch' (ledger_app (deal_opener D) (other ?q) Revoke (copy l ?q))"
    using net_ok_follows [OF ok, of ?q] by (intro tracks_rcvd_revoke [OF _ ch]) simp
  then have F0: "follows D ?q ch' (deal_app D p u (copy l ?q))"
    using net_ok_follows [OF ok, of ?q] static_events(3) [OF ch] by (simp add: u(2) del: ledger_app.simps)
  then have "channel_sym_swap_done ch' = (False, ch')" by (intro swap_done_none) (simp add: tracks_def)
  then have F: "follows D ?q (peer_channel y) (deal_app D p u (copy l ?q))" using F0 y(1) by simp
  have ids: "(\<lambda>q. htlc_id (daemon ?N q)) = (\<lambda>q. htlc_id (daemon N q))" using y(2) by auto
  have ledger: "ledger_ok (deal_sha D) (deal_point_of D) (deal_static D) (deal_opener D) (deal_lanes D) (deal_start D)
      (\<lambda>q. peer_channel (daemon ?N q)) (mail ?N) (\<lambda>q. htlc_id (daemon ?N q)) ?l"
    using ok F y(8) head u(1) unfolding ids net_ok_def
    by - (rule ledger_ok_recv [of _ _ _ _ _ _ "\<lambda>q. peer_channel (daemon N q)" "mail N" _ _ p u us' ?m ms], auto simp del: ledger_app.simps)
  have turns: "turn_ok D N l q" for q using ok by (simp add: net_ok_def)
  have rs: "filter is_revoke (mail N p) = ?m # filter is_revoke ms" using head by simp
  note rev = turn_revoked_cases [OF conjunct2 [OF turns [of ?q, unfolded turn_ok_def other_other rs]]]
  have "turn (deal_points D p) (\<lambda>i. fst (revoke_commitment (deal_env D p) i))
      (\<lambda>idx point m. \<forall>c \<in> commits ?l ?q. signed D ?q idx point m c) y (daemon N p) [] []"
    using rev y by (intro turn.idle) auto
  moreover have "filter is_commit (mail ?N ?q) = []" "filter is_revoke (mail ?N p) = []" using rev y(8) by simp_all
  moreover have "next_local_per_commit y = deal_points D ?q (next_index y LOCAL)" using turns [of ?q] y(3,7) by (simp add: turn_ok_def)
  ultimately have one: "turn_ok D ?N ?l ?q" by (simp add: turn_ok_def)
  have "commits ?l p \<subseteq> commits l p" using commits_recv [OF u(1)] .
  moreover have "turn (deal_points D ?q) (\<lambda>i. fst (revoke_commitment (deal_env D ?q) i))
      (\<lambda>idx point m. \<forall>c \<in> commits l p. signed D p idx point m c) (daemon N p) y (filter is_commit (mail N p)) (filter is_revoke (mail N ?q))"
    using turns [of p] y(3) unfolding turn_ok_def by (auto intro: turn_keep)
  ultimately have "turn (deal_points D ?q) (\<lambda>i. fst (revoke_commitment (deal_env D ?q) i))
      (\<lambda>idx point m. \<forall>c \<in> commits ?l p. signed D p idx point m c) (daemon N p) y (filter is_commit (mail N p)) (filter is_revoke (mail N ?q))"
    by (blast intro: turn_mono)
  then have "turn_ok D ?N ?l p" using turns [of p] y(8) head by (simp add: turn_ok_def)
  then have "turn_ok D ?N ?l q" for q using one by (cases "q = p") (auto simp: neq_side_iff)
  then show ?thesis using ledger by (simp add: net_ok_def)
qed

lemma keeps_value_of:
  assumes "\<And>x a. m = Some (Inr (x, a)) \<Longrightarrow> to_peer a = [] \<and> keeps J p N (f x)"
  shows "keeps J p N (and_then m f)"
  unfolding keeps_def
proof (intro allI impI)
  fix y outs assume "and_then m f = Some (Inr (y, outs))"
  then obtain x a b where r: "m = Some (Inr (x, a))" "f x = Some (Inr (y, b))" "outs = a @ b" by (auto simp: and_then_result)
  then have "put_out p (y, outs) N = put_out p (y, b) N" using assms by (simp add: put_out_def)
  then show "J (put_out p (y, outs) N)" using assms [OF r(1)] r(2) by (simp add: keeps_def)
qed

lemma take_revoke_sig_result:
  assumes "take_revoke_sig env uninit x sig = Some (Inr ((x1, st), a))"
  shows "to_peer a = [] \<and> (x1 = x \<or> x1 = x\<lparr>sym_remote_pending := None\<rparr>)"
proof (cases "channel_has (peer_channel x) OPT_SEQ_SYMMETRIC")
  case True
  then obtain s b c where r: "remote_state env x = Some (Inr (s, b))" "a = b @ c"
    "(case sig of None \<Rightarrow> exits NO_UPDATE_SIG
      | Some sig \<Rightarrow> (case sym_channel_check_sig (env_crypto env) (env_chainparams env) (marker_id env) (check_schnorr_sig env)
           (peer_channel x) s REMOTE sig uninit of
          None \<Rightarrow> None
        | Some False \<Rightarrow> exits BAD_UPDATE_SIG
        | Some True \<Rightarrow> done_with (x\<lparr>sym_remote_pending := None\<rparr>, Some (s\<lparr>ss_sig := (ss_sig s)(REMOTE := sig),
             ss_has_sig := (ss_has_sig s)(REMOTE := True)\<rparr>)) [])) = Some (Inr ((x1, st), c))"
    using assms by (auto simp: take_revoke_sig_def and_then_result)
  have "to_peer b = []" using r(1) by (auto simp: remote_state_def Let_def split: option.splits if_splits)
  moreover have "c = [] \<and> x1 = x\<lparr>sym_remote_pending := None\<rparr>" using r(3) by (auto split: option.splits bool.splits)
  ultimately show ?thesis using r(2) by simp
qed (use assms in \<open>simp add: take_revoke_sig_def\<close>)

lemma good_revoke:
  assumes good: "good D N" and head: "mail N p = REVOKE_AND_ACK secret point us # ms"
  shows "keeps (good D) (other p) (N\<lparr>mail := (mail N)(p := ms)\<rparr>)
     (handle_peer_revoke_and_ack (deal_env D (other p)) uninit (daemon N (other p)) secret point us)"
proof -
  let ?q = "other p" and ?N = "N\<lparr>mail := (mail N)(p := ms)\<rparr>"
  let ?x = "daemon N ?q" and ?env = "deal_env D (other p)"
  obtain l where ok: "net_ok D N l" using good by (auto simp: good_def)
  have "keeps (good D) ?q ?N (and_then (take_revoke_sig ?env uninit ?x us) (\<lambda>(p1, sym_remote).
               case channel_rcvd_revoke_and_ack (peer_channel p1) of
                 None \<Rightarrow> None
               | Some (_, ch', changed) \<Rightarrow>
                   let p2 = p1\<lparr>revocations_received := revocations_received p1 + 1,
                               peer_channel := snd (channel_sym_swap_done ch'),
                               old_remote_per_commit := remote_per_commit p1, remote_per_commit := point\<rparr>
                   in and_then (done_with p2 [To_Master (GOT_REVOKE (revocations_received p1) secret
                                  point (changed_htlc_arr changed) sym_remote)]) (\<lambda>p3.
                      and_then (maybe_send_stfu p3) (\<lambda>p4. done_with (start_commit_timer p4) []))))" (is "keeps _ _ _ (and_then _ ?f)")
  proof (rule keeps_value_of)
    fix r a assume r: "take_revoke_sig ?env uninit ?x us = Some (Inr (r, a))"
    obtain x1 st where [simp]: "r = (x1, st)" by (cases r)
    note x1 = take_revoke_sig_result [OF r [unfolded \<open>r = (x1, st)\<close>]]
    have "keeps (good D) ?q ?N (?f (x1, st))"
    proof (cases "channel_rcvd_revoke_and_ack (peer_channel ?x)")
      case None
      then show ?thesis using x1 by auto
    next
      case (Some t)
      then obtain b ch' hs where ch: "channel_rcvd_revoke_and_ack (peer_channel ?x) = Some (b, ch', hs)" by (cases t) auto
      let ?p2 = "x1\<lparr>revocations_received := revocations_received x1 + 1, peer_channel := snd (channel_sym_swap_done ch'),
          old_remote_per_commit := remote_per_commit x1, remote_per_commit := point\<rparr>"
      have "net_ok D (put_out ?q (?p2, [To_Master m]) ?N) (link_recv (deal_app D) p l)" for m
        using x1 by - (rule take_revoke [OF ok head ch], auto)
      then have "good D (put_out ?q (?p2, [To_Master m]) ?N)" for m unfolding good_def by blast
      then have "keeps (good D) ?q ?N (done_with ?p2 [To_Master m])" for m by (simp add: keeps_def)
      then have "keeps (good D) ?q ?N (and_then (done_with ?p2 [To_Master m]) (\<lambda>p3. and_then (maybe_send_stfu p3) (\<lambda>p4. done_with (start_commit_timer p4) [])))" for m
        by (rule keeps_and_then) (intro good_quiet quiet_and_then quiet_maybe_send_stfu quiet_timer)
      moreover have "peer_channel x1 = peer_channel ?x" using x1 by auto
      ultimately show ?thesis using ch by (simp add: Let_def)
    qed
    then show "to_peer a = [] \<and> keeps (good D) ?q ?N (?f r)" using x1 by simp
  qed
  then show ?thesis unfolding handle_peer_revoke_and_ack_def
    by (intro keeps_if keeps_case_option keeps_stuck)
qed

section \<open>Every step\<close>

lemma good_order:
  assumes "good D N" "keyed D" "\<not> is_swap_order ord" "htlc_id (daemon N p) \<noteq> - 1"
  shows "keeps (good D) p N (req_in (deal_env D p) (daemon N p) ord)"
proof -
  have later: "keeps (good D) p N (done_with x' [])" if "handle_master_request_later (daemon N p) ord = Some x'" for x'
    using that assms(1)
    by (intro good_quiet) (auto simp: handle_master_request_later_def quiet_def same_turn_def split: if_splits)
  show ?thesis
    using assms later good_offer good_feerates good_preimage good_fail
      good_quiet [OF assms(1) quiet_handle_blockheight] good_quiet [OF assms(1) quiet_shutdowns(3)]
    by (cases ord) (auto simp: req_in_def split: option.split)
qed

lemma good_drop:
  assumes "good D N" "mail N p = m # ms" "\<not> is_update m"
  shows "good D (N\<lparr>mail := (mail N)(p := ms)\<rparr>)"
proof -
  obtain l where ok: "net_ok D N l" using assms by (auto simp: good_def)
  let ?N = "N\<lparr>mail := (mail N)(p := ms)\<rparr>"
  have m: "\<not> is_commit m" "\<not> is_revoke m" using assms(3) update_kinds by blast+
  have "turn_ok D ?N l q" for q using ok m assms(2) by - (rule turn_ok_local [of D N l], auto simp: net_ok_def)
  moreover have "ledger_ok (deal_sha D) (deal_point_of D) (deal_static D) (deal_opener D) (deal_lanes D) (deal_start D)
      (\<lambda>p. peer_channel (daemon ?N p)) (mail ?N) (\<lambda>p. htlc_id (daemon ?N p)) l"
    using assms(2,3) by (intro ledger_ok_skip [OF conjunct1 [OF ok [unfolded net_ok_def]]]) auto
  ultimately show ?thesis by (auto simp: good_def net_ok_def)
qed

lemma good_deliver:
  assumes good: "good D N" and keyed: "keyed D" and head: "mail N p = m # ms"
  shows "keeps (good D) (other p) (N\<lparr>mail := (mail N)(p := ms)\<rparr>) (peer_in (deal_env D (other p)) uninit (daemon N (other p)) m)"
proof -
  let ?N = "N\<lparr>mail := (mail N)(p := ms)\<rparr>" and ?q = "other p"
  let ?x = "daemon N ?q"
  have quiet: "keeps (good D) ?q ?N a" if "\<not> is_update m" "quiet ?x a" for a
    using good_quiet [OF good_drop [OF good head that(1)], of ?q a] that(2) by simp
  have "keeps (good D) ?q ?N (case m of
        UPDATE_ADD_HTLC hid amount hash expiry packet tlvs \<Rightarrow> handle_peer_add_htlc (deal_env D ?q) ?x hid amount hash expiry packet tlvs
      | UPDATE_FULFILL_HTLC hid preimage \<Rightarrow> handle_peer_fulfill_htlc (deal_env D ?q) ?x hid preimage
      | UPDATE_FAIL_HTLC hid reason \<Rightarrow> handle_peer_fail_htlc ?x hid reason
      | UPDATE_FAIL_MALFORMED_HTLC hid sha code \<Rightarrow> handle_peer_fail_malformed_htlc ?x hid sha code
      | UPDATE_FEE rate \<Rightarrow> handle_peer_feechange (deal_env D ?q) ?x rate
      | UPDATE_BLOCKHEIGHT blocks \<Rightarrow> handle_peer_blockheight_change ?x blocks
      | COMMITMENT_SIGNED sig htlc_sigs sym_sig swap \<Rightarrow> handle_peer_commit_sig (deal_env D ?q) uninit ?x sig htlc_sigs sym_sig swap
      | REVOKE_AND_ACK secret point sym_sig \<Rightarrow> handle_peer_revoke_and_ack (deal_env D ?q) uninit ?x secret point sym_sig
      | SHUTDOWN spk \<Rightarrow> handle_peer_shutdown ?x spk
      | STFU initiated \<Rightarrow> handle_stfu ?x initiated
      | SEQ_SWAP_REQUEST _ _ _ _ _ _ \<Rightarrow> exits UNKNOWN_MESSAGE)"
  proof (cases m)
    case (UPDATE_ADD_HTLC)
    then show ?thesis using good_add [OF good] head by (simp add: keeps_def)
  next
    case (UPDATE_FULFILL_HTLC)
    then show ?thesis using good_peer_fulfill [OF good] head by (simp add: keeps_def)
  next
    case (UPDATE_FAIL_HTLC i reason)
    then show ?thesis
      using good_peer_fails [OF good, of p m ms "\<lparr>failed_id = i, sha256_of_onion = None, badonion = 0, onion = reason\<rparr>"] head
      by (simp add: keeps_def handle_peer_fail_htlc_def fun_eq_iff)
  next
    case (UPDATE_FAIL_MALFORMED_HTLC i sha code)
    then show ?thesis
      using good_peer_fails [OF good, of p m ms "\<lparr>failed_id = i, sha256_of_onion = Some sha, badonion = code OR BADONION, onion = None\<rparr>"] head
      by (simp add: keeps_def handle_peer_fail_malformed_htlc_def fun_eq_iff)
  next
    case (UPDATE_FEE)
    then show ?thesis using good_peer_fee [OF good] head by (simp add: keeps_def)
  next
    case (UPDATE_BLOCKHEIGHT)
    then show ?thesis using good_peer_height [OF good] head by (simp add: keeps_def)
  next
    case (COMMITMENT_SIGNED)
    then show ?thesis using good_commit_sig [OF good keyed] head by simp
  next
    case (REVOKE_AND_ACK)
    then show ?thesis using good_revoke [OF good] head by simp
  next
    case (SHUTDOWN)
    then show ?thesis using quiet quiet_shutdowns(2) by simp
  next
    case (STFU)
    then show ?thesis using quiet quiet_handle_stfu by simp
  qed simp
  then show ?thesis unfolding peer_in_def by (intro keeps_if keeps_stuck)
qed

lemma good_step: "net_step (deal_env D) uninit N N' \<Longrightarrow> keyed D \<Longrightarrow> good D N \<Longrightarrow> good D N'"
proof (induction rule: net_step.induct)
  case (order p N ord res)
  then show ?case using good_order [of D N ord p] by (cases res) (simp add: keeps_def)
next
  case (timer p N res)
  then show ?case using good_timer [of D N p] by (cases res) (simp add: keeps_def)
next
  case (deliver N p m ms res)
  then show ?case using good_deliver [of D N p m ms uninit] by (cases res) (simp add: keeps_def)
qed

lemma good_reaches: "net_reaches (deal_env D) uninit N N' \<Longrightarrow> keyed D \<Longrightarrow> good D N \<Longrightarrow> good D N'"
  by (induction rule: rtranclp_induct) (auto intro: good_step)

end
