(* ===== verification/Peers.thy ===== *)
theory Peers
  imports Network
begin

text \<open>
  What two daemons get that were started together and follow the protocol: they agree on both commitments,
  and neither accuses the other.
\<close>

section \<open>Where they start\<close>

text \<open>Two channels that were opened together: nothing in flight, and each shows what the other shows.\<close>

definition mirrored :: "channel \<Rightarrow> channel \<Rightarrow> bool" where
  "mirrored c d \<longleftrightarrow> fresh c \<and> fresh d \<and> opener d = other (opener c) \<and> nlanes d = nlanes c
   \<and> (\<forall>l < nlanes c. \<forall>s. bal d LOCAL l s = bal c LOCAL l (other s))
   \<and> pos_slots (opener d) (feerate (channel_fee_states d)) = pos_slots (opener c) (feerate (channel_fee_states c))
   \<and> map_option (\<lambda>hs. pos_slots (opener d) (height hs)) (blockheight_states d)
       = map_option (\<lambda>hs. pos_slots (opener c) (height hs)) (blockheight_states c)"

definition start_net :: "(side \<Rightarrow> u64 \<Rightarrow> bytes) \<Rightarrow> net \<Rightarrow> bool" where
  "start_net points N \<longleftrightarrow>
     mail N = (\<lambda>_. []) \<and> mirrored (peer_channel (daemon N LOCAL)) (peer_channel (daemon N REMOTE))
   \<and> (\<forall>p. let x = daemon N p; i = next_index x REMOTE in
        i = next_index (daemon N (other p)) LOCAL \<and> revocations_received x = i - 1
        \<and> next_local_per_commit x = points p (next_index x LOCAL)
        \<and> remote_per_commit x = points (other p) i \<and> old_remote_per_commit x = points (other p) (i - 1))"

definition deal_of :: "(side \<Rightarrow> channeld_env) \<Rightarrow> (side \<Rightarrow> u64 \<Rightarrow> bytes) \<Rightarrow> net \<Rightarrow> deal" where
  "deal_of env points N =
     (let c = peer_channel (daemon N LOCAL) in
      \<lparr>deal_env = env, deal_sha = sha256 (env_crypto (env LOCAL)), deal_point_of = point_of (env LOCAL), deal_points = points,
       deal_static = (\<lambda>p. static (peer_channel (daemon N p))), deal_opener = opener c, deal_lanes = nlanes c,
       deal_start = (\<lambda>l s. uint (bal c LOCAL l s))\<rparr>)"

lemma deal_of_simps [simp]:
  "deal_env (deal_of env points N) = env" "deal_points (deal_of env points N) = points"
  "deal_static (deal_of env points N) = (\<lambda>p. static (peer_channel (daemon N p)))"
  by (simp_all add: deal_of_def Let_def)

lemma abs_side_local: "abs_side LOCAL s = s"
  by (cases s) (simp_all add: abs_side_def)

lemma fresh_tracks:
  assumes c: "fresh ch" "nlanes ch = n" "abs_side p (opener ch) = opn" and b: "\<And>l s. l < n \<Longrightarrow> bal ch LOCAL l s = of_int (init l (abs_side p s))"
    and hs: "blockheight_states ch = Some hs"
  shows "tracks p opn n init ch \<lparr>led_htlcs = (\<lambda>_. None), led_fees = pos_slots (opener ch) (feerate (channel_fee_states ch)),
     led_heights = pos_slots (opener ch) (height hs)\<rparr>"
proof -
  have "chan_wf ch" using fresh_consistent [OF c(1)] by (simp add: consistent_def)
  moreover have "bal ch v l s = of_int (init l (abs_side p s))" if "l < n" for v l s
    using b [OF that] c(1,2) that by (cases v) (auto simp: fresh_def)
  ultimately show ?thesis using c hs by (auto simp: tracks_def fresh_def moved_in_def)
qed

lemma good_start:
  assumes "start_net points N"
  shows "good (deal_of env points N) N"
proof -
  let ?D = "deal_of env points N" and ?c = "peer_channel (daemon N LOCAL)" and ?d = "peer_channel (daemon N REMOTE)"
  have mir: "mirrored ?c ?d" and mail: "mail N = (\<lambda>_. [])" using assms by (simp_all add: start_net_def)
  obtain hc where hc: "blockheight_states ?c = Some hc" using mir by (auto simp: mirrored_def fresh_def)
  obtain hd where hd: "blockheight_states ?d = Some hd" using mir by (auto simp: mirrored_def fresh_def)
  define L where "L = \<lparr>led_htlcs = (\<lambda>_. None), led_fees = pos_slots (opener ?c) (feerate (channel_fee_states ?c)),
     led_heights = pos_slots (opener ?c) (height hc)\<rparr>"
  define l :: "(ledger, update) link" where "l = \<lparr>copy = (\<lambda>_. L), wire = (\<lambda>_. [])\<rparr>"
  have "tracks LOCAL (opener ?c) (nlanes ?c) (deal_start ?D) ?c L"
    unfolding L_def using mir hc by (intro fresh_tracks) (auto simp: mirrored_def deal_of_def Let_def abs_side_local)
  moreover have "tracks REMOTE (opener ?c) (nlanes ?c) (deal_start ?D) ?d
      \<lparr>led_htlcs = (\<lambda>_. None), led_fees = pos_slots (opener ?d) (feerate (channel_fee_states ?d)), led_heights = pos_slots (opener ?d) (height hd)\<rparr>"
  proof (rule fresh_tracks [OF _ _ _ _ hd])
    show "bal ?d LOCAL i s = of_int (deal_start ?D i (abs_side REMOTE s))" if "i < nlanes ?c" for i s
      using mir that by (cases s) (auto simp: mirrored_def deal_of_def Let_def abs_side_def)
    show "abs_side REMOTE (opener ?d) = opener ?c" using mir by (cases "opener ?c") (auto simp: mirrored_def abs_side_def)
  qed (use mir in \<open>auto simp: mirrored_def\<close>)
  moreover have "pos_slots (opener ?d) (feerate (channel_fee_states ?d)) = led_fees L" "pos_slots (opener ?d) (height hd) = led_heights L"
      "\<lparr>led_htlcs = (\<lambda>_. None), led_fees = led_fees L, led_heights = led_heights L\<rparr> = L"
  proof -
    have "map_option (\<lambda>hs. pos_slots (opener ?d) (height hs)) (blockheight_states ?d)
       = map_option (\<lambda>hs. pos_slots (opener ?c) (height hs)) (blockheight_states ?c)"
      using mir unfolding mirrored_def by blast
    then show "pos_slots (opener ?d) (height hd) = led_heights L" by (simp add: hc hd L_def)
    show "pos_slots (opener ?d) (feerate (channel_fee_states ?d)) = led_fees L"
      using mir unfolding mirrored_def L_def by (metis ledger.select_convs(2))
  qed (simp add: L_def)
  ultimately have "tracks REMOTE (opener ?c) (nlanes ?c) (deal_start ?D) ?d L" "tracks LOCAL (opener ?c) (nlanes ?c) (deal_start ?D) ?c L"
    by (simp_all)
  then have tr: "tracks p (deal_opener ?D) (deal_lanes ?D) (deal_start ?D) (peer_channel (daemon N p)) L" for p
    by (cases p) (simp_all add: deal_of_def Let_def)
  have "parties.in_step opn sha pt l" for opn sha pt by (rule parties.in_step_start) (simp_all add: l_def)
  moreover have "ids_ok opn l p i" for opn p i by (simp add: ids_ok_def l_def L_def)
  ultimately have "ledger_ok (deal_sha ?D) (deal_point_of ?D) (deal_static ?D) (deal_opener ?D) (deal_lanes ?D) (deal_start ?D)
      (\<lambda>p. peer_channel (daemon N p)) (mail N) (\<lambda>p. htlc_id (daemon N p)) l"
    using tr mail by (simp add: ledger_ok_def l_def)
  moreover have "turn_ok ?D N l p" for p
    using assms mail unfolding turn_ok_def start_net_def by (auto simp: Let_def intro!: turn.idle)
  ultimately show ?thesis by (auto simp: good_def net_ok_def)
qed

section \<open>What honest daemons get\<close>

text \<open>
  (C1) Two daemons that were started together and talk to each other, over queues of any delay, in
  any interleaving of HTLCs offered, fulfilled and failed, feerates, blockheights, commitments,
  revocations, shutdowns and quiescence: whenever no message is on its way, they show the same two
  commitments, with the same HTLCs, the same balance in every lane, the same feerate and
  the same blockheight, and they agree on the index and the point of the next one.
\<close>

theorem peers_agree:
  assumes "start_net points N0" and "keyed (deal_of env points N0)" and "net_reaches env uninit N0 N"
    and "mail N = (\<lambda>_. [])"
  shows "seen_commitment p v (peer_channel (daemon N p)) = seen_commitment (other p) (other v) (peer_channel (daemon N (other p)))
    \<and> next_index (daemon N p) REMOTE = next_index (daemon N (other p)) LOCAL
    \<and> remote_per_commit (daemon N p) = next_local_per_commit (daemon N (other p))"
proof -
  let ?D = "deal_of env points N0"
  have "good ?D N" using good_reaches [of ?D uninit N0 N] good_start [OF assms(1)] assms(2,3) by simp
  then obtain l where ok: "net_ok ?D N l" by (auto simp: good_def)
  have wires: "wire l = (\<lambda>_. [])" using net_ok_mail [OF ok] assms(4) by (auto simp: fun_eq_iff)
  have "parties.in_step (deal_opener ?D) (deal_sha ?D) (deal_point_of ?D) l" using ok by (simp add: net_ok_def ledger_ok_def)
  from parties.in_step_quiet [OF this wires] have same: "copy l p = copy l (other p)" .
  have "seen_commitment p v (peer_channel (daemon N p)) = seen_commitment (other p) (other v) (peer_channel (daemon N (other p)))"
    using seen_tracks [OF conjunct1 [OF net_ok_follows [OF ok, of p]], of v]
      seen_tracks [OF conjunct1 [OF net_ok_follows [OF ok, of "other p"]], of "other v"] same by simp
  moreover have "turn_ok ?D N l p" "turn_ok ?D N l (other p)" using ok by (simp_all add: net_ok_def)
  ultimately show ?thesis using assms(4) by (auto simp: turn_ok_def elim: turn.cases)
qed

subsection \<open>No accusation\<close>

text \<open>The exits with which a daemon says that its peer broke the protocol.\<close>

fun accuses :: "peer_err \<Rightarrow> bool" where
  "accuses (BAD_REMOVE_HTLC _) = True"
| "accuses FEE_FROM_NON_OPENER = True"
| "accuses HEIGHT_FROM_NON_OPENER = True"
| "accuses SWAP_NOT_ASKED_FOR = True"
| "accuses (SWAP_REFUSED _) = True"
| "accuses BAD_COMMIT_SIG = True"
| "accuses (NUM_HTLC_SIGS _ _) = True"
| "accuses (BAD_HTLC_SIG _) = True"
| "accuses NO_UPDATE_SIG = True"
| "accuses BAD_UPDATE_SIG = True"
| "accuses UNEXPECTED_REVOKE = True"
| "accuses BAD_PRIVKEY = True"
| "accuses WRONG_PRIVKEY = True"
| "accuses _ = False"

text \<open>
  What signing and checking promise of this channel: signatures on a commitment of the peer are accepted
  by the peer on the same commitment, index and point.
\<close>

definition verifies :: "deal \<Rightarrow> bool" where
  "verifies D \<longleftrightarrow> (\<forall>p ch ch' idx point.
     static ch = deal_static D p \<and> static ch' = deal_static D (other p)
     \<and> seen_commitment p REMOTE ch = seen_commitment (other p) LOCAL ch' \<longrightarrow>
     (let env = deal_env D (other p); (sig, hsigs) = commit_sigs (deal_env D p) ch idx point in
      check_commit_sig env ch' idx point sig \<and> length hsigs = num_htlc_txs env ch' idx point
      \<and> (\<forall>i < length hsigs. check_htlc_sig env ch' idx point i (hsigs ! i))))"

lemma follows_live:
  assumes F: "follows D p ch L" and e: "led_htlcs L (abs_side p owner, hid) = Some e" "e_pos e = 4"
  obtains h where "htlc_get (htlcs ch) hid owner = Some h" "entry_of h = e" "irrevocable h" "h_r h = None" "htlc_owner h = owner"
proof -
  have "(abs_side p owner, hid) \<in> key_of p ` set (htlcs ch)" using F e unfolding tracks_def by fastforce
  then obtain g where g: "g \<in> set (htlcs ch)" "htlc_owner g = owner" "h_id g = hid" by (auto simp: key_of_def)
  have flag: "htlc_has g (HTLC_FLAG owner HTLC_F_OWNER)"
    using g(2) by (cases owner; cases "h_state g") (auto simp: htlc_has_def htlc_owner_def flag_simps)
  have "htlc_get (htlcs ch) hid owner \<noteq> None"
    unfolding htlc_get_def find_None_iff using g flag by blast
  then obtain h where h: "htlc_get (htlcs ch) hid owner = Some h" by blast
  note props = htlc_get_Some [OF h]
  have "led_htlcs L (key_of p h) = Some (entry_of h)" using F props(1) by (simp add: tracks_def)
  then have "entry_of h = e" using e(1) props by (simp add: key_of_def)
  moreover have "e_r e = None" using F e unfolding tracks_def by fastforce
  ultimately show ?thesis using that [OF h] e(2) props(3) by (auto simp: entry_of_def irrevocable_def)
qed

lemma fulfill_accepted:
  assumes F: "follows D p ch L" and fit: "ledger_fits sha pt (other (abs_side p owner)) (Remove hid (Some r)) L"
  shows "fst (channel_fulfill_htlc sha pt ch owner hid r) = CHANNEL_ERR_REMOVE_OK"
proof -
  obtain e where e: "led_htlcs L (abs_side p owner, hid) = Some e" "e_pos e = 4" "entry_opens sha pt e r"
    using fit by (auto split: option.splits)
  obtain h where h: "htlc_get (htlcs ch) hid owner = Some h" "entry_of h = e" "irrevocable h" "h_r h = None" "htlc_owner h = owner"
    by (rule follows_live [OF F e(1,2)])
  have opens: "case h_lock_point h of None \<Rightarrow> sha r = h_rhash h | Some lock \<Rightarrow> pt r = Some lock"
    using e(3) unfolding h(2) [symmetric] by (simp add: entry_opens_def entry_of_def split: option.splits)
  have st: "h_state h = (if owner = LOCAL then SENT_ADD_ACK_REVOCATION else RCVD_ADD_ACK_REVOCATION)" using irrevocable_iff h(3,5) by auto
  show ?thesis
    using h(1,4) opens st
    by (cases owner; auto simp: channel_fulfill_htlc_def channel_get_htlc_def Let_def htlc_owner_def htlc_has_def htlc_state_owner_def
        state_lt_iff flag_simps point_lock_opens_def split: option.splits)
qed

lemma fail_accepted:
  assumes F: "follows D p ch L" and fit: "ledger_fits sha pt (other (abs_side p owner)) (Remove (failed_id f) None) L"
  shows "fst (fail_htlc_with ch owner f) = CHANNEL_ERR_REMOVE_OK"
proof -
  obtain e where e: "led_htlcs L (abs_side p owner, failed_id f) = Some e" "e_pos e = 4"
    using fit by (auto split: option.splits)
  obtain h where h: "htlc_get (htlcs ch) (failed_id f) owner = Some h" "irrevocable h" "htlc_owner h = owner"
    by (rule follows_live [OF F e])
  have st: "h_state h = (if owner = LOCAL then SENT_ADD_ACK_REVOCATION else RCVD_ADD_ACK_REVOCATION)" using irrevocable_iff h(2,3) by auto
  have "fst (channel_fail_htlc ch owner (failed_id f)) = CHANNEL_ERR_REMOVE_OK"
    using h(1) st
    by (cases owner; auto simp: channel_fail_htlc_def channel_get_htlc_def Let_def htlc_owner_def htlc_has_def htlc_state_owner_def
        state_lt_iff flag_simps)
  then show ?thesis by (auto simp: fail_htlc_with_def split: prod.split)
qed

text \<open>A channel that is not a symmetric one.\<close>

definition plain_channel :: "deal \<Rightarrow> bool" where
  "plain_channel D \<longleftrightarrow> (\<forall>p. \<not> channel_has (deal_static D p) OPT_SEQ_SYMMETRIC)"

lemma plain_channel_has: "plain_channel D \<Longrightarrow> static ch = deal_static D p \<Longrightarrow> \<not> channel_has ch OPT_SEQ_SYMMETRIC"
  unfolding plain_channel_def using static_channel_has by metis

lemma signatures_accepted:
  assumes ok: "net_ok D N l" and head: "mail N p = COMMITMENT_SIGNED sig hsigs usig swap # ms" and "verifies D" "plain_channel D"
    and ch: "channel_rcvd_commit (peer_channel (daemon N (other p))) = Some (b, ch', hs)"
  shows "commit_sigs_err (deal_env D (other p)) ch' (next_index (daemon N (other p)) LOCAL)
     (next_local_per_commit (daemon N (other p))) sig hsigs = None"
    and "static ch' = deal_static D (other p)"
proof -
  let ?q = "other p"
  let ?y = "(daemon N ?q)\<lparr>peer_channel := ch'\<rparr>"
  let ?i = "next_index (daemon N ?q) LOCAL" and ?pt = "next_local_per_commit (daemon N ?q)"
  show static: "static ch' = deal_static D ?q" using static_events(2) [OF ch] net_ok_follows [OF ok, of ?q] by simp
  obtain c where c: "signed D p ?i ?pt (COMMITMENT_SIGNED sig hsigs usig swap) c" "seen_commitment ?q LOCAL ch' = seen_of (deal_lanes D) (deal_start D) c"
    using take_commit(2) [OF ok head _ ch, where outs = "[]" and y = ?y] by (auto simp: same_turn_def)
  obtain g where g: "static g = deal_static D p" "seen_commitment p REMOTE g = seen_commitment ?q LOCAL ch'"
      "(sig, hsigs) = commit_sigs (deal_env D p) g ?i ?pt"
    using c plain_channel_has [OF assms(4)] by (auto simp: signed_def signature_on_def)
  have "check_commit_sig (deal_env D ?q) ch' ?i ?pt sig \<and> length hsigs = num_htlc_txs (deal_env D ?q) ch' ?i ?pt
      \<and> (\<forall>i < length hsigs. check_htlc_sig (deal_env D ?q) ch' ?i ?pt i (hsigs ! i))"
    using assms(3) [unfolded verifies_def, rule_format, of g p ch' ?i ?pt] g(1,2) static by (simp add: Let_def g(3) [symmetric])
  moreover from this have "find (\<lambda>i. \<not> check_htlc_sig (deal_env D ?q) ch' ?i ?pt i (hsigs ! i)) [0 ..< length hsigs] = None"
    by (auto simp: find_None_iff)
  ultimately show "commit_sigs_err (deal_env D ?q) ch' ?i ?pt sig hsigs = None" by (simp add: commit_sigs_err_def Let_def)
qed

lemma no_exits:
  "maybe_send_stfu x \<noteq> Some (Inl e)" "send_revocation env x changed sl \<noteq> Some (Inl e)"
  by (auto simp: maybe_send_stfu_def send_revocation_def Let_def split: option.splits bool.splits prod.splits)

lemma commit_not_accused:
  assumes ok: "net_ok D N l" and head: "mail N p = COMMITMENT_SIGNED sig hsigs usig swap # ms" and "verifies D" and plain: "plain_channel D"
    and run: "handle_peer_commit_sig (deal_env D (other p)) uninit (daemon N (other p)) sig hsigs usig swap = Some (Inl e)"
  shows "\<not> accuses e"
proof -
  let ?q = "other p"
  have swap: "swap = None" using commit_head_signed [OF ok head] by (auto simp: signed_def signature_on_def)
  then obtain b ch' hs where ch: "channel_rcvd_commit (peer_channel (daemon N ?q)) = Some (b, ch', hs)"
    using run by (cases "channel_rcvd_commit (peer_channel (daemon N ?q))") (auto simp: handle_peer_commit_sig_def)
  note sigs = signatures_accepted [OF ok head assms(3) plain ch]
  have nosym: "\<not> channel_has ch' OPT_SEQ_SYMMETRIC" using plain_channel_has [OF plain sigs(2)] .
  have "e = EMPTY_COMMIT_AGAIN"
    using run sigs(1) nosym
    by (auto simp: handle_peer_commit_sig_def swap ch Let_def and_then_exit no_exits note_empty_commit_def split: if_splits option.splits)
  then show ?thesis by simp
qed

lemma revoke_not_accused:
  assumes ok: "net_ok D N l" and head: "mail N p = REVOKE_AND_ACK secret point us # ms" and "keyed D" and plain: "plain_channel D"
    and run: "handle_peer_revoke_and_ack (deal_env D (other p)) uninit (daemon N (other p)) secret point us = Some (Inl e)"
  shows False
proof -
  let ?q = "other p"
  have "turn_ok D N l ?q" using ok by (simp add: net_ok_def)
  moreover have rs: "filter is_revoke (mail N p) = REVOKE_AND_ACK secret point us # filter is_revoke ms" using head by simp
  ultimately have t: "turn (deal_points D p) (\<lambda>i. fst (revoke_commitment (deal_env D p) i)) (\<lambda>idx point m. \<forall>c \<in> commits l ?q. signed D ?q idx point m c)
      (daemon N ?q) (daemon N p) (filter is_commit (mail N ?q)) (REVOKE_AND_ACK secret point us # filter is_revoke ms)"
    by (simp add: turn_ok_def)
  let ?i = "next_index (daemon N ?q) REMOTE"
  have "revocations_received (daemon N ?q) = ?i - 2" "secret = fst (revoke_commitment (deal_env D p) (?i - 2))"
      "old_remote_per_commit (daemon N ?q) = deal_points D p (?i - 2)"
    using turn_revoked_cases [OF t] by auto
  moreover have "pubkey_from_privkey (deal_env D ?q) (fst (revoke_commitment (deal_env D p) (?i - 2))) = Some (deal_points D p (?i - 2))"
    using assms(3) by (simp add: keyed_def)
  moreover have "\<not> channel_has (peer_channel (daemon N ?q)) OPT_SEQ_SYMMETRIC"
    using plain_channel_has [OF plain] net_ok_follows [OF ok, of ?q] by blast
  ultimately show False
    using run by (auto simp: handle_peer_revoke_and_ack_def and_then_exit take_revoke_sig_def no_exits Let_def split: option.splits)
qed

text \<open>The other messages that come from an honest daemon.\<close>

lemma opener_head:
  assumes ok: "net_ok D N l" and head: "mail N p = m # ms" and m: "\<exists>v. m = UPDATE_FEE v \<or> m = UPDATE_BLOCKHEIGHT v"
  shows "opener (peer_channel (daemon N (other p))) = REMOTE"
proof -
  have "is_update m" using m by auto
  then obtain u us where u: "wire l p = u # us" "stands_for m u" by (rule recv_ready [OF ok head])
  moreover have "ids_ok (deal_opener D) l p (htlc_id (daemon N p))" using ok by (simp add: net_ok_def ledger_ok_def)
  ultimately have "p = deal_opener D" using m by (auto simp: ids_ok_def)
  then show ?thesis using opener_is(2) [OF net_ok_follows [OF ok, of "other p"]] by simp
qed

lemma fail_head:
  assumes ok: "net_ok D N l" and head: "mail N p = m # ms" and m: "stands_for m = (\<lambda>u. u = Remove (failed_id f) None)" "is_update m"
  shows "fst (fail_htlc_with (peer_channel (daemon N (other p))) LOCAL f) = CHANNEL_ERR_REMOVE_OK"
proof -
  obtain u us where "stands_for m u" "ledger_fits (deal_sha D) (deal_point_of D) p u (copy l (other p))"
    by (rule recv_ready [OF ok head m(2)])
  then show ?thesis using fail_accepted [OF net_ok_follows [OF ok, of "other p"], where owner = LOCAL] m(1) by simp
qed

lemma fulfil_head:
  assumes ok: "net_ok D N l" and head: "mail N p = UPDATE_FULFILL_HTLC i r # ms" and "keyed D"
  shows "fst (channel_fulfill_htlc (sha256 (env_crypto (deal_env D (other p)))) (point_of (deal_env D (other p)))
     (peer_channel (daemon N (other p))) LOCAL i r) = CHANNEL_ERR_REMOVE_OK"
proof -
  have "is_update (UPDATE_FULFILL_HTLC i r)" by simp
  then obtain u us where "stands_for (UPDATE_FULFILL_HTLC i r) u" "ledger_fits (deal_sha D) (deal_point_of D) p u (copy l (other p))"
    by (rule recv_ready [OF ok head])
  moreover have "sha256 (env_crypto (deal_env D (other p))) = deal_sha D" "point_of (deal_env D (other p)) = deal_point_of D"
    using assms(3) by (auto simp: keyed_def)
  ultimately show ?thesis using fulfill_accepted [OF net_ok_follows [OF ok, of "other p"], where owner = LOCAL] by simp
qed

text \<open>
  (C2) Two such daemons never exit with an accusation, as long as signatures on a commitment are
  accepted on the same commitment: whatever message is next for either of them, if it exits at all,
  it is not because of a commitment signature, an HTLC signature or their number, an unexpected
  revocation or a wrong revocation secret, a removal of an HTLC that is not there or not
  irrevocably committed or that the preimage does not open, nor because a feerate or a blockheight came from
  the wrong side.
\<close>

theorem honest_not_accused:
  assumes "start_net points N0" and "keyed (deal_of env points N0)" and "verifies (deal_of env points N0)"
    and "plain_channel (deal_of env points N0)" and "net_reaches env uninit N0 N"
    and "mail N p = m # ms" and "accuses e"
  shows "peer_in (env (other p)) uninit (daemon N (other p)) m \<noteq> Some (Inl e)"
proof
  assume exit: "peer_in (env (other p)) uninit (daemon N (other p)) m = Some (Inl e)"
  let ?D = "deal_of env points N0" and ?q = "other p"
  have "good ?D N" using good_reaches [of ?D uninit N0 N] good_start [OF assms(1)] assms(2,5) by simp
  then obtain l where ok: "net_ok ?D N l" by (auto simp: good_def)
  note opn = opener_head [OF ok assms(6)] and removal = fail_head [OF ok assms(6)]
  have fulfil: "fst (channel_fulfill_htlc (sha256 (env_crypto (env ?q))) (point_of (env ?q)) (peer_channel (daemon N ?q)) LOCAL i r)
      = CHANNEL_ERR_REMOVE_OK" if "m = UPDATE_FULFILL_HTLC i r" for i r
    using fulfil_head [OF ok] assms(2,6) that by simp
  have "\<not> accuses e"
  proof (cases m)
    case (UPDATE_ADD_HTLC)
    then show ?thesis using exit
      by (auto simp: peer_in_def handle_peer_add_htlc_def Let_def split: if_splits option.splits)
  next
    case (UPDATE_FULFILL_HTLC i r)
    then show ?thesis using exit fulfil by (auto simp: peer_in_def handle_peer_fulfill_htlc_def split: if_splits prod.splits)
  next
    case (UPDATE_FAIL_HTLC i reason)
    then show ?thesis
      using exit removal [of "\<lparr>failed_id = i, sha256_of_onion = None, badonion = 0, onion = reason\<rparr>"]
      by (auto simp: peer_in_def handle_peer_fail_htlc_def peer_fails_htlc_def fun_eq_iff split: if_splits prod.splits)
  next
    case (UPDATE_FAIL_MALFORMED_HTLC i sha code)
    then show ?thesis
      using exit removal [of "\<lparr>failed_id = i, sha256_of_onion = Some sha, badonion = code OR BADONION, onion = None\<rparr>"]
      by (auto simp: peer_in_def handle_peer_fail_malformed_htlc_def peer_fails_htlc_def fun_eq_iff split: if_splits prod.splits)
  next
    case (UPDATE_FEE)
    then show ?thesis using exit opn by (auto simp: peer_in_def handle_peer_feechange_def Let_def split: if_splits option.splits bool.splits prod.splits)
  next
    case (UPDATE_BLOCKHEIGHT)
    then show ?thesis using exit opn by (auto simp: peer_in_def handle_peer_blockheight_change_def Let_def split: if_splits option.splits)
  next
    case (COMMITMENT_SIGNED)
    then show ?thesis using commit_not_accused [OF ok] assms(3,4,6) exit by (auto simp: peer_in_def split: if_splits)
  next
    case (REVOKE_AND_ACK)
    then show ?thesis using revoke_not_accused [OF ok] assms(2,4,6) exit by (auto simp: peer_in_def split: if_splits)
  next
    case (SHUTDOWN)
    then show ?thesis using exit by (auto simp: peer_in_def handle_peer_shutdown_def Let_def split: if_splits)
  next
    case (STFU)
    then show ?thesis using exit by (auto simp: peer_in_def handle_stfu_def Let_def no_exits split: if_splits option.splits bool.splits)
  next
    case (SEQ_SWAP_REQUEST)
    then show ?thesis using exit by (auto simp: peer_in_def split: if_splits)
  qed
  then show False using assms(7) by simp
qed

section \<open>A run\<close>

text \<open>A schedule, run step by step.\<close>

datatype move = Order side master_order | Timer side | Deliver side

fun net_move :: "(side \<Rightarrow> channeld_env) \<Rightarrow> sym_tree \<Rightarrow> move \<Rightarrow> net \<Rightarrow> net option" where
  "net_move env uninit (Order p ord) N =
     (case req_in (env p) (daemon N p) ord of
        Some (Inr res) \<Rightarrow> if is_swap_order ord \<or> htlc_id (daemon N p) = - 1 then None else Some (put_out p res N)
      | _ \<Rightarrow> None)"
| "net_move env uninit (Timer p) N =
     (case send_commit_if_not_stfu (env p) (daemon N p) of Some (Inr res) \<Rightarrow> Some (put_out p res N) | _ \<Rightarrow> None)"
| "net_move env uninit (Deliver p) N =
     (case mail N p of
        [] \<Rightarrow> None
      | m # ms \<Rightarrow>
          (case peer_in (env (other p)) uninit (daemon N (other p)) m of
             Some (Inr res) \<Rightarrow> Some (put_out (other p) res (N\<lparr>mail := (mail N)(p := ms)\<rparr>))
           | _ \<Rightarrow> None))"

fun net_moves :: "(side \<Rightarrow> channeld_env) \<Rightarrow> sym_tree \<Rightarrow> move list \<Rightarrow> net \<Rightarrow> net option" where
  "net_moves env uninit [] N = Some N"
| "net_moves env uninit (a # as) N = (case net_move env uninit a N of None \<Rightarrow> None | Some N' \<Rightarrow> net_moves env uninit as N')"

lemma net_move_step: "net_move env uninit a N = Some N' \<Longrightarrow> net_step env uninit N N'"
  by (cases a) (auto intro: net_step.intros split: option.splits sum.splits list.splits if_splits)

lemma net_moves_reach: "net_moves env uninit as N = Some N' \<Longrightarrow> net_reaches env uninit N N'"
  by (induction as arbitrary: N) (auto intro: net_move_step converse_rtranclp_into_rtranclp split: option.splits)

definition demo_points :: "side \<Rightarrow> u64 \<Rightarrow> bytes" where
  "demo_points p i = [if p = LOCAL then 1 else 2, ucast i]"

definition demo_env :: "side \<Rightarrow> channeld_env" where
  "demo_env p =
     \<lparr>env_crypto = demo_crypto, env_chainparams = net_sequentia_testnet, marginal_feerate = (\<lambda>f. f), point_of = (\<lambda>_. None),
      commit_sigs = (\<lambda>ch i pt. (case channel_feerate ch REMOTE of None \<Rightarrow> [] | Some f \<Rightarrow> ucast f # pt, [])),
      check_commit_sig = (\<lambda>ch i pt sig. sig = (case channel_feerate ch LOCAL of None \<Rightarrow> [] | Some f \<Rightarrow> ucast f # pt)),
      num_htlc_txs = (\<lambda>ch i pt. 0), check_htlc_sig = (\<lambda>ch i pt k sig. True),
      sym_sign = (\<lambda>ch st. []), approve_sym_swap = (\<lambda>a b c d. True), marker_id = (\<lambda>_. []), check_schnorr_sig = (\<lambda>a b c. True),
      revoke_commitment = (\<lambda>i. (demo_points p i, demo_points p (i + 2))), pubkey_from_privkey = Some\<rparr>"

definition demo_peer :: "side \<Rightarrow> channel \<Rightarrow> peer" where
  "demo_peer p ch =
     \<lparr>peer_channel = ch, channel_ready = (\<lambda>_. True), next_index = (\<lambda>_. 1), revocations_received = 0, htlc_id = 0,
      our_features = \<lparr>bits = (\<lambda>_. [])\<rparr>, their_features = [], feerate_min = 253, feerate_max = 10000, desired_feerate = 253,
      our_blockheight = 0, next_local_per_commit = demo_points p 1, remote_per_commit = demo_points (other p) 1,
      old_remote_per_commit = demo_points (other p) 0, commit_timer = False, send_shutdown = False,
      shutdown_sent = (\<lambda>_. False), final_scriptpubkey = [], remote_upfront_shutdown_script = [], want_stfu = False,
      stfu_initiator = LOCAL, stfu_sent = (\<lambda>_. False), stfu_wait_single_msg = False, update_queue = [],
      dev_disable_commit = None, last_empty_commitment = 0, sym_kickoff_sig = [], sym_remote_pending = None\<rparr>"

text \<open>The peer's side of \<^const>\<open>demo_chan\<close>.\<close>

definition demo_mirror :: channel where
  "demo_mirror = demo_chan\<lparr>opener := REMOTE, channel_fee_states := new_fee_states REMOTE (Some 253),
     blockheight_states := Some (new_height_states REMOTE (Some 0)),
     view := (\<lambda>v. (view demo_chan v)\<lparr>owed := (\<lambda>s. owed (view demo_chan v) (other s))\<rparr>)\<rparr>"

definition demo_net :: net where
  "demo_net = \<lparr>daemon = (\<lambda>p. demo_peer p (if p = LOCAL then demo_chan else demo_mirror)), mail = (\<lambda>_. [])\<rparr>"

lemma demo_started: "start_net demo_points demo_net"
proof -
  have "mirrored demo_chan demo_mirror"
    by (auto simp: mirrored_def demo_fresh fresh_def demo_mirror_def nlanes_def lanes_of_def bal_def view_amounts_def all_sides_iff
        pos_slots_def below_5 fun_eq_iff new_fee_states_def new_height_states_def)
  then show ?thesis by (auto simp: start_net_def demo_net_def demo_peer_def Let_def)
qed

lemma demo_keyed: "keyed (deal_of demo_env demo_points demo_net)"
  by (simp add: keyed_def deal_of_def Let_def demo_env_def)

lemma demo_verifies: "verifies (deal_of demo_env demo_points demo_net)"
  unfolding verifies_def
proof (intro allI impI, elim conjE)
  fix p ch ch' idx point
  assume "seen_commitment p REMOTE ch = seen_commitment (other p) LOCAL ch'"
  then have "channel_feerate ch REMOTE = channel_feerate ch' LOCAL" by (simp add: seen_commitment_def)
  then show "let env = deal_env (deal_of demo_env demo_points demo_net) (other p);
      (sig, hsigs) = commit_sigs (deal_env (deal_of demo_env demo_points demo_net) p) ch idx point in
      check_commit_sig env ch' idx point sig \<and> length hsigs = num_htlc_txs env ch' idx point
      \<and> (\<forall>i < length hsigs. check_htlc_sig env ch' idx point i (hsigs ! i))"
    by (simp add: demo_env_def Let_def)
qed


lemmas demo_evals = demo_net_def demo_peer_def demo_env_def

definition demo_offered :: peer where
  "demo_offered = (demo_peer LOCAL (demo_chan\<lparr>htlcs := [demo_offer]\<rparr>))\<lparr>commit_timer := True, htlc_id := 1\<rparr>"

definition demo_add :: peer_msg where
  "demo_add = UPDATE_ADD_HTLC 0 (AMOUNT_MSAT 20000000) [] 500 []
     \<lparr>add_path_key = None, add_lane = None, add_point_lock = None, add_fields = None\<rparr>"

lemma demo_offer_accepted':
  "channel_add_lane_htlc net_sequentia_testnet (\<lambda>f. f) demo_chan LOCAL 0 (AMOUNT_MSAT 20000000) 500 [] [] None None True 0
     = Some (CHANNEL_ERR_ADD_OK, demo_chan\<lparr>htlcs := [demo_offer]\<rparr>, Some demo_offer, Some (AMOUNT_SAT 382))"
  by (simp add: add_evals demo_offer_def)

lemma demo_step1:
  "net_move demo_env demo_sym_tree (Order LOCAL (OFFER_HTLC (AMOUNT_MSAT 20000000) 500 [] [] None None None 0)) demo_net
   = Some \<lparr>daemon = (daemon demo_net)(LOCAL := demo_offered), mail = (\<lambda>_. [])(LOCAL := [demo_add])\<rparr>"
  by (simp add: demo_evals demo_offered_def demo_add_def req_in_def handle_master_request_later_def is_entering_stfu_def
      handle_offer_htlc_def demo_offer_accepted' set_lock_point_def start_commit_timer_def done_with_def put_out_def fun_eq_iff)


lemmas change_evals = change_htlcs_def change_swap_def both_sides_def both_ok_def to_balance_def balance_ok_def view_amounts_def
  htlc_incstate_def same_owner_succ_def htlc_state_flags_def flag_defs lane_upd_def state_has_def balance_add_htlc_def
  htlc_owner_def htlc_state_owner_def state_lt_iff htlc_is_dead_def fee_incstate_def blockheight_incstate_def inc_fee_state_def
  inc_height_state_def new_fee_states_def new_height_states_def put_view_amounts_def by_side_def Let_def

definition demo_signed :: channel where
  "demo_signed = demo_chan\<lparr>view := (view demo_chan)(REMOTE := (view demo_chan REMOTE)\<lparr>owed := by_side (AMOUNT_MSAT 380000000) (AMOUNT_MSAT 600000000)\<rparr>),
     sym_lane_bal := [], htlcs := [demo_offer\<lparr>h_state := SENT_ADD_COMMIT\<rparr>], chan_swap := None,
     channel_fee_states := new_fee_states LOCAL (Some 253), blockheight_states := Some (new_height_states LOCAL (Some 0))\<rparr>"

lemma demo_commit_sent:
  "channel_sending_commit (demo_chan\<lparr>htlcs := [demo_offer]\<rparr>) = Some (True, demo_signed, [demo_offer\<lparr>h_state := SENT_ADD_COMMIT\<rparr>])"
  by (simp add: channel_sending_commit_def change_evals demo_offer_def new_htlc_def demo_signed_def)

lemma demo_type [simp]:
  "\<not> channel_type_has channel_type_static_remotekey 178"
proof -
  have "\<not> feature_is_set [] x" for x by (simp add: feature_is_set_def)
  then show "\<not> channel_type_has channel_type_static_remotekey 178"
    by (simp add: COMPULSORY_FEATURE_def OPTIONAL_FEATURE_def channel_type_has_def feature_offered_def
        channel_type_static_remotekey_def type_set_def new_channel_type_def fbit.member_ins)
qed

lemma demo_chan_more [simp]: "lease_expiry demo_chan = 0" "chan_type demo_signed = channel_type_static_remotekey"
    "channel_fee_states demo_signed = new_fee_states LOCAL (Some 253)" "opener demo_signed = LOCAL"
  by (simp_all add: demo_chan_def demo_open_simps demo_signed_def)

definition demo_sig :: peer_msg where
  "demo_sig = COMMITMENT_SIGNED [253, 2, 1] [] None None"

definition demo_waiting :: peer where
  "demo_waiting = demo_offered\<lparr>peer_channel := demo_signed, next_index := (\<lambda>_. 1)(REMOTE := 2)\<rparr>"

lemma demo_step2:
  "net_move demo_env demo_sym_tree (Timer LOCAL) \<lparr>daemon = (daemon demo_net)(LOCAL := demo_offered), mail = (\<lambda>_. [])(LOCAL := [demo_add])\<rparr>
   = Some \<lparr>daemon = (daemon demo_net)(LOCAL := demo_waiting), mail = (\<lambda>_. [])(LOCAL := [demo_add, demo_sig])\<rparr>"
  by (simp add: demo_evals demo_offered_def demo_waiting_def demo_sig_def demo_points_def send_commit_if_not_stfu_def send_commit_def Let_def send_fee_update_def want_fee_update_def
      is_entering_stfu_def channel_feerate_def get_feerate_def new_fee_states_def flag_simps send_blockheight_update_def want_blockheight_update_def
      commit_now_def demo_commit_sent send_commit_part_def maybe_send_shutdown_def dec_disable_commit_def start_commit_timer_def
      put_out_def channel_has_def and_then_def done_with_def)

lemma demo_mirror_simps [simp]:
  "owed (view demo_mirror v) LOCAL = AMOUNT_MSAT 600000000" "owed (view demo_mirror v) REMOTE = AMOUNT_MSAT 400000000"
  "lowest_splice_amnt (view demo_mirror v) s = 0" "htlcs demo_mirror = []" "chan_swap demo_mirror = None"
  "chan_swap_req demo_mirror = None" "opener demo_mirror = REMOTE" "config demo_mirror s = demo_config"
  "sym_lanes demo_mirror = None" "sym_lane_bal demo_mirror = []" "credit_floor demo_mirror = AMOUNT_SAT 0"
  "channel_fee_states demo_mirror = new_fee_states REMOTE (Some 253)"
  "blockheight_states demo_mirror = Some (new_height_states REMOTE (Some 0))"
  "chan_type demo_mirror = channel_type_static_remotekey" "option_wumbo demo_mirror = False"
  by (simp_all add: demo_mirror_def)

definition demo_taken :: htlc where
  "demo_taken = new_htlc RCVD_ADD_HTLC 0 (AMOUNT_MSAT 20000000) 500 [] [] None None 0"

lemma demo_add_accepted:
  "channel_add_lane_htlc net_sequentia_testnet (\<lambda>f. f) demo_mirror REMOTE 0 (AMOUNT_MSAT 20000000) 500 [] [] None None False 0
     = Some (CHANNEL_ERR_ADD_OK, demo_mirror\<lparr>htlcs := [demo_taken]\<rparr>, Some demo_taken, Some (AMOUNT_SAT 382))"
  by (simp add: add_evals demo_taken_def)

definition demo_taker :: peer where
  "demo_taker = demo_peer REMOTE (demo_mirror\<lparr>htlcs := [demo_taken]\<rparr>)"

lemma demo_step3:
  "net_move demo_env demo_sym_tree (Deliver LOCAL) \<lparr>daemon = (daemon demo_net)(LOCAL := demo_waiting), mail = (\<lambda>_. [])(LOCAL := [demo_add, demo_sig])\<rparr>
   = Some \<lparr>daemon = (daemon demo_net)(LOCAL := demo_waiting, REMOTE := demo_taker), mail = (\<lambda>_. [])(LOCAL := [demo_sig], REMOTE := [])\<rparr>"
  by (simp add: demo_evals demo_add_def demo_taker_def peer_in_def is_stfu_active_def handle_peer_add_htlc_def Let_def demo_add_accepted
      set_lock_point_def done_with_def put_out_def)

definition demo_committed :: channel where
  "demo_committed = demo_mirror\<lparr>view := (view demo_mirror)(LOCAL := (view demo_mirror LOCAL)\<lparr>owed := by_side (AMOUNT_MSAT 600000000) (AMOUNT_MSAT 380000000)\<rparr>),
     sym_lane_bal := [], htlcs := [demo_taken\<lparr>h_state := RCVD_ADD_COMMIT\<rparr>], chan_swap := None,
     channel_fee_states := new_fee_states REMOTE (Some 253), blockheight_states := Some (new_height_states REMOTE (Some 0))\<rparr>"

lemma demo_commit_taken:
  "channel_rcvd_commit (demo_mirror\<lparr>htlcs := [demo_taken]\<rparr>) = Some (True, demo_committed, [demo_taken\<lparr>h_state := RCVD_ADD_COMMIT\<rparr>])"
  by (simp add: channel_rcvd_commit_def change_evals demo_taken_def new_htlc_def demo_committed_def)

definition demo_revoked :: channel where
  "demo_revoked = demo_committed\<lparr>view := (view demo_committed)(REMOTE := (view demo_committed REMOTE)\<lparr>owed := by_side (AMOUNT_MSAT 600000000) (AMOUNT_MSAT 400000000)\<rparr>),
     sym_lane_bal := [], htlcs := [demo_taken\<lparr>h_state := SENT_ADD_REVOCATION\<rparr>], chan_swap := None,
     channel_fee_states := new_fee_states REMOTE (Some 253), blockheight_states := Some (new_height_states REMOTE (Some 0))\<rparr>"

lemma demo_revoke_sent: "channel_sending_revoke_and_ack demo_committed = Some (True, demo_revoked)"
  by (simp add: channel_sending_revoke_and_ack_def change_evals demo_taken_def new_htlc_def demo_committed_def demo_revoked_def)

lemma demo_affords: "can_opener_afford_feerate net_sequentia_testnet demo_committed 253 = Some True"
  by (simp add: can_opener_afford_feerate_def demo_committed_def gather_htlcs_def demo_taken_def add_evals htlc_has_def by_side_def)

lemma demo_feerate: "channel_feerate demo_committed LOCAL = Some 253"
  by (simp add: channel_feerate_def get_feerate_def demo_committed_def new_fee_states_def flag_simps)

definition demo_revocation :: peer_msg where
  "demo_revocation = REVOKE_AND_ACK [2, 0] [2, 2] None"

definition demo_revoker :: peer where
  "demo_revoker = demo_taker\<lparr>peer_channel := demo_revoked, next_index := (\<lambda>_. 1)(LOCAL := 2), commit_timer := True, next_local_per_commit := [2, 2]\<rparr>"

lemma demo_committed_simps [simp]:
  "\<not> channel_has demo_committed 178" "opener demo_committed = REMOTE" "chan_swap demo_revoked = None" "opener demo_revoked = REMOTE"
  "marshall_htlc_info [demo_taken\<lparr>h_state := RCVD_ADD_COMMIT\<rparr>]
     = Some ([\<lparr>ad_id = 0, ad_amount = AMOUNT_MSAT 20000000, ad_payment_hash = [], ad_cltv_expiry = 500, ad_onion = [], ad_fail_immediate = False,
         ad_path_key = None, ad_extra_tlvs = None, ad_lock_point = None, ad_lane = 0\<rparr>], [], [], [])"
  by (simp_all add: channel_has_def demo_committed_def demo_revoked_def demo_taken_def new_htlc_def abs_locktime_to_blocks_def SECONDS_POINT_def)

lemma demo_step4:
  "net_move demo_env demo_sym_tree (Deliver LOCAL)
      \<lparr>daemon = (daemon demo_net)(LOCAL := demo_waiting, REMOTE := demo_taker), mail = (\<lambda>_. [])(LOCAL := [demo_sig], REMOTE := [])\<rparr>
   = Some \<lparr>daemon = (daemon demo_net)(LOCAL := demo_waiting, REMOTE := demo_revoker), mail = (\<lambda>_. [])(LOCAL := [], REMOTE := [demo_revocation])\<rparr>"
  by (simp add: demo_evals demo_sig_def demo_taker_def demo_revoker_def demo_revocation_def demo_points_def peer_in_def is_stfu_active_def
      handle_peer_commit_sig_def Let_def demo_commit_taken demo_affords demo_feerate commit_sigs_err_def send_revocation_def demo_revoke_sent
      start_commit_timer_def channel_sym_swap_done_def make_revocation_msg_def maybe_send_stfu_def want_fee_update_def
      and_then_def done_with_def put_out_def del: marshall_htlc_info.simps)

definition demo_acked :: channel where
  "demo_acked = demo_signed\<lparr>view := (view demo_signed)(LOCAL := (view demo_signed LOCAL)\<lparr>owed := by_side (AMOUNT_MSAT 400000000) (AMOUNT_MSAT 600000000)\<rparr>),
     sym_lane_bal := [], htlcs := [demo_offer\<lparr>h_state := RCVD_ADD_REVOCATION\<rparr>], chan_swap := None,
     channel_fee_states := new_fee_states LOCAL (Some 253), blockheight_states := Some (new_height_states LOCAL (Some 0))\<rparr>"

lemma demo_revoke_taken:
  "channel_rcvd_revoke_and_ack demo_signed = Some (True, demo_acked, [demo_offer\<lparr>h_state := RCVD_ADD_REVOCATION\<rparr>])"
  by (simp add: channel_rcvd_revoke_and_ack_def change_evals demo_offer_def new_htlc_def demo_signed_def demo_acked_def)

definition demo_settled :: peer where
  "demo_settled = demo_waiting\<lparr>peer_channel := demo_acked, revocations_received := 1, commit_timer := True,
     old_remote_per_commit := [2, 1], remote_per_commit := [2, 2]\<rparr>"

lemma demo_acked_simps [simp]: "\<not> channel_has demo_signed 178" "chan_swap demo_acked = None"
  by (simp_all add: channel_has_def demo_acked_def)

lemma demo_step5:
  "net_move demo_env demo_sym_tree (Deliver REMOTE)
      \<lparr>daemon = (daemon demo_net)(LOCAL := demo_waiting, REMOTE := demo_revoker), mail = (\<lambda>_. [])(LOCAL := [], REMOTE := [demo_revocation])\<rparr>
   = Some \<lparr>daemon = (daemon demo_net)(REMOTE := demo_revoker, LOCAL := demo_settled), mail = (\<lambda>_. [])(REMOTE := [], LOCAL := [])\<rparr>"
  by (simp add: demo_evals demo_revocation_def demo_offered_def demo_waiting_def demo_settled_def demo_points_def peer_in_def is_stfu_active_def
      handle_peer_revoke_and_ack_def take_revoke_sig_def Let_def demo_revoke_taken
      start_commit_timer_def channel_sym_swap_done_def maybe_send_stfu_def
      and_then_def done_with_def put_out_def fun_upd_twist)

definition demo_moves :: "move list" where
  "demo_moves = [Order LOCAL (OFFER_HTLC (AMOUNT_MSAT 20000000) 500 [] [] None None None 0), Timer LOCAL, Deliver LOCAL, Deliver LOCAL, Deliver REMOTE]"

lemma demo_run3:
  "net_moves demo_env demo_sym_tree (take 3 demo_moves) demo_net
   = Some \<lparr>daemon = (daemon demo_net)(LOCAL := demo_waiting, REMOTE := demo_taker), mail = (\<lambda>_. [])(LOCAL := [demo_sig], REMOTE := [])\<rparr>"
  by (simp add: demo_moves_def demo_step1 demo_step2 demo_step3 del: net_move.simps)

lemma demo_run5:
  "net_moves demo_env demo_sym_tree demo_moves demo_net
   = Some \<lparr>daemon = (daemon demo_net)(REMOTE := demo_revoker, LOCAL := demo_settled), mail = (\<lambda>_. [])(REMOTE := [], LOCAL := [])\<rparr>"
  by (simp add: demo_moves_def demo_step1 demo_step2 demo_step3 demo_step4 demo_step5 del: net_move.simps)

lemma demo_unsymmetric: "plain_channel (deal_of demo_env demo_points demo_net)"
  by (auto simp: plain_channel_def demo_evals static_def channel_has_def)

theorem peers_agree_witness:
  "\<exists>N. net_moves demo_env demo_sym_tree demo_moves demo_net = Some N
     \<and> map h_state (htlcs (peer_channel (daemon N LOCAL))) = [RCVD_ADD_REVOCATION]
     \<and> map h_state (htlcs (peer_channel (daemon N REMOTE))) = [SENT_ADD_REVOCATION]
     \<and> seen_commitment LOCAL REMOTE (peer_channel (daemon N LOCAL)) = seen_commitment REMOTE LOCAL (peer_channel (daemon N REMOTE))"
  using peers_agree [OF demo_started demo_keyed net_moves_reach [OF demo_run5], of LOCAL REMOTE]
  by (auto simp: demo_run5 fun_upd_idem demo_settled_def demo_revoker_def demo_acked_def demo_revoked_def)

theorem honest_not_accused_witness:
  "\<exists>N. net_moves demo_env demo_sym_tree (take 3 demo_moves) demo_net = Some N
     \<and> mail N LOCAL = [demo_sig] \<and> peer_in (demo_env REMOTE) demo_sym_tree (daemon N REMOTE) demo_sig \<noteq> Some (Inl BAD_COMMIT_SIG)"
  using honest_not_accused [OF demo_started demo_keyed demo_verifies demo_unsymmetric net_moves_reach [OF demo_run3], of LOCAL demo_sig "[]" BAD_COMMIT_SIG]
  by (auto simp: demo_run3)

end
