(* ===== verification/Reestablish.thy ===== *)
theory Reestablish
  imports Peers Sorts
begin

text \<open>
  Reconnection: \<^verbatim>\<open>peer_reconnect\<close> of \<^verbatim>\<open>channeld/channeld.c\<close>, for a channel with no splice on its way. Two daemons
  whose connection broke at any point of a run are started again, each with what lightningd
  kept, exchange \<^verbatim>\<open>channel_reestablish\<close>, and send again exactly the signatures and the revocations that were lost, in the
  order in which they were first sent.
\<close>

section \<open>What lightningd keeps\<close>

text \<open>
  From what the daemon tells it: whether the last of our signatures and revocations was a revocation, the HTLCs
  of our last signature, and the last secret of the peer. A secret goes to a chain of secrets, from which the
  last one is read; it is kept as itself.
\<close>

record kept =
  last_was_revoke :: bool
  last_sent_commit :: "changed_htlc list"
  last_secret :: bytes

fun keep :: "kept \<Rightarrow> peer_out \<Rightarrow> kept" where
  "keep k (To_Master (SENDING_COMMITSIG _ changed _)) = k\<lparr>last_was_revoke := False, last_sent_commit := changed\<rparr>"
| "keep k (To_Master (GOT_COMMITSIG _ _ _ _ _ _)) = k\<lparr>last_was_revoke := True\<rparr>"
| "keep k (To_Master (GOT_REVOKE _ secret _ _ _)) = k\<lparr>last_secret := secret\<rparr>"
| "keep k _ = k"

section \<open>The messages\<close>

text \<open>Of the fields at the end of the message, only the funding that the peer wants to go on with.\<close>

record reestablish =
  next_commitment_number :: u64
  next_revocation_number :: u64
  your_last_secret :: bytes
  my_current_point :: bytes
  next_funding_txid :: "bytes option"

text \<open>What the signer answers: the point of one of our commitments, and whether a secret is the one of an index.\<close>

record hsm =
  get_per_commitment_point :: "u64 \<Rightarrow> bytes"
  check_future_secret :: "u64 \<Rightarrow> bytes \<Rightarrow> bool"

datatype reconnect_err =
    DAEMON_EXIT peer_err
  | BAD_REESTABLISH_MSG
  | BAD_REVOCATION_NUMBER
  | REVOCATION_NUMBER_PAST
  | BAD_FUTURE_SECRET
  | FALLEN_BEHIND
  | BAD_COMMITMENT_NUMBER
  | BAD_LAST_SECRET
  | BAD_CURRENT_POINT
  | CANT_FIND_HTLC u64
  | NEXT_FUNDING_UNKNOWN

datatype reconnect_out = Sent peer_out | CHANNEL_READY bytes | REESTABLISHED

type_synonym 'a reconnect = "(reconnect_err, reconnect_out, 'a) process"

definition as_reconnect :: "'a act \<Rightarrow> 'a reconnect" where
  "as_reconnect a =
     (case a of
        None \<Rightarrow> None
      | Some (Inl e) \<Rightarrow> exits (DAEMON_EXIT e)
      | Some (Inr (x, outs)) \<Rightarrow> done_with x (map Sent outs))"

lemma as_reconnect_done [simp]: "as_reconnect (done_with x outs) = done_with x (map Sent outs)"
  by (simp add: as_reconnect_def done_with_def)

text \<open>The message that \<^verbatim>\<open>peer_reconnect\<close> sends first.\<close>

definition reestablish_msg :: "hsm \<Rightarrow> peer \<Rightarrow> kept \<Rightarrow> reestablish" where
  "reestablish_msg hsm p k =
     \<lparr>next_commitment_number = next_index p LOCAL, next_revocation_number = revocations_received p,
      your_last_secret = last_secret k,
      my_current_point = (if channel_has (peer_channel p) OPT_STATIC_REMOTEKEY then remote_per_commit p
                          else get_per_commitment_point hsm (next_index p LOCAL - 1)),
      next_funding_txid = None\<rparr>"

text \<open>
  Then it reads; what is not a \<^verbatim>\<open>channel_reestablish\<close> is stashed, up to eleven messages. \<open>None\<close>: it has not
  come yet.
\<close>

datatype incoming = EARLY peer_msg | REESTABLISH reestablish

definition capture_premature_msg :: "peer_msg list \<Rightarrow> incoming \<Rightarrow> peer_msg list option" where
  "capture_premature_msg stash msg =
     (case msg of
        REESTABLISH _ \<Rightarrow> None
      | EARLY m \<Rightarrow> if length stash > 10 then None else Some (stash @ [m]))"

fun read_reestablish ::
  "peer_msg list \<Rightarrow> incoming list \<Rightarrow> (reconnect_err + (peer_msg list \<times> reestablish \<times> incoming list)) option" where
  "read_reestablish stash [] = None"
| "read_reestablish stash (m # ms) =
     (case capture_premature_msg stash m of
        Some stash' \<Rightarrow> read_reestablish stash' ms
      | None \<Rightarrow> (case m of
                   REESTABLISH r \<Rightarrow> Some (Inr (stash, r, ms))
                 | EARLY _ \<Rightarrow> Some (Inl BAD_REESTABLISH_MSG)))"

section \<open>The checks\<close>

text \<open>The peer is ahead of us: it has to prove it, and the channel is given up in either case.\<close>

definition check_future_dataloss_fields :: "hsm \<Rightarrow> reestablish \<Rightarrow> reconnect_err" where
  "check_future_dataloss_fields hsm r =
     (if \<not> check_future_secret hsm (next_revocation_number r - 1) (your_last_secret r) then BAD_FUTURE_SECRET
      else FALLEN_BEHIND)"

definition check_extra_fields :: "peer \<Rightarrow> bool" where
  "check_extra_fields p \<longleftrightarrow>
     feature_negotiated (our_features p) (their_features p) OPT_DATA_LOSS_PROTECT
     \<or> channel_has (peer_channel p) OPT_STATIC_REMOTEKEY"

definition retransmit_revoke_and_ack :: "hsm \<Rightarrow> peer \<Rightarrow> reestablish \<Rightarrow> reconnect_err + bool" where
  "retransmit_revoke_and_ack hsm p r =
     (if next_revocation_number r = next_index p LOCAL - 2 then
        (if next_index p LOCAL < 2 then Inl BAD_REVOCATION_NUMBER else Inr True)
      else if next_revocation_number r < next_index p LOCAL - 1 then Inl REVOCATION_NUMBER_PAST
      else if next_revocation_number r > next_index p LOCAL - 1 then
        (if \<not> check_extra_fields p then Inl BAD_REVOCATION_NUMBER else Inl (check_future_dataloss_fields hsm r))
      else Inr False)"

definition retransmit_commitment_signed :: "peer \<Rightarrow> reestablish \<Rightarrow> reconnect_err + bool" where
  "retransmit_commitment_signed p r =
     (if next_commitment_number r = next_index p REMOTE - 1 then
        (if next_commitment_number r = 0 then Inl BAD_COMMITMENT_NUMBER else Inr (next_funding_txid r = None))
      else if next_commitment_number r \<noteq> next_index p REMOTE then Inl BAD_COMMITMENT_NUMBER
      else Inr False)"

definition check_current_dataloss_fields :: "channeld_env \<Rightarrow> peer \<Rightarrow> reestablish \<Rightarrow> unit reconnect" where
  "check_current_dataloss_fields env p r =
     (let nrn = next_revocation_number r; ncn = next_commitment_number r in
      if \<not> (nrn = next_index p LOCAL - 2 \<or> nrn = next_index p LOCAL - 1)
         \<or> \<not> (ncn = next_index p REMOTE \<or> ncn = next_index p REMOTE - 1) then None
      else if your_last_secret r \<noteq> (if nrn = 0 then replicate 32 0 else fst (revoke_commitment env (nrn - 1)))
      then exits BAD_LAST_SECRET
      else if channel_has (peer_channel p) OPT_STATIC_REMOTEKEY then done_with () []
      else if my_current_point r
              \<noteq> (if ncn = revocations_received p + 1 then old_remote_per_commit p else remote_per_commit p)
      then exits BAD_CURRENT_POINT
      else done_with () [])"

section \<open>Sending again\<close>

definition resend_revoke :: "channeld_env \<Rightarrow> peer \<Rightarrow> unit reconnect" where
  "resend_revoke env p =
     (let ch = peer_channel p; again = (\<lambda>sym_sig. done_with ()
            [Sent (To_Peer (snd (make_revocation_msg env (next_index p LOCAL - 2) sym_sig)))]) in
      if channel_has ch OPT_SEQ_SYMMETRIC then
        (case sym_channeld_state (env_crypto env) ch LOCAL (next_index p LOCAL - 1) of
           None \<Rightarrow> exits (DAEMON_EXIT STATE_NOT_BUILT)
         | Some st \<Rightarrow> again (Some (sym_sign env ch st)))
      else again None)"

definition cmp_changed_htlc_id :: "changed_htlc \<Rightarrow> changed_htlc \<Rightarrow> int" where
  "cmp_changed_htlc_id a b =
     (if changed_id a > changed_id b then 1 else if changed_id a < changed_id b then - 1 else 0)"

definition last_htlc :: "channel \<Rightarrow> changed_htlc \<Rightarrow> htlc option" where
  "last_htlc ch c = channel_get_htlc ch (htlc_state_owner (newstate c)) (changed_id c)"

fun resend_removals :: "channel \<Rightarrow> changed_htlc list \<Rightarrow> unit reconnect" where
  "resend_removals ch [] = done_with () []"
| "resend_removals ch (c # cs) =
     (case last_htlc ch c of
        None \<Rightarrow> exits (CANT_FIND_HTLC (changed_id c))
      | Some h \<Rightarrow>
          and_then (if h_state h = SENT_REMOVE_COMMIT
                    then (case send_fail_or_fulfill h of
                            Inl e \<Rightarrow> exits (DAEMON_EXIT e) | Inr msg \<Rightarrow> done_with () [Sent (To_Peer msg)])
                    else done_with () []) (\<lambda>_. resend_removals ch cs))"

definition add_again :: "htlc \<Rightarrow> peer_msg run" where
  "add_again h =
     do { blocks \<leftarrow> abs_locktime_to_blocks (h_expiry h);
          Some (UPDATE_ADD_HTLC (h_id h) (h_amount h) (h_rhash h) blocks (h_routing h)
            \<lparr>add_path_key = h_path_key h, add_lane = (if h_lane h \<noteq> 0 then Some (h_lane h) else None),
             add_point_lock = h_lock_point h, add_fields = h_extra_tlvs h\<rparr>) }"

fun resend_adds :: "channel \<Rightarrow> changed_htlc list \<Rightarrow> unit reconnect" where
  "resend_adds ch [] = done_with () []"
| "resend_adds ch (c # cs) =
     (case last_htlc ch c of
        None \<Rightarrow> exits (CANT_FIND_HTLC (changed_id c))
      | Some h \<Rightarrow>
          and_then (if h_state h = SENT_ADD_COMMIT
                    then (case add_again h of None \<Rightarrow> None | Some msg \<Rightarrow> done_with () [Sent (To_Peer msg)])
                    else done_with () []) (\<lambda>_. resend_adds ch cs))"

definition resend_rates :: "channel \<Rightarrow> unit reconnect" where
  "resend_rates ch =
     (if opener ch \<noteq> LOCAL then done_with () []
      else case channel_feerate ch REMOTE of
        None \<Rightarrow> None
      | Some rate \<Rightarrow>
          and_then (done_with () [Sent (To_Peer (UPDATE_FEE rate))]) (\<lambda>_.
          if lease_expiry ch = 0 then done_with () []
          else case channel_blockheight ch REMOTE of
            None \<Rightarrow> None
          | Some blocks \<Rightarrow> done_with () [Sent (To_Peer (UPDATE_BLOCKHEIGHT blocks))]))"

text \<open>\<^verbatim>\<open>send_commit_part\<close> with \<^verbatim>\<open>notify_master\<close> false: lightningd is not told again.\<close>

definition commit_part_again :: "channeld_env \<Rightarrow> peer \<Rightarrow> peer reconnect" where
  "commit_part_again env p =
     (case send_commit_part env p [] (next_index p REMOTE - 1) of
        None \<Rightarrow> None
      | Some (Inl e) \<Rightarrow> exits (DAEMON_EXIT e)
      | Some (Inr ((p', msg), _)) \<Rightarrow> done_with p' [Sent (To_Peer msg)])"

definition resend_commitment :: "channeld_env \<Rightarrow> peer \<Rightarrow> changed_htlc list \<Rightarrow> peer reconnect" where
  "resend_commitment env p sent_last =
     (let cs = asort cmp_changed_htlc_id sent_last; ch = peer_channel p in
      and_then (resend_removals ch cs) (\<lambda>_.
      and_then (resend_adds ch cs) (\<lambda>_.
      and_then (resend_rates ch) (\<lambda>_. commit_part_again env p))))"

text \<open>The removals that were not yet in a commitment.\<close>

fun resend_pending :: "htlc list \<Rightarrow> unit reconnect" where
  "resend_pending [] = done_with () []"
| "resend_pending (h # hs) =
     and_then (if h_state h = SENT_REMOVE_HTLC
               then (case send_fail_or_fulfill h of
                       Inl e \<Rightarrow> exits (DAEMON_EXIT e) | Inr msg \<Rightarrow> done_with () [Sent (To_Peer msg)])
               else done_with () []) (\<lambda>_. resend_pending hs)"

fun peer_in_all :: "channeld_env \<Rightarrow> sym_tree \<Rightarrow> peer \<Rightarrow> peer_msg list \<Rightarrow> peer act" where
  "peer_in_all env uninit p [] = done_with p []"
| "peer_in_all env uninit p (m # ms) = and_then (peer_in env uninit p m) (\<lambda>p'. peer_in_all env uninit p' ms)"

section \<open>Reconnecting\<close>

text \<open>From where the peer's message has been read; \<open>early\<close> are the messages that came before it.\<close>

definition ready_again :: "peer \<Rightarrow> reestablish \<Rightarrow> unit reconnect" where
  "ready_again p r =
     done_with () (if channel_ready p LOCAL \<and> next_index p LOCAL = 1 \<and> next_commitment_number r = 1
                   then [CHANNEL_READY (next_local_per_commit p)] else [])"

definition resend_in_order :: "channeld_env \<Rightarrow> peer \<Rightarrow> kept \<Rightarrow> bool \<Rightarrow> bool \<Rightarrow> peer reconnect" where
  "resend_in_order env p k revoke commit =
     and_then (if revoke \<and> \<not> last_was_revoke k then resend_revoke env p else done_with () []) (\<lambda>_.
     and_then (if commit then resend_commitment env p (last_sent_commit k) else done_with p []) (\<lambda>p'.
     and_then (if revoke \<and> last_was_revoke k then resend_revoke env p' else done_with () []) (\<lambda>_. done_with p' [])))"

definition peer_reconnect ::
  "hsm \<Rightarrow> channeld_env \<Rightarrow> sym_tree \<Rightarrow> peer \<Rightarrow> kept \<Rightarrow> reestablish \<Rightarrow> peer_msg list \<Rightarrow> peer reconnect" where
  "peer_reconnect hsm env uninit p k r early =
     (if next_funding_txid r \<noteq> None \<and> next_funding_txid r \<noteq> Some (outpoint_txid (funding (peer_channel p)))
      then exits NEXT_FUNDING_UNKNOWN
      else and_then (ready_again p r) (\<lambda>_.
        case retransmit_revoke_and_ack hsm p r of
          Inl e \<Rightarrow> exits e
        | Inr revoke \<Rightarrow>
            (case retransmit_commitment_signed p r of
               Inl e \<Rightarrow> exits e
             | Inr commit \<Rightarrow>
                 and_then (if check_extra_fields p then check_current_dataloss_fields env p r else done_with () []) (\<lambda>_.
                 and_then (resend_in_order env p k revoke commit) (\<lambda>p1.
                 and_then (as_reconnect (maybe_send_shutdown p1)) (\<lambda>p2.
                 and_then (done_with (start_commit_timer p2) [REESTABLISHED]) (\<lambda>p3.
                 and_then (resend_pending (htlcs (peer_channel p3))) (\<lambda>_.
                 as_reconnect (peer_in_all env uninit p3 early)))))))))"
section \<open>Books\<close>

text \<open>Signatures and revocations, as they are told to lightningd and as they are sent; secrets as they are told.\<close>

abbreviation signs :: "peer_msg \<Rightarrow> bool" where
  "signs m \<equiv> is_commit m \<or> is_revoke m"

fun told_mark :: "peer_out \<Rightarrow> bool list" where
  "told_mark (To_Master (SENDING_COMMITSIG _ _ _)) = [False]"
| "told_mark (To_Master (GOT_COMMITSIG _ _ _ _ _ _)) = [True]"
| "told_mark _ = []"

fun told_secret :: "peer_out \<Rightarrow> bytes list" where
  "told_secret (To_Master (GOT_REVOKE _ secret _ _ _)) = [secret]"
| "told_secret _ = []"

abbreviation told_marks :: "peer_out list \<Rightarrow> bool list" where
  "told_marks outs \<equiv> concat (map told_mark outs)"

abbreviation told_secrets :: "peer_out list \<Rightarrow> bytes list" where
  "told_secrets outs \<equiv> concat (map told_secret outs)"

abbreviation sent_marks :: "peer_out list \<Rightarrow> bool list" where
  "sent_marks outs \<equiv> map is_revoke (filter signs (to_peer outs))"

lemma keep_fields:
  "last_was_revoke (keep k x) = (if told_mark x = [] then last_was_revoke k else last (told_mark x))"
  "last_secret (keep k x) = (if told_secret x = [] then last_secret k else last (told_secret x))"
  by (cases "(k, x)" rule: keep.cases; simp)+

lemma foldl_keep:
  "last_was_revoke (foldl keep k outs) = (if told_marks outs = [] then last_was_revoke k else last (told_marks outs))"
  "last_secret (foldl keep k outs) = (if told_secrets outs = [] then last_secret k else last (told_secrets outs))"
proof (induction outs arbitrary: k)
  case (Cons x outs)
  { case 1 show ?case using Cons.IH(1) by (auto simp: keep_fields) }
  { case 2 show ?case using Cons.IH(2) by (auto simp: keep_fields) }
qed simp_all

text \<open>
  What a handler does to the books: it tells what it sends, in the same order, and counts it; \<open>ss\<close> are
  the secrets it tells.
\<close>

definition booked :: "bytes list \<Rightarrow> peer \<Rightarrow> peer act \<Rightarrow> bool" where
  "booked ss x a \<longleftrightarrow> (\<forall>y outs. a = Some (Inr (y, outs)) \<longrightarrow>
     told_marks outs = sent_marks outs \<and> told_secrets outs = ss \<and>
     next_index y LOCAL = next_index x LOCAL + of_nat (length (filter is_revoke (to_peer outs))) \<and>
     next_index y REMOTE = next_index x REMOTE + of_nat (length (filter is_commit (to_peer outs))) \<and>
     revocations_received y = revocations_received x + of_nat (length ss))"

lemma booked_stuck [simp, intro]: "booked ss x None" "booked ss x (exits e)"
  by (simp_all add: booked_def)

lemma booked_then:
  assumes "booked ss x a" and "\<And>y. booked [] y (f y)"
  shows "booked ss x (and_then a f)"
  unfolding booked_def
proof (intro allI impI)
  fix z outs assume "and_then a f = Some (Inr (z, outs))"
  then obtain y o1 o2 where "a = Some (Inr (y, o1))" "f y = Some (Inr (z, o2))" "outs = o1 @ o2"
    by (auto simp: and_then_result)
  with assms(1) assms(2) [of y]
  show "told_marks outs = sent_marks outs \<and> told_secrets outs = ss \<and>
     next_index z LOCAL = next_index x LOCAL + of_nat (length (filter is_revoke (to_peer outs))) \<and>
     next_index z REMOTE = next_index x REMOTE + of_nat (length (filter is_commit (to_peer outs))) \<and>
     revocations_received z = revocations_received x + of_nat (length ss)"
    by (simp add: booked_def)
qed

lemma booked_same:
  "next_index x' = next_index x \<Longrightarrow> revocations_received x' = revocations_received x \<Longrightarrow> booked ss x' a \<Longrightarrow> booked ss x a"
  by (simp add: booked_def)

lemma booked_done:
  "next_index y = next_index x \<Longrightarrow> revocations_received y = revocations_received x
   \<Longrightarrow> filter signs (to_peer outs) = [] \<Longrightarrow> told_marks outs = [] \<Longrightarrow> told_secrets outs = [] \<Longrightarrow> booked [] x (done_with y outs)"
  by (auto simp: booked_def filter_empty_conv)

lemma booked_branches:
  "(c \<Longrightarrow> booked ss x a) \<Longrightarrow> (\<not> c \<Longrightarrow> booked ss x b) \<Longrightarrow> booked ss x (if c then a else b)"
  "booked ss x a \<Longrightarrow> (\<And>v. booked ss x (f v)) \<Longrightarrow> booked ss x (case opt of None \<Rightarrow> a | Some v \<Rightarrow> f v)"
  "(\<And>u v. booked ss x (g u v)) \<Longrightarrow> booked ss x (case pr of (u, v) \<Rightarrow> g u v)"
  by (simp_all split: option.split prod.split)

named_theorems books

lemma books_stfu [books]: "booked [] x (maybe_send_stfu x)"
  by (auto simp: maybe_send_stfu_def Let_def booked_def split: option.splits bool.splits if_splits)

lemma books_handle_stfu [books]: "booked [] x (handle_stfu x b)"
  unfolding handle_stfu_def Let_def
  by (auto split: option.splits bool.splits intro!: booked_same [OF _ _ books_stfu])

lemma books_shutdown [books]: "booked [] x (maybe_send_shutdown x)" "booked [] x (handle_peer_shutdown x spk)"
    "booked [] x (handle_shutdown_cmd x spk)"
  by (auto simp: maybe_send_shutdown_def handle_peer_shutdown_def handle_shutdown_cmd_def Let_def booked_def start_commit_timer_def
      split: option.splits if_splits)

lemma books_htlcs [books]:
  "booked [] x (handle_peer_add_htlc env x i amt h e pk tlvs)" "booked [] x (handle_offer_htlc env x amt cltv h pkt path ex lp lane)"
  "booked [] x (handle_peer_fulfill_htlc env x i r)" "booked [] x (handle_peer_fail_htlc x i re)"
  "booked [] x (handle_peer_fail_malformed_htlc x i sha code)" "booked [] x (handle_preimage env x f)" "booked [] x (handle_fail x f')"
  by (auto simp: handle_peer_add_htlc_def handle_offer_htlc_def handle_peer_fulfill_htlc_def handle_peer_fail_htlc_def
      handle_peer_fail_malformed_htlc_def handle_preimage_def handle_fail_def removed_htlc_def peer_fails_htlc_def Let_def
      booked_def start_commit_timer_def send_fail_or_fulfill_def
      split: option.splits if_splits prod.splits sum.splits)
lemma books_rates [books]:
  "booked [] x (handle_peer_feechange env x rate)" "booked [] x (handle_peer_blockheight_change x blocks)"
  "booked [] x (handle_feerates x r1 r2 r3 dust)" "booked [] x (handle_blockheight x blocks)"
  "booked [] x (send_fee_update env x)" "booked [] x (send_blockheight_update x)"
  by (auto simp: handle_peer_feechange_def handle_peer_blockheight_change_def handle_feerates_def handle_blockheight_def
      send_fee_update_def send_blockheight_update_def Let_def booked_def start_commit_timer_def
      split: option.splits if_splits prod.splits bool.splits)

lemma books_swap [books]: "booked [] x (take_peer_swap x s)"
  by (auto simp: take_peer_swap_def Let_def booked_def split: option.splits if_splits prod.splits)

lemma books_commit_part:
  assumes "send_commit_part env x changed i = Some (Inr ((y, m), outs))"
  shows "next_index y = next_index x \<and> revocations_received y = revocations_received x \<and> is_commit m
    \<and> to_peer outs = [] \<and> told_marks outs = [False] \<and> told_secrets outs = []"
  using assms by (auto simp: send_commit_part_def Let_def dec_disable_commit_def split: option.splits if_splits prod.splits)

lemma books_commit_now [books]: "booked [] x (commit_now env x)"
proof (cases "channel_sending_commit (peer_channel x)")
  case (Some r)
  obtain some_change ch' changed where r: "r = (some_change, ch', changed)" by (metis prod_cases3)
  let ?x = "x\<lparr>peer_channel := ch'\<rparr>"
  have idle: "booked [] x (and_then (maybe_send_shutdown ?x) (\<lambda>p2. done_with (p2\<lparr>commit_timer := False\<rparr>) []))"
    by (rule booked_same [of ?x]) (auto intro!: booked_then books booked_done)
  have "booked [] x (and_then (send_commit_part env ?x changed (next_index ?x REMOTE)) (\<lambda>(p2, msg).
       and_then (done_with (p2\<lparr>next_index := (next_index p2)(REMOTE := next_index p2 REMOTE + 1)\<rparr>) [To_Peer msg]) (\<lambda>p3.
       and_then (maybe_send_shutdown p3) (\<lambda>p4. done_with (start_commit_timer p4) []))))" (is "booked [] x ?a")
    unfolding booked_def
  proof (intro allI impI)
    fix z outs assume "?a = Some (Inr (z, outs))"
    then obtain y m o1 o2 where part: "send_commit_part env ?x changed (next_index ?x REMOTE) = Some (Inr ((y, m), o1))"
      and rest: "and_then (maybe_send_shutdown (y\<lparr>next_index := (next_index y)(REMOTE := next_index y REMOTE + 1)\<rparr>))
         (\<lambda>p4. done_with (start_commit_timer p4) []) = Some (Inr (z, o2))" and outs: "outs = o1 @ To_Peer m # o2"
      by (auto simp: and_then_result)
    have "booked [] (y\<lparr>next_index := (next_index y)(REMOTE := next_index y REMOTE + 1)\<rparr>)
        (and_then (maybe_send_shutdown (y\<lparr>next_index := (next_index y)(REMOTE := next_index y REMOTE + 1)\<rparr>))
         (\<lambda>p4. done_with (start_commit_timer p4) []))"
      by (auto intro!: booked_then books booked_done simp: start_commit_timer_def)
    with rest books_commit_part [OF part] outs
    show "told_marks outs = sent_marks outs \<and> told_secrets outs = [] \<and>
       next_index z LOCAL = next_index x LOCAL + of_nat (length (filter is_revoke (to_peer outs))) \<and>
       next_index z REMOTE = next_index x REMOTE + of_nat (length (filter is_commit (to_peer outs))) \<and>
       revocations_received z = revocations_received x + of_nat (length ([] :: bytes list))"
      by (cases m) (auto simp: booked_def)
  qed
  with idle show ?thesis unfolding commit_now_def Some r by (simp add: Let_def del: booked_then)
qed (simp add: commit_now_def)

lemma books_send_commit [books]: "booked [] x (send_commit_if_not_stfu env x)"
proof -
  have "booked [] x (send_commit env x)"
    unfolding send_commit_def Let_def
    by (auto intro!: booked_then books booked_done split: option.splits bool.splits)
  then show ?thesis by (auto simp: send_commit_if_not_stfu_def intro: booked_done)
qed

lemma books_send_revocation [books]: "booked [] x (send_revocation env x changed st)"
  by (auto simp: send_revocation_def make_revocation_msg_def booked_def Let_def start_commit_timer_def
      split: option.splits prod.splits if_splits)

text \<open>A call that writes nothing, before a handler goes on.\<close>

lemma booked_after:
  assumes "\<And>v outs. a = Some (Inr (v, outs)) \<Longrightarrow> outs = [] \<and> booked ss x (f v)"
  shows "booked ss x (and_then a f)"
  unfolding booked_def
proof (intro allI impI)
  fix z outs assume "and_then a f = Some (Inr (z, outs))"
  then obtain v o1 o2 where "a = Some (Inr (v, o1))" "f v = Some (Inr (z, o2))" "outs = o1 @ o2" by (auto simp: and_then_result)
  with assms [of v o1]
  show "told_marks outs = sent_marks outs \<and> told_secrets outs = ss \<and>
     next_index z LOCAL = next_index x LOCAL + of_nat (length (filter is_revoke (to_peer outs))) \<and>
     next_index z REMOTE = next_index x REMOTE + of_nat (length (filter is_commit (to_peer outs))) \<and>
     revocations_received z = revocations_received x + of_nat (length ss)"
    by (simp add: booked_def)
qed

lemma update_sig_writes_nothing: "take_update_sig env uninit ch i usig = Some (Inr (st, outs)) \<Longrightarrow> outs = []"
  by (auto simp: take_update_sig_def Let_def split: option.splits bool.splits)

lemma remote_state_silent: "remote_state env x = Some (Inr (st, outs)) \<Longrightarrow> outs = []"
  by (auto simp: remote_state_def Let_def split: option.splits if_splits)

lemma revoke_sig_silent:
  assumes "take_revoke_sig env uninit x usig = Some (Inr ((y, st), outs))"
  shows "outs = [] \<and> next_index y = next_index x \<and> revocations_received y = revocations_received x"
proof (cases "channel_has (peer_channel x) OPT_SEQ_SYMMETRIC")
  case True
  with assms obtain s o1 where r: "remote_state env x = Some (Inr (s, o1))" by (auto simp: take_revoke_sig_def and_then_result)
  with assms True show ?thesis using remote_state_silent [OF r]
    by (auto simp: take_revoke_sig_def and_then_result split: option.splits bool.splits)
qed (use assms in \<open>simp add: take_revoke_sig_def\<close>)

lemma books_commit_sig [books]: "booked [] x (handle_peer_commit_sig env uninit x sig hsigs usig swap)"
proof -
  have fin: "booked [] p5 (case want_fee_update env p5 of
       None \<Rightarrow> None | Some target \<Rightarrow> done_with (if target \<noteq> None then start_commit_timer p5 else p5) [])" for p5
    by (auto simp: start_commit_timer_def split: option.split intro!: booked_done)
  have tail: "booked [] p3 (and_then (send_revocation env p3 changed st) (\<lambda>p4. and_then (maybe_send_stfu p4) (\<lambda>p5.
       case want_fee_update env p5 of
         None \<Rightarrow> None | Some target \<Rightarrow> done_with (if target \<noteq> None then start_commit_timer p5 else p5) [])))" for p3 changed st
    by (intro booked_then books fin)
  have sig: "booked [] p3 (and_then (if channel_has ch OPT_SEQ_SYMMETRIC
                       then and_then (take_update_sig env uninit ch i usig) (\<lambda>st. done_with (Some st) [])
                       else done_with None []) (\<lambda>st. and_then (send_revocation env p3 changed st) (\<lambda>p4.
       and_then (maybe_send_stfu p4) (\<lambda>p5. case want_fee_update env p5 of
         None \<Rightarrow> None | Some target \<Rightarrow> done_with (if target \<noteq> None then start_commit_timer p5 else p5) []))))" for p3 ch i changed
    by (rule booked_after) (auto simp: and_then_result intro: tail dest: update_sig_writes_nothing split: if_splits)
  have start: "booked [] x (case swap of None \<Rightarrow> done_with x [] | Some s \<Rightarrow> take_peer_swap x s)"
    by (auto split: option.split intro: books booked_done)
  have noted: "booked [] p1 (if c then done_with (p1\<lparr>peer_channel := ch\<rparr>) [] else note_empty_commit (p1\<lparr>peer_channel := ch\<rparr>))" for p1 c ch
    by (auto simp: note_empty_commit_def intro!: booked_done)
  show ?thesis
    unfolding handle_peer_commit_sig_def
  proof (rule booked_then [OF start])
    fix p1
    show "booked [] p1 (case channel_rcvd_commit (peer_channel p1) of
       None \<Rightarrow> None
     | Some (some_change, ch', changed) \<Rightarrow>
         let p2 = p1\<lparr>peer_channel := ch'\<rparr> in
         and_then (if some_change then done_with p2 [] else note_empty_commit p2) (\<lambda>p3.
         let ch = peer_channel p3; local_index = next_index p3 LOCAL; point = next_local_per_commit p3 in
         if opener ch = REMOTE
            \<and> do { rate \<leftarrow> channel_feerate ch LOCAL; can_opener_afford_feerate (env_chainparams env) ch rate } \<noteq> Some True
         then None
         else case commit_sigs_err env ch local_index point sig hsigs of
           Some err \<Rightarrow> exits err
         | None \<Rightarrow>
             and_then (if channel_has ch OPT_SEQ_SYMMETRIC
                       then and_then (take_update_sig env uninit ch local_index usig) (\<lambda>st. done_with (Some st) [])
                       else done_with None []) (\<lambda>sym_local.
             and_then (send_revocation env p3 changed sym_local) (\<lambda>p4.
             and_then (maybe_send_stfu p4) (\<lambda>p5.
             case want_fee_update env p5 of
               None \<Rightarrow> None
             | Some target \<Rightarrow> done_with (if target \<noteq> None then start_commit_timer p5 else p5) [])))))"
      unfolding Let_def by (intro booked_branches booked_then [OF noted] sig booked_stuck)
  qed
qed

lemma books_revoke_and_ack: "booked [secret] x (handle_peer_revoke_and_ack env uninit x secret point usig)"
proof -
  have "booked [secret] x (and_then (take_revoke_sig env uninit x usig) (\<lambda>(p1, sym_remote).
               case channel_rcvd_revoke_and_ack (peer_channel p1) of
                 None \<Rightarrow> None
               | Some (_, ch', changed) \<Rightarrow>
                   let p2 = p1\<lparr>revocations_received := revocations_received p1 + 1,
                               peer_channel := snd (channel_sym_swap_done ch'),
                               old_remote_per_commit := remote_per_commit p1, remote_per_commit := point\<rparr>
                   in and_then (done_with p2 [To_Master (GOT_REVOKE (revocations_received p1) secret
                                  point (changed_htlc_arr changed) sym_remote)]) (\<lambda>p3.
                      and_then (maybe_send_stfu p3) (\<lambda>p4. done_with (start_commit_timer p4) []))))"
  proof (rule booked_after)
    fix v outs assume "take_revoke_sig env uninit x usig = Some (Inr (v, outs))"
    then obtain p1 st where a: "take_revoke_sig env uninit x usig = Some (Inr ((p1, st), outs))" and v: "v = (p1, st)"
      by (cases v) simp
    have tail: "booked [] p3 (and_then (maybe_send_stfu p3) (\<lambda>p4. done_with (start_commit_timer p4) []))" for p3
      by (auto intro!: booked_then books booked_done simp: start_commit_timer_def)
    have "booked [secret] x (and_then (done_with (p1\<lparr>revocations_received := revocations_received p1 + 1,
           peer_channel := snd (channel_sym_swap_done ch'),
           old_remote_per_commit := remote_per_commit p1, remote_per_commit := point\<rparr>)
         [To_Master (GOT_REVOKE (revocations_received p1) secret point (changed_htlc_arr changed) st)])
       (\<lambda>p3. and_then (maybe_send_stfu p3) (\<lambda>p4. done_with (start_commit_timer p4) [])))" for ch' changed
      using revoke_sig_silent [OF a] by (intro booked_then tail) (simp add: booked_def)
    then show "outs = [] \<and> booked [secret] x (case v of (p1, sym_remote) \<Rightarrow>
        (case channel_rcvd_revoke_and_ack (peer_channel p1) of
                 None \<Rightarrow> None
               | Some (_, ch', changed) \<Rightarrow>
                   let p2 = p1\<lparr>revocations_received := revocations_received p1 + 1,
                               peer_channel := snd (channel_sym_swap_done ch'),
                               old_remote_per_commit := remote_per_commit p1, remote_per_commit := point\<rparr>
                   in and_then (done_with p2 [To_Master (GOT_REVOKE (revocations_received p1) secret
                                  point (changed_htlc_arr changed) sym_remote)]) (\<lambda>p3.
                      and_then (maybe_send_stfu p3) (\<lambda>p4. done_with (start_commit_timer p4) []))))"
      using revoke_sig_silent [OF a] by (auto simp: v Let_def split: option.split)
  qed
  then show ?thesis by (auto simp: handle_peer_revoke_and_ack_def split: option.split)
qed

definition revealed :: "peer_msg \<Rightarrow> bytes list" where
  "revealed m = (case m of REVOKE_AND_ACK secret _ _ \<Rightarrow> [secret] | _ \<Rightarrow> [])"

lemma booked_peer_in: "booked (revealed m) x (peer_in env uninit x m)"
  unfolding peer_in_def revealed_def
  by (auto split: peer_msg.split intro!: books books_revoke_and_ack)

lemma booked_req_in: "\<not> is_swap_order ord \<Longrightarrow> booked [] x (req_in env x ord)"
  unfolding req_in_def
  by (cases ord) (auto simp: handle_master_request_later_def intro!: books booked_done)
section \<open>Runs with books\<close>

text \<open>
  The steps of \<open>net_step\<close>, with what each lightningd keeps. lightningd gives a channel up when it
  has \<open>2\<^sup>4\<^sup>8\<close> revocations, so no index goes beyond.
\<close>

definition counts_ok :: "net \<Rightarrow> bool" where
  "counts_ok N \<longleftrightarrow> (\<forall>p v. next_index (daemon N p) v < 2 ^ 48)"

definition note_out :: "side \<Rightarrow> peer \<times> peer_out list \<Rightarrow> (side \<Rightarrow> kept) \<Rightarrow> side \<Rightarrow> kept" where
  "note_out p res K = K(p := foldl keep (K p) (snd res))"

inductive kept_step ::
  "(side \<Rightarrow> channeld_env) \<Rightarrow> sym_tree \<Rightarrow> net \<times> (side \<Rightarrow> kept) \<Rightarrow> net \<times> (side \<Rightarrow> kept) \<Rightarrow> bool" for env uninit where
  order: "counts_ok N \<Longrightarrow> req_in (env p) (daemon N p) ord = Some (Inr res) \<Longrightarrow> \<not> is_swap_order ord \<Longrightarrow> htlc_id (daemon N p) \<noteq> - 1
            \<Longrightarrow> kept_step env uninit (N, K) (put_out p res N, note_out p res K)"
| timer: "counts_ok N \<Longrightarrow> send_commit_if_not_stfu (env p) (daemon N p) = Some (Inr res)
            \<Longrightarrow> kept_step env uninit (N, K) (put_out p res N, note_out p res K)"
| deliver: "counts_ok N \<Longrightarrow> mail N p = m # ms \<Longrightarrow> peer_in (env (other p)) uninit (daemon N (other p)) m = Some (Inr res)
            \<Longrightarrow> kept_step env uninit (N, K) (put_out (other p) res (N\<lparr>mail := (mail N)(p := ms)\<rparr>), note_out (other p) res K)"

abbreviation kept_reaches where
  "kept_reaches env uninit \<equiv> (kept_step env uninit)\<^sup>*\<^sup>*"

lemma kept_step_net: "kept_step env uninit NK NK' \<Longrightarrow> net_step env uninit (fst NK) (fst NK')"
  by (induction rule: kept_step.induct) (auto intro: net_step.intros)

text \<open>The secret of the last revocation, as \<^verbatim>\<open>channel_reestablish\<close> carries it.\<close>

definition last_revealed :: "(u64 \<Rightarrow> bytes \<times> bytes) \<Rightarrow> u64 \<Rightarrow> bytes" where
  "last_revealed reveal n = (if n = 0 then replicate 32 0 else fst (reveal (n - 1)))"

definition books_ok :: "deal \<Rightarrow> net \<Rightarrow> (side \<Rightarrow> kept) \<Rightarrow> bool" where
  "books_ok D N K \<longleftrightarrow> (\<forall>p.
     1 \<le> next_index (daemon N p) LOCAL \<and> 1 \<le> next_index (daemon N p) REMOTE
   \<and> (filter is_revoke (mail N p) \<noteq> [] \<longrightarrow> 2 \<le> next_index (daemon N p) LOCAL)
   \<and> (filter signs (mail N p) \<noteq> [] \<longrightarrow> is_revoke (last (filter signs (mail N p))) = last_was_revoke (K p))
   \<and> last_secret (K p) = last_revealed (revoke_commitment (deal_env D (other p))) (revocations_received (daemon N p)))"

abbreviation turns :: "deal \<Rightarrow> net \<Rightarrow> side \<Rightarrow> bool" where
  "turns D N p \<equiv> turn (deal_points D (other p)) (\<lambda>i. fst (revoke_commitment (deal_env D (other p)) i)) (\<lambda>_ _ _. True)
     (daemon N p) (daemon N (other p)) (filter is_commit (mail N p)) (filter is_revoke (mail N (other p)))"

lemma good_turns: "good D N \<Longrightarrow> turns D N p"
  unfolding good_def net_ok_def turn_ok_def by (blast intro: turn_mono)

lemma turn_one: "turn ps ss ok x y cs rs \<Longrightarrow> length cs \<le> 1 \<and> length rs \<le> 1"
  by (auto elim: turn.cases)

lemma small_next:
  assumes "1 \<le> i" and "i < 2 ^ 48" and "n \<le> 1"
  shows "1 \<le> i + of_nat n \<and> (n = 1 \<longrightarrow> 2 \<le> i + (of_nat n :: u64))"
proof -
  have "unat (i + 1) = unat i + 1" using assms(2) by (simp add: word_less_nat_alt unat_plus_if')
  moreover have "n = 0 \<or> n = 1" using assms(3) by auto
  ultimately show ?thesis using assms(1) by (auto simp: word_le_nat_alt)
qed
lemma last_suffix: "zs = xs @ ys \<Longrightarrow> filter P ys \<noteq> [] \<Longrightarrow> filter P zs \<noteq> [] \<and> last (filter P zs) = last (filter P ys)"
  by simp

lemma books_kept:
  assumes books: "books_ok D N K" and counts: "counts_ok N" and good: "good D (put_out p (y, outs) M)"
    and M: "daemon M = daemon N" "\<And>q. \<exists>pre. mail N q = pre @ mail M q"
    and b: "booked ss (daemon N p) (Some (Inr (y, outs)))"
    and ss: "ss = [] \<or> ss = [fst (revoke_commitment (deal_env D (other p)) (revocations_received (daemon N p)))]
               \<and> revocations_received (daemon N p) + 1 \<noteq> 0"
  shows "books_ok D (put_out p (y, outs) M) (note_out p (y, outs) K)"
proof -
  let ?N = "put_out p (y, outs) M" and ?x = "daemon N p"
  have mail: "mail ?N q = (if q = p then mail M p @ to_peer outs else mail M q)" for q by (simp add: put_out_def)
  have daemon: "daemon ?N q = (if q = p then y else daemon N q)" for q by (simp add: put_out_def M(1))
  have old: "1 \<le> next_index (daemon N q) LOCAL" "1 \<le> next_index (daemon N q) REMOTE"
    "filter is_revoke (mail N q) \<noteq> [] \<Longrightarrow> 2 \<le> next_index (daemon N q) LOCAL"
    "filter signs (mail N q) \<noteq> [] \<Longrightarrow> is_revoke (last (filter signs (mail N q))) = last_was_revoke (K q)"
    "last_secret (K q) = last_revealed (revoke_commitment (deal_env D (other q))) (revocations_received (daemon N q))" for q
    using books by (auto simp: books_ok_def)
  have suffix: "filter P (mail M q) \<noteq> [] \<Longrightarrow> filter P (mail N q) \<noteq> [] \<and> last (filter P (mail N q)) = last (filter P (mail M q))" for P q
    using M(2) [of q] last_suffix by metis
  let ?r = "length (filter is_revoke (to_peer outs))" and ?c = "length (filter is_commit (to_peer outs))"
  have b: "told_marks outs = sent_marks outs" "told_secrets outs = ss" "next_index y LOCAL = next_index ?x LOCAL + of_nat ?r"
    "next_index y REMOTE = next_index ?x REMOTE + of_nat ?c" "revocations_received y = revocations_received ?x + of_nat (length ss)"
    using b by (auto simp: booked_def)
  have one: "?r \<le> 1" "?c \<le> 1"
    using turn_one [OF good_turns [OF good, of p]] turn_one [OF good_turns [OF good, of "other p"]] by (auto simp: mail)
  have lim: "next_index ?x v < 2 ^ 48" for v using counts by (simp add: counts_ok_def)
  have new: "1 \<le> next_index y LOCAL" "1 \<le> next_index y REMOTE" "?r = 1 \<Longrightarrow> 2 \<le> next_index y LOCAL"
    using small_next [OF old(1) lim one(1)] small_next [OF old(2) lim one(2)] b(3,4) by simp_all
  have "2 \<le> next_index y LOCAL" if "filter is_revoke (mail ?N p) \<noteq> []"
  proof (cases "filter is_revoke (to_peer outs) = []")
    case True
    with that suffix [of is_revoke p] have "filter is_revoke (mail N p) \<noteq> []" by (simp add: mail)
    with old(3) show ?thesis using b(3) True by simp
  next
    case False
    then show ?thesis using new(3) one(1) by (cases "filter is_revoke (to_peer outs)") auto
  qed
  moreover have "is_revoke (last (filter signs (mail ?N p))) = last_was_revoke (foldl keep (K p) outs)"
    if "filter signs (mail ?N p) \<noteq> []"
  proof (cases "filter signs (to_peer outs) = []")
    case True
    with that have "filter signs (mail M p) \<noteq> []" by (simp add: mail)
    with suffix [of signs p] old(4) [of p] True b(1) show ?thesis by (simp add: mail foldl_keep)
  next
    case False
    then have "told_marks outs \<noteq> []" using b(1) by simp
    with False b(1) show ?thesis by (simp add: mail foldl_keep last_map)
  qed
  moreover have "last_secret (foldl keep (K p) outs) = last_revealed (revoke_commitment (deal_env D (other p))) (revocations_received y)"
    using ss b(2,5) old(5) [of p] by (auto simp: foldl_keep last_revealed_def)
  moreover note new(1,2)
  moreover have "filter is_revoke (mail M q) \<noteq> [] \<longrightarrow> 2 \<le> next_index (daemon N q) LOCAL"
      "filter signs (mail M q) \<noteq> [] \<longrightarrow> is_revoke (last (filter signs (mail M q))) = last_was_revoke (K q)" for q
    using suffix [of is_revoke q] old(3) [of q] suffix [of signs q] old(4) [of q] by auto
  ultimately show ?thesis
    using old(1,2,5) unfolding books_ok_def note_out_def by (simp add: mail daemon M(1))
qed
lemma revoke_secret:
  assumes "good D N" and "books_ok D N K" and "mail N p = REVOKE_AND_ACK secret point usig # ms"
  shows "secret = fst (revoke_commitment (deal_env D p) (revocations_received (daemon N (other p))))
    \<and> revocations_received (daemon N (other p)) + 1 \<noteq> 0"
proof -
  have two: "2 \<le> next_index (daemon N p) LOCAL" using assms(2,3) by (simp add: books_ok_def)
  from good_turns [OF assms(1), of "other p"] assms(3)
  have "revocations_received (daemon N (other p)) = next_index (daemon N (other p)) REMOTE - 2"
    and "next_index (daemon N (other p)) REMOTE = next_index (daemon N p) LOCAL"
    and "secret = fst (revoke_commitment (deal_env D p) (next_index (daemon N (other p)) REMOTE - 2))"
    by (auto elim: turn.cases)
  with two show ?thesis by (auto simp: word_le_nat_alt)
qed

lemma books_ok_step:
  assumes "kept_step (deal_env D) uninit (N, K) (N', K')" and "keyed D" and "good D N" and "books_ok D N K"
  shows "good D N' \<and> books_ok D N' K'"
proof -
  have good: "good D N'" using good_step kept_step_net [OF assms(1)] assms(2,3) by fastforce
  from assms(1) have "books_ok D N' K'"
  proof (cases rule: kept_step.cases)
    case (order p ord res)
    moreover obtain y outs where "res = (y, outs)" by (cases res)
    ultimately show ?thesis using good booked_req_in [of ord "daemon N p" "deal_env D p"]
      by (auto intro!: books_kept [OF assms(4), of p y outs N "[]"])
  next
    case (timer p res)
    moreover obtain y outs where "res = (y, outs)" by (cases res)
    ultimately show ?thesis using good books_send_commit [of "daemon N p" "deal_env D p"]
      by (auto intro!: books_kept [OF assms(4), of p y outs N "[]"])
  next
    case (deliver p m ms res)
    obtain y outs where res: "res = (y, outs)" by (cases res)
    let ?M = "N\<lparr>mail := (mail N)(p := ms)\<rparr>"
    have secret: "revealed m = [] \<or> revealed m = [fst (revoke_commitment (deal_env D (other (other p)))
        (revocations_received (daemon N (other p))))] \<and> revocations_received (daemon N (other p)) + 1 \<noteq> 0"
      using deliver revoke_secret [OF assms(3,4)] by (cases m) (auto simp: revealed_def)
    have suffix: "\<exists>pre. mail N q = pre @ mail ?M q" for q using deliver by (cases "q = p") (auto intro: exI [of _ "[m]"])
    have "booked (revealed m) (daemon N (other p)) (Some (Inr (y, outs)))"
      using booked_peer_in [of m "daemon N (other p)" "deal_env D (other p)" uninit] deliver res by simp
    from books_kept [OF assms(4) _ _ _ suffix this secret] show ?thesis using deliver res good by simp
  qed
  with good show ?thesis ..
qed

text \<open>Where two daemons start that have, like every daemon that has sent \<^verbatim>\<open>channel_ready\<close>, an index of at least one.\<close>

definition start_books :: "(side \<Rightarrow> channeld_env) \<Rightarrow> net \<Rightarrow> (side \<Rightarrow> kept) \<Rightarrow> bool" where
  "start_books env N K \<longleftrightarrow> (\<forall>p. 1 \<le> next_index (daemon N p) LOCAL \<and> 1 \<le> next_index (daemon N p) REMOTE
     \<and> last_secret (K p) = last_revealed (revoke_commitment (env (other p))) (revocations_received (daemon N p)))"

lemma books_reach:
  assumes "kept_reaches (deal_env D) uninit (N0, K0) NK" and "keyed D" and "good D N0" and "books_ok D N0 K0"
  shows "good D (fst NK) \<and> books_ok D (fst NK) (snd NK)"
  using assms(1)
proof (induction rule: rtranclp_induct)
  case base
  then show ?case using assms by simp
next
  case (step NK NK')
  then show ?case using books_ok_step [of D uninit "fst NK" "snd NK" "fst NK'" "snd NK'"] assms(2) by simp
qed

lemma books_start:
  assumes "start_net points N" and "start_books env N K"
  shows "books_ok (deal_of env points N) N K"
  using assms by (auto simp: books_ok_def start_books_def start_net_def)

section \<open>The HTLCs of the last signature\<close>

text \<open>The states that an HTLC has between our signature and the peer's revocation.\<close>

definition awaited :: "htlc_state set" where
  "awaited = {SENT_ADD_COMMIT, SENT_REMOVE_ACK_COMMIT, SENT_ADD_ACK_COMMIT, SENT_REMOVE_COMMIT}"

definition held :: "channel \<Rightarrow> changed_htlc \<Rightarrow> bool" where
  "held ch c \<longleftrightarrow> newstate c \<in> awaited \<and> (\<exists>h \<in> set (htlcs ch). h_id h = changed_id c \<and> h_state h = newstate c)"

lemma held_found: "held ch c \<Longrightarrow> last_htlc ch c \<noteq> None"
proof -
  assume "held ch c"
  then obtain h where h: "h \<in> set (htlcs ch)" "h_id h = changed_id c" "h_state h = newstate c" "newstate c \<in> awaited"
    by (auto simp: held_def)
  then have "htlc_has h (HTLC_FLAG (htlc_state_owner (newstate c)) HTLC_F_OWNER)"
    by (auto simp: awaited_def htlc_has_def htlc_state_owner_def state_lt_iff flag_simps)
  with h show ?thesis by (auto simp: last_htlc_def channel_get_htlc_def htlc_get_def find_None_iff)
qed

lemma held_mono:
  assumes "held ch c" and "\<And>h. h \<in> set (htlcs ch) \<Longrightarrow> h_state h \<in> awaited
    \<Longrightarrow> \<exists>h' \<in> set (htlcs ch'). h_id h' = h_id h \<and> h_state h' = h_state h"
  shows "held ch' c"
  using assms unfolding held_def by metis

lemma change_loop_rest:
  "change_htlcs_loop v S hs bals = Some (rest, changed, bals', f) \<Longrightarrow> h \<in> set hs \<Longrightarrow> h_state h \<notin> set S \<Longrightarrow> h \<in> set rest"
  by (induction hs arbitrary: bals rest changed bals' f) (auto simp: bind_eq_Some_conv split: if_splits)

lemma change_loop_changed:
  assumes "change_htlcs_loop v S hs bals = Some (rest, changed, bals', f)" and "h' \<in> set changed"
  shows "(\<exists>s \<in> set S. same_owner_succ s = Some (h_state h')) \<and> (htlc_is_dead h' \<or> h' \<in> set rest)"
  using assms
proof (induction hs arbitrary: bals rest changed bals' f)
  case (Cons h hs)
  show ?case
  proof (cases "h_state h \<in> set S")
    case True
    then obtain h1 b1 rest1 changed1 b2 c where r: "htlc_incstate h v bals = Some (h1, b1)"
      "change_htlcs_loop v S hs b1 = Some (rest1, changed1, b2, c)" "changed = h1 # changed1"
      "rest = (if htlc_is_dead h1 then rest1 else h1 # rest1)"
      using Cons.prems(1) by (auto simp: bind_eq_Some_conv)
    from r(1) have "same_owner_succ (h_state h) = Some (h_state h1)"
      by (auto simp: htlc_incstate_def Let_def bind_eq_Some_conv)
    with True r Cons.prems(2) Cons.IH [OF r(2)] show ?thesis by auto
  next
    case False
    then obtain rest1 b2 c where "change_htlcs_loop v S hs bals = Some (rest1, changed, b2, c)" "rest = h # rest1"
      using Cons.prems(1) by (auto simp: bind_eq_Some_conv)
    with Cons.IH [of bals rest1 changed b2 c] Cons.prems(2) show ?thesis by auto
  qed
qed simp

lemma change_htlcs_loops:
  assumes "change_htlcs ch v S = Some (f, ch', changed)"
  obtains bals b' c1 where "change_htlcs_loop v S (htlcs ch) bals = Some (htlcs ch', changed, b', c1)"
  using assms by (auto simp: change_htlcs_def bind_eq_Some_conv)

lemma held_change:
  assumes "change_htlcs ch v S = Some (f, ch', changed)" and "set S \<inter> awaited = {}" and "held ch c"
  shows "held ch' c"
  by (rule change_htlcs_loops [OF assms(1)], rule held_mono [OF assms(3)]) (use assms(2) change_loop_rest in blast)

lemma held_events:
  "channel_rcvd_commit ch = Some (b, ch', hs) \<Longrightarrow> held ch c \<Longrightarrow> held ch' c"
  "channel_sending_revoke_and_ack ch = Some (b, ch') \<Longrightarrow> held ch c \<Longrightarrow> held ch' c"
  "channel_sending_commit ch = Some (b, ch', hs) \<Longrightarrow> held ch c \<Longrightarrow> held ch' c"
  by (auto simp: channel_rcvd_commit_def channel_sending_revoke_and_ack_def channel_sending_commit_def bind_eq_Some_conv awaited_def
      elim!: held_change [rotated 2])

lemma signed_held:
  assumes "channel_sending_commit ch = Some (b, ch', hs)" and "c \<in> set (changed_htlc_arr hs)"
  shows "held ch' c"
proof -
  let ?S = "[SENT_ADD_HTLC, SENT_REMOVE_REVOCATION, SENT_ADD_REVOCATION, SENT_REMOVE_HTLC]"
  from assms obtain h f where h: "h \<in> set hs" "c = \<lparr>newstate = h_state h, changed_id = h_id h\<rparr>" and run: "change_htlcs ch REMOTE ?S = Some (f, ch', hs)"
    by (auto simp: changed_htlc_arr_def channel_sending_commit_def bind_eq_Some_conv)
  obtain bals b' c1 where "change_htlcs_loop REMOTE ?S (htlcs ch) bals = Some (htlcs ch', hs, b', c1)" by (rule change_htlcs_loops [OF run])
  from change_loop_changed [OF this h(1)] have "h_state h \<in> awaited" and "htlc_is_dead h \<or> h \<in> set (htlcs ch')"
    by (auto simp: awaited_def same_owner_succ_iff)
  moreover from this(1) have "\<not> htlc_is_dead h" by (auto simp: awaited_def htlc_is_dead_def)
  ultimately show ?thesis using h(2) by (auto simp: held_def)
qed

lemma held_put:
  assumes "htlc_get hs hid owner = Some h" and "h_state h \<in> awaited \<Longrightarrow> h_state h' = h_state h \<and> h_id h' = h_id h"
    and "g \<in> set hs" and "h_state g \<in> awaited"
  shows "\<exists>g' \<in> set (htlc_put hid owner h' hs). h_id g' = h_id g \<and> h_state g' = h_state g"
  using assms by (induction hs) (auto simp: htlc_get_def split: if_splits)

lemma held_replaced:
  assumes "held ch c" and "htlc_get (htlcs ch) hid owner = Some h" and "h_state h \<in> awaited \<Longrightarrow> h_state h' = h_state h \<and> h_id h' = h_id h"
  shows "held (ch\<lparr>htlcs := htlc_put hid owner h' (htlcs ch)\<rparr>) c"
  using held_put [OF assms(2,3)] by (intro held_mono [OF assms(1)]) simp

lemma held_more: "held ch c \<Longrightarrow> held (ch\<lparr>htlcs := h # htlcs ch\<rparr>) c"
  by (auto simp: held_def)

lemma irrevocable_not_awaited: "irrevocable h \<Longrightarrow> h_state h \<notin> awaited"
  by (auto simp: irrevocable_iff awaited_def split: if_splits)

lemma held_fulfill:
  assumes "channel_fulfill_htlc sha pt ch owner hid r = (CHANNEL_ERR_REMOVE_OK, ch')" and "held ch c"
  shows "held ch' c"
  by (rule channel_fulfill_htlc_ok [OF assms(1)]) (use assms(2) irrevocable_not_awaited held_replaced in blast)

lemma held_fail:
  assumes "fail_htlc_with ch owner f = (CHANNEL_ERR_REMOVE_OK, ch')" and "held ch c"
  shows "held ch' c"
proof -
  obtain e ch1 where r: "channel_fail_htlc ch owner (failed_id f) = (e, ch1)" by (cases "channel_fail_htlc ch owner (failed_id f)")
  with assms(1) have e: "e = CHANNEL_ERR_REMOVE_OK" by (auto simp: fail_htlc_with_def split: option.splits)
  have ch1: "held ch1 c"
    by (rule channel_fail_htlc_ok [OF r [unfolded e]]) (use assms(2) irrevocable_not_awaited held_replaced in blast)
  have "ch' = (case htlc_get (htlcs ch1) (failed_id f) owner of None \<Rightarrow> ch1
      | Some h \<Rightarrow> ch1\<lparr>htlcs := htlc_put (failed_id f) owner (h\<lparr>h_failed := Some f\<rparr>) (htlcs ch1)\<rparr>)"
    using assms(1) r e by (auto simp: fail_htlc_with_def channel_get_htlc_def split: option.splits)
  then show ?thesis using ch1 by (cases "htlc_get (htlcs ch1) (failed_id f) owner") (simp_all add: held_replaced)
qed

lemma held_add:
  assumes "channel_add_lane_htlc cp mf ch sender hid amount expiry hash routing pk tlvs imm lane = Some (e, ch', added, fee)" and "held ch c"
  shows "held ch' c" and "held (set_lock_point added lock ch') c"
proof -
  define state where "state = (if sender = LOCAL then SENT_ADD_HTLC else RCVD_ADD_HTLC)"
  have "add_htlc cp mf ch state hid amount expiry hash routing pk True tlvs imm lane = Some (e, ch', added, fee)"
    using assms(1) by (simp add: channel_add_lane_htlc_def state_def)
  note r = add_htlc_result [OF this]
  show ch': "held ch' c" using r held_more [OF assms(2)] assms(2) by (elim disjE exE conjE) simp_all
  have "held (set_lock_point (Some h) lock ch') c" if "added = Some h" for h
  proof -
    from r that obtain b where h: "htlcs ch' = h # htlcs ch" "h = (new_htlc state hid amount expiry hash routing pk tlvs lane)\<lparr>h_fail_immediate := b\<rparr>"
      by auto
    then have "h_state h \<notin> awaited" by (simp add: new_htlc_def awaited_def state_def)
    moreover have "htlc_has h (HTLC_FLAG (htlc_owner h) HTLC_F_OWNER)"
      by (cases "h_state h") (auto simp: htlc_has_def htlc_owner_def htlc_state_owner_def state_lt_iff flag_simps)
    then have "htlc_get (htlcs ch') (h_id h) (htlc_owner h) = Some h" using h(1) by (simp add: htlc_get_def)
    ultimately show ?thesis using held_replaced [OF ch'] ch' by (cases lock) (simp_all add: set_lock_point_def)
  qed
  then show "held (set_lock_point added lock ch') c" using ch' by (cases added) (simp_all add: set_lock_point_def)
qed

text \<open>What a handler that sends no signature leaves of them.\<close>

definition holding :: "peer \<Rightarrow> peer act \<Rightarrow> bool" where
  "holding x a \<longleftrightarrow> (\<forall>y outs. a = Some (Inr (y, outs)) \<longrightarrow>
     filter is_commit (to_peer outs) = [] \<and> (\<forall>c. held (peer_channel x) c \<longrightarrow> held (peer_channel y) c))"

lemma holding_stuck [simp, intro]: "holding x None" "holding x (exits e)"
  by (simp_all add: holding_def)

lemma holding_then: "holding x a \<Longrightarrow> (\<And>y. holding y (f y)) \<Longrightarrow> holding x (and_then a f)"
  unfolding holding_def by (fastforce simp: and_then_result)

lemma holding_same: "htlcs (peer_channel x') = htlcs (peer_channel x) \<Longrightarrow> holding x' a \<Longrightarrow> holding x a"
  by (simp add: holding_def held_def)

lemma holding_done: "htlcs (peer_channel y) = htlcs (peer_channel x) \<Longrightarrow> filter is_commit (to_peer outs) = [] \<Longrightarrow> holding x (done_with y outs)"
  by (auto simp: holding_def held_def)

named_theorems holds

lemma holds_stfu [holds]: "holding x (maybe_send_stfu x)"
  by (auto simp: maybe_send_stfu_def Let_def holding_def split: option.splits bool.splits if_splits)

lemma holds_handle_stfu [holds]: "holding x (handle_stfu x b)"
  unfolding handle_stfu_def Let_def
  by (auto split: option.splits bool.splits intro!: holding_same [OF _ holds_stfu])

lemma holds_shutdown [holds]: "holding x (maybe_send_shutdown x)" "holding x (handle_peer_shutdown x spk)"
    "holding x (handle_shutdown_cmd x spk)"
  by (auto simp: maybe_send_shutdown_def handle_peer_shutdown_def handle_shutdown_cmd_def Let_def holding_def start_commit_timer_def
      split: option.splits if_splits)

lemma holds_adds [holds]:
  "holding x (handle_peer_add_htlc env x i amt h e pk tlvs)" "holding x (handle_offer_htlc env x amt cltv h pkt path ex lp lane)"
  by (auto simp: handle_peer_add_htlc_def handle_offer_htlc_def Let_def holding_def start_commit_timer_def
      split: option.splits if_splits prod.splits dest: held_add)

lemma holds_removals [holds]:
  "holding x (handle_peer_fulfill_htlc env x i r)" "holding x (handle_peer_fail_htlc x i re)"
  "holding x (handle_peer_fail_malformed_htlc x i sha code)" "holding x (handle_preimage env x f)" "holding x (handle_fail x f')"
  by (auto simp: handle_peer_fulfill_htlc_def handle_peer_fail_htlc_def
      handle_peer_fail_malformed_htlc_def handle_preimage_def handle_fail_def removed_htlc_def peer_fails_htlc_def Let_def
      holding_def start_commit_timer_def send_fail_or_fulfill_def
      split: option.splits if_splits prod.splits sum.splits dest: held_fulfill held_fail)

lemma update_rates_htlcs:
  "channel_update_feerate cp ch rate = Some (ok, ch') \<Longrightarrow> htlcs ch' = htlcs ch"
  "channel_update_blockheight ch blocks = Some ch' \<Longrightarrow> htlcs ch' = htlcs ch"
  by (auto simp: channel_update_feerate_def channel_update_blockheight_def bind_eq_Some_conv split: if_splits)

lemma held_htlcs: "htlcs ch' = htlcs ch \<Longrightarrow> held ch' c = held ch c"
  by (simp add: held_def)

lemma holds_rates [holds]:
  "holding x (handle_peer_feechange env x rate)" "holding x (handle_peer_blockheight_change x blocks)"
  "holding x (handle_feerates x r1 r2 r3 dust)" "holding x (handle_blockheight x blocks)"
  "holding x (send_fee_update env x)" "holding x (send_blockheight_update x)"
  by (auto simp: handle_peer_feechange_def handle_peer_blockheight_change_def handle_feerates_def handle_blockheight_def
      send_fee_update_def send_blockheight_update_def Let_def holding_def start_commit_timer_def held_def
      split: option.splits if_splits prod.splits bool.splits dest!: update_rates_htlcs)

lemma swap_htlcs:
  "channel_sym_swap_add ch sw = Some ch' \<Longrightarrow> htlcs ch' = htlcs ch"
  "channel_sym_swap_done ch = (b, ch') \<Longrightarrow> htlcs ch' = htlcs ch"
  by (auto simp: channel_sym_swap_add_def channel_sym_swap_done_def Let_def bind_eq_Some_conv split: option.splits if_splits)

lemma holds_swap [holds]: "holding x (take_peer_swap x s)"
  by (auto simp: take_peer_swap_def Let_def holding_def held_def split: option.splits if_splits prod.splits dest!: swap_htlcs)

lemma held_swap_done: "channel_sym_swap_done ch = (b, ch') \<Longrightarrow> held ch c \<Longrightarrow> held ch' c"
  using held_htlcs [OF swap_htlcs(2)] by blast

lemma holds_send_revocation [holds]: "holding x (send_revocation env x changed st)"
  by (auto simp: send_revocation_def make_revocation_msg_def holding_def Let_def start_commit_timer_def
      split: option.splits prod.splits if_splits dest: held_events(2) held_swap_done)

text \<open>A call that writes nothing, before a handler goes on.\<close>

lemma holding_after:
  assumes "\<And>v outs. a = Some (Inr (v, outs)) \<Longrightarrow> outs = [] \<and> holding x (f v)"
  shows "holding x (and_then a f)"
  using assms unfolding holding_def by (fastforce simp: and_then_result)

lemma holding_branches:
  "(c \<Longrightarrow> holding x a) \<Longrightarrow> (\<not> c \<Longrightarrow> holding x b) \<Longrightarrow> holding x (if c then a else b)"
  "holding x a \<Longrightarrow> (\<And>v. opt = Some v \<Longrightarrow> holding x (f v)) \<Longrightarrow> holding x (case opt of None \<Rightarrow> a | Some v \<Rightarrow> f v)"
  by (simp_all split: option.split)

lemma holding_event: "(\<And>c. held (peer_channel x) c \<Longrightarrow> held (peer_channel x') c) \<Longrightarrow> holding x' a \<Longrightarrow> holding x a"
  by (simp add: holding_def)

lemma holds_commit_sig [holds]: "holding x (handle_peer_commit_sig env uninit x sig hsigs usig swap)"
proof -
  have fin: "holding p5 (case want_fee_update env p5 of
       None \<Rightarrow> None | Some target \<Rightarrow> done_with (if target \<noteq> None then start_commit_timer p5 else p5) [])" for p5
    by (auto simp: start_commit_timer_def split: option.split intro!: holding_done)
  have sig: "holding p3 (and_then (if channel_has ch OPT_SEQ_SYMMETRIC
                       then and_then (take_update_sig env uninit ch i usig) (\<lambda>st. done_with (Some st) [])
                       else done_with None []) (\<lambda>st. and_then (send_revocation env p3 changed st) (\<lambda>p4.
       and_then (maybe_send_stfu p4) (\<lambda>p5. case want_fee_update env p5 of
         None \<Rightarrow> None | Some target \<Rightarrow> done_with (if target \<noteq> None then start_commit_timer p5 else p5) []))))" for p3 ch i changed
    by (rule holding_after)
       (auto simp: and_then_result intro!: holding_then holds fin dest: update_sig_writes_nothing split: if_splits)
  have start: "holding x (case swap of None \<Rightarrow> done_with x [] | Some s \<Rightarrow> take_peer_swap x s)"
    by (auto split: option.split intro: holds holding_done)
  have noted: "holding p (if c then done_with p [] else note_empty_commit p)" for p c
    by (auto simp: note_empty_commit_def intro!: holding_done)
  have event: "holding p1 a" if "channel_rcvd_commit (peer_channel p1) = Some (b, ch', changed)" "holding (p1\<lparr>peer_channel := ch'\<rparr>) a" for p1 b ch' changed a
    by (rule holding_event [OF _ that(2)]) (use held_events(1) [OF that(1)] in simp)
  show ?thesis
    unfolding handle_peer_commit_sig_def
  proof (rule holding_then [OF start])
    fix p1
    show "holding p1 (case channel_rcvd_commit (peer_channel p1) of
       None \<Rightarrow> None
     | Some (some_change, ch', changed) \<Rightarrow>
         let p2 = p1\<lparr>peer_channel := ch'\<rparr> in
         and_then (if some_change then done_with p2 [] else note_empty_commit p2) (\<lambda>p3.
         let ch = peer_channel p3; local_index = next_index p3 LOCAL; point = next_local_per_commit p3 in
         if opener ch = REMOTE
            \<and> do { rate \<leftarrow> channel_feerate ch LOCAL; can_opener_afford_feerate (env_chainparams env) ch rate } \<noteq> Some True
         then None
         else case commit_sigs_err env ch local_index point sig hsigs of
           Some err \<Rightarrow> exits err
         | None \<Rightarrow>
             and_then (if channel_has ch OPT_SEQ_SYMMETRIC
                       then and_then (take_update_sig env uninit ch local_index usig) (\<lambda>st. done_with (Some st) [])
                       else done_with None []) (\<lambda>sym_local.
             and_then (send_revocation env p3 changed sym_local) (\<lambda>p4.
             and_then (maybe_send_stfu p4) (\<lambda>p5.
             case want_fee_update env p5 of
               None \<Rightarrow> None
             | Some target \<Rightarrow> done_with (if target \<noteq> None then start_commit_timer p5 else p5) [])))))"
    proof (cases "channel_rcvd_commit (peer_channel p1)")
      case (Some r)
      obtain b ch' changed where r: "r = (b, ch', changed)" by (cases r)
      show ?thesis
        unfolding Some r option.case prod.case Let_def
        by (rule event [OF Some [unfolded r]]) (intro holding_branches holding_then [OF noted] sig holding_stuck)
    qed simp
  qed
qed

lemma holding_peer_in: "\<not> is_revoke m \<Longrightarrow> holding x (peer_in env uninit x m)"
  unfolding peer_in_def by (cases m) (auto intro!: holds)

lemma holding_req_in: "\<not> is_swap_order ord \<Longrightarrow> holding x (req_in env x ord)"
  unfolding req_in_def
  by (cases ord) (auto simp: handle_master_request_later_def intro!: holds holding_done)

text \<open>The timer may sign: then what it tells lightningd is in the channel.\<close>

definition signing_held :: "peer \<Rightarrow> peer act \<Rightarrow> bool" where
  "signing_held x a \<longleftrightarrow> (\<forall>y outs. a = Some (Inr (y, outs)) \<longrightarrow>
     (if filter is_commit (to_peer outs) = [] then \<forall>c. held (peer_channel x) c \<longrightarrow> held (peer_channel y) c
      else \<forall>k. \<forall>c \<in> set (last_sent_commit (foldl keep k outs)). held (peer_channel y) c))"

lemma holding_signing: "holding x a \<Longrightarrow> signing_held x a"
  by (simp add: holding_def signing_held_def)

lemma signing_held_then: "holding x a \<Longrightarrow> (\<And>y. signing_held y (f y)) \<Longrightarrow> signing_held x (and_then a f)"
  unfolding signing_held_def holding_def by (fastforce simp: and_then_result)

lemma commit_part_tells:
  assumes "send_commit_part env x changed i = Some (Inr ((y, m), outs))"
  shows "peer_channel y = peer_channel x \<and> last_sent_commit (foldl keep k outs) = changed_htlc_arr changed"
  using assms by (auto simp: send_commit_part_def Let_def dec_disable_commit_def split: option.splits if_splits prod.splits)

lemma shutdown_tells:
  assumes "maybe_send_shutdown x = Some (Inr (y, outs))"
  shows "peer_channel y = peer_channel x \<and> last_sent_commit (foldl keep k outs) = last_sent_commit k"
  using assms by (auto simp: maybe_send_shutdown_def split: if_splits option.splits)

lemma commit_now_held: "signing_held x (commit_now env x)"
proof (cases "channel_sending_commit (peer_channel x)")
  case (Some r)
  obtain some_change ch' changed where r: "r = (some_change, ch', changed)" by (metis prod_cases3)
  let ?x = "x\<lparr>peer_channel := ch'\<rparr>"
  have idle: "signing_held x (and_then (maybe_send_shutdown ?x) (\<lambda>p2. done_with (p2\<lparr>commit_timer := False\<rparr>) []))"
    by (rule holding_signing, rule holding_event [of _ ?x])
       (use held_events(3) [OF Some [unfolded r]] in \<open>auto intro!: holding_then holds holding_done\<close>)
  have "signing_held x (and_then (send_commit_part env ?x changed (next_index ?x REMOTE)) (\<lambda>(p2, msg).
       and_then (done_with (p2\<lparr>next_index := (next_index p2)(REMOTE := next_index p2 REMOTE + 1)\<rparr>) [To_Peer msg]) (\<lambda>p3.
       and_then (maybe_send_shutdown p3) (\<lambda>p4. done_with (start_commit_timer p4) []))))" (is "signing_held x ?a")
    unfolding signing_held_def
  proof (intro allI impI)
    fix z outs assume "?a = Some (Inr (z, outs))"
    then obtain y m o1 o2 w where part: "send_commit_part env ?x changed (next_index ?x REMOTE) = Some (Inr ((y, m), o1))"
      and rest: "maybe_send_shutdown (y\<lparr>next_index := (next_index y)(REMOTE := next_index y REMOTE + 1)\<rparr>) = Some (Inr (w, o2))"
      and z: "z = start_commit_timer w" and outs: "outs = o1 @ To_Peer m # o2"
      by (auto simp: and_then_result)
    have "peer_channel z = ch'" "last_sent_commit (foldl keep k outs) = changed_htlc_arr changed" for k
      using commit_part_tells [OF part] shutdown_tells [OF rest] z outs by (simp_all add: start_commit_timer_def)
    then show "if filter is_commit (to_peer outs) = [] then \<forall>c. held (peer_channel x) c \<longrightarrow> held (peer_channel z) c
      else \<forall>k. \<forall>c \<in> set (last_sent_commit (foldl keep k outs)). held (peer_channel z) c"
      using signed_held [OF Some [unfolded r]] held_events(3) [OF Some [unfolded r]] by simp
  qed
  with idle show ?thesis unfolding commit_now_def Some r by (simp add: Let_def)
qed (simp add: commit_now_def signing_held_def)

lemma timer_held: "signing_held x (send_commit_if_not_stfu env x)"
proof -
  have idle: "signing_held x None" "signing_held x (exits e)" "signing_held x (done_with (x\<lparr>commit_timer := b\<rparr>) [])" for e b
    by (auto intro!: holding_signing holding_done)
  have run: "signing_held x (and_then (send_fee_update env x) (\<lambda>p1. and_then (send_blockheight_update p1) (commit_now env)))"
    by (intro signing_held_then holds commit_now_held)
  have "signing_held x (send_commit env x)"
    unfolding send_commit_def Let_def by (simp add: idle run split: option.split bool.split)
  then show ?thesis by (simp add: send_commit_if_not_stfu_def idle)
qed

text \<open>So the HTLCs of a signature that is on its way are in the channel.\<close>

definition lost_held :: "net \<Rightarrow> (side \<Rightarrow> kept) \<Rightarrow> bool" where
  "lost_held N K \<longleftrightarrow> (\<forall>p. filter is_commit (mail N p) \<noteq> [] \<longrightarrow> (\<forall>c \<in> set (last_sent_commit (K p)). held (peer_channel (daemon N p)) c))"

lemma keep_unsigned:
  "False \<notin> set (told_marks outs) \<Longrightarrow> last_sent_commit (foldl keep k outs) = last_sent_commit k"
proof (induction outs arbitrary: k)
  case (Cons x outs)
  have "last_sent_commit (keep k x) = last_sent_commit k" using Cons.prems by (cases "(k, x)" rule: keep.cases) simp_all
  with Cons show ?case by simp
qed simp

lemma lost_held_out:
  assumes "lost_held N K" and "daemon M = daemon N" "\<And>q. filter is_commit (mail M q) \<noteq> [] \<Longrightarrow> filter is_commit (mail N q) \<noteq> []"
    and "booked ss (daemon N p) (Some (Inr (y, outs)))"
    and "filter is_commit (mail M p) = [] \<or> signing_held (daemon N p) (Some (Inr (y, outs)))"
    and "filter is_commit (to_peer outs) \<noteq> [] \<Longrightarrow> signing_held (daemon N p) (Some (Inr (y, outs)))"
  shows "lost_held (put_out p (y, outs) M) (note_out p (y, outs) K)"
  unfolding lost_held_def
proof (intro allI impI)
  fix q assume lost: "filter is_commit (mail (put_out p (y, outs) M) q) \<noteq> []"
  show "\<forall>c \<in> set (last_sent_commit (note_out p (y, outs) K q)). held (peer_channel (daemon (put_out p (y, outs) M) q)) c"
  proof (cases "q = p")
    case False
    with lost assms(1-3) show ?thesis by (auto simp: lost_held_def note_out_def)
  next
    case True
    show ?thesis
    proof (cases "filter is_commit (to_peer outs) = []")
      case False
      with assms(6) True show ?thesis by (auto simp: signing_held_def note_out_def)
    next
      case none: True
      have "told_marks outs = map is_revoke (filter signs (to_peer outs))" using assms(4) by (simp add: booked_def)
      with none have "False \<notin> set (told_marks outs)" by (auto simp: filter_empty_conv)
      moreover have "filter is_commit (mail M p) \<noteq> []" using lost none True by simp
      ultimately show ?thesis
        using assms(1,3,5) none True by (auto simp: lost_held_def note_out_def keep_unsigned signing_held_def)
    qed
  qed
qed

lemma revoke_sends_nothing:
  assumes "handle_peer_revoke_and_ack env uninit x secret point usig = Some (Inr (y, outs))"
  shows "filter is_commit (to_peer outs) = []"
proof -
  have st: "maybe_send_stfu z = Some (Inr (w, o1)) \<Longrightarrow> filter is_commit (to_peer o1) = []" for z w o1
    using holds_stfu [of z] by (simp add: holding_def)
  show ?thesis
    using assms by (auto simp: handle_peer_revoke_and_ack_def and_then_result Let_def
        dest!: revoke_sig_silent st split: if_splits option.splits prod.splits)
qed

lemma peer_in_revoke:
  "peer_in env uninit x (REVOKE_AND_ACK secret point usig) = Some (Inr (y, outs)) \<Longrightarrow> filter is_commit (to_peer outs) = []"
  unfolding peer_in_def by (simp add: revoke_sends_nothing split: if_splits)

lemma lost_held_step:
  assumes "kept_step (deal_env D) uninit (N, K) (N', K')" and "good D N" and "lost_held N K"
  shows "lost_held N' K'"
  using assms(1)
proof (cases rule: kept_step.cases)
  case (order p ord res)
  obtain y outs where res: "res = (y, outs)" by (cases res)
  have "signing_held (daemon N p) (Some (Inr (y, outs)))" "booked [] (daemon N p) (Some (Inr (y, outs)))"
    using holding_signing [OF holding_req_in] booked_req_in order res by metis+
  then show ?thesis using lost_held_out [OF assms(3), of N] order res by simp
next
  case (timer p res)
  obtain y outs where res: "res = (y, outs)" by (cases res)
  have "signing_held (daemon N p) (Some (Inr (y, outs)))" "booked [] (daemon N p) (Some (Inr (y, outs)))"
    using timer_held books_send_commit timer res by metis+
  then show ?thesis using lost_held_out [OF assms(3), of N] timer res by simp
next
  case (deliver p m ms res)
  obtain y outs where res: "res = (y, outs)" by (cases res)
  let ?M = "N\<lparr>mail := (mail N)(p := ms)\<rparr>" and ?q = "other p"
  have shorter: "filter is_commit (mail ?M q) \<noteq> [] \<Longrightarrow> filter is_commit (mail N q) \<noteq> []" for q
    using deliver by (cases "q = p") auto
  have b: "booked (revealed m) (daemon N ?q) (Some (Inr (y, outs)))"
    using booked_peer_in [of m "daemon N ?q" "deal_env D ?q" uninit] deliver res by simp
  have "filter is_commit (mail ?M ?q) = [] \<and> filter is_commit (to_peer outs) = []" if "is_revoke m"
  proof -
    have "filter is_revoke (mail N (other ?q)) \<noteq> []" using that deliver by simp
    with good_turns [OF assms(2), of ?q] have "filter is_commit (mail N ?q) = []" by (auto elim: turn.cases)
    moreover have "filter is_commit (to_peer outs) = []"
      using that deliver res by (cases m) (auto dest: peer_in_revoke)
    ultimately show ?thesis by simp
  qed
  moreover have "signing_held (daemon N ?q) (Some (Inr (y, outs)))" if "\<not> is_revoke m"
    using holding_signing [OF holding_peer_in [OF that]] deliver res by metis
  ultimately have "lost_held (put_out ?q (y, outs) ?M) (note_out ?q (y, outs) K)"
    by (intro lost_held_out [OF assms(3) _ shorter b]) auto
  then show ?thesis using deliver res by simp
qed

lemma lost_held_reach:
  assumes "kept_reaches (deal_env D) uninit (N0, K0) NK" and "keyed D" and "good D N0" and "books_ok D N0 K0" and "lost_held N0 K0"
  shows "lost_held (fst NK) (snd NK)"
  using assms(1)
proof (induction rule: rtranclp_induct)
  case base
  then show ?case using assms by simp
next
  case (step NK NK')
  then have "good D (fst NK)" using books_reach [OF step(1) assms(2-4)] by simp
  then show ?case using lost_held_step [of D uninit "fst NK" "snd NK" "fst NK'" "snd NK'"] step by simp
qed

section \<open>The numbers match\<close>

lemma lost_revoke:
  assumes "good D N" and "books_ok D N K"
  shows "retransmit_revoke_and_ack h (daemon N p) (reestablish_msg hsm (daemon N (other p)) k)
    = Inr (filter is_revoke (mail N p) \<noteq> [])"
proof -
  let ?x = "daemon N p" and ?y = "daemon N (other p)"
  have one: "1 \<le> next_index ?x LOCAL" and two: "filter is_revoke (mail N p) \<noteq> [] \<Longrightarrow> 2 \<le> next_index ?x LOCAL"
    using assms(2) by (auto simp: books_ok_def)
  from good_turns [OF assms(1), of "other p"]
  have "(filter is_revoke (mail N p) = [] \<and> revocations_received ?y = next_index ?x LOCAL - 1)
      \<or> (filter is_revoke (mail N p) \<noteq> [] \<and> revocations_received ?y = next_index ?x LOCAL - 2)"
    by (auto elim: turn.cases)
  then show ?thesis
  proof (elim disjE conjE)
    assume "filter is_revoke (mail N p) = []" and rr: "revocations_received ?y = next_index ?x LOCAL - 1"
    moreover have "next_index ?x LOCAL - 1 \<noteq> next_index ?x LOCAL - 2" by simp
    ultimately show ?thesis by (simp add: retransmit_revoke_and_ack_def reestablish_msg_def)
  next
    assume "filter is_revoke (mail N p) \<noteq> []" and "revocations_received ?y = next_index ?x LOCAL - 2"
    with two show ?thesis by (simp add: retransmit_revoke_and_ack_def reestablish_msg_def)
  qed
qed

lemma turn_commits:
  assumes "turn points secrets ok x y cs rs"
  shows "next_index x REMOTE = (if cs = [] then next_index y LOCAL else next_index y LOCAL + 1)"
  using assms by (cases; simp)

lemma lost_commit:
  assumes "good D N" and "books_ok D N K"
  shows "retransmit_commitment_signed (daemon N p) (reestablish_msg hsm (daemon N (other p)) k)
    = Inr (filter is_commit (mail N p) \<noteq> [])"
proof -
  have "1 \<le> next_index (daemon N (other p)) LOCAL" using assms(2) by (auto simp: books_ok_def)
  then have "next_index (daemon N (other p)) LOCAL \<noteq> 0" by auto
  then show ?thesis
    using turn_commits [OF good_turns [OF assms(1), of p]]
    by (simp add: retransmit_commitment_signed_def reestablish_msg_def)
qed

lemma turn_points:
  assumes "turn points secrets ok x y cs rs"
  shows "(next_index y LOCAL = next_index x REMOTE \<or> next_index y LOCAL = next_index x REMOTE - 1)
    \<and> points (next_index y LOCAL - 1)
      = (if next_index y LOCAL = revocations_received x + 1 then old_remote_per_commit x else remote_per_commit x)"
  using assms
proof cases
  case idle
  then show ?thesis by simp
next
  case (signed m)
  have "next_index y LOCAL = next_index x REMOTE - 1" using signed(4) by simp
  moreover have "revocations_received x + 1 = next_index x REMOTE - 1" using signed(3) by simp
  moreover have "next_index x REMOTE - 1 - 1 = next_index x REMOTE - 2" by simp
  ultimately show ?thesis using signed(6) by simp
next
  case (revoked usig)
  have "next_index y LOCAL \<noteq> revocations_received x + 1" unfolding revoked(3) revoked(4) by simp
  then show ?thesis using revoked(4,5) by simp
qed

lemma secrets_match:
  assumes "good D N" and "books_ok D N K" and points: "\<And>i. get_per_commitment_point hsm i = deal_points D (other p) i"
    and fixed: "channel_has (peer_channel (daemon N (other p))) OPT_STATIC_REMOTEKEY
      = channel_has (peer_channel (daemon N p)) OPT_STATIC_REMOTEKEY"
  shows "check_current_dataloss_fields (deal_env D p) (daemon N p) (reestablish_msg hsm (daemon N (other p)) (K (other p)))
    = done_with () []"
proof -
  let ?x = "daemon N p" and ?y = "daemon N (other p)"
  have secret: "last_secret (K (other p)) = last_revealed (revoke_commitment (deal_env D p)) (revocations_received ?y)"
    using assms(2) by (auto simp: books_ok_def)
  from good_turns [OF assms(1), of "other p"]
  have rr: "revocations_received ?y = next_index ?x LOCAL - 2 \<or> revocations_received ?y = next_index ?x LOCAL - 1"
    by (auto elim: turn.cases)
  from good_turns [OF assms(1), of p]
  have "(next_index ?y LOCAL = next_index ?x REMOTE \<or> next_index ?y LOCAL = next_index ?x REMOTE - 1)
      \<and> deal_points D (other p) (next_index ?y LOCAL - 1)
        = (if next_index ?y LOCAL = revocations_received ?x + 1 then old_remote_per_commit ?x else remote_per_commit ?x)"
    by (rule turn_points)
  then show ?thesis using rr fixed
    by (auto simp: check_current_dataloss_fields_def reestablish_msg_def secret last_revealed_def points Let_def)
qed
section \<open>What is sent again\<close>

fun sent_msgs :: "reconnect_out list \<Rightarrow> peer_msg list" where
  "sent_msgs [] = []"
| "sent_msgs (Sent (To_Peer m) # outs) = m # sent_msgs outs"
| "sent_msgs (_ # outs) = sent_msgs outs"

lemma sent_msgs_append [simp]: "sent_msgs (a @ b) = sent_msgs a @ sent_msgs b"
  by (induction a rule: sent_msgs.induct) simp_all

lemma sent_msgs_map [simp]: "sent_msgs (map Sent outs) = to_peer outs"
  by (induction outs rule: to_peer.induct) simp_all

text \<open>The signatures and revocations that a part of the reconnection sends.\<close>

definition signing :: "'a reconnect \<Rightarrow> peer_msg list \<Rightarrow> bool" where
  "signing a ms \<longleftrightarrow> (\<forall>v outs. a = Some (Inr (v, outs)) \<longrightarrow> filter signs (sent_msgs outs) = ms)"

lemma signing_stuck [simp, intro]: "signing None ms" "signing (exits e) ms"
  by (simp_all add: signing_def)

lemma signing_done [simp]: "signing (done_with v outs) ms \<longleftrightarrow> filter signs (sent_msgs outs) = ms"
  by (simp add: signing_def)

lemma signing_then: "signing a ms \<Longrightarrow> (\<And>v. signing (f v) ms') \<Longrightarrow> signing (and_then a f) (ms @ ms')"
  unfolding signing_def by (auto simp: and_then_result)

lemma signing_then_none: "signing a [] \<Longrightarrow> (\<And>v. signing (f v) ms) \<Longrightarrow> signing (and_then a f) ms"
  using signing_then [of a "[]" f ms] by simp

lemma removal_no_signature: "send_fail_or_fulfill h = Inr m \<Longrightarrow> \<not> signs m"
  by (auto simp: send_fail_or_fulfill_def split: option.splits)

lemma add_no_signature: "add_again h = Some m \<Longrightarrow> \<not> signs m"
  by (auto simp: add_again_def bind_eq_Some_conv)

lemma signing_updates:
  "signing (resend_removals ch cs) []" "signing (resend_adds ch cs) []" "signing (resend_rates ch) []" "signing (resend_pending hs) []"
proof -
  show "signing (resend_removals ch cs) []"
    by (induction cs) (auto split: option.split sum.split intro!: signing_then_none dest: removal_no_signature)
  show "signing (resend_adds ch cs) []"
    by (induction cs) (auto split: option.split intro!: signing_then_none dest: add_no_signature)
  show "signing (resend_rates ch) []"
    by (auto simp: resend_rates_def split: option.split intro!: signing_then_none)
  show "signing (resend_pending hs) []"
    by (induction hs) (auto split: sum.split intro!: signing_then_none dest: removal_no_signature)
qed
text \<open>
  A message \<open>m\<close> sent again by the daemon \<open>x\<close> of the party \<open>p\<close> for a lost one \<open>m'\<close>. A revocation has the same secret and the same
  point. A signature is on the commitment of the peer that the daemon's channel has, for the last index it signed and the peer's
  point for it; and the lost one was for the same index and the same point, on a channel with the same fixed part and
  the very same commitment of the peer: its HTLCs, its balances and its rates.
\<close>

definition resent_for :: "channeld_env \<Rightarrow> side \<Rightarrow> peer \<Rightarrow> peer_msg \<Rightarrow> peer_msg \<Rightarrow> bool" where
  "resent_for env p x m m' \<longleftrightarrow>
     (case m of
        REVOKE_AND_ACK secret point _ \<Rightarrow> \<exists>usig. m' = REVOKE_AND_ACK secret point usig
      | _ \<Rightarrow> signature_on env (peer_channel x) (next_index x REMOTE - 1) (remote_per_commit x) m
            \<and> (\<exists>ch. static ch = static (peer_channel x)
                 \<and> seen_commitment p REMOTE ch = seen_commitment p REMOTE (peer_channel x)
                 \<and> signature_on env ch (next_index x REMOTE - 1) (remote_per_commit x) m'))"

definition revoke_again :: "channeld_env \<Rightarrow> u64 \<Rightarrow> peer_msg \<Rightarrow> bool" where
  "revoke_again env i m \<longleftrightarrow> (\<exists>usig. m = REVOKE_AND_ACK (fst (revoke_commitment env i)) (snd (revoke_commitment env i)) usig)"

lemma resend_revoke_sends:
  assumes "resend_revoke env p = Some (Inr (v, outs))"
  obtains m where "sent_msgs outs = [m]" and "revoke_again env (next_index p LOCAL - 2) m"
  using assms
  by (auto simp: resend_revoke_def make_revocation_msg_def revoke_again_def Let_def split: if_splits option.splits prod.splits)

lemma resend_commitment_sends:
  assumes "resend_commitment env p cs = Some (Inr (p', outs))"
    and "chan_swap (peer_channel p) = None"
  obtains m where "filter signs (sent_msgs outs) = [m]" and "is_commit m" and "next_index p' = next_index p"
    and "signature_on env (peer_channel p) (next_index p REMOTE - 1) (remote_per_commit p) m"
proof -
  from assms(1) obtain o1 o2 o3 o4 where parts: "resend_removals (peer_channel p) (asort cmp_changed_htlc_id cs) = Some (Inr ((), o1))"
      "resend_adds (peer_channel p) (asort cmp_changed_htlc_id cs) = Some (Inr ((), o2))" "resend_rates (peer_channel p) = Some (Inr ((), o3))"
    and again: "commit_part_again env p = Some (Inr (p', o4))" and outs: "outs = o1 @ o2 @ o3 @ o4"
    by (auto simp: resend_commitment_def Let_def and_then_result)
  from again obtain m o5 where part: "send_commit_part env p [] (next_index p REMOTE - 1) = Some (Inr ((p', m), o5))" and o4: "o4 = [Sent (To_Peer m)]"
    by (auto simp: commit_part_again_def split: option.splits sum.splits prod.splits)
  have "filter signs (sent_msgs o1) = []" "filter signs (sent_msgs o2) = []" "filter signs (sent_msgs o3) = []"
    using parts signing_updates unfolding signing_def by blast+
  with books_commit_part [OF part] send_commit_part_signature [OF part assms(2)] that [of m] show thesis by (simp add: outs o4)
qed

text \<open>What is lost, when at most one signature and one revocation is.\<close>

lemma filter_signs_cases:
  assumes "length (filter is_commit ms) \<le> 1" and "length (filter is_revoke ms) \<le> 1"
  shows "filter is_commit ms = [] \<and> filter signs ms = filter is_revoke ms
    \<or> filter is_revoke ms = [] \<and> filter signs ms = filter is_commit ms
    \<or> (\<exists>c r. filter is_commit ms = [c] \<and> filter is_revoke ms = [r] \<and> (filter signs ms = [c, r] \<or> filter signs ms = [r, c]))"
  using assms
proof (induction ms)
  case (Cons m ms)
  have disjoint: "is_commit m \<Longrightarrow> \<not> is_revoke m" by (cases m) simp_all
  consider (commit) "is_commit m" | (revoke) "is_revoke m" | (neither) "\<not> signs m" by blast
  then show ?case
  proof cases
    case commit
    then have "filter is_commit ms = []" and "filter signs ms = filter is_revoke ms" using Cons disjoint by auto
    then show ?thesis using Cons.prems commit disjoint by (cases "filter is_revoke ms") auto
  next
    case revoke
    then have "\<not> is_commit m" using disjoint by blast
    then have "filter is_revoke ms = []" and "filter signs ms = filter is_commit ms" using Cons revoke by auto
    then show ?thesis using Cons.prems revoke \<open>\<not> is_commit m\<close> by (cases "filter is_commit ms") auto
  next
    case neither
    then show ?thesis using Cons by simp
  qed
qed simp

text \<open>The lost revocation, if there is one.\<close>

lemma lost_revocation:
  assumes "good D N" and "keyed D" and "filter is_revoke (mail N p) = [m]"
  shows "revoke_again (deal_env D p) (next_index (daemon N p) LOCAL - 2) m"
proof -
  from good_turns [OF assms(1), of "other p"] assms(3) obtain usig where
    "m = REVOKE_AND_ACK (fst (revoke_commitment (deal_env D p) (next_index (daemon N (other p)) REMOTE - 2)))
           (deal_points D p (next_index (daemon N (other p)) REMOTE)) usig"
    and "next_index (daemon N (other p)) REMOTE = next_index (daemon N p) LOCAL"
    by (auto elim: turn.cases)
  then show ?thesis using assms(2) by (auto simp: revoke_again_def keyed_def)
qed

lemma revoke_again_resent: "revoke_again env i m \<Longrightarrow> revoke_again env i m' \<Longrightarrow> resent_for env' p x m m'"
  by (auto simp: revoke_again_def resent_for_def)

text \<open>The lost signature, if there is one: on the commitment that the channel still has.\<close>

lemma lost_signature:
  assumes "good D N" and "filter is_commit (mail N p) = [m]"
  shows "\<exists>ch. static ch = static (peer_channel (daemon N p))
    \<and> seen_commitment p REMOTE ch = seen_commitment p REMOTE (peer_channel (daemon N p))
    \<and> signature_on (deal_env D p) ch (next_index (daemon N p) REMOTE - 1) (remote_per_commit (daemon N p)) m"
proof -
  obtain l where ok: "net_ok D N l" using assms(1) by (auto simp: good_def)
  have "m \<in> set (filter is_commit (mail N p))" by (simp add: assms(2))
  then have "m \<in> set (filter is_update (mail N p))" "is_commit m" using update_kinds(1) by auto
  then obtain u where u: "u \<in> set (wire l p)" "stands_for m u"
    using net_ok_mail [OF ok, of p] by (metis in_set_conv_nth list_all2_conv_all_nth)
  then have "update_snapshot u \<noteq> None" using \<open>is_commit m\<close> by (cases m) auto
  with u(1) have "\<exists>u \<in> set (wire l p). update_snapshot u \<noteq> None" by blast
  from split_list_last_prop [OF this] obtain us v vs where w: "wire l p = us @ v # vs" "update_snapshot v \<noteq> None" "\<forall>u \<in> set vs. update_snapshot u = None"
    by auto
  then obtain c where v: "v = Commit c" by (cases v) auto
  have "parties.in_step (deal_opener D) (deal_sha D) (deal_point_of D) l" using ok by (simp add: net_ok_def ledger_ok_def)
  from parties.in_step_pending [OF this w(1) _ w(3)] have c: "commitment_of (deal_opener D) (other p) (copy l p) = c" by (simp add: v)
  note F = net_ok_follows [OF ok, of p]
  have seen: "seen_commitment p REMOTE (peer_channel (daemon N p)) = seen_of (deal_lanes D) (deal_start D) c"
    using seen_tracks [OF conjunct1 [OF F], of REMOTE] c by simp
  have turn: "turn_ok D N l p" using ok by (simp add: net_ok_def)
  have "c \<in> commits l p" using w(1) v by (auto simp: commits_def)
  moreover note turn_signed_cases [OF conjunct2 [OF turn [unfolded turn_ok_def assms(2)]]]
  ultimately have "signed D p (next_index (daemon N p) REMOTE - 1) (remote_per_commit (daemon N p)) m c" by blast
  then show ?thesis using F seen by (auto simp: signed_def)
qed

lemma commit_resent:
  assumes "good D N" and "filter is_commit (mail N p) = [m']"
    and "signature_on (deal_env D p) (peer_channel (daemon N p)) (next_index (daemon N p) REMOTE - 1) (remote_per_commit (daemon N p)) m"
  shows "resent_for (deal_env D p) p (daemon N p) m m'"
  using assms(3) lost_signature [OF assms(1,2)] by (cases m) (auto simp: resent_for_def signature_on_def)

lemma good_no_swap: "good D N \<Longrightarrow> chan_swap (peer_channel (daemon N p)) = None"
  using net_ok_follows by (fastforce simp: good_def tracks_def)

lemma resent_in_order:
  assumes "good D N" and "keyed D" and "books_ok D N K"
    and sent: "resend_in_order (deal_env D p) (daemon N p) (K p) (filter is_revoke (mail N p) \<noteq> []) (filter is_commit (mail N p) \<noteq> [])
      = Some (Inr (y, outs))"
  shows "list_all2 (resent_for (deal_env D p) p (daemon N p)) (filter signs (sent_msgs outs)) (filter signs (mail N p))"
proof -
  let ?cs = "filter is_commit (mail N p)" and ?rs = "filter is_revoke (mail N p)" and ?x = "daemon N p"
  have one: "length ?cs \<le> 1" "length ?rs \<le> 1"
    using turn_one [OF good_turns [OF assms(1), of p]] turn_one [OF good_turns [OF assms(1), of "other p"]] by simp_all
  have flag: "filter signs (mail N p) \<noteq> [] \<Longrightarrow> is_revoke (last (filter signs (mail N p))) = last_was_revoke (K p)"
    using assms(3) by (simp add: books_ok_def)
  from sent obtain p' o1 o2 o3 u1 u3 where
    first: "(if ?rs \<noteq> [] \<and> \<not> last_was_revoke (K p) then resend_revoke (deal_env D p) ?x else done_with () []) = Some (Inr (u1, o1))"
    and second: "(if ?cs \<noteq> [] then resend_commitment (deal_env D p) ?x (last_sent_commit (K p)) else done_with ?x []) = Some (Inr (p', o2))"
    and third: "(if ?rs \<noteq> [] \<and> last_was_revoke (K p) then resend_revoke (deal_env D p) p' else done_with () []) = Some (Inr (u3, o3))"
    and outs: "outs = o1 @ o2 @ o3"
    by (auto simp: resend_in_order_def and_then_result)
  have two: "?cs = [] \<and> p' = ?x \<and> o2 = [] \<or> (\<exists>c c'. ?cs = [c] \<and> is_commit c \<and> filter signs (sent_msgs o2) = [c'] \<and> is_commit c'
      \<and> next_index p' = next_index ?x \<and> resent_for (deal_env D p) p ?x c' c)"
  proof (cases ?cs)
    case Nil
    with second show ?thesis by simp
  next
    case (Cons c cs)
    then have c: "?cs = [c]" using one(1) by simp
    then have "is_commit c" by (metis filter_eq_ConsD)
    moreover obtain c' where "filter signs (sent_msgs o2) = [c']" "is_commit c'" "next_index p' = next_index ?x"
        "signature_on (deal_env D p) (peer_channel ?x) (next_index ?x REMOTE - 1) (remote_per_commit ?x) c'"
      using second c by (auto elim: resend_commitment_sends [OF _ good_no_swap [OF assms(1)]])
    moreover note commit_resent [OF assms(1) c]
    ultimately show ?thesis using c by blast
  qed
  show ?thesis
  proof (cases ?rs)
    case Nil
    with first third have "o1 = []" "o3 = []" by simp_all
    moreover have "filter signs (mail N p) = ?cs" using filter_signs_cases [OF one] Nil by auto
    ultimately show ?thesis using two by (auto simp: outs)
  next
    case (Cons r rs)
    then have r: "?rs = [r]" using one(2) by simp
    then have "is_revoke r" by (metis filter_eq_ConsD)
    then have "\<not> is_commit r" by (cases r) simp_all
    note lost = lost_revocation [OF assms(1,2) r]
    have revoke: "\<exists>m. revoke_again (deal_env D p) (next_index ?x LOCAL - 2) m \<and>
        (if last_was_revoke (K p) then o1 = [] \<and> sent_msgs o3 = [m] else sent_msgs o1 = [m] \<and> o3 = [])"
    proof (cases "last_was_revoke (K p)")
      case True
      then have "o1 = []" and "resend_revoke (deal_env D p) p' = Some (Inr (u3, o3))" using first third r by simp_all
      then show ?thesis using True two by (auto elim!: resend_revoke_sends)
    next
      case False
      then have "o3 = []" and "resend_revoke (deal_env D p) ?x = Some (Inr (u1, o1))" using first third r by simp_all
      then show ?thesis using False by (auto elim!: resend_revoke_sends)
    qed
    then obtain m where m: "revoke_again (deal_env D p) (next_index ?x LOCAL - 2) m"
      "if last_was_revoke (K p) then o1 = [] \<and> sent_msgs o3 = [m] else sent_msgs o1 = [m] \<and> o3 = []" by blast
    have again: "resent_for (deal_env D p) p ?x m r" using m(1) lost by (rule revoke_again_resent)
    have "is_revoke m" using m(1) by (auto simp: revoke_again_def)
    from two show ?thesis
    proof (elim disjE exE conjE)
      assume "?cs = []" "o2 = []"
      then have "filter signs (mail N p) = [r]" using filter_signs_cases [OF one] r by auto
      then show ?thesis using m(2) again \<open>o2 = []\<close> \<open>is_revoke m\<close> by (auto simp: outs split: if_splits)
    next
      fix c c' assume c: "?cs = [c]" "is_commit c" "filter signs (sent_msgs o2) = [c']" "is_commit c'" "resent_for (deal_env D p) p ?x c' c"
      then have not: "\<not> is_revoke c" by (cases c) simp_all
      have "filter signs (mail N p) = (if last_was_revoke (K p) then [c, r] else [r, c])"
        using filter_signs_cases [OF one] c(1) r flag not \<open>is_revoke r\<close> by auto
      then show ?thesis using m(2) again c \<open>is_revoke m\<close> by (auto simp: outs split: if_splits)
    qed
  qed
qed
section \<open>Two daemons that reconnect\<close>

text \<open>
  The exits of the reconnection itself: over what the peer's \<^verbatim>\<open>channel_reestablish\<close> says, and over an HTLC of the last signature that
  is not in the channel. The others are exits of the calls it makes: a symmetric state that cannot be built, a removal without a
  reason, and what handling the peer's early messages exits with.
\<close>

fun complains :: "reconnect_err \<Rightarrow> bool" where
  "complains (DAEMON_EXIT _) = False"
| "complains _ = True"

definition calm :: "'a reconnect \<Rightarrow> bool" where
  "calm a \<longleftrightarrow> (\<forall>e. a = Some (Inl e) \<longrightarrow> \<not> complains e)"

lemma calm_simps [simp]: "calm None" "calm (done_with v outs)" "calm (exits e) \<longleftrightarrow> \<not> complains e" "calm (as_reconnect b)"
  by (auto simp: calm_def as_reconnect_def split: option.splits sum.splits prod.splits)

lemma calm_then: "calm a \<Longrightarrow> (\<And>v. calm (f v)) \<Longrightarrow> calm (and_then a f)"
  by (auto simp: calm_def and_then_exit)

lemma calm_parts:
  "\<forall>c \<in> set cs. held ch c \<Longrightarrow> calm (resend_removals ch cs)" "\<forall>c \<in> set cs. held ch c \<Longrightarrow> calm (resend_adds ch cs)"
  "calm (resend_pending hs)" "calm (resend_rates ch)" "calm (commit_part_again env p)" "calm (resend_revoke env p)"
proof -
  show "\<forall>c \<in> set cs. held ch c \<Longrightarrow> calm (resend_removals ch cs)"
    by (induction cs) (auto split: option.split sum.split intro!: calm_then dest: held_found)
  show "\<forall>c \<in> set cs. held ch c \<Longrightarrow> calm (resend_adds ch cs)"
    by (induction cs) (auto split: option.split intro!: calm_then dest: held_found)
  show "calm (resend_pending hs)"
    by (induction hs) (auto split: sum.split intro!: calm_then)
  show "calm (resend_rates ch)" by (auto simp: resend_rates_def split: option.split intro!: calm_then)
  show "calm (commit_part_again env p)"
    by (auto simp: commit_part_again_def split: option.split sum.split prod.split)
  show "calm (resend_revoke env p)" by (auto simp: resend_revoke_def Let_def split: option.split)
qed

lemma calm_in_order:
  assumes "commit \<Longrightarrow> \<forall>c \<in> set (last_sent_commit k). held (peer_channel p) c"
  shows "calm (resend_in_order env p k revoke commit)"
proof -
  have "calm (resend_commitment env p (last_sent_commit k))" if commit
    unfolding resend_commitment_def Let_def using assms [OF that] by (intro calm_then calm_parts) simp_all
  then show ?thesis unfolding resend_in_order_def by (intro calm_then) (auto intro: calm_parts)
qed

lemma no_next_funding: "next_funding_txid (reestablish_msg h p k) = None"
  by (simp add: reestablish_msg_def)

lemma reconnect_parts:
  assumes "good D N" and "books_ok D N K"
    and "\<And>i. get_per_commitment_point (hsm (other p)) i = deal_points D (other p) i"
    and "channel_has (peer_channel (daemon N (other p))) OPT_STATIC_REMOTEKEY = channel_has (peer_channel (daemon N p)) OPT_STATIC_REMOTEKEY"
  shows "peer_reconnect (hsm p) (deal_env D p) uninit (daemon N p) (K p)
      (reestablish_msg (hsm (other p)) (daemon N (other p)) (K (other p))) early =
    and_then (ready_again (daemon N p) (reestablish_msg (hsm (other p)) (daemon N (other p)) (K (other p)))) (\<lambda>_.
    and_then (resend_in_order (deal_env D p) (daemon N p) (K p) (filter is_revoke (mail N p) \<noteq> []) (filter is_commit (mail N p) \<noteq> [])) (\<lambda>p1.
    and_then (as_reconnect (maybe_send_shutdown p1)) (\<lambda>p2.
    and_then (done_with (start_commit_timer p2) [REESTABLISHED]) (\<lambda>p3.
    and_then (resend_pending (htlcs (peer_channel p3))) (\<lambda>_. as_reconnect (peer_in_all (deal_env D p) uninit p3 early))))))"
  unfolding peer_reconnect_def lost_revoke [OF assms(1,2)] lost_commit [OF assms(1,2)]
  by (simp add: secrets_match [OF assms] no_next_funding)
lemma good_has:
  assumes "good (deal_of env points N0) N"
  shows "channel_has (peer_channel (daemon N p)) f = channel_has (peer_channel (daemon N0 p)) f"
proof -
  obtain l where "net_ok (deal_of env points N0) N l" using assms by (auto simp: good_def)
  from net_ok_follows [OF this, of p] have "static (peer_channel (daemon N p)) = static (peer_channel (daemon N0 p))" by simp
  then show ?thesis by (metis static_channel_has)
qed

text \<open>
  (C3) Two daemons whose connection breaks at any point of a run, with any messages on their way, and
  that exchange \<^verbatim>\<open>channel_reestablish\<close>: neither exits over the numbers, the secret, the point or the funding in the other's message,
  and neither misses an HTLC of the signature that it has to send again. The signatures and revocations each sends again are those
  of its messages that were lost, no more and no fewer, in the order in which they were first sent. Each revocation has the same secret and
  the same point. Each signature is on the same commitment of the peer as the lost one, the one that the daemon's channel has, with the
  same index and the same point.
\<close>

theorem reconnect_resends_lost:
  assumes "start_net points N0" and "start_books env N0 K0" and "keyed (deal_of env points N0)"
    and "kept_reaches env uninit (N0, K0) (N, K)"
    and "\<And>q i. get_per_commitment_point (hsm q) i = points q i"
    and "channel_has (peer_channel (daemon N0 REMOTE)) OPT_STATIC_REMOTEKEY = channel_has (peer_channel (daemon N0 LOCAL)) OPT_STATIC_REMOTEKEY"
  shows "(\<forall>e. peer_reconnect (hsm p) (env p) uninit (daemon N p) (K p)
            (reestablish_msg (hsm (other p)) (daemon N (other p)) (K (other p))) early = Some (Inl e) \<longrightarrow> \<not> complains e)
    \<and> (\<forall>y outs. peer_reconnect (hsm p) (env p) uninit (daemon N p) (K p)
            (reestablish_msg (hsm (other p)) (daemon N (other p)) (K (other p))) [] = Some (Inr (y, outs))
         \<longrightarrow> list_all2 (resent_for (env p) p (daemon N p)) (filter signs (sent_msgs outs)) (filter signs (mail N p)))"
proof (intro conjI allI impI)
  let ?D = "deal_of env points N0"
  have good: "good ?D N" and books: "books_ok ?D N K"
    using books_reach [of ?D uninit N0 K0 "(N, K)"] good_start [OF assms(1)] books_start [OF assms(1,2)] assms(3,4) by simp_all
  have "lost_held N0 K0" using assms(1) by (simp add: lost_held_def start_net_def)
  then have "lost_held N K"
    using lost_held_reach [of ?D uninit N0 K0 "(N, K)"] good_start [OF assms(1)] books_start [OF assms(1,2)] assms(3,4) by simp
  then have held: "filter is_commit (mail N p) \<noteq> [] \<Longrightarrow> \<forall>c \<in> set (last_sent_commit (K p)). held (peer_channel (daemon N p)) c"
    by (simp add: lost_held_def)
  have static: "channel_has (peer_channel (daemon N (other p))) OPT_STATIC_REMOTEKEY = channel_has (peer_channel (daemon N p)) OPT_STATIC_REMOTEKEY"
    using assms(6) by (cases p) (simp_all add: good_has [OF good])
  have hsm: "get_per_commitment_point (hsm (other p)) i = deal_points ?D (other p) i" for i using assms(5) by simp
  note parts = reconnect_parts [where D = ?D and hsm = hsm and p = p, OF good books hsm static, unfolded deal_of_simps]
  { fix e
    assume "peer_reconnect (hsm p) (env p) uninit (daemon N p) (K p)
      (reestablish_msg (hsm (other p)) (daemon N (other p)) (K (other p))) early = Some (Inl e)"
    moreover have "calm (peer_reconnect (hsm p) (env p) uninit (daemon N p) (K p)
      (reestablish_msg (hsm (other p)) (daemon N (other p)) (K (other p))) early)"
      unfolding parts by (intro calm_then calm_parts(3) calm_in_order held) (simp_all add: ready_again_def)
    ultimately show "\<not> complains e" by (simp add: calm_def) }
  { fix y outs
    assume run: "peer_reconnect (hsm p) (env p) uninit (daemon N p) (K p)
      (reestablish_msg (hsm (other p)) (daemon N (other p)) (K (other p))) [] = Some (Inr (y, outs))"
    from run [unfolded parts] obtain o0 p1 o1 p2 o2 o3 o4 where
      "ready_again (daemon N p) (reestablish_msg (hsm (other p)) (daemon N (other p)) (K (other p))) = Some (Inr ((), o0))"
      and order: "resend_in_order (env p) (daemon N p) (K p) (filter is_revoke (mail N p) \<noteq> []) (filter is_commit (mail N p) \<noteq> [])
        = Some (Inr (p1, o1))"
      and "as_reconnect (maybe_send_shutdown p1) = Some (Inr (p2, o2))"
      and "resend_pending (htlcs (peer_channel (start_commit_timer p2))) = Some (Inr ((), o3))"
      and "outs = o0 @ o1 @ o2 @ REESTABLISHED # o3"
      by (auto simp: and_then_result)
    moreover from this have "sent_msgs o0 = []" "filter signs (sent_msgs o2) = []" "filter signs (sent_msgs o3) = []"
      using signing_updates(4) unfolding signing_def
      by (auto simp: ready_again_def maybe_send_shutdown_def split: if_splits)
    ultimately have "filter signs (sent_msgs outs) = filter signs (sent_msgs o1)" by simp
    then show "list_all2 (resent_for (env p) p (daemon N p)) (filter signs (sent_msgs outs)) (filter signs (mail N p))"
      using resent_in_order [where D = ?D, OF good assms(3) books, of p p1 o1] order by simp }
qed
text \<open>An HTLC is offered and signed for, and both messages are lost.\<close>

definition demo_hsm :: "side \<Rightarrow> hsm" where
  "demo_hsm p = \<lparr>get_per_commitment_point = demo_points p, check_future_secret = (\<lambda>_ _. False)\<rparr>"

definition demo_kept :: kept where
  "demo_kept = \<lparr>last_was_revoke = False, last_sent_commit = [], last_secret = replicate 32 0\<rparr>"

definition demo_noted :: kept where
  "demo_noted = demo_kept\<lparr>last_sent_commit := [\<lparr>newstate = SENT_ADD_COMMIT, changed_id = 0\<rparr>]\<rparr>"

definition demo_lost :: net where
  "demo_lost = \<lparr>daemon = (daemon demo_net)(LOCAL := demo_waiting), mail = (\<lambda>_. [])(LOCAL := [demo_add, demo_sig])\<rparr>"

lemma demo_offer_result:
  "req_in (demo_env LOCAL) (daemon demo_net LOCAL) (OFFER_HTLC (AMOUNT_MSAT 20000000) 500 [] [] None None None 0)
   = Some (Inr (demo_offered, [To_Peer demo_add, To_Master (OFFER_HTLC_REPLY 0 None)]))"
  by (simp add: demo_evals demo_offered_def demo_add_def req_in_def handle_master_request_later_def is_entering_stfu_def
      handle_offer_htlc_def demo_offer_accepted' set_lock_point_def start_commit_timer_def done_with_def)

lemma demo_offer_id [simp]: "h_id demo_offer = 0"
  by (simp add: demo_offer_def new_htlc_def)

lemma demo_commit_result:
  "send_commit_if_not_stfu (demo_env LOCAL) demo_offered
   = Some (Inr (demo_waiting, [To_Master (SENDING_COMMITSIG 1 [\<lparr>newstate = SENT_ADD_COMMIT, changed_id = 0\<rparr>] None), To_Peer demo_sig]))"
  by (simp add: demo_evals demo_offered_def demo_waiting_def demo_sig_def demo_points_def send_commit_if_not_stfu_def send_commit_def Let_def send_fee_update_def want_fee_update_def
      is_entering_stfu_def channel_feerate_def get_feerate_def new_fee_states_def flag_simps send_blockheight_update_def want_blockheight_update_def
      commit_now_def demo_commit_sent send_commit_part_def maybe_send_shutdown_def dec_disable_commit_def start_commit_timer_def
      channel_has_def and_then_def done_with_def changed_htlc_arr_def)

lemma demo_lost_reached:
  "kept_reaches demo_env demo_sym_tree (demo_net, \<lambda>_. demo_kept) (demo_lost, (\<lambda>_. demo_kept)(LOCAL := demo_noted))"
proof -
  let ?N = "\<lparr>daemon = (daemon demo_net)(LOCAL := demo_offered), mail = (\<lambda>_. [])(LOCAL := [demo_add])\<rparr>"
  have "kept_step demo_env demo_sym_tree (demo_net, \<lambda>_. demo_kept)
      (put_out LOCAL (demo_offered, [To_Peer demo_add, To_Master (OFFER_HTLC_REPLY 0 None)]) demo_net,
       note_out LOCAL (demo_offered, [To_Peer demo_add, To_Master (OFFER_HTLC_REPLY 0 None)]) (\<lambda>_. demo_kept))"
    by (rule kept_step.order [where env = demo_env and p = LOCAL, OF _ demo_offer_result]) (simp_all add: counts_ok_def demo_net_def demo_peer_def)
  then have "kept_step demo_env demo_sym_tree (demo_net, \<lambda>_. demo_kept) (?N, \<lambda>_. demo_kept)"
    by (simp add: put_out_def note_out_def demo_net_def fun_upd_def)
  moreover have "kept_step demo_env demo_sym_tree (?N, \<lambda>_. demo_kept) (demo_lost, (\<lambda>_. demo_kept)(LOCAL := demo_noted))"
  proof -
    let ?res = "(demo_waiting, [To_Master (SENDING_COMMITSIG 1 [\<lparr>newstate = SENT_ADD_COMMIT, changed_id = 0\<rparr>] None), To_Peer demo_sig])"
    have "kept_step demo_env demo_sym_tree (?N, \<lambda>_. demo_kept) (put_out LOCAL ?res ?N, note_out LOCAL ?res (\<lambda>_. demo_kept))"
      by (rule kept_step.timer [where env = demo_env and p = LOCAL])
         (simp_all add: demo_commit_result, simp add: counts_ok_def demo_net_def demo_peer_def demo_offered_def)
    then show ?thesis
      by (simp add: put_out_def note_out_def demo_lost_def demo_noted_def demo_kept_def)
  qed
  ultimately show ?thesis by auto
qed
lemma demo_static [simp]: "channel_has demo_signed 12" "channel_has demo_mirror 12" "channel_has demo_chan 12"
proof -
  have "channel_type_has channel_type_static_remotekey 12"
    by (simp add: COMPULSORY_FEATURE_def OPTIONAL_FEATURE_def channel_type_has_def feature_offered_def
        channel_type_static_remotekey_def type_set_def new_channel_type_def fbit.member_ins)
  then show "channel_has demo_signed 12" "channel_has demo_mirror 12" "channel_has demo_chan 12"
    by (simp_all add: channel_has_def demo_chan_def demo_open_simps)
qed

lemma demo_start_books: "start_books demo_env demo_net (\<lambda>_. demo_kept)"
  by (simp add: start_books_def demo_net_def demo_peer_def demo_kept_def last_revealed_def)

lemma demo_waiting_simps [simp]:
  "peer_channel demo_waiting = demo_signed" "next_index demo_waiting LOCAL = 1" "next_index demo_waiting REMOTE = 2"
  "channel_ready demo_waiting LOCAL" "remote_per_commit demo_waiting = [2, 1]" "next_local_per_commit demo_waiting = [1, 1]"
  "\<not> send_shutdown demo_waiting" "dev_disable_commit demo_waiting = None"
  by (simp_all add: demo_waiting_def demo_offered_def demo_peer_def demo_points_def)

lemma demo_signed_htlcs [simp]: "htlcs demo_signed = [demo_offer\<lparr>h_state := SENT_ADD_COMMIT\<rparr>]" "opener demo_signed = LOCAL" "lease_expiry demo_signed = 0"
  by (simp_all add: demo_signed_def)

lemma demo_resend:
  "resend_commitment (demo_env LOCAL) demo_waiting [\<lparr>newstate = SENT_ADD_COMMIT, changed_id = 0\<rparr>]
   = done_with demo_waiting [Sent (To_Peer demo_add), Sent (To_Peer (UPDATE_FEE 253)), Sent (To_Peer demo_sig)]"
proof -
  have found: "last_htlc demo_signed \<lparr>newstate = SENT_ADD_COMMIT, changed_id = 0\<rparr> = Some (demo_offer\<lparr>h_state := SENT_ADD_COMMIT\<rparr>)"
    by (simp add: last_htlc_def channel_get_htlc_def htlc_get_def htlc_has_def htlc_state_owner_def state_lt_iff flag_simps)
  have "add_again (demo_offer\<lparr>h_state := SENT_ADD_COMMIT\<rparr>) = Some demo_add"
    by (simp add: add_again_def demo_offer_def new_htlc_def demo_add_def abs_locktime_to_blocks_def SECONDS_POINT_def)
  then show ?thesis
    by (simp add: resend_commitment_def Let_def found resend_rates_def channel_feerate_def get_feerate_def new_fee_states_def flag_simps
        commit_part_again_def send_commit_part_def demo_env_def dec_disable_commit_def demo_sig_def and_then_def done_with_def)
qed
lemma demo_peer_msg:
  "next_commitment_number (reestablish_msg (demo_hsm REMOTE) (daemon demo_lost REMOTE) demo_kept) = 1"
  "next_revocation_number (reestablish_msg (demo_hsm REMOTE) (daemon demo_lost REMOTE) demo_kept) = 0"
  "your_last_secret (reestablish_msg (demo_hsm REMOTE) (daemon demo_lost REMOTE) demo_kept) = replicate 32 0"
  by (simp_all add: reestablish_msg_def demo_lost_def demo_net_def demo_peer_def demo_kept_def)

lemma demo_reconnects:
  "peer_reconnect (demo_hsm LOCAL) (demo_env LOCAL) demo_sym_tree demo_waiting demo_noted
      (reestablish_msg (demo_hsm REMOTE) (daemon demo_lost REMOTE) demo_kept) []
    = Some (Inr (start_commit_timer demo_waiting, [CHANNEL_READY [1, 1], Sent (To_Peer demo_add), Sent (To_Peer (UPDATE_FEE 253)),
        Sent (To_Peer demo_sig), REESTABLISHED]))"
proof -
  have k: "\<not> last_was_revoke demo_noted" "last_sent_commit demo_noted = [\<lparr>newstate = SENT_ADD_COMMIT, changed_id = 0\<rparr>]"
    by (simp_all add: demo_noted_def demo_kept_def)
  show ?thesis
    by (simp add: peer_reconnect_def demo_peer_msg no_next_funding ready_again_def retransmit_revoke_and_ack_def retransmit_commitment_signed_def
        check_current_dataloss_fields_def Let_def resend_in_order_def k demo_resend maybe_send_shutdown_def
        start_commit_timer_def)
       (simp add: and_then_def done_with_def as_reconnect_def)
qed

theorem reconnect_resends_lost_witness:
  "\<exists>y outs. peer_reconnect (demo_hsm LOCAL) (demo_env LOCAL) demo_sym_tree (daemon demo_lost LOCAL) demo_noted
      (reestablish_msg (demo_hsm REMOTE) (daemon demo_lost REMOTE) demo_kept) [] = Some (Inr (y, outs))
    \<and> sent_msgs outs = [demo_add, UPDATE_FEE 253, demo_sig]
    \<and> list_all2 (resent_for (demo_env LOCAL) LOCAL (daemon demo_lost LOCAL)) (filter signs (sent_msgs outs)) (filter signs (mail demo_lost LOCAL))"
proof -
  have x: "daemon demo_lost LOCAL = demo_waiting" by (simp add: demo_lost_def)
  have "\<forall>y outs. peer_reconnect (demo_hsm LOCAL) (demo_env LOCAL) demo_sym_tree (daemon demo_lost LOCAL) demo_noted
        (reestablish_msg (demo_hsm REMOTE) (daemon demo_lost REMOTE) demo_kept) [] = Some (Inr (y, outs))
      \<longrightarrow> list_all2 (resent_for (demo_env LOCAL) LOCAL (daemon demo_lost LOCAL)) (filter signs (sent_msgs outs)) (filter signs (mail demo_lost LOCAL))"
    using reconnect_resends_lost [where hsm = demo_hsm and p = LOCAL, OF demo_started demo_start_books demo_keyed demo_lost_reached]
    by (simp add: demo_hsm_def demo_net_def demo_peer_def)
  then show ?thesis by (simp add: x demo_reconnects)
qed

text \<open>
  (C4) The daemon goes on only with a peer that is in step with it: whatever the message says, if the reconnection
  completes then the peer has all our revocations, or all but the last, it has all our signatures, or all but the last, and,
  where the extra fields are checked, it knows the secret of the last revocation it claims to have. A peer that has more
  revocations than we have sent, which means that our own state is old, is never answered with a signature or a
  revocation; if it proves it, lightningd is told.
\<close>

theorem reconnect_only_in_step:
  "(\<forall>y outs. peer_reconnect hsm env uninit p k r early = Some (Inr (y, outs)) \<longrightarrow>
      (next_revocation_number r = next_index p LOCAL - 1 \<or> next_revocation_number r = next_index p LOCAL - 2 \<and> 2 \<le> next_index p LOCAL)
    \<and> (next_commitment_number r = next_index p REMOTE \<or> next_commitment_number r = next_index p REMOTE - 1 \<and> next_commitment_number r \<noteq> 0)
    \<and> (check_extra_fields p \<longrightarrow> your_last_secret r = last_revealed (revoke_commitment env) (next_revocation_number r)))
   \<and> (next_index p LOCAL - 1 < next_revocation_number r \<and> 2 \<le> next_index p LOCAL \<and> check_extra_fields p \<and> next_funding_txid r = None \<longrightarrow>
        peer_reconnect hsm env uninit p k r early
          = exits (if check_future_secret hsm (next_revocation_number r - 1) (your_last_secret r) then FALLEN_BEHIND else BAD_FUTURE_SECRET))"
proof (intro conjI allI impI)
  fix y outs assume run: "peer_reconnect hsm env uninit p k r early = Some (Inr (y, outs))"
  then obtain revoke commit where revoke: "retransmit_revoke_and_ack hsm p r = Inr revoke"
    and commit: "retransmit_commitment_signed p r = Inr commit"
    and extra: "check_extra_fields p \<Longrightarrow> \<exists>v o1. check_current_dataloss_fields env p r = Some (Inr (v, o1))"
    by (auto simp: peer_reconnect_def and_then_result split: if_splits sum.splits)
  show "next_revocation_number r = next_index p LOCAL - 1 \<or> next_revocation_number r = next_index p LOCAL - 2 \<and> 2 \<le> next_index p LOCAL"
    using revoke by (auto simp: retransmit_revoke_and_ack_def not_less split: if_splits)
  show "next_commitment_number r = next_index p REMOTE \<or> next_commitment_number r = next_index p REMOTE - 1 \<and> next_commitment_number r \<noteq> 0"
    using commit by (auto simp: retransmit_commitment_signed_def split: if_splits)
  show "your_last_secret r = last_revealed (revoke_commitment env) (next_revocation_number r)" if "check_extra_fields p"
    using extra [OF that] by (auto simp: check_current_dataloss_fields_def last_revealed_def Let_def split: if_splits)
next
  assume ahead: "next_index p LOCAL - 1 < next_revocation_number r \<and> 2 \<le> next_index p LOCAL \<and> check_extra_fields p \<and> next_funding_txid r = None"
  moreover have "1 \<le> next_index p LOCAL" using ahead by (auto simp: word_le_nat_alt)
  ultimately have "next_revocation_number r \<noteq> next_index p LOCAL - 2"
    by (auto simp: word_less_nat_alt unat_sub)
  with ahead have "retransmit_revoke_and_ack hsm p r = Inl (check_future_dataloss_fields hsm r)"
    by (auto simp: retransmit_revoke_and_ack_def not_less_iff_gr_or_eq)
  with ahead show "peer_reconnect hsm env uninit p k r early
      = exits (if check_future_secret hsm (next_revocation_number r - 1) (your_last_secret r) then FALLEN_BEHIND else BAD_FUTURE_SECRET)"
    by (simp add: peer_reconnect_def ready_again_def check_future_dataloss_fields_def and_then_def exits_def done_with_def)
qed

text \<open>The peer of the run above; and one that is ahead, on a daemon of index 2.\<close>

theorem reconnect_only_in_step_witness:
  "(\<exists>y outs. peer_reconnect (demo_hsm LOCAL) (demo_env LOCAL) demo_sym_tree demo_waiting demo_noted
      (reestablish_msg (demo_hsm REMOTE) (daemon demo_lost REMOTE) demo_kept) [] = Some (Inr (y, outs)))
   \<and> next_revocation_number (reestablish_msg (demo_hsm REMOTE) (daemon demo_lost REMOTE) demo_kept) = next_index demo_waiting LOCAL - 1
   \<and> peer_reconnect (demo_hsm LOCAL) (demo_env LOCAL) demo_sym_tree (demo_waiting\<lparr>next_index := (\<lambda>_. 2)\<rparr>) demo_noted
       \<lparr>next_commitment_number = 2, next_revocation_number = 5, your_last_secret = [], my_current_point = [], next_funding_txid = None\<rparr> []
     = exits BAD_FUTURE_SECRET"
proof -
  let ?r = "reestablish_msg (demo_hsm REMOTE) (daemon demo_lost REMOTE) demo_kept"
  note one = reconnect_only_in_step [of "demo_hsm LOCAL" "demo_env LOCAL" demo_sym_tree demo_waiting demo_noted ?r "[]"]
  have "next_revocation_number ?r = next_index demo_waiting LOCAL - 1" using one by (simp add: demo_reconnects demo_peer_msg)
  moreover have "check_extra_fields (demo_waiting\<lparr>next_index := (\<lambda>_. 2)\<rparr>)" by (simp add: check_extra_fields_def)
  moreover have "\<not> check_future_secret (demo_hsm LOCAL) i s" for i s by (simp add: demo_hsm_def)
  ultimately show ?thesis
    using reconnect_only_in_step [of "demo_hsm LOCAL" "demo_env LOCAL" demo_sym_tree "demo_waiting\<lparr>next_index := (\<lambda>_. 2)\<rparr>" demo_noted
       "\<lparr>next_commitment_number = 2, next_revocation_number = 5, your_last_secret = [], my_current_point = [], next_funding_txid = None\<rparr>" "[]"]
    by (simp add: demo_reconnects)
qed

end
