(* ===== verification/CloseTx.thy ===== *)
theory CloseTx
  imports Tapscript InitialChannel "HOL-Library.Multiset" "HOL-Library.Product_Lexorder"
begin

text \<open>
  The transaction of a mutual close: \<^verbatim>\<open>common/close_tx.c\<close>, the order of outputs of
  \<^verbatim>\<open>common/permute_tx.c\<close> and what they use of \<^verbatim>\<open>bitcoin/tx.c\<close>. A transaction is the inputs with the
  amount and the asset each spends, and the outputs with script, amount and asset; its serialization and the
  PSBT beside it are libwally's, and so is the final assertion of \<^verbatim>\<open>close_tx_of\<close>, \<^verbatim>\<open>bitcoin_tx_check\<close>, which only asks
  libwally whether the transaction serializes to as many bytes as it says; it is left out. The key path of our own output
  is data of the PSBT and left out.
\<close>

section \<open>Transactions\<close>

record tx_input =
  spent :: bitcoin_outpoint
  spent_amount :: amount_sat
  spent_asset :: bytes

record tx_output =
  pays_script :: bytes
  pays_amount :: amount_sat
  pays_asset :: bytes

record bitcoin_tx =
  tx_inputs :: "tx_input list"
  tx_outputs :: "tx_output list"
  outputs_allocation_len :: nat
  output_asset :: bytes

definition set_default_output_asset :: "chainparams \<Rightarrow> bytes" where
  "set_default_output_asset cp =
     (case fee_asset_tag cp of
        Some tag \<Rightarrow> if is_elements cp then tag else replicate 33 0
      | None \<Rightarrow> replicate 33 0)"

definition new_bitcoin_tx :: "chainparams \<Rightarrow> nat \<Rightarrow> bitcoin_tx" where
  "new_bitcoin_tx cp output_count =
     \<lparr>tx_inputs = [], tx_outputs = [],
      outputs_allocation_len = output_count + (if is_elements cp then 1 else 0),
      output_asset = set_default_output_asset cp\<rparr>"

definition bitcoin_tx_set_output_asset :: "chainparams \<Rightarrow> bytes \<Rightarrow> bitcoin_tx \<Rightarrow> bitcoin_tx" where
  "bitcoin_tx_set_output_asset cp asset tx = (if is_elements cp then tx\<lparr>output_asset := asset\<rparr> else tx)"

definition bitcoin_tx_add_input :: "bitcoin_outpoint \<Rightarrow> amount_sat \<Rightarrow> bitcoin_tx \<Rightarrow> bitcoin_tx" where
  "bitcoin_tx_add_input outpoint amount tx =
     tx\<lparr>tx_inputs := tx_inputs tx @ [\<lparr>spent = outpoint, spent_amount = amount, spent_asset = output_asset tx\<rparr>]\<rparr>"

definition bitcoin_tx_add_output :: "bytes \<Rightarrow> amount_sat \<Rightarrow> bitcoin_tx \<Rightarrow> bitcoin_tx run" where
  "bitcoin_tx_add_output script amount tx =
     (if length (tx_outputs tx) < outputs_allocation_len tx
      then Some (tx\<lparr>tx_outputs := tx_outputs tx @
             [\<lparr>pays_script = script, pays_amount = amount, pays_asset = output_asset tx\<rparr>]\<rparr>)
      else None)"

definition elements_tx_output_is_fee :: "chainparams \<Rightarrow> tx_output \<Rightarrow> bool" where
  "elements_tx_output_is_fee cp out = (is_elements cp \<and> pays_script out = [])"

fun compute_fee_loop :: "chainparams \<Rightarrow> bytes \<Rightarrow> tx_output list \<Rightarrow> amount_sat \<Rightarrow> amount_sat" where
  "compute_fee_loop cp asset [] input_val = input_val"
| "compute_fee_loop cp asset (out # outs) input_val =
     (if elements_tx_output_is_fee cp out \<or> pays_asset out \<noteq> asset
      then compute_fee_loop cp asset outs input_val
      else case amount_sat_sub input_val (pays_amount out) of
             None \<Rightarrow> AMOUNT_SAT 0
           | Some rest \<Rightarrow> compute_fee_loop cp asset outs rest)"

definition bitcoin_tx_compute_fee_w_inputs :: "chainparams \<Rightarrow> bitcoin_tx \<Rightarrow> amount_sat \<Rightarrow> amount_sat" where
  "bitcoin_tx_compute_fee_w_inputs cp tx input_val = compute_fee_loop cp (output_asset tx) (tx_outputs tx) input_val"

definition bitcoin_tx_compute_fee :: "chainparams \<Rightarrow> bitcoin_tx \<Rightarrow> amount_sat run" where
  "bitcoin_tx_compute_fee cp tx =
     do { total \<leftarrow> accumulate_all amount_sat_add (AMOUNT_SAT 0) (map spent_amount (tx_inputs tx));
          Some (bitcoin_tx_compute_fee_w_inputs cp tx total) }"

fun set_fee_output :: "chainparams \<Rightarrow> amount_sat \<Rightarrow> tx_output list \<Rightarrow> tx_output list option" where
  "set_fee_output cp fee [] = None"
| "set_fee_output cp fee (out # outs) =
     (if elements_tx_output_is_fee cp out then Some (out\<lparr>pays_amount := fee\<rparr> # outs)
      else map_option ((#) out) (set_fee_output cp fee outs))"

definition elements_tx_add_fee_output :: "chainparams \<Rightarrow> bitcoin_tx \<Rightarrow> bitcoin_tx run" where
  "elements_tx_add_fee_output cp tx =
     do { fee \<leftarrow> bitcoin_tx_compute_fee cp tx;
          if \<not> is_elements cp then Some tx
          else case set_fee_output cp fee (tx_outputs tx) of
                 None \<Rightarrow> bitcoin_tx_add_output [] fee tx
               | Some outs \<Rightarrow> Some (tx\<lparr>tx_outputs := outs\<rparr>) }"

definition bitcoin_tx_finalize :: "chainparams \<Rightarrow> bitcoin_tx \<Rightarrow> bitcoin_tx run" where
  "bitcoin_tx_finalize cp tx = elements_tx_add_fee_output cp tx"

section \<open>The order of outputs\<close>

definition output_better :: "tx_output \<Rightarrow> u32 \<Rightarrow> tx_output \<Rightarrow> u32 \<Rightarrow> bool" where
  "output_better a cltv_a b cltv_b =
     (if pays_amount a \<noteq> pays_amount b then satoshis (pays_amount a) < satoshis (pays_amount b)
      else if memcmp_less (pays_script a) (pays_script b) then True
      else if memcmp_less (pays_script b) (pays_script a) then False
      else if length (pays_script a) \<noteq> length (pays_script b)
           then length (pays_script a) < length (pays_script b)
      else cltv_a < cltv_b)"

text \<open>An output and its entry of \<^verbatim>\<open>cltvs\<close>, which is 0 when there is no such array.\<close>

type_synonym cltv_output = "tx_output \<times> u32"

definition find_best_out :: "cltv_output list \<Rightarrow> nat" where
  "find_best_out outs =
     foldl (\<lambda>best i. if output_better (fst (outs ! i)) (snd (outs ! i)) (fst (outs ! best)) (snd (outs ! best))
                     then i else best) 0 [1..<length outs]"

definition swap_wally_outputs :: "'a list \<Rightarrow> nat \<Rightarrow> nat \<Rightarrow> 'a list" where
  "swap_wally_outputs outs i1 i2 = (if i1 = i2 then outs else outs[i1 := outs ! i2, i2 := outs ! i1])"

definition permute_outputs :: "cltv_output list \<Rightarrow> cltv_output list" where
  "permute_outputs outs =
     foldl (\<lambda>os i. swap_wally_outputs os i (i + find_best_out (drop i os))) outs [0..<length outs - 1]"

section \<open>The closing transaction\<close>

record close_lane =
  cl_asset :: bytes
  cl_funding :: bitcoin_outpoint
  cl_funding_sats :: amount_sat
  cl_to_us :: amount_sat
  cl_to_them :: amount_sat

fun add_lane_inputs :: "chainparams \<Rightarrow> close_lane list \<Rightarrow> bitcoin_tx \<Rightarrow> bitcoin_tx" where
  "add_lane_inputs cp [] tx = tx"
| "add_lane_inputs cp (l # ls) tx =
     add_lane_inputs cp ls
       (bitcoin_tx_add_input (cl_funding l) (cl_funding_sats l) (bitcoin_tx_set_output_asset cp (cl_asset l) tx))"

text \<open>\<^verbatim>\<open>first\<close> is 0: our share comes before theirs.\<close>

definition lane_first :: "amount_sat \<Rightarrow> bytes \<Rightarrow> amount_sat \<Rightarrow> bytes \<Rightarrow> bool" where
  "lane_first amt0 spk0 amt1 spk1 =
     (if \<not> amount_sat_eq amt0 amt1 then amount_sat_less amt0 amt1
      else memcmp_less spk0 spk1 \<or> (\<not> memcmp_less spk1 spk0 \<and> length spk0 \<le> length spk1))"

definition add_share :: "bytes \<Rightarrow> amount_sat \<Rightarrow> bitcoin_tx \<Rightarrow> bitcoin_tx run" where
  "add_share spk amt tx = (if amount_sat_is_zero amt then Some tx else bitcoin_tx_add_output spk amt tx)"

fun add_lane_outputs :: "chainparams \<Rightarrow> bytes \<Rightarrow> bytes \<Rightarrow> close_lane list \<Rightarrow> bitcoin_tx \<Rightarrow> bitcoin_tx option run" where
  "add_lane_outputs cp our_script their_script [] tx = Some (Some tx)"
| "add_lane_outputs cp our_script their_script (l # ls) tx =
     (case amount_sat_add (cl_to_us l) (cl_to_them l) of
        None \<Rightarrow> Some None
      | Some both \<Rightarrow>
          if \<not> amount_sat_eq both (cl_funding_sats l) then Some None
          else let tx0 = bitcoin_tx_set_output_asset cp (cl_asset l) tx in
               do { tx' \<leftarrow> (if lane_first (cl_to_us l) our_script (cl_to_them l) their_script
                          then do { tx1 \<leftarrow> add_share our_script (cl_to_us l) tx0; add_share their_script (cl_to_them l) tx1 }
                          else do { tx1 \<leftarrow> add_share their_script (cl_to_them l) tx0; add_share our_script (cl_to_us l) tx1 });
                    add_lane_outputs cp our_script their_script ls tx' })"

text \<open>The outputs of lane 0: those that are not below the dust limit, in the order of \<open>permute_outputs\<close>.\<close>

definition add_above_dust :: "amount_sat \<Rightarrow> bytes \<Rightarrow> amount_sat \<Rightarrow> bitcoin_tx \<Rightarrow> bitcoin_tx run" where
  "add_above_dust dust script amount tx =
     (if amount_sat_greater_eq amount dust then bitcoin_tx_add_output script amount tx else Some tx)"

definition close_tx_start :: "chainparams \<Rightarrow> bitcoin_outpoint \<Rightarrow> amount_sat \<Rightarrow> bytes \<Rightarrow> close_lane list \<Rightarrow> bitcoin_tx" where
  "close_tx_start cp fund fund_sats asset lanes =
     bitcoin_tx_set_output_asset cp asset
       (add_lane_inputs cp lanes
         (bitcoin_tx_add_input fund fund_sats
           (bitcoin_tx_set_output_asset cp asset (new_bitcoin_tx cp (3 + 2 * length lanes)))))"

definition close_tx_of ::
  "chainparams \<Rightarrow> bytes \<Rightarrow> bytes \<Rightarrow> bitcoin_outpoint \<Rightarrow> amount_sat \<Rightarrow> amount_sat \<Rightarrow> amount_sat \<Rightarrow> amount_sat \<Rightarrow>
   bytes \<Rightarrow> close_lane list \<Rightarrow> bitcoin_tx option run" where
  "close_tx_of cp our_script their_script fund fund_sats to_us to_them dust asset lanes =
     (case amount_sat_add to_us to_them of
        None \<Rightarrow> None
      | Some total_out \<Rightarrow>
          if \<not> amount_sat_less_eq total_out fund_sats then None
          else do {
            tx1 \<leftarrow> add_above_dust dust our_script to_us (close_tx_start cp fund fund_sats asset lanes);
            tx2 \<leftarrow> add_above_dust dust their_script to_them tx1;
            if tx_outputs tx2 = [] then Some None
            else let outs = map fst (permute_outputs (map (\<lambda>out. (out, 0)) (tx_outputs tx2)));
                     tx3 = tx2\<lparr>tx_outputs := outs\<rparr>
                 in if lanes = [] then map_option Some (bitcoin_tx_finalize cp tx3)
                    else do {
                      lane0_out \<leftarrow> accumulate_all amount_sat_add (AMOUNT_SAT 0) (map pays_amount (tx_outputs tx2));
                      r \<leftarrow> add_lane_outputs cp our_script their_script lanes tx3;
                      case r of
                        None \<Rightarrow> Some None
                      | Some tx4 \<Rightarrow>
                          (case amount_sat_sub fund_sats lane0_out of
                             None \<Rightarrow> Some None
                           | Some fee \<Rightarrow>
                               map_option Some (bitcoin_tx_add_output [] fee
                                 (bitcoin_tx_set_output_asset cp asset tx4))) } })"

definition create_close_tx ::
  "chainparams \<Rightarrow> bytes \<Rightarrow> bytes \<Rightarrow> bitcoin_outpoint \<Rightarrow> amount_sat \<Rightarrow> amount_sat \<Rightarrow> amount_sat \<Rightarrow> amount_sat \<Rightarrow>
   bytes \<Rightarrow> bitcoin_tx option run" where
  "create_close_tx cp our_script their_script fund fund_sats to_us to_them dust asset =
     close_tx_of cp our_script their_script fund fund_sats to_us to_them dust asset []"

definition create_close_tx_lanes ::
  "chainparams \<Rightarrow> bytes \<Rightarrow> bytes \<Rightarrow> bitcoin_outpoint \<Rightarrow> amount_sat \<Rightarrow> amount_sat \<Rightarrow> amount_sat \<Rightarrow> amount_sat \<Rightarrow>
   bytes \<Rightarrow> close_lane list \<Rightarrow> bitcoin_tx option run" where
  "create_close_tx_lanes = close_tx_of"


section \<open>The order is a sort\<close>

text \<open>What \<open>output_better\<close> compares, with the lexicographic order of lists.\<close>

definition out_key :: "cltv_output \<Rightarrow> u64 \<times> bytes \<times> u32" where
  "out_key out = (satoshis (pays_amount (fst out)), pays_script (fst out), snd out)"

lemma output_better_key: "output_better a ca b cb \<longleftrightarrow> out_key (a, ca) < out_key (b, cb)"
  using memcmp_lexicographic [of "pays_script a" "pays_script b"] memcmp_less_asym [of "pays_script a" "pays_script b"]
    memcmp_equal [of "pays_script a" "pays_script b"]
  by (auto simp: output_better_def out_key_def less_prod_def amount_sat.expand le_less)


lemma find_best_out_least:
  assumes "outs \<noteq> []"
  shows "find_best_out outs < length outs"
    and "j < length outs \<Longrightarrow> out_key (outs ! find_best_out outs) \<le> out_key (outs ! j)"
proof -
  define f where "f = (\<lambda>best i. if output_better (fst (outs ! i)) (snd (outs ! i)) (fst (outs ! best)) (snd (outs ! best))
                                then i else best)"
  have "1 \<le> m \<Longrightarrow> foldl f 0 [1..<m] < m \<and> (\<forall>j < m. out_key (outs ! foldl f 0 [1..<m]) \<le> out_key (outs ! j))" for m
  proof (induction m rule: dec_induct)
    case (step m)
    then show ?case
      by (force simp: f_def output_better_key less_Suc_eq not_less intro: order.trans less_imp_le)
  qed simp
  from this [of "length outs"] assms
  show "find_best_out outs < length outs"
    and "j < length outs \<Longrightarrow> out_key (outs ! find_best_out outs) \<le> out_key (outs ! j)"
    unfolding find_best_out_def f_def by (simp_all add: Suc_le_eq)
qed

lemma mset_swap_wally [simp]:
  "i < length os \<Longrightarrow> j < length os \<Longrightarrow> mset (swap_wally_outputs os i j) = mset os"
  by (auto simp: swap_wally_outputs_def mset_swap)

lemma length_swap_wally [simp]: "length (swap_wally_outputs os i j) = length os"
  by (simp add: swap_wally_outputs_def)

lemma nth_swap_wally:
  "i < length os \<Longrightarrow> j < length os \<Longrightarrow> k < length os \<Longrightarrow>
   swap_wally_outputs os i j ! k = (if k = i then os ! j else if k = j then os ! i else os ! k)"
  by (auto simp: swap_wally_outputs_def nth_list_update)

definition ordered_upto :: "nat \<Rightarrow> cltv_output list \<Rightarrow> bool" where
  "ordered_upto k os \<longleftrightarrow> (\<forall>i < k. \<forall>j < length os. i \<le> j \<longrightarrow> out_key (os ! i) \<le> out_key (os ! j))"

lemma permute_step:
  assumes "ordered_upto k os" and k: "k < length os"
  defines "os' \<equiv> swap_wally_outputs os k (k + find_best_out (drop k os))"
  shows "ordered_upto (Suc k) os' \<and> mset os' = mset os"
proof -
  define b where "b = k + find_best_out (drop k os)"
  have b: "b < length os" "k \<le> b" using find_best_out_least(1) [of "drop k os"] k by (auto simp: b_def)
  have best: "out_key (os ! b) \<le> out_key (os ! j)" if "k \<le> j" "j < length os" for j
    using find_best_out_least(2) [of "drop k os" "j - k"] k that by (simp add: b_def)
  have "out_key (os' ! i) \<le> out_key (os' ! j)" if "i < Suc k" "j < length os" "i \<le> j" for i j
    using assms(1) b best that unfolding os'_def b_def [symmetric]
    by (cases "i = k") (auto simp: nth_swap_wally ordered_upto_def)
  then show ?thesis using b k unfolding os'_def b_def [symmetric] by (simp add: ordered_upto_def)
qed

lemma permute_prefix:
  "k \<le> length outs \<Longrightarrow>
   (let os = foldl (\<lambda>os i. swap_wally_outputs os i (i + find_best_out (drop i os))) outs [0..<k]
    in ordered_upto k os \<and> mset os = mset outs)"
proof (induction k)
  case (Suc k)
  define os where "os = foldl (\<lambda>os i. swap_wally_outputs os i (i + find_best_out (drop i os))) outs [0..<k]"
  from Suc have "ordered_upto k os" and m: "mset os = mset outs" by (simp_all add: os_def Let_def)
  with permute_step [of k os] mset_eq_length [OF m] Suc.prems m show ?case
    by (simp add: Let_def flip: os_def)
qed (simp add: ordered_upto_def)

lemma mset_permute_outputs: "mset (permute_outputs outs) = mset outs"
  using permute_prefix [of "length outs - 1" outs] by (simp add: permute_outputs_def Let_def)

lemma permute_outputs_sorted: "sorted (map out_key (permute_outputs outs))"
proof -
  have o: "ordered_upto (length outs - 1) (permute_outputs outs)"
    using permute_prefix [of "length outs - 1" outs] by (simp add: permute_outputs_def Let_def)
  have l: "length (permute_outputs outs) = length outs" by (rule mset_eq_length [OF mset_permute_outputs])
  show ?thesis unfolding sorted_iff_nth_mono
  proof (intro allI impI)
    fix i j assume "i \<le> j" "j < length (map out_key (permute_outputs outs))"
    then show "map out_key (permute_outputs outs) ! i \<le> map out_key (permute_outputs outs) ! j"
      using o l by (cases "i = j") (auto simp: ordered_upto_def)
  qed
qed


lemma permute_outputs_unique:
  assumes "mset xs = mset ys" and "inj_on out_key (set xs)"
  shows "permute_outputs xs = permute_outputs ys"
proof -
  have m: "mset (permute_outputs xs) = mset (permute_outputs ys)" by (simp add: mset_permute_outputs assms(1))
  then have "sort (map out_key (permute_outputs xs)) = map out_key (permute_outputs ys)"
    by (intro properties_for_sort permute_outputs_sorted) (simp only: mset_map)
  then have keys: "map out_key (permute_outputs xs) = map out_key (permute_outputs ys)"
    by (simp only: sorted_sort_id [OF permute_outputs_sorted])
  have sets: "set (permute_outputs xs) = set xs" "set (permute_outputs ys) = set xs"
    by (simp_all only: mset_eq_setD [OF mset_permute_outputs] mset_eq_setD [OF assms(1)])
  show ?thesis by (rule map_inj_on [OF keys]) (simp add: sets assms(2))
qed

section \<open>Both sides build one transaction\<close>

definition mirror_lane :: "close_lane \<Rightarrow> close_lane" where
  "mirror_lane l = l\<lparr>cl_to_us := cl_to_them l, cl_to_them := cl_to_us l\<rparr>"

lemma mirror_lane_simps [simp]:
  "cl_asset (mirror_lane l) = cl_asset l" "cl_funding (mirror_lane l) = cl_funding l"
  "cl_funding_sats (mirror_lane l) = cl_funding_sats l"
  "cl_to_us (mirror_lane l) = cl_to_them l" "cl_to_them (mirror_lane l) = cl_to_us l"
  by (simp_all add: mirror_lane_def)

lemma add_lane_inputs_mirror: "add_lane_inputs cp (map mirror_lane ls) tx = add_lane_inputs cp ls tx"
  by (induction ls arbitrary: tx) simp_all

lemma lane_first_mirror:
  "lane_first a sa b sb = lane_first b sb a sa \<Longrightarrow> a = b \<and> sa = sb"
  using memcmp_less_total [of sa sb] memcmp_less_asym [of sa sb]
  by (auto simp: lane_first_def amount_sat_eq_def amount_sat_less_def amount_sat.expand split: if_splits)

lemma add_lane_outputs_mirror:
  "add_lane_outputs cp b a (map mirror_lane ls) tx = add_lane_outputs cp a b ls tx"
proof (induction ls arbitrary: tx a b)
  case (Cons l ls)
  have IH: "add_lane_outputs cp b a (map mirror_lane ls) = add_lane_outputs cp a b ls" for a b
    by (rule ext) (rule Cons.IH)
  have s: "amount_sat_add (cl_to_them l) (cl_to_us l) = amount_sat_add (cl_to_us l) (cl_to_them l)"
    by (rule sat_arith.add_commute)
  show ?case
  proof (cases "lane_first (cl_to_us l) a (cl_to_them l) b = lane_first (cl_to_them l) b (cl_to_us l) a")
    case True
    from lane_first_mirror [OF this] show ?thesis by (simp add: Let_def IH split: option.split)
  next
    case False
    then show ?thesis by (cases "lane_first (cl_to_us l) a (cl_to_them l) b") (simp_all add: s Let_def IH split: option.split)
  qed
qed simp


text \<open>The outputs of lane 0, in the order in which they are added.\<close>

definition lane0_outs :: "bytes \<Rightarrow> amount_sat \<Rightarrow> bytes \<Rightarrow> amount_sat \<Rightarrow> bytes \<Rightarrow> amount_sat \<Rightarrow> tx_output list" where
  "lane0_outs asset dust s1 a s2 b =
     (if amount_sat_greater_eq a dust then [\<lparr>pays_script = s1, pays_amount = a, pays_asset = asset\<rparr>] else []) @
     (if amount_sat_greater_eq b dust then [\<lparr>pays_script = s2, pays_amount = b, pays_asset = asset\<rparr>] else [])"

lemma lane0_outs_added:
  assumes "tx_outputs tx = []" and "2 \<le> outputs_allocation_len tx"
  shows "do { tx1 \<leftarrow> add_above_dust dust s1 a tx; add_above_dust dust s2 b tx1 } =
         Some (tx\<lparr>tx_outputs := lane0_outs (output_asset tx) dust s1 a s2 b\<rparr>)"
  using assms by (simp add: add_above_dust_def bitcoin_tx_add_output_def lane0_outs_def)

lemma add_lane_inputs_simps [simp]:
  "tx_outputs (add_lane_inputs cp ls tx) = tx_outputs tx"
  "outputs_allocation_len (add_lane_inputs cp ls tx) = outputs_allocation_len tx"
  by (induction ls arbitrary: tx) (simp_all add: bitcoin_tx_add_input_def bitcoin_tx_set_output_asset_def)

lemma close_tx_start_simps [simp]:
  "tx_outputs (close_tx_start cp fund fs asset ls) = []"
  "outputs_allocation_len (close_tx_start cp fund fs asset ls) = 3 + 2 * length ls + (if is_elements cp then 1 else 0)"
  by (simp_all add: close_tx_start_def bitcoin_tx_set_output_asset_def bitcoin_tx_add_input_def new_bitcoin_tx_def)

lemma close_tx_start_mirror:
  "close_tx_start cp fund fs asset (map mirror_lane ls) = close_tx_start cp fund fs asset ls"
  by (simp add: close_tx_start_def add_lane_inputs_mirror)

text \<open>The order in which the outputs of lane 0 are added does not show.\<close>

lemma lane0_permuted_mirror:
  "permute_outputs (map (\<lambda>out. (out, 0)) (lane0_outs asset dust s2 b s1 a)) =
   permute_outputs (map (\<lambda>out. (out, 0)) (lane0_outs asset dust s1 a s2 b))"
  by (rule permute_outputs_unique)
     (auto simp: lane0_outs_def out_key_def amount_sat.expand intro!: inj_onI split: if_splits)

lemma accumulate_lane0_mirror:
  "accumulate_all amount_sat_add (AMOUNT_SAT 0) (map pays_amount (lane0_outs asset dust s2 b s1 a)) =
   accumulate_all amount_sat_add (AMOUNT_SAT 0) (map pays_amount (lane0_outs asset dust s1 a s2 b))"
proof -
  have "amount_sat_add (AMOUNT_SAT 0) x = Some x" for x by (simp add: sat_arith.add_iff)
  then show ?thesis by (simp add: lane0_outs_def sat_arith.add_commute [of a b])
qed

lemma close_tx_of_swapped:
  "close_tx_of cp their_script our_script fund fs to_them to_us dust asset (map mirror_lane lanes) =
   close_tx_of cp our_script their_script fund fs to_us to_them dust asset lanes"
proof -
  let ?tx = "close_tx_start cp fund fs asset lanes"
  have added: "do { tx1 \<leftarrow> add_above_dust dust s1 a ?tx; tx2 \<leftarrow> add_above_dust dust s2 b tx1; k tx2 } =
               k (?tx\<lparr>tx_outputs := lane0_outs (output_asset ?tx) dust s1 a s2 b\<rparr>)" for s1 a s2 b k
  proof -
    have "do { tx1 \<leftarrow> add_above_dust dust s1 a ?tx; tx2 \<leftarrow> add_above_dust dust s2 b tx1; k tx2 } =
          do { tx2 \<leftarrow> (do { tx1 \<leftarrow> add_above_dust dust s1 a ?tx; add_above_dust dust s2 b tx1 }); k tx2 }"
      by simp
    then show ?thesis by (subst (asm) lane0_outs_added) simp_all
  qed
  have none: "lane0_outs x dust s2 b s1 a = [] \<longleftrightarrow> lane0_outs x dust s1 a s2 b = []" for x s1 s2 a b
    by (auto simp: lane0_outs_def)
  have lanes: "add_lane_outputs cp their_script our_script (map mirror_lane lanes) tx =
               add_lane_outputs cp our_script their_script lanes tx" for tx
    by (rule add_lane_outputs_mirror)
  show ?thesis
    unfolding close_tx_of_def close_tx_start_mirror added Let_def
    by (simp add: sat_arith.add_commute [of to_them to_us] none [of _ their_script to_them our_script to_us]
        lane0_permuted_mirror [of _ _ their_script to_them our_script to_us]
        accumulate_lane0_mirror [of _ _ their_script to_them our_script to_us] lanes
        cong: option.case_cong if_cong)
qed


text \<open>The dust limit shows only in which shares of lane 0 it keeps.\<close>

lemma close_tx_of_alike:
  assumes "\<forall>amt \<in> {to_us, to_them}. sat dust \<le> sat amt \<longleftrightarrow> sat dust' \<le> sat amt"
  shows "close_tx_of cp their_script our_script fund fs to_them to_us dust' asset (map mirror_lane lanes) =
         close_tx_of cp our_script their_script fund fs to_us to_them dust asset lanes"
proof -
  have keep: "add_above_dust dust' script to_us = add_above_dust dust script to_us"
      "add_above_dust dust' script to_them = add_above_dust dust script to_them" for script
    using assms by (auto simp: add_above_dust_def amount_sat_greater_eq_def word_le_nat_alt fun_eq_iff)
  have "close_tx_of cp our_script their_script fund fs to_us to_them dust' asset lanes
      = close_tx_of cp our_script their_script fund fs to_us to_them dust asset lanes"
    unfolding close_tx_of_def keep ..
  then show ?thesis by (simp add: close_tx_of_swapped)
qed

text \<open>
  (C26) The two sides of a channel build one closing transaction, each with its own dust limit, as long as
  no share of lane 0 lies between the two limits, so that one would keep it and the other leave it out: with our and
  their script, amount and share of every lane exchanged, \<^verbatim>\<open>close_tx_of\<close> returns the same transaction, with the
  same order of inputs and outputs, and fails or stops in the same cases. So a signature by one side is over what the other side checks.
\<close>

theorem close_tx_of_mirror:
  assumes "\<forall>amt \<in> {to_us, to_them}. sat dust \<le> sat amt \<longleftrightarrow> sat dust' \<le> sat amt"
  shows "close_tx_of cp their_script our_script fund fs to_them to_us dust' asset (map mirror_lane lanes) =
         close_tx_of cp our_script their_script fund fs to_us to_them dust asset lanes"
  using assms by (rule close_tx_of_alike)

text \<open>Limits of 330 and 546 satoshis, and shares of 1000 and 200.\<close>

theorem close_tx_of_mirror_witness:
  "close_tx_of net_bitcoin [2] [1] demo_outpoint (AMOUNT_SAT 1300) (AMOUNT_SAT 200) (AMOUNT_SAT 1000) (AMOUNT_SAT 546) [] []
   = close_tx_of net_bitcoin [1] [2] demo_outpoint (AMOUNT_SAT 1300) (AMOUNT_SAT 1000) (AMOUNT_SAT 200) (AMOUNT_SAT 330) [] []"
  using close_tx_of_mirror [of "AMOUNT_SAT 1000" "AMOUNT_SAT 200" "AMOUNT_SAT 330" "AMOUNT_SAT 546" net_bitcoin "[2]" "[1]" demo_outpoint
      "AMOUNT_SAT 1300" "[]" "[]"] by simp

text \<open>One input per lane.\<close>

lemma add_output_inputs: "bitcoin_tx_add_output s a tx = Some tx' \<Longrightarrow> tx_inputs tx' = tx_inputs tx"
  by (auto simp: bitcoin_tx_add_output_def split: if_splits)

lemma add_share_inputs: "add_share s a tx = Some tx' \<Longrightarrow> tx_inputs tx' = tx_inputs tx"
  by (auto simp: add_share_def add_output_inputs split: if_splits)

lemma set_output_asset_inputs [simp]: "tx_inputs (bitcoin_tx_set_output_asset cp x tx) = tx_inputs tx"
  by (simp add: bitcoin_tx_set_output_asset_def)

lemma add_lane_outputs_inputs: "add_lane_outputs cp s1 s2 ls tx = Some (Some tx') \<Longrightarrow> tx_inputs tx' = tx_inputs tx"
proof (induction ls arbitrary: tx)
  case (Cons l ls)
  then show ?case
    by (auto simp: Let_def bind_eq_Some_conv dest!: add_share_inputs split: option.splits if_splits)
qed simp

lemma finalize_inputs: "bitcoin_tx_finalize cp tx = Some tx' \<Longrightarrow> tx_inputs tx' = tx_inputs tx"
  by (auto simp: bitcoin_tx_finalize_def elements_tx_add_fee_output_def bind_eq_Some_conv add_output_inputs
      split: if_splits option.splits)

lemma add_lane_inputs_length: "length (tx_inputs (add_lane_inputs cp ls tx)) = length (tx_inputs tx) + length ls"
  by (induction ls arbitrary: tx) (simp_all add: bitcoin_tx_add_input_def)

lemma start_inputs_length: "length (tx_inputs (close_tx_start cp fund fs asset ls)) = Suc (length ls)"
  by (simp add: close_tx_start_def add_lane_inputs_length) (simp add: bitcoin_tx_add_input_def new_bitcoin_tx_def)

lemma add_above_dust_inputs: "add_above_dust d s a tx = Some tx' \<Longrightarrow> tx_inputs tx' = tx_inputs tx"
  by (auto simp: add_above_dust_def add_output_inputs split: if_splits)

lemma case_null_iff:
  "(case x of None \<Rightarrow> Some None | Some y \<Rightarrow> f y) = Some (Some z) \<longleftrightarrow> (\<exists>y. x = Some y \<and> f y = Some (Some z))"
  by (cases x) simp_all

lemma close_tx_of_inputs:
  assumes "close_tx_of cp s1 s2 fund fs a b dust asset ls = Some (Some tx)"
  shows "length (tx_inputs tx) = Suc (length ls)"
proof -
  from assms obtain tx1 tx2 where "add_above_dust dust s1 a (close_tx_start cp fund fs asset ls) = Some tx1"
      "add_above_dust dust s2 b tx1 = Some tx2" and tx: "tx_inputs tx = tx_inputs tx2"
    by (auto simp: close_tx_of_def bind_eq_Some_conv Let_def case_null_iff
        dest!: add_lane_outputs_inputs finalize_inputs add_output_inputs split: option.split_asm if_split_asm)
  then show ?thesis using start_inputs_length [of cp fund fs asset ls] by (simp add: add_above_dust_inputs)
qed

section \<open>The transaction is balanced\<close>

definition spent_in :: "bytes \<Rightarrow> bitcoin_tx \<Rightarrow> nat" where
  "spent_in x tx = (\<Sum>i \<leftarrow> tx_inputs tx. if spent_asset i = x then sat (spent_amount i) else 0)"

definition paid_by :: "bytes \<Rightarrow> tx_output list \<Rightarrow> nat" where
  "paid_by x outs = (\<Sum>out \<leftarrow> outs. if pays_asset out = x then sat (pays_amount out) else 0)"

definition lane_adds_up :: "close_lane \<Rightarrow> bool" where
  "lane_adds_up l \<longleftrightarrow> sat (cl_to_us l) + sat (cl_to_them l) = sat (cl_funding_sats l)"

definition lanes_fund :: "bytes \<Rightarrow> close_lane list \<Rightarrow> nat" where
  "lanes_fund x ls = (\<Sum>l \<leftarrow> ls. if cl_asset l = x then sat (cl_funding_sats l) else 0)"

lemma spent_in_simps [simp]:
  "spent_in x (tx\<lparr>tx_outputs := outs\<rparr>) = spent_in x tx" "spent_in x (tx\<lparr>output_asset := asset\<rparr>) = spent_in x tx"
  by (simp_all add: spent_in_def)

lemma paid_by_simps [simp]:
  "paid_by x [] = 0" "paid_by x (os @ os') = paid_by x os + paid_by x os'"
  "paid_by x (out # os) = (if pays_asset out = x then sat (pays_amount out) else 0) + paid_by x os"
  by (simp_all add: paid_by_def)

lemma paid_by_permute: "paid_by x (map fst (permute_outputs (map (\<lambda>out. (out, 0)) os))) = paid_by x os"
proof -
  have "mset (map fst (permute_outputs (map (\<lambda>out. (out, 0)) os))) = mset os"
    by (simp add: mset_permute_outputs image_mset.compositionality comp_def)
  then have "mset (map (\<lambda>out. if pays_asset out = x then sat (pays_amount out) else 0)
               (map fst (permute_outputs (map (\<lambda>out. (out, 0)) os)))) =
             mset (map (\<lambda>out. if pays_asset out = x then sat (pays_amount out) else 0) os)"
    by (simp only: mset_map)
  from arg_cong [OF this, of sum_mset] show ?thesis by (simp only: sum_mset_sum_list paid_by_def)
qed

lemma add_share_added:
  assumes "length (tx_outputs tx) < outputs_allocation_len tx"
  shows "\<exists>os. add_share spk amt tx = Some (tx\<lparr>tx_outputs := tx_outputs tx @ os\<rparr>) \<and> length os \<le> 1 \<and>
           (\<forall>x. paid_by x os = (if output_asset tx = x then sat amt else 0))"
proof (cases "amount_sat_is_zero amt")
  case True
  then show ?thesis by (intro exI [of _ "[]"]) (simp add: add_share_def amount_sat_is_zero_def)
next
  case False
  with assms show ?thesis
    by (intro exI [of _ "[\<lparr>pays_script = spk, pays_amount = amt, pays_asset = output_asset tx\<rparr>]"])
       (simp add: add_share_def bitcoin_tx_add_output_def)
qed

lemma add_shares_added:
  assumes "length (tx_outputs tx) + 2 \<le> outputs_allocation_len tx"
  shows "\<exists>os. do { tx1 \<leftarrow> add_share s1 a tx; add_share s2 b tx1 } = Some (tx\<lparr>tx_outputs := tx_outputs tx @ os\<rparr>) \<and>
           length os \<le> 2 \<and> (\<forall>x. paid_by x os = (if output_asset tx = x then sat a + sat b else 0))"
proof -
  obtain os1 where os1: "add_share s1 a tx = Some (tx\<lparr>tx_outputs := tx_outputs tx @ os1\<rparr>)" "length os1 \<le> 1"
      "\<forall>x. paid_by x os1 = (if output_asset tx = x then sat a else 0)"
    using add_share_added [of tx s1 a] assms by auto
  obtain os2 where os2: "add_share s2 b (tx\<lparr>tx_outputs := tx_outputs tx @ os1\<rparr>) =
        Some (tx\<lparr>tx_outputs := tx_outputs tx @ os1 @ os2\<rparr>)" "length os2 \<le> 1"
      "\<forall>x. paid_by x os2 = (if output_asset tx = x then sat b else 0)"
    using add_share_added [of "tx\<lparr>tx_outputs := tx_outputs tx @ os1\<rparr>" s2 b] assms os1(2) by auto
  from os1 os2 show ?thesis by (intro exI [of _ "os1 @ os2"]) simp
qed

lemma lane_shares_added:
  assumes "length (tx_outputs tx) + 2 \<le> outputs_allocation_len tx" and "lane_adds_up l"
  shows "\<exists>os. (if lane_first (cl_to_us l) s1 (cl_to_them l) s2
              then do { tx1 \<leftarrow> add_share s1 (cl_to_us l) tx; add_share s2 (cl_to_them l) tx1 }
              else do { tx1 \<leftarrow> add_share s2 (cl_to_them l) tx; add_share s1 (cl_to_us l) tx1 }) =
             Some (tx\<lparr>tx_outputs := tx_outputs tx @ os\<rparr>) \<and>
           length os \<le> 2 \<and> (\<forall>x. paid_by x os = (if output_asset tx = x then sat (cl_funding_sats l) else 0))"
proof (cases "lane_first (cl_to_us l) s1 (cl_to_them l) s2")
  case True
  with add_shares_added [OF assms(1), of s1 "cl_to_us l" s2 "cl_to_them l"] assms(2) show ?thesis
    by (simp add: lane_adds_up_def cong: if_cong)
next
  case False
  with add_shares_added [OF assms(1), of s2 "cl_to_them l" s1 "cl_to_us l"] assms(2) show ?thesis
    by (simp add: lane_adds_up_def add.commute [of "sat (cl_to_them l)"] cong: if_cong)
qed

lemma add_lane_outputs_added:
  assumes "is_elements cp" and "\<forall>l \<in> set ls. lane_adds_up l"
    and "length (tx_outputs tx) + 2 * length ls \<le> outputs_allocation_len tx"
  shows "\<exists>os c. add_lane_outputs cp s1 s2 ls tx =
             Some (Some (tx\<lparr>tx_outputs := tx_outputs tx @ os, output_asset := c\<rparr>)) \<and>
           length os \<le> 2 * length ls \<and> (\<forall>x. paid_by x os = lanes_fund x ls)"
  using assms(2,3)
proof (induction ls arbitrary: tx)
  case Nil
  show ?case by (intro exI [of _ "[]"] exI [of _ "output_asset tx"]) (simp add: lanes_fund_def)
next
  case (Cons l ls)
  let ?tx0 = "tx\<lparr>output_asset := cl_asset l\<rparr>"
  from Cons.prems have l: "lane_adds_up l" by simp
  obtain os1 where os1: "(if lane_first (cl_to_us l) s1 (cl_to_them l) s2
        then do { tx1 \<leftarrow> add_share s1 (cl_to_us l) ?tx0; add_share s2 (cl_to_them l) tx1 }
        else do { tx1 \<leftarrow> add_share s2 (cl_to_them l) ?tx0; add_share s1 (cl_to_us l) tx1 }) =
          Some (?tx0\<lparr>tx_outputs := tx_outputs ?tx0 @ os1\<rparr>)" "length os1 \<le> 2"
      "\<forall>x. paid_by x os1 = (if cl_asset l = x then sat (cl_funding_sats l) else 0)"
    using lane_shares_added [of ?tx0 l s1 s2] l Cons.prems(2) by auto
  let ?tx1 = "?tx0\<lparr>tx_outputs := tx_outputs ?tx0 @ os1\<rparr>"
  from Cons.prems os1(2) have "length (tx_outputs ?tx1) + 2 * length ls \<le> outputs_allocation_len ?tx1" by simp
  with Cons.IH [of ?tx1] Cons.prems(1) obtain os2 c where
    os2: "add_lane_outputs cp s1 s2 ls ?tx1 = Some (Some (?tx1\<lparr>tx_outputs := tx_outputs ?tx1 @ os2, output_asset := c\<rparr>))"
      "length os2 \<le> 2 * length ls" "\<forall>x. paid_by x os2 = lanes_fund x ls" by auto
  obtain both where both: "amount_sat_add (cl_to_us l) (cl_to_them l) = Some both" "amount_sat_eq both (cl_funding_sats l)"
    using l sat_arith.add_iff [of "cl_to_us l" "cl_to_them l" "cl_funding_sats l"]
    by (simp add: lane_adds_up_def amount_sat_eq_def)
  show ?case
    by (rule exI [of _ "os1 @ os2"], rule exI [of _ c])
       (use os1 os2 both assms(1) in \<open>simp add: Let_def bitcoin_tx_set_output_asset_def lanes_fund_def\<close>)
qed


text \<open>What a transaction spends, from the inputs that \<open>close_tx_start\<close> adds.\<close>

lemma spent_add_lanes:
  assumes "is_elements cp"
  shows "spent_in x (add_lane_inputs cp ls tx) = spent_in x tx + lanes_fund x ls"
  using assms by (induction ls arbitrary: tx)
    (simp_all add: lanes_fund_def spent_in_def bitcoin_tx_add_input_def bitcoin_tx_set_output_asset_def)

lemma spent_start:
  assumes "is_elements cp"
  shows "spent_in x (close_tx_start cp fund fs asset ls) = (if asset = x then sat fs else 0) + lanes_fund x ls"
    and "output_asset (close_tx_start cp fund fs asset ls) = asset"
proof -
  have "spent_in x (bitcoin_tx_set_output_asset cp asset tx) = spent_in x tx" for tx
    by (simp add: spent_in_def bitcoin_tx_set_output_asset_def)
  with assms show "spent_in x (close_tx_start cp fund fs asset ls) = (if asset = x then sat fs else 0) + lanes_fund x ls"
    by (simp add: close_tx_start_def spent_add_lanes)
       (simp add: spent_in_def bitcoin_tx_add_input_def new_bitcoin_tx_def bitcoin_tx_set_output_asset_def)
  show "output_asset (close_tx_start cp fund fs asset ls) = asset"
    using assms by (simp add: close_tx_start_def bitcoin_tx_set_output_asset_def)
qed

text \<open>The fee that \<open>bitcoin_tx_finalize\<close> adds.\<close>

lemma compute_fee_rest:
  assumes "\<forall>out \<in> set outs. pays_script out \<noteq> [] \<and> pays_asset out = asset" and "paid_by asset outs \<le> sat v"
  shows "sat (compute_fee_loop cp asset outs v) = sat v - paid_by asset outs"
  using assms
proof (induction outs arbitrary: v)
  case (Cons out outs)
  then obtain r where r: "amount_sat_sub v (pays_amount out) = Some r"
    using sat_arith.sub_None [of v "pays_amount out"] by (cases "amount_sat_sub v (pays_amount out)") auto
  then have "sat v = sat r + sat (pays_amount out)" by (simp add: sat_arith.sub_iff)
  with Cons.prems Cons.IH [of r] r show ?case by (auto simp: elements_tx_output_is_fee_def)
qed simp

lemma no_fee_output:
  "\<forall>out \<in> set outs. pays_script out \<noteq> [] \<Longrightarrow> set_fee_output cp fee outs = None"
  by (induction outs) (simp_all add: elements_tx_output_is_fee_def)

lemma lane0_outs_paid:
  "paid_by asset (lane0_outs asset dust s1 a s2 b) \<le> sat a + sat b"
  "x \<noteq> asset \<Longrightarrow> paid_by x (lane0_outs asset dust s1 a s2 b) = 0"
  by (simp_all add: lane0_outs_def)

lemma accumulate_lane0:
  assumes "sat a + sat b < 2 ^ 64"
  shows "\<exists>r. accumulate_all amount_sat_add (AMOUNT_SAT 0) (map pays_amount (lane0_outs asset dust s1 a s2 b)) = Some r \<and>
    sat r = paid_by asset (lane0_outs asset dust s1 a s2 b)"
proof -
  have z: "amount_sat_add (AMOUNT_SAT 0) x = Some x" for x by (simp add: sat_arith.add_iff)
  obtain c where "amount_sat_add a b = Some c" using assms sat_arith.add_None [of a b] by auto
  with sat_arith.add_Some [OF this] z show ?thesis by (auto simp: lane0_outs_def)
qed


definition lane0_pays :: "amount_sat \<Rightarrow> amount_sat \<Rightarrow> amount_sat \<Rightarrow> nat" where
  "lane0_pays dust a b = (if sat dust \<le> sat a then sat a else 0) + (if sat dust \<le> sat b then sat b else 0)"

lemma lane0_outs_pays:
  "paid_by x (lane0_outs asset dust s1 a s2 b) = (if asset = x then lane0_pays dust a b else 0)"
  by (simp add: lane0_outs_def lane0_pays_def amount_sat_greater_eq_def word_le_nat_alt)

lemma finalize_adds_fee:
  assumes cp: "is_elements cp" and outs: "\<forall>out \<in> set (tx_outputs tx). pays_script out \<noteq> [] \<and> pays_asset out = output_asset tx"
    and ins: "tx_inputs tx = [\<lparr>spent = fund, spent_amount = fs, spent_asset = output_asset tx\<rparr>]"
    and covered: "paid_by (output_asset tx) (tx_outputs tx) \<le> sat fs"
    and room: "length (tx_outputs tx) < outputs_allocation_len tx"
  shows "\<exists>fee. bitcoin_tx_finalize cp tx = Some (tx\<lparr>tx_outputs := tx_outputs tx @
             [\<lparr>pays_script = [], pays_amount = fee, pays_asset = output_asset tx\<rparr>]\<rparr>) \<and>
           sat fee = sat fs - paid_by (output_asset tx) (tx_outputs tx)"
proof -
  have "amount_sat_add (AMOUNT_SAT 0) fs = Some fs" by (simp add: sat_arith.add_iff)
  with assms compute_fee_rest [of "tx_outputs tx" "output_asset tx" fs cp] show ?thesis
    by (intro exI [of _ "compute_fee_loop cp (output_asset tx) (tx_outputs tx) fs"])
       (simp add: bitcoin_tx_finalize_def elements_tx_add_fee_output_def bitcoin_tx_compute_fee_def
          bitcoin_tx_compute_fee_w_inputs_def no_fee_output bitcoin_tx_add_output_def)
qed


text \<open>The transaction up to the permutation of lane 0.\<close>

definition lane0_tx :: "chainparams \<Rightarrow> bytes \<Rightarrow> bytes \<Rightarrow> bitcoin_outpoint \<Rightarrow> amount_sat \<Rightarrow> amount_sat \<Rightarrow> amount_sat \<Rightarrow>
    amount_sat \<Rightarrow> bytes \<Rightarrow> close_lane list \<Rightarrow> bitcoin_tx" where
  "lane0_tx cp s1 s2 fund fs a b dust asset ls = (close_tx_start cp fund fs asset ls)
     \<lparr>tx_outputs := map fst (permute_outputs (map (\<lambda>out. (out, 0)) (lane0_outs asset dust s1 a s2 b)))\<rparr>"

lemma lane0_tx_props:
  assumes "is_elements cp" and "s1 \<noteq> []" and "s2 \<noteq> []"
    and tx: "tx = lane0_tx cp s1 s2 fund fs a b dust asset ls"
  shows "paid_by x (tx_outputs tx) = (if asset = x then lane0_pays dust a b else 0)"
    and "spent_in x tx = (if asset = x then sat fs else 0) + lanes_fund x ls"
    and "output_asset tx = asset" and "length (tx_outputs tx) \<le> 2"
    and "outputs_allocation_len tx = 4 + 2 * length ls"
    and "\<forall>out \<in> set (tx_outputs tx). pays_script out \<noteq> [] \<and> pays_asset out = asset"
    and "ls = [] \<Longrightarrow> tx_inputs tx = [\<lparr>spent = fund, spent_amount = fs, spent_asset = asset\<rparr>]"
proof -
  let ?p = "permute_outputs (map (\<lambda>out. (out, 0)) (lane0_outs asset dust s1 a s2 b))"
  have l: "length ?p = length (lane0_outs asset dust s1 a s2 b)"
    using mset_eq_length [OF mset_permute_outputs] by simp
  have e: "set (map fst ?p) = set (lane0_outs asset dust s1 a s2 b)"
    using mset_eq_setD [OF mset_permute_outputs] by (simp add: image_image)
  have outs: "set (tx_outputs tx) = set (lane0_outs asset dust s1 a s2 b)"
    unfolding tx lane0_tx_def using e by simp
  show "paid_by x (tx_outputs tx) = (if asset = x then lane0_pays dust a b else 0)"
    by (simp add: tx lane0_tx_def paid_by_permute lane0_outs_pays)
  show "spent_in x tx = (if asset = x then sat fs else 0) + lanes_fund x ls"
    using spent_start(1) [OF assms(1), of x fund fs asset ls] by (simp add: tx lane0_tx_def spent_in_def)
  show "output_asset tx = asset" "outputs_allocation_len tx = 4 + 2 * length ls"
    using assms(1) by (simp_all add: tx lane0_tx_def spent_start(2))
  show "length (tx_outputs tx) \<le> 2" using l by (simp add: tx lane0_tx_def lane0_outs_def)
  show "\<forall>out \<in> set (tx_outputs tx). pays_script out \<noteq> [] \<and> pays_asset out = asset"
    using assms(2,3) unfolding outs by (auto simp: lane0_outs_def)
  show "ls = [] \<Longrightarrow> tx_inputs tx = [\<lparr>spent = fund, spent_amount = fs, spent_asset = asset\<rparr>]"
    using assms(1) by (simp add: tx lane0_tx_def close_tx_start_def bitcoin_tx_set_output_asset_def
        bitcoin_tx_add_input_def new_bitcoin_tx_def)
qed

text \<open>\<open>close_tx_of\<close> after its assertions and its dust checks have passed.\<close>

lemma close_tx_of_lane0:
  assumes "is_elements cp" and "sat a + sat b \<le> sat fs" and "sat dust \<le> sat a \<or> sat dust \<le> sat b"
    and tx: "tx = lane0_tx cp s1 s2 fund fs a b dust asset ls"
  shows "\<exists>r. sat r = lane0_pays dust a b \<and>
    close_tx_of cp s1 s2 fund fs a b dust asset ls =
      (if ls = [] then map_option Some (bitcoin_tx_finalize cp tx)
       else do { o4 \<leftarrow> add_lane_outputs cp s1 s2 ls tx;
                 case o4 of None \<Rightarrow> Some None
                 | Some tx4 \<Rightarrow> (case amount_sat_sub fs r of None \<Rightarrow> Some None
                     | Some fee \<Rightarrow> map_option Some (bitcoin_tx_add_output [] fee (bitcoin_tx_set_output_asset cp asset tx4))) })"
proof -
  let ?tx = "close_tx_start cp fund fs asset ls"
  have fits: "sat a + sat b < 2 ^ 64" using assms(2) sat_arith.val_less [of fs] by linarith
  then obtain c where c: "amount_sat_add a b = Some c" using sat_arith.add_None [of a b] by auto
  have le: "amount_sat_less_eq c fs"
    using sat_arith.add_Some [OF c] assms(2) by (simp add: amount_sat_less_eq_def word_le_nat_alt)
  obtain r where r: "accumulate_all amount_sat_add (AMOUNT_SAT 0) (map pays_amount (lane0_outs asset dust s1 a s2 b)) = Some r"
      "sat r = lane0_pays dust a b"
    using accumulate_lane0 [OF fits, of asset dust s1 s2] by (auto simp: lane0_outs_pays)
  have some: "lane0_outs asset dust s1 a s2 b \<noteq> []"
    using assms(3) by (auto simp: lane0_outs_def amount_sat_greater_eq_def word_le_nat_alt)
  have added: "do { tx1 \<leftarrow> add_above_dust dust s1 a ?tx; tx2 \<leftarrow> add_above_dust dust s2 b tx1; k tx2 } =
               k (?tx\<lparr>tx_outputs := lane0_outs asset dust s1 a s2 b\<rparr>)" for k
    using lane0_outs_added [of ?tx dust s1 a s2 b] assms(1) by (simp add: spent_start(2) flip: Option.bind_assoc)
  show ?thesis
    by (rule exI [of _ r]) (simp add: close_tx_of_def added c le some r tx lane0_tx_def)
qed


text \<open>On other chains there is no fee output, and the transaction of one lane is built in the same cases.\<close>

lemma close_tx_of_plain:
  assumes cp: "\<not> is_elements cp" and "sat a + sat b \<le> sat fs" and "sat dust \<le> sat a \<or> sat dust \<le> sat b"
  shows "\<exists>tx. close_tx_of cp s1 s2 fund fs a b dust asset [] = Some (Some tx)"
proof -
  let ?tx = "close_tx_start cp fund fs asset []"
  have fits: "sat a + sat b < 2 ^ 64" using assms(2) sat_arith.val_less [of fs] by linarith
  then obtain c where c: "amount_sat_add a b = Some c" using sat_arith.add_None [of a b] by auto
  have le: "amount_sat_less_eq c fs"
    using sat_arith.add_Some [OF c] assms(2) by (simp add: amount_sat_less_eq_def word_le_nat_alt)
  have some: "lane0_outs x dust s1 a s2 b \<noteq> []" for x
    using assms(3) by (auto simp: lane0_outs_def amount_sat_greater_eq_def word_le_nat_alt)
  have added: "do { tx1 \<leftarrow> add_above_dust dust s1 a ?tx; tx2 \<leftarrow> add_above_dust dust s2 b tx1; k tx2 } =
               k (?tx\<lparr>tx_outputs := lane0_outs (output_asset ?tx) dust s1 a s2 b\<rparr>)" for k
    using lane0_outs_added [of ?tx dust s1 a s2 b] by (simp flip: Option.bind_assoc)
  have "amount_sat_add (AMOUNT_SAT 0) fs = Some fs" by (simp add: sat_arith.add_iff)
  then have "\<exists>tx. bitcoin_tx_finalize cp (?tx\<lparr>tx_outputs := outs\<rparr>) = Some tx" for outs
    using cp by (simp add: bitcoin_tx_finalize_def elements_tx_add_fee_output_def bitcoin_tx_compute_fee_def
        close_tx_start_def bitcoin_tx_set_output_asset_def bitcoin_tx_add_input_def new_bitcoin_tx_def)
  then show ?thesis by (auto simp: close_tx_of_def added c le some)
qed

lemma close_fee_added:
  assumes "is_elements cp" and "length (tx_outputs tx) < outputs_allocation_len tx"
  shows "bitcoin_tx_add_output [] fee (bitcoin_tx_set_output_asset cp asset tx) =
    Some (tx\<lparr>tx_outputs := tx_outputs tx @ [\<lparr>pays_script = [], pays_amount = fee, pays_asset = asset\<rparr>], output_asset := asset\<rparr>)"
  using assms by (simp add: bitcoin_tx_add_output_def bitcoin_tx_set_output_asset_def)

text \<open>
  (C27) On an Elements chain a closing transaction is balanced in every asset: whenever the shares of every
  lane add up to its funding, the balances of lane 0 are covered by the funding and one of them reaches the
  dust limit, \<^verbatim>\<open>close_tx_of\<close> returns a transaction whose outputs of each asset add up to its inputs
  of that asset, and the last output is the fee: what lane 0 does not pay to either side, in
  the asset of the channel.
\<close>

theorem close_tx_balanced:
  assumes cp: "is_elements cp" and scripts: "our_script \<noteq> []" "their_script \<noteq> []"
    and covered: "sat to_us + sat to_them \<le> sat fs" and paid: "sat dust \<le> sat to_us \<or> sat dust \<le> sat to_them"
    and lanes: "\<forall>l \<in> set lanes. lane_adds_up l"
  shows "\<exists>tx. close_tx_of cp our_script their_script fund fs to_us to_them dust asset lanes = Some (Some tx) \<and>
           (\<forall>x. paid_by x (tx_outputs tx) = spent_in x tx) \<and>
           (let fee = last (tx_outputs tx) in pays_script fee = [] \<and> pays_asset fee = asset \<and>
              sat (pays_amount fee) = sat fs - lane0_pays dust to_us to_them)"
proof -
  obtain tx0 where tx0: "tx0 = lane0_tx cp our_script their_script fund fs to_us to_them dust asset lanes" by simp
  note tx = lane0_tx_props [OF cp scripts tx0]
  have le: "lane0_pays dust to_us to_them \<le> sat fs" using covered by (simp add: lane0_pays_def)
  from close_tx_of_lane0 [OF cp covered paid tx0] obtain r where r: "sat r = lane0_pays dust to_us to_them"
    and run: "close_tx_of cp our_script their_script fund fs to_us to_them dust asset lanes =
      (if lanes = [] then map_option Some (bitcoin_tx_finalize cp tx0)
       else do { o4 \<leftarrow> add_lane_outputs cp our_script their_script lanes tx0;
                 case o4 of None \<Rightarrow> Some None
                 | Some tx4 \<Rightarrow> (case amount_sat_sub fs r of None \<Rightarrow> Some None
                     | Some fee \<Rightarrow> map_option Some (bitcoin_tx_add_output [] fee (bitcoin_tx_set_output_asset cp asset tx4))) })"
    by blast
  show ?thesis
  proof (cases "lanes = []")
    case True
    have "\<exists>fee. bitcoin_tx_finalize cp tx0 = Some (tx0\<lparr>tx_outputs := tx_outputs tx0 @
             [\<lparr>pays_script = [], pays_amount = fee, pays_asset = output_asset tx0\<rparr>]\<rparr>) \<and>
           sat fee = sat fs - paid_by (output_asset tx0) (tx_outputs tx0)"
      using tx(4) le tx(7) [OF True] by (intro finalize_adds_fee [where fund = fund] cp) (simp_all add: tx(1,3,5,6))
    with run le True tx show ?thesis by (auto simp: lanes_fund_def)
  next
    case False
    have room: "length (tx_outputs tx0) + 2 * length lanes \<le> outputs_allocation_len tx0" using tx(4,5) by simp
    obtain os c where os: "add_lane_outputs cp our_script their_script lanes tx0 =
        Some (Some (tx0\<lparr>tx_outputs := tx_outputs tx0 @ os, output_asset := c\<rparr>))" "length os \<le> 2 * length lanes"
        "\<forall>x. paid_by x os = lanes_fund x lanes"
      using add_lane_outputs_added [OF cp lanes room] by blast
    obtain fee where sub: "amount_sat_sub fs r = Some fee"
      using le r sat_arith.sub_None [of fs r] by (metis not_le option.exhaust)
    have fee: "sat fee = sat fs - lane0_pays dust to_us to_them" using sat_arith.sub_Some [OF sub] r by simp
    let ?tx4 = "tx0\<lparr>tx_outputs := tx_outputs tx0 @ os, output_asset := c\<rparr>"
    have "bitcoin_tx_add_output [] fee (bitcoin_tx_set_output_asset cp asset ?tx4) =
      Some (?tx4\<lparr>tx_outputs := tx_outputs ?tx4 @ [\<lparr>pays_script = [], pays_amount = fee, pays_asset = asset\<rparr>], output_asset := asset\<rparr>)"
      using tx(4,5) os(2) by (intro close_fee_added cp) simp
    with run False os sub fee le tx show ?thesis by auto
  qed
qed


definition demo_close_lane :: close_lane where
  "demo_close_lane = \<lparr>cl_asset = replicate 33 7, cl_funding = demo_outpoint, cl_funding_sats = AMOUNT_SAT 50,
     cl_to_us = AMOUNT_SAT 20, cl_to_them = AMOUNT_SAT 30\<rparr>"

theorem close_tx_balanced_witness:
  "\<exists>tx. close_tx_of net_sequentia_testnet [0x51] [0x52] demo_outpoint (AMOUNT_SAT 1000) (AMOUNT_SAT 600) (AMOUNT_SAT 300)
          (AMOUNT_SAT 330) (replicate 33 1) [demo_close_lane] = Some (Some tx) \<and>
        paid_by (replicate 33 7) (tx_outputs tx) = spent_in (replicate 33 7) tx \<and>
        sat (pays_amount (last (tx_outputs tx))) = 400"
proof -
  have "\<exists>tx. close_tx_of net_sequentia_testnet [0x51] [0x52] demo_outpoint (AMOUNT_SAT 1000) (AMOUNT_SAT 600) (AMOUNT_SAT 300)
          (AMOUNT_SAT 330) (replicate 33 1) [demo_close_lane] = Some (Some tx) \<and>
        (\<forall>x. paid_by x (tx_outputs tx) = spent_in x tx) \<and>
        (let fee = last (tx_outputs tx) in pays_script fee = [] \<and> pays_asset fee = replicate 33 1 \<and>
           sat (pays_amount fee) = sat (AMOUNT_SAT 1000) - lane0_pays (AMOUNT_SAT 330) (AMOUNT_SAT 600) (AMOUNT_SAT 300))"
    by (rule close_tx_balanced) (simp_all add: net_sequentia_testnet_def lane_adds_up_def demo_close_lane_def)
  then show ?thesis by (auto simp: lane0_pays_def Let_def)
qed

end
