(* ===== verification/Closing.thy ===== *)
theory Closing
  imports CloseTx Fees
begin

text \<open>
  The closing daemon, \<^verbatim>\<open>closingd/closingd.c\<close>: the bounds of our fee, the offers of both sides, the quick close
  with a range of fees and the old negotiation round by round. The daemon reads one message after the
  other, so its state is where \<^verbatim>\<open>main\<close> waits for the next one: \<open>closing_start\<close> runs up to the first
  \<^verbatim>\<open>receive_offer\<close>, \<open>closing_read\<close> from one to the next.

  The signer, the check of a signature and the weight of a transaction are of the signing daemon,
  libsecp256k1 and libwally: they are fields of \<open>closing_env\<close>. Notifications and the billboard are
  left out.
\<close>

section \<open>Messages and the environment\<close>

record fee_range =
  min_fee_satoshis :: amount_sat
  max_fee_satoshis :: amount_sat

text \<open>\<open>CLOSING_SIGNED\<close> has the fee, the signature of input 0, the range of fees and the signatures of the lanes.\<close>

datatype closing_msg =
    CLOSING_SIGNED amount_sat bytes "fee_range option" "bytes list"
  | CHANNEL_READY
  | SHUTDOWN_AGAIN
  | ANNOUNCEMENT_SIGNATURES
  | UNEXPECTED_MESSAGE

datatype closing_out =
    Offers closing_msg
  | RECEIVED_SIGNATURE bytes bitcoin_tx
  | CLOSINGD_COMPLETE

datatype closing_err =
    FUNDER_CANNOT_AFFORD
  | BOTH_BELOW_DUST
  | EXPECTED_CLOSING_SIGNED
  | BAD_CLOSING_SIG
  | NO_LANE_SIGS
  | BAD_LANE_SIG
  | RANGE_OVERFLOW
  | NO_OVERLAP
  | FEE_NOT_IN_RANGE
  | FEE_NOT_EQUAL
  | MIN_TOO_LARGE
  | BELOW_MINIMUM

type_synonym 'a closing = "(closing_err, closing_out, 'a) process"

text \<open>\<open>sign_input\<close> is our signature of an input, \<open>check_input\<close> whether the peer's is good.\<close>

record closing_env =
  ce_chainparams :: chainparams
  ce_opener :: side
  ce_out :: "side \<Rightarrow> amount_sat"
  ce_funding :: bitcoin_outpoint
  ce_funding_sats :: amount_sat
  ce_dust_limit :: amount_sat
  ce_scriptpubkey :: "side \<Rightarrow> bytes"
  ce_asset :: bytes
  ce_lanes :: "close_lane list"
  ce_wrong_funding :: "bitcoin_outpoint option"
  ce_min_feerate :: u32
  ce_initial_feerate :: u32
  ce_max_feerate :: u32
  ce_weight :: u64
  ce_step :: u64
  ce_step_unit :: u8
  ce_use_quickclose :: bool
  sign_input :: "bitcoin_tx \<Rightarrow> nat \<Rightarrow> bytes"
  check_input :: "bitcoin_tx \<Rightarrow> nat \<Rightarrow> bytes \<Rightarrow> bool"

abbreviation (input) STEP_UNIT_SATOSHI :: u8 where "STEP_UNIT_SATOSHI \<equiv> 1"

section \<open>One offer\<close>

definition close_tx :: "closing_env \<Rightarrow> (side \<Rightarrow> amount_sat) \<Rightarrow> amount_sat \<Rightarrow> bitcoin_tx closing" where
  "close_tx env out fee =
     (case amount_sat_sub (out (ce_opener env)) fee of
        None \<Rightarrow> exits FUNDER_CANNOT_AFFORD
      | Some rest \<Rightarrow>
          let out_minus_fee = out(ce_opener env := rest) in
          (case create_close_tx_lanes (ce_chainparams env) (ce_scriptpubkey env LOCAL) (ce_scriptpubkey env REMOTE)
                  (ce_funding env) (ce_funding_sats env) (out_minus_fee LOCAL) (out_minus_fee REMOTE)
                  (ce_dust_limit env) (ce_asset env) (ce_lanes env) of
             None \<Rightarrow> None
           | Some None \<Rightarrow> exits BOTH_BELOW_DUST
           | Some (Some tx) \<Rightarrow>
               done_with (case ce_wrong_funding env of
                            None \<Rightarrow> tx
                          | Some wrong \<Rightarrow> tx\<lparr>tx_inputs := (tx_inputs tx)[0 := (tx_inputs tx ! 0)\<lparr>spent := wrong\<rparr>]\<rparr>) []))"

definition sign_close :: "closing_env \<Rightarrow> bitcoin_tx \<Rightarrow> bytes list" where
  "sign_close env tx = (if ce_lanes env = [] then [sign_input env tx 0] else map (sign_input env tx) [0..<length (tx_inputs tx)])"

definition send_offer :: "closing_env \<Rightarrow> amount_sat \<Rightarrow> fee_range option \<Rightarrow> unit closing" where
  "send_offer env fee_to_offer tlv_fees =
     and_then (close_tx env (ce_out env) fee_to_offer) (\<lambda>tx.
       let sigs = sign_close env tx in
       done_with () [Offers (CLOSING_SIGNED fee_to_offer (sigs ! 0) tlv_fees (if ce_lanes env = [] then [] else tl sigs))])"

text \<open>The peer may have left out its own output: then the signature is of the trimmed transaction.\<close>

definition trimming_out :: "closing_env \<Rightarrow> amount_sat \<Rightarrow> side \<Rightarrow> amount_sat" where
  "trimming_out env received_fee =
     (ce_out env)(REMOTE := if ce_opener env = REMOTE then received_fee else AMOUNT_SAT 0)"

definition signed_close :: "closing_env \<Rightarrow> amount_sat \<Rightarrow> bytes \<Rightarrow> bitcoin_tx closing" where
  "signed_close env received_fee their_sig =
     and_then (close_tx env (ce_out env) received_fee) (\<lambda>tx.
       if check_input env tx 0 their_sig then done_with tx []
       else and_then (close_tx env (trimming_out env received_fee) received_fee) (\<lambda>trimmed.
              if check_input env trimmed 0 their_sig then done_with trimmed [] else exits BAD_CLOSING_SIG))"

definition check_lane_sigs :: "closing_env \<Rightarrow> bitcoin_tx \<Rightarrow> bytes list \<Rightarrow> unit closing" where
  "check_lane_sigs env tx lane_sigs =
     (if ce_lanes env = [] then done_with () []
      else if length lane_sigs \<noteq> length (tx_inputs tx) - 1 then exits NO_LANE_SIGS
      else if \<forall>i \<in> set [1..<length (tx_inputs tx)]. check_input env tx i (lane_sigs ! (i - 1)) then done_with () []
      else exits BAD_LANE_SIG)"

definition receive_offer :: "closing_env \<Rightarrow> amount_sat \<Rightarrow> closing_msg \<Rightarrow> (amount_sat \<times> fee_range option) closing" where
  "receive_offer env min_fee_to_accept msg =
     (case msg of
        CLOSING_SIGNED received_fee their_sig fee_range lane_sigs \<Rightarrow>
          and_then (signed_close env received_fee their_sig) (\<lambda>tx.
          and_then (check_lane_sigs env tx lane_sigs) (\<lambda>_.
            done_with (received_fee, fee_range)
              (if amount_sat_greater_eq received_fee min_fee_to_accept then [RECEIVED_SIGNATURE their_sig tx] else [])))
      | _ \<Rightarrow> exits EXPECTED_CLOSING_SIGNED)"

section \<open>Ranges of fees\<close>

record feerange =
  higher_side :: side
  fr_min :: amount_sat
  fr_max :: amount_sat

definition init_feerange :: "amount_sat \<Rightarrow> (side \<Rightarrow> amount_sat) \<Rightarrow> feerange" where
  "init_feerange commitment_fee off =
     \<lparr>higher_side = (if amount_sat_greater (off LOCAL) (off REMOTE) then LOCAL else REMOTE),
      fr_min = AMOUNT_SAT 0, fr_max = commitment_fee\<rparr>"

definition adjust_feerange :: "feerange \<Rightarrow> amount_sat \<Rightarrow> side \<Rightarrow> feerange closing" where
  "adjust_feerange fr off side =
     (if side = higher_side fr
      then (case amount_sat_sub off (AMOUNT_SAT 1) of
              None \<Rightarrow> exits RANGE_OVERFLOW | Some m \<Rightarrow> done_with (fr\<lparr>fr_max := m\<rparr>) [])
      else (case amount_sat_add off (AMOUNT_SAT 1) of
              None \<Rightarrow> exits RANGE_OVERFLOW | Some m \<Rightarrow> done_with (fr\<lparr>fr_min := m\<rparr>) []))"

definition get_overlap :: "fee_range \<Rightarrow> fee_range \<Rightarrow> fee_range option" where
  "get_overlap r1 r2 =
     (let overlap = \<lparr>min_fee_satoshis = (if amount_sat_greater (min_fee_satoshis r1) (min_fee_satoshis r2)
                                          then min_fee_satoshis r1 else min_fee_satoshis r2),
                     max_fee_satoshis = (if amount_sat_less (max_fee_satoshis r1) (max_fee_satoshis r2)
                                          then max_fee_satoshis r1 else max_fee_satoshis r2)\<rparr>
      in if amount_sat_less_eq (min_fee_satoshis overlap) (max_fee_satoshis overlap) then Some overlap else None)"

definition amount_in_range :: "amount_sat \<Rightarrow> fee_range \<Rightarrow> bool" where
  "amount_in_range amount r \<longleftrightarrow>
     amount_sat_greater_eq amount (min_fee_satoshis r) \<and> amount_sat_less_eq amount (max_fee_satoshis r)"

definition step_sat :: "closing_env \<Rightarrow> amount_sat \<Rightarrow> amount_sat" where
  "step_sat env range_len =
     amount_msat_to_sat_round_down (AMOUNT_MSAT
       (if ce_step_unit env = STEP_UNIT_SATOSHI then (ce_step env - 1) * MSAT_PER_SAT
        else satoshis range_len * ce_step env * 10))"

definition adjust_offer :: "closing_env \<Rightarrow> feerange \<Rightarrow> amount_sat \<Rightarrow> amount_sat \<Rightarrow> amount_sat closing" where
  "adjust_offer env fr remote_offer min_fee_to_accept =
     (case amount_sat_add (fr_min fr) (AMOUNT_SAT 1) of
        None \<Rightarrow> exits MIN_TOO_LARGE
      | Some min_plus_one \<Rightarrow>
          if amount_sat_greater_eq min_plus_one (fr_max fr) then done_with remote_offer []
          else let min_fee = (if amount_sat_greater (fr_min fr) min_fee_to_accept then fr_min fr else min_fee_to_accept) in
               (case amount_sat_sub (fr_max fr) min_fee of
                  None \<Rightarrow> exits BELOW_MINIMUM
                | Some range_len \<Rightarrow>
                    done_with
                      (if higher_side fr = LOCAL
                       then (case amount_sat_sub (fr_max fr) (step_sat env range_len) of
                               None \<Rightarrow> min_fee
                             | Some result \<Rightarrow> if amount_sat_less_eq result min_fee then min_fee else result)
                       else (case amount_sat_add min_fee (step_sat env range_len) of
                               None \<Rightarrow> fr_max fr
                             | Some result \<Rightarrow> if amount_sat_greater_eq result (fr_max fr) then fr_max fr else result)) []))"

definition calc_fee_bounds :: "closing_env \<Rightarrow> (amount_sat \<times> amount_sat \<times> amount_sat) run" where
  "calc_fee_bounds env =
     do { minfee \<leftarrow> amount_tx_fee (Some (ce_chainparams env)) (ce_min_feerate env) (ce_weight env);
          desiredfee \<leftarrow> amount_tx_fee (Some (ce_chainparams env)) (ce_initial_feerate env) (ce_weight env);
          maxfee \<leftarrow> (if ce_opener env = REMOTE then Some (ce_funding_sats env)
                     else amount_tx_fee (Some (ce_chainparams env)) (ce_max_feerate env) (ce_weight env));
          let minfee = (if amount_sat_greater minfee maxfee then maxfee else minfee);
              desiredfee = (if amount_sat_less desiredfee minfee then minfee else desiredfee);
              desiredfee = (if amount_sat_greater desiredfee maxfee then maxfee else desiredfee)
          in Some (minfee, desiredfee, maxfee) }"

section \<open>The daemon\<close>

text \<open>Where it waits: for the first offer, for the answer of a quick close, or for the offer of a round.\<close>

datatype closing_phase = First_Offer | Quick_Answer | Next_Round

record closing_state =
  phase :: closing_phase
  min_fee_to_accept :: amount_sat
  max_fee_to_accept :: amount_sat
  offer :: "side \<Rightarrow> amount_sat"
  frange :: feerange

datatype closer = Waiting closing_state | Agreed amount_sat

definition our_feerange :: "closing_env \<Rightarrow> closing_state \<Rightarrow> fee_range option" where
  "our_feerange env st =
     (if ce_use_quickclose env
      then Some \<lparr>min_fee_satoshis = min_fee_to_accept st, max_fee_satoshis = max_fee_to_accept st\<rparr> else None)"

definition complete :: "amount_sat \<Rightarrow> closer closing" where
  "complete fee = done_with (Agreed fee) [CLOSINGD_COMPLETE]"

text \<open>The turns of the loop of \<^verbatim>\<open>main\<close>: when it is theirs the daemon waits.\<close>

definition their_turn :: "closing_env \<Rightarrow> closing_state \<Rightarrow> closer closing" where
  "their_turn env st =
     (if amount_sat_eq (offer st LOCAL) (offer st REMOTE) then complete (offer st LOCAL)
      else and_then (adjust_feerange (frange st) (offer st LOCAL) LOCAL) (\<lambda>fr.
             done_with (Waiting (st\<lparr>phase := Next_Round, frange := fr\<rparr>)) []))"

definition our_turn :: "closing_env \<Rightarrow> closing_state \<Rightarrow> closer closing" where
  "our_turn env st =
     (if amount_sat_eq (offer st LOCAL) (offer st REMOTE) then complete (offer st LOCAL)
      else and_then (adjust_feerange (frange st) (offer st REMOTE) REMOTE) (\<lambda>fr.
           and_then (adjust_offer env fr (offer st REMOTE) (min_fee_to_accept st)) (\<lambda>ours.
           let st' = st\<lparr>frange := fr, offer := (offer st)(LOCAL := ours)\<rparr> in
           and_then (send_offer env ours (our_feerange env st)) (\<lambda>_. their_turn env st'))))"

definition start_rounds :: "closing_env \<Rightarrow> closing_state \<Rightarrow> closer closing" where
  "start_rounds env st =
     and_then (adjust_feerange (init_feerange (max_fee_to_accept st) (offer st)) (offer st (ce_opener env)) (ce_opener env))
       (\<lambda>fr. let st' = st\<lparr>frange := fr\<rparr> in if ce_opener env = LOCAL then our_turn env st' else their_turn env st')"

definition clamp_offer :: "amount_sat \<Rightarrow> fee_range \<Rightarrow> amount_sat" where
  "clamp_offer off overlap =
     (if amount_in_range off overlap then off
      else if amount_sat_greater off (max_fee_satoshis overlap) then max_fee_satoshis overlap
      else if amount_sat_less off (min_fee_satoshis overlap) then min_fee_satoshis overlap
      else off)"

definition do_quickclose :: "closing_env \<Rightarrow> closing_state \<Rightarrow> fee_range \<Rightarrow> fee_range \<Rightarrow> closer closing" where
  "do_quickclose env st ours theirs =
     (case get_overlap ours theirs of
        None \<Rightarrow> exits NO_OVERLAP
      | Some overlap \<Rightarrow>
          if ce_opener env = LOCAL then
            (if \<not> amount_in_range (offer st REMOTE) overlap then exits FEE_NOT_IN_RANGE
             else if amount_sat_eq (offer st LOCAL) (offer st REMOTE) then complete (offer st LOCAL)
             else and_then (send_offer env (offer st REMOTE) (Some ours)) (\<lambda>_. complete (offer st REMOTE)))
          else
            (let off = clamp_offer (offer st LOCAL) overlap in
             and_then (send_offer env off (Some ours)) (\<lambda>_.
               if amount_sat_eq off (offer st REMOTE) then complete off
               else done_with (Waiting (st\<lparr>phase := Quick_Answer, offer := (offer st)(LOCAL := off)\<rparr>)) [])))"

text \<open>The answer to a quick close.\<close>

definition quick_answer :: "closing_env \<Rightarrow> closing_state \<Rightarrow> closing_msg \<Rightarrow> closer closing" where
  "quick_answer env st msg =
     and_then (receive_offer env (min_fee_to_accept st) msg) (\<lambda>(fee, _).
       if amount_sat_eq (offer st LOCAL) fee then complete (offer st LOCAL) else exits FEE_NOT_EQUAL)"

definition first_offers_done :: "closing_env \<Rightarrow> closing_state \<Rightarrow> fee_range option \<Rightarrow> closer closing" where
  "first_offers_done env st their_feerange =
     (case (our_feerange env st, their_feerange) of
        (Some ours, Some theirs) \<Rightarrow> do_quickclose env st ours theirs
      | _ \<Rightarrow>
          (if ce_opener env = LOCAL then start_rounds env st
           else and_then (send_offer env (offer st LOCAL) (our_feerange env st)) (\<lambda>_. start_rounds env st)))"

definition first_offer :: "closing_env \<Rightarrow> closing_state \<Rightarrow> closing_msg \<Rightarrow> closer closing" where
  "first_offer env st msg =
     and_then (receive_offer env (min_fee_to_accept st) msg) (\<lambda>(fee, their_feerange).
       first_offers_done env (st\<lparr>offer := (offer st)(REMOTE := fee)\<rparr>) their_feerange)"

definition next_round :: "closing_env \<Rightarrow> closing_state \<Rightarrow> closing_msg \<Rightarrow> closer closing" where
  "next_round env st msg =
     and_then (receive_offer env (min_fee_to_accept st) msg) (\<lambda>(fee, _).
       our_turn env (st\<lparr>offer := (offer st)(REMOTE := fee)\<rparr>))"

definition closing_start :: "closing_env \<Rightarrow> closing_state closing" where
  "closing_start env =
     (case calc_fee_bounds env of
        None \<Rightarrow> None
      | Some (minfee, desiredfee, maxfee) \<Rightarrow>
          let st = \<lparr>phase = First_Offer, min_fee_to_accept = minfee, max_fee_to_accept = maxfee,
                    offer = (\<lambda>_. desiredfee), frange = init_feerange maxfee (\<lambda>_. desiredfee)\<rparr>
          in if ce_opener env = LOCAL
             then and_then (send_offer env desiredfee (our_feerange env st)) (\<lambda>_. done_with st [])
             else done_with st [])"

definition closing_read :: "closing_env \<Rightarrow> closing_state \<Rightarrow> closing_msg \<Rightarrow> closer closing" where
  "closing_read env st msg =
     (if msg \<in> {CHANNEL_READY, SHUTDOWN_AGAIN, ANNOUNCEMENT_SIGNATURES} then done_with (Waiting st) []
      else case phase st of
             First_Offer \<Rightarrow> first_offer env st msg
           | Quick_Answer \<Rightarrow> quick_answer env st msg
           | Next_Round \<Rightarrow> next_round env st msg)"

text \<open>The daemon over the messages of the peer, until it is done.\<close>

fun closing_run :: "closing_env \<Rightarrow> closer \<Rightarrow> closing_msg list \<Rightarrow> closer closing" where
  "closing_run env (Waiting st) (msg # msgs) = and_then (closing_read env st msg) (\<lambda>c. closing_run env c msgs)"
| "closing_run env c _ = done_with c []"


section \<open>What an offer commits to\<close>

lemma sat_le_iff: "satoshis a \<le> satoshis b \<longleftrightarrow> sat a \<le> sat b" "satoshis a < satoshis b \<longleftrightarrow> sat a < sat b"
  by (simp_all add: word_le_nat_alt word_less_nat_alt)

lemmas amount_sat_tests =
  amount_sat_greater_def amount_sat_greater_eq_def amount_sat_less_def amount_sat_less_eq_def sat_le_iff

lemma amount_sat_eq_iff: "amount_sat_eq a b \<longleftrightarrow> a = b"
  by (auto simp: amount_sat_eq_def amount_sat.expand)

lemma close_tx_result:
  assumes "close_tx env out fee = Some (Inr (tx, a))"
  shows "sat fee \<le> sat (out (ce_opener env)) \<and> a = []"
proof (cases "amount_sat_sub (out (ce_opener env)) fee")
  case None
  with assms show ?thesis by (simp add: close_tx_def)
next
  case (Some r)
  then have "sat fee \<le> sat (out (ce_opener env))" by (simp add: sat_arith.sub_iff)
  with Some assms show ?thesis by (auto simp: close_tx_def Let_def split: option.splits)
qed

lemma send_offer_result:
  assumes "send_offer env fee r = Some (Inr (u, outs))"
  shows "sat fee \<le> sat (ce_out env (ce_opener env))" and "\<exists>sig ls. outs = [Offers (CLOSING_SIGNED fee sig r ls)]"
  using assms close_tx_result [of env "ce_out env" fee] by (auto simp: send_offer_def and_then_result Let_def)

section \<open>Rounds\<close>

definition side_adjusted :: "feerange \<Rightarrow> amount_sat \<Rightarrow> side \<Rightarrow> bool" where
  "side_adjusted fr off s \<longleftrightarrow> (if s = higher_side fr then sat off = sat (fr_max fr) + 1 else sat (fr_min fr) = sat off + 1)"

lemma adjust_feerange_result:
  assumes "adjust_feerange fr off s = Some (Inr (fr', a))"
  shows "side_adjusted fr' off s" and "higher_side fr' = higher_side fr" and "a = []"
    and "s' \<noteq> s \<Longrightarrow> side_adjusted fr' off' s' = side_adjusted fr off' s'"
  using assms
  by (cases s; cases s'; cases "higher_side fr";
      auto simp: adjust_feerange_def side_adjusted_def sat_arith.sub_iff sat_arith.add_iff split: option.splits if_splits)+

lemma adjust_offer_result:
  assumes "adjust_offer env fr r m = Some (Inr (ours, a))"
  shows "a = []"
    and "(ours = r \<and> sat (fr_max fr) \<le> sat (fr_min fr) + 1) \<or>
         (sat (fr_min fr) \<le> sat ours \<and> sat m \<le> sat ours \<and> sat ours \<le> sat (fr_max fr))"
proof -
  obtain p where p: "amount_sat_add (fr_min fr) (AMOUNT_SAT 1) = Some p" and vp: "sat p = sat (fr_min fr) + 1"
    using assms by (cases "amount_sat_add (fr_min fr) (AMOUNT_SAT 1)") (auto simp: adjust_offer_def dest: sat_arith.add_Some)
  show "a = []" using assms by (auto simp: adjust_offer_def Let_def split: option.splits if_splits)
  show "(ours = r \<and> sat (fr_max fr) \<le> sat (fr_min fr) + 1) \<or>
         (sat (fr_min fr) \<le> sat ours \<and> sat m \<le> sat ours \<and> sat ours \<le> sat (fr_max fr))"
  proof (cases "sat (fr_max fr) \<le> sat p")
    case True
    with assms p vp show ?thesis by (simp add: adjust_offer_def amount_sat_tests)
  next
    case False
    define mf where "mf = (if amount_sat_greater (fr_min fr) m then fr_min fr else m)"
    have mf: "sat (fr_min fr) \<le> sat mf" "sat m \<le> sat mf" by (auto simp: mf_def amount_sat_tests)
    obtain len where len: "amount_sat_sub (fr_max fr) mf = Some len"
      using assms p False by (cases "amount_sat_sub (fr_max fr) mf") (auto simp: adjust_offer_def Let_def amount_sat_tests mf_def)
    have "sat mf \<le> sat (fr_max fr)" using len by (simp add: sat_arith.sub_iff)
    moreover have "ours = (if higher_side fr = LOCAL
                       then (case amount_sat_sub (fr_max fr) (step_sat env len) of
                               None \<Rightarrow> mf | Some result \<Rightarrow> if amount_sat_less_eq result mf then mf else result)
                       else (case amount_sat_add mf (step_sat env len) of
                               None \<Rightarrow> fr_max fr | Some result \<Rightarrow> if amount_sat_greater_eq result (fr_max fr) then fr_max fr else result))"
      using assms p False len unfolding adjust_offer_def Let_def mf_def [symmetric] by (simp add: amount_sat_tests)
    ultimately have "sat mf \<le> sat ours \<and> sat ours \<le> sat (fr_max fr)"
      by (auto simp: amount_sat_tests sat_arith.sub_iff sat_arith.add_iff split: option.split)
    with mf show ?thesis by linarith
  qed
qed
text \<open>Our own last offer is on our side of the range, and could be paid for.\<close>

definition in_round :: "closing_env \<Rightarrow> closing_state \<Rightarrow> bool" where
  "in_round env st \<longleftrightarrow> phase st = Next_Round \<and> side_adjusted (frange st) (offer st LOCAL) LOCAL \<and>
     sat (offer st LOCAL) \<le> sat (ce_out env (ce_opener env))"

definition rounds_left :: "closing_env \<Rightarrow> closing_state \<Rightarrow> nat" where
  "rounds_left env st =
     (if higher_side (frange st) = LOCAL then sat (offer st LOCAL)
      else sat (ce_out env (ce_opener env)) - sat (offer st LOCAL))"

lemma their_turn_waits:
  assumes "their_turn env st = Some (Inr (Waiting st', outs))"
  obtains fr where "st' = st\<lparr>phase := Next_Round, frange := fr\<rparr>" and "side_adjusted fr (offer st LOCAL) LOCAL"
    and "higher_side fr = higher_side (frange st)" and "offer st LOCAL \<noteq> offer st REMOTE" and "outs = []"
proof -
  from assms obtain fr where fr: "adjust_feerange (frange st) (offer st LOCAL) LOCAL = Some (Inr (fr, outs))"
      "st' = st\<lparr>phase := Next_Round, frange := fr\<rparr>" "offer st LOCAL \<noteq> offer st REMOTE"
    by (auto simp: their_turn_def complete_def amount_sat_eq_iff and_then_result split: if_splits)
  with that adjust_feerange_result(1-3) [OF fr(1)] show thesis by blast
qed

lemma our_turn_progress:
  assumes run: "our_turn env st = Some (Inr (Waiting st', outs))"
    and side: "side_adjusted (frange st) (offer st LOCAL) LOCAL"
  shows "in_round env st' \<and> rounds_left env st' < rounds_left env st"
proof -
  from run obtain fr a1 ours a2 a3 a4 where
    fr: "adjust_feerange (frange st) (offer st REMOTE) REMOTE = Some (Inr (fr, a1))" and
    ours: "adjust_offer env fr (offer st REMOTE) (min_fee_to_accept st) = Some (Inr (ours, a2))" and
    sent: "send_offer env ours (our_feerange env st) = Some (Inr ((), a3))" and
    turn: "their_turn env (st\<lparr>frange := fr, offer := (offer st)(LOCAL := ours)\<rparr>) = Some (Inr (Waiting st', a4))"
    by (auto simp: our_turn_def complete_def and_then_result Let_def split: if_splits)
  have h: "higher_side fr = higher_side (frange st)" and own: "side_adjusted fr (offer st LOCAL) LOCAL"
    using adjust_feerange_result(2) [OF fr] adjust_feerange_result(4) [OF fr, of LOCAL] side by auto
  from turn obtain fr' where st': "st' = st\<lparr>frange := fr, offer := (offer st)(LOCAL := ours), phase := Next_Round, frange := fr'\<rparr>"
      "side_adjusted fr' ours LOCAL" "higher_side fr' = higher_side fr" "ours \<noteq> offer st REMOTE"
    by (rule their_turn_waits) simp_all
  have "sat (fr_min fr) \<le> sat ours" "sat ours \<le> sat (fr_max fr)" using adjust_offer_result(2) [OF ours] st'(4) by auto
  then have less: "(if higher_side fr = LOCAL then sat ours < sat (offer st LOCAL) else sat (offer st LOCAL) < sat ours)"
    using own by (simp add: side_adjusted_def split: if_splits)
  have paid: "sat ours \<le> sat (ce_out env (ce_opener env))" by (rule send_offer_result(1) [OF sent])
  from less paid st'(1,3) h have "rounds_left env st' < rounds_left env st"
    by (simp add: rounds_left_def split: if_splits)
  with st'(1,2) paid show ?thesis by (simp add: in_round_def)
qed

lemma next_round_progress:
  assumes "next_round env st msg = Some (Inr (Waiting st', outs))" and "in_round env st"
  shows "in_round env st' \<and> rounds_left env st' < rounds_left env st"
proof -
  from assms(1) obtain fee x a where "our_turn env (st\<lparr>offer := (offer st)(REMOTE := fee)\<rparr>) = Some (Inr (Waiting st', a))"
    by (auto simp: next_round_def and_then_result)
  moreover have "rounds_left env (st\<lparr>offer := (offer st)(REMOTE := fee)\<rparr>) = rounds_left env st"
    by (simp add: rounds_left_def)
  ultimately show ?thesis using our_turn_progress [of env "st\<lparr>offer := (offer st)(REMOTE := fee)\<rparr>" st' a] assms(2)
    by (simp add: in_round_def)
qed

lemma start_rounds_in_round:
  assumes "start_rounds env st = Some (Inr (Waiting st', outs))"
    and "ce_opener env = REMOTE \<Longrightarrow> sat (offer st LOCAL) \<le> sat (ce_out env REMOTE)"
  shows "in_round env st'"
proof -
  from assms(1) obtain fr a b where
    fr: "adjust_feerange (init_feerange (max_fee_to_accept st) (offer st)) (offer st (ce_opener env)) (ce_opener env) = Some (Inr (fr, a))"
    and turn: "(if ce_opener env = LOCAL then our_turn env (st\<lparr>frange := fr\<rparr>) else their_turn env (st\<lparr>frange := fr\<rparr>)) =
      Some (Inr (Waiting st', b))"
    by (auto simp: start_rounds_def and_then_result Let_def)
  show ?thesis
  proof (cases "ce_opener env")
    case LOCAL
    with turn our_turn_progress [of env "st\<lparr>frange := fr\<rparr>" st' b] adjust_feerange_result(1) [OF fr] show ?thesis by simp
  next
    case REMOTE
    with turn have "their_turn env (st\<lparr>frange := fr\<rparr>) = Some (Inr (Waiting st', b))" by simp
    then obtain fr' where "st' = st\<lparr>frange := fr, phase := Next_Round, frange := fr'\<rparr>" "side_adjusted fr' (offer st LOCAL) LOCAL"
      by (rule their_turn_waits) simp
    with assms(2) REMOTE show ?thesis by (simp add: in_round_def)
  qed
qed

lemma do_quickclose_waits:
  assumes "do_quickclose env st ours theirs = Some (Inr (Waiting st', outs))"
  shows "phase st' = Quick_Answer"
  using assms by (auto simp: do_quickclose_def complete_def and_then_result Let_def split: option.splits if_splits)

lemma first_offers_cases:
  assumes "first_offers_done env st r = Some (Inr (c, outs))"
  obtains (quick) ours theirs where "our_feerange env st = Some ours" "r = Some theirs"
      "do_quickclose env st ours theirs = Some (Inr (c, outs))"
    | (opener) "ce_opener env = LOCAL" "start_rounds env st = Some (Inr (c, outs))"
    | (other) a b where "ce_opener env = REMOTE" "send_offer env (offer st LOCAL) (our_feerange env st) = Some (Inr ((), a))"
        "start_rounds env st = Some (Inr (c, b))" "outs = a @ b"
  using assms by (cases "our_feerange env st"; cases r; cases "ce_opener env") (auto simp: first_offers_done_def and_then_result)

lemma first_offer_waits:
  assumes "first_offer env st msg = Some (Inr (Waiting st', outs))"
  shows "phase st' = Quick_Answer \<or> in_round env st'"
proof -
  from assms obtain fee r b where "first_offers_done env (st\<lparr>offer := (offer st)(REMOTE := fee)\<rparr>) r = Some (Inr (Waiting st', b))"
    by (auto simp: first_offer_def and_then_result)
  then show ?thesis
  proof (cases rule: first_offers_cases)
    case quick
    from do_quickclose_waits [OF quick(3)] show ?thesis by simp
  next
    case opener
    from start_rounds_in_round [OF opener(2)] opener(1) show ?thesis by simp
  next
    case other
    from start_rounds_in_round [OF other(3)] send_offer_result(1) [OF other(2)] other(1) show ?thesis by simp
  qed
qed

lemma quick_answer_ends: "quick_answer env st msg \<noteq> Some (Inr (Waiting st', outs))"
  by (auto simp: quick_answer_def complete_def and_then_result split: if_splits)

text \<open>The messages that are read and dropped.\<close>

definition ignored :: "closing_msg \<Rightarrow> bool" where
  "ignored msg \<longleftrightarrow> msg \<in> {CHANNEL_READY, SHUTDOWN_AGAIN, ANNOUNCEMENT_SIGNATURES}"

lemma rounds_run_bound:
  assumes "closing_run env (Waiting st) msgs = Some (Inr (Waiting st', outs))" and "in_round env st"
  shows "length (filter (\<lambda>m. \<not> ignored m) msgs) \<le> rounds_left env st"
  using assms
proof (induction msgs arbitrary: st outs)
  case (Cons m msgs)
  then obtain c a b where r: "closing_read env st m = Some (Inr (c, a))" "closing_run env c msgs = Some (Inr (Waiting st', b))"
    by (auto simp: and_then_result)
  show ?case
  proof (cases "ignored m")
    case True
    with r have "c = Waiting st" by (simp add: closing_read_def ignored_def)
    with True Cons.IH r(2) Cons.prems(2) show ?thesis by simp
  next
    case False
    from r(2) obtain st1 where c: "c = Waiting st1" by (cases c; cases msgs) auto
    from r(1) False Cons.prems(2) c have "next_round env st m = Some (Inr (Waiting st1, a))"
      by (simp add: closing_read_def ignored_def in_round_def)
    from next_round_progress [OF this Cons.prems(2)] Cons.IH [of st1] r(2) c False show ?thesis by fastforce
  qed
qed simp

lemma quick_run_bound:
  assumes "closing_run env (Waiting st) msgs = Some (Inr (Waiting st', outs))" and "phase st = Quick_Answer"
  shows "filter (\<lambda>m. \<not> ignored m) msgs = []"
  using assms
proof (induction msgs arbitrary: outs)
  case (Cons m msgs)
  then obtain c a b where r: "closing_read env st m = Some (Inr (c, a))" "closing_run env c msgs = Some (Inr (Waiting st', b))"
    by (auto simp: and_then_result)
  then obtain st1 where "c = Waiting st1" by (cases c; cases msgs) auto
  with r Cons.IH Cons.prems(2) quick_answer_ends show ?case
    by (auto simp: closing_read_def ignored_def split: if_splits)
qed simp

lemma first_run_bound:
  assumes "closing_run env (Waiting st) msgs = Some (Inr (Waiting st', outs))" and "phase st = First_Offer"
  shows "length (filter (\<lambda>m. \<not> ignored m) msgs) \<le> sat (ce_out env (ce_opener env)) + 1"
  using assms
proof (induction msgs arbitrary: outs)
  case (Cons m msgs)
  then obtain c a b where r: "closing_read env st m = Some (Inr (c, a))" "closing_run env c msgs = Some (Inr (Waiting st', b))"
    by (auto simp: and_then_result)
  show ?case
  proof (cases "ignored m")
    case True
    with r have "c = Waiting st" by (simp add: closing_read_def ignored_def)
    with True Cons.IH r(2) Cons.prems(2) show ?thesis by simp
  next
    case False
    from r(2) obtain st1 where c: "c = Waiting st1" by (cases c; cases msgs) auto
    from r(1) False Cons.prems(2) c have "first_offer env st m = Some (Inr (Waiting st1, a))"
      by (simp add: closing_read_def ignored_def)
    then have "phase st1 = Quick_Answer \<or> in_round env st1" by (rule first_offer_waits)
    then have "length (filter (\<lambda>m. \<not> ignored m) msgs) \<le> sat (ce_out env (ce_opener env))"
      using quick_run_bound [OF r(2) [unfolded c]] rounds_run_bound [OF r(2) [unfolded c]]
      by (auto simp: in_round_def rounds_left_def split: if_splits)
    with False show ?thesis by simp
  qed
qed simp

lemma start_waits:
  assumes "closing_start env = Some (Inr (st, outs))"
  shows "phase st = First_Offer"
  using assms by (auto simp: closing_start_def and_then_result Let_def split: option.splits if_splits)

text \<open>
  (C23) The closing daemon ends, whatever the peer sends: once it has read as many messages as the balance of the
  side that pays the fee has satoshis, and two more, it has agreed on a fee or has exited. Messages that
  it drops do not count.
\<close>

theorem closing_ends:
  assumes "closing_start env = Some (Inr (st, outs))"
    and "sat (ce_out env (ce_opener env)) + 2 \<le> length (filter (\<lambda>m. \<not> ignored m) msgs)"
  shows "closing_run env (Waiting st) msgs \<noteq> Some (Inr (Waiting st', outs'))"
  using first_run_bound [OF _ start_waits [OF assms(1)]] assms(2) by fastforce

section \<open>Agreement\<close>

definition offered :: "closing_out list \<Rightarrow> amount_sat set" where
  "offered outs = {fee. \<exists>sig r ls. Offers (CLOSING_SIGNED fee sig r ls) \<in> set outs}"

text \<open>lightningd has a signature of the peer on a closing transaction with this fee.\<close>

definition told :: "closing_env \<Rightarrow> closing_out list \<Rightarrow> amount_sat \<Rightarrow> bool" where
  "told env outs fee \<longleftrightarrow> (\<exists>sig tx. RECEIVED_SIGNATURE sig tx \<in> set outs \<and> check_input env tx 0 sig \<and>
     (close_tx env (ce_out env) fee = done_with tx [] \<or> close_tx env (trimming_out env fee) fee = done_with tx []))"

lemma offered_simps [simp]:
  "offered (xs @ ys) = offered xs \<union> offered ys" "offered [Offers (CLOSING_SIGNED fee sig r ls)] = {fee}" "offered [] = {}"
  by (auto simp: offered_def)

lemma told_append: "told env xs fee \<Longrightarrow> told env (xs @ ys) fee" "told env ys fee \<Longrightarrow> told env (xs @ ys) fee"
  by (auto simp: told_def)

lemma send_offer_offered: "send_offer env fee r = Some (Inr (u, outs)) \<Longrightarrow> offered outs = {fee}"
  using send_offer_result(2) by fastforce

lemma signed_close_result:
  assumes "signed_close env fee sig = Some (Inr (tx, a))"
  shows "a = []" and "check_input env tx 0 sig"
    and "close_tx env (ce_out env) fee = done_with tx [] \<or> close_tx env (trimming_out env fee) fee = done_with tx []"
  using assms close_tx_result [of env] by (auto simp: signed_close_def and_then_result done_with_def split: if_splits)

lemma receive_offer_result:
  assumes "receive_offer env m msg = Some (Inr ((fee, r), a))"
  obtains sig ls where "msg = CLOSING_SIGNED fee sig r ls" and "sat m \<le> sat fee \<Longrightarrow> told env a fee" and "offered a = {}"
proof -
  from assms obtain sig ls tx a1 a2 where m: "msg = CLOSING_SIGNED fee sig r ls"
      "signed_close env fee sig = Some (Inr (tx, a1))" "check_lane_sigs env tx ls = Some (Inr ((), a2))"
      "a = a1 @ a2 @ (if amount_sat_greater_eq fee m then [RECEIVED_SIGNATURE sig tx] else [])"
    by (auto simp: receive_offer_def and_then_result split: closing_msg.splits)
  have "a2 = []" using m(3) by (auto simp: check_lane_sigs_def split: if_splits)
  with m signed_close_result [OF m(2)] that show thesis
    by (auto simp: told_def offered_def amount_sat_tests)
qed
text \<open>The last offer we made is the one the state has; an agreement is on it and on the offer just read.\<close>

definition stays_offered :: "closing_env \<Rightarrow> closing_state \<Rightarrow> closer \<Rightarrow> closing_out list \<Rightarrow> bool" where
  "stays_offered env st c outs \<longleftrightarrow>
     (case c of
        Agreed fee \<Rightarrow> fee = offer st REMOTE \<and> (fee = offer st LOCAL \<or> fee \<in> offered outs)
      | Waiting st' \<Rightarrow> phase st' \<noteq> First_Offer \<and> min_fee_to_accept st' = min_fee_to_accept st \<and>
          (offer st' LOCAL = offer st LOCAL \<or> offer st' LOCAL \<in> offered outs))"

lemma their_turn_offered: "their_turn env st = Some (Inr (c, outs)) \<Longrightarrow> stays_offered env st c outs"
  by (auto simp: their_turn_def complete_def amount_sat_eq_iff and_then_result stays_offered_def split: if_splits)

lemma our_turn_offered:
  assumes "our_turn env st = Some (Inr (c, outs))"
  shows "stays_offered env st c outs"
proof (cases "offer st LOCAL = offer st REMOTE")
  case True
  with assms show ?thesis by (auto simp: our_turn_def complete_def amount_sat_eq_iff stays_offered_def)
next
  case False
  with assms obtain fr a1 ours a2 a3 a4 where
    sent: "send_offer env ours (our_feerange env st) = Some (Inr ((), a3))" and
    turn: "their_turn env (st\<lparr>frange := fr, offer := (offer st)(LOCAL := ours)\<rparr>) = Some (Inr (c, a4))" and
    outs: "outs = a1 @ a2 @ a3 @ a4"
    by (auto simp: our_turn_def amount_sat_eq_iff and_then_result Let_def)
  from their_turn_offered [OF turn] send_offer_offered [OF sent] outs show ?thesis
    by (auto simp: stays_offered_def split: closer.splits)
qed

lemma start_rounds_offered: "start_rounds env st = Some (Inr (c, outs)) \<Longrightarrow> stays_offered env st c outs"
  using our_turn_offered their_turn_offered
  by (fastforce simp: start_rounds_def and_then_result Let_def stays_offered_def split: closer.splits if_splits)

lemma do_quickclose_offered:
  assumes "do_quickclose env st ours theirs = Some (Inr (c, outs))"
  shows "stays_offered env st c outs \<and> (ce_opener env = REMOTE \<longrightarrow> (case c of Agreed fee \<Rightarrow> fee | Waiting st' \<Rightarrow> offer st' LOCAL) \<in> offered outs)"
  using assms send_offer_offered [of env]
  by (auto simp: do_quickclose_def complete_def and_then_result Let_def stays_offered_def amount_sat_eq_iff
      split: option.splits if_splits)

lemma first_offers_offered:
  assumes "first_offers_done env st r = Some (Inr (c, outs))"
  shows "stays_offered env st c outs \<and> (ce_opener env = REMOTE \<longrightarrow> (case c of Agreed fee \<Rightarrow> fee | Waiting st' \<Rightarrow> offer st' LOCAL) \<in> offered outs)"
  using assms
proof (cases rule: first_offers_cases)
  case quick
  then show ?thesis by (simp add: do_quickclose_offered)
next
  case opener
  then show ?thesis by (simp add: start_rounds_offered)
next
  case other
  with start_rounds_offered [OF other(3)] send_offer_offered [OF other(2)] show ?thesis
    by (auto simp: stays_offered_def split: closer.splits)
qed

text \<open>Our offer of the state has been made, unless it is theirs to make the first.\<close>

definition offer_made :: "closing_env \<Rightarrow> closing_state \<Rightarrow> closing_out list \<Rightarrow> bool" where
  "offer_made env st outs \<longleftrightarrow> (phase st = First_Offer \<and> ce_opener env = REMOTE) \<or> offer st LOCAL \<in> offered outs"

lemma closing_read_offered:
  assumes r: "closing_read env st msg = Some (Inr (c, outs))" and made: "offer_made env st before" and "\<not> ignored msg"
  shows "case c of
           Agreed fee \<Rightarrow> fee \<in> offered (before @ outs) \<and> (\<exists>sig r ls. msg = CLOSING_SIGNED fee sig r ls) \<and>
             (sat (min_fee_to_accept st) \<le> sat fee \<longrightarrow> told env outs fee)
         | Waiting st' \<Rightarrow> offer_made env st' (before @ outs) \<and> min_fee_to_accept st' = min_fee_to_accept st"
proof -
  have "\<exists>fee r a b st1. receive_offer env (min_fee_to_accept st) msg = Some (Inr ((fee, r), a)) \<and> outs = a @ b \<and>
      st1 = st\<lparr>offer := (offer st)(REMOTE := fee)\<rparr> \<and> stays_offered env st1 c b \<and>
      (phase st = First_Offer \<and> ce_opener env = REMOTE \<longrightarrow> (case c of Agreed fee \<Rightarrow> fee | Waiting st' \<Rightarrow> offer st' LOCAL) \<in> offered b)"
  proof (cases "phase st")
    case First_Offer
    with r assms(3) first_offers_offered show ?thesis
      by (fastforce simp: closing_read_def ignored_def first_offer_def and_then_result)
  next
    case Quick_Answer
    with r assms(3) show ?thesis
      by (fastforce simp: closing_read_def ignored_def quick_answer_def and_then_result complete_def stays_offered_def amount_sat_eq_iff
          split: if_splits)
  next
    case Next_Round
    with r assms(3) our_turn_offered show ?thesis
      by (fastforce simp: closing_read_def ignored_def next_round_def and_then_result)
  qed
  then obtain fee r a b where rcv: "receive_offer env (min_fee_to_accept st) msg = Some (Inr ((fee, r), a))" and outs: "outs = a @ b"
    and st: "stays_offered env (st\<lparr>offer := (offer st)(REMOTE := fee)\<rparr>) c b"
    and first: "phase st = First_Offer \<and> ce_opener env = REMOTE \<longrightarrow> (case c of Agreed fee \<Rightarrow> fee | Waiting st' \<Rightarrow> offer st' LOCAL) \<in> offered b"
    by blast
  from rcv obtain sig ls where "msg = CLOSING_SIGNED fee sig r ls" "sat (min_fee_to_accept st) \<le> sat fee \<Longrightarrow> told env a fee"
    by (rule receive_offer_result) blast
  with st first outs made told_append(1) [of env a fee b] show ?thesis
    by (auto simp: stays_offered_def offer_made_def split: closer.splits)
qed

text \<open>
  (C24) The daemon agrees only on a fee that both sides have signed: when it ends with a fee, it has offered that
  fee itself and the peer has offered it, and unless the fee is below our minimum lightningd has been given
  a checked signature of the peer on the closing transaction with that fee.
\<close>

theorem closing_agreement:
  assumes start: "closing_start env = Some (Inr (st, outs))"
    and run: "closing_run env (Waiting st) msgs = Some (Inr (Agreed fee, outs'))"
  shows "fee \<in> offered (outs @ outs') \<and> (\<exists>sig r ls. CLOSING_SIGNED fee sig r ls \<in> set msgs) \<and>
         (sat (min_fee_to_accept st) \<le> sat fee \<longrightarrow> told env outs' fee)"
proof -
  have "offer_made env st outs"
    using start send_offer_offered [of env]
    by (cases "ce_opener env") (auto simp: closing_start_def and_then_result Let_def offer_made_def split: option.splits if_splits)
  then show ?thesis using run
  proof (induction msgs arbitrary: st outs outs')
    case (Cons m msgs)
    then obtain c a b where r: "closing_read env st m = Some (Inr (c, a))" "closing_run env c msgs = Some (Inr (Agreed fee, b))"
      "outs' = a @ b" by (auto simp: and_then_result)
    show ?case
    proof (cases "ignored m")
      case True
      with r have "c = Waiting st" "a = []" by (simp_all add: closing_read_def ignored_def)
      with Cons.IH [of st outs b] Cons.prems r show ?thesis by auto
    next
      case False
      note step = closing_read_offered [OF r(1) Cons.prems(1) False]
      show ?thesis
      proof (cases c)
        case (Agreed f)
        with r(2) have "f = fee" "b = []" by simp_all
        with step Agreed r(3) show ?thesis by auto
      next
        case (Waiting st1)
        with step Cons.IH [of st1 "outs @ a" b] r show ?thesis by (auto intro: told_append(2))
      qed
    qed
  qed simp
qed
section \<open>An agreement that lightningd does not hear of\<close>

definition demo_closing :: closing_env where
  "demo_closing =
     \<lparr>ce_chainparams = net_bitcoin, ce_opener = LOCAL,
      ce_out = (\<lambda>s. if s = LOCAL then AMOUNT_SAT 100000 else AMOUNT_SAT 50000),
      ce_funding = demo_outpoint, ce_funding_sats = AMOUNT_SAT 200000, ce_dust_limit = AMOUNT_SAT 546,
      ce_scriptpubkey = (\<lambda>s. if s = LOCAL then [1] else [2]), ce_asset = [], ce_lanes = [], ce_wrong_funding = None,
      ce_min_feerate = 1000, ce_initial_feerate = 1000, ce_max_feerate = 2000, ce_weight = 700,
      ce_step = 50, ce_step_unit = 0, ce_use_quickclose = False,
      sign_input = (\<lambda>_ _. []), check_input = (\<lambda>_ _ _. True)\<rparr>"

lemma demo_bounds: "calc_fee_bounds demo_closing = Some (AMOUNT_SAT 700, AMOUNT_SAT 700, AMOUNT_SAT 1400)"
  by (simp add: calc_fee_bounds_def demo_closing_def amount_tx_fee_def amount_tx_fee_rounded_down_def net_bitcoin_def
      mul_overflows_u64_iff amount_sat_greater_def amount_sat_less_def Let_def)

lemma demo_close_tx_offer:
  assumes "sat fee \<le> 1400"
  shows "\<exists>tx. close_tx (demo_closing\<lparr>ce_use_quickclose := q, check_input := c\<rparr>) (ce_out demo_closing) fee = done_with tx []"
proof -
  obtain r where r: "amount_sat_sub (AMOUNT_SAT 100000) fee = Some r"
    using assms sat_arith.sub_None [of "AMOUNT_SAT 100000" fee] by (cases "amount_sat_sub (AMOUNT_SAT 100000) fee") auto
  then have "sat r + 50000 \<le> 200000" using sat_arith.sub_Some [OF r] by simp
  then have "\<exists>tx. close_tx_of net_bitcoin [1] [2] demo_outpoint (AMOUNT_SAT 200000) r (AMOUNT_SAT 50000) (AMOUNT_SAT 546) [] [] =
      Some (Some tx)"
    by (intro close_tx_of_plain) (simp_all add: net_bitcoin_def)
  with r show ?thesis by (auto simp: close_tx_def demo_closing_def create_close_tx_lanes_def)
qed

lemma demo_negotiation:
  assumes "fee = 700 \<or> fee = 698"
  shows "\<exists>st outs outs'. closing_start demo_closing = Some (Inr (st, outs)) \<and> min_fee_to_accept st = AMOUNT_SAT 700 \<and>
     closing_run demo_closing (Waiting st) [CLOSING_SIGNED (AMOUNT_SAT fee) [] None []] =
       Some (Inr (Agreed (AMOUNT_SAT fee), outs')) \<and>
     (fee = 698 \<longrightarrow> (\<forall>sig tx. RECEIVED_SIGNATURE sig tx \<notin> set outs'))"
proof -
  have c: "ce_opener demo_closing = LOCAL" "ce_lanes demo_closing = []" "ce_use_quickclose demo_closing = False"
    "check_input demo_closing tx i sig = True" for tx i sig
    by (simp_all add: demo_closing_def)
  obtain tx1 where tx1: "close_tx demo_closing (ce_out demo_closing) (AMOUNT_SAT 700) = done_with tx1 []"
    using demo_close_tx_offer [of "AMOUNT_SAT 700"] by (auto simp: demo_closing_def)
  obtain tx2 where tx2: "close_tx demo_closing (ce_out demo_closing) (AMOUNT_SAT 698) = done_with tx2 []"
    using demo_close_tx_offer [of "AMOUNT_SAT 698"] by (auto simp: demo_closing_def)
  have d: "and_then (done_with x outs) f = (case f x of None \<Rightarrow> None | Some (Inl e) \<Rightarrow> Some (Inl e)
              | Some (Inr (y, b)) \<Rightarrow> Some (Inr (y, outs @ b)))" for x outs and f :: "'a \<Rightarrow> ('e, 'o, 'b) process"
    by (simp add: and_then_def done_with_def)
  from assms show ?thesis
    by (elim disjE) (simp_all add: closing_start_def demo_bounds c tx1 tx2 send_offer_def our_feerange_def Let_def d closing_read_def first_offer_def
        receive_offer_def signed_close_def check_lane_sigs_def amount_sat_greater_eq_def first_offers_done_def start_rounds_def
        init_feerange_def adjust_feerange_def amount_sat_greater_def amount_sat_sub_def amount_sat_add_def add_overflows_u64_def
        our_turn_def amount_sat_eq_def adjust_offer_def their_turn_def complete_def and_then_def [of "Some _"] done_with_def)
qed

text \<open>
  (C25) A negotiation can end in an agreement below our minimum, of which lightningd has no signature: when the
  peer offers 698 satoshi and our minimum and first offer are 700, \<^verbatim>\<open>adjust_offer\<close> returns the offer of the
  peer because the range has closed, before it looks at the minimum; the daemon signs it and
  reports the close complete, but \<^verbatim>\<open>receive_offer\<close> has not passed the signature on.
\<close>

theorem closing_agrees_below_minimum:
  "\<exists>st outs outs'. closing_start demo_closing = Some (Inr (st, outs)) \<and> min_fee_to_accept st = AMOUNT_SAT 700 \<and>
     closing_run demo_closing (Waiting st) [CLOSING_SIGNED (AMOUNT_SAT 698) [] None []] =
       Some (Inr (Agreed (AMOUNT_SAT 698), outs')) \<and>
     (\<forall>sig tx. RECEIVED_SIGNATURE sig tx \<notin> set outs')"
  using demo_negotiation [of 698] by simp

theorem closing_agreement_witness:
  "\<exists>st outs outs'. closing_start demo_closing = Some (Inr (st, outs)) \<and>
     closing_run demo_closing (Waiting st) [CLOSING_SIGNED (AMOUNT_SAT 700) [] None []] =
       Some (Inr (Agreed (AMOUNT_SAT 700), outs')) \<and>
     AMOUNT_SAT 700 \<in> offered (outs @ outs') \<and> told demo_closing outs' (AMOUNT_SAT 700)"
proof -
  from demo_negotiation [of 700] obtain st outs outs' where
    start: "closing_start demo_closing = Some (Inr (st, outs))" and m: "min_fee_to_accept st = AMOUNT_SAT 700" and
    run: "closing_run demo_closing (Waiting st) [CLOSING_SIGNED (AMOUNT_SAT 700) [] None []] = Some (Inr (Agreed (AMOUNT_SAT 700), outs'))"
    by auto
  from closing_agreement [OF start run] m have "AMOUNT_SAT 700 \<in> offered (outs @ outs') \<and> told demo_closing outs' (AMOUNT_SAT 700)"
    by simp
  with start run show ?thesis by blast
qed

text \<open>The opener is the peer and has two satoshi: four offers are enough.\<close>

theorem closing_ends_witness:
  "\<exists>st outs. closing_start (demo_closing\<lparr>ce_opener := REMOTE, ce_out := \<lambda>_. AMOUNT_SAT 2\<rparr>) = Some (Inr (st, outs)) \<and>
     (\<forall>st' outs'. closing_run (demo_closing\<lparr>ce_opener := REMOTE, ce_out := \<lambda>_. AMOUNT_SAT 2\<rparr>) (Waiting st)
        (replicate 4 (CLOSING_SIGNED (AMOUNT_SAT 1) [] None [])) \<noteq> Some (Inr (Waiting st', outs')))"
proof -
  let ?env = "demo_closing\<lparr>ce_opener := REMOTE, ce_out := \<lambda>_. AMOUNT_SAT 2\<rparr>"
  have "calc_fee_bounds ?env = Some (AMOUNT_SAT 700, AMOUNT_SAT 700, AMOUNT_SAT 200000)"
    by (simp add: calc_fee_bounds_def demo_closing_def amount_tx_fee_def amount_tx_fee_rounded_down_def net_bitcoin_def
        mul_overflows_u64_iff amount_sat_greater_def amount_sat_less_def Let_def)
  then obtain st where st: "closing_start ?env = Some (Inr (st, []))" by (auto simp: closing_start_def Let_def done_with_def)
  have "closing_run ?env (Waiting st) (replicate 4 (CLOSING_SIGNED (AMOUNT_SAT 1) [] None [])) \<noteq> Some (Inr (Waiting st', outs'))" for st' outs'
    by (rule closing_ends [OF st]) (simp add: filter_replicate ignored_def)
  with st show ?thesis by blast
qed
section \<open>Two daemons close a channel\<close>

text \<open>What a daemon sends to its peer.\<close>

definition offers :: "closing_out list \<Rightarrow> closing_msg list" where
  "offers outs = concat (map (\<lambda>out. case out of Offers m \<Rightarrow> [m] | _ \<Rightarrow> []) outs)"

lemma offers_simps [simp]:
  "offers [] = []" "offers (xs @ ys) = offers xs @ offers ys" "offers (Offers m # outs) = m # offers outs"
  "offers (RECEIVED_SIGNATURE sig tx # outs) = offers outs" "offers (CLOSINGD_COMPLETE # outs) = offers outs"
  by (simp_all add: offers_def)

text \<open>The two ends of one channel, with signatures of each that the other can check.\<close>

definition mirrored_closing :: "closing_env \<Rightarrow> closing_env \<Rightarrow> bool" where
  "mirrored_closing A B \<longleftrightarrow>
     ce_chainparams B = ce_chainparams A \<and> ce_opener B = other (ce_opener A) \<and> ce_out B = ce_out A \<circ> other \<and>
     ce_funding B = ce_funding A \<and> ce_funding_sats B = ce_funding_sats A \<and>
     ce_scriptpubkey B = ce_scriptpubkey A \<circ> other \<and> ce_asset B = ce_asset A \<and>
     ce_lanes B = map mirror_lane (ce_lanes A) \<and> ce_wrong_funding B = ce_wrong_funding A \<and>
     (\<forall>tx i. check_input B tx i (sign_input A tx i) \<and> check_input A tx i (sign_input B tx i))"

lemma mirror_mirror_lane [simp]: "mirror_lane (mirror_lane l) = l"
  by (simp add: mirror_lane_def)

lemma mirrored_sym: "mirrored_closing A B \<Longrightarrow> mirrored_closing B A"
  by (auto simp: mirrored_closing_def fun_eq_iff comp_def)

text \<open>Of what the fee leaves in lane 0, each end keeps the same shares by its own dust limit.\<close>

definition dust_alike :: "closing_env \<Rightarrow> closing_env \<Rightarrow> amount_sat \<Rightarrow> bool" where
  "dust_alike A B fee \<longleftrightarrow>
     (\<forall>s. let share = sat (ce_out A s) - (if s = ce_opener A then sat fee else 0) in
          sat (ce_dust_limit A) \<le> share \<longleftrightarrow> sat (ce_dust_limit B) \<le> share)"

lemma dust_alike_sym:
  assumes "mirrored_closing A B" and "dust_alike A B fee"
  shows "dust_alike B A fee"
  unfolding dust_alike_def Let_def
proof
  fix s
  show "(sat (ce_dust_limit B) \<le> sat (ce_out B s) - (if s = ce_opener B then sat fee else 0)) =
        (sat (ce_dust_limit A) \<le> sat (ce_out B s) - (if s = ce_opener B then sat fee else 0))"
    using assms spec [OF assms(2) [unfolded dust_alike_def Let_def], of "other s"]
    by (cases s; cases "ce_opener A") (auto simp: mirrored_closing_def)
qed

lemma close_tx_mirrored:
  assumes "mirrored_closing A B" and "dust_alike A B fee"
  shows "close_tx B (ce_out B) fee = close_tx A (ce_out A) fee"
proof (cases "amount_sat_sub (ce_out A (ce_opener A)) fee")
  case None
  with assms(1) show ?thesis by (cases "ce_opener A") (simp_all add: mirrored_closing_def close_tx_def)
next
  case (Some rest)
  let ?out = "(ce_out A)(ce_opener A := rest)"
  have "sat (?out s) = sat (ce_out A s) - (if s = ce_opener A then sat fee else 0)" for s
    using Some by (auto simp: sat_arith.sub_iff)
  then have alike: "\<forall>amt \<in> {?out LOCAL, ?out REMOTE}. sat (ce_dust_limit A) \<le> sat amt \<longleftrightarrow> sat (ce_dust_limit B) \<le> sat amt"
    using assms(2) by (simp add: dust_alike_def Let_def)
  have "create_close_tx_lanes cp s2 s1 f fs (?out REMOTE) (?out LOCAL) (ce_dust_limit B) x (map mirror_lane ls)
      = create_close_tx_lanes cp s1 s2 f fs (?out LOCAL) (?out REMOTE) (ce_dust_limit A) x ls" for cp s1 s2 f fs x ls
    unfolding create_close_tx_lanes_def by (rule close_tx_of_alike [OF alike])
  with assms(1) Some show ?thesis
    by (cases "ce_opener A") (simp_all add: mirrored_closing_def close_tx_def Let_def cong: option.case_cong)
qed

lemma close_tx_inputs:
  assumes "close_tx env out fee = done_with tx []"
  shows "length (tx_inputs tx) = Suc (length (ce_lanes env))"
  using assms close_tx_of_inputs
  by (fastforce simp: close_tx_def create_close_tx_lanes_def Let_def done_with_def exits_def split: option.splits)

lemma honest_offer_accepted:
  assumes AB: "mirrored_closing A B" and alike: "dust_alike A B fee" and sent: "send_offer A fee r = Some (Inr ((), outs))"
  obtains m a where "outs = [Offers m]" and "receive_offer B least m = Some (Inr ((fee, r), a))" and "\<not> ignored m"
    and "sat least \<le> sat fee \<Longrightarrow> told B a fee" and "offers a = []"
proof -
  from sent obtain tx where tx: "close_tx A (ce_out A) fee = done_with tx []"
    and outs: "outs = [Offers (CLOSING_SIGNED fee (sign_close A tx ! 0) r (if ce_lanes A = [] then [] else tl (sign_close A tx)))]"
    using close_tx_result [of A "ce_out A" fee] by (auto simp: send_offer_def and_then_result Let_def done_with_def)
  have inputs: "length (tx_inputs tx) = Suc (length (ce_lanes A))" by (rule close_tx_inputs [OF tx])
  have sig: "check_input B tx i (sign_close A tx ! i)" if "i \<le> length (ce_lanes A)" for i
    using AB inputs that by (auto simp: sign_close_def mirrored_closing_def simp del: upt_Suc)
  let ?ls = "if ce_lanes A = [] then [] else tl (sign_close A tx)"
  let ?m = "CLOSING_SIGNED fee (sign_close A tx ! 0) r ?ls"
  have lanes: "check_lane_sigs B tx ?ls = done_with () []"
  proof (cases "ce_lanes A = []")
    case True
    with AB show ?thesis by (simp add: check_lane_sigs_def mirrored_closing_def)
  next
    case False
    have n: "length (sign_close A tx) = length (tx_inputs tx)" using False by (simp add: sign_close_def)
    have "check_input B tx i (tl (sign_close A tx) ! (i - 1))" if "i \<in> set [1..<length (tx_inputs tx)]" for i
    proof -
      from that inputs have "1 \<le> i" "i \<le> length (ce_lanes A)" by auto
      with sig [of i] inputs n show ?thesis by (simp add: nth_tl)
    qed
    with False AB n show ?thesis by (auto simp: check_lane_sigs_def mirrored_closing_def)
  qed
  have "signed_close B fee (sign_close A tx ! 0) = done_with tx []"
    using sig [of 0] tx by (simp add: signed_close_def close_tx_mirrored [OF AB alike])
  then have "receive_offer B least ?m = Some (Inr ((fee, r), if amount_sat_greater_eq fee least then [RECEIVED_SIGNATURE (sign_close A tx ! 0) tx] else []))"
    by (simp add: receive_offer_def lanes)
  with that [of ?m] outs sig [of 0] tx show thesis
    by (auto simp: ignored_def told_def close_tx_mirrored [OF AB alike] amount_sat_tests)
qed


lemma and_then_run:
  "m = Some (Inr (x, a)) \<Longrightarrow> f x = Some (Inr (y, b)) \<Longrightarrow> and_then m f = Some (Inr (y, a @ b))"
  by (auto simp: and_then_result)

lemma overlap_range:
  assumes "get_overlap r1 r2 = Some ov"
  shows "amount_in_range fee ov \<longleftrightarrow> amount_in_range fee r1 \<and> amount_in_range fee r2"
  using assms by (auto simp: get_overlap_def amount_in_range_def amount_sat_tests Let_def split: if_splits)

lemma overlap_commute: "get_overlap r2 r1 = get_overlap r1 r2"
  by (auto simp: get_overlap_def amount_sat_tests Let_def sat_arith.val_inj word_unat_eq_iff amount_sat.expand
      intro!: fee_range.equality)

lemma overlap_exists:
  assumes "sat (min_fee_satoshis r1) \<le> sat (max_fee_satoshis r1)" "sat (min_fee_satoshis r2) \<le> sat (max_fee_satoshis r2)"
    and "sat (min_fee_satoshis r1) \<le> sat (max_fee_satoshis r2)" "sat (min_fee_satoshis r2) \<le> sat (max_fee_satoshis r1)"
  shows "\<exists>ov. get_overlap r1 r2 = Some ov"
  using assms by (simp add: get_overlap_def amount_sat_tests Let_def)

lemma clamp_in_range:
  assumes "get_overlap r1 r2 = Some ov"
  shows "amount_in_range (clamp_offer off ov) ov"
  using assms by (auto simp: get_overlap_def clamp_offer_def amount_in_range_def amount_sat_tests Let_def split: if_splits)


text \<open>The accepter reads the first offer, and the opener its answer.\<close>

lemma quick_accepter:
  assumes AB: "mirrored_closing A B" and B: "ce_opener B = REMOTE" "our_feerange B b = Some rb" "phase b = First_Offer"
    and first: "send_offer A feeA (Some ra) = Some (Inr ((), oa))" "dust_alike A B feeA"
    and ov: "get_overlap rb ra = Some ov"
    and reply: "send_offer B fee (Some rb) = Some (Inr ((), ob))" "fee = clamp_offer (offer b LOCAL) ov"
  shows "\<exists>c outs m. closing_read B b m = Some (Inr (c, outs)) \<and> oa = [Offers m] \<and> offers outs = offers ob \<and>
    (if feeA = fee then c = Agreed fee \<and> (sat (min_fee_to_accept b) \<le> sat fee \<longrightarrow> told B outs fee)
     else c = Waiting (b\<lparr>phase := Quick_Answer, offer := (offer b)(REMOTE := feeA, LOCAL := fee)\<rparr>))"
proof -
  obtain m a where m: "oa = [Offers m]" "receive_offer B (min_fee_to_accept b) m = Some (Inr ((feeA, Some ra), a))" "\<not> ignored m"
      "sat (min_fee_to_accept b) \<le> sat feeA \<Longrightarrow> told B a feeA" "offers a = []"
    by (rule honest_offer_accepted [OF AB first(2,1), of "min_fee_to_accept b"]) blast
  let ?b = "b\<lparr>offer := (offer b)(REMOTE := feeA)\<rparr>"
  let ?c = "if feeA = fee then Agreed fee else Waiting (?b\<lparr>phase := Quick_Answer, offer := (offer ?b)(LOCAL := fee)\<rparr>)"
  have o: "our_feerange B ?b = Some rb" using B(2) by (simp add: our_feerange_def split: if_splits)
  have "do_quickclose B ?b rb ra = Some (Inr (?c, ob @ (if feeA = fee then [CLOSINGD_COMPLETE] else [])))"
    using ov B(1) reply by (auto simp: do_quickclose_def Let_def complete_def amount_sat_eq_iff done_with_def and_then_def)
  then have "closing_read B b m = Some (Inr (?c, a @ ob @ (if feeA = fee then [CLOSINGD_COMPLETE] else [])))"
    using m B(3) o by (auto simp: closing_read_def ignored_def first_offer_def first_offers_done_def intro!: and_then_run)
  with m(1,4,5) told_append(1) [of B a feeA] show ?thesis
    by (intro exI [of _ ?c] exI [of _ "a @ ob @ (if feeA = fee then [CLOSINGD_COMPLETE] else [])"] exI [of _ m]) auto
qed


lemma quick_opener:
  assumes AB: "mirrored_closing A B" and A: "ce_opener A = LOCAL" "our_feerange A a = Some ra" "phase a = First_Offer"
    and reply: "send_offer B fee (Some rb) = Some (Inr ((), ob))" "dust_alike A B fee"
    and ov: "get_overlap ra rb = Some ov" "amount_in_range fee ov"
    and again: "send_offer A fee (Some ra) = Some (Inr ((), oa))"
  shows "\<exists>outs m. closing_read A a m = Some (Inr (Agreed fee, outs)) \<and> ob = [Offers m] \<and>
    offers outs = (if offer a LOCAL = fee then [] else offers oa) \<and>
    (sat (min_fee_to_accept a) \<le> sat fee \<longrightarrow> told A outs fee)"
proof -
  obtain m o1 where m: "ob = [Offers m]" "receive_offer A (min_fee_to_accept a) m = Some (Inr ((fee, Some rb), o1))" "\<not> ignored m"
      "sat (min_fee_to_accept a) \<le> sat fee \<Longrightarrow> told A o1 fee" "offers o1 = []"
    by (rule honest_offer_accepted [OF mirrored_sym [OF AB] dust_alike_sym [OF AB reply(2)] reply(1), of "min_fee_to_accept a"]) blast
  let ?a = "a\<lparr>offer := (offer a)(REMOTE := fee)\<rparr>"
  let ?outs = "(if offer a LOCAL = fee then [] else oa) @ [CLOSINGD_COMPLETE]"
  have o: "our_feerange A ?a = Some ra" using A(2) by (simp add: our_feerange_def split: if_splits)
  have "do_quickclose A ?a ra rb = Some (Inr (Agreed fee, ?outs))"
    using ov A(1) again by (auto simp: do_quickclose_def Let_def complete_def amount_sat_eq_iff done_with_def and_then_def)
  then have "closing_read A a m = Some (Inr (Agreed fee, o1 @ ?outs))"
    using m A(3) o by (auto simp: closing_read_def ignored_def first_offer_def first_offers_done_def intro!: and_then_run)
  with m(1,4,5) told_append(1) [of A o1 fee] show ?thesis
    by (intro exI [of _ "o1 @ ?outs"] exI [of _ m]) auto
qed

lemma quick_answered:
  assumes AB: "mirrored_closing A B" and sent: "send_offer A fee r = Some (Inr ((), [Offers m]))" "dust_alike A B fee"
    and b: "phase b = Quick_Answer" "offer b LOCAL = fee"
  shows "\<exists>outs. closing_read B b m = Some (Inr (Agreed fee, outs)) \<and> offers outs = [] \<and>
    (sat (min_fee_to_accept b) \<le> sat fee \<longrightarrow> told B outs fee)"
proof -
  obtain o1 where m: "receive_offer B (min_fee_to_accept b) m = Some (Inr ((fee, r), o1))" "\<not> ignored m"
      "sat (min_fee_to_accept b) \<le> sat fee \<Longrightarrow> told B o1 fee" "offers o1 = []"
    by (rule honest_offer_accepted [OF AB sent(2,1), of "min_fee_to_accept b"]) auto
  then have "closing_read B b m = Some (Inr (Agreed fee, o1 @ [CLOSINGD_COMPLETE]))"
    using b by (auto simp: closing_read_def ignored_def quick_answer_def complete_def amount_sat_eq_iff and_then_def done_with_def)
  with m(3,4) told_append(1) [of B o1 fee] show ?thesis by auto
qed

lemma send_offer_runs:
  assumes "close_tx env (ce_out env) fee = done_with tx []"
  shows "\<exists>m. send_offer env fee r = Some (Inr ((), [Offers m]))"
  using assms by (simp add: send_offer_def Let_def done_with_def and_then_def)

lemma calc_fee_bounds_ordered:
  assumes "calc_fee_bounds env = Some (minfee, desired, maxfee)"
  shows "sat minfee \<le> sat desired \<and> sat desired \<le> sat maxfee"
  using assms by (auto simp: calc_fee_bounds_def bind_eq_Some_conv Let_def amount_sat_tests split: if_splits)

lemma start_state:
  assumes "closing_start env = Some (Inr (st, outs))"
  shows "phase st = First_Offer" and "sat (min_fee_to_accept st) \<le> sat (max_fee_to_accept st)"
    and "sat (min_fee_to_accept st) \<le> sat (offer st LOCAL) \<and> sat (offer st LOCAL) \<le> sat (max_fee_to_accept st)"
    and "ce_opener env = LOCAL \<Longrightarrow> send_offer env (offer st LOCAL) (our_feerange env st) = Some (Inr ((), outs))"
proof -
  from assms obtain lo d hi where c: "calc_fee_bounds env = Some (lo, d, hi)" by (auto simp: closing_start_def split: option.splits)
  let ?st = "\<lparr>phase = First_Offer, min_fee_to_accept = lo, max_fee_to_accept = hi,
              offer = (\<lambda>_. d), frange = init_feerange hi (\<lambda>_. d)\<rparr>"
  from assms c have st: "st = ?st" and o: "ce_opener env = LOCAL \<Longrightarrow> send_offer env d (our_feerange env ?st) = Some (Inr ((), outs))"
    by (auto simp: closing_start_def Let_def and_then_result split: if_splits)
  show "phase st = First_Offer" by (simp add: st)
  show "sat (min_fee_to_accept st) \<le> sat (max_fee_to_accept st)" using calc_fee_bounds_ordered [OF c] by (simp add: st)
  show "sat (min_fee_to_accept st) \<le> sat (offer st LOCAL) \<and> sat (offer st LOCAL) \<le> sat (max_fee_to_accept st)"
    using calc_fee_bounds_ordered [OF c] by (simp add: st)
  show "ce_opener env = LOCAL \<Longrightarrow> send_offer env (offer st LOCAL) (our_feerange env st) = Some (Inr ((), outs))" using o by (simp add: st)
qed

text \<open>
  (C22) Two daemons that both know quick closes agree whenever their ranges of fees overlap, and each fee in the
  opener's range can be closed with: it leaves a closing transaction (he can pay it, and not both shares are below the
  dust limit), and no share of lane 0 that lies between the dust limits of the two, which each has by its own rate. With at most
  three offers in all, each end sees the other's messages, both agree on one fee that is in both ranges, and both give
  lightningd a checked signature on a closing transaction with that fee.
\<close>

theorem quick_close_agrees:
  assumes AB: "mirrored_closing A B" and quick: "ce_use_quickclose A" "ce_use_quickclose B"
    and A: "ce_opener A = LOCAL" "closing_start A = Some (Inr (a, oa))"
    and B: "closing_start B = Some (Inr (b, ob))"
    and overlap: "sat (min_fee_to_accept a) \<le> sat (max_fee_to_accept b)" "sat (min_fee_to_accept b) \<le> sat (max_fee_to_accept a)"
    and paid: "\<forall>fee. sat (min_fee_to_accept a) \<le> sat fee \<and> sat fee \<le> sat (max_fee_to_accept a)
      \<longrightarrow> dust_alike A B fee \<and> (\<exists>tx. close_tx A (ce_out A) fee = done_with tx [])"
  shows "\<exists>fee outs_a outs_b.
     closing_run A (Waiting a) (offers outs_b) = Some (Inr (Agreed fee, outs_a)) \<and>
     closing_run B (Waiting b) (offers oa @ offers outs_a) = Some (Inr (Agreed fee, outs_b)) \<and>
     length (offers oa @ offers outs_a @ offers outs_b) \<le> 3 \<and>
     sat (min_fee_to_accept a) \<le> sat fee \<and> sat fee \<le> sat (max_fee_to_accept a) \<and>
     sat (min_fee_to_accept b) \<le> sat fee \<and> sat fee \<le> sat (max_fee_to_accept b) \<and>
     told A outs_a fee \<and> told B outs_b fee"
proof -
  define ra where "ra = \<lparr>min_fee_satoshis = min_fee_to_accept a, max_fee_satoshis = max_fee_to_accept a\<rparr>"
  define rb where "rb = \<lparr>min_fee_satoshis = min_fee_to_accept b, max_fee_satoshis = max_fee_to_accept b\<rparr>"
  note sa = start_state [OF A(2)] and sb = start_state [OF B]
  have ra: "our_feerange A a = Some ra" and rb: "our_feerange B b = Some rb"
    using quick by (simp_all add: our_feerange_def ra_def rb_def)
  have opb: "ce_opener B = REMOTE" using AB A(1) by (simp add: mirrored_closing_def)
  obtain ov where ov: "get_overlap ra rb = Some ov"
    using overlap_exists [of ra rb] overlap sa(2) sb(2) by (auto simp: ra_def rb_def)
  define fee where "fee = clamp_offer (offer b LOCAL) ov"
  have in_ov: "amount_in_range fee ov" unfolding fee_def by (rule clamp_in_range [OF ov])
  then have in_range: "sat (min_fee_to_accept a) \<le> sat fee" "sat fee \<le> sat (max_fee_to_accept a)"
     "sat (min_fee_to_accept b) \<le> sat fee" "sat fee \<le> sat (max_fee_to_accept b)"
    using overlap_range [OF ov, of fee] by (auto simp: amount_in_range_def ra_def rb_def amount_sat_tests)
  obtain m3 where m3: "send_offer A fee (Some ra) = Some (Inr ((), [Offers m3]))"
    using send_offer_runs paid in_range by blast
  obtain m2 where m2: "send_offer B fee (Some rb) = Some (Inr ((), [Offers m2]))"
    using send_offer_runs paid in_range close_tx_mirrored [OF AB] by metis
  have first: "send_offer A (offer a LOCAL) (Some ra) = Some (Inr ((), oa))" "dust_alike A B (offer a LOCAL)" and alike: "dust_alike A B fee"
    using sa(3,4) A(1) ra paid in_range by simp_all
  obtain cB outs1 m1 where accepter: "closing_read B b m1 = Some (Inr (cB, outs1))" "oa = [Offers m1]" "offers outs1 = [m2]"
      "if offer a LOCAL = fee then cB = Agreed fee \<and> told B outs1 fee
       else cB = Waiting (b\<lparr>phase := Quick_Answer, offer := (offer b)(REMOTE := offer a LOCAL, LOCAL := fee)\<rparr>)"
    using quick_accepter [OF AB opb rb sb(1) first _ m2 fee_def] ov overlap_commute [of rb ra] in_range(3)
    by (auto split: if_splits)
  obtain outs_a where opener: "closing_read A a m2 = Some (Inr (Agreed fee, outs_a))"
      "offers outs_a = (if offer a LOCAL = fee then [] else [m3])" "told A outs_a fee"
    using quick_opener [OF AB A(1) ra sa(1) m2 alike ov in_ov m3] in_range(1) by auto
  have run_a: "closing_run A (Waiting a) [m2] = Some (Inr (Agreed fee, outs_a))"
    using opener(1) by (simp add: and_then_def done_with_def)
  show ?thesis
  proof (cases "offer a LOCAL = fee")
    case True
    with accepter have "closing_run B (Waiting b) [m1] = Some (Inr (Agreed fee, outs1))" by (simp add: and_then_def done_with_def)
    with True accepter opener run_a in_range show ?thesis
      by (intro exI [of _ fee] exI [of _ outs_a] exI [of _ outs1]) simp
  next
    case False
    let ?b = "b\<lparr>phase := Quick_Answer, offer := (offer b)(REMOTE := offer a LOCAL, LOCAL := fee)\<rparr>"
    obtain outs2 where answer: "closing_read B ?b m3 = Some (Inr (Agreed fee, outs2))" "offers outs2 = []" "told B outs2 fee"
      using quick_answered [OF AB m3 alike, of ?b] in_range(3) by auto
    from False accepter answer(1) have "closing_run B (Waiting b) [m1, m3] = Some (Inr (Agreed fee, outs1 @ outs2))"
      by (simp add: and_then_def done_with_def)
    with False accepter opener run_a answer in_range told_append(2) [of B outs2 fee outs1] show ?thesis
      by (intro exI [of _ fee] exI [of _ outs_a] exI [of _ "outs1 @ outs2"]) simp
  qed
qed


text \<open>Signatures for a demonstration: the input that is signed.\<close>

definition demo_closer :: closing_env where
  "demo_closer = demo_closing\<lparr>ce_use_quickclose := True, check_input := \<lambda>_ i sig. sig = []\<rparr>"

definition demo_peer :: closing_env where
  "demo_peer = demo_closer\<lparr>ce_opener := REMOTE, ce_out := ce_out demo_closer \<circ> other,
     ce_scriptpubkey := ce_scriptpubkey demo_closer \<circ> other, ce_initial_feerate := 1500, ce_dust_limit := AMOUNT_SAT 330\<rparr>"

theorem quick_close_agrees_witness:
  "\<exists>a oa b ob fee outs_a outs_b. closing_start demo_closer = Some (Inr (a, oa)) \<and> closing_start demo_peer = Some (Inr (b, ob)) \<and>
     closing_run demo_closer (Waiting a) (offers outs_b) = Some (Inr (Agreed fee, outs_a)) \<and>
     closing_run demo_peer (Waiting b) (offers oa @ offers outs_a) = Some (Inr (Agreed fee, outs_b))"
proof -
  have ba: "calc_fee_bounds demo_closer = Some (AMOUNT_SAT 700, AMOUNT_SAT 700, AMOUNT_SAT 1400)"
    by (simp add: demo_closer_def calc_fee_bounds_def demo_closing_def amount_tx_fee_def amount_tx_fee_rounded_down_def
        net_bitcoin_def mul_overflows_u64_iff amount_sat_greater_def amount_sat_less_def Let_def)
  have bb: "calc_fee_bounds demo_peer = Some (AMOUNT_SAT 700, AMOUNT_SAT 1050, AMOUNT_SAT 200000)"
    by (simp add: demo_peer_def demo_closer_def calc_fee_bounds_def demo_closing_def amount_tx_fee_def amount_tx_fee_rounded_down_def
        net_bitcoin_def mul_overflows_u64_iff amount_sat_greater_def amount_sat_less_def Let_def)
  have tx: "\<exists>tx. close_tx demo_closer (ce_out demo_closer) fee = done_with tx []" if "sat fee \<le> 1400" for fee
    using demo_close_tx_offer [OF that] by (simp add: demo_closer_def)
  define a where "a = \<lparr>phase = First_Offer, min_fee_to_accept = AMOUNT_SAT 700, max_fee_to_accept = AMOUNT_SAT 1400,
     offer = (\<lambda>_. AMOUNT_SAT 700), frange = init_feerange (AMOUNT_SAT 1400) (\<lambda>_. AMOUNT_SAT 700)\<rparr>"
  from tx [of "AMOUNT_SAT 700"] obtain m where m: "send_offer demo_closer (AMOUNT_SAT 700) (our_feerange demo_closer a) = Some (Inr ((), [Offers m]))"
    using send_offer_runs [of demo_closer "AMOUNT_SAT 700"] by auto
  have op: "ce_opener demo_closer = LOCAL" by (simp add: demo_closer_def demo_closing_def)
  have a: "closing_start demo_closer = Some (Inr (a, [Offers m]))"
    using m by (simp add: closing_start_def ba op Let_def flip: a_def) (simp add: and_then_def done_with_def)
  have opb: "ce_opener demo_peer = REMOTE" by (simp add: demo_peer_def)
  obtain b where b: "closing_start demo_peer = Some (Inr (b, []))" "min_fee_to_accept b = AMOUNT_SAT 700" "max_fee_to_accept b = AMOUNT_SAT 200000"
    by (simp add: closing_start_def bb Let_def opb)
  have alike: "dust_alike demo_closer demo_peer fee" if "sat fee \<le> 1400" for fee
    using that by (auto simp: dust_alike_def Let_def demo_peer_def demo_closer_def demo_closing_def split: side.splits)
  have mir: "mirrored_closing demo_closer demo_peer"
    by (auto simp: mirrored_closing_def demo_peer_def demo_closer_def demo_closing_def)
  have "\<exists>fee outs_a outs_b.
     closing_run demo_closer (Waiting a) (offers outs_b) = Some (Inr (Agreed fee, outs_a)) \<and>
     closing_run demo_peer (Waiting b) (offers [Offers m] @ offers outs_a) = Some (Inr (Agreed fee, outs_b)) \<and>
     length (offers [Offers m] @ offers outs_a @ offers outs_b) \<le> 3 \<and>
     sat (min_fee_to_accept a) \<le> sat fee \<and> sat fee \<le> sat (max_fee_to_accept a) \<and>
     sat (min_fee_to_accept b) \<le> sat fee \<and> sat fee \<le> sat (max_fee_to_accept b) \<and>
     told demo_closer outs_a fee \<and> told demo_peer outs_b fee"
    by (rule quick_close_agrees [OF mir _ _ op a b(1)])
       (use tx alike b(2,3) in \<open>auto simp: a_def demo_closer_def demo_peer_def\<close>)
  with a b(1) show ?thesis by blast
qed

end
