(* ===== verification/Tlv.thy ===== *)
theory Tlv
  imports Wire Sorts
begin

text \<open>
  Streams of type, length and value: \<^verbatim>\<open>wire/tlvstream.c\<close>. A table of known types has for each a parser of its
  value, which changes the record, and a writer, which returns nothing when the record has no such field;
  both are generated from the message descriptions, so a table is an argument. A parser reads no
  further than the value, whose length it is given. The length of a field is the length of its value.
\<close>

section \<open>Fields\<close>

record 'r tlv_record_type =
  rt_type :: u64
  rt_towire :: "'r \<Rightarrow> bytes option"
  rt_fromwire :: "'r \<Rightarrow> 'r reader"

text \<open>\<open>has_meta\<close>: the field points to an entry of the table.\<close>

record tlv_field =
  has_meta :: bool
  numtype :: u64
  fvalue :: bytes

definition towire_tlv_field :: "tlv_field \<Rightarrow> bytes" where
  "towire_tlv_field f =
     towire_bigsize (numtype f) @ towire_bigsize (of_nat (length (fvalue f))) @ towire (fvalue f) (length (fvalue f))"

definition tlv_field_cmp :: "tlv_field \<Rightarrow> tlv_field \<Rightarrow> int" where
  "tlv_field_cmp a b = (if numtype a > numtype b then 1 else - 1)"

definition towire_tlvstream_raw :: "tlv_field list \<Rightarrow> bytes" where
  "towire_tlvstream_raw fs = concat (map towire_tlv_field (asort tlv_field_cmp fs))"

definition tlvstream_get_raw :: "tlv_field list \<Rightarrow> u64 \<Rightarrow> tlv_field option" where
  "tlvstream_get_raw stream typ = find (\<lambda>f. numtype f = typ) stream"

text \<open>A new field has \<^verbatim>\<open>meta\<close> as it was on the stack: \<open>junk\<close>.\<close>

fun tlvstream_set_raw :: "bool \<Rightarrow> tlv_field list \<Rightarrow> u64 \<Rightarrow> bytes \<Rightarrow> tlv_field list" where
  "tlvstream_set_raw junk [] typ val = [\<lparr>has_meta = junk, numtype = typ, fvalue = val\<rparr>]"
| "tlvstream_set_raw junk (f # fs) typ val =
     (if numtype f = typ then f\<lparr>fvalue := val\<rparr> # fs else f # tlvstream_set_raw junk fs typ val)"

definition tlvstream_set_tu64 :: "bool \<Rightarrow> tlv_field list \<Rightarrow> u64 \<Rightarrow> u64 \<Rightarrow> tlv_field list" where
  "tlvstream_set_tu64 junk stream typ val = tlvstream_set_raw junk stream typ (towire_tu64 val)"

definition tlvstream_set_tu32 :: "bool \<Rightarrow> tlv_field list \<Rightarrow> u64 \<Rightarrow> u32 \<Rightarrow> tlv_field list" where
  "tlvstream_set_tu32 junk stream typ val = tlvstream_set_raw junk stream typ (towire_tu64 (ucast val))"

definition tlvstream_set_short_channel_id :: "bool \<Rightarrow> tlv_field list \<Rightarrow> u64 \<Rightarrow> u64 \<Rightarrow> tlv_field list" where
  "tlvstream_set_short_channel_id junk stream typ scid = tlvstream_set_raw junk stream typ (towire_u64 scid)"

section \<open>Reading\<close>

text \<open>\<^verbatim>\<open>FROMWIRE_TLV_ANY_TYPE\<close>, or a list of further types.\<close>

datatype extra_types = Any_Type | Extra "u64 list"

definition tlv_type_is_allowed :: "u64 \<Rightarrow> extra_types \<Rightarrow> bool" where
  "tlv_type_is_allowed typ extra =
     (if typ mod 2 \<noteq> 0 then True
      else case extra of Any_Type \<Rightarrow> True | Extra ts \<Rightarrow> list_ex (\<lambda>t. t = typ) ts)"

lemma bigsize_shortens:
  assumes "run_state fromwire_bigsize (Some p) = (v, Some q)"
  shows "length q < length p"
proof -
  have "p = towire_bigsize v @ q" using bigsize.accepts_written [OF assms] by simp
  moreover have "towire_bigsize v \<noteq> []" by (simp add: towire_bigsize_def bigsize_put_eq)
  ultimately show ?thesis by simp
qed

text \<open>
  The loop of \<^verbatim>\<open>fromwire_tlv\<close>, with the type before (none in the first round). \<open>Inl\<close> is a failure with the offset and
  the type that are reported.
\<close>

function fromwire_tlv_loop ::
  "'r tlv_record_type list \<Rightarrow> extra_types \<Rightarrow> nat \<Rightarrow> u64 option \<Rightarrow> bytes \<Rightarrow> 'r \<Rightarrow> tlv_field list \<Rightarrow>
   (nat \<times> u64) + ('r \<times> tlv_field list)" where
  "fromwire_tlv_loop types extra initial_len prev p rec fs =
     (if p = [] then Inr (rec, fs)
      else case run_state fromwire_bigsize (Some p) of
        (_, None) \<Rightarrow> Inl (initial_len - length p, 0)
      | (typ, Some p1) \<Rightarrow>
          let meta = find (\<lambda>t. rt_type t = typ) types in
          if (case prev of None \<Rightarrow> False | Some prev_type \<Rightarrow> typ \<le> prev_type) then Inl (initial_len - length p, typ)
          else if meta = None \<and> \<not> tlv_type_is_allowed typ extra then Inl (initial_len - length p, typ)
          else case run_state fromwire_bigsize (Some p1) of
            (_, None) \<Rightarrow> Inl (initial_len - length p1, typ)
          | (len, Some p2) \<Rightarrow>
              if unat len > length p2 then Inl (initial_len - length p1, typ)
              else let val = take (unat len) p2; rest = drop (unat len) p2;
                       field = \<lparr>has_meta = (meta \<noteq> None), numtype = typ, fvalue = val\<rparr>
                   in case meta of
                        None \<Rightarrow> fromwire_tlv_loop types extra initial_len (Some typ) rest rec (fs @ [field])
                      | Some t \<Rightarrow>
                          (case run_state (rt_fromwire t rec) (Some val) of
                             (rec', Some []) \<Rightarrow>
                               fromwire_tlv_loop types extra initial_len (Some typ) rest rec' (fs @ [field])
                           | _ \<Rightarrow> Inl (initial_len - length p2, typ)))"
  by pat_completeness auto

termination
  by (relation "measure (\<lambda>(types, extra, len, prev, p, rec, fs). length p)")
     (auto dest!: bigsize_shortens [OF sym])

definition fromwire_tlv ::
  "'r tlv_record_type list \<Rightarrow> extra_types \<Rightarrow> bytes \<Rightarrow> 'r \<Rightarrow> (nat \<times> u64) + ('r \<times> tlv_field list)" where
  "fromwire_tlv types extra p rec = fromwire_tlv_loop types extra (length p) None p rec []"

text \<open>The offset of a field; the length of the stream if it has none, or is malformed before it.\<close>

function tlv_field_offset_loop :: "nat \<Rightarrow> bytes \<Rightarrow> u64 \<Rightarrow> nat" where
  "tlv_field_offset_loop tlvlen p fieldtype =
     (if p = [] then tlvlen
      else case run_state fromwire_bigsize (Some p) of
        (_, None) \<Rightarrow> tlvlen
      | (typ, Some p1) \<Rightarrow>
          (case run_state fromwire_bigsize (Some p1) of
             (_, None) \<Rightarrow> tlvlen
           | (len, Some p2) \<Rightarrow>
               if typ = fieldtype then tlvlen - length p
               else if unat len > length p2 then tlvlen
               else tlv_field_offset_loop tlvlen (drop (unat len) p2) fieldtype))"
  by pat_completeness auto


termination
  by (relation "measure (\<lambda>(len, p, t). length p)") (auto dest!: bigsize_shortens [OF sym])

definition tlv_field_offset :: "bytes \<Rightarrow> u64 \<Rightarrow> nat" where
  "tlv_field_offset tlvstream fieldtype = tlv_field_offset_loop (length tlvstream) tlvstream fieldtype"

section \<open>Writing\<close>

text \<open>
  \<^verbatim>\<open>tlv_update_fields_\<close>: the fields of a record, with the unknown ones of \<open>us\<close> where their types put
  them. \<open>prev\<close> is the type of the entry before; the table must be increasing.
\<close>

fun tlv_update_loop :: "'r tlv_record_type list \<Rightarrow> u64 option \<Rightarrow> 'r \<Rightarrow> tlv_field list \<Rightarrow> tlv_field list run" where
  "tlv_update_loop [] prev rec us = Some us"
| "tlv_update_loop (t # ts) prev rec us =
     (if (case prev of None \<Rightarrow> False | Some q \<Rightarrow> \<not> rt_type t > q) then None
      else let before = takeWhile (\<lambda>u. numtype u < rt_type t) us;
               known = (case rt_towire t rec of
                          None \<Rightarrow> [] | Some val \<Rightarrow> [\<lparr>has_meta = True, numtype = rt_type t, fvalue = val\<rparr>])
           in map_option (\<lambda>fs. before @ known @ fs)
                (tlv_update_loop ts (Some (rt_type t)) rec (dropWhile (\<lambda>u. numtype u < rt_type t) us)))"

definition unknown_fields :: "tlv_field list \<Rightarrow> tlv_field list" where
  "unknown_fields fs = filter (\<lambda>f. \<not> has_meta f) fs"

definition tlv_update_fields :: "'r tlv_record_type list \<Rightarrow> 'r \<Rightarrow> tlv_field list \<Rightarrow> tlv_field list run" where
  "tlv_update_fields types rec fs = tlv_update_loop types None rec (unknown_fields fs)"

fun towire_tlv_loop :: "'r tlv_record_type list \<Rightarrow> u64 option \<Rightarrow> 'r \<Rightarrow> tlv_field list \<Rightarrow> bytes run" where
  "towire_tlv_loop [] prev rec us = Some (concat (map towire_tlv_field us))"
| "towire_tlv_loop (t # ts) prev rec us =
     (if (case prev of None \<Rightarrow> False | Some q \<Rightarrow> \<not> rt_type t > q) then None
      else let before = concat (map towire_tlv_field (takeWhile (\<lambda>u. numtype u < rt_type t) us));
               known = (case rt_towire t rec of
                          None \<Rightarrow> []
                        | Some val \<Rightarrow> towire_bigsize (rt_type t) @ towire_bigsize (of_nat (length val)) @ towire val (length val))
           in map_option (\<lambda>bs. before @ known @ bs)
                (towire_tlv_loop ts (Some (rt_type t)) rec (dropWhile (\<lambda>u. numtype u < rt_type t) us)))"

definition towire_tlv :: "'r tlv_record_type list \<Rightarrow> 'r \<Rightarrow> tlv_field list \<Rightarrow> bytes run" where
  "towire_tlv types rec fs = towire_tlv_loop types None rec (unknown_fields fs)"
declare fromwire_tlv_loop.simps [simp del] tlv_field_offset_loop.simps [simp del]

section \<open>What is read\<close>

text \<open>The parsers of the table applied to the fields one after the other.\<close>

fun absorb :: "'r tlv_record_type list \<Rightarrow> tlv_field list \<Rightarrow> 'r \<Rightarrow> 'r option" where
  "absorb types [] rec = Some rec"
| "absorb types (f # fs) rec =
     (case find (\<lambda>t. rt_type t = numtype f) types of
        None \<Rightarrow> absorb types fs rec
      | Some t \<Rightarrow> (case run_state (rt_fromwire t rec) (Some (fvalue f)) of
                     (rec', Some []) \<Rightarrow> absorb types fs rec' | _ \<Rightarrow> None))"

text \<open>
  A well-formed stream: the types increase, a field has an entry of the table if and only if there is one for
  its type, every other type is odd or allowed, and lengths fit.
\<close>

definition field_ok :: "'r tlv_record_type list \<Rightarrow> extra_types \<Rightarrow> tlv_field \<Rightarrow> bool" where
  "field_ok types extra f \<longleftrightarrow> (has_meta f \<longleftrightarrow> numtype f \<in> rt_type ` set types) \<and>
     (has_meta f \<or> tlv_type_is_allowed (numtype f) extra) \<and> length (fvalue f) < 2 ^ 64"

fun stream_ok :: "'r tlv_record_type list \<Rightarrow> extra_types \<Rightarrow> u64 option \<Rightarrow> tlv_field list \<Rightarrow> bool" where
  "stream_ok types extra prev [] = True"
| "stream_ok types extra prev (f # fs) \<longleftrightarrow>
     (\<forall>q. prev = Some q \<longrightarrow> q < numtype f) \<and> field_ok types extra f \<and> stream_ok types extra (Some (numtype f)) fs"

lemma stream_ok_increasing:
  "stream_ok types extra prev fs \<longleftrightarrow>
     sorted_wrt (<) (map numtype fs) \<and> (\<forall>f \<in> set fs. field_ok types extra f) \<and> (\<forall>q. prev = Some q \<longrightarrow> (\<forall>f \<in> set fs. q < numtype f))"
  by (induction fs arbitrary: prev) (auto intro: less_trans)

lemma towire_tlv_field_eq: "towire_tlv_field f = towire_bigsize (numtype f) @ towire_bigsize (of_nat (length (fvalue f))) @ fvalue f"
  by (simp add: towire_tlv_field_def towire_def)

lemma find_type_iff: "find (\<lambda>t. rt_type t = typ) types = None \<longleftrightarrow> typ \<notin> rt_type ` set types"
  by (auto simp: find_None_iff)

text \<open>One round of the loop, on a stream that starts with a field.\<close>

lemma loop_reads_field:
  assumes "length (fvalue f) < 2 ^ 64"
  shows "fromwire_tlv_loop types extra n prev (towire_tlv_field f @ rest) rec fs =
    (if \<not> (\<forall>q. prev = Some q \<longrightarrow> q < numtype f)
       then Inl (n - length (towire_tlv_field f @ rest), numtype f)
     else case find (\<lambda>t. rt_type t = numtype f) types of
       None \<Rightarrow> if tlv_type_is_allowed (numtype f) extra
               then fromwire_tlv_loop types extra n (Some (numtype f)) rest rec (fs @ [f\<lparr>has_meta := False\<rparr>])
               else Inl (n - length (towire_tlv_field f @ rest), numtype f)
     | Some t \<Rightarrow> (case run_state (rt_fromwire t rec) (Some (fvalue f)) of
           (rec', Some []) \<Rightarrow> fromwire_tlv_loop types extra n (Some (numtype f)) rest rec' (fs @ [f\<lparr>has_meta := True\<rparr>])
         | _ \<Rightarrow> Inl (n - length (fvalue f @ rest), numtype f)))"
proof -
  let ?p1 = "towire_bigsize (of_nat (length (fvalue f))) @ fvalue f @ rest"
  have p: "towire_tlv_field f @ rest = towire_bigsize (numtype f) @ ?p1" by (simp add: towire_tlv_field_eq)
  have ne: "towire_tlv_field f \<noteq> []"
    by (simp add: towire_tlv_field_eq towire_bigsize_def bigsize_put_eq)
  have r1: "run_state fromwire_bigsize (Some (towire_tlv_field f @ rest)) = (numtype f, Some ?p1)"
    unfolding p by (rule bigsize.reads_back) simp
  have r2: "run_state fromwire_bigsize (Some ?p1) = (of_nat (length (fvalue f)), Some (fvalue f @ rest))"
    by (rule bigsize.reads_back) simp
  have l: "unat (of_nat (length (fvalue f)) :: u64) = length (fvalue f)" using assms by (simp add: unat_of_nat_u64)
  have prev: "(case prev of None \<Rightarrow> False | Some q \<Rightarrow> numtype f \<le> q) \<longleftrightarrow> \<not> (\<forall>q. prev = Some q \<longrightarrow> q < numtype f)"
    by (auto split: option.split simp: not_less)
  have up: "\<lparr>has_meta = b, numtype = numtype f, fvalue = fvalue f\<rparr> = f\<lparr>has_meta := b\<rparr>" for b by simp
  show ?thesis
    by (subst fromwire_tlv_loop.simps)
       (cases "find (\<lambda>t. rt_type t = numtype f) types";
        cases "\<forall>q. prev = Some q \<longrightarrow> q < numtype f"; simp add: ne r1 r2 l prev up Let_def; blast?)
qed

text \<open>Conversely, what the loop accepts starts with a field.\<close>

lemma loop_accepts_field:
  assumes "fromwire_tlv_loop types extra n prev p rec fs = Inr out" and "p \<noteq> []"
  obtains f rest where "p = towire_tlv_field f @ rest" and "length (fvalue f) < 2 ^ 64"
proof -
  obtain ty s where r1: "run_state fromwire_bigsize (Some p) = (ty, s)" by fastforce
  with assms obtain p1 where s: "s = Some p1"
    by (subst (asm) fromwire_tlv_loop.simps) (auto split: option.splits)
  obtain len s2 where r2: "run_state fromwire_bigsize (Some p1) = (len, s2)" by fastforce
  with assms r1 s obtain p2 where s2: "s2 = Some p2" and l: "unat len \<le> length p2"
    by (subst (asm) fromwire_tlv_loop.simps) (auto simp: Let_def split: option.splits if_splits)
  let ?f = "\<lparr>has_meta = False, numtype = ty, fvalue = take (unat len) p2\<rparr>"
  have "p = towire_bigsize ty @ towire_bigsize len @ p2"
    using bigsize.accepts_written [OF r1 [unfolded s]] bigsize.accepts_written [OF r2 [unfolded s2]] by simp
  then have "p = towire_tlv_field ?f @ drop (unat len) p2"
    using l by (simp add: towire_tlv_field_eq min_absorb2)
  moreover have "length (fvalue ?f) < 2 ^ 64" using l unsigned_less [of len] by (simp add: min_absorb2)
  ultimately show thesis using that by blast
qed

lemma towire_tlv_field_meta [simp]: "towire_tlv_field (f\<lparr>has_meta := b\<rparr>) = towire_tlv_field f"
  by (simp add: towire_tlv_field_def)

lemma towire_tlv_field_nonempty [simp]: "towire_tlv_field f \<noteq> []"
  by (simp add: towire_tlv_field_eq towire_bigsize_def bigsize_put_eq)

text \<open>Reading a well-formed stream.\<close>

lemma loop_reads_stream:
  assumes "stream_ok types extra prev gs" and "absorb types gs rec = Some rec'"
  shows "fromwire_tlv_loop types extra n prev (concat (map towire_tlv_field gs)) rec fs = Inr (rec', fs @ gs)"
  using assms
proof (induction gs arbitrary: prev rec fs)
  case Nil
  then show ?case by (simp add: fromwire_tlv_loop.simps)
next
  case (Cons f gs)
  have ok: "field_ok types extra f" using Cons.prems by simp
  then have len: "length (fvalue f) < 2 ^ 64" by (simp add: field_ok_def)
  show ?case
  proof (cases "find (\<lambda>t. rt_type t = numtype f) types")
    case None
    then have "\<not> has_meta f" using ok find_type_iff [of "numtype f" types] by (simp add: field_ok_def)
    then have "f\<lparr>has_meta := False\<rparr> = f" by simp
    moreover have "tlv_type_is_allowed (numtype f) extra" using ok \<open>\<not> has_meta f\<close> by (simp add: field_ok_def)
    ultimately show ?thesis using Cons None by (simp add: loop_reads_field [OF len])
  next
    case (Some t)
    then have "has_meta f" using ok find_type_iff [of "numtype f" types] by (simp add: field_ok_def)
    then have "f\<lparr>has_meta := True\<rparr> = f" by simp
    moreover obtain rec2 where "run_state (rt_fromwire t rec) (Some (fvalue f)) = (rec2, Some [])"
      and "absorb types gs rec2 = Some rec'"
      using Cons.prems(2) Some by (auto split: prod.splits option.splits list.splits)
    ultimately show ?thesis using Cons Some by (simp add: loop_reads_field [OF len])
  qed
qed

text \<open>What the loop accepts is a well-formed stream.\<close>

lemma loop_accepts_stream:
  assumes "fromwire_tlv_loop types extra n prev p rec fs = Inr (rec', out)"
  shows "\<exists>gs. p = concat (map towire_tlv_field gs) \<and> stream_ok types extra prev gs \<and>
    absorb types gs rec = Some rec' \<and> out = fs @ gs"
  using assms
proof (induction "length p" arbitrary: p prev rec fs rule: less_induct)
  case less
  show ?case
  proof (cases "p = []")
    case True
    with less.prems show ?thesis by (intro exI [of _ "[]"]) (simp add: fromwire_tlv_loop.simps)
  next
    case False
    then obtain f rest where p: "p = towire_tlv_field f @ rest" and len: "length (fvalue f) < 2 ^ 64"
      using loop_accepts_field [OF less.prems] by metis
    have shorter: "length rest < length p" by (simp add: p)
    have up: "\<forall>q. prev = Some q \<longrightarrow> q < numtype f"
      using less.prems by (rule contrapos_pp) (simp add: p loop_reads_field [OF len])
    obtain f' rec2 where f': "towire_tlv_field f' = towire_tlv_field f" "numtype f' = numtype f" "field_ok types extra f'"
      and ab: "absorb types (f' # gs) rec = absorb types gs rec2"
      and next_round: "fromwire_tlv_loop types extra n (Some (numtype f)) rest rec2 (fs @ [f']) = Inr (rec', out)" for gs
    proof (cases "find (\<lambda>t. rt_type t = numtype f) types")
      case None
      then have "tlv_type_is_allowed (numtype f) extra" and
        "fromwire_tlv_loop types extra n (Some (numtype f)) rest rec (fs @ [f\<lparr>has_meta := False\<rparr>]) = Inr (rec', out)"
        using less.prems up by (simp_all add: p loop_reads_field [OF len] split: if_splits)
      then show thesis
        using None len find_type_iff [of "numtype f" types]
        by (intro that [of "f\<lparr>has_meta := False\<rparr>" rec]) (simp_all add: field_ok_def)
    next
      case (Some t)
      then obtain rec2 where "run_state (rt_fromwire t rec) (Some (fvalue f)) = (rec2, Some [])" and
        "fromwire_tlv_loop types extra n (Some (numtype f)) rest rec2 (fs @ [f\<lparr>has_meta := True\<rparr>]) = Inr (rec', out)"
        using less.prems up by (auto simp: p loop_reads_field [OF len] split: prod.splits option.splits list.splits)
      then show thesis
        using Some len find_type_iff [of "numtype f" types]
        by (intro that [of "f\<lparr>has_meta := True\<rparr>" rec2]) (simp_all add: field_ok_def)
    qed
    from less.hyps [OF shorter next_round] obtain gs where
      "rest = concat (map towire_tlv_field gs)" "stream_ok types extra (Some (numtype f)) gs"
      "absorb types gs rec2 = Some rec'" "out = (fs @ [f']) @ gs" by blast
    then show ?thesis using p up f' ab by (intro exI [of _ "f' # gs"]) simp
  qed
qed

text \<open>
  (C36) \<^verbatim>\<open>fromwire_tlv\<close> accepts exactly the well-formed streams: the bytes are the fields it
  returns, each with minimal type and length, their types strictly increase, each is one the table has or
  one that is odd or allowed, and every known value is read to its last byte, in the order of the stream.
\<close>

theorem fromwire_tlv_iff:
  "fromwire_tlv types extra p rec = Inr (rec', fs) \<longleftrightarrow>
     p = concat (map towire_tlv_field fs) \<and> stream_ok types extra None fs \<and> absorb types fs rec = Some rec'"
  using loop_accepts_stream [of types extra "length p" None p rec "[]" rec' fs]
    loop_reads_stream [of types extra None fs rec rec' "length p" "[]"]
  by (auto simp: fromwire_tlv_def)
section \<open>What is written\<close>

text \<open>The fields a record has, in the order of the table.\<close>

definition known_fields :: "'r tlv_record_type list \<Rightarrow> 'r \<Rightarrow> tlv_field list" where
  "known_fields types rec = concat (map (\<lambda>t. case rt_towire t rec of
     None \<Rightarrow> [] | Some val \<Rightarrow> [\<lparr>has_meta = True, numtype = rt_type t, fvalue = val\<rparr>]) types)"

lemma known_fields_simps [simp]:
  "known_fields [] rec = []"
  "known_fields (t # ts) rec = (case rt_towire t rec of
     None \<Rightarrow> [] | Some val \<Rightarrow> [\<lparr>has_meta = True, numtype = rt_type t, fvalue = val\<rparr>]) @ known_fields ts rec"
  by (simp_all add: known_fields_def)

lemma known_fields_set:
  "f \<in> set (known_fields types rec) \<longleftrightarrow>
     has_meta f \<and> (\<exists>t \<in> set types. rt_type t = numtype f \<and> rt_towire t rec = Some (fvalue f))"
  by (induction types) (auto split: option.splits)

text \<open>\<^verbatim>\<open>towire_tlv\<close> writes what \<^verbatim>\<open>tlv_update_fields\<close> collects.\<close>

lemma towire_tlv_field_literal:
  "towire_tlv_field \<lparr>has_meta = b, numtype = ty, fvalue = val\<rparr> =
     towire_bigsize ty @ towire_bigsize (of_nat (length val)) @ towire val (length val)"
  by (simp add: towire_tlv_field_def)

lemma towire_tlv_loop_eq:
  "towire_tlv_loop ts prev rec us = map_option (\<lambda>fs. concat (map towire_tlv_field fs)) (tlv_update_loop ts prev rec us)"
  by (induction ts prev rec us rule: tlv_update_loop.induct)
     (auto simp: Let_def towire_tlv_field_literal option.map_comp o_def split: option.split)

lemma towire_tlv_eq:
  "towire_tlv types rec fs = map_option (\<lambda>gs. concat (map towire_tlv_field gs)) (tlv_update_fields types rec fs)"
  by (simp add: towire_tlv_def tlv_update_fields_def towire_tlv_loop_eq)

text \<open>The merge keeps both lists, in the order of the types.\<close>

lemma strictly_after:
  assumes "sorted_wrt (<) (map key us)" and "x \<notin> key ` set us"
  shows "\<forall>u \<in> set (dropWhile (\<lambda>u. key u < x) us). (x :: 'k :: linorder) < key u"
  using assms by (induction us) (auto simp: neq_iff intro: less_trans)

lemma dropWhile_subset: "set (dropWhile P us) \<subseteq> set us"
  by (auto dest: set_dropWhileD)

lemma update_loop_merges:
  assumes "sorted_wrt (<) (map rt_type ts)" and "sorted_wrt (<) (map numtype us)"
    and "\<forall>u \<in> set us. \<not> has_meta u \<and> numtype u \<notin> rt_type ` set ts"
    and "\<forall>q. prev = Some q \<longrightarrow> (\<forall>t \<in> set ts. q < rt_type t) \<and> (\<forall>u \<in> set us. q < numtype u)"
  shows "\<exists>fs. tlv_update_loop ts prev rec us = Some fs \<and> sorted_wrt (<) (map numtype fs) \<and>
    filter has_meta fs = known_fields ts rec \<and> unknown_fields fs = us \<and>
    (\<forall>q. prev = Some q \<longrightarrow> (\<forall>f \<in> set fs. q < numtype f))"
  using assms
proof (induction ts prev rec us rule: tlv_update_loop.induct)
  case (1 prev rec us)
  then show ?case by (auto simp: unknown_fields_def filter_id_conv filter_empty_conv)
next
  case (2 t ts prev rec us)
  let ?before = "takeWhile (\<lambda>u. numtype u < rt_type t) us" and ?after = "dropWhile (\<lambda>u. numtype u < rt_type t) us"
  let ?known = "case rt_towire t rec of None \<Rightarrow> [] | Some val \<Rightarrow> [\<lparr>has_meta = True, numtype = rt_type t, fvalue = val\<rparr>]"
  have guard: "\<not> (case prev of None \<Rightarrow> False | Some q \<Rightarrow> \<not> rt_type t > q)"
    using "2.prems"(4) by (auto split: option.split)
  have us: "us = ?before @ ?after" by simp
  have after: "\<forall>u \<in> set ?after. rt_type t < numtype u"
  proof (rule strictly_after)
    show "rt_type t \<notin> numtype ` set us" using "2.prems"(3) by force
  qed (rule "2.prems"(2))
  have before: "\<forall>u \<in> set ?before. numtype u < rt_type t" by (auto dest: set_takeWhileD)
  have parts: "sorted_wrt (<) (map numtype ?before)" "sorted_wrt (<) (map numtype ?after)"
    using "2.prems"(2) by (subst (asm) us, simp add: sorted_wrt_append del: takeWhile_dropWhile_id)+
  have "\<exists>fs. tlv_update_loop ts (Some (rt_type t)) rec ?after = Some fs \<and> sorted_wrt (<) (map numtype fs) \<and>
      filter has_meta fs = known_fields ts rec \<and> unknown_fields fs = ?after \<and>
      (\<forall>q. Some (rt_type t) = Some q \<longrightarrow> (\<forall>f \<in> set fs. q < numtype f))"
    using "2.prems"(1,3) after parts(2) dropWhile_subset [of "\<lambda>u. numtype u < rt_type t" us]
    by (intro "2.IH" [OF guard refl refl]) auto
  then obtain fs where fs: "tlv_update_loop ts (Some (rt_type t)) rec ?after = Some fs"
    "sorted_wrt (<) (map numtype fs)" "filter has_meta fs = known_fields ts rec" "unknown_fields fs = ?after"
    "\<forall>f \<in> set fs. rt_type t < numtype f" by auto
  have nm: "\<forall>u \<in> set ?before. \<not> has_meta u \<and> u \<in> set us" using "2.prems"(3) by (auto dest: set_takeWhileD)
  have "tlv_update_loop (t # ts) prev rec us = Some (?before @ ?known @ fs)"
    using guard fs(1) by (simp add: Let_def)
  moreover have "sorted_wrt (<) (map numtype (?before @ ?known @ fs))"
    using parts(1) fs(2,5) before
    by (auto simp: sorted_wrt_append split: option.split intro: less_trans)
  moreover have "filter has_meta (?before @ ?known @ fs) = known_fields (t # ts) rec"
    using nm fs(3) by (auto simp: filter_empty_conv split: option.split)
  moreover have "unknown_fields (?before @ ?known @ fs) = us"
    using nm fs(4) by (subst us) (auto simp: unknown_fields_def filter_id_conv split: option.split simp del: takeWhile_dropWhile_id)
  moreover have "\<forall>q. prev = Some q \<longrightarrow> (\<forall>f \<in> set (?before @ ?known @ fs). q < numtype f)"
    using "2.prems"(4) nm fs(5) by (auto split: option.split intro: less_trans)
  ultimately show ?case by blast
qed
section \<open>Round trips\<close>

text \<open>
  What a generated table promises: its types increase, the empty record has no field, a parser that is
  given what the writer of the same entry wrote takes all of it and changes nothing else, and a record
  is no more than its fields.
\<close>

locale tlv_table =
  fixes types :: "'r tlv_record_type list" and blank :: 'r
  assumes increasing: "sorted_wrt (<) (map rt_type types)"
    and blank_empty: "t \<in> set types \<Longrightarrow> rt_towire t blank = None"
    and reads_field: "t \<in> set types \<Longrightarrow> rt_towire t r = Some val \<Longrightarrow>
      \<exists>s'. run_state (rt_fromwire t s) (Some val) = (s', Some []) \<and> rt_towire t s' = Some val \<and>
        (\<forall>u \<in> set types. rt_type u \<noteq> rt_type t \<longrightarrow> rt_towire u s' = rt_towire u s)"
    and determined: "(\<And>t. t \<in> set types \<Longrightarrow> rt_towire t r = rt_towire t s) \<Longrightarrow> r = s"
begin

lemma types_inj: "inj_on rt_type (set types)"
  using strict_sorted_iff [of "map rt_type types"] increasing by (simp add: distinct_map)

lemma find_entry: "t \<in> set types \<Longrightarrow> find (\<lambda>u. rt_type u = rt_type t) types = Some t"
proof -
  assume t: "t \<in> set types"
  then obtain u where u: "find (\<lambda>u. rt_type u = rt_type t) types = Some u"
    using find_type_iff [of "rt_type t" types] by fastforce
  then have "u \<in> set types" and "rt_type u = rt_type t" by (auto simp: find_Some_iff)
  with t types_inj u show ?thesis by (simp add: inj_on_eq_iff)
qed

lemma absorb_known:
  assumes "set ts \<subseteq> set types" and "distinct (map rt_type ts)" and "\<forall>u \<in> set ts. rt_towire u s = None"
  shows "\<exists>s'. absorb types (known_fields ts r) s = Some s' \<and> (\<forall>u \<in> set ts. rt_towire u s' = rt_towire u r) \<and>
    (\<forall>u \<in> set types. rt_type u \<notin> rt_type ` set ts \<longrightarrow> rt_towire u s' = rt_towire u s)"
  using assms
proof (induction ts arbitrary: s)
  case (Cons t ts)
  have t: "t \<in> set types" using Cons.prems by simp
  show ?case
  proof (cases "rt_towire t r")
    case None
    from Cons.IH [of s] Cons.prems obtain s' where
      "absorb types (known_fields ts r) s = Some s'" "\<forall>u \<in> set ts. rt_towire u s' = rt_towire u r"
      "\<forall>u \<in> set types. rt_type u \<notin> rt_type ` set ts \<longrightarrow> rt_towire u s' = rt_towire u s" by auto
    then show ?thesis using None t Cons.prems by (intro exI [of _ s']) auto
  next
    case (Some val)
    from reads_field [OF t Some] obtain s2 where s2: "run_state (rt_fromwire t s) (Some val) = (s2, Some [])"
      "rt_towire t s2 = Some val" "\<forall>u \<in> set types. rt_type u \<noteq> rt_type t \<longrightarrow> rt_towire u s2 = rt_towire u s" by blast
    have "rt_towire u s2 = None" if u: "u \<in> set ts" for u
    proof -
      have "rt_type u \<noteq> rt_type t" using Cons.prems(2) u by (auto simp: image_iff)
      then show ?thesis using s2(3) Cons.prems(1,3) u by auto
    qed
    with Cons.IH [of s2] Cons.prems obtain s' where
      "absorb types (known_fields ts r) s2 = Some s'" "\<forall>u \<in> set ts. rt_towire u s' = rt_towire u r"
      "\<forall>u \<in> set types. rt_type u \<notin> rt_type ` set ts \<longrightarrow> rt_towire u s' = rt_towire u s2" by auto
    then show ?thesis using Some t s2 Cons.prems by (intro exI [of _ s']) (auto simp: find_entry)
  qed
qed auto

lemma absorb_record: "absorb types (known_fields types r) blank = Some r"
proof -
  have "distinct (map rt_type types)" using increasing strict_sorted_iff by blast
  then obtain s' where "absorb types (known_fields types r) blank = Some s'"
    and "\<forall>u \<in> set types. rt_towire u s' = rt_towire u r"
    using absorb_known [of types blank r] blank_empty by auto
  with determined [of s' r] show ?thesis by simp
qed

text \<open>Fields that no entry knows pass the parsers by.\<close>

lemma absorb_unknown:
  assumes "\<forall>f \<in> set fs. \<not> has_meta f \<longrightarrow> numtype f \<notin> rt_type ` set types"
  shows "absorb types fs s = absorb types (filter has_meta fs) s"
  using assms
proof (induction fs arbitrary: s)
  case (Cons f fs)
  then show ?case
    using find_type_iff [of "numtype f" types]
    by (auto split: option.splits prod.splits list.splits)
qed simp

lemma update_fields_merges:
  assumes "sorted_wrt (<) (map numtype (unknown_fields us))"
    and "\<forall>u \<in> set (unknown_fields us). numtype u \<notin> rt_type ` set types"
  obtains fs where "tlv_update_fields types r us = Some fs" and "sorted_wrt (<) (map numtype fs)"
    and "filter has_meta fs = known_fields types r" and "unknown_fields fs = unknown_fields us"
  using update_loop_merges [of types "unknown_fields us" None r] increasing assms
  by (auto simp: tlv_update_fields_def) (auto simp: unknown_fields_def)

lemma writes_and_reads:
  assumes "sorted_wrt (<) (map numtype (unknown_fields us))"
    and "\<forall>u \<in> set (unknown_fields us). numtype u \<notin> rt_type ` set types \<and>
      tlv_type_is_allowed (numtype u) extra \<and> length (fvalue u) < 2 ^ 64"
    and "\<forall>t \<in> set types. \<forall>val. rt_towire t r = Some val \<longrightarrow> length val < 2 ^ 64"
  shows "\<exists>p fs. towire_tlv types r us = Some p \<and> tlv_update_fields types r us = Some fs \<and>
    unknown_fields fs = unknown_fields us \<and> fromwire_tlv types extra p blank = Inr (r, fs)"
proof -
  obtain fs where fs: "tlv_update_fields types r us = Some fs" "sorted_wrt (<) (map numtype fs)"
    "filter has_meta fs = known_fields types r" "unknown_fields fs = unknown_fields us"
    using update_fields_merges [of us r] assms by blast
  have known: "f \<in> set (known_fields types r)" if "f \<in> set fs" "has_meta f" for f
    using that arg_cong [OF fs(3), of set] by auto
  have unknown: "f \<in> set (unknown_fields us)" if "f \<in> set fs" "\<not> has_meta f" for f
    using that arg_cong [OF fs(4), of set] by (auto simp: unknown_fields_def)
  have "field_ok types extra f" if f: "f \<in> set fs" for f
  proof (cases "has_meta f")
    case True
    with known [OF f] assms(3) show ?thesis by (auto simp: known_fields_set field_ok_def intro: rev_image_eqI)
  next
    case False
    with unknown [OF f] assms(2) show ?thesis by (auto simp: field_ok_def)
  qed
  moreover have "\<forall>f \<in> set fs. \<not> has_meta f \<longrightarrow> numtype f \<notin> rt_type ` set types" using unknown assms(2) by blast
  then have "absorb types fs blank = Some r" using absorb_unknown [of fs blank] absorb_record [of r] fs(3) by simp
  ultimately have "fromwire_tlv types extra (concat (map towire_tlv_field fs)) blank = Inr (r, fs)"
    using fs(2) loop_reads_stream [of types extra None fs blank r _ "[]"] by (simp add: fromwire_tlv_def stream_ok_increasing)
  then show ?thesis using fs(1,4) by (simp add: towire_tlv_eq)
qed

end
text \<open>
  A table whose parsers accept nothing but what the writers write: a value that is read is the value that
  the record then has.
\<close>

locale canonical_tlv_table = tlv_table types blank
  for types :: "'r tlv_record_type list" and blank :: 'r +
  assumes accepts_field: "t \<in> set types \<Longrightarrow> run_state (rt_fromwire t s) (Some val) = (s', Some []) \<Longrightarrow>
    rt_towire t s' = Some val \<and> (\<forall>u \<in> set types. rt_type u \<noteq> rt_type t \<longrightarrow> rt_towire u s' = rt_towire u s)"
begin

lemma absorb_values:
  assumes "absorb types fs s = Some s'" and "distinct (map numtype fs)" and "u \<in> set types"
  shows "rt_towire u s' = (case find (\<lambda>f. numtype f = rt_type u) fs of
    None \<Rightarrow> rt_towire u s | Some f \<Rightarrow> Some (fvalue f))"
  using assms(1,2)
proof (induction fs arbitrary: s)
  case (Cons f fs)
  show ?case
  proof (cases "find (\<lambda>t. rt_type t = numtype f) types")
    case None
    then have "numtype f \<noteq> rt_type u" using assms(3) by (auto simp: find_None_iff)
    with Cons None show ?thesis by simp
  next
    case (Some t)
    then have t: "t \<in> set types" "rt_type t = numtype f" by (auto simp: find_Some_iff)
    from Cons.prems(1) Some obtain s2 where
      s2: "run_state (rt_fromwire t s) (Some (fvalue f)) = (s2, Some [])" "absorb types fs s2 = Some s'"
      by (auto split: prod.splits option.splits list.splits)
    note field = accepts_field [OF t(1) s2(1)]
    have IH: "rt_towire u s' = (case find (\<lambda>f. numtype f = rt_type u) fs of
        None \<Rightarrow> rt_towire u s2 | Some f \<Rightarrow> Some (fvalue f))" using Cons.IH [OF s2(2)] Cons.prems(2) by simp
    show ?thesis
    proof (cases "numtype f = rt_type u")
      case True
      then have "t = u" using t assms(3) types_inj by (simp add: inj_on_eq_iff)
      moreover have "find (\<lambda>f. numtype f = rt_type u) fs = None"
        using Cons.prems(2) True by (auto simp: find_None_iff image_iff)
      ultimately show ?thesis using IH field True by simp
    next
      case False
      with t have "rt_towire u s2 = rt_towire u s" using field assms(3) by simp
      with IH False show ?thesis by (simp split: option.split)
    qed
  qed
qed simp

lemma absorbed_known_fields:
  assumes "absorb types fs blank = Some r" and "stream_ok types extra None fs"
  shows "set (known_fields types r) = set (filter has_meta fs)"
proof -
  have d: "distinct (map numtype fs)" and inj: "inj_on numtype (set fs)"
    using assms(2) strict_sorted_iff [of "map numtype fs"] by (simp_all add: stream_ok_increasing distinct_map)
  have val: "rt_towire u r = Some val \<longleftrightarrow> (\<exists>f \<in> set fs. numtype f = rt_type u \<and> fvalue f = val)"
    if "u \<in> set types" for u val
  proof (cases "find (\<lambda>f. numtype f = rt_type u) fs")
    case None
    with absorb_values [OF assms(1) d that] blank_empty [OF that] show ?thesis by (auto simp: find_None_iff)
  next
    case (Some f)
    then have f: "f \<in> set fs" "numtype f = rt_type u" by (auto simp: find_Some_iff)
    have same: "g = f" if "g \<in> set fs" "numtype g = rt_type u" for g
      using f that by (intro inj_onD [OF inj]) simp_all
    have "rt_towire u r = Some (fvalue f)" using absorb_values [OF assms(1) d that] Some by simp
    then show ?thesis using f same by (metis option.inject)
  qed
  have meta: "has_meta f \<longleftrightarrow> numtype f \<in> rt_type ` set types" if "f \<in> set fs" for f
    using assms(2) that by (auto simp: stream_ok_increasing field_ok_def)
  show ?thesis
  proof (intro equalityI subsetI)
    fix f assume "f \<in> set (known_fields types r)"
    then obtain u g where "has_meta f" "u \<in> set types" "rt_type u = numtype f" "g \<in> set fs" "numtype g = numtype f" "fvalue g = fvalue f"
      using val by (auto simp: known_fields_set)
    moreover from this have "has_meta g" using meta by (auto intro: rev_image_eqI)
    ultimately have "g = f" by (cases f, cases g) simp
    with \<open>g \<in> set fs\<close> \<open>has_meta f\<close> show "f \<in> set (filter has_meta fs)" by simp
  next
    fix f assume "f \<in> set (filter has_meta fs)"
    then show "f \<in> set (known_fields types r)" using meta val by (fastforce simp: known_fields_set)
  qed
qed

lemma writes_again:
  assumes "fromwire_tlv types extra p blank = Inr (r, fs)"
  shows "tlv_update_fields types r fs = Some fs \<and> towire_tlv types r fs = Some p"
proof -
  have p: "p = concat (map towire_tlv_field fs)" and ok: "stream_ok types extra None fs" and ab: "absorb types fs blank = Some r"
    using loop_accepts_stream [of types extra "length p" None p blank "[]" r fs] assms by (auto simp: fromwire_tlv_def)
  have sorted: "sorted_wrt (<) (map numtype fs)" using ok by (simp add: stream_ok_increasing)
  have unknown: "sorted_wrt (<) (map numtype (unknown_fields fs))"
    using sorted by (simp add: unknown_fields_def sorted_wrt_map sorted_wrt_filter)
  obtain gs where gs: "tlv_update_fields types r fs = Some gs" "sorted_wrt (<) (map numtype gs)"
    "filter has_meta gs = known_fields types r" "unknown_fields gs = unknown_fields fs"
    using update_fields_merges [OF unknown, of r] ok
    by (auto simp: unknown_fields_def stream_ok_increasing field_ok_def)
  have "set gs = set fs"
  proof (rule set_eqI)
    fix f
    show "f \<in> set gs \<longleftrightarrow> f \<in> set fs"
      using arg_cong [OF gs(3), of set] arg_cong [OF gs(4), of set] absorbed_known_fields [OF ab ok]
      by (cases "has_meta f") (auto simp: unknown_fields_def)
  qed
  moreover have "inj_on numtype (set fs)" using sorted strict_sorted_iff [of "map numtype fs"] by (simp add: distinct_map)
  ultimately have "gs = fs"
    using gs(2) sorted strict_sorted_iff by (intro map_sorted_distinct_set_unique [of numtype]) auto
  with gs(1) p show ?thesis by (simp add: towire_tlv_eq)
qed

end

section \<open>A table\<close>

text \<open>
  The namespace \<^verbatim>\<open>n2\<close> of \<^verbatim>\<open>wire/peer_wire.csv\<close>, which the tests use: \<^verbatim>\<open>tlv1\<close>, of type 0, is a \<^verbatim>\<open>tu64\<close> and \<^verbatim>\<open>tlv2\<close>, of type 11, a
  \<^verbatim>\<open>tu32\<close>.
\<close>

record n2 =
  tlv1 :: "u64 option"
  tlv2 :: "u32 option"

definition tlvs_n2 :: "n2 tlv_record_type list" where
  "tlvs_n2 =
     [\<lparr>rt_type = 0, rt_towire = (\<lambda>r. map_option towire_tu64 (tlv1 r)),
       rt_fromwire = (\<lambda>r. do { v \<leftarrow> fromwire_tu64; State_Monad.return (r\<lparr>tlv1 := Some v\<rparr>) })\<rparr>,
      \<lparr>rt_type = 11, rt_towire = (\<lambda>r. map_option towire_tu32 (tlv2 r)),
       rt_fromwire = (\<lambda>r. do { v \<leftarrow> fromwire_tu32; State_Monad.return (r\<lparr>tlv2 := Some v\<rparr>) })\<rparr>]"

definition n2_blank :: n2 where "n2_blank = \<lparr>tlv1 = None, tlv2 = None\<rparr>"

lemma tu64_whole: "run_state fromwire_tu64 (Some p) = (v, Some []) \<longleftrightarrow> p = towire_tu64 v"
  using tlv_uint_accepts [of 8 p v "[]"] tlv_uint_reads_back [of v 8] unat_u64_lt [of v]
  by (auto simp: fromwire_tu64_def towire_tu64_def)

lemma towire_tlv_uint_short: "length (towire_tlv_uint v) \<le> 8"
  using length_dropWhile_le [of _ "be_bytes 8 (unat v)"] by (simp add: towire_tlv_uint_def)

lemma ucast_down_up: "unat (w :: u64) < 2 ^ 32 \<Longrightarrow> ucast (ucast w :: u32) = w"
  by (rule word_unat_eq_iff [THEN iffD2]) (simp add: unsigned_ucast_eq unsigned_take_bit_eq take_bit_nat_eq_self)

lemma tu32_whole: "run_state fromwire_tu32 (Some p) = (v, Some []) \<longleftrightarrow> p = towire_tu32 v"
proof
  assume "run_state fromwire_tu32 (Some p) = (v, Some [])"
  then obtain w where r: "run_state (fromwire_tlv_uint 4) (Some p) = (w, Some [])" and v: "v = ucast w"
    by (auto simp: fromwire_tu32_def split: prod.splits)
  from tlv_uint_accepts [OF r] show "p = towire_tu32 v" by (simp add: v towire_tu32_def ucast_down_up)
next
  assume "p = towire_tu32 v"
  then show "run_state fromwire_tu32 (Some p) = (v, Some [])"
    using tlv_uint_reads_back [of "ucast v" 4] unat_u32_lt [of v] by (simp add: fromwire_tu32_def towire_tu32_def)
qed

lemma tu64_inj: "towire_tu64 v = towire_tu64 w \<Longrightarrow> v = w"
  using tu64_whole [of "towire_tu64 v" v] tu64_whole [of "towire_tu64 v" w] by simp

lemma tu32_inj: "towire_tu32 v = towire_tu32 w \<Longrightarrow> v = w"
  using tu32_whole [of "towire_tu32 v" v] tu32_whole [of "towire_tu32 v" w] by simp

interpretation n2: canonical_tlv_table tlvs_n2 n2_blank
proof unfold_locales
  show "sorted_wrt (<) (map rt_type tlvs_n2)" by (simp add: tlvs_n2_def)
  show "rt_towire t n2_blank = None" if "t \<in> set tlvs_n2" for t
    using that by (auto simp: tlvs_n2_def n2_blank_def)
  show "\<exists>s'. run_state (rt_fromwire t s) (Some val) = (s', Some []) \<and> rt_towire t s' = Some val \<and>
      (\<forall>u \<in> set tlvs_n2. rt_type u \<noteq> rt_type t \<longrightarrow> rt_towire u s' = rt_towire u s)"
    if "t \<in> set tlvs_n2" "rt_towire t r = Some val" for t r val s
    using that by (auto simp: tlvs_n2_def iffD2 [OF tu64_whole] iffD2 [OF tu32_whole])
  show "r = s" if "\<And>t. t \<in> set tlvs_n2 \<Longrightarrow> rt_towire t r = rt_towire t s" for r s
    using that [of "tlvs_n2 ! 0"] that [of "tlvs_n2 ! 1"]
    by (cases r, cases s) (auto simp: tlvs_n2_def dest!: option.inj_map_strong [rotated] dest: tu64_inj tu32_inj)
  show "rt_towire t s' = Some val \<and> (\<forall>u \<in> set tlvs_n2. rt_type u \<noteq> rt_type t \<longrightarrow> rt_towire u s' = rt_towire u s)"
    if "t \<in> set tlvs_n2" "run_state (rt_fromwire t s) (Some val) = (s', Some [])" for t s val s'
    using that by (auto simp: tlvs_n2_def split: prod.splits dest!: iffD1 [OF tu64_whole] iffD1 [OF tu32_whole])
qed
text \<open>
  (C37) A record that is written is read back, with its unknown fields where they were: under the
  contract of the table, \<^verbatim>\<open>towire_tlv\<close> does not assert, what it writes is a stream that \<^verbatim>\<open>fromwire_tlv\<close> accepts, and the
  result is the record and the fields that \<^verbatim>\<open>tlv_update_fields\<close> collects.
\<close>

theorem tlv_roundtrip:
  assumes "tlv_table types blank"
    and "sorted_wrt (<) (map numtype (unknown_fields us))"
    and "\<forall>u \<in> set (unknown_fields us). numtype u \<notin> rt_type ` set types \<and>
      tlv_type_is_allowed (numtype u) extra \<and> length (fvalue u) < 2 ^ 64"
    and "\<forall>t \<in> set types. \<forall>val. rt_towire t r = Some val \<longrightarrow> length val < 2 ^ 64"
  shows "\<exists>p fs. towire_tlv types r us = Some p \<and> tlv_update_fields types r us = Some fs \<and>
    unknown_fields fs = unknown_fields us \<and> fromwire_tlv types extra p blank = Inr (r, fs)"
  using assms by (rule tlv_table.writes_and_reads)

text \<open>A record of \<^verbatim>\<open>n2\<close> with a field of type 5 that the table has not, between its own two.\<close>

theorem tlv_roundtrip_witness:
  "\<exists>p fs. towire_tlv tlvs_n2 \<lparr>tlv1 = Some 0, tlv2 = Some 256\<rparr> [\<lparr>has_meta = False, numtype = 5, fvalue = [7]\<rparr>] = Some p \<and>
    fromwire_tlv tlvs_n2 (Extra []) p n2_blank = Inr (\<lparr>tlv1 = Some 0, tlv2 = Some 256\<rparr>, fs) \<and> length fs = 3"
proof -
  let ?r = "\<lparr>tlv1 = Some 0, tlv2 = Some 256\<rparr> :: n2" and ?us = "[\<lparr>has_meta = False, numtype = 5, fvalue = [7]\<rparr>]"
  have "\<exists>p fs. towire_tlv tlvs_n2 ?r ?us = Some p \<and> tlv_update_fields tlvs_n2 ?r ?us = Some fs \<and>
      unknown_fields fs = unknown_fields ?us \<and> fromwire_tlv tlvs_n2 (Extra []) p n2_blank = Inr (?r, fs)"
    by (rule tlv_roundtrip [OF n2.tlv_table_axioms])
       (auto simp: tlvs_n2_def unknown_fields_def tlv_type_is_allowed_def towire_tu64_def towire_tu32_def
          intro: le_less_trans [OF towire_tlv_uint_short])
  moreover have "\<exists>fs. tlv_update_fields tlvs_n2 ?r ?us = Some fs \<and> length fs = 3"
    by (simp add: tlv_update_fields_def unknown_fields_def tlvs_n2_def Let_def)
  ultimately show ?thesis by auto
qed

text \<open>
  What was read is written again byte for byte, unknown fields included, when the parsers of the table
  accept only what its writers write; and bringing the list of fields up to date leaves it as it was read.
\<close>

theorem tlv_writes_again:
  assumes "canonical_tlv_table types blank" and "fromwire_tlv types extra p blank = Inr (r, fs)"
  shows "towire_tlv types r fs = Some p \<and> tlv_update_fields types r fs = Some fs"
  using canonical_tlv_table.writes_again [OF assms] by blast

text \<open>The same record, read from its bytes.\<close>

theorem tlv_writes_again_witness:
  "\<exists>r fs. fromwire_tlv tlvs_n2 (Extra []) [0, 1, 9, 5, 1, 7] n2_blank = Inr (r, fs) \<and>
    towire_tlv tlvs_n2 r fs = Some [0, 1, 9, 5, 1, 7]"
proof -
  let ?gs = "[\<lparr>has_meta = True, numtype = 0, fvalue = [9]\<rparr>, \<lparr>has_meta = False, numtype = 5, fvalue = [7]\<rparr>]"
  have bytes: "concat (map towire_tlv_field ?gs) = [0, 1, 9, 5, 1, 7]"
    by (simp add: towire_tlv_field_eq towire_bigsize_def bigsize_put_eq)
  have ok: "stream_ok tlvs_n2 (Extra []) None ?gs"
    by (simp add: field_ok_def tlvs_n2_def tlv_type_is_allowed_def)
  have nine: "towire_tu64 9 = [9]" by (simp add: towire_tu64_def towire_tlv_uint_def be_bytes_def upt_rec)
  have ab: "absorb tlvs_n2 ?gs n2_blank = Some \<lparr>tlv1 = Some 9, tlv2 = None\<rparr>"
    using tu64_whole [of "[9]" 9] nine by (simp add: tlvs_n2_def n2_blank_def)
  have "fromwire_tlv tlvs_n2 (Extra []) [0, 1, 9, 5, 1, 7] n2_blank = Inr (\<lparr>tlv1 = Some 9, tlv2 = None\<rparr>, ?gs)"
    using loop_reads_stream [OF ok ab, of 6 "[]"] unfolding bytes by (simp add: fromwire_tlv_def eval_nat_numeral)
  from this tlv_writes_again [OF n2.canonical_tlv_table_axioms this] show ?thesis by blast
qed

section \<open>Raw streams and offsets\<close>

lemma offset_of_stream:
  assumes "\<forall>f \<in> set fs. length (fvalue f) < 2 ^ 64" and "length (concat (map towire_tlv_field fs)) \<le> n"
  shows "tlv_field_offset_loop n (concat (map towire_tlv_field fs)) ty =
    (if ty \<in> numtype ` set fs
     then n - length (concat (map towire_tlv_field (dropWhile (\<lambda>f. numtype f \<noteq> ty) fs))) else n)"
  using assms
proof (induction fs)
  case Nil
  then show ?case by (simp add: tlv_field_offset_loop.simps)
next
  case (Cons f fs)
  let ?rest = "concat (map towire_tlv_field fs)"
  let ?p1 = "towire_bigsize (of_nat (length (fvalue f))) @ fvalue f @ ?rest"
  have r1: "run_state fromwire_bigsize (Some (towire_tlv_field f @ ?rest)) = (numtype f, Some ?p1)"
    using bigsize.reads_back [of "numtype f" ?p1] by (simp add: towire_tlv_field_eq)
  have r2: "run_state fromwire_bigsize (Some ?p1) = (of_nat (length (fvalue f)), Some (fvalue f @ ?rest))"
    by (rule bigsize.reads_back) simp
  have l: "unat (of_nat (length (fvalue f)) :: u64) = length (fvalue f)" using Cons.prems by (simp add: unat_of_nat_u64)
  show ?case
    using Cons by (subst tlv_field_offset_loop.simps) (auto simp: r1 r2 l)
qed
text \<open>
  On any stream of fields \<^verbatim>\<open>tlv_field_offset\<close> returns where the first field of the type starts, which is the
  length of the fields before it, and the length of the stream when there is none.
\<close>

theorem tlv_field_offset_of:
  assumes "\<forall>f \<in> set fs. length (fvalue f) < 2 ^ 64"
  shows "tlv_field_offset (concat (map towire_tlv_field fs)) ty =
    length (concat (map towire_tlv_field (takeWhile (\<lambda>f. numtype f \<noteq> ty) fs)))"
proof -
  let ?len = "\<lambda>gs. length (concat (map towire_tlv_field gs))"
  have split: "?len fs = ?len (takeWhile (\<lambda>f. numtype f \<noteq> ty) fs) + ?len (dropWhile (\<lambda>f. numtype f \<noteq> ty) fs)"
    by (metis concat_append length_append map_append takeWhile_dropWhile_id)
  have all: "takeWhile (\<lambda>f. numtype f \<noteq> ty) fs = fs" if "ty \<notin> numtype ` set fs"
    using that by (auto simp: takeWhile_eq_all_conv)
  show ?thesis
    using offset_of_stream [OF assms order_refl, of ty] split all by (auto simp: tlv_field_offset_def)
qed

theorem tlv_field_offset_of_witness:
  "tlv_field_offset (concat (map towire_tlv_field
      [\<lparr>has_meta = False, numtype = 1, fvalue = [7, 7]\<rparr>, \<lparr>has_meta = False, numtype = 3, fvalue = []\<rparr>])) 3 = 4"
  using tlv_field_offset_of
    [of "[\<lparr>has_meta = False, numtype = 1, fvalue = [7, 7]\<rparr>, \<lparr>has_meta = False, numtype = 3, fvalue = []\<rparr>]" 3]
  by (simp add: towire_tlv_field_eq towire_bigsize_def bigsize_put_eq)

text \<open>A stream as the map from types to values that it stands for.\<close>

definition stream_map :: "tlv_field list \<Rightarrow> u64 \<rightharpoonup> bytes" where
  "stream_map fs = map_of (map (\<lambda>f. (numtype f, fvalue f)) fs)"

lemma stream_map_set_raw: "stream_map (tlvstream_set_raw junk fs ty val) = (stream_map fs)(ty \<mapsto> val)"
  by (induction junk fs ty val rule: tlvstream_set_raw.induct) (auto simp: stream_map_def fun_eq_iff)

lemma set_raw_types:
  "map numtype (tlvstream_set_raw junk fs ty val) =
     (if ty \<in> numtype ` set fs then map numtype fs else map numtype fs @ [ty])"
  by (induction junk fs ty val rule: tlvstream_set_raw.induct) auto

lemma set_raw_values:
  "f \<in> set (tlvstream_set_raw junk fs ty val) \<Longrightarrow> fvalue f = val \<or> (\<exists>g \<in> set fs. fvalue g = fvalue f)"
  by (induction junk fs ty val rule: tlvstream_set_raw.induct) (auto split: if_splits)

lemma stream_map_mset:
  assumes "mset gs = mset fs" and "distinct (map numtype fs)"
  shows "stream_map gs = stream_map fs"
proof -
  let ?pairs = "map (\<lambda>f. (numtype f, fvalue f))"
  have "mset (map numtype gs) = mset (map numtype fs)" using assms(1) by (simp only: mset_map)
  then have "distinct (map numtype gs)" using assms(2) by (rule mset_eq_imp_distinct_iff [THEN iffD2])
  then have "distinct (map fst (?pairs gs))" and "distinct (map fst (?pairs fs))" using assms(2) by (simp_all add: o_def)
  moreover have "set (?pairs gs) = set (?pairs fs)" using mset_eq_setD [OF assms(1)] by simp
  ultimately show ?thesis unfolding stream_map_def by (simp add: map_of_inject_set)
qed

lemma raw_stream_reads:
  assumes "distinct (map numtype fs)" and "\<forall>f \<in> set fs. length (fvalue f) < 2 ^ 64"
  shows "fromwire_tlv [] Any_Type (towire_tlvstream_raw fs) r =
    Inr (r, map (\<lambda>f. f\<lparr>has_meta := False\<rparr>) (asort tlv_field_cmp fs))"
proof -
  let ?gs = "map (\<lambda>f. f\<lparr>has_meta := False\<rparr>) (asort tlv_field_cmp fs)"
  have keys: "map numtype ?gs = map numtype (asort tlv_field_cmp fs)" by simp
  have "mset (map numtype (asort tlv_field_cmp fs)) = mset (map numtype fs)" by (simp only: mset_map mset_asort)
  then have "distinct (map numtype ?gs)" using assms(1) keys by (metis mset_eq_imp_distinct_iff)
  moreover have "sorted (map numtype ?gs)"
    unfolding keys by (rule asort_sorted) (simp_all add: tlv_field_cmp_def)
  ultimately have "sorted_wrt (<) (map numtype ?gs)" using strict_sorted_iff by blast
  then have "stream_ok ([] :: 'a tlv_record_type list) Any_Type None ?gs"
    using assms(2) by (auto simp: stream_ok_increasing field_ok_def tlv_type_is_allowed_def)
  moreover have "absorb [] gs r = Some r" for gs by (induction gs) simp_all
  moreover have "towire_tlvstream_raw fs = concat (map towire_tlv_field ?gs)"
    by (simp add: towire_tlvstream_raw_def o_def)
  ultimately show ?thesis using loop_reads_stream [of "[]" Any_Type None ?gs r r _ "[]"] by (simp add: fromwire_tlv_def)
qed

text \<open>
  A raw stream is a map from types to values: after \<^verbatim>\<open>tlvstream_set_raw\<close>, what is written is read as a stream
  in which the type has the new value and every other type has the value it had, whatever the order in which the
  fields were set and whatever the new field's \<^verbatim>\<open>meta\<close> holds.
\<close>

theorem tlvstream_set_raw_reads:
  assumes "distinct (map numtype fs)" and "\<forall>f \<in> set fs. length (fvalue f) < 2 ^ 64" and "length val < 2 ^ 64"
  shows "\<exists>gs. fromwire_tlv [] Any_Type (towire_tlvstream_raw (tlvstream_set_raw junk fs ty val)) r = Inr (r, gs) \<and>
    stream_map gs = (stream_map fs)(ty \<mapsto> val)"
proof -
  let ?fs = "tlvstream_set_raw junk fs ty val"
  have d: "distinct (map numtype ?fs)" using assms(1) by (simp add: set_raw_types)
  have l: "\<forall>f \<in> set ?fs. length (fvalue f) < 2 ^ 64" using assms(2,3) set_raw_values by metis
  have "stream_map (map (\<lambda>f. f\<lparr>has_meta := False\<rparr>) (asort tlv_field_cmp ?fs)) = stream_map (asort tlv_field_cmp ?fs)"
    by (simp add: stream_map_def o_def)
  with raw_stream_reads [OF d l, of r] stream_map_mset [OF mset_asort d, of tlv_field_cmp] show ?thesis
    by (simp add: stream_map_set_raw)
qed

theorem tlvstream_set_raw_reads_witness:
  "\<exists>gs. fromwire_tlv [] Any_Type (towire_tlvstream_raw
      (tlvstream_set_raw True [\<lparr>has_meta = False, numtype = 9, fvalue = [1]\<rparr>] 4 [2])) () = Inr ((), gs) \<and>
    stream_map gs 4 = Some [2] \<and> stream_map gs 9 = Some [1]"
proof -
  obtain gs where "fromwire_tlv [] Any_Type (towire_tlvstream_raw
      (tlvstream_set_raw True [\<lparr>has_meta = False, numtype = 9, fvalue = [1]\<rparr>] 4 [2])) () = Inr ((), gs)"
    and "stream_map gs = (stream_map [\<lparr>has_meta = False, numtype = 9, fvalue = [1]\<rparr>])(4 \<mapsto> [2])"
    using tlvstream_set_raw_reads [of "[\<lparr>has_meta = False, numtype = 9, fvalue = [1]\<rparr>]" "[2]" True 4 "()"] by auto
  then show ?thesis by (intro exI [of _ gs]) (simp add: stream_map_def)
qed

end
