(* ===== verification/Elements.thy ===== *)
theory Elements
  imports SymScripts
begin

unbundle bit_operations_syntax

text \<open>
  The machine that the leaves of a symmetric channel are written for. The instructions are those of the
  node that checks a transaction, which is no code of this repository, so their meaning is an argument:
  a \<open>checker\<close> runs one instruction on a stack, and \<open>elements_rules\<close> is what the comments of
  \<^verbatim>\<open>common/sym_scripts.h\<close> say that each instruction does with the transaction at hand. What the code
  owns is modelled: how a leaf is read, push by push and instruction by instruction, which is what
  \<^verbatim>\<open>push_num\<close> and \<^verbatim>\<open>script_push_bytes\<close> write. A machine that obeys the rules for every transaction is
  at the end.
\<close>

section \<open>Running a script\<close>

text \<open>The top of the stack is the head of the list.\<close>

lemma take_exactly_shorter: "take_exactly n bs = Some (d, r) \<Longrightarrow> length r \<le> length bs"
  by (auto simp: take_exactly_def split: if_splits)

lemma read_push_shorter: "read_push bs = Some (d, r) \<Longrightarrow> length r < length bs"
  by (cases bs rule: read_push.cases)
     (auto simp: bind_eq_Some_conv less_Suc_eq_le split: if_splits prod.splits dest!: take_exactly_shorter)

function run_script :: "(u8 \<Rightarrow> bytes list \<Rightarrow> bytes list option) \<Rightarrow> bytes \<Rightarrow> bytes list \<Rightarrow> bytes list option" where
  "run_script exec [] s = Some s"
| "run_script exec (c # bs) s =
     (if c \<le> OP_PUSHDATA4 then
        (case read_push (c # bs) of None \<Rightarrow> None | Some (d, r) \<Rightarrow> run_script exec r (d # s))
      else if OP_1 \<le> c \<and> c \<le> OP_16 then run_script exec bs ([c - 0x50] # s)
      else case exec c s of None \<Rightarrow> None | Some s' \<Rightarrow> run_script exec bs s')"
  by pat_completeness auto

termination
  by (relation "measure (\<lambda>(exec, bs, s). length bs)") (auto dest: read_push_shorter simp del: read_push.simps)

definition truthy :: "bytes \<Rightarrow> bool" where
  "truthy x \<longleftrightarrow> x \<noteq> [] \<and> ((\<exists>b \<in> set (butlast x). b \<noteq> 0) \<or> last x \<noteq> 0 \<and> last x \<noteq> 0x80)"

definition accepts :: "(u8 \<Rightarrow> bytes list \<Rightarrow> bytes list option) \<Rightarrow> bytes \<Rightarrow> bytes list \<Rightarrow> bool" where
  "accepts exec script s \<longleftrightarrow> (\<exists>x. run_script exec script s = Some [x] \<and> truthy x)"

section \<open>The instructions\<close>

text \<open>
  An output or an input as the instructions show it: the asset and the value with a byte that tells
  whether they are explicit, and the program with the number of its version.
\<close>

record shown =
  sh_asset :: bytes
  sh_asset_prefix :: u8
  sh_value :: bytes
  sh_value_prefix :: u8
  sh_program :: bytes
  sh_version :: bytes

text \<open>
  A node that checks one input of a transaction. \<open>ctx\<close> is a hash under way, as it lies on the stack;
  \<open>csv\<close> and \<open>cltv\<close> say whether the input and the transaction wait long enough, \<open>csfs\<close> whether a signature on
  a message is good, \<open>checksig\<close> whether one on the transaction is.
\<close>

record checker =
  exec :: "u8 \<Rightarrow> bytes list \<Rightarrow> bytes list option"
  ctx :: "bytes \<Rightarrow> bytes"
  csfs :: "bytes \<Rightarrow> bytes \<Rightarrow> bytes \<Rightarrow> bool"
  checksig :: "bytes \<Rightarrow> bytes \<Rightarrow> bool"
  tx_locktime :: bytes
  tx_outs :: "shown list"
  tx_ins :: "shown list"
  cur :: nat
  csv :: "nat \<Rightarrow> bool"
  cltv :: "nat \<Rightarrow> bool"

text \<open>A script number for \<open>i\<close>.\<close>

definition stands_for_num :: "bytes \<Rightarrow> nat \<Rightarrow> bool" where
  "stands_for_num d i \<longleftrightarrow> minimal_num d \<and> script_num d = int i"

text \<open>The bytes of a script number, in the encoding that every instruction writes.\<close>

definition num_bytes :: "u32 \<Rightarrow> bytes" where
  "num_bytes num =
     (if num = 0 then [] else if num \<le> 16 then [ucast num]
      else let buf = num_digits num in if last buf AND 0x80 \<noteq> 0 then buf @ [0] else buf)"

definition flag_bytes :: "bool \<Rightarrow> bytes" where "flag_bytes b = (if b then [1] else [])"

definition le64 :: "bytes \<Rightarrow> int" where "le64 b = sint (of_nat (le_val b) :: u64)"

text \<open>An instruction that shows two parts of the output or input with the given index, the second on top.\<close>

definition inspects :: "checker \<Rightarrow> u8 \<Rightarrow> shown list \<Rightarrow> (shown \<Rightarrow> bytes) \<Rightarrow> (shown \<Rightarrow> bytes) \<Rightarrow> bool" where
  "inspects k c xs part over \<longleftrightarrow>
     (\<forall>d i s. stands_for_num d i \<and> i < 2 ^ 31 \<longrightarrow>
        exec k c (d # s) = (if i < length xs then Some (over (xs ! i) # part (xs ! i) # s) else None))
     \<and> (\<forall>s. exec k c ([0x81] # s) = None)"

definition shown_ok :: "shown \<Rightarrow> bool" where
  "shown_ok x \<longleftrightarrow> length (sh_asset x) = 32 \<and> 8 \<le> length (sh_value x) \<and> length (sh_value x) \<le> 32
      \<and> length (sh_program x) \<le> 40 \<and> length (sh_version x) \<le> 1"

definition tx_ok :: "checker \<Rightarrow> bool" where
  "tx_ok k \<longleftrightarrow> cur k < length (tx_ins k) \<and> length (tx_ins k) < 2 ^ 31
     \<and> list_all shown_ok (tx_outs k) \<and> list_all shown_ok (tx_ins k)
     \<and> (\<forall>n. cltv k n \<longrightarrow> n \<le> le_val (tx_locktime k))"

definition stack_rules :: "(u8 \<Rightarrow> bytes list \<Rightarrow> bytes list option) \<Rightarrow> bool" where
  "stack_rules ex \<longleftrightarrow>
     (\<forall>a b s. ex SYM_OP_CAT (b # a # s) = (if length a + length b \<le> 520 then Some ((a @ b) # s) else None))
     \<and> (\<forall>a b s. ex OP_EQUAL (b # a # s) = Some (flag_bytes (a = b) # s))
     \<and> (\<forall>a b s. ex OP_EQUALVERIFY (b # a # s) = (if a = b then Some s else None))
     \<and> (\<forall>a s. ex OP_VERIFY (a # s) = (if truthy a then Some s else None))
     \<and> (\<forall>a s. ex OP_DROP (a # s) = Some s)
     \<and> (\<forall>a b s. ex OP_OVER (b # a # s) = Some (a # b # a # s))
     \<and> (\<forall>a b c s. ex OP_ROT (c # b # a # s) = Some (a # c # b # s))
     \<and> (\<forall>a b s. ex OP_SWAP (b # a # s) = Some (a # b # s))
     \<and> (\<forall>a b s. ex OP_TUCK (b # a # s) = Some (b # a # b # s))
     \<and> (\<forall>a b s. ex SYM_OP_GREATERTHAN64 (b # a # s)
          = (if length a = 8 \<and> length b = 8 then Some (flag_bytes (le64 a > le64 b) # s) else None))
     \<and> (\<forall>a s. length a \<le> 520 \<longrightarrow> ex OP_SIZE (a # s) = Some (num_bytes (of_nat (length a)) # a # s))
     \<and> (\<forall>i s. 0 < i \<and> i < 2 ^ 31 \<longrightarrow> ex SYM_OP_1SUB (num_bytes i # s) = Some (num_bytes (i - 1) # s))
     \<and> (\<forall>s. ex SYM_OP_1SUB ([] # s) = Some ([0x81] # s))
     \<and> (\<forall>s. length s < 1 \<longrightarrow> ex OP_SIZE s = None)
     \<and> (\<forall>s. length s < 2 \<longrightarrow> ex OP_OVER s = None \<and> ex OP_TUCK s = None \<and> ex OP_CHECKSIG s = None \<and> ex OP_CHECKSIGVERIFY s = None)
     \<and> (\<forall>s. length s < 3 \<longrightarrow> ex SYM_OP_CHECKSIGFROMSTACKVERIFY s = None)"

definition hash_rules :: "crypto \<Rightarrow> checker \<Rightarrow> bool" where
  "hash_rules cr k \<longleftrightarrow>
     (\<forall>d s. exec k SYM_OP_SHA256INITIALIZE (d # s) = Some (ctx k d # s))
     \<and> (\<forall>d a s. exec k SYM_OP_SHA256UPDATE (d # ctx k a # s) = Some (ctx k (a @ d) # s))
     \<and> (\<forall>d a s. exec k SYM_OP_SHA256FINALIZE (d # ctx k a # s) = Some (sha256 cr (a @ d) # s))
     \<and> (\<forall>d s. exec k OP_SHA256 (d # s) = Some (sha256 cr d # s))
     \<and> (\<forall>d s. exec k OP_HASH160 (d # s) = Some (ripemd160 cr (sha256 cr d) # s))"

definition tx_rules :: "checker \<Rightarrow> bool" where
  "tx_rules k \<longleftrightarrow>
     (\<forall>s. exec k SYM_OP_PUSHCURRENTINPUTINDEX s = Some (num_bytes (of_nat (cur k)) # s))
     \<and> (\<forall>s. exec k SYM_OP_INSPECTLOCKTIME s = Some (tx_locktime k # s))
     \<and> inspects k SYM_OP_INSPECTOUTPUTASSET (tx_outs k) sh_asset (\<lambda>x. [sh_asset_prefix x])
     \<and> inspects k SYM_OP_INSPECTOUTPUTVALUE (tx_outs k) sh_value (\<lambda>x. [sh_value_prefix x])
     \<and> inspects k SYM_OP_INSPECTOUTPUTSCRIPTPUBKEY (tx_outs k) sh_program sh_version
     \<and> inspects k SYM_OP_INSPECTINPUTASSET (tx_ins k) sh_asset (\<lambda>x. [sh_asset_prefix x])
     \<and> inspects k SYM_OP_INSPECTINPUTVALUE (tx_ins k) sh_value (\<lambda>x. [sh_value_prefix x])
     \<and> inspects k SYM_OP_INSPECTINPUTSCRIPTPUBKEY (tx_ins k) sh_program sh_version
     \<and> (\<forall>d n s. stands_for_num d n \<and> n < 2 ^ 32 \<longrightarrow>
          exec k OP_CHECKSEQUENCEVERIFY (d # s) = (if csv k n then Some (d # s) else None)
          \<and> exec k OP_CHECKLOCKTIMEVERIFY (d # s) = (if cltv k n then Some (d # s) else None))
     \<and> (\<forall>key msg sig s. length key = 32 \<longrightarrow>
          exec k SYM_OP_CHECKSIGFROMSTACKVERIFY (key # msg # sig # s) = (if csfs k key msg sig then Some s else None)
          \<and> exec k OP_CHECKSIGVERIFY (key # sig # s) = (if sig \<noteq> [] \<and> checksig k key sig then Some s else None)
          \<and> exec k OP_CHECKSIG (key # sig # s)
              = (if sig = [] then Some ([] # s) else if checksig k key sig then Some ([1] # s) else None))"

definition elements_rules :: "crypto \<Rightarrow> checker \<Rightarrow> bool" where
  "elements_rules cr k \<longleftrightarrow> tx_ok k \<and> stack_rules (exec k) \<and> hash_rules cr k \<and> tx_rules k"

section \<open>Steps of a script\<close>

lemma run_op [simp]:
  "OP_16 < c \<Longrightarrow> run_script ex (op c @ rest) s = (case ex c s of None \<Rightarrow> None | Some s' \<Rightarrow> run_script ex rest s')"
  by (simp add: op_def word_less_nat_alt word_le_nat_alt)

lemma run_op_last [simp]: "OP_16 < c \<Longrightarrow> run_script ex (op c) s = ex c s"
  using run_op [of c ex "[]" s] by (simp split: option.splits)

lemma run_op_1 [simp]: "run_script ex (op OP_1 @ rest) s = run_script ex rest ([1] # s)"
  by (simp add: op_def word_less_nat_alt word_le_nat_alt)

lemma run_push:
  assumes "length mem < 76"
  shows "run_script ex (push mem @ rest) s = run_script ex rest (mem # s)"
proof -
  have p: "push mem = of_nat (length mem) # mem" using assms by (simp add: push_def push_short)
  have c: "(of_nat (length mem) :: u8) \<le> OP_PUSHDATA4" using assms by (simp add: word_le_nat_alt unat_of_nat_u8)
  have "read_push (push mem @ rest) = Some (mem, rest)" using assms read_push_bytes [of mem rest] by (simp add: push_def)
  then show ?thesis using c by (simp add: p del: read_push.simps)
qed

lemma exists_digits: "0 < v \<Longrightarrow> \<exists>m. 256 ^ m \<le> v \<and> v < 256 ^ Suc m" for v :: nat
proof (induction v rule: less_induct)
  case (less v)
  show ?case
  proof (cases "v < 256")
    case True
    with less.prems show ?thesis by (intro exI [of _ 0]) simp
  next
    case False
    then have "v div 256 < v" "0 < v div 256" by simp_all
    with less.IH obtain m where "256 ^ m \<le> v div 256" "v div 256 < 256 ^ Suc m" by blast
    then show ?thesis
      by (intro exI [of _ "Suc m"]) (simp add: less_eq_div_iff_mult_less_eq div_less_iff_less_mult mult.commute)
  qed
qed

lemma num_bytes_stands: "stands_for_num (num_bytes num) (unat num)" and length_num_bytes: "length (num_bytes num) < 76"
proof -
  let ?v = "unat num"
  have "stands_for_num (num_bytes num) ?v \<and> length (num_bytes num) < 76"
  proof (cases "16 < num")
    case False
    then have u: "?v \<le> 16" by (simp add: word_less_nat_alt)
    have d: "le_bytes (Suc 0) ?v = [ucast num]" by (simp add: le_bytes_def be_bytes_def)
    show ?thesis
      using u False script_num_le_bytes [of ?v 0] minimal_le_bytes [of ?v 0]
      by (auto simp: num_bytes_def stands_for_num_def d not_less script_num_def minimal_num_def unat_gt_0)
  next
    case True
    from True have "0 < ?v" by (simp add: word_less_nat_alt)
    then obtain m where m: "256 ^ m \<le> ?v" "?v < 256 ^ Suc m" using exists_digits by blast
    have buf: "num_bytes num = (let b = num_digits num in if last b AND 0x80 \<noteq> 0 then b @ [0] else b)"
      using True by (auto simp: num_bytes_def)
    obtain n where n: "num_bytes num = le_bytes (Suc n) ?v" "?v < 128 * 256 ^ n"
        "n = 0 \<and> ?v \<noteq> 0 \<or> (\<exists>m. n = Suc m \<and> 128 * 256 ^ m \<le> ?v)" "n \<le> Suc m"
    proof (cases "?v < 128 * 256 ^ m")
      case True
      with m \<open>0 < ?v\<close> padded_digits [OF m] show ?thesis by (intro that [of m]) (cases m; simp add: buf)+
    next
      case False
      with m padded_digits [OF m] show ?thesis by (intro that [of "Suc m"]) (simp_all add: buf)
    qed
    have "m < 4"
    proof (rule ccontr)
      assume "\<not> m < 4"
      then have "(256 :: nat) ^ 4 \<le> 256 ^ m" by (intro power_increasing) simp_all
      with m(1) have "256 ^ 4 \<le> ?v" by simp
      with unat_u32_lt [of num] show False by simp
    qed
    with n show ?thesis
      using script_num_le_bytes [OF n(2)] minimal_le_bytes [OF n(2,3)] by (simp add: stands_for_num_def)
  qed
  then show "stands_for_num (num_bytes num) ?v" and "length (num_bytes num) < 76" by simp_all
qed

lemma num_bytes_inj: "num_bytes x = num_bytes y \<longleftrightarrow> x = y"
  using num_bytes_stands [of x] num_bytes_stands [of y] unfolding stands_for_num_def by (metis of_nat_eq_iff word_unat_eq_iff)

lemma run_push_num: "run_script ex (push_num num @ rest) s = run_script ex rest (num_bytes num # s)"
proof -
  consider (zero) "num = 0" | (small) "num \<noteq> 0" "num \<le> 16" | (large) "16 < num" using not_le by blast
  then show ?thesis
  proof cases
    case zero
    then show ?thesis by (simp add: num_bytes_def push_num_def op_def take_exactly_def)
  next
    case small
    then have u: "0 < unat num" "unat num \<le> 16" by (simp_all add: word_le_nat_alt unat_gt_0)
    then have "unat (0x51 + ucast num - 1 :: u8) = 0x50 + unat num"
      by (simp add: unat_word_ariths unsigned_ucast_eq take_bit_nat_eq_self)
    with small u show ?thesis by (simp add: num_bytes_def push_num_def op_def word_le_nat_alt)
  next
    case large
    then have "push_num num = push (num_bytes num)" by (auto simp: push_num_def num_bytes_def Let_def)
    then show ?thesis using run_push [OF length_num_bytes] by simp
  qed
qed

section \<open>The rules as equations\<close>

lemma stack_simps:
  assumes "stack_rules ex"
  shows "ex SYM_OP_CAT (b # a # s) = (if length a + length b \<le> 520 then Some ((a @ b) # s) else None)"
    and "length a \<le> 520 \<Longrightarrow> ex OP_SIZE (a # s) = Some (num_bytes (of_nat (length a)) # a # s)"
    and "0 < i \<Longrightarrow> i < 2 ^ 31 \<Longrightarrow> ex SYM_OP_1SUB (num_bytes i # s) = Some (num_bytes (i - 1) # s)"
    and "ex SYM_OP_1SUB ([] # s) = Some ([0x81] # s)"
    and "ex OP_EQUAL (b # a # s) = Some (flag_bytes (a = b) # s)"
    and "ex OP_EQUALVERIFY (b # a # s) = (if a = b then Some s else None)"
    and "ex OP_VERIFY (a # s) = (if truthy a then Some s else None)"
    and "ex OP_DROP (a # s) = Some s"
    and "ex OP_OVER (b # a # s) = Some (a # b # a # s)"
    and "ex OP_ROT (c # b # a # s) = Some (a # c # b # s)"
    and "ex OP_SWAP (b # a # s) = Some (a # b # s)"
    and "ex OP_TUCK (b # a # s) = Some (b # a # b # s)"
    and "ex SYM_OP_GREATERTHAN64 (b # a # s)
          = (if length a = 8 \<and> length b = 8 then Some (flag_bytes (le64 a > le64 b) # s) else None)"
    and "length s < 2 \<Longrightarrow> ex OP_OVER s = None" and "length s < 2 \<Longrightarrow> ex OP_TUCK s = None"
    and "length s < 2 \<Longrightarrow> ex OP_CHECKSIG s = None" and "length s < 2 \<Longrightarrow> ex OP_CHECKSIGVERIFY s = None"
    and "ex OP_SIZE [] = None"
    and "length s < 3 \<Longrightarrow> ex SYM_OP_CHECKSIGFROMSTACKVERIFY s = None"
  using assms unfolding stack_rules_def by simp_all

lemma hash_simps:
  assumes "hash_rules cr k"
  shows "exec k SYM_OP_SHA256INITIALIZE (d # s) = Some (ctx k d # s)"
    and "exec k SYM_OP_SHA256UPDATE (d # ctx k a # s) = Some (ctx k (a @ d) # s)"
    and "exec k SYM_OP_SHA256FINALIZE (d # ctx k a # s) = Some (sha256 cr (a @ d) # s)"
    and "exec k OP_SHA256 (d # s) = Some (sha256 cr d # s)"
    and "exec k OP_HASH160 (d # s) = Some (ripemd160 cr (sha256 cr d) # s)"
  using assms unfolding hash_rules_def by simp_all

lemma inspect_simps:
  assumes "tx_rules k" and "stands_for_num d i" and "i < 2 ^ 31"
  shows "exec k SYM_OP_INSPECTOUTPUTASSET (d # s) = (if i < length (tx_outs k)
        then Some ([sh_asset_prefix (tx_outs k ! i)] # sh_asset (tx_outs k ! i) # s) else None)"
    and "exec k SYM_OP_INSPECTOUTPUTVALUE (d # s) = (if i < length (tx_outs k)
        then Some ([sh_value_prefix (tx_outs k ! i)] # sh_value (tx_outs k ! i) # s) else None)"
    and "exec k SYM_OP_INSPECTOUTPUTSCRIPTPUBKEY (d # s) = (if i < length (tx_outs k)
        then Some (sh_version (tx_outs k ! i) # sh_program (tx_outs k ! i) # s) else None)"
    and "exec k SYM_OP_INSPECTINPUTASSET (d # s) = (if i < length (tx_ins k)
        then Some ([sh_asset_prefix (tx_ins k ! i)] # sh_asset (tx_ins k ! i) # s) else None)"
    and "exec k SYM_OP_INSPECTINPUTVALUE (d # s) = (if i < length (tx_ins k)
        then Some ([sh_value_prefix (tx_ins k ! i)] # sh_value (tx_ins k ! i) # s) else None)"
    and "exec k SYM_OP_INSPECTINPUTSCRIPTPUBKEY (d # s) = (if i < length (tx_ins k)
        then Some (sh_version (tx_ins k ! i) # sh_program (tx_ins k ! i) # s) else None)"
  using assms unfolding tx_rules_def inspects_def by simp_all

lemma wait_simps:
  assumes "tx_rules k" and "stands_for_num d n" and "n < 2 ^ 32"
  shows "exec k OP_CHECKSEQUENCEVERIFY (d # s) = (if csv k n then Some (d # s) else None)"
    and "exec k OP_CHECKLOCKTIMEVERIFY (d # s) = (if cltv k n then Some (d # s) else None)"
  using assms unfolding tx_rules_def by simp_all

lemma sig_simps:
  assumes "tx_rules k" and "length key = 32"
  shows "exec k SYM_OP_CHECKSIGFROMSTACKVERIFY (key # msg # sig # s) = (if csfs k key msg sig then Some s else None)"
    and "exec k OP_CHECKSIGVERIFY (key # sig # s) = (if sig \<noteq> [] \<and> checksig k key sig then Some s else None)"
    and "exec k OP_CHECKSIG (key # sig # s)
      = (if sig = [] then Some ([] # s) else if checksig k key sig then Some ([1] # s) else None)"
  using assms unfolding tx_rules_def by simp_all

lemma current_index:
  assumes "tx_rules k" and "tx_ok k"
  obtains d where "stands_for_num d (cur k)" and "\<And>s. exec k SYM_OP_PUSHCURRENTINPUTINDEX s = Some (d # s)"
proof
  have "cur k < 2 ^ 31" using assms(2) by (simp add: tx_ok_def)
  then have "unat (of_nat (cur k) :: u32) = cur k" by (simp add: unat_of_nat take_bit_nat_eq_self)
  then show "stands_for_num (num_bytes (of_nat (cur k))) (cur k)" using num_bytes_stands by metis
  show "exec k SYM_OP_PUSHCURRENTINPUTINDEX s = Some (num_bytes (of_nat (cur k)) # s)" for s
    using assms(1) by (simp add: tx_rules_def)
qed

lemma truthy_flag [simp]: "truthy (flag_bytes b) = b"
  by (simp add: truthy_def flag_bytes_def)

lemma case_if [simp]: "(case (if b then Some x else None) of None \<Rightarrow> None | Some y \<Rightarrow> f y) = (if b then f x else None)"
  by simp

section \<open>A machine that obeys the rules\<close>

text \<open>
  The rules can be obeyed for every transaction: a machine that does, with a hash under way kept as the
  bytes it has taken. It is what the theorems are tried on.
\<close>

fun pop1 :: "(bytes \<Rightarrow> bytes list \<Rightarrow> bytes list option) \<Rightarrow> bytes list \<Rightarrow> bytes list option" where
  "pop1 f (a # s) = f a s" | "pop1 f _ = None"

fun pop2 :: "(bytes \<Rightarrow> bytes \<Rightarrow> bytes list \<Rightarrow> bytes list option) \<Rightarrow> bytes list \<Rightarrow> bytes list option" where
  "pop2 f (b # a # s) = f b a s" | "pop2 f _ = None"

fun pop3 :: "(bytes \<Rightarrow> bytes \<Rightarrow> bytes \<Rightarrow> bytes list \<Rightarrow> bytes list option) \<Rightarrow> bytes list \<Rightarrow> bytes list option" where
  "pop3 f (c # b # a # s) = f c b a s" | "pop3 f _ = None"

definition ref_inspect :: "shown list \<Rightarrow> (shown \<Rightarrow> bytes) \<Rightarrow> (shown \<Rightarrow> bytes) \<Rightarrow> bytes list \<Rightarrow> bytes list option" where
  "ref_inspect xs part over = pop1 (\<lambda>d s.
     let v = script_num d in
     if minimal_num d \<and> 0 \<le> v \<and> nat v < length xs then Some (over (xs ! nat v) # part (xs ! nat v) # s) else None)"

definition ref_wait :: "(nat \<Rightarrow> bool) \<Rightarrow> bytes list \<Rightarrow> bytes list option" where
  "ref_wait p = pop1 (\<lambda>d s. if minimal_num d \<and> 0 \<le> script_num d \<and> p (nat (script_num d)) then Some (d # s) else None)"

definition ref_stack :: "u8 \<Rightarrow> bytes list \<Rightarrow> bytes list option" where
  "ref_stack c s =
     (if c = SYM_OP_CAT then pop2 (\<lambda>b a s. if length a + length b \<le> 520 then Some ((a @ b) # s) else None) s
      else if c = OP_EQUAL then pop2 (\<lambda>b a s. Some (flag_bytes (a = b) # s)) s
      else if c = OP_EQUALVERIFY then pop2 (\<lambda>b a s. if a = b then Some s else None) s
      else if c = OP_VERIFY then pop1 (\<lambda>a s. if truthy a then Some s else None) s
      else if c = OP_DROP then pop1 (\<lambda>a s. Some s) s
      else if c = OP_OVER then pop2 (\<lambda>b a s. Some (a # b # a # s)) s
      else if c = OP_ROT then pop3 (\<lambda>c b a s. Some (a # c # b # s)) s
      else if c = OP_SWAP then pop2 (\<lambda>b a s. Some (a # b # s)) s
      else if c = OP_TUCK then pop2 (\<lambda>b a s. Some (b # a # b # s)) s
      else if c = SYM_OP_GREATERTHAN64 then
        pop2 (\<lambda>b a s. if length a = 8 \<and> length b = 8 then Some (flag_bytes (le64 a > le64 b) # s) else None) s
      else if c = OP_SIZE then pop1 (\<lambda>a s. Some (num_bytes (of_nat (length a)) # a # s)) s
      else if c = SYM_OP_1SUB then
        pop1 (\<lambda>d s. if 0 < script_num d then Some (num_bytes (of_int (script_num d - 1)) # s)
                    else if d = [] then Some ([0x81] # s) else None) s
      else None)"

definition ref_exec :: "crypto \<Rightarrow> checker \<Rightarrow> u8 \<Rightarrow> bytes list \<Rightarrow> bytes list option" where
  "ref_exec cr k c s =
     (if c = SYM_OP_SHA256INITIALIZE then pop1 (\<lambda>d s. Some (d # s)) s
      else if c = SYM_OP_SHA256UPDATE then pop2 (\<lambda>d a s. Some ((a @ d) # s)) s
      else if c = SYM_OP_SHA256FINALIZE then pop2 (\<lambda>d a s. Some (sha256 cr (a @ d) # s)) s
      else if c = OP_SHA256 then pop1 (\<lambda>d s. Some (sha256 cr d # s)) s
      else if c = OP_HASH160 then pop1 (\<lambda>d s. Some (ripemd160 cr (sha256 cr d) # s)) s
      else if c = SYM_OP_PUSHCURRENTINPUTINDEX then Some (num_bytes (of_nat (cur k)) # s)
      else if c = SYM_OP_INSPECTLOCKTIME then Some (tx_locktime k # s)
      else if c = SYM_OP_INSPECTOUTPUTASSET then ref_inspect (tx_outs k) sh_asset (\<lambda>x. [sh_asset_prefix x]) s
      else if c = SYM_OP_INSPECTOUTPUTVALUE then ref_inspect (tx_outs k) sh_value (\<lambda>x. [sh_value_prefix x]) s
      else if c = SYM_OP_INSPECTOUTPUTSCRIPTPUBKEY then ref_inspect (tx_outs k) sh_program sh_version s
      else if c = SYM_OP_INSPECTINPUTASSET then ref_inspect (tx_ins k) sh_asset (\<lambda>x. [sh_asset_prefix x]) s
      else if c = SYM_OP_INSPECTINPUTVALUE then ref_inspect (tx_ins k) sh_value (\<lambda>x. [sh_value_prefix x]) s
      else if c = SYM_OP_INSPECTINPUTSCRIPTPUBKEY then ref_inspect (tx_ins k) sh_program sh_version s
      else if c = OP_CHECKSEQUENCEVERIFY then ref_wait (csv k) s
      else if c = OP_CHECKLOCKTIMEVERIFY then ref_wait (cltv k) s
      else if c = SYM_OP_CHECKSIGFROMSTACKVERIFY then pop3 (\<lambda>key msg sig s. if csfs k key msg sig then Some s else None) s
      else if c = OP_CHECKSIGVERIFY then pop2 (\<lambda>key sig s. if sig \<noteq> [] \<and> checksig k key sig then Some s else None) s
      else if c = OP_CHECKSIG then
        pop2 (\<lambda>key sig s. if sig = [] then Some ([] # s) else if checksig k key sig then Some ([1] # s) else None) s
      else ref_stack c s)"

definition ref_checker :: "crypto \<Rightarrow> checker \<Rightarrow> checker" where
  "ref_checker cr k = k\<lparr>exec := ref_exec cr k, ctx := \<lambda>d. d\<rparr>"

lemma pop_short:
  "length s < 1 \<Longrightarrow> pop1 f s = None" "length s < 2 \<Longrightarrow> pop2 g s = None" "length s < 3 \<Longrightarrow> pop3 h s = None"
proof -
  show "length s < 1 \<Longrightarrow> pop1 f s = None" by simp
  show "length s < 2 \<Longrightarrow> pop2 g s = None" by (cases s; cases "tl s") auto
  show "length s < 3 \<Longrightarrow> pop3 h s = None" by (cases s; cases "tl s"; cases "tl (tl s)") auto
qed

lemma script_num_bytes: "script_num (num_bytes i) = int (unat i)"
  using num_bytes_stands [of i] by (simp add: stands_for_num_def)

lemma ref_stack_rules: "stack_rules (ref_exec cr k)"
proof -
  have sub: "0 < script_num (num_bytes i)" if "0 < i" for i
    using that by (simp add: script_num_bytes word_less_def)
  have again: "word_of_int (script_num (num_bytes i)) = i" for i by (simp add: script_num_bytes)
  have zero: "script_num [] = 0" by (simp add: script_num_def)
  show ?thesis
    unfolding stack_rules_def
    by (intro conjI allI impI) (simp_all add: ref_exec_def ref_stack_def pop_short sub zero again)
qed
lemma ref_inspects:
  assumes "exec k c = ref_inspect xs part over"
  shows "inspects k c xs part over"
proof -
  have "script_num [0x81] = - 1" by (simp add: script_num_def le_val_def be_val_def)
  then show ?thesis unfolding inspects_def assms by (auto simp: ref_inspect_def stands_for_num_def)
qed

lemma ref_elements_rules:
  assumes "tx_ok k"
  shows "elements_rules cr (ref_checker cr k)"
  unfolding elements_rules_def
proof (intro conjI)
  let ?k = "ref_checker cr k"
  have ex: "exec ?k = ref_exec cr k" by (simp add: ref_checker_def)
  show "tx_ok ?k" using assms by (simp add: ref_checker_def tx_ok_def)
  show "stack_rules (exec ?k)" unfolding ex by (rule ref_stack_rules)
  show "hash_rules cr ?k" by (simp add: hash_rules_def ref_checker_def ref_exec_def)
  show "tx_rules ?k"
    unfolding tx_rules_def
    by (intro conjI allI impI ref_inspects)
       (auto simp: fun_eq_iff ref_checker_def ref_exec_def ref_wait_def stands_for_num_def)
qed
text \<open>A transaction that spends the output \<open>inp\<close> of an earlier one and has the outputs \<open>outs\<close>; every signature is good.\<close>

definition demo_spend :: "bytes \<Rightarrow> shown list \<Rightarrow> shown list \<Rightarrow> nat \<Rightarrow> checker" where
  "demo_spend lock ins outs i =
     ref_checker demo_crypto
       \<lparr>exec = \<lambda>c s. None, ctx = \<lambda>d. d, csfs = \<lambda>key msg sig. sig \<noteq> [], checksig = \<lambda>key sig. True, tx_locktime = lock,
        tx_outs = outs, tx_ins = ins, cur = i, csv = \<lambda>n. n \<le> 144, cltv = \<lambda>n. n \<le> le_val lock\<rparr>"

definition demo_shown :: "bytes \<Rightarrow> bytes \<Rightarrow> shown" where
  "demo_shown prog version =
     \<lparr>sh_asset = replicate 32 9, sh_asset_prefix = 1, sh_value = le_bytes 8 1000, sh_value_prefix = 1,
      sh_program = prog, sh_version = version\<rparr>"

lemma demo_spend_simps [simp]:
  "tx_outs (demo_spend lock ins outs i) = outs" "tx_ins (demo_spend lock ins outs i) = ins" "cur (demo_spend lock ins outs i) = i"
  "csfs (demo_spend lock ins outs i) = (\<lambda>key msg sig. sig \<noteq> [])" "checksig (demo_spend lock ins outs i) = (\<lambda>key sig. True)"
  "tx_locktime (demo_spend lock ins outs i) = lock"
  "csv (demo_spend lock ins outs i) = (\<lambda>n. n \<le> 144)" "cltv (demo_spend lock ins outs i) = (\<lambda>n. n \<le> le_val lock)"
  by (simp_all add: demo_spend_def ref_checker_def)

lemma shown_ok_demo: "length prog \<le> 40 \<Longrightarrow> length version \<le> 1 \<Longrightarrow> shown_ok (demo_shown prog version)"
  by (simp add: shown_ok_def demo_shown_def)

lemma demo_spend_rules:
  "i < length ins \<Longrightarrow> length ins < 2 ^ 31 \<Longrightarrow> list_all shown_ok outs \<Longrightarrow> list_all shown_ok ins
     \<Longrightarrow> elements_rules demo_crypto (demo_spend lock ins outs i)"
  unfolding demo_spend_def by (rule ref_elements_rules) (simp add: tx_ok_def)

end
