(* ===== verification/Covenant.thy ===== *)
theory Covenant
  imports Elements
begin

unbundle bit_operations_syntax

text \<open>
  What the leaves of a symmetric channel let a transaction do: for each leaf of \<^verbatim>\<open>common/sym_scripts.c\<close>,
  the transactions and witnesses that a node accepts for it, exactly. The node is any that obeys
  \<open>elements_rules\<close>.
\<close>

section \<open>UPD\<close>

definition upd_waits :: "checker \<Rightarrow> sym_channel \<Rightarrow> bool" where
  "upd_waits k sc \<longleftrightarrow> (sc_has_clock sc \<longrightarrow> cltv k (unat SYM_CLOCK_LOCKTIME_FLOOR))"

lemma run_floor:
  assumes "tx_rules k" and "stack_rules (exec k)"
  shows "run_script (exec k) ((if sc_has_clock sc
      then push_num SYM_CLOCK_LOCKTIME_FLOOR @ op OP_CHECKLOCKTIMEVERIFY @ op OP_DROP else []) @ rest) s
    = (if upd_waits k sc then run_script (exec k) rest s else None)"
proof -
  have "unat SYM_CLOCK_LOCKTIME_FLOOR < 2 ^ 32" by simp
  from wait_simps(2) [OF assms(1) num_bytes_stands this] show ?thesis
    by (simp add: upd_waits_def run_push_num stack_simps [OF assms(2)])
qed

text \<open>What UPD asks of the transaction, of the state's number and hash, and of the two signatures.\<close>

definition upd_accepts :: "crypto \<Rightarrow> checker \<Rightarrow> sym_channel \<Rightarrow> u64 \<Rightarrow> bytes \<Rightarrow> bytes \<Rightarrow> bytes \<Rightarrow> bytes \<Rightarrow> bool" where
  "upd_accepts cr k sc old rest_hash n sig_opener sig_accepter \<longleftrightarrow>
     upd_waits k sc \<and> length n = 8 \<and> le64 n > sint old \<and> cur k < length (tx_outs k)
     \<and> (let out = tx_outs k ! cur k; inp = tx_ins k ! cur k; m = sc_tag sc @ n @ sh_program out @ rest_hash
        in sh_version out = [1] \<and> length m \<le> 520
           \<and> csfs k (pubkey_to_xonly (sc_opener_key sc)) (sha256 cr m) sig_opener
           \<and> csfs k (pubkey_to_xonly (sc_accepter_key sc)) (sha256 cr m) sig_accepter
           \<and> sh_value_prefix out = sh_value_prefix inp \<and> sh_value out = sh_value inp
           \<and> sh_asset_prefix out = sh_asset_prefix inp \<and> sh_asset out = sh_asset inp)"

definition keys_ok :: "sym_channel \<Rightarrow> bool" where
  "keys_ok sc \<longleftrightarrow> length (sc_tag sc) = 32 \<and> length (pubkey_to_xonly (sc_opener_key sc)) = 32
     \<and> length (pubkey_to_xonly (sc_accepter_key sc)) = 32"

lemma le64_le8s: "le64 (le8s v) = sint v"
  using le8s_reads [of v] by (simp add: le64_def le_val_def)
lemma run_upd:
  assumes "elements_rules cr k" and "keys_ok sc"
  shows "run_script (exec k) (sym_leaf_upd sc old) (r # n # so # sa # s)
    = (if upd_waits k sc \<and> length n = 8 \<and> le64 n > sint old \<and> cur k < length (tx_outs k)
          \<and> (let out = tx_outs k ! cur k; inp = tx_ins k ! cur k; m = sc_tag sc @ n @ sh_program out @ r
             in sh_version out = [1] \<and> length m \<le> 520
                \<and> csfs k (pubkey_to_xonly (sc_opener_key sc)) (sha256 cr m) so
                \<and> csfs k (pubkey_to_xonly (sc_accepter_key sc)) (sha256 cr m) sa
                \<and> sh_value_prefix out = sh_value_prefix inp \<and> sh_value out = sh_value inp
                \<and> sh_asset_prefix out = sh_asset_prefix inp)
       then Some (flag_bytes (sh_asset (tx_outs k ! cur k) = sh_asset (tx_ins k ! cur k)) # s) else None)"
proof -
  have r: "tx_ok k" "stack_rules (exec k)" "hash_rules cr k" "tx_rules k" using assms(1) by (simp_all add: elements_rules_def)
  then have c: "cur k < length (tx_ins k)" "cur k < 2 ^ 31" by (simp_all add: tx_ok_def)
  obtain d where d: "stands_for_num d (cur k)" "\<And>s. exec k SYM_OP_PUSHCURRENTINPUTINDEX s = Some (d # s)"
    using current_index [OF r(4,1)] by blast
  have len: "length (le8s old) < 76" "length (sc_tag sc) < 76" "length (pubkey_to_xonly (sc_opener_key sc)) < 76"
    "length (pubkey_to_xonly (sc_accepter_key sc)) < 76" using assms(2) by (simp_all add: keys_ok_def)
  note [simp] = run_push [OF len(1)] run_push [OF len(2)] run_push [OF len(3)] run_push [OF len(4)] 
  show ?thesis
    using assms(2)
    by (auto simp: sym_leaf_upd_def push_xonly_def keys_ok_def run_floor [OF r(4,2)] stack_simps [OF r(2)] hash_simps(4) [OF r(3)]
        inspect_simps [OF r(4) d(1) c(2)] d(2) c(1) sig_simps(1) [OF r(4)] le64_le8s Let_def add.assoc)
qed
lemma run_upd_short:
  assumes "elements_rules cr k" and "keys_ok sc" and "length s < 4"
  shows "run_script (exec k) (sym_leaf_upd sc old) s = None"
proof -
  have r: "tx_ok k" "stack_rules (exec k)" "hash_rules cr k" "tx_rules k" using assms(1) by (simp_all add: elements_rules_def)
  then have c: "cur k < length (tx_ins k)" "cur k < 2 ^ 31" by (simp_all add: tx_ok_def)
  obtain d where d: "stands_for_num d (cur k)" "\<And>s. exec k SYM_OP_PUSHCURRENTINPUTINDEX s = Some (d # s)"
    using current_index [OF r(4,1)] by blast
  have len: "length (le8s old) < 76" "length (sc_tag sc) < 76" "length (pubkey_to_xonly (sc_opener_key sc)) < 76"
    "length (pubkey_to_xonly (sc_accepter_key sc)) < 76" using assms(2) by (simp_all add: keys_ok_def)
  note [simp] = run_push [OF len(1)] run_push [OF len(2)] run_push [OF len(3)] run_push [OF len(4)]
  consider "s = []" | a where "s = [a]" | a b where "s = [a, b]" | a b c where "s = [a, b, c]"
    using assms(3) by (cases s; cases "tl s"; cases "tl (tl s)"; cases "tl (tl (tl s))") auto
  then show ?thesis
    by cases (use assms(2) in \<open>auto simp: sym_leaf_upd_def push_xonly_def keys_ok_def run_floor [OF r(4,2)] stack_simps [OF r(2)]
        hash_simps(4) [OF r(3)] inspect_simps [OF r(4) d(1) c(2)] d(2) c(1) sig_simps(1) [OF r(4)] le64_le8s\<close>)
qed

lemma accepts_upd:
  assumes "elements_rules cr k" and "keys_ok sc"
  shows "accepts (exec k) (sym_leaf_upd sc old) s \<longleftrightarrow>
    (\<exists>r n so sa. s = [r, n, so, sa] \<and> upd_accepts cr k sc old r n so sa)"
proof (cases "length s < 4")
  case True
  with run_upd_short [OF assms True] show ?thesis by (auto simp: accepts_def)
next
  case False
  then obtain r n so sa s' where s: "s = r # n # so # sa # s'"
    by (cases s; cases "tl s"; cases "tl (tl s)"; cases "tl (tl (tl s))") auto
  show ?thesis unfolding accepts_def s run_upd [OF assms] by (auto simp: upd_accepts_def Let_def)
qed

text \<open>
  (C7) A transaction may spend the output of state \<open>old\<close> by its UPD leaf if and only if its witness has
  exactly four elements, any bytes \<open>r\<close>, a number of eight bytes above \<open>old\<close> as signed numbers, and two
  signatures; both sides have signed the bytes that are the tag, the number, the program of the
  output at the input's index and \<open>r\<close>, one behind the other; that output is of version 1, and has the very
  asset and value of the input. With a settle clock its lock time has reached the floor too. Nothing else of
  the transaction matters. In particular the leaf does not see where the program ends and \<open>r\<close> begins: that the
  output is a state's is not enforced, as is shown below.
\<close>

theorem upd_leaf_accepts_iff:
  assumes "elements_rules cr k" and "keys_ok sc"
  shows "accepts (exec k) (sym_leaf_upd sc old) s \<longleftrightarrow>
    (\<exists>r n so sa. s = [r, n, so, sa] \<and> upd_accepts cr k sc old r n so sa)"
  using assms by (rule accepts_upd)
section \<open>Hashing the outputs\<close>

text \<open>What the script hashes of an output.\<close>

definition shown_piece :: "crypto \<Rightarrow> shown \<Rightarrow> bytes" where
  "shown_piece cr x = sh_asset x @ [sh_asset_prefix x] @ sh_value x @ [sh_value_prefix x] @ sha256 cr (sh_program x @ sh_version x)"

definition hashed_outs :: "crypto \<Rightarrow> checker \<Rightarrow> nat \<Rightarrow> nat \<Rightarrow> bytes" where
  "hashed_outs cr k first j = concat (map (shown_piece cr) (take j (drop first (tx_outs k))))"

lemma hashed_outs_0 [simp]: "hashed_outs cr k first 0 = []"
  by (simp add: hashed_outs_def)

lemma hashed_outs_Suc:
  "first + j < length (tx_outs k) \<Longrightarrow> hashed_outs cr k first (Suc j) = hashed_outs cr k first j @ shown_piece cr (tx_outs k ! (first + j))"
  by (simp add: hashed_outs_def take_Suc_conv_app_nth)

lemma run_output_ops:
  assumes "elements_rules cr k" and "first + j < 2 ^ 31" and "j < m"
  shows "run_script (exec k) (settle_output_ops m first j @ rest)
      (if j = 0 then s else ctx k (hashed_outs cr k first j) # s)
    = (if first + j < length (tx_outs k)
       then run_script (exec k) rest ((if m = Suc j then sha256 cr (hashed_outs cr k first (Suc j))
              else ctx k (hashed_outs cr k first (Suc j))) # s)
       else None)"
proof -
  have r: "tx_ok k" "stack_rules (exec k)" "hash_rules cr k" "tx_rules k" using assms(1) by (simp_all add: elements_rules_def)
  define i where "i = first + j"
  define w where "w = (of_nat i :: u32)"
  have small: "i < 2 ^ 31" using assms(2) by (simp add: i_def)
  then have u: "unat w = i" by (simp add: w_def unat_of_nat take_bit_nat_eq_self)
  have d: "stands_for_num (num_bytes w) i" using num_bytes_stands [of w] by (simp add: u)
  note rules = run_push_num stack_simps(1) [OF r(2)] hash_simps [OF r(3)] inspect_simps(1-3) [OF r(4) d small]
  have last: "(j = m - 1) = (m = Suc j)" using assms(3) by auto
  show ?thesis
  proof (cases "i < length (tx_outs k)")
    case True
    have "shown_ok (tx_outs k ! i)" using r(1) True by (simp add: tx_ok_def list_all_length)
    then have "length (sh_asset (tx_outs k ! i)) + 1 \<le> 520" "length (sh_value (tx_outs k ! i)) + 1 \<le> 520"
      "length (sh_program (tx_outs k ! i)) + length (sh_version (tx_outs k ! i)) \<le> 520"
      by (auto simp: shown_ok_def)
    moreover have nx: "hashed_outs cr k first (Suc j) = hashed_outs cr k first j @ shown_piece cr (tx_outs k ! i)"
      using True hashed_outs_Suc [of first j k cr] by (simp add: i_def)
    ultimately show ?thesis
      using True unfolding settle_output_ops_def Let_def last i_def [symmetric] w_def [symmetric] nx
      by (cases "j = 0") (simp_all add: rules shown_piece_def)
  next
    case False
    then show ?thesis
      unfolding settle_output_ops_def Let_def i_def [symmetric] w_def [symmetric] by (simp add: rules)
  qed
qed

lemma run_outputs:
  assumes "elements_rules cr k" and "first + m < 2 ^ 31" and "j < m"
  shows "run_script (exec k) (concat (map (settle_output_ops m first) [j ..< m]) @ rest)
      (if j = 0 then s else ctx k (hashed_outs cr k first j) # s)
    = (if first + m \<le> length (tx_outs k) then run_script (exec k) rest (sha256 cr (hashed_outs cr k first m) # s) else None)"
  using assms(3)
proof (induction "m - j" arbitrary: j)
  case 0
  then show ?case by simp
next
  case (Suc l)
  from Suc.prems have up: "[j ..< m] = j # [Suc j ..< m]" by (rule upt_conv_Cons)
  have fit: "first + j < 2 ^ 31" using Suc.prems assms(2) by simp
  show ?case
  proof (cases "Suc j = m")
    case True
    then show ?thesis unfolding up using run_output_ops [OF assms(1) fit Suc.prems] by (auto simp: Suc_le_eq)
  next
    case False
    with Suc.prems have "Suc j < m" "l = m - Suc j" using Suc.hyps(2) by simp_all
    from Suc.hyps(1) [OF this(2,1)] have ih: "run_script (exec k) (concat (map (settle_output_ops m first) [Suc j ..< m]) @ rest)
        (ctx k (hashed_outs cr k first (Suc j)) # s)
      = (if first + m \<le> length (tx_outs k) then run_script (exec k) rest (sha256 cr (hashed_outs cr k first m) # s) else None)"
      by simp
    then show ?thesis unfolding up using run_output_ops [OF assms(1) fit Suc.prems] False \<open>Suc j < m\<close> by simp
  qed
qed

lemma run_digest:
  assumes "elements_rules cr k" and "first + m < 2 ^ 31" and "0 < m" and "length digest = 32"
  shows "run_script (exec k) (concat (map (settle_output_ops m first) [0 ..< m]) @ push digest @ op OP_EQUAL) s
    = (if first + m \<le> length (tx_outs k) then Some (flag_bytes (sha256 cr (hashed_outs cr k first m) = digest) # s) else None)"
proof -
  have r: "stack_rules (exec k)" using assms(1) by (simp add: elements_rules_def)
  have "length digest < 76" using assms(4) by simp
  from run_outputs [OF assms(1-3), of _ s] run_push [OF this] show ?thesis by (simp add: stack_simps [OF r])
qed
section \<open>SETTLE\<close>

definition settle_first :: "sym_channel \<Rightarrow> nat" where
  "settle_first sc = (if sc_has_clock sc then 1 else 0)"

text \<open>
  The start of the leaf: with a settle clock the output of the state is kept as it is, at the index of
  its input; without one the state has waited for the channel's delay.
\<close>

definition settle_ready :: "checker \<Rightarrow> sym_channel \<Rightarrow> bool" where
  "settle_ready k sc \<longleftrightarrow>
     (if sc_has_clock sc
      then cur k < length (tx_outs k) \<and> tx_outs k ! cur k = tx_ins k ! cur k
      else csv k (unat (sc_delay sc)))"

lemma run_kept:
  assumes "elements_rules cr k"
  shows "run_script (exec k) (concat (map (\<lambda>(a, b). op SYM_OP_PUSHCURRENTINPUTINDEX @ op a
          @ op SYM_OP_PUSHCURRENTINPUTINDEX @ op b @ op OP_ROT @ op OP_EQUALVERIFY @ op OP_EQUALVERIFY)
        [(SYM_OP_INSPECTOUTPUTSCRIPTPUBKEY, SYM_OP_INSPECTINPUTSCRIPTPUBKEY),
         (SYM_OP_INSPECTOUTPUTASSET, SYM_OP_INSPECTINPUTASSET),
         (SYM_OP_INSPECTOUTPUTVALUE, SYM_OP_INSPECTINPUTVALUE)]) @ rest) s
    = (if cur k < length (tx_outs k) \<and> tx_outs k ! cur k = tx_ins k ! cur k then run_script (exec k) rest s else None)"
proof -
  have r: "tx_ok k" "stack_rules (exec k)" "hash_rules cr k" "tx_rules k" using assms(1) by (simp_all add: elements_rules_def)
  then have c: "cur k < length (tx_ins k)" "cur k < 2 ^ 31" by (simp_all add: tx_ok_def)
  obtain d where d: "stands_for_num d (cur k)" "\<And>s. exec k SYM_OP_PUSHCURRENTINPUTINDEX s = Some (d # s)"
    using current_index [OF r(4,1)] by blast
  have eq: "x = y \<longleftrightarrow> sh_version x = sh_version y \<and> sh_program x = sh_program y \<and> sh_asset_prefix x = sh_asset_prefix y
     \<and> sh_asset x = sh_asset y \<and> sh_value_prefix x = sh_value_prefix y \<and> sh_value x = sh_value y" for x y :: shown
    by auto
  show ?thesis unfolding eq
    by (auto simp: stack_simps [OF r(2)] inspect_simps [OF r(4) d(1) c(2)] d(2) c(1))
qed

lemma run_settle:
  assumes "crypto_ok cr" and "elements_rules cr k" and "length outs < 2 ^ 30"
    and "sym_leaf_settle cr sc outs = Some leaf" and "sym_settle_digest cr sc outs = Some digest"
  shows "run_script (exec k) leaf s
    = (if settle_ready k sc \<and> settle_first sc + length outs \<le> length (tx_outs k)
       then Some (flag_bytes (sha256 cr (hashed_outs cr k (settle_first sc) (length outs)) = digest) # s) else None)"
proof -
  have r: "stack_rules (exec k)" "tx_rules k" using assms(2) by (simp_all add: elements_rules_def)
  have m: "0 < length outs" using assms(4) by (auto simp: sym_leaf_settle_def split: if_splits)
  have len: "length digest = 32" using assms(1,5) by (auto simp: sym_settle_digest_def bind_eq_Some_conv crypto_ok_def)
  have small: "settle_first sc + length outs < 2 ^ 31" using assms(3) by (simp add: settle_first_def)
  note run = run_digest [OF assms(2) small m len]
  show ?thesis
  proof (cases "sc_has_clock sc")
    case True
    with m assms(4,5) run run_kept [OF assms(2)] show ?thesis
      by (auto simp: sym_leaf_settle_def Let_def settle_ready_def settle_first_def)
  next
    case False
    have lt: "unat (sc_delay sc) < 2 ^ 16" using unsigned_less [of "sc_delay sc", where ?'a = nat] by simp
    then have u: "unat (ucast (sc_delay sc) :: u32) = unat (sc_delay sc)"
      by (simp add: unsigned_ucast_eq take_bit_nat_eq_self)
    have d: "stands_for_num (num_bytes (ucast (sc_delay sc))) (unat (sc_delay sc))"
      using num_bytes_stands [of "ucast (sc_delay sc)"] by (simp add: u)
    with lt False m assms(4,5) run show ?thesis
      by (auto simp: sym_leaf_settle_def Let_def settle_ready_def settle_first_def run_push_num wait_simps(1) [OF r(2) d] stack_simps [OF r(1)])
  qed
qed
text \<open>What an output of the transaction has to be for an output of the settlement.\<close>

definition pays :: "crypto \<Rightarrow> sym_channel \<Rightarrow> sym_output \<Rightarrow> shown \<Rightarrow> bool" where
  "pays cr sc out x \<longleftrightarrow>
     sh_asset x = drop 1 (settle_asset sc out) \<and> sh_asset_prefix x = 1
     \<and> sh_value x = le_bytes 8 (sat (out_amount out)) \<and> sh_value_prefix x = 1
     \<and> (case witness_program (out_spk out) of None \<Rightarrow> False
        | Some (version, prog) \<Rightarrow>
            sha256 cr (sh_program x @ sh_version x) = sha256 cr (prog @ (if version \<noteq> 0 then [version] else [])))"

lemma all_least_length:
  assumes "\<forall>p \<in> set ps. n \<le> length p" and "length (concat ps) = length ps * n"
  shows "\<forall>p \<in> set ps. length p = n"
  using assms
proof (induction ps)
  case (Cons p ps)
  have "length ps * n \<le> length (concat ps)"
    using Cons.prems(1) by (induction ps) (auto simp: add_mono)
  with Cons.prems have "length p = n" "length (concat ps) = length ps * n" by auto
  with Cons show ?case by simp
qed simp

lemma pays_piece:
  assumes "crypto_ok cr" and "length (settle_asset sc out) = 33" and "settle_piece cr sc out = Some p" and "length (sh_asset x) = 32"
  shows "pays cr sc out x \<longleftrightarrow> length (sh_value x) = 8 \<and> shown_piece cr x = p"
proof -
  obtain version prog where w: "witness_program (out_spk out) = Some (version, prog)"
    and p: "p = drop 1 (settle_asset sc out) @ [0x01] @ le_bytes 8 (sat (out_amount out)) @ [0x01]
              @ sha256 cr (prog @ (if version \<noteq> 0 then [version] else []))"
    using assms(3) unfolding settle_piece_Some by blast
  show ?thesis
    using assms(2,4) unfolding pays_def w p shown_piece_def by auto
qed

lemma list_all2_pays:
  assumes "crypto_ok cr" and "\<forall>out \<in> set outs. length (settle_asset sc out) = 33"
    and "map_run (settle_piece cr sc) outs = Some ps" and "list_all shown_ok xs" and "length xs = length outs"
  shows "list_all2 (pays cr sc) outs xs \<longleftrightarrow> concat (map (shown_piece cr) xs) = concat ps"
proof -
  have rel: "list_all2 (\<lambda>out p. settle_piece cr sc out = Some p) outs ps" using assms(3) by (simp add: map_run_Some)
  then have len: "length ps = length outs" by (simp add: list_all2_lengthD)
  have sha: "length (sha256 cr x) = 32" for x using assms(1) by (simp add: crypto_ok_def)
  have piece: "settle_piece cr sc (outs ! i) = Some (ps ! i)" "length (settle_asset sc (outs ! i)) = 33" "shown_ok (xs ! i)"
    if "i < length outs" for i
    using that rel assms(2,4,5) by (auto simp: list_all2_conv_all_nth list_all_length)
  have pays: "pays cr sc (outs ! i) (xs ! i) \<longleftrightarrow> length (sh_value (xs ! i)) = 8 \<and> shown_piece cr (xs ! i) = ps ! i"
    if "i < length outs" for i
    using pays_piece [OF assms(1)] piece [OF that] by (simp add: shown_ok_def)
  have p74: "\<forall>p \<in> set ps. length p = 74"
    using piece(1,2) len sha by (fastforce simp: in_set_conv_nth settle_piece_Some)
  show ?thesis
  proof
    assume "list_all2 (pays cr sc) outs xs"
    then have "map (shown_piece cr) xs = ps" using pays len by (auto simp: list_all2_conv_all_nth intro!: nth_equalityI)
    then show "concat (map (shown_piece cr) xs) = concat ps" by simp
  next
    assume eq: "concat (map (shown_piece cr) xs) = concat ps"
    have x74: "\<forall>p \<in> set (map (shown_piece cr) xs). 74 \<le> length p"
      using assms(4) sha by (auto simp: shown_piece_def shown_ok_def list_all_iff)
    have "length (concat ps) = length ps * 74"
      using p74 by (induction ps) simp_all
    with eq have "length (concat (map (shown_piece cr) xs)) = length (map (shown_piece cr) xs) * 74" by (simp add: len assms(5))
    from all_least_length [OF x74 this] have x: "\<forall>p \<in> set (map (shown_piece cr) xs). length p = 74" .
    have same: "map (shown_piece cr) xs = ps" by (rule concat_same_length [OF x p74 eq]) simp
    have "pays cr sc (outs ! i) (xs ! i)" if "i < length outs" for i
    proof -
      have "length (shown_piece cr (xs ! i)) = 74" using x that assms(5) by simp
      then have "length (sh_value (xs ! i)) = 8" using piece(3) [OF that] sha by (simp add: shown_piece_def shown_ok_def)
      moreover have "shown_piece cr (xs ! i) = ps ! i" using same that assms(5) by (metis nth_map)
      ultimately show ?thesis using pays [OF that] by simp
    qed
    then show "list_all2 (pays cr sc) outs xs" using assms(5) by (simp add: list_all2_conv_all_nth)
  qed
qed
lemma accepts_settle:
  assumes "crypto_ok cr" and "elements_rules cr k" and "length outs < 2 ^ 30"
    and "sym_leaf_settle cr sc outs = Some leaf" and "map_run (settle_piece cr sc) outs = Some ps"
  shows "accepts (exec k) leaf s \<longleftrightarrow>
    s = [] \<and> settle_ready k sc \<and> settle_first sc + length outs \<le> length (tx_outs k)
    \<and> sha256 cr (hashed_outs cr k (settle_first sc) (length outs)) = sha256 cr (concat ps)"
proof -
  have "sym_settle_digest cr sc outs = Some (sha256 cr (concat ps))" using assms(5) by (simp add: sym_settle_digest_def)
  from run_settle [OF assms(1-4) this, of s] show ?thesis by (auto simp: accepts_def)
qed

text \<open>
  (C8) A transaction may spend a state by its SETTLE leaf if and only if it has no further witness, the
  channel's delay has passed (with a settle clock: the state's output is there again), and its outputs
  from the first on have, in order, the asset and the amount of the settlement's, both explicit, and a script
  whose program and version, one behind the other, have the hash of the settlement's. What follows them is
  free. It is not that the scripts are equal: other programs hash alike, as shown where the digest is defined. Of
  the hash it is assumed that it does not take the bytes of these outputs for others of the settlement.
\<close>

theorem settle_leaf_accepts_iff:
  assumes "crypto_ok cr" and "elements_rules cr k" and "length outs < 2 ^ 30"
    and "\<forall>out \<in> set outs. length (settle_asset sc out) = 33"
    and "sym_leaf_settle cr sc outs = Some leaf" and "map_run (settle_piece cr sc) outs = Some ps"
    and "sha256 cr (hashed_outs cr k (settle_first sc) (length outs)) = sha256 cr (concat ps)
      \<Longrightarrow> hashed_outs cr k (settle_first sc) (length outs) = concat ps"
  shows "accepts (exec k) leaf s \<longleftrightarrow>
    s = [] \<and> settle_ready k sc
    \<and> list_all2 (pays cr sc) outs (take (length outs) (drop (settle_first sc) (tx_outs k)))"
proof -
  let ?xs = "take (length outs) (drop (settle_first sc) (tx_outs k))"
  have m: "0 < length outs" using assms(5) by (auto simp: sym_leaf_settle_def)
  have xs: "settle_first sc + length outs \<le> length (tx_outs k) \<longleftrightarrow> length ?xs = length outs"
    using m by (simp add: min_def del: length_greater_0_conv) linarith
  have ok: "list_all shown_ok ?xs"
    using assms(2) by (auto simp: elements_rules_def tx_ok_def list_all_iff dest!: in_set_takeD in_set_dropD)
  show ?thesis
  proof (cases "length ?xs = length outs")
    case True
    have "list_all2 (pays cr sc) outs ?xs \<longleftrightarrow> hashed_outs cr k (settle_first sc) (length outs) = concat ps"
      unfolding hashed_outs_def by (rule list_all2_pays [OF assms(1,4,6) ok True])
    then have "list_all2 (pays cr sc) outs ?xs
        \<longleftrightarrow> sha256 cr (hashed_outs cr k (settle_first sc) (length outs)) = sha256 cr (concat ps)"
      using assms(7) by metis
    moreover have "settle_first sc + length outs \<le> length (tx_outs k)" using xs True by simp
    ultimately show ?thesis unfolding accepts_settle [OF assms(1-3,5,6)] by blast
  next
    case False
    then have "\<not> settle_first sc + length outs \<le> length (tx_outs k)" "\<not> list_all2 (pays cr sc) outs ?xs"
      using xs by (blast, metis list_all2_lengthD)
    then show ?thesis unfolding accepts_settle [OF assms(1-3,5,6)] by blast
  qed
qed

section \<open>An update replaces an older state\<close>

text \<open>
  The transaction pays the input on into the output of the tree \<open>t\<close>: at the index of the input, with
  the same asset and value.
\<close>

definition moves_on :: "checker \<Rightarrow> sym_tree \<Rightarrow> bool" where
  "moves_on k t \<longleftrightarrow> cur k < length (tx_outs k)
     \<and> tx_outs k ! cur k = (tx_ins k ! cur k)\<lparr>sh_version := [1], sh_program := sym_tree_program t\<rparr>"

lemma update_accepted_iff:
  assumes "crypto_ok cr" and "elements_rules cr k" and "keys_ok sc" and "upd_waits k sc"
    and "sym_state_tree cr sc n outs sim_cmr t0 = Some t" and "sym_upd_msg cr sc t = Some msg" and "moves_on k t"
    and "csfs k (pubkey_to_xonly (sc_opener_key sc)) msg sig_opener"
    and "csfs k (pubkey_to_xonly (sc_accepter_key sc)) msg sig_accepter"
  shows "accepts (exec k) (sym_leaf_upd sc old) (rev (take 4 (sym_update_witness sig_opener sig_accepter t prev_leaf prev_cb)))
    \<longleftrightarrow> sint old < sint n"
proof -
  obtain settle where settle: "sym_leaf_settle cr sc outs = Some settle"
    using assms(5) by (auto simp: sym_state_tree_def Let_def bind_eq_Some_conv)
  have t: "st_n t = n" using assms(5) settle by (auto simp: sym_state_tree_def Let_def)
  have "length (st_rest t) = 32"
    using assms(1,5) settle by (auto simp: sym_state_tree_def Let_def length_leaf_hash length_branch_hash)
  moreover have "length (sym_tree_program t) \<le> 32" by (simp add: sym_tree_program_def)
  ultimately have len: "length (sc_tag sc @ le8s n @ sym_tree_program t @ st_rest t) \<le> 520" using assms(3) by (simp add: keys_ok_def)
  have msg: "msg = sha256 cr (sc_tag sc @ le8s n @ sym_tree_program t @ st_rest t)"
    using assms(6) by (simp add: sym_upd_msg_def t split: if_splits)
  have w: "rev (take 4 (sym_update_witness sig_opener sig_accepter t prev_leaf prev_cb))
      = [st_rest t, le8s n, sig_opener, sig_accepter]"
    by (simp add: sym_update_witness_def t)
  show ?thesis
    unfolding w accepts_upd [OF assms(2,3)]
    using assms(4,7-9) len by (auto simp: upd_accepts_def moves_on_def msg Let_def le64_le8s)
qed

text \<open>
  (C9) The witness that the code builds for an update of both sides' signatures spends the output of a
  state, or of the kickoff, exactly when its own state is later: signed with the new state's message,
  in a transaction that moves the channel on to the new state's output, it is accepted by the UPD leaf
  of \<open>old\<close> if and only if \<open>old\<close> is below the number of the new state, as signed numbers.
\<close>

theorem update_witness_accepted_iff:
  assumes "crypto_ok cr" and "elements_rules cr k" and "keys_ok sc" and "upd_waits k sc"
    and "sym_state_tree cr sc n outs sim_cmr t0 = Some t" and "sym_upd_msg cr sc t = Some msg" and "moves_on k t"
    and "csfs k (pubkey_to_xonly (sc_opener_key sc)) msg sig_opener"
    and "csfs k (pubkey_to_xonly (sc_accepter_key sc)) msg sig_accepter"
  shows "accepts (exec k) (sym_leaf_upd sc old) (rev (take 4 (sym_update_witness sig_opener sig_accepter t prev_leaf prev_cb)))
    \<longleftrightarrow> sint old < sint n"
  using assms by (rule update_accepted_iff)

text \<open>
  An update need not pay a taproot output. UPD looks at the version of the output's program and not at its
  length, and hashes the program and the hash beside UPD as one run of bytes. So with the two signatures
  of a state, moved one byte or more from the program into the witness item or back, the leaf accepts a transaction that pays the whole
  value to a program of version 1 of any other length, which no rule protects (BIP 341 is for programs of
  32 bytes only): whoever sees an update can send the channel there and take it.
\<close>

theorem update_pays_unprotected:
  assumes "crypto_ok cr" and "elements_rules cr k" and "keys_ok sc" and "upd_waits k sc"
    and "sym_state_tree cr sc n outs sim_cmr t0 = Some t" and "sym_upd_msg cr sc t = Some msg" and "sint old < sint n"
    and "cur k < length (tx_outs k)" and "i \<le> 64"
    and "tx_outs k ! cur k = (tx_ins k ! cur k)\<lparr>sh_version := [1], sh_program := take i (sym_tree_program t @ st_rest t)\<rparr>"
    and "csfs k (pubkey_to_xonly (sc_opener_key sc)) msg sig_opener"
    and "csfs k (pubkey_to_xonly (sc_accepter_key sc)) msg sig_accepter"
  shows "accepts (exec k) (sym_leaf_upd sc old) [drop i (sym_tree_program t @ st_rest t), le8s n, sig_opener, sig_accepter]
    \<and> length (sh_program (tx_outs k ! cur k)) = i"
proof -
  obtain settle where settle: "sym_leaf_settle cr sc outs = Some settle"
    using assms(5) by (auto simp: sym_state_tree_def Let_def bind_eq_Some_conv)
  have t: "st_n t = n" using assms(5) settle by (auto simp: sym_state_tree_def Let_def)
  have rest: "length (st_rest t) = 32"
    using assms(1,5) settle by (auto simp: sym_state_tree_def Let_def length_leaf_hash length_branch_hash)
  have "length (st_output_der t) = 33"
    using assms(1,5) settle by (auto simp: sym_state_tree_def Let_def tweak_nums_def crypto_ok_def)
  then have prog: "length (sym_tree_program t) = 32" by (simp add: sym_tree_program_def)
  have msg: "msg = sha256 cr (sc_tag sc @ le8s n @ sym_tree_program t @ st_rest t)"
    using assms(6) by (simp add: sym_upd_msg_def t split: if_splits)
  have "sc_tag sc @ le8s n @ take i (sym_tree_program t @ st_rest t) @ drop i (sym_tree_program t @ st_rest t)
      = sc_tag sc @ le8s n @ sym_tree_program t @ st_rest t" by (metis append_take_drop_id)
  then have "upd_accepts cr k sc old (drop i (sym_tree_program t @ st_rest t)) (le8s n) sig_opener sig_accepter"
    using assms(3,4,7,8,11,12) rest prog unfolding upd_accepts_def Let_def assms(10)
    by (simp add: le64_le8s keys_ok_def msg del: take_append drop_append)
  then show ?thesis unfolding accepts_upd [OF assms(2,3)] using assms(9) rest prog by (auto simp: assms(10))
qed

section \<open>The leaves of an HTLC, and RETIRE\<close>

lemma accepts_htlc_success:
  assumes "elements_rules cr k" and "length payment_ripemd = 20" and "length (pubkey_to_xonly receiver_key) = 32"
    and "list_all (\<lambda>x. length x \<le> 520) s"
  shows "accepts (exec k) (sym_leaf_htlc_success payment_ripemd receiver_key) s \<longleftrightarrow>
    (\<exists>preimage sig. s = [preimage, sig] \<and> length preimage = 32 \<and> ripemd160 cr (sha256 cr preimage) = payment_ripemd
       \<and> sig \<noteq> [] \<and> checksig k (pubkey_to_xonly receiver_key) sig)"
proof -
  have r: "stack_rules (exec k)" "hash_rules cr k" "tx_rules k" using assms(1) by (simp_all add: elements_rules_def)
  have "length payment_ripemd < 76" "length (pubkey_to_xonly receiver_key) < 76" using assms(2,3) by simp_all
  note [simp] = run_push [OF this(1)] run_push [OF this(2)]
  have size: "num_bytes (of_nat (length x)) = num_bytes 32 \<longleftrightarrow> length x = 32" if "length x \<le> 520" for x :: bytes
  proof -
    have "unat (of_nat (length x) :: u32) = length x" using that by (simp add: unat_of_nat take_bit_nat_eq_self)
    then show ?thesis unfolding num_bytes_inj word_unat_eq_iff by simp
  qed
  consider "s = []" | a where "s = [a]" | a b s' where "s = a # b # s'" by (cases s; cases "tl s") auto
  then show ?thesis
    by cases (use assms(3,4) in \<open>auto simp: accepts_def sym_leaf_htlc_success_def push_xonly_def run_push_num
        stack_simps [OF r(1)] hash_simps [OF r(2)] sig_simps [OF r(3)] size truthy_def\<close>)
qed
lemma minimal_truthy:
  assumes "minimal_num d" and "d \<noteq> []"
  shows "truthy d"
proof (cases "unat (last d) mod 128 = 0")
  case False
  then have "last d \<noteq> 0" "last d \<noteq> 0x80" by auto
  with assms(2) show ?thesis by (simp add: truthy_def)
next
  case True
  with assms have long: "1 < length d" and b: "bit (d ! (length d - 2)) 7" by (simp_all add: minimal_num_def)
  have "butlast d ! (length d - 2) = d ! (length d - 2)" using long by (simp add: nth_butlast)
  then have "d ! (length d - 2) \<in> set (butlast d)" using long nth_mem [of "length d - 2" "butlast d"] by simp
  moreover have "d ! (length d - 2) \<noteq> 0" using b by (metis bit_0_eq bot_apply bot_bool_def)
  ultimately show ?thesis using assms(2) by (auto simp: truthy_def)
qed

lemma truthy_num: "truthy (num_bytes num) \<longleftrightarrow> num \<noteq> 0"
proof (cases "num = 0")
  case True
  then show ?thesis by (simp add: num_bytes_def truthy_def)
next
  case False
  have "num_bytes num \<noteq> []" using False num_bytes_inj [of num 0] by (simp add: num_bytes_def)
  with num_bytes_stands [of num] minimal_truthy False show ?thesis by (simp add: stands_for_num_def)
qed

lemma accepts_htlc_timeout:
  assumes "elements_rules cr k" and "length (pubkey_to_xonly offerer_key) = 32"
  shows "accepts (exec k) (sym_leaf_htlc_timeout offerer_key cltv_expiry) s \<longleftrightarrow>
    (\<exists>sig. s = [sig] \<and> sig \<noteq> [] \<and> checksig k (pubkey_to_xonly offerer_key) sig
       \<and> cltv k (unat cltv_expiry) \<and> cltv_expiry \<noteq> 0)"
proof -
  have r: "stack_rules (exec k)" "tx_rules k" using assms(1) by (simp_all add: elements_rules_def)
  have "length (pubkey_to_xonly offerer_key) < 76" using assms(2) by simp
  note [simp] = run_push [OF this]
  have "unat cltv_expiry < 2 ^ 32" using unat_u32_lt [of cltv_expiry] by simp
  note wait = wait_simps(2) [OF r(2) num_bytes_stands this]
  show ?thesis
    by (cases s) (use assms(2) in \<open>auto simp: accepts_def sym_leaf_htlc_timeout_def push_xonly_def run_push_num
        stack_simps [OF r(1)] sig_simps [OF r(2)] wait truthy_num\<close>)
qed

lemma accepts_retire:
  assumes "elements_rules cr k" and "keys_ok sc"
  shows "accepts (exec k) (sym_leaf_retire sc) s \<longleftrightarrow>
    (\<exists>so sa. s = [so, sa] \<and> so \<noteq> [] \<and> sa \<noteq> [] \<and> checksig k (pubkey_to_xonly (sc_opener_key sc)) so
       \<and> checksig k (pubkey_to_xonly (sc_accepter_key sc)) sa)"
proof -
  have r: "stack_rules (exec k)" "tx_rules k" using assms(1) by (simp_all add: elements_rules_def)
  have len: "length (pubkey_to_xonly (sc_opener_key sc)) = 32" "length (pubkey_to_xonly (sc_accepter_key sc)) = 32"
    using assms(2) by (simp_all add: keys_ok_def)
  then have "length (pubkey_to_xonly (sc_opener_key sc)) < 76" "length (pubkey_to_xonly (sc_accepter_key sc)) < 76" by simp_all
  note [simp] = run_push [OF this(1)] run_push [OF this(2)]
  consider "s = []" | a where "s = [a]" | a b s' where "s = a # b # s'" by (cases s; cases "tl s") auto
  then show ?thesis
    by cases (auto simp: accepts_def sym_leaf_retire_def push_xonly_def stack_simps [OF r(1)] sig_simps [OF r(2)] len truthy_def)
qed

section \<open>The settle clock\<close>

lemma inspects_in:
  "inspects k c xs part over \<Longrightarrow> stands_for_num d i \<Longrightarrow> i < 2 ^ 31 \<Longrightarrow> i < length xs
     \<Longrightarrow> exec k c (d # s) = Some (over (xs ! i) # part (xs ! i) # s)"
  by (simp add: inspects_def)

lemma run_before:
  assumes "tx_ok k" and "stack_rules (exec k)" and "tx_rules k" and "inspects k c (tx_ins k) part over" and "OP_16 < c"
  shows "run_script (exec k) (op SYM_OP_PUSHCURRENTINPUTINDEX @ op SYM_OP_1SUB @ op c @ rest) s
    = (if 0 < cur k then run_script (exec k) rest (over (tx_ins k ! (cur k - 1)) # part (tx_ins k ! (cur k - 1)) # s) else None)"
proof -
  have c: "cur k < length (tx_ins k)" "cur k < 2 ^ 31" using assms(1) by (simp_all add: tx_ok_def)
  then have u: "unat (of_nat (cur k) :: u32) = cur k" by (simp add: unat_of_nat take_bit_nat_eq_self)
  have p: "exec k SYM_OP_PUSHCURRENTINPUTINDEX s = Some (num_bytes (of_nat (cur k)) # s)" for s
    using assms(3) by (simp add: tx_rules_def)
  show ?thesis
  proof (cases "cur k = 0")
    case True
    moreover have "num_bytes 0 = []" by (simp add: num_bytes_def)
    moreover have "exec k c ([0x81] # s) = None" using assms(4) by (simp add: inspects_def)
    ultimately show ?thesis using assms(5) by (simp add: p stack_simps [OF assms(2)])
  next
    case False
    then have pos: "0 < (of_nat (cur k) :: u32)" "(of_nat (cur k) :: u32) < 2 ^ 31"
      using c u by (simp_all add: word_less_nat_alt del: of_nat_eq_0_iff)
    have "unat (of_nat (cur k) - 1 :: u32) = cur k - 1" using False u pos by (simp add: unat_sub_if_size)
    then have "stands_for_num (num_bytes (of_nat (cur k) - 1)) (cur k - 1)" using num_bytes_stands by metis
    then have "exec k c (num_bytes (of_nat (cur k) - 1) # s) = Some (over (tx_ins k ! (cur k - 1)) # part (tx_ins k ! (cur k - 1)) # s)"
      using c by (intro inspects_in [OF assms(4)]) simp_all
    then show ?thesis using False assms(5) stack_simps(3) [OF assms(2) pos] by (simp add: p)
  qed
qed
lemma inspect_ins:
  assumes "tx_rules k"
  shows "inspects k SYM_OP_INSPECTINPUTASSET (tx_ins k) sh_asset (\<lambda>x. [sh_asset_prefix x])"
    and "inspects k SYM_OP_INSPECTINPUTVALUE (tx_ins k) sh_value (\<lambda>x. [sh_value_prefix x])"
    and "inspects k SYM_OP_INSPECTINPUTSCRIPTPUBKEY (tx_ins k) sh_program sh_version"
  using assms unfolding tx_rules_def by simp_all

lemma run_before_asset:
  assumes "tx_ok k" and "stack_rules (exec k)" and "tx_rules k"
  shows "run_script (exec k) (op SYM_OP_PUSHCURRENTINPUTINDEX @ op SYM_OP_1SUB @ op SYM_OP_INSPECTINPUTASSET @ rest) s
      = (if 0 < cur k then run_script (exec k) rest ([sh_asset_prefix (tx_ins k ! (cur k - 1))] # sh_asset (tx_ins k ! (cur k - 1)) # s) else None)"
    and "run_script (exec k) (op SYM_OP_PUSHCURRENTINPUTINDEX @ op SYM_OP_1SUB @ op SYM_OP_INSPECTINPUTVALUE @ rest) s
      = (if 0 < cur k then run_script (exec k) rest ([sh_value_prefix (tx_ins k ! (cur k - 1))] # sh_value (tx_ins k ! (cur k - 1)) # s) else None)"
    and "run_script (exec k) (op SYM_OP_PUSHCURRENTINPUTINDEX @ op SYM_OP_1SUB @ op SYM_OP_INSPECTINPUTSCRIPTPUBKEY @ rest) s
      = (if 0 < cur k then run_script (exec k) rest (sh_version (tx_ins k ! (cur k - 1)) # sh_program (tx_ins k ! (cur k - 1)) # s) else None)"
  using run_before [OF assms inspect_ins(1) [OF assms(3)]] run_before [OF assms inspect_ins(2) [OF assms(3)]]
    run_before [OF assms inspect_ins(3) [OF assms(3)]]
  by simp_all

text \<open>The output of the clock: the delay, then only beside the input before it that holds the marker, in a transaction without a locktime.\<close>

lemma accepts_clock:
  assumes "elements_rules cr k" and "sym_leaf_clock sc = Some leaf" and "length (clock_marker (sc_clock sc)) = 32"
  shows "accepts (exec k) leaf s \<longleftrightarrow>
    s = [] \<and> csv k (unat (sc_delay sc)) \<and> tx_locktime k = replicate 4 0 \<and> 0 < cur k
    \<and> sh_asset_prefix (tx_ins k ! (cur k - 1)) = 1 \<and> sh_asset (tx_ins k ! (cur k - 1)) = clock_marker (sc_clock sc)"
proof -
  have r: "tx_ok k" "stack_rules (exec k)" "tx_rules k" using assms(1) by (simp_all add: elements_rules_def)
  have lt: "unat (sc_delay sc) < 2 ^ 16" using unsigned_less [of "sc_delay sc", where ?'a = nat] by simp
  then have "unat (ucast (sc_delay sc) :: u32) = unat (sc_delay sc)" by (simp add: unsigned_ucast_eq take_bit_nat_eq_self)
  then have d: "stands_for_num (num_bytes (ucast (sc_delay sc))) (unat (sc_delay sc))"
    using num_bytes_stands [of "ucast (sc_delay sc)"] by simp
  have p: "exec k SYM_OP_INSPECTLOCKTIME s = Some (tx_locktime k # s)" for s using r(3) by (simp add: tx_rules_def)
  have len: "length (replicate 4 0 :: bytes) < 76" "length (clock_marker (sc_clock sc)) < 76" using assms(3) by simp_all
  have leaf: "leaf = push_num (ucast (sc_delay sc)) @ op OP_CHECKSEQUENCEVERIFY @ op OP_DROP
                 @ op SYM_OP_INSPECTLOCKTIME @ push (replicate 4 0) @ op OP_EQUALVERIFY
                 @ op SYM_OP_PUSHCURRENTINPUTINDEX @ op SYM_OP_1SUB @ op SYM_OP_INSPECTINPUTASSET
                 @ op OP_1 @ op OP_EQUALVERIFY @ push (clock_marker (sc_clock sc)) @ op OP_EQUAL"
    using assms(2) by (simp add: sym_leaf_clock_def split: if_splits)
  have "run_script (exec k) leaf s =
     (if csv k (unat (sc_delay sc)) \<and> tx_locktime k = replicate 4 0 \<and> 0 < cur k \<and> sh_asset_prefix (tx_ins k ! (cur k - 1)) = 1
      then Some (flag_bytes (sh_asset (tx_ins k ! (cur k - 1)) = clock_marker (sc_clock sc)) # s) else None)"
    unfolding leaf using lt
    by (simp add: run_push_num wait_simps(1) [OF r(3) d] stack_simps [OF r(2)] p run_push [OF len(1)] run_push [OF len(2)]
        run_before_asset [OF r])
  then show ?thesis by (auto simp: accepts_def)
qed
text \<open>An explicit asset and value.\<close>

definition holds :: "bytes \<Rightarrow> bytes \<Rightarrow> shown \<Rightarrow> bool" where
  "holds asset_id value x \<longleftrightarrow> sh_asset_prefix x = 1 \<and> sh_asset x = asset_id \<and> sh_value_prefix x = 1 \<and> sh_value x = value"

lemma run_out_op:
  assumes "tx_ok k" and "tx_rules k"
  shows "run_script (exec k) (op SYM_OP_PUSHCURRENTINPUTINDEX @ op SYM_OP_INSPECTOUTPUTASSET @ rest) s
      = (if cur k < length (tx_outs k) then run_script (exec k) rest ([sh_asset_prefix (tx_outs k ! cur k)] # sh_asset (tx_outs k ! cur k) # s) else None)"
    and "run_script (exec k) (op SYM_OP_PUSHCURRENTINPUTINDEX @ op SYM_OP_INSPECTOUTPUTVALUE @ rest) s
      = (if cur k < length (tx_outs k) then run_script (exec k) rest ([sh_value_prefix (tx_outs k ! cur k)] # sh_value (tx_outs k ! cur k) # s) else None)"
    and "run_script (exec k) (op SYM_OP_PUSHCURRENTINPUTINDEX @ op SYM_OP_INSPECTOUTPUTSCRIPTPUBKEY @ rest) s
      = (if cur k < length (tx_outs k) then run_script (exec k) rest (sh_version (tx_outs k ! cur k) # sh_program (tx_outs k ! cur k) # s) else None)"
proof -
  have c: "cur k < 2 ^ 31" using assms(1) by (simp add: tx_ok_def)
  obtain d where d: "stands_for_num d (cur k)" "\<And>s. exec k SYM_OP_PUSHCURRENTINPUTINDEX s = Some (d # s)"
    using current_index [OF assms(2,1)] by blast
  show "run_script (exec k) (op SYM_OP_PUSHCURRENTINPUTINDEX @ op SYM_OP_INSPECTOUTPUTASSET @ rest) s
      = (if cur k < length (tx_outs k) then run_script (exec k) rest ([sh_asset_prefix (tx_outs k ! cur k)] # sh_asset (tx_outs k ! cur k) # s) else None)"
    and "run_script (exec k) (op SYM_OP_PUSHCURRENTINPUTINDEX @ op SYM_OP_INSPECTOUTPUTVALUE @ rest) s
      = (if cur k < length (tx_outs k) then run_script (exec k) rest ([sh_value_prefix (tx_outs k ! cur k)] # sh_value (tx_outs k ! cur k) # s) else None)"
    and "run_script (exec k) (op SYM_OP_PUSHCURRENTINPUTINDEX @ op SYM_OP_INSPECTOUTPUTSCRIPTPUBKEY @ rest) s
      = (if cur k < length (tx_outs k) then run_script (exec k) rest (sh_version (tx_outs k ! cur k) # sh_program (tx_outs k ! cur k) # s) else None)"
    by (simp_all add: inspect_simps [OF assms(2) d(1) c] d(2))
qed

lemma run_op_0 [simp]: "run_script ex (op OP_0 @ rest) s = run_script ex rest ([] # s)"
  by (simp add: op_def take_exactly_def)

lemma accepts_kick:
  assumes "crypto_ok cr" and "elements_rules cr k" and "sym_leaf_kick cr sc = Some leaf" and "sym_clock_spk cr sc = Some (clock, cb)"
    and "length (sc_asset sc) = 33" and "length (clock_funding_prog (sc_clock sc)) = 32"
  shows "accepts (exec k) leaf s \<longleftrightarrow>
    s = [] \<and> 0 < cur k \<and> cur k < length (tx_outs k)
    \<and> (let paid = holds (drop 1 (sc_asset sc)) (le_bytes 8 (sat (clock_capacity (sc_clock sc))));
           fund = tx_ins k ! (cur k - 1); out = tx_outs k ! cur k
       in paid fund \<and> sh_version fund = [] \<and> sh_program fund = clock_funding_prog (sc_clock sc)
          \<and> paid out \<and> sh_version out = [1] \<and> sh_program out = drop 2 clock)"
proof -
  have r: "tx_ok k" "stack_rules (exec k)" "tx_rules k" using assms(2) by (simp_all add: elements_rules_def)
  have clock: "length (drop 2 clock) = 32" "take 32 (drop 2 clock) = drop 2 clock"
    using assms(1,4) by (auto simp: sym_clock_spk_def nums_spk_def Let_def bind_eq_Some_conv tweak_nums_def crypto_ok_def)
  have has: "sc_has_clock sc" using assms(4) by (auto simp: sym_clock_spk_def sym_leaf_clock_def bind_eq_Some_conv split: if_splits)
  have len: "length (le_bytes 8 (sat (clock_capacity (sc_clock sc)))) < 76" "length (drop 1 (sc_asset sc)) < 76"
    "length (clock_funding_prog (sc_clock sc)) < 76" "length (drop 2 clock) < 76"
    using assms(5,6) clock(1) by simp_all
  define a where "a = drop 1 (sc_asset sc)"
  note pushes = run_push [OF len(1)] run_push [OF len(2), folded a_def] run_push [OF len(3)] run_push [OF len(4)]
  have leaf: "leaf = op SYM_OP_PUSHCURRENTINPUTINDEX @ op SYM_OP_1SUB @ op SYM_OP_INSPECTINPUTSCRIPTPUBKEY
                     @ op OP_0 @ op OP_EQUALVERIFY @ push (clock_funding_prog (sc_clock sc)) @ op OP_EQUALVERIFY
                     @ explicit_is True SYM_OP_INSPECTINPUTVALUE (le_bytes 8 (sat (clock_capacity (sc_clock sc))))
                     @ explicit_is True SYM_OP_INSPECTINPUTASSET (drop 1 (sc_asset sc))
                     @ explicit_is False SYM_OP_INSPECTOUTPUTASSET (drop 1 (sc_asset sc))
                     @ explicit_is False SYM_OP_INSPECTOUTPUTVALUE (le_bytes 8 (sat (clock_capacity (sc_clock sc))))
                     @ op SYM_OP_PUSHCURRENTINPUTINDEX @ op SYM_OP_INSPECTOUTPUTSCRIPTPUBKEY
                     @ op OP_1 @ op OP_EQUALVERIFY @ push (drop 2 clock) @ op OP_EQUAL"
    using assms(3) has unfolding sym_leaf_kick_def assms(4) by (simp add: Let_def clock(2))
  have "accepts (exec k) leaf s \<longleftrightarrow> (\<exists>x. run_script (exec k) leaf s = Some [x] \<and> truthy x)" by (simp add: accepts_def)
  also have "\<dots> \<longleftrightarrow> s = [] \<and> 0 < cur k \<and> cur k < length (tx_outs k)
    \<and> (let paid = holds (drop 1 (sc_asset sc)) (le_bytes 8 (sat (clock_capacity (sc_clock sc))));
           fund = tx_ins k ! (cur k - 1); out = tx_outs k ! cur k
       in paid fund \<and> sh_version fund = [] \<and> sh_program fund = clock_funding_prog (sc_clock sc)
          \<and> paid out \<and> sh_version out = [1] \<and> sh_program out = drop 2 clock)"
    unfolding leaf explicit_is_def a_def [symmetric] append_assoc if_True if_False append_Nil
    by (auto simp: stack_simps [OF r(2)] pushes run_before_asset [OF r] run_out_op [OF r(1,3)] holds_def Let_def)
  finally show ?thesis .
qed
lemma le_val_zero: "le_val (replicate 4 0) = 0"
  by (simp add: le_val_def be_val_def numeral_eq_Suc)

lemma demo_keys_ok: "keys_ok demo_sym_channel"
  by (simp add: keys_ok_def demo_sym_channel_def pubkey_to_xonly_def)

theorem upd_leaf_accepts_iff_witness:
  "accepts (exec (demo_spend (replicate 4 0) [demo_shown (replicate 32 4) [1]] [demo_shown (replicate 32 5) [1]] 0))
     (sym_leaf_upd demo_sym_channel 3) [replicate 32 7, le8s 5, [1], [2]]
   \<and> \<not> accepts (exec (demo_spend (replicate 4 0) [demo_shown (replicate 32 4) [1]] [demo_shown (replicate 32 5) [1]] 0))
     (sym_leaf_upd demo_sym_channel 5) [replicate 32 7, le8s 5, [1], [2]]"
proof -
  have k: "elements_rules demo_crypto (demo_spend (replicate 4 0) [demo_shown (replicate 32 4) [1]] [demo_shown (replicate 32 5) [1]] 0)"
    by (rule demo_spend_rules) (simp_all add: shown_ok_demo)
  show ?thesis
    unfolding upd_leaf_accepts_iff [OF k demo_keys_ok]
    by (simp add: upd_accepts_def upd_waits_def demo_sym_channel_def demo_shown_def le64_le8s)
qed

theorem settle_leaf_accepts_iff_witness:
  "\<exists>leaf. sym_leaf_settle demo_crypto demo_sym_channel [demo_sym_output] = Some leaf
     \<and> accepts (exec (demo_spend (replicate 4 0) [demo_shown (replicate 32 4) [1]] [demo_shown (drop 2 (out_spk demo_sym_output)) []] 0)) leaf []"
proof -
  let ?k = "demo_spend (replicate 4 0) [demo_shown (replicate 32 4) [1]] [demo_shown (drop 2 (out_spk demo_sym_output)) []] 0"
  obtain ps where ps: "map_run (settle_piece demo_crypto demo_sym_channel) [demo_sym_output] = Some ps"
    by (simp add: settle_piece_def witness_program_def demo_sym_output_def)
  obtain leaf where leaf: "sym_leaf_settle demo_crypto demo_sym_channel [demo_sym_output] = Some leaf"
    using demo_state_tree by (auto simp: sym_state_tree_def bind_eq_Some_conv Let_def)
  have k: "elements_rules demo_crypto ?k"
    by (rule demo_spend_rules) (simp_all add: shown_ok_demo demo_sym_output_def)
  have asset: "\<forall>out \<in> set [demo_sym_output]. length (settle_asset demo_sym_channel out) = 33"
    by (simp add: settle_asset_def demo_sym_output_def demo_sym_channel_def)
  have "hashed_outs demo_crypto ?k (settle_first demo_sym_channel) (length [demo_sym_output]) = concat ps"
    using ps by (auto simp: hashed_outs_def settle_first_def demo_sym_channel_def shown_piece_def demo_shown_def
        demo_sym_output_def settle_piece_def witness_program_def)
  then have "accepts (exec ?k) leaf [] \<longleftrightarrow>
    settle_ready ?k demo_sym_channel
    \<and> list_all2 (pays demo_crypto demo_sym_channel) [demo_sym_output] (take (length [demo_sym_output]) (drop (settle_first demo_sym_channel) (tx_outs ?k)))"
    using settle_leaf_accepts_iff [OF demo_crypto_ok k _ asset leaf ps, of "[]"] by simp
  moreover have "settle_ready ?k demo_sym_channel" by (simp add: settle_ready_def demo_sym_channel_def)
  moreover have "pays demo_crypto demo_sym_channel demo_sym_output (demo_shown (drop 2 (out_spk demo_sym_output)) [])"
    by (simp add: pays_def demo_shown_def settle_asset_def demo_sym_channel_def demo_sym_output_def witness_program_def)
  ultimately show ?thesis using leaf by (simp add: settle_first_def demo_sym_channel_def)
qed
theorem update_pays_unprotected_witness:
  "\<exists>t. sym_state_tree demo_crypto demo_sym_channel 5 [demo_sym_output] None demo_sym_tree = Some t
     \<and> accepts (exec (demo_spend (replicate 4 0) [demo_shown (replicate 32 4) [1]] [demo_shown (take 31 (sym_tree_program t @ st_rest t)) [1]] 0))
         (sym_leaf_upd demo_sym_channel 3) [drop 31 (sym_tree_program t @ st_rest t), le8s 5, [1], [2]]"
proof -
  obtain t where t: "sym_state_tree demo_crypto demo_sym_channel 5 [demo_sym_output] None demo_sym_tree = Some t"
    using demo_state_tree by blast
  let ?k = "demo_spend (replicate 4 0) [demo_shown (replicate 32 4) [1]] [demo_shown (take 31 (sym_tree_program t @ st_rest t)) [1]] 0"
  have k: "elements_rules demo_crypto ?k" by (rule demo_spend_rules) (simp_all add: shown_ok_demo)
  have "st_n t = 5" using t by (auto simp: sym_state_tree_def Let_def bind_eq_Some_conv)
  then obtain msg where msg: "sym_upd_msg demo_crypto demo_sym_channel t = Some msg" by (simp add: sym_upd_msg_def)
  have w: "upd_waits ?k demo_sym_channel" by (simp add: upd_waits_def demo_sym_channel_def)
  have "accepts (exec ?k) (sym_leaf_upd demo_sym_channel 3) [drop 31 (sym_tree_program t @ st_rest t), le8s 5, [1], [2]]"
    using update_pays_unprotected [OF demo_crypto_ok k demo_keys_ok w t msg, of 3 31 "[1]" "[2]"]
    by (simp add: demo_shown_def del: take_append drop_append)
  with t show ?thesis by blast
qed

theorem update_witness_accepted_iff_witness:
  "\<exists>t. sym_state_tree demo_crypto demo_sym_channel 5 [demo_sym_output] None demo_sym_tree = Some t
     \<and> accepts (exec (demo_spend (replicate 4 0) [demo_shown (replicate 32 4) [1]] [demo_shown (sym_tree_program t) [1]] 0))
         (sym_leaf_upd demo_sym_channel (- 1)) (rev (take 4 (sym_update_witness [1] [2] t [] [])))
     \<and> \<not> accepts (exec (demo_spend (replicate 4 0) [demo_shown (replicate 32 4) [1]] [demo_shown (sym_tree_program t) [1]] 0))
         (sym_leaf_upd demo_sym_channel 7) (rev (take 4 (sym_update_witness [1] [2] t [] [])))"
proof -
  obtain t where t: "sym_state_tree demo_crypto demo_sym_channel 5 [demo_sym_output] None demo_sym_tree = Some t"
    using demo_state_tree by blast
  let ?k = "demo_spend (replicate 4 0) [demo_shown (replicate 32 4) [1]] [demo_shown (sym_tree_program t) [1]] 0"
  have k: "elements_rules demo_crypto ?k"
    by (rule demo_spend_rules) (simp_all add: shown_ok_demo sym_tree_program_def)
  have "st_n t = 5" using t by (auto simp: sym_state_tree_def Let_def bind_eq_Some_conv)
  then obtain msg where msg: "sym_upd_msg demo_crypto demo_sym_channel t = Some msg" by (simp add: sym_upd_msg_def)
  have w: "upd_waits ?k demo_sym_channel" by (simp add: upd_waits_def demo_sym_channel_def)
  have m: "moves_on ?k t" by (simp add: moves_on_def demo_shown_def)
  show ?thesis
    using t update_witness_accepted_iff [OF demo_crypto_ok k demo_keys_ok w t msg m, of "[1]" "[2]"] by auto
qed

text \<open>
  (C12) An HTLC's output may be spent by SUCCESS if and only if the witness is a preimage of 32 bytes whose
  hash is the one in the leaf and a signature of the receiver, and by TIMEOUT if and only if it is a
  signature of the offerer alone and the expiry has passed; an expiry of 0 leaves a zero on the stack, so
  then nobody can take the output back.
\<close>

theorem htlc_leaves_accept_iff:
  assumes "elements_rules cr k" and "length payment_ripemd = 20"
    and "length (pubkey_to_xonly receiver_key) = 32" and "length (pubkey_to_xonly offerer_key) = 32"
    and "list_all (\<lambda>x. length x \<le> 520) s"
  shows "(accepts (exec k) (sym_leaf_htlc_success payment_ripemd receiver_key) s \<longleftrightarrow>
      (\<exists>preimage sig. s = [preimage, sig] \<and> length preimage = 32 \<and> ripemd160 cr (sha256 cr preimage) = payment_ripemd
         \<and> sig \<noteq> [] \<and> checksig k (pubkey_to_xonly receiver_key) sig))
    \<and> (accepts (exec k) (sym_leaf_htlc_timeout offerer_key cltv_expiry) s \<longleftrightarrow>
      (\<exists>sig. s = [sig] \<and> sig \<noteq> [] \<and> checksig k (pubkey_to_xonly offerer_key) sig
         \<and> cltv k (unat cltv_expiry) \<and> cltv_expiry \<noteq> 0))"
  using accepts_htlc_success [OF assms(1,2,3,5)] accepts_htlc_timeout [OF assms(1,4)] by blast

theorem htlc_leaves_accept_iff_witness:
  "accepts (exec (demo_spend (replicate 4 0) [demo_shown (replicate 32 4) [1]] [] 0))
     (sym_leaf_htlc_success (replicate 20 8) (2 # replicate 32 3)) [replicate 32 8, [1]]
   \<and> \<not> accepts (exec (demo_spend (replicate 4 0) [demo_shown (replicate 32 4) [1]] [] 0))
     (sym_leaf_htlc_timeout (2 # replicate 32 3) 800000000) [[1]]"
proof -
  have k: "elements_rules demo_crypto (demo_spend (replicate 4 0) [demo_shown (replicate 32 4) [1]] [] 0)"
    by (rule demo_spend_rules) (simp_all add: shown_ok_demo)
  have h: "ripemd160 demo_crypto (sha256 demo_crypto (replicate 32 8)) = replicate 20 8"
    by (simp add: demo_crypto_def take_replicate)
  show ?thesis
    using htlc_leaves_accept_iff [OF k, of "replicate 20 8" "2 # replicate 32 3" "2 # replicate 32 3" "[replicate 32 8, [1]]" 800000000]
      htlc_leaves_accept_iff [OF k, of "replicate 20 8" "2 # replicate 32 3" "2 # replicate 32 3" "[[1]]" 800000000]
    by (simp add: pubkey_to_xonly_def h le_val_zero)
qed

text \<open>
  (C11) The other leaves of a settle-clock channel. KICK accepts exactly the transactions in which the input
  before the seed is the funding output, with the capacity in the channel's asset, and the output at the
  seed's index is the clock, with the same. CLOCK accepts exactly those in which the input before it
  holds the marker, after the delay, with lock time 0. RETIRE takes a signature of both sides.
\<close>

theorem clock_leaves_accept_iff:
  assumes "crypto_ok cr" and "elements_rules cr k" and "keys_ok sc"
    and "sym_leaf_clock sc = Some clock_leaf" and "sym_leaf_kick cr sc = Some kick_leaf" and "sym_clock_spk cr sc = Some (clock, cb)"
    and "length (sc_asset sc) = 33" and "length (clock_funding_prog (sc_clock sc)) = 32" and "length (clock_marker (sc_clock sc)) = 32"
  shows "(accepts (exec k) kick_leaf s \<longleftrightarrow>
      s = [] \<and> 0 < cur k \<and> cur k < length (tx_outs k)
      \<and> (let paid = holds (drop 1 (sc_asset sc)) (le_bytes 8 (sat (clock_capacity (sc_clock sc))));
             fund = tx_ins k ! (cur k - 1); out = tx_outs k ! cur k
         in paid fund \<and> sh_version fund = [] \<and> sh_program fund = clock_funding_prog (sc_clock sc)
            \<and> paid out \<and> sh_version out = [1] \<and> sh_program out = drop 2 clock))
    \<and> (accepts (exec k) clock_leaf s \<longleftrightarrow>
      s = [] \<and> csv k (unat (sc_delay sc)) \<and> tx_locktime k = replicate 4 0 \<and> 0 < cur k
      \<and> sh_asset_prefix (tx_ins k ! (cur k - 1)) = 1 \<and> sh_asset (tx_ins k ! (cur k - 1)) = clock_marker (sc_clock sc))
    \<and> (accepts (exec k) (sym_leaf_retire sc) s \<longleftrightarrow>
      (\<exists>so sa. s = [so, sa] \<and> so \<noteq> [] \<and> sa \<noteq> [] \<and> checksig k (pubkey_to_xonly (sc_opener_key sc)) so
         \<and> checksig k (pubkey_to_xonly (sc_accepter_key sc)) sa))"
  using accepts_kick [OF assms(1,2,5,6,7,8), of s] accepts_clock [OF assms(2,4,9), of s] accepts_retire [OF assms(2,3), of s] by blast
text \<open>
  (C10) A transaction that spends a clock updates no state: if CLOCK accepts one of its inputs, no UPD leaf
  of a settle-clock channel accepts any of its inputs, whatever the witness. So the marker beside the
  clock leaves its state by SETTLE.
\<close>

theorem clock_excludes_update:
  assumes "elements_rules cr k" and "elements_rules cr k'" and "tx_locktime k = tx_locktime k'"
    and "sym_leaf_clock sc = Some leaf" and "length (clock_marker (sc_clock sc)) = 32" and "accepts (exec k) leaf s"
    and "sc_has_clock sc'" and "keys_ok sc'"
  shows "\<not> accepts (exec k') (sym_leaf_upd sc' old) s'"
proof -
  have "tx_locktime k' = replicate 4 0" using accepts_clock [OF assms(1,4,5)] assms(3,6) by simp
  then have "le_val (tx_locktime k') = 0" by (simp add: le_val_zero)
  then have "\<not> upd_waits k' sc'" using assms(2,7) by (auto simp: upd_waits_def elements_rules_def tx_ok_def)
  then show ?thesis unfolding accepts_upd [OF assms(2,8)] by (simp add: upd_accepts_def)
qed
definition demo_clock_channel :: sym_channel where
  "demo_clock_channel = sym_channel_set_clock demo_crypto demo_sym_channel (replicate 32 6) [1, 2, 3] (AMOUNT_SAT 1000)"

definition demo_marker :: shown where
  "demo_marker = (demo_shown (replicate 32 4) [1])\<lparr>sh_asset := replicate 32 6, sh_value := le_bytes 8 1\<rparr>"

lemma demo_clock_keys: "keys_ok demo_clock_channel"
  using demo_keys_ok by (simp add: keys_ok_def demo_clock_channel_def sym_channel_set_clock_def)

lemma demo_clock_simps [simp]:
  "sc_has_clock demo_clock_channel" "length (sc_asset demo_clock_channel) = 33" "drop (Suc 0) (sc_asset demo_clock_channel) = replicate 32 9"
  "sc_delay demo_clock_channel = 144"
  "clock_marker (sc_clock demo_clock_channel) = replicate 32 6" "length (clock_funding_prog (sc_clock demo_clock_channel)) = 32"
  "sat (clock_capacity (sc_clock demo_clock_channel)) = 1000"
  by (simp_all add: demo_clock_channel_def sym_channel_set_clock_def demo_sym_channel_def demo_crypto_def)

theorem clock_leaves_accept_iff_witness:
  "\<exists>clock_leaf kick_leaf clock cb.
     sym_leaf_clock demo_clock_channel = Some clock_leaf \<and> sym_leaf_kick demo_crypto demo_clock_channel = Some kick_leaf
     \<and> sym_clock_spk demo_crypto demo_clock_channel = Some (clock, cb)
     \<and> accepts (exec (demo_spend (replicate 4 0)
         [demo_shown (clock_funding_prog (sc_clock demo_clock_channel)) [], demo_marker] [demo_marker, demo_shown (drop 2 clock) [1]] 1)) kick_leaf []
     \<and> \<not> accepts (exec (demo_spend (replicate 4 0) [demo_marker] [demo_shown (drop 2 clock) [1]] 0)) kick_leaf []
     \<and> accepts (exec (demo_spend (replicate 4 0) [demo_marker, demo_shown (drop 2 clock) [1]] [] 1)) clock_leaf []"
proof -
  obtain clock_leaf where l: "sym_leaf_clock demo_clock_channel = Some clock_leaf" by (simp add: sym_leaf_clock_def)
  obtain clock cb where c: "sym_clock_spk demo_crypto demo_clock_channel = Some (clock, cb)"
    using l by (cases "sym_clock_spk demo_crypto demo_clock_channel") (auto simp: sym_clock_spk_def)
  obtain kick_leaf where kl: "sym_leaf_kick demo_crypto demo_clock_channel = Some kick_leaf"
    using c by (simp add: sym_leaf_kick_def Let_def)
  have clock: "length (drop 2 clock) \<le> 40"
    using c demo_crypto_ok by (auto simp: sym_clock_spk_def nums_spk_def Let_def bind_eq_Some_conv tweak_nums_def crypto_ok_def)
  have m: "shown_ok demo_marker" by (simp add: demo_marker_def demo_shown_def shown_ok_def)
  let ?k1 = "demo_spend (replicate 4 0) [demo_shown (clock_funding_prog (sc_clock demo_clock_channel)) [], demo_marker] [demo_marker, demo_shown (drop 2 clock) [1]] 1"
  let ?k2 = "demo_spend (replicate 4 0) [demo_marker] [demo_shown (drop 2 clock) [1]] 0"
  let ?k3 = "demo_spend (replicate 4 0) [demo_marker, demo_shown (drop 2 clock) [1]] [] 1"
  have k: "elements_rules demo_crypto ?k1" "elements_rules demo_crypto ?k2" "elements_rules demo_crypto ?k3"
    using clock by (auto intro!: demo_spend_rules shown_ok_demo simp: m)
  note iff = clock_leaves_accept_iff [OF demo_crypto_ok _ demo_clock_keys l kl c, of _ "[]"]
  have "accepts (exec ?k1) kick_leaf []"
    using iff [OF k(1)] by (simp add: holds_def demo_shown_def)
  moreover have "\<not> accepts (exec ?k2) kick_leaf []" using iff [OF k(2)] by simp
  moreover have "accepts (exec ?k3) clock_leaf []"
    using iff [OF k(3)] by (simp add: demo_marker_def demo_shown_def)
  ultimately show ?thesis using l kl c by blast
qed

theorem clock_excludes_update_witness:
  "\<exists>leaf. sym_leaf_clock demo_clock_channel = Some leaf
     \<and> accepts (exec (demo_spend (replicate 4 0) [demo_marker, demo_shown (replicate 32 7) [1]] [demo_marker] 1)) leaf []
     \<and> \<not> accepts (exec (demo_spend (replicate 4 0) [demo_marker, demo_shown (replicate 32 7) [1]] [demo_marker] 0))
         (sym_leaf_upd demo_clock_channel 3) [replicate 32 7, le8s 5, [1], [2]]"
proof -
  obtain leaf where l: "sym_leaf_clock demo_clock_channel = Some leaf" by (simp add: sym_leaf_clock_def)
  let ?k = "\<lambda>i. demo_spend (replicate 4 0) [demo_marker, demo_shown (replicate 32 7) [1]] [demo_marker] i"
  have m: "shown_ok demo_marker" by (simp add: demo_marker_def demo_shown_def shown_ok_def)
  have k: "elements_rules demo_crypto (?k 1)" "elements_rules demo_crypto (?k 0)"
    by (auto intro!: demo_spend_rules shown_ok_demo simp: m)
  have a: "accepts (exec (?k 1)) leaf []"
    using accepts_clock [OF k(1) l] by (simp add: demo_marker_def demo_shown_def)
  then show ?thesis
    using l clock_excludes_update [OF k _ l _ a _ demo_clock_keys, of 3 "[replicate 32 7, le8s 5, [1], [2]]"] by simp
qed

end
