(* ===== verification/SymWire.thy ===== *)
theory SymWire
  imports Settlement
begin

unbundle bit_operations_syntax

text \<open>
  How symmetric channels are written: the lanes, swaps and requests of \<^verbatim>\<open>common/sym_lanes.c\<close> and the states
  of \<^verbatim>\<open>common/sym_state.c\<close>, for the peer, for the daemons and for the database, with the readers of a
  transaction id and outpoint of \<^verbatim>\<open>bitcoin/tx.c\<close>. The blobs with ECDSA signatures are left out: libsecp256k1
  reads those. Each type is an interpretation of \<open>canonical_codec\<close>, or of \<open>wire_codec\<close> where the reader takes
  more than what is written.
\<close>

section \<open>Ids, outpoints and signatures\<close>

definition towire_bitcoin_txid :: "bytes \<Rightarrow> bytes" where
  "towire_bitcoin_txid txid = towire_sha256 txid"

definition fromwire_bitcoin_txid :: "bytes reader" where
  "fromwire_bitcoin_txid = fromwire_sha256"

definition towire_bitcoin_outpoint :: "bitcoin_outpoint \<Rightarrow> bytes" where
  "towire_bitcoin_outpoint outp = towire_bitcoin_txid (outpoint_txid outp) @ towire_u32 (outpoint_n outp)"

definition fromwire_bitcoin_outpoint :: "bitcoin_outpoint reader" where
  "fromwire_bitcoin_outpoint =
     do { txid \<leftarrow> fromwire_bitcoin_txid;
          n \<leftarrow> fromwire_u32;
          State_Monad.return \<lparr>outpoint_txid = txid, outpoint_n = n\<rparr> }"

definition towire_channel_id :: "bytes \<Rightarrow> bytes" where
  "towire_channel_id chid = towire chid 32"

definition fromwire_channel_id :: "bytes reader" where
  "fromwire_channel_id = fromwire 32"

definition towire_bip340sig :: "bytes \<Rightarrow> bytes" where
  "towire_bip340sig sig = towire_u8_array sig 64"

definition fromwire_bip340sig :: "bytes reader" where
  "fromwire_bip340sig = fromwire_u8_array 64"

text \<open>The loop that fills an array of \<open>n\<close>.\<close>

fun read_list :: "nat \<Rightarrow> 'a reader \<Rightarrow> 'a list reader" where
  "read_list 0 r = State_Monad.return []"
| "read_list (Suc n) r = do { x \<leftarrow> r; xs \<leftarrow> read_list n r; State_Monad.return (x # xs) }"

section \<open>Lanes, swaps and requests\<close>

definition towire_sym_lane :: "sym_lane \<Rightarrow> bytes" where
  "towire_sym_lane lane =
     towire_u8_array (lane_asset lane) 33 @ towire_u32 (lane_outnum lane) @ towire_amount_sat (lane_funding_sats lane)"

definition fromwire_sym_lane :: "sym_lane reader" where
  "fromwire_sym_lane =
     do { asset \<leftarrow> fromwire_u8_array 33;
          outnum \<leftarrow> fromwire_u32;
          funding_sats \<leftarrow> fromwire_amount_sat;
          State_Monad.return \<lparr>lane_asset = asset, lane_outnum = outnum, lane_funding_sats = funding_sats\<rparr> }"

definition towire_sym_swap :: "sym_swap \<Rightarrow> bytes" where
  "towire_sym_swap swap =
     towire_u64 (swap_id swap) @ towire_u8 (of_nat (htlc_state_index (swap_state swap)))
     @ towire_u16 (give_lane swap) @ towire_u16 (take_lane swap)
     @ towire_amount_msat (swap_give swap) @ towire_amount_msat (swap_take swap)"

text \<open>A number that is no state fails; the state then read here is one of those there are.\<close>

definition swap_state_byte :: "htlc_state reader" where
  "swap_state_byte =
     do { n \<leftarrow> fromwire_u8;
          if unat n \<ge> length all_htlc_states then do { fromwire_fail; State_Monad.return SENT_ADD_HTLC }
          else State_Monad.return (all_htlc_states ! unat n) }"

definition fromwire_sym_swap :: "sym_swap reader" where
  "fromwire_sym_swap =
     do { id \<leftarrow> fromwire_u64;
          st \<leftarrow> swap_state_byte;
          give_l \<leftarrow> fromwire_u16;
          take_l \<leftarrow> fromwire_u16;
          give \<leftarrow> fromwire_amount_msat;
          tk \<leftarrow> fromwire_amount_msat;
          State_Monad.return \<lparr>swap_id = id, swap_state = st, give_lane = give_l, take_lane = take_l,
                              swap_give = give, swap_take = tk\<rparr> }"

abbreviation (input) SEQ_SWAP_REQUEST_MSG :: u16 where "SEQ_SWAP_REQUEST_MSG \<equiv> 48045"

record swap_request =
  req_cid :: bytes
  req_id :: u64
  req_give_lane :: u16
  req_give :: amount_msat
  req_take_lane :: u16
  req_take :: amount_msat
  req_expiry :: u32

definition towire_seq_swap_request :: "swap_request \<Rightarrow> bytes" where
  "towire_seq_swap_request r =
     towire_u16 SEQ_SWAP_REQUEST_MSG @ towire_channel_id (req_cid r) @ towire_u64 (req_id r)
     @ towire_u16 (req_give_lane r) @ towire_amount_msat (req_give r)
     @ towire_u16 (req_take_lane r) @ towire_amount_msat (req_take r) @ towire_u32 (req_expiry r)"

definition swap_request_body :: "swap_request reader" where
  "swap_request_body =
     do { chid \<leftarrow> fromwire_channel_id;
          sid \<leftarrow> fromwire_u64;
          gl \<leftarrow> fromwire_u16;
          give \<leftarrow> fromwire_amount_msat;
          tkl \<leftarrow> fromwire_u16;
          tk \<leftarrow> fromwire_amount_msat;
          expiry \<leftarrow> fromwire_u32;
          State_Monad.return \<lparr>req_cid = chid, req_id = sid, req_give_lane = gl, req_give = give,
                              req_take_lane = tkl, req_take = tk, req_expiry = expiry\<rparr> }"

text \<open>\<open>None\<close> is \<^verbatim>\<open>false\<close>. Bytes after the message are ignored.\<close>

definition fromwire_seq_swap_request :: "bytes \<Rightarrow> swap_request option" where
  "fromwire_seq_swap_request msg =
     (let (ty, c) = run_state fromwire_u16 (Some msg) in
      if ty \<noteq> SEQ_SWAP_REQUEST_MSG then None
      else case run_state swap_request_body c of (r, None) \<Rightarrow> None | (r, Some _) \<Rightarrow> Some r)"

definition sym_lanes_open_blob :: "sym_lane list \<Rightarrow> bytes" where
  "sym_lanes_open_blob lanes =
     towire_u16 (of_nat (length lanes))
     @ concat (map (\<lambda>l. towire_u8_array (lane_asset l) 33 @ towire_amount_sat (lane_funding_sats l)) lanes)"

definition open_blob_lane :: "sym_lane reader" where
  "open_blob_lane =
     do { asset \<leftarrow> fromwire_u8_array 33;
          funding_sats \<leftarrow> fromwire_amount_sat;
          State_Monad.return \<lparr>lane_asset = asset, lane_outnum = 0, lane_funding_sats = funding_sats\<rparr> }"

definition sym_lanes_from_open_blob :: "bytes \<Rightarrow> sym_lane list option" where
  "sym_lanes_from_open_blob blob =
     (let (n, c) = run_state fromwire_u16 (Some blob) in
      if unat n > SYM_MAX_LANES then None
      else case run_state (read_list (unat n) open_blob_lane) c of
             (lanes, Some []) \<Rightarrow> Some lanes
           | (lanes, _) \<Rightarrow> None)"

section \<open>States\<close>

abbreviation (input) SYM_STATE_ASSETS :: u8 where "SYM_STATE_ASSETS \<equiv> 0x80"

definition towire_state_out :: "bool \<Rightarrow> sym_state_out \<Rightarrow> bytes" where
  "towire_state_out assets out =
     towire_amount_sat (so_amount out) @ towire_u16 (of_nat (length (so_spk out)))
     @ towire_u8_array (so_spk out) (length (so_spk out))
     @ (if \<not> assets then []
        else towire_bool (so_asset out \<noteq> None) @ (case so_asset out of None \<Rightarrow> [] | Some a \<Rightarrow> towire_u8_array a 33))"

definition towire_sym_state :: "sym_state \<Rightarrow> bytes" where
  "towire_sym_state st =
     (let assets = list_ex (\<lambda>out. so_asset out \<noteq> None) (ss_outs st) in
      towire_u8 (of_nat (side_index (ss_owner st)) OR (if assets then SYM_STATE_ASSETS else 0))
      @ towire_u64 (ss_commit_num st) @ towire_u64 (ss_num st) @ towire_u16 (of_nat (length (ss_outs st)))
      @ concat (map (towire_state_out assets) (ss_outs st))
      @ concat (map (\<lambda>s. towire_bool (ss_has_sig st s) @ towire_bip340sig (ss_sig st s)) [LOCAL, REMOTE]))"

definition state_out_asset :: "bool \<Rightarrow> bytes option reader" where
  "state_out_asset assets =
     (if assets then
        do { b \<leftarrow> fromwire_bool;
             if b then
               do { a \<leftarrow> fromwire_tal_arrn 33;
                    case a of
                      Some bs \<Rightarrow> if bs ! 0 \<noteq> 0x01 then do { fromwire_fail; State_Monad.return a } else State_Monad.return a
                    | None \<Rightarrow> State_Monad.return a }
             else State_Monad.return None }
      else State_Monad.return None)"

definition fromwire_state_out :: "bool \<Rightarrow> sym_state_out reader" where
  "fromwire_state_out assets =
     do { amount \<leftarrow> fromwire_amount_sat;
          len \<leftarrow> fromwire_u16;
          spk \<leftarrow> fromwire_tal_arrn (unat len);
          asset \<leftarrow> state_out_asset assets;
          State_Monad.return \<lparr>so_amount = amount, so_spk = (case spk of None \<Rightarrow> [] | Some b \<Rightarrow> b), so_asset = asset\<rparr> }"

text \<open>The owner's number without the flag; on another number than a side's the reader fails.\<close>

definition fromwire_sym_state :: "sym_state option reader" where
  "fromwire_sym_state =
     do { own \<leftarrow> fromwire_u8;
          let assets = (own AND SYM_STATE_ASSETS \<noteq> 0);
          let side_no = own AND NOT SYM_STATE_ASSETS;
          _ \<leftarrow> (if side_no \<noteq> 0 \<and> side_no \<noteq> 1 then fromwire_fail else State_Monad.return ());
          commit_num \<leftarrow> fromwire_u64;
          num \<leftarrow> fromwire_u64;
          n \<leftarrow> fromwire_u16;
          outs \<leftarrow> read_list (unat n) (fromwire_state_out assets);
          has_l \<leftarrow> fromwire_bool;
          sig_l \<leftarrow> fromwire_bip340sig;
          has_r \<leftarrow> fromwire_bool;
          sig_r \<leftarrow> fromwire_bip340sig;
          f \<leftarrow> failed;
          State_Monad.return (if f then None
            else Some \<lparr>ss_owner = (if side_no = 0 then LOCAL else REMOTE), ss_commit_num = commit_num, ss_num = num,
                       ss_outs = outs, ss_has_sig = (\<lambda>s. case s of LOCAL \<Rightarrow> has_l | REMOTE \<Rightarrow> has_r),
                       ss_sig = (\<lambda>s. case s of LOCAL \<Rightarrow> sig_l | REMOTE \<Rightarrow> sig_r)\<rparr>) }"
section \<open>The codecs\<close>

lemma sticky_read_list: "sticky r \<Longrightarrow> sticky (read_list n r)"
  by (induction n) auto

lemma list_reads_back:
  assumes "wire_codec put read ok" and "list_all ok xs"
  shows "run_state (read_list (length xs) read) (Some (concat (map put xs) @ rest)) = (xs, Some rest)"
  using assms(2) by (induction xs) (simp_all add: wire_codec.reads_back [OF assms(1)])

lemma list_codec:
  assumes "canonical_codec put read ok"
  shows "canonical_codec (\<lambda>xs. concat (map put xs)) (read_list n read) (\<lambda>xs. length xs = n \<and> list_all ok xs)"
proof -
  have w: "wire_codec put read ok" using assms by (simp add: canonical_codec_def)
  show ?thesis
  proof
    show "run_state (read_list n read) (Some (concat (map put xs) @ rest)) = (xs, Some rest)"
      if "length xs = n \<and> list_all ok xs" for xs rest
      using list_reads_back [OF w, of xs rest] that by simp
    show "sticky (read_list n read)" by (rule sticky_read_list [OF wire_codec.stays_failed [OF w]])
    show "(length xs = n \<and> list_all ok xs) \<and> p = concat (map put xs) @ rest"
      if "run_state (read_list n read) (Some p) = (xs, Some rest)" for p xs rest
      using that
    proof (induction n arbitrary: p xs)
      case (Suc n)
      have s: "sticky (do { xs \<leftarrow> read_list n read; State_Monad.return (x # xs) })" for x
        by (intro sticky_bind sticky_read_list wire_codec.stays_failed [OF w]) simp
      from canonical_codec.accepts_then [OF assms Suc.prems [unfolded read_list.simps] s]
      obtain x r where x: "ok x" "p = put x @ r" "run_state (do { xs \<leftarrow> read_list n read; State_Monad.return (x # xs) }) (Some r) = (xs, Some rest)" by blast
      then obtain ys where ys: "run_state (read_list n read) (Some r) = (ys, Some rest)" "xs = x # ys"
        by (cases "run_state (read_list n read) (Some r)") auto
      with Suc.IH [OF ys(1)] x show ?case by simp
    qed simp
  qed
qed

interpretation txid: canonical_codec towire_bitcoin_txid fromwire_bitcoin_txid "\<lambda>t. length t = 32"
  unfolding towire_bitcoin_txid_def fromwire_bitcoin_txid_def by (rule sha.canonical_codec_axioms)

interpretation chan_id: canonical_codec towire_channel_id fromwire_channel_id "\<lambda>t. length t = 32"
  unfolding towire_channel_id_def fromwire_channel_id_def by (rule fixed.canonical_codec_axioms)

interpretation bip340: canonical_codec towire_bip340sig fromwire_bip340sig "\<lambda>s. length s = 64"
  unfolding towire_bip340sig_def fromwire_bip340sig_def by (rule arr.canonical_codec_axioms)

lemmas codec_reads = txid.reads_back chan_id.reads_back bip340.reads_back arr.reads_back u16.reads_back u32.reads_back
  u64.reads_back amt_sat.reads_back amt_msat.reads_back bool.reads_back

lemmas codec_sticky = txid.sticky_then chan_id.sticky_then bip340.sticky_then arr.sticky_then u16.sticky_then u32.sticky_then
  u64.sticky_then amt_sat.sticky_then amt_msat.sticky_then bool.sticky_then sticky_return

text \<open>
  A struct that is read field by field: \<open>f\<close> is the field that is written first, \<open>k\<close> reads the rest.
\<close>

lemma field_codec:
  assumes first: "canonical_codec pa ra oka" and ok: "\<And>c. ok c \<Longrightarrow> oka (f c)" and s: "\<And>a. sticky (k a)"
    and rest: "\<And>a. oka a \<Longrightarrow> canonical_codec pb (k a) (\<lambda>c. ok c \<and> f c = a)"
  shows "canonical_codec (\<lambda>c. pa (f c) @ pb c) (ra \<bind> k) ok"
proof -
  have w: "wire_codec pa ra oka" using first by (simp add: canonical_codec_def)
  have wk: "wire_codec pb (k a) (\<lambda>c. ok c \<and> f c = a)" if "oka a" for a
    using rest [OF that] by (simp add: canonical_codec_def)
  show ?thesis
  proof
    show "run_state (ra \<bind> k) (Some ((pa (f c) @ pb c) @ r)) = (c, Some r)" if "ok c" for c r
      using wire_codec.reads_back [OF w ok [OF that]] wire_codec.reads_back [OF wk [OF ok [OF that]]] that by simp
    show "sticky (ra \<bind> k)" by (intro sticky_bind s wire_codec.stays_failed [OF w])
    show "ok c \<and> p = (pa (f c) @ pb c) @ r" if run: "run_state (ra \<bind> k) (Some p) = (c, Some r)" for p c r
    proof -
      from canonical_codec.accepts_then [OF first run s] obtain a q where a: "oka a" "p = pa a @ q" "run_state (k a) (Some q) = (c, Some r)"
        by blast
      from canonical_codec.accepts_written [OF rest [OF a(1)] a(3)] a show ?thesis by auto
    qed
  qed
qed

lemma last_field_codec:
  assumes first: "canonical_codec pa ra oka" and ok: "\<And>c. ok c \<Longrightarrow> oka (f c)" and mk: "\<And>a c. oka a \<Longrightarrow> (ok c \<and> f c = a) = (c = mk a)"
  shows "canonical_codec (\<lambda>c. pa (f c)) (ra \<bind> (\<lambda>a. State_Monad.return (mk a))) ok"
proof -
  have "canonical_codec (\<lambda>_. []) (State_Monad.return (mk a)) (\<lambda>c. ok c \<and> f c = a)" if "oka a" for a
    using mk [OF that] by unfold_locales auto
  from field_codec [OF first ok _ this] show ?thesis by simp
qed

interpretation outpoint: canonical_codec towire_bitcoin_outpoint fromwire_bitcoin_outpoint "\<lambda>x. length (outpoint_txid x) = 32"
  unfolding towire_bitcoin_outpoint_def fromwire_bitcoin_outpoint_def
  apply (rule field_codec [where f = outpoint_txid, OF txid.canonical_codec_axioms], simp, (intro codec_sticky)[1])
  apply (rule last_field_codec [where f = outpoint_n, OF u32.canonical_codec_axioms], simp)
  apply auto
  done

interpretation lane: canonical_codec towire_sym_lane fromwire_sym_lane "\<lambda>l. length (lane_asset l) = 33"
  unfolding towire_sym_lane_def fromwire_sym_lane_def
  apply (rule field_codec [where f = lane_asset, OF arr.canonical_codec_axioms], simp, (intro codec_sticky)[1])
  apply (rule field_codec [where f = lane_outnum, OF u32.canonical_codec_axioms], simp, (intro codec_sticky)[1])
  apply (rule last_field_codec [where f = lane_funding_sats, OF amt_sat.canonical_codec_axioms], simp)
  apply auto
  done
lemma all_states_index: "htlc_state_index st < length all_htlc_states" "all_htlc_states ! htlc_state_index st = st"
  by (cases st; simp add: all_htlc_states_def)+

lemma index_all_states: "n < length all_htlc_states \<Longrightarrow> htlc_state_index (all_htlc_states ! n) = n"
proof -
  have "\<forall>n \<in> set [0 ..< length all_htlc_states]. htlc_state_index (all_htlc_states ! n) = n"
    by (simp add: all_htlc_states_def upt_rec_numeral)
  then show "n < length all_htlc_states \<Longrightarrow> htlc_state_index (all_htlc_states ! n) = n" by simp
qed

interpretation swap_st: canonical_codec "\<lambda>st. towire_u8 (of_nat (htlc_state_index st))" swap_state_byte "\<lambda>_. True"
proof
  have len: "length all_htlc_states = 20" by (simp add: all_htlc_states_def)
  have u: "unat (of_nat (htlc_state_index st) :: u8) = htlc_state_index st" for st
    using all_states_index(1) [of st] len by (simp add: unat_of_nat_u8)
  show "run_state swap_state_byte (Some (towire_u8 (of_nat (htlc_state_index st)) @ rest)) = (st, Some rest)" for st rest
    using all_states_index [of st] by (simp add: swap_state_byte_def towire_u8_def fromwire_u8_def run_fromwire u be_val_def)
  show "sticky swap_state_byte"
    by (simp add: sticky_def swap_state_byte_def fromwire_u8_def run_fromwire)
  show "True \<and> p = towire_u8 (of_nat (htlc_state_index st)) @ rest" if "run_state swap_state_byte (Some p) = (st, Some rest)" for p st rest
    using that by (cases p) (auto simp: swap_state_byte_def fromwire_u8_def run_fromwire be_val_def towire_u8_def index_all_states split: if_splits)
qed

interpretation swap: canonical_codec towire_sym_swap fromwire_sym_swap "\<lambda>_. True"
  unfolding towire_sym_swap_def fromwire_sym_swap_def
  apply (rule field_codec [where f = swap_id, OF u64.canonical_codec_axioms], simp, (intro codec_sticky swap_st.sticky_then)[1])
  apply (rule field_codec [where f = swap_state, OF swap_st.canonical_codec_axioms], simp, (intro codec_sticky)[1])
  apply (rule field_codec [where f = give_lane, OF u16.canonical_codec_axioms], simp, (intro codec_sticky)[1])
  apply (rule field_codec [where f = take_lane, OF u16.canonical_codec_axioms], simp, (intro codec_sticky)[1])
  apply (rule field_codec [where f = swap_give, OF amt_msat.canonical_codec_axioms], simp, (intro codec_sticky)[1])
  apply (rule last_field_codec [where f = swap_take, OF amt_msat.canonical_codec_axioms], simp)
  apply auto
  done
interpretation request: canonical_codec
  "\<lambda>r. towire_channel_id (req_cid r) @ towire_u64 (req_id r)
     @ towire_u16 (req_give_lane r) @ towire_amount_msat (req_give r)
     @ towire_u16 (req_take_lane r) @ towire_amount_msat (req_take r) @ towire_u32 (req_expiry r)"
  swap_request_body "\<lambda>r. length (req_cid r) = 32"
  unfolding swap_request_body_def
  apply (rule field_codec [where f = req_cid, OF chan_id.canonical_codec_axioms], simp, (intro codec_sticky)[1])
  apply (rule field_codec [where f = req_id, OF u64.canonical_codec_axioms], simp, (intro codec_sticky)[1])
  apply (rule field_codec [where f = req_give_lane, OF u16.canonical_codec_axioms], simp, (intro codec_sticky)[1])
  apply (rule field_codec [where f = req_give, OF amt_msat.canonical_codec_axioms], simp, (intro codec_sticky)[1])
  apply (rule field_codec [where f = req_take_lane, OF u16.canonical_codec_axioms], simp, (intro codec_sticky)[1])
  apply (rule field_codec [where f = req_take, OF amt_msat.canonical_codec_axioms], simp, (intro codec_sticky)[1])
  apply (rule last_field_codec [where f = req_expiry, OF u32.canonical_codec_axioms], simp)
  apply auto
  done

lemma swap_request_iff:
  "fromwire_seq_swap_request msg = Some r \<longleftrightarrow> length (req_cid r) = 32 \<and> (\<exists>rest. msg = towire_seq_swap_request r @ rest)"
proof
  assume "fromwire_seq_swap_request msg = Some r"
  then obtain c q where ty: "run_state fromwire_u16 (Some msg) = (SEQ_SWAP_REQUEST_MSG, c)" and b: "run_state swap_request_body c = (r, Some q)"
    by (auto simp: fromwire_seq_swap_request_def split: prod.splits if_splits option.splits)
  from b request.stays_failed obtain m where c: "c = Some m" by (cases c) (auto dest: sticky_None)
  from u16.accepts_written ty c have "msg = towire_u16 SEQ_SWAP_REQUEST_MSG @ m" by simp
  with request.accepts_written [of m r q] b c show "length (req_cid r) = 32 \<and> (\<exists>rest. msg = towire_seq_swap_request r @ rest)"
    by (auto simp: towire_seq_swap_request_def)
next
  assume "length (req_cid r) = 32 \<and> (\<exists>rest. msg = towire_seq_swap_request r @ rest)"
  then obtain rest where ok: "length (req_cid r) = 32" and msg: "msg = towire_seq_swap_request r @ rest" by blast
  have "run_state fromwire_u16 (Some msg) = (SEQ_SWAP_REQUEST_MSG, Some (towire_channel_id (req_cid r) @ towire_u64 (req_id r)
     @ towire_u16 (req_give_lane r) @ towire_amount_msat (req_give r)
     @ towire_u16 (req_take_lane r) @ towire_amount_msat (req_take r) @ towire_u32 (req_expiry r) @ rest))"
    by (simp add: msg towire_seq_swap_request_def u16.reads_back)
  then show "fromwire_seq_swap_request msg = Some r"
    using request.reads_back [OF ok, of rest] by (simp add: fromwire_seq_swap_request_def)
qed

interpretation open_lane: canonical_codec "\<lambda>l. towire_u8_array (lane_asset l) 33 @ towire_amount_sat (lane_funding_sats l)"
  open_blob_lane "\<lambda>l. length (lane_asset l) = 33 \<and> lane_outnum l = 0"
  unfolding open_blob_lane_def
  apply (rule field_codec [where f = lane_asset, OF arr.canonical_codec_axioms], simp, (intro codec_sticky)[1])
  apply (rule last_field_codec [where f = lane_funding_sats, OF amt_sat.canonical_codec_axioms], simp)
  apply auto
  done

lemma unat_of_nat_u16: "unat (of_nat k :: u16) = k mod 65536"
  by (simp add: unat_of_nat take_bit_eq_mod)

lemma open_blob_iff:
  "sym_lanes_from_open_blob blob = Some lanes \<longleftrightarrow>
     length lanes \<le> SYM_MAX_LANES \<and> list_all (\<lambda>l. length (lane_asset l) = 33 \<and> lane_outnum l = 0) lanes
     \<and> blob = sym_lanes_open_blob lanes"
proof
  assume "sym_lanes_from_open_blob blob = Some lanes"
  then obtain n c where n: "run_state fromwire_u16 (Some blob) = (n, c)" "unat n \<le> SYM_MAX_LANES"
      "run_state (read_list (unat n) open_blob_lane) c = (lanes, Some [])"
    by (auto simp: sym_lanes_from_open_blob_def not_less split: prod.splits if_splits option.splits list.splits)
  have sticky: "sticky (read_list (unat n) open_blob_lane)" by (rule sticky_read_list [OF open_lane.stays_failed])
  from n(3) obtain m where c: "c = Some m" by (cases c) (auto dest: sticky_None [OF sticky])
  with n(1) u16.accepts_written have b: "blob = towire_u16 n @ m" by simp
  from n(3) c canonical_codec.accepts_written [OF list_codec [OF open_lane.canonical_codec_axioms], of "unat n" m lanes "[]"]
  have l: "length lanes = unat n" "list_all (\<lambda>l. length (lane_asset l) = 33 \<and> lane_outnum l = 0) lanes"
    "m = concat (map (\<lambda>l. towire_u8_array (lane_asset l) 33 @ towire_amount_sat (lane_funding_sats l)) lanes)"
    by simp_all
  then show "length lanes \<le> SYM_MAX_LANES \<and> list_all (\<lambda>l. length (lane_asset l) = 33 \<and> lane_outnum l = 0) lanes
     \<and> blob = sym_lanes_open_blob lanes"
    using n(2) b by (simp add: sym_lanes_open_blob_def)
next
  assume a: "length lanes \<le> SYM_MAX_LANES \<and> list_all (\<lambda>l. length (lane_asset l) = 33 \<and> lane_outnum l = 0) lanes
     \<and> blob = sym_lanes_open_blob lanes"
  then have u: "unat (of_nat (length lanes) :: u16) = length lanes" by (simp add: unat_of_nat_u16)
  have "run_state fromwire_u16 (Some blob) = (of_nat (length lanes),
      Some (concat (map (\<lambda>l. towire_u8_array (lane_asset l) 33 @ towire_amount_sat (lane_funding_sats l)) lanes)))"
    using a by (simp add: sym_lanes_open_blob_def u16.reads_back)
  moreover have "run_state (read_list (length lanes) open_blob_lane)
      (Some (concat (map (\<lambda>l. towire_u8_array (lane_asset l) 33 @ towire_amount_sat (lane_funding_sats l)) lanes) @ [])) = (lanes, Some [])"
    by (rule list_reads_back [OF open_lane.wire_codec_axioms]) (use a in simp)
  ultimately show "sym_lanes_from_open_blob blob = Some lanes"
    using a by (simp add: sym_lanes_from_open_blob_def u)
qed
definition state_out_ok :: "sym_state_out \<Rightarrow> bool" where
  "state_out_ok out \<longleftrightarrow> length (so_spk out) < 2 ^ 16
     \<and> (case so_asset out of None \<Rightarrow> True | Some a \<Rightarrow> length a = 33 \<and> a ! 0 = 0x01)"

definition state_ok :: "sym_state \<Rightarrow> bool" where
  "state_ok st \<longleftrightarrow> length (ss_outs st) < 2 ^ 16 \<and> list_all state_out_ok (ss_outs st) \<and> (\<forall>s. length (ss_sig st s) = 64)"

lemma run_tal_arrn:
  "run_state (fromwire_tal_arrn (length b)) (Some (towire_u8_array b (length b) @ rest)) = (if b = [] then None else Some b, Some rest)"
  by (simp add: fromwire_tal_arrn_def arr.reads_back) (simp add: towire_u8_array_def towire_def)

lemma state_out_reads_back:
  assumes "state_out_ok out" and "assets \<or> so_asset out = None"
  shows "run_state (fromwire_state_out assets) (Some (towire_state_out assets out @ rest)) = (out, Some rest)"
proof -
  have u: "unat (of_nat (length (so_spk out)) :: u16) = length (so_spk out)"
    using assms(1) by (simp add: state_out_ok_def unat_of_nat_u16)
  have tal: "run_state (fromwire_tal_arrn 33) (Some (towire_u8_array a 33 @ r)) = (Some a, Some r)" if "length a = 33" for a r
    using run_tal_arrn [of a r] that by auto
  have "run_state (state_out_asset assets)
      (Some ((if \<not> assets then []
        else towire_bool (so_asset out \<noteq> None) @ (case so_asset out of None \<Rightarrow> [] | Some a \<Rightarrow> towire_u8_array a 33)) @ rest))
    = (so_asset out, Some rest)"
    using assms by (cases "so_asset out") (auto simp: state_out_asset_def bool.reads_back tal state_out_ok_def)
  then show ?thesis
    by (simp add: fromwire_state_out_def towire_state_out_def amt_sat.reads_back u16.reads_back u run_tal_arrn)
qed

lemma state_outs_read_back:
  "list_all (\<lambda>out. state_out_ok out \<and> (assets \<or> so_asset out = None)) outs \<Longrightarrow>
     run_state (read_list (length outs) (fromwire_state_out assets)) (Some (concat (map (towire_state_out assets) outs) @ rest)) = (outs, Some rest)"
  by (induction outs) (simp_all add: state_out_reads_back)

lemma sym_state_reads_back:
  assumes "state_ok st"
  shows "run_state fromwire_sym_state (Some (towire_sym_state st @ rest)) = (Some st, Some rest)"
proof -
  define assets where "assets = list_ex (\<lambda>out. so_asset out \<noteq> None) (ss_outs st)"
  define b where "b = (of_nat (side_index (ss_owner st)) OR (if assets then SYM_STATE_ASSETS else 0) :: u8)"
  have b: "(b AND SYM_STATE_ASSETS \<noteq> 0) = assets" "b AND - 129 = of_nat (side_index (ss_owner st))"
    by (cases "ss_owner st"; cases assets; simp add: b_def)+
  have outs: "list_all (\<lambda>out. state_out_ok out \<and> (assets \<or> so_asset out = None)) (ss_outs st)"
    using assms by (auto simp: state_ok_def assets_def list_all_iff list_ex_iff)
  have u: "unat (of_nat (length (ss_outs st)) :: u16) = length (ss_outs st)"
    using assms by (simp add: state_ok_def unat_of_nat_u16)
  have sig: "length (ss_sig st s) = 64" for s using assms by (simp add: state_ok_def)
  have u8: "run_state fromwire_u8 (Some (towire_u8 b @ r)) = (b, Some r)" for r
    by (simp add: fromwire_u8_def towire_u8_def run_fromwire be_val_def)
  define o8 where "o8 = (of_nat (side_index (ss_owner st)) :: u8)"
  have owner: "(if o8 = 0 then LOCAL else REMOTE) = ss_owner st" "(o8 \<noteq> 0 \<and> o8 \<noteq> 1) = False"
    by (cases "ss_owner st"; simp add: o8_def)+
  have fns: "(\<lambda>s. case s of LOCAL \<Rightarrow> g LOCAL | REMOTE \<Rightarrow> g REMOTE) = g" for g :: "side \<Rightarrow> 'a"
    by (rule ext) (simp split: side.split)
  show ?thesis
    unfolding towire_sym_state_def fromwire_sym_state_def Let_def assets_def [symmetric] b_def [symmetric]
    using u8 b by (simp add: codec_reads u state_outs_read_back [OF outs] sig owner fns flip: o8_def)
qed
text \<open>
  A request for a swap is read exactly from its own bytes, whatever follows them, and the list of
  lanes of an open exactly from its own bytes and nothing after them, if there are at most eight.
  Every other message is refused.
\<close>

theorem lanes_messages_exact:
  "(fromwire_seq_swap_request msg = Some r \<longleftrightarrow> length (req_cid r) = 32 \<and> (\<exists>rest. msg = towire_seq_swap_request r @ rest))
   \<and> (sym_lanes_from_open_blob blob = Some lanes \<longleftrightarrow>
        length lanes \<le> SYM_MAX_LANES \<and> list_all (\<lambda>l. length (lane_asset l) = 33 \<and> lane_outnum l = 0) lanes
        \<and> blob = sym_lanes_open_blob lanes)"
  using swap_request_iff open_blob_iff by blast

text \<open>
  (C19) A state that is stored or handed to another daemon is read back as it was, with its outputs, their
  assets and both signatures: the flag in the owner's byte tells whether assets follow.
\<close>

theorem sym_state_roundtrip:
  assumes "state_ok st"
  shows "run_state fromwire_sym_state (Some (towire_sym_state st @ rest)) = (Some st, Some rest)"
  using assms by (rule sym_state_reads_back)

theorem sym_state_roundtrip_witness:
  "\<exists>st. st = sym_state_new REMOTE 3 7 [demo_sym_output, demo_sym_output\<lparr>out_asset := Some (1 # replicate 32 8)\<rparr>]
     \<and> run_state fromwire_sym_state (Some (towire_sym_state st @ [0xff])) = (Some st, Some [0xff])"
proof -
  let ?st = "sym_state_new REMOTE 3 7 [demo_sym_output, demo_sym_output\<lparr>out_asset := Some (1 # replicate 32 8)\<rparr>]"
  have "state_ok ?st" by (simp add: state_ok_def state_out_ok_def sym_state_new_def demo_sym_output_def)
  then show ?thesis using sym_state_roundtrip [of ?st "[0xff]"] by blast
qed

end
