(* ===== verification/SymFactory.thy ===== *)
theory SymFactory
  imports Covenant SymWire
begin

unbundle bit_operations_syntax

text \<open>
  Factories of symmetric channels: \<^verbatim>\<open>common/sym_factory.c\<close>. One output F that anybody may spend, by the
  leaf SPLIT, into the kickoff outputs of many channels. The definitions are the leaf and its digest,
  F's script and witness, the check that a member makes, and the wire format.

  The lemmas say which transactions SPLIT accepts, that a checked factory's value is in range, and that
  a factory is read back as it was written.
\<close>

section \<open>The definitions\<close>

record sym_factory_slot =
  slot_program :: bytes
  slot_amount :: amount_sat

record sym_factory =
  f_nonce :: bytes
  f_slot :: u16
  f_asset :: bytes
  f_slots :: "sym_factory_slot list"
  f_out :: bitcoin_outpoint

abbreviation (input) SYM_FACTORY_MAX_SLOTS :: nat where "SYM_FACTORY_MAX_SLOTS \<equiv> 1000"

definition sf_nums_der :: bytes where
  "sf_nums_der =
     [0x02, 0x50, 0x92, 0x9b, 0x74, 0xc1, 0xa0, 0x49, 0x54, 0xb7, 0x8b,
      0x4b, 0x60, 0x35, 0xe9, 0x7a, 0x5e, 0x07, 0x8a, 0x5a, 0x0f, 0x28,
      0xec, 0x96, 0xd5, 0x47, 0xbf, 0xee, 0x9a, 0xce, 0x80, 0x3a, 0xc0]"

definition sf_op :: "u8 \<Rightarrow> bytes" where "sf_op opcode = [opcode]"

definition sf_push_num :: "u32 \<Rightarrow> bytes" where
  "sf_push_num num =
     (if num = 0 then sf_op OP_0
      else if num \<le> 16 then sf_op (OP_1 + ucast num - 1)
      else let buf = num_digits num in
           script_push_bytes (if last buf AND 0x80 \<noteq> 0 then buf @ [0] else buf))"

definition sym_factory_id :: "sym_factory \<Rightarrow> bitcoin_outpoint" where
  "sym_factory_id f = \<lparr>outpoint_txid = f_nonce f, outpoint_n = ucast (f_slot f)\<rparr>"

definition sym_factory_value :: "sym_factory_slot list \<Rightarrow> amount_sat option" where
  "sym_factory_value slots = accumulate_all amount_sat_add (AMOUNT_SAT 0) (map slot_amount slots)"

text \<open>What one slot adds to the hash.\<close>

definition split_piece :: "crypto \<Rightarrow> bytes \<Rightarrow> sym_factory_slot \<Rightarrow> bytes" where
  "split_piece cr asset slot =
     take 32 (drop 1 asset) @ [0x01] @ le_bytes 8 (sat (slot_amount slot)) @ [0x01]
     @ sha256 cr (take 32 (slot_program slot) @ [0x01])"

definition sym_split_digest :: "crypto \<Rightarrow> bytes \<Rightarrow> sym_factory_slot list \<Rightarrow> bytes" where
  "sym_split_digest cr asset slots = sha256 cr (concat (map (split_piece cr asset) slots))"

definition split_output_ops :: "nat \<Rightarrow> nat \<Rightarrow> bytes" where
  "split_output_ops m i =
     sf_push_num (of_nat i) @ sf_op SYM_OP_INSPECTOUTPUTASSET @ sf_op SYM_OP_CAT
     @ sf_op (if i = 0 then SYM_OP_SHA256INITIALIZE else SYM_OP_SHA256UPDATE)
     @ sf_push_num (of_nat i) @ sf_op SYM_OP_INSPECTOUTPUTVALUE @ sf_op SYM_OP_CAT @ sf_op SYM_OP_SHA256UPDATE
     @ sf_push_num (of_nat i) @ sf_op SYM_OP_INSPECTOUTPUTSCRIPTPUBKEY @ sf_op SYM_OP_CAT @ sf_op OP_SHA256
     @ sf_op (if i = m - 1 then SYM_OP_SHA256FINALIZE else SYM_OP_SHA256UPDATE)"

definition sym_leaf_split :: "crypto \<Rightarrow> bytes \<Rightarrow> sym_factory_slot list \<Rightarrow> bytes run" where
  "sym_leaf_split cr asset slots =
     (let m = length slots in
      if m < 1 then None
      else Some (concat (map (split_output_ops m) [0 ..< m])
                 @ script_push_bytes (sym_split_digest cr asset slots) @ sf_op OP_EQUAL))"

text \<open>The output key, and the leaf.\<close>

definition factory_key :: "crypto \<Rightarrow> bytes \<Rightarrow> sym_factory_slot list \<Rightarrow> (bytes \<times> bytes) run" where
  "factory_key cr asset slots =
     do { leaf \<leftarrow> sym_leaf_split cr asset slots;
          Some (bip341_tweak cr sf_nums_der (tap_leaf_hash cr leaf), leaf) }"

definition sym_factory_spk :: "crypto \<Rightarrow> bytes \<Rightarrow> sym_factory_slot list \<Rightarrow> bytes run" where
  "sym_factory_spk cr asset slots =
     do { (der, leaf) \<leftarrow> factory_key cr asset slots; Some ([OP_1, 32] @ take 32 (drop 1 der)) }"

definition sym_split_witness :: "crypto \<Rightarrow> bytes \<Rightarrow> sym_factory_slot list \<Rightarrow> bytes list run" where
  "sym_split_witness cr asset slots =
     do { (der, leaf) \<leftarrow> factory_key cr asset slots;
          Some [leaf, [TAPSCRIPT_LEAF_VERSION_ELEMENTS OR (if der ! 0 = SECP256K1_TAG_PUBKEY_ODD then 1 else 0)]
                      @ take 32 (drop 1 sf_nums_der)] }"

definition sym_factory_ko_spk :: "sym_factory \<Rightarrow> nat \<Rightarrow> bytes run" where
  "sym_factory_ko_spk f slot =
     (if slot < length (f_slots f) then Some ([OP_1, 32] @ take 32 (slot_program (f_slots f ! slot))) else None)"

datatype factory_err =
    FACTORY_OF_SLOTS nat
  | FACTORY_SLOT_OF u16 nat
  | FACTORY_ASSET_NOT_EXPLICIT
  | FACTORY_NOT_OUR_KICKOFF u16
  | FACTORY_SLOT_PAYS u16 amount_sat amount_sat
  | FACTORY_PAYS_NOTHING nat
  | FACTORY_OVERFLOWS

text \<open>The first slot that pays nothing.\<close>

fun pays_nothing :: "nat \<Rightarrow> sym_factory_slot list \<Rightarrow> nat option" where
  "pays_nothing i [] = None"
| "pays_nothing i (s # ss) = (if amount_sat_eq (slot_amount s) (AMOUNT_SAT 0) then Some i else pays_nothing (Suc i) ss)"

text \<open>\<open>None\<close> is \<^verbatim>\<open>NULL\<close>: the factory is sound.\<close>

definition sym_factory_check :: "sym_factory \<Rightarrow> bytes \<Rightarrow> amount_sat \<Rightarrow> factory_err option" where
  "sym_factory_check f own_ko_program own_amount =
     (let n = length (f_slots f); slot = f_slots f ! unat (f_slot f) in
      if n < 2 \<or> n > SYM_FACTORY_MAX_SLOTS then Some (FACTORY_OF_SLOTS n)
      else if unat (f_slot f) \<ge> n then Some (FACTORY_SLOT_OF (f_slot f) n)
      else if f_asset f ! 0 \<noteq> 0x01 then Some FACTORY_ASSET_NOT_EXPLICIT
      else if take 32 (slot_program slot) \<noteq> take 32 own_ko_program then Some (FACTORY_NOT_OUR_KICKOFF (f_slot f))
      else if \<not> amount_sat_eq (slot_amount slot) own_amount
      then Some (FACTORY_SLOT_PAYS (f_slot f) (slot_amount slot) own_amount)
      else case pays_nothing 0 (f_slots f) of
             Some i \<Rightarrow> Some (FACTORY_PAYS_NOTHING i)
           | None \<Rightarrow>
               case sym_factory_value (f_slots f) of
                 None \<Rightarrow> Some FACTORY_OVERFLOWS
               | Some t \<Rightarrow> if sat t > 2 ^ 63 - 1 then Some FACTORY_OVERFLOWS else None)"

definition towire_factory_slot :: "sym_factory_slot \<Rightarrow> bytes" where
  "towire_factory_slot slot = towire_u8_array (slot_program slot) 32 @ towire_amount_sat (slot_amount slot)"

definition towire_sym_factory :: "sym_factory \<Rightarrow> bytes" where
  "towire_sym_factory f =
     towire_bitcoin_txid (f_nonce f) @ towire_u16 (f_slot f) @ towire_u8_array (f_asset f) 33
     @ towire_bitcoin_outpoint (f_out f) @ towire_u16 (of_nat (length (f_slots f)))
     @ concat (map towire_factory_slot (f_slots f))"

definition fromwire_factory_slot :: "sym_factory_slot reader" where
  "fromwire_factory_slot =
     do { prog \<leftarrow> fromwire_u8_array 32;
          amount \<leftarrow> fromwire_amount_sat;
          State_Monad.return \<lparr>slot_program = prog, slot_amount = amount\<rparr> }"

definition fromwire_factory_slots :: "sym_factory_slot list option reader" where
  "fromwire_factory_slots =
     do { n \<leftarrow> fromwire_u16;
          if unat n > SYM_FACTORY_MAX_SLOTS then do { fromwire_fail; State_Monad.return None }
          else do { slots \<leftarrow> read_list (unat n) fromwire_factory_slot; State_Monad.return (Some slots) } }"

text \<open>The inner \<open>None\<close> is \<^verbatim>\<open>NULL\<close>.\<close>

definition fromwire_sym_factory :: "sym_factory option reader" where
  "fromwire_sym_factory =
     do { nonce \<leftarrow> fromwire_bitcoin_txid;
          slot \<leftarrow> fromwire_u16;
          asset \<leftarrow> fromwire_u8_array 33;
          out \<leftarrow> fromwire_bitcoin_outpoint;
          r \<leftarrow> fromwire_factory_slots;
          f \<leftarrow> failed;
          State_Monad.return (if f then None
            else map_option (\<lambda>slots. \<lparr>f_nonce = nonce, f_slot = slot, f_asset = asset, f_slots = slots, f_out = out\<rparr>) r) }"
section \<open>What SPLIT accepts\<close>

lemma split_ops_eq: "split_output_ops m i = settle_output_ops m 0 i"
  by (simp add: split_output_ops_def settle_output_ops_def sf_push_num_def push_num_def sf_op_def op_def push_def Let_def)

text \<open>What an output of the transaction has to be for a slot.\<close>

definition pays_slot :: "crypto \<Rightarrow> bytes \<Rightarrow> sym_factory_slot \<Rightarrow> shown \<Rightarrow> bool" where
  "pays_slot cr asset slot x \<longleftrightarrow>
     sh_asset x = drop 1 asset \<and> sh_asset_prefix x = 1 \<and> sh_value x = le_bytes 8 (sat (slot_amount slot)) \<and> sh_value_prefix x = 1
     \<and> sha256 cr (sh_program x @ sh_version x) = sha256 cr (slot_program slot @ [1])"

text \<open>A slot as an output of a settlement.\<close>

definition slot_out :: "bytes \<Rightarrow> sym_factory_slot \<Rightarrow> sym_output" where
  "slot_out asset slot = \<lparr>out_kind = SYM_OUT_BALANCE, out_side = LOCAL, out_amount = slot_amount slot,
     out_spk = OP_1 # 32 # slot_program slot, out_asset = Some asset, out_htlc = None, out_cltv_expiry = 0\<rparr>"

lemma slot_program_of: "length (slot_program slot) = 32 \<Longrightarrow> witness_program (out_spk (slot_out asset slot)) = Some (1, slot_program slot)"
  by (simp add: witness_program_def slot_out_def)

lemma pays_slot_out: "length (slot_program slot) = 32 \<Longrightarrow> pays cr sc (slot_out asset slot) x = pays_slot cr asset slot x"
  by (simp add: pays_def pays_slot_def slot_program_of) (simp add: slot_out_def settle_asset_def)

lemma split_piece_out:
  "length (slot_program slot) = 32 \<Longrightarrow> length asset = 33 \<Longrightarrow> settle_piece cr sc (slot_out asset slot) = Some (split_piece cr asset slot)"
  by (simp add: settle_piece_def slot_program_of split_piece_def) (simp add: slot_out_def)

lemma split_pieces:
  "list_all (\<lambda>s. length (slot_program s) = 32) slots \<Longrightarrow> length asset = 33
     \<Longrightarrow> map_run (settle_piece cr sc) (map (slot_out asset) slots) = Some (map (split_piece cr asset) slots)"
  by (induction slots) (simp_all add: split_piece_out)

lemma accepts_split:
  assumes "crypto_ok cr" and "elements_rules cr k" and "length slots < 2 ^ 30" and "sym_leaf_split cr asset slots = Some leaf"
  shows "accepts (exec k) leaf s \<longleftrightarrow> s = [] \<and> length slots \<le> length (tx_outs k)
    \<and> sha256 cr (hashed_outs cr k 0 (length slots)) = sym_split_digest cr asset slots"
proof -
  have m: "0 < length slots" using assms(4) by (auto simp: sym_leaf_split_def split: if_splits)
  have len: "length (sym_split_digest cr asset slots) = 32" using assms(1) by (simp add: sym_split_digest_def crypto_ok_def)
  have leaf: "leaf = concat (map (settle_output_ops (length slots) 0) [0 ..< length slots])
      @ push (sym_split_digest cr asset slots) @ op OP_EQUAL"
    using assms(4) m split_ops_eq [of "length slots"]
    by (simp add: sym_leaf_split_def push_def sf_op_def op_def Let_def cong: map_cong)
  have "0 + length slots < 2 ^ 31" using assms(3) by simp
  from run_digest [OF assms(2) this m len, of s] show ?thesis by (auto simp: accepts_def leaf)
qed

lemma split_hash_iff:
  assumes "crypto_ok cr" and "elements_rules cr k" and "list_all (\<lambda>s. length (slot_program s) = 32) slots" and "length asset = 33"
    and "length slots \<le> length (tx_outs k)"
  shows "list_all2 (pays_slot cr asset) slots (take (length slots) (tx_outs k))
    \<longleftrightarrow> hashed_outs cr k 0 (length slots) = concat (map (split_piece cr asset) slots)"
proof -
  let ?xs = "take (length slots) (tx_outs k)"
  have ok: "list_all shown_ok ?xs"
    using assms(2) by (auto simp: elements_rules_def tx_ok_def list_all_iff dest!: in_set_takeD)
  have "list_all2 (pays_slot cr asset) slots ?xs \<longleftrightarrow> list_all2 (pays cr undefined) (map (slot_out asset) slots) ?xs"
    using assms(3) by (auto simp: list_all2_conv_all_nth list_all_length pays_slot_out)
  also have "\<dots> \<longleftrightarrow> concat (map (shown_piece cr) ?xs) = concat (map (split_piece cr asset) slots)"
  proof (rule list_all2_pays [OF assms(1) _ split_pieces [OF assms(3,4)] ok])
    show "\<forall>out \<in> set (map (slot_out asset) slots). length (settle_asset undefined out) = 33"
      using assms(4) by (auto simp: settle_asset_def slot_out_def)
    show "length ?xs = length (map (slot_out asset) slots)" using assms(5) by simp
  qed
  finally show ?thesis by (simp add: hashed_outs_def)
qed

text \<open>
  (C16) Whoever it is, a transaction may spend F by SPLIT if and only if it has no further witness and its
  first outputs have, in order, the factory's asset, the slot's amount, both explicit, and a script whose
  program and version, one behind the other, have the hash of the slot's program and a byte 1. Other scripts than the
  slot's have that hash, as is shown next. Any input and any output after them
  is free. Of the hash it is assumed that it does not take these outputs' bytes for others of the slots.
\<close>

theorem split_leaf_accepts_iff:
  assumes "crypto_ok cr" and "elements_rules cr k" and "length slots < 2 ^ 30" and "sym_leaf_split cr asset slots = Some leaf"
    and "list_all (\<lambda>s. length (slot_program s) = 32) slots" and "length asset = 33"
    and "sha256 cr (hashed_outs cr k 0 (length slots)) = sha256 cr (concat (map (split_piece cr asset) slots))
      \<Longrightarrow> hashed_outs cr k 0 (length slots) = concat (map (split_piece cr asset) slots)"
  shows "accepts (exec k) leaf s \<longleftrightarrow> s = [] \<and> list_all2 (pays_slot cr asset) slots (take (length slots) (tx_outs k))"
proof (cases "length slots \<le> length (tx_outs k)")
  case True
  have "list_all2 (pays_slot cr asset) slots (take (length slots) (tx_outs k))
      \<longleftrightarrow> sha256 cr (hashed_outs cr k 0 (length slots)) = sha256 cr (concat (map (split_piece cr asset) slots))"
    unfolding split_hash_iff [OF assms(1,2,5,6) True] using assms(7) by metis
  then show ?thesis unfolding accepts_split [OF assms(1-4)] sym_split_digest_def using True by blast
next
  case False
  then have "\<not> list_all2 (pays_slot cr asset) slots (take (length slots) (tx_outs k))" by (auto dest: list_all2_lengthD)
  then show ?thesis unfolding accepts_split [OF assms(1-4)] using False by blast
qed
text \<open>An output of version 0 whose program is the slot's and a byte 1: a script that nothing can spend.\<close>

definition burnt_out :: "bytes \<Rightarrow> sym_factory_slot \<Rightarrow> shown" where
  "burnt_out asset slot =
     \<lparr>sh_asset = drop 1 asset, sh_asset_prefix = 1, sh_value = le_bytes 8 (sat (slot_amount slot)), sh_value_prefix = 1,
      sh_program = slot_program slot @ [1], sh_version = []\<rparr>"

text \<open>
  (C17) The script that the slot's output hashes as need not be its kickoff output's. The leaf hashes the
  program and then the version, which for version 0 is no byte at all, so SPLIT also accepts, of
  anybody, a transaction that pays every slot to the version 0 program of 33 bytes that is the
  kickoff's program and a byte 1. No rule lets such an output be spent: the channels are lost.
\<close>

theorem split_accepts_burning:
  assumes "crypto_ok cr" and "elements_rules cr k" and "length slots < 2 ^ 30" and "sym_leaf_split cr asset slots = Some leaf"
    and "list_all (\<lambda>s. length (slot_program s) = 32) slots" and "length asset = 33"
    and "tx_outs k = map (burnt_out asset) slots @ change"
  shows "accepts (exec k) leaf []
    \<and> (\<forall>j < length slots. sh_version (tx_outs k ! j) = [] \<and> length (sh_program (tx_outs k ! j)) = 33)"
proof -
  have "shown_piece cr (burnt_out asset slot) = split_piece cr asset slot" if "length (slot_program slot) = 32" for slot
    using that assms(6) by (simp add: shown_piece_def split_piece_def burnt_out_def)
  then have "map (shown_piece cr) (map (burnt_out asset) slots) = map (split_piece cr asset) slots"
    using assms(5) by (simp add: list_all_iff)
  then have "sha256 cr (hashed_outs cr k 0 (length slots)) = sym_split_digest cr asset slots"
    by (simp add: hashed_outs_def sym_split_digest_def assms(7) del: map_map)
  then have "accepts (exec k) leaf []" unfolding accepts_split [OF assms(1-4)] by (simp add: assms(7))
  moreover have "tx_outs k ! j = burnt_out asset (slots ! j)" "length (slot_program (slots ! j)) = 32" if "j < length slots" for j
    using that assms(5,7) by (simp_all add: nth_append list_all_length)
  ultimately show ?thesis by (simp add: burnt_out_def)
qed

section \<open>The check of a factory\<close>

lemma pays_nothing_None: "pays_nothing i slots = None \<longleftrightarrow> list_all (\<lambda>s. 0 < sat (slot_amount s)) slots"
  by (induction slots arbitrary: i) (auto simp: amount_sat_eq_def unat_gt_0)

lemma sym_factory_value_iff: "sym_factory_value slots = Some t \<longleftrightarrow> sat t = sum_list (map (sat \<circ> slot_amount) slots)"
  unfolding sym_factory_value_def by (simp add: sat_arith.accumulate_all_iff)
lemma factory_value_None: "sym_factory_value slots = None \<Longrightarrow> 2 ^ 64 \<le> sum_list (map (sat \<circ> slot_amount) slots)"
  unfolding sym_factory_value_def by (drule sat_arith.accumulate_all_None) (simp add: o_def)

lemma factory_check_iff:
  "sym_factory_check f prog amt = None \<longleftrightarrow>
     2 \<le> length (f_slots f) \<and> length (f_slots f) \<le> SYM_FACTORY_MAX_SLOTS \<and> unat (f_slot f) < length (f_slots f)
     \<and> f_asset f ! 0 = 0x01 \<and> take 32 (slot_program (f_slots f ! unat (f_slot f))) = take 32 prog
     \<and> slot_amount (f_slots f ! unat (f_slot f)) = amt
     \<and> list_all (\<lambda>s. 0 < sat (slot_amount s)) (f_slots f) \<and> sum_list (map (sat \<circ> slot_amount) (f_slots f)) < 2 ^ 63"
proof -
  have eq: "amount_sat_eq a b \<longleftrightarrow> a = b" for a b by (cases a; cases b) (simp add: amount_sat_eq_def)
  have val: "(case sym_factory_value (f_slots f) of None \<Rightarrow> Some FACTORY_OVERFLOWS
               | Some t \<Rightarrow> if sat t > 2 ^ 63 - 1 then Some FACTORY_OVERFLOWS else None) = None
     \<longleftrightarrow> sum_list (map (sat \<circ> slot_amount) (f_slots f)) < 2 ^ 63"
  proof (cases "sym_factory_value (f_slots f)")
    case None
    with factory_value_None [OF None] show ?thesis by simp
  next
    case (Some t)
    then show ?thesis using sym_factory_value_iff [of "f_slots f" t] by auto
  qed
  show ?thesis
    unfolding sym_factory_check_def Let_def eq
    by (cases "pays_nothing 0 (f_slots f)") (use val pays_nothing_None [of 0 "f_slots f"] in auto)
qed

section \<open>The wire format\<close>

interpretation factory_slot: canonical_codec towire_factory_slot fromwire_factory_slot "\<lambda>s. length (slot_program s) = 32"
  unfolding towire_factory_slot_def fromwire_factory_slot_def
  apply (rule field_codec [where f = slot_program, OF arr.canonical_codec_axioms], simp, (intro codec_sticky)[1])
  apply (rule last_field_codec [where f = slot_amount, OF amt_sat.canonical_codec_axioms], simp)
  apply auto
  done

definition factory_ok :: "sym_factory \<Rightarrow> bool" where
  "factory_ok f \<longleftrightarrow> length (f_nonce f) = 32 \<and> length (f_asset f) = 33 \<and> length (outpoint_txid (f_out f)) = 32
     \<and> length (f_slots f) \<le> SYM_FACTORY_MAX_SLOTS \<and> list_all (\<lambda>s. length (slot_program s) = 32) (f_slots f)"

lemma sticky_slots_of:
  "sticky (if unat (n :: u16) > SYM_FACTORY_MAX_SLOTS then do { fromwire_fail; State_Monad.return None }
     else do { slots \<leftarrow> read_list (unat n) fromwire_factory_slot; State_Monad.return (Some slots) })"
  by (cases "unat n > SYM_FACTORY_MAX_SLOTS")
     (simp add: sticky_def, auto intro!: sticky_bind sticky_read_list factory_slot.stays_failed)

interpretation factory_slots: canonical_codec
  "\<lambda>slots. towire_u16 (of_nat (length (the slots))) @ concat (map towire_factory_slot (the slots))" fromwire_factory_slots
  "\<lambda>slots. slots \<noteq> None \<and> length (the slots) \<le> SYM_FACTORY_MAX_SLOTS \<and> list_all (\<lambda>s. length (slot_program s) = 32) (the slots)"
proof
  let ?put = "\<lambda>slots. towire_u16 (of_nat (length slots)) @ concat (map towire_factory_slot slots)"
  show "run_state fromwire_factory_slots (Some ((towire_u16 (of_nat (length (the x))) @ concat (map towire_factory_slot (the x))) @ rest)) = (x, Some rest)"
    if "x \<noteq> None \<and> length (the x) \<le> SYM_FACTORY_MAX_SLOTS \<and> list_all (\<lambda>s. length (slot_program s) = 32) (the x)" for x rest
  proof -
    from that have "\<exists>slots. x = Some slots" by simp
    then obtain slots where x: "x = Some slots" ..
    with that have "unat (of_nat (length slots) :: u16) = length slots" by (simp add: unat_of_nat_u16)
    then show ?thesis
      using that x list_reads_back [OF factory_slot.wire_codec_axioms, of slots rest]
      by (simp add: fromwire_factory_slots_def u16.reads_back)
  qed
  show "sticky fromwire_factory_slots" 
    unfolding fromwire_factory_slots_def by (intro u16.sticky_then sticky_slots_of)
  show "(x \<noteq> None \<and> length (the x) \<le> SYM_FACTORY_MAX_SLOTS \<and> list_all (\<lambda>s. length (slot_program s) = 32) (the x))
      \<and> p = (towire_u16 (of_nat (length (the x))) @ concat (map towire_factory_slot (the x))) @ rest"
    if r: "run_state fromwire_factory_slots (Some p) = (x, Some rest)" for p x rest
  proof -
    from r [unfolded fromwire_factory_slots_def] obtain n q where n: "p = towire_u16 n @ q"
      "run_state (if unat n > SYM_FACTORY_MAX_SLOTS then do { fromwire_fail; State_Monad.return None }
          else do { slots \<leftarrow> read_list (unat n) fromwire_factory_slot; State_Monad.return (Some slots) }) (Some q) = (x, Some rest)"
      by (rule u16.accepts_then) (rule sticky_slots_of)
    then have small: "unat n \<le> SYM_FACTORY_MAX_SLOTS" by (auto split: if_splits)
    with n(2) obtain slots where s: "run_state (read_list (unat n) fromwire_factory_slot) (Some q) = (slots, Some rest)" "x = Some slots"
      by (cases "run_state (read_list (unat n) fromwire_factory_slot) (Some q)") auto
    from canonical_codec.accepts_written [OF list_codec [OF factory_slot.canonical_codec_axioms] s(1)] s(2) n(1) small
    show ?thesis by auto
  qed
qed
lemma fromwire_factory_iff:
  "run_state fromwire_sym_factory (Some p) = (Some f, Some rest) \<longleftrightarrow> factory_ok f \<and> p = towire_sym_factory f @ rest"
proof
  assume r: "run_state fromwire_sym_factory (Some p) = (Some f, Some rest)"
  have st: "sticky (failed \<bind> (\<lambda>x. State_Monad.return (g x)))" for g :: "bool \<Rightarrow> 'a"
    by (simp add: sticky_def)
  note sticky = codec_sticky outpoint.sticky_then factory_slots.sticky_then st
  from r [unfolded fromwire_sym_factory_def] show "factory_ok f \<and> p = towire_sym_factory f @ rest"
    apply (elim txid.accepts_then u16.accepts_then arr.accepts_then outpoint.accepts_then factory_slots.accepts_then; (intro sticky)?)
    apply (auto simp: factory_ok_def towire_sym_factory_def)
    done
next
  assume "factory_ok f \<and> p = towire_sym_factory f @ rest"
  then have ok: "factory_ok f" and p: "p = towire_sym_factory f @ rest" by simp_all
  from ok factory_slots.reads_back [of "Some (f_slots f)" rest]
  have s: "run_state fromwire_factory_slots (Some (towire_u16 (of_nat (length (f_slots f))) @ concat (map towire_factory_slot (f_slots f)) @ rest))
      = (Some (f_slots f), Some rest)"
    by (simp add: factory_ok_def)
  show "run_state fromwire_sym_factory (Some p) = (Some f, Some rest)"
    using ok unfolding p fromwire_sym_factory_def towire_sym_factory_def
    by (simp add: factory_ok_def codec_reads outpoint.reads_back s)
qed

text \<open>
  (C18) A member holds a channel in a factory if and only if it has from 2 to 1000 slots, in an explicit
  asset, the member's slot is its own channel's kickoff output and amount, every slot pays something,
  and they add up to less than \<open>2 ^ 63\<close>. Then the sum, on which the daemon aborts if it overflows, is the
  sum of the slots; and the factory is read back from the bytes that are written for it, wherever they
  are, and from no others.
\<close>

theorem checked_factory_sound:
  "(sym_factory_check f prog amt = None \<longleftrightarrow>
      2 \<le> length (f_slots f) \<and> length (f_slots f) \<le> SYM_FACTORY_MAX_SLOTS \<and> unat (f_slot f) < length (f_slots f)
      \<and> f_asset f ! 0 = 0x01 \<and> take 32 (slot_program (f_slots f ! unat (f_slot f))) = take 32 prog
      \<and> slot_amount (f_slots f ! unat (f_slot f)) = amt
      \<and> list_all (\<lambda>s. 0 < sat (slot_amount s)) (f_slots f) \<and> sum_list (map (sat \<circ> slot_amount) (f_slots f)) < 2 ^ 63)
   \<and> (sym_factory_check f prog amt = None \<longrightarrow>
      (\<exists>t. sym_factory_value (f_slots f) = Some t \<and> sat t = sum_list (map (sat \<circ> slot_amount) (f_slots f))))
   \<and> (run_state fromwire_sym_factory (Some p) = (Some f, Some rest) \<longleftrightarrow> factory_ok f \<and> p = towire_sym_factory f @ rest)"
proof -
  have "\<exists>t. sym_factory_value (f_slots f) = Some t \<and> sat t = sum_list (map (sat \<circ> slot_amount) (f_slots f))"
    if "sym_factory_check f prog amt = None"
  proof (cases "sym_factory_value (f_slots f)")
    case None
    with factory_value_None [OF None] that show ?thesis by (simp add: factory_check_iff)
  next
    case (Some t)
    then show ?thesis using sym_factory_value_iff by blast
  qed
  then show ?thesis by (intro conjI impI factory_check_iff fromwire_factory_iff)
qed

definition demo_slots :: "sym_factory_slot list" where
  "demo_slots = [\<lparr>slot_program = replicate 32 4, slot_amount = AMOUNT_SAT 1000\<rparr>, \<lparr>slot_program = replicate 32 5, slot_amount = AMOUNT_SAT 1000\<rparr>]"

definition demo_factory :: sym_factory where
  "demo_factory = \<lparr>f_nonce = replicate 32 2, f_slot = 1, f_asset = 1 # replicate 32 9, f_slots = demo_slots,
     f_out = \<lparr>outpoint_txid = replicate 32 3, outpoint_n = 0\<rparr>\<rparr>"

theorem checked_factory_sound_witness:
  "sym_factory_check demo_factory (replicate 32 5) (AMOUNT_SAT 1000) = None
   \<and> (\<exists>t. sym_factory_value demo_slots = Some t \<and> sat t = 2000)
   \<and> run_state fromwire_sym_factory (Some (towire_sym_factory demo_factory @ [7])) = (Some demo_factory, Some [7])"
  using checked_factory_sound [of demo_factory "replicate 32 5" "AMOUNT_SAT 1000" "towire_sym_factory demo_factory @ [7]" "[7]"]
  by (simp add: demo_factory_def demo_slots_def factory_ok_def)

theorem split_leaf_accepts_iff_witness:
  "\<exists>leaf. sym_leaf_split demo_crypto (1 # replicate 32 9) demo_slots = Some leaf
     \<and> accepts (exec (demo_spend (replicate 4 0) [demo_shown (replicate 32 1) [1]]
         [demo_shown (replicate 32 4) [1], demo_shown (replicate 32 5) [1]] 0)) leaf []"
proof -
  let ?k = "demo_spend (replicate 4 0) [demo_shown (replicate 32 1) [1]] [demo_shown (replicate 32 4) [1], demo_shown (replicate 32 5) [1]] 0"
  obtain leaf where leaf: "sym_leaf_split demo_crypto (1 # replicate 32 9) demo_slots = Some leaf"
    by (simp add: sym_leaf_split_def demo_slots_def Let_def)
  have k: "elements_rules demo_crypto ?k" by (rule demo_spend_rules) (simp_all add: shown_ok_demo)
  have "hashed_outs demo_crypto ?k 0 (length demo_slots) = concat (map (split_piece demo_crypto (1 # replicate 32 9)) demo_slots)"
    by (simp add: hashed_outs_def demo_slots_def shown_piece_def split_piece_def demo_shown_def)
  then have "accepts (exec ?k) leaf [] \<longleftrightarrow> list_all2 (pays_slot demo_crypto (1 # replicate 32 9)) demo_slots (take (length demo_slots) (tx_outs ?k))"
    using split_leaf_accepts_iff [OF demo_crypto_ok k _ leaf, of "[]"] by (simp add: demo_slots_def)
  then show ?thesis using leaf by (simp add: demo_slots_def pays_slot_def demo_shown_def)
qed

theorem split_accepts_burning_witness:
  "\<exists>leaf. sym_leaf_split demo_crypto (1 # replicate 32 9) demo_slots = Some leaf
     \<and> accepts (exec (demo_spend (replicate 4 0) [demo_shown (replicate 32 1) [1]]
         (map (burnt_out (1 # replicate 32 9)) demo_slots) 0)) leaf []"
proof -
  obtain leaf where leaf: "sym_leaf_split demo_crypto (1 # replicate 32 9) demo_slots = Some leaf"
    by (simp add: sym_leaf_split_def demo_slots_def Let_def)
  have k: "elements_rules demo_crypto (demo_spend (replicate 4 0) [demo_shown (replicate 32 1) [1]]
      (map (burnt_out (1 # replicate 32 9)) demo_slots) 0)"
    by (rule demo_spend_rules) (simp_all add: shown_ok_demo, simp add: shown_ok_def burnt_out_def demo_slots_def)
  show ?thesis
    using leaf split_accepts_burning [OF demo_crypto_ok k _ leaf, of "[]"] by (simp add: demo_slots_def)
qed

end
