(* ===== verification/FactoryWatch.thy ===== *)
theory FactoryWatch
  imports SymFactory
begin

unbundle bit_operations_syntax

text \<open>
  The daemon's side of factory channels: \<^verbatim>\<open>lightningd/sym_factory.c\<close>, with \<^verbatim>\<open>sym_best_state\<close> of
  \<^verbatim>\<open>lightningd/symmetric.c\<close>. The state is the node's channels and the table of watches on factory outputs,
  each held by one of the channels; a callback of the chain's watcher gives the new state and the
  \<open>effects\<close> it has elsewhere: spends started or stopped, channels saved, scripts watched. A pointer to a
  channel is its number; \<^verbatim>\<open>funding_spend_watch\<close> is the output it watches. Logging is left out, as are the
  wallet and the building of transactions, which are behind the effects.

  The lemmas show that the watch on a factory is never lost while a channel of it is there, that a
  split moves every channel to its own output, once, and that a later split after a reorganization
  moves it on.
\<close>

section \<open>The state\<close>

record fchan =
  fc_id :: nat
  fc_type_factory :: bool
  fc_factory :: "sym_factory option"
  fc_ko :: "bitcoin_outpoint option"
  fc_spend_watch :: "bitcoin_outpoint option"
  fc_awaiting_unilateral :: bool
  fc_opener :: side
  fc_funding_sats :: amount_sat
  fc_sc :: sym_channel
  fc_local :: "sym_state option"
  fc_remote :: "sym_state option"
  fc_dev_stale :: "sym_state option"

record factory_watch =
  fw_out :: bitcoin_outpoint
  fw_holder :: nat

record fnode =
  n_chans :: "fchan list"
  n_watches :: "factory_watch list"

text \<open>A spend: the output, its amount and script, the witness, the outputs, the sequence and the deadline.\<close>

record fspend =
  sp_out :: bitcoin_outpoint
  sp_amount :: amount_sat
  sp_spk :: bytes
  sp_witness :: "bytes list"
  sp_outs :: "sym_state_out list"
  sp_sequence :: u32
  sp_deadline :: u32

datatype feffect =
    NOTE_SPENT nat bitcoin_outpoint
  | FACTORY_SAVE nat
  | SPEND_START nat fspend
  | WATCH_SCRIPT nat bytes bitcoin_outpoint amount_sat
  | FUNDING_SPENT nat bytes
  | FAIL_PERMANENT nat
  | UPDATE_SCID nat bitcoin_outpoint

section \<open>The operations\<close>

definition channel_is_sym_factory :: "fchan \<Rightarrow> bool" where
  "channel_is_sym_factory c \<longleftrightarrow> fc_factory c \<noteq> None \<and> fc_type_factory c"

definition sym_factory_anchor :: "fchan \<Rightarrow> bitcoin_outpoint run" where
  "sym_factory_anchor c = (case fc_ko c of Some ko \<Rightarrow> Some ko | None \<Rightarrow> map_option f_out (fc_factory c))"

text \<open>The factory that is kept is the one given, or what its bytes are read back as.\<close>

definition sym_factory_attach :: "fchan \<Rightarrow> sym_factory \<Rightarrow> bool \<Rightarrow> fchan \<times> feffect list" where
  "sym_factory_attach c f taken =
     (c\<lparr>fc_factory := (if taken then Some f
                       else fst (run_state fromwire_sym_factory (Some (towire_sym_factory f))))\<rparr>,
      [FACTORY_SAVE (fc_id c)])"

definition find_factory_watch :: "factory_watch list \<Rightarrow> bitcoin_outpoint \<Rightarrow> factory_watch option" where
  "find_factory_watch ws out = find (\<lambda>w. fw_out w = out) ws"

definition in_factory :: "bitcoin_outpoint \<Rightarrow> fchan \<Rightarrow> bool" where
  "in_factory out c \<longleftrightarrow> channel_is_sym_factory c \<and> map_option f_out (fc_factory c) = Some out"

definition factory_channels :: "fnode \<Rightarrow> bitcoin_outpoint \<Rightarrow> fchan list" where
  "factory_channels nd out = filter (in_factory out) (n_chans nd)"

text \<open>The watch that is left when its holder goes: held by the next channel of the factory, or none.\<close>

definition destroy_holder :: "fnode \<Rightarrow> nat \<Rightarrow> factory_watch \<Rightarrow> factory_watch option" where
  "destroy_holder nd holder fw =
     (case find (\<lambda>c. fc_id c \<noteq> holder) (factory_channels nd (fw_out fw)) of
        Some c \<Rightarrow> Some (fw\<lparr>fw_holder := fc_id c\<rparr>)
      | None \<Rightarrow> None)"

text \<open>A channel is freed: its destructors run, one for each watch it holds.\<close>

definition free_channel :: "fnode \<Rightarrow> nat \<Rightarrow> fnode" where
  "free_channel nd holder =
     \<lparr>n_chans = filter (\<lambda>c. fc_id c \<noteq> holder) (n_chans nd),
      n_watches = List.map_filter (\<lambda>w. if fw_holder w = holder then destroy_holder nd holder w else Some w) (n_watches nd)\<rparr>"

text \<open>\<open>txid\<close> is the transaction's id; the outer \<open>None\<close> is the assertion on the slot.\<close>

definition ko_of :: "chainparams \<Rightarrow> sym_factory \<Rightarrow> bytes \<Rightarrow> wally_tx_output list \<Rightarrow> bitcoin_outpoint option run" where
  "ko_of cp f txid outputs =
     do { spk \<leftarrow> sym_factory_ko_spk f (unat (f_slot f));
          if unat (f_slot f) \<ge> length outputs then Some None
          else if txo_script (outputs ! unat (f_slot f)) \<noteq> spk then Some None
          else do { amt \<leftarrow> wally_tx_output_get_amount cp (outputs ! unat (f_slot f));
                    if \<not> amount_asset_is cp amt (f_asset f)
                       \<or> asset_value amt \<noteq> satoshis (slot_amount (f_slots f ! unat (f_slot f))) then Some None
                    else Some (Some \<lparr>outpoint_txid = txid, outpoint_n = ucast (f_slot f)\<rparr>) } }"

definition sym_best_state :: "fchan \<Rightarrow> sym_state option" where
  "sym_best_state c =
     foldl (\<lambda>best cand. case cand of
              None \<Rightarrow> best
            | Some st \<Rightarrow>
                if \<not> ss_has_sig st LOCAL \<or> \<not> ss_has_sig st REMOTE then best
                else case best of None \<Rightarrow> Some st | Some b \<Rightarrow> if sint (ss_num st) > sint (ss_num b) then Some st else best)
       None [fc_local c, fc_remote c]"

abbreviation (input) SYM_SEQUENCE :: u32 where "SYM_SEQUENCE \<equiv> 0xFFFFFFFD"

text \<open>Whether a state was published, and the spend of the kickoff output that was started.\<close>

definition publish_update :: "crypto \<Rightarrow> sym_tree \<Rightarrow> u32 \<Rightarrow> fchan \<Rightarrow> (bool \<times> feffect list) run" where
  "publish_update cr uninit tip c =
     (case (case fc_dev_stale c of Some st \<Rightarrow> Some st | None \<Rightarrow> sym_best_state c) of
        None \<Rightarrow> Some (False, [])
      | Some best \<Rightarrow>
          (case sym_state_signed best (fc_opener c) of
             None \<Rightarrow> Some (False, [])
           | Some (sig_op, sig_acc) \<Rightarrow>
               do { let ko = sym_kickoff_tree cr (fc_sc c) uninit;
                    tree \<leftarrow> sym_state_tree_of cr (fc_sc c) best uninit;
                    cb \<leftarrow> sym_tree_control_block ko SYM_LEAF_UPD;
                    out \<leftarrow> fc_ko c;
                    Some (True, [SPEND_START (fc_id c)
                      \<lparr>sp_out = out, sp_amount = fc_funding_sats c, sp_spk = sym_tree_spk ko,
                       sp_witness = sym_update_witness sig_op sig_acc tree (st_upd ko) cb,
                       sp_outs = [\<lparr>so_amount = fc_funding_sats c, so_spk = sym_tree_spk tree, so_asset = None\<rparr>],
                       sp_sequence = SYM_SEQUENCE, sp_deadline = tip + 6\<rparr>]) }))"

text \<open>One channel of the factory whose output is spent.\<close>

definition channel_split ::
  "crypto \<Rightarrow> chainparams \<Rightarrow> sym_tree \<Rightarrow> u32 \<Rightarrow> bitcoin_outpoint \<Rightarrow> bytes \<Rightarrow> wally_tx_output list \<Rightarrow> fchan
   \<Rightarrow> (fchan \<times> feffect list) run" where
  "channel_split cr cp uninit tip out txid outputs c =
     do { f \<leftarrow> fc_factory c;
          ko \<leftarrow> ko_of cp f txid outputs;
          case ko of
            None \<Rightarrow> Some (c, [NOTE_SPENT (fc_id c) out])
          | Some ko \<Rightarrow>
              if fc_ko c = Some ko then Some (c, [NOTE_SPENT (fc_id c) out])
              else do { let stop = (case fc_ko c of None \<Rightarrow> [] | Some old \<Rightarrow> [NOTE_SPENT (fc_id c) old]);
                        let c' = c\<lparr>fc_ko := Some ko, fc_spend_watch := Some ko\<rparr>;
                        (_, pub) \<leftarrow> (if fc_awaiting_unilateral c then publish_update cr uninit tip c' else Some (True, []));
                        Some (c', NOTE_SPENT (fc_id c) out # stop @ [FACTORY_SAVE (fc_id c)] @ pub) } }"

fun split_loop ::
  "crypto \<Rightarrow> chainparams \<Rightarrow> sym_tree \<Rightarrow> u32 \<Rightarrow> bitcoin_outpoint \<Rightarrow> bytes \<Rightarrow> wally_tx_output list \<Rightarrow> fchan list
   \<Rightarrow> (fchan list \<times> feffect list) run" where
  "split_loop cr cp uninit tip out txid outputs [] = Some ([], [])"
| "split_loop cr cp uninit tip out txid outputs (c # cs) =
     do { (c', e) \<leftarrow> (if in_factory out c then channel_split cr cp uninit tip out txid outputs c else Some (c, []));
          (cs', es) \<leftarrow> split_loop cr cp uninit tip out txid outputs cs;
          Some (c' # cs', e @ es) }"

definition factory_spent ::
  "crypto \<Rightarrow> chainparams \<Rightarrow> sym_tree \<Rightarrow> u32 \<Rightarrow> bitcoin_outpoint \<Rightarrow> bytes \<Rightarrow> wally_tx_output list \<Rightarrow> fnode
   \<Rightarrow> (fnode \<times> feffect list) run" where
  "factory_spent cr cp uninit tip out txid outputs nd =
     do { (cs, es) \<leftarrow> split_loop cr cp uninit tip out txid outputs (n_chans nd); Some (nd\<lparr>n_chans := cs\<rparr>, es) }"

definition ko_spent :: "fchan \<Rightarrow> bytes \<Rightarrow> feffect list run" where
  "ko_spent c txid = do { ko \<leftarrow> fc_ko c; Some [NOTE_SPENT (fc_id c) ko, FUNDING_SPENT (fc_id c) txid] }"

definition factory_found :: "chainparams \<Rightarrow> wally_tx_output list \<Rightarrow> nat \<Rightarrow> fchan \<Rightarrow> feffect list run" where
  "factory_found cp outputs outnum c =
     do { f \<leftarrow> fc_factory c;
          amt \<leftarrow> (if outnum < length outputs then wally_tx_output_get_amount cp (outputs ! outnum) else None);
          if \<not> amount_asset_is cp amt (f_asset f) then Some [FAIL_PERMANENT (fc_id c)]
          else Some [UPDATE_SCID (fc_id c) \<lparr>outpoint_txid = outpoint_txid (f_out f), outpoint_n = 0x8000 + ucast (f_slot f)\<rparr>] }"

definition sym_factory_watching :: "fnode \<Rightarrow> fchan \<Rightarrow> bool run" where
  "sym_factory_watching nd c =
     (if fc_ko c \<noteq> None \<and> fc_spend_watch c = None then Some False
      else do { f \<leftarrow> fc_factory c; Some (find_factory_watch (n_watches nd) (f_out f) \<noteq> None) })"

definition put_chan :: "fchan \<Rightarrow> fchan list \<Rightarrow> fchan list" where
  "put_chan c cs = map (\<lambda>d. if fc_id d = fc_id c then c else d) cs"

definition sym_factory_watch :: "crypto \<Rightarrow> fnode \<Rightarrow> fchan \<Rightarrow> (fnode \<times> feffect list) run" where
  "sym_factory_watch cr nd c =
     do { f \<leftarrow> fc_factory c;
          let c' = (case fc_ko c of Some ko \<Rightarrow> if fc_spend_watch c = None then c\<lparr>fc_spend_watch := Some ko\<rparr> else c | None \<Rightarrow> c);
          total_value \<leftarrow> sym_factory_value (f_slots f);
          spk \<leftarrow> sym_factory_spk cr (f_asset f) (f_slots f);
          let ws = (case find_factory_watch (n_watches nd) (f_out f) of
                      Some _ \<Rightarrow> n_watches nd
                    | None \<Rightarrow> n_watches nd @ [\<lparr>fw_out = f_out f, fw_holder = fc_id c\<rparr>]);
          Some (\<lparr>n_chans = put_chan c' (n_chans nd), n_watches = ws\<rparr>, [WATCH_SCRIPT (fc_id c) spk (f_out f) total_value]) }"

definition sym_factory_close :: "crypto \<Rightarrow> sym_tree \<Rightarrow> u32 \<Rightarrow> fchan \<Rightarrow> (bool \<times> feffect list) run" where
  "sym_factory_close cr uninit tip c =
     do { f \<leftarrow> fc_factory c;
          if fc_ko c \<noteq> None then publish_update cr uninit tip c
          else do { total_value \<leftarrow> sym_factory_value (f_slots f);
                    spks \<leftarrow> map_run (sym_factory_ko_spk f) [0 ..< length (f_slots f)];
                    spk \<leftarrow> sym_factory_spk cr (f_asset f) (f_slots f);
                    wit \<leftarrow> sym_split_witness cr (f_asset f) (f_slots f);
                    Some (True, [SPEND_START (fc_id c)
                      \<lparr>sp_out = f_out f, sp_amount = total_value, sp_spk = spk, sp_witness = wit,
                       sp_outs = map2 (\<lambda>s p. \<lparr>so_amount = slot_amount s, so_spk = p, so_asset = None\<rparr>) (f_slots f) spks,
                       sp_sequence = SYM_SEQUENCE, sp_deadline = tip + 6\<rparr>]) } }"
section \<open>A split moves the channels\<close>

lemma channel_split_cases:
  assumes "channel_split cr cp uninit tip out txid outputs c = Some (c', e)"
  obtains (same) f r where "fc_factory c = Some f" and "ko_of cp f txid outputs = Some r" and "c' = c" and "r = None \<or> fc_ko c = r"
  | (moved) f ko where "fc_factory c = Some f" and "ko_of cp f txid outputs = Some (Some ko)"
      and "c' = c\<lparr>fc_ko := Some ko, fc_spend_watch := Some ko\<rparr>"
proof -
  obtain f where f: "fc_factory c = Some f" using assms by (cases "fc_factory c") (simp_all add: channel_split_def)
  obtain r where r: "ko_of cp f txid outputs = Some r" using assms f by (cases "ko_of cp f txid outputs") (simp_all add: channel_split_def)
  show thesis
  proof (cases "r = None \<or> fc_ko c = r")
    case True
    then have "c' = c" using assms f r by (cases r) (simp_all add: channel_split_def)
    then show thesis using same f r True by blast
  next
    case False
    then obtain ko where ko: "r = Some ko" "fc_ko c \<noteq> Some ko" by (cases r) auto
    let ?c = "c\<lparr>fc_ko := Some ko, fc_spend_watch := Some ko\<rparr>"
    from assms f r ko have "c' = ?c"
      by (auto simp: channel_split_def Let_def bind_eq_Some_conv simp del: if_split)
    then show thesis using moved f r ko by blast
  qed
qed

lemma channel_split_keeps:
  assumes "channel_split cr cp uninit tip out txid outputs c = Some (c', e)"
  shows "fc_id c' = fc_id c" and "fc_factory c' = fc_factory c" and "fc_type_factory c' = fc_type_factory c"
    and "c' = c \<or> fc_spend_watch c' = fc_ko c'" and "fc_ko c \<noteq> None \<Longrightarrow> fc_ko c' \<noteq> None"
  using assms by (cases rule: channel_split_cases; simp)+

lemma in_factory_split: "channel_split cr cp uninit tip out txid outputs c = Some (c', e) \<Longrightarrow> in_factory out' c' = in_factory out' c"
  by (simp add: in_factory_def channel_is_sym_factory_def channel_split_keeps)

lemma split_loop_all:
  "split_loop cr cp uninit tip out txid outputs cs = Some (cs', es) \<Longrightarrow>
     list_all2 (\<lambda>c c'. if in_factory out c then \<exists>e. channel_split cr cp uninit tip out txid outputs c = Some (c', e) else c' = c) cs cs'"
proof (induction cs arbitrary: cs' es)
  case (Cons c cs)
  then obtain d e ds es' where s: "(if in_factory out c then channel_split cr cp uninit tip out txid outputs c else Some (c, [])) = Some (d, e)"
      "split_loop cr cp uninit tip out txid outputs cs = Some (ds, es')" "cs' = d # ds"
    by (auto simp: bind_eq_Some_conv simp del: if_split)
  from Cons.IH [OF s(2)] s(1,3) show ?case by (auto split: if_splits)
qed simp

lemma channel_split_moves:
  assumes "channel_split cr cp uninit tip out txid outputs c = Some (c', e)" and "fc_factory c = Some f"
  shows "\<exists>r. ko_of cp f txid outputs = Some r \<and> (case r of None \<Rightarrow> c' = c | Some ko \<Rightarrow> fc_ko c' = Some ko)"
  using assms(1) by (cases rule: channel_split_cases) (use assms(2) in \<open>auto split: option.splits\<close>)

lemma channel_split_again:
  assumes "channel_split cr cp uninit tip out txid outputs c = Some (c', e)"
  shows "channel_split cr cp uninit tip' out txid outputs c' = Some (c', [NOTE_SPENT (fc_id c') out])"
proof -
  obtain f where f: "fc_factory c = Some f" using assms by (cases rule: channel_split_cases)
  from channel_split_moves [OF assms f] obtain r where r: "ko_of cp f txid outputs = Some r" "case r of None \<Rightarrow> c' = c | Some ko \<Rightarrow> fc_ko c' = Some ko"
    by blast
  moreover have "fc_factory c' = Some f" using channel_split_keeps(2) [OF assms] f by simp
  ultimately show ?thesis by (cases r) (simp_all add: channel_split_def)
qed

lemma split_loop_again:
  "split_loop cr cp uninit tip out txid outputs cs = Some (cs', es) \<Longrightarrow>
     split_loop cr cp uninit tip' out txid outputs cs' = Some (cs', map (\<lambda>c. NOTE_SPENT (fc_id c) out) (filter (in_factory out) cs'))"
proof (induction cs arbitrary: cs' es)
  case (Cons c cs)
  then obtain d e ds es' where s: "(if in_factory out c then channel_split cr cp uninit tip out txid outputs c else Some (c, [])) = Some (d, e)"
      "split_loop cr cp uninit tip out txid outputs cs = Some (ds, es')" "cs' = d # ds"
    by (auto simp: bind_eq_Some_conv simp del: if_split)
  from Cons.IH [OF s(2)] s(1,3) show ?case
    by (cases "in_factory out c") (auto simp: in_factory_split channel_split_again)
qed simp

text \<open>
  The transaction pays the channel's kickoff output: at the slot's number, to the slot's program as a taproot
  output, in the factory's asset, for the slot's amount, a number of eight bytes behind the prefix.
\<close>

definition pays_kickoff :: "sym_factory \<Rightarrow> wally_tx_output list \<Rightarrow> bool" where
  "pays_kickoff f outputs \<longleftrightarrow>
     (let i = unat (f_slot f); txo = outputs ! i; slot = f_slots f ! i in
      i < length outputs \<and> txo_script txo = [0x51, 0x20] @ take 32 (slot_program slot) \<and> txo_asset txo = f_asset f
      \<and> be_val (take 8 (drop 1 (txo_value txo))) = unat (satoshis (slot_amount slot)))"

lemma ko_of_iff:
  assumes "ko_of cp f txid outputs = Some r" and "is_elements cp" and "f_asset f ! 0 = 1"
  shows "r = (if pays_kickoff f outputs then Some \<lparr>outpoint_txid = txid, outpoint_n = of_nat (unat (f_slot f))\<rparr> else None)"
proof -
  let ?v = "take 8 (drop 1 (txo_value (outputs ! unat (f_slot f))))"
  have "be_val ?v < 256 ^ length ?v" by (rule be_val_less)
  also have "(256 :: nat) ^ length ?v \<le> 256 ^ 8" by (rule power_increasing) simp_all
  finally have "be_val ?v < 2 ^ 64" by simp
  then have "(of_nat (be_val ?v) = satoshis amt) = (be_val ?v = unat (satoshis amt))" for amt
    by (auto simp: word_unat_eq_iff unat_of_nat_u64)
  then show ?thesis
    using assms by (auto simp: ko_of_def pays_kickoff_def Let_def sym_factory_ko_spk_def wally_tx_output_get_amount_def
        amount_asset_is_def bind_eq_Some_conv split: if_splits)
qed

text \<open>
  (C14) When F is spent, every channel of that factory whose kickoff output the transaction pays, at the number of
  the channel's slot, to its program, in the factory's asset and for its amount, has that output
  as its output on chain and watches it, also if another split had been there before; a channel of the factory
  that it does not pay, and every other channel, is left as it was, and so is the table of watches. Seen again,
  the same transaction changes nothing, and saves and publishes nothing. This is for an Elements chain, and
  factories of an explicit asset, which is what a member accepts.
\<close>

theorem split_moves_channels:
  assumes "factory_spent cr cp uninit tip out txid outputs nd = Some (nd', es)"
    and "\<forall>c \<in> set (n_chans nd). fc_spend_watch c = fc_ko c" and "is_elements cp"
    and "\<forall>c \<in> set (n_chans nd). \<forall>f. fc_factory c = Some f \<longrightarrow> f_asset f ! 0 = 1"
  shows "n_watches nd' = n_watches nd
    \<and> list_all2 (\<lambda>c c'. if in_factory out c
         then \<exists>f. fc_factory c = Some f
           \<and> c' = (if pays_kickoff f outputs
                   then c\<lparr>fc_ko := Some \<lparr>outpoint_txid = txid, outpoint_n = of_nat (unat (f_slot f))\<rparr>,
                          fc_spend_watch := Some \<lparr>outpoint_txid = txid, outpoint_n = of_nat (unat (f_slot f))\<rparr>\<rparr>
                   else c)
         else c' = c) (n_chans nd) (n_chans nd')
    \<and> factory_spent cr cp uninit tip' out txid outputs nd'
        = Some (nd', map (\<lambda>c. NOTE_SPENT (fc_id c) out) (factory_channels nd' out))"
proof (intro conjI)
  obtain cs' where l: "split_loop cr cp uninit tip out txid outputs (n_chans nd) = Some (cs', es)" and nd': "nd' = nd\<lparr>n_chans := cs'\<rparr>"
    using assms(1) by (auto simp: factory_spent_def bind_eq_Some_conv)
  show "n_watches nd' = n_watches nd" by (simp add: nd')
  show "factory_spent cr cp uninit tip' out txid outputs nd' = Some (nd', map (\<lambda>c. NOTE_SPENT (fc_id c) out) (factory_channels nd' out))"
    using split_loop_again [OF l, of tip'] by (simp add: factory_spent_def nd' factory_channels_def)
  show "list_all2 (\<lambda>c c'. if in_factory out c
         then \<exists>f. fc_factory c = Some f
           \<and> c' = (if pays_kickoff f outputs
                   then c\<lparr>fc_ko := Some \<lparr>outpoint_txid = txid, outpoint_n = of_nat (unat (f_slot f))\<rparr>,
                          fc_spend_watch := Some \<lparr>outpoint_txid = txid, outpoint_n = of_nat (unat (f_slot f))\<rparr>\<rparr>
                   else c)
         else c' = c) (n_chans nd) (n_chans nd')"
  proof (rule list.rel_mono_strong)
    show "list_all2 (\<lambda>c c'. if in_factory out c then \<exists>e. channel_split cr cp uninit tip out txid outputs c = Some (c', e) else c' = c)
        (n_chans nd) (n_chans nd')"
      using split_loop_all [OF l] by (simp add: nd')
  next
    fix c c'
    assume c: "c \<in> set (n_chans nd)" and s: "if in_factory out c then \<exists>e. channel_split cr cp uninit tip out txid outputs c = Some (c', e) else c' = c"
    then show "if in_factory out c
         then \<exists>f. fc_factory c = Some f
           \<and> c' = (if pays_kickoff f outputs
                   then c\<lparr>fc_ko := Some \<lparr>outpoint_txid = txid, outpoint_n = of_nat (unat (f_slot f))\<rparr>,
                          fc_spend_watch := Some \<lparr>outpoint_txid = txid, outpoint_n = of_nat (unat (f_slot f))\<rparr>\<rparr>
                   else c)
         else c' = c"
      using assms(2-4) by (auto elim!: channel_split_cases dest!: ko_of_iff split: if_splits)
  qed
qed

section \<open>The watch is never lost\<close>

text \<open>
  What a node does with factory channels, in any order: a channel is loaded or opened, is given its
  factory, is watched, sees its factory's output spent, and goes away. \<open>W\<close> are the channels that were
  watched and are still there.
\<close>

inductive fruns :: "crypto \<Rightarrow> chainparams \<Rightarrow> sym_tree \<Rightarrow> fnode \<Rightarrow> nat set \<Rightarrow> bool" for cr cp uninit where
  start: "fruns cr cp uninit \<lparr>n_chans = [], n_watches = []\<rparr> {}"
| load: "fruns cr cp uninit nd W \<Longrightarrow> fc_id c \<notin> fc_id ` set (n_chans nd) \<Longrightarrow> fc_spend_watch c = None
    \<Longrightarrow> fruns cr cp uninit (nd\<lparr>n_chans := n_chans nd @ [c]\<rparr>) W"
| attach: "fruns cr cp uninit nd W \<Longrightarrow> c \<in> set (n_chans nd) \<Longrightarrow> fc_factory c = None \<Longrightarrow> sym_factory_attach c f taken = (c', e)
    \<Longrightarrow> fruns cr cp uninit (nd\<lparr>n_chans := put_chan c' (n_chans nd)\<rparr>) W"
| watch: "fruns cr cp uninit nd W \<Longrightarrow> c \<in> set (n_chans nd) \<Longrightarrow> channel_is_sym_factory c
    \<Longrightarrow> sym_factory_watch cr nd c = Some (nd', e) \<Longrightarrow> fruns cr cp uninit nd' (insert (fc_id c) W)"
| spent: "fruns cr cp uninit nd W \<Longrightarrow> w \<in> set (n_watches nd)
    \<Longrightarrow> factory_spent cr cp uninit tip (fw_out w) txid outputs nd = Some (nd', e) \<Longrightarrow> fruns cr cp uninit nd' W"
| free: "fruns cr cp uninit nd W \<Longrightarrow> fruns cr cp uninit (free_channel nd i) (W - {i})"

definition holders_ok :: "fnode \<Rightarrow> bool" where
  "holders_ok nd \<longleftrightarrow> distinct (map fc_id (n_chans nd)) \<and> distinct (map fw_out (n_watches nd))
     \<and> (\<forall>w \<in> set (n_watches nd). \<exists>c \<in> set (n_chans nd). fc_id c = fw_holder w \<and> in_factory (fw_out w) c)"

definition chan_watched :: "factory_watch list \<Rightarrow> fchan \<Rightarrow> bool" where
  "chan_watched ws c \<longleftrightarrow> fc_spend_watch c = fc_ko c \<and> (\<exists>w \<in> set ws. in_factory (fw_out w) c)"

definition watches_ok :: "fnode \<Rightarrow> nat set \<Rightarrow> bool" where
  "watches_ok nd W \<longleftrightarrow> holders_ok nd \<and> W \<subseteq> fc_id ` set (n_chans nd)
     \<and> (\<forall>c \<in> set (n_chans nd). (fc_spend_watch c = None \<or> fc_spend_watch c = fc_ko c)
          \<and> (fc_id c \<in> W \<longrightarrow> chan_watched (n_watches nd) c))"

lemma in_factory_cong:
  "fc_factory c' = fc_factory c \<Longrightarrow> fc_type_factory c' = fc_type_factory c \<Longrightarrow> in_factory out c' = in_factory out c"
  by (simp add: in_factory_def channel_is_sym_factory_def)

text \<open>Channels may change as long as they keep their number and their place in a factory.\<close>

lemma holders_ok_map:
  assumes "holders_ok nd" and "list_all2 (\<lambda>c c'. fc_id c' = fc_id c \<and> (\<forall>out. in_factory out c \<longrightarrow> in_factory out c')) (n_chans nd) cs'"
    and "n_watches nd' = n_watches nd" and "n_chans nd' = cs'"
  shows "holders_ok nd'"
proof -
  have ids: "map fc_id cs' = map fc_id (n_chans nd)"
    using assms(2) by (induction rule: list_all2_induct) auto
  have "\<exists>c' \<in> set cs'. fc_id c' = fw_holder w \<and> in_factory (fw_out w) c'" if w: "w \<in> set (n_watches nd)" for w
  proof -
    from assms(1) w obtain c where "c \<in> set (n_chans nd)" and c: "fc_id c = fw_holder w" "in_factory (fw_out w) c"
      by (auto simp: holders_ok_def)
    then obtain i where "i < length (n_chans nd)" "n_chans nd ! i = c" by (auto simp: in_set_conv_nth)
    with c have i: "i < length (n_chans nd)" "fc_id (n_chans nd ! i) = fw_holder w" "in_factory (fw_out w) (n_chans nd ! i)" by simp_all
    with list_all2_nthD [OF assms(2) i(1)] list_all2_lengthD [OF assms(2)] show ?thesis by (intro bexI [of _ "cs' ! i"]) simp_all
  qed
  with assms ids show ?thesis by (simp add: holders_ok_def)
qed

lemma put_chan_rel:
  assumes "distinct (map fc_id cs)" and "c \<in> set cs" and "fc_id c' = fc_id c" and "P c c'" and "\<And>d. d \<in> set cs \<Longrightarrow> P d d"
  shows "list_all2 P cs (put_chan c' cs)"
proof -
  have "P d (if fc_id d = fc_id c' then c' else d)" if "d \<in> set cs" for d
  proof (cases "fc_id d = fc_id c'")
    case True
    with assms(1-3) that have "d = c" by (metis distinct_map inj_onD)
    with True assms(4) show ?thesis by simp
  next
    case False
    with assms(5) that show ?thesis by simp
  qed
  then show ?thesis by (simp add: put_chan_def list_all2_conv_all_nth)
qed
lemma watches_ok_map:
  assumes "watches_ok nd W" and "list_all2 (\<lambda>c c'. fc_id c' = fc_id c \<and> (\<forall>out. in_factory out c \<longrightarrow> in_factory out c')
      \<and> (c' = c \<or> fc_spend_watch c' = fc_ko c' \<or> fc_spend_watch c' = None \<and> fc_id c \<notin> W)) (n_chans nd) cs'"
    and "n_watches nd' = n_watches nd" and "n_chans nd' = cs'"
  shows "watches_ok nd' W"
proof -
  have len: "length cs' = length (n_chans nd)" using assms(2) by (simp add: list_all2_lengthD)
  have at: "fc_id (cs' ! i) = fc_id (n_chans nd ! i)" "in_factory out (n_chans nd ! i) \<Longrightarrow> in_factory out (cs' ! i)"
    "cs' ! i = n_chans nd ! i \<or> fc_spend_watch (cs' ! i) = fc_ko (cs' ! i) \<or> fc_spend_watch (cs' ! i) = None \<and> fc_id (n_chans nd ! i) \<notin> W"
    if "i < length cs'" for i out
    using list_all2_nthD [OF assms(2), of i] that len by simp_all
  have "list_all2 (\<lambda>c c'. fc_id c' = fc_id c \<and> (\<forall>out. in_factory out c \<longrightarrow> in_factory out c')) (n_chans nd) cs'"
    using at len by (simp add: list_all2_conv_all_nth)
  then have h: "holders_ok nd'" using assms(1,3,4) holders_ok_map by (auto simp: watches_ok_def)
  have ids: "fc_id ` set cs' = fc_id ` set (n_chans nd)"
  proof -
    have "map fc_id cs' = map fc_id (n_chans nd)" using at(1) len by (intro nth_equalityI) simp_all
    then show ?thesis by (metis set_map)
  qed
  have old: "(fc_spend_watch c = None \<or> fc_spend_watch c = fc_ko c) \<and> (fc_id c \<in> W \<longrightarrow> chan_watched (n_watches nd) c)"
    if "c \<in> set (n_chans nd)" for c
    using assms(1) that by (simp add: watches_ok_def)
  have "(fc_spend_watch c' = None \<or> fc_spend_watch c' = fc_ko c') \<and> (fc_id c' \<in> W \<longrightarrow> chan_watched (n_watches nd) c')"
    if "c' \<in> set cs'" for c'
  proof -
    from that obtain i where i: "i < length cs'" "c' = cs' ! i" by (auto simp: in_set_conv_nth)
    then have "n_chans nd ! i \<in> set (n_chans nd)" using len by simp
    from old [OF this] at [OF i(1)] i(2) show ?thesis unfolding chan_watched_def by metis
  qed
  with h ids assms(1,3,4) show ?thesis by (simp add: watches_ok_def)
qed

lemma watches_ok_load:
  assumes "watches_ok nd W" and "fc_id c \<notin> fc_id ` set (n_chans nd)" and "fc_spend_watch c = None"
  shows "watches_ok (nd\<lparr>n_chans := n_chans nd @ [c]\<rparr>) W"
  using assms by (auto simp: watches_ok_def holders_ok_def) 

lemma watches_ok_attach:
  assumes "watches_ok nd W" and "c \<in> set (n_chans nd)" and "fc_factory c = None" and "sym_factory_attach c f taken = (c', e)"
  shows "watches_ok (nd\<lparr>n_chans := put_chan c' (n_chans nd)\<rparr>) W"
proof (rule watches_ok_map [OF assms(1)])
  have none: "\<not> in_factory out c" for out using assms(3) by (simp add: in_factory_def)
  have "fc_id c \<notin> W" "fc_spend_watch c = None \<or> fc_spend_watch c = fc_ko c"
    using assms(1,2) none by (auto simp: watches_ok_def chan_watched_def)
  moreover have "distinct (map fc_id (n_chans nd))" using assms(1) by (simp add: watches_ok_def holders_ok_def)
  moreover have "fc_id c' = fc_id c" "fc_spend_watch c' = fc_spend_watch c" "fc_ko c' = fc_ko c"
    using assms(4) by (auto simp: sym_factory_attach_def)
  ultimately show "list_all2 (\<lambda>c c'. fc_id c' = fc_id c \<and> (\<forall>out. in_factory out c \<longrightarrow> in_factory out c')
      \<and> (c' = c \<or> fc_spend_watch c' = fc_ko c' \<or> fc_spend_watch c' = None \<and> fc_id c \<notin> W)) (n_chans nd) (put_chan c' (n_chans nd))"
    using none by (intro put_chan_rel [OF _ assms(2)]) auto
qed simp_all

lemma watches_ok_spent:
  assumes "watches_ok nd W" and "factory_spent cr cp uninit tip out txid outputs nd = Some (nd', e)"
  shows "watches_ok nd' W"
proof -
  obtain cs' es where l: "split_loop cr cp uninit tip out txid outputs (n_chans nd) = Some (cs', es)" and nd': "nd' = nd\<lparr>n_chans := cs'\<rparr>"
    using assms(2) by (auto simp: factory_spent_def bind_eq_Some_conv)
  show ?thesis
  proof (rule watches_ok_map [OF assms(1)])
    show "list_all2 (\<lambda>c c'. fc_id c' = fc_id c \<and> (\<forall>out. in_factory out c \<longrightarrow> in_factory out c')
      \<and> (c' = c \<or> fc_spend_watch c' = fc_ko c' \<or> fc_spend_watch c' = None \<and> fc_id c \<notin> W)) (n_chans nd) cs'"
      by (rule list.rel_mono_strong [OF split_loop_all [OF l]])
         (auto simp: in_factory_split dest: channel_split_keeps split: if_splits)
  qed (simp_all add: nd')
qed
lemma chan_watched_mono: "chan_watched ws c \<Longrightarrow> set ws \<subseteq> set ws' \<Longrightarrow> chan_watched ws' c"
  by (auto simp: chan_watched_def)

lemma put_chan_mem: "c \<in> set cs \<Longrightarrow> fc_id c' = fc_id c \<Longrightarrow> c' \<in> set (put_chan c' cs)"
  by (force simp: put_chan_def)

lemma watches_ok_watch:
  assumes "watches_ok nd W" and "c \<in> set (n_chans nd)" and "channel_is_sym_factory c" and "sym_factory_watch cr nd c = Some (nd', e)"
  shows "watches_ok nd' (insert (fc_id c) W)"
proof -
  obtain f where f: "fc_factory c = Some f" using assms(3) by (auto simp: channel_is_sym_factory_def)
  define c' where "c' = (case fc_ko c of Some ko \<Rightarrow> if fc_spend_watch c = None then c\<lparr>fc_spend_watch := Some ko\<rparr> else c | None \<Rightarrow> c)"
  define ws where "ws = (case find_factory_watch (n_watches nd) (f_out f) of
                      Some _ \<Rightarrow> n_watches nd | None \<Rightarrow> n_watches nd @ [\<lparr>fw_out = f_out f, fw_holder = fc_id c\<rparr>])"
  have nd': "nd' = \<lparr>n_chans = put_chan c' (n_chans nd), n_watches = ws\<rparr>"
    using assms(4) f by (auto simp: sym_factory_watch_def bind_eq_Some_conv Let_def c'_def ws_def)
  have old: "fc_spend_watch c = None \<or> fc_spend_watch c = fc_ko c" using assms(1,2) by (simp add: watches_ok_def)
  have c': "fc_id c' = fc_id c" "fc_factory c' = Some f" "fc_type_factory c' = fc_type_factory c" "fc_spend_watch c' = fc_ko c'"
    using old f by (auto simp: c'_def split: option.splits)
  have dist: "distinct (map fc_id (n_chans nd))" using assms(1) by (simp add: watches_ok_def holders_ok_def)
  let ?nd = "nd\<lparr>n_chans := put_chan c' (n_chans nd)\<rparr>"
  have ok: "watches_ok ?nd W"
  proof (rule watches_ok_map [OF assms(1)])
    show "list_all2 (\<lambda>c c'. fc_id c' = fc_id c \<and> (\<forall>out. in_factory out c \<longrightarrow> in_factory out c')
      \<and> (c' = c \<or> fc_spend_watch c' = fc_ko c' \<or> fc_spend_watch c' = None \<and> fc_id c \<notin> W)) (n_chans nd) (put_chan c' (n_chans nd))"
      using c' f by (intro put_chan_rel [OF dist assms(2) c'(1)]) (auto simp: in_factory_cong [of c' c])
  qed simp_all
  have fac: "in_factory (f_out f) c'" using assms(3) c' by (simp add: in_factory_def channel_is_sym_factory_def)
  have mem: "c' \<in> set (put_chan c' (n_chans nd))" using put_chan_mem [OF assms(2) c'(1)] .
  have ws: "set (n_watches nd) \<subseteq> set ws" "\<exists>w \<in> set ws. fw_out w = f_out f" "distinct (map fw_out ws)"
    "w \<in> set ws \<Longrightarrow> w \<in> set (n_watches nd) \<or> fw_holder w = fc_id c' \<and> fw_out w = f_out f" for w
  proof -
    have "distinct (map fw_out (n_watches nd))" using assms(1) by (simp add: watches_ok_def holders_ok_def)
    then show "distinct (map fw_out ws)"
      by (auto simp: ws_def find_factory_watch_def find_None_iff split: option.splits)
    show "set (n_watches nd) \<subseteq> set ws" by (auto simp: ws_def split: option.splits)
    show "\<exists>w \<in> set ws. fw_out w = f_out f"
    proof (cases "find_factory_watch (n_watches nd) (f_out f)")
      case (Some w)
      then have "w \<in> set (n_watches nd) \<and> fw_out w = f_out f" by (auto simp: find_factory_watch_def find_Some_iff)
      with Some show ?thesis by (auto simp: ws_def)
    qed (simp add: ws_def)
    show "w \<in> set ws \<Longrightarrow> w \<in> set (n_watches nd) \<or> fw_holder w = fc_id c' \<and> fw_out w = f_out f"
      by (auto simp: ws_def c'(1) split: option.splits)
  qed
  have "\<exists>d \<in> set (put_chan c' (n_chans nd)). fc_id d = fw_holder w \<and> in_factory (fw_out w) d" if w: "w \<in> set ws" for w
  proof (cases "w \<in> set (n_watches nd)")
    case True
    with ok show ?thesis by (simp add: watches_ok_def holders_ok_def)
  next
    case False
    with ws(4) [OF w] mem fac show ?thesis by (intro bexI [of _ c']) simp_all
  qed
  then have "holders_ok nd'" using ok ws(3) by (simp add: nd' watches_ok_def holders_ok_def)
  moreover have "fc_id c \<in> fc_id ` set (n_chans nd')"
    using imageI [OF mem, of fc_id] c'(1) by (simp add: nd')
  moreover from this have "insert (fc_id c) W \<subseteq> fc_id ` set (n_chans nd')"
    using ok by (simp add: nd' watches_ok_def)
  moreover have "chan_watched ws d" if "d \<in> set (put_chan c' (n_chans nd))" "fc_id d \<in> insert (fc_id c) W" for d
  proof (cases "fc_id d = fc_id c'")
    case True
    then have "d = c'" using that(1) by (auto simp: put_chan_def split: if_splits)
    moreover from ws(2) obtain w where "w \<in> set ws" "fw_out w = f_out f" ..
    ultimately show ?thesis using fac c'(4) unfolding chan_watched_def by (intro conjI bexI [of _ w]) simp_all
  next
    case False
    with that c'(1) ok have "chan_watched (n_watches nd) d" by (auto simp: watches_ok_def)
    then show ?thesis using ws(1) by (rule chan_watched_mono)
  qed
  moreover have "fc_spend_watch d = None \<or> fc_spend_watch d = fc_ko d" if "d \<in> set (put_chan c' (n_chans nd))" for d
    using ok that by (simp add: watches_ok_def)
  ultimately show ?thesis by (auto simp: watches_ok_def nd')
qed

lemma map_filter_watches:
  assumes "\<And>w w'. g w = Some w' \<Longrightarrow> fw_out w' = fw_out w"
  shows "set (List.map_filter g ws) = {w'. \<exists>w \<in> set ws. g w = Some w'}"
    and "distinct (map fw_out ws) \<Longrightarrow> distinct (map fw_out (List.map_filter g ws))"
proof -
  have set: "set (List.map_filter g ws) = {w'. \<exists>w \<in> set ws. g w = Some w'}" for ws
    by (induction ws) (auto simp: List.map_filter_simps split: option.splits)
  then show "set (List.map_filter g ws) = {w'. \<exists>w \<in> set ws. g w = Some w'}" .
  show "distinct (map fw_out ws) \<Longrightarrow> distinct (map fw_out (List.map_filter g ws))"
  proof (induction ws)
    case (Cons w ws)
    then show ?case using assms [of w] set [of ws] assms by (cases "g w") (fastforce simp: List.map_filter_simps)+
  qed (simp add: List.map_filter_simps)
qed

lemma watches_ok_free:
  assumes "watches_ok nd W"
  shows "watches_ok (free_channel nd i) (W - {i})"
proof -
  define g where "g w = (if fw_holder w = i then destroy_holder nd i w else Some w)" for w
  have keep: "fw_out w' = fw_out w" if "g w = Some w'" for w w'
    using that by (auto simp: g_def destroy_holder_def split: if_splits option.splits)
  note mf = map_filter_watches [of g, OF keep]
  have hold: "\<exists>c \<in> set (n_chans nd). fc_id c \<noteq> i \<and> fc_id c = fw_holder w' \<and> in_factory (fw_out w') c"
    if "w \<in> set (n_watches nd)" "g w = Some w'" for w w'
  proof (cases "fw_holder w = i")
    case True
    with that(2) obtain c where c: "find (\<lambda>c. fc_id c \<noteq> i) (factory_channels nd (fw_out w)) = Some c" "w' = w\<lparr>fw_holder := fc_id c\<rparr>"
      by (auto simp: g_def destroy_holder_def split: option.splits)
    then have "c \<in> set (factory_channels nd (fw_out w))" "fc_id c \<noteq> i" by (auto simp: find_Some_iff)
    with c(2) show ?thesis by (auto simp: factory_channels_def)
  next
    case False
    with that(2) have "w' = w" by (simp add: g_def)
    moreover from that(1) assms obtain c where "c \<in> set (n_chans nd)" "fc_id c = fw_holder w" "in_factory (fw_out w) c"
      unfolding watches_ok_def holders_ok_def by blast
    ultimately show ?thesis using False by (intro bexI [of _ c]) simp_all
  qed
  have there: "\<exists>w'. g w = Some w' \<and> fw_out w' = fw_out w" if "c \<in> set (n_chans nd)" "fc_id c \<noteq> i" "in_factory (fw_out w) c" for c w
  proof (cases "fw_holder w = i")
    case True
    have "find (\<lambda>c. fc_id c \<noteq> i) (factory_channels nd (fw_out w)) \<noteq> None"
      using that by (auto simp: find_None_iff factory_channels_def)
    with True show ?thesis by (auto simp: g_def destroy_holder_def)
  qed (simp add: g_def)
  have nd': "free_channel nd i = \<lparr>n_chans = filter (\<lambda>c. fc_id c \<noteq> i) (n_chans nd), n_watches = List.map_filter g (n_watches nd)\<rparr>"
    by (simp add: free_channel_def g_def [abs_def])
  have "holders_ok (free_channel nd i)"
    unfolding holders_ok_def nd'
  proof (intro conjI ballI)
    show "distinct (map fc_id (n_chans \<lparr>n_chans = filter (\<lambda>c. fc_id c \<noteq> i) (n_chans nd), n_watches = List.map_filter g (n_watches nd)\<rparr>))"
      using assms by (simp add: watches_ok_def holders_ok_def distinct_map_filter)
    show "distinct (map fw_out (n_watches \<lparr>n_chans = filter (\<lambda>c. fc_id c \<noteq> i) (n_chans nd), n_watches = List.map_filter g (n_watches nd)\<rparr>))"
      using assms mf(2) by (simp add: watches_ok_def holders_ok_def)
    fix w' assume "w' \<in> set (n_watches \<lparr>n_chans = filter (\<lambda>c. fc_id c \<noteq> i) (n_chans nd), n_watches = List.map_filter g (n_watches nd)\<rparr>)"
    then obtain w where "w \<in> set (n_watches nd)" "g w = Some w'" using mf(1) by auto
    from hold [OF this] show "\<exists>c \<in> set (n_chans \<lparr>n_chans = filter (\<lambda>c. fc_id c \<noteq> i) (n_chans nd), n_watches = List.map_filter g (n_watches nd)\<rparr>).
        fc_id c = fw_holder w' \<and> in_factory (fw_out w') c" by auto
  qed
  moreover have "chan_watched (List.map_filter g (n_watches nd)) c" if c: "c \<in> set (n_chans nd)" "fc_id c \<noteq> i" "fc_id c \<in> W" for c
  proof -
    from assms c have "chan_watched (n_watches nd) c" by (simp add: watches_ok_def)
    then obtain w where w: "w \<in> set (n_watches nd)" "in_factory (fw_out w) c" "fc_spend_watch c = fc_ko c" by (auto simp: chan_watched_def)
    from there [OF c(1,2) w(2)] obtain w' where "g w = Some w'" "fw_out w' = fw_out w" by blast
    moreover have "w' \<in> set (List.map_filter g (n_watches nd))" using w(1) calculation(1) by (auto simp: mf(1))
    ultimately show ?thesis using w(2,3) unfolding chan_watched_def by (intro conjI bexI [of _ w']) simp_all
  qed
  ultimately show ?thesis using assms by (auto simp: watches_ok_def nd')
qed

lemma fruns_ok: "fruns cr cp uninit nd W \<Longrightarrow> watches_ok nd W"
proof (induction rule: fruns.induct)
  case start
  show ?case by (simp add: watches_ok_def holders_ok_def)
qed (blast intro: watches_ok_load watches_ok_attach watches_ok_watch watches_ok_spent watches_ok_free)+
text \<open>
  (C13) In every order of these steps, a channel that was watched and is still there is watched: its
  factory's output has exactly one watch, held by a channel of that factory which is there, and its
  own kickoff output, when the split has paid it, is the one it watches. The watch goes from holder
  to holder as channels go away.
\<close>

theorem factory_stays_watched:
  assumes "fruns cr cp uninit nd W" and "c \<in> set (n_chans nd)" and "fc_id c \<in> W"
  shows "sym_factory_watching nd c = Some True \<and> fc_spend_watch c = fc_ko c
    \<and> (\<exists>!w. w \<in> set (n_watches nd) \<and> in_factory (fw_out w) c)
    \<and> (\<exists>w h. w \<in> set (n_watches nd) \<and> in_factory (fw_out w) c \<and> h \<in> set (n_chans nd) \<and> fc_id h = fw_holder w \<and> in_factory (fw_out w) h)"
proof -
  have ok: "watches_ok nd W" using assms(1) by (rule fruns_ok)
  then have "chan_watched (n_watches nd) c" using assms(2,3) by (simp add: watches_ok_def)
  then obtain w where w: "w \<in> set (n_watches nd)" "in_factory (fw_out w) c" and k: "fc_spend_watch c = fc_ko c"
    by (auto simp: chan_watched_def)
  obtain f where f: "fc_factory c = Some f" "f_out f = fw_out w" using w(2) by (auto simp: in_factory_def)
  have "find_factory_watch (n_watches nd) (f_out f) \<noteq> None" using w(1) f(2) by (auto simp: find_factory_watch_def find_None_iff)
  then have "sym_factory_watching nd c = Some True" using f(1) k by (auto simp: sym_factory_watching_def)
  moreover have "w' = w" if "w' \<in> set (n_watches nd)" "in_factory (fw_out w') c" for w'
  proof -
    have "fw_out w' = fw_out w" using that(2) w(2) by (auto simp: in_factory_def)
    moreover have "inj_on fw_out (set (n_watches nd))" using ok by (simp add: watches_ok_def holders_ok_def distinct_map)
    ultimately show ?thesis using that(1) w(1) by (simp add: inj_on_eq_iff)
  qed
  then have "\<exists>!w. w \<in> set (n_watches nd) \<and> in_factory (fw_out w) c" using w by blast
  moreover obtain h where "h \<in> set (n_chans nd)" "fc_id h = fw_holder w" "in_factory (fw_out w) h"
    using ok w(1) unfolding watches_ok_def holders_ok_def by blast
  ultimately show ?thesis using k w by blast
qed

section \<open>What a close publishes\<close>

lemma best_state_max:
  assumes "sym_best_state c = Some best"
  shows "ss_has_sig best LOCAL \<and> ss_has_sig best REMOTE \<and> (fc_local c = Some best \<or> fc_remote c = Some best)
    \<and> (\<forall>st. (fc_local c = Some st \<or> fc_remote c = Some st) \<and> ss_has_sig st LOCAL \<and> ss_has_sig st REMOTE
         \<longrightarrow> sint (ss_num st) \<le> sint (ss_num best))"
  using assms by (cases "fc_local c"; cases "fc_remote c") (auto simp: sym_best_state_def split: if_splits)

text \<open>
  (C15) A close of a channel whose factory is split publishes the latest state that both sides signed, of
  those the node holds, and what it publishes is accepted: for every transaction that spends the kickoff
  output into that state's output and keeps its asset and value, as the spend's one output says, the leaf and
  the stack of the witness are accepted by every node that finds the signatures good.
\<close>

theorem close_publishes_latest:
  assumes "crypto_ok cr" and "keys_ok (fc_sc c)" and "fc_dev_stale c = None" and "fc_ko c = Some ko"
    and "sym_best_state c = Some best" and "sym_state_tree_of cr (fc_sc c) best uninit = Some tree"
    and "sym_upd_msg cr (fc_sc c) tree = Some msg"
  shows "\<exists>sp. publish_update cr uninit tip c = Some (True, [SPEND_START (fc_id c) sp])
    \<and> sp_out sp = ko \<and> sp_outs sp = [\<lparr>so_amount = sp_amount sp, so_spk = OP_1 # 32 # sym_tree_program tree, so_asset = None\<rparr>]
    \<and> (\<forall>st. (fc_local c = Some st \<or> fc_remote c = Some st) \<and> ss_has_sig st LOCAL \<and> ss_has_sig st REMOTE
         \<longrightarrow> sint (ss_num st) \<le> sint (ss_num best))
    \<and> (\<forall>k. elements_rules cr k \<and> upd_waits k (fc_sc c) \<and> moves_on k tree
         \<and> csfs k (pubkey_to_xonly (sc_opener_key (fc_sc c))) msg (ss_sig best (fc_opener c))
         \<and> csfs k (pubkey_to_xonly (sc_accepter_key (fc_sc c))) msg (ss_sig best (other (fc_opener c)))
         \<longrightarrow> accepts (exec k) (sp_witness sp ! 4) (rev (take 4 (sp_witness sp))))"
proof -
  let ?ko = "sym_kickoff_tree cr (fc_sc c) uninit"
  note best = best_state_max [OF assms(5)]
  have signed: "sym_state_signed best (fc_opener c) = Some (ss_sig best (fc_opener c), ss_sig best (other (fc_opener c)))"
    using best by (simp add: sym_state_signed_def)
  obtain cb where cb: "sym_tree_control_block ?ko SYM_LEAF_UPD = Some cb"
    by (simp add: sym_tree_control_block_def sym_kickoff_tree_def Let_def)
  have upd: "st_upd ?ko = sym_leaf_upd (fc_sc c) (- 1)" by (simp add: sym_kickoff_tree_def Let_def)
  define sp where "sp = \<lparr>sp_out = ko, sp_amount = fc_funding_sats c, sp_spk = sym_tree_spk ?ko,
      sp_witness = sym_update_witness (ss_sig best (fc_opener c)) (ss_sig best (other (fc_opener c))) tree (st_upd ?ko) cb,
      sp_outs = [\<lparr>so_amount = fc_funding_sats c, so_spk = sym_tree_spk tree, so_asset = None\<rparr>],
      sp_sequence = SYM_SEQUENCE, sp_deadline = tip + 6\<rparr>"
  have pub: "publish_update cr uninit tip c = Some (True, [SPEND_START (fc_id c) sp])"
    by (simp add: publish_update_def assms(3,4,5) signed assms(6) cb sp_def Let_def)
  have tree: "sym_state_tree cr (fc_sc c) (ss_num best) (sym_state_outputs best) None uninit = Some tree"
    using assms(6) by (simp add: sym_state_tree_of_def)
  have "st_n tree = ss_num best" using tree by (auto simp: sym_state_tree_def Let_def bind_eq_Some_conv)
  then have num: "sint (- 1 :: u64) < sint (ss_num best)" using assms(7) by (simp add: sym_upd_msg_def split: if_splits)
  have "accepts (exec k) (sp_witness sp ! 4) (rev (take 4 (sp_witness sp)))"
    if "elements_rules cr k" "upd_waits k (fc_sc c)" "moves_on k tree"
      "csfs k (pubkey_to_xonly (sc_opener_key (fc_sc c))) msg (ss_sig best (fc_opener c))"
      "csfs k (pubkey_to_xonly (sc_accepter_key (fc_sc c))) msg (ss_sig best (other (fc_opener c)))" for k
  proof -
    have "sp_witness sp ! 4 = sym_leaf_upd (fc_sc c) (- 1)" by (simp add: sp_def sym_update_witness_def upd)
    then show ?thesis
      using update_accepted_iff [OF assms(1) that(1) assms(2) that(2) tree assms(7) that(3-5), of "- 1" "st_upd ?ko" cb] num
      by (simp add: sp_def)
  qed
  moreover have "sp_outs sp = [\<lparr>so_amount = sp_amount sp, so_spk = OP_1 # 32 # sym_tree_program tree, so_asset = None\<rparr>]" "sp_out sp = ko"
    by (simp_all add: sp_def sym_tree_spk_def)
  ultimately show ?thesis using pub best by blast
qed
section \<open>A node with two channels in one factory\<close>

definition demo_fchan :: "nat \<Rightarrow> u16 \<Rightarrow> fchan" where
  "demo_fchan i slot =
     \<lparr>fc_id = i, fc_type_factory = True, fc_factory = Some (demo_factory\<lparr>f_slot := slot\<rparr>), fc_ko = None, fc_spend_watch = None,
      fc_awaiting_unilateral = False, fc_opener = LOCAL, fc_funding_sats = AMOUNT_SAT 1000, fc_sc = demo_sym_channel,
      fc_local = None, fc_remote = None, fc_dev_stale = None\<rparr>"

definition demo_fnode :: fnode where
  "demo_fnode = \<lparr>n_chans = [demo_fchan 0 0, demo_fchan 1 1], n_watches = [\<lparr>fw_out = f_out demo_factory, fw_holder = 0\<rparr>]\<rparr>"

lemma demo_value: "\<exists>t. sym_factory_value demo_slots = Some t"
proof (cases "sym_factory_value demo_slots")
  case None
  from factory_value_None [OF this] show ?thesis by (simp add: demo_slots_def)
qed simp

lemma demo_factory_spk: "\<exists>spk. sym_factory_spk demo_crypto (1 # replicate 32 9) demo_slots = Some spk"
  by (simp add: sym_factory_spk_def factory_key_def sym_leaf_split_def demo_slots_def Let_def)

lemma demo_fruns: "fruns demo_crypto net_sequentia_testnet demo_sym_tree demo_fnode {0, 1}"
proof -
  let ?run = "fruns demo_crypto net_sequentia_testnet demo_sym_tree"
  obtain t spk where t: "sym_factory_value demo_slots = Some t" "sym_factory_spk demo_crypto (1 # replicate 32 9) demo_slots = Some spk"
    using demo_value demo_factory_spk by blast
  have id: "fc_id (demo_fchan i s) = i" "fc_spend_watch (demo_fchan i s) = None" "channel_is_sym_factory (demo_fchan i s)" for i s
    by (simp_all add: demo_fchan_def channel_is_sym_factory_def)
  have w: "\<exists>e. sym_factory_watch demo_crypto \<lparr>n_chans = cs, n_watches = ws\<rparr> (demo_fchan i s)
      = Some (\<lparr>n_chans = put_chan (demo_fchan i s) cs,
          n_watches = (case find_factory_watch ws (f_out demo_factory) of Some _ \<Rightarrow> ws | None \<Rightarrow> ws @ [\<lparr>fw_out = f_out demo_factory, fw_holder = i\<rparr>])\<rparr>, e)"
    for cs ws i s
    using t by (simp add: sym_factory_watch_def demo_fchan_def demo_factory_def split: option.split)
  have two: "?run \<lparr>n_chans = [demo_fchan 0 0, demo_fchan 1 1], n_watches = []\<rparr> {}"
    using fruns.load [OF fruns.load [OF fruns.start, of "demo_fchan 0 0"], of "demo_fchan 1 1"] by (simp add: id)
  obtain e where "sym_factory_watch demo_crypto \<lparr>n_chans = [demo_fchan 0 0, demo_fchan 1 1], n_watches = []\<rparr> (demo_fchan 0 0)
      = Some (demo_fnode, e)"
    using w [of "[demo_fchan 0 0, demo_fchan 1 1]" "[]" 0 0] by (auto simp: put_chan_def id find_factory_watch_def demo_fnode_def)
  from fruns.watch [OF two _ id(3) this] have one: "?run demo_fnode {0}" by (simp add: id)
  obtain e' where "sym_factory_watch demo_crypto demo_fnode (demo_fchan 1 1) = Some (demo_fnode, e')"
    using w [of "[demo_fchan 0 0, demo_fchan 1 1]" "[\<lparr>fw_out = f_out demo_factory, fw_holder = 0\<rparr>]" 1 1]
    by (auto simp: put_chan_def id find_factory_watch_def demo_fnode_def)
  from fruns.watch [OF one _ id(3) this] show ?thesis by (simp add: id demo_fnode_def insert_commute)
qed

theorem factory_stays_watched_witness:
  "sym_factory_watching (free_channel demo_fnode 0) (demo_fchan 1 1) = Some True
   \<and> n_watches (free_channel demo_fnode 0) = [\<lparr>fw_out = f_out demo_factory, fw_holder = 1\<rparr>]"
proof -
  have free: "n_chans (free_channel demo_fnode 0) = [demo_fchan 1 1]"
    "n_watches (free_channel demo_fnode 0) = [\<lparr>fw_out = f_out demo_factory, fw_holder = 1\<rparr>]"
    by (simp_all add: free_channel_def demo_fnode_def demo_fchan_def destroy_holder_def factory_channels_def in_factory_def
        channel_is_sym_factory_def demo_factory_def List.map_filter_simps)
  moreover have "fc_id (demo_fchan 1 1) \<in> {0, 1} - {0}" by (simp add: demo_fchan_def)
  ultimately show ?thesis
    using factory_stays_watched [OF fruns.free [OF demo_fruns, of 0], of "demo_fchan 1 1"] by simp
qed

definition demo_split_outs :: "wally_tx_output list" where
  "demo_split_outs =
     [\<lparr>txo_script = OP_1 # 32 # replicate 32 4, txo_satoshi = 0, txo_asset = 1 # replicate 32 9, txo_value = [1, 0, 0, 0, 0, 0, 0, 3, 0xe8]\<rparr>,
      \<lparr>txo_script = OP_1 # 32 # replicate 32 5, txo_satoshi = 0, txo_asset = 1 # replicate 32 9, txo_value = [1, 0, 0, 0, 0, 0, 0, 3, 0xe8]\<rparr>]"

lemma demo_split:
  "factory_spent demo_crypto net_sequentia_testnet demo_sym_tree 7 (f_out demo_factory) [8] demo_split_outs demo_fnode
     = Some (demo_fnode\<lparr>n_chans := map (\<lambda>(c, n). c\<lparr>fc_ko := Some \<lparr>outpoint_txid = [8], outpoint_n = n\<rparr>,
                fc_spend_watch := Some \<lparr>outpoint_txid = [8], outpoint_n = n\<rparr>\<rparr>) [(demo_fchan 0 0, 0), (demo_fchan 1 1, 1)]\<rparr>,
             [NOTE_SPENT 0 (f_out demo_factory), FACTORY_SAVE 0, NOTE_SPENT 1 (f_out demo_factory), FACTORY_SAVE 1])"
proof -
  have e: "is_elements net_sequentia_testnet" by (simp add: net_sequentia_testnet_def)
  have ko: "ko_of net_sequentia_testnet (demo_factory\<lparr>f_slot := s\<rparr>) [8] demo_split_outs = Some (Some \<lparr>outpoint_txid = [8], outpoint_n = ucast s\<rparr>)"
    if "s = 0 \<or> s = 1" for s
    using that by (auto simp: ko_of_def sym_factory_ko_spk_def demo_factory_def demo_slots_def demo_split_outs_def
        wally_tx_output_get_amount_def amount_asset_is_def e)
  have "in_factory (f_out demo_factory) (demo_fchan i s)" for i s
    by (simp add: in_factory_def channel_is_sym_factory_def demo_fchan_def demo_factory_def)
  moreover have "channel_split demo_crypto net_sequentia_testnet demo_sym_tree 7 out [8] demo_split_outs (demo_fchan i s)
      = Some ((demo_fchan i s)\<lparr>fc_ko := Some \<lparr>outpoint_txid = [8], outpoint_n = ucast s\<rparr>,
          fc_spend_watch := Some \<lparr>outpoint_txid = [8], outpoint_n = ucast s\<rparr>\<rparr>, [NOTE_SPENT i out, FACTORY_SAVE i])"
    if "s = 0 \<or> s = 1" for i s out
    using ko [OF that] by (simp add: channel_split_def demo_fchan_def)
  ultimately show ?thesis by (simp add: factory_spent_def demo_fnode_def)
qed

theorem split_moves_channels_witness:
  "\<exists>nd' es. factory_spent demo_crypto net_sequentia_testnet demo_sym_tree 7 (f_out demo_factory) [8] demo_split_outs demo_fnode = Some (nd', es)
     \<and> factory_spent demo_crypto net_sequentia_testnet demo_sym_tree 9 (f_out demo_factory) [8] demo_split_outs nd'
         = Some (nd', map (\<lambda>c. NOTE_SPENT (fc_id c) (f_out demo_factory)) (factory_channels nd' (f_out demo_factory)))
     \<and> fc_ko (n_chans nd' ! 1) = Some \<lparr>outpoint_txid = [8], outpoint_n = 1\<rparr>"
proof -
  have w: "\<forall>c \<in> set (n_chans demo_fnode). fc_spend_watch c = fc_ko c"
      "\<forall>c \<in> set (n_chans demo_fnode). \<forall>f. fc_factory c = Some f \<longrightarrow> f_asset f ! 0 = 1"
      "is_elements net_sequentia_testnet"
    by (simp_all add: demo_fnode_def demo_fchan_def demo_factory_def net_sequentia_testnet_def)
  have pays: "pays_kickoff (demo_factory\<lparr>f_slot := 1\<rparr>) demo_split_outs"
    by (simp add: pays_kickoff_def Let_def demo_factory_def demo_slots_def demo_split_outs_def)
  have "in_factory (f_out demo_factory) (demo_fchan 1 1)" "fc_factory (demo_fchan 1 1) = Some (demo_factory\<lparr>f_slot := 1\<rparr>)"
      "n_chans demo_fnode ! 1 = demo_fchan 1 1"
    by (simp_all add: in_factory_def channel_is_sym_factory_def demo_fchan_def demo_factory_def demo_fnode_def)
  with pays show ?thesis using split_moves_channels [OF demo_split w(1,3,2), of 9] demo_split
    by (auto simp: demo_fnode_def)
qed

theorem close_publishes_latest_witness:
  "\<exists>c t sp. publish_update demo_crypto demo_sym_tree 7 c = Some (True, [SPEND_START 0 sp])
     \<and> accepts (exec (demo_spend (replicate 4 0) [demo_shown (replicate 32 4) [1]] [demo_shown (sym_tree_program t) [1]] 0))
         (sp_witness sp ! 4) (rev (take 4 (sp_witness sp)))"
proof -
  define best where "best = (sym_state_new LOCAL 2 5 [demo_sym_output])\<lparr>ss_has_sig := \<lambda>_. True, ss_sig := \<lambda>_. [1]\<rparr>"
  define c where "c = (demo_fchan 0 0)\<lparr>fc_ko := Some \<lparr>outpoint_txid = [8], outpoint_n = 0\<rparr>, fc_local := Some best\<rparr>"
  have outs: "sym_state_outputs best = [demo_sym_output]"
    by (simp add: sym_state_outputs_def best_def sym_state_new_def demo_sym_output_def)
  obtain t where t: "sym_state_tree demo_crypto demo_sym_channel 5 [demo_sym_output] None demo_sym_tree = Some t"
    using demo_state_tree by blast
  have "ss_num best = 5" by (simp add: best_def sym_state_new_def)
  then have tree: "sym_state_tree_of demo_crypto (fc_sc c) best demo_sym_tree = Some t"
    using t by (simp add: sym_state_tree_of_def outs c_def demo_fchan_def)
  have "st_n t = 5" using t by (auto simp: sym_state_tree_def Let_def bind_eq_Some_conv)
  then obtain msg where msg: "sym_upd_msg demo_crypto (fc_sc c) t = Some msg" by (simp add: sym_upd_msg_def)
  have cs: "fc_dev_stale c = None" "fc_ko c = Some \<lparr>outpoint_txid = [8], outpoint_n = 0\<rparr>" "sym_best_state c = Some best"
      "keys_ok (fc_sc c)" "fc_id c = 0"
    using demo_keys_ok by (simp_all add: c_def demo_fchan_def sym_best_state_def best_def)
  let ?k = "demo_spend (replicate 4 0) [demo_shown (replicate 32 4) [1]] [demo_shown (sym_tree_program t) [1]] 0"
  have k: "elements_rules demo_crypto ?k" by (rule demo_spend_rules) (simp_all add: shown_ok_demo sym_tree_program_def)
  have w: "upd_waits ?k (fc_sc c)" by (simp add: upd_waits_def demo_sym_channel_def c_def demo_fchan_def)
  have m: "moves_on ?k t" by (simp add: moves_on_def demo_shown_def)
  have sig: "csfs ?k a b (ss_sig best s)" for a b s by (simp add: best_def)
  from close_publishes_latest [OF demo_crypto_ok cs(4,1,2,3) tree msg, of 7] k w m sig cs(5) show ?thesis by metis
qed

end
