(* ===== verification/Spec2Isabelle.thy ===== *)
theory Spec2Isabelle
  imports SymRuns Reestablish Closing Tlv FactoryWatch
begin

text \<open>
  SeqLN is a fork of Core Lightning for Sequentia. A node is a set of processes:
  \<^verbatim>\<open>lightningd\<close> starts one \<^verbatim>\<open>channeld\<close> per open channel, which talks to the peer and to
  \<^verbatim>\<open>lightningd\<close> and keeps the two commitments of the channel in step; \<^verbatim>\<open>openingd\<close>,
  \<^verbatim>\<open>closingd\<close> and \<^verbatim>\<open>onchaind\<close> take the channel before and after that, \<^verbatim>\<open>hsmd\<close> signs,
  \<^verbatim>\<open>gossipd\<close> and \<^verbatim>\<open>connectd\<close> do the rest of the network. Beyond Core Lightning the fork has symmetric
  channels: a channel of several assets (lanes), whose state is published by an update
  transaction and settled after a delay, with taproot scripts of its own and swaps between the lanes.
  This development models the code that decides who owns what: amounts and fees, the channel state
  machine, the daemon that drives it, the close, the scripts of symmetric channels, what these let a transaction do,
  their settlement and their factories, and the wire encoding all this rests on.

  \<^bold>\<open>Conventions.\<close> C integers are words of their width, so that every addition wraps as in C; the places where
  the code tests for overflow return an option or a boolean as the code does. A call of
  \<^verbatim>\<open>abort\<close> or a failed assertion is \<open>None\<close> of the type \<open>'a run\<close> of \<open>Prelude\<close>; an error
  the code returns is a constructor of the enumeration the code has. Structs are records, with the names of their
  fields. What a function writes through a pointer is part of its result. Hashes, curve operations,
  signatures and the functions of \<^verbatim>\<open>libwally\<close> and \<^verbatim>\<open>libsecp256k1\<close> are arguments of the definitions
  that call them; where a theorem relies on one (that a hash is 32 bytes long, that a
  signature made over a commitment verifies over it) the law is a premise of the theorem. Loops are structural
  recursions over the list or the bit the loop counts; no definition of the development has fuel, and the few whose
  recursion is on a number have their termination proved.

  \<^bold>\<open>Money.\<close> \<open>Amounts\<close> and \<open>Fees\<close> are \<^verbatim>\<open>common/amount.c\<close>, \<^verbatim>\<open>common/overflows.h\<close>,
  \<^verbatim>\<open>bitcoin/feerate.c\<close> and the weights and trimming of \<^verbatim>\<open>bitcoin/tx.h\<close>, \<^verbatim>\<open>common/htlc_tx.h\<close>,
  \<^verbatim>\<open>common/htlc_trim.c\<close>. The theorems say when each operation is exact, what
  it returns otherwise, in which direction it rounds, and that the portable multiply-and-divide equals the
  128-bit one. \<open>Chainparams\<close> is the table of networks.

  \<^bold>\<open>The state machine of a channel.\<close> \<open>HtlcStates\<close> and \<open>FeeStates\<close> are the twenty states of an HTLC with
  their flags and the slots of a feerate or blockheight on its way; \<open>Features\<close> the feature bits and channel types;
  \<open>InitialChannel\<close> the structs and the channel a funding starts with; \<open>Lanes\<close> the lanes of
  \<^verbatim>\<open>common/sym_lanes.c\<close>; \<open>CommitTx\<close> the outputs of a commitment transaction; \<open>FullChannel\<close>
  every operation of \<^verbatim>\<open>channeld/full_channel.c\<close> on a channel, with every error of
  \<^verbatim>\<open>add_htlc\<close> in the order of the code. Three theories are about sequences of these operations:
  \<open>Balances\<close> and \<open>ChannelRuns\<close> show that the money of each lane is conserved in every state
  that a fresh channel reaches, and \<open>Solvency\<close> that no commitment event ever stops the daemon on a negative
  balance. Both are for amounts and fundings below \<open>2 ^ 61\<close>: a balance is a signed 64-bit number
  from which an unsigned amount is subtracted, and without a bound the code does accept an HTLC that
  wraps (\<open>ChannelRuns.add_htlc_accepts_wrapping_amount\<close>).

  \<^bold>\<open>The daemon and its peer.\<close> \<open>Channeld\<close> is \<^verbatim>\<open>channeld/channeld.c\<close>: each handler of a peer message, of an
  order of \<^verbatim>\<open>lightningd\<close> and of the commit timer, as a function of the daemon's state that returns the
  new state and what was sent, or the error the daemon exits with. The composition of two of them is shown
  in layers. \<open>Duplex\<close> is the locale of two parties that keep a copy of one state each and exchange
  messages that commute; \<open>Ledger\<close> interprets it on the list of every HTLC with the position of its life;
  \<open>Tracking\<close> shows that a channel of \<open>FullChannel\<close> follows such a ledger through every
  operation; \<open>Exchange\<close> lifts both to messages; \<open>Network\<close> is the step relation of two
  daemons over two queues, in every interleaving, with its invariant; \<open>Peers\<close> concludes that the two daemons agree on
  both commitments and that neither ever accuses the other. The environment of a daemon (secrets of a commitment, signing,
  verifying, limits) is the record \<open>channeld_env\<close>. The peers do not swap lanes or splice in these runs, and the ids of HTLCs stay below the \<open>2 ^ 64\<close> that the code counts to; the
  signatures of \<open>honest_not_accused\<close> are those of a channel without \<^verbatim>\<open>OPT_SEQ_SYMMETRIC\<close>.
  \<open>Reestablish\<close> is \<^verbatim>\<open>peer_reconnect\<close>, for a channel without a splice on its way, with what lightningd keeps for it: when the connection breaks at any
  point of such a run, the two daemons find each other in step and send again exactly the revocations and signatures
  that were lost, with the same secrets and on the same commitments, indices and points. Each daemon goes on with the state it had in memory, not with
  one read back from the database of lightningd. The updates that lightningd had not been told of, which a restart forgets on both sides, have no part in this.

  \<^bold>\<open>Symmetric channels.\<close> \<open>Script\<close> is \<^verbatim>\<open>bitcoin/script.c\<close>, \<open>Tapscript\<close> the trees of
  \<^verbatim>\<open>bitcoin/tapscript.c\<close>, \<open>SymScripts\<close> the leaves, trees, witnesses and parsers of
  \<^verbatim>\<open>common/sym_scripts.c\<close>, \<open>Settlement\<close> the outputs that a state settles to. They show that each leaf
  opens the output it is in, that a watcher rebuilds the tree of a state from the witness of its update, that
  the encoder of numbers is that of \<^verbatim>\<open>bitcoin/script.c\<close>, and that a settlement pays out its funding exactly.
  \<open>SymRuns\<close> joins this with the state machine: whatever a channel reaches with amounts below \<open>2 ^ 61\<close>, its
  state can be built and settles.

  \<^bold>\<open>What the chain enforces.\<close> The leaves are programs for the script machine of an Elements node, which is
  no code of this repository. \<open>Elements\<close> runs a leaf byte by byte over a machine that is an argument, a
  \<open>checker\<close>; what the instructions do to the stack and which parts of the transaction they show is the
  predicate \<open>elements_rules\<close>, taken from the comments of \<^verbatim>\<open>common/sym_scripts.h\<close>, and a reference machine
  (\<open>ref_checker\<close>) obeys it. \<open>Covenant\<close> gives, for UPD, SETTLE, the HTLC leaves and the leaves of the settle clock, exactly the
  witnesses and transactions that are accepted: an update needs a higher state number, both signatures and an
  output of version 1 with the same value and asset; a settlement needs the delay and outputs that hash as those of the state. What
  is signed or hashed runs a program together with what follows it, so neither fixes the script: with the
  signatures of a state, UPD also accepts programs that are no taproot output (\<open>Covenant.update_pays_unprotected\<close>).
  \<open>SymWire\<close> is how lanes, swaps and states are written (\<^verbatim>\<open>common/sym_lanes.c\<close>, \<^verbatim>\<open>common/sym_state.c\<close>).

  \<^bold>\<open>Channel factories.\<close> \<open>SymFactory\<close> is \<^verbatim>\<open>common/sym_factory.c\<close>: the leaf SPLIT, what it accepts, the check of a
  member and the wire format. SPLIT hashes the program and the version of an output in one run of bytes, so that it also accepts
  outputs nobody can spend (\<open>SymFactory.split_accepts_burning\<close>). \<open>FactoryWatch\<close> is
  \<^verbatim>\<open>lightningd/sym_factory.c\<close> as a step relation over the channels and watches of a node: no factory is ever left unwatched while
  a channel of it is there, a split moves every channel to its own output, also after a reorganization, and a close publishes the latest signed state.

  \<^bold>\<open>Closing.\<close> \<open>CloseTx\<close> is the transaction of a mutual close (\<^verbatim>\<open>common/close_tx.c\<close>,
  \<^verbatim>\<open>common/permute_tx.c\<close> and what they use of \<^verbatim>\<open>bitcoin/tx.c\<close>): it is balanced in every asset, and both sides
  build the same one as long as no share lies between their dust limits, which need not be equal. \<open>Closing\<close> is \<^verbatim>\<open>closingd/closingd.c\<close>, as the state in which it waits for the next
  offer and what it does with one. The negotiation ends against every peer, within as many offers as the balance
  of the payer has satoshis; it agrees only on what both have signed; two daemons with overlapping
  ranges, and fees that leave both the same closing transaction, agree within three offers. It may agree on a fee below our own minimum, which
  lightningd then has no signature for (\<open>Closing.closing_agrees_below_minimum\<close>).

  \<^bold>\<open>Wire.\<close> \<open>Wire\<close> is \<^verbatim>\<open>wire/towire.c\<close>, \<^verbatim>\<open>wire/fromwire.c\<close>, \<^verbatim>\<open>common/bigsize.c\<close> and
  \<^verbatim>\<open>bitcoin/varint.c\<close>: everything that is written reads back, and only the shortest encoding of a
  number is read. \<open>Tlv\<close> is \<^verbatim>\<open>wire/tlvstream.c\<close>, with the table of known types as an argument whose contract is the
  locale \<open>tlv_table\<close>: it accepts exactly the well-formed streams, records come back with their unknown
  fields, and a stream that was read is written again byte for byte. \<open>Sorts\<close> is the sort of \<^verbatim>\<open>ccan/asort\<close>.

  \<^bold>\<open>Not modelled.\<close> The splice dialogue of \<^verbatim>\<open>channeld.c\<close>, \<^verbatim>\<open>openingd\<close>,
  \<^verbatim>\<open>dualopend\<close> and \<^verbatim>\<open>onchaind\<close>, which build and read transactions of \<^verbatim>\<open>libwally\<close>; \<^verbatim>\<open>hsmd\<close>, which is
  cryptography; the rest of \<^verbatim>\<open>lightningd\<close>, the wallet and the plugins, which are RPC and SQL around the
  daemons; gossip and connections. Operations on floating point numbers, logging and printing are left out
  everywhere.
\<close>

end
